(* ===== verification/Prelude.thy ===== *)
theory Prelude
  imports Main "HOL-Library.Word" "HOL-Library.Monad_Syntax"
begin

text \<open>
  Shared vocabulary of the development: the machine integers of the code, the address space
  the code reads, C's checked arithmetic, and the generic lemmas the components use.

  \<^item> \<open>u8\<close>, \<open>u16\<close>, \<open>u32\<close>, \<open>u64\<close> are the C unsigned types at their width; signed C types of the
    same width share the representation (\<open>s32\<close>, \<open>s64\<close>) and are read with \<open>sint\<close>.
  \<^item> A computation that C gives a meaning to is \<open>Some r\<close>; \<open>None\<close> stands for an execution that
    C leaves without a result: a load from an address that is not mapped, a shift by at least
    the width or whose result does not fit, a signed addition or multiplication that overflows,
    pointer arithmetic that leaves the address space.
  \<^item> \<open>env\<close> is what lies outside the code: the bytes a direct load sees (\<open>mem\<close>) and the kernel
    call \<open>vm_read_overwrite\<close> that \<open>FIRCLSReadMemory\<close> makes (\<open>vm_read\<close>).
  \<^item> \<open>'a ptr\<close> is a pointer to an object that may be null; \<open>addr_of\<close> passes the address of
    an object the caller owns.
\<close>

unbundle bit_operations_syntax

section \<open>Machine integers\<close>

type_synonym u8 = "8 word"
type_synonym u16 = "16 word"
type_synonym u32 = "32 word"
type_synonym u64 = "64 word"
type_synonym s32 = "32 word"
type_synonym s64 = "64 word"

declare Option.bind_cong [fundef_cong]

named_theorems c_arith \<open>definitions of the C arithmetic, for unfolding\<close>
named_theorems c_eval \<open>equations that evaluate the model on a concrete input\<close>
named_theorems mono_cursor \<open>readers that only move their cursor forward\<close>

definition in_s64 :: "int \<Rightarrow> bool" where
  [c_arith]: "in_s64 i \<longleftrightarrow> - (2 ^ 63) \<le> i \<and> i < 2 ^ 63"

definition sadd64 :: "s64 \<Rightarrow> s64 \<Rightarrow> s64 option" where
  [c_arith]: "sadd64 a b = (if in_s64 (sint a + sint b) then Some (a + b) else None)"

definition smul64 :: "s64 \<Rightarrow> s64 \<Rightarrow> s64 option" where
  [c_arith]: "smul64 a b = (if in_s64 (sint a * sint b) then Some (a * b) else None)"

definition sshl32 :: "s32 \<Rightarrow> nat \<Rightarrow> s32 option" where
  [c_arith]: "sshl32 a n = (if n < 32 \<and> 0 \<le> sint a \<and> sint a * 2 ^ n < 2 ^ 31
                then Some (push_bit n a) else None)"

definition ptr_add :: "u64 \<Rightarrow> u64 \<Rightarrow> u64 option" where
  [c_arith]: "ptr_add p n = (if p \<le> p + n then Some (p + n) else None)"

definition ptr_sub :: "u64 \<Rightarrow> u64 \<Rightarrow> u64 option" where
  [c_arith]: "ptr_sub p n = (if n \<le> p then Some (p - n) else None)"

lemma u64_less: "unat (x :: u64) < 2 ^ 64"
  using unsigned_less [of x] by simp

lemma unat_of_nat64 [simp]: "n < 2 ^ 64 \<Longrightarrow> unat (of_nat n :: u64) = n"
  by (simp add: unat_of_nat)

lemma unat_of_nat32: "n < 2 ^ 32 \<Longrightarrow> unat (of_nat n :: u32) = n"
  by (simp add: unat_of_nat)

lemma no_wrap_iff: "(p :: u64) \<le> p + n \<longleftrightarrow> unat p + unat n < 2 ^ 64"
  using no_plus_overflow_unat_size [of p n] by (simp add: word_size)

lemma unat_ptr_add: "ptr_add p n = Some q \<Longrightarrow> unat q = unat p + unat n"
  by (auto simp: ptr_add_def no_wrap_iff unat_word_ariths split: if_splits)

lemma ptr_add_Some: "ptr_add p n = Some q \<longleftrightarrow> q = p + n \<and> unat p + unat n < 2 ^ 64"
  by (auto simp: ptr_add_def no_wrap_iff)

lemma ptr_add_0 [simp]: "ptr_add p 0 = Some p"
  by (simp add: ptr_add_def)

lemma ptr_add_less [mono_cursor]: "ptr_add p n = Some q \<Longrightarrow> n \<noteq> 0 \<Longrightarrow> unat p < unat q"
  by (drule unat_ptr_add) (simp add: unat_gt_0)

lemma ptr_add_le [mono_cursor]: "ptr_add p n = Some q \<Longrightarrow> unat p \<le> unat q"
  by (drule unat_ptr_add) simp

lemmas [c_eval] = c_arith Let_def

text \<open>Evaluates a bound computation before the code that uses its result.\<close>

lemma bind_weak_cong: "x = y \<Longrightarrow> Option.bind x f = Option.bind y f"
  by simp

section \<open>Pointers to objects\<close>

type_synonym 'a ptr = "'a option"

text \<open>
  \<open>f (&x)\<close>: the callee gets a valid pointer to \<open>x\<close> and gives back its result with the object
  as it left it.
\<close>

definition addr_of :: "'a \<Rightarrow> ('a ptr \<Rightarrow> 'r \<times> 'a ptr) \<Rightarrow> 'r \<times> 'a" where
  "addr_of x f = (case f (Some x) of (r, p) \<Rightarrow> (r, case p of None \<Rightarrow> x | Some y \<Rightarrow> y))"

definition addr_ofM :: "'a \<Rightarrow> ('a ptr \<Rightarrow> ('r \<times> 'a ptr) option) \<Rightarrow> ('r \<times> 'a) option" where
  "addr_ofM x f = map_option (\<lambda>(r, p). (r, case p of None \<Rightarrow> x | Some y \<Rightarrow> y)) (f (Some x))"

lemma addr_of_eq [simp]: "f (Some x) = (r, Some y) \<Longrightarrow> addr_of x f = (r, y)"
  by (simp add: addr_of_def)

lemma addr_ofM_Some [simp]: "f (Some x) = Some (r, Some y) \<Longrightarrow> addr_ofM x f = Some (r, y)"
  by (simp add: addr_ofM_def)

lemma addr_ofM_None [simp]: "f (Some x) = None \<Longrightarrow> addr_ofM x f = None"
  by (simp add: addr_ofM_def)

section \<open>The address space\<close>

record env =
  mem :: "u64 \<Rightarrow> u8 option"
  vm_read :: "u64 \<Rightarrow> nat \<Rightarrow> u8 list option"

primrec le_nat :: "u8 list \<Rightarrow> nat" where
  "le_nat [] = 0"
| "le_nat (b # bs) = unat b + 256 * le_nat bs"

text \<open>A direct load of \<open>n\<close> bytes, little endian as on every CPU the code supports.\<close>

primrec load_bytes :: "env \<Rightarrow> u64 \<Rightarrow> nat \<Rightarrow> u8 list option" where
  "load_bytes e a 0 = Some []"
| "load_bytes e a (Suc n) =
     do { b \<leftarrow> mem e a; bs \<leftarrow> load_bytes e (a + 1) n; Some (b # bs) }"

lemma load_bytes_numeral [c_eval]:
  "load_bytes e a (numeral k) =
     do { b \<leftarrow> mem e a; bs \<leftarrow> load_bytes e (a + 1) (pred_numeral k); Some (b # bs) }"
  by (simp add: numeral_eq_Suc)

definition load :: "env \<Rightarrow> u64 \<Rightarrow> nat \<Rightarrow> 'l::len word option" where
  [c_eval]: "load e a n = map_option (\<lambda>bs. of_nat (le_nat bs)) (load_bytes e a n)"

text \<open>
  \<open>mem_has e a bs\<close>: the bytes \<open>bs\<close> lie at \<open>a\<close>, inside the address space.
\<close>

primrec mem_has :: "env \<Rightarrow> u64 \<Rightarrow> u8 list \<Rightarrow> bool" where
  "mem_has e a [] = True"
| "mem_has e a (b # bs) = (mem e a = Some b \<and> unat a + 1 < 2 ^ 64 \<and> mem_has e (a + 1) bs)"

lemma le_nat_less: "le_nat bs < 256 ^ length bs"
proof (induction bs)
  case (Cons b bs)
  have "unat b < 256" using unsigned_less [of b] by simp
  moreover have "le_nat bs + 1 \<le> 256 ^ length bs" using Cons.IH by simp
  then have "256 * (le_nat bs + 1) \<le> 256 ^ length (b # bs)" by simp
  ultimately show ?case by simp
qed simp

lemma load_bytes_length: "load_bytes e a n = Some bs \<Longrightarrow> length bs = n"
  by (induction n arbitrary: a bs) (auto simp: bind_eq_Some_conv)

lemma ptr_add_1: "unat (a :: u64) + 1 < 2 ^ 64 \<Longrightarrow> ptr_add a 1 = Some (a + 1)"
  by (simp add: ptr_add_Some)

lemma unat_plus_1: "unat (a :: u64) + 1 < 2 ^ 64 \<Longrightarrow> unat (a + 1) = unat a + 1"
  by (simp add: unat_word_ariths)

lemma mem_has_load: "mem_has e a bs \<Longrightarrow> load_bytes e a (length bs) = Some bs"
  by (induction bs arbitrary: a) auto

lemma mem_has_bound: "mem_has e a bs \<Longrightarrow> unat a + length bs < 2 ^ 64"
proof (induction bs arbitrary: a)
  case Nil
  show ?case using unsigned_less [of a] by simp
next
  case (Cons b bs)
  then show ?case by (auto simp: unat_plus_1 dest!: Cons.IH)
qed

lemma mem_has_ptr_add:
  "mem_has e a bs \<Longrightarrow> ptr_add a (of_nat (length bs)) = Some (a + of_nat (length bs))"
  by (drule mem_has_bound) (simp add: ptr_add_Some)

lemma mem_has_append:
  "mem_has e a (xs @ ys) \<longleftrightarrow> mem_has e a xs \<and> mem_has e (a + of_nat (length xs)) ys"
  by (induction xs arbitrary: a) (auto simp: add.assoc)

section \<open>Pointers the code accepts and memory it reads through the kernel\<close>

definition FIRCLSIsValidPointer :: "u64 \<Rightarrow> bool" where
  [c_eval]: "FIRCLSIsValidPointer x \<longleftrightarrow> 4096 \<le> x"

definition FIRCLSReadMemory :: "env \<Rightarrow> u64 \<Rightarrow> nat \<Rightarrow> u8 list option" where
  [c_eval]: "FIRCLSReadMemory e src n = (if \<not> FIRCLSIsValidPointer src then None else vm_read e src n)"

definition read_word :: "env \<Rightarrow> u64 \<Rightarrow> nat \<Rightarrow> 'l::len word option" where
  [c_eval]: "read_word e src n = map_option (\<lambda>bs. of_nat (le_nat bs)) (FIRCLSReadMemory e src n)"

text \<open>
  What \<open>vm_read_overwrite\<close> documents: on success the destination holds the bytes of the
  whole range.  A concrete environment that satisfies it is a list of bytes at an address.
\<close>

definition vm_read_ok :: "env \<Rightarrow> bool" where
  "vm_read_ok e \<longleftrightarrow> (\<forall>a n bs. vm_read e a n = Some bs \<longrightarrow> load_bytes e a n = Some bs)"

primrec flat_mem :: "u64 \<Rightarrow> u8 list \<Rightarrow> u64 \<Rightarrow> u8 option" where
  "flat_mem base [] a = None"
| "flat_mem base (b # bs) a = (if a = base then Some b else flat_mem (base + 1) bs a)"

definition flat_env :: "u64 \<Rightarrow> u8 list \<Rightarrow> env" where
  "flat_env base bs = \<lparr>mem = flat_mem base bs,
                       vm_read = load_bytes \<lparr>mem = flat_mem base bs, vm_read = \<lambda>a n. None\<rparr>\<rparr>"

lemma load_bytes_mem_cong: "mem e = mem e' \<Longrightarrow> load_bytes e a n = load_bytes e' a n"
  by (induction n arbitrary: a) simp_all

lemma mem_flat_env [c_eval]: "mem (flat_env base bs) = flat_mem base bs"
  by (simp add: flat_env_def)

lemma vm_read_flat_env [c_eval]: "vm_read (flat_env base bs) = load_bytes (flat_env base bs)"
  unfolding flat_env_def by (intro ext, simp, rule load_bytes_mem_cong) simp

lemma flat_env_ok: "vm_read_ok (flat_env base bs)"
  by (simp add: vm_read_ok_def vm_read_flat_env)

lemma read_word_invalid: "a < 4096 \<Longrightarrow> read_word e a n = None"
  by (simp add: read_word_def FIRCLSReadMemory_def FIRCLSIsValidPointer_def not_le)

section \<open>Words\<close>

lemma word_sub_1_unat: "(x :: 'l::len word) \<noteq> 0 \<Longrightarrow> unat (x - 1) = unat x - 1"
  by (simp add: unat_minus_one)

lemma u8_less_256: "unat (b :: u8) < 256"
  using unsigned_less [of b] by simp

lemma unat_ucast_8_64 [simp]: "unat (ucast (b :: u8) :: u64) = unat b"
  using u8_less_256 [of b] by (simp add: unsigned_ucast_eq take_bit_nat_eq_self)

lemma sint_small: "unat (x :: u64) < 2 ^ 63 \<Longrightarrow> sint x = int (unat x)"
proof -
  assume "unat x < 2 ^ 63"
  then have "int (unat x) < 2 ^ 63" by (simp only: of_nat_less_numeral_power_cancel_iff)
  moreover have "- (2 ^ 63) \<le> int (unat x)" by (rule order_trans [of _ 0]) simp_all
  ultimately have "signed_take_bit 63 (int (unat x)) = int (unat x)"
    by (intro signed_take_bit_int_eq_self)
  then show ?thesis by (simp add: sint_uint)
qed

lemma sint_ucast_8 [simp]: "sint (ucast (b :: u8) :: u64) = int (unat b)"
  using u8_less_256 [of b] by (subst sint_small) simp_all

lemma u32_less: "unat (x :: u32) < 2 ^ 32"
  using unsigned_less [of x] by simp

lemma unat_ucast_32_64 [simp]: "unat (ucast (x :: u32) :: u64) = unat x"
  using u32_less [of x] by (simp add: unsigned_ucast_eq take_bit_nat_eq_self)

lemma ucast_of_nat_32: "(ucast (of_nat n :: u64) :: u32) = of_nat n"
  by (rule word_unat_eq_iff [THEN iffD2])
    (simp add: unsigned_ucast_eq unat_of_nat take_bit_eq_mod mod_mod_cancel)

lemma ucast_of_nat_8: "(ucast (of_nat n :: u64) :: u8) = of_nat n"
  by (rule word_unat_eq_iff [THEN iffD2])
    (simp add: unsigned_ucast_eq unat_of_nat take_bit_eq_mod mod_mod_cancel)

section \<open>Loops\<close>

text \<open>A \<open>for\<close> loop over a sequence that changes a state.\<close>

primrec for_each :: "('a \<Rightarrow> 's \<Rightarrow> 's option) \<Rightarrow> 'a list \<Rightarrow> 's \<Rightarrow> 's option" where
  "for_each f [] s = Some s"
| "for_each f (x # xs) s = do { s \<leftarrow> f x s; for_each f xs s }"

lemma for_each_append: "for_each f (xs @ ys) s = Option.bind (for_each f xs s) (for_each f ys)"
  by (induction xs arbitrary: s) (auto split: bind_splits)

end
