(* ===== verification/DataParsing.thy ===== *)
theory DataParsing
  imports Prelude
begin

text \<open>
  \<open>Crashlytics/Unwind/Dwarf/FIRCLSDataParsing.c\<close>: the readers of the unwind data.  A reader
  gets the cursor (the code's \<open>*cursor\<close>) and gives back the value and the advanced cursor.

  The variable-length integers are modelled with the code's own types: a byte group is shifted
  as a 32-bit \<open>int\<close> (\<open>sshl32\<close>) before it is merged into the 64-bit result, so groups that
  do not fit an \<open>int\<close> have no result.  \<open>uleb_value\<close>, \<open>leb_wf\<close>, \<open>uleb_encode\<close> and
  \<open>sleb_encode\<close> are the format as DWARF defines it, which the readers are compared with.
\<close>

section \<open>Constants of \<open>dwarf.h\<close>\<close>

abbreviation DWARF_EXTENDED_LENGTH_FLAG :: u64 where "DWARF_EXTENDED_LENGTH_FLAG \<equiv> 0xffffffff"
abbreviation DW_EH_PE_VALUE_MASK :: u8 where "DW_EH_PE_VALUE_MASK \<equiv> 0x0F"
abbreviation DW_EH_PE_RELATIVE_OFFSET_MASK :: u8 where "DW_EH_PE_RELATIVE_OFFSET_MASK \<equiv> 0x70"
abbreviation DW_EH_PE_ptr :: u8 where "DW_EH_PE_ptr \<equiv> 0x00"
abbreviation DW_EH_PE_uleb128 :: u8 where "DW_EH_PE_uleb128 \<equiv> 0x01"
abbreviation DW_EH_PE_udata2 :: u8 where "DW_EH_PE_udata2 \<equiv> 0x02"
abbreviation DW_EH_PE_udata4 :: u8 where "DW_EH_PE_udata4 \<equiv> 0x03"
abbreviation DW_EH_PE_udata8 :: u8 where "DW_EH_PE_udata8 \<equiv> 0x04"
abbreviation DW_EH_PE_sleb128 :: u8 where "DW_EH_PE_sleb128 \<equiv> 0x09"
abbreviation DW_EH_PE_sdata2 :: u8 where "DW_EH_PE_sdata2 \<equiv> 0x0A"
abbreviation DW_EH_PE_sdata4 :: u8 where "DW_EH_PE_sdata4 \<equiv> 0x0B"
abbreviation DW_EH_PE_sdata8 :: u8 where "DW_EH_PE_sdata8 \<equiv> 0x0C"
abbreviation DW_EH_PE_absptr :: u8 where "DW_EH_PE_absptr \<equiv> 0x00"
abbreviation DW_EH_PE_pcrel :: u8 where "DW_EH_PE_pcrel \<equiv> 0x10"
abbreviation DW_EH_PE_indirect :: u8 where "DW_EH_PE_indirect \<equiv> 0x80"
abbreviation DW_EH_PE_omit :: u8 where "DW_EH_PE_omit \<equiv> 0xFF"

definition CLS_INVALID_ADDRESS :: u64 where
  "CLS_INVALID_ADDRESS = 0xffffffffffffffff"

section \<open>Fixed-width readers\<close>

definition parse_fixed :: "env \<Rightarrow> nat \<Rightarrow> u64 \<Rightarrow> ('l::len word \<times> u64) option" where
  [c_eval]: "parse_fixed e n cursor =
     do { v \<leftarrow> load e cursor n; c \<leftarrow> ptr_add cursor (of_nat n); Some (v, c) }"

definition FIRCLSParseUint8AndAdvance :: "env \<Rightarrow> u64 \<Rightarrow> (u8 \<times> u64) option" where
  "FIRCLSParseUint8AndAdvance e cursor = parse_fixed e 1 cursor"

definition FIRCLSParseUint16AndAdvance :: "env \<Rightarrow> u64 \<Rightarrow> (u16 \<times> u64) option" where
  "FIRCLSParseUint16AndAdvance e cursor = parse_fixed e 2 cursor"

definition FIRCLSParseInt16AndAdvance :: "env \<Rightarrow> u64 \<Rightarrow> (u16 \<times> u64) option" where
  "FIRCLSParseInt16AndAdvance e cursor = parse_fixed e 2 cursor"

definition FIRCLSParseUint32AndAdvance :: "env \<Rightarrow> u64 \<Rightarrow> (u32 \<times> u64) option" where
  "FIRCLSParseUint32AndAdvance e cursor = parse_fixed e 4 cursor"

definition FIRCLSParseInt32AndAdvance :: "env \<Rightarrow> u64 \<Rightarrow> (s32 \<times> u64) option" where
  "FIRCLSParseInt32AndAdvance e cursor = parse_fixed e 4 cursor"

definition FIRCLSParseUint64AndAdvance :: "env \<Rightarrow> u64 \<Rightarrow> (u64 \<times> u64) option" where
  "FIRCLSParseUint64AndAdvance e cursor = parse_fixed e 8 cursor"

definition FIRCLSParseInt64AndAdvance :: "env \<Rightarrow> u64 \<Rightarrow> (s64 \<times> u64) option" where
  "FIRCLSParseInt64AndAdvance e cursor = parse_fixed e 8 cursor"

definition FIRCLSParsePointerAndAdvance :: "env \<Rightarrow> u64 \<Rightarrow> (u64 \<times> u64) option" where
  "FIRCLSParsePointerAndAdvance e cursor = parse_fixed e 8 cursor"

lemmas fixed_parsers [c_eval] =
  FIRCLSParseUint8AndAdvance_def FIRCLSParseUint16AndAdvance_def FIRCLSParseInt16AndAdvance_def
  FIRCLSParseUint32AndAdvance_def FIRCLSParseInt32AndAdvance_def FIRCLSParseUint64AndAdvance_def
  FIRCLSParseInt64AndAdvance_def FIRCLSParsePointerAndAdvance_def

section \<open>LEB128\<close>

primrec uleb_loop :: "nat \<Rightarrow> env \<Rightarrow> nat \<Rightarrow> u64 \<Rightarrow> u64 \<Rightarrow> (u64 \<times> u64) option" where
  "uleb_loop 0 e shift result cursor = Some (result, cursor)"
| "uleb_loop (Suc i) e shift result cursor =
     do { byte \<leftarrow> (load e cursor 1 :: u8 option);
          cursor \<leftarrow> ptr_add cursor 1;
          group \<leftarrow> sshl32 (0x7F AND scast byte) shift;
          let result = result OR scast group;
          if (0x80 AND scast byte :: s32) = 0 then Some (result, cursor)
          else uleb_loop i e (shift + 7) result cursor }"

lemma uleb_loop_numeral [c_eval]:
  "uleb_loop (numeral k) e shift result cursor =
     do { byte \<leftarrow> (load e cursor 1 :: u8 option);
          cursor \<leftarrow> ptr_add cursor 1;
          group \<leftarrow> sshl32 (0x7F AND scast byte) shift;
          let result = result OR scast group;
          if (0x80 AND scast byte :: s32) = 0 then Some (result, cursor)
          else uleb_loop (pred_numeral k) e (shift + 7) result cursor }"
  by (simp add: numeral_eq_Suc)

definition FIRCLSParseULEB128AndAdvance :: "env \<Rightarrow> u64 \<Rightarrow> (u64 \<times> u64) option" where
  [c_eval]: "FIRCLSParseULEB128AndAdvance e cursor = uleb_loop 8 e 0 0 cursor"

text \<open>The signed reader's loop also hands out the last byte and the final shift.\<close>

primrec sleb_loop ::
  "nat \<Rightarrow> env \<Rightarrow> nat \<Rightarrow> u64 \<Rightarrow> u8 \<Rightarrow> u64 \<Rightarrow> (u64 \<times> nat \<times> u8 \<times> u64) option" where
  "sleb_loop 0 e shift result byte cursor = Some (result, shift, byte, cursor)"
| "sleb_loop (Suc i) e shift result byte cursor =
     do { byte \<leftarrow> (load e cursor 1 :: u8 option);
          cursor \<leftarrow> ptr_add cursor 1;
          group \<leftarrow> sshl32 (0x7F AND scast byte) shift;
          let result = result OR scast group;
          let shift = shift + 7;
          if (0x80 AND scast byte :: s32) = 0 then Some (result, shift, byte, cursor)
          else sleb_loop i e shift result byte cursor }"

lemma sleb_loop_numeral [c_eval]:
  "sleb_loop (numeral k) e shift result byte cursor =
     do { byte \<leftarrow> (load e cursor 1 :: u8 option);
          cursor \<leftarrow> ptr_add cursor 1;
          group \<leftarrow> sshl32 (0x7F AND scast byte) shift;
          let result = result OR scast group;
          let shift = shift + 7;
          if (0x80 AND scast byte :: s32) = 0 then Some (result, shift, byte, cursor)
          else sleb_loop (pred_numeral k) e shift result byte cursor }"
  by (simp add: numeral_eq_Suc)

definition FIRCLSParseLEB128AndAdvance :: "env \<Rightarrow> u64 \<Rightarrow> (s64 \<times> u64) option" where
  [c_eval]: "FIRCLSParseLEB128AndAdvance e cursor =
     do { (result, shift, byte, cursor) \<leftarrow> sleb_loop 8 e 0 0 0 cursor;
          if shift < 64 \<and> (0x40 AND scast byte :: s32) \<noteq> 0
          then do { one \<leftarrow> sshl32 1 shift; Some (result OR scast (- one), cursor) }
          else Some (result, cursor) }"

section \<open>Strings and record lengths\<close>

text \<open>\<open>strlen\<close>: walks until a zero byte; \<open>None\<close> if it runs into unmapped memory or never ends.\<close>

partial_function (option) strlen_from :: "env \<Rightarrow> u64 \<Rightarrow> nat \<Rightarrow> nat option" where
  "strlen_from e p n =
     (case mem e p of None \<Rightarrow> None
      | Some b \<Rightarrow> if b = 0 then Some n else strlen_from e (p + 1) (Suc n))"

definition strlen :: "env \<Rightarrow> u64 \<Rightarrow> nat option" where
  [c_eval]: "strlen e p = strlen_from e p 0"

lemmas [c_eval] = strlen_from.simps

definition FIRCLSParseStringAndAdvance :: "env \<Rightarrow> u64 \<Rightarrow> (u64 \<times> u64) option" where
  [c_eval]: "FIRCLSParseStringAndAdvance e cursor =
     do { n \<leftarrow> strlen e cursor; c \<leftarrow> ptr_add cursor (of_nat n + 1); Some (cursor, c) }"

definition FIRCLSParseRecordLengthAndAdvance :: "env \<Rightarrow> u64 \<Rightarrow> (u64 \<times> u64) option" where
  [c_eval]: "FIRCLSParseRecordLengthAndAdvance e cursor =
     do { (length32, cursor) \<leftarrow> FIRCLSParseUint32AndAdvance e cursor;
          if (ucast length32 :: u64) = DWARF_EXTENDED_LENGTH_FLAG
          then FIRCLSParseUint64AndAdvance e cursor
          else Some (ucast length32, cursor) }"

section \<open>Encoded addresses\<close>

text \<open>The \<open>switch\<close> on the value encoding; the inner \<open>None\<close> is its default case.\<close>

definition parse_encoded_value :: "env \<Rightarrow> u8 \<Rightarrow> u64 \<Rightarrow> (s64 \<times> u64) option option" where
  [c_eval]: "parse_encoded_value e enc cursor =
     (if enc = DW_EH_PE_ptr then map_option Some (FIRCLSParsePointerAndAdvance e cursor)
      else if enc = DW_EH_PE_uleb128 then map_option Some (FIRCLSParseULEB128AndAdvance e cursor)
      else if enc = DW_EH_PE_udata2
        then map_option (\<lambda>(v, c). Some (ucast v, c)) (FIRCLSParseUint16AndAdvance e cursor)
      else if enc = DW_EH_PE_udata4
        then map_option (\<lambda>(v, c). Some (ucast v, c)) (FIRCLSParseUint32AndAdvance e cursor)
      else if enc = DW_EH_PE_udata8 then map_option Some (FIRCLSParseUint64AndAdvance e cursor)
      else if enc = DW_EH_PE_sleb128 then map_option Some (FIRCLSParseLEB128AndAdvance e cursor)
      else if enc = DW_EH_PE_sdata2
        then map_option (\<lambda>(v, c). Some (scast v, c)) (FIRCLSParseInt16AndAdvance e cursor)
      else if enc = DW_EH_PE_sdata4
        then map_option (\<lambda>(v, c). Some (scast v, c)) (FIRCLSParseInt32AndAdvance e cursor)
      else if enc = DW_EH_PE_sdata8 then map_option Some (FIRCLSParseInt64AndAdvance e cursor)
      else Some None)"

definition FIRCLSParseAddressWithEncodingAndAdvance ::
  "env \<Rightarrow> u64 ptr \<Rightarrow> u8 \<Rightarrow> (u64 \<times> u64 ptr) option" where
  [c_eval]: "FIRCLSParseAddressWithEncodingAndAdvance e cursor encoding =
     (if encoding = DW_EH_PE_omit then Some (0, cursor)
      else case cursor of
        None \<Rightarrow> Some (CLS_INVALID_ADDRESS, None)
      | Some inputAddr \<Rightarrow>
          if inputAddr = 0 then Some (CLS_INVALID_ADDRESS, cursor)
          else do {
            parsed \<leftarrow> parse_encoded_value e (encoding AND DW_EH_PE_VALUE_MASK) inputAddr;
            case parsed of
              None \<Rightarrow> Some (CLS_INVALID_ADDRESS, cursor)
            | Some (addr, c) \<Rightarrow>
                let relative = encoding AND DW_EH_PE_RELATIVE_OFFSET_MASK in
                if relative \<noteq> DW_EH_PE_absptr \<and> relative \<noteq> DW_EH_PE_pcrel
                then Some (CLS_INVALID_ADDRESS, Some c)
                else do {
                  addr \<leftarrow> (if relative = DW_EH_PE_pcrel then sadd64 addr inputAddr else Some addr);
                  if encoding AND DW_EH_PE_indirect \<noteq> 0
                  then if addr = 0 then Some (CLS_INVALID_ADDRESS, Some c)
                       else do { v \<leftarrow> load e addr 8; Some (v, Some c) }
                  else Some (addr, Some c) } })"

end
