(* ===== verification/Leb128.thy ===== *)
theory Leb128
  imports DataParsing
begin

text \<open>
  The variable-length integers of \<open>FIRCLSDataParsing.c\<close> against the LEB128 format: what the
  readers give on every well-formed byte sequence, and the round trip with the encoders the
  format defines.  The readers shift each 7-bit group as a C \<open>int\<close>, so they are exact for
  unsigned values below \<open>2^31\<close> and signed values from \<open>- 2^27\<close> up to \<open>2^31\<close>, and have no
  defined result on any other well-formed sequence.
\<close>

section \<open>The groups of a byte\<close>

lemma low7: "unat (0x7F AND scast (b :: u8) :: u32) = unat b mod 128"
proof -
  have m: "(0x7F :: u32) = mask 7" by (simp add: mask_eq_exp_minus_1)
  have "(0x7F AND scast b :: u32) = take_bit 7 (scast b)"
    unfolding m by (simp add: take_bit_eq_mask and.commute)
  also have "\<dots> = ucast (take_bit 7 b)"
    by (rule bit_word_eqI) (auto simp: bit_simps)
  also have "unat \<dots> = unat b mod 128"
    using u8_less_256 [of b]
    by (simp add: unsigned_ucast_eq unsigned_take_bit_eq take_bit_eq_mod [where 'a = nat]
        less_trans [of "unat b" 256])
  finally show ?thesis .
qed

lemma bit_u8_unat: "bit (b :: u8) n \<longleftrightarrow> odd (unat b div 2 ^ n)"
proof -
  have "bit b n = bit (unat b) n" by (simp add: bit_unsigned_iff)
  then show ?thesis by (simp only: bit_iff_odd)
qed

lemma high1: "(0x80 AND scast (b :: u8) :: u32) = 0 \<longleftrightarrow> unat b < 128"
proof -
  have "(0x80 AND scast b :: u32) = 0 \<longleftrightarrow> \<not> bit (scast b :: u32) 7"
    using and_exp_eq_0_iff_not_bit [of "scast b :: u32" 7] by (simp add: and.commute)
  also have "\<dots> \<longleftrightarrow> \<not> odd (unat b div 128)"
    using bit_u8_unat [of b 7] by (simp add: bit_simps)
  also have "\<dots> \<longleftrightarrow> unat b < 128"
    using u8_less_256 [of b] div_nat_eqI [of 128 1 "unat b"] by (cases "unat b < 128") auto
  finally show ?thesis .
qed

lemma sign1: "(0x40 AND scast (b :: u8) :: u32) = 0 \<longleftrightarrow> unat b mod 128 < 64"
proof -
  have "(0x40 AND scast b :: u32) = 0 \<longleftrightarrow> \<not> bit (scast b :: u32) 6"
    using and_exp_eq_0_iff_not_bit [of "scast b :: u32" 6] by (simp add: and.commute)
  also have "\<dots> \<longleftrightarrow> \<not> odd (unat b div 64)"
    using bit_u8_unat [of b 6] by (simp add: bit_simps)
  also have "\<dots> \<longleftrightarrow> unat b mod 128 < 64"
    using mod_mult2_eq [of "unat b" 64 2]
    by (cases "even (unat b div 64)") (simp_all add: even_iff_mod_2_eq_zero odd_iff_mod_2_eq_one)
  finally show ?thesis .
qed

lemma sint_nonneg_unat: "unat (a :: u32) < 2 ^ 31 \<Longrightarrow> sint a = int (unat a)"
proof -
  assume "unat a < 2 ^ 31"
  then have "int (unat a) < 2 ^ 31" by (simp only: of_nat_less_numeral_power_cancel_iff)
  moreover have "- (2 ^ 31) \<le> int (unat a)" by (rule order_trans [of _ 0]) simp_all
  ultimately have "signed_take_bit 31 (int (unat a)) = int (unat a)"
    by (intro signed_take_bit_int_eq_self)
  then show ?thesis by (simp add: sint_uint)
qed

lemma sshl32_small:
  assumes "unat a < 128" and "n < 32"
  shows "sshl32 a n = (if unat a * 2 ^ n < 2 ^ 31 then Some (push_bit n a) else None)"
proof -
  have "sint a = int (unat a)" using assms(1) by (intro sint_nonneg_unat) simp
  moreover have "int (unat a) * 2 ^ n < 2 ^ 31 \<longleftrightarrow> unat a * 2 ^ n < 2 ^ 31"
    by (metis (mono_tags) of_nat_less_iff of_nat_mult of_nat_numeral of_nat_power)
  ultimately show ?thesis using assms by (simp add: sshl32_def)
qed

lemma unat_push_bit32: "unat (a :: u32) * 2 ^ n < 2 ^ 31 \<Longrightarrow> unat (push_bit n a) = unat a * 2 ^ n"
  by (subst unsigned_push_bit_eq) (simp add: push_bit_eq_mult take_bit_nat_eq_self)

lemma unat_scast_pos: "unat (t :: u32) < 2 ^ 31 \<Longrightarrow> unat (scast t :: u64) = unat t"
proof -
  assume t: "unat t < 2 ^ 31"
  have "scast t = (of_int (sint t) :: u64)" by (simp only: of_int_sint)
  also have "\<dots> = of_nat (unat t)" using t by (simp only: sint_nonneg_unat of_int_of_nat_eq)
  finally show ?thesis using t by (simp only:) (rule unat_of_nat64, simp)
qed

lemma unat_or_disjoint:
  fixes r t :: u64
  assumes "unat r < 2 ^ n" and "2 ^ n dvd unat t"
  shows "unat (r OR t) = unat r + unat t"
proof -
  from assms(2) obtain k where "unat t = push_bit n k" by (auto simp: push_bit_eq_mult elim!: dvdE)
  moreover have "take_bit n (unat r) = unat r" using assms(1) by (simp add: take_bit_nat_eq_self)
  moreover have "take_bit n (unat r) AND push_bit n k = 0"
    by (rule bit_eqI) (auto simp: bit_simps)
  ultimately show ?thesis
    unfolding unsigned_or_eq by (metis disjunctive_add_eq_or)
qed
section \<open>The format\<close>

text \<open>All bytes but the last have the continuation bit.\<close>

fun leb_wf :: "u8 list \<Rightarrow> bool" where
  "leb_wf [] = False"
| "leb_wf [b] = (unat b < 128)"
| "leb_wf (b # c # bs) = (128 \<le> unat b \<and> leb_wf (c # bs))"

primrec uleb_value :: "u8 list \<Rightarrow> nat" where
  "uleb_value [] = 0"
| "uleb_value (b # bs) = unat b mod 128 + 128 * uleb_value bs"

definition sleb_value :: "u8 list \<Rightarrow> int" where
  "sleb_value bs = int (uleb_value bs) -
     (if 64 \<le> unat (last bs) mod 128 then 2 ^ (7 * length bs) else 0)"

fun uleb_encode :: "nat \<Rightarrow> u8 list" where
  "uleb_encode n =
     (if n < 128 then [of_nat n] else of_nat (128 + n mod 128) # uleb_encode (n div 128))"

declare uleb_encode.simps [simp del]

lemma unat_of_nat8 [simp]: "n < 256 \<Longrightarrow> unat (of_nat n :: u8) = n"
  by (simp add: unat_of_nat)

lemma uleb_encode_not_Nil: "uleb_encode n \<noteq> []"
  by (subst uleb_encode.simps) simp

lemma leb_wf_Cons: "bs \<noteq> [] \<Longrightarrow> leb_wf (b # bs) \<longleftrightarrow> 128 \<le> unat b \<and> leb_wf bs"
  by (cases bs) simp_all

lemma uleb_encode_wf: "leb_wf (uleb_encode n)"
proof (induction n rule: uleb_encode.induct)
  case (1 n)
  have "n mod 128 < 128" by simp
  then have "128 + n mod 128 < 256" by linarith
  then have "unat (of_nat (128 + n mod 128) :: u8) = 128 + n mod 128" by (rule unat_of_nat8)
  with 1 show ?case
    by (subst uleb_encode.simps) (simp add: leb_wf_Cons uleb_encode_not_Nil del: of_nat_add)
qed

lemma uleb_value_encode: "uleb_value (uleb_encode n) = n"
proof (induction n rule: uleb_encode.induct)
  case (1 n)
  have "n mod 128 < 128" by simp
  then have "128 + n mod 128 < 256" by linarith
  then have "unat (of_nat (128 + n mod 128) :: u8) mod 128 = n mod 128"
    by (simp only: unat_of_nat8) simp
  with 1 show ?case
    by (subst uleb_encode.simps) (simp del: of_nat_add)
qed

lemma uleb_encode_length: "0 < m \<Longrightarrow> length (uleb_encode n) \<le> m \<longleftrightarrow> n < 128 ^ m"
proof (induction m arbitrary: n)
  case (Suc m)
  show ?case
  proof (cases "n < 128")
    case True
    have "(128::nat) ^ 1 \<le> 128 ^ Suc m" by (rule power_increasing) simp_all
    moreover have "n < 128 ^ 1" using True by simp
    ultimately have "n < 128 ^ Suc m" by (rule less_le_trans [rotated])
    with True show ?thesis by (subst uleb_encode.simps) simp
  next
    case False
    then have "length (uleb_encode n) = Suc (length (uleb_encode (n div 128)))"
      by (subst uleb_encode.simps) simp
    moreover have "n div 128 < 128 ^ m \<longleftrightarrow> n < 128 ^ Suc m"
      by (simp add: div_less_iff_less_mult mult.commute)
    moreover have "m = 0 \<Longrightarrow> 0 < length (uleb_encode (n div 128))"
      by (simp add: uleb_encode_not_Nil)
    ultimately show ?thesis using Suc.IH [of "n div 128"] False by (cases "m = 0") auto
  qed
qed simp

section \<open>The unsigned reader\<close>

lemma uleb_step:
  assumes "unat r < 2 ^ s" and "x * 2 ^ s < 2 ^ 31" and "sshl32 g s = Some t"
    and "unat g = x" and "x < 128"
  shows "r OR scast t = r + of_nat (x * 2 ^ s) \<and> unat (r OR scast t :: u64) = unat r + x * 2 ^ s"
proof -
  from assms(3) have "s < 32" by (simp add: sshl32_def split: if_splits)
  with assms have t: "t = push_bit s g" by (simp add: sshl32_small)
  with assms have ut: "unat t = x * 2 ^ s" by (simp add: unat_push_bit32)
  with assms(2) have us: "unat (scast t :: u64) = x * 2 ^ s" by (simp add: unat_scast_pos)
  moreover have "x * 2 ^ s < 2 ^ 64" using assms(2) by simp
  ultimately have "scast t = (of_nat (x * 2 ^ s) :: u64)"
    by (simp only: word_unat_eq_iff unat_of_nat64)
  moreover have u: "unat (r OR scast t) = unat r + x * 2 ^ s"
    using unat_or_disjoint [of r s "scast t"] assms(1) us by simp
  moreover have "r OR scast t = r + scast t"
  proof -
    have "unat (r OR scast t) = unat r + unat (scast t :: u64)" using u us by simp
    moreover from this have "unat (r + scast t) = unat r + unat (scast t :: u64)"
      using u64_less [of "r OR scast t"] by (simp add: unat_word_ariths)
    ultimately show ?thesis by (simp only: word_unat_eq_iff)
  qed
  ultimately show ?thesis by simp
qed

lemma load_u8: "mem e a = Some b \<Longrightarrow> load e a (Suc 0) = Some b"
  by (simp add: load_def)

lemma group_bound:
  assumes "k \<le> 3" and "x < 128"
  shows "(x + 128 * v) * 2 ^ (7 * k) < (2 ^ 31 :: nat) \<longleftrightarrow> v * 2 ^ (7 * Suc k) < 2 ^ 31"
proof -
  from assms(1) consider "k = 0" | "k = 1" | "k = 2" | "k = 3" by linarith
  then show ?thesis using assms(2) by cases (simp_all, arith+)
qed

text \<open>One byte, in numbers: groups past the fifth, or past bit 30, have no \<open>int\<close> value.\<close>

lemma group_step:
  fixes r :: u64
  assumes "unat r < 2 ^ (7 * k)" and "k \<le> 5"
  shows "(\<exists>t. sshl32 (0x7F AND scast (b :: u8)) (7 * k) = Some t \<and>
             r OR scast t = r + of_nat (unat b mod 128 * 2 ^ (7 * k)) \<and>
             unat (r + of_nat (unat b mod 128 * 2 ^ (7 * k))) = unat r + unat b mod 128 * 2 ^ (7 * k) \<and>
             k < 5 \<and> unat b mod 128 * 2 ^ (7 * k) < 2 ^ 31) \<or>
         sshl32 (0x7F AND scast b) (7 * k) = None \<and>
             \<not> (k < 5 \<and> unat b mod 128 * 2 ^ (7 * k) < 2 ^ 31)"
proof (cases "k < 5")
  case True
  then have sh: "sshl32 (0x7F AND scast b) (7 * k) =
      (if unat b mod 128 * 2 ^ (7 * k) < 2 ^ 31
       then Some (push_bit (7 * k) (0x7F AND scast b)) else None)"
    using low7 [of b] by (subst sshl32_small) simp_all
  show ?thesis
  proof (cases "unat b mod 128 * 2 ^ (7 * k) < 2 ^ 31")
    case small: True
    define t :: u32 where "t = push_bit (7 * k) (0x7F AND scast b)"
    have t: "sshl32 (0x7F AND scast b) (7 * k) = Some t"
      using sh small by (simp only: t_def if_True)
    have "r OR scast t = r + of_nat (unat b mod 128 * 2 ^ (7 * k)) \<and>
        unat (r OR scast t :: u64) = unat r + unat b mod 128 * 2 ^ (7 * k)"
      by (rule uleb_step [OF assms(1) small t low7]) simp
    with t small True show ?thesis by metis
  next
    case False
    with sh show ?thesis by (simp only: if_False) simp
  qed
next
  case False
  with assms(2) show ?thesis by (simp add: sshl32_def)
qed

lemma uleb_loop_Suc:
  assumes "mem e cur = Some b" and "unat cur + 1 < 2 ^ 64"
    and "unat r < 2 ^ (7 * k)" and "k \<le> 5"
  shows "uleb_loop (Suc j) e (7 * k) r cur =
    (if k < 5 \<and> unat b mod 128 * 2 ^ (7 * k) < 2 ^ 31
     then if unat b < 128 then Some (r + of_nat (unat b mod 128 * 2 ^ (7 * k)), cur + 1)
          else uleb_loop j e (7 * Suc k) (r + of_nat (unat b mod 128 * 2 ^ (7 * k))) (cur + 1)
     else None)"
proof -
  have "load e cur (Suc 0) = Some b" "ptr_add cur 1 = Some (cur + 1)"
    using assms(1,2) by (auto simp: load_u8 ptr_add_1)
  moreover have "7 * k + 7 = 7 * Suc k" by simp
  ultimately show ?thesis
    using group_step [OF assms(3,4), of b]
    by (elim disjE exE conjE)
      (simp_all only: uleb_loop.simps high1 Let_def bind.simps One_nat_def simp_thms if_True if_False)
qed

lemma mult_split: "(x + 128 * v) * 2 ^ (7 * k) = x * 2 ^ (7 * k) + v * (2 :: nat) ^ (7 * Suc k)"
  by (simp add: add_mult_distrib power_add)

lemma uleb_loop_spec:
  assumes "leb_wf bs" and "mem_has e cur bs" and "unat r < 2 ^ (7 * k)" and "k \<le> 5"
  shows "uleb_loop (8 - k) e (7 * k) r cur =
    (if k + length bs \<le> 5 \<and> uleb_value bs * 2 ^ (7 * k) < 2 ^ 31
     then Some (r + of_nat (uleb_value bs * 2 ^ (7 * k)), cur + of_nat (length bs)) else None)"
  using assms
proof (induction bs arbitrary: cur r k)
  case Nil
  then show ?case by simp
next
  case (Cons b bs)
  have "8 - k = Suc (8 - Suc k)" using Cons.prems(4) by simp
  moreover have "mem e cur = Some b" "unat cur + 1 < 2 ^ 64" using Cons.prems(2) by simp_all
  ultimately have loop: "uleb_loop (8 - k) e (7 * k) r cur =
    (if k < 5 \<and> unat b mod 128 * 2 ^ (7 * k) < 2 ^ 31
     then if unat b < 128 then Some (r + of_nat (unat b mod 128 * 2 ^ (7 * k)), cur + 1)
          else uleb_loop (8 - Suc k) e (7 * Suc k) (r + of_nat (unat b mod 128 * 2 ^ (7 * k))) (cur + 1)
     else None)" (is "_ = (if ?ok then if _ then _ else ?rest else None)")
    using uleb_loop_Suc Cons.prems(3,4) by simp
  show ?case
  proof (cases ?ok)
    case False
    then have "\<not> (k + length (b # bs) \<le> 5 \<and> uleb_value (b # bs) * 2 ^ (7 * k) < 2 ^ 31)"
      using mult_split [of "unat b mod 128" "uleb_value bs" k] by auto
    with False show ?thesis unfolding loop by (simp only: if_False)
  next
    case ok: True
    show ?thesis
    proof (cases bs)
      case Nil
      then show ?thesis using Cons.prems(1) ok unfolding loop by simp
    next
      case (Cons c cs)
      define r' where "r' = r + of_nat (unat b mod 128 * 2 ^ (7 * k))"
      have wf: "128 \<le> unat b" "leb_wf bs" "mem_has e (cur + 1) bs"
        using Cons.prems(1,2) Cons by simp_all
      have "unat r' = unat r + unat b mod 128 * 2 ^ (7 * k)"
        using group_step [OF Cons.prems(3,4), of b] ok unfolding r'_def by blast
      moreover have "unat r + unat b mod 128 * 2 ^ (7 * k) < 2 ^ (7 * k) + 127 * 2 ^ (7 * k)"
        by (rule add_less_le_mono [OF Cons.prems(3)]) simp
      ultimately have "unat r' < 2 ^ (7 * Suc k)" by (simp add: power_add)
      then have IH: "?rest = (if Suc k + length bs \<le> 5 \<and> uleb_value bs * 2 ^ (7 * Suc k) < 2 ^ 31
          then Some (r' + of_nat (uleb_value bs * 2 ^ (7 * Suc k)), cur + 1 + of_nat (length bs))
          else None)"
        unfolding r'_def [symmetric] using wf ok by (intro Cons.IH) simp_all
      have "r' + of_nat (uleb_value bs * 2 ^ (7 * Suc k)) = r + of_nat (uleb_value (b # bs) * 2 ^ (7 * k))"
        unfolding r'_def uleb_value.simps mult_split by (simp only: of_nat_add add.assoc)
      moreover have "k + length (b # bs) \<le> 5 \<Longrightarrow>
        uleb_value (b # bs) * 2 ^ (7 * k) < 2 ^ 31 \<longleftrightarrow> uleb_value bs * 2 ^ (7 * Suc k) < 2 ^ 31"
        using group_bound [of k "unat b mod 128" "uleb_value bs"] Cons by simp
      moreover have "cur + 1 + of_nat (length bs) = cur + of_nat (length (b # bs))"
        "Suc k + length bs = k + length (b # bs)"
        by simp_all
      ultimately show ?thesis
        using ok wf(1) unfolding loop IH not_less [symmetric]
        by (simp only: simp_thms if_True if_False cong: conj_cong)
    qed
  qed
qed


section \<open>The signed reader\<close>

definition leb_byte :: "int \<Rightarrow> u8" where
  "leb_byte i = of_nat (nat i)"

function sleb_encode :: "int \<Rightarrow> u8 list" where
  "sleb_encode i =
     (if (i div 128 = 0 \<and> i mod 128 < 64) \<or> (i div 128 = - 1 \<and> 64 \<le> i mod 128)
      then [leb_byte (i mod 128)]
      else leb_byte (128 + i mod 128) # sleb_encode (i div 128))"
  by auto

lemma sleb_encode_decreases:
  assumes "\<not> ((i div 128 = 0 \<and> i mod 128 < 64) \<or> (i div 128 = - 1 \<and> 64 \<le> i mod (128 :: int)))"
  shows "nat \<bar>i div 128\<bar> < nat \<bar>i\<bar>"
proof -
  have "i = 128 * (i div 128) + i mod 128" "0 \<le> i mod 128" "i mod 128 < 128"
    by simp_all
  with assms show ?thesis by (smt (verit) zless_nat_eq_int_zless nat_eq_iff2)
qed

termination sleb_encode
  by (relation "measure (\<lambda>i. nat \<bar>i\<bar>)") (simp, simp only: in_measure sleb_encode_decreases not_False_eq_True)

declare sleb_encode.simps [simp del]

lemma sleb_loop_proj:
  "map_option (\<lambda>(r, s, b, c). (r, c)) (sleb_loop i e s r b0 cur) = uleb_loop i e s r cur"
  by (induction i arbitrary: s r b0 cur) (auto simp: Let_def split: Option.bind_split)

lemma sleb_loop_wf:
  "leb_wf bs \<Longrightarrow> mem_has e cur bs \<Longrightarrow> length bs \<le> i \<Longrightarrow>
   sleb_loop i e s r b0 cur =
     map_option (\<lambda>(r, c). (r, s + 7 * length bs, last bs, c)) (uleb_loop i e s r cur)"
proof (induction bs arbitrary: i s r b0 cur)
  case (Cons b bs)
  obtain j where i: "i = Suc j" using Cons.prems(3) by (cases i) auto
  have rd: "load e cur (Suc 0) = Some b" "ptr_add cur 1 = Some (cur + 1)"
    using Cons.prems(2) by (auto simp: load_u8 ptr_add_1)
  show ?case
  proof (cases bs)
    case Nil
    then show ?thesis
      using Cons.prems by (cases "sshl32 (0x7F AND scast b) s") (simp_all add: i rd high1)
  next
    case (Cons c cs)
    then have "leb_wf bs" "mem_has e (cur + 1) bs" "length bs \<le> j" "\<not> unat b < 128"
      using \<open>leb_wf (b # bs)\<close> \<open>mem_has e cur (b # bs)\<close> \<open>length (b # bs) \<le> i\<close> i by simp_all
    then show ?thesis
      using Cons.IH [of "cur + 1" j] Cons
      by (cases "sshl32 (0x7F AND scast b) s") (simp_all add: i rd high1 add.assoc)
  qed
qed simp

lemma scast_neg_exp:
  assumes "n < 32"
  shows "(scast (- push_bit n 1 :: u32) :: u64) = NOT (mask n)"
proof -
  have "- push_bit n 1 = (NOT (mask n) :: u32)"
    by (simp add: minus_exp_eq_not_mask push_bit_eq_mult)
  moreover have "scast (NOT (mask n) :: u32) = (NOT (mask n) :: u64)"
    using assms by (intro bit_word_eqI) (auto simp: bit_simps)
  ultimately show ?thesis by simp
qed

lemma or_not_mask:
  assumes "unat (r :: u64) < 2 ^ n"
  shows "r OR NOT (mask n) = r - 2 ^ n"
proof -
  have "take_bit n (unat r) = unat r" using assms by (rule take_bit_nat_eq_self)
  then have "take_bit n r = r" by (simp only: unsigned_take_bit_eq [symmetric] word_unat_eq_iff)
  then have "r AND NOT (mask n) = 0"
    by (metis take_bit_eq_mask and.assoc bit.conj_cancel_right and_zero_eq)
  then have "r OR NOT (mask n) = r + NOT (mask n)" by (rule disjunctive_add_eq_or [symmetric])
  also have "\<dots> = r - 2 ^ n" by (simp only: minus_exp_eq_not_mask [symmetric] diff_conv_add_uminus)
  finally show ?thesis .
qed

lemma uleb_value_less: "uleb_value bs < 2 ^ (7 * length bs)"
proof (induction bs)
  case (Cons b bs)
  have "unat b mod 128 < 128" by simp
  with Cons have "unat b mod 128 + 128 * uleb_value bs < 128 * 2 ^ (7 * length bs)" by linarith
  then show ?case by (simp add: power_add)
qed simp

lemma uleb_value_last:
  "bs \<noteq> [] \<Longrightarrow> 64 \<le> unat (last bs) mod 128 \<Longrightarrow> 2 ^ (7 * length bs) \<le> 2 * uleb_value bs"
proof (induction bs)
  case (Cons b bs)
  then show ?case by (cases bs) (simp_all add: power_add)
qed simp

lemma sign_bit: "(0x40 AND scast (b :: u8) :: u32) \<noteq> 0 \<longleftrightarrow> 64 \<le> unat b mod 128"
  using sign1 [of b] by linarith

lemma sleb_decode:
  assumes "leb_wf bs" and "mem_has e cur bs"
  shows "FIRCLSParseLEB128AndAdvance e cur =
    (if length bs \<le> 5 \<and> uleb_value bs < 2 ^ 31
     then Some (of_int (sleb_value bs), cur + of_nat (length bs)) else None)"
proof -
  have loop: "uleb_loop 8 e 0 0 cur =
    (if length bs \<le> 5 \<and> uleb_value bs < 2 ^ 31
     then Some (of_nat (uleb_value bs), cur + of_nat (length bs)) else None)"
    using uleb_loop_spec [of bs e cur 0 0] assms by simp
  show ?thesis
  proof (cases "length bs \<le> 5 \<and> uleb_value bs < 2 ^ 31")
    case False
    then have "map_option (\<lambda>(r, s, b, c). (r, c)) (sleb_loop 8 e 0 0 0 cur) = None"
      using loop by (subst sleb_loop_proj) simp
    with False show ?thesis by (simp add: FIRCLSParseLEB128AndAdvance_def)
  next
    case True
    then have sl: "sleb_loop 8 e 0 0 0 cur =
        Some (of_nat (uleb_value bs), 7 * length bs, last bs, cur + of_nat (length bs))"
      using sleb_loop_wf [OF assms, of 8 0 0 0] loop by simp
    show ?thesis
    proof (cases "64 \<le> unat (last bs) mod 128")
      case sign: True
      have "bs \<noteq> []" using assms(1) by auto
      with sign have big: "2 ^ (7 * length bs) \<le> 2 * uleb_value bs" by (intro uleb_value_last)
      have "length bs \<le> 4"
      proof (rule ccontr)
        assume "\<not> length bs \<le> 4"
        with True have "length bs = 5" by simp
        with big True show False by simp
      qed
      then have n: "7 * length bs < 31" by simp
      then have one: "sshl32 1 (7 * length bs) = Some (push_bit (7 * length bs) 1)"
        using power_strict_increasing [of "7 * length bs" 31 "2 :: nat"]
        by (subst sshl32_small) simp_all
      have "uleb_value bs < 2 ^ 64" using True by simp
      then have "unat (of_nat (uleb_value bs) :: u64) < 2 ^ (7 * length bs)"
        using uleb_value_less [of bs] by (simp only: unat_of_nat64)
      then have "of_nat (uleb_value bs) OR scast (- push_bit (7 * length bs) 1 :: u32) =
          (of_nat (uleb_value bs) - 2 ^ (7 * length bs) :: u64)"
        using n by (simp only: scast_neg_exp or_not_mask)
      moreover have "of_int (sleb_value bs) = (of_nat (uleb_value bs) - 2 ^ (7 * length bs) :: u64)"
        using sign by (simp add: sleb_value_def)
      ultimately show ?thesis
        using True sign n unfolding FIRCLSParseLEB128AndAdvance_def sl
        by (simp only: bind.simps prod.case one sign_bit) simp
    next
      case False
      then show ?thesis
        using True unfolding FIRCLSParseLEB128AndAdvance_def sl
        by (simp add: sign_bit sleb_value_def)
    qed
  qed
qed


lemma unat_sleb_byte:
  "unat (leb_byte (i mod 128)) = nat (i mod 128)"
  "unat (leb_byte (128 + i mod 128)) = 128 + nat (i mod 128)"
proof -
  have "0 \<le> i mod 128" "i mod 128 < 128" by simp_all
  then have "nat (i mod 128) < 256" "nat (128 + i mod 128) < 256"
    "nat (128 + i mod 128) = 128 + nat (i mod 128)" by linarith+
  then show "unat (leb_byte (i mod 128)) = nat (i mod 128)"
    "unat (leb_byte (128 + i mod 128)) = 128 + nat (i mod 128)"
    unfolding leb_byte_def by (simp_all only: unat_of_nat8)
qed

lemma sleb_encode_not_Nil: "sleb_encode i \<noteq> []"
  by (subst sleb_encode.simps) simp

lemma sleb_value_Cons:
  "bs \<noteq> [] \<Longrightarrow> sleb_value (b # bs) = int (unat b mod 128) + 128 * sleb_value bs"
  by (simp add: sleb_value_def power_add algebra_simps)

lemma sleb_encode_wf: "leb_wf (sleb_encode i)"
proof (induction i rule: sleb_encode.induct)
  case (1 i)
  have "nat (i mod 128) < 128" by simp
  with 1 show ?case
    by (subst sleb_encode.simps)
      (simp add: leb_wf_Cons sleb_encode_not_Nil unat_sleb_byte del: zdiv_eq_0_iff)
qed

lemma sleb_value_encode: "sleb_value (sleb_encode i) = i"
proof (induction i rule: sleb_encode.induct)
  case (1 i)
  have i: "i = 128 * (i div 128) + i mod 128" "0 \<le> i mod 128" "i mod 128 < 128" by simp_all
  show ?case
  proof (cases "(i div 128 = 0 \<and> i mod 128 < 64) \<or> (i div 128 = - 1 \<and> 64 \<le> i mod 128)")
    case True
    moreover have "i div 128 = - 1 \<Longrightarrow> i mod 128 - 128 = i" "i div 128 = 0 \<Longrightarrow> i mod 128 = i"
      using i(1) by linarith+
    ultimately have "sleb_value [leb_byte (i mod 128)] = i"
      using i(2,3) by (auto simp: sleb_value_def unat_sleb_byte)
    with True show ?thesis by (subst sleb_encode.simps) (simp only: if_True)
  next
    case False
    then have "sleb_value (leb_byte (128 + i mod 128) # sleb_encode (i div 128)) = i"
      using i 1 by (simp only: sleb_value_Cons [OF sleb_encode_not_Nil] unat_sleb_byte) simp
    with False show ?thesis by (subst sleb_encode.simps) (simp only: if_False)
  qed
qed

lemma sleb_value_neg: "bs \<noteq> [] \<Longrightarrow> sleb_value bs < 0 \<longleftrightarrow> 64 \<le> unat (last bs) mod 128"
proof -
  have "int (uleb_value bs) < 2 ^ (7 * length bs)"
    using uleb_value_less [of bs] by (simp only: of_nat_less_numeral_power_cancel_iff)
  then show ?thesis by (simp add: sleb_value_def)
qed

lemma div_range:
  "- (128 * c) \<le> i \<and> i < 128 * c \<longleftrightarrow> - c \<le> i div 128 \<and> i div 128 < (c :: int)"
proof -
  obtain q r where "i div 128 = q" "i = 128 * q + r" "0 \<le> r" "r < 128"
    using mult_div_mod_eq [of 128 i] by (metis pos_mod_bound pos_mod_sign zero_less_numeral)
  then show ?thesis by auto
qed

lemma sleb_encode_length:
  "length (sleb_encode i) \<le> Suc m \<longleftrightarrow> - (64 * 128 ^ m) \<le> i \<and> i < 64 * 128 ^ m"
proof (induction m arbitrary: i)
  case 0
  have "i = 128 * (i div 128) + i mod 128" "0 \<le> i mod 128" "i mod 128 < 128" by simp_all
  then have "(i div 128 = 0 \<and> i mod 128 < 64) \<or> (i div 128 = - 1 \<and> 64 \<le> i mod 128) \<longleftrightarrow>
      - 64 \<le> i \<and> i < 64"
    by presburger
  then show ?case by (subst sleb_encode.simps) (simp add: sleb_encode_not_Nil del: zdiv_eq_0_iff)
next
  case (Suc m)
  have c: "1 < (64 :: int) * 128 ^ m" using one_le_power [of "128 :: int" m] by linarith
  let ?stop = "(i div 128 = 0 \<and> i mod 128 < 64) \<or> (i div 128 = - 1 \<and> 64 \<le> i mod 128)"
  have stop: "?stop \<Longrightarrow> - (64 * 128 ^ m) \<le> i div 128 \<and> i div 128 < 64 * 128 ^ m"
    using c by (elim disjE conjE) (simp_all only:, linarith+)
  have "length (sleb_encode i) \<le> Suc (Suc m) \<longleftrightarrow> ?stop \<or> length (sleb_encode (i div 128)) \<le> Suc m"
  proof -
    have "length (sleb_encode i) = (if ?stop then Suc 0 else Suc (length (sleb_encode (i div 128))))"
      by (subst sleb_encode.simps) (cases ?stop, simp_all only: if_True if_False list.size add_0_right add_Suc_right)
    then show ?thesis by (cases ?stop) (simp_all only: if_True if_False, simp_all)
  qed
  also have "\<dots> \<longleftrightarrow> - (64 * 128 ^ m) \<le> i div 128 \<and> i div 128 < 64 * 128 ^ m"
    using stop Suc.IH by blast
  also have "\<dots> \<longleftrightarrow> - (64 * 128 ^ Suc m) \<le> i \<and> i < 64 * 128 ^ Suc m"
    using div_range [of "64 * 128 ^ m" i] by (simp add: mult.left_commute)
  finally show ?case .
qed

lemma Suc_3_4: "Suc 3 = 4" "Suc 4 = 5"
  by simp_all

lemma sleb_encode_fits:
  "length (sleb_encode i) \<le> 5 \<and> uleb_value (sleb_encode i) < 2 ^ 31 \<longleftrightarrow> - (2 ^ 27) \<le> i \<and> i < 2 ^ 31"
proof (cases "i < 0")
  case True
  let ?bs = "sleb_encode i"
  have neg: "64 \<le> unat (last ?bs) mod 128"
    using True sleb_value_neg [OF sleb_encode_not_Nil, of i] by (simp add: sleb_value_encode)
  then have big: "2 ^ (7 * length ?bs) \<le> 2 * uleb_value ?bs"
    by (rule uleb_value_last [OF sleb_encode_not_Nil])
  have "length ?bs \<le> 5 \<and> uleb_value ?bs < 2 ^ 31 \<longleftrightarrow> length ?bs \<le> 4"
  proof
    assume a: "length ?bs \<le> 5 \<and> uleb_value ?bs < 2 ^ 31"
    show "length ?bs \<le> 4"
    proof (rule ccontr)
      assume "\<not> length ?bs \<le> 4"
      with a have "length ?bs = 5" by simp
      with a big show False by simp
    qed
  next
    assume l: "length ?bs \<le> 4"
    then have "7 * length ?bs \<le> 28" by simp
    then have "(2 :: nat) ^ (7 * length ?bs) \<le> 2 ^ 28" by (rule power_increasing) simp
    with l uleb_value_less [of ?bs] show "length ?bs \<le> 5 \<and> uleb_value ?bs < 2 ^ 31" by simp
  qed
  also have "\<dots> \<longleftrightarrow> - (2 ^ 27) \<le> i"
    using sleb_encode_length [of i 3] True Suc_3_4 by simp
  finally show ?thesis using True by simp
next
  case False
  then have "int (uleb_value (sleb_encode i)) = i"
    using sleb_value_neg [OF sleb_encode_not_Nil, of i] sleb_value_encode [of i]
    by (simp add: sleb_value_def split: if_splits)
  then have "uleb_value (sleb_encode i) < 2 ^ 31 \<longleftrightarrow> i < 2 ^ 31"
    by (metis of_nat_less_numeral_power_cancel_iff)
  then show ?thesis using sleb_encode_length [of i 4] False Suc_3_4 by auto
qed

section \<open>What the readers give\<close>

text \<open>
  On every well-formed unsigned LEB128 sequence, the unsigned reader returns its value and
  advances the cursor just past it exactly when the sequence has at most five bytes and denotes
  a value below \<open>2^31\<close>; on every other well-formed sequence the shifts of the code leave the
  range of \<open>int\<close> and it has no defined result.
\<close>
theorem uleb128_reader:
  assumes "leb_wf bs" and "mem_has e cur bs"
  shows "FIRCLSParseULEB128AndAdvance e cur =
    (if length bs \<le> 5 \<and> uleb_value bs < 2 ^ 31
     then Some (of_nat (uleb_value bs), cur + of_nat (length bs)) else None)"
  using uleb_loop_spec [of bs e cur 0 0] assms by (simp add: FIRCLSParseULEB128AndAdvance_def)

theorem uleb128_reader_witness:
  "FIRCLSParseULEB128AndAdvance (flat_env 0x1000 [0xE5, 0x8E, 0x26]) 0x1000 = Some (624485, 0x1003)"
  using uleb128_reader [of "[0xE5, 0x8E, 0x26]" "flat_env 0x1000 [0xE5, 0x8E, 0x26]" "0x1000"]
  by (simp add: mem_flat_env)

text \<open>
  Round trip of the signed reader: reading the signed LEB128 encoding of an integer gives that
  integer back, and the cursor past it, exactly for the integers from \<open>- 2^27\<close> up to \<open>2^31\<close>.
\<close>
theorem sleb128_round_trip:
  assumes "mem_has e cur (sleb_encode i)"
  shows "FIRCLSParseLEB128AndAdvance e cur =
    (if - (2 ^ 27) \<le> i \<and> i < 2 ^ 31
     then Some (of_int i, cur + of_nat (length (sleb_encode i))) else None)"
  using sleb_decode [OF sleb_encode_wf assms] unfolding sleb_encode_fits sleb_value_encode .

theorem sleb128_round_trip_witness:
  "FIRCLSParseLEB128AndAdvance (flat_env 0x1000 [0x88, 0x7F]) 0x1000 = Some (- 120, 0x1002)"
proof -
  have "sleb_encode (- 120) = [0x88, 0x7F]"
    by (simp add: sleb_encode.simps leb_byte_def)
  then show ?thesis
    using sleb128_round_trip [of "flat_env 0x1000 [0x88, 0x7F]" "0x1000" "- 120"]
    by (simp add: mem_flat_env)
qed

end
