(* ===== verification/Readers.thy ===== *)
theory Readers
  imports Leb128
begin

text \<open>
  The contract of the readers of \<open>FIRCLSDataParsing.c\<close>: the locale \<open>reader\<close> says that a reader
  inverts its format's encoder and moves the cursor forward, its lemmas are what the parsers of
  whole records and the loops over instructions need of it, and every reader of the file is
  an instance.  Then the readers that are not: strings and encoded addresses.
\<close>

section \<open>The contract\<close>

locale reader =
  fixes parse :: "env \<Rightarrow> u64 \<Rightarrow> ('a \<times> u64) option"
    and encode :: "'a \<Rightarrow> u8 list"
    and readable :: "'a \<Rightarrow> bool"
  assumes parse_encode: "readable v \<Longrightarrow> mem_has e c (encode v) \<Longrightarrow>
      parse e c = Some (v, c + of_nat (length (encode v)))"
    and parse_forward: "parse e c = Some (v, c') \<Longrightarrow> unat c < unat c'"
begin

lemma parse_append:
  assumes "readable v" and "mem_has e c (encode v @ rest)"
  shows "parse e c = Some (v, c + of_nat (length (encode v)))"
    and "mem_has e (c + of_nat (length (encode v))) rest"
  using assms parse_encode by (simp_all add: mem_has_append)

lemma encode_nonempty:
  assumes "readable v"
  shows "encode v \<noteq> []"
proof
  fix e :: env
  assume "encode v = []"
  then have "parse e 0 = Some (v, 0)"
    using parse_encode [OF assms, of e 0] by simp
  then have "unat (0 :: u64) < unat (0 :: u64)" by (rule parse_forward)
  then show False by simp
qed

lemma encode_prefix_free:
  assumes "readable v" and "readable w" and "encode v @ xs = encode w @ ys"
    and "mem_has e c (encode v @ xs)"
  shows "v = w"
proof -
  have "parse e c = Some (v, c + of_nat (length (encode v)))"
    by (rule parse_append(1) [OF assms(1,4)])
  moreover have "parse e c = Some (w, c + of_nat (length (encode w)))"
    using parse_append(1) [OF assms(2)] assms(3,4) by metis
  ultimately show ?thesis by simp
qed

end

section \<open>Fixed-width readers\<close>

primrec le_bytes :: "nat \<Rightarrow> nat \<Rightarrow> u8 list" where
  "le_bytes 0 v = []"
| "le_bytes (Suc n) v = of_nat (v mod 256) # le_bytes n (v div 256)"

lemma le_bytes_numeral [c_eval]:
  "le_bytes (numeral k) v = of_nat (v mod 256) # le_bytes (pred_numeral k) (v div 256)"
  by (subst (1) numeral_eq_Suc) (rule le_bytes.simps(2))

lemma length_le_bytes [simp]: "length (le_bytes n v) = n"
  by (induction n arbitrary: v) simp_all

lemma le_nat_le_bytes: "le_nat (le_bytes n v) = v mod 256 ^ n"
  by (induction n arbitrary: v) (simp_all add: mod_mult2_eq)

lemma load_le_bytes:
  fixes v :: "'l::len word"
  assumes "mem_has e c (le_bytes n (unat v))" and "LENGTH('l) \<le> 8 * n"
  shows "load e c n = Some v"
proof -
  have "unat v < 2 ^ LENGTH('l)" by (rule unsigned_less)
  also have "(2 :: nat) ^ LENGTH('l) \<le> 2 ^ (8 * n)" using assms(2) by (rule power_increasing) simp
  also have "(2 :: nat) ^ (8 * n) = 256 ^ n" by (simp add: power_mult)
  finally have "le_nat (le_bytes n (unat v)) = unat v" by (simp add: le_nat_le_bytes)
  then show ?thesis using mem_has_load [OF assms(1)] by (simp add: load_def)
qed

lemma parse_fixed_encode:
  fixes v :: "'l::len word"
  assumes "mem_has e c (le_bytes n (unat v))" and "LENGTH('l) \<le> 8 * n"
  shows "parse_fixed e n c = Some (v, c + of_nat n)"
  using load_le_bytes [OF assms] mem_has_ptr_add [OF assms(1)] by (simp add: parse_fixed_def)

lemma parse_fixed_forward:
  assumes "parse_fixed e n c = Some (v, c')" and "0 < n" and "n < 2 ^ 64"
  shows "unat c < unat c'"
proof -
  from assms(1) have "ptr_add c (of_nat n) = Some c'"
    by (auto simp: parse_fixed_def bind_eq_Some_conv)
  moreover have "(of_nat n :: u64) \<noteq> 0"
    using assms(2,3) unat_of_nat64 [of n] by (metis less_not_refl unat_eq_zero)
  ultimately show ?thesis by (rule ptr_add_less)
qed

lemmas fixed_reader_laws = parse_fixed_encode parse_fixed_forward

lemma fixed_reader:
  assumes "\<And>e c. parse e c = (parse_fixed e n c :: ('l::len word \<times> u64) option)"
    and "LENGTH('l) = 8 * n" and "0 < n" and "n < 2 ^ 64"
  shows "reader parse (\<lambda>v. le_bytes n (unat v)) (\<lambda>_. True)"
proof
  fix v :: "'l word" and e c c'
  show "mem_has e c (le_bytes n (unat v)) \<Longrightarrow>
      parse e c = Some (v, c + of_nat (length (le_bytes n (unat v))))"
    using parse_fixed_encode [of e c n v] assms(1,2) by simp
  show "parse e c = Some (v, c') \<Longrightarrow> unat c < unat c'"
    using parse_fixed_forward [of e n c v c'] assms(1,3,4) by simp
qed

interpretation u8r: reader FIRCLSParseUint8AndAdvance "\<lambda>v. le_bytes 1 (unat v)" "\<lambda>_. True"
  by (rule fixed_reader) (simp_all add: FIRCLSParseUint8AndAdvance_def)

lemma le_bytes_u8 [simp]: "le_bytes (Suc 0) (unat (b :: u8)) = [b]"
  using u8_less_256 [of b] by simp

lemma parse_u8:
  "mem_has e c (b # bs) \<Longrightarrow> FIRCLSParseUint8AndAdvance e c = Some (b, c + 1)"
  using u8r.parse_encode [of e c b] unfolding One_nat_def le_bytes_u8 by simp

interpretation u16r: reader FIRCLSParseUint16AndAdvance "\<lambda>v. le_bytes 2 (unat v)" "\<lambda>_. True"
  by (rule fixed_reader) (simp_all add: FIRCLSParseUint16AndAdvance_def)

interpretation s16r: reader FIRCLSParseInt16AndAdvance "\<lambda>v. le_bytes 2 (unat v)" "\<lambda>_. True"
  by (rule fixed_reader) (simp_all add: FIRCLSParseInt16AndAdvance_def)

interpretation u32r: reader FIRCLSParseUint32AndAdvance "\<lambda>v. le_bytes 4 (unat v)" "\<lambda>_. True"
  by (rule fixed_reader) (simp_all add: FIRCLSParseUint32AndAdvance_def)

interpretation s32r: reader FIRCLSParseInt32AndAdvance "\<lambda>v. le_bytes 4 (unat v)" "\<lambda>_. True"
  by (rule fixed_reader) (simp_all add: FIRCLSParseInt32AndAdvance_def)

interpretation u64r: reader FIRCLSParseUint64AndAdvance "\<lambda>v. le_bytes 8 (unat v)" "\<lambda>_. True"
  by (rule fixed_reader) (simp_all add: FIRCLSParseUint64AndAdvance_def)

interpretation s64r: reader FIRCLSParseInt64AndAdvance "\<lambda>v. le_bytes 8 (unat v)" "\<lambda>_. True"
  by (rule fixed_reader) (simp_all add: FIRCLSParseInt64AndAdvance_def)

interpretation ptr_reader: reader FIRCLSParsePointerAndAdvance "\<lambda>v. le_bytes 8 (unat v)" "\<lambda>_. True"
  by (rule fixed_reader) (simp_all add: FIRCLSParsePointerAndAdvance_def)

section \<open>Variable-length readers\<close>

lemma uleb_loop_forward:
  "uleb_loop i e s r c = Some (r', c') \<Longrightarrow> unat c \<le> unat c' \<and> (0 < i \<longrightarrow> unat c < unat c')"
proof (induction i arbitrary: s r c)
  case (Suc i)
  from Suc.prems obtain c1 s1 r1 where
    "ptr_add c 1 = Some c1" and "c' = c1 \<or> uleb_loop i e s1 r1 c1 = Some (r', c')"
    by (auto simp: bind_eq_Some_conv Let_def split: if_splits)
  then have "unat c < unat c1" "unat c1 \<le> unat c'"
    using Suc.IH by (auto dest: ptr_add_less)
  then show ?case by simp
qed simp

lemma FIRCLSParseULEB128_forward:
  "FIRCLSParseULEB128AndAdvance e c = Some (v, c') \<Longrightarrow> unat c < unat c'"
  unfolding FIRCLSParseULEB128AndAdvance_def by (drule uleb_loop_forward) simp

lemma FIRCLSParseLEB128_forward:
  assumes "FIRCLSParseLEB128AndAdvance e c = Some (v, c')"
  shows "unat c < unat c'"
proof -
  from assms obtain r s b where "sleb_loop 8 e 0 0 0 c = Some (r, s, b, c')"
    by (auto simp: FIRCLSParseLEB128AndAdvance_def bind_eq_Some_conv split: if_splits)
  then have "uleb_loop 8 e 0 0 c = Some (r, c')"
    using sleb_loop_proj [of 8 e 0 0 0 c] by simp
  then show ?thesis using uleb_loop_forward by fastforce
qed

lemma FIRCLSParseULEB128_encode:
  assumes "unat v < 2 ^ 31" and "mem_has e c (uleb_encode (unat (v :: u64)))"
  shows "FIRCLSParseULEB128AndAdvance e c = Some (v, c + of_nat (length (uleb_encode (unat v))))"
proof -
  have "length (uleb_encode (unat v)) \<le> 5"
    using assms(1) by (subst uleb_encode_length) simp_all
  then show ?thesis
    using uleb_loop_spec [OF uleb_encode_wf assms(2), of 0 0] assms(1)
    by (simp add: FIRCLSParseULEB128AndAdvance_def uleb_value_encode)
qed

lemma FIRCLSParseLEB128_encode:
  assumes "- (2 ^ 27) \<le> sint v \<and> sint v < 2 ^ 31" and "mem_has e c (sleb_encode (sint (v :: s64)))"
  shows "FIRCLSParseLEB128AndAdvance e c = Some (v, c + of_nat (length (sleb_encode (sint v))))"
  using sleb_decode [OF sleb_encode_wf assms(2)] assms(1)
  unfolding sleb_encode_fits sleb_value_encode by (simp del: of_int_sint add: of_int_sint)

interpretation uleb: reader FIRCLSParseULEB128AndAdvance "\<lambda>v. uleb_encode (unat v)"
  "\<lambda>v. unat v < 2 ^ 31"
  by unfold_locales (rule FIRCLSParseULEB128_encode FIRCLSParseULEB128_forward; assumption)+

interpretation sleb: reader FIRCLSParseLEB128AndAdvance "\<lambda>v. sleb_encode (sint v)"
  "\<lambda>v. - (2 ^ 27) \<le> sint v \<and> sint v < 2 ^ 31"
  by unfold_locales (rule FIRCLSParseLEB128_encode FIRCLSParseLEB128_forward; assumption)+

text \<open>The length of a record: 32 bits, or the escape value and 64 bits.\<close>

definition record_length_bytes :: "u64 \<Rightarrow> u8 list" where
  "record_length_bytes n = (if unat n < 0xffffffff then le_bytes 4 (unat n)
     else le_bytes 4 0xffffffff @ le_bytes 8 (unat n))"

lemma record_length_encode:
  assumes "mem_has e c (record_length_bytes n)"
  shows "FIRCLSParseRecordLengthAndAdvance e c =
    Some (n, c + of_nat (length (record_length_bytes n)))"
proof (cases "unat n < 0xffffffff")
  case True
  define m :: u32 where "m = of_nat (unat n)"
  have um: "unat m = unat n" unfolding m_def using True by (intro unat_of_nat32) simp
  have "ucast m = n" by (simp add: word_unat_eq_iff um)
  moreover have "n \<noteq> 0xffffffff" using True by auto
  moreover have "mem_has e c (le_bytes 4 (unat m))"
    using assms True by (simp add: record_length_bytes_def um)
  ultimately show ?thesis
    using u32r.parse_encode [of e c m] True
    by (simp add: FIRCLSParseRecordLengthAndAdvance_def record_length_bytes_def)
next
  case False
  have "mem_has e c (le_bytes 4 (unat (0xffffffff :: u32)) @ le_bytes 8 (unat n))"
    using assms False by (simp add: record_length_bytes_def)
  then show ?thesis
    using u32r.parse_append [of e c "0xffffffff"] u64r.parse_encode [of e "c + 4" n] False
    by (simp add: FIRCLSParseRecordLengthAndAdvance_def record_length_bytes_def add.assoc)
qed

lemma record_length_forward:
  "FIRCLSParseRecordLengthAndAdvance e c = Some (v, c') \<Longrightarrow> unat c < unat c'"
  by (auto simp: FIRCLSParseRecordLengthAndAdvance_def bind_eq_Some_conv split: if_splits
      dest!: u32r.parse_forward u64r.parse_forward)

interpretation reclen: reader FIRCLSParseRecordLengthAndAdvance record_length_bytes "\<lambda>_. True"
  by unfold_locales (rule record_length_encode record_length_forward; assumption)+

lemmas readers_forward [mono_cursor] =
  u8r.parse_forward u16r.parse_forward s16r.parse_forward u32r.parse_forward s32r.parse_forward
  u64r.parse_forward s64r.parse_forward ptr_reader.parse_forward uleb.parse_forward
  sleb.parse_forward reclen.parse_forward

section \<open>Strings\<close>

lemma strlen_from_spec:
  "mem_has e c (bs @ [0]) \<Longrightarrow> 0 \<notin> set bs \<Longrightarrow> strlen_from e c n = Some (n + length bs)"
proof (induction bs arbitrary: c n)
  case Nil
  then show ?case by (subst strlen_from.simps) simp
next
  case (Cons b bs)
  then have "mem e c = Some b" "b \<noteq> 0" "mem_has e (c + 1) (bs @ [0])" "0 \<notin> set bs" by auto
  then show ?case using Cons.IH by (subst strlen_from.simps) simp
qed

lemma string_encode:
  assumes "mem_has e c (bs @ [0])" and "0 \<notin> set bs"
  shows "FIRCLSParseStringAndAdvance e c = Some (c, c + of_nat (length bs) + 1)"
proof -
  have "ptr_add c (of_nat (length bs) + 1) = Some (c + of_nat (length bs) + 1)"
    using mem_has_ptr_add [OF assms(1)] by (simp add: add_ac)
  then show ?thesis
    using strlen_from_spec [OF assms] by (simp add: FIRCLSParseStringAndAdvance_def strlen_def)
qed

section \<open>Encoded addresses\<close>

lemma parse_encoded_value_forward:
  "parse_encoded_value e enc c = Some (Some (v, c')) \<Longrightarrow> unat c < unat c'"
  by (auto simp: parse_encoded_value_def dest!: readers_forward split: if_splits)

lemma encoded_address_forward:
  assumes "FIRCLSParseAddressWithEncodingAndAdvance e (Some c) enc = Some (v, Some c')"
  shows "unat c \<le> unat c'"
proof (cases "parse_encoded_value e (enc AND DW_EH_PE_VALUE_MASK) c")
  case None
  with assms show ?thesis
    by (simp add: FIRCLSParseAddressWithEncodingAndAdvance_def split: if_splits)
next
  case (Some r)
  show ?thesis
  proof (cases r)
    case None
    with Some assms show ?thesis
      by (simp add: FIRCLSParseAddressWithEncodingAndAdvance_def split: if_splits)
  next
    case r: (Some p)
    obtain a b where p: "p = (a, b)" by (cases p)
    with Some r have "unat c < unat b" by (simp add: parse_encoded_value_forward)
    moreover have "c' = c \<or> c' = b"
      using Some r p assms
      by (auto simp: FIRCLSParseAddressWithEncodingAndAdvance_def Let_def bind_eq_Some_conv
          split: if_splits)
    ultimately show ?thesis by auto
  qed
qed

lemma pcrel_sdata4:
  assumes "mem_has e c (le_bytes 4 (unat (v :: s32)))" and "c \<noteq> 0" and "in_s64 (sint (scast v :: s64) + sint c)"
  shows "FIRCLSParseAddressWithEncodingAndAdvance e (Some c) 0x1B = Some (scast v + c, Some (c + 4))"
  using assms s32r.parse_encode [of e c v]
  by (simp add: FIRCLSParseAddressWithEncodingAndAdvance_def parse_encoded_value_def sadd64_def)

end
