(* ===== verification/DwarfRecords.thy ===== *)
theory DwarfRecords
  imports Readers
begin

text \<open>
  The record parsers of \<open>Crashlytics/Unwind/Dwarf/FIRCLSDwarfUnwind.c\<close>: common information
  entries (CIE), their augmentation data, and frame description entries (FDE).  A parser that
  fails leaves the record as far as it was filled, as the code does.
\<close>

section \<open>Records\<close>

record DWARFInstructions =
  instructions_length :: u32
  instructions_data :: u64

record DWARFCIERecord =
  cie_length :: u64
  version :: u8
  ehData :: u64
  augmentation :: u64
  pointerEncoding :: u8
  lsdaEncoding :: u8
  personalityEncoding :: u8
  personalityFunction :: u64
  codeAlignFactor :: u64
  dataAlignFactor :: s64
  returnAddressRegister :: u64
  signalFrame :: bool
  cie_instructions :: DWARFInstructions

record DWARFFDERecord =
  fde_length :: u64
  cieOffset :: u64
  startAddress :: u64
  rangeSize :: u64
  fde_instructions :: DWARFInstructions

record FIRCLSDwarfCFIRecord =
  cfi_cie :: DWARFCIERecord
  cfi_fde :: DWARFFDERecord

abbreviation DWARF_CIE_ID_CIE_FLAG :: u32 where "DWARF_CIE_ID_CIE_FLAG \<equiv> 0"

definition cie_zero :: DWARFCIERecord where
  [c_eval]: "cie_zero = \<lparr>cie_length = 0, version = 0, ehData = 0, augmentation = 0,
     pointerEncoding = 0, lsdaEncoding = 0, personalityEncoding = 0, personalityFunction = 0,
     codeAlignFactor = 0, dataAlignFactor = 0, returnAddressRegister = 0, signalFrame = False,
     cie_instructions = \<lparr>instructions_length = 0, instructions_data = 0\<rparr>\<rparr>"

definition set_instructions :: "u64 \<Rightarrow> u64 \<Rightarrow> DWARFInstructions" where
  [c_eval]: "set_instructions p endAddress =
     \<lparr>instructions_length = ucast (endAddress - p), instructions_data = p\<rparr>"

section \<open>Augmentation\<close>

text \<open>
  One character of the augmentation string; \<open>False\<close> is a \<open>return false\<close> of the loop body.
\<close>

definition augmentation_entry ::
  "env \<Rightarrow> u8 \<Rightarrow> DWARFCIERecord \<Rightarrow> u64 \<Rightarrow> (bool \<times> DWARFCIERecord \<times> u64) option" where
  [c_eval]: "augmentation_entry e c record p =
     (if c = 0x4C then do {
        (v, p) \<leftarrow> FIRCLSParseUint8AndAdvance e p;
        Some (True, record\<lparr>lsdaEncoding := v\<rparr>, p) }
      else if c = 0x52 then do {
        (v, p) \<leftarrow> FIRCLSParseUint8AndAdvance e p;
        Some (True, record\<lparr>pointerEncoding := v\<rparr>, p) }
      else if c = 0x50 then do {
        (v, p) \<leftarrow> FIRCLSParseUint8AndAdvance e p;
        let record = record\<lparr>personalityEncoding := v\<rparr>;
        (a, p) \<leftarrow> addr_ofM p (\<lambda>p. FIRCLSParseAddressWithEncodingAndAdvance e p (personalityEncoding record));
        let record = record\<lparr>personalityFunction := a\<rparr>;
        Some (personalityFunction record \<noteq> CLS_INVALID_ADDRESS, record, p) }
      else if c = 0x53 then Some (True, record\<lparr>signalFrame := True\<rparr>, p)
      else Some (False, record, p))"

text \<open>The loop over the \<open>n\<close> characters left, \<open>i\<close> being the current index.\<close>

primrec augmentation_loop ::
  "nat \<Rightarrow> env \<Rightarrow> u64 \<Rightarrow> nat \<Rightarrow> DWARFCIERecord \<Rightarrow> u64 \<Rightarrow> (bool \<times> DWARFCIERecord \<times> u64) option" where
  "augmentation_loop 0 e ending i record p = Some (True, record, p)"
| "augmentation_loop (Suc n) e ending i record p =
     do { c \<leftarrow> mem e (augmentation record + of_nat i);
          (ok, record, p) \<leftarrow> augmentation_entry e c record p;
          if \<not> ok then Some (False, record, p)
          else if ending < p then Some (False, record, p)
          else augmentation_loop n e ending (i + 1) record p }"

lemma augmentation_loop_numeral [c_eval]:
  "augmentation_loop (numeral k) e ending i record p =
     do { c \<leftarrow> mem e (augmentation record + of_nat i);
          (ok, record, p) \<leftarrow> augmentation_entry e c record p;
          if \<not> ok then Some (False, record, p)
          else if ending < p then Some (False, record, p)
          else augmentation_loop (pred_numeral k) e ending (i + 1) record p }"
  by (simp add: numeral_eq_Suc)

fun FIRCLSDwarfParseAndProcessAugmentation ::
  "env \<Rightarrow> DWARFCIERecord ptr \<Rightarrow> u64 ptr \<Rightarrow> (bool \<times> DWARFCIERecord ptr \<times> u64 ptr) option" where
  "FIRCLSDwarfParseAndProcessAugmentation e (Some record) (Some p) =
     (if augmentation record = 0 then Some (False, Some record, Some p)
      else do {
        c0 \<leftarrow> mem e (augmentation record);
        if c0 = 0 then Some (True, Some record, Some p)
        else if c0 \<noteq> 0x7A then Some (False, Some record, Some p)
        else do {
          stringLength \<leftarrow> strlen e (augmentation record);
          (dataLength, p) \<leftarrow> FIRCLSParseULEB128AndAdvance e p;
          ending \<leftarrow> ptr_add p dataLength;
          (ok, record, p) \<leftarrow> augmentation_loop (stringLength - 1) e ending 1 record p;
          Some (ok, Some record, Some p) } })"
| "FIRCLSDwarfParseAndProcessAugmentation e record p = Some (False, record, p)"

section \<open>Common information entries\<close>

text \<open>Passes the addresses of two objects the caller owns.\<close>

definition addr_of2M ::
  "'a \<Rightarrow> 'b \<Rightarrow> ('a ptr \<Rightarrow> 'b ptr \<Rightarrow> ('r \<times> 'a ptr \<times> 'b ptr) option) \<Rightarrow> ('r \<times> 'a \<times> 'b) option" where
  [c_eval]: "addr_of2M x y f =
     map_option (\<lambda>(r, p, q). (r, case p of None \<Rightarrow> x | Some x \<Rightarrow> x, case q of None \<Rightarrow> y | Some y \<Rightarrow> y))
       (f (Some x) (Some y))"

lemma addr_of2M_Some [simp]:
  "f (Some x) (Some y) = Some (r, Some x', Some y') \<Longrightarrow> addr_of2M x y f = Some (r, x', y')"
  by (simp add: addr_of2M_def)

text \<open>The return address register; \<open>None\<close> inside is the unsupported version.\<close>

definition parse_return_register :: "env \<Rightarrow> u8 \<Rightarrow> u64 \<Rightarrow> (u64 \<times> u64) option option" where
  [c_eval]: "parse_return_register e v p =
     (if v = 1 then map_option (\<lambda>(r, p). Some (ucast r, p)) (FIRCLSParseUint8AndAdvance e p)
      else if v = 3 then map_option Some (FIRCLSParseULEB128AndAdvance e p)
      else Some None)"

fun FIRCLSDwarfParseCIERecord ::
  "env \<Rightarrow> DWARFCIERecord ptr \<Rightarrow> u64 \<Rightarrow> (bool \<times> DWARFCIERecord ptr) option" where
  "FIRCLSDwarfParseCIERecord e None p = Some (False, None)"
| "FIRCLSDwarfParseCIERecord e (Some cie) p =
     (if p = 0 then Some (False, Some cie)
      else do {
        let cie = cie_zero;
        (len, p) \<leftarrow> FIRCLSParseRecordLengthAndAdvance e p;
        let cie = cie\<lparr>cie_length := len\<rparr>;
        if cie_length cie = 0 then Some (False, Some cie)
        else do {
          endAddress \<leftarrow> ptr_add p (cie_length cie);
          (flag, p) \<leftarrow> FIRCLSParseUint32AndAdvance e p;
          (v, p) \<leftarrow> FIRCLSParseUint8AndAdvance e p;
          let cie = cie\<lparr>version := v, pointerEncoding := DW_EH_PE_absptr, lsdaEncoding := DW_EH_PE_absptr\<rparr>;
          (s, p) \<leftarrow> FIRCLSParseStringAndAdvance e p;
          (caf, p) \<leftarrow> FIRCLSParseULEB128AndAdvance e p;
          (daf, p) \<leftarrow> FIRCLSParseLEB128AndAdvance e p;
          let cie = cie\<lparr>augmentation := s, codeAlignFactor := caf, dataAlignFactor := daf\<rparr>;
          ra \<leftarrow> parse_return_register e (version cie) p;
          case ra of
            None \<Rightarrow> Some (False, Some cie)
          | Some (r, p) \<Rightarrow> do {
              let cie = cie\<lparr>returnAddressRegister := r\<rparr>;
              (ok, cie, p) \<leftarrow> addr_of2M cie p (FIRCLSDwarfParseAndProcessAugmentation e);
              if \<not> ok then Some (False, Some cie)
              else Some (True, Some (cie\<lparr>cie_instructions := set_instructions p endAddress\<rparr>)) } } })"

fun FIRCLSDwarfCIEIsValid :: "DWARFCIERecord ptr \<Rightarrow> bool" where
  "FIRCLSDwarfCIEIsValid None = False"
| "FIRCLSDwarfCIEIsValid (Some cie) =
     (if cie_length cie = 0 then False
      else if version cie \<noteq> 1 \<and> version cie \<noteq> 3 then False
      else True)"

fun FIRCLSDwarfCIEHasAugmentationData :: "env \<Rightarrow> DWARFCIERecord ptr \<Rightarrow> bool option" where
  "FIRCLSDwarfCIEHasAugmentationData e None = Some False"
| "FIRCLSDwarfCIEHasAugmentationData e (Some cie) =
     (if augmentation cie = 0 then Some False
      else do { c \<leftarrow> mem e (augmentation cie); Some (c = 0x7A) })"

section \<open>Frame description entries\<close>

text \<open>
  The part of \<open>FIRCLSDwarfParseFDERecord\<close> after the CIE is at hand: \<open>p\<close> is just past the
  CIE offset.
\<close>

definition parse_fde_body ::
  "env \<Rightarrow> DWARFFDERecord \<Rightarrow> DWARFCIERecord \<Rightarrow> u64 \<Rightarrow> u64 \<Rightarrow> (bool \<times> DWARFFDERecord) option" where
  [c_eval]: "parse_fde_body e fde cie p endAddress =
     (if \<not> FIRCLSDwarfCIEIsValid (Some cie) then Some (False, fde)
      else do {
        (a, p) \<leftarrow> addr_ofM p (\<lambda>p. FIRCLSParseAddressWithEncodingAndAdvance e p (pointerEncoding cie));
        let fde = fde\<lparr>startAddress := a\<rparr>;
        if startAddress fde = CLS_INVALID_ADDRESS then Some (False, fde)
        else do {
          (a, p) \<leftarrow> addr_ofM p (\<lambda>p. FIRCLSParseAddressWithEncodingAndAdvance e p
                       (pointerEncoding cie AND DW_EH_PE_VALUE_MASK));
          let fde = fde\<lparr>rangeSize := a\<rparr>;
          if rangeSize fde = CLS_INVALID_ADDRESS then Some (False, fde)
          else do {
            aug \<leftarrow> FIRCLSDwarfCIEHasAugmentationData e (Some cie);
            p \<leftarrow> (if aug
                  then do { (augmentationLength, p) \<leftarrow> FIRCLSParseULEB128AndAdvance e p;
                            ptr_add p augmentationLength }
                  else Some p);
            Some (True, fde\<lparr>fde_instructions := set_instructions p endAddress\<rparr>) } } })"

fun FIRCLSDwarfParseFDERecord ::
  "env \<Rightarrow> DWARFFDERecord ptr \<Rightarrow> bool \<Rightarrow> DWARFCIERecord ptr \<Rightarrow> u64 \<Rightarrow>
   (bool \<times> DWARFFDERecord ptr \<times> DWARFCIERecord ptr) option" where
  "FIRCLSDwarfParseFDERecord e (Some fde) parseCIE (Some cie) p =
     (if p = 0 then Some (False, Some fde, Some cie)
      else do {
        (len, p) \<leftarrow> FIRCLSParseRecordLengthAndAdvance e p;
        let fde = fde\<lparr>fde_length := len\<rparr>;
        if fde_length fde = 0 then Some (False, Some fde, Some cie)
        else do {
          endAddress \<leftarrow> ptr_add p (fde_length fde);
          (offset, p) \<leftarrow> FIRCLSParseUint32AndAdvance e p;
          let fde = fde\<lparr>cieOffset := ucast offset\<rparr>;
          if cieOffset fde = 0 then Some (False, Some fde, Some cie)
          else do {
            (ok, cie) \<leftarrow>
              (if parseCIE
               then do { q \<leftarrow> ptr_sub p (cieOffset fde);
                         ciePointer \<leftarrow> ptr_sub q 4;
                         addr_ofM cie (\<lambda>c. FIRCLSDwarfParseCIERecord e c ciePointer) }
               else Some (True, cie));
            if \<not> ok then Some (False, Some fde, Some cie)
            else do {
              (ok, fde) \<leftarrow> parse_fde_body e fde cie p endAddress;
              Some (ok, Some fde, Some cie) } } } })"
| "FIRCLSDwarfParseFDERecord e fde parseCIE cie p = Some (False, fde, cie)"

fun FIRCLSDwarfParseCFIFromFDERecord ::
  "env \<Rightarrow> FIRCLSDwarfCFIRecord ptr \<Rightarrow> u64 \<Rightarrow> (bool \<times> FIRCLSDwarfCFIRecord ptr) option" where
  "FIRCLSDwarfParseCFIFromFDERecord e None p = Some (False, None)"
| "FIRCLSDwarfParseCFIFromFDERecord e (Some record) p =
     (if p = 0 then Some (False, Some record)
      else do { (ok, fde, cie) \<leftarrow> addr_of2M (cfi_fde record) (cfi_cie record)
                  (\<lambda>fde cie. FIRCLSDwarfParseFDERecord e fde True cie p);
                Some (ok, Some \<lparr>cfi_cie = cie, cfi_fde = fde\<rparr>) })"

fun FIRCLSDwarfParseCFIFromFDERecordOffset ::
  "env \<Rightarrow> FIRCLSDwarfCFIRecord ptr \<Rightarrow> u64 \<Rightarrow> u64 \<Rightarrow> (bool \<times> FIRCLSDwarfCFIRecord ptr) option" where
  "FIRCLSDwarfParseCFIFromFDERecordOffset e None ehFrame fdeOffset = Some (False, None)"
| "FIRCLSDwarfParseCFIFromFDERecordOffset e (Some record) ehFrame fdeOffset =
     (if ehFrame = 0 \<or> fdeOffset = 0 then Some (False, Some record)
      else do { p \<leftarrow> ptr_add ehFrame fdeOffset;
                FIRCLSDwarfParseCFIFromFDERecord e (Some record) p })"

lemmas [c_eval] = FIRCLSDwarfParseAndProcessAugmentation.simps FIRCLSDwarfParseCIERecord.simps
  FIRCLSDwarfCIEIsValid.simps FIRCLSDwarfCIEHasAugmentationData.simps
  FIRCLSDwarfParseFDERecord.simps FIRCLSDwarfParseCFIFromFDERecord.simps
  FIRCLSDwarfParseCFIFromFDERecordOffset.simps addr_of_def addr_ofM_def

end
