(* ===== verification/EncodedAddress.thy ===== *)
theory EncodedAddress
  imports Readers
begin

text \<open>
  The encoded addresses of unwind records as a format: how a value is written under each value
  encoding, which address an encoding makes of it at a place in memory, and the proof that
  \<open>FIRCLSParseAddressWithEncodingAndAdvance\<close> reads back every value that its encoding can hold.
\<close>

section \<open>Values\<close>

text \<open>The values an encoding can hold: the extensions of its width, or the range of the LEB128 readers.\<close>

definition value_ok :: "u8 \<Rightarrow> s64 \<Rightarrow> bool" where
  "value_ok enc v \<longleftrightarrow>
     enc = DW_EH_PE_ptr \<or> enc = DW_EH_PE_udata8 \<or> enc = DW_EH_PE_sdata8 \<or>
     enc = DW_EH_PE_uleb128 \<and> unat v < 2 ^ 31 \<or>
     enc = DW_EH_PE_sleb128 \<and> - (2 ^ 27) \<le> sint v \<and> sint v < 2 ^ 31 \<or>
     enc = DW_EH_PE_udata2 \<and> v = ucast (ucast v :: u16) \<or>
     enc = DW_EH_PE_udata4 \<and> v = ucast (ucast v :: u32) \<or>
     enc = DW_EH_PE_sdata2 \<and> v = scast (ucast v :: u16) \<or>
     enc = DW_EH_PE_sdata4 \<and> v = scast (ucast v :: u32)"

definition value_bytes :: "u8 \<Rightarrow> s64 \<Rightarrow> u8 list" where
  "value_bytes enc v =
     (if enc = DW_EH_PE_uleb128 then uleb_encode (unat v)
      else if enc = DW_EH_PE_sleb128 then sleb_encode (sint v)
      else if enc = DW_EH_PE_udata2 \<or> enc = DW_EH_PE_sdata2 then le_bytes 2 (unat (ucast v :: u16))
      else if enc = DW_EH_PE_udata4 \<or> enc = DW_EH_PE_sdata4 then le_bytes 4 (unat (ucast v :: u32))
      else le_bytes 8 (unat v))"

lemma parse_encoded_value_encode:
  assumes "value_ok enc v" and "mem_has e c (value_bytes enc v @ rest)"
  shows "parse_encoded_value e enc c = Some (Some (v, c + of_nat (length (value_bytes enc v))))"
  using assms
    ptr_reader.parse_append(1) [of e c v rest] u64r.parse_append(1) [of e c v rest] s64r.parse_append(1) [of e c v rest]
    uleb.parse_append(1) [of v e c rest] sleb.parse_append(1) [of v e c rest]
    u16r.parse_append(1) [of e c "ucast v" rest] s16r.parse_append(1) [of e c "ucast v" rest]
    u32r.parse_append(1) [of e c "ucast v" rest] s32r.parse_append(1) [of e c "ucast v" rest]
  unfolding value_ok_def by (elim disjE conjE) (simp_all add: parse_encoded_value_def value_bytes_def)

section \<open>Addresses\<close>

text \<open>
  The address that \<open>v\<close>, written at \<open>q\<close> under \<open>enc\<close>, stands for: itself or relative to \<open>q\<close>, and
  directly or through a word in memory.  The null address is written as no bytes under \<open>omit\<close>.
\<close>

definition base_address :: "u64 \<Rightarrow> u8 \<Rightarrow> s64 \<Rightarrow> u64" where
  "base_address q enc v = (if enc AND DW_EH_PE_RELATIVE_OFFSET_MASK = DW_EH_PE_pcrel then v + q else v)"

definition encoded_address :: "env \<Rightarrow> u64 \<Rightarrow> u8 \<Rightarrow> s64 \<Rightarrow> u64 option" where
  "encoded_address e q enc v =
     (if enc = DW_EH_PE_omit then Some 0
      else if enc AND DW_EH_PE_indirect = 0 then Some (base_address q enc v)
      else if base_address q enc v = 0 then None else load e (base_address q enc v) 8)"

definition address_ok :: "env \<Rightarrow> u64 \<Rightarrow> u8 \<Rightarrow> s64 \<Rightarrow> bool" where
  "address_ok e q enc v \<longleftrightarrow> encoded_address e q enc v \<noteq> None \<and>
     (enc = DW_EH_PE_omit \<or> value_ok (enc AND DW_EH_PE_VALUE_MASK) v \<and>
       (enc AND DW_EH_PE_RELATIVE_OFFSET_MASK = DW_EH_PE_absptr \<or>
        enc AND DW_EH_PE_RELATIVE_OFFSET_MASK = DW_EH_PE_pcrel \<and> in_s64 (sint v + sint q)))"

definition address_bytes :: "u8 \<Rightarrow> s64 \<Rightarrow> u8 list" where
  "address_bytes enc v = (if enc = DW_EH_PE_omit then [] else value_bytes (enc AND DW_EH_PE_VALUE_MASK) v)"

lemma address_round_trip:
  assumes "address_ok e q enc v" and "mem_has e q (address_bytes enc v @ rest)" and "q \<noteq> 0"
  shows "\<exists>a. encoded_address e q enc v = Some a \<and>
    FIRCLSParseAddressWithEncodingAndAdvance e (Some q) enc =
      Some (a, Some (q + of_nat (length (address_bytes enc v))))"
proof (cases "enc = DW_EH_PE_omit")
  case True
  then show ?thesis
    by (simp add: encoded_address_def address_bytes_def FIRCLSParseAddressWithEncodingAndAdvance_def)
next
  case False
  have "parse_encoded_value e (enc AND DW_EH_PE_VALUE_MASK) q =
      Some (Some (v, q + of_nat (length (address_bytes enc v))))"
    using parse_encoded_value_encode [of "enc AND DW_EH_PE_VALUE_MASK" v e q rest] assms(1,2) False
    by (simp add: address_ok_def address_bytes_def)
  with False assms(1,3) show ?thesis
    by (auto simp: address_ok_def FIRCLSParseAddressWithEncodingAndAdvance_def encoded_address_def
        base_address_def sadd64_def Let_def split: if_splits)
qed

end
