(* ===== verification/RecordSpec.thy ===== *)
theory RecordSpec
  imports DwarfRecords EncodedAddress
begin

text \<open>
  The record parsers against the format: an encoder of common information entries, and the proof
  that the parser reads back every entry it writes; the failures of the parsers; and that a
  successful FDE parse does not depend on what the caller's record held before.
\<close>

section \<open>Encoding a common information entry\<close>

text \<open>The augmentations the parser knows; the personality with the encoding and value of its address.\<close>

datatype aug_entry = AugLsda u8 | AugPointer u8 | AugPersonality u8 s64 | AugSignal

fun aug_char :: "aug_entry \<Rightarrow> u8" where
  "aug_char (AugLsda v) = 0x4C"
| "aug_char (AugPointer v) = 0x52"
| "aug_char (AugPersonality enc v) = 0x50"
| "aug_char AugSignal = 0x53"

fun aug_bytes :: "aug_entry \<Rightarrow> u8 list" where
  "aug_bytes (AugLsda v) = [v]"
| "aug_bytes (AugPointer v) = [v]"
| "aug_bytes (AugPersonality enc v) = enc # address_bytes enc v"
| "aug_bytes AugSignal = []"

text \<open>What the entry at \<open>q\<close> says of the record; an encoded address is relative to its own place.\<close>

fun aug_apply :: "env \<Rightarrow> u64 \<Rightarrow> aug_entry \<Rightarrow> DWARFCIERecord \<Rightarrow> DWARFCIERecord" where
  "aug_apply e q (AugLsda v) r = r\<lparr>lsdaEncoding := v\<rparr>"
| "aug_apply e q (AugPointer v) r = r\<lparr>pointerEncoding := v\<rparr>"
| "aug_apply e q (AugPersonality enc v) r =
     r\<lparr>personalityEncoding := enc, personalityFunction := (case encoded_address e (q + 1) enc v of None \<Rightarrow> 0 | Some a \<Rightarrow> a)\<rparr>"
| "aug_apply e q AugSignal r = r\<lparr>signalFrame := True\<rparr>"

fun aug_ok :: "env \<Rightarrow> u64 \<Rightarrow> aug_entry \<Rightarrow> bool" where
  "aug_ok e q (AugPersonality enc v) =
     (address_ok e (q + 1) enc v \<and> encoded_address e (q + 1) enc v \<noteq> Some CLS_INVALID_ADDRESS)"
| "aug_ok e q _ = True"

text \<open>The entries that follow each other from \<open>q\<close> on.\<close>

primrec apply_all :: "env \<Rightarrow> u64 \<Rightarrow> aug_entry list \<Rightarrow> DWARFCIERecord \<Rightarrow> DWARFCIERecord" where
  "apply_all e q [] r = r"
| "apply_all e q (a # es) r = apply_all e (q + of_nat (length (aug_bytes a))) es (aug_apply e q a r)"

primrec all_ok :: "env \<Rightarrow> u64 \<Rightarrow> aug_entry list \<Rightarrow> bool" where
  "all_ok e q [] \<longleftrightarrow> True"
| "all_ok e q (a # es) \<longleftrightarrow> aug_ok e q a \<and> all_ok e (q + of_nat (length (aug_bytes a))) es"

definition aug_data :: "aug_entry list \<Rightarrow> u8 list" where
  "aug_data es = concat (map aug_bytes es)"

definition aug_string :: "aug_entry list option \<Rightarrow> u8 list" where
  "aug_string a = (case a of None \<Rightarrow> [] | Some es \<Rightarrow> 0x7A # map aug_char es)"

definition aug_section :: "aug_entry list option \<Rightarrow> u8 list" where
  "aug_section a = (case a of None \<Rightarrow> [] | Some es \<Rightarrow> uleb_encode (length (aug_data es)) @ aug_data es)"

text \<open>The augmentation of the section at \<open>p\<close>, after the length of its data.\<close>

definition section_apply :: "env \<Rightarrow> u64 \<Rightarrow> aug_entry list option \<Rightarrow> DWARFCIERecord \<Rightarrow> DWARFCIERecord" where
  "section_apply e p a r = (case a of None \<Rightarrow> r
     | Some es \<Rightarrow> apply_all e (p + of_nat (length (uleb_encode (length (aug_data es))))) es r)"

definition section_ok :: "env \<Rightarrow> u64 \<Rightarrow> aug_entry list option \<Rightarrow> bool" where
  "section_ok e p a \<longleftrightarrow> (case a of None \<Rightarrow> True
     | Some es \<Rightarrow> all_ok e (p + of_nat (length (uleb_encode (length (aug_data es))))) es \<and> length (aug_data es) < 2 ^ 31)"

lemma aug_apply_augmentation [simp]: "augmentation (aug_apply e q a r) = augmentation r"
  by (cases a) simp_all

lemma aug_string_nonzero: "0 \<notin> set (aug_string a)"
proof -
  have "aug_char x \<noteq> 0" for x by (cases x) simp_all
  then show ?thesis by (auto simp: aug_string_def split: option.splits)
qed

section \<open>Augmentation\<close>

lemma augmentation_entry_encode:
  assumes "aug_ok e p a" and "mem_has e p (aug_bytes a @ rest)" and "p \<noteq> 0"
  shows "augmentation_entry e (aug_char a) r p =
    Some (True, aug_apply e p a r, p + of_nat (length (aug_bytes a)))"
proof (cases a)
  case (AugPersonality enc v)
  have m0: "mem_has e p (enc # address_bytes enc v @ rest)"
    using assms(2) AugPersonality by simp
  then have 1: "FIRCLSParseUint8AndAdvance e p = Some (enc, p + 1)"
    and m: "mem_has e (p + 1) (address_bytes enc v @ rest)"
    using parse_u8 by (blast, simp)
  have "unat p + 1 < 2 ^ 64" using mem_has_bound [OF m0] by simp
  from unat_plus_1 [OF this] have "p + 1 \<noteq> 0" by auto
  with address_round_trip [OF _ m] assms(1) AugPersonality obtain x where
    "encoded_address e (p + 1) enc v = Some x" "x \<noteq> CLS_INVALID_ADDRESS"
    "FIRCLSParseAddressWithEncodingAndAdvance e (Some (p + 1)) enc = Some (x, Some (p + 1 + of_nat (length (address_bytes enc v))))"
    by auto
  with 1 AugPersonality show ?thesis
    by (simp add: augmentation_entry_def addr_ofM_def add.assoc)
qed (use assms parse_u8 in \<open>auto simp: augmentation_entry_def\<close>)

lemma augmentation_loop_encode:
  assumes "all_ok e p es" and "mem_has e p (aug_data es @ rest)" and "p \<noteq> 0"
    and "mem_has e (augmentation r + of_nat i) (map aug_char es)"
    and "ending = p + of_nat (length (aug_data es))"
  shows "augmentation_loop (length es) e ending i r p = Some (True, apply_all e p es r, ending)"
  using assms
proof (induction es arbitrary: p r i)
  case Nil
  then show ?case by (simp add: aug_data_def)
next
  case (Cons a es)
  let ?p = "p + of_nat (length (aug_bytes a))"
  have m: "mem_has e p (aug_bytes a @ aug_data es @ rest)"
    using Cons.prems(2) by (simp add: aug_data_def)
  then have rest: "mem_has e ?p (aug_data es @ rest)" by (simp add: mem_has_append)
  have bound: "unat p + (length (aug_bytes a) + length (aug_data es)) < 2 ^ 64"
    using mem_has_bound [OF m] by simp
  then have u: "unat ?p = unat p + length (aug_bytes a)"
    "unat ending = unat p + (length (aug_bytes a) + length (aug_data es))"
    unfolding Cons.prems(5) by (simp_all add: unat_word_ariths aug_data_def)
  have "0 < unat p" using Cons.prems(3) by (simp add: unat_gt_0)
  with u(1) have "?p \<noteq> 0" by (metis add_is_0 less_irrefl unat_0)
  moreover have "\<not> ending < ?p" using u by (simp add: word_less_nat_alt)
  moreover have "ending = ?p + of_nat (length (aug_data es))"
    unfolding Cons.prems(5) by (simp add: aug_data_def add.assoc)
  moreover have "mem e (augmentation r + of_nat i) = Some (aug_char a)"
    "mem_has e (augmentation (aug_apply e p a r) + of_nat (i + 1)) (map aug_char es)"
    using Cons.prems(4) by (simp_all add: add_ac)
  ultimately show ?case
    using Cons.IH [OF _ rest, of "aug_apply e p a r" "i + 1"] Cons.prems(1)
      augmentation_entry_encode [OF _ m Cons.prems(3)] by simp
qed

lemma augmentation_encode:
  assumes "section_ok e p a"
    and "mem_has e s (aug_string a @ [0])" and "augmentation r = s" and "s \<noteq> 0" and "p \<noteq> 0"
    and "mem_has e p (aug_section a @ rest)"
  shows "FIRCLSDwarfParseAndProcessAugmentation e (Some r) (Some p) =
    Some (True, Some (section_apply e p a r), Some (p + of_nat (length (aug_section a))))"
proof (cases a)
  case None
  then show ?thesis using assms by (simp add: aug_string_def aug_section_def section_apply_def)
next
  case (Some es)
  let ?d = "aug_data es"
  let ?n = "of_nat (length ?d) :: u64"
  let ?p = "p + of_nat (length (uleb_encode (length ?d)))"
  have len: "strlen e s = Some (Suc (length es))"
    using strlen_from_spec [OF assms(2) aug_string_nonzero, of 0] Some
    by (simp add: strlen_def aug_string_def)
  have es: "all_ok e ?p es" "length ?d < 2 ^ 31" using assms(1) Some by (simp_all add: section_ok_def)
  have un: "unat ?n = length ?d" using es(2) by simp
  have m: "mem_has e p (uleb_encode (length ?d) @ ?d @ rest)"
    using assms(6) Some by (simp add: aug_section_def)
  have read: "FIRCLSParseULEB128AndAdvance e p = Some (?n, ?p)" and rest: "mem_has e ?p (?d @ rest)"
    using uleb.parse_append [of ?n e p "?d @ rest"] m un es(2) by simp_all
  have bound: "unat p + (length (uleb_encode (length ?d)) + length ?d) < 2 ^ 64"
    using mem_has_bound [OF m] by simp
  then have up: "unat ?p = unat p + length (uleb_encode (length ?d))"
    by (simp add: unat_word_ariths)
  with bound un have "ptr_add ?p ?n = Some (?p + ?n)" by (simp add: ptr_add_Some)
  moreover have "0 < unat p" using assms(5) by (simp add: unat_gt_0)
  with up have "?p \<noteq> 0" by (metis add_is_0 less_irrefl unat_0)
  then have "augmentation_loop (length es) e (?p + ?n) 1 r ?p =
      Some (True, apply_all e ?p es r, ?p + ?n)"
    using es assms(2,3) Some
    by (intro augmentation_loop_encode [OF _ rest]) (simp_all add: aug_string_def mem_has_append)
  ultimately show ?thesis
    using Some assms(2,3,4) read len
    by (simp add: aug_string_def aug_section_def section_apply_def add.assoc)
qed

section \<open>Whole entries\<close>

record cie_fields =
  f_version :: u8
  f_augmentation :: "aug_entry list option"
  f_caf :: u64
  f_daf :: s64
  f_ra :: u64
  f_code :: "u8 list"

definition ra_bytes :: "u8 \<Rightarrow> u64 \<Rightarrow> u8 list" where
  "ra_bytes v ra = (if v = 1 then [ucast ra] else uleb_encode (unat ra))"

text \<open>What comes between the length field and the augmentation section, and the entry it makes.\<close>

definition cie_fixed :: "cie_fields \<Rightarrow> u8 list" where
  "cie_fixed f = le_bytes 4 (unat DWARF_CIE_ID_CIE_FLAG) @ [f_version f] @
     aug_string (f_augmentation f) @ [0] @ uleb_encode (unat (f_caf f)) @
     sleb_encode (sint (f_daf f)) @ ra_bytes (f_version f) (f_ra f)"

definition cie_head :: "cie_fields \<Rightarrow> u8 list" where
  "cie_head f = cie_fixed f @ aug_section (f_augmentation f)"

definition cie_bytes :: "cie_fields \<Rightarrow> u8 list" where
  "cie_bytes f = record_length_bytes (of_nat (length (cie_head f @ f_code f))) @ cie_head f @ f_code f"

definition cie_body :: "cie_fields \<Rightarrow> u64 \<Rightarrow> u64" where
  "cie_body f p = p + of_nat (length (record_length_bytes (of_nat (length (cie_head f @ f_code f)))))"

text \<open>
  What the format and the readers ask of the fields of an entry at \<open>p\<close>: version 1 with a return
  register of one byte or version 3 with one below \<open>2 ^ 31\<close>, alignment factors in the range of the
  LEB128 readers, which shift as 32-bit numbers, and addresses that their encoding can hold.
\<close>

definition fields_ok :: "env \<Rightarrow> cie_fields \<Rightarrow> u64 \<Rightarrow> bool" where
  "fields_ok e f body \<longleftrightarrow> (f_version f = 1 \<and> unat (f_ra f) < 256 \<or> f_version f = 3 \<and> unat (f_ra f) < 2 ^ 31) \<and>
     section_ok e (body + of_nat (length (cie_fixed f))) (f_augmentation f) \<and>
     unat (f_caf f) < 2 ^ 31 \<and> - (2 ^ 27) \<le> sint (f_daf f) \<and> sint (f_daf f) < 2 ^ 31"

definition cie_ok :: "env \<Rightarrow> cie_fields \<Rightarrow> u64 \<Rightarrow> bool" where
  "cie_ok e f p \<longleftrightarrow> fields_ok e f (cie_body f p)"

text \<open>The record the parser should give for the entry at address \<open>p\<close>.\<close>

definition cie_expected :: "env \<Rightarrow> cie_fields \<Rightarrow> u64 \<Rightarrow> DWARFCIERecord" where
  "cie_expected e f p = (let body = cie_body f p in
     (section_apply e (body + of_nat (length (cie_fixed f))) (f_augmentation f)
        (cie_zero\<lparr>cie_length := of_nat (length (cie_head f @ f_code f)), version := f_version f, augmentation := body + 5,
           codeAlignFactor := f_caf f, dataAlignFactor := f_daf f, returnAddressRegister := f_ra f\<rparr>))
       \<lparr>cie_instructions :=
          \<lparr>instructions_length = of_nat (length (f_code f)), instructions_data = body + of_nat (length (cie_head f))\<rparr>\<rparr>)"

lemma return_register_encode:
  assumes "v = 1 \<and> unat ra < 256 \<or> v = 3 \<and> unat ra < 2 ^ 31" and "mem_has e p (ra_bytes v ra @ rest)"
  shows "parse_return_register e v p = Some (Some (ra, p + of_nat (length (ra_bytes v ra))))"
proof (cases "v = 1")
  case True
  have "unat (ucast ra :: u8) = unat ra"
    using assms(1) True by (simp add: unsigned_ucast_eq take_bit_nat_eq_self)
  moreover have "unat (ucast (ucast ra :: u8) :: u64) = unat (ucast ra :: u8)"
    using u8_less_256 [of "ucast ra"]
    by (subst unsigned_ucast_eq) (simp add: take_bit_nat_eq_self)
  ultimately have "ucast (ucast ra :: u8) = ra" by (simp only: word_unat_eq_iff)
  then show ?thesis
    using assms(2) True parse_u8 by (auto simp: parse_return_register_def ra_bytes_def)
next
  case False
  then show ?thesis
    using assms uleb.parse_append(1) [of ra e p rest]
    by (simp add: parse_return_register_def ra_bytes_def)
qed

lemma set_instructions_length:
  "set_instructions p (p + of_nat n) = \<lparr>instructions_length = of_nat n, instructions_data = p\<rparr>"
  by (simp add: set_instructions_def ucast_of_nat_32)

lemma parse_fields:
  assumes "fields_ok e f p" and "mem_has e p (cie_head f @ f_code f)" and "p \<noteq> 0"
  shows "\<exists>p1 p2 p3 p4 p5 p6.
    FIRCLSParseUint32AndAdvance e p = Some (DWARF_CIE_ID_CIE_FLAG, p1) \<and>
    FIRCLSParseUint8AndAdvance e p1 = Some (f_version f, p2) \<and>
    FIRCLSParseStringAndAdvance e p2 = Some (p + 5, p3) \<and>
    FIRCLSParseULEB128AndAdvance e p3 = Some (f_caf f, p4) \<and>
    FIRCLSParseLEB128AndAdvance e p4 = Some (f_daf f, p5) \<and>
    parse_return_register e (f_version f) p5 = Some (Some (f_ra f, p6)) \<and>
    (\<forall>r. augmentation r = p + 5 \<longrightarrow>
       FIRCLSDwarfParseAndProcessAugmentation e (Some r) (Some p6) =
       Some (True, Some (section_apply e (p + of_nat (length (cie_fixed f))) (f_augmentation f) r),
             Some (p + of_nat (length (cie_head f)))))"
proof -
  let ?s = "aug_string (f_augmentation f)"
  define t6 where "t6 = aug_section (f_augmentation f) @ f_code f"
  define t5 where "t5 = ra_bytes (f_version f) (f_ra f) @ t6"
  define t4 where "t4 = sleb_encode (sint (f_daf f)) @ t5"
  define t3 where "t3 = uleb_encode (unat (f_caf f)) @ t4"
  have m: "mem_has e p (le_bytes 4 (unat DWARF_CIE_ID_CIE_FLAG) @ f_version f # (?s @ [0]) @ t3)"
    using assms(2) by (simp add: cie_head_def cie_fixed_def t3_def t4_def t5_def t6_def)
  note r1 = u32r.parse_append [OF _ m]
  have m1: "mem_has e (p + 4) (f_version f # (?s @ [0]) @ t3)" using r1(2) by simp
  have m2: "mem_has e (p + 5) ((?s @ [0]) @ t3)" using m1 by (simp add: add.assoc)
  define p3 where "p3 = p + 5 + of_nat (length (?s @ [0]))"
  have s: "mem_has e (p + 5) (?s @ [0])" and m3: "mem_has e p3 t3"
    using m2 by (simp_all only: mem_has_append p3_def)
  define p4 where "p4 = p3 + of_nat (length (uleb_encode (unat (f_caf f))))"
  have r4: "FIRCLSParseULEB128AndAdvance e p3 = Some (f_caf f, p4)" and m4: "mem_has e p4 t4"
    using uleb.parse_append [OF _ m3 [unfolded t3_def]] assms(1) by (simp_all add: fields_ok_def p4_def)
  define p5 where "p5 = p4 + of_nat (length (sleb_encode (sint (f_daf f))))"
  have r5: "FIRCLSParseLEB128AndAdvance e p4 = Some (f_daf f, p5)" and m5: "mem_has e p5 t5"
    using sleb.parse_append [OF _ m4 [unfolded t4_def]] assms(1) by (simp_all add: fields_ok_def p5_def)
  define p6 where "p6 = p5 + of_nat (length (ra_bytes (f_version f) (f_ra f)))"
  have r6: "parse_return_register e (f_version f) p5 = Some (Some (f_ra f, p6))"
    using return_register_encode [OF _ m5 [unfolded t5_def]] assms(1) by (simp add: fields_ok_def p6_def)
  have m6: "mem_has e p6 t6" using m5 by (simp add: t5_def p6_def mem_has_append)
  have fixed: "p6 = p + of_nat (length (cie_fixed f))"
    by (simp add: p6_def p5_def p4_def p3_def cie_fixed_def add_ac)
  then have p6: "p6 + of_nat (length (aug_section (f_augmentation f))) = p + of_nat (length (cie_head f))"
    by (simp add: cie_head_def add_ac)
  have nz: "p + 5 \<noteq> 0" "p6 \<noteq> 0"
  proof -
    have len: "length (cie_head f) = length (le_bytes 4 0) + 1 + length ?s + 1 +
        length (uleb_encode (unat (f_caf f))) + length (sleb_encode (sint (f_daf f))) +
        length (ra_bytes (f_version f) (f_ra f)) + length (aug_section (f_augmentation f))"
      by (simp add: cie_head_def cie_fixed_def)
    have "unat p + length (cie_head f @ f_code f) < 2 ^ 64" using mem_has_bound [OF assms(2)] .
    moreover have "0 < unat p" using assms(3) by (simp add: unat_gt_0)
    ultimately have "unat (p + 5) = unat p + 5"
      "unat p6 = unat p + (5 + length ?s + 1 + length (uleb_encode (unat (f_caf f))) +
         length (sleb_encode (sint (f_daf f))) + length (ra_bytes (f_version f) (f_ra f)))"
      unfolding p6_def p5_def p4_def p3_def using len by (simp_all add: unat_word_ariths)
    then show "p + 5 \<noteq> 0" "p6 \<noteq> 0" by (metis add_is_0 numeral_neq_zero zero_neq_numeral unat_0, metis add_is_0 numeral_neq_zero unat_0)
  qed
  have "FIRCLSDwarfParseAndProcessAugmentation e (Some r) (Some p6) =
       Some (True, Some (section_apply e (p + of_nat (length (cie_fixed f))) (f_augmentation f) r),
             Some (p + of_nat (length (cie_head f))))" if "augmentation r = p + 5" for r
    unfolding p6 [symmetric] fixed [symmetric] using assms(1) m6 nz that s
    by (intro augmentation_encode) (simp_all add: fields_ok_def t6_def fixed)
  moreover have "FIRCLSParseStringAndAdvance e (p + 5) = Some (p + 5, p3)"
    using string_encode [OF s aug_string_nonzero] by (simp add: p3_def add_ac)
  moreover have "FIRCLSParseUint8AndAdvance e (p + 4) = Some (f_version f, p + 5)"
    using parse_u8 [OF m1] by (simp add: add.assoc)
  ultimately show ?thesis using r1(1) r4 r5 r6 by auto
qed

lemma record_body:
  assumes m: "mem_has e p (record_length_bytes (of_nat (length body)) @ body)" and "p \<noteq> 0" and "body \<noteq> []"
    and q: "q = p + of_nat (length (record_length_bytes (of_nat (length body))))"
  shows "FIRCLSParseRecordLengthAndAdvance e p = Some (of_nat (length body), q)" and "mem_has e q body" and "q \<noteq> 0"
    and "(of_nat (length body) :: u64) \<noteq> 0" and "ptr_add q (of_nat (length body)) = Some (q + of_nat (length body))"
proof -
  let ?len = "of_nat (length body) :: u64"
  show "FIRCLSParseRecordLengthAndAdvance e p = Some (?len, q)" "mem_has e q body"
    using reclen.parse_append [OF TrueI m] by (simp_all add: q)
  have bound: "unat p + (length (record_length_bytes ?len) + length body) < 2 ^ 64"
    using mem_has_bound [OF m] by simp
  have un: "unat ?len = length body" by (rule unat_of_nat64) (use bound in linarith)
  have uq: "unat q = unat p + length (record_length_bytes ?len)"
    unfolding q using bound by (simp add: unat_word_ariths)
  have "0 < unat p" using assms(2) by (simp add: unat_gt_0)
  then show "q \<noteq> 0" using uq by (metis add_is_0 less_irrefl unat_0)
  show "?len \<noteq> 0" using un assms(3) by (metis length_0_conv unat_0)
  show "ptr_add q ?len = Some (q + ?len)" using bound un uq by (simp add: ptr_add_Some)
qed

text \<open>
  C25: Round trip of common information entries: the parser reads back every encoded entry of
  version 1 or 3 whose fields the readers can hold (alignment factors and return register in the
  range of the LEB128 readers), with no augmentation or any sequence of LSDA encodings, pointer
  encodings, signal-frame marks and personality functions under any value encoding, absolute or
  relative, direct or indirect, and with any instructions; the record does not depend on what the
  caller's record held before.
\<close>

theorem cie_round_trip:
  assumes "cie_ok e f p" and "mem_has e p (cie_bytes f)" and "p \<noteq> 0"
  shows "FIRCLSDwarfParseCIERecord e (Some old) p = Some (True, Some (cie_expected e f p))"
proof -
  let ?body = "cie_head f @ f_code f"
  let ?len = "of_nat (length ?body) :: u64"
  define q where "q = cie_body f p"
  have ok: "fields_ok e f q" using assms(1) by (simp add: cie_ok_def q_def)
  have q: "q = p + of_nat (length (record_length_bytes ?len))" by (simp add: q_def cie_body_def)
  have "?body \<noteq> []" by (simp add: cie_head_def cie_fixed_def)
  note body = record_body [OF assms(2) [unfolded cie_bytes_def] assms(3) this q]
  obtain p1 p2 p3 p4 p5 p6 where r:
    "FIRCLSParseUint32AndAdvance e q = Some (DWARF_CIE_ID_CIE_FLAG, p1)"
    "FIRCLSParseUint8AndAdvance e p1 = Some (f_version f, p2)"
    "FIRCLSParseStringAndAdvance e p2 = Some (q + 5, p3)"
    "FIRCLSParseULEB128AndAdvance e p3 = Some (f_caf f, p4)"
    "FIRCLSParseLEB128AndAdvance e p4 = Some (f_daf f, p5)"
    "parse_return_register e (f_version f) p5 = Some (Some (f_ra f, p6))"
    and aug: "\<And>r. augmentation r = q + 5 \<Longrightarrow>
       FIRCLSDwarfParseAndProcessAugmentation e (Some r) (Some p6) =
       Some (True, Some (section_apply e (q + of_nat (length (cie_fixed f))) (f_augmentation f) r),
             Some (q + of_nat (length (cie_head f))))"
    using parse_fields [OF ok body(2,3)] by blast
  have "q + ?len = q + of_nat (length (cie_head f)) + of_nat (length (f_code f))" by simp
  then have ins: "set_instructions (q + of_nat (length (cie_head f))) (q + ?len) =
      \<lparr>instructions_length = of_nat (length (f_code f)),
       instructions_data = q + of_nat (length (cie_head f))\<rparr>"
    by (simp only: set_instructions_length)
  show ?thesis
    using assms(3) body(1,4,5) r
    by (simp add: addr_of2M_def aug ins cie_expected_def cie_zero_def Let_def q_def [symmetric]
        del: length_append of_nat_add FIRCLSDwarfParseAndProcessAugmentation.simps)
qed

text \<open>A personality function relative to its place, as the compilers for this platform write it.\<close>

theorem cie_round_trip_witness:
  "FIRCLSDwarfParseCIERecord (flat_env 0x1000 [24, 0, 0, 0, 0, 0, 0, 0, 1, 0x7A, 0x50, 0x52, 0, 1, 0x78, 16, 6, 0x1B,
      0, 1, 0, 0, 0x10, 0x0C, 7, 8, 0x90, 1]) (Some cie_zero) 0x1000 =
   Some (True, Some \<lparr>cie_length = 24, version = 1, ehData = 0, augmentation = 0x1009,
     pointerEncoding = 0x10, lsdaEncoding = 0, personalityEncoding = 0x1B, personalityFunction = 0x1112,
     codeAlignFactor = 1, dataAlignFactor = - 8, returnAddressRegister = 16, signalFrame = False,
     cie_instructions = \<lparr>instructions_length = 5, instructions_data = 0x1017\<rparr>\<rparr>)"
proof -
  let ?f = "\<lparr>f_version = 1, f_augmentation = Some [AugPersonality 0x1B 0x100, AugPointer 0x10], f_caf = 1, f_daf = - 8, f_ra = 16,
    f_code = [0x0C, 7, 8, 0x90, 1]\<rparr>"
  let ?e = "flat_env 0x1000 [24, 0, 0, 0, 0, 0, 0, 0, 1, 0x7A, 0x50, 0x52, 0, 1, 0x78, 16, 6, 0x1B,
      0, 1, 0, 0, 0x10, 0x0C, 7, 8, 0x90, 1]"
  note eval = cie_head_def cie_fixed_def le_bytes_numeral aug_string_def aug_section_def aug_data_def
    ra_bytes_def record_length_bytes_def uleb_encode.simps sleb_encode.simps leb_byte_def address_bytes_def value_bytes_def
  have b: "cie_bytes ?f = [24, 0, 0, 0, 0, 0, 0, 0, 1, 0x7A, 0x50, 0x52, 0, 1, 0x78, 16, 6, 0x1B,
      0, 1, 0, 0, 0x10, 0x0C, 7, 8, 0x90, 1]"
    by (simp add: cie_bytes_def eval)
  have body: "cie_body ?f 0x1000 = 0x1004" by (simp add: cie_body_def eval)
  have fixed: "length (cie_fixed ?f) = 12" by (simp add: eval)
  have x: "cie_expected ?e ?f 0x1000 = \<lparr>cie_length = 24, version = 1, ehData = 0, augmentation = 0x1009,
     pointerEncoding = 0x10, lsdaEncoding = 0, personalityEncoding = 0x1B, personalityFunction = 0x1112,
     codeAlignFactor = 1, dataAlignFactor = - 8, returnAddressRegister = 16, signalFrame = False,
     cie_instructions = \<lparr>instructions_length = 5, instructions_data = 0x1017\<rparr>\<rparr>"
    by (simp add: cie_expected_def cie_zero_def Let_def body section_apply_def encoded_address_def base_address_def eval)
  have "cie_ok ?e ?f 0x1000"
    by (simp add: cie_ok_def fields_ok_def body fixed section_ok_def address_ok_def encoded_address_def base_address_def
        value_ok_def in_s64_def CLS_INVALID_ADDRESS_def eval)
  then show ?thesis
    using cie_round_trip [of ?e ?f "0x1000" cie_zero] unfolding b x by (simp add: mem_flat_env)
qed

end
