(* ===== verification/ThreadState.thy ===== *)
theory ThreadState
  imports Prelude
begin

text \<open>
  \<open>Crashlytics/Helpers/FIRCLSThreadState.c\<close>: the register state of a thread.  The C code picks
  its register macros (\<open>GET_IP_REGISTER\<close> and so on) at compile time by CPU; here they are the
  record \<open>thread_state\<close> and the functions over them take it as an argument.  \<open>cpu\<close> adds what
  \<open>FIRCLSUnwind_x86.c\<close> and \<open>FIRCLSUnwind_arm.c\<close> each define for the DWARF register numbers.
  The instances for the two 64-bit CPUs are in \<open>Registers\<close>.
\<close>

record 'c thread_state =
  GET_IP_REGISTER :: "'c \<Rightarrow> u64"
  GET_FP_REGISTER :: "'c \<Rightarrow> u64"
  GET_SP_REGISTER :: "'c \<Rightarrow> u64"
  GET_LR_REGISTER :: "'c \<Rightarrow> u64"
  SET_IP_REGISTER :: "'c \<Rightarrow> u64 \<Rightarrow> 'c"
  SET_FP_REGISTER :: "'c \<Rightarrow> u64 \<Rightarrow> 'c"
  SET_SP_REGISTER :: "'c \<Rightarrow> u64 \<Rightarrow> 'c"
  SET_LR_REGISTER :: "'c \<Rightarrow> u64 \<Rightarrow> 'c"

record 'c cpu = "'c thread_state" +
  dwarf_get :: "'c \<Rightarrow> u64 \<Rightarrow> u64"
  dwarf_set :: "'c \<Rightarrow> u64 \<Rightarrow> u64 \<Rightarrow> bool \<times> 'c"
  CLS_DWARF_MAX_REGISTER_NUM :: nat
  CLS_DWARF_REG_RETURN :: u64
  CLS_DWARF_REG_SP :: u64

definition CLS_DWARF_INVALID_REGISTER_NUM :: "('c, 'z) cpu_scheme \<Rightarrow> u64" where
  [c_eval]: "CLS_DWARF_INVALID_REGISTER_NUM cpu = of_nat (CLS_DWARF_MAX_REGISTER_NUM cpu + 1)"

section \<open>Register access\<close>

fun FIRCLSThreadContextGetPC :: "('c, 'z) thread_state_scheme \<Rightarrow> 'c ptr \<Rightarrow> u64" where
  "FIRCLSThreadContextGetPC cpu None = 0"
| "FIRCLSThreadContextGetPC cpu (Some registers) = GET_IP_REGISTER cpu registers"

fun FIRCLSThreadContextGetStackPointer :: "('c, 'z) thread_state_scheme \<Rightarrow> 'c ptr \<Rightarrow> u64" where
  "FIRCLSThreadContextGetStackPointer cpu None = 0"
| "FIRCLSThreadContextGetStackPointer cpu (Some registers) = GET_SP_REGISTER cpu registers"

fun FIRCLSThreadContextGetLinkRegister :: "('c, 'z) thread_state_scheme \<Rightarrow> 'c ptr \<Rightarrow> u64" where
  "FIRCLSThreadContextGetLinkRegister cpu None = 0"
| "FIRCLSThreadContextGetLinkRegister cpu (Some registers) = GET_LR_REGISTER cpu registers"

fun FIRCLSThreadContextGetFramePointer :: "('c, 'z) thread_state_scheme \<Rightarrow> 'c ptr \<Rightarrow> u64" where
  "FIRCLSThreadContextGetFramePointer cpu None = 0"
| "FIRCLSThreadContextGetFramePointer cpu (Some registers) = GET_FP_REGISTER cpu registers"

fun FIRCLSThreadContextSetPC ::
  "('c, 'z) thread_state_scheme \<Rightarrow> 'c ptr \<Rightarrow> u64 \<Rightarrow> bool \<times> 'c ptr" where
  "FIRCLSThreadContextSetPC cpu None value = (False, None)"
| "FIRCLSThreadContextSetPC cpu (Some registers) value =
     (True, Some (SET_IP_REGISTER cpu registers value))"

fun FIRCLSThreadContextSetStackPointer ::
  "('c, 'z) thread_state_scheme \<Rightarrow> 'c ptr \<Rightarrow> u64 \<Rightarrow> bool \<times> 'c ptr" where
  "FIRCLSThreadContextSetStackPointer cpu None value = (False, None)"
| "FIRCLSThreadContextSetStackPointer cpu (Some registers) value =
     (True, Some (SET_SP_REGISTER cpu registers value))"

fun FIRCLSThreadContextSetLinkRegister ::
  "('c, 'z) thread_state_scheme \<Rightarrow> 'c ptr \<Rightarrow> u64 \<Rightarrow> bool \<times> 'c ptr" where
  "FIRCLSThreadContextSetLinkRegister cpu None value = (False, None)"
| "FIRCLSThreadContextSetLinkRegister cpu (Some registers) value =
     (True, Some (SET_LR_REGISTER cpu registers value))"

fun FIRCLSThreadContextSetFramePointer ::
  "('c, 'z) thread_state_scheme \<Rightarrow> 'c ptr \<Rightarrow> u64 \<Rightarrow> bool \<times> 'c ptr" where
  "FIRCLSThreadContextSetFramePointer cpu None value = (False, None)"
| "FIRCLSThreadContextSetFramePointer cpu (Some registers) value =
     (True, Some (SET_FP_REGISTER cpu registers value))"

lemmas thread_context_simps [c_eval] =
  FIRCLSThreadContextGetPC.simps FIRCLSThreadContextGetStackPointer.simps
  FIRCLSThreadContextGetLinkRegister.simps FIRCLSThreadContextGetFramePointer.simps
  FIRCLSThreadContextSetPC.simps FIRCLSThreadContextSetStackPointer.simps
  FIRCLSThreadContextSetLinkRegister.simps FIRCLSThreadContextSetFramePointer.simps

section \<open>The contract of a register file\<close>

text \<open>
  What the unwinder needs of a CPU.  \<open>kept n v\<close> is what a read of DWARF register \<open>n\<close> gives
  after \<open>v\<close> was written to it: \<open>v\<close> itself, or \<open>v\<close> without the bits the CPU strips.
\<close>

locale register_file =
  fixes cpu :: "('c, 'z) cpu_scheme" and kept :: "u64 \<Rightarrow> u64 \<Rightarrow> u64"
  assumes set_ok: "fst (dwarf_set cpu r n v) \<longleftrightarrow> unat n \<le> CLS_DWARF_MAX_REGISTER_NUM cpu"
    and set_fail: "CLS_DWARF_MAX_REGISTER_NUM cpu < unat n \<Longrightarrow> snd (dwarf_set cpu r n v) = r"
    and get_set: "unat n \<le> CLS_DWARF_MAX_REGISTER_NUM cpu \<Longrightarrow> unat m \<le> CLS_DWARF_MAX_REGISTER_NUM cpu \<Longrightarrow>
      dwarf_get cpu (snd (dwarf_set cpu r n v)) m = (if m = n then kept n v else dwarf_get cpu r m)"
    and max_small: "CLS_DWARF_MAX_REGISTER_NUM cpu < 63"
    and special: "unat (CLS_DWARF_REG_SP cpu) \<le> CLS_DWARF_MAX_REGISTER_NUM cpu"
      "unat (CLS_DWARF_REG_RETURN cpu) \<le> CLS_DWARF_MAX_REGISTER_NUM cpu"
      "CLS_DWARF_REG_SP cpu \<noteq> CLS_DWARF_REG_RETURN cpu"
    and set_return: "GET_IP_REGISTER cpu (snd (dwarf_set cpu r (CLS_DWARF_REG_RETURN cpu) v)) =
      kept (CLS_DWARF_REG_RETURN cpu) v"
    and set_not_return: "n \<noteq> CLS_DWARF_REG_RETURN cpu \<Longrightarrow>
      GET_IP_REGISTER cpu (snd (dwarf_set cpu r n v)) = GET_IP_REGISTER cpu r"
    and get_sp: "GET_SP_REGISTER cpu r = dwarf_get cpu r (CLS_DWARF_REG_SP cpu)"
begin

lemma set_cases:
  obtains "unat n \<le> CLS_DWARF_MAX_REGISTER_NUM cpu" "dwarf_set cpu r n v = (True, snd (dwarf_set cpu r n v))"
  | "CLS_DWARF_MAX_REGISTER_NUM cpu < unat n" "dwarf_set cpu r n v = (False, r)"
proof (cases "unat n \<le> CLS_DWARF_MAX_REGISTER_NUM cpu")
  case True
  then have "fst (dwarf_set cpu r n v)" by (simp add: set_ok)
  with True that(1) show ?thesis by (metis (full_types) prod.collapse)
next
  case False
  then have "\<not> fst (dwarf_set cpu r n v)" "snd (dwarf_set cpu r n v) = r"
    by (simp_all add: set_ok set_fail)
  with False that(2) show ?thesis by (metis (full_types) prod.collapse not_le)
qed

lemma set_twice_commute:
  assumes "unat n \<le> CLS_DWARF_MAX_REGISTER_NUM cpu" "unat n' \<le> CLS_DWARF_MAX_REGISTER_NUM cpu" "n \<noteq> n'"
    and "unat m \<le> CLS_DWARF_MAX_REGISTER_NUM cpu"
  shows "dwarf_get cpu (snd (dwarf_set cpu (snd (dwarf_set cpu r n v)) n' v')) m =
         dwarf_get cpu (snd (dwarf_set cpu (snd (dwarf_set cpu r n' v')) n v)) m"
  using assms by (simp add: get_set)

lemma register_numbers:
  "i \<le> CLS_DWARF_MAX_REGISTER_NUM cpu \<Longrightarrow> unat (of_nat i :: u64) = i"
  using max_small by simp

end

end
