(* ===== verification/ExpressionStack.thy ===== *)
theory ExpressionStack
  imports Prelude
begin

text \<open>
  The value stack of \<open>Crashlytics/Unwind/Dwarf/FIRCLSDwarfExpressionMachine.c\<close>: an array of
  100 values and a pointer to its first free slot.  The pointer is the index of that slot,
  \<open>None\<close> for the null pointer that overflow and underflow leave behind.  The locale
  \<open>bounded_stack\<close> is what the machine relies on; its lemmas say that a stack behaves as a
  bounded list until its first error, and that the error sticks.
\<close>

section \<open>The stack\<close>

definition CLS_DWARF_EXPRESSION_STACK_SIZE :: nat where
  [c_eval]: "CLS_DWARF_EXPRESSION_STACK_SIZE = 100"

record FIRCLSDwarfExpressionStack =
  stack_buffer :: "s64 list"
  stack_pointer :: "nat option"

definition stack_zero :: FIRCLSDwarfExpressionStack where
  "stack_zero = \<lparr>stack_buffer = replicate CLS_DWARF_EXPRESSION_STACK_SIZE 0, stack_pointer = None\<rparr>"

fun FIRCLSDwarfExpressionStackInit ::
  "FIRCLSDwarfExpressionStack ptr \<Rightarrow> FIRCLSDwarfExpressionStack ptr" where
  "FIRCLSDwarfExpressionStackInit None = None"
| "FIRCLSDwarfExpressionStackInit (Some stack) = Some (stack_zero\<lparr>stack_pointer := Some 0\<rparr>)"

fun FIRCLSDwarfExpressionStackIsValid :: "FIRCLSDwarfExpressionStack ptr \<Rightarrow> bool" where
  "FIRCLSDwarfExpressionStackIsValid None = False"
| "FIRCLSDwarfExpressionStackIsValid (Some stack) =
     (case stack_pointer stack of None \<Rightarrow> False
      | Some p \<Rightarrow> \<not> CLS_DWARF_EXPRESSION_STACK_SIZE < p)"

fun FIRCLSDwarfExpressionStackPush ::
  "FIRCLSDwarfExpressionStack ptr \<Rightarrow> s64 \<Rightarrow> bool \<times> FIRCLSDwarfExpressionStack ptr" where
  "FIRCLSDwarfExpressionStackPush None value = (False, None)"
| "FIRCLSDwarfExpressionStackPush (Some stack) value =
     (if \<not> FIRCLSDwarfExpressionStackIsValid (Some stack) then (False, Some stack)
      else case stack_pointer stack of None \<Rightarrow> (False, Some stack)
      | Some p \<Rightarrow>
          if p = CLS_DWARF_EXPRESSION_STACK_SIZE
          then (False, Some (stack\<lparr>stack_pointer := None\<rparr>))
          else (True, Some (stack\<lparr>stack_buffer := (stack_buffer stack)[p := value],
                                  stack_pointer := Some (p + 1)\<rparr>)))"

fun FIRCLSDwarfExpressionStackPeek ::
  "FIRCLSDwarfExpressionStack ptr \<Rightarrow> s64 \<times> FIRCLSDwarfExpressionStack ptr" where
  "FIRCLSDwarfExpressionStackPeek None = (0, None)"
| "FIRCLSDwarfExpressionStackPeek (Some stack) =
     (if \<not> FIRCLSDwarfExpressionStackIsValid (Some stack) then (0, Some stack)
      else case stack_pointer stack of None \<Rightarrow> (0, Some stack)
      | Some p \<Rightarrow>
          if p = 0 then (0, Some (stack\<lparr>stack_pointer := None\<rparr>))
          else (stack_buffer stack ! (p - 1), Some stack))"

fun FIRCLSDwarfExpressionStackPop ::
  "FIRCLSDwarfExpressionStack ptr \<Rightarrow> s64 \<times> FIRCLSDwarfExpressionStack ptr" where
  "FIRCLSDwarfExpressionStackPop None = (0, None)"
| "FIRCLSDwarfExpressionStackPop (Some stack) =
     (if \<not> FIRCLSDwarfExpressionStackIsValid (Some stack) then (0, Some stack)
      else case stack_pointer stack of None \<Rightarrow> (0, Some stack)
      | Some p \<Rightarrow>
          if p = 0 then (0, Some (stack\<lparr>stack_pointer := None\<rparr>))
          else (stack_buffer stack ! (p - 1), Some (stack\<lparr>stack_pointer := Some (p - 1)\<rparr>)))"

lemmas [c_eval] = stack_zero_def FIRCLSDwarfExpressionStackInit.simps
  FIRCLSDwarfExpressionStackIsValid.simps FIRCLSDwarfExpressionStackPush.simps
  FIRCLSDwarfExpressionStackPeek.simps FIRCLSDwarfExpressionStackPop.simps

section \<open>The contract\<close>

text \<open>
  \<open>contents s\<close> is the list of values, topmost first, of a stack without an error, and
  \<open>None\<close> once an error has happened.
\<close>

locale bounded_stack =
  fixes contents :: "'s \<Rightarrow> 'v list option" and wf :: "'s \<Rightarrow> bool"
    and push :: "'s \<Rightarrow> 'v \<Rightarrow> bool \<times> 's" and pop peek :: "'s \<Rightarrow> 'v \<times> 's"
    and bottom :: 'v and capacity :: nat
  assumes push_wf: "wf s \<Longrightarrow> wf (snd (push s v))"
    and pop_wf: "wf s \<Longrightarrow> wf (snd (pop s))"
    and peek_wf: "wf s \<Longrightarrow> wf (snd (peek s))"
    and push_contents: "wf s \<Longrightarrow> contents (snd (push s v)) =
      (case contents s of Some xs \<Rightarrow> if length xs < capacity then Some (v # xs) else None | None \<Rightarrow> None)"
    and push_ok: "wf s \<Longrightarrow> fst (push s v) \<longleftrightarrow> contents (snd (push s v)) \<noteq> None"
    and pop_contents: "wf s \<Longrightarrow> contents (snd (pop s)) =
      (case contents s of Some (x # xs) \<Rightarrow> Some xs | _ \<Rightarrow> None)"
    and pop_value: "wf s \<Longrightarrow> fst (pop s) = (case contents s of Some (x # xs) \<Rightarrow> x | _ \<Rightarrow> bottom)"
    and peek_contents: "wf s \<Longrightarrow> contents (snd (peek s)) =
      (case contents s of Some (x # xs) \<Rightarrow> Some (x # xs) | _ \<Rightarrow> None)"
    and peek_value: "wf s \<Longrightarrow> fst (peek s) = (case contents s of Some (x # xs) \<Rightarrow> x | _ \<Rightarrow> bottom)"
    and capacity_bound: "wf s \<Longrightarrow> contents s = Some xs \<Longrightarrow> length xs \<le> capacity"
begin

lemma push_eq:
  assumes "wf s"
  obtains s' where "wf s'" "push s v = (contents s' \<noteq> None, s')"
    "contents s' = (case contents s of Some xs \<Rightarrow> if length xs < capacity then Some (v # xs) else None
                    | None \<Rightarrow> None)"
  by (rule that [OF push_wf [OF assms] _ push_contents [OF assms]])
    (simp only: push_ok [OF assms, symmetric] prod.collapse)

lemma pop_eq:
  assumes "wf s"
  obtains s' where "wf s'"
    "pop s = (case contents s of Some (x # xs) \<Rightarrow> x | _ \<Rightarrow> bottom, s')"
    "contents s' = (case contents s of Some (x # xs) \<Rightarrow> Some xs | _ \<Rightarrow> None)"
  by (rule that [of "snd (pop s)"])
    (simp_all add: assms pop_wf pop_contents pop_value [OF assms, symmetric])

lemma peek_eq:
  assumes "wf s"
  obtains s' where "wf s'"
    "peek s = (case contents s of Some (x # xs) \<Rightarrow> x | _ \<Rightarrow> bottom, s')"
    "contents s' = (case contents s of Some (x # xs) \<Rightarrow> Some (x # xs) | _ \<Rightarrow> None)"
  by (rule that [of "snd (peek s)"])
    (simp_all add: assms peek_wf peek_contents peek_value [OF assms, symmetric])

lemma error_sticks:
  assumes "wf s" and "contents s = None"
  shows "\<not> fst (push s v)" "contents (snd (push s v)) = None"
    "contents (snd (pop s)) = None" "contents (snd (peek s)) = None"
  using assms push_ok push_contents pop_contents peek_contents by simp_all

lemma pop_push:
  assumes "wf s" and "fst (push s v)"
  shows "fst (pop (snd (push s v))) = v" and "contents (snd (pop (snd (push s v)))) = contents s"
  using assms push_ok push_contents [of s v] pop_value [of "snd (push s v)"]
    pop_contents [of "snd (push s v)"] push_wf [of s v]
  by (auto split: option.splits if_splits)

end

section \<open>The array stack meets it\<close>

definition stack_wf :: "FIRCLSDwarfExpressionStack \<Rightarrow> bool" where
  "stack_wf s \<longleftrightarrow> length (stack_buffer s) = CLS_DWARF_EXPRESSION_STACK_SIZE \<and>
     (\<forall>p. stack_pointer s = Some p \<longrightarrow> p \<le> CLS_DWARF_EXPRESSION_STACK_SIZE)"

definition stack_contents :: "FIRCLSDwarfExpressionStack \<Rightarrow> s64 list option" where
  "stack_contents s = map_option (\<lambda>p. rev (take p (stack_buffer s))) (stack_pointer s)"

text \<open>The operations on a stack the caller owns, as the machine calls them.\<close>

definition stack_push :: "FIRCLSDwarfExpressionStack \<Rightarrow> s64 \<Rightarrow> bool \<times> FIRCLSDwarfExpressionStack" where
  [c_eval]: "stack_push s v = addr_of s (\<lambda>p. FIRCLSDwarfExpressionStackPush p v)"

definition stack_pop :: "FIRCLSDwarfExpressionStack \<Rightarrow> s64 \<times> FIRCLSDwarfExpressionStack" where
  [c_eval]: "stack_pop s = addr_of s FIRCLSDwarfExpressionStackPop"

definition stack_peek :: "FIRCLSDwarfExpressionStack \<Rightarrow> s64 \<times> FIRCLSDwarfExpressionStack" where
  [c_eval]: "stack_peek s = addr_of s FIRCLSDwarfExpressionStackPeek"

lemmas stack_ops = stack_push_def stack_pop_def stack_peek_def addr_of_def stack_wf_def stack_contents_def

lemma rev_take_Suc: "p < length xs \<Longrightarrow> rev (take (Suc p) (xs[p := v])) = v # rev (take p xs)"
  by (simp add: take_Suc_conv_app_nth)

lemma rev_take_pred:
  "0 < p \<Longrightarrow> p \<le> length xs \<Longrightarrow> rev (take p xs) = xs ! (p - Suc 0) # rev (take (p - Suc 0) xs)"
  by (cases p) (simp_all add: take_Suc_conv_app_nth)

lemma stack_cases:
  assumes "stack_wf s"
  obtains (error) b where "s = \<lparr>stack_buffer = b, stack_pointer = None\<rparr>" "length b = CLS_DWARF_EXPRESSION_STACK_SIZE"
  | (ok) b p where "s = \<lparr>stack_buffer = b, stack_pointer = Some p\<rparr>" "length b = CLS_DWARF_EXPRESSION_STACK_SIZE"
      "p \<le> CLS_DWARF_EXPRESSION_STACK_SIZE"
  using assms by (cases s; cases "stack_pointer s") (auto simp: stack_wf_def)

interpretation exprstack: bounded_stack stack_contents stack_wf stack_push stack_pop stack_peek
  0 CLS_DWARF_EXPRESSION_STACK_SIZE
proof
  fix s :: FIRCLSDwarfExpressionStack and v :: s64 and xs :: "s64 list"
  assume wf: "stack_wf s"
  from wf show "stack_wf (snd (stack_push s v))"
    by (cases rule: stack_cases) (auto simp: stack_ops)
  from wf show "stack_wf (snd (stack_pop s))"
    by (cases rule: stack_cases) (auto simp: stack_ops)
  from wf show "stack_wf (snd (stack_peek s))"
    by (cases rule: stack_cases) (auto simp: stack_ops)
  from wf show "stack_contents (snd (stack_push s v)) =
      (case stack_contents s of Some xs \<Rightarrow>
         if length xs < CLS_DWARF_EXPRESSION_STACK_SIZE then Some (v # xs) else None | None \<Rightarrow> None)"
    by (cases rule: stack_cases) (auto simp: stack_ops rev_take_Suc)
  from wf show "fst (stack_push s v) \<longleftrightarrow> stack_contents (snd (stack_push s v)) \<noteq> None"
    by (cases rule: stack_cases) (auto simp: stack_ops)
  from wf show "stack_contents (snd (stack_pop s)) =
      (case stack_contents s of Some (x # xs) \<Rightarrow> Some xs | _ \<Rightarrow> None)"
    by (cases rule: stack_cases) (auto simp: stack_ops rev_take_pred)
  from wf show "fst (stack_pop s) = (case stack_contents s of Some (x # xs) \<Rightarrow> x | _ \<Rightarrow> 0)"
    by (cases rule: stack_cases) (auto simp: stack_ops rev_take_pred)
  from wf show "stack_contents (snd (stack_peek s)) =
      (case stack_contents s of Some (x # xs) \<Rightarrow> Some (x # xs) | _ \<Rightarrow> None)"
    by (cases rule: stack_cases) (auto simp: stack_ops rev_take_pred)
  from wf show "fst (stack_peek s) = (case stack_contents s of Some (x # xs) \<Rightarrow> x | _ \<Rightarrow> 0)"
    by (cases rule: stack_cases) (auto simp: stack_ops rev_take_pred)
  from wf show "stack_contents s = Some xs \<Longrightarrow> length xs \<le> CLS_DWARF_EXPRESSION_STACK_SIZE"
    by (auto simp: stack_contents_def stack_wf_def)
qed

lemma stack_valid_iff:
  "stack_wf s \<Longrightarrow> FIRCLSDwarfExpressionStackIsValid (Some s) \<longleftrightarrow> stack_contents s \<noteq> None"
  by (cases s rule: stack_cases) (auto simp: stack_contents_def)

lemma stack_init_wf:
  "stack_wf (stack_zero\<lparr>stack_pointer := Some 0\<rparr>)"
  "stack_contents (stack_zero\<lparr>stack_pointer := Some 0\<rparr>) = Some []"
  by (simp_all add: stack_wf_def stack_contents_def stack_zero_def)

end
