(* ===== verification/ExpressionMachine.thy ===== *)
theory ExpressionMachine
  imports Readers ThreadState ExpressionStack
begin

text \<open>
  The expression machine of \<open>FIRCLSDwarfExpressionMachine.c\<close> and the loop that drives it,
  \<open>FIRCLSDwarfEvalulateExpression\<close> of \<open>FIRCLSDwarfUnwind.c\<close>.  Every opcode moves the data
  cursor forward (\<open>next_opcode_forward\<close>), which is why the loop ends.
\<close>

section \<open>Machine\<close>

abbreviation DW_OP_deref :: u8 where "DW_OP_deref \<equiv> 0x06"
abbreviation DW_OP_dup :: u8 where "DW_OP_dup \<equiv> 0x12"
abbreviation DW_OP_swap :: u8 where "DW_OP_swap \<equiv> 0x16"
abbreviation DW_OP_and :: u8 where "DW_OP_and \<equiv> 0x1A"
abbreviation DW_OP_plus :: u8 where "DW_OP_plus \<equiv> 0x22"
abbreviation DW_OP_plus_uconst :: u8 where "DW_OP_plus_uconst \<equiv> 0x23"
abbreviation DW_OP_ne :: u8 where "DW_OP_ne \<equiv> 0x2E"
abbreviation DW_OP_lit0 :: u8 where "DW_OP_lit0 \<equiv> 0x30"
abbreviation DW_OP_lit31 :: u8 where "DW_OP_lit31 \<equiv> 0x4F"
abbreviation DW_OP_breg0 :: u8 where "DW_OP_breg0 \<equiv> 0x70"
abbreviation DW_OP_breg31 :: u8 where "DW_OP_breg31 \<equiv> 0x8F"
abbreviation DW_OP_deref_size :: u8 where "DW_OP_deref_size \<equiv> 0x94"

record 'c FIRCLSDwarfExpressionMachine =
  machine_stack :: FIRCLSDwarfExpressionStack
  dataCursor :: u64
  endAddress :: u64
  machine_registers :: "'c ptr"

definition machine_zero :: "'c FIRCLSDwarfExpressionMachine" where
  [c_eval]: "machine_zero = \<lparr>machine_stack = stack_zero, dataCursor = 0, endAddress = 0,
                    machine_registers = None\<rparr>"

fun FIRCLSDwarfExpressionMachineInit ::
  "'c FIRCLSDwarfExpressionMachine ptr \<Rightarrow> u64 \<Rightarrow> 'c ptr \<Rightarrow> s64 \<Rightarrow>
   bool \<times> 'c FIRCLSDwarfExpressionMachine ptr" where
  "FIRCLSDwarfExpressionMachineInit None cursor registers stackValue = (False, None)"
| "FIRCLSDwarfExpressionMachineInit (Some machine) cursor registers stackValue =
     (let machine = machine_zero in
      if \<not> FIRCLSIsValidPointer cursor then (False, Some machine)
      else let machine = machine\<lparr>dataCursor := cursor, machine_registers := registers\<rparr>;
               stack = (case FIRCLSDwarfExpressionStackInit (Some (machine_stack machine)) of
                          None \<Rightarrow> machine_stack machine | Some s \<Rightarrow> s);
               (ok, stack) = addr_of stack (\<lambda>p. FIRCLSDwarfExpressionStackPush p stackValue)
           in (ok, Some (machine\<lparr>machine_stack := stack\<rparr>)))"

fun FIRCLSDwarfExpressionMachinePrepareForExecution ::
  "env \<Rightarrow> 'c FIRCLSDwarfExpressionMachine ptr \<Rightarrow>
   (bool \<times> 'c FIRCLSDwarfExpressionMachine ptr) option" where
  "FIRCLSDwarfExpressionMachinePrepareForExecution e None = Some (False, None)"
| "FIRCLSDwarfExpressionMachinePrepareForExecution e (Some machine) =
     do { (expressionLength, cursor) \<leftarrow> FIRCLSParseULEB128AndAdvance e (dataCursor machine);
          let machine = machine\<lparr>dataCursor := cursor\<rparr>;
          if expressionLength = 0 then Some (False, Some machine)
          else do { end' \<leftarrow> ptr_add (dataCursor machine) expressionLength;
                    Some (True, Some (machine\<lparr>endAddress := end'\<rparr>)) } }"

fun FIRCLSDwarfExpressionMachineIsFinished :: "'c FIRCLSDwarfExpressionMachine ptr \<Rightarrow> bool" where
  "FIRCLSDwarfExpressionMachineIsFinished None = True"
| "FIRCLSDwarfExpressionMachineIsFinished (Some machine) =
     (if \<not> FIRCLSIsValidPointer (endAddress machine) \<or> \<not> FIRCLSIsValidPointer (dataCursor machine)
      then True
      else if \<not> FIRCLSDwarfExpressionStackIsValid (Some (machine_stack machine)) then True
      else endAddress machine \<le> dataCursor machine)"

fun FIRCLSDwarfExpressionMachineGetResult ::
  "'c FIRCLSDwarfExpressionMachine ptr \<Rightarrow> s64 ptr \<Rightarrow>
   bool \<times> 'c FIRCLSDwarfExpressionMachine ptr \<times> s64 ptr" where
  "FIRCLSDwarfExpressionMachineGetResult (Some machine) (Some result) =
     (if dataCursor machine \<noteq> endAddress machine then (False, Some machine, Some result)
      else let (v, stack) = addr_of (machine_stack machine) FIRCLSDwarfExpressionStackPeek
           in (FIRCLSDwarfExpressionStackIsValid (Some stack),
               Some (machine\<lparr>machine_stack := stack\<rparr>), Some v))"
| "FIRCLSDwarfExpressionMachineGetResult machine result = (False, machine, result)"

section \<open>Opcodes\<close>

definition FIRCLSDwarfExpressionMachineStackPop ::
  "'c FIRCLSDwarfExpressionMachine \<Rightarrow> s64 \<times> 'c FIRCLSDwarfExpressionMachine" where
  [c_eval]: "FIRCLSDwarfExpressionMachineStackPop machine =
     (let (v, s) = addr_of (machine_stack machine) FIRCLSDwarfExpressionStackPop
      in (v, machine\<lparr>machine_stack := s\<rparr>))"

definition FIRCLSDwarfExpressionMachineStackPush ::
  "'c FIRCLSDwarfExpressionMachine \<Rightarrow> s64 \<Rightarrow> bool \<times> 'c FIRCLSDwarfExpressionMachine" where
  [c_eval]: "FIRCLSDwarfExpressionMachineStackPush machine value =
     (let (ok, s) = addr_of (machine_stack machine) (\<lambda>p. FIRCLSDwarfExpressionStackPush p value)
      in (ok, machine\<lparr>machine_stack := s\<rparr>))"

type_synonym 'c opcode_result = "(bool \<times> 'c FIRCLSDwarfExpressionMachine) option"

definition FIRCLSDwarfExpressionMachineExecute_bregN ::
  "env \<Rightarrow> ('c, 'z) cpu_scheme \<Rightarrow> 'c FIRCLSDwarfExpressionMachine \<Rightarrow> u8 \<Rightarrow> 'c opcode_result" where
  [c_eval]: "FIRCLSDwarfExpressionMachineExecute_bregN e cpu machine opcode =
     (let regNum = opcode - DW_OP_breg0 in
      if CLS_DWARF_MAX_REGISTER_NUM cpu < unat regNum then Some (False, machine)
      else do { (offset, cursor) \<leftarrow> FIRCLSParseLEB128AndAdvance e (dataCursor machine);
                registers \<leftarrow> machine_registers machine;
                let value = dwarf_get cpu registers (ucast regNum) + offset;
                Some (FIRCLSDwarfExpressionMachineStackPush (machine\<lparr>dataCursor := cursor\<rparr>) value) })"

definition FIRCLSDwarfExpressionMachineExecute_deref ::
  "env \<Rightarrow> 'c FIRCLSDwarfExpressionMachine \<Rightarrow> 'c opcode_result" where
  [c_eval]: "FIRCLSDwarfExpressionMachineExecute_deref e machine =
     (let (value, machine) = FIRCLSDwarfExpressionMachineStackPop machine in
      case read_word e value 8 of
        None \<Rightarrow> Some (False, machine)
      | Some value \<Rightarrow> Some (FIRCLSDwarfExpressionMachineStackPush machine value))"

definition FIRCLSDwarfExpressionMachineExecute_plus_uconst ::
  "env \<Rightarrow> 'c FIRCLSDwarfExpressionMachine \<Rightarrow> 'c opcode_result" where
  [c_eval]: "FIRCLSDwarfExpressionMachineExecute_plus_uconst e machine =
     (let (value, machine) = FIRCLSDwarfExpressionMachineStackPop machine in
      do { (u, cursor) \<leftarrow> FIRCLSParseULEB128AndAdvance e (dataCursor machine);
           Some (FIRCLSDwarfExpressionMachineStackPush (machine\<lparr>dataCursor := cursor\<rparr>) (value + u)) })"

definition FIRCLSDwarfExpressionMachineExecute_and ::
  "'c FIRCLSDwarfExpressionMachine \<Rightarrow> 'c opcode_result" where
  [c_eval]: "FIRCLSDwarfExpressionMachineExecute_and machine =
     (let (value, machine) = FIRCLSDwarfExpressionMachineStackPop machine;
          (value2, machine) = FIRCLSDwarfExpressionMachineStackPop machine
      in Some (FIRCLSDwarfExpressionMachineStackPush machine (value AND value2)))"

definition FIRCLSDwarfExpressionMachineExecute_plus ::
  "'c FIRCLSDwarfExpressionMachine \<Rightarrow> 'c opcode_result" where
  [c_eval]: "FIRCLSDwarfExpressionMachineExecute_plus machine =
     (let (value, machine) = FIRCLSDwarfExpressionMachineStackPop machine;
          (value2, machine) = FIRCLSDwarfExpressionMachineStackPop machine
      in do { sum \<leftarrow> sadd64 value value2;
              Some (FIRCLSDwarfExpressionMachineStackPush machine sum) })"

definition FIRCLSDwarfExpressionMachineExecute_dup ::
  "'c FIRCLSDwarfExpressionMachine \<Rightarrow> 'c opcode_result" where
  [c_eval]: "FIRCLSDwarfExpressionMachineExecute_dup machine =
     (let (value, s) = addr_of (machine_stack machine) FIRCLSDwarfExpressionStackPeek
      in Some (FIRCLSDwarfExpressionMachineStackPush (machine\<lparr>machine_stack := s\<rparr>) value))"

definition FIRCLSDwarfExpressionMachineExecute_swap ::
  "'c FIRCLSDwarfExpressionMachine \<Rightarrow> 'c opcode_result" where
  [c_eval]: "FIRCLSDwarfExpressionMachineExecute_swap machine =
     (let (valueA, machine) = FIRCLSDwarfExpressionMachineStackPop machine;
          (valueB, machine) = FIRCLSDwarfExpressionMachineStackPop machine;
          (ok, machine) = FIRCLSDwarfExpressionMachineStackPush machine valueA
      in if \<not> ok then Some (False, machine)
         else Some (FIRCLSDwarfExpressionMachineStackPush machine valueB))"

definition FIRCLSDwarfExpressionMachineExecute_deref_size ::
  "env \<Rightarrow> 'c FIRCLSDwarfExpressionMachine \<Rightarrow> 'c opcode_result" where
  [c_eval]: "FIRCLSDwarfExpressionMachineExecute_deref_size e machine =
     (let (address, machine) = FIRCLSDwarfExpressionMachineStackPop machine in
      do { (readSize, cursor) \<leftarrow> FIRCLSParseUint8AndAdvance e (dataCursor machine);
           let machine = machine\<lparr>dataCursor := cursor\<rparr>;
           if readSize = 1
           then do { (v, _) \<leftarrow> FIRCLSParseUint8AndAdvance e address;
                     Some (FIRCLSDwarfExpressionMachineStackPush machine (ucast v)) }
           else if readSize = 2
           then do { (v, _) \<leftarrow> FIRCLSParseUint16AndAdvance e address;
                     Some (FIRCLSDwarfExpressionMachineStackPush machine (ucast v)) }
           else if readSize = 4
           then do { (v, _) \<leftarrow> FIRCLSParseUint32AndAdvance e address;
                     Some (FIRCLSDwarfExpressionMachineStackPush machine (ucast v)) }
           else if readSize = 8
           then do { (v, _) \<leftarrow> FIRCLSParseUint64AndAdvance e address;
                     Some (FIRCLSDwarfExpressionMachineStackPush machine v) }
           else Some (False, machine) })"

definition FIRCLSDwarfExpressionMachineExecute_ne ::
  "'c FIRCLSDwarfExpressionMachine \<Rightarrow> 'c opcode_result" where
  [c_eval]: "FIRCLSDwarfExpressionMachineExecute_ne machine =
     (let (value, machine) = FIRCLSDwarfExpressionMachineStackPop machine;
          (value2, machine) = FIRCLSDwarfExpressionMachineStackPop machine
      in Some (FIRCLSDwarfExpressionMachineStackPush machine (if value \<noteq> value2 then 1 else 0)))"

definition FIRCLSDwarfExpressionMachineExecute_litN ::
  "'c FIRCLSDwarfExpressionMachine \<Rightarrow> u8 \<Rightarrow> 'c opcode_result" where
  [c_eval]: "FIRCLSDwarfExpressionMachineExecute_litN machine opcode =
     Some (FIRCLSDwarfExpressionMachineStackPush machine (ucast (opcode - DW_OP_lit0)))"

text \<open>The \<open>switch\<close> on the opcode byte.\<close>

definition execute_opcode ::
  "env \<Rightarrow> ('c, 'z) cpu_scheme \<Rightarrow> 'c FIRCLSDwarfExpressionMachine \<Rightarrow> u8 \<Rightarrow> 'c opcode_result" where
  [c_eval]: "execute_opcode e cpu machine opcode =
     (if opcode = DW_OP_deref then FIRCLSDwarfExpressionMachineExecute_deref e machine
      else if opcode = DW_OP_dup then FIRCLSDwarfExpressionMachineExecute_dup machine
      else if opcode = DW_OP_and then FIRCLSDwarfExpressionMachineExecute_and machine
      else if opcode = DW_OP_plus then FIRCLSDwarfExpressionMachineExecute_plus machine
      else if opcode = DW_OP_swap then FIRCLSDwarfExpressionMachineExecute_swap machine
      else if opcode = DW_OP_plus_uconst
        then FIRCLSDwarfExpressionMachineExecute_plus_uconst e machine
      else if opcode = DW_OP_ne then FIRCLSDwarfExpressionMachineExecute_ne machine
      else if DW_OP_lit0 \<le> opcode \<and> opcode \<le> DW_OP_lit31
        then FIRCLSDwarfExpressionMachineExecute_litN machine opcode
      else if DW_OP_breg0 \<le> opcode \<and> opcode \<le> DW_OP_breg31
        then FIRCLSDwarfExpressionMachineExecute_bregN e cpu machine opcode
      else if opcode = DW_OP_deref_size
        then FIRCLSDwarfExpressionMachineExecute_deref_size e machine
      else Some (False, machine))"

fun FIRCLSDwarfExpressionMachineExecuteNextOpcode ::
  "env \<Rightarrow> ('c, 'z) cpu_scheme \<Rightarrow> 'c FIRCLSDwarfExpressionMachine ptr \<Rightarrow>
   (bool \<times> 'c FIRCLSDwarfExpressionMachine ptr) option" where
  "FIRCLSDwarfExpressionMachineExecuteNextOpcode e cpu None = Some (False, None)"
| "FIRCLSDwarfExpressionMachineExecuteNextOpcode e cpu (Some machine) =
     do { (opcode, cursor) \<leftarrow> FIRCLSParseUint8AndAdvance e (dataCursor machine);
          (success, machine) \<leftarrow> execute_opcode e cpu (machine\<lparr>dataCursor := cursor\<rparr>) opcode;
          Some (success, Some machine) }"

lemmas [c_eval] = FIRCLSDwarfExpressionMachineInit.simps
  FIRCLSDwarfExpressionMachinePrepareForExecution.simps
  FIRCLSDwarfExpressionMachineIsFinished.simps FIRCLSDwarfExpressionMachineGetResult.simps
  FIRCLSDwarfExpressionMachineExecuteNextOpcode.simps addr_of_def addr_ofM_def

section \<open>Opcodes move the cursor forward\<close>

lemma stack_push_cursor [simp]:
  "dataCursor (snd (FIRCLSDwarfExpressionMachineStackPush m v)) = dataCursor m"
  by (simp add: FIRCLSDwarfExpressionMachineStackPush_def split: prod.split)

lemma stack_pop_cursor [simp]:
  "dataCursor (snd (FIRCLSDwarfExpressionMachineStackPop m)) = dataCursor m"
  by (simp add: FIRCLSDwarfExpressionMachineStackPop_def split: prod.split)

lemma pop_cursorD: "FIRCLSDwarfExpressionMachineStackPop m = (v, m') \<Longrightarrow> dataCursor m' = dataCursor m"
  using stack_pop_cursor [of m] by simp

lemma push_cursorD: "FIRCLSDwarfExpressionMachineStackPush m v = (ok, m') \<Longrightarrow> dataCursor m' = dataCursor m"
  using stack_push_cursor [of m v] by simp

lemmas machine_cursor = pop_cursorD push_cursorD

lemma execute_opcode_forward:
  assumes "execute_opcode e cpu m opcode = Some (ok, m')"
  shows "unat (dataCursor m) \<le> unat (dataCursor m')"
  using assms
  unfolding execute_opcode_def FIRCLSDwarfExpressionMachineExecute_deref_def
    FIRCLSDwarfExpressionMachineExecute_dup_def FIRCLSDwarfExpressionMachineExecute_and_def
    FIRCLSDwarfExpressionMachineExecute_plus_def FIRCLSDwarfExpressionMachineExecute_swap_def
    FIRCLSDwarfExpressionMachineExecute_plus_uconst_def FIRCLSDwarfExpressionMachineExecute_ne_def
    FIRCLSDwarfExpressionMachineExecute_litN_def FIRCLSDwarfExpressionMachineExecute_bregN_def
    FIRCLSDwarfExpressionMachineExecute_deref_size_def
  by (auto simp: bind_eq_Some_conv Let_def less_imp_le
      split: if_splits prod.splits option.splits dest!: machine_cursor dest: readers_forward)

lemma next_opcode_forward:
  assumes "addr_ofM m (FIRCLSDwarfExpressionMachineExecuteNextOpcode e cpu) = Some (ok, n)"
  shows "unat (dataCursor m) < unat (dataCursor n)"
proof -
  from assms obtain opcode cursor where
    u8: "FIRCLSParseUint8AndAdvance e (dataCursor m) = Some (opcode, cursor)" and
    ex: "execute_opcode e cpu (m\<lparr>dataCursor := cursor\<rparr>) opcode = Some (ok, n)"
    by (auto simp: addr_ofM_def bind_eq_Some_conv)
  from u8 have "unat (dataCursor m) < unat cursor" by (rule u8r.parse_forward)
  also have "\<dots> \<le> unat (dataCursor n)" using execute_opcode_forward [OF ex] by simp
  finally show ?thesis .
qed

section \<open>Evaluation\<close>

text \<open>The \<open>while\<close> loop; a result \<open>(ok, m)\<close> is whether every opcode succeeded, and the machine.\<close>

function run_machine ::
  "env \<Rightarrow> ('c, 'z) cpu_scheme \<Rightarrow> 'c FIRCLSDwarfExpressionMachine \<Rightarrow> 'c opcode_result" where
  "run_machine e cpu m =
     (if FIRCLSDwarfExpressionMachineIsFinished (Some m) then Some (True, m)
      else do { (success, m) \<leftarrow> addr_ofM m (FIRCLSDwarfExpressionMachineExecuteNextOpcode e cpu);
                if success then run_machine e cpu m else Some (False, m) })"
  by auto
termination
proof (relation "measure (\<lambda>(e, cpu, m). 2 ^ 64 - unat (dataCursor m))")
  fix e :: env and cpu :: "('c, 'z) cpu_scheme" and m n ok
  fix r :: "bool \<times> 'c FIRCLSDwarfExpressionMachine"
  assume "addr_ofM m (FIRCLSDwarfExpressionMachineExecuteNextOpcode e cpu) = Some r" and "(ok, n) = r"
  then have "unat (dataCursor m) < unat (dataCursor n)" using next_opcode_forward by blast
  moreover have "unat (dataCursor n) < 2 ^ 64" by (rule u64_less)
  ultimately show "((e, cpu, n), e, cpu, m) \<in> measure (\<lambda>(e, cpu, m). 2 ^ 64 - unat (dataCursor m))"
    by simp
qed simp

declare run_machine.simps [simp del]
lemmas [c_eval] = run_machine.simps

fun FIRCLSDwarfEvalulateExpression ::
  "env \<Rightarrow> ('c, 'z) cpu_scheme \<Rightarrow> u64 \<Rightarrow> 'c ptr \<Rightarrow> s64 \<Rightarrow> s64 ptr \<Rightarrow> (bool \<times> s64 ptr) option" where
  "FIRCLSDwarfEvalulateExpression e cpu cursor registers stackValue None = Some (False, None)"
| "FIRCLSDwarfEvalulateExpression e cpu cursor registers stackValue (Some result) =
     (if \<not> FIRCLSIsValidPointer cursor then Some (False, Some result)
      else
        let (ok, machine) = addr_of machine_zero
              (\<lambda>m. FIRCLSDwarfExpressionMachineInit m cursor registers stackValue) in
        if \<not> ok then Some (False, Some result)
        else do {
          (ok, machine) \<leftarrow> addr_ofM machine (FIRCLSDwarfExpressionMachinePrepareForExecution e);
          if \<not> ok then Some (False, Some result)
          else do {
            (ok, machine) \<leftarrow> run_machine e cpu machine;
            if \<not> ok then Some (False, Some result)
            else let (ok, _, result) =
                   FIRCLSDwarfExpressionMachineGetResult (Some machine) (Some result)
                 in Some (ok, result) } })"

lemmas [c_eval] = FIRCLSDwarfEvalulateExpression.simps

end
