(* ===== verification/Registers.thy ===== *)
theory Registers
  imports ThreadState
begin

text \<open>
  The two 64-bit CPUs: the register macros of \<open>FIRCLSThreadState.c\<close> and the DWARF register
  numbers of \<open>FIRCLSDwarfUnwindRegisters.h\<close> as \<open>FIRCLSUnwind_x86.c\<close> and
  \<open>FIRCLSUnwind_arm.c\<close> map them, and the proof that both are register files.  The 32-bit
  branches of the sources (\<open>CLS_CPU_I386\<close>, \<open>CLS_CPU_ARM\<close>) are not modelled.
\<close>

section \<open>x86-64\<close>

text \<open>The registers of \<open>__ss\<close> the code touches; flags and segments are never accessed.\<close>

record x86_64 =
  rax :: u64
  rdx :: u64
  rcx :: u64
  rbx :: u64
  rsi :: u64
  rdi :: u64
  rbp :: u64
  rsp :: u64
  r8 :: u64
  r9 :: u64
  r10 :: u64
  r11 :: u64
  r12 :: u64
  r13 :: u64
  r14 :: u64
  r15 :: u64
  rip :: u64

definition x86_64_get :: "x86_64 \<Rightarrow> u64 \<Rightarrow> u64" where
  "x86_64_get registers num =
     (if num = 0 then rax registers
      else if num = 1 then rdx registers
      else if num = 2 then rcx registers
      else if num = 3 then rbx registers
      else if num = 4 then rsi registers
      else if num = 5 then rdi registers
      else if num = 6 then rbp registers
      else if num = 7 then rsp registers
      else if num = 8 then r8 registers
      else if num = 9 then r9 registers
      else if num = 10 then r10 registers
      else if num = 11 then r11 registers
      else if num = 12 then r12 registers
      else if num = 13 then r13 registers
      else if num = 14 then r14 registers
      else if num = 15 then r15 registers
      else if num = 16 then rip registers
      else 0)"

definition x86_64_set :: "x86_64 \<Rightarrow> u64 \<Rightarrow> u64 \<Rightarrow> bool \<times> x86_64" where
  "x86_64_set registers num value =
     (if num = 0 then (True, registers\<lparr>rax := value\<rparr>)
      else if num = 1 then (True, registers\<lparr>rdx := value\<rparr>)
      else if num = 2 then (True, registers\<lparr>rcx := value\<rparr>)
      else if num = 3 then (True, registers\<lparr>rbx := value\<rparr>)
      else if num = 4 then (True, registers\<lparr>rsi := value\<rparr>)
      else if num = 5 then (True, registers\<lparr>rdi := value\<rparr>)
      else if num = 6 then (True, registers\<lparr>rbp := value\<rparr>)
      else if num = 7 then (True, registers\<lparr>rsp := value\<rparr>)
      else if num = 8 then (True, registers\<lparr>r8 := value\<rparr>)
      else if num = 9 then (True, registers\<lparr>r9 := value\<rparr>)
      else if num = 10 then (True, registers\<lparr>r10 := value\<rparr>)
      else if num = 11 then (True, registers\<lparr>r11 := value\<rparr>)
      else if num = 12 then (True, registers\<lparr>r12 := value\<rparr>)
      else if num = 13 then (True, registers\<lparr>r13 := value\<rparr>)
      else if num = 14 then (True, registers\<lparr>r14 := value\<rparr>)
      else if num = 15 then (True, registers\<lparr>r15 := value\<rparr>)
      else if num = 16 then (True, registers\<lparr>rip := value\<rparr>)
      else (False, registers))"

definition x86_64_cpu :: "x86_64 cpu" where
  "x86_64_cpu = \<lparr>
     GET_IP_REGISTER = rip, GET_FP_REGISTER = rbp, GET_SP_REGISTER = rsp,
     GET_LR_REGISTER = (\<lambda>r. 0),
     SET_IP_REGISTER = (\<lambda>r v. r\<lparr>rip := v\<rparr>), SET_FP_REGISTER = (\<lambda>r v. r\<lparr>rbp := v\<rparr>),
     SET_SP_REGISTER = (\<lambda>r v. r\<lparr>rsp := v\<rparr>), SET_LR_REGISTER = (\<lambda>r v. r),
     dwarf_get = x86_64_get, dwarf_set = x86_64_set,
     CLS_DWARF_MAX_REGISTER_NUM = 16, CLS_DWARF_REG_RETURN = 16, CLS_DWARF_REG_SP = 7\<rparr>"

lemmas [c_eval] = x86_64_get_def x86_64_set_def x86_64_cpu_def

lemma x86_64_numbers:
  "unat (n :: u64) \<le> 16 \<longleftrightarrow> n \<in> {16, 7, 6} \<union> {0, 8, 1, 9, 2, 10, 3} \<union> {4, 11, 5, 12, 13, 14, 15}"
proof
  assume "unat n \<le> 16"
  then have "unat n \<in> {16, 7, 6} \<union> {0, 8, 1, 9, 2, 10, 3} \<union> {4, 11, 5, 12, 13, 14, 15}"
    by simp presburger
  then show "n \<in> {16, 7, 6} \<union> {0, 8, 1, 9, 2, 10, 3} \<union> {4, 11, 5, 12, 13, 14, 15}"
    by (simp add: word_unat_eq_iff)
qed auto

lemmas unat_cases_16 = x86_64_numbers [unfolded Un_iff insert_iff empty_iff simp_thms]

lemma x86_64_set_ok: "fst (x86_64_set r n v) \<longleftrightarrow> unat n \<le> 16"
  by (simp add: x86_64_set_def unat_cases_16)

lemma x86_64_get_set:
  assumes "unat n \<le> 16" and "unat m \<le> 16"
  shows "x86_64_get (snd (x86_64_set r n v)) m = (if m = n then v else x86_64_get r m)"
proof (cases "m = n")
  case True
  with assms(1) show ?thesis
    unfolding unat_cases_16 by (elim disjE) (simp_all add: x86_64_set_def x86_64_get_def)
next
  case False
  have "x86_64_get (snd (x86_64_set r n v)) m = x86_64_get r m"
    using assms(1) False unfolding unat_cases_16
    by (elim disjE) (simp_all add: x86_64_set_def x86_64_get_def split del: if_split cong: if_cong)
  with False show ?thesis by simp
qed

lemma x86_64_set_fail: "16 < unat n \<Longrightarrow> x86_64_set r n v = (False, r)"
proof -
  assume "16 < unat n"
  then have "\<not> unat n \<le> 16" by simp
  then show ?thesis by (simp only: unat_cases_16 x86_64_set_def) (simp only: de_Morgan_disj if_False simp_thms)
qed

lemma x86_64_set_rip: "n \<noteq> 16 \<Longrightarrow> rip (snd (x86_64_set r n v)) = rip r"
proof (cases "unat n \<le> 16")
  case True
  then show "n \<noteq> 16 \<Longrightarrow> ?thesis"
    unfolding unat_cases_16 by (elim disjE) (simp_all add: x86_64_set_def)
qed (simp add: x86_64_set_fail)

interpretation x86: register_file x86_64_cpu "\<lambda>n v. v"
proof
  fix r :: x86_64 and n m v :: u64
  show "fst (dwarf_set x86_64_cpu r n v) = (unat n \<le> CLS_DWARF_MAX_REGISTER_NUM x86_64_cpu)"
    by (simp add: x86_64_cpu_def x86_64_set_ok)
  show "CLS_DWARF_MAX_REGISTER_NUM x86_64_cpu < unat n \<Longrightarrow> snd (dwarf_set x86_64_cpu r n v) = r"
    by (simp add: x86_64_cpu_def x86_64_set_fail)
  show "unat n \<le> CLS_DWARF_MAX_REGISTER_NUM x86_64_cpu \<Longrightarrow>
      unat m \<le> CLS_DWARF_MAX_REGISTER_NUM x86_64_cpu \<Longrightarrow>
      dwarf_get x86_64_cpu (snd (dwarf_set x86_64_cpu r n v)) m =
        (if m = n then v else dwarf_get x86_64_cpu r m)"
    by (simp add: x86_64_cpu_def x86_64_get_set)
  show "n \<noteq> CLS_DWARF_REG_RETURN x86_64_cpu \<Longrightarrow>
      GET_IP_REGISTER x86_64_cpu (snd (dwarf_set x86_64_cpu r n v)) = GET_IP_REGISTER x86_64_cpu r"
    by (simp add: x86_64_cpu_def x86_64_set_rip)
qed (simp_all add: x86_64_cpu_def x86_64_set_def x86_64_get_def)

section \<open>arm64\<close>

text \<open>
  The SDK's \<open>arm_thread_state64_get_*\<close> and \<open>_set_*\<close> macros are parameters; they act on the
  part \<open>signed\<close> of the state whose layout the SDK keeps to itself.  The locale \<open>arm_sdk\<close> says
  what their documentation promises of the low 36 bits the code keeps: a get returns what the
  set of the same register stored, and no set changes another register.
\<close>

record 'o arm64_sdk =
  arm_thread_state64_get_pc :: "'o \<Rightarrow> u64"
  arm_thread_state64_get_fp :: "'o \<Rightarrow> u64"
  arm_thread_state64_get_sp :: "'o \<Rightarrow> u64"
  arm_thread_state64_get_lr :: "'o \<Rightarrow> u64"
  arm_thread_state64_set_pc_fptr :: "'o \<Rightarrow> u64 \<Rightarrow> 'o"
  arm_thread_state64_set_fp :: "'o \<Rightarrow> u64 \<Rightarrow> 'o"
  arm_thread_state64_set_sp :: "'o \<Rightarrow> u64 \<Rightarrow> 'o"
  arm_thread_state64_set_lr_fptr :: "'o \<Rightarrow> u64 \<Rightarrow> 'o"

record 'o arm64 =
  x_regs :: "u64 \<Rightarrow> u64"
  signed :: 'o

definition CLS_PTRAUTH_STRIP :: "u64 \<Rightarrow> u64" where
  [c_eval]: "CLS_PTRAUTH_STRIP pointer = pointer AND 0x0000000FFFFFFFFF"

definition arm64_thread_state :: "'o arm64_sdk \<Rightarrow> 'o arm64 thread_state" where
  [c_eval]: "arm64_thread_state sdk = \<lparr>
     GET_IP_REGISTER = (\<lambda>r. CLS_PTRAUTH_STRIP (arm_thread_state64_get_pc sdk (signed r))),
     GET_FP_REGISTER = (\<lambda>r. CLS_PTRAUTH_STRIP (arm_thread_state64_get_fp sdk (signed r))),
     GET_SP_REGISTER = (\<lambda>r. CLS_PTRAUTH_STRIP (arm_thread_state64_get_sp sdk (signed r))),
     GET_LR_REGISTER = (\<lambda>r. CLS_PTRAUTH_STRIP (arm_thread_state64_get_lr sdk (signed r))),
     SET_IP_REGISTER = (\<lambda>r v. r\<lparr>signed := arm_thread_state64_set_pc_fptr sdk (signed r) v\<rparr>),
     SET_FP_REGISTER = (\<lambda>r v. r\<lparr>signed := arm_thread_state64_set_fp sdk (signed r) v\<rparr>),
     SET_SP_REGISTER = (\<lambda>r v. r\<lparr>signed := arm_thread_state64_set_sp sdk (signed r) v\<rparr>),
     SET_LR_REGISTER = (\<lambda>r v. r\<lparr>signed := arm_thread_state64_set_lr_fptr sdk (signed r) v\<rparr>)\<rparr>"

definition arm64_get :: "'o arm64_sdk \<Rightarrow> 'o arm64 \<Rightarrow> u64 \<Rightarrow> u64" where
  [c_eval]: "arm64_get sdk registers num =
     (if num \<le> 28 then x_regs registers num
      else if num = 29 then FIRCLSThreadContextGetFramePointer (arm64_thread_state sdk) (Some registers)
      else if num = 30 then FIRCLSThreadContextGetLinkRegister (arm64_thread_state sdk) (Some registers)
      else if num = 31 then FIRCLSThreadContextGetStackPointer (arm64_thread_state sdk) (Some registers)
      else 0)"

definition arm64_set :: "'o arm64_sdk \<Rightarrow> 'o arm64 \<Rightarrow> u64 \<Rightarrow> u64 \<Rightarrow> bool \<times> 'o arm64" where
  [c_eval]: "arm64_set sdk registers num value =
     (let ts = arm64_thread_state sdk in
      if num \<le> 28 then (True, registers\<lparr>x_regs := (x_regs registers)(num := value)\<rparr>)
      else if num = 29
        then (True, snd (addr_of registers (\<lambda>r. FIRCLSThreadContextSetFramePointer ts r value)))
      else if num = 31
        then (True, snd (addr_of registers (\<lambda>r. FIRCLSThreadContextSetStackPointer ts r value)))
      else if num = 30
        then (let registers = snd (addr_of registers (\<lambda>r. FIRCLSThreadContextSetLinkRegister ts r value))
              in (True, snd (addr_of registers (\<lambda>r. FIRCLSThreadContextSetPC ts r value))))
      else (False, registers))"

definition arm64_cpu :: "'o arm64_sdk \<Rightarrow> 'o arm64 cpu" where
  [c_eval]: "arm64_cpu sdk = thread_state.extend (arm64_thread_state sdk)
     \<lparr>dwarf_get = arm64_get sdk, dwarf_set = arm64_set sdk,
      CLS_DWARF_MAX_REGISTER_NUM = 31, CLS_DWARF_REG_RETURN = 30, CLS_DWARF_REG_SP = 31\<rparr>"

definition arm64_kept :: "u64 \<Rightarrow> u64 \<Rightarrow> u64" where
  "arm64_kept num value = (if num \<le> 28 then value else CLS_PTRAUTH_STRIP value)"

locale arm_sdk =
  fixes sdk :: "'o arm64_sdk"
  assumes get_set:
    "CLS_PTRAUTH_STRIP (arm_thread_state64_get_pc sdk (arm_thread_state64_set_pc_fptr sdk s v)) =
       CLS_PTRAUTH_STRIP v"
    "CLS_PTRAUTH_STRIP (arm_thread_state64_get_fp sdk (arm_thread_state64_set_fp sdk s v)) =
       CLS_PTRAUTH_STRIP v"
    "CLS_PTRAUTH_STRIP (arm_thread_state64_get_sp sdk (arm_thread_state64_set_sp sdk s v)) =
       CLS_PTRAUTH_STRIP v"
    "CLS_PTRAUTH_STRIP (arm_thread_state64_get_lr sdk (arm_thread_state64_set_lr_fptr sdk s v)) =
       CLS_PTRAUTH_STRIP v"
  and pc_others:
    "arm_thread_state64_get_fp sdk (arm_thread_state64_set_pc_fptr sdk s v) = arm_thread_state64_get_fp sdk s"
    "arm_thread_state64_get_sp sdk (arm_thread_state64_set_pc_fptr sdk s v) = arm_thread_state64_get_sp sdk s"
    "arm_thread_state64_get_lr sdk (arm_thread_state64_set_pc_fptr sdk s v) = arm_thread_state64_get_lr sdk s"
  and fp_others:
    "arm_thread_state64_get_pc sdk (arm_thread_state64_set_fp sdk s v) = arm_thread_state64_get_pc sdk s"
    "arm_thread_state64_get_sp sdk (arm_thread_state64_set_fp sdk s v) = arm_thread_state64_get_sp sdk s"
    "arm_thread_state64_get_lr sdk (arm_thread_state64_set_fp sdk s v) = arm_thread_state64_get_lr sdk s"
  and sp_others:
    "arm_thread_state64_get_pc sdk (arm_thread_state64_set_sp sdk s v) = arm_thread_state64_get_pc sdk s"
    "arm_thread_state64_get_fp sdk (arm_thread_state64_set_sp sdk s v) = arm_thread_state64_get_fp sdk s"
    "arm_thread_state64_get_lr sdk (arm_thread_state64_set_sp sdk s v) = arm_thread_state64_get_lr sdk s"
  and lr_others:
    "arm_thread_state64_get_pc sdk (arm_thread_state64_set_lr_fptr sdk s v) = arm_thread_state64_get_pc sdk s"
    "arm_thread_state64_get_fp sdk (arm_thread_state64_set_lr_fptr sdk s v) = arm_thread_state64_get_fp sdk s"
    "arm_thread_state64_get_sp sdk (arm_thread_state64_set_lr_fptr sdk s v) = arm_thread_state64_get_sp sdk s"
begin

lemmas laws = get_set pc_others fp_others sp_others lr_others

end

lemma unat_cases_31: "unat (n :: u64) \<le> 31 \<longleftrightarrow> n \<le> 28 \<or> n = 29 \<or> n = 30 \<or> n = 31"
proof -
  have "unat n \<le> 31 \<longleftrightarrow> unat n \<le> 28 \<or> unat n = 29 \<or> unat n = 30 \<or> unat n = 31" by presburger
  then show ?thesis by (simp add: word_unat_eq_iff word_le_nat_alt)
qed

lemma arm64_set_ok: "fst (arm64_set sdk r n v) \<longleftrightarrow> unat n \<le> 31"
  by (simp add: arm64_set_def Let_def unat_cases_31)

sublocale arm_sdk \<subseteq> arm: register_file "arm64_cpu sdk" arm64_kept
proof
  fix r :: "'o arm64" and n m v :: u64
  show "fst (dwarf_set (arm64_cpu sdk) r n v) = (unat n \<le> CLS_DWARF_MAX_REGISTER_NUM (arm64_cpu sdk))"
    by (simp add: arm64_cpu_def arm64_thread_state_def thread_state.extend_def arm64_set_ok)
  show "CLS_DWARF_MAX_REGISTER_NUM (arm64_cpu sdk) < unat n \<Longrightarrow> snd (dwarf_set (arm64_cpu sdk) r n v) = r"
    using unat_cases_31 [of n]
    by (auto simp: arm64_cpu_def arm64_thread_state_def thread_state.extend_def arm64_set_def Let_def)
  show "unat n \<le> CLS_DWARF_MAX_REGISTER_NUM (arm64_cpu sdk) \<Longrightarrow>
      unat m \<le> CLS_DWARF_MAX_REGISTER_NUM (arm64_cpu sdk) \<Longrightarrow>
      dwarf_get (arm64_cpu sdk) (snd (dwarf_set (arm64_cpu sdk) r n v)) m =
        (if m = n then arm64_kept n v else dwarf_get (arm64_cpu sdk) r m)"
    by (auto simp: arm64_cpu_def thread_state.extend_def arm64_thread_state_def unat_cases_31
        arm64_get_def arm64_set_def arm64_kept_def Let_def laws)
  show "n \<noteq> CLS_DWARF_REG_RETURN (arm64_cpu sdk) \<Longrightarrow>
      GET_IP_REGISTER (arm64_cpu sdk) (snd (dwarf_set (arm64_cpu sdk) r n v)) =
      GET_IP_REGISTER (arm64_cpu sdk) r"
    by (simp add: arm64_cpu_def thread_state.extend_def arm64_thread_state_def arm64_set_def laws Let_def)
qed (simp_all add: arm64_cpu_def thread_state.extend_def arm64_thread_state_def arm64_set_def
      arm64_get_def arm64_kept_def laws Let_def)

end
