(* ===== verification/ExpressionSpec.thy ===== *)
theory ExpressionSpec
  imports ExpressionMachine Registers
begin

text \<open>
  What the expression machine computes.  \<open>dwarf_op\<close> is the instruction set the machine accepts,
  \<open>op_effect\<close> its meaning on a list of values (\<open>None\<close>: the C code has no defined result,
  \<open>Some None\<close>: the code reports an error), \<open>op_bytes\<close> its encoding.  The machine is shown to
  run every encoded program exactly as the list semantics says.
\<close>

section \<open>Instructions and their meaning\<close>

datatype dwarf_op = Deref | Dup | And | Plus | Swap | PlusUconst u64 | Ne | Lit u8
  | Breg u8 s64 | DerefSize u8

fun op_bytes :: "dwarf_op \<Rightarrow> u8 list" where
  "op_bytes Deref = [DW_OP_deref]"
| "op_bytes Dup = [DW_OP_dup]"
| "op_bytes And = [DW_OP_and]"
| "op_bytes Plus = [DW_OP_plus]"
| "op_bytes Swap = [DW_OP_swap]"
| "op_bytes (PlusUconst u) = DW_OP_plus_uconst # uleb_encode (unat u)"
| "op_bytes Ne = [DW_OP_ne]"
| "op_bytes (Lit n) = [DW_OP_lit0 + n]"
| "op_bytes (Breg r offset) = (DW_OP_breg0 + r) # sleb_encode (sint offset)"
| "op_bytes (DerefSize n) = [DW_OP_deref_size, n]"

fun op_ok :: "dwarf_op \<Rightarrow> bool" where
  "op_ok (PlusUconst u) = (unat u < 2 ^ 31)"
| "op_ok (Lit n) = (n \<le> 31)"
| "op_ok (Breg r offset) = (r \<le> 31 \<and> - (2 ^ 27) \<le> sint offset \<and> sint offset < 2 ^ 31)"
| "op_ok _ = True"

definition spec_push :: "s64 \<Rightarrow> s64 list \<Rightarrow> s64 list option option" where
  "spec_push v xs = Some (if length xs < CLS_DWARF_EXPRESSION_STACK_SIZE then Some (v # xs) else None)"

definition sized_load :: "env \<Rightarrow> u8 \<Rightarrow> u64 \<Rightarrow> u64 option option" where
  "sized_load e n a =
     (if n = 1 then map_option (\<lambda>(v, c). Some (ucast v)) (FIRCLSParseUint8AndAdvance e a)
      else if n = 2 then map_option (\<lambda>(v, c). Some (ucast v)) (FIRCLSParseUint16AndAdvance e a)
      else if n = 4 then map_option (\<lambda>(v, c). Some (ucast v)) (FIRCLSParseUint32AndAdvance e a)
      else if n = 8 then map_option (\<lambda>(v, c). Some v) (FIRCLSParseUint64AndAdvance e a)
      else Some None)"

fun op_effect ::
  "env \<Rightarrow> ('c, 'z) cpu_scheme \<Rightarrow> 'c \<Rightarrow> dwarf_op \<Rightarrow> s64 list \<Rightarrow> s64 list option option" where
  "op_effect e cpu r Deref (x # xs) = Some (map_option (\<lambda>v. v # xs) (read_word e x 8))"
| "op_effect e cpu r Dup (x # xs) = spec_push x (x # xs)"
| "op_effect e cpu r And (x # y # xs) = Some (Some ((x AND y) # xs))"
| "op_effect e cpu r Plus (x # y # xs) = map_option (\<lambda>s. Some (s # xs)) (sadd64 x y)"
| "op_effect e cpu r Swap (x # y # xs) = Some (Some (y # x # xs))"
| "op_effect e cpu r (PlusUconst u) (x # xs) = Some (Some ((x + u) # xs))"
| "op_effect e cpu r Ne (x # y # xs) = Some (Some ((if x \<noteq> y then 1 else 0) # xs))"
| "op_effect e cpu r (Lit n) xs = spec_push (ucast n) xs"
| "op_effect e cpu r (Breg n offset) xs =
     (if CLS_DWARF_MAX_REGISTER_NUM cpu < unat n then Some None
      else spec_push (dwarf_get cpu r (ucast n) + offset) xs)"
| "op_effect e cpu r (DerefSize n) [] = map_option (\<lambda>_. None) (sized_load e n 0)"
| "op_effect e cpu r (DerefSize n) (x # xs) =
     map_option (map_option (\<lambda>v. v # xs)) (sized_load e n x)"
| "op_effect e cpu r _ _ = Some None"

fun ops_effect ::
  "env \<Rightarrow> ('c, 'z) cpu_scheme \<Rightarrow> 'c \<Rightarrow> dwarf_op list \<Rightarrow> s64 list \<Rightarrow> s64 list option option" where
  "ops_effect e cpu r [] xs = Some (Some xs)"
| "ops_effect e cpu r (op # ops) xs =
     (case op_effect e cpu r op xs of Some (Some ys) \<Rightarrow> ops_effect e cpu r ops ys | res \<Rightarrow> res)"

section \<open>The machine's stack against the list\<close>

definition machine_rel ::
  "'c \<Rightarrow> u64 \<Rightarrow> u64 \<Rightarrow> 'c FIRCLSDwarfExpressionMachine \<Rightarrow> s64 list option \<Rightarrow> bool" where
  "machine_rel r en cur m xo \<longleftrightarrow> stack_wf (machine_stack m) \<and> stack_contents (machine_stack m) = xo \<and>
     machine_registers m = Some r \<and> dataCursor m = cur \<and> endAddress m = en"

lemma machine_rel_cursor [simp]:
  "machine_rel r en cur m xo \<Longrightarrow> machine_rel r en c (m\<lparr>dataCursor := c\<rparr>) xo"
  by (simp add: machine_rel_def)

lemma machine_pop:
  assumes "machine_rel r en cur m xo" and "FIRCLSDwarfExpressionMachineStackPop m = (v, m')"
  shows "v = (case xo of Some (x # xs) \<Rightarrow> x | _ \<Rightarrow> 0)"
    and "machine_rel r en cur m' (case xo of Some (x # xs) \<Rightarrow> Some xs | _ \<Rightarrow> None)"
proof -
  have "v = fst (stack_pop (machine_stack m))" "m' = m\<lparr>machine_stack := snd (stack_pop (machine_stack m))\<rparr>"
    using assms(2) by (simp_all add: FIRCLSDwarfExpressionMachineStackPop_def stack_pop_def split: prod.splits)
  then show "v = (case xo of Some (x # xs) \<Rightarrow> x | _ \<Rightarrow> 0)"
    and "machine_rel r en cur m' (case xo of Some (x # xs) \<Rightarrow> Some xs | _ \<Rightarrow> None)"
    using assms(1) unfolding machine_rel_def
    by (simp_all add: exprstack.pop_value exprstack.pop_contents exprstack.pop_wf)
qed

lemma machine_push:
  assumes "machine_rel r en cur m xo" and "FIRCLSDwarfExpressionMachineStackPush m v = (ok, m')"
    and "ys = (case xo of Some xs \<Rightarrow>
      if length xs < CLS_DWARF_EXPRESSION_STACK_SIZE then Some (v # xs) else None | None \<Rightarrow> None)"
  shows "ok \<longleftrightarrow> ys \<noteq> None" and "machine_rel r en cur m' ys"
proof -
  have "ok = fst (stack_push (machine_stack m) v)"
    "m' = m\<lparr>machine_stack := snd (stack_push (machine_stack m) v)\<rparr>"
    using assms(2) by (simp_all add: FIRCLSDwarfExpressionMachineStackPush_def stack_push_def split: prod.splits)
  then show "ok \<longleftrightarrow> ys \<noteq> None" and "machine_rel r en cur m' ys"
    using assms(1,3) unfolding machine_rel_def
    by (simp_all add: exprstack.push_ok exprstack.push_contents exprstack.push_wf del: not_None_eq)
qed

lemma machine_capacity: "machine_rel r en cur m (Some xs) \<Longrightarrow> length xs \<le> CLS_DWARF_EXPRESSION_STACK_SIZE"
  using exprstack.capacity_bound by (auto simp: machine_rel_def)

text \<open>The outcome of an opcode that the list semantics gives as \<open>res\<close>.\<close>

definition outcome ::
  "'c \<Rightarrow> u64 \<Rightarrow> u64 \<Rightarrow> s64 list option option \<Rightarrow> 'c opcode_result \<Rightarrow> bool" where
  "outcome r en cur res a \<longleftrightarrow>
     (case res of None \<Rightarrow> a = None
      | Some None \<Rightarrow> (\<exists>m. a = Some (False, m))
      | Some (Some ys) \<Rightarrow> (\<exists>m. a = Some (True, m) \<and> machine_rel r en cur m (Some ys)))"

lemma outcome_push:
  assumes "machine_rel r en cur m (Some xs)"
  shows "outcome r en cur (spec_push v xs) (Some (FIRCLSDwarfExpressionMachineStackPush m v))"
proof -
  obtain ok m' where p: "FIRCLSDwarfExpressionMachineStackPush m v = (ok, m')" by fastforce
  from machine_push [OF assms p refl] show ?thesis
    by (simp add: p outcome_def spec_push_def split: if_splits)
qed

lemma outcome_push_room:
  assumes "machine_rel r en cur m (Some xs)" and "length xs < CLS_DWARF_EXPRESSION_STACK_SIZE"
  shows "outcome r en cur (Some (Some (v # xs))) (Some (FIRCLSDwarfExpressionMachineStackPush m v))"
  using outcome_push [OF assms(1), of v] assms(2) by (simp add: spec_push_def)

lemma outcome_push_room_Suc:
  assumes "machine_rel r en cur m (Some xs)" and "Suc (length xs) < CLS_DWARF_EXPRESSION_STACK_SIZE"
  shows "outcome r en cur (Some (Some (v # xs))) (Some (FIRCLSDwarfExpressionMachineStackPush m v))"
  using assms by (intro outcome_push_room) simp_all

lemma outcome_push_error:
  assumes "machine_rel r en cur m None"
  shows "outcome r en cur (Some None) (Some (FIRCLSDwarfExpressionMachineStackPush m v))"
proof -
  obtain ok m' where p: "FIRCLSDwarfExpressionMachineStackPush m v = (ok, m')" by fastforce
  from machine_push(1) [OF assms p refl] show ?thesis by (simp add: p outcome_def)
qed

lemma outcome_undefined: "outcome r en cur None None"
  by (simp add: outcome_def)

lemma outcome_error: "outcome r en cur (Some None) (Some (False, m))"
  by (simp add: outcome_def)

lemmas outcomes = outcome_push outcome_push_room outcome_push_room_Suc outcome_push_error outcome_undefined outcome_error

text \<open>The first two values of the stack, as successive pops see them.\<close>

lemma pop_two:
  assumes "machine_rel r en cur m (Some xs)"
    and "FIRCLSDwarfExpressionMachineStackPop m = (a, m1)"
    and "FIRCLSDwarfExpressionMachineStackPop m1 = (b, m2)"
  shows "(\<exists>x y zs. xs = x # y # zs \<and> a = x \<and> b = y \<and> machine_rel r en cur m2 (Some zs) \<and>
            Suc (length zs) < CLS_DWARF_EXPRESSION_STACK_SIZE \<and>
            length zs < CLS_DWARF_EXPRESSION_STACK_SIZE) \<or>
         (length xs < 2 \<and> b = 0 \<and> machine_rel r en cur m2 None)"
proof (cases "\<exists>x y zs. xs = x # y # zs")
  case True
  then show ?thesis
    using machine_pop [OF assms(1,2)] machine_pop [OF _ assms(3)] machine_capacity [OF assms(1)]
    by fastforce
next
  case False
  then have xs: "xs = [] \<or> (\<exists>x. xs = [x])" by (metis list.exhaust)
  then show ?thesis
    using machine_pop [OF assms(1,2)] machine_pop [OF _ assms(3)] by fastforce
qed

lemma pop_one:
  assumes "machine_rel r en cur m (Some xs)"
    and "FIRCLSDwarfExpressionMachineStackPop m = (a, m1)"
  shows "(\<exists>x zs. xs = x # zs \<and> a = x \<and> machine_rel r en cur m1 (Some zs) \<and>
            length zs < CLS_DWARF_EXPRESSION_STACK_SIZE) \<or>
         (xs = [] \<and> a = 0 \<and> machine_rel r en cur m1 None)"
  using machine_pop [OF assms] machine_capacity [OF assms(1)] by (cases xs) auto

lemma short_cases: "length xs < 2 \<longleftrightarrow> xs = [] \<or> (\<exists>x. xs = [x])"
  by (cases xs; cases "tl xs") auto

section \<open>Each opcode\<close>

lemma exec_deref:
  assumes "machine_rel r en cur m (Some xs)"
  shows "outcome r en cur (op_effect e cpu r Deref xs) (FIRCLSDwarfExpressionMachineExecute_deref e m)"
proof -
  obtain a m1 where p: "FIRCLSDwarfExpressionMachineStackPop m = (a, m1)" by fastforce
  from pop_one [OF assms p] show ?thesis
    by (cases "read_word e a 8 :: u64 option")
      (auto simp: FIRCLSDwarfExpressionMachineExecute_deref_def p read_word_invalid intro: outcomes)
qed

lemma exec_and:
  assumes "machine_rel r en cur m (Some xs)"
  shows "outcome r en cur (op_effect e cpu r And xs) (FIRCLSDwarfExpressionMachineExecute_and m)"
proof -
  obtain a m1 where p: "FIRCLSDwarfExpressionMachineStackPop m = (a, m1)" by fastforce
  obtain b m2 where q: "FIRCLSDwarfExpressionMachineStackPop m1 = (b, m2)" by fastforce
  from pop_two [OF assms p q] show ?thesis
    by (auto simp: FIRCLSDwarfExpressionMachineExecute_and_def p q short_cases intro: outcomes)
qed

lemma exec_ne:
  assumes "machine_rel r en cur m (Some xs)"
  shows "outcome r en cur (op_effect e cpu r Ne xs) (FIRCLSDwarfExpressionMachineExecute_ne m)"
proof -
  obtain a m1 where p: "FIRCLSDwarfExpressionMachineStackPop m = (a, m1)" by fastforce
  obtain b m2 where q: "FIRCLSDwarfExpressionMachineStackPop m1 = (b, m2)" by fastforce
  from pop_two [OF assms p q] show ?thesis
    by (auto simp: FIRCLSDwarfExpressionMachineExecute_ne_def p q short_cases
        intro: outcomes)
qed

lemma sadd64_0 [simp]: "sadd64 a 0 = Some a"
  using sint_range_size [of a] by (simp add: sadd64_def in_s64_def word_size)

lemma exec_plus:
  assumes "machine_rel r en cur m (Some xs)"
  shows "outcome r en cur (op_effect e cpu r Plus xs) (FIRCLSDwarfExpressionMachineExecute_plus m)"
proof -
  obtain a m1 where p: "FIRCLSDwarfExpressionMachineStackPop m = (a, m1)" by fastforce
  obtain b m2 where q: "FIRCLSDwarfExpressionMachineStackPop m1 = (b, m2)" by fastforce
  from pop_two [OF assms p q] show ?thesis
    by (cases "sadd64 a b")
      (auto simp: FIRCLSDwarfExpressionMachineExecute_plus_def p q short_cases intro: outcomes)
qed

lemma exec_dup:
  assumes "machine_rel r en cur m (Some xs)"
  shows "outcome r en cur (op_effect e cpu r Dup xs) (FIRCLSDwarfExpressionMachineExecute_dup m)"
proof -
  obtain v s where p: "stack_peek (machine_stack m) = (v, s)" by fastforce
  have "stack_wf (machine_stack m)" "stack_contents (machine_stack m) = Some xs"
    using assms by (simp_all add: machine_rel_def)
  then have v: "v = (case xs of x # xs \<Rightarrow> x | _ \<Rightarrow> 0)" and
    s: "stack_wf s" "stack_contents s = (case xs of x # xs \<Rightarrow> Some (x # xs) | _ \<Rightarrow> None)"
    using exprstack.peek_value exprstack.peek_contents exprstack.peek_wf arg_cong [OF p, of fst]
      arg_cong [OF p, of snd] by fastforce+
  then have "machine_rel r en cur (m\<lparr>machine_stack := s\<rparr>)
      (case xs of x # xs \<Rightarrow> Some (x # xs) | _ \<Rightarrow> None)"
    using assms by (simp add: machine_rel_def)
  then show ?thesis
    using p v by (cases xs)
      (auto simp: FIRCLSDwarfExpressionMachineExecute_dup_def stack_peek_def intro: outcomes)
qed

lemma exec_swap:
  assumes "machine_rel r en cur m (Some xs)"
  shows "outcome r en cur (op_effect e cpu r Swap xs) (FIRCLSDwarfExpressionMachineExecute_swap m)"
proof -
  obtain a m1 where p: "FIRCLSDwarfExpressionMachineStackPop m = (a, m1)" by fastforce
  obtain b m2 where q: "FIRCLSDwarfExpressionMachineStackPop m1 = (b, m2)" by fastforce
  obtain ok m3 where w: "FIRCLSDwarfExpressionMachineStackPush m2 a = (ok, m3)" by fastforce
  note def = FIRCLSDwarfExpressionMachineExecute_swap_def p q w
  show ?thesis
  proof (cases "length xs < 2")
    case True
    then have "machine_rel r en cur m2 None" using pop_two [OF assms p q] by auto
    then have "\<not> ok" using machine_push(1) [OF _ w refl] by simp
    with True show ?thesis by (auto simp: def short_cases intro: outcomes)
  next
    case False
    then obtain zs where zs: "xs = a # b # zs" "machine_rel r en cur m2 (Some zs)"
      "Suc (length zs) < CLS_DWARF_EXPRESSION_STACK_SIZE" "length zs < CLS_DWARF_EXPRESSION_STACK_SIZE"
      using pop_two [OF assms p q] by auto
    then have "ok" "machine_rel r en cur m3 (Some (a # zs))"
      using machine_push [OF zs(2) w refl] by simp_all
    with zs show ?thesis by (auto simp: def intro!: outcome_push_room)
  qed
qed

lemma exec_plus_uconst:
  assumes "machine_rel r en cur m (Some xs)" and "mem_has e cur (uleb_encode (unat u))"
    and "unat u < 2 ^ 31"
  shows "outcome r en (cur + of_nat (length (uleb_encode (unat u))))
    (op_effect e cpu r (PlusUconst u) xs) (FIRCLSDwarfExpressionMachineExecute_plus_uconst e m)"
proof -
  obtain a m1 where p: "FIRCLSDwarfExpressionMachineStackPop m = (a, m1)" by fastforce
  have "dataCursor m1 = cur" using assms(1) pop_cursorD [OF p] by (simp add: machine_rel_def)
  then have rd: "FIRCLSParseULEB128AndAdvance e (dataCursor m1) =
      Some (u, cur + of_nat (length (uleb_encode (unat u))))"
    using uleb.parse_encode [OF assms(3,2)] by simp
  from pop_one [OF assms(1) p] show ?thesis
    by (auto simp: FIRCLSDwarfExpressionMachineExecute_plus_uconst_def p rd
        intro!: outcome_push_room outcome_push_error)
qed

lemma exec_breg:
  assumes "machine_rel r en cur m (Some xs)" and "mem_has e cur (sleb_encode (sint offset))"
    and "- (2 ^ 27) \<le> sint offset \<and> sint offset < 2 ^ 31"
  shows "outcome r en (cur + of_nat (length (sleb_encode (sint offset))))
    (op_effect e cpu r (Breg n offset) xs)
    (FIRCLSDwarfExpressionMachineExecute_bregN e cpu m (DW_OP_breg0 + n))"
proof -
  have "dataCursor m = cur" "machine_registers m = Some r" using assms(1) by (simp_all add: machine_rel_def)
  moreover have "FIRCLSParseLEB128AndAdvance e cur =
      Some (offset, cur + of_nat (length (sleb_encode (sint offset))))"
    using sleb.parse_encode [OF assms(3,2)] .
  ultimately show ?thesis
    using assms(1) by (auto simp: FIRCLSDwarfExpressionMachineExecute_bregN_def Let_def outcome_error
        intro!: outcome_push)
qed

lemma exec_deref_size:
  assumes "machine_rel r en cur m (Some xs)" and "mem_has e cur [n]"
  shows "outcome r en (cur + 1)
    (op_effect e cpu r (DerefSize n) xs) (FIRCLSDwarfExpressionMachineExecute_deref_size e m)"
proof -
  obtain a m1 where p: "FIRCLSDwarfExpressionMachineStackPop m = (a, m1)" by fastforce
  have "dataCursor m1 = cur" using assms(1) pop_cursorD [OF p] by (simp add: machine_rel_def)
  moreover have "FIRCLSParseUint8AndAdvance e cur = Some (n, cur + 1)"
    using assms(2) by (rule parse_u8)
  ultimately have "FIRCLSDwarfExpressionMachineExecute_deref_size e m =
    (case sized_load e n a of None \<Rightarrow> None
     | Some None \<Rightarrow> Some (False, m1\<lparr>dataCursor := cur + 1\<rparr>)
     | Some (Some v) \<Rightarrow> Some (FIRCLSDwarfExpressionMachineStackPush (m1\<lparr>dataCursor := cur + 1\<rparr>) v))"
    by (auto simp: FIRCLSDwarfExpressionMachineExecute_deref_size_def p sized_load_def
        split: Option.bind_split)
  moreover have "machine_rel r en (cur + 1) (m1\<lparr>dataCursor := cur + 1\<rparr>) xo"
    if "machine_rel r en cur m1 xo" for xo
    using that by simp
  ultimately show ?thesis
    using pop_one [OF assms(1) p]
    by (cases "sized_load e n a"; cases "the (sized_load e n a)")
      (auto simp: outcome_undefined outcome_error intro!: outcome_push_room outcome_push_error)
qed

lemma exec_lit:
  "machine_rel r en cur m (Some xs) \<Longrightarrow>
   outcome r en cur (op_effect e cpu r (Lit n) xs)
     (FIRCLSDwarfExpressionMachineExecute_litN m (DW_OP_lit0 + n))"
  by (auto simp: FIRCLSDwarfExpressionMachineExecute_litN_def intro!: outcome_push)

section \<open>The dispatch\<close>

lemma unat_u8_add: "unat (k :: u8) + unat n < 256 \<Longrightarrow> unat (k + n) = unat k + unat n"
  by (simp add: unat_word_ariths)

lemma opcode_range:
  assumes "(n :: u8) \<le> 31" and "unat k \<le> 200"
  shows "k \<le> k + n" and "k + n \<le> k + 31"
proof -
  have n: "unat n \<le> 31" using assms(1) by (simp add: word_le_nat_alt)
  with assms(2) have "unat (k + n) = unat k + unat n" "unat (k + 31) = unat k + unat (31 :: u8)"
    by (simp_all add: unat_u8_add)
  with n show "k \<le> k + n" and "k + n \<le> k + 31" by (simp_all add: word_le_nat_alt)
qed

lemma dispatch_lit:
  "DW_OP_lit0 \<le> opcode \<Longrightarrow> opcode \<le> DW_OP_lit31 \<Longrightarrow>
   execute_opcode e cpu m opcode = FIRCLSDwarfExpressionMachineExecute_litN m opcode"
  by (auto simp: execute_opcode_def)

lemma dispatch_breg:
  "DW_OP_breg0 \<le> opcode \<Longrightarrow> opcode \<le> DW_OP_breg31 \<Longrightarrow>
   execute_opcode e cpu m opcode = FIRCLSDwarfExpressionMachineExecute_bregN e cpu m opcode"
  using order_trans [of DW_OP_breg0 opcode DW_OP_lit31] by (auto simp: execute_opcode_def)

lemma dispatch:
  "execute_opcode e cpu m DW_OP_deref = FIRCLSDwarfExpressionMachineExecute_deref e m"
  "execute_opcode e cpu m DW_OP_dup = FIRCLSDwarfExpressionMachineExecute_dup m"
  "execute_opcode e cpu m DW_OP_and = FIRCLSDwarfExpressionMachineExecute_and m"
  "execute_opcode e cpu m DW_OP_plus = FIRCLSDwarfExpressionMachineExecute_plus m"
  "execute_opcode e cpu m DW_OP_swap = FIRCLSDwarfExpressionMachineExecute_swap m"
  "execute_opcode e cpu m DW_OP_plus_uconst = FIRCLSDwarfExpressionMachineExecute_plus_uconst e m"
  "execute_opcode e cpu m DW_OP_ne = FIRCLSDwarfExpressionMachineExecute_ne m"
  "execute_opcode e cpu m DW_OP_deref_size = FIRCLSDwarfExpressionMachineExecute_deref_size e m"
  "n \<le> 31 \<Longrightarrow> execute_opcode e cpu m (DW_OP_lit0 + n) =
     FIRCLSDwarfExpressionMachineExecute_litN m (DW_OP_lit0 + n)"
  "n \<le> 31 \<Longrightarrow> execute_opcode e cpu m (DW_OP_breg0 + n) =
     FIRCLSDwarfExpressionMachineExecute_bregN e cpu m (DW_OP_breg0 + n)"
  using opcode_range [of n DW_OP_lit0] opcode_range [of n DW_OP_breg0]
  by (simp_all add: dispatch_lit dispatch_breg) (simp_all add: execute_opcode_def)

lemma exec_op:
  assumes "machine_rel r en cur m (Some xs)" and "op_ok op" and "mem_has e cur (op_bytes op)"
  shows "outcome r en (cur + of_nat (length (op_bytes op))) (op_effect e cpu r op xs)
    (addr_ofM m (FIRCLSDwarfExpressionMachineExecuteNextOpcode e cpu))"
proof -
  obtain b bs where bs: "op_bytes op = b # bs" by (cases op) auto
  have rd: "FIRCLSParseUint8AndAdvance e cur = Some (b, cur + 1)"
    using assms(3) unfolding bs by (rule parse_u8)
  have m: "machine_rel r en (cur + 1) (m\<lparr>dataCursor := cur + 1\<rparr>) (Some xs)"
    using assms(1) by simp
  have rest: "mem_has e (cur + 1) bs" using assms(3) by (simp add: bs)
  have "outcome r en (cur + 1 + of_nat (length bs)) (op_effect e cpu r op xs)
      (execute_opcode e cpu (m\<lparr>dataCursor := cur + 1\<rparr>) b)"
  proof (cases "\<exists>n offset. op = Breg n offset")
    case True
    then obtain n offset where op: "op = Breg n offset" by blast
    with bs rest assms(2) exec_breg [OF m, of e offset cpu n] show ?thesis
      by (auto simp: dispatch simp del: op_effect.simps)
  next
    case False
    with bs rest assms(2) show ?thesis
    by (cases op)
      (auto simp: dispatch simp del: op_effect.simps
        intro: exec_deref [OF m] exec_and [OF m] exec_ne [OF m] exec_plus [OF m] exec_dup [OF m]
          exec_swap [OF m] exec_lit [OF m] exec_plus_uconst [OF m]
          exec_deref_size [OF m, simplified])
  qed
  moreover have "dataCursor m = cur" using assms(1) by (simp add: machine_rel_def)
  then have "addr_ofM m (FIRCLSDwarfExpressionMachineExecuteNextOpcode e cpu) =
      execute_opcode e cpu (m\<lparr>dataCursor := cur + 1\<rparr>) b"
    by (cases "execute_opcode e cpu (m\<lparr>dataCursor := cur + 1\<rparr>) b") (auto simp: addr_ofM_def rd)
  ultimately show ?thesis by (simp add: bs add.assoc)
qed

section \<open>Arbitrary bytes\<close>

lemma pop_stack_wf:
  "FIRCLSDwarfExpressionMachineStackPop m = (v, m') \<Longrightarrow> stack_wf (machine_stack m) \<Longrightarrow>
   stack_wf (machine_stack m')"
  using exprstack.pop_wf [of "machine_stack m"]
  by (auto simp: FIRCLSDwarfExpressionMachineStackPop_def stack_pop_def split: prod.splits)

lemma push_stack_wf:
  "FIRCLSDwarfExpressionMachineStackPush m v = (ok, m') \<Longrightarrow> stack_wf (machine_stack m) \<Longrightarrow>
   stack_wf (machine_stack m')"
  using exprstack.push_wf [of "machine_stack m" v]
  by (auto simp: FIRCLSDwarfExpressionMachineStackPush_def stack_push_def split: prod.splits)

lemma peek_stack_wf:
  "addr_of s FIRCLSDwarfExpressionStackPeek = (v, s') \<Longrightarrow> stack_wf s \<Longrightarrow> stack_wf s'"
  using exprstack.peek_wf [of s] by (auto simp: stack_peek_def split: prod.splits)

lemma execute_opcode_wf:
  assumes "execute_opcode e cpu m opcode = Some (ok, m')" and "stack_wf (machine_stack m)"
  shows "stack_wf (machine_stack m')"
  using assms
  unfolding execute_opcode_def FIRCLSDwarfExpressionMachineExecute_deref_def
    FIRCLSDwarfExpressionMachineExecute_dup_def FIRCLSDwarfExpressionMachineExecute_and_def
    FIRCLSDwarfExpressionMachineExecute_plus_def FIRCLSDwarfExpressionMachineExecute_swap_def
    FIRCLSDwarfExpressionMachineExecute_plus_uconst_def FIRCLSDwarfExpressionMachineExecute_ne_def
    FIRCLSDwarfExpressionMachineExecute_litN_def FIRCLSDwarfExpressionMachineExecute_bregN_def
    FIRCLSDwarfExpressionMachineExecute_deref_size_def
  by (auto simp: bind_eq_Some_conv Let_def split: if_splits prod.splits option.splits
      dest!: pop_stack_wf push_stack_wf peek_stack_wf)

lemma next_opcode_wf:
  assumes "addr_ofM m (FIRCLSDwarfExpressionMachineExecuteNextOpcode e cpu) = Some (ok, m')"
    and "stack_wf (machine_stack m)"
  shows "stack_wf (machine_stack m')"
  using assms by (auto simp: addr_ofM_def bind_eq_Some_conv dest!: execute_opcode_wf)

section \<open>Whole expressions\<close>

lemma exec_ops:
  assumes "machine_rel r en cur m (Some xs)" and "list_all op_ok ops"
    and "mem_has e cur (concat (map op_bytes ops))" and "4096 \<le> cur"
    and "en = cur + of_nat (length (concat (map op_bytes ops)))"
  shows "outcome r en en (ops_effect e cpu r ops xs) (run_machine e cpu m)"
  using assms
proof (induction ops arbitrary: m xs cur)
  case Nil
  then have "FIRCLSDwarfExpressionMachineIsFinished (Some m)" by (simp add: machine_rel_def)
  with Nil show ?case by (subst run_machine.simps) (simp add: outcome_def)
next
  case (Cons op ops)
  let ?rest = "concat (map op_bytes ops)"
  let ?cur = "cur + of_nat (length (op_bytes op))"
  have mem: "mem_has e cur (op_bytes op)" "mem_has e ?cur ?rest"
    using Cons.prems(3) by (simp_all add: mem_has_append)
  have step: "outcome r en ?cur (op_effect e cpu r op xs)
      (addr_ofM m (FIRCLSDwarfExpressionMachineExecuteNextOpcode e cpu))"
    using Cons.prems(2) by (intro exec_op [OF Cons.prems(1) _ mem(1)]) simp
  have "op_bytes op \<noteq> []" by (cases op) simp_all
  then have pos: "0 < length (op_bytes op)" by simp
  have bound: "unat cur + length (concat (map op_bytes (op # ops))) < 2 ^ 64"
    using mem_has_bound [OF Cons.prems(3)] .
  then have un: "unat en = unat cur + length (concat (map op_bytes (op # ops)))"
    "unat ?cur = unat cur + length (op_bytes op)"
    unfolding Cons.prems(5) by (simp_all add: unat_word_ariths)
  have "4096 \<le> unat cur" using Cons.prems(4) by (simp add: word_le_nat_alt)
  with un have big: "4096 \<le> en" "4096 \<le> ?cur" "\<not> en \<le> cur"
    using pos by (simp_all add: word_le_nat_alt)
  have "FIRCLSDwarfExpressionStackIsValid (Some (machine_stack m))"
    using Cons.prems(1)
    by (simp add: stack_valid_iff machine_rel_def del: FIRCLSDwarfExpressionStackIsValid.simps)
  then have "\<not> FIRCLSDwarfExpressionMachineIsFinished (Some m)"
    using Cons.prems(1,4) big by (simp add: machine_rel_def FIRCLSIsValidPointer_def)
  then have run: "run_machine e cpu m =
      do { (success, m) \<leftarrow> addr_ofM m (FIRCLSDwarfExpressionMachineExecuteNextOpcode e cpu);
           if success then run_machine e cpu m else Some (False, m) }"
    by (subst run_machine.simps) (simp only: if_False)
  show ?case
  proof (cases "op_effect e cpu r op xs")
    case None
    with step run show ?thesis by (simp add: outcome_def)
  next
    case (Some res)
    show ?thesis
    proof (cases res)
      case None
      with Some step run show ?thesis by (auto simp: outcome_def)
    next
      case res: (Some ys)
      then obtain m' where "addr_ofM m (FIRCLSDwarfExpressionMachineExecuteNextOpcode e cpu) = Some (True, m')"
        and m': "machine_rel r en ?cur m' (Some ys)"
        using Some step by (auto simp: outcome_def)
      moreover have "outcome r en en (ops_effect e cpu r ops ys) (run_machine e cpu m')"
        using Cons.prems(2,5) mem(2) big(2) by (intro Cons.IH [OF m']) (simp_all add: add.assoc)
      ultimately show ?thesis using Some res run by simp
    qed
  qed
qed


text \<open>How the evaluation of an expression ends, given what its instructions do to the stack.\<close>

definition expression_value :: "s64 list option option \<Rightarrow> s64 \<Rightarrow> (bool \<times> s64 ptr) option" where
  "expression_value res old =
     (case res of None \<Rightarrow> None
      | Some None \<Rightarrow> Some (False, Some old)
      | Some (Some []) \<Rightarrow> Some (False, Some 0)
      | Some (Some (x # xs)) \<Rightarrow> Some (True, Some x))"

lemma uleb_encode_bound: "n < 2 ^ 31 \<Longrightarrow> length (uleb_encode n) \<le> 5"
  by (subst uleb_encode_length) simp_all

lemma machine_result:
  assumes "machine_rel r en en m (Some ys)"
  shows "(let (ok, _, result) = FIRCLSDwarfExpressionMachineGetResult (Some m) (Some old)
          in Some (ok, result)) = expression_value (Some (Some ys)) old"
proof -
  have wf: "stack_wf (machine_stack m)" "stack_contents (machine_stack m) = Some ys"
    "dataCursor m = endAddress m"
    using assms by (simp_all add: machine_rel_def)
  obtain x s where p: "stack_peek (machine_stack m) = (x, s)" by fastforce
  have "x = (case ys of [] \<Rightarrow> 0 | y # ys \<Rightarrow> y)" "stack_wf s"
    "stack_contents s = (case ys of [] \<Rightarrow> None | y # ys \<Rightarrow> Some (y # ys))"
    using exprstack.peek_value [OF wf(1)] exprstack.peek_contents [OF wf(1)]
      exprstack.peek_wf [OF wf(1)] wf(2) p by simp_all
  with p wf(3) show ?thesis
    by (cases ys) (simp_all add: stack_peek_def expression_value_def stack_valid_iff
        del: FIRCLSDwarfExpressionStackIsValid.simps)
qed

lemma machine_start:
  assumes "4096 \<le> cur"
  obtains m where
    "addr_of machine_zero (\<lambda>m. FIRCLSDwarfExpressionMachineInit m cur (Some r) v) = (True, m)"
    "machine_rel r 0 cur m (Some [v])"
proof -
  let ?s = "stack_zero\<lparr>stack_pointer := Some 0\<rparr>"
  have "fst (stack_push ?s v)" "stack_wf (snd (stack_push ?s v))"
    "stack_contents (snd (stack_push ?s v)) = Some [v]"
    using stack_init_wf by (simp_all add: exprstack.push_ok exprstack.push_contents exprstack.push_wf
      CLS_DWARF_EXPRESSION_STACK_SIZE_def)
  then obtain s where s: "stack_push ?s v = (True, s)" "stack_wf s" "stack_contents s = Some [v]"
    by (cases "stack_push ?s v") simp
  have "addr_of machine_zero (\<lambda>m. FIRCLSDwarfExpressionMachineInit m cur (Some r) v) =
    (True, \<lparr>machine_stack = s, dataCursor = cur, endAddress = 0, machine_registers = Some r\<rparr>)"
    using assms s(1) by (simp add: machine_zero_def FIRCLSIsValidPointer_def stack_push_def Let_def)
  with s that show ?thesis by (simp add: machine_rel_def)
qed

lemma machine_prepare:
  assumes "machine_rel r 0 cur m xo" and "code \<noteq> []" and "length code < 2 ^ 31"
    and "mem_has e cur (uleb_encode (length code) @ code)" and "4096 \<le> cur"
    and "c = cur + of_nat (length (uleb_encode (length code)))"
    and "en = c + of_nat (length code)"
  obtains m' where "addr_ofM m (FIRCLSDwarfExpressionMachinePrepareForExecution e) = Some (True, m')"
    "machine_rel r en c m' xo" "mem_has e c code" "4096 \<le> c"
proof -
  let ?n = "of_nat (length code) :: u64"
  have un: "unat ?n = length code" using assms(3) by simp
  have bound: "unat cur + (length (uleb_encode (length code)) + length code) < 2 ^ 64"
    using mem_has_bound [OF assms(4)] by simp
  have read: "FIRCLSParseULEB128AndAdvance e cur = Some (?n, c)" "mem_has e c code"
    using uleb.parse_append [of ?n e cur code] assms(3,4,6) un by simp_all
  have "?n \<noteq> 0" using assms(2) un by (metis length_0_conv unat_0)
  moreover have uc: "unat c = unat cur + length (uleb_encode (length code))"
    unfolding assms(6) using bound by (simp add: unat_word_ariths)
  then have "ptr_add c ?n = Some en" using bound un assms(7) by (simp add: ptr_add_Some)
  ultimately have "addr_ofM m (FIRCLSDwarfExpressionMachinePrepareForExecution e) =
      Some (True, m\<lparr>dataCursor := c, endAddress := en\<rparr>)"
    using assms(1) read by (simp add: addr_ofM_def Let_def machine_rel_def)
  moreover have "machine_rel r en c (m\<lparr>dataCursor := c, endAddress := en\<rparr>) xo"
    using assms(1) by (simp add: machine_rel_def)
  moreover have "4096 \<le> c" using assms(5) uc by (simp add: word_le_nat_alt)
  ultimately show ?thesis using that read(2) by blast
qed

text \<open>
  C9: Evaluating an encoded expression gives what its instructions compute on a list of values:
  the topmost value when all succeed and the stack is not empty; a failure, with the result
  left alone, when an instruction reports an error (underflow, overflow past 100 values, an
  unreadable address, a register the CPU does not have); a failure with result 0 when the stack
  ends empty; and no defined result exactly when an instruction has none.
\<close>
theorem expression_evaluation:
  assumes "ops \<noteq> []" and "list_all op_ok ops"
    and "mem_has e cur (uleb_encode (length (concat (map op_bytes ops))) @ concat (map op_bytes ops))"
    and "length (concat (map op_bytes ops)) < 2 ^ 31" and "4096 \<le> cur"
  shows "FIRCLSDwarfEvalulateExpression e cpu cur (Some r) v (Some old) =
    expression_value (ops_effect e cpu r ops [v]) old"
proof -
  let ?code = "concat (map op_bytes ops)"
  have code: "?code \<noteq> []" using assms(1) by (cases ops; cases "hd ops") simp_all
  obtain m where m: "machine_rel r 0 cur m (Some [v])" and
    init: "addr_of machine_zero (\<lambda>m. FIRCLSDwarfExpressionMachineInit m cur (Some r) v) = (True, m)"
    using machine_start [OF assms(5)] by metis
  define c where "c = cur + of_nat (length (uleb_encode (length ?code)))"
  define en where "en = c + of_nat (length ?code)"
  obtain n where
    prep: "addr_ofM m (FIRCLSDwarfExpressionMachinePrepareForExecution e) = Some (True, n)" and
    n: "machine_rel r en c n (Some [v])" "mem_has e c ?code" "4096 \<le> c"
    using machine_prepare [OF m code assms(4,3,5) c_def en_def] by metis
  have run: "outcome r en en (ops_effect e cpu r ops [v]) (run_machine e cpu n)"
    using exec_ops [OF n(1) assms(2) n(2,3) en_def] .
  have ev: "FIRCLSDwarfEvalulateExpression e cpu cur (Some r) v (Some old) =
      do { (ok, machine) \<leftarrow> run_machine e cpu n;
           if \<not> ok then Some (False, Some old)
           else let (ok, _, result) =
                   FIRCLSDwarfExpressionMachineGetResult (Some machine) (Some old)
                 in Some (ok, result) }"
    using assms(5) by (simp add: init prep FIRCLSIsValidPointer_def)
  show ?thesis
  proof (cases "\<exists>ys. ops_effect e cpu r ops [v] = Some (Some ys)")
    case True
    then obtain ys where ys: "ops_effect e cpu r ops [v] = Some (Some ys)" by blast
    then obtain m' where "run_machine e cpu n = Some (True, m')" "machine_rel r en en m' (Some ys)"
      using run by (auto simp: outcome_def)
    with ys show ?thesis
      unfolding ev using machine_result [of r en m' ys old]
      by (simp del: FIRCLSDwarfExpressionMachineGetResult.simps)
  next
    case False
    then have "ops_effect e cpu r ops [v] = None \<or> ops_effect e cpu r ops [v] = Some None"
      by (metis option.exhaust)
    with run show ?thesis
      unfolding ev by (auto simp: outcome_def expression_value_def)
  qed
qed


theorem expression_evaluation_witness:
  "FIRCLSDwarfEvalulateExpression (flat_env 0x1000 [6, 0x77, 0x78, 0x12, 0x22, 0x23, 0x05]) x86_64_cpu 0x1000
     (Some \<lparr>rax = 0, rdx = 0, rcx = 0, rbx = 0, rsi = 0, rdi = 0, rbp = 0, rsp = 0x2000, r8 = 0,
        r9 = 0, r10 = 0, r11 = 0, r12 = 0, r13 = 0, r14 = 0, r15 = 0, rip = 0\<rparr>) 0 (Some 7) =
   Some (True, Some 0x3FF5)"
  using expression_evaluation [of "[Breg 7 (- 8), Dup, Plus, PlusUconst 5]"
      "flat_env 0x1000 [6, 0x77, 0x78, 0x12, 0x22, 0x23, 0x05]" "0x1000" x86_64_cpu
      "\<lparr>rax = 0, rdx = 0, rcx = 0, rbx = 0, rsi = 0, rdi = 0, rbp = 0, rsp = 0x2000, r8 = 0,
        r9 = 0, r10 = 0, r11 = 0, r12 = 0, r13 = 0, r14 = 0, r15 = 0, rip = 0\<rparr>" 0 7]
  by (simp add: uleb_encode.simps sleb_encode.simps leb_byte_def mem_flat_env spec_push_def
      CLS_DWARF_EXPRESSION_STACK_SIZE_def x86_64_cpu_def x86_64_get_def sadd64_def in_s64_def
      expression_value_def)

text \<open>
  Whatever bytes the machine is given to execute, its stack pointer stays inside the array of
  100 values (or is the null pointer of an error): no instruction sequence makes it write or read
  outside the array.
\<close>
theorem expression_stack_in_bounds:
  assumes "run_machine e cpu m = Some (ok, m')" and "stack_wf (machine_stack m)"
  shows "stack_wf (machine_stack m')"
  using assms
proof (induction e cpu m rule: run_machine.induct)
  case (1 e cpu m)
  show ?case
  proof (cases "FIRCLSDwarfExpressionMachineIsFinished (Some m)")
    case True
    with "1.prems" show ?thesis
      by (subst (asm) run_machine.simps) (simp del: FIRCLSDwarfExpressionMachineIsFinished.simps)
  next
    case False
    with "1.prems"(1) obtain success n where
      n: "addr_ofM m (FIRCLSDwarfExpressionMachineExecuteNextOpcode e cpu) = Some (success, n)" and
      rest: "(if success then run_machine e cpu n else Some (False, n)) = Some (ok, m')"
      by (subst (asm) run_machine.simps)
        (auto simp: bind_eq_Some_conv simp del: FIRCLSDwarfExpressionMachineIsFinished.simps)
    have "stack_wf (machine_stack n)" by (rule next_opcode_wf [OF n "1.prems"(2)])
    with rest "1.IH" [OF False n refl] show ?thesis by (cases success) auto
  qed
qed

theorem expression_stack_in_bounds_witness:
  "stack_wf (machine_stack (snd (the (run_machine (flat_env 0x1000 [0x12, 0x22, 0x22]) x86_64_cpu
     \<lparr>machine_stack = stack_zero\<lparr>stack_pointer := Some 0\<rparr>, dataCursor = 0x1000, endAddress = 0x1003,
      machine_registers = None\<rparr>))))"
proof -
  let ?m = "\<lparr>machine_stack = stack_zero\<lparr>stack_pointer := Some 0\<rparr>, dataCursor = 0x1000,
    endAddress = 0x1003, machine_registers = None\<rparr> :: x86_64 FIRCLSDwarfExpressionMachine"
  have "\<exists>ok m'. run_machine (flat_env 0x1000 [0x12, 0x22, 0x22]) x86_64_cpu ?m = Some (ok, m')"
    by (simp add: c_eval cong: bind_weak_cong) blast
  then obtain ok m' where run:
    "run_machine (flat_env 0x1000 [0x12, 0x22, 0x22]) x86_64_cpu ?m = Some (ok, m')" by blast
  have "stack_wf (machine_stack m')"
    by (rule expression_stack_in_bounds [OF run]) (simp add: stack_wf_def stack_zero_def)
  then show ?thesis by (simp add: run)
qed

end
