(* ===== verification/DwarfUnwind.thy ===== *)
theory DwarfUnwind
  imports DwarfRecords ExpressionMachine
begin

text \<open>
  The DWARF unwinder of \<open>Crashlytics/Unwind/Dwarf/FIRCLSDwarfUnwind.c\<close>: the call frame
  instructions, the loop that runs them, and the computation of the caller's registers.  Every
  iteration of the loop moves the cursor forward (\<open>cfi_step_forward\<close>), so the loop ends.
\<close>

section \<open>State\<close>

datatype FIRCLSDwarfRegisterLocation = FIRCLSDwarfRegisterUnused | FIRCLSDwarfRegisterInCFA
  | FIRCLSDwarfRegisterOffsetFromCFA | FIRCLSDwarfRegisterInRegister
  | FIRCLSDwarfRegisterAtExpression | FIRCLSDwarfRegisterIsExpression

record FIRCLSDwarfRegister =
  location :: FIRCLSDwarfRegisterLocation
  saved_value :: u64

record FIRCLSDwarfState =
  cfaRegister :: u64
  cfaRegisterOffset :: s64
  cfaExpression :: u64
  spArgSize :: u32
  saved_registers :: "FIRCLSDwarfRegister list"

definition state_zero :: "('c, 'z) cpu_scheme \<Rightarrow> FIRCLSDwarfState" where
  "state_zero cpu = \<lparr>cfaRegister = 0, cfaRegisterOffset = 0, cfaExpression = 0, spArgSize = 0,
     saved_registers = replicate (CLS_DWARF_MAX_REGISTER_NUM cpu + 1)
       \<lparr>location = FIRCLSDwarfRegisterUnused, saved_value = 0\<rparr>\<rparr>"

text \<open>Stores to \<open>state->registers[n]\<close>; a store past the array has no defined result.\<close>

definition set_register ::
  "FIRCLSDwarfState \<Rightarrow> u64 \<Rightarrow> FIRCLSDwarfRegisterLocation \<Rightarrow> u64 \<Rightarrow> FIRCLSDwarfState option" where
  "set_register state n l v =
     (if unat n < length (saved_registers state)
      then Some (state\<lparr>saved_registers := (saved_registers state)
                        [unat n := \<lparr>location = l, saved_value = v\<rparr>]\<rparr>)
      else None)"

definition set_location ::
  "FIRCLSDwarfState \<Rightarrow> u64 \<Rightarrow> FIRCLSDwarfRegisterLocation \<Rightarrow> FIRCLSDwarfState option" where
  "set_location state n l =
     (if unat n < length (saved_registers state)
      then Some (state\<lparr>saved_registers := (saved_registers state)
                        [unat n := (saved_registers state ! unat n)\<lparr>location := l\<rparr>]\<rparr>)
      else None)"

lemmas [c_eval] = set_register_def set_location_def

section \<open>Instructions\<close>

abbreviation DW_CFA_OPCODE_MASK :: u8 where "DW_CFA_OPCODE_MASK \<equiv> 0xC0"
abbreviation DW_CFA_OPERAND_MASK :: u8 where "DW_CFA_OPERAND_MASK \<equiv> 0x3F"
abbreviation DW_CFA_nop :: u8 where "DW_CFA_nop \<equiv> 0x00"
abbreviation DW_CFA_set_loc :: u8 where "DW_CFA_set_loc \<equiv> 0x01"
abbreviation DW_CFA_advance_loc1 :: u8 where "DW_CFA_advance_loc1 \<equiv> 0x02"
abbreviation DW_CFA_advance_loc2 :: u8 where "DW_CFA_advance_loc2 \<equiv> 0x03"
abbreviation DW_CFA_advance_loc4 :: u8 where "DW_CFA_advance_loc4 \<equiv> 0x04"
abbreviation DW_CFA_offset_extended :: u8 where "DW_CFA_offset_extended \<equiv> 0x05"
abbreviation DW_CFA_restore_extended :: u8 where "DW_CFA_restore_extended \<equiv> 0x06"
abbreviation DW_CFA_undefined :: u8 where "DW_CFA_undefined \<equiv> 0x07"
abbreviation DW_CFA_same_value :: u8 where "DW_CFA_same_value \<equiv> 0x08"
abbreviation DW_CFA_register :: u8 where "DW_CFA_register \<equiv> 0x09"
abbreviation DW_CFA_remember_state :: u8 where "DW_CFA_remember_state \<equiv> 0x0A"
abbreviation DW_CFA_restore_state :: u8 where "DW_CFA_restore_state \<equiv> 0x0B"
abbreviation DW_CFA_def_cfa :: u8 where "DW_CFA_def_cfa \<equiv> 0x0C"
abbreviation DW_CFA_def_cfa_register :: u8 where "DW_CFA_def_cfa_register \<equiv> 0x0D"
abbreviation DW_CFA_def_cfa_offset :: u8 where "DW_CFA_def_cfa_offset \<equiv> 0x0E"
abbreviation DW_CFA_def_cfa_expression :: u8 where "DW_CFA_def_cfa_expression \<equiv> 0x0F"
abbreviation DW_CFA_expression :: u8 where "DW_CFA_expression \<equiv> 0x10"
abbreviation DW_CFA_offset_extended_sf :: u8 where "DW_CFA_offset_extended_sf \<equiv> 0x11"
abbreviation DW_CFA_def_cfa_sf :: u8 where "DW_CFA_def_cfa_sf \<equiv> 0x12"
abbreviation DW_CFA_def_cfa_offset_sf :: u8 where "DW_CFA_def_cfa_offset_sf \<equiv> 0x13"
abbreviation DW_CFA_val_offset :: u8 where "DW_CFA_val_offset \<equiv> 0x14"
abbreviation DW_CFA_val_offset_sf :: u8 where "DW_CFA_val_offset_sf \<equiv> 0x15"
abbreviation DW_CFA_val_expression :: u8 where "DW_CFA_val_expression \<equiv> 0x16"
abbreviation DW_CFA_GNU_window_save :: u8 where "DW_CFA_GNU_window_save \<equiv> 0x2D"
abbreviation DW_CFA_GNU_args_size :: u8 where "DW_CFA_GNU_args_size \<equiv> 0x2E"
abbreviation DW_CFA_GNU_negative_offset_extended :: u8 where "DW_CFA_GNU_negative_offset_extended \<equiv> 0x2F"
abbreviation DW_CFA_advance_loc :: u8 where "DW_CFA_advance_loc \<equiv> 0x40"
abbreviation DW_CFA_offset :: u8 where "DW_CFA_offset \<equiv> 0x80"

text \<open>
  An instruction gets the cursor, the state and the code offset, and gives back whether it
  succeeded with all three as it left them.
\<close>

type_synonym cfi = "u64 \<times> FIRCLSDwarfState \<times> s64"

definition FIRCLSDwarfParseAndExecute_set_loc ::
  "env \<Rightarrow> DWARFCIERecord \<Rightarrow> cfi \<Rightarrow> (bool \<times> cfi) option" where
  [c_eval]: "FIRCLSDwarfParseAndExecute_set_loc e cie = (\<lambda>(cursor, state, codeOffset). do {
     (operand, cursor) \<leftarrow> addr_ofM cursor
        (\<lambda>p. FIRCLSParseAddressWithEncodingAndAdvance e p (pointerEncoding cie));
     Some (True, cursor, state, operand) })"

definition FIRCLSDwarfParseAndExecute_advance_loc1 ::
  "env \<Rightarrow> DWARFCIERecord \<Rightarrow> cfi \<Rightarrow> (bool \<times> cfi) option" where
  [c_eval]: "FIRCLSDwarfParseAndExecute_advance_loc1 e cie = (\<lambda>(cursor, state, codeOffset). do {
     (v, cursor) \<leftarrow> FIRCLSParseUint8AndAdvance e cursor;
     codeOffset \<leftarrow> sadd64 codeOffset (ucast v * codeAlignFactor cie);
     Some (True, cursor, state, codeOffset) })"

definition FIRCLSDwarfParseAndExecute_advance_loc2 ::
  "env \<Rightarrow> DWARFCIERecord \<Rightarrow> cfi \<Rightarrow> (bool \<times> cfi) option" where
  [c_eval]: "FIRCLSDwarfParseAndExecute_advance_loc2 e cie = (\<lambda>(cursor, state, codeOffset). do {
     (v, cursor) \<leftarrow> FIRCLSParseUint16AndAdvance e cursor;
     codeOffset \<leftarrow> sadd64 codeOffset (ucast v * codeAlignFactor cie);
     Some (True, cursor, state, codeOffset) })"

definition FIRCLSDwarfParseAndExecute_advance_loc4 ::
  "env \<Rightarrow> DWARFCIERecord \<Rightarrow> cfi \<Rightarrow> (bool \<times> cfi) option" where
  [c_eval]: "FIRCLSDwarfParseAndExecute_advance_loc4 e cie = (\<lambda>(cursor, state, codeOffset). do {
     (v, cursor) \<leftarrow> FIRCLSParseUint32AndAdvance e cursor;
     codeOffset \<leftarrow> sadd64 codeOffset (ucast v * codeAlignFactor cie);
     Some (True, cursor, state, codeOffset) })"

definition FIRCLSDwarfParseAndExecute_def_cfa ::
  "env \<Rightarrow> ('c, 'z) cpu_scheme \<Rightarrow> cfi \<Rightarrow> (bool \<times> cfi) option" where
  [c_eval]: "FIRCLSDwarfParseAndExecute_def_cfa e cpu = (\<lambda>(cursor, state, codeOffset). do {
     (regNum, cursor) \<leftarrow> FIRCLSParseULEB128AndAdvance e cursor;
     if CLS_DWARF_MAX_REGISTER_NUM cpu < unat regNum then Some (False, cursor, state, codeOffset)
     else do {
       (offset, cursor) \<leftarrow> FIRCLSParseULEB128AndAdvance e cursor;
       Some (True, cursor, state\<lparr>cfaRegister := regNum, cfaRegisterOffset := offset\<rparr>, codeOffset) } })"

definition FIRCLSDwarfParseAndExecute_def_cfa_register ::
  "env \<Rightarrow> ('c, 'z) cpu_scheme \<Rightarrow> cfi \<Rightarrow> (bool \<times> cfi) option" where
  [c_eval]: "FIRCLSDwarfParseAndExecute_def_cfa_register e cpu = (\<lambda>(cursor, state, codeOffset). do {
     (regNum, cursor) \<leftarrow> FIRCLSParseULEB128AndAdvance e cursor;
     if CLS_DWARF_MAX_REGISTER_NUM cpu < unat regNum then Some (False, cursor, state, codeOffset)
     else Some (True, cursor, state\<lparr>cfaRegister := regNum\<rparr>, codeOffset) })"

definition FIRCLSDwarfParseAndExecute_def_cfa_offset :: "env \<Rightarrow> cfi \<Rightarrow> (bool \<times> cfi) option" where
  [c_eval]: "FIRCLSDwarfParseAndExecute_def_cfa_offset e = (\<lambda>(cursor, state, codeOffset). do {
     (offset, cursor) \<leftarrow> FIRCLSParseULEB128AndAdvance e cursor;
     Some (True, cursor, state\<lparr>cfaRegisterOffset := offset\<rparr>, codeOffset) })"

definition FIRCLSDwarfParseAndExecute_same_value ::
  "env \<Rightarrow> ('c, 'z) cpu_scheme \<Rightarrow> cfi \<Rightarrow> (bool \<times> cfi) option" where
  [c_eval]: "FIRCLSDwarfParseAndExecute_same_value e cpu = (\<lambda>(cursor, state, codeOffset). do {
     (regNum, cursor) \<leftarrow> FIRCLSParseULEB128AndAdvance e cursor;
     if CLS_DWARF_MAX_REGISTER_NUM cpu < unat regNum then Some (False, cursor, state, codeOffset)
     else do { state \<leftarrow> set_location state regNum FIRCLSDwarfRegisterUnused;
               Some (True, cursor, state, codeOffset) } })"

definition FIRCLSDwarfParseAndExecute_register ::
  "env \<Rightarrow> ('c, 'z) cpu_scheme \<Rightarrow> cfi \<Rightarrow> (bool \<times> cfi) option" where
  [c_eval]: "FIRCLSDwarfParseAndExecute_register e cpu = (\<lambda>(cursor, state, codeOffset). do {
     (regNum, cursor) \<leftarrow> FIRCLSParseULEB128AndAdvance e cursor;
     if CLS_DWARF_MAX_REGISTER_NUM cpu < unat regNum then Some (False, cursor, state, codeOffset)
     else do {
       (regValue, cursor) \<leftarrow> FIRCLSParseULEB128AndAdvance e cursor;
       if CLS_DWARF_MAX_REGISTER_NUM cpu < unat regValue then Some (False, cursor, state, codeOffset)
       else do { state \<leftarrow> set_register state regNum FIRCLSDwarfRegisterInRegister regValue;
                 Some (True, cursor, state, codeOffset) } } })"

definition FIRCLSDwarfParseAndExecute_expression ::
  "env \<Rightarrow> ('c, 'z) cpu_scheme \<Rightarrow> cfi \<Rightarrow> (bool \<times> cfi) option" where
  [c_eval]: "FIRCLSDwarfParseAndExecute_expression e cpu = (\<lambda>(cursor, state, codeOffset). do {
     (regNum, cursor) \<leftarrow> FIRCLSParseULEB128AndAdvance e cursor;
     if CLS_DWARF_MAX_REGISTER_NUM cpu < unat regNum then Some (False, cursor, state, codeOffset)
     else do {
       state \<leftarrow> set_register state regNum FIRCLSDwarfRegisterAtExpression cursor;
       (len, cursor) \<leftarrow> FIRCLSParseULEB128AndAdvance e cursor;
       cursor \<leftarrow> ptr_add cursor len;
       Some (True, cursor, state, codeOffset) } })"

definition FIRCLSDwarfParseAndExecute_val_expression ::
  "env \<Rightarrow> ('c, 'z) cpu_scheme \<Rightarrow> cfi \<Rightarrow> (bool \<times> cfi) option" where
  [c_eval]: "FIRCLSDwarfParseAndExecute_val_expression e cpu = (\<lambda>(cursor, state, codeOffset). do {
     (regNum, cursor) \<leftarrow> FIRCLSParseULEB128AndAdvance e cursor;
     if CLS_DWARF_MAX_REGISTER_NUM cpu < unat regNum then Some (False, cursor, state, codeOffset)
     else do {
       state \<leftarrow> set_register state regNum FIRCLSDwarfRegisterIsExpression cursor;
       (len, cursor) \<leftarrow> FIRCLSParseULEB128AndAdvance e cursor;
       cursor \<leftarrow> ptr_add cursor len;
       Some (True, cursor, state, codeOffset) } })"

definition FIRCLSDwarfParseAndExecute_def_cfa_expression ::
  "env \<Rightarrow> ('c, 'z) cpu_scheme \<Rightarrow> cfi \<Rightarrow> (bool \<times> cfi) option" where
  [c_eval]: "FIRCLSDwarfParseAndExecute_def_cfa_expression e cpu = (\<lambda>(cursor, state, codeOffset). do {
     let state = state\<lparr>cfaRegister := CLS_DWARF_INVALID_REGISTER_NUM cpu, cfaExpression := cursor\<rparr>;
     (len, cursor) \<leftarrow> FIRCLSParseULEB128AndAdvance e cursor;
     cursor \<leftarrow> ptr_add cursor len;
     Some (True, cursor, state, codeOffset) })"

definition FIRCLSDwarfParseAndExecute_offset ::
  "env \<Rightarrow> ('c, 'z) cpu_scheme \<Rightarrow> DWARFCIERecord \<Rightarrow> u8 \<Rightarrow> cfi \<Rightarrow> (bool \<times> cfi) option" where
  [c_eval]: "FIRCLSDwarfParseAndExecute_offset e cpu cie regNum = (\<lambda>(cursor, state, codeOffset).
     if CLS_DWARF_MAX_REGISTER_NUM cpu < unat regNum then Some (False, cursor, state, codeOffset)
     else do {
       (v, cursor) \<leftarrow> FIRCLSParseULEB128AndAdvance e cursor;
       let offset = v * dataAlignFactor cie;
       state \<leftarrow> set_register state (ucast regNum) FIRCLSDwarfRegisterInCFA offset;
       Some (True, cursor, state, codeOffset) })"

definition FIRCLSDwarfParseAndExecute_advance_loc ::
  "DWARFCIERecord \<Rightarrow> u8 \<Rightarrow> cfi \<Rightarrow> (bool \<times> cfi) option" where
  [c_eval]: "FIRCLSDwarfParseAndExecute_advance_loc cie delta = (\<lambda>(cursor, state, codeOffset). do {
     codeOffset \<leftarrow> smul64 (ucast delta) (codeAlignFactor cie);
     Some (True, cursor, state, codeOffset) })"

definition FIRCLSDwarfParseAndExecuteInstructionWithOperand ::
  "env \<Rightarrow> ('c, 'z) cpu_scheme \<Rightarrow> DWARFCIERecord \<Rightarrow> u8 \<Rightarrow> cfi \<Rightarrow> (bool \<times> cfi) option" where
  [c_eval]: "FIRCLSDwarfParseAndExecuteInstructionWithOperand e cpu cie instruction cfi =
     (let operand = instruction AND DW_CFA_OPERAND_MASK;
          opcode = instruction AND DW_CFA_OPCODE_MASK in
      if opcode = DW_CFA_offset then FIRCLSDwarfParseAndExecute_offset e cpu cie operand cfi
      else if opcode = DW_CFA_advance_loc then FIRCLSDwarfParseAndExecute_advance_loc cie operand cfi
      else Some (False, cfi))"

definition unimplemented_instructions :: "u8 list" where
  [c_eval]: "unimplemented_instructions = [DW_CFA_offset_extended, DW_CFA_restore_extended, DW_CFA_undefined,
     DW_CFA_remember_state, DW_CFA_restore_state, DW_CFA_offset_extended_sf, DW_CFA_def_cfa_sf,
     DW_CFA_def_cfa_offset_sf, DW_CFA_val_offset, DW_CFA_val_offset_sf, DW_CFA_GNU_window_save,
     DW_CFA_GNU_args_size, DW_CFA_GNU_negative_offset_extended]"

text \<open>The \<open>switch\<close> of the instruction loop.\<close>

definition execute_instruction ::
  "env \<Rightarrow> ('c, 'z) cpu_scheme \<Rightarrow> DWARFCIERecord \<Rightarrow> u8 \<Rightarrow> cfi \<Rightarrow> (bool \<times> cfi) option" where
  [c_eval]: "execute_instruction e cpu cie instruction cfi =
     (if instruction = DW_CFA_nop then Some (True, cfi)
      else if instruction = DW_CFA_set_loc then FIRCLSDwarfParseAndExecute_set_loc e cie cfi
      else if instruction = DW_CFA_advance_loc1 then FIRCLSDwarfParseAndExecute_advance_loc1 e cie cfi
      else if instruction = DW_CFA_advance_loc2 then FIRCLSDwarfParseAndExecute_advance_loc2 e cie cfi
      else if instruction = DW_CFA_advance_loc4 then FIRCLSDwarfParseAndExecute_advance_loc4 e cie cfi
      else if instruction = DW_CFA_def_cfa then FIRCLSDwarfParseAndExecute_def_cfa e cpu cfi
      else if instruction = DW_CFA_def_cfa_register
        then FIRCLSDwarfParseAndExecute_def_cfa_register e cpu cfi
      else if instruction = DW_CFA_def_cfa_offset then FIRCLSDwarfParseAndExecute_def_cfa_offset e cfi
      else if instruction = DW_CFA_same_value then FIRCLSDwarfParseAndExecute_same_value e cpu cfi
      else if instruction = DW_CFA_register then FIRCLSDwarfParseAndExecute_register e cpu cfi
      else if instruction = DW_CFA_def_cfa_expression
        then FIRCLSDwarfParseAndExecute_def_cfa_expression e cpu cfi
      else if instruction = DW_CFA_expression then FIRCLSDwarfParseAndExecute_expression e cpu cfi
      else if instruction = DW_CFA_val_expression
        then FIRCLSDwarfParseAndExecute_val_expression e cpu cfi
      else if instruction \<in> set unimplemented_instructions then Some (False, cfi)
      else FIRCLSDwarfParseAndExecuteInstructionWithOperand e cpu cie instruction cfi)"

definition cfi_step ::
  "env \<Rightarrow> ('c, 'z) cpu_scheme \<Rightarrow> DWARFCIERecord \<Rightarrow> cfi \<Rightarrow> (bool \<times> cfi) option" where
  [c_eval]: "cfi_step e cpu cie = (\<lambda>(cursor, state, codeOffset). do {
     (instruction, cursor) \<leftarrow> FIRCLSParseUint8AndAdvance e cursor;
     execute_instruction e cpu cie instruction (cursor, state, codeOffset) })"

section \<open>The instruction loop\<close>

lemmas cfi_instruction_defs =
  FIRCLSDwarfParseAndExecute_set_loc_def FIRCLSDwarfParseAndExecute_advance_loc1_def
  FIRCLSDwarfParseAndExecute_advance_loc2_def FIRCLSDwarfParseAndExecute_advance_loc4_def
  FIRCLSDwarfParseAndExecute_def_cfa_def FIRCLSDwarfParseAndExecute_def_cfa_register_def
  FIRCLSDwarfParseAndExecute_def_cfa_offset_def FIRCLSDwarfParseAndExecute_same_value_def
  FIRCLSDwarfParseAndExecute_register_def FIRCLSDwarfParseAndExecute_expression_def
  FIRCLSDwarfParseAndExecute_val_expression_def FIRCLSDwarfParseAndExecute_def_cfa_expression_def
  FIRCLSDwarfParseAndExecute_offset_def FIRCLSDwarfParseAndExecute_advance_loc_def
  FIRCLSDwarfParseAndExecuteInstructionWithOperand_def

lemma forward_trans:
  "unat a < unat b \<Longrightarrow> unat b \<le> unat c \<Longrightarrow> unat a \<le> unat (c :: u64)"
  "unat a < unat b \<Longrightarrow> unat b < unat c \<Longrightarrow> unat a \<le> unat (c :: u64)"
  by linarith+

lemma encoded_address_addr_of:
  "addr_ofM c (\<lambda>p. FIRCLSParseAddressWithEncodingAndAdvance e p enc) = Some (v, c') \<Longrightarrow>
   unat c \<le> unat c'"
  by (auto simp: addr_ofM_def split: option.splits dest: encoded_address_forward)

lemma execute_instruction_forward:
  assumes "execute_instruction e cpu cie i (c, s, off) = Some (ok, c', s', off')"
  shows "unat c \<le> unat c'"
  using assms unfolding execute_instruction_def cfi_instruction_defs
  by (auto simp: bind_eq_Some_conv Let_def less_imp_le split: if_splits
      dest: readers_forward encoded_address_addr_of forward_trans
      dest!: ptr_add_le uleb.parse_forward)

lemma cfi_step_forward:
  assumes "cfi_step e cpu cie (c, s, off) = Some (ok, c', s', off')"
  shows "unat c < unat c'"
proof -
  from assms obtain i d where "FIRCLSParseUint8AndAdvance e c = Some (i, d)"
    and "execute_instruction e cpu cie i (d, s, off) = Some (ok, c', s', off')"
    by (auto simp: cfi_step_def bind_eq_Some_conv)
  then show ?thesis by (auto dest!: u8r.parse_forward execute_instruction_forward)
qed

function cfi_loop ::
  "env \<Rightarrow> ('c, 'z) cpu_scheme \<Rightarrow> DWARFCIERecord \<Rightarrow> u64 \<Rightarrow> s64 \<Rightarrow> cfi \<Rightarrow> (bool \<times> cfi) option" where
  "cfi_loop e cpu cie limit pcOffset (cursor, state, codeOffset) =
     (if cursor < limit \<and> sint codeOffset < sint pcOffset
      then do { (success, cfi) \<leftarrow> cfi_step e cpu cie (cursor, state, codeOffset);
                if success then cfi_loop e cpu cie limit pcOffset cfi else Some (False, cfi) }
      else Some (True, cursor, state, codeOffset))"
  by auto
termination
proof (relation "measure (\<lambda>(e, cpu, cie, en, pc, cursor, s, off). 2 ^ 64 - unat cursor)")
  fix e :: env and cpu :: "('c, 'z) cpu_scheme" and cie en pc c s off and ok :: bool and cfi r
  assume "cfi_step e cpu cie (c, s, off) = Some r" and "(ok, cfi) = r"
  moreover obtain c' s' off' where "cfi = (c', s', off')" by (cases cfi)
  moreover have "unat c' < 2 ^ 64" by (rule u64_less)
  ultimately show "((e, cpu, cie, en, pc, cfi), e, cpu, cie, en, pc, c, s, off) \<in>
      measure (\<lambda>(e, cpu, cie, en, pc, cursor, s, off). 2 ^ 64 - unat cursor)"
    using cfi_step_forward [of e cpu cie c s off ok c' s' off'] by auto
qed simp

declare cfi_loop.simps [simp del]

fun FIRCLSDwarfInstructionsEnumerate ::
  "env \<Rightarrow> ('c, 'z) cpu_scheme \<Rightarrow> DWARFInstructions ptr \<Rightarrow> DWARFCIERecord ptr \<Rightarrow>
   FIRCLSDwarfState ptr \<Rightarrow> s64 \<Rightarrow> (bool \<times> FIRCLSDwarfState ptr) option" where
  "FIRCLSDwarfInstructionsEnumerate e cpu (Some instructions) (Some cie) (Some state) pcOffset =
     do { let cursor = instructions_data instructions;
          limit \<leftarrow> ptr_add cursor (ucast (instructions_length instructions));
          (ok, _, state, _) \<leftarrow> cfi_loop e cpu cie limit pcOffset (cursor, state, 0);
          Some (ok, Some state) }"
| "FIRCLSDwarfInstructionsEnumerate e cpu instructions cie state pcOffset = Some (False, state)"

section \<open>Registers of the caller\<close>

definition FIRCLSDwarfCompareRegisters :: "('c, 'z) cpu_scheme \<Rightarrow> 'c \<Rightarrow> 'c \<Rightarrow> u64 \<Rightarrow> bool" where
  [c_eval]: "FIRCLSDwarfCompareRegisters cpu a b registerNum \<longleftrightarrow>
     dwarf_get cpu a registerNum = dwarf_get cpu b registerNum"

fun FIRCLSDwarfGetCFA ::
  "env \<Rightarrow> ('c, 'z) cpu_scheme \<Rightarrow> FIRCLSDwarfState ptr \<Rightarrow> 'c ptr \<Rightarrow> u64 ptr \<Rightarrow>
   (bool \<times> u64 ptr) option" where
  "FIRCLSDwarfGetCFA e cpu (Some state) (Some registers) (Some cfa) =
     (if cfaExpression state \<noteq> 0
      then do { (ok, cfa) \<leftarrow> FIRCLSDwarfEvalulateExpression e cpu (cfaExpression state)
                  (Some registers) 0 (Some cfa);
                Some (if ok then (True, cfa) else (False, cfa)) }
      else Some (True, Some (dwarf_get cpu registers (cfaRegister state) + cfaRegisterOffset state)))"
| "FIRCLSDwarfGetCFA e cpu state registers cfa = Some (False, cfa)"

definition FIRCLSDwarfGetSavedRegister ::
  "env \<Rightarrow> ('c, 'z) cpu_scheme \<Rightarrow> 'c \<Rightarrow> u64 \<Rightarrow> FIRCLSDwarfRegister \<Rightarrow> u64 option" where
  [c_eval]: "FIRCLSDwarfGetSavedRegister e cpu registers cfa dRegister =
     (case location dRegister of
        FIRCLSDwarfRegisterInCFA \<Rightarrow>
          (case read_word e (cfa + saved_value dRegister) 8 of None \<Rightarrow> Some 0 | Some v \<Rightarrow> Some v)
      | FIRCLSDwarfRegisterInRegister \<Rightarrow> Some (dwarf_get cpu registers (saved_value dRegister))
      | FIRCLSDwarfRegisterOffsetFromCFA \<Rightarrow> Some 0
      | FIRCLSDwarfRegisterAtExpression \<Rightarrow> do {
          (ok, result) \<leftarrow> addr_ofM 0 (FIRCLSDwarfEvalulateExpression e cpu (saved_value dRegister)
                            (Some registers) cfa);
          if \<not> ok then Some 0
          else case read_word e result 8 of None \<Rightarrow> Some 0 | Some v \<Rightarrow> Some v }
      | FIRCLSDwarfRegisterIsExpression \<Rightarrow> do {
          (ok, result) \<leftarrow> addr_ofM 0 (FIRCLSDwarfEvalulateExpression e cpu (saved_value dRegister)
                            (Some registers) cfa);
          if \<not> ok then Some 0 else Some result }
      | FIRCLSDwarfRegisterUnused \<Rightarrow> Some 0)"

text \<open>The loop over the registers with \<open>n\<close> iterations left, at index \<open>i\<close>.\<close>

primrec assign_loop ::
  "nat \<Rightarrow> env \<Rightarrow> ('c, 'z) cpu_scheme \<Rightarrow> FIRCLSDwarfState \<Rightarrow> 'c \<Rightarrow> u64 \<Rightarrow> nat \<Rightarrow> 'c \<Rightarrow>
   (bool \<times> 'c) option" where
  "assign_loop 0 e cpu state registers cfa i new = Some (True, new)"
| "assign_loop (Suc n) e cpu state registers cfa i new =
     (if location (saved_registers state ! i) = FIRCLSDwarfRegisterUnused
      then assign_loop n e cpu state registers cfa (i + 1) new
      else do {
        value \<leftarrow> FIRCLSDwarfGetSavedRegister e cpu registers cfa (saved_registers state ! i);
        let (ok, new) = dwarf_set cpu new (of_nat i) value;
        if \<not> ok then Some (False, new)
        else assign_loop n e cpu state registers cfa (i + 1) new })"

lemma assign_loop_numeral [c_eval]:
  "assign_loop (numeral k) e cpu state registers cfa i new =
     (if location (saved_registers state ! i) = FIRCLSDwarfRegisterUnused
      then assign_loop (pred_numeral k) e cpu state registers cfa (i + 1) new
      else do {
        value \<leftarrow> FIRCLSDwarfGetSavedRegister e cpu registers cfa (saved_registers state ! i);
        let (ok, new) = dwarf_set cpu new (of_nat i) value;
        if \<not> ok then Some (False, new)
        else assign_loop (pred_numeral k) e cpu state registers cfa (i + 1) new })"
  by (simp add: numeral_eq_Suc)

fun FIRCLSDwarfUnwindAssignRegisters ::
  "env \<Rightarrow> ('c, 'z) cpu_scheme \<Rightarrow> FIRCLSDwarfState ptr \<Rightarrow> 'c ptr \<Rightarrow> u64 \<Rightarrow> 'c ptr \<Rightarrow>
   (bool \<times> 'c ptr) option" where
  "FIRCLSDwarfUnwindAssignRegisters e cpu (Some state) (Some registers) cfa output =
     do { (ok, new) \<leftarrow> assign_loop (CLS_DWARF_MAX_REGISTER_NUM cpu + 1) e cpu state registers cfa 0 registers;
          if \<not> ok then Some (False, output)
          else
            let (ok, new) = dwarf_set cpu new (CLS_DWARF_REG_SP cpu) cfa in
            if \<not> ok then Some (False, output)
            else if FIRCLSDwarfCompareRegisters cpu registers new (CLS_DWARF_REG_SP cpu)
            then Some (False, output)
            else if FIRCLSDwarfCompareRegisters cpu registers new (CLS_DWARF_REG_RETURN cpu)
            then Some (False, output)
            else case output of None \<Rightarrow> None | Some _ \<Rightarrow> Some (True, Some new) }"
| "FIRCLSDwarfUnwindAssignRegisters e cpu state registers cfa output = Some (False, output)"

abbreviation INTPTR_MAX :: s64 where "INTPTR_MAX \<equiv> 0x7FFFFFFFFFFFFFFF"

fun FIRCLSDwarfUnwindComputeRegisters ::
  "env \<Rightarrow> ('c, 'z) cpu_scheme \<Rightarrow> FIRCLSDwarfCFIRecord ptr \<Rightarrow> 'c ptr \<Rightarrow> (bool \<times> 'c ptr) option" where
  "FIRCLSDwarfUnwindComputeRegisters e cpu (Some record) (Some registers) =
     do { (ok, state) \<leftarrow> addr_ofM (state_zero cpu) (\<lambda>s. FIRCLSDwarfInstructionsEnumerate e cpu
            (Some (cie_instructions (cfi_cie record))) (Some (cfi_cie record)) s INTPTR_MAX);
          if \<not> ok then Some (False, Some registers)
          else
            let pcOffset = FIRCLSThreadContextGetPC cpu (Some registers) - startAddress (cfi_fde record) in
            if sint pcOffset < 0 then Some (False, Some registers)
            else do {
              (ok, state) \<leftarrow> addr_ofM state (\<lambda>s. FIRCLSDwarfInstructionsEnumerate e cpu
                 (Some (fde_instructions (cfi_fde record))) (Some (cfi_cie record)) s pcOffset);
              if \<not> ok then Some (False, Some registers)
              else do {
                (ok, cfa) \<leftarrow> addr_ofM 0 (FIRCLSDwarfGetCFA e cpu (Some state) (Some registers));
                if \<not> ok then Some (False, Some registers)
                else FIRCLSDwarfUnwindAssignRegisters e cpu (Some state) (Some registers) cfa
                       (Some registers) } } }"
| "FIRCLSDwarfUnwindComputeRegisters e cpu record registers = Some (False, registers)"

lemmas [c_eval] = cfi_loop.simps FIRCLSDwarfInstructionsEnumerate.simps FIRCLSDwarfGetCFA.simps
  FIRCLSDwarfUnwindAssignRegisters.simps FIRCLSDwarfUnwindComputeRegisters.simps addr_ofM_def

section \<open>Well-formed states\<close>

text \<open>
  The register array has its size, the CFA register is one the CPU has (or the invalid number
  that goes with an expression), and registers said to be in other registers name one that exists.
\<close>

definition register_ok :: "('c, 'z) cpu_scheme \<Rightarrow> FIRCLSDwarfRegister \<Rightarrow> bool" where
  "register_ok cpu r \<longleftrightarrow> (location r = FIRCLSDwarfRegisterInRegister \<longrightarrow>
     unat (saved_value r) \<le> CLS_DWARF_MAX_REGISTER_NUM cpu)"

definition cfi_state_ok :: "('c, 'z) cpu_scheme \<Rightarrow> FIRCLSDwarfState \<Rightarrow> bool" where
  "cfi_state_ok cpu s \<longleftrightarrow>
     length (saved_registers s) = CLS_DWARF_MAX_REGISTER_NUM cpu + 1 \<and>
     (unat (cfaRegister s) \<le> CLS_DWARF_MAX_REGISTER_NUM cpu \<or>
      cfaRegister s = CLS_DWARF_INVALID_REGISTER_NUM cpu) \<and>
     list_all (register_ok cpu) (saved_registers s)"

lemma state_zero_ok: "cfi_state_ok cpu (state_zero cpu)"
  by (simp add: cfi_state_ok_def state_zero_def register_ok_def list_all_iff)

lemma list_all_update: "list_all P xs \<Longrightarrow> P x \<Longrightarrow> list_all P (xs[i := x])"
  using set_update_subset_insert [of xs i x] by (auto simp: list_all_iff)

lemma set_register_ok:
  assumes "set_register s n l v = Some s'" and "cfi_state_ok cpu s"
    and "l = FIRCLSDwarfRegisterInRegister \<Longrightarrow> unat v \<le> CLS_DWARF_MAX_REGISTER_NUM cpu"
  shows "cfi_state_ok cpu s'"
  using assms
  by (auto simp: set_register_def cfi_state_ok_def register_ok_def intro!: list_all_update split: if_splits)

lemma set_location_ok:
  assumes "set_location s n FIRCLSDwarfRegisterUnused = Some s'" and "cfi_state_ok cpu s"
  shows "cfi_state_ok cpu s'"
  using assms
  by (auto simp: set_location_def cfi_state_ok_def register_ok_def intro!: list_all_update split: if_splits)

lemma set_register_in_bounds:
  "cfi_state_ok cpu s \<Longrightarrow> unat n \<le> CLS_DWARF_MAX_REGISTER_NUM cpu \<Longrightarrow> set_register s n l v \<noteq> None"
  by (simp add: set_register_def cfi_state_ok_def)

lemma cfa_update_ok:
  "cfi_state_ok cpu s \<Longrightarrow> cfi_state_ok cpu (s\<lparr>cfaRegisterOffset := off\<rparr>)"
  "cfi_state_ok cpu s \<Longrightarrow> \<not> CLS_DWARF_MAX_REGISTER_NUM cpu < unat n \<Longrightarrow> cfi_state_ok cpu (s\<lparr>cfaRegister := n\<rparr>)"
  "cfi_state_ok cpu s \<Longrightarrow> \<not> CLS_DWARF_MAX_REGISTER_NUM cpu < unat n \<Longrightarrow>
     cfi_state_ok cpu (s\<lparr>cfaRegister := n, cfaRegisterOffset := off\<rparr>)"
  "cfi_state_ok cpu s \<Longrightarrow>
     cfi_state_ok cpu (s\<lparr>cfaRegister := CLS_DWARF_INVALID_REGISTER_NUM cpu, cfaExpression := x\<rparr>)"
  by (simp_all add: cfi_state_ok_def)

lemmas state_updates_ok = cfa_update_ok set_register_ok set_location_ok

lemma execute_instruction_ok:
  assumes "execute_instruction e cpu cie i (c, s, off) = Some (ok, c', s', off')"
    and "cfi_state_ok cpu s"
  shows "cfi_state_ok cpu s'"
  using assms unfolding execute_instruction_def cfi_instruction_defs
  by (auto simp: bind_eq_Some_conv Let_def split: if_splits intro: cfa_update_ok
      dest: set_location_ok elim!: set_register_ok)

end
