(* ===== verification/CfiSpec.thy ===== *)
theory CfiSpec
  imports DwarfUnwind Registers EncodedAddress
begin

text \<open>
  What the call frame instruction loop computes: a list of instructions with their encoding and
  their effect, the proof that the loop runs every encoded program as its effects say until the
  code offset reaches the given one, and what the code makes of \<open>DW_CFA_advance_loc\<close>.
\<close>

section \<open>Instructions and their effect\<close>

datatype cfi_instr = Nop | AdvanceLoc u8 | AdvanceLoc1 u8 | AdvanceLoc2 u16 | AdvanceLoc4 u32 | SetLoc u8 s64
  | DefCfa u64 u64 | DefCfaRegister u64 | DefCfaOffset u64 | DefCfaExpression "u8 list"
  | SameValue u64 | InRegister u64 u64 | OffsetFromCfa u8 u64
  | AtExpression u64 "u8 list" | IsExpression u64 "u8 list" | Restore u8 | Unimplemented u8

definition block_bytes :: "u8 list \<Rightarrow> u8 list" where
  "block_bytes bs = uleb_encode (length bs) @ bs"

fun cfi_bytes :: "cfi_instr \<Rightarrow> u8 list" where
  "cfi_bytes Nop = [DW_CFA_nop]"
| "cfi_bytes (AdvanceLoc d) = [DW_CFA_advance_loc OR d]"
| "cfi_bytes (AdvanceLoc1 d) = [DW_CFA_advance_loc1, d]"
| "cfi_bytes (AdvanceLoc2 d) = DW_CFA_advance_loc2 # le_bytes 2 (unat d)"
| "cfi_bytes (AdvanceLoc4 d) = DW_CFA_advance_loc4 # le_bytes 4 (unat d)"
| "cfi_bytes (SetLoc enc v) = DW_CFA_set_loc # address_bytes enc v"
| "cfi_bytes (DefCfa n off) = DW_CFA_def_cfa # uleb_encode (unat n) @ uleb_encode (unat off)"
| "cfi_bytes (DefCfaRegister n) = DW_CFA_def_cfa_register # uleb_encode (unat n)"
| "cfi_bytes (DefCfaOffset off) = DW_CFA_def_cfa_offset # uleb_encode (unat off)"
| "cfi_bytes (DefCfaExpression bs) = DW_CFA_def_cfa_expression # block_bytes bs"
| "cfi_bytes (SameValue n) = DW_CFA_same_value # uleb_encode (unat n)"
| "cfi_bytes (InRegister n m) = DW_CFA_register # uleb_encode (unat n) @ uleb_encode (unat m)"
| "cfi_bytes (OffsetFromCfa n off) = (DW_CFA_offset OR n) # uleb_encode (unat off)"
| "cfi_bytes (AtExpression n bs) = DW_CFA_expression # uleb_encode (unat n) @ block_bytes bs"
| "cfi_bytes (IsExpression n bs) = DW_CFA_val_expression # uleb_encode (unat n) @ block_bytes bs"
| "cfi_bytes (Restore n) = [0xC0 OR n]"
| "cfi_bytes (Unimplemented i) = [i]"

text \<open>
  What can be written so that the readers read it back: numbers in the range of the LEB128 readers,
  operands of six bits, and locations under the pointer encoding of the record.  \<open>Unimplemented\<close> is
  every other byte: an instruction the code names and does not run, and one it does not know.
\<close>

definition implemented_instructions :: "u8 list" where
  "implemented_instructions = [DW_CFA_nop, DW_CFA_set_loc, DW_CFA_advance_loc1, DW_CFA_advance_loc2, DW_CFA_advance_loc4,
     DW_CFA_same_value, DW_CFA_register, DW_CFA_def_cfa, DW_CFA_def_cfa_register, DW_CFA_def_cfa_offset,
     DW_CFA_def_cfa_expression, DW_CFA_expression, DW_CFA_val_expression]"

fun cfi_ok :: "env \<Rightarrow> DWARFCIERecord \<Rightarrow> u64 \<Rightarrow> cfi_instr \<Rightarrow> bool" where
  "cfi_ok e cie p (AdvanceLoc d) = (d < 64)"
| "cfi_ok e cie p (SetLoc enc v) = (enc = pointerEncoding cie \<and> address_ok e (p + 1) enc v)"
| "cfi_ok e cie p (DefCfa n off) = (unat n < 2 ^ 31 \<and> unat off < 2 ^ 31)"
| "cfi_ok e cie p (DefCfaRegister n) = (unat n < 2 ^ 31)"
| "cfi_ok e cie p (DefCfaOffset off) = (unat off < 2 ^ 31)"
| "cfi_ok e cie p (DefCfaExpression bs) = (length bs < 2 ^ 31)"
| "cfi_ok e cie p (SameValue n) = (unat n < 2 ^ 31)"
| "cfi_ok e cie p (InRegister n m) = (unat n < 2 ^ 31 \<and> unat m < 2 ^ 31)"
| "cfi_ok e cie p (OffsetFromCfa n off) = (n < 64 \<and> unat off < 2 ^ 31)"
| "cfi_ok e cie p (AtExpression n bs) = (unat n < 2 ^ 31 \<and> length bs < 2 ^ 31)"
| "cfi_ok e cie p (IsExpression n bs) = (unat n < 2 ^ 31 \<and> length bs < 2 ^ 31)"
| "cfi_ok e cie p (Restore n) = (n < 64)"
| "cfi_ok e cie p (Unimplemented i) = (i AND DW_CFA_OPCODE_MASK = 0 \<and> i \<notin> set implemented_instructions)"
| "cfi_ok e cie p _ = True"

primrec program_ok :: "env \<Rightarrow> DWARFCIERecord \<Rightarrow> u64 \<Rightarrow> cfi_instr list \<Rightarrow> bool" where
  "program_ok e cie p [] \<longleftrightarrow> True"
| "program_ok e cie p (i # is) \<longleftrightarrow> cfi_ok e cie p i \<and> program_ok e cie (p + of_nat (length (cfi_bytes i))) is"

text \<open>
  The effect of the instruction at address \<open>p\<close> on the rules and the code offset: \<open>None\<close> if the
  C code has no defined result, otherwise whether it succeeds and what it leaves.
\<close>

definition valid_register :: "('c, 'z) cpu_scheme \<Rightarrow> u64 \<Rightarrow> bool" where
  "valid_register cpu n \<longleftrightarrow> unat n \<le> CLS_DWARF_MAX_REGISTER_NUM cpu"

fun cfi_effect ::
  "env \<Rightarrow> ('c, 'z) cpu_scheme \<Rightarrow> DWARFCIERecord \<Rightarrow> u64 \<Rightarrow> cfi_instr \<Rightarrow> FIRCLSDwarfState \<times> s64 \<Rightarrow>
   (bool \<times> FIRCLSDwarfState \<times> s64) option" where
  "cfi_effect e cpu cie p Nop (s, off) = Some (True, s, off)"
| "cfi_effect e cpu cie p (AdvanceLoc d) (s, off) =
     map_option (\<lambda>off. (True, s, off)) (smul64 (ucast d) (codeAlignFactor cie))"
| "cfi_effect e cpu cie p (AdvanceLoc1 d) (s, off) =
     map_option (\<lambda>off. (True, s, off)) (sadd64 off (ucast d * codeAlignFactor cie))"
| "cfi_effect e cpu cie p (AdvanceLoc2 d) (s, off) =
     map_option (\<lambda>off. (True, s, off)) (sadd64 off (ucast d * codeAlignFactor cie))"
| "cfi_effect e cpu cie p (AdvanceLoc4 d) (s, off) =
     map_option (\<lambda>off. (True, s, off)) (sadd64 off (ucast d * codeAlignFactor cie))"
| "cfi_effect e cpu cie p (SetLoc enc v) (s, off) =
     map_option (\<lambda>off. (True, s, off)) (encoded_address e (p + 1) enc v)"
| "cfi_effect e cpu cie p (DefCfa n v) (s, off) =
     Some (if valid_register cpu n then (True, s\<lparr>cfaRegister := n, cfaRegisterOffset := v\<rparr>, off)
           else (False, s, off))"
| "cfi_effect e cpu cie p (DefCfaRegister n) (s, off) =
     Some (if valid_register cpu n then (True, s\<lparr>cfaRegister := n\<rparr>, off) else (False, s, off))"
| "cfi_effect e cpu cie p (DefCfaOffset v) (s, off) = Some (True, s\<lparr>cfaRegisterOffset := v\<rparr>, off)"
| "cfi_effect e cpu cie p (DefCfaExpression bs) (s, off) =
     Some (True, s\<lparr>cfaRegister := CLS_DWARF_INVALID_REGISTER_NUM cpu, cfaExpression := p + 1\<rparr>, off)"
| "cfi_effect e cpu cie p (SameValue n) (s, off) =
     (if valid_register cpu n
      then map_option (\<lambda>s. (True, s, off)) (set_location s n FIRCLSDwarfRegisterUnused)
      else Some (False, s, off))"
| "cfi_effect e cpu cie p (InRegister n m) (s, off) =
     (if valid_register cpu n \<and> valid_register cpu m
      then map_option (\<lambda>s. (True, s, off)) (set_register s n FIRCLSDwarfRegisterInRegister m)
      else Some (False, s, off))"
| "cfi_effect e cpu cie p (OffsetFromCfa n v) (s, off) =
     (if valid_register cpu (ucast n)
      then map_option (\<lambda>s. (True, s, off))
             (set_register s (ucast n) FIRCLSDwarfRegisterInCFA (v * dataAlignFactor cie))
      else Some (False, s, off))"
| "cfi_effect e cpu cie p (AtExpression n bs) (s, off) =
     (if valid_register cpu n
      then map_option (\<lambda>s. (True, s, off)) (set_register s n FIRCLSDwarfRegisterAtExpression
             (p + 1 + of_nat (length (uleb_encode (unat n)))))
      else Some (False, s, off))"
| "cfi_effect e cpu cie p (IsExpression n bs) (s, off) =
     (if valid_register cpu n
      then map_option (\<lambda>s. (True, s, off)) (set_register s n FIRCLSDwarfRegisterIsExpression
             (p + 1 + of_nat (length (uleb_encode (unat n)))))
      else Some (False, s, off))"
| "cfi_effect e cpu cie p (Restore n) (s, off) = Some (False, s, off)"
| "cfi_effect e cpu cie p (Unimplemented i) (s, off) = Some (False, s, off)"

fun cfi_run ::
  "env \<Rightarrow> ('c, 'z) cpu_scheme \<Rightarrow> DWARFCIERecord \<Rightarrow> s64 \<Rightarrow> u64 \<Rightarrow> cfi_instr list \<Rightarrow> FIRCLSDwarfState \<times> s64 \<Rightarrow>
   (bool \<times> FIRCLSDwarfState) option" where
  "cfi_run e cpu cie pc p [] (s, off) = Some (True, s)"
| "cfi_run e cpu cie pc p (i # is) (s, off) =
     (if \<not> sint off < sint pc then Some (True, s)
      else case cfi_effect e cpu cie p i (s, off) of
        None \<Rightarrow> None
      | Some (False, s, off) \<Rightarrow> Some (False, s)
      | Some (True, s, off) \<Rightarrow> cfi_run e cpu cie pc (p + of_nat (length (cfi_bytes i))) is (s, off))"

section \<open>One instruction\<close>

definition cfi_outcome ::
  "u64 \<Rightarrow> (bool \<times> FIRCLSDwarfState \<times> s64) option \<Rightarrow> (bool \<times> cfi) option \<Rightarrow> bool" where
  "cfi_outcome p effect a \<longleftrightarrow>
     (case effect of None \<Rightarrow> a = None
      | Some (True, s, off) \<Rightarrow> a = Some (True, p, s, off)
      | Some (False, s, off) \<Rightarrow> (\<exists>c. a = Some (False, c, s, off)))"

lemma operand_bits:
  assumes "(d :: u8) < 64"
  shows "(0x40 OR d) AND 0x3F = d" "(0x40 OR d) AND 0xC0 = 0x40"
    "(0x80 OR d) AND 0x3F = d" "(0x80 OR d) AND 0xC0 = 0x80" "(0xC0 OR d) AND 0xC0 = 0xC0"
proof -
  have "unat d < 64" using assms by (simp add: word_less_nat_alt)
  then have "take_bit 6 d = d" by (simp add: word_unat_eq_iff unsigned_take_bit_eq take_bit_nat_eq_self)
  moreover have "(0x3F :: u8) = mask 6" by (simp add: mask_eq_exp_minus_1)
  ultimately have d: "d AND 0x3F = d" by (simp only: take_bit_eq_mask)
  then have "d AND 0xC0 = (d AND 0x3F) AND 0xC0" by simp
  then have "d AND 0xC0 = 0" by (simp only: and.assoc) simp
  with d show "(0x40 OR d) AND 0x3F = d" "(0x40 OR d) AND 0xC0 = 0x40"
    "(0x80 OR d) AND 0x3F = d" "(0x80 OR d) AND 0xC0 = 0x80" "(0xC0 OR d) AND 0xC0 = 0xC0"
    by (simp_all add: bit.conj_disj_distrib2)
qed

lemma dispatch_operand:
  "i AND DW_CFA_OPCODE_MASK \<noteq> 0 \<Longrightarrow> execute_instruction e cpu cie i cfi =
     FIRCLSDwarfParseAndExecuteInstructionWithOperand e cpu cie i cfi"
  by (auto simp: execute_instruction_def unimplemented_instructions_def)

lemma dispatch_cfi:
  "execute_instruction e cpu cie DW_CFA_nop cfi = Some (True, cfi)"
  "execute_instruction e cpu cie DW_CFA_set_loc cfi = FIRCLSDwarfParseAndExecute_set_loc e cie cfi"
  "execute_instruction e cpu cie DW_CFA_advance_loc1 cfi = FIRCLSDwarfParseAndExecute_advance_loc1 e cie cfi"
  "execute_instruction e cpu cie DW_CFA_advance_loc2 cfi = FIRCLSDwarfParseAndExecute_advance_loc2 e cie cfi"
  "execute_instruction e cpu cie DW_CFA_advance_loc4 cfi = FIRCLSDwarfParseAndExecute_advance_loc4 e cie cfi"
  "execute_instruction e cpu cie DW_CFA_def_cfa cfi = FIRCLSDwarfParseAndExecute_def_cfa e cpu cfi"
  "execute_instruction e cpu cie DW_CFA_def_cfa_register cfi =
     FIRCLSDwarfParseAndExecute_def_cfa_register e cpu cfi"
  "execute_instruction e cpu cie DW_CFA_def_cfa_offset cfi = FIRCLSDwarfParseAndExecute_def_cfa_offset e cfi"
  "execute_instruction e cpu cie DW_CFA_def_cfa_expression cfi =
     FIRCLSDwarfParseAndExecute_def_cfa_expression e cpu cfi"
  "execute_instruction e cpu cie DW_CFA_same_value cfi = FIRCLSDwarfParseAndExecute_same_value e cpu cfi"
  "execute_instruction e cpu cie DW_CFA_register cfi = FIRCLSDwarfParseAndExecute_register e cpu cfi"
  "execute_instruction e cpu cie DW_CFA_expression cfi = FIRCLSDwarfParseAndExecute_expression e cpu cfi"
  "execute_instruction e cpu cie DW_CFA_val_expression cfi =
     FIRCLSDwarfParseAndExecute_val_expression e cpu cfi"
  "d < 64 \<Longrightarrow> execute_instruction e cpu cie (DW_CFA_advance_loc OR d) cfi =
     FIRCLSDwarfParseAndExecute_advance_loc cie d cfi"
  "d < 64 \<Longrightarrow> execute_instruction e cpu cie (DW_CFA_offset OR d) cfi =
     FIRCLSDwarfParseAndExecute_offset e cpu cie d cfi"
  "d < 64 \<Longrightarrow> execute_instruction e cpu cie (0xC0 OR d) cfi = Some (False, cfi)"
  by (simp_all add: dispatch_operand operand_bits FIRCLSDwarfParseAndExecuteInstructionWithOperand_def)
    (simp_all add: execute_instruction_def unimplemented_instructions_def)

lemma dispatch_unimplemented:
  "i AND DW_CFA_OPCODE_MASK = 0 \<Longrightarrow> i \<notin> set implemented_instructions \<Longrightarrow>
   execute_instruction e cpu cie i cfi = Some (False, cfi)"
  by (simp add: execute_instruction_def implemented_instructions_def FIRCLSDwarfParseAndExecuteInstructionWithOperand_def)

text \<open>Reading the operands: one or two unsigned numbers, or a block.\<close>

lemma read_uleb:
  assumes "mem_has e p (uleb_encode (unat n) @ rest)" and "unat n < 2 ^ 31"
  shows "FIRCLSParseULEB128AndAdvance e p = Some (n, p + of_nat (length (uleb_encode (unat n))))"
    and "mem_has e (p + of_nat (length (uleb_encode (unat n)))) rest"
  using uleb.parse_append [OF assms(2,1)] by simp_all

lemma read_block:
  assumes "mem_has e p (block_bytes bs)" and "length bs < 2 ^ 31"
  shows "\<exists>q. FIRCLSParseULEB128AndAdvance e p = Some (of_nat (length bs), q) \<and>
    ptr_add q (of_nat (length bs)) = Some (p + of_nat (length (block_bytes bs)))"
proof -
  let ?n = "of_nat (length bs) :: u64"
  have n: "unat ?n = length bs" using assms(2) by simp
  have m: "mem_has e p (uleb_encode (unat ?n) @ bs)" using assms(1) n by (simp only: block_bytes_def)
  have "FIRCLSParseULEB128AndAdvance e p = Some (?n, p + of_nat (length (uleb_encode (length bs))))"
    and "mem_has e (p + of_nat (length (uleb_encode (length bs)))) bs"
    using read_uleb [OF m] assms(2) n by simp_all
  then show ?thesis
    using mem_has_ptr_add by (auto simp: block_bytes_def add.assoc)
qed

text \<open>The outcome of the step at \<open>p\<close>, once the instruction byte is read.\<close>

lemma cfi_step_read:
  assumes "mem_has e p (cfi_bytes i)" and "cfi_bytes i = b # bs"
    and "mem_has e (p + 1) bs \<Longrightarrow>
      cfi_outcome (p + 1 + of_nat (length bs)) (cfi_effect e cpu cie p i (s, off))
        (execute_instruction e cpu cie b (p + 1, s, off))"
  shows "cfi_outcome (p + of_nat (length (cfi_bytes i))) (cfi_effect e cpu cie p i (s, off))
    (cfi_step e cpu cie (p, s, off))"
proof -
  have "FIRCLSParseUint8AndAdvance e p = Some (b, p + 1)" "mem_has e (p + 1) bs"
    using assms(1,2) parse_u8 [of e p b bs] by simp_all
  then show ?thesis using assms(2,3) by (simp add: cfi_step_def add.assoc)
qed

lemma cfi_outcome_simps:
  "cfi_outcome q None None"
  "cfi_outcome q (Some (True, s, off)) (Some (True, q, s, off))"
  "cfi_outcome q (Some (False, s, off)) (Some (False, c, s, off))"
  "cfi_outcome q (map_option (\<lambda>off. (True, s, off)) m) (do { off \<leftarrow> m; Some (True, q, s, off) })"
  "cfi_outcome q (map_option (\<lambda>s. (True, s, off)) m') (do { s \<leftarrow> m'; Some (True, q, s, off) })"
  by (simp_all add: cfi_outcome_def split: option.split Option.bind_split)

lemma exec_advance:
  assumes "mem_has e p (cfi_bytes i)" and "cfi_ok e cie p i"
    and "i = Nop \<or> (\<exists>d. i = AdvanceLoc d) \<or> (\<exists>d. i = AdvanceLoc1 d) \<or> (\<exists>d. i = AdvanceLoc2 d) \<or>
         (\<exists>d. i = AdvanceLoc4 d) \<or> (\<exists>d. i = Restore d) \<or> (\<exists>d. i = Unimplemented d)"
  shows "cfi_outcome (p + of_nat (length (cfi_bytes i))) (cfi_effect e cpu cie p i (s, off))
    (cfi_step e cpu cie (p, s, off))"
proof -
  obtain b bs where bs: "cfi_bytes i = b # bs" by (cases i) auto
  show ?thesis
  proof (rule cfi_step_read [OF assms(1) bs])
    assume m: "mem_has e (p + 1) bs"
    show "cfi_outcome (p + 1 + of_nat (length bs)) (cfi_effect e cpu cie p i (s, off))
        (execute_instruction e cpu cie b (p + 1, s, off))"
      using assms(2,3) bs m parse_u8 [of e "p + 1" _ "[]"] u16r.parse_encode [of e "p + 1"]
        u32r.parse_encode [of e "p + 1"]
      by (elim disjE exE)
        (auto simp: dispatch_cfi dispatch_unimplemented cfi_instruction_defs cfi_outcome_simps)
  qed
qed

lemma read_uleb_end:
  "mem_has e p (uleb_encode (unat n)) \<Longrightarrow> unat n < 2 ^ 31 \<Longrightarrow>
   FIRCLSParseULEB128AndAdvance e p = Some (n, p + of_nat (length (uleb_encode (unat n))))"
  by (rule uleb.parse_encode)

lemma read_uleb_uleb:
  assumes "mem_has e p (uleb_encode (unat n) @ uleb_encode (unat m))" "unat n < 2 ^ 31" "unat m < 2 ^ 31"
  obtains q where "FIRCLSParseULEB128AndAdvance e p = Some (n, q)"
    "FIRCLSParseULEB128AndAdvance e q =
       Some (m, p + of_nat (length (uleb_encode (unat n) @ uleb_encode (unat m))))"
  using that [of "p + of_nat (length (uleb_encode (unat n)))"] read_uleb [OF assms(1,2)]
    read_uleb_end [OF _ assms(3)] by (simp add: add.assoc)

lemma read_uleb_block:
  assumes "mem_has e p (uleb_encode (unat n) @ block_bytes bs)" "unat n < 2 ^ 31" "length bs < 2 ^ 31"
  obtains q r where "FIRCLSParseULEB128AndAdvance e p = Some (n, q)"
    "q = p + of_nat (length (uleb_encode (unat n)))"
    "FIRCLSParseULEB128AndAdvance e q = Some (of_nat (length bs), r)"
    "ptr_add r (of_nat (length bs)) = Some (p + of_nat (length (uleb_encode (unat n) @ block_bytes bs)))"
proof -
  let ?q = "p + of_nat (length (uleb_encode (unat n)))"
  obtain r where "FIRCLSParseULEB128AndAdvance e ?q = Some (of_nat (length bs), r)"
    "ptr_add r (of_nat (length bs)) = Some (?q + of_nat (length (block_bytes bs)))"
    using read_block [OF read_uleb(2) [OF assms(1,2)] assms(3)] by blast
  then show ?thesis
    using that [of ?q r] read_uleb(1) [OF assms(1,2)] by (simp add: add.assoc)
qed

definition cfi_simulated ::
  "env \<Rightarrow> ('c, 'z) cpu_scheme \<Rightarrow> DWARFCIERecord \<Rightarrow> u64 \<Rightarrow> cfi_instr \<Rightarrow> FIRCLSDwarfState \<Rightarrow> s64 \<Rightarrow> bool" where
  "cfi_simulated e cpu cie p i s off \<longleftrightarrow>
     cfi_outcome (p + of_nat (length (cfi_bytes i))) (cfi_effect e cpu cie p i (s, off))
       (cfi_step e cpu cie (p, s, off))"

lemmas cfi_exec_simps = dispatch_cfi cfi_instruction_defs cfi_outcome_simps valid_register_def

lemma exec_one_number:
  assumes "mem_has e p (cfi_bytes i)" and "unat n < 2 ^ 31"
    and "i = DefCfaRegister n \<or> i = DefCfaOffset n \<or> i = SameValue n \<or> (i = OffsetFromCfa r n \<and> r < 64)"
  shows "cfi_simulated e cpu cie p i s off"
proof -
  obtain b where bs: "cfi_bytes i = b # uleb_encode (unat n)" using assms(3) by auto
  show ?thesis unfolding cfi_simulated_def
  proof (rule cfi_step_read [OF assms(1) bs])
    assume m: "mem_has e (p + 1) (uleb_encode (unat n))"
    show "cfi_outcome (p + 1 + of_nat (length (uleb_encode (unat n)))) (cfi_effect e cpu cie p i (s, off))
        (execute_instruction e cpu cie b (p + 1, s, off))"
      using assms(3) bs read_uleb_end [OF m assms(2)]
      by (auto simp: cfi_exec_simps)
  qed
qed

lemma exec_two_numbers:
  assumes "mem_has e p (cfi_bytes i)" and "unat n < 2 ^ 31" and "unat v < 2 ^ 31"
    and "i = DefCfa n v \<or> i = InRegister n v"
  shows "cfi_simulated e cpu cie p i s off"
proof -
  let ?bs = "uleb_encode (unat n) @ uleb_encode (unat v)"
  obtain b where bs: "cfi_bytes i = b # ?bs" using assms(4) by auto
  show ?thesis unfolding cfi_simulated_def
  proof (rule cfi_step_read [OF assms(1) bs])
    assume m: "mem_has e (p + 1) ?bs"
    obtain q where "FIRCLSParseULEB128AndAdvance e (p + 1) = Some (n, q)"
      "FIRCLSParseULEB128AndAdvance e q = Some (v, p + 1 + of_nat (length ?bs))"
      by (rule read_uleb_uleb [OF m assms(2,3)])
    then show "cfi_outcome (p + 1 + of_nat (length ?bs)) (cfi_effect e cpu cie p i (s, off))
        (execute_instruction e cpu cie b (p + 1, s, off))"
      using assms(4) bs
      by (auto simp: cfi_exec_simps)
  qed
qed

lemma exec_number_block:
  assumes "mem_has e p (cfi_bytes i)" and "unat n < 2 ^ 31" and "length v < 2 ^ 31"
    and "i = AtExpression n v \<or> i = IsExpression n v"
  shows "cfi_simulated e cpu cie p i s off"
proof -
  let ?bs = "uleb_encode (unat n) @ block_bytes v"
  obtain b where bs: "cfi_bytes i = b # ?bs" using assms(4) by auto
  show ?thesis unfolding cfi_simulated_def
  proof (rule cfi_step_read [OF assms(1) bs])
    assume m: "mem_has e (p + 1) ?bs"
    obtain q r where "FIRCLSParseULEB128AndAdvance e (p + 1) = Some (n, q)"
      "q = p + 1 + of_nat (length (uleb_encode (unat n)))"
      "FIRCLSParseULEB128AndAdvance e q = Some (of_nat (length v), r)"
      "ptr_add r (of_nat (length v)) = Some (p + 1 + of_nat (length ?bs))"
      by (rule read_uleb_block [OF m assms(2,3)])
    then show "cfi_outcome (p + 1 + of_nat (length ?bs)) (cfi_effect e cpu cie p i (s, off))
        (execute_instruction e cpu cie b (p + 1, s, off))"
      using assms(4) bs
      by (auto simp: cfi_exec_simps)
  qed
qed

lemma exec_block:
  assumes "mem_has e p (cfi_bytes (DefCfaExpression v))" and "length v < 2 ^ 31"
  shows "cfi_simulated e cpu cie p (DefCfaExpression v) s off"
  unfolding cfi_simulated_def
proof (rule cfi_step_read [OF assms(1) cfi_bytes.simps(10)])
  assume m: "mem_has e (p + 1) (block_bytes v)"
  show "cfi_outcome (p + 1 + of_nat (length (block_bytes v)))
      (cfi_effect e cpu cie p (DefCfaExpression v) (s, off))
      (execute_instruction e cpu cie DW_CFA_def_cfa_expression (p + 1, s, off))"
    using read_block [OF m assms(2)] by (auto simp: cfi_exec_simps)
qed

lemma exec_set_loc:
  assumes "mem_has e p (cfi_bytes (SetLoc enc v))" and "cfi_ok e cie p (SetLoc enc v)"
  shows "cfi_simulated e cpu cie p (SetLoc enc v) s off"
  unfolding cfi_simulated_def
proof (rule cfi_step_read [OF assms(1) cfi_bytes.simps(6)])
  assume m: "mem_has e (p + 1) (address_bytes enc v)"
  have "unat p + 1 < 2 ^ 64" using mem_has_bound [OF assms(1)] by simp
  from unat_plus_1 [OF this] have "p + 1 \<noteq> 0" by auto
  with address_round_trip [of e "p + 1" enc v "[]"] m assms(2) obtain a where
    "encoded_address e (p + 1) enc v = Some a"
    "FIRCLSParseAddressWithEncodingAndAdvance e (Some (p + 1)) (pointerEncoding cie) =
       Some (a, Some (p + 1 + of_nat (length (address_bytes enc v))))" by auto
  then show "cfi_outcome (p + 1 + of_nat (length (address_bytes enc v)))
      (cfi_effect e cpu cie p (SetLoc enc v) (s, off)) (execute_instruction e cpu cie DW_CFA_set_loc (p + 1, s, off))"
    by (simp add: dispatch_cfi FIRCLSDwarfParseAndExecute_set_loc_def addr_ofM_def cfi_outcome_simps)
qed

lemma exec_cfi:
  assumes "mem_has e p (cfi_bytes i)" and "cfi_ok e cie p i"
  shows "cfi_simulated e cpu cie p i s off"
proof -
  note two = exec_two_numbers [OF assms(1)] and one = exec_one_number [OF assms(1)]
    and block = exec_number_block [OF assms(1)] and advance = exec_advance [OF assms, folded cfi_simulated_def]
  show ?thesis
  proof (cases i)
    case (SetLoc enc v)
    from exec_set_loc [OF assms [unfolded this]] show ?thesis by (simp only: SetLoc)
  next
    case (DefCfaExpression bs)
    then show ?thesis using assms exec_block by simp
  next
    case (OffsetFromCfa n v)
    then show ?thesis using assms(2) by (intro one [of v n]) simp_all
  next
    case (DefCfaRegister n)
    then show ?thesis using assms(2) by (intro one [of n 0]) simp_all
  next
    case (DefCfaOffset n)
    then show ?thesis using assms(2) by (intro one [of n 0]) simp_all
  next
    case (SameValue n)
    then show ?thesis using assms(2) by (intro one [of n 0]) simp_all
  next
    case (DefCfa n v)
    then show ?thesis using assms(2) by (intro two [of n v]) simp_all
  next
    case (InRegister n v)
    then show ?thesis using assms(2) by (intro two [of n v]) simp_all
  next
    case (AtExpression n bs)
    then show ?thesis using assms(2) by (intro block [of n bs]) simp_all
  next
    case (IsExpression n bs)
    then show ?thesis using assms(2) by (intro block [of n bs]) simp_all
  qed (rule advance; blast)+
qed


section \<open>Programs\<close>

lemma cfi_loop_run:
  assumes "mem_has e p (concat (map cfi_bytes is))" and "program_ok e cie p is"
    and "en = p + of_nat (length (concat (map cfi_bytes is)))"
  shows "map_option (\<lambda>(ok, c, s, off). (ok, s)) (cfi_loop e cpu cie en pc (p, s, off)) =
    cfi_run e cpu cie pc p is (s, off)"
  using assms
proof (induction "is" arbitrary: p s off)
  case Nil
  then show ?case by (subst cfi_loop.simps) simp
next
  case (Cons i "is")
  let ?rest = "concat (map cfi_bytes is)"
  let ?p = "p + of_nat (length (cfi_bytes i))"
  have mem: "mem_has e p (cfi_bytes i)" "mem_has e ?p ?rest"
    using Cons.prems(1) by (simp_all add: mem_has_append)
  have "cfi_bytes i \<noteq> []" by (cases i) simp_all
  moreover have "unat p + length (concat (map cfi_bytes (i # is))) < 2 ^ 64"
    by (rule mem_has_bound [OF Cons.prems(1)])
  ultimately have "p < en"
    unfolding Cons.prems(3) by (simp add: word_less_nat_alt unat_word_ariths)
  then have loop: "cfi_loop e cpu cie en pc (p, s, off) =
      (if sint off < sint pc
       then do { (success, cfi) \<leftarrow> cfi_step e cpu cie (p, s, off);
                 if success then cfi_loop e cpu cie en pc cfi else Some (False, cfi) }
       else Some (True, p, s, off))"
    by (subst cfi_loop.simps) simp
  have sim: "cfi_outcome ?p (cfi_effect e cpu cie p i (s, off)) (cfi_step e cpu cie (p, s, off))"
    using exec_cfi [OF mem(1), of cie cpu s off] Cons.prems(2) by (simp add: cfi_simulated_def)
  have IH: "map_option (\<lambda>(ok, c, s, off). (ok, s)) (cfi_loop e cpu cie en pc (?p, s', off')) =
      cfi_run e cpu cie pc ?p is (s', off')" for s' off'
    using Cons.prems(2,3) by (intro Cons.IH [OF mem(2)]) (simp_all add: add.assoc)
  show ?case
  proof (cases "sint off < sint pc")
    case False
    then show ?thesis unfolding loop by simp
  next
    case True
    obtain ok s' off' where "cfi_effect e cpu cie p i (s, off) = None \<or>
        cfi_effect e cpu cie p i (s, off) = Some (ok, s', off')"
      by (metis option.exhaust prod.exhaust)
    then show ?thesis
      using True sim IH unfolding loop by (cases ok) (auto simp: cfi_outcome_def ex_bool_eq)
  qed
qed

lemma cfi_enumerate:
  assumes "mem_has e p (concat (map cfi_bytes is))" and "program_ok e cie p is"
    and "length (concat (map cfi_bytes is)) < 2 ^ 32"
  shows "FIRCLSDwarfInstructionsEnumerate e cpu
      (Some \<lparr>instructions_length = of_nat (length (concat (map cfi_bytes is))), instructions_data = p\<rparr>)
      (Some cie) (Some s) pc =
    map_option (\<lambda>(ok, s). (ok, Some s)) (cfi_run e cpu cie pc p is (s, 0))"
proof -
  let ?n = "length (concat (map cfi_bytes is))"
  have "(ucast (of_nat ?n :: u32) :: u64) = of_nat ?n"
    using assms(3) by (simp only: word_unat_eq_iff unat_ucast_32_64 unat_of_nat32) (simp add: less_trans)
  moreover have "ptr_add p (of_nat ?n) = Some (p + of_nat ?n)"
    by (rule mem_has_ptr_add [OF assms(1)])
  ultimately have "FIRCLSDwarfInstructionsEnumerate e cpu
      (Some \<lparr>instructions_length = of_nat ?n, instructions_data = p\<rparr>) (Some cie) (Some s) pc =
    map_option (\<lambda>(ok, s). (ok, Some s)) (map_option (\<lambda>(ok, c, s, off). (ok, s))
      (cfi_loop e cpu cie (p + of_nat ?n) pc (p, s, 0)))"
    by (cases "cfi_loop e cpu cie (p + of_nat ?n) pc (p, s, 0)") (auto simp: option.map_comp)
  also have "\<dots> = map_option (\<lambda>(ok, s). (ok, Some s)) (cfi_run e cpu cie pc p is (s, 0))"
    by (subst cfi_loop_run [OF assms(1,2) refl]) (rule refl)
  finally show ?thesis .
qed

lemma advance_eval:
  fixes d d' :: u8
  shows "smul64 (ucast d) 1 = Some (ucast d)" "sadd64 0 (ucast d) = Some (ucast d)"
    "sadd64 (ucast d) (ucast d') = Some (ucast d + ucast d')"
    "sint (ucast d + ucast d' :: u64) = int (unat d) + int (unat d')"
proof -
  have d: "int (unat d) < 256" "int (unat d') < 256"
    using u8_less_256 [of d] u8_less_256 [of d'] by linarith+
  then show "smul64 (ucast d) 1 = Some (ucast d)" "sadd64 0 (ucast d) = Some (ucast d)"
    "sadd64 (ucast d) (ucast d') = Some (ucast d + ucast d')"
    by (simp_all add: smul64_def sadd64_def in_s64_def del: of_nat_unat)
  have u: "unat (ucast d + ucast d' :: u64) = unat d + unat d'"
    using u8_less_256 [of d] u8_less_256 [of d'] by (simp add: unat_word_ariths)
  show "sint (ucast d + ucast d' :: u64) = int (unat d) + int (unat d')"
    using u8_less_256 [of d] u8_less_256 [of d'] u by (subst sint_small) simp_all
qed

lemma program_length:
  assumes "unat a < 2 ^ 31" and "unat b < 2 ^ 31"
    and "length (cfi_bytes i) \<le> 2" and "length (cfi_bytes j) \<le> 2"
  shows "length (concat (map cfi_bytes [i, DefCfaOffset a, j, DefCfaOffset b])) < 2 ^ 32"
proof -
  have "length (uleb_encode (unat a)) \<le> 5" "length (uleb_encode (unat b)) \<le> 5"
    using assms(1,2) by (simp_all add: uleb_encode_length)
  with assms(3,4) show ?thesis by simp
qed

text \<open>
  \<open>DW_CFA_advance_loc\<close> sets the code offset instead of adding to it.  Two programs that say
  the same to a DWARF reader, CFA offset \<open>a\<close> from location \<open>d1\<close> on and \<open>b\<close> from \<open>d1 + d2\<close> on, are
  run differently: for a location after \<open>d1\<close> and not after \<open>d1 + d2\<close>, the code gives the rule
  \<open>a\<close> when the locations advance with \<open>DW_CFA_advance_loc1\<close>, and the rule \<open>b\<close> of the later
  location when they advance with \<open>DW_CFA_advance_loc\<close>, if \<open>d2\<close> alone is before it.
\<close>
theorem advance_loc_forgets_offset:
  assumes "mem_has e p (concat (map cfi_bytes [AdvanceLoc d1, DefCfaOffset a, AdvanceLoc d2, DefCfaOffset b]))"
    and "mem_has e q (concat (map cfi_bytes [AdvanceLoc1 d1, DefCfaOffset a, AdvanceLoc1 d2, DefCfaOffset b]))"
    and "d1 < 64" and "d2 < 64" and "unat a < 2 ^ 31" and "unat b < 2 ^ 31" and "codeAlignFactor cie = 1"
    and "int (unat d1) < sint pc" and "int (unat d2) < sint pc" and "sint pc \<le> int (unat d1) + int (unat d2)"
  shows "FIRCLSDwarfInstructionsEnumerate e cpu
      (Some \<lparr>instructions_length = of_nat (length (concat (map cfi_bytes
         [AdvanceLoc d1, DefCfaOffset a, AdvanceLoc d2, DefCfaOffset b]))), instructions_data = p\<rparr>)
      (Some cie) (Some s) pc = Some (True, Some (s\<lparr>cfaRegisterOffset := b\<rparr>)) \<and>
    FIRCLSDwarfInstructionsEnumerate e cpu
      (Some \<lparr>instructions_length = of_nat (length (concat (map cfi_bytes
         [AdvanceLoc1 d1, DefCfaOffset a, AdvanceLoc1 d2, DefCfaOffset b]))), instructions_data = q\<rparr>)
      (Some cie) (Some s) pc = Some (True, Some (s\<lparr>cfaRegisterOffset := a\<rparr>))"
proof
  have pc: "0 < sint pc" using assms(8) by linarith
  show "FIRCLSDwarfInstructionsEnumerate e cpu
      (Some \<lparr>instructions_length = of_nat (length (concat (map cfi_bytes
         [AdvanceLoc d1, DefCfaOffset a, AdvanceLoc d2, DefCfaOffset b]))), instructions_data = p\<rparr>)
      (Some cie) (Some s) pc = Some (True, Some (s\<lparr>cfaRegisterOffset := b\<rparr>))"
    by (subst cfi_enumerate [OF assms(1) _ program_length [OF assms(5,6)]])
      (use assms(3-9) pc in \<open>simp_all add: advance_eval\<close>)
  show "FIRCLSDwarfInstructionsEnumerate e cpu
      (Some \<lparr>instructions_length = of_nat (length (concat (map cfi_bytes
         [AdvanceLoc1 d1, DefCfaOffset a, AdvanceLoc1 d2, DefCfaOffset b]))), instructions_data = q\<rparr>)
      (Some cie) (Some s) pc = Some (True, Some (s\<lparr>cfaRegisterOffset := a\<rparr>))"
    by (subst cfi_enumerate [OF assms(2) _ program_length [OF assms(5,6)]])
      (use assms(5-10) pc in \<open>simp_all add: advance_eval\<close>)
qed

theorem advance_loc_forgets_offset_witness:
  "FIRCLSDwarfInstructionsEnumerate (flat_env 0x1000 ([0x44, 0x0E, 16, 0x44, 0x0E, 24] @
      [2, 4, 0x0E, 16, 2, 4, 0x0E, 24])) x86_64_cpu
     (Some \<lparr>instructions_length = 6, instructions_data = 0x1000\<rparr>)
     (Some (cie_zero\<lparr>codeAlignFactor := 1\<rparr>)) (Some (state_zero x86_64_cpu)) 6 =
     Some (True, Some (state_zero x86_64_cpu\<lparr>cfaRegisterOffset := 24\<rparr>)) \<and>
   FIRCLSDwarfInstructionsEnumerate (flat_env 0x1000 ([0x44, 0x0E, 16, 0x44, 0x0E, 24] @
      [2, 4, 0x0E, 16, 2, 4, 0x0E, 24])) x86_64_cpu
     (Some \<lparr>instructions_length = 8, instructions_data = 0x1006\<rparr>)
     (Some (cie_zero\<lparr>codeAlignFactor := 1\<rparr>)) (Some (state_zero x86_64_cpu)) 6 =
     Some (True, Some (state_zero x86_64_cpu\<lparr>cfaRegisterOffset := 16\<rparr>))"
  using advance_loc_forgets_offset [of "flat_env 0x1000 ([0x44, 0x0E, 16, 0x44, 0x0E, 24] @
      [2, 4, 0x0E, 16, 2, 4, 0x0E, 24])" "0x1000" 4 16 4 24 "0x1006"
      "cie_zero\<lparr>codeAlignFactor := 1\<rparr>" 6 x86_64_cpu "state_zero x86_64_cpu"]
  by (simp add: uleb_encode.simps mem_flat_env cie_zero_def)

end
