(* ===== verification/CfiRules.thy ===== *)
theory CfiRules
  imports CfiSpec
begin

text \<open>
  The rules a program of call frame instructions leaves, told without running it: which of the
  instructions apply to a location, and for each register, for the register and the offset of the CFA
  and for its expression, the last of them that speaks of it.
\<close>

section \<open>What a program says\<close>

text \<open>The instructions of a program with their addresses.\<close>

type_synonym placed_instr = "u64 \<times> cfi_instr"






fun cfa_register_of :: "('c, 'z) cpu_scheme \<Rightarrow> placed_instr \<Rightarrow> u64 option" where
  "cfa_register_of cpu (p, DefCfa n v) = Some n"
| "cfa_register_of cpu (p, DefCfaRegister n) = Some n"
| "cfa_register_of cpu (p, DefCfaExpression bs) = Some (CLS_DWARF_INVALID_REGISTER_NUM cpu)"
| "cfa_register_of cpu _ = None"

fun cfa_offset_of :: "placed_instr \<Rightarrow> s64 option" where
  "cfa_offset_of (p, DefCfa n v) = Some v"
| "cfa_offset_of (p, DefCfaOffset v) = Some v"
| "cfa_offset_of _ = None"

fun cfa_expression_of :: "placed_instr \<Rightarrow> u64 option" where
  "cfa_expression_of (p, DefCfaExpression bs) = Some (p + 1)"
| "cfa_expression_of _ = None"

fun register_rule_of :: "DWARFCIERecord \<Rightarrow> placed_instr \<Rightarrow> (nat \<times> FIRCLSDwarfRegister) option" where
  "register_rule_of cie (p, SameValue n) = Some (unat n, \<lparr>location = FIRCLSDwarfRegisterUnused, saved_value = 0\<rparr>)"
| "register_rule_of cie (p, InRegister n m) = Some (unat n, \<lparr>location = FIRCLSDwarfRegisterInRegister, saved_value = m\<rparr>)"
| "register_rule_of cie (p, OffsetFromCfa n v) =
     Some (unat n, \<lparr>location = FIRCLSDwarfRegisterInCFA, saved_value = v * dataAlignFactor cie\<rparr>)"
| "register_rule_of cie (p, AtExpression n bs) = Some (unat n,
     \<lparr>location = FIRCLSDwarfRegisterAtExpression, saved_value = p + 1 + of_nat (length (uleb_encode (unat n)))\<rparr>)"
| "register_rule_of cie (p, IsExpression n bs) = Some (unat n,
     \<lparr>location = FIRCLSDwarfRegisterIsExpression, saved_value = p + 1 + of_nat (length (uleb_encode (unat n)))\<rparr>)"
| "register_rule_of cie _ = None"

text \<open>Two rules are the same when they agree on where the register is, and on the value if there is one.\<close>

definition same_rule :: "FIRCLSDwarfRegister \<Rightarrow> FIRCLSDwarfRegister \<Rightarrow> bool" where
  "same_rule a b \<longleftrightarrow> location a = location b \<and> (location a \<noteq> FIRCLSDwarfRegisterUnused \<longrightarrow> saved_value a = saved_value b)"

definition last_of :: "('a \<Rightarrow> 'b option) \<Rightarrow> 'b \<Rightarrow> 'a list \<Rightarrow> 'b" where
  "last_of f d xs = last (d # List.map_filter f xs)"

definition last_rule :: "DWARFCIERecord \<Rightarrow> placed_instr list \<Rightarrow> nat \<Rightarrow> FIRCLSDwarfRegister \<Rightarrow> FIRCLSDwarfRegister" where
  "last_rule cie xs n d = (case map_of (rev (List.map_filter (register_rule_of cie) xs)) n of None \<Rightarrow> d | Some r \<Rightarrow> r)"

definition rules_after ::
  "('c, 'z) cpu_scheme \<Rightarrow> DWARFCIERecord \<Rightarrow> placed_instr list \<Rightarrow> FIRCLSDwarfState \<Rightarrow> FIRCLSDwarfState \<Rightarrow> bool" where
  "rules_after cpu cie xs s s' \<longleftrightarrow>
     cfaRegister s' = last_of (cfa_register_of cpu) (cfaRegister s) xs \<and>
     cfaRegisterOffset s' = last_of cfa_offset_of (cfaRegisterOffset s) xs \<and>
     cfaExpression s' = last_of cfa_expression_of (cfaExpression s) xs \<and>
     length (saved_registers s') = length (saved_registers s) \<and>
     (\<forall>n < length (saved_registers s). same_rule (saved_registers s' ! n) (last_rule cie xs n (saved_registers s ! n)))"

section \<open>Composition\<close>

lemma same_rule_refl [simp]: "same_rule r r"
  by (simp add: same_rule_def)


lemma last_of_Nil [simp]: "last_of f d [] = d"
  by (simp add: last_of_def)


lemma last_rule_Nil [simp]: "last_rule cie [] n d = d"
  by (simp add: last_rule_def)



lemma rules_after_Nil [simp]: "rules_after cpu cie [] s s"
  by (simp add: rules_after_def)



section \<open>One instruction\<close>







section \<open>Programs\<close>




end
