(* ===== verification/CompactUnwind.thy ===== *)
theory CompactUnwind
  imports DwarfUnwind
begin

text \<open>
  \<open>Crashlytics/Unwind/Compact/FIRCLSCompactUnwind.c\<close>: the two-level search of the unwind table
  that the linker writes.  The layout of the table and its constants come from the SDK's
  \<open>mach-o/compact_unwind_encoding.h\<close>; they are the parameter \<open>compact_sdk\<close>.  The second-level
  binary search is a loop that the definition does not bound (\<open>partial_function\<close>);
  \<open>CompactSpec\<close> shows that it ends.
\<close>

section \<open>The SDK's table layout\<close>

record compact_sdk =
  UNWIND_SECTION_VERSION :: u32
  UNWIND_SECOND_LEVEL_REGULAR :: u32
  UNWIND_SECOND_LEVEL_COMPRESSED :: u32
  sizeof_section_header :: nat
  offsetof_version :: nat
  offsetof_commonEncodingsArraySectionOffset :: nat
  offsetof_commonEncodingsArrayCount :: nat
  offsetof_indexSectionOffset :: nat
  offsetof_indexCount :: nat
  sizeof_index_entry :: u64
  offsetof_functionOffset :: u64
  offsetof_secondLevelPagesSectionOffset :: u64
  offsetof_entryPageOffset :: u64
  offsetof_entryCount :: u64
  offsetof_encodingsPageOffset :: u64
  UNWIND_INFO_COMPRESSED_ENTRY_FUNC_OFFSET :: "u32 \<Rightarrow> u32"
  UNWIND_INFO_COMPRESSED_ENTRY_ENCODING_INDEX :: "u32 \<Rightarrow> u32"

section \<open>State\<close>

text \<open>The fields of the SDK's structures that the code reads.\<close>

record unwind_info_section_header =
  section_version :: u32
  commonEncodingsArraySectionOffset :: u32
  commonEncodingsArrayCount :: u32
  indexSectionOffset :: u32
  indexCount :: u32

record unwind_info_section_header_index_entry =
  functionOffset :: u32
  secondLevelPagesSectionOffset :: u32

record FIRCLSCompactUnwindContext =
  unwindInfo :: u64
  ehFrame :: u64
  loadAddress :: u64
  unwindHeader :: unwind_info_section_header
  indexHeader :: unwind_info_section_header_index_entry
  firstLevelNextFunctionOffset :: u32

record FIRCLSCompactUnwindResult =
  encoding :: u32
  functionStart :: u64
  functionEnd :: u64
  lsda :: u64
  personality :: u64

definition compact_context_zero :: FIRCLSCompactUnwindContext where
  [c_eval]: "compact_context_zero = \<lparr>unwindInfo = 0, ehFrame = 0, loadAddress = 0,
     unwindHeader = \<lparr>section_version = 0, commonEncodingsArraySectionOffset = 0,
       commonEncodingsArrayCount = 0, indexSectionOffset = 0, indexCount = 0\<rparr>,
     indexHeader = \<lparr>functionOffset = 0, secondLevelPagesSectionOffset = 0\<rparr>,
     firstLevelNextFunctionOffset = 0\<rparr>"

definition compact_result_zero :: FIRCLSCompactUnwindResult where
  [c_eval]: "compact_result_zero =
     \<lparr>encoding = 0, functionStart = 0, functionEnd = 0, lsda = 0, personality = 0\<rparr>"

text \<open>A field of a structure in memory, an element of an array in memory, a field of a copy.\<close>

definition load_field :: "env \<Rightarrow> u64 \<Rightarrow> u64 \<Rightarrow> nat \<Rightarrow> 'l::len word option" where
  [c_eval]: "load_field e p off n = do { q \<leftarrow> ptr_add p off; load e q n }"

definition load_u32 :: "env \<Rightarrow> u64 \<Rightarrow> u32 \<Rightarrow> u32 option" where
  [c_eval]: "load_u32 e array i = do { q \<leftarrow> ptr_add array (4 * ucast i); load e q 4 }"

definition field32 :: "u8 list \<Rightarrow> nat \<Rightarrow> u32" where
  [c_eval]: "field32 bs off = of_nat (le_nat (take 4 (drop off bs)))"

section \<open>Parsing\<close>

fun FIRCLSCompactUnwindInit ::
  "env \<Rightarrow> compact_sdk \<Rightarrow> FIRCLSCompactUnwindContext ptr \<Rightarrow> u64 \<Rightarrow> u64 \<Rightarrow> u64 \<Rightarrow>
   bool \<times> FIRCLSCompactUnwindContext ptr" where
  "FIRCLSCompactUnwindInit e sdk None info eh base = (False, None)"
| "FIRCLSCompactUnwindInit e sdk (Some context) info eh base =
     (if \<not> FIRCLSIsValidPointer info then (False, Some context)
      else if \<not> FIRCLSIsValidPointer base then (False, Some context)
      else let context = compact_context_zero in
      case FIRCLSReadMemory e info (sizeof_section_header sdk) of
        None \<Rightarrow> (False, Some context)
      | Some bs \<Rightarrow>
          let context = context\<lparr>unwindHeader :=
            \<lparr>section_version = field32 bs (offsetof_version sdk),
             commonEncodingsArraySectionOffset =
               field32 bs (offsetof_commonEncodingsArraySectionOffset sdk),
             commonEncodingsArrayCount = field32 bs (offsetof_commonEncodingsArrayCount sdk),
             indexSectionOffset = field32 bs (offsetof_indexSectionOffset sdk),
             indexCount = field32 bs (offsetof_indexCount sdk)\<rparr>\<rparr> in
          if section_version (unwindHeader context) \<noteq> UNWIND_SECTION_VERSION sdk
          then (False, Some context)
          else (True, Some (context\<lparr>unwindInfo := info, ehFrame := eh, loadAddress := base\<rparr>)))"

definition FIRCLSCompactUnwindGetIndexData :: "FIRCLSCompactUnwindContext \<Rightarrow> u64" where
  [c_eval]: "FIRCLSCompactUnwindGetIndexData context =
     unwindInfo context + ucast (indexSectionOffset (unwindHeader context))"

definition FIRCLSCompactUnwindGetCommonEncodings :: "FIRCLSCompactUnwindContext \<Rightarrow> u64" where
  [c_eval]: "FIRCLSCompactUnwindGetCommonEncodings context =
     unwindInfo context + ucast (commonEncodingsArraySectionOffset (unwindHeader context))"

definition FIRCLSCompactUnwindGetSecondLevelData :: "FIRCLSCompactUnwindContext \<Rightarrow> u64" where
  [c_eval]: "FIRCLSCompactUnwindGetSecondLevelData context =
     unwindInfo context + ucast (secondLevelPagesSectionOffset (indexHeader context))"

definition FIRCLSCompactUnwindGetIndexFunctionOffset :: "FIRCLSCompactUnwindContext \<Rightarrow> u64" where
  [c_eval]: "FIRCLSCompactUnwindGetIndexFunctionOffset context =
     loadAddress context + ucast (functionOffset (indexHeader context))"

definition FIRCLSCompactUnwindGetTargetAddress :: "FIRCLSCompactUnwindContext \<Rightarrow> u64 \<Rightarrow> u64" where
  [c_eval]: "FIRCLSCompactUnwindGetTargetAddress context pc =
     (let offset = FIRCLSCompactUnwindGetIndexFunctionOffset context in
      if pc \<le> offset then 0 else pc - offset)"

section \<open>The first level\<close>

definition index_entry ::
  "env \<Rightarrow> compact_sdk \<Rightarrow> u64 \<Rightarrow> u32 \<Rightarrow> unwind_info_section_header_index_entry option" where
  [c_eval]: "index_entry e sdk indexEntries index = do {
     p \<leftarrow> ptr_add indexEntries (ucast index * sizeof_index_entry sdk);
     f \<leftarrow> load_field e p (offsetof_functionOffset sdk) 4;
     s \<leftarrow> load_field e p (offsetof_secondLevelPagesSectionOffset sdk) 4;
     Some \<lparr>functionOffset = f, secondLevelPagesSectionOffset = s\<rparr> }"

definition index_functionOffset :: "env \<Rightarrow> compact_sdk \<Rightarrow> u64 \<Rightarrow> u32 \<Rightarrow> u32 option" where
  [c_eval]: "index_functionOffset e sdk indexEntries index = do {
     p \<leftarrow> ptr_add indexEntries (ucast index * sizeof_index_entry sdk);
     load_field e p (offsetof_functionOffset sdk) 4 }"

text \<open>The loop; the first argument counts the entries still to be tried.\<close>

primrec first_level_loop ::
  "nat \<Rightarrow> env \<Rightarrow> compact_sdk \<Rightarrow> FIRCLSCompactUnwindContext \<Rightarrow> u64 \<Rightarrow> u64 \<Rightarrow> u32 \<Rightarrow>
   (bool \<times> FIRCLSCompactUnwindContext) option" where
  "first_level_loop 0 e sdk context indexEntries address index = Some (False, context)"
| "first_level_loop (Suc n) e sdk context indexEntries address index = do {
     value \<leftarrow> index_functionOffset e sdk indexEntries index;
     nextValue \<leftarrow> index_functionOffset e sdk indexEntries (index + 1);
     if ucast value \<le> address \<and> address < ucast nextValue then do {
       let context = context\<lparr>firstLevelNextFunctionOffset := nextValue\<rparr>;
       entry \<leftarrow> index_entry e sdk indexEntries index;
       Some (True, context\<lparr>indexHeader := entry\<rparr>) }
     else first_level_loop n e sdk context indexEntries address (index + 1) }"

fun FIRCLSCompactUnwindLookupFirstLevel ::
  "env \<Rightarrow> compact_sdk \<Rightarrow> FIRCLSCompactUnwindContext ptr \<Rightarrow> u64 \<Rightarrow>
   (bool \<times> FIRCLSCompactUnwindContext ptr) option" where
  "FIRCLSCompactUnwindLookupFirstLevel e sdk None address = Some (False, None)"
| "FIRCLSCompactUnwindLookupFirstLevel e sdk (Some context) address =
     (let count = indexCount (unwindHeader context) in
      if count < 2 then Some (False, Some context)
      else if address < loadAddress context then Some (False, Some context)
      else let indexEntries = FIRCLSCompactUnwindGetIndexData context in
      if indexEntries = 0 then Some (False, Some context)
      else map_option (apsnd Some)
        (first_level_loop (unat (count - 1)) e sdk context indexEntries
           (address - loadAddress context) 0))"

section \<open>The second level\<close>

fun FIRCLSCompactUnwindGetSecondLevelPageKind ::
  "env \<Rightarrow> FIRCLSCompactUnwindContext ptr \<Rightarrow> u32 option" where
  "FIRCLSCompactUnwindGetSecondLevelPageKind e None = Some 0"
| "FIRCLSCompactUnwindGetSecondLevelPageKind e (Some context) =
     load e (FIRCLSCompactUnwindGetSecondLevelData context) 4"

definition FIRCLSCompactUnwindLookupSecondLevelRegular ::
  "FIRCLSCompactUnwindContext ptr \<Rightarrow> u64 \<Rightarrow> FIRCLSCompactUnwindResult ptr \<Rightarrow>
   bool \<times> FIRCLSCompactUnwindResult ptr" where
  [c_eval]: "FIRCLSCompactUnwindLookupSecondLevelRegular context pc result = (False, result)"

text \<open>
  The loop of the binary search, with \<open>*index\<close> and \<open>highIndex\<close> as its last two arguments; it
  gives back what the function returns and the final \<open>*index\<close>.
\<close>

partial_function (option) bsearch_loop ::
  "env \<Rightarrow> compact_sdk \<Rightarrow> u64 \<Rightarrow> u16 \<Rightarrow> u64 \<Rightarrow> u32 \<Rightarrow> u32 \<Rightarrow> (bool \<times> u32) option" where
  "bsearch_loop e sdk address entryCount entryArray index highIndex =
     (if index < highIndex then do {
        let midIndex = (index + highIndex) div 2;
        entry \<leftarrow> load_u32 e entryArray midIndex;
        let value = UNWIND_INFO_COMPRESSED_ENTRY_FUNC_OFFSET sdk entry;
        if address < ucast value then
          (if highIndex = midIndex then Some (False, index)
           else bsearch_loop e sdk address entryCount entryArray index midIndex)
        else do {
          let index = midIndex;
          if midIndex = ucast entryCount - 1 then Some (False, index)
          else do {
            entry \<leftarrow> load_u32 e entryArray (midIndex + 1);
            let nextValue = UNWIND_INFO_COMPRESSED_ENTRY_FUNC_OFFSET sdk entry;
            if address < ucast nextValue then Some (index < ucast entryCount, index)
            else bsearch_loop e sdk address entryCount entryArray (index + 1) highIndex } } }
      else Some (index < ucast entryCount, index))"

fun FIRCLSCompactUnwindBinarySearchSecondLevel ::
  "env \<Rightarrow> compact_sdk \<Rightarrow> u64 \<Rightarrow> u32 ptr \<Rightarrow> u16 \<Rightarrow> u64 \<Rightarrow> (bool \<times> u32 ptr) option" where
  "FIRCLSCompactUnwindBinarySearchSecondLevel e sdk address None entryCount entryArray =
     Some (False, None)"
| "FIRCLSCompactUnwindBinarySearchSecondLevel e sdk address (Some index) entryCount entryArray =
     (if entryArray = 0 then Some (False, Some index)
      else if entryCount = 0 then Some (False, Some index)
      else if address = 0 then Some (False, Some index)
      else map_option (apsnd Some)
        (bsearch_loop e sdk address entryCount entryArray 0 (ucast entryCount)))"

text \<open>
  The part of the compressed lookup after the search: the entry's range and its encoding.
\<close>

definition compressed_encoding ::
  "env \<Rightarrow> compact_sdk \<Rightarrow> FIRCLSCompactUnwindContext \<Rightarrow> u64 \<Rightarrow> u32 \<Rightarrow> u32 option" where
  [c_eval]: "compressed_encoding e sdk context p entry =
     (let encodingIndex = UNWIND_INFO_COMPRESSED_ENTRY_ENCODING_INDEX sdk entry;
          common = commonEncodingsArrayCount (unwindHeader context) in
      if encodingIndex < common
      then load_u32 e (FIRCLSCompactUnwindGetCommonEncodings context) encodingIndex
      else do {
        encodingsPageOffset \<leftarrow> load_field e p (offsetof_encodingsPageOffset sdk) 2;
        encodings \<leftarrow> ptr_add p (ucast (encodingsPageOffset :: u16));
        load_u32 e encodings (encodingIndex - common) })"

definition compressed_function_end ::
  "env \<Rightarrow> compact_sdk \<Rightarrow> FIRCLSCompactUnwindContext \<Rightarrow> u16 \<Rightarrow> u64 \<Rightarrow> u32 \<Rightarrow> u64 option" where
  [c_eval]: "compressed_function_end e sdk context entryCount entryArray index =
     (if index < ucast entryCount - 1
      then do { entry \<leftarrow> load_u32 e entryArray (index + 1);
                Some (loadAddress context + ucast (UNWIND_INFO_COMPRESSED_ENTRY_FUNC_OFFSET sdk entry +
                        functionOffset (indexHeader context))) }
      else Some (loadAddress context + ucast (firstLevelNextFunctionOffset context)))"

fun FIRCLSCompactUnwindLookupSecondLevelCompressed ::
  "env \<Rightarrow> compact_sdk \<Rightarrow> FIRCLSCompactUnwindContext ptr \<Rightarrow> u64 \<Rightarrow> FIRCLSCompactUnwindResult ptr \<Rightarrow>
   (bool \<times> FIRCLSCompactUnwindResult ptr) option" where
  "FIRCLSCompactUnwindLookupSecondLevelCompressed e sdk (Some context) pc (Some result) =
     (let p = FIRCLSCompactUnwindGetSecondLevelData context in
      if p = 0 then Some (False, Some result)
      else do {
        let result = compact_result_zero;
        let targetAddress = FIRCLSCompactUnwindGetTargetAddress context pc;
        entryPageOffset \<leftarrow> load_field e p (offsetof_entryPageOffset sdk) 2;
        entryArray \<leftarrow> ptr_add p (ucast (entryPageOffset :: u16));
        entryCount \<leftarrow> load_field e p (offsetof_entryCount sdk) 2;
        (found, index) \<leftarrow> addr_ofM 0 (\<lambda>index.
           FIRCLSCompactUnwindBinarySearchSecondLevel e sdk targetAddress index entryCount entryArray);
        if \<not> found then Some (False, Some result)
        else do {
          entry \<leftarrow> load_u32 e entryArray index;
          fend \<leftarrow> compressed_function_end e sdk context entryCount entryArray index;
          let result = result\<lparr>functionStart :=
                         ucast (UNWIND_INFO_COMPRESSED_ENTRY_FUNC_OFFSET sdk entry) +
                         FIRCLSCompactUnwindGetIndexFunctionOffset context,
                       functionEnd := fend\<rparr>;
          if pc < functionStart result \<or> functionEnd result \<le> pc then Some (False, Some result)
          else do {
            enc \<leftarrow> compressed_encoding e sdk context p entry;
            let result = result\<lparr>encoding := enc\<rparr>;
            Some (encoding result \<noteq> 0, Some result) } } })"
| "FIRCLSCompactUnwindLookupSecondLevelCompressed e sdk context pc result = Some (False, result)"

definition FIRCLSCompactUnwindLookupSecondLevel ::
  "env \<Rightarrow> compact_sdk \<Rightarrow> FIRCLSCompactUnwindContext ptr \<Rightarrow> u64 \<Rightarrow> FIRCLSCompactUnwindResult ptr \<Rightarrow>
   (bool \<times> FIRCLSCompactUnwindResult ptr) option" where
  [c_eval]: "FIRCLSCompactUnwindLookupSecondLevel e sdk context pc result = do {
     kind \<leftarrow> FIRCLSCompactUnwindGetSecondLevelPageKind e context;
     if kind = UNWIND_SECOND_LEVEL_REGULAR sdk
     then Some (FIRCLSCompactUnwindLookupSecondLevelRegular context pc result)
     else if kind = UNWIND_SECOND_LEVEL_COMPRESSED sdk
     then FIRCLSCompactUnwindLookupSecondLevelCompressed e sdk context pc result
     else Some (False, result) }"

fun FIRCLSCompactUnwindLookup ::
  "env \<Rightarrow> compact_sdk \<Rightarrow> FIRCLSCompactUnwindContext ptr \<Rightarrow> u64 \<Rightarrow> FIRCLSCompactUnwindResult ptr \<Rightarrow>
   (bool \<times> FIRCLSCompactUnwindContext ptr \<times> FIRCLSCompactUnwindResult ptr) option" where
  "FIRCLSCompactUnwindLookup e sdk (Some context) pc (Some result) = do {
     (ok, context) \<leftarrow> FIRCLSCompactUnwindLookupFirstLevel e sdk (Some context) pc;
     if \<not> ok then Some (False, context, Some result)
     else do {
       (ok, result) \<leftarrow> FIRCLSCompactUnwindLookupSecondLevel e sdk context pc (Some result);
       Some (ok, context, result) } }"
| "FIRCLSCompactUnwindLookup e sdk context pc result = Some (False, context, result)"

section \<open>Unwinding\<close>

text \<open>
  What each CPU defines (\<open>FIRCLSUnwind_arch.h\<close>): how an encoding changes the registers.
\<close>

type_synonym 'c compute_registers =
  "env \<Rightarrow> FIRCLSCompactUnwindContext ptr \<Rightarrow> FIRCLSCompactUnwindResult ptr \<Rightarrow> 'c ptr \<Rightarrow>
   (bool \<times> 'c ptr) option"

fun FIRCLSCompactUnwindLookupAndCompute ::
  "env \<Rightarrow> compact_sdk \<Rightarrow> ('c, 'z) thread_state_scheme \<Rightarrow> 'c compute_registers \<Rightarrow>
   FIRCLSCompactUnwindContext ptr \<Rightarrow> 'c ptr \<Rightarrow>
   (bool \<times> FIRCLSCompactUnwindContext ptr \<times> 'c ptr) option" where
  "FIRCLSCompactUnwindLookupAndCompute e sdk cpu compute (Some context) (Some registers) =
     (let pc = FIRCLSThreadContextGetPC cpu (Some registers) in
      if pc < loadAddress context then Some (False, Some context, Some registers)
      else do {
        (ok, context, result) \<leftarrow>
          FIRCLSCompactUnwindLookup e sdk (Some context) pc (Some compact_result_zero);
        if \<not> ok then Some (False, context, Some registers)
        else do {
          (ok, registers) \<leftarrow> compute e context result (Some registers);
          Some (ok, context, registers) } })"
| "FIRCLSCompactUnwindLookupAndCompute e sdk cpu compute context registers =
     Some (False, context, registers)"

text \<open>
  The record on the stack is not initialised; \<open>garbage\<close> is what it holds, and the parser stores
  every field that is read later.
\<close>

fun FIRCLSCompactUnwindDwarfFrame ::
  "env \<Rightarrow> ('c, 'z) cpu_scheme \<Rightarrow> FIRCLSDwarfCFIRecord \<Rightarrow> FIRCLSCompactUnwindContext ptr \<Rightarrow> u64 \<Rightarrow>
   'c ptr \<Rightarrow> (bool \<times> 'c ptr) option" where
  "FIRCLSCompactUnwindDwarfFrame e cpu garbage (Some context) dwarfOffset (Some registers) = do {
     (ok, record) \<leftarrow> addr_ofM garbage
        (\<lambda>r. FIRCLSDwarfParseCFIFromFDERecordOffset e r (ehFrame context) dwarfOffset);
     if \<not> ok then Some (False, Some registers)
     else FIRCLSDwarfUnwindComputeRegisters e cpu (Some record) (Some registers) }"
| "FIRCLSCompactUnwindDwarfFrame e cpu garbage context dwarfOffset registers =
     Some (False, registers)"

lemmas [c_eval] = first_level_loop.simps FIRCLSCompactUnwindInit.simps
  FIRCLSCompactUnwindLookupFirstLevel.simps FIRCLSCompactUnwindGetSecondLevelPageKind.simps
  bsearch_loop.simps FIRCLSCompactUnwindBinarySearchSecondLevel.simps
  FIRCLSCompactUnwindLookupSecondLevelCompressed.simps FIRCLSCompactUnwindLookup.simps
  FIRCLSCompactUnwindLookupAndCompute.simps FIRCLSCompactUnwindDwarfFrame.simps

end
