(* ===== verification/BinaryImage.thy ===== *)
theory BinaryImage
  imports Prelude
begin

text \<open>
  The table of loaded images that \<open>Crashlytics/Components/FIRCLSBinaryImage.m\<close> keeps for crash
  time, and the scan of \<open>Crashlytics/Unwind/FIRCLSUnwind.c\<close> for a stack word that points into
  one of them.
\<close>

section \<open>The image table\<close>

record FIRCLSBinaryImageRuntimeNode =
  node_baseAddress :: u64
  node_size :: u64
  node_ehFrame :: u64
  node_unwindInfo :: u64
  node_crashInfo :: u64

text \<open>The part of the global \<open>_firclsContext\<close> that the lookup reads.\<close>

record image_context =
  context_initialized :: bool
  image_nodes :: "FIRCLSBinaryImageRuntimeNode list"

primrec find_node :: "FIRCLSBinaryImageRuntimeNode list \<Rightarrow> u64 \<Rightarrow> FIRCLSBinaryImageRuntimeNode option" where
  "find_node [] address = None"
| "find_node (node # nodes) address =
     (if node_baseAddress node \<le> address \<and> address < node_baseAddress node + node_size node
      then Some node else find_node nodes address)"

fun FIRCLSBinaryImageSafeFindImageForAddress ::
  "image_context \<Rightarrow> u64 \<Rightarrow> FIRCLSBinaryImageRuntimeNode ptr \<Rightarrow>
   bool \<times> FIRCLSBinaryImageRuntimeNode ptr" where
  "FIRCLSBinaryImageSafeFindImageForAddress ctx address img =
     (if \<not> context_initialized ctx then (False, img)
      else if address = 0 then (False, img)
      else case img of
        None \<Rightarrow> (False, None)
      | Some unset \<Rightarrow>
          (case find_node (image_nodes ctx) address of
             None \<Rightarrow> (False, Some unset)
           | Some node \<Rightarrow> (True, Some node)))"

definition FIRCLSBinaryImageSafeHasUnwindInfo :: "FIRCLSBinaryImageRuntimeNode \<Rightarrow> bool" where
  [c_eval]: "FIRCLSBinaryImageSafeHasUnwindInfo img = FIRCLSIsValidPointer (node_unwindInfo img)"

definition node_zero :: FIRCLSBinaryImageRuntimeNode where
  [c_eval]: "node_zero = \<lparr>node_baseAddress = 0, node_size = 0, node_ehFrame = 0,
     node_unwindInfo = 0, node_crashInfo = 0\<rparr>"

text \<open>Word \<open>i\<close> of an array of words that was read from the stack.\<close>

definition stack_word :: "u8 list \<Rightarrow> nat \<Rightarrow> u64" where
  [c_eval]: "stack_word bs i = of_nat (le_nat (take 8 (drop (8 * i) bs)))"

section \<open>Looking for a return address on the stack\<close>

text \<open>The node that receives the result is on the stack and never read.\<close>

definition FIRCLSUnwindIsAddressExecutable :: "image_context \<Rightarrow> u64 \<Rightarrow> bool" where
  [c_eval]: "FIRCLSUnwindIsAddressExecutable ctx address =
     fst (addr_of node_zero (FIRCLSBinaryImageSafeFindImageForAddress ctx address))"

text \<open>
  One round of the loop: \<open>None\<close> inside means that it goes on.  The arguments of the debug log are
  evaluated before the check of the pointer, so the word is loaded directly first.
\<close>

definition scan_one :: "env \<Rightarrow> image_context \<Rightarrow> u64 \<Rightarrow> (bool \<times> u64) option option" where
  [c_eval]: "scan_one e ctx start = do {
     logged \<leftarrow> (load e start 8 :: u64 option);
     if FIRCLSIsValidPointer start
     then (case read_word e start 8 of
             None \<Rightarrow> Some (Some (False, 0))
           | Some address \<Rightarrow>
               Some (if FIRCLSUnwindIsAddressExecutable ctx address then Some (True, address) else None))
     else Some None }"

partial_function (option) FIRCLSUnwindFirstExecutableAddress ::
  "env \<Rightarrow> image_context \<Rightarrow> u64 \<Rightarrow> u64 \<Rightarrow> (bool \<times> u64) option" where
  "FIRCLSUnwindFirstExecutableAddress e ctx start end_address = do {
     r \<leftarrow> scan_one e ctx start;
     case r of
       Some result \<Rightarrow> Some result
     | None \<Rightarrow>
         let start = start + 8 in
         if start < end_address then FIRCLSUnwindFirstExecutableAddress e ctx start end_address
         else Some (False, 0) }"

lemmas [c_eval] = FIRCLSUnwindFirstExecutableAddress.simps
  FIRCLSBinaryImageSafeFindImageForAddress.simps find_node.simps addr_of_def

end
