(* ===== verification/UnwindX86.thy ===== *)
theory UnwindX86
  imports CompactUnwind BinaryImage Registers
begin

text \<open>
  The x86-64 half of \<open>Crashlytics/Unwind/FIRCLSUnwind_x86.c\<close>: frame pointer, stack scanning and
  the compact encodings.  The masks come from the SDK's \<open>mach-o/compact_unwind_encoding.h\<close>
  through \<open>FIRCLSUnwind_x86.h\<close>; they are the parameter \<open>x86_sdk\<close>.
\<close>

section \<open>Masks\<close>

record x86_sdk =
  CLS_X86_MODE_MASK :: u32
  CLS_X86_MODE_BP_FRAME :: u32
  CLS_X86_MODE_STACK_IMMD :: u32
  CLS_X86_MODE_STACK_IND :: u32
  CLS_X86_MODE_DWARF :: u32
  CLS_X86_FRAMELESS_STACK_SIZE :: u32
  CLS_X86_FRAMELESS_STACK_ADJUST :: u32
  CLS_X86_FRAMELESS_STACK_REG_COUNT :: u32
  CLS_X86_FRAMELESS_STACK_REG_PERMUTATION :: u32
  CLS_X86_DWARF_SECTION_OFFSET :: u32
  CLS_X86_REG_RBP :: u64

text \<open>\<open>__builtin_ctz\<close>: the number of trailing zeros.\<close>

definition ctz :: "u32 \<Rightarrow> nat" where
  [c_eval]: "ctz x = length (takeWhile (\<lambda>i. \<not> bit x i) [0..<32])"

definition GET_BITS_WITH_MASK :: "u32 \<Rightarrow> u32 \<Rightarrow> u32" where
  [c_eval]: "GET_BITS_WITH_MASK value m = drop_bit (if m = 0 then 0 else ctz m) (value AND m)"

section \<open>Frame pointer and stack scanning\<close>

definition FIRCLSUnwindStackPointerFromFramePointer :: "u64 \<Rightarrow> u64" where
  [c_eval]: "FIRCLSUnwindStackPointerFromFramePointer framePtr = framePtr + 2 * 8"

definition FIRCLSCompactUnwindBPFrame ::
  "env \<Rightarrow> u32 \<Rightarrow> x86_64 ptr \<Rightarrow> bool \<times> x86_64 ptr" where
  [c_eval]: "FIRCLSCompactUnwindBPFrame e enc registers =
     (let framePointer = FIRCLSThreadContextGetFramePointer x86_64_cpu registers in
      case FIRCLSReadMemory e framePointer 16 of
        None \<Rightarrow> (False, registers)
      | Some stack \<Rightarrow>
          let (ok, registers) = FIRCLSThreadContextSetPC x86_64_cpu registers (stack_word stack 1) in
          if \<not> ok then (False, registers)
          else let (ok, registers) =
                     FIRCLSThreadContextSetFramePointer x86_64_cpu registers (stack_word stack 0) in
          if \<not> ok then (False, registers)
          else let (ok, registers) = FIRCLSThreadContextSetStackPointer x86_64_cpu registers
                     (FIRCLSUnwindStackPointerFromFramePointer framePointer) in
          if \<not> ok then (False, registers) else (True, registers))"

definition FIRCLSUnwindWithStackScanning ::
  "env \<Rightarrow> image_context \<Rightarrow> x86_64 ptr \<Rightarrow> (bool \<times> x86_64 ptr) option" where
  [c_eval]: "FIRCLSUnwindWithStackScanning e ctx registers =
     (let start = FIRCLSThreadContextGetStackPointer x86_64_cpu registers;
          end_address = FIRCLSThreadContextGetFramePointer x86_64_cpu registers in
      do { (ok, newPC) \<leftarrow> FIRCLSUnwindFirstExecutableAddress e ctx start end_address;
           if \<not> ok then Some (False, registers)
           else Some (FIRCLSThreadContextSetPC x86_64_cpu registers newPC) })"

definition x86_FIRCLSUnwindWithFramePointer ::
  "x86_sdk \<Rightarrow> env \<Rightarrow> image_context \<Rightarrow> x86_64 ptr \<Rightarrow> bool \<Rightarrow> (bool \<times> x86_64 ptr) option" where
  [c_eval]: "x86_FIRCLSUnwindWithFramePointer sdk e ctx registers allowScanning = do {
     (ok, registers) \<leftarrow> (if allowScanning then FIRCLSUnwindWithStackScanning e ctx registers
                          else Some (False, registers));
     if ok then Some (True, registers)
     else Some (FIRCLSCompactUnwindBPFrame e (CLS_X86_MODE_BP_FRAME sdk) registers) }"

section \<open>Frameless functions\<close>

fun FIRCLSCompactUnwindComputeStackSize ::
  "x86_sdk \<Rightarrow> env \<Rightarrow> u32 \<Rightarrow> u64 \<Rightarrow> bool \<Rightarrow> u32 ptr \<Rightarrow> bool \<times> u32 ptr" where
  "FIRCLSCompactUnwindComputeStackSize sdk e enc fstart indirect None = (False, None)"
| "FIRCLSCompactUnwindComputeStackSize sdk e enc fstart indirect (Some stackSize) =
     (let stackSizeEncoded = GET_BITS_WITH_MASK enc (CLS_X86_FRAMELESS_STACK_SIZE sdk) in
      if \<not> indirect then (True, Some (ucast (ucast stackSizeEncoded * 8 :: u64)))
      else let sublAddress = fstart + ucast stackSizeEncoded in
      case read_word e sublAddress 4 of
        None \<Rightarrow> (False, Some stackSize)
      | Some (sublValue :: u32) \<Rightarrow>
          let stackAdjust = GET_BITS_WITH_MASK enc (CLS_X86_FRAMELESS_STACK_ADJUST sdk) in
          (True, Some (ucast (ucast sublValue + ucast stackAdjust * 8 :: u64))))"

text \<open>
  One digit of the permutation: \<open>regs[i] = permutation / d; permutation -= regs[i] * d\<close>, and the
  last one, which takes what is left.
\<close>

definition next_digit :: "nat \<Rightarrow> u32 \<Rightarrow> u64 list \<times> u32 \<Rightarrow> u64 list \<times> u32" where
  [c_eval]: "next_digit i d = (\<lambda>(regs, permutation).
     let regs = regs[i := ucast (permutation div d)]
     in (regs, ucast (ucast permutation - regs ! i * ucast d)))"

definition last_digit :: "nat \<Rightarrow> u64 list \<times> u32 \<Rightarrow> u64 list" where
  [c_eval]: "last_digit i = (\<lambda>(regs, permutation). regs[i := ucast permutation])"

definition FIRCLSCompactUnwindDecompressPermutation ::
  "x86_sdk \<Rightarrow> u32 \<Rightarrow> u64 list \<Rightarrow> bool \<times> u64 list" where
  [c_eval]: "FIRCLSCompactUnwindDecompressPermutation sdk enc permutatedRegisters =
     (let regCount = GET_BITS_WITH_MASK enc (CLS_X86_FRAMELESS_STACK_REG_COUNT sdk);
          permutation = GET_BITS_WITH_MASK enc (CLS_X86_FRAMELESS_STACK_REG_PERMUTATION sdk);
          start = (permutatedRegisters, permutation) in
      if regCount = 6 then
        (True, (last_digit 4 (next_digit 3 2 (next_digit 2 6 (next_digit 1 24 (next_digit 0 120 start)))))
                 [5 := 0])
      else if regCount = 5 then
        (True, last_digit 4 (next_digit 3 2 (next_digit 2 6 (next_digit 1 24 (next_digit 0 120 start)))))
      else if regCount = 4 then
        (True, last_digit 3 (next_digit 2 3 (next_digit 1 12 (next_digit 0 60 start))))
      else if regCount = 3 then (True, last_digit 2 (next_digit 1 4 (next_digit 0 20 start)))
      else if regCount = 2 then (True, last_digit 1 (next_digit 0 5 start))
      else if regCount = 1 then (True, last_digit 0 start)
      else if regCount = 0 then (True, permutatedRegisters)
      else (False, permutatedRegisters))"

text \<open>
  The inner loop: \<open>n\<close> rounds left, at \<open>u = 7 - n\<close>; the register that is not used yet and has
  number \<open>digit\<close> among those.
\<close>

primrec renumber :: "nat \<Rightarrow> bool list \<Rightarrow> nat \<Rightarrow> u64 \<Rightarrow> nat option" where
  "renumber 0 used renum digit = None"
| "renumber (Suc n) used renum digit =
     (let u = 6 - n in
      if \<not> used ! u
      then (if of_nat renum = digit then Some u else renumber n used (renum + 1) digit)
      else renumber n used renum digit)"

primrec remap_loop ::
  "nat \<Rightarrow> nat \<Rightarrow> u64 list \<Rightarrow> bool list \<Rightarrow> u64 list \<Rightarrow> u64 list" where
  "remap_loop 0 i permutatedRegisters used savedRegisters = savedRegisters"
| "remap_loop (Suc n) i permutatedRegisters used savedRegisters =
     (case renumber 6 used 0 (permutatedRegisters ! i) of
        None \<Rightarrow> remap_loop n (i + 1) permutatedRegisters used savedRegisters
      | Some u \<Rightarrow> remap_loop n (i + 1) permutatedRegisters (used[u := True])
                    (savedRegisters[i := of_nat u]))"

definition FIRCLSCompactUnwindRemapRegisters ::
  "x86_sdk \<Rightarrow> u32 \<Rightarrow> u64 list \<Rightarrow> u64 list \<Rightarrow> bool \<times> u64 list" where
  [c_eval]: "FIRCLSCompactUnwindRemapRegisters sdk enc permutatedRegisters savedRegisters =
     (let regCount = GET_BITS_WITH_MASK enc (CLS_X86_FRAMELESS_STACK_REG_COUNT sdk) in
      if 6 < regCount then (False, savedRegisters)
      else (True, remap_loop (unat regCount) 0 permutatedRegisters (replicate 7 False) savedRegisters))"

text \<open>
  The loop over the saved registers with \<open>n\<close> rounds left; a read of \<open>savedRegisters\<close> past its
  six entries has no defined result.
\<close>

primrec restore_loop ::
  "nat \<Rightarrow> x86_sdk \<Rightarrow> env \<Rightarrow> u64 list \<Rightarrow> nat \<Rightarrow> x86_64 \<Rightarrow> u64 \<Rightarrow> (bool \<times> x86_64 \<times> u64) option" where
  "restore_loop 0 sdk e savedRegisters i registers address = Some (True, registers, address)"
| "restore_loop (Suc n) sdk e savedRegisters i registers address =
     (if length savedRegisters \<le> i then None
      else if savedRegisters ! i = CLS_X86_REG_RBP sdk
      then (case read_word e address 8 of
              None \<Rightarrow> Some (False, registers, address)
            | Some value \<Rightarrow>
                let (ok, registers) = addr_of registers
                      (\<lambda>r. FIRCLSThreadContextSetFramePointer x86_64_cpu r value) in
                if \<not> ok then Some (False, registers, address)
                else restore_loop n sdk e savedRegisters (i + 1) registers (address + 8))
      else restore_loop n sdk e savedRegisters (i + 1) registers (address + 8))"

fun FIRCLSCompactUnwindRestoreRegisters ::
  "x86_sdk \<Rightarrow> env \<Rightarrow> u32 \<Rightarrow> x86_64 ptr \<Rightarrow> u32 \<Rightarrow> u64 list \<Rightarrow> u64 ptr \<Rightarrow>
   (bool \<times> x86_64 ptr \<times> u64 ptr) option" where
  "FIRCLSCompactUnwindRestoreRegisters sdk e enc (Some registers) stackSize savedRegisters (Some address) =
     (let regCount = GET_BITS_WITH_MASK enc (CLS_X86_FRAMELESS_STACK_REG_COUNT sdk);
          address = FIRCLSThreadContextGetStackPointer x86_64_cpu (Some registers) + ucast stackSize - 8 -
                      8 * ucast regCount in
      map_option (\<lambda>(ok, r, a). (ok, Some r, Some a))
        (restore_loop (unat regCount) sdk e savedRegisters 0 registers address))"
| "FIRCLSCompactUnwindRestoreRegisters sdk e enc registers stackSize savedRegisters address =
     Some (False, registers, address)"

text \<open>The end of the frameless unwind, once the address of the return address is known.\<close>

definition frameless_return ::
  "env \<Rightarrow> x86_64 ptr \<Rightarrow> u64 \<Rightarrow> bool \<times> x86_64 ptr" where
  [c_eval]: "frameless_return e registers address =
     (case read_word e address 8 of
        None \<Rightarrow> (False, registers)
      | Some value \<Rightarrow>
          if \<not> FIRCLSIsValidPointer value then (False, registers)
          else let (ok, registers) = FIRCLSThreadContextSetPC x86_64_cpu registers value in
          if \<not> ok then (False, registers)
          else FIRCLSThreadContextSetStackPointer x86_64_cpu registers (address + 8))"

definition FIRCLSCompactUnwindFrameless ::
  "x86_sdk \<Rightarrow> env \<Rightarrow> u32 \<Rightarrow> x86_64 ptr \<Rightarrow> u64 \<Rightarrow> bool \<Rightarrow> (bool \<times> x86_64 ptr) option" where
  [c_eval]: "FIRCLSCompactUnwindFrameless sdk e enc registers fstart indirect =
     (let (ok, stackSize) =
            addr_of 0 (FIRCLSCompactUnwindComputeStackSize sdk e enc fstart indirect) in
      if \<not> ok then Some (False, registers)
      else let (ok, permutatedRegisters) =
            FIRCLSCompactUnwindDecompressPermutation sdk enc (replicate 6 0) in
      if \<not> ok then Some (False, registers)
      else let (ok, savedRegisters) =
            FIRCLSCompactUnwindRemapRegisters sdk enc permutatedRegisters (replicate 6 0) in
      if \<not> ok then Some (False, registers)
      else do {
        (ok, registers, address) \<leftarrow>
          FIRCLSCompactUnwindRestoreRegisters sdk e enc registers stackSize savedRegisters (Some 0);
        if \<not> ok then Some (False, registers)
        else case address of
               None \<Rightarrow> None
             | Some address \<Rightarrow> Some (frameless_return e registers address) })"

section \<open>Encodings\<close>

fun x86_FIRCLSCompactUnwindComputeRegisters ::
  "x86_sdk \<Rightarrow> FIRCLSDwarfCFIRecord \<Rightarrow> x86_64 compute_registers" where
  "x86_FIRCLSCompactUnwindComputeRegisters sdk garbage e (Some context) (Some result) (Some registers) =
     (let mode = encoding result AND CLS_X86_MODE_MASK sdk in
      if mode = CLS_X86_MODE_BP_FRAME sdk
      then Some (FIRCLSCompactUnwindBPFrame e (encoding result) (Some registers))
      else if mode = CLS_X86_MODE_STACK_IMMD sdk
      then FIRCLSCompactUnwindFrameless sdk e (encoding result) (Some registers) (functionStart result) False
      else if mode = CLS_X86_MODE_STACK_IND sdk
      then FIRCLSCompactUnwindFrameless sdk e (encoding result) (Some registers) (functionStart result) True
      else if mode = CLS_X86_MODE_DWARF sdk
      then FIRCLSCompactUnwindDwarfFrame e x86_64_cpu garbage (Some context)
             (ucast (encoding result AND CLS_X86_DWARF_SECTION_OFFSET sdk)) (Some registers)
      else Some (False, Some registers))"
| "x86_FIRCLSCompactUnwindComputeRegisters sdk garbage e context result registers =
     Some (False, registers)"

lemmas [c_eval] = FIRCLSCompactUnwindComputeStackSize.simps renumber.simps remap_loop.simps
  restore_loop.simps FIRCLSCompactUnwindRestoreRegisters.simps
  x86_FIRCLSCompactUnwindComputeRegisters.simps

end
