(* ===== verification/UnwindArm.thy ===== *)
theory UnwindArm
  imports CompactUnwind BinaryImage Registers
begin

text \<open>
  The arm64 half of \<open>Crashlytics/Unwind/FIRCLSUnwind_arm.c\<close>: link register, frame pointer and
  the compact encodings, whose masks are the parameter \<open>arm64_masks\<close>.
\<close>

record arm64_masks =
  UNWIND_ARM64_MODE_MASK :: u32
  UNWIND_ARM64_MODE_FRAMELESS :: u32
  UNWIND_ARM64_MODE_DWARF :: u32
  UNWIND_ARM64_MODE_FRAME :: u32
  UNWIND_ARM64_DWARF_SECTION_OFFSET :: u32

fun FIRCLSUnwindWithLRRegister :: "('c, 'z) cpu_scheme \<Rightarrow> 'c ptr \<Rightarrow> bool \<times> 'c ptr" where
  "FIRCLSUnwindWithLRRegister cpu None = (False, None)"
| "FIRCLSUnwindWithLRRegister cpu (Some registers) =
     (let value = FIRCLSThreadContextGetLinkRegister cpu (Some registers) in
      if \<not> FIRCLSIsValidPointer value then (False, Some registers)
      else FIRCLSThreadContextSetPC cpu (Some registers) value)"

definition arm_FIRCLSUnwindStackPointerFromFramePointer :: "u64 \<Rightarrow> u64" where
  [c_eval]: "arm_FIRCLSUnwindStackPointerFromFramePointer framePtr = framePtr + 2 * 8"

definition arm_FIRCLSUnwindWithFramePointer ::
  "('c, 'z) cpu_scheme \<Rightarrow> env \<Rightarrow> 'c ptr \<Rightarrow> bool \<Rightarrow> bool \<times> 'c ptr" where
  [c_eval]: "arm_FIRCLSUnwindWithFramePointer cpu e registers allowScanning =
     (let (ok, registers) = (if allowScanning then FIRCLSUnwindWithLRRegister cpu registers
                             else (False, registers)) in
      if ok then (True, registers)
      else let framePointer = FIRCLSThreadContextGetFramePointer cpu registers in
      case FIRCLSReadMemory e framePointer 16 of
        None \<Rightarrow> (False, registers)
      | Some stack \<Rightarrow>
          let (ok, registers) = FIRCLSThreadContextSetPC cpu registers (stack_word stack 1) in
          if \<not> ok then (False, registers)
          else let (ok, registers) = FIRCLSThreadContextSetFramePointer cpu registers (stack_word stack 0) in
          if \<not> ok then (False, registers)
          else let (ok, registers) = FIRCLSThreadContextSetStackPointer cpu registers
                     (arm_FIRCLSUnwindStackPointerFromFramePointer framePointer) in
          if \<not> ok then (False, registers) else (True, registers))"

fun arm_FIRCLSCompactUnwindComputeRegisters ::
  "arm64_masks \<Rightarrow> ('c, 'z) cpu_scheme \<Rightarrow> FIRCLSDwarfCFIRecord \<Rightarrow> 'c compute_registers" where
  "arm_FIRCLSCompactUnwindComputeRegisters masks cpu garbage e (Some context) (Some result) (Some registers) =
     (let mode = encoding result AND UNWIND_ARM64_MODE_MASK masks in
      if mode = UNWIND_ARM64_MODE_FRAMELESS masks
      then Some (FIRCLSUnwindWithLRRegister cpu (Some registers))
      else if mode = UNWIND_ARM64_MODE_DWARF masks
      then FIRCLSCompactUnwindDwarfFrame e cpu garbage (Some context)
             (ucast (encoding result AND UNWIND_ARM64_DWARF_SECTION_OFFSET masks)) (Some registers)
      else if mode = UNWIND_ARM64_MODE_FRAME masks
      then Some (arm_FIRCLSUnwindWithFramePointer cpu e (Some registers) False)
      else Some (False, Some registers))"
| "arm_FIRCLSCompactUnwindComputeRegisters masks cpu garbage e context result registers =
     Some (False, registers)"

lemmas [c_eval] = FIRCLSUnwindWithLRRegister.simps arm_FIRCLSCompactUnwindComputeRegisters.simps

end
