(* ===== verification/Unwind.thy ===== *)
theory Unwind
  imports UnwindX86 UnwindArm
begin

text \<open>
  \<open>Crashlytics/Unwind/FIRCLSUnwind.c\<close>: one frame of a stack walk.  What each CPU supplies
  (\<open>FIRCLSUnwind_arch.h\<close>) is the record \<open>arch\<close>, with the two 64-bit CPUs as instances.  The
  limit of frames is \<open>FIRCLSUnwindMaxFrames\<close>; its value on iOS is a sixth of the one used here.
\<close>

section \<open>CPUs\<close>

record 'c arch = "'c cpu" +
  FIRCLSCompactUnwindComputeRegisters :: "'c compute_registers"
  FIRCLSUnwindWithFramePointer :: "env \<Rightarrow> image_context \<Rightarrow> 'c ptr \<Rightarrow> bool \<Rightarrow> (bool \<times> 'c ptr) option"

definition x86_64_arch :: "x86_sdk \<Rightarrow> FIRCLSDwarfCFIRecord \<Rightarrow> x86_64 arch" where
  "x86_64_arch sdk garbage = cpu.extend x86_64_cpu
     \<lparr>FIRCLSCompactUnwindComputeRegisters = x86_FIRCLSCompactUnwindComputeRegisters sdk garbage,
      FIRCLSUnwindWithFramePointer = x86_FIRCLSUnwindWithFramePointer sdk\<rparr>"

definition arm64_arch :: "arm64_masks \<Rightarrow> 'o arm64_sdk \<Rightarrow> FIRCLSDwarfCFIRecord \<Rightarrow> 'o arm64 arch" where
  "arm64_arch masks sdk garbage = cpu.extend (arm64_cpu sdk)
     \<lparr>FIRCLSCompactUnwindComputeRegisters =
        arm_FIRCLSCompactUnwindComputeRegisters masks (arm64_cpu sdk) garbage,
      FIRCLSUnwindWithFramePointer = (\<lambda>e ctx r allowScanning.
        Some (arm_FIRCLSUnwindWithFramePointer (arm64_cpu sdk) e r allowScanning))\<rparr>"

section \<open>The walk\<close>

definition FIRCLSUnwindMaxFrames :: u32 where
  [c_eval]: "FIRCLSUnwindMaxFrames = 600000"

record 'c FIRCLSUnwindContext =
  registers :: 'c
  frameCount :: u32
  compactUnwindState :: FIRCLSCompactUnwindContext
  lastFramePC :: u64
  repeatCount :: u32

fun FIRCLSUnwindInit ::
  "'c FIRCLSUnwindContext ptr \<Rightarrow> 'c \<Rightarrow> bool \<times> 'c FIRCLSUnwindContext ptr" where
  "FIRCLSUnwindInit None threadContext = (False, None)"
| "FIRCLSUnwindInit (Some context) threadContext =
     (True, Some \<lparr>registers = threadContext, frameCount = 0, compactUnwindState = compact_context_zero,
                  lastFramePC = 0, repeatCount = 0\<rparr>)"

fun FIRCLSUnwindGetPC :: "('c, 'z) thread_state_scheme \<Rightarrow> 'c FIRCLSUnwindContext ptr \<Rightarrow> u64" where
  "FIRCLSUnwindGetPC cpu None = 0"
| "FIRCLSUnwindGetPC cpu (Some context) = FIRCLSThreadContextGetPC cpu (Some (registers context))"

fun FIRCLSUnwindGetStackPointer ::
  "('c, 'z) thread_state_scheme \<Rightarrow> 'c FIRCLSUnwindContext ptr \<Rightarrow> u64" where
  "FIRCLSUnwindGetStackPointer cpu None = 0"
| "FIRCLSUnwindGetStackPointer cpu (Some context) =
     FIRCLSThreadContextGetStackPointer cpu (Some (registers context))"

fun FIRCLSUnwindGetFramePointer ::
  "('c, 'z) thread_state_scheme \<Rightarrow> 'c FIRCLSUnwindContext ptr \<Rightarrow> u64" where
  "FIRCLSUnwindGetFramePointer cpu None = 0"
| "FIRCLSUnwindGetFramePointer cpu (Some context) =
     FIRCLSThreadContextGetFramePointer cpu (Some (registers context))"

fun FIRCLSUnwindGetFrameRepeatCount :: "'c FIRCLSUnwindContext ptr \<Rightarrow> u32" where
  "FIRCLSUnwindGetFrameRepeatCount None = 0"
| "FIRCLSUnwindGetFrameRepeatCount (Some context) = repeatCount context"

definition FIRCLSUnwindContextHasValidPCAndSP ::
  "('c, 'z) thread_state_scheme \<Rightarrow> 'c FIRCLSUnwindContext ptr \<Rightarrow> bool" where
  [c_eval]: "FIRCLSUnwindContextHasValidPCAndSP cpu context \<longleftrightarrow>
     FIRCLSIsValidPointer (FIRCLSUnwindGetPC cpu context) \<and>
     FIRCLSIsValidPointer (FIRCLSUnwindGetStackPointer cpu context)"

fun FIRCLSUnwindWithCompactUnwindInfo ::
  "env \<Rightarrow> image_context \<Rightarrow> compact_sdk \<Rightarrow> ('c, 'z) arch_scheme \<Rightarrow> 'c FIRCLSUnwindContext ptr \<Rightarrow>
   (bool \<times> 'c FIRCLSUnwindContext ptr) option" where
  "FIRCLSUnwindWithCompactUnwindInfo e images sdk cpu None = Some (False, None)"
| "FIRCLSUnwindWithCompactUnwindInfo e images sdk cpu (Some context) =
     (let pc = FIRCLSUnwindGetPC cpu (Some context);
          (found, node) = addr_of node_zero (FIRCLSBinaryImageSafeFindImageForAddress images pc) in
      if \<not> found then Some (False, Some context)
      else if \<not> FIRCLSBinaryImageSafeHasUnwindInfo node then Some (False, Some context)
      else let (ok, state) = addr_of (compactUnwindState context)
             (\<lambda>s. FIRCLSCompactUnwindInit e sdk s (node_unwindInfo node) (node_ehFrame node)
                    (node_baseAddress node));
             context = context\<lparr>compactUnwindState := state\<rparr> in
      if \<not> ok then Some (False, Some context)
      else do {
        (ok, state, regs) \<leftarrow> addr_of2M (compactUnwindState context) (registers context)
           (FIRCLSCompactUnwindLookupAndCompute e sdk cpu (FIRCLSCompactUnwindComputeRegisters cpu));
        Some (ok, Some (context\<lparr>compactUnwindState := state, registers := regs\<rparr>)) })"

text \<open>The part for every frame but the first: compact unwinding, end of the stack, frame pointer.\<close>

definition unwind_strategies ::
  "env \<Rightarrow> image_context \<Rightarrow> compact_sdk \<Rightarrow> ('c, 'z) arch_scheme \<Rightarrow> 'c FIRCLSUnwindContext \<Rightarrow>
   (bool \<times> 'c FIRCLSUnwindContext) option" where
  [c_eval]: "unwind_strategies e images sdk cpu context = do {
     (ok, context) \<leftarrow> addr_ofM context (FIRCLSUnwindWithCompactUnwindInfo e images sdk cpu);
     if ok then Some (True, context)
     else if FIRCLSUnwindGetFramePointer cpu (Some context) = 0
     then (let (ok, regs) = addr_of (registers context) (\<lambda>r. FIRCLSThreadContextSetPC cpu r 0) in
           Some (ok, context\<lparr>registers := regs\<rparr>))
     else do {
       (ok, regs) \<leftarrow> addr_ofM (registers context)
          (\<lambda>r. FIRCLSUnwindWithFramePointer cpu e images r (frameCount context = 1));
       Some (ok, context\<lparr>registers := regs\<rparr>) } }"

fun FIRCLSUnwindNextFrameUsingAllStrategies ::
  "env \<Rightarrow> image_context \<Rightarrow> compact_sdk \<Rightarrow> ('c, 'z) arch_scheme \<Rightarrow> 'c FIRCLSUnwindContext ptr \<Rightarrow>
   (bool \<times> 'c FIRCLSUnwindContext ptr) option" where
  "FIRCLSUnwindNextFrameUsingAllStrategies e images sdk cpu None = Some (False, None)"
| "FIRCLSUnwindNextFrameUsingAllStrategies e images sdk cpu (Some context) =
     (if FIRCLSUnwindMaxFrames \<le> frameCount context then Some (False, Some context)
      else
        let pc = FIRCLSUnwindGetPC cpu (Some context);
            pc = (if 0 < frameCount context then pc - 1 else pc);
            (ok, regs) = (if 0 < frameCount context
                          then addr_of (registers context) (\<lambda>r. FIRCLSThreadContextSetPC cpu r pc)
                          else (True, registers context));
            context = context\<lparr>registers := regs\<rparr> in
        if \<not> ok then Some (False, Some context)
        else if \<not> FIRCLSIsValidPointer pc then Some (False, Some context)
        else if frameCount context = 0 then Some (True, Some context)
        else map_option (apsnd Some) (unwind_strategies e images sdk cpu context))"

fun FIRCLSUnwindNextFrame ::
  "env \<Rightarrow> image_context \<Rightarrow> compact_sdk \<Rightarrow> ('c, 'z) arch_scheme \<Rightarrow> 'c FIRCLSUnwindContext ptr \<Rightarrow>
   (bool \<times> 'c FIRCLSUnwindContext ptr) option" where
  "FIRCLSUnwindNextFrame e images sdk cpu None = Some (False, None)"
| "FIRCLSUnwindNextFrame e images sdk cpu (Some context) =
     (if \<not> FIRCLSUnwindContextHasValidPCAndSP cpu (Some context) then Some (False, Some context)
      else do {
        (ok, context) \<leftarrow> addr_ofM context (FIRCLSUnwindNextFrameUsingAllStrategies e images sdk cpu);
        if \<not> ok then Some (False, Some context)
        else
          let pc = FIRCLSUnwindGetPC cpu (Some context);
              sp = FIRCLSUnwindGetStackPointer cpu (Some context) in
          if \<not> FIRCLSIsValidPointer pc then Some (False, Some context)
          else if \<not> FIRCLSIsValidPointer sp then Some (False, Some context)
          else
            let context = (if lastFramePC context = pc
                           then context\<lparr>repeatCount := repeatCount context + 1\<rparr>
                           else context\<lparr>repeatCount := 0\<rparr>) in
            Some (True, Some (context\<lparr>frameCount := frameCount context + 1, lastFramePC := pc\<rparr>)) })"

lemmas [c_eval] = FIRCLSUnwindInit.simps FIRCLSUnwindWithCompactUnwindInfo.simps
  FIRCLSUnwindNextFrameUsingAllStrategies.simps FIRCLSUnwindNextFrame.simps addr_of_def addr_ofM_def
  addr_of2M_def x86_64_arch_def arm64_arch_def cpu.extend_def

end
