(* ===== verification/CompactSpec.thy ===== *)
theory CompactSpec
  imports CompactUnwind
begin

text \<open>
  What the searches of \<open>CompactUnwind\<close> find.  Both levels are compared with one linear scan of
  a sorted list of offsets (\<open>position\<close>): the first level finds the entry the address falls in,
  the second level every entry but the last one of its page.
\<close>

section \<open>Positions in a sorted list\<close>

text \<open>The number of leading offsets that are not above the address.\<close>

definition position :: "u64 list \<Rightarrow> u64 \<Rightarrow> nat" where
  "position offs a = length (takeWhile (\<lambda>v. v \<le> a) offs)"

lemma position_le: "position offs a \<le> length offs"
  by (simp add: position_def length_takeWhile_le)

lemma position_stops: "j < length offs \<Longrightarrow> a < offs ! j \<Longrightarrow> position offs a \<le> j"
proof (rule ccontr)
  assume "\<not> position offs a \<le> j" and "j < length offs" and above: "a < offs ! j"
  then have "offs ! j \<in> set (takeWhile (\<lambda>v. v \<le> a) offs)"
    unfolding position_def by (metis not_le nth_mem takeWhile_nth)
  then show False using above by (auto dest: set_takeWhileD)
qed

lemma position_passes:
  assumes "sorted offs" and "j < length offs" and "offs ! j \<le> a"
  shows "j < position offs a"
proof (rule ccontr)
  assume "\<not> j < position offs a"
  then have le: "position offs a \<le> j" by simp
  then have "position offs a < length offs" using assms(2) by simp
  then have "\<not> offs ! position offs a \<le> a"
    unfolding position_def by (rule nth_length_takeWhile)
  moreover have "offs ! position offs a \<le> offs ! j" using assms(1,2) le by (simp add: sorted_nth_mono)
  ultimately show False using assms(3) by simp
qed

lemma position_between:
  assumes "sorted offs" and "j + 1 < length offs" and "offs ! j \<le> a" and "a < offs ! (j + 1)"
  shows "position offs a = j + 1"
  using position_passes [of offs j a] position_stops [of "j + 1" offs a] assms by simp

lemma position_last:
  assumes "sorted offs" and "offs \<noteq> []"
  shows "a < last offs \<longleftrightarrow> position offs a < length offs"
proof -
  have last: "last offs = offs ! (length offs - 1)" using assms(2) by (rule last_conv_nth)
  have len: "length offs - 1 < length offs" using assms(2) by simp
  show ?thesis
  proof (cases "a < last offs")
    case True
    then show ?thesis using position_stops [OF len, of a] len unfolding last by linarith
  next
    case False
    then have "length offs - 1 < position offs a"
      unfolding last by (intro position_passes [OF assms(1) len]) (simp add: not_less)
    then show ?thesis using False len by simp
  qed
qed

lemma position_nth:
  assumes "position offs a < length offs"
  shows "a < offs ! position offs a"
  using assms nth_length_takeWhile [of "\<lambda>v. v \<le> a" offs] by (simp add: position_def not_le)

lemma position_before: "i < position offs a \<Longrightarrow> offs ! i \<le> a"
proof -
  assume "i < position offs a"
  then have "offs ! i \<in> set (takeWhile (\<lambda>v. v \<le> a) offs)"
    unfolding position_def by (metis nth_mem takeWhile_nth)
  then show ?thesis by (auto dest: set_takeWhileD)
qed

section \<open>The second-level search\<close>

definition entries_at :: "env \<Rightarrow> u64 \<Rightarrow> u32 list \<Rightarrow> bool" where
  "entries_at e array es \<longleftrightarrow> (\<forall>i < length es. load_u32 e array (of_nat i) = Some (es ! i))"

definition entry_offsets :: "compact_sdk \<Rightarrow> u32 list \<Rightarrow> u64 list" where
  "entry_offsets sdk es = map (\<lambda>x. ucast (UNWIND_INFO_COMPRESSED_ENTRY_FUNC_OFFSET sdk x)) es"

lemma u16_length: "length es = unat (n :: u16) \<Longrightarrow> length es < 65536"
  using unsigned_less [of n] by simp

lemma of_nat32_less: "i < 65536 \<Longrightarrow> j < 65536 \<Longrightarrow> (of_nat i :: u32) < of_nat j \<longleftrightarrow> i < j"
  by (simp add: word_less_nat_alt unat_of_nat32)

lemma of_nat32_eq: "i < 65536 \<Longrightarrow> j < 65536 \<Longrightarrow> (of_nat i :: u32) = of_nat j \<longleftrightarrow> i = j"
  by (simp add: word_unat_eq_iff unat_of_nat32)

lemma of_nat32_mid: "i < 65536 \<Longrightarrow> j < 65536 \<Longrightarrow> (of_nat i + of_nat j :: u32) div 2 = of_nat ((i + j) div 2)"
  by (simp add: word_unat_eq_iff unat_div unat_of_nat32 flip: of_nat_add)

lemma ucast_count: "length es = unat (n :: u16) \<Longrightarrow> (ucast n :: u32) = of_nat (length es)"
  by (simp add: word_unat_eq_iff unat_of_nat32 unsigned_ucast_eq)

lemma bsearch_loop_result:
  assumes "entries_at e array es" and "length es = unat n" and "es \<noteq> []"
    and "sorted offs" and "offs = entry_offsets sdk es"
    and "lo < hi \<or> lo = 0" and "lo \<le> hi" and "hi \<le> length es"
    and "hi < length es \<Longrightarrow> a < offs ! hi" and "0 < lo \<Longrightarrow> offs ! lo \<le> a"
  shows "bsearch_loop e sdk a n array (of_nat lo) (of_nat hi) =
    Some (a < last offs, of_nat (position offs a - 1))"
  using assms(6-)
proof (induction "hi - lo" arbitrary: lo hi rule: less_induct)
  case less
  note n = u16_length [OF assms(2)] and count = ucast_count [OF assms(2)]
  have len: "length offs = length es" using assms(5) by (simp add: entry_offsets_def)
  show ?case
  proof (cases "lo < hi")
    case False
    then have "lo = 0" "hi = 0" using less.prems by auto
    moreover have "position offs a = 0"
      using position_stops [of 0 offs a] less.prems(4) \<open>hi = 0\<close> assms(3) len by simp
    moreover have "a < last offs"
      using calculation(3) position_last [OF assms(4), of a] assms(3) len by force
    ultimately show ?thesis using assms(3) n count
      by (subst bsearch_loop.simps) (simp add: of_nat32_less [of 0, simplified])
  next
    case True
    define mid where "mid = (lo + hi) div 2"
    have mid: "lo \<le> mid" "mid < hi" using True by (auto simp: mid_def)
    have bounds: "lo < 65536" "hi < 65536" "mid < 65536" "mid + 1 < 65536"
      using mid less.prems n by auto
    have load: "load_u32 e array (of_nat mid) = Some (es ! mid)"
      using assms(1) mid less.prems by (simp add: entries_at_def)
    have nth: "\<And>j. j < length es \<Longrightarrow>
        ucast (UNWIND_INFO_COMPRESSED_ENTRY_FUNC_OFFSET sdk (es ! j)) = offs ! j"
      using assms(5) by (simp add: entry_offsets_def)
    have word: "(of_nat lo :: u32) < of_nat hi"
      "((of_nat lo + of_nat hi :: u32)) div 2 = of_nat mid"
      "(of_nat hi :: u32) \<noteq> of_nat mid"
      using True bounds mid by (simp_all add: of_nat32_less of_nat32_mid mid_def [symmetric] of_nat32_eq)
    have last: "(of_nat mid = (ucast n :: u32) - 1) \<longleftrightarrow> mid + 1 = length es"
      using of_nat32_eq [of "mid + 1" "length es"] bounds(4) n count
      by (simp add: eq_diff_eq add.commute)
    note step = bsearch_loop.simps [of e sdk a n array "of_nat lo" "of_nat hi"]
    have midlen: "mid < length es" using mid less.prems by simp
    show ?thesis
    proof (cases "a < offs ! mid")
      case above: True
      then have "lo < mid \<or> lo = 0" using mid less.prems(5) by (cases "lo = mid") force+
      then have "bsearch_loop e sdk a n array (of_nat lo) (of_nat mid) =
          Some (a < last offs, of_nat (position offs a - 1))"
        using less.hyps [of mid lo] above mid less.prems by simp
      then show ?thesis using above by (simp add: step word load Let_def nth midlen)
    next
      case below: False
      show ?thesis
      proof (cases "mid + 1 = length es")
        case True
        have "position offs a = length es"
          using position_passes [OF assms(4), of mid a] position_le [of offs a] below midlen True len
          by (simp add: not_less)
        then have "\<not> a < last offs" using position_last [OF assms(4), of a] assms(3) len by force
        moreover have "position offs a - 1 = mid" using \<open>position offs a = length es\<close> True by simp
        ultimately show ?thesis using below True
          by (simp add: step word load Let_def nth midlen last)
      next
        case False
        then have next_len: "mid + 1 < length es" using midlen by simp
        have load': "load_u32 e array (of_nat mid + 1) = Some (es ! (mid + 1))"
          using assms(1) next_len unfolding entries_at_def by (metis of_nat_Suc Suc_eq_plus1 add.commute)
        show ?thesis
        proof (cases "a < offs ! (mid + 1)")
          case found: True
          have "position offs a = mid + 1"
            using position_between [OF assms(4), of mid a] next_len below found len by simp
          moreover have "a < last offs"
            using calculation position_last [OF assms(4), of a] next_len len by force
          moreover have "(of_nat mid :: u32) < ucast n"
            using midlen n count bounds by (simp add: of_nat32_less)
          ultimately show ?thesis using below found False
            by (simp add: step word load load' Let_def nth [OF midlen] nth [OF next_len, simplified] last)
        next
          case right: False
          have "mid + 1 < hi" using right mid less.prems(4) next_len by (cases "mid + 1 = hi") auto
          then have "bsearch_loop e sdk a n array (of_nat (mid + 1)) (of_nat hi) =
              Some (a < last offs, of_nat (position offs a - 1))"
            using less.hyps [of hi "mid + 1"] right mid less.prems next_len by auto
          then have "bsearch_loop e sdk a n array (of_nat mid + 1) (of_nat hi) =
              Some (a < last offs, of_nat (position offs a - 1))"
            by (simp add: add.commute)
          then show ?thesis using below right False next_len
            by (simp add: step word load load' Let_def nth [OF midlen] nth [OF next_len, simplified] last)
        qed
      qed
    qed
  qed
qed

lemma search_page:
  assumes "entries_at e array es" and "length es = unat n" and "es \<noteq> []"
    and "sorted (entry_offsets sdk es)" and "array \<noteq> 0" and "a \<noteq> 0"
    and "k = position (entry_offsets sdk es) a"
  shows "addr_ofM i (\<lambda>i. FIRCLSCompactUnwindBinarySearchSecondLevel e sdk a i n array) =
    Some (k < length es, of_nat (k - 1))"
proof -
  have "(ucast n :: u32) = of_nat (length es)" using assms(2) by (rule ucast_count)
  moreover have "n \<noteq> 0" using assms(2,3) by auto
  moreover have "bsearch_loop e sdk a n array (of_nat 0) (of_nat (length es)) =
      Some (a < last (entry_offsets sdk es), of_nat (k - 1))"
    unfolding assms(7) by (rule bsearch_loop_result [OF assms(1-4) refl]) simp_all
  moreover have "a < last (entry_offsets sdk es) \<longleftrightarrow> k < length es"
    using position_last [OF assms(4), of a] assms(3,7) by (simp add: entry_offsets_def)
  ultimately show ?thesis using assms(5,6) by simp
qed

text \<open>
  The binary search of a page always ends, and it is the linear scan for the last entry that
  starts at or before the address, except that it reports the last entry of the page as not found.
\<close>

theorem second_level_search:
  assumes "entries_at e array es" and "length es = unat n" and "es \<noteq> []"
    and "sorted (entry_offsets sdk es)" and "array \<noteq> 0" and "a \<noteq> 0"
  shows "addr_ofM i (\<lambda>i. FIRCLSCompactUnwindBinarySearchSecondLevel e sdk a i n array) =
    Some (a < last (entry_offsets sdk es), of_nat (position (entry_offsets sdk es) a - 1))"
  using search_page [OF assms refl, of i] position_last [OF assms(4), of a] assms(3)
  by (simp add: entry_offsets_def)

section \<open>The first-level search\<close>

definition index_at ::
  "env \<Rightarrow> compact_sdk \<Rightarrow> u64 \<Rightarrow> unwind_info_section_header_index_entry list \<Rightarrow> bool" where
  "index_at e sdk p idx \<longleftrightarrow>
     length idx < 2 ^ 32 \<and> (\<forall>i < length idx. index_entry e sdk p (of_nat i) = Some (idx ! i))"

definition index_offsets :: "unwind_info_section_header_index_entry list \<Rightarrow> u64 list" where
  "index_offsets idx = map (\<lambda>x. ucast (functionOffset x)) idx"

lemma index_entry_offset:
  "index_entry e sdk p i = Some x \<Longrightarrow> index_functionOffset e sdk p i = Some (functionOffset x)"
  by (auto simp: index_entry_def index_functionOffset_def bind_eq_Some_conv)

definition entry_found ::
  "FIRCLSCompactUnwindContext \<Rightarrow> unwind_info_section_header_index_entry list \<Rightarrow> nat \<Rightarrow>
   FIRCLSCompactUnwindContext" where
  "entry_found context idx k =
     context\<lparr>firstLevelNextFunctionOffset := functionOffset (idx ! k), indexHeader := idx ! (k - 1)\<rparr>"

lemma first_level_loop_result:
  assumes "index_at e sdk p idx" and "sorted (index_offsets idx)"
    and "k = position (index_offsets idx) a"
    and "i + n + 1 = length idx" and "i < k \<or> k = 0"
  shows "first_level_loop n e sdk context p a (of_nat i) =
    Some (if 0 < k \<and> k < length idx then (True, entry_found context idx k) else (False, context))"
  using assms(4,5)
proof (induction n arbitrary: i)
  case 0
  then show ?case using position_le [of "index_offsets idx" a] assms(3)
    by (auto simp: index_offsets_def)
next
  case (Suc n)
  let ?vs = "index_offsets idx"
  have len: "length ?vs = length idx" by (simp add: index_offsets_def)
  have i: "i + 1 < length idx" using Suc.prems by simp
  have nth: "\<And>j. j < length idx \<Longrightarrow> ucast (functionOffset (idx ! j)) = ?vs ! j"
    by (simp add: index_offsets_def)
  have entry: "index_entry e sdk p (of_nat i) = Some (idx ! i)"
    "index_functionOffset e sdk p (of_nat i) = Some (functionOffset (idx ! i))"
    using assms(1) i by (simp_all add: index_at_def index_entry_offset)
  have "index_functionOffset e sdk p (of_nat (i + 1)) = Some (functionOffset (idx ! (i + 1)))"
    using assms(1) i unfolding index_at_def by (blast intro: index_entry_offset)
  then have next_entry:
    "index_functionOffset e sdk p (of_nat i + 1) = Some (functionOffset (idx ! (i + 1)))"
    by (simp add: add.commute)
  show ?case
  proof (cases "?vs ! i \<le> a \<and> a < ?vs ! (i + 1)")
    case True
    then have "k = i + 1" using position_between [OF assms(2), of i a] assms(3) i len by simp
    then show ?thesis using True i by (simp add: entry next_entry nth entry_found_def)
  next
    case False
    have "i + 1 < k \<or> k = 0"
    proof (cases "k = 0")
      case nonzero: False
      then have "?vs ! i \<le> a" using Suc.prems(2) assms(3) by (auto intro: position_before)
      then have "?vs ! (i + 1) \<le> a" using False by simp
      then show ?thesis using position_passes [OF assms(2), of "i + 1" a] assms(3) i len by simp
    qed simp
    then have "first_level_loop n e sdk context p a (of_nat i + 1) =
        Some (if 0 < k \<and> k < length idx then (True, entry_found context idx k) else (False, context))"
      using Suc.IH [of "i + 1"] Suc.prems(1) by (simp add: add.commute)
    then show ?thesis using False i by (auto simp: entry next_entry nth)
  qed
qed

lemma first_level_result:
  assumes "index_at e sdk (FIRCLSCompactUnwindGetIndexData context) idx"
    and "sorted (index_offsets idx)" and "length idx = unat (indexCount (unwindHeader context))"
    and "2 \<le> length idx" and "FIRCLSCompactUnwindGetIndexData context \<noteq> 0"
    and "loadAddress context \<le> address"
    and "k = position (index_offsets idx) (address - loadAddress context)"
  shows "FIRCLSCompactUnwindLookupFirstLevel e sdk (Some context) address =
    Some (if 0 < k \<and> k < length idx then (True, Some (entry_found context idx k))
          else (False, Some context))"
proof -
  let ?count = "indexCount (unwindHeader context)"
  have "\<not> ?count < 2" using assms(3,4) by (simp add: word_less_nat_alt)
  moreover have "unat (?count - 1) = length idx - 1"
    using assms(3,4) word_sub_1_unat [of ?count] by fastforce
  moreover have "first_level_loop (length idx - 1) e sdk context (FIRCLSCompactUnwindGetIndexData context)
      (address - loadAddress context) (of_nat 0) =
    Some (if 0 < k \<and> k < length idx then (True, entry_found context idx k) else (False, context))"
    using assms(4) by (intro first_level_loop_result [OF assms(1,2,7)]) auto
  ultimately show ?thesis using assms(5,6) by (simp add: not_less Let_def)
qed

text \<open>
  Over a sorted first-level table the lookup succeeds exactly for the addresses from the first
  function up to the end of the last one, and then the kept entry starts at or before the address,
  which lies before the kept end.
\<close>

theorem first_level_search:
  assumes "index_at e sdk (FIRCLSCompactUnwindGetIndexData context) idx"
    and "sorted (index_offsets idx)" and "length idx = unat (indexCount (unwindHeader context))"
    and "2 \<le> length idx" and "FIRCLSCompactUnwindGetIndexData context \<noteq> 0"
    and "loadAddress context \<le> address" and "a = address - loadAddress context"
  shows "\<exists>ok c. FIRCLSCompactUnwindLookupFirstLevel e sdk (Some context) address = Some (ok, Some c) \<and>
    (ok \<longleftrightarrow> hd (index_offsets idx) \<le> a \<and> a < last (index_offsets idx)) \<and>
    (ok \<longrightarrow> indexHeader c \<in> set idx \<and> ucast (functionOffset (indexHeader c)) \<le> a \<and>
             a < ucast (firstLevelNextFunctionOffset c))"
proof -
  let ?vs = "index_offsets idx"
  let ?k = "position ?vs a"
  have len: "length ?vs = length idx" by (simp add: index_offsets_def)
  have ne: "?vs \<noteq> []" using assms(4) len by (cases ?vs) auto
  have "hd ?vs \<le> a \<longleftrightarrow> 0 < ?k"
    using position_passes [OF assms(2), of 0 a] position_before [of 0 ?vs a] ne
    by (auto simp: hd_conv_nth)
  moreover have "a < last ?vs \<longleftrightarrow> ?k < length idx"
    using position_last [OF assms(2) ne, of a] len by simp
  moreover have "ucast (functionOffset (idx ! (?k - 1))) \<le> a" "a < ucast (functionOffset (idx ! ?k))"
    if "0 < ?k" "?k < length idx"
    using that position_before [of "?k - 1" ?vs a] position_nth [of ?vs a] len
    by (simp_all add: index_offsets_def)
  ultimately show ?thesis
    using first_level_result [OF assms(1-6) refl, folded assms(7)]
    by (auto simp: entry_found_def)
qed

section \<open>The lookup in a compressed page\<close>

definition compressed_page ::
  "env \<Rightarrow> compact_sdk \<Rightarrow> FIRCLSCompactUnwindContext \<Rightarrow> u32 list \<Rightarrow> u32 list \<Rightarrow> bool" where
  "compressed_page e sdk context es encs \<longleftrightarrow>
     (let p = FIRCLSCompactUnwindGetSecondLevelData context in p \<noteq> 0 \<and>
      (\<exists>off array n. load_field e p (offsetof_entryPageOffset sdk) 2 = Some (off :: u16) \<and>
         ptr_add p (ucast off) = Some array \<and> array \<noteq> 0 \<and>
         load_field e p (offsetof_entryCount sdk) 2 = Some (n :: u16) \<and> length es = unat n \<and>
         entries_at e array es) \<and>
      es \<noteq> [] \<and> sorted (entry_offsets sdk es) \<and> length encs = length es \<and>
      (\<forall>i < length es. compressed_encoding e sdk context p (es ! i) = Some (encs ! i)))"

text \<open>The image lies below the end of the address space and its functions in its first 4 GB.\<close>

definition image_in_range :: "compact_sdk \<Rightarrow> FIRCLSCompactUnwindContext \<Rightarrow> u32 list \<Rightarrow> bool" where
  "image_in_range sdk context es \<longleftrightarrow> unat (loadAddress context) + 2 ^ 32 < 2 ^ 64 \<and>
     (\<forall>x \<in> set es. unat (UNWIND_INFO_COMPRESSED_ENTRY_FUNC_OFFSET sdk x) +
        unat (functionOffset (indexHeader context)) < 2 ^ 32)"

lemma entry_range:
  assumes "image_in_range sdk context es" and "x \<in> set es"
    and "v = UNWIND_INFO_COMPRESSED_ENTRY_FUNC_OFFSET sdk x"
    and "base = FIRCLSCompactUnwindGetIndexFunctionOffset context"
  shows "loadAddress context + ucast (v + functionOffset (indexHeader context)) = base + ucast v"
    and "base < pc \<Longrightarrow> pc < base + ucast v \<longleftrightarrow> pc - base < ucast v"
proof -
  have sum: "unat v + unat (functionOffset (indexHeader context)) < 2 ^ 32"
    and load: "unat (loadAddress context) + 2 ^ 32 < 2 ^ 64"
    using assms(1-3) by (auto simp: image_in_range_def)
  have "unat (v + functionOffset (indexHeader context)) = unat v + unat (functionOffset (indexHeader context))"
    using sum by (simp add: unat_word_ariths)
  then show "loadAddress context + ucast (v + functionOffset (indexHeader context)) = base + ucast v"
    using sum load
    by (simp add: assms(4) FIRCLSCompactUnwindGetIndexFunctionOffset_def word_unat_eq_iff unat_word_ariths)
  have "unat base = unat (loadAddress context) + unat (functionOffset (indexHeader context))"
    using sum load
    by (simp add: assms(4) FIRCLSCompactUnwindGetIndexFunctionOffset_def unat_word_ariths)
  then have "unat (base + ucast v) = unat base + unat v"
    using sum load by (simp add: unat_word_ariths)
  then show "base < pc \<Longrightarrow> pc < base + ucast v \<longleftrightarrow> pc - base < ucast v"
    by (simp add: word_less_nat_alt unat_sub_if_size word_size) linarith
qed

lemma compressed_function_end_result:
  assumes "entries_at e array es" and "length es = unat n" and "image_in_range sdk context es"
    and "i < length es" and "base = FIRCLSCompactUnwindGetIndexFunctionOffset context"
  shows "\<exists>x. compressed_function_end e sdk context n array (of_nat i) = Some x \<and>
    (i + 1 < length es \<longrightarrow> x = base + entry_offsets sdk es ! (i + 1))"
proof -
  note n = u16_length [OF assms(2)] and count = ucast_count [OF assms(2)]
  have "(ucast n :: u32) - 1 = of_nat (length es - 1)"
    using assms(4) count by (simp add: of_nat_diff)
  then have cond: "(of_nat i :: u32) < ucast n - 1 \<longleftrightarrow> i + 1 < length es"
    using of_nat32_less [of i "length es - 1"] n assms(4) by (simp only: less_diff_conv)
  show ?thesis
  proof (cases "i + 1 < length es")
    case True
    have "load_u32 e array (of_nat i + 1) = Some (es ! (i + 1))"
      using assms(1) True unfolding entries_at_def by (metis of_nat_Suc Suc_eq_plus1 add.commute)
    then show ?thesis using True cond entry_range(1) [OF assms(3) nth_mem [OF True] refl assms(5)]
      by (simp add: compressed_function_end_def entry_offsets_def)
  qed (simp add: compressed_function_end_def cond)
qed

lemma compressed_lookup:
  assumes page: "compressed_page e sdk context es encs" and range: "image_in_range sdk context es"
    and base: "base = FIRCLSCompactUnwindGetIndexFunctionOffset context"
    and k: "k = position (entry_offsets sdk es) (pc - base)"
  shows "\<exists>ok r. FIRCLSCompactUnwindLookupSecondLevelCompressed e sdk (Some context) pc (Some result) =
      Some (ok, Some r) \<and>
    (ok \<longleftrightarrow> base < pc \<and> 0 < k \<and> k < length es \<and> encs ! (k - 1) \<noteq> 0) \<and>
    (ok \<longrightarrow> r = \<lparr>encoding = encs ! (k - 1),
                 functionStart = base + entry_offsets sdk es ! (k - 1),
                 functionEnd = base + entry_offsets sdk es ! k, lsda = 0, personality = 0\<rparr>)"
proof -
  let ?p = "FIRCLSCompactUnwindGetSecondLevelData context" and ?offs = "entry_offsets sdk es"
  let ?a = "FIRCLSCompactUnwindGetTargetAddress context pc"
  obtain off :: u16 and array and n :: u16 where mem: "load_field e ?p (offsetof_entryPageOffset sdk) 2 = Some off"
      "ptr_add ?p (ucast off) = Some array" "array \<noteq> 0"
      "load_field e ?p (offsetof_entryCount sdk) 2 = Some n" "length es = unat n" "entries_at e array es"
    and p: "?p \<noteq> 0" and es: "es \<noteq> []" "sorted ?offs"
    and encs: "\<And>i. i < length es \<Longrightarrow> compressed_encoding e sdk context ?p (es ! i) = Some (encs ! i)"
    using page by (auto simp: compressed_page_def Let_def)
  have len: "length ?offs = length es" by (simp add: entry_offsets_def)
  have nth: "\<And>j. j < length es \<Longrightarrow>
      ucast (UNWIND_INFO_COMPRESSED_ENTRY_FUNC_OFFSET sdk (es ! j)) = ?offs ! j"
    by (simp add: entry_offsets_def)
  note unfold = FIRCLSCompactUnwindLookupSecondLevelCompressed.simps(1) Let_def mem(1,2,4) p
  show ?thesis
  proof (cases "base < pc")
    case False
    then have "?a = 0" by (auto simp: FIRCLSCompactUnwindGetTargetAddress_def base Let_def)
    then show ?thesis using False p by (simp add: unfold addr_ofM_def ex_bool_eq)
  next
    case True
    then have a: "?a = pc - base" by (auto simp: FIRCLSCompactUnwindGetTargetAddress_def base [symmetric] Let_def)
    have search: "addr_ofM 0 (\<lambda>index.
        FIRCLSCompactUnwindBinarySearchSecondLevel e sdk ?a index n array) =
        Some (k < length es, of_nat (k - 1))"
      using True unfolding a by (intro search_page [OF mem(6,5) es mem(3) _ k]) auto
    show ?thesis
    proof (cases "k < length es")
      case False
      then show ?thesis by (simp add: unfold search ex_bool_eq)
    next
      case below: True
      then have i: "k - 1 < length es" by simp
      let ?x = "es ! (k - 1)"
      have load: "load_u32 e array (of_nat (k - 1)) = Some ?x"
        using mem(6) i unfolding entries_at_def by blast
      obtain fend where fend: "compressed_function_end e sdk context n array (of_nat (k - 1)) = Some fend"
        "k - 1 + 1 < length es \<Longrightarrow> fend = base + ?offs ! (k - 1 + 1)"
        using compressed_function_end_result [OF mem(6,5) range i base] by blast
      have start: "ucast (UNWIND_INFO_COMPRESSED_ENTRY_FUNC_OFFSET sdk ?x) + base = base + ?offs ! (k - 1)"
        using nth [OF i] by (simp add: add.commute)
      have before: "\<And>j. j < length es \<Longrightarrow> pc < base + ?offs ! j \<longleftrightarrow> pc - base < ?offs ! j"
        using entry_range(2) [OF range nth_mem refl base True] nth by simp
      note step = unfold search load fend(1) start base [symmetric] encs [OF i] below
      show ?thesis
      proof (cases "k = 0")
        case True
        then have "pc < base + ?offs ! 0"
          using position_nth [of ?offs "pc - base"] k before [of 0] below len by simp
        moreover have "load_u32 e array 0 = Some ?x" using load unfolding True by simp
        moreover have "compressed_function_end e sdk context n array 0 = Some fend"
          using fend(1) unfolding True by simp
        ultimately show ?thesis using True search below start
          by (simp add: unfold base [symmetric] ex_bool_eq add.commute [of base])
      next
        case False
        then have "\<not> pc < base + ?offs ! (k - 1)"
          using position_before [of "k - 1" ?offs "pc - base"] k before [OF i] by (simp add: not_less)
        moreover have "pc < base + ?offs ! k"
          using position_nth [of ?offs "pc - base"] k before [OF below] below len by simp
        moreover have "fend = base + ?offs ! k" using fend(2) False below by simp
        moreover obtain j where j: "k = Suc j" using False by (cases k) auto
        ultimately show ?thesis using \<open>base < pc\<close>
          by (auto simp: step [unfolded j diff_Suc_1] compact_result_zero_def add.commute [of base])
      qed
    qed
  qed
qed

section \<open>The whole lookup\<close>

text \<open>
  C23: Over a well-formed table the lookup succeeds exactly for the addresses after the start of the
  first function of their page and before its last entry whose function has an encoding, and gives
  that function's encoding and range.  So the first byte of a page and all of its last function
  are never found.
\<close>

theorem unwind_table_lookup:
  assumes "index_at e sdk (FIRCLSCompactUnwindGetIndexData context) idx"
    and "sorted (index_offsets idx)" and "length idx = unat (indexCount (unwindHeader context))"
    and "2 \<le> length idx" and "FIRCLSCompactUnwindGetIndexData context \<noteq> 0"
    and "loadAddress context \<le> pc"
    and "j = position (index_offsets idx) (pc - loadAddress context)" and "0 < j" and "j < length idx"
    and "found = entry_found context idx j"
    and "FIRCLSCompactUnwindGetSecondLevelPageKind e (Some found) = Some (UNWIND_SECOND_LEVEL_COMPRESSED sdk)"
    and "UNWIND_SECOND_LEVEL_COMPRESSED sdk \<noteq> UNWIND_SECOND_LEVEL_REGULAR sdk"
    and "compressed_page e sdk found es encs" and "image_in_range sdk found es"
    and "base = FIRCLSCompactUnwindGetIndexFunctionOffset found"
    and "k = position (entry_offsets sdk es) (pc - base)"
  shows "\<exists>ok r. FIRCLSCompactUnwindLookup e sdk (Some context) pc (Some result) =
      Some (ok, Some found, Some r) \<and>
    (ok \<longleftrightarrow> base < pc \<and> 0 < k \<and> k < length es \<and> encs ! (k - 1) \<noteq> 0) \<and>
    (ok \<longrightarrow> r = \<lparr>encoding = encs ! (k - 1),
                 functionStart = base + entry_offsets sdk es ! (k - 1),
                 functionEnd = base + entry_offsets sdk es ! k, lsda = 0, personality = 0\<rparr>)"
proof -
  have "FIRCLSCompactUnwindLookupFirstLevel e sdk (Some context) pc = Some (True, Some found)"
    using first_level_result [OF assms(1-7)] assms(8-10) by simp
  moreover obtain ok r where "FIRCLSCompactUnwindLookupSecondLevelCompressed e sdk (Some found) pc
      (Some result) = Some (ok, Some r)"
    "ok \<longleftrightarrow> base < pc \<and> 0 < k \<and> k < length es \<and> encs ! (k - 1) \<noteq> 0"
    "ok \<longrightarrow> r = \<lparr>encoding = encs ! (k - 1), functionStart = base + entry_offsets sdk es ! (k - 1),
        functionEnd = base + entry_offsets sdk es ! k, lsda = 0, personality = 0\<rparr>"
    using compressed_lookup [OF assms(13-16)] by blast
  moreover have "FIRCLSCompactUnwindLookupSecondLevel e sdk (Some found) pc (Some result) =
      FIRCLSCompactUnwindLookupSecondLevelCompressed e sdk (Some found) pc (Some result)"
    using assms(11,12) by (simp add: FIRCLSCompactUnwindLookupSecondLevel_def)
  ultimately show ?thesis by auto
qed

section \<open>A table in memory\<close>

text \<open>
  The layout that the SDK documents, and a table with one page of two functions at address 0x1000:
  the header, one common encoding, two index entries, the page header, its entries.
\<close>

definition macho_sdk :: compact_sdk where
  "macho_sdk = \<lparr>UNWIND_SECTION_VERSION = 1, UNWIND_SECOND_LEVEL_REGULAR = 2,
     UNWIND_SECOND_LEVEL_COMPRESSED = 3, sizeof_section_header = 28, offsetof_version = 0,
     offsetof_commonEncodingsArraySectionOffset = 4, offsetof_commonEncodingsArrayCount = 8,
     offsetof_indexSectionOffset = 20, offsetof_indexCount = 24, sizeof_index_entry = 12,
     offsetof_functionOffset = 0, offsetof_secondLevelPagesSectionOffset = 4,
     offsetof_entryPageOffset = 4, offsetof_entryCount = 6, offsetof_encodingsPageOffset = 8,
     UNWIND_INFO_COMPRESSED_ENTRY_FUNC_OFFSET = (\<lambda>x. x AND 0x00FFFFFF),
     UNWIND_INFO_COMPRESSED_ENTRY_ENCODING_INDEX = (\<lambda>x. drop_bit 24 x)\<rparr>"

definition table_env :: env where
  "table_env = flat_env 0x1000
     [1, 0, 0, 0,  28, 0, 0, 0,  1, 0, 0, 0,  0, 0, 0, 0,  0, 0, 0, 0,  32, 0, 0, 0,  2, 0, 0, 0,
      0, 0, 0, 1,
      0, 1, 0, 0,  56, 0, 0, 0,  0, 0, 0, 0,
      0, 2, 0, 0,  0, 0, 0, 0,  0, 0, 0, 0,
      3, 0, 0, 0,  12, 0,  2, 0,  20, 0,  0, 0,
      0, 0, 0, 0,  0x40, 0, 0, 0]"

definition table_context :: FIRCLSCompactUnwindContext where
  "table_context = compact_context_zero\<lparr>unwindInfo := 0x1000, loadAddress := 0x10000,
     unwindHeader := \<lparr>section_version = 1, commonEncodingsArraySectionOffset = 28,
       commonEncodingsArrayCount = 1, indexSectionOffset = 32, indexCount = 2\<rparr>\<rparr>"

definition table_index :: "unwind_info_section_header_index_entry list" where
  "table_index = [\<lparr>functionOffset = 0x100, secondLevelPagesSectionOffset = 56\<rparr>,
                  \<lparr>functionOffset = 0x200, secondLevelPagesSectionOffset = 0\<rparr>]"

definition table_found :: FIRCLSCompactUnwindContext where
  "table_found = entry_found table_context table_index 1"

lemmas table_defs = macho_sdk_def table_env_def table_context_def table_index_def

lemma table_context_init:
  "FIRCLSCompactUnwindInit table_env macho_sdk (Some x) 0x1000 0 0x10000 = (True, Some table_context)"
  by (simp add: table_defs c_eval cong: bind_weak_cong)

lemma table_index_at:
  "index_at table_env macho_sdk (FIRCLSCompactUnwindGetIndexData table_context) table_index"
proof -
  have "index_entry table_env macho_sdk 0x1020 0 = Some (table_index ! 0)"
    by (simp add: table_defs c_eval cong: bind_weak_cong)
  moreover have "index_entry table_env macho_sdk 0x1020 1 = Some (table_index ! 1)"
    by (simp add: table_defs c_eval cong: bind_weak_cong)
  moreover have "FIRCLSCompactUnwindGetIndexData table_context = 0x1020"
    by (simp add: table_defs c_eval)
  ultimately show ?thesis by (auto simp: index_at_def table_index_def less_Suc_eq)
qed

lemma table_entries_at: "entries_at table_env 0x1044 [0, 0x40]"
proof -
  have "load_u32 table_env 0x1044 0 = Some 0" "load_u32 table_env 0x1044 1 = Some 0x40"
    by (simp_all add: table_defs c_eval cong: bind_weak_cong)
  then show ?thesis by (auto simp: entries_at_def less_Suc_eq)
qed

lemma table_page:
  "compressed_page table_env macho_sdk table_found [0, 0x40] [0x01000000, 0x01000000]"
proof -
  have p: "FIRCLSCompactUnwindGetSecondLevelData table_found = 0x1038"
    by (simp add: table_found_def table_defs c_eval entry_found_def)
  have fields: "load_field table_env 0x1038 (offsetof_entryPageOffset macho_sdk) 2 = Some (12 :: u16)"
    "load_field table_env 0x1038 (offsetof_entryCount macho_sdk) 2 = Some (2 :: u16)"
    "ptr_add 0x1038 12 = Some 0x1044"
    by (simp_all add: table_defs c_eval cong: bind_weak_cong)
  have encs: "compressed_encoding table_env macho_sdk table_found 0x1038 0 = Some 0x01000000"
    "compressed_encoding table_env macho_sdk table_found 0x1038 0x40 = Some 0x01000000"
    by (simp_all add: table_found_def table_defs c_eval entry_found_def cong: bind_weak_cong)
  have "sorted (entry_offsets macho_sdk [0, 0x40])" by (simp add: entry_offsets_def macho_sdk_def)
  then show ?thesis unfolding compressed_page_def p Let_def
    using fields encs table_entries_at by (auto simp: less_Suc_eq)
qed

theorem second_level_search_witness:
  "addr_ofM 0 (\<lambda>i. FIRCLSCompactUnwindBinarySearchSecondLevel table_env macho_sdk 0x10 i 2 0x1044) =
     Some (True, 0) \<and>
   addr_ofM 0 (\<lambda>i. FIRCLSCompactUnwindBinarySearchSecondLevel table_env macho_sdk 0x50 i 2 0x1044) =
     Some (False, 1)"
  using second_level_search [OF table_entries_at, of 2 macho_sdk "0x10" 0]
    second_level_search [OF table_entries_at, of 2 macho_sdk "0x50" 0]
  by (simp add: entry_offsets_def macho_sdk_def position_def)

lemma table_facts:
  "sorted (index_offsets table_index)"
  "length table_index = unat (indexCount (unwindHeader table_context))"
  "2 \<le> length table_index" "FIRCLSCompactUnwindGetIndexData table_context \<noteq> 0"
  "hd (index_offsets table_index) = 0x100" "last (index_offsets table_index) = 0x200"
  "loadAddress table_context = 0x10000"
  by (simp_all add: table_defs c_eval index_offsets_def)

theorem first_level_search_witness:
  "\<exists>c. FIRCLSCompactUnwindLookupFirstLevel table_env macho_sdk (Some table_context) 0x10110 =
     Some (True, Some c)"
proof -
  obtain ok c where
    run: "FIRCLSCompactUnwindLookupFirstLevel table_env macho_sdk (Some table_context) 0x10110 =
      Some (ok, Some c)" and "ok \<longleftrightarrow> (0x100 :: u64) \<le> 0x110 \<and> (0x110 :: u64) < 0x200"
    using first_level_search [OF table_index_at table_facts(1-4), of "0x10110" "0x110"]
    unfolding table_facts(5-7) by auto
  then have "ok = True" by simp
  with run show ?thesis by blast
qed

theorem unwind_table_lookup_witness:
  "\<exists>c r. FIRCLSCompactUnwindLookup table_env macho_sdk (Some table_context) 0x10110
     (Some compact_result_zero) = Some (True, Some c, Some r) \<and>
     encoding r = 0x01000000 \<and> functionStart r = 0x10100 \<and> functionEnd r = 0x10140"
proof -
  let ?offs = "entry_offsets macho_sdk [0, 0x40]"
  have pos: "1 = position (index_offsets table_index) (0x10110 - loadAddress table_context)"
    "1 = position ?offs (0x10110 - 0x10100)"
    by (simp_all add: position_def table_defs index_offsets_def entry_offsets_def)
  have kind: "FIRCLSCompactUnwindGetSecondLevelPageKind table_env (Some table_found) =
      Some (UNWIND_SECOND_LEVEL_COMPRESSED macho_sdk)"
    by (simp add: table_defs c_eval table_found_def entry_found_def cong: bind_weak_cong)
  have base: "0x10100 = FIRCLSCompactUnwindGetIndexFunctionOffset table_found"
    by (simp add: table_defs c_eval table_found_def entry_found_def)
  have range: "image_in_range macho_sdk table_found [0, 0x40]"
    by (simp add: image_in_range_def table_defs table_found_def entry_found_def)
  have rest: "loadAddress table_context \<le> 0x10110" "1 < length table_index"
    "UNWIND_SECOND_LEVEL_COMPRESSED macho_sdk \<noteq> UNWIND_SECOND_LEVEL_REGULAR macho_sdk"
    "?offs = [0, 0x40]"
    by (simp_all add: table_defs entry_offsets_def)
  obtain ok r where run: "FIRCLSCompactUnwindLookup table_env macho_sdk (Some table_context) 0x10110
      (Some compact_result_zero) = Some (ok, Some table_found, Some r)"
    and ok: "ok \<longleftrightarrow> (0x10100 :: u64) < 0x10110 \<and> (0::nat) < 1 \<and> 1 < length [0 :: u32, 0x40] \<and>
      [0x01000000 :: u32, 0x01000000] ! (1 - 1) \<noteq> 0"
    and r: "ok \<longrightarrow> r = \<lparr>encoding = [0x01000000, 0x01000000] ! (1 - 1),
      functionStart = 0x10100 + ?offs ! (1 - 1), functionEnd = 0x10100 + ?offs ! 1, lsda = 0, personality = 0\<rparr>"
    using unwind_table_lookup [OF table_index_at table_facts(1-4) rest(1) pos(1) zero_less_one rest(2)
        table_found_def kind rest(3) table_page range base pos(2), of compact_result_zero] by blast
  from ok have ok by simp
  with r have "r = \<lparr>encoding = 0x01000000, functionStart = 0x10100, functionEnd = 0x10140, lsda = 0,
      personality = 0\<rparr>" unfolding rest(4) by simp
  with run \<open>ok\<close> show ?thesis by auto
qed

end
