(* ===== verification/X86Spec.thy ===== *)
theory X86Spec
  imports UnwindX86
begin

text \<open>
  What the frameless unwind of x86-64 restores.  The encoding of the registers a function saves is
  a rank of the sequence among those without repetition; \<open>permutation_round_trip\<close> shows that the
  code's decoder inverts it, and \<open>frameless_unwind\<close> that the caller's registers are the saved ones.
\<close>

section \<open>Sequences of registers and their rank\<close>

definition index_of :: "nat list \<Rightarrow> nat \<Rightarrow> nat" where
  "index_of xs x = length (takeWhile (\<lambda>y. y \<noteq> x) xs)"

text \<open>Each register as its place among those not used so far.\<close>

primrec places :: "nat list \<Rightarrow> nat list \<Rightarrow> nat list" where
  "places avail [] = []"
| "places avail (r # rs) = index_of avail r # places (remove1 r avail) rs"

primrec falling :: "nat \<Rightarrow> nat \<Rightarrow> nat" where
  "falling k 0 = 1"
| "falling k (Suc n) = k * falling (k - 1) n"

primrec rank :: "nat \<Rightarrow> nat list \<Rightarrow> nat" where
  "rank k [] = 0"
| "rank k (d # ds) = d * falling (k - 1) (length ds) + rank (k - 1) ds"

definition encode_registers :: "nat list \<Rightarrow> nat" where
  "encode_registers rs = rank 6 (places [1..<7] rs)"

primrec digits_ok :: "nat \<Rightarrow> nat list \<Rightarrow> bool" where
  "digits_ok k [] = True"
| "digits_ok k (d # ds) = (d < k \<and> digits_ok (k - 1) ds)"

lemma index_of_less: "x \<in> set xs \<Longrightarrow> index_of xs x < length xs"
  unfolding index_of_def by (induction xs) auto

lemma index_of_nth: "x \<in> set xs \<Longrightarrow> xs ! index_of xs x = x"
  unfolding index_of_def by (induction xs) auto

lemma length_places [simp]: "length (places avail rs) = length rs"
  by (induction rs arbitrary: avail) simp_all

lemma places_ok:
  "distinct rs \<Longrightarrow> set rs \<subseteq> set avail \<Longrightarrow> distinct avail \<Longrightarrow> digits_ok (length avail) (places avail rs)"
proof (induction rs arbitrary: avail)
  case (Cons r rs)
  then have "set rs \<subseteq> set (remove1 r avail)" by (auto simp: set_remove1_eq)
  then have "digits_ok (length (remove1 r avail)) (places (remove1 r avail) rs)"
    using Cons by (intro Cons.IH) simp_all
  then show ?case using Cons.prems by (simp add: index_of_less length_remove1)
qed simp

lemma rank_less: "digits_ok k ds \<Longrightarrow> rank k ds < falling k (length ds)"
proof (induction ds arbitrary: k)
  case (Cons d ds)
  then have "d + 1 \<le> k" "rank (k - 1) ds < falling (k - 1) (length ds)" by auto
  then have "d * falling (k - 1) (length ds) + rank (k - 1) ds < (d + 1) * falling (k - 1) (length ds)"
    by simp
  also have "\<dots> \<le> k * falling (k - 1) (length ds)" using \<open>d + 1 \<le> k\<close> by (rule mult_right_mono) simp
  finally show ?case by simp
qed simp

section \<open>Decoding the digits\<close>

lemma ucast_of_unat: "(ucast (x :: u32) :: u64) = of_nat (unat x)"
  by simp

lemma next_digit_result:
  assumes "unat p = d * unat w + r" and "r < unat w" and "i < length regs"
  shows "next_digit i w (regs, p) = (regs[i := of_nat d], of_nat r)"
proof -
  have "unat (p div w) = d" using assms(1,2) by (simp add: unat_div)
  then have d: "(ucast (p div w) :: u64) = of_nat d" by (simp add: ucast_of_unat)
  have "(ucast p :: u64) = of_nat d * ucast w + of_nat r"
    unfolding ucast_of_unat assms(1) by simp
  then have "(ucast p - of_nat d * ucast w :: u64) = of_nat r" by simp
  moreover have "(ucast (of_nat r :: u64) :: u32) = of_nat r"
    using assms(2) u32_less [of w] by (simp add: word_unat_eq_iff unat_of_nat32 unsigned_ucast_eq take_bit_nat_eq_self)
  ultimately show ?thesis using assms(3) d by (simp add: next_digit_def)
qed

lemma last_digit_result:
  assumes "d < 2 ^ 32"
  shows "last_digit i (regs, of_nat d) = regs[i := of_nat d]"
proof -
  have "unat (of_nat d :: u32) = d" using assms by (rule unat_of_nat32)
  then show ?thesis unfolding last_digit_def prod.case ucast_of_unat by simp
qed

text \<open>The code's chains of digits, by their number.\<close>

fun decode :: "nat \<Rightarrow> nat \<Rightarrow> nat \<Rightarrow> u64 list \<times> u32 \<Rightarrow> u64 list" where
  "decode i k 0 st = fst st"
| "decode i k (Suc 0) st = last_digit i st"
| "decode i k (Suc (Suc n)) st =
     decode (i + 1) (k - 1) (Suc n) (next_digit i (of_nat (falling (k - 1) (Suc n))) st)"

definition overwrite :: "nat \<Rightarrow> 'a list \<Rightarrow> 'a list \<Rightarrow> 'a list" where
  "overwrite i xs regs = take i regs @ xs @ drop (i + length xs) regs"

lemma overwrite_Nil [simp]: "overwrite i [] regs = regs"
  by (simp add: overwrite_def)

lemma overwrite_Cons:
  "i + length xs < length regs \<Longrightarrow> overwrite i (x # xs) regs = overwrite (i + 1) xs (regs[i := x])"
  by (simp add: overwrite_def upd_conv_take_nth_drop take_Suc_conv_app_nth drop_Suc nth_append
      take_update_cancel drop_update_cancel add.commute [of "length xs"])

lemma falling_le: "falling k n \<le> k ^ n"
proof (induction n arbitrary: k)
  case (Suc n)
  have "falling (k - 1) n \<le> k ^ n" by (rule order_trans [OF Suc.IH]) (simp add: power_mono)
  then show ?case by simp
qed simp

lemma decode_result:
  assumes "digits_ok k ds" and "falling k (length ds) < 2 ^ 32" and "i + length ds \<le> length regs"
  shows "decode i k (length ds) (regs, of_nat (rank k ds)) = overwrite i (map of_nat ds) regs"
  using assms
proof (induction ds arbitrary: i k regs)
  case (Cons d ds)
  have less: "rank k (d # ds) < falling k (length (d # ds))" using Cons.prems(1) by (rule rank_less)
  show ?case
  proof (cases ds)
    case Nil
    then show ?thesis using Cons.prems less
      by (simp add: last_digit_result overwrite_Cons)
  next
    case (Cons d' ds')
    let ?w = "falling (k - 1) (length ds)"
    have w: "?w < 2 ^ 32" using Cons.prems(1,2) by (cases k) auto
    have "next_digit i (of_nat ?w) (regs, of_nat (rank k (d # ds))) =
        (regs[i := of_nat d], of_nat (rank (k - 1) ds))"
    proof (rule next_digit_result)
      have "unat (of_nat (rank k (d # ds)) :: u32) = rank k (d # ds)"
        using less Cons.prems(2) by (intro unat_of_nat32) simp
      then show "unat (of_nat (rank k (d # ds)) :: u32) = d * unat (of_nat ?w :: u32) + rank (k - 1) ds"
        unfolding unat_of_nat32 [OF w] by simp
      show "rank (k - 1) ds < unat (of_nat ?w :: u32)"
        unfolding unat_of_nat32 [OF w] using Cons.prems(1) by (intro rank_less) simp
    qed (use Cons.prems in simp)
    moreover have "decode (i + 1) (k - 1) (length ds) (regs[i := of_nat d], of_nat (rank (k - 1) ds)) =
        overwrite (i + 1) (map of_nat ds) (regs[i := of_nat d])"
      using Cons.prems w by (intro Cons.IH) simp_all
    ultimately show ?thesis using Cons Cons.prems by (simp add: overwrite_Cons)
  qed
qed simp

lemma decode_chains:
  "decode 0 6 1 st = last_digit 0 st"
  "decode 0 6 2 st = last_digit 1 (next_digit 0 5 st)"
  "decode 0 6 3 st = last_digit 2 (next_digit 1 4 (next_digit 0 20 st))"
  "decode 0 6 4 st = last_digit 3 (next_digit 2 3 (next_digit 1 12 (next_digit 0 60 st)))"
  "decode 0 6 5 st = last_digit 4 (next_digit 3 2 (next_digit 2 6 (next_digit 1 24 (next_digit 0 120 st))))"
  by (simp_all add: numeral_eq_Suc)

lemma rank_six: "digits_ok 6 (xs @ [x]) \<Longrightarrow> length xs = 5 \<Longrightarrow> x = 0 \<and> digits_ok 6 xs \<and> rank 6 (xs @ [x]) = rank 6 xs"
  by (auto simp: length_Suc_conv numeral_eq_Suc)

lemma decompress_result:
  assumes "digits_ok 6 ds" and "length ds \<le> 6"
    and "GET_BITS_WITH_MASK enc (CLS_X86_FRAMELESS_STACK_REG_COUNT sdk) = of_nat (length ds)"
    and "GET_BITS_WITH_MASK enc (CLS_X86_FRAMELESS_STACK_REG_PERMUTATION sdk) = of_nat (rank 6 ds)"
  shows "FIRCLSCompactUnwindDecompressPermutation sdk enc (replicate 6 0) =
    (True, map of_nat ds @ replicate (6 - length ds) 0)"
proof -
  have chain: "decode 0 6 (length xs) (replicate 6 0, of_nat (rank 6 xs)) =
      map of_nat xs @ replicate (6 - length xs) 0"
    if "digits_ok 6 xs" "length xs \<le> 5" for xs
  proof -
    have "falling 6 (length xs) \<le> 6 ^ length xs" by (rule falling_le)
    also have "\<dots> \<le> 6 ^ 5" using that(2) by (rule power_increasing) simp
    also have "\<dots> < (2::nat) ^ 32" by simp
    finally have "falling 6 (length xs) < 2 ^ 32" .
    then show ?thesis using that by (simp add: decode_result overwrite_def drop_replicate)
  qed
  show ?thesis
  proof (cases "length ds = 6")
    case True
    then obtain xs x where ds: "ds = xs @ [x]" "length xs = 5"
      by (cases ds rule: rev_cases) auto
    have six: "x = 0" "digits_ok 6 xs" "rank 6 ds = rank 6 xs"
      using rank_six [of xs x] assms(1) ds by auto
    have "decode 0 6 5 (replicate 6 0, of_nat (rank 6 ds)) = map of_nat xs @ [0]"
      using chain [OF six(2)] ds(2) six(3) by simp
    then show ?thesis using assms(3,4) True ds six(1)
      by (simp add: FIRCLSCompactUnwindDecompressPermutation_def decode_chains Let_def list_update_append)
  next
    case False
    with assms(2) have "length ds = 0 \<or> length ds = 4 \<or> length ds = 1 \<or> length ds = 3 \<or>
        length ds = 2 \<or> length ds = 5" by presburger
    then show ?thesis using chain [OF assms(1)] assms(3,4)
      by (elim disjE) (simp_all add: FIRCLSCompactUnwindDecompressPermutation_def decode_chains Let_def)
  qed
qed

section \<open>Renumbering\<close>

definition unused :: "bool list \<Rightarrow> nat list" where
  "unused used = filter (\<lambda>u. \<not> used ! u) [1..<7]"

lemma renumber_result:
  assumes "n \<le> 6" and "r + n < 2 ^ 64" and "r \<le> d" and "d < 2 ^ 64"
    and "us = filter (\<lambda>u. \<not> used ! u) [7 - n..<7]"
  shows "renumber n used r (of_nat d) = (if d - r < length us then Some (us ! (d - r)) else None)"
  using assms
proof (induction n arbitrary: r us)
  case (Suc n)
  let ?rest = "filter (\<lambda>u. \<not> used ! u) [7 - n..<7]"
  have "[7 - Suc n..<7] = (6 - n) # [7 - n..<7]"
    using Suc.prems(1) Suc_diff_le [of n 6] by (subst upt_conv_Cons) auto
  then have us: "us = (if used ! (6 - n) then ?rest else (6 - n) # ?rest)"
    using Suc.prems(5) by simp
  have eq: "(of_nat r :: u64) = of_nat d \<longleftrightarrow> r = d"
    using Suc.prems by (simp add: word_unat_eq_iff)
  consider "used ! (6 - n)" | "\<not> used ! (6 - n)" "r = d" | "\<not> used ! (6 - n)" "r < d"
    using Suc.prems(3) by linarith
  then show ?case
  proof cases
    case 1
    then show ?thesis using Suc.IH [OF _ _ _ _ refl, of r] Suc.prems us by (simp add: Let_def)
  next
    case 2
    then show ?thesis using us by (simp add: Let_def)
  next
    case 3
    then have "renumber n used (r + 1) (of_nat d) =
        (if d - (r + 1) < length ?rest then Some (?rest ! (d - (r + 1))) else None)"
      using Suc.prems by (intro Suc.IH refl) auto
    moreover have "d - r = Suc (d - (r + 1))" using 3 by simp
    ultimately show ?thesis using 3 us eq by (simp add: Let_def)
  qed
qed simp

lemma distinct_unused: "distinct (unused used)"
  by (simp add: unused_def)

lemma unused_range: "u \<in> set (unused used) \<Longrightarrow> 0 < u \<and> u < 7 \<and> \<not> used ! u"
  by (auto simp: unused_def)

lemma unused_update:
  "u < length used \<Longrightarrow> unused (used[u := True]) = remove1 u (unused used)"
  by (auto simp: unused_def distinct_remove1_removeAll removeAll_filter_not_eq nth_list_update
      intro!: filter_cong)

lemma remap_result:
  assumes "distinct rs" and "set rs \<subseteq> set (unused used)" and "length used = 7"
    and "\<And>j. j < length rs \<Longrightarrow> ps ! (i + j) = of_nat (places (unused used) rs ! j)"
    and "i + length rs \<le> length saved"
  shows "remap_loop (length rs) i ps used saved = overwrite i (map of_nat rs) saved"
  using assms
proof (induction rs arbitrary: i used saved)
  case (Cons r rs)
  let ?d = "index_of (unused used) r"
  have r: "r \<in> set (unused used)" using Cons.prems(2) by simp
  have d: "?d < length (unused used)" using r by (rule index_of_less)
  have "length (unused used) \<le> 6" using length_filter_le [of "\<lambda>u. \<not> used ! u" "[1..<7]"] by (simp add: unused_def)
  then have "renumber 6 used 0 (of_nat ?d) = Some (unused used ! ?d)"
    using d by (subst renumber_result [OF _ _ _ _ refl]) (auto simp: unused_def)
  then have found: "renumber 6 used 0 (ps ! i) = Some r"
    using Cons.prems(4) [of 0] index_of_nth [OF r] by simp
  have used: "unused (used[r := True]) = remove1 r (unused used)"
    using unused_range [OF r] Cons.prems(3) by (intro unused_update) simp
  have "remap_loop (length rs) (i + 1) ps (used[r := True]) (saved[i := of_nat r]) =
      overwrite (i + 1) (map of_nat rs) (saved[i := of_nat r])"
  proof (rule Cons.IH)
    show "set rs \<subseteq> set (unused (used[r := True]))"
      using Cons.prems(1,2) unfolding used by (auto simp: set_remove1_eq distinct_unused)
    show "ps ! (i + 1 + j) = of_nat (places (unused (used[r := True])) rs ! j)" if "j < length rs" for j
      using Cons.prems(4) [of "Suc j"] that unfolding used by simp
  qed (use Cons.prems in simp_all)
  then show ?case using found Cons.prems(5) by (simp add: overwrite_Cons)
qed simp

text \<open>The registers a frameless encoding names: \<open>1\<close> to \<open>6\<close>, none twice.\<close>

definition encodes_registers :: "x86_sdk \<Rightarrow> u32 \<Rightarrow> nat list \<Rightarrow> bool" where
  "encodes_registers sdk enc rs \<longleftrightarrow> distinct rs \<and> set rs \<subseteq> {1..6} \<and>
     GET_BITS_WITH_MASK enc (CLS_X86_FRAMELESS_STACK_REG_COUNT sdk) = of_nat (length rs) \<and>
     GET_BITS_WITH_MASK enc (CLS_X86_FRAMELESS_STACK_REG_PERMUTATION sdk) = of_nat (encode_registers rs)"

lemma encodes_length: "encodes_registers sdk enc rs \<Longrightarrow> length rs \<le> 6"
  using card_mono [of "{1..6}" "set rs"] by (simp add: encodes_registers_def distinct_card)

lemma registers_decoded:
  assumes "encodes_registers sdk enc rs"
  obtains ps where "FIRCLSCompactUnwindDecompressPermutation sdk enc (replicate 6 0) = (True, ps)"
    and "FIRCLSCompactUnwindRemapRegisters sdk enc ps (replicate 6 0) =
      (True, map of_nat rs @ replicate (6 - length rs) 0)"
proof
  let ?ds = "places [1..<7] rs"
  let ?ps = "map of_nat ?ds @ replicate (6 - length rs) 0"
  have rs: "distinct rs" "set rs \<subseteq> set [1..<7]"
    and count: "GET_BITS_WITH_MASK enc (CLS_X86_FRAMELESS_STACK_REG_COUNT sdk) = of_nat (length rs)"
    and rank: "GET_BITS_WITH_MASK enc (CLS_X86_FRAMELESS_STACK_REG_PERMUTATION sdk) = of_nat (rank 6 ?ds)"
    using assms by (auto simp: encodes_registers_def encode_registers_def)
  have len: "length rs \<le> 6" using assms by (rule encodes_length)
  have "digits_ok 6 ?ds" using places_ok [OF rs] by simp
  then show "FIRCLSCompactUnwindDecompressPermutation sdk enc (replicate 6 0) = (True, ?ps)"
    using decompress_result [of ?ds enc sdk] count rank len by simp
  have "unused (replicate 7 False) = [1..<7]"
    by (simp add: unused_def upt_rec)
  then have "remap_loop (length rs) 0 ?ps (replicate 7 False) (replicate 6 0) =
      overwrite 0 (map of_nat rs) (replicate 6 0)"
    using rs len by (intro remap_result) (simp_all add: nth_append)
  moreover have "\<not> 6 < (of_nat (length rs) :: u32)" "unat (of_nat (length rs) :: u32) = length rs"
    using len by (simp_all add: word_less_nat_alt unat_of_nat32)
  ultimately show "FIRCLSCompactUnwindRemapRegisters sdk enc ?ps (replicate 6 0) =
      (True, map of_nat rs @ replicate (6 - length rs) 0)"
    by (simp add: FIRCLSCompactUnwindRemapRegisters_def count Let_def overwrite_def drop_replicate)
qed

text \<open>
  C24: Decoding the permutation field and renumbering give back, for every sequence of at most six
  distinct registers, exactly that sequence.
\<close>

theorem permutation_round_trip:
  assumes "encodes_registers sdk enc rs"
    and "FIRCLSCompactUnwindDecompressPermutation sdk enc (replicate 6 0) = (ok, ps)"
  shows "ok \<and> FIRCLSCompactUnwindRemapRegisters sdk enc ps (replicate 6 0) =
    (True, map of_nat rs @ replicate (6 - length rs) 0)"
  using registers_decoded [OF assms(1)] assms(2) by auto

section \<open>Restoring the caller\<close>

lemma restore_loop_result:
  assumes "distinct rs" and "i + length rs \<le> length saved"
    and "\<And>j. j < length rs \<Longrightarrow> saved ! (i + j) = of_nat (rs ! j)" and "set rs \<subseteq> {1..6}"
    and "CLS_X86_REG_RBP sdk = 6" and "length slots = length rs"
    and "\<And>j. j < length rs \<Longrightarrow> read_word e (a + 8 * of_nat j) 8 = Some (slots ! j)"
  shows "restore_loop (length rs) sdk e saved i r a =
    Some (True, r\<lparr>rbp := if 6 \<in> set rs then slots ! index_of rs 6 else rbp r\<rparr>, a + 8 * of_nat (length rs))"
  using assms(1-4,6,7)
proof (induction rs arbitrary: i r a slots)
  case (Cons x rs)
  obtain slot rest where slots: "slots = slot # rest" using Cons.prems(5) by (cases slots) auto
  have saved: "saved ! i = of_nat x" using Cons.prems(3) [of 0] by simp
  have read: "read_word e a 8 = Some slot" using Cons.prems(6) [of 0] slots by simp
  have x: "(of_nat x :: u64) = 6 \<longleftrightarrow> x = 6"
    using Cons.prems(4) by (auto simp: word_unat_eq_iff)
  have IH: "restore_loop (length rs) sdk e saved (i + 1) r' (a + 8) =
      Some (True, r'\<lparr>rbp := if 6 \<in> set rs then rest ! index_of rs 6 else rbp r'\<rparr>,
        a + 8 + 8 * of_nat (length rs))" for r'
  proof (rule Cons.IH)
    show "saved ! (i + 1 + j) = of_nat (rs ! j)" if "j < length rs" for j
      using Cons.prems(3) [of "Suc j"] that by simp
    show "read_word e (a + 8 + 8 * of_nat j) 8 = Some (rest ! j)" if "j < length rs" for j
      using Cons.prems(6) [of "Suc j"] that slots by (simp add: algebra_simps)
  qed (use Cons.prems slots in auto)
  show ?case
  proof (cases "x = 6")
    case True
    then show ?thesis using Cons.prems(1,2) saved read x assms(5) slots IH [of "r\<lparr>rbp := slot\<rparr>"]
      by (simp add: addr_of_def x86_64_cpu_def index_of_def algebra_simps)
  next
    case False
    then show ?thesis using Cons.prems(1,2) saved x assms(5) slots IH [of r]
      by (auto simp: index_of_def algebra_simps)
  qed
qed simp

text \<open>
  The stack of a frameless function whose frame has \<open>size\<close> bytes: the saved registers lie below
  the return address, which ends the frame.
\<close>

definition frameless_stack :: "env \<Rightarrow> u64 \<Rightarrow> u32 \<Rightarrow> u64 list \<Rightarrow> u64 \<Rightarrow> bool" where
  "frameless_stack e sp frameSize slots ra \<longleftrightarrow>
     (let a = sp + ucast frameSize - 8 - 8 * of_nat (length slots) in
      (\<forall>j < length slots. read_word e (a + 8 * of_nat j) 8 = Some (slots ! j)) \<and>
      read_word e (sp + ucast frameSize - 8) 8 = Some ra)"

text \<open>
  C35: Unwinding a frameless function restores its caller: the program counter is the word that ends
  the frame, the stack pointer is past the frame, and the frame pointer is the saved one where the
  function saved it; no other register changes.
\<close>

theorem frameless_unwind:
  assumes "FIRCLSCompactUnwindComputeStackSize sdk e enc fstart indirect (Some 0) = (True, Some frameSize)"
    and "encodes_registers sdk enc rs" and "CLS_X86_REG_RBP sdk = 6"
    and "length slots = length rs" and "frameless_stack e (rsp r) frameSize slots ra"
    and "FIRCLSIsValidPointer ra"
  shows "FIRCLSCompactUnwindFrameless sdk e enc (Some r) fstart indirect =
    Some (True, Some (r\<lparr>rip := ra, rsp := rsp r + ucast frameSize,
                        rbp := if 6 \<in> set rs then slots ! index_of rs 6 else rbp r\<rparr>))"
proof -
  let ?saved = "map of_nat rs @ replicate (6 - length rs) 0"
  let ?a = "rsp r + ucast frameSize - 8 - 8 * of_nat (length rs)"
  obtain ps where decoded: "FIRCLSCompactUnwindDecompressPermutation sdk enc (replicate 6 0) = (True, ps)"
    "FIRCLSCompactUnwindRemapRegisters sdk enc ps (replicate 6 0) = (True, ?saved)"
    using registers_decoded [OF assms(2)] .
  have rs: "distinct rs" "set rs \<subseteq> {1..6}" and len: "length rs \<le> 6"
    and count: "GET_BITS_WITH_MASK enc (CLS_X86_FRAMELESS_STACK_REG_COUNT sdk) = of_nat (length rs)"
    using assms(2) encodes_length [OF assms(2)] by (auto simp: encodes_registers_def)
  have stack: "\<And>j. j < length rs \<Longrightarrow> read_word e (?a + 8 * of_nat j) 8 = Some (slots ! j)"
    and ra: "read_word e (rsp r + ucast frameSize - 8) 8 = Some ra"
    using assms(4,5) by (auto simp: frameless_stack_def Let_def)
  have "restore_loop (length rs) sdk e ?saved 0 r ?a =
      Some (True, r\<lparr>rbp := if 6 \<in> set rs then slots ! index_of rs 6 else rbp r\<rparr>, ?a + 8 * of_nat (length rs))"
    using rs len assms(3,4) stack by (intro restore_loop_result) (simp_all add: nth_append)
  moreover have "unat (of_nat (length rs) :: u32) = length rs" using len by (simp add: unat_of_nat32)
  moreover have "(ucast (of_nat (length rs) :: u32) :: u64) = of_nat (length rs)"
    using calculation(2) unfolding ucast_of_unat by simp
  ultimately have "FIRCLSCompactUnwindRestoreRegisters sdk e enc (Some r) frameSize ?saved (Some 0) =
      Some (True, Some (r\<lparr>rbp := if 6 \<in> set rs then slots ! index_of rs 6 else rbp r\<rparr>),
        Some (rsp r + ucast frameSize - 8))"
    by (simp add: count x86_64_cpu_def)
  then show ?thesis using assms(1,6) decoded ra
    by (simp add: FIRCLSCompactUnwindFrameless_def frameless_return_def addr_of_def x86_64_cpu_def)
qed

section \<open>The SDK's masks and a frame in memory\<close>

definition macho_x86_64 :: x86_sdk where
  "macho_x86_64 = \<lparr>CLS_X86_MODE_MASK = 0x0F000000, CLS_X86_MODE_BP_FRAME = 0x01000000,
     CLS_X86_MODE_STACK_IMMD = 0x02000000, CLS_X86_MODE_STACK_IND = 0x03000000,
     CLS_X86_MODE_DWARF = 0x04000000, CLS_X86_FRAMELESS_STACK_SIZE = 0x00FF0000,
     CLS_X86_FRAMELESS_STACK_ADJUST = 0x0000E000, CLS_X86_FRAMELESS_STACK_REG_COUNT = 0x00001C00,
     CLS_X86_FRAMELESS_STACK_REG_PERMUTATION = 0x000003FF, CLS_X86_DWARF_SECTION_OFFSET = 0x00FFFFFF,
     CLS_X86_REG_RBP = 6\<rparr>"

lemma mask_bits:
  "ctz 0x00FF0000 = 16" "ctz 0x0000E000 = 13" "ctz 0x00001C00 = 10" "ctz 0x000003FF = 0"
  by code_simp+

text \<open>Frame of 32 bytes, \<open>rbx\<close> and \<open>rbp\<close> saved: register numbers 1 and 6, rank 4.\<close>

lemma sample_encoding: "encodes_registers macho_x86_64 0x02040804 [1, 6]"
  by (simp add: encodes_registers_def macho_x86_64_def encode_registers_def index_of_def
      GET_BITS_WITH_MASK_def mask_bits upt_rec)

theorem permutation_round_trip_witness:
  "FIRCLSCompactUnwindRemapRegisters macho_x86_64 0x02040804 [0, 4, 0, 0, 0, 0] (replicate 6 0) =
     (True, [1, 6, 0, 0, 0, 0])"
proof -
  have zeros: "replicate 6 0 = [0, 0, 0, 0, 0, 0 :: u64]" by (simp add: numeral_eq_Suc)
  have "FIRCLSCompactUnwindDecompressPermutation macho_x86_64 0x02040804 (replicate 6 0) =
      (True, [0, 4, 0, 0, 0, 0])"
    unfolding zeros
    by (simp add: FIRCLSCompactUnwindDecompressPermutation_def GET_BITS_WITH_MASK_def mask_bits
        next_digit_def last_digit_def macho_x86_64_def Let_def)
  moreover have "replicate (6 - length [1, 6 :: nat]) 0 = [0, 0, 0, 0 :: u64]"
    by (simp add: numeral_eq_Suc)
  ultimately show ?thesis using permutation_round_trip [OF sample_encoding] by fastforce
qed

definition frame_env :: env where
  "frame_env = flat_env 0x2008
     [7, 0, 0, 0, 0, 0, 0, 0,  0, 0x30, 0, 0, 0, 0, 0, 0,  0, 0x50, 0, 0, 0, 0, 0, 0]"

definition frame_registers :: x86_64 where
  "frame_registers = \<lparr>rax = 0, rdx = 0, rcx = 0, rbx = 5, rsi = 0, rdi = 0, rbp = 0, rsp = 0x2000,
     r8 = 0, r9 = 0, r10 = 0, r11 = 0, r12 = 0, r13 = 0, r14 = 0, r15 = 0, rip = 0x4000\<rparr>"

theorem frameless_unwind_witness:
  "FIRCLSCompactUnwindFrameless macho_x86_64 frame_env 0x02040804 (Some frame_registers) 0x3F00 False =
     Some (True, Some (frame_registers\<lparr>rip := 0x5000, rsp := 0x2020, rbp := 0x3000\<rparr>))"
proof -
  have "FIRCLSCompactUnwindComputeStackSize macho_x86_64 frame_env 0x02040804 0x3F00 False (Some 0) =
      (True, Some 32)"
    by (simp add: GET_BITS_WITH_MASK_def mask_bits macho_x86_64_def)
  moreover have "read_word frame_env 0x2008 8 = Some (7 :: u64)"
    "read_word frame_env 0x2010 8 = Some (0x3000 :: u64)"
    "read_word frame_env 0x2018 8 = Some (0x5000 :: u64)"
    by (simp_all add: frame_env_def c_eval cong: bind_weak_cong)
  then have "frameless_stack frame_env (rsp frame_registers) 32 [7, 0x3000] 0x5000"
    by (simp add: frameless_stack_def frame_registers_def less_Suc_eq Let_def)
  moreover have "CLS_X86_REG_RBP macho_x86_64 = 6" "FIRCLSIsValidPointer 0x5000"
    by (simp_all add: macho_x86_64_def c_eval)
  ultimately have "FIRCLSCompactUnwindFrameless macho_x86_64 frame_env 0x02040804 (Some frame_registers)
      0x3F00 False = Some (True, Some (frame_registers\<lparr>rip := 0x5000, rsp := rsp frame_registers + ucast (32 :: u32),
        rbp := if 6 \<in> set [1, 6 :: nat] then [7, 0x3000] ! index_of [1, 6] 6 else rbp frame_registers\<rparr>))"
    by (intro frameless_unwind [OF _ sample_encoding]) simp_all
  then show ?thesis by (simp add: frame_registers_def index_of_def)
qed

end
