(* ===== verification/UnwindSpec.thy ===== *)
theory UnwindSpec
  imports Unwind CompactSpec X86Spec
begin

text \<open>
  Stack walks as sequences of successful \<open>FIRCLSUnwindNextFrame\<close> calls.  A walk from a fresh
  context has at most \<open>FIRCLSUnwindMaxFrames\<close> frames, whatever the memory and the unwind tables
  hold (\<open>walk_bounded\<close>), and the context counts the repetitions of the newest program counter.
  Walks over a chain of frame records are in \<open>FrameChain\<close>.
\<close>

section \<open>Walks\<close>

text \<open>\<open>walk e images sdk cpu c pcs c'\<close>: the calls lead from \<open>c\<close> to \<open>c'\<close>; newest PC first.\<close>

inductive walk ::
  "env \<Rightarrow> image_context \<Rightarrow> compact_sdk \<Rightarrow> ('c, 'z) arch_scheme \<Rightarrow> 'c FIRCLSUnwindContext \<Rightarrow>
   u64 list \<Rightarrow> 'c FIRCLSUnwindContext \<Rightarrow> bool"
  for e images sdk cpu c where
  start: "walk e images sdk cpu c [] c"
| frame: "walk e images sdk cpu c pcs c' \<Longrightarrow>
     FIRCLSUnwindNextFrame e images sdk cpu (Some c') = Some (True, Some c'') \<Longrightarrow>
     walk e images sdk cpu c (FIRCLSUnwindGetPC cpu (Some c'') # pcs) c''"

inductive_cases walk_NilE: "walk e images sdk cpu c [] c'"
inductive_cases walk_ConsE: "walk e images sdk cpu c (pc # pcs) c'"

definition same_counts :: "'c FIRCLSUnwindContext \<Rightarrow> 'c FIRCLSUnwindContext \<Rightarrow> bool" where
  "same_counts c c' \<longleftrightarrow> frameCount c' = frameCount c \<and> repeatCount c' = repeatCount c \<and>
     lastFramePC c' = lastFramePC c"

lemma compact_unwind_counts:
  "FIRCLSUnwindWithCompactUnwindInfo e images sdk cpu (Some c) = Some (ok, p) \<Longrightarrow>
     \<exists>c'. p = Some c' \<and> same_counts c c'"
  by (auto simp: Let_def same_counts_def bind_eq_Some_conv split: prod.splits if_splits)

lemma addr_ofM_resultE:
  assumes "addr_ofM x f = Some (r, y)"
  obtains p where "f (Some x) = Some (r, p)" and "y = (case p of None \<Rightarrow> x | Some y \<Rightarrow> y)"
  using assms by (auto simp: addr_ofM_def)

lemma same_counts_regs [simp]:
  "same_counts c c" "same_counts (c\<lparr>registers := r\<rparr>) c' \<longleftrightarrow> same_counts c c'"
  "same_counts c (c'\<lparr>registers := r\<rparr>) \<longleftrightarrow> same_counts c c'"
  by (simp_all add: same_counts_def)

lemma strategies_counts:
  assumes "unwind_strategies e images sdk cpu c = Some (ok, c')"
  shows "same_counts c c'"
proof -
  obtain ok1 c1 where run: "addr_ofM c (FIRCLSUnwindWithCompactUnwindInfo e images sdk cpu) = Some (ok1, c1)"
    using assms by (auto simp: unwind_strategies_def bind_eq_Some_conv)
  then have "same_counts c c1"
    by (auto elim!: addr_ofM_resultE dest!: compact_unwind_counts split: option.splits)
  moreover have "same_counts c1 c'"
    using assms by (auto simp: unwind_strategies_def run Let_def bind_eq_Some_conv split: if_splits prod.splits)
  ultimately show ?thesis by (simp add: same_counts_def)
qed

lemma all_strategies_counts:
  assumes "FIRCLSUnwindNextFrameUsingAllStrategies e images sdk cpu (Some c) = Some (ok, p)"
  shows "\<exists>c'. p = Some c' \<and> same_counts c c' \<and> (ok \<longrightarrow> frameCount c < FIRCLSUnwindMaxFrames)"
  using assms
  by (auto simp: Let_def not_le split: prod.splits if_splits dest!: strategies_counts)

lemma next_frame:
  assumes "FIRCLSUnwindNextFrame e images sdk cpu (Some c) = Some (True, Some c')"
  shows "frameCount c < FIRCLSUnwindMaxFrames \<and> frameCount c' = frameCount c + 1 \<and>
    lastFramePC c' = FIRCLSUnwindGetPC cpu (Some c') \<and>
    repeatCount c' = (if lastFramePC c = lastFramePC c' then repeatCount c + 1 else 0) \<and>
    FIRCLSUnwindContextHasValidPCAndSP cpu (Some c')"
  using assms
  by (auto simp: Let_def bind_eq_Some_conv same_counts_def FIRCLSUnwindContextHasValidPCAndSP_def
      split: if_splits elim!: addr_ofM_resultE dest!: all_strategies_counts)

text \<open>The number of further occurrences of the newest PC at the head of a walk.\<close>

fun repeats :: "u64 list \<Rightarrow> nat" where
  "repeats (pc # pc' # pcs) = (if pc = pc' then repeats (pc' # pcs) + 1 else 0)"
| "repeats pcs = 0"

lemma repeats_less: "pcs \<noteq> [] \<Longrightarrow> repeats pcs < length pcs"
  by (induction pcs rule: repeats.induct) auto

text \<open>
  C32: A walk from a fresh context has at most 600000 frames.  After it the context counts its
  frames, holds the newest PC and the number of frames just before it with the same PC, and every
  PC of the walk is a plausible pointer.
\<close>

theorem walk_bounded:
  assumes "walk e images sdk cpu c pcs c'" and "FIRCLSUnwindInit (Some x) regs = (True, Some c)"
  shows "length pcs \<le> 600000 \<and> unat (frameCount c') = length pcs \<and>
    (\<forall>pc \<in> set pcs. FIRCLSIsValidPointer pc) \<and>
    lastFramePC c' = (case pcs of [] \<Rightarrow> 0 | pc # _ \<Rightarrow> pc) \<and>
    unat (FIRCLSUnwindGetFrameRepeatCount (Some c')) = repeats pcs"
  using assms
proof (induction rule: walk.induct)
  case (frame pcs c' c'')
  let ?pc = "FIRCLSUnwindGetPC cpu (Some c'')"
  have step: "frameCount c' < FIRCLSUnwindMaxFrames" "frameCount c'' = frameCount c' + 1"
    "lastFramePC c'' = ?pc" "repeatCount c'' = (if lastFramePC c' = ?pc then repeatCount c' + 1 else 0)"
    "FIRCLSIsValidPointer ?pc"
    using next_frame [OF frame.hyps(2)] by (auto simp: FIRCLSUnwindContextHasValidPCAndSP_def)
  have IH: "unat (frameCount c') = length pcs" "\<forall>pc \<in> set pcs. FIRCLSIsValidPointer pc"
    "lastFramePC c' = (case pcs of [] \<Rightarrow> 0 | pc # _ \<Rightarrow> pc)" "unat (repeatCount c') = repeats pcs"
    using frame.IH frame.prems by auto
  have count: "length pcs < 600000" using step(1) IH(1) by (simp add: FIRCLSUnwindMaxFrames_def word_less_nat_alt)
  then have frames: "unat (frameCount c'') = length (?pc # pcs)"
    using IH(1) unfolding step(2) by (simp add: unat_word_ariths)
  have "unat (repeatCount c'') = repeats (?pc # pcs)"
  proof (cases pcs)
    case Nil
    then have "lastFramePC c' \<noteq> ?pc" using IH(3) step(5) by (auto simp: FIRCLSIsValidPointer_def)
    then show ?thesis using Nil step(4) by simp
  next
    case (Cons pc pcs')
    moreover have "repeats pcs < 600000" using repeats_less [of pcs] Cons count by simp
    ultimately show ?thesis using IH(3,4) unfolding step(4) by (simp add: unat_word_ariths)
  qed
  then show ?case using frames count IH(2) step(3,5) by simp
qed auto

section \<open>A walk of one frame\<close>

definition blank_record :: FIRCLSDwarfCFIRecord where
  "blank_record = \<lparr>cfi_cie = cie_zero, cfi_fde = \<lparr>fde_length = 0, cieOffset = 0, startAddress = 0,
     rangeSize = 0, fde_instructions = \<lparr>instructions_length = 0, instructions_data = 0\<rparr>\<rparr>\<rparr>"

definition fresh_context :: "'c \<Rightarrow> 'c FIRCLSUnwindContext" where
  "fresh_context r = \<lparr>registers = r, frameCount = 0, compactUnwindState = compact_context_zero,
     lastFramePC = 0, repeatCount = 0\<rparr>"

definition no_images :: image_context where
  "no_images = \<lparr>context_initialized = True, image_nodes = []\<rparr>"

lemma fresh_context_init: "FIRCLSUnwindInit (Some (fresh_context r)) r = (True, Some (fresh_context r))"
  by (simp add: fresh_context_def)

theorem walk_bounded_witness:
  "\<exists>c'. walk frame_env no_images macho_sdk (x86_64_arch macho_x86_64 blank_record)
     (fresh_context frame_registers) [0x4000] c' \<and> unat (frameCount c') = 1"
proof -
  let ?cpu = "x86_64_arch macho_x86_64 blank_record"
  let ?c = "fresh_context frame_registers"
  let ?c' = "?c\<lparr>frameCount := 1, lastFramePC := 0x4000\<rparr>"
  have "FIRCLSUnwindNextFrame frame_env no_images macho_sdk ?cpu (Some ?c) = Some (True, Some ?c')"
    by (simp add: fresh_context_def frame_registers_def c_eval)
  from walk.frame [OF walk.start this]
  have w: "walk frame_env no_images macho_sdk ?cpu ?c [0x4000] ?c'"
    by (simp add: fresh_context_def frame_registers_def x86_64_arch_def cpu.extend_def x86_64_cpu_def)
  from walk_bounded [OF this fresh_context_init] have "unat (frameCount ?c') = 1" by simp
  with w show ?thesis by blast
qed

end
