(* ===== verification/AssignSpec.thy ===== *)
theory AssignSpec
  imports CfiSpec
begin

text \<open>
  The registers a DWARF unwind assigns, for any CPU that is a \<open>register_file\<close>: each register
  with a rule gets the value its rule says, the stack pointer gets the CFA, every other register
  keeps its value, and a step that leaves the stack pointer or the return address where they were
  is refused.
\<close>

text \<open>Register \<open>m\<close> has a rule and is among the \<open>n\<close> registers from \<open>i\<close> on.\<close>

definition assigned :: "FIRCLSDwarfState \<Rightarrow> nat \<Rightarrow> nat \<Rightarrow> nat \<Rightarrow> bool" where
  "assigned state i n m \<longleftrightarrow> i \<le> m \<and> m < i + n \<and>
     location (saved_registers state ! m) \<noteq> FIRCLSDwarfRegisterUnused"

context register_file begin

lemma assign_loop_values:
  assumes "assign_loop n e cpu state r cfa i new = Some (ok, new')"
    and "i + n \<le> CLS_DWARF_MAX_REGISTER_NUM cpu + 1" and m: "unat m \<le> CLS_DWARF_MAX_REGISTER_NUM cpu"
  shows "ok \<and>
    (if assigned state i n (unat m)
     then \<exists>v. FIRCLSDwarfGetSavedRegister e cpu r cfa (saved_registers state ! unat m) = Some v \<and>
            dwarf_get cpu new' m = kept m v
     else dwarf_get cpu new' m = dwarf_get cpu new m)"
  using assms(1,2)
proof (induction n arbitrary: i new)
  case 0
  then show ?case by (auto simp: assigned_def)
next
  case (Suc n)
  let ?reg = "saved_registers state ! i"
  have i: "i \<le> CLS_DWARF_MAX_REGISTER_NUM cpu" using Suc.prems(2) by simp
  have ui: "unat (of_nat i :: u64) = i" by (rule register_numbers [OF i])
  show ?case
  proof (cases "location ?reg = FIRCLSDwarfRegisterUnused")
    case True
    then have "assigned state i (Suc n) (unat m) = assigned state (i + 1) n (unat m)"
      by (cases "unat m = i") (auto simp: assigned_def)
    with True Suc.prems Suc.IH [of "i + 1" new] show ?thesis by simp
  next
    case False
    then obtain v where v: "FIRCLSDwarfGetSavedRegister e cpu r cfa ?reg = Some v"
      using Suc.prems(1) by (auto simp: bind_eq_Some_conv)
    define new1 where "new1 = snd (dwarf_set cpu new (of_nat i) v)"
    have set: "dwarf_set cpu new (of_nat i) v = (True, new1)"
      using i ui by (cases rule: set_cases [of "of_nat i" new v]) (simp_all add: new1_def)
    have IH: "ok \<and> (if assigned state (i + 1) n (unat m)
      then \<exists>v. FIRCLSDwarfGetSavedRegister e cpu r cfa (saved_registers state ! unat m) = Some v \<and>
            dwarf_get cpu new' m = kept m v
      else dwarf_get cpu new' m = dwarf_get cpu new1 m)"
      using Suc.prems False v set by (intro Suc.IH) simp_all
    have get: "dwarf_get cpu new1 m = (if m = of_nat i then kept (of_nat i) v else dwarf_get cpu new m)"
      unfolding new1_def using get_set [of "of_nat i" m new v] m i ui by simp
    show ?thesis
    proof (cases "unat m = i")
      case True
      then have "m = of_nat i" using ui by (simp add: word_unat_eq_iff)
      moreover have "\<not> assigned state (i + 1) n (unat m)" "assigned state i (Suc n) (unat m)"
        using True False by (simp_all add: assigned_def)
      ultimately show ?thesis using IH get v True by auto
    next
      case neq: False
      then have "m \<noteq> of_nat i" using ui by auto
      moreover have "assigned state i (Suc n) (unat m) = assigned state (i + 1) n (unat m)"
        using neq by (auto simp: assigned_def)
      ultimately show ?thesis using IH get by simp
    qed
  qed
qed

lemma assign_registers:
  assumes "FIRCLSDwarfUnwindAssignRegisters e cpu (Some state) (Some r) cfa (Some old) =
      Some (True, Some new)"
    and "unat m \<le> CLS_DWARF_MAX_REGISTER_NUM cpu"
  shows "(if m = CLS_DWARF_REG_SP cpu then dwarf_get cpu new m = kept m cfa
     else if location (saved_registers state ! unat m) = FIRCLSDwarfRegisterUnused
     then dwarf_get cpu new m = dwarf_get cpu r m
     else \<exists>v. FIRCLSDwarfGetSavedRegister e cpu r cfa (saved_registers state ! unat m) = Some v \<and>
            dwarf_get cpu new m = kept m v)"
    and "dwarf_get cpu new (CLS_DWARF_REG_SP cpu) \<noteq> dwarf_get cpu r (CLS_DWARF_REG_SP cpu)"
    and "dwarf_get cpu new (CLS_DWARF_REG_RETURN cpu) \<noteq> dwarf_get cpu r (CLS_DWARF_REG_RETURN cpu)"
proof -
  obtain mid where
    loop: "assign_loop (CLS_DWARF_MAX_REGISTER_NUM cpu + 1) e cpu state r cfa 0 r = Some (True, mid)" and
    set: "dwarf_set cpu mid (CLS_DWARF_REG_SP cpu) cfa = (True, new)" and
    changed: "dwarf_get cpu r (CLS_DWARF_REG_SP cpu) \<noteq> dwarf_get cpu new (CLS_DWARF_REG_SP cpu)"
      "dwarf_get cpu r (CLS_DWARF_REG_RETURN cpu) \<noteq> dwarf_get cpu new (CLS_DWARF_REG_RETURN cpu)"
    using assms(1)
    by (auto simp: bind_eq_Some_conv Let_def FIRCLSDwarfCompareRegisters_def
        simp del: assign_loop.simps split: if_splits prod.splits)
  have "dwarf_get cpu new m = (if m = CLS_DWARF_REG_SP cpu then kept m cfa else dwarf_get cpu mid m)"
    using get_set [OF special(1) assms(2), of mid cfa] set by simp
  then show "if m = CLS_DWARF_REG_SP cpu then dwarf_get cpu new m = kept m cfa
     else if location (saved_registers state ! unat m) = FIRCLSDwarfRegisterUnused
     then dwarf_get cpu new m = dwarf_get cpu r m
     else \<exists>v. FIRCLSDwarfGetSavedRegister e cpu r cfa (saved_registers state ! unat m) = Some v \<and>
            dwarf_get cpu new m = kept m v"
    using assign_loop_values [OF loop _ assms(2)] assms(2) by (auto simp: assigned_def)
  show "dwarf_get cpu new (CLS_DWARF_REG_SP cpu) \<noteq> dwarf_get cpu r (CLS_DWARF_REG_SP cpu)"
    "dwarf_get cpu new (CLS_DWARF_REG_RETURN cpu) \<noteq> dwarf_get cpu r (CLS_DWARF_REG_RETURN cpu)"
    using changed by simp_all
qed

lemma assign_loop_ip:
  assumes "assign_loop n e cpu state r cfa i new = Some (ok, new')"
    and "i + n \<le> CLS_DWARF_MAX_REGISTER_NUM cpu + 1"
    and "assigned state i n (unat (CLS_DWARF_REG_RETURN cpu)) \<or>
      GET_IP_REGISTER cpu new = dwarf_get cpu new (CLS_DWARF_REG_RETURN cpu)"
  shows "GET_IP_REGISTER cpu new' = dwarf_get cpu new' (CLS_DWARF_REG_RETURN cpu)"
  using assms
proof (induction n arbitrary: i new)
  case 0
  then show ?case by (auto simp: assigned_def)
next
  case (Suc n)
  let ?ret = "CLS_DWARF_REG_RETURN cpu"
  have i: "i \<le> CLS_DWARF_MAX_REGISTER_NUM cpu" using Suc.prems(2) by simp
  have ui: "unat (of_nat i :: u64) = i" by (rule register_numbers [OF i])
  show ?case
  proof (cases "location (saved_registers state ! i) = FIRCLSDwarfRegisterUnused")
    case True
    then have "assigned state i (Suc n) (unat ?ret) = assigned state (i + 1) n (unat ?ret)"
      by (cases "unat ?ret = i") (auto simp: assigned_def)
    with True Suc.prems Suc.IH [of "i + 1" new] show ?thesis by simp
  next
    case False
    then obtain v where v: "FIRCLSDwarfGetSavedRegister e cpu r cfa (saved_registers state ! i) = Some v"
      using Suc.prems(1) by (auto simp: bind_eq_Some_conv)
    define new1 where "new1 = snd (dwarf_set cpu new (of_nat i) v)"
    have set: "dwarf_set cpu new (of_nat i) v = (True, new1)"
      using i ui by (cases rule: set_cases [of "of_nat i" new v]) (simp_all add: new1_def)
    have rest: "assign_loop n e cpu state r cfa (i + 1) new1 = Some (ok, new')"
      using Suc.prems(1) False v set by simp
    show ?thesis
    proof (cases "?ret = of_nat i")
      case True
      then have "GET_IP_REGISTER cpu new1 = kept ?ret v" "dwarf_get cpu new1 ?ret = kept ?ret v"
        using set_return [of new v] get_set [of ?ret ?ret new v] special(2) by (simp_all add: new1_def)
      then show ?thesis using Suc.prems(2) by (intro Suc.IH [OF rest]) simp_all
    next
      case neq: False
      then have "GET_IP_REGISTER cpu new1 = GET_IP_REGISTER cpu new"
        "dwarf_get cpu new1 ?ret = dwarf_get cpu new ?ret"
        using set_not_return [of "of_nat i" new v] get_set [of "of_nat i" ?ret new v] special(2) i ui
        by (auto simp: new1_def)
      moreover have "unat ?ret \<noteq> i" using neq ui by (metis word_unat_eq_iff)
      then have "assigned state i (Suc n) (unat ?ret) = assigned state (i + 1) n (unat ?ret)"
        by (auto simp: assigned_def)
      ultimately show ?thesis using Suc.prems(2,3) by (intro Suc.IH [OF rest]) simp_all
    qed
  qed
qed

text \<open>A successful unwind moves the program counter to the return address it restored.\<close>

lemma assigned_pc:
  assumes "FIRCLSDwarfUnwindAssignRegisters e cpu (Some state) (Some r) cfa (Some old) =
      Some (True, Some new)"
  shows "GET_IP_REGISTER cpu new = dwarf_get cpu new (CLS_DWARF_REG_RETURN cpu)"
proof -
  let ?ret = "CLS_DWARF_REG_RETURN cpu"
  obtain mid where
    loop: "assign_loop (CLS_DWARF_MAX_REGISTER_NUM cpu + 1) e cpu state r cfa 0 r = Some (True, mid)" and
    set: "dwarf_set cpu mid (CLS_DWARF_REG_SP cpu) cfa = (True, new)" and
    changed: "dwarf_get cpu new ?ret \<noteq> dwarf_get cpu r ?ret"
    using assms
    by (auto simp: bind_eq_Some_conv Let_def FIRCLSDwarfCompareRegisters_def
        simp del: assign_loop.simps split: if_splits prod.splits)
  have new: "dwarf_get cpu new ?ret = dwarf_get cpu mid ?ret" "GET_IP_REGISTER cpu new = GET_IP_REGISTER cpu mid"
    using get_set [OF special(1,2), of mid cfa] set_not_return [OF special(3), of mid cfa] set special(3)
    by simp_all
  have "assigned state 0 (CLS_DWARF_MAX_REGISTER_NUM cpu + 1) (unat ?ret)"
    using assign_loop_values [OF loop _ special(2)] changed new(1) by (auto split: if_splits)
  then show ?thesis using assign_loop_ip [OF loop] new by simp
qed

lemma assign_registers_failure:
  assumes "FIRCLSDwarfUnwindAssignRegisters e cpu (Some state) (Some r) cfa output = Some (False, output')"
  shows "output' = output"
  using assms by (auto simp: bind_eq_Some_conv Let_def simp del: assign_loop.simps split: if_splits prod.splits option.splits)

end

section \<open>The two CPUs\<close>

text \<open>
  When a DWARF unwind succeeds on x86-64, the stack pointer is the CFA, every other register
  with a rule has the value its rule gives in the frame that is left (0 when the memory of the rule
  cannot be read), every register without a rule keeps its value, and both the stack pointer and
  the program counter differ from those of the frame that is left.
\<close>
theorem x86_64_assigned_registers:
  assumes "FIRCLSDwarfUnwindAssignRegisters e x86_64_cpu (Some state) (Some r) cfa (Some old) =
      Some (True, Some new)"
    and "unat m \<le> 16"
  shows "(if m = 7 then x86_64_get new m = cfa
     else if location (saved_registers state ! unat m) = FIRCLSDwarfRegisterUnused
     then x86_64_get new m = x86_64_get r m
     else FIRCLSDwarfGetSavedRegister e x86_64_cpu r cfa (saved_registers state ! unat m) =
            Some (x86_64_get new m)) \<and>
    rsp new \<noteq> rsp r \<and> rip new \<noteq> rip r"
proof -
  have max: "CLS_DWARF_MAX_REGISTER_NUM x86_64_cpu = 16" by (simp add: x86_64_cpu_def)
  note spec = x86.assign_registers [OF assms(1)]
  from spec(1) [of m] spec(2,3) [OF assms(2) [folded max]] assms(2) show ?thesis
    by (auto simp: x86_64_cpu_def x86_64_get_def split: if_splits)
qed

theorem x86_64_assigned_registers_witness:
  "(let r = \<lparr>rax = 0, rdx = 0, rcx = 0, rbx = 5, rsi = 0, rdi = 0, rbp = 0, rsp = 0x1000, r8 = 0,
        r9 = 0, r10 = 0, r11 = 0, r12 = 0, r13 = 0, r14 = 0, r15 = 0, rip = 0x4000\<rparr>;
        new = r\<lparr>rsp := 0x1008, rip := 0x5000\<rparr>
    in x86_64_get new 7 = 0x1008 \<and> rsp new \<noteq> rsp r \<and> rip new \<noteq> rip r)"
proof -
  let ?r = "\<lparr>rax = 0, rdx = 0, rcx = 0, rbx = 5, rsi = 0, rdi = 0, rbp = 0, rsp = 0x1000, r8 = 0,
        r9 = 0, r10 = 0, r11 = 0, r12 = 0, r13 = 0, r14 = 0, r15 = 0, rip = 0x4000\<rparr>"
  let ?u = "\<lparr>location = FIRCLSDwarfRegisterUnused, saved_value = 0\<rparr>"
  let ?s = "\<lparr>cfaRegister = 7, cfaRegisterOffset = 8, cfaExpression = 0, spArgSize = 0,
    saved_registers = [?u, ?u, ?u, ?u, ?u, ?u, ?u, ?u, ?u, ?u, ?u, ?u, ?u, ?u, ?u, ?u,
      \<lparr>location = FIRCLSDwarfRegisterInCFA, saved_value = - 8\<rparr>]\<rparr>"
  let ?e = "flat_env 0x1000 [0, 0x50, 0, 0, 0, 0, 0, 0]"
  have "FIRCLSDwarfUnwindAssignRegisters ?e x86_64_cpu (Some ?s) (Some ?r) 0x1008 (Some ?r) =
      Some (True, Some (?r\<lparr>rsp := 0x1008, rip := 0x5000\<rparr>))"
    by (simp add: c_eval assign_loop_numeral cong: bind_weak_cong)
  from x86_64_assigned_registers [OF this, of 7] show ?thesis by (simp add: Let_def)
qed

context arm_sdk begin

lemmas arm_assign_registers = arm.assign_registers
lemmas arm_assigned_pc = arm.assigned_pc

end

text \<open>
  When a DWARF unwind succeeds on arm64, the program counter is the link register the unwind
  restored (an unwind without a rule for the link register is refused), the stack pointer is the
  CFA without its upper 28 bits, and a general register without a rule keeps its value.
\<close>
theorem arm64_assigned_registers:
  assumes "arm_sdk sdk"
    and "FIRCLSDwarfUnwindAssignRegisters e (arm64_cpu sdk) (Some state) (Some r) cfa (Some old) =
      Some (True, Some new)"
  shows "location (saved_registers state ! 30) \<noteq> FIRCLSDwarfRegisterUnused \<and>
    FIRCLSThreadContextGetPC (arm64_cpu sdk) (Some new) =
      FIRCLSThreadContextGetLinkRegister (arm64_cpu sdk) (Some new) \<and>
    FIRCLSThreadContextGetStackPointer (arm64_cpu sdk) (Some new) = CLS_PTRAUTH_STRIP cfa \<and>
    (\<forall>m \<le> 28. location (saved_registers state ! unat m) = FIRCLSDwarfRegisterUnused \<longrightarrow>
       x_regs new m = x_regs r m)"
proof -
  note facts = arm_sdk.arm_assign_registers [OF assms] and pc = arm_sdk.arm_assigned_pc [OF assms]
  have cpu: "CLS_DWARF_MAX_REGISTER_NUM (arm64_cpu sdk) = 31" "CLS_DWARF_REG_SP (arm64_cpu sdk) = 31"
    "CLS_DWARF_REG_RETURN (arm64_cpu sdk) = 30" "dwarf_get (arm64_cpu sdk) = arm64_get sdk"
    by (simp_all add: arm64_cpu_def thread_state.extend_def arm64_thread_state_def)
  have regs: "arm64_get sdk q 30 = FIRCLSThreadContextGetLinkRegister (arm64_cpu sdk) (Some q)"
    "arm64_get sdk q 31 = FIRCLSThreadContextGetStackPointer (arm64_cpu sdk) (Some q)"
    "n \<le> 28 \<Longrightarrow> arm64_get sdk q n = x_regs q n" for q n
    by (simp_all add: arm64_get_def arm64_cpu_def thread_state.extend_def arm64_thread_state_def)
  have "location (saved_registers state ! 30) \<noteq> FIRCLSDwarfRegisterUnused"
    using facts(1) [of 30] facts(3) [of 30] by (auto simp: cpu)
  moreover have "FIRCLSThreadContextGetPC (arm64_cpu sdk) (Some new) =
      FIRCLSThreadContextGetLinkRegister (arm64_cpu sdk) (Some new)"
    using pc regs(1) by (simp add: cpu)
  moreover have "arm64_get sdk new 31 = CLS_PTRAUTH_STRIP cfa"
    using facts(1) [of 31] by (simp add: cpu arm64_kept_def)
  moreover have "location (saved_registers state ! unat m) = FIRCLSDwarfRegisterUnused \<longrightarrow>
      x_regs new m = x_regs r m" if "m \<le> 28" for m :: u64
  proof -
    have "unat m \<le> 31" "m \<noteq> 31" using that by (auto simp: word_le_nat_alt)
    then show ?thesis using facts(1) [of m] regs(3) [OF that] by (auto simp: cpu)
  qed
  ultimately show ?thesis using regs(2) by simp
qed

text \<open>The SDK's macros on targets without pointer authentication: plain fields.\<close>

record plain_regs =
  plain_fp :: u64
  plain_lr :: u64
  plain_sp :: u64
  plain_pc :: u64

definition plain_sdk :: "plain_regs arm64_sdk" where
  "plain_sdk = \<lparr>arm_thread_state64_get_pc = plain_pc, arm_thread_state64_get_fp = plain_fp,
     arm_thread_state64_get_sp = plain_sp, arm_thread_state64_get_lr = plain_lr,
     arm_thread_state64_set_pc_fptr = (\<lambda>s v. s\<lparr>plain_pc := v\<rparr>),
     arm_thread_state64_set_fp = (\<lambda>s v. s\<lparr>plain_fp := v\<rparr>),
     arm_thread_state64_set_sp = (\<lambda>s v. s\<lparr>plain_sp := v\<rparr>),
     arm_thread_state64_set_lr_fptr = (\<lambda>s v. s\<lparr>plain_lr := v\<rparr>)\<rparr>"

interpretation plain: arm_sdk plain_sdk
  by unfold_locales (simp_all add: plain_sdk_def)

theorem arm64_assigned_registers_witness:
  "\<exists>state r new :: plain_regs arm64.
     FIRCLSDwarfUnwindAssignRegisters (flat_env 0x1000 [0, 0x50, 0, 0, 0, 0, 0, 0]) (arm64_cpu plain_sdk)
       (Some state) (Some r) 0x1010 (Some r) = Some (True, Some new) \<and>
     FIRCLSThreadContextGetPC (arm64_cpu plain_sdk) (Some new) =
       FIRCLSThreadContextGetLinkRegister (arm64_cpu plain_sdk) (Some new)"
proof -
  let ?r = "\<lparr>x_regs = \<lambda>n. n, signed = \<lparr>plain_fp = 0x2000, plain_lr = 0x4000, plain_sp = 0x1000, plain_pc = 0x4000\<rparr>\<rparr>"
  let ?u = "\<lparr>location = FIRCLSDwarfRegisterUnused, saved_value = 0\<rparr>"
  let ?s = "\<lparr>cfaRegister = 31, cfaRegisterOffset = 16, cfaExpression = 0, spArgSize = 0,
    saved_registers = [?u, ?u, ?u, ?u, ?u, ?u, ?u, ?u, ?u, ?u, ?u, ?u, ?u, ?u, ?u, ?u,
      ?u, ?u, ?u, ?u, ?u, ?u, ?u, ?u, ?u, ?u, ?u, ?u, ?u, ?u,
      \<lparr>location = FIRCLSDwarfRegisterInCFA, saved_value = - 16\<rparr>, ?u]\<rparr>"
  let ?new = "?r\<lparr>signed := \<lparr>plain_fp = 0x2000, plain_lr = 0x5000, plain_sp = 0x1010, plain_pc = 0x5000\<rparr>\<rparr>"
  have run: "FIRCLSDwarfUnwindAssignRegisters (flat_env 0x1000 [0, 0x50, 0, 0, 0, 0, 0, 0])
      (arm64_cpu plain_sdk) (Some ?s) (Some ?r) 0x1010 (Some ?r) = Some (True, Some ?new)"
    by (simp add: c_eval assign_loop_numeral thread_state.extend_def plain_sdk_def cong: bind_weak_cong)
  from arm64_assigned_registers [OF plain.arm_sdk_axioms run] run show ?thesis by blast
qed

end
