(* ===== verification/FrameChain.thy ===== *)
theory FrameChain
  imports UnwindSpec AssignSpec
begin

text \<open>
  Walks over a chain of frame records.  The locale \<open>frame_pointer_arch\<close> states what the walk
  needs of a CPU; both 64-bit CPUs are interpretations.  \<open>kept v\<close> is what a register holds after
  \<open>v\<close> was stored, as in \<open>register_file\<close>.
\<close>

section \<open>Chains\<close>

definition no_unwind_info :: "image_context \<Rightarrow> u64 \<Rightarrow> bool" where
  "no_unwind_info images pc \<longleftrightarrow>
     (case find_node (image_nodes images) pc of
        None \<Rightarrow> True
      | Some node \<Rightarrow> context_initialized images \<and> pc \<noteq> 0 \<longrightarrow> \<not> FIRCLSBinaryImageSafeHasUnwindInfo node)"

text \<open>
  \<open>frame_chain e images kept pc fp fs\<close>: from the frame at \<open>fp\<close> with program counter \<open>pc\<close>, the
  saved frame pointers and return addresses in memory are \<open>fs\<close>, all plausible, and no unwind
  information overrides them.
\<close>

primrec frame_chain ::
  "env \<Rightarrow> image_context \<Rightarrow> (u64 \<Rightarrow> u64) \<Rightarrow> u64 \<Rightarrow> u64 \<Rightarrow> (u64 \<times> u64) list \<Rightarrow> bool" where
  "frame_chain e images kept pc fp [] = True"
| "frame_chain e images kept pc fp (f # fs) =
     (FIRCLSIsValidPointer (pc - 1) \<and> no_unwind_info images (kept (pc - 1)) \<and> fp \<noteq> 0 \<and>
      (case FIRCLSReadMemory e fp 16 of
         None \<Rightarrow> False
       | Some stack \<Rightarrow> f = (kept (stack_word stack 0), kept (stack_word stack 1))) \<and>
      FIRCLSIsValidPointer (snd f) \<and> FIRCLSIsValidPointer (kept (fp + 16)) \<and>
      frame_chain e images kept (snd f) (fst f) fs)"

lemma frame_chain_snoc:
  "frame_chain e images kept pc fp (fs @ [f]) \<longleftrightarrow> frame_chain e images kept pc fp fs \<and>
     frame_chain e images kept (snd (last ((fp, pc) # fs))) (fst (last ((fp, pc) # fs))) [f]"
  by (induction fs arbitrary: pc fp) auto

lemma no_compact_unwind:
  assumes "no_unwind_info images (FIRCLSUnwindGetPC cpu (Some c))"
  shows "addr_ofM c (FIRCLSUnwindWithCompactUnwindInfo e images sdk cpu) = Some (False, c)"
  using assms
  by (intro addr_ofM_Some) (auto simp: no_unwind_info_def addr_of_def Let_def split: option.splits)

lemma frame_count_less:
  "unat (frameCount c) < 600000 \<longleftrightarrow> \<not> FIRCLSUnwindMaxFrames \<le> frameCount c"
  by (simp add: FIRCLSUnwindMaxFrames_def word_le_nat_alt not_le)

lemma walk_trans:
  "walk e images sdk cpu c' ys c'' \<Longrightarrow> walk e images sdk cpu c xs c' \<Longrightarrow> walk e images sdk cpu c (ys @ xs) c''"
proof (induction rule: walk.induct)
  case (frame pcs d d')
  show ?case using walk.frame [OF frame.IH [OF frame.prems] frame.hyps(2)] by (metis append_Cons)
qed simp

section \<open>The contract of a CPU\<close>

locale frame_pointer_arch =
  fixes cpu :: "('c, 'z) arch_scheme" and kept :: "u64 \<Rightarrow> u64"
  assumes get_set:
      "GET_IP_REGISTER cpu (SET_IP_REGISTER cpu r v) = kept v"
      "GET_FP_REGISTER cpu (SET_FP_REGISTER cpu r v) = kept v"
      "GET_SP_REGISTER cpu (SET_SP_REGISTER cpu r v) = kept v"
    and other:
      "GET_FP_REGISTER cpu (SET_IP_REGISTER cpu r v) = GET_FP_REGISTER cpu r"
      "GET_SP_REGISTER cpu (SET_IP_REGISTER cpu r v) = GET_SP_REGISTER cpu r"
      "GET_IP_REGISTER cpu (SET_FP_REGISTER cpu r v) = GET_IP_REGISTER cpu r"
      "GET_IP_REGISTER cpu (SET_SP_REGISTER cpu r v) = GET_IP_REGISTER cpu r"
      "GET_FP_REGISTER cpu (SET_SP_REGISTER cpu r v) = GET_FP_REGISTER cpu r"
    and by_frame_pointer:
      "FIRCLSUnwindWithFramePointer cpu e images (Some r) False =
         (case FIRCLSReadMemory e (GET_FP_REGISTER cpu r) 16 of
            None \<Rightarrow> Some (False, Some r)
          | Some stack \<Rightarrow> Some (True, Some (SET_SP_REGISTER cpu (SET_FP_REGISTER cpu
              (SET_IP_REGISTER cpu r (stack_word stack 1)) (stack_word stack 0))
              (GET_FP_REGISTER cpu r + 16))))"
begin

lemmas register_laws = get_set other

lemma first_frame:
  assumes "frameCount c = 0" and "FIRCLSUnwindContextHasValidPCAndSP cpu (Some c)"
  obtains c' where "FIRCLSUnwindNextFrame e images sdk cpu (Some c) = Some (True, Some c')"
    and "registers c' = registers c" and "frameCount c' = 1"
proof -
  have "FIRCLSUnwindNextFrameUsingAllStrategies e images sdk cpu (Some c) = Some (True, Some c)"
    using assms by (simp add: FIRCLSUnwindMaxFrames_def FIRCLSUnwindContextHasValidPCAndSP_def Let_def)
  then have "addr_ofM c (FIRCLSUnwindNextFrameUsingAllStrategies e images sdk cpu) = Some (True, c)"
    by (rule addr_ofM_Some)
  then show ?thesis using assms that by (simp add: FIRCLSUnwindContextHasValidPCAndSP_def Let_def)
qed

lemma one_frame:
  assumes "0 < frameCount c"
    and "frameCount c = 1 \<Longrightarrow> FIRCLSUnwindWithFramePointer cpu e images
      (Some (SET_IP_REGISTER cpu (registers c) (FIRCLSUnwindGetPC cpu (Some c) - 1))) True =
      FIRCLSUnwindWithFramePointer cpu e images
      (Some (SET_IP_REGISTER cpu (registers c) (FIRCLSUnwindGetPC cpu (Some c) - 1))) False"
    and "unat (frameCount c) < 600000"
    and "FIRCLSUnwindContextHasValidPCAndSP cpu (Some c)"
    and "frame_chain e images kept (FIRCLSUnwindGetPC cpu (Some c)) (FIRCLSUnwindGetFramePointer cpu (Some c)) [f]"
  obtains c' where "FIRCLSUnwindNextFrame e images sdk cpu (Some c) = Some (True, Some c')"
    and "FIRCLSUnwindGetPC cpu (Some c') = snd f" and "FIRCLSUnwindGetFramePointer cpu (Some c') = fst f"
    and "frameCount c' = frameCount c + 1" and "FIRCLSUnwindContextHasValidPCAndSP cpu (Some c')"
proof -
  let ?pc = "FIRCLSUnwindGetPC cpu (Some c)" and ?fp = "FIRCLSUnwindGetFramePointer cpu (Some c)"
  let ?r = "SET_IP_REGISTER cpu (registers c) (?pc - 1)"
  let ?c = "c\<lparr>registers := ?r\<rparr>"
  obtain stack where stack: "FIRCLSReadMemory e ?fp 16 = Some stack"
      "f = (kept (stack_word stack 0), kept (stack_word stack 1))"
    and chain: "FIRCLSIsValidPointer (?pc - 1)" "no_unwind_info images (kept (?pc - 1))" "?fp \<noteq> 0"
      "FIRCLSIsValidPointer (snd f)" "FIRCLSIsValidPointer (kept (?fp + 16))"
    using assms(5) by (auto split: option.splits)
  let ?r' = "SET_SP_REGISTER cpu (SET_FP_REGISTER cpu (SET_IP_REGISTER cpu ?r (stack_word stack 1))
    (stack_word stack 0)) (?fp + 16)"
  have count: "0 < frameCount c" "frameCount c \<noteq> 0" using assms(1) by auto
  have "addr_ofM ?c (FIRCLSUnwindWithCompactUnwindInfo e images sdk cpu) = Some (False, ?c)"
    using chain(2) by (intro no_compact_unwind) (simp add: register_laws)
  moreover have "FIRCLSUnwindWithFramePointer cpu e images (Some ?r) False = Some (True, Some ?r')"
    using stack(1) by (simp add: by_frame_pointer register_laws)
  then have "FIRCLSUnwindWithFramePointer cpu e images (Some ?r) (frameCount c = 1) = Some (True, Some ?r')"
    using assms(2) by (cases "frameCount c = 1") simp_all
  then have "addr_ofM ?r (\<lambda>r. FIRCLSUnwindWithFramePointer cpu e images r (frameCount c = 1)) = Some (True, ?r')"
    by (rule addr_ofM_Some)
  ultimately have "unwind_strategies e images sdk cpu ?c = Some (True, c\<lparr>registers := ?r'\<rparr>)"
    using chain(3) by (simp add: unwind_strategies_def register_laws)
  then have "addr_ofM c (FIRCLSUnwindNextFrameUsingAllStrategies e images sdk cpu) =
      Some (True, c\<lparr>registers := ?r'\<rparr>)"
    using assms(3) chain(1) count by (intro addr_ofM_Some) (simp add: frame_count_less addr_of_def Let_def)
  then show ?thesis using assms(4) chain(4,5) stack(2) that
    by (simp add: register_laws FIRCLSUnwindContextHasValidPCAndSP_def Let_def)
qed

lemma frames:
  assumes "frame_chain e images kept (FIRCLSUnwindGetPC cpu (Some c))
      (FIRCLSUnwindGetFramePointer cpu (Some c)) fs"
    and "1 < frameCount c" and "unat (frameCount c) + length fs \<le> 600000"
    and "FIRCLSUnwindContextHasValidPCAndSP cpu (Some c)"
  shows "\<exists>c'. walk e images sdk cpu c (rev (map snd fs)) c' \<and>
    (FIRCLSUnwindGetFramePointer cpu (Some c'), FIRCLSUnwindGetPC cpu (Some c')) =
      last ((FIRCLSUnwindGetFramePointer cpu (Some c), FIRCLSUnwindGetPC cpu (Some c)) # fs) \<and>
    FIRCLSUnwindContextHasValidPCAndSP cpu (Some c') \<and>
    unat (frameCount c') = unat (frameCount c) + length fs"
  using assms
proof (induction fs rule: rev_induct)
  case Nil
  then show ?case by (auto intro: walk.start)
next
  case (snoc f fs)
  let ?last = "last ((FIRCLSUnwindGetFramePointer cpu (Some c), FIRCLSUnwindGetPC cpu (Some c)) # fs)"
  obtain c' where c': "walk e images sdk cpu c (rev (map snd fs)) c'"
    "(FIRCLSUnwindGetFramePointer cpu (Some c'), FIRCLSUnwindGetPC cpu (Some c')) = ?last"
    "FIRCLSUnwindContextHasValidPCAndSP cpu (Some c')"
    "unat (frameCount c') = unat (frameCount c) + length fs"
    using snoc.IH snoc.prems frame_chain_snoc by fastforce
  have "frame_chain e images kept (snd ?last) (fst ?last) [f]"
    using snoc.prems(1) frame_chain_snoc by blast
  then have chain: "frame_chain e images kept (FIRCLSUnwindGetPC cpu (Some c'))
      (FIRCLSUnwindGetFramePointer cpu (Some c')) [f]"
    using c'(2) by (metis fst_conv snd_conv)
  have count: "0 < frameCount c'" "frameCount c' \<noteq> 1" "unat (frameCount c') < 600000"
    using snoc.prems(2,3) c'(4) by (auto simp: word_less_nat_alt)
  obtain c'' where c'': "FIRCLSUnwindNextFrame e images sdk cpu (Some c') = Some (True, Some c'')"
    "FIRCLSUnwindGetPC cpu (Some c'') = snd f" "FIRCLSUnwindGetFramePointer cpu (Some c'') = fst f"
    "frameCount c'' = frameCount c' + 1" "FIRCLSUnwindContextHasValidPCAndSP cpu (Some c'')"
    using one_frame [OF count(1) _ count(3) c'(3) chain] count(2) by blast
  have "walk e images sdk cpu c (rev (map snd (fs @ [f]))) c''"
    using walk.frame [OF c'(1) c''(1)] c''(2) by simp
  moreover have "unat (frameCount c'') = unat (frameCount c) + length (fs @ [f])"
    using c'(4) count(3) unfolding c''(4) by (simp add: unat_word_ariths)
  ultimately show ?case using c''(2,3,5) by auto
qed

lemma end_of_stack:
  assumes "0 < frameCount c" and "FIRCLSUnwindGetFramePointer cpu (Some c) = 0"
    and "no_unwind_info images (kept (FIRCLSUnwindGetPC cpu (Some c) - 1))" and "kept 0 = 0"
  shows "\<exists>c'. FIRCLSUnwindNextFrame e images sdk cpu (Some c) = Some (False, Some c')"
proof -
  let ?r = "SET_IP_REGISTER cpu (registers c) (FIRCLSUnwindGetPC cpu (Some c) - 1)"
  let ?c = "c\<lparr>registers := ?r\<rparr>"
  have "addr_ofM ?c (FIRCLSUnwindWithCompactUnwindInfo e images sdk cpu) = Some (False, ?c)"
    using assms(3) by (intro no_compact_unwind) (simp add: register_laws)
  then have strategies: "unwind_strategies e images sdk cpu ?c =
      Some (True, c\<lparr>registers := SET_IP_REGISTER cpu ?r 0\<rparr>)"
    using assms(2) by (simp add: unwind_strategies_def register_laws addr_of_def)
  let ?run = "FIRCLSUnwindNextFrameUsingAllStrategies e images sdk cpu (Some c)"
  have "frameCount c \<noteq> 0" using assms(1) by auto
  then have "?run = (if FIRCLSUnwindMaxFrames \<le> frameCount c then Some (False, Some c)
      else if \<not> FIRCLSIsValidPointer (FIRCLSUnwindGetPC cpu (Some c) - 1) then Some (False, Some ?c)
      else Some (True, Some (c\<lparr>registers := SET_IP_REGISTER cpu ?r 0\<rparr>)))"
    using strategies assms(1) by (simp add: addr_of_def)
  then consider c' where "?run = Some (False, Some c')"
    | "?run = Some (True, Some (c\<lparr>registers := SET_IP_REGISTER cpu ?r 0\<rparr>))"
    by metis
  then show ?thesis
  proof cases
    case 1
    then have "addr_ofM c (FIRCLSUnwindNextFrameUsingAllStrategies e images sdk cpu) = Some (False, c')"
      by (rule addr_ofM_Some)
    then show ?thesis by simp
  next
    case 2
    then have "addr_ofM c (FIRCLSUnwindNextFrameUsingAllStrategies e images sdk cpu) =
        Some (True, c\<lparr>registers := SET_IP_REGISTER cpu ?r 0\<rparr>)"
      by (rule addr_ofM_Some)
    then show ?thesis by (simp add: Let_def register_laws assms(4) FIRCLSIsValidPointer_def)
  qed
qed

text \<open>The walk from a fresh context where the second frame is found by the frame pointer.\<close>

lemma whole_walk:
  assumes "frameCount c = 0" and "FIRCLSUnwindContextHasValidPCAndSP cpu (Some c)"
    and "frame_chain e images kept (FIRCLSUnwindGetPC cpu (Some c))
      (FIRCLSUnwindGetFramePointer cpu (Some c)) (f # fs)"
    and "length (f # fs) < 600000"
    and "FIRCLSUnwindWithFramePointer cpu e images
      (Some (SET_IP_REGISTER cpu (registers c) (FIRCLSUnwindGetPC cpu (Some c) - 1))) True =
      FIRCLSUnwindWithFramePointer cpu e images
      (Some (SET_IP_REGISTER cpu (registers c) (FIRCLSUnwindGetPC cpu (Some c) - 1))) False"
  shows "\<exists>c'. walk e images sdk cpu c (rev (map snd (f # fs)) @ [FIRCLSUnwindGetPC cpu (Some c)]) c' \<and>
    (FIRCLSUnwindGetFramePointer cpu (Some c'), FIRCLSUnwindGetPC cpu (Some c')) = last (f # fs) \<and>
    0 < frameCount c'"
proof -
  obtain c1 where c1: "FIRCLSUnwindNextFrame e images sdk cpu (Some c) = Some (True, Some c1)"
    "registers c1 = registers c" "frameCount c1 = 1"
    using first_frame [OF assms(1,2)] .
  have same: "FIRCLSUnwindGetPC cpu (Some c1) = FIRCLSUnwindGetPC cpu (Some c)"
    "FIRCLSUnwindGetFramePointer cpu (Some c1) = FIRCLSUnwindGetFramePointer cpu (Some c)"
    "FIRCLSUnwindContextHasValidPCAndSP cpu (Some c1)"
    using c1(2) assms(2) by (simp_all add: FIRCLSUnwindContextHasValidPCAndSP_def)
  have chain: "frame_chain e images kept (FIRCLSUnwindGetPC cpu (Some c1))
      (FIRCLSUnwindGetFramePointer cpu (Some c1)) [f]"
    using assms(3) unfolding same by simp
  have count: "0 < frameCount c1" "unat (frameCount c1) < 600000" by (simp_all add: c1(3))
  have "FIRCLSUnwindWithFramePointer cpu e images
      (Some (SET_IP_REGISTER cpu (registers c1) (FIRCLSUnwindGetPC cpu (Some c1) - 1))) True =
      FIRCLSUnwindWithFramePointer cpu e images
      (Some (SET_IP_REGISTER cpu (registers c1) (FIRCLSUnwindGetPC cpu (Some c1) - 1))) False"
    unfolding same c1(2) by (rule assms(5))
  then obtain c2 where c2: "FIRCLSUnwindNextFrame e images sdk cpu (Some c1) = Some (True, Some c2)"
    "FIRCLSUnwindGetPC cpu (Some c2) = snd f" "FIRCLSUnwindGetFramePointer cpu (Some c2) = fst f"
    "frameCount c2 = frameCount c1 + 1" "FIRCLSUnwindContextHasValidPCAndSP cpu (Some c2)"
    using one_frame [OF count(1) _ count(2) same(3) chain] by blast
  have two: "frameCount c2 = 2" using c2(4) c1(3) by simp
  have "frame_chain e images kept (FIRCLSUnwindGetPC cpu (Some c2))
      (FIRCLSUnwindGetFramePointer cpu (Some c2)) fs"
    using assms(3) unfolding c2 by simp
  then obtain c' where c': "walk e images sdk cpu c2 (rev (map snd fs)) c'"
    "(FIRCLSUnwindGetFramePointer cpu (Some c'), FIRCLSUnwindGetPC cpu (Some c')) =
      last ((fst f, snd f) # fs)" "unat (frameCount c') = 2 + length fs"
    using frames [of e images c2 fs sdk] c2(5) two assms(4) unfolding c2(2,3) by auto
  have "walk e images sdk cpu c [snd f, FIRCLSUnwindGetPC cpu (Some c)] c2"
    using walk.frame [OF walk.frame [OF walk.start c1(1)] c2(1)] unfolding same c2(2) .
  then have "walk e images sdk cpu c (rev (map snd (f # fs)) @ [FIRCLSUnwindGetPC cpu (Some c)]) c'"
    using walk_trans [OF c'(1)] by fastforce
  moreover have "0 < frameCount c'" using c'(3) by (simp add: word_less_nat_alt)
  ultimately show ?thesis using c'(2) by auto
qed

text \<open>The walk from a fresh context where the second frame is in a link register.\<close>

lemma link_register_walk:
  assumes "frameCount c = 0" and "FIRCLSUnwindContextHasValidPCAndSP cpu (Some c)"
    and "FIRCLSIsValidPointer (FIRCLSUnwindGetPC cpu (Some c) - 1)"
    and "no_unwind_info images (kept (FIRCLSUnwindGetPC cpu (Some c) - 1))"
    and "FIRCLSUnwindGetFramePointer cpu (Some c) \<noteq> 0" and "FIRCLSIsValidPointer (kept lr)"
    and "frame_chain e images kept (kept lr) (FIRCLSUnwindGetFramePointer cpu (Some c)) fs"
    and "length fs < 599999"
    and "\<And>r. r = SET_IP_REGISTER cpu (registers c) (FIRCLSUnwindGetPC cpu (Some c) - 1) \<Longrightarrow>
      FIRCLSUnwindWithFramePointer cpu e images (Some r) True = Some (True, Some (SET_IP_REGISTER cpu r lr))"
  shows "\<exists>c'. walk e images sdk cpu c (rev (map snd fs) @ [kept lr, FIRCLSUnwindGetPC cpu (Some c)]) c' \<and>
    (FIRCLSUnwindGetFramePointer cpu (Some c'), FIRCLSUnwindGetPC cpu (Some c')) =
      last ((FIRCLSUnwindGetFramePointer cpu (Some c), kept lr) # fs) \<and> 0 < frameCount c'"
proof -
  let ?pc = "FIRCLSUnwindGetPC cpu (Some c)" and ?fp = "FIRCLSUnwindGetFramePointer cpu (Some c)"
  let ?r = "SET_IP_REGISTER cpu (registers c) (?pc - 1)"
  obtain c1 where c1: "FIRCLSUnwindNextFrame e images sdk cpu (Some c) = Some (True, Some c1)"
    "registers c1 = registers c" "frameCount c1 = 1"
    using first_frame [OF assms(1,2)] .
  let ?c1 = "c1\<lparr>registers := ?r\<rparr>" and ?c2 = "c1\<lparr>registers := SET_IP_REGISTER cpu ?r lr\<rparr>"
  have valid: "FIRCLSUnwindContextHasValidPCAndSP cpu (Some c1)"
    using c1(2) assms(2) by (simp add: FIRCLSUnwindContextHasValidPCAndSP_def)
  have "addr_ofM ?c1 (FIRCLSUnwindWithCompactUnwindInfo e images sdk cpu) = Some (False, ?c1)"
    using assms(4) by (intro no_compact_unwind) (simp add: register_laws)
  moreover have "addr_ofM ?r (\<lambda>r. FIRCLSUnwindWithFramePointer cpu e images r True) =
      Some (True, SET_IP_REGISTER cpu ?r lr)"
    using assms(9) [OF refl] by (rule addr_ofM_Some)
  ultimately have "unwind_strategies e images sdk cpu ?c1 = Some (True, ?c2)"
    using assms(5) c1(3) by (simp add: unwind_strategies_def register_laws)
  moreover have "\<not> FIRCLSUnwindMaxFrames \<le> frameCount c1"
    unfolding frame_count_less [symmetric] by (simp add: c1(3))
  ultimately have "addr_ofM c1 (FIRCLSUnwindNextFrameUsingAllStrategies e images sdk cpu) = Some (True, ?c2)"
    using assms(3) c1(2,3) by (intro addr_ofM_Some) (simp add: addr_of_def Let_def)
  then obtain c2 where c2: "FIRCLSUnwindNextFrame e images sdk cpu (Some c1) = Some (True, Some c2)"
    "FIRCLSUnwindGetPC cpu (Some c2) = kept lr" "FIRCLSUnwindGetFramePointer cpu (Some c2) = ?fp"
    "frameCount c2 = 2" "FIRCLSUnwindContextHasValidPCAndSP cpu (Some c2)"
    using assms(2,6) valid c1(3)
    by (simp add: register_laws FIRCLSUnwindContextHasValidPCAndSP_def Let_def)
  obtain c' where c': "walk e images sdk cpu c2 (rev (map snd fs)) c'"
    "(FIRCLSUnwindGetFramePointer cpu (Some c'), FIRCLSUnwindGetPC cpu (Some c')) = last ((?fp, kept lr) # fs)"
    "unat (frameCount c') = 2 + length fs"
    using frames [of e images c2 fs sdk] c2(4,5) assms(7,8) unfolding c2(2,3) by auto
  have "FIRCLSUnwindGetPC cpu (Some c1) = ?pc" using c1(2) by simp
  then have "walk e images sdk cpu c [kept lr, ?pc] c2"
    using walk.frame [OF walk.frame [OF walk.start c1(1)] c2(1)] unfolding c2(2) by simp
  then have "walk e images sdk cpu c (rev (map snd fs) @ [kept lr, ?pc]) c'"
    using walk_trans [OF c'(1)] by blast
  moreover have "0 < frameCount c'" using c'(3) by (simp add: word_less_nat_alt)
  ultimately show ?thesis using c'(2) by auto
qed

end

section \<open>The two CPUs\<close>

lemma x86_64_arch_simps [simp]:
  "GET_IP_REGISTER (x86_64_arch sdk g) = rip" "GET_FP_REGISTER (x86_64_arch sdk g) = rbp"
  "GET_SP_REGISTER (x86_64_arch sdk g) = rsp"
  "SET_IP_REGISTER (x86_64_arch sdk g) r v = r\<lparr>rip := v\<rparr>"
  "SET_FP_REGISTER (x86_64_arch sdk g) r v = r\<lparr>rbp := v\<rparr>"
  "SET_SP_REGISTER (x86_64_arch sdk g) r v = r\<lparr>rsp := v\<rparr>"
  "FIRCLSUnwindWithFramePointer (x86_64_arch sdk g) = x86_FIRCLSUnwindWithFramePointer sdk"
  by (simp_all add: x86_64_arch_def cpu.extend_def x86_64_cpu_def)

interpretation x86_frames: frame_pointer_arch "x86_64_arch sdk g" "\<lambda>v. v"
  by unfold_locales
    (simp_all add: x86_FIRCLSUnwindWithFramePointer_def FIRCLSCompactUnwindBPFrame_def x86_64_cpu_def
      FIRCLSUnwindStackPointerFromFramePointer_def Let_def split: option.splits)

sublocale arm_sdk \<subseteq> arm_frames: frame_pointer_arch "arm64_arch masks sdk g" CLS_PTRAUTH_STRIP
  by unfold_locales
    (simp_all add: arm64_arch_def cpu.extend_def arm64_cpu_def thread_state.extend_def
      arm64_thread_state_def laws arm_FIRCLSUnwindWithFramePointer_def
      arm_FIRCLSUnwindStackPointerFromFramePointer_def Let_def split: option.splits)

section \<open>Scanning the stack\<close>

text \<open>The words \<open>ws\<close> lie at \<open>a\<close>, readable directly and through the kernel.\<close>

primrec stack_words :: "env \<Rightarrow> u64 \<Rightarrow> u64 list \<Rightarrow> bool" where
  "stack_words e a [] = True"
| "stack_words e a (w # ws) =
     (load e a 8 = Some w \<and> read_word e a 8 = Some w \<and> FIRCLSIsValidPointer a \<and>
      unat a + 8 < 2 ^ 64 \<and> stack_words e (a + 8) ws)"

text \<open>The loop looks at exactly \<open>n\<close> words, and at one even if the range is empty.\<close>

definition scan_range :: "u64 \<Rightarrow> u64 \<Rightarrow> nat \<Rightarrow> bool" where
  "scan_range start end_address n \<longleftrightarrow> 0 < n \<and> unat end_address \<le> unat start + 8 * n \<and>
     (n = 1 \<or> unat start + 8 * (n - 1) < unat end_address)"

lemma scan_words:
  assumes "stack_words e start ws" and "scan_range start end_address (length ws)"
  shows "FIRCLSUnwindFirstExecutableAddress e images start end_address =
    Some (case find (FIRCLSUnwindIsAddressExecutable images) ws of
            None \<Rightarrow> (False, 0) | Some w \<Rightarrow> (True, w))"
  using assms
proof (induction ws arbitrary: start)
  case (Cons w ws)
  then have start: "unat (start + 8) = unat start + 8" by (simp add: unat_word_ariths)
  have one: "scan_one e images start =
      Some (if FIRCLSUnwindIsAddressExecutable images w then Some (True, w) else None)"
    using Cons.prems(1) by (simp add: scan_one_def)
  show ?case
  proof (cases "FIRCLSUnwindIsAddressExecutable images w")
    case True
    then show ?thesis by (subst FIRCLSUnwindFirstExecutableAddress.simps) (simp add: one)
  next
    case False
    show ?thesis
    proof (cases "ws = []")
      case True
      then have "\<not> start + 8 < end_address"
        using Cons.prems(2) start by (simp add: scan_range_def word_less_nat_alt)
      then show ?thesis using False True
        by (subst FIRCLSUnwindFirstExecutableAddress.simps) (simp add: one)
    next
      case more: False
      then obtain n where n: "length ws = Suc n" by (cases ws) auto
      then have "start + 8 < end_address"
        using Cons.prems(2) start by (simp add: scan_range_def word_less_nat_alt)
      moreover have "scan_range (start + 8) end_address (length ws)"
        using Cons.prems(2) start n by (auto simp: scan_range_def)
      ultimately show ?thesis using False Cons.IH [of "start + 8"] Cons.prems(1)
        by (subst FIRCLSUnwindFirstExecutableAddress.simps) (simp add: one)
    qed
  qed
qed (simp add: scan_range_def)

lemma scan_then_frame_pointer:
  assumes "FIRCLSUnwindFirstExecutableAddress e images (rsp r) (rbp r) = Some (False, a)"
  shows "x86_FIRCLSUnwindWithFramePointer sdk e images (Some r) True =
    x86_FIRCLSUnwindWithFramePointer sdk e images (Some r) False"
  using assms
  by (simp add: x86_FIRCLSUnwindWithFramePointer_def FIRCLSUnwindWithStackScanning_def x86_64_cpu_def Let_def)

text \<open>
  On x86-64 the scan takes the first word between the stack pointer and the frame pointer that
  points into a loaded image, sets the program counter to it and changes nothing else; it fails
  when there is none.
\<close>

theorem stack_scan_finds_first:
  assumes "stack_words e (rsp r) ws" and "scan_range (rsp r) (rbp r) (length ws)"
  shows "FIRCLSUnwindWithStackScanning e images (Some r) =
    Some (case find (FIRCLSUnwindIsAddressExecutable images) ws of
            None \<Rightarrow> (False, Some r) | Some w \<Rightarrow> (True, Some (r\<lparr>rip := w\<rparr>)))"
  using scan_words [OF assms, of images]
  by (simp add: FIRCLSUnwindWithStackScanning_def x86_64_cpu_def Let_def split: option.splits)

text \<open>
  The scan loads the stack word directly, for its debug log, before it asks the kernel for it;
  so where the stack pointer is not mapped it has no result, although the read through the kernel
  would fail cleanly.
\<close>

theorem scan_of_unmapped_stack:
  assumes "mem e (rsp r) = None"
  shows "FIRCLSUnwindWithStackScanning e images (Some r) = None"
proof -
  have "load e (rsp r) 8 = (None :: u64 option)"
    using assms by (simp add: load_def load_bytes_numeral)
  then have "FIRCLSUnwindFirstExecutableAddress e images (rsp r) (rbp r) = None"
    by (subst FIRCLSUnwindFirstExecutableAddress.simps) (simp add: scan_one_def)
  then show ?thesis by (simp add: FIRCLSUnwindWithStackScanning_def x86_64_cpu_def)
qed

section \<open>Whole walks\<close>

text \<open>
  C10: The fallback of the x86-64 unwinder, for functions that have no unwind information: when the
  frames of a thread form a chain of frame records, none of whose program counters has unwind
  information, and no word between the stack pointer and the frame pointer of the first frame points
  into executable code (so that the stack scan of that frame finds nothing and the frame pointer
  decides), the walk visits the program counter and then exactly the return addresses of the chain,
  oldest last, and stops where the saved frame pointer is zero.
\<close>

theorem x86_64_frame_walk:
  assumes "FIRCLSUnwindInit (Some x) r = (True, Some c)"
    and "FIRCLSIsValidPointer (rip r)" and "FIRCLSIsValidPointer (rsp r)"
    and "frame_chain e images (\<lambda>v. v) (rip r) (rbp r) fs" and "fs \<noteq> []" and "length fs < 600000"
    and "stack_words e (rsp r) ws" and "scan_range (rsp r) (rbp r) (length ws)"
    and "find (FIRCLSUnwindIsAddressExecutable images) ws = None"
  shows "\<exists>c'. walk e images sdk (x86_64_arch x86 g) c (rev (map snd fs) @ [rip r]) c' \<and>
    rbp (registers c') = fst (last fs) \<and>
    (fst (last fs) = 0 \<and> no_unwind_info images (snd (last fs) - 1) \<longrightarrow>
      (\<exists>c''. FIRCLSUnwindNextFrame e images sdk (x86_64_arch x86 g) (Some c') = Some (False, Some c'')))"
proof -
  have c: "registers c = r" "frameCount c = 0" using assms(1) by auto
  obtain f fs' where fs: "fs = f # fs'" using assms(5) by (cases fs) auto
  have scan: "FIRCLSUnwindFirstExecutableAddress e images (rsp r) (rbp r) = Some (False, 0)"
    using scan_words [OF assms(7,8), of images] assms(9) by simp
  have second: "x86_FIRCLSUnwindWithFramePointer x86 e images (Some (r\<lparr>rip := rip r - 1\<rparr>)) True =
      x86_FIRCLSUnwindWithFramePointer x86 e images (Some (r\<lparr>rip := rip r - 1\<rparr>)) False"
    by (rule scan_then_frame_pointer) (simp add: scan)
  let ?cpu = "x86_64_arch x86 g"
  have get: "FIRCLSUnwindGetPC ?cpu (Some d) = rip (registers d)"
    "FIRCLSUnwindGetFramePointer ?cpu (Some d) = rbp (registers d)"
    "FIRCLSUnwindGetStackPointer ?cpu (Some d) = rsp (registers d)" for d
    by simp_all
  have valid: "FIRCLSUnwindContextHasValidPCAndSP ?cpu (Some c)"
    using assms(2,3) by (simp only: FIRCLSUnwindContextHasValidPCAndSP_def get c)
  have chain: "frame_chain e images (\<lambda>v. v) (FIRCLSUnwindGetPC ?cpu (Some c))
      (FIRCLSUnwindGetFramePointer ?cpu (Some c)) (f # fs')"
    using assms(4) unfolding get c fs .
  have len: "length (f # fs') < 600000" using assms(6) unfolding fs .
  have second': "FIRCLSUnwindWithFramePointer ?cpu e images
      (Some (SET_IP_REGISTER ?cpu (registers c) (FIRCLSUnwindGetPC ?cpu (Some c) - 1))) True =
      FIRCLSUnwindWithFramePointer ?cpu e images
      (Some (SET_IP_REGISTER ?cpu (registers c) (FIRCLSUnwindGetPC ?cpu (Some c) - 1))) False"
    using second unfolding get c x86_64_arch_simps .
  obtain c' where c': "walk e images sdk ?cpu c (rev (map snd fs) @ [rip r]) c'"
    "(rbp (registers c'), rip (registers c')) = last fs" "0 < frameCount c'"
    using x86_frames.whole_walk [OF c(2) valid chain len second', of sdk] unfolding fs get c by blast
  have "\<exists>c''. FIRCLSUnwindNextFrame e images sdk ?cpu (Some c') = Some (False, Some c'')"
    if "fst (last fs) = 0" "no_unwind_info images (snd (last fs) - 1)"
  proof (rule x86_frames.end_of_stack [OF c'(3)])
    show "FIRCLSUnwindGetFramePointer ?cpu (Some c') = 0" using that(1) c'(2) unfolding get by (metis fst_conv)
    show "no_unwind_info images (FIRCLSUnwindGetPC ?cpu (Some c') - 1)"
      using that(2) c'(2) unfolding get by (metis snd_conv)
  qed simp
  with c'(1,2) show ?thesis by (metis fst_conv)
qed

context arm_sdk begin

lemmas arm_link_register_walk = arm_frames.link_register_walk
lemmas arm_end_of_stack = arm_frames.end_of_stack

end

lemma strip_idem [simp]: "CLS_PTRAUTH_STRIP (CLS_PTRAUTH_STRIP v) = CLS_PTRAUTH_STRIP v"
  by (simp add: CLS_PTRAUTH_STRIP_def and.assoc)

lemma arm64_arch_simps [simp]:
  "GET_IP_REGISTER (arm64_arch masks sdk g) r = GET_IP_REGISTER (arm64_cpu sdk) r"
  "GET_FP_REGISTER (arm64_arch masks sdk g) r = GET_FP_REGISTER (arm64_cpu sdk) r"
  "GET_SP_REGISTER (arm64_arch masks sdk g) r = GET_SP_REGISTER (arm64_cpu sdk) r"
  "SET_IP_REGISTER (arm64_arch masks sdk g) r v = SET_IP_REGISTER (arm64_cpu sdk) r v"
  "FIRCLSUnwindWithFramePointer (arm64_arch masks sdk g) e images p b =
     Some (arm_FIRCLSUnwindWithFramePointer (arm64_cpu sdk) e p b)"
  by (simp_all add: arm64_arch_def cpu.extend_def arm64_cpu_def)

text \<open>
  On arm64 the walk of a thread visits the program counter, the link register, and then
  exactly the return addresses of the chain of frame records, with pointer authentication bits
  stripped, and stops where the saved frame pointer is zero.
\<close>

theorem arm64_frame_walk:
  assumes "arm_sdk sdk" and "FIRCLSUnwindInit (Some x) r = (True, Some c)"
    and "pc = GET_IP_REGISTER (arm64_cpu sdk) r" and "fp = GET_FP_REGISTER (arm64_cpu sdk) r"
    and "lr = GET_LR_REGISTER (arm64_cpu sdk) r"
    and "FIRCLSIsValidPointer (pc - 1)" and "FIRCLSIsValidPointer pc" and "FIRCLSIsValidPointer lr"
    and "FIRCLSIsValidPointer (GET_SP_REGISTER (arm64_cpu sdk) r)" and "fp \<noteq> 0"
    and "no_unwind_info images (CLS_PTRAUTH_STRIP (pc - 1))"
    and "frame_chain e images CLS_PTRAUTH_STRIP lr fp fs" and "length fs < 599999"
  shows "\<exists>c'. walk e images csdk (arm64_arch masks sdk g) c (rev (map snd fs) @ [lr, pc]) c' \<and>
    (fst (last ((fp, lr) # fs)) = 0 \<and>
     no_unwind_info images (CLS_PTRAUTH_STRIP (snd (last ((fp, lr) # fs)) - 1)) \<longrightarrow>
      (\<exists>c''. FIRCLSUnwindNextFrame e images csdk (arm64_arch masks sdk g) (Some c') = Some (False, Some c'')))"
proof -
  let ?cpu = "arm64_arch masks sdk g"
  have c: "registers c = r" "frameCount c = 0" using assms(2) by auto
  have get: "FIRCLSUnwindGetPC ?cpu (Some d) = GET_IP_REGISTER (arm64_cpu sdk) (registers d)"
    "FIRCLSUnwindGetFramePointer ?cpu (Some d) = GET_FP_REGISTER (arm64_cpu sdk) (registers d)"
    "FIRCLSUnwindGetStackPointer ?cpu (Some d) = GET_SP_REGISTER (arm64_cpu sdk) (registers d)" for d
    by simp_all
  have valid: "FIRCLSUnwindContextHasValidPCAndSP ?cpu (Some c)"
    using assms(3,7,9) by (simp only: FIRCLSUnwindContextHasValidPCAndSP_def get c simp_thms)
  have lr: "CLS_PTRAUTH_STRIP lr = lr"
    by (simp add: assms(5) arm64_cpu_def thread_state.extend_def arm64_thread_state_def)
  have second: "FIRCLSUnwindWithFramePointer ?cpu e images (Some q) True =
      Some (True, Some (SET_IP_REGISTER ?cpu q lr))"
    if "q = SET_IP_REGISTER ?cpu (registers c) (FIRCLSUnwindGetPC ?cpu (Some c) - 1)" for q
  proof -
    have "GET_LR_REGISTER (arm64_cpu sdk) q = lr"
      using arm_sdk.pc_others [OF assms(1)]
      by (simp add: that c assms(5) arm64_cpu_def thread_state.extend_def arm64_thread_state_def)
    then show ?thesis using assms(8) by (simp add: arm_FIRCLSUnwindWithFramePointer_def Let_def)
  qed
  obtain c' where c': "walk e images csdk ?cpu c (rev (map snd fs) @ [lr, pc]) c'"
    "(FIRCLSUnwindGetFramePointer ?cpu (Some c'), FIRCLSUnwindGetPC ?cpu (Some c')) = last ((fp, lr) # fs)"
    "0 < frameCount c'"
    using arm_sdk.arm_link_register_walk [OF assms(1) c(2) valid, of images lr e fs csdk] assms(6,8,10-13)
      second unfolding get c(1) lr assms(3) [symmetric] assms(4) [symmetric] by blast
  have "\<exists>c''. FIRCLSUnwindNextFrame e images csdk ?cpu (Some c') = Some (False, Some c'')"
    if "fst (last ((fp, lr) # fs)) = 0"
      "no_unwind_info images (CLS_PTRAUTH_STRIP (snd (last ((fp, lr) # fs)) - 1))"
  proof (rule arm_sdk.arm_end_of_stack [OF assms(1) c'(3)])
    show "FIRCLSUnwindGetFramePointer ?cpu (Some c') = 0" using that(1) c'(2) by (metis fst_conv)
    show "no_unwind_info images (CLS_PTRAUTH_STRIP (FIRCLSUnwindGetPC ?cpu (Some c') - 1))"
      using that(2) c'(2) by (metis snd_conv)
  qed (simp add: CLS_PTRAUTH_STRIP_def)
  with c'(1) show ?thesis by blast
qed

section \<open>A thread with two frames\<close>

definition walk_registers :: x86_64 where
  "walk_registers = \<lparr>rax = 0, rdx = 0, rcx = 0, rbx = 0, rsi = 0, rdi = 0, rbp = 0x2008, rsp = 0x2000,
     r8 = 0, r9 = 0, r10 = 0, r11 = 0, r12 = 0, r13 = 0, r14 = 0, r15 = 0, rip = 0x5000\<rparr>"

definition walk_env :: env where
  "walk_env = flat_env 0x2000
     [8, 0x70, 0, 0, 0, 0, 0, 0,  0, 0, 0, 0, 0, 0, 0, 0,  0, 0x60, 0, 0, 0, 0, 0, 0]"

definition one_image :: image_context where
  "one_image = \<lparr>context_initialized = True, image_nodes =
     [\<lparr>node_baseAddress = 0x7000, node_size = 0x1000, node_ehFrame = 0, node_unwindInfo = 0,
       node_crashInfo = 0\<rparr>]\<rparr>"

lemma walk_stack: "stack_words walk_env (rsp walk_registers) [0x7008]"
proof -
  have "load walk_env 0x2000 8 = Some (0x7008 :: u64)" "read_word walk_env 0x2000 8 = Some (0x7008 :: u64)"
    by (simp_all add: walk_env_def c_eval cong: bind_weak_cong)
  then show ?thesis by (simp add: walk_registers_def FIRCLSIsValidPointer_def)
qed

lemma walk_range: "scan_range (rsp walk_registers) (rbp walk_registers) (length [0x7008 :: u64])"
  by (simp add: scan_range_def walk_registers_def)

lemma walk_chain:
  "frame_chain walk_env no_images (\<lambda>v. v) (rip walk_registers) (rbp walk_registers) [(0, 0x6000)]"
proof -
  have "FIRCLSReadMemory walk_env 0x2008 16 =
      Some [0, 0, 0, 0, 0, 0, 0, 0, 0, 0x60, 0, 0, 0, 0, 0, 0]"
    by (simp add: walk_env_def c_eval cong: bind_weak_cong)
  then show ?thesis
    by (simp add: walk_registers_def no_unwind_info_def no_images_def FIRCLSIsValidPointer_def stack_word_def)
qed

theorem stack_scan_finds_first_witness:
  "FIRCLSUnwindWithStackScanning walk_env one_image (Some walk_registers) =
     Some (True, Some (walk_registers\<lparr>rip := 0x7008\<rparr>))"
  using stack_scan_finds_first [OF walk_stack walk_range, of one_image]
  by (simp add: one_image_def FIRCLSUnwindIsAddressExecutable_def addr_of_def)

theorem scan_of_unmapped_stack_witness:
  "FIRCLSUnwindWithStackScanning (flat_env 0x3000 []) no_images (Some walk_registers) = None"
  by (rule scan_of_unmapped_stack) (simp add: c_eval)

theorem x86_64_frame_walk_witness:
  "\<exists>c'. walk walk_env no_images macho_sdk (x86_64_arch macho_x86_64 blank_record) (fresh_context walk_registers) [0x6000, 0x5000] c' \<and>
     (\<exists>c''. FIRCLSUnwindNextFrame walk_env no_images macho_sdk (x86_64_arch macho_x86_64 blank_record) (Some c') =
        Some (False, Some c''))"
proof -
  have "FIRCLSIsValidPointer (rip walk_registers)" "FIRCLSIsValidPointer (rsp walk_registers)"
    by (simp_all add: walk_registers_def FIRCLSIsValidPointer_def)
  moreover have "find (FIRCLSUnwindIsAddressExecutable no_images) [0x7008] = None"
    by (simp add: no_images_def FIRCLSUnwindIsAddressExecutable_def addr_of_def)
  moreover have "no_unwind_info no_images a" for a by (simp add: no_unwind_info_def no_images_def)
  moreover have "rip walk_registers = 0x5000" by (simp add: walk_registers_def)
  ultimately show ?thesis
    using x86_64_frame_walk [OF fresh_context_init _ _ walk_chain _ _ walk_stack walk_range, of macho_sdk macho_x86_64 blank_record] by auto
qed

definition macho_arm64 :: arm64_masks where
  "macho_arm64 = \<lparr>UNWIND_ARM64_MODE_MASK = 0x0F000000, UNWIND_ARM64_MODE_FRAMELESS = 0x02000000,
     UNWIND_ARM64_MODE_DWARF = 0x03000000, UNWIND_ARM64_MODE_FRAME = 0x04000000,
     UNWIND_ARM64_DWARF_SECTION_OFFSET = 0x00FFFFFF\<rparr>"

definition arm_registers :: "plain_regs arm64" where
  "arm_registers = \<lparr>x_regs = \<lambda>n. n,
     signed = \<lparr>plain_fp = 0x2008, plain_lr = 0x8000, plain_sp = 0x2000, plain_pc = 0x5000\<rparr>\<rparr>"

theorem arm64_frame_walk_witness:
  "\<exists>c'. walk walk_env no_images macho_sdk (arm64_arch macho_arm64 plain_sdk blank_record)
     (fresh_context arm_registers) [0x6000, 0x8000, 0x5000] c' \<and>
     (\<exists>c''. FIRCLSUnwindNextFrame walk_env no_images macho_sdk
        (arm64_arch macho_arm64 plain_sdk blank_record) (Some c') = Some (False, Some c''))"
proof -
  let ?r = "arm_registers"
  have regs: "0x5000 = GET_IP_REGISTER (arm64_cpu plain_sdk) ?r" "0x2008 = GET_FP_REGISTER (arm64_cpu plain_sdk) ?r"
    "0x8000 = GET_LR_REGISTER (arm64_cpu plain_sdk) ?r" "GET_SP_REGISTER (arm64_cpu plain_sdk) ?r = 0x2000"
    by (simp_all add: arm_registers_def arm64_cpu_def arm64_thread_state_def thread_state.extend_def
        plain_sdk_def CLS_PTRAUTH_STRIP_def)
  have none: "no_unwind_info no_images a" for a by (simp add: no_unwind_info_def no_images_def)
  have "FIRCLSReadMemory walk_env 0x2008 16 =
      Some [0, 0, 0, 0, 0, 0, 0, 0, 0, 0x60, 0, 0, 0, 0, 0, 0]"
    by (simp add: walk_env_def c_eval cong: bind_weak_cong)
  then have "frame_chain walk_env no_images CLS_PTRAUTH_STRIP 0x8000 0x2008 [(0, 0x6000)]"
    by (simp add: none CLS_PTRAUTH_STRIP_def FIRCLSIsValidPointer_def stack_word_def)
  then show ?thesis
    using arm64_frame_walk [OF plain.arm_sdk_axioms fresh_context_init regs(1-3), of no_images walk_env
        "[(0, 0x6000)]" macho_sdk macho_arm64 blank_record] none
    unfolding regs(4) by (simp add: FIRCLSIsValidPointer_def)
qed

end
