(* ===== verification/Allocator.thy ===== *)
theory Allocator
  imports Prelude
begin

text \<open>
  \<open>Crashlytics/Helpers/FIRCLSAllocate.c\<close>: a bump allocator of two guarded regions, one of them
  made read-only before a crash can happen.  The page size, \<open>malloc\<close>, \<open>mmap\<close> and \<open>mprotect\<close> belong
  to the host and are the parameter \<open>host\<close>; the calls of \<open>mprotect\<close> that the code makes are part
  of the result.  \<open>FIRCLSAllocatorSafeAllocateFromRegion\<close> is given twice: run alone, and as the
  steps of requests that interleave on the atomic cursor.
\<close>

section \<open>State\<close>

datatype FIRCLSAllocationType = CLS_READONLY | CLS_READWRITE

record FIRCLSAllocationRegion =
  region_size :: u64
  region_start :: u64
  region_cursor :: u64

record FIRCLSAllocator =
  buffer :: u64
  protectionEnabled :: bool
  writeableRegion :: FIRCLSAllocationRegion
  readableRegion :: FIRCLSAllocationRegion

datatype protection = PROT_NONE | PROT_READ | PROT_READ_WRITE

type_synonym mprotect_call = "u64 \<times> u64 \<times> protection"

record host =
  page_size :: u64
  malloc_result :: "u64 \<Rightarrow> u64"
  mmap_result :: "u64 \<Rightarrow> u64 option"
  mprotect_ok :: "mprotect_call \<Rightarrow> bool"

abbreviation sizeof_FIRCLSAllocator :: u64 where "sizeof_FIRCLSAllocator \<equiv> 64"

section \<open>Allocating from a region\<close>

text \<open>The loop body up to the exchange: \<open>None\<close> falls back to \<open>malloc\<close>.\<close>

definition region_attempt :: "FIRCLSAllocationRegion \<Rightarrow> u64 \<Rightarrow> (u64 \<times> u64) option" where
  [c_eval]: "region_attempt region n =
     (let originalCursor = region_cursor region in
      if region_size region < originalCursor - region_start region + n then None
      else Some (originalCursor, originalCursor + n))"

definition atomic_compare_exchange_strong ::
  "FIRCLSAllocationRegion \<Rightarrow> u64 \<Rightarrow> u64 \<Rightarrow> bool \<times> FIRCLSAllocationRegion" where
  [c_eval]: "atomic_compare_exchange_strong region expected desired =
     (if region_cursor region = expected then (True, region\<lparr>region_cursor := desired\<rparr>)
      else (False, region))"

partial_function (option) FIRCLSAllocatorSafeAllocateFromRegion ::
  "host \<Rightarrow> FIRCLSAllocationRegion \<Rightarrow> u64 \<Rightarrow> (u64 \<times> FIRCLSAllocationRegion) option" where
  "FIRCLSAllocatorSafeAllocateFromRegion h region n =
     (case region_attempt region n of
        None \<Rightarrow> Some (malloc_result h n, region)
      | Some (originalCursor, newCursor) \<Rightarrow>
          let (ok, region) = atomic_compare_exchange_strong region originalCursor newCursor in
          if ok then Some (originalCursor, region)
          else FIRCLSAllocatorSafeAllocateFromRegion h region n)"

text \<open>
  The same loop as the steps of concurrent requests on one region: a request reads the cursor,
  tries the exchange, and starts again when another request was faster.
\<close>

datatype request = Enter u64 | Swap u64 u64 u64 | Allocated u64 u64 | Fallback u64

inductive alloc_step ::
  "host \<Rightarrow> FIRCLSAllocationRegion \<times> (nat \<Rightarrow> request) \<Rightarrow> FIRCLSAllocationRegion \<times> (nat \<Rightarrow> request) \<Rightarrow> bool"
  for h where
  attempt: "rs i = Enter n \<Longrightarrow> region_attempt region n = Some (originalCursor, newCursor) \<Longrightarrow>
     alloc_step h (region, rs) (region, rs(i := Swap originalCursor newCursor n))"
| fall_back: "rs i = Enter n \<Longrightarrow> region_attempt region n = None \<Longrightarrow>
     alloc_step h (region, rs) (region, rs(i := Fallback (malloc_result h n)))"
| swapped: "rs i = Swap originalCursor newCursor n \<Longrightarrow>
     atomic_compare_exchange_strong region originalCursor newCursor = (True, region') \<Longrightarrow>
     alloc_step h (region, rs) (region', rs(i := Allocated originalCursor n))"
| retry: "rs i = Swap originalCursor newCursor n \<Longrightarrow>
     atomic_compare_exchange_strong region originalCursor newCursor = (False, region') \<Longrightarrow>
     alloc_step h (region, rs) (region', rs(i := Enter n))"

inductive_cases alloc_stepE: "alloc_step h (region, rs) (region', rs')"

section \<open>The allocator\<close>

fun FIRCLSAllocatorSafeAllocate ::
  "host \<Rightarrow> FIRCLSAllocator ptr \<Rightarrow> u64 \<Rightarrow> FIRCLSAllocationType option \<Rightarrow> (u64 \<times> FIRCLSAllocator ptr) option"
where
  "FIRCLSAllocatorSafeAllocate h None n type = Some (malloc_result h n, None)"
| "FIRCLSAllocatorSafeAllocate h (Some allocator) n type =
     (if protectionEnabled allocator then Some (malloc_result h n, Some allocator)
      else case type of
        Some CLS_READONLY \<Rightarrow> do {
          (p, region) \<leftarrow> FIRCLSAllocatorSafeAllocateFromRegion h (readableRegion allocator) n;
          Some (p, Some (allocator\<lparr>readableRegion := region\<rparr>)) }
      | Some CLS_READWRITE \<Rightarrow> do {
          (p, region) \<leftarrow> FIRCLSAllocatorSafeAllocateFromRegion h (writeableRegion allocator) n;
          Some (p, Some (allocator\<lparr>writeableRegion := region\<rparr>)) }
      | None \<Rightarrow> Some (0, Some allocator))"

definition region_pages :: "host \<Rightarrow> u64 \<Rightarrow> u64" where
  [c_eval]: "region_pages h space = (if 0 < space then (space div page_size h + 1) * page_size h else 0)"

text \<open>
  The result is the address of the allocator with its contents, or \<open>None\<close> for a null pointer,
  and the calls of \<open>mprotect\<close> in order.  Storing through a null \<open>malloc\<close> result is undefined.
\<close>

definition FIRCLSAllocatorCreate ::
  "host \<Rightarrow> u64 \<Rightarrow> u64 \<Rightarrow> ((u64 \<times> FIRCLSAllocator) option \<times> mprotect_call list) option" where
  [c_eval]: "FIRCLSAllocatorCreate h writableSpace readableSpace =
     (let pageSize = page_size h;
          readableSpace = readableSpace + sizeof_FIRCLSAllocator;
          writableSize = region_pages h writableSpace;
          readableSize = region_pages h readableSpace;
          allocationSize = writableSize + readableSize + pageSize * 3 in
      case mmap_result h allocationSize of
        None \<Rightarrow> Some (None, [])
      | Some base \<Rightarrow>
          let writableStart = base + pageSize;
              readableStart = base + pageSize + writableSize + pageSize;
              writableRegion = \<lparr>region_size = writableSize, region_start = writableStart,
                                region_cursor = writableStart\<rparr>;
              readRegion = \<lparr>region_size = readableSize, region_start = readableStart,
                            region_cursor = readableStart\<rparr>;
              first = (base, pageSize, PROT_NONE);
              middle = (base + pageSize + writableSize, pageSize, PROT_NONE);
              final = (base + pageSize + writableSize + pageSize + readableSize, pageSize, PROT_NONE) in
          if \<not> mprotect_ok h first then Some (None, [first])
          else if \<not> mprotect_ok h middle then Some (None, [first, middle])
          else if \<not> mprotect_ok h final then Some (None, [first, middle, final])
          else do {
            (p, readRegion) \<leftarrow>
              FIRCLSAllocatorSafeAllocateFromRegion h readRegion sizeof_FIRCLSAllocator;
            if p = 0 then None
            else Some (Some (p, \<lparr>buffer = base, protectionEnabled = False,
                                 writeableRegion = writableRegion, readableRegion = readRegion\<rparr>),
                       [first, middle, final]) })"

definition FIRCLSAllocatorDestroy :: "FIRCLSAllocator ptr \<Rightarrow> FIRCLSAllocator ptr" where
  [c_eval]: "FIRCLSAllocatorDestroy allocator = allocator"

fun FIRCLSAllocatorProtect ::
  "host \<Rightarrow> FIRCLSAllocator ptr \<Rightarrow> bool \<times> FIRCLSAllocator ptr \<times> mprotect_call list" where
  "FIRCLSAllocatorProtect h None = (False, None, [])"
| "FIRCLSAllocatorProtect h (Some allocator) =
     (if protectionEnabled allocator then (True, Some allocator, [])
      else
        let allocator = allocator\<lparr>protectionEnabled := True\<rparr>;
            pageSize = page_size h;
            address = buffer allocator + pageSize + region_size (writeableRegion allocator) + pageSize;
            call = (address, region_size (readableRegion allocator), PROT_READ) in
        (mprotect_ok h call, Some allocator, [call]))"

fun FIRCLSAllocatorUnprotect ::
  "host \<Rightarrow> FIRCLSAllocator ptr \<Rightarrow> bool \<times> FIRCLSAllocator ptr \<times> mprotect_call list" where
  "FIRCLSAllocatorUnprotect h None = (False, None, [])"
| "FIRCLSAllocatorUnprotect h (Some allocator) =
     (let pageSize = page_size h;
          bufferSize = buffer allocator + pageSize + region_size (writeableRegion allocator) +
                       pageSize + region_size (readableRegion allocator) + pageSize;
          call = (buffer allocator, bufferSize, PROT_READ_WRITE);
          allocator = allocator\<lparr>protectionEnabled := \<not> mprotect_ok h call\<rparr> in
      (protectionEnabled allocator, Some allocator, [call]))"

text \<open>Frees through the host only without an allocator; the result says whether \<open>free\<close> is called.\<close>

definition FIRCLSAllocatorFree :: "FIRCLSAllocator ptr \<Rightarrow> u64 \<Rightarrow> u64 list" where
  [c_eval]: "FIRCLSAllocatorFree allocator p = (case allocator of None \<Rightarrow> [p] | Some _ \<Rightarrow> [])"

lemmas [c_eval] = FIRCLSAllocatorSafeAllocateFromRegion.simps FIRCLSAllocatorSafeAllocate.simps
  FIRCLSAllocatorProtect.simps FIRCLSAllocatorUnprotect.simps

section \<open>Allocating alone\<close>

lemma allocate_alone:
  "FIRCLSAllocatorSafeAllocateFromRegion h region n =
     Some (if region_size region < region_cursor region - region_start region + n
           then (malloc_result h n, region)
           else (region_cursor region, region\<lparr>region_cursor := region_cursor region + n\<rparr>))"
  by (subst FIRCLSAllocatorSafeAllocateFromRegion.simps)
    (simp add: region_attempt_def atomic_compare_exchange_strong_def Let_def)

end
