(* ===== verification/AllocatorSpec.thy ===== *)
theory AllocatorSpec
  imports Allocator
begin

text \<open>
  Interleaved requests on a region never get overlapping memory (\<open>allocations_disjoint\<close>, by rule
  induction over the steps), a new allocator has the layout its comment draws
  (\<open>allocator_layout\<close>); what unprotecting passes to \<open>mprotect\<close>
  (\<open>unprotect_range\<close>), and a request so large that the size check wraps (\<open>allocation_size_wraps\<close>).
\<close>

section \<open>Interleaved requests\<close>

inductive alloc_steps ::
  "host \<Rightarrow> FIRCLSAllocationRegion \<times> (nat \<Rightarrow> request) \<Rightarrow> FIRCLSAllocationRegion \<times> (nat \<Rightarrow> request) \<Rightarrow> bool"
  for h where
  no_step: "alloc_steps h s s"
| one_more: "alloc_steps h s s' \<Longrightarrow> alloc_step h s' s'' \<Longrightarrow> alloc_steps h s s''"

text \<open>The requested size of a request in progress, and the bytes it has been given.\<close>

primrec pending :: "request \<Rightarrow> u64 option" where
  "pending (Enter n) = Some n"
| "pending (Swap o' c n) = Some n"
| "pending (Allocated p n) = None"
| "pending (Fallback p) = None"

definition disjoint_blocks :: "u64 \<Rightarrow> u64 \<Rightarrow> u64 \<Rightarrow> u64 \<Rightarrow> bool" where
  "disjoint_blocks p n q m \<longleftrightarrow> unat p + unat n \<le> unat q \<or> unat q + unat m \<le> unat p"

text \<open>
  The sizes that the size check can judge: the region plus the request does not exceed the
  address space.
\<close>

definition request_small :: "FIRCLSAllocationRegion \<Rightarrow> request \<Rightarrow> bool" where
  "request_small region r \<longleftrightarrow>
     (case pending r of None \<Rightarrow> True | Some n \<Rightarrow> unat (region_size region) + unat n < 2 ^ 64)"

definition region_ok :: "FIRCLSAllocationRegion \<Rightarrow> bool" where
  "region_ok region \<longleftrightarrow> unat (region_start region) + unat (region_size region) < 2 ^ 64 \<and>
     unat (region_start region) \<le> unat (region_cursor region) \<and>
     unat (region_cursor region) \<le> unat (region_start region) + unat (region_size region)"

definition alloc_inv :: "FIRCLSAllocationRegion \<times> (nat \<Rightarrow> request) \<Rightarrow> bool" where
  "alloc_inv = (\<lambda>(region, rs). region_ok region \<and> (\<forall>i. request_small region (rs i)) \<and>
     (\<forall>i o' c n. rs i = Swap o' c n \<longrightarrow> c = o' + n \<and> unat (region_start region) \<le> unat o' \<and>
        unat o' + unat n \<le> unat (region_start region) + unat (region_size region)) \<and>
     (\<forall>i p n. rs i = Allocated p n \<longrightarrow> unat (region_start region) \<le> unat p \<and>
        unat p + unat n \<le> unat (region_cursor region)) \<and>
     (\<forall>i j p n q m. rs i = Allocated p n \<longrightarrow> rs j = Allocated q m \<longrightarrow> i \<noteq> j \<longrightarrow> disjoint_blocks p n q m))"

lemma region_okD:
  assumes "region_ok region"
  shows "unat (region_start region) + unat (region_size region) < 2 ^ 64"
    and "unat (region_start region) \<le> unat (region_cursor region)"
    and "unat (region_cursor region) \<le> unat (region_start region) + unat (region_size region)"
  using assms by (simp_all add: region_ok_def)

lemma region_attempt_fits:
  assumes "region_attempt region n = Some (o', c)" and "region_ok region"
    and "unat (region_size region) + unat n < 2 ^ 64"
  shows "c = o' + n \<and> unat (region_start region) \<le> unat o' \<and>
    unat o' + unat n \<le> unat (region_start region) + unat (region_size region)"
proof -
  have o': "o' = region_cursor region" "c = o' + n"
    and fits: "o' - region_start region + n \<le> region_size region"
    using assms(1) by (auto simp: region_attempt_def Let_def not_less split: if_splits)
  have "unat (o' - region_start region) = unat o' - unat (region_start region)"
    using assms(2) o'(1) by (intro unat_sub) (simp add: region_ok_def word_le_nat_alt)
  moreover from this have "unat (o' - region_start region) + unat n < 2 ^ 64"
    using region_okD(2,3) [OF assms(2)] assms(3) unfolding o'(1) by linarith
  then have "unat (o' - region_start region + n) = unat (o' - region_start region) + unat n"
    by (simp add: unat_word_ariths)
  ultimately show ?thesis using fits o' assms(2) by (simp add: word_le_nat_alt region_ok_def)
qed

lemma alloc_step_inv: "alloc_step h s s' \<Longrightarrow> alloc_inv s \<Longrightarrow> alloc_inv s'"
proof (induction rule: alloc_step.induct)
  case (attempt rs i n region o' c)
  then have "\<forall>i. request_small region (rs i)" "region_ok region" by (auto simp: alloc_inv_def)
  then have "request_small region (Enter n)" "region_ok region" using attempt.hyps(1) by metis+
  then have "c = o' + n \<and> unat (region_start region) \<le> unat o' \<and>
      unat o' + unat n \<le> unat (region_start region) + unat (region_size region)"
    using attempt.hyps(2) by (intro region_attempt_fits) (simp_all add: request_small_def)
  moreover have "request_small region (Swap o' c n)"
    using \<open>request_small region (Enter n)\<close> by (simp add: request_small_def)
  ultimately show ?case using attempt.prems by (simp add: alloc_inv_def)
next
  case (fall_back rs i n region)
  then show ?case by (auto simp: alloc_inv_def request_small_def)
next
  case (swapped rs i o' c n region region')
  have swap: "region_cursor region = o'" "region' = region\<lparr>region_cursor := c\<rparr>"
    using swapped.hyps(2) by (auto simp: atomic_compare_exchange_strong_def split: if_splits)
  have inv: "region_ok region" "\<And>j. request_small region (rs j)" "c = o' + n"
      "unat (region_start region) \<le> unat o'"
      "unat o' + unat n \<le> unat (region_start region) + unat (region_size region)"
    and blocks: "\<And>j p m. rs j = Allocated p m \<Longrightarrow>
      unat (region_start region) \<le> unat p \<and> unat p + unat m \<le> unat o'"
    using swapped.prems swapped.hyps(1) swap(1) by (auto simp: alloc_inv_def)
  have c: "unat c = unat o' + unat n"
    using inv(1,5) unfolding inv(3) by (simp add: region_ok_def unat_word_ariths)
  have "region_ok region'" using inv c by (simp add: swap(2) region_ok_def)
  moreover have "request_small region' r \<longleftrightarrow> request_small region r" for r
    by (simp add: swap(2) request_small_def split: option.split)
  moreover have "request_small region (Allocated o' n)" by (simp add: request_small_def)
  ultimately show ?case
    using swapped.prems inv(2,4) blocks c
    by (fastforce simp: alloc_inv_def swap(2) disjoint_blocks_def split: if_splits)
next
  case (retry rs i o' c n region region')
  then have region: "region' = region"
    by (auto simp: atomic_compare_exchange_strong_def split: if_splits)
  have "request_small region (rs i)" using retry.prems by (simp add: alloc_inv_def)
  then have "request_small region (Enter n)" unfolding retry.hyps(1) by (simp add: request_small_def)
  then show ?case using retry.prems by (simp add: region alloc_inv_def)
qed

lemma alloc_steps_inv: "alloc_steps h s s' \<Longrightarrow> alloc_inv s \<Longrightarrow> alloc_inv s'"
  by (induction rule: alloc_steps.induct) (auto intro: alloc_step_inv)

text \<open>
  C22: However requests interleave on a region, if none of them is so large that its size added to that
  of the region wraps, two of them never get overlapping memory, and all of it lies inside the
  region.  Without this condition it is false (\<open>allocation_size_wraps\<close>): the size check of the code
  wraps around.
\<close>

theorem allocations_disjoint:
  assumes "alloc_steps h (region, rs) (region', rs')" and "region_ok region"
    and "\<And>i. \<exists>n. rs i = Enter n \<and> unat (region_size region) + unat n < 2 ^ 64"
    and "rs' i = Allocated p n"
  shows "unat (region_start region') \<le> unat p \<and>
    unat p + unat n \<le> unat (region_start region') + unat (region_size region') \<and>
    (\<forall>j q m. rs' j = Allocated q m \<longrightarrow> i \<noteq> j \<longrightarrow> disjoint_blocks p n q m)"
proof -
  have "rs k \<noteq> Swap o' c m" "rs k \<noteq> Allocated q m" for k o' c q m
    using assms(3) [of k] by auto
  moreover have "request_small region (rs k)" for k
    using assms(3) [of k] by (auto simp: request_small_def)
  ultimately have "alloc_inv (region, rs)" using assms(2) by (simp add: alloc_inv_def)
  then have "alloc_inv (region', rs')" using alloc_steps_inv [OF assms(1)] by simp
  with assms(4) show ?thesis by (fastforce simp: alloc_inv_def region_ok_def)
qed

text \<open>
  The size check adds the requested size before it compares, so it wraps: a request that ends
  at the start of the region passes, returns the cursor and moves the cursor back to the start,
  and everything allocated before is handed out again.
\<close>

theorem allocation_size_wraps:
  assumes "region_ok region" and "region_cursor region \<noteq> region_start region"
    and "n = region_start region - region_cursor region"
  shows "2 ^ 64 \<le> unat (region_size region) + unat n \<and>
    FIRCLSAllocatorSafeAllocateFromRegion h region n =
      Some (region_cursor region, region\<lparr>region_cursor := region_start region\<rparr>)"
proof
  have "unat (region_start region) < unat (region_cursor region)"
    using assms(1,2) by (simp add: region_ok_def le_less word_unat_eq_iff)
  then have "unat n = 2 ^ 64 + unat (region_start region) - unat (region_cursor region)"
    using u64_less [of "region_cursor region"] unfolding assms(3)
    by (simp add: unat_sub_if_size word_size)
  then show "2 ^ 64 \<le> unat (region_size region) + unat n"
    using region_okD(3) [OF assms(1)] u64_less [of "region_cursor region"] by linarith
  have "region_cursor region - region_start region + n = 0" by (simp add: assms(3))
  then show "FIRCLSAllocatorSafeAllocateFromRegion h region n =
      Some (region_cursor region, region\<lparr>region_cursor := region_start region\<rparr>)"
    by (simp add: allocate_alone assms(3))
qed

section \<open>The layout of a new allocator\<close>

text \<open>What \<open>mmap\<close> documents: the pages it returns lie inside the address space.\<close>

definition mmap_ok :: "host \<Rightarrow> bool" where
  "mmap_ok h \<longleftrightarrow> (\<forall>n base. mmap_result h n = Some base \<longrightarrow> base \<noteq> 0 \<and> unat base + unat n < 2 ^ 64)"

lemma region_pages_bounds:
  assumes "0 < page_size h" and "unat space + unat (page_size h) < 2 ^ 64"
  shows "unat (region_pages h space) \<le> unat space + unat (page_size h) \<and>
    unat (page_size h) dvd unat (region_pages h space) \<and>
    (0 < space \<longrightarrow> unat space < unat (region_pages h space)) \<and>
    (space = 0 \<longrightarrow> region_pages h space = 0)"
proof (cases "0 < space")
  case True
  let ?s = "unat space" and ?p = "unat (page_size h)"
  have p: "0 < ?p" using assms(1) by (simp add: word_less_nat_alt)
  have le: "?s div ?p * ?p \<le> ?s" by simp
  have sum: "(?s div ?p + 1) * ?p = ?s div ?p * ?p + ?p" by simp
  have d: "unat (space div page_size h + 1) = ?s div ?p + 1"
  proof -
    have "?s div ?p \<le> ?s" by (rule div_le_dividend)
    then have "?s div ?p + 1 < 2 ^ 64" using p assms(2) by linarith
    then show ?thesis by (simp add: unat_word_ariths unat_div)
  qed
  have "(?s div ?p + 1) * ?p < 2 ^ 64" using le sum assms(2) by linarith
  then have pages: "unat (region_pages h space) = (?s div ?p + 1) * ?p"
    using True d by (simp add: region_pages_def unat_word_ariths)
  have "?s < (?s div ?p + 1) * ?p" using mod_less_divisor [OF p, of ?s] div_mult_mod_eq [of ?s ?p] sum by linarith
  then show ?thesis using pages le sum True by auto
qed (simp add: region_pages_def word_gt_0)

text \<open>
  A new allocator is one mapping: guard page, writable region, guard page, readable region,
  guard page.  Both regions are whole pages and hold what was asked for, the allocator is the first
  block of the readable region, and exactly the three guard pages are protected.
\<close>

theorem allocator_layout:
  assumes "FIRCLSAllocatorCreate h w r = Some (Some (p, a), calls)" and "mmap_ok h" and "0 < page_size h"
    and "unat w + unat r + 5 * unat (page_size h) + 64 < 2 ^ 64"
    and "W = writeableRegion a" and "R = readableRegion a" and "page = unat (page_size h)"
  shows "unat (region_start W) = unat (buffer a) + page \<and>
    unat (region_start R) = unat (region_start W) + unat (region_size W) + page \<and>
    unat (region_start R) + unat (region_size R) + page < 2 ^ 64 \<and>
    page dvd unat (region_size W) \<and> page dvd unat (region_size R) \<and>
    (0 < w \<longrightarrow> unat w < unat (region_size W)) \<and> unat r + 64 < unat (region_size R) \<and>
    p = region_start R \<and> region_cursor W = region_start W \<and> region_cursor R = p + 64 \<and>
    calls = [(buffer a, page_size h, PROT_NONE),
             (region_start W + region_size W, page_size h, PROT_NONE),
             (region_start R + region_size R, page_size h, PROT_NONE)]"
proof -
  let ?w = "region_pages h w" and ?r = "region_pages h (r + 64)"
  have r: "unat (r + 64) = unat r + 64" using assms(4) by (simp add: unat_word_ariths)
  have ws: "unat ?w \<le> unat w + page" "page dvd unat ?w" "0 < w \<longrightarrow> unat w < unat ?w"
    using region_pages_bounds [OF assms(3), of w] assms(4,7) by auto
  have rs: "unat ?r \<le> unat r + 64 + page" "page dvd unat ?r" "unat r + 64 < unat ?r"
    using region_pages_bounds [OF assms(3), of "r + 64"] assms(4,7) r by (auto simp: word_less_nat_alt)
  obtain base where mm: "mmap_result h (?w + ?r + page_size h * 3) = Some base"
    and p: "p = base + page_size h + ?w + page_size h"
    and a: "buffer a = base" "region_start W = base + page_size h" "region_size W = ?w"
      "region_cursor W = region_start W" "region_start R = p" "region_size R = ?r" "region_cursor R = p + 64"
    and calls: "calls = [(base, page_size h, PROT_NONE), (base + page_size h + ?w, page_size h, PROT_NONE),
      (base + page_size h + ?w + page_size h + ?r, page_size h, PROT_NONE)]"
  proof -
    have "\<not> ?r < 64" using rs(3) by (simp add: word_less_nat_alt)
    then show thesis using assms(1) that
      by (auto simp: FIRCLSAllocatorCreate_def Let_def allocate_alone assms(5,6)
          split: option.splits if_splits)
  qed
  have "unat (page_size h * 3) = 3 * page" using assms(4,7) by (simp add: unat_word_ariths)
  then have "unat (?w + ?r + page_size h * 3) = unat ?w + unat ?r + 3 * page"
    using ws(1) rs(1) assms(4,7) by (simp add: unat_word_ariths)
  then have total: "unat base + unat ?w + unat ?r + 3 * page < 2 ^ 64"
    using mm assms(2) by (fastforce simp: mmap_ok_def)
  have page: "unat (page_size h) = page" using assms(7) by simp
  have starts: "unat (base + page_size h) = unat base + page"
    "unat (base + page_size h + ?w) = unat base + page + unat ?w"
    "unat p = unat base + page + unat ?w + page"
    using total page by (simp_all add: p unat_word_ariths)
  then show ?thesis using ws rs total r by (simp add: a calls p)
qed

section \<open>A host\<close>

definition small_host :: host where
  "small_host = \<lparr>page_size = 0x1000, malloc_result = \<lambda>n. 0, mmap_result = \<lambda>n. if n < 0x10000 then Some 0x100000 else None,
     mprotect_ok = \<lambda>c. True\<rparr>"

definition small_region :: FIRCLSAllocationRegion where
  "small_region = \<lparr>region_size = 0x1000, region_start = 0x101000, region_cursor = 0x101040\<rparr>"

lemma small_region_ok: "region_ok small_region"
  by (simp add: region_ok_def small_region_def)

theorem allocations_disjoint_witness:
  "\<exists>rs region'. alloc_steps small_host (small_region, \<lambda>i. Enter 0x10) (region', rs) \<and>
     rs 0 = Allocated 0x101040 0x10 \<and> rs 1 = Allocated 0x101050 0x10 \<and>
     disjoint_blocks 0x101040 0x10 0x101050 0x10"
proof -
  let ?rs = "\<lambda>i::nat. Enter 0x10"
  let ?r1 = "?rs(0 := Swap 0x101040 0x101050 0x10)" and ?region1 = "small_region\<lparr>region_cursor := 0x101050\<rparr>"
  let ?r2 = "?r1(0 := Allocated 0x101040 0x10)"
  let ?r3 = "?r2(1 := Swap 0x101050 0x101060 0x10)" and ?region2 = "?region1\<lparr>region_cursor := 0x101060\<rparr>"
  let ?r4 = "?r3(1 := Allocated 0x101050 0x10)"
  have "alloc_step small_host (small_region, ?rs) (small_region, ?r1)"
    by (rule alloc_step.attempt) (simp_all add: region_attempt_def small_region_def)
  moreover have "alloc_step small_host (small_region, ?r1) (?region1, ?r2)"
    by (rule alloc_step.swapped) (auto simp: atomic_compare_exchange_strong_def small_region_def)
  moreover have "alloc_step small_host (?region1, ?r2) (?region1, ?r3)"
    by (rule alloc_step.attempt) (simp_all add: region_attempt_def small_region_def)
  moreover have "alloc_step small_host (?region1, ?r3) (?region2, ?r4)"
    by (rule alloc_step.swapped) (auto simp: atomic_compare_exchange_strong_def small_region_def)
  ultimately have steps: "alloc_steps small_host (small_region, ?rs) (?region2, ?r4)"
    by (meson alloc_steps.intros)
  have small: "\<exists>n. ?rs i = Enter n \<and> unat (region_size small_region) + unat n < 2 ^ 64" for i
    by (simp add: small_region_def)
  have "\<forall>j q m. ?r4 j = Allocated q m \<longrightarrow> 0 \<noteq> j \<longrightarrow> disjoint_blocks 0x101040 0x10 q m"
    using allocations_disjoint [OF steps small_region_ok small, of 0 "0x101040" "0x10"] by simp
  moreover have "?r4 1 = Allocated 0x101050 0x10" by simp
  ultimately have "disjoint_blocks 0x101040 0x10 0x101050 0x10" by (metis zero_neq_one)
  with steps show ?thesis by (intro exI [of _ ?r4] exI [of _ ?region2]) simp
qed

theorem allocation_size_wraps_witness:
  "FIRCLSAllocatorSafeAllocateFromRegion small_host small_region (- 0x40) =
     Some (0x101040, small_region\<lparr>region_cursor := 0x101000\<rparr>)"
  using allocation_size_wraps [OF small_region_ok _ refl, of small_host] by (simp add: small_region_def)

theorem allocator_layout_witness:
  "\<exists>p a calls. FIRCLSAllocatorCreate small_host 0x10 0x20 = Some (Some (p, a), calls) \<and>
     unat (region_start (readableRegion a)) =
       unat (region_start (writeableRegion a)) + unat (region_size (writeableRegion a)) + 0x1000 \<and>
     p = region_start (readableRegion a)"
proof -
  let ?a = "\<lparr>buffer = 0x100000, protectionEnabled = False,
    writeableRegion = \<lparr>region_size = 0x1000, region_start = 0x101000, region_cursor = 0x101000\<rparr>,
    readableRegion = \<lparr>region_size = 0x1000, region_start = 0x103000, region_cursor = 0x103040\<rparr>\<rparr>"
  let ?calls = "[(0x100000, 0x1000, PROT_NONE), (0x102000, 0x1000, PROT_NONE), (0x104000, 0x1000, PROT_NONE)]"
  have run: "FIRCLSAllocatorCreate small_host 0x10 0x20 = Some (Some (0x103000, ?a), ?calls)"
    by (simp add: c_eval small_host_def)
  have "mmap_ok small_host" by (auto simp: mmap_ok_def small_host_def word_less_nat_alt split: if_splits)
  moreover have "0 < page_size small_host"
    "unat (0x10 :: u64) + unat (0x20 :: u64) + 5 * unat (page_size small_host) + 64 < 2 ^ 64"
    by (simp_all add: small_host_def)
  ultimately have "unat (region_start (readableRegion ?a)) = unat (region_start (writeableRegion ?a)) +
      unat (region_size (writeableRegion ?a)) + unat (page_size small_host)"
    "0x103000 = region_start (readableRegion ?a)"
    using allocator_layout [OF run _ _ _ refl refl refl] by blast+
  moreover have "unat (page_size small_host) = 0x1000" by (simp add: small_host_def)
  ultimately show ?thesis using run by metis
qed

text \<open>Unprotecting passes a length that is too long by the address of the mapping, and reports success as failure.\<close>

lemma unprotect_range:
  "\<exists>a. FIRCLSAllocatorUnprotect small_host (Some
       \<lparr>buffer = 0x100000, protectionEnabled = False,
        writeableRegion = \<lparr>region_size = 0x1000, region_start = 0x101000, region_cursor = 0x101000\<rparr>,
        readableRegion = \<lparr>region_size = 0x1000, region_start = 0x103000, region_cursor = 0x103040\<rparr>\<rparr>) =
     (False, Some a, [(0x100000, 0x105000, PROT_READ_WRITE)])"
  by (simp add: small_host_def Let_def)

end
