(* ===== verification/OrderedCode.thy ===== *)
theory OrderedCode
  imports Prelude "HOL-Library.Log_Nat"
begin

text \<open>
  \<open>Firestore/core/src/util/ordered_code.cc\<close> and the bit routines of \<open>util/bits.h\<close> it uses: the
  encodings of strings and numbers whose byte order is the order of the values.

  A \<open>string_view\<close> is its bytes; a pointer into it is an offset, an \<open>int\<close> because the code forms
  \<open>end - 1\<close> of an empty view, and a load outside the bytes has no result.  A failed
  \<open>HARD_ASSERT\<close> ends the process, so it has no result either.  Bytes are \<open>u8\<close>; where the code
  widens a (signed) \<open>char\<close> the model uses \<open>scast\<close>.  The bytes of a stack buffer that are never
  initialised are the parameter \<open>junk\<close>.
\<close>

definition HARD_ASSERT :: "bool \<Rightarrow> unit option" where
  [c_eval]: "HARD_ASSERT b = (if b then Some () else None)"

section \<open>Bits\<close>

text \<open>\<open>__builtin_clz\<close> and \<open>__builtin_clzll\<close>, undefined at 0.\<close>

definition builtin_clz :: "u32 \<Rightarrow> int option" where
  [c_eval]: "builtin_clz n = (if n = 0 then None else Some (32 - int (floorlog 2 (unat n))))"

definition builtin_clzll :: "u64 \<Rightarrow> int option" where
  [c_eval]: "builtin_clzll n = (if n = 0 then None else Some (64 - int (floorlog 2 (unat n))))"

definition Log2FloorNonZero :: "u32 \<Rightarrow> int option" where
  [c_eval]: "Log2FloorNonZero n = map_option (\<lambda>z. 31 XOR z) (builtin_clz n)"

definition Log2Floor64 :: "u64 \<Rightarrow> int option" where
  [c_eval]: "Log2Floor64 n = (if n = 0 then Some (- 1) else map_option (\<lambda>z. 63 XOR z) (builtin_clzll n))"

definition Log2FloorNonZero64 :: "u64 \<Rightarrow> int option" where
  [c_eval]: "Log2FloorNonZero64 n = map_option (\<lambda>z. 63 XOR z) (builtin_clzll n)"

text \<open>The portable versions, for compilers without the builtins; \<open>i\<close> runs from 4 down to 0.\<close>

primrec log2_loop :: "nat \<Rightarrow> u32 \<Rightarrow> int \<Rightarrow> u32 \<times> int" where
  "log2_loop 0 v lg = (v, lg)"
| "log2_loop (Suc i) v lg =
     (let shift = 2 ^ i; x = drop_bit shift v in
      if x \<noteq> 0 then log2_loop i x (lg + int shift) else log2_loop i v lg)"

definition Log2Floor_Portable :: "u32 \<Rightarrow> int option" where
  "Log2Floor_Portable n =
     (if n = 0 then Some (- 1)
      else let (v, lg) = log2_loop 5 n 0 in
           do { _ \<leftarrow> HARD_ASSERT (v = 1); Some lg })"

definition Log2FloorNonZero_Portable :: "u32 \<Rightarrow> int option" where
  "Log2FloorNonZero_Portable n = Log2Floor_Portable n"

definition Log2Floor64_Portable :: "u64 \<Rightarrow> int option" where
  "Log2Floor64_Portable n =
     (let top_bits = (ucast (drop_bit 32 n) :: u32) in
      if top_bits = 0 then Log2Floor_Portable (ucast n)
      else map_option (\<lambda>l. 32 + l) (Log2FloorNonZero_Portable top_bits))"

definition Log2FloorNonZero64_Portable :: "u64 \<Rightarrow> int option" where
  "Log2FloorNonZero64_Portable n =
     (let top_bits = (ucast (drop_bit 32 n) :: u32) in
      if top_bits = 0 then Log2FloorNonZero_Portable (ucast n)
      else map_option (\<lambda>l. 32 + l) (Log2FloorNonZero_Portable top_bits))"

section \<open>Special bytes\<close>

type_synonym bytes = "u8 list"

definition kEscape1 :: u8 where [c_eval]: "kEscape1 = 0"
definition kNullCharacter :: u8 where [c_eval]: "kNullCharacter = 255"
definition kSeparator :: u8 where [c_eval]: "kSeparator = 1"
definition kEscape2 :: u8 where [c_eval]: "kEscape2 = 255"
definition kInfinity :: u8 where [c_eval]: "kInfinity = 255"
definition kFFCharacter :: u8 where [c_eval]: "kFFCharacter = 0"

definition array_at :: "'a list \<Rightarrow> int \<Rightarrow> 'a option" where
  [c_eval]: "array_at s p = (if 0 \<le> p \<and> p < int (length s) then Some (s ! nat p) else None)"

text \<open>\<open>n\<close> bytes at \<open>p\<close>, when they all belong to the string.\<close>

definition bytes_at :: "bytes \<Rightarrow> int \<Rightarrow> int \<Rightarrow> bytes option" where
  [c_eval]: "bytes_at s p n = (if 0 \<le> p \<and> 0 \<le> n \<and> p + n \<le> int (length s)
                     then Some (take (nat n) (drop (nat p) s)) else None)"

definition UNALIGNED_LOAD32 :: "bytes \<Rightarrow> int \<Rightarrow> u32 option" where
  "UNALIGNED_LOAD32 s p = map_option (\<lambda>bs. of_nat (le_nat bs)) (bytes_at s p 4)"

definition UNALIGNED_LOAD64 :: "bytes \<Rightarrow> int \<Rightarrow> u64 option" where
  "UNALIGNED_LOAD64 s p = map_option (\<lambda>bs. of_nat (le_nat bs)) (bytes_at s p 8)"

definition IsSpecialByte :: "u8 \<Rightarrow> bool" where
  [c_eval]: "IsSpecialByte c \<longleftrightarrow> c + 1 < 2"

definition AdvanceIfNoSpecialBytes :: "bytes \<Rightarrow> u32 \<Rightarrow> int \<Rightarrow> int option" where
  "AdvanceIfNoSpecialBytes s v_32 p = do {
     v \<leftarrow> UNALIGNED_LOAD32 s p;
     _ \<leftarrow> HARD_ASSERT (v = v_32);
     p0 \<leftarrow> array_at s p; p1 \<leftarrow> array_at s (p + 1); p2 \<leftarrow> array_at s (p + 2); p3 \<leftarrow> array_at s (p + 3);
     if (v_32 - 0x01010101) AND NOT (v_32 + 0x01010101) AND 0x80808080 \<noteq> 0
     then do {
       _ \<leftarrow> HARD_ASSERT (IsSpecialByte p0 \<or> IsSpecialByte p1 \<or> IsSpecialByte p2 \<or> IsSpecialByte p3);
       Some 0 }
     else do {
       _ \<leftarrow> HARD_ASSERT (\<not> IsSpecialByte p0);
       _ \<leftarrow> HARD_ASSERT (\<not> IsSpecialByte p1);
       _ \<leftarrow> HARD_ASSERT (\<not> IsSpecialByte p2);
       _ \<leftarrow> HARD_ASSERT (\<not> IsSpecialByte p3);
       Some 4 } }"

definition hasZeroOr255Byte :: "u64 \<Rightarrow> bool" where
  "hasZeroOr255Byte v \<longleftrightarrow>
     (v - 0x0101010101010101) AND NOT (v + 0x0101010101010101) AND 0x8080808080808080 \<noteq> 0"

text \<open>The last loop of \<open>SkipToNextSpecialByte\<close>, byte by byte.\<close>

function skip_bytes :: "bytes \<Rightarrow> int \<Rightarrow> int \<Rightarrow> int option" where
  "skip_bytes s p limit =
     (if p < limit then do {
        c \<leftarrow> array_at s p;
        if \<not> IsSpecialByte c then skip_bytes s (p + 1) limit else Some p }
      else Some p)"
  by auto
termination by (relation "measure (\<lambda>(s, p, limit). nat (limit - p))") auto

function SkipToNextSpecialByte :: "bytes \<Rightarrow> int \<Rightarrow> int \<Rightarrow> int option" where
  "SkipToNextSpecialByte s p limit =
     (if p + 8 \<le> limit then do {
        v \<leftarrow> UNALIGNED_LOAD64 s p;
        if \<not> hasZeroOr255Byte v then SkipToNextSpecialByte s (p + 8) limit
        else do {
          n \<leftarrow> AdvanceIfNoSpecialBytes s (ucast v) p;
          p0 \<leftarrow> array_at s (p + n);
          if IsSpecialByte p0 then Some (p + n) else do {
          p1 \<leftarrow> array_at s (p + n + 1);
          if IsSpecialByte p1 then Some (p + n + 1) else do {
          p2 \<leftarrow> array_at s (p + n + 2);
          if IsSpecialByte p2 then Some (p + n + 2) else do {
          p3 \<leftarrow> array_at s (p + n + 3);
          _ \<leftarrow> HARD_ASSERT (IsSpecialByte p3);
          Some (p + n + 3) }}}}}
      else if p + 4 \<le> limit then do {
        v_32 \<leftarrow> UNALIGNED_LOAD32 s p;
        n \<leftarrow> AdvanceIfNoSpecialBytes s v_32 p;
        skip_bytes s (p + n) limit }
      else skip_bytes s p limit)"
  by auto
termination by (relation "measure (\<lambda>(s, p, limit). nat (limit - p))") auto

declare skip_bytes.simps [simp del] SkipToNextSpecialByte.simps [simp del]

lemma HARD_ASSERT_Some [simp]: "HARD_ASSERT b = Some u \<longleftrightarrow> b"
  by (simp add: HARD_ASSERT_def)

lemma HARD_ASSERT_True [simp]: "HARD_ASSERT True = Some ()"
  by (simp add: HARD_ASSERT_def)

lemma skip_bytes_forward: "skip_bytes s p limit = Some q \<Longrightarrow> p \<le> q"
proof (induction s p limit rule: skip_bytes.induct)
  case (1 s p limit)
  then show ?case
    by (subst (asm) (2) skip_bytes.simps) (force simp: bind_eq_Some_conv split: if_splits)
qed

lemma advance_cases: "AdvanceIfNoSpecialBytes s v p = Some n \<Longrightarrow> n = 0 \<or> n = 4"
  by (auto simp: AdvanceIfNoSpecialBytes_def bind_eq_Some_conv split: if_splits)

lemma skip_forward: "SkipToNextSpecialByte s p limit = Some q \<Longrightarrow> p \<le> q"
proof (induction s p limit rule: SkipToNextSpecialByte.induct)
  case (1 s p limit)
  have block: "\<And>v. p + 8 \<le> limit \<Longrightarrow> UNALIGNED_LOAD64 s p = Some v \<Longrightarrow> \<not> hasZeroOr255Byte v \<Longrightarrow>
      SkipToNextSpecialByte s (p + 8) limit = Some q \<Longrightarrow> p + 8 \<le> q"
    using "1.IH" by blast
  show ?case
    using "1.prems"
    by (subst (asm) SkipToNextSpecialByte.simps)
      (auto simp: bind_eq_Some_conv split: if_splits dest!: block advance_cases skip_bytes_forward)
qed

section \<open>Strings\<close>

definition AppendBytes :: "bytes \<Rightarrow> bytes \<Rightarrow> int \<Rightarrow> int \<Rightarrow> bytes option" where
  "AppendBytes dest s p n = map_option (\<lambda>bs. dest @ bs) (bytes_at s p n)"

text \<open>The loop of \<open>EncodeStringFragment\<close>; \<open>copy_start\<close> is \<open>p\<close> whenever the loop is entered.\<close>

function encode_fragment :: "bytes \<Rightarrow> bytes \<Rightarrow> int \<Rightarrow> bytes option" where
  "encode_fragment dest s copy_start = do {
     let limit = int (length s);
     p \<leftarrow> SkipToNextSpecialByte s copy_start limit;
     if limit \<le> p
     then if copy_start < p then AppendBytes dest s copy_start (p - copy_start) else Some dest
     else do {
       c \<leftarrow> array_at s p;
       _ \<leftarrow> HARD_ASSERT (IsSpecialByte c);
       if c = kEscape1 then do {
         dest \<leftarrow> AppendBytes dest s copy_start (p - copy_start);
         encode_fragment (dest @ [kEscape1, kNullCharacter]) s (p + 1) }
       else do {
         _ \<leftarrow> HARD_ASSERT (c = kEscape2);
         dest \<leftarrow> AppendBytes dest s copy_start (p - copy_start);
         encode_fragment (dest @ [kEscape2, kFFCharacter]) s (p + 1) }}}"
  by auto
termination
  by (relation "measure (\<lambda>(dest, s, p). nat (int (length s) - p))") (auto dest!: skip_forward)

definition EncodeStringFragment :: "bytes \<Rightarrow> bytes \<Rightarrow> bytes option" where
  "EncodeStringFragment dest s = encode_fragment dest s 0"

definition WriteString :: "bytes \<Rightarrow> bytes \<Rightarrow> bytes option" where
  "WriteString dest s = do {
     dest \<leftarrow> EncodeStringFragment dest s;
     Some (dest @ [kEscape1, kSeparator]) }"

definition WriteInfinityInternal :: "bytes \<Rightarrow> bytes" where
  "WriteInfinityInternal dest = dest @ [kEscape2, kInfinity]"

definition WriteInfinity :: "bytes \<Rightarrow> bytes" where
  "WriteInfinity dest = WriteInfinityInternal dest"

definition WriteTrailingString :: "bytes \<Rightarrow> bytes \<Rightarrow> bytes" where
  "WriteTrailingString dest str = dest @ str"

text \<open>
  The readers give back whether they succeeded, the view they leave behind, and the string
  behind \<open>result\<close>, which may be null.
\<close>

definition append_result :: "bytes ptr \<Rightarrow> bytes \<Rightarrow> int \<Rightarrow> int \<Rightarrow> bytes ptr option" where
  "append_result result s p n =
     (case result of None \<Rightarrow> Some None | Some r \<Rightarrow> map_option Some (AppendBytes r s p n))"

definition push_result :: "bytes ptr \<Rightarrow> u8 \<Rightarrow> bytes ptr" where
  "push_result result c = map_option (\<lambda>r. r @ [c]) result"

function read_string_loop :: "bytes \<Rightarrow> int \<Rightarrow> bytes ptr \<Rightarrow> (bool \<times> bytes \<times> bytes ptr) option" where
  "read_string_loop s copy_start result = do {
     let limit = int (length s) - 1;
     start \<leftarrow> SkipToNextSpecialByte s copy_start limit;
     if limit \<le> start then Some (False, s, result)
     else do {
       c \<leftarrow> array_at s start;
       _ \<leftarrow> HARD_ASSERT (IsSpecialByte c);
       if c = kEscape1 then do {
         result \<leftarrow> append_result result s copy_start (start - copy_start);
         next \<leftarrow> array_at s (start + 1);
         if next = kSeparator then Some (True, drop (nat (start + 2)) s, result)
         else if next = kNullCharacter then read_string_loop s (start + 2) (push_result result 0)
         else Some (False, s, result) }
       else do {
         _ \<leftarrow> HARD_ASSERT (c = kEscape2);
         result \<leftarrow> append_result result s copy_start (start - copy_start);
         next \<leftarrow> array_at s (start + 1);
         if next = kFFCharacter then read_string_loop s (start + 2) (push_result result 255)
         else Some (False, s, result) }}}"
  by auto
termination
  by (relation "measure (\<lambda>(s, p, result). nat (int (length s) - p))") (auto dest!: skip_forward)

declare encode_fragment.simps [simp del] read_string_loop.simps [simp del]

definition ReadStringInternal :: "bytes \<Rightarrow> bytes ptr \<Rightarrow> (bool \<times> bytes \<times> bytes ptr) option" where
  "ReadStringInternal src result = read_string_loop src 0 result"

definition ReadString :: "bytes \<Rightarrow> bytes ptr \<Rightarrow> (bool \<times> bytes \<times> bytes ptr) option" where
  "ReadString src result = ReadStringInternal src result"

fun ReadInfinityInternal :: "bytes \<Rightarrow> bool \<times> bytes" where
  "ReadInfinityInternal (a # b # rest) =
     (if a = kEscape2 \<and> b = kInfinity then (True, rest) else (False, a # b # rest))"
| "ReadInfinityInternal src = (False, src)"

definition ReadInfinity :: "bytes \<Rightarrow> bool \<times> bytes" where
  "ReadInfinity src = ReadInfinityInternal src"

definition ReadStringOrInfinityInternal ::
  "bytes \<Rightarrow> bytes ptr \<Rightarrow> bool ptr \<Rightarrow> (bool \<times> bytes \<times> bytes ptr \<times> bool ptr) option" where
  "ReadStringOrInfinityInternal src result is_inf =
     (case ReadInfinityInternal src of
        (True, src) \<Rightarrow> Some (True, src, result, map_option (\<lambda>_. True) is_inf)
      | (False, src) \<Rightarrow> do {
          (success, src, result) \<leftarrow> ReadString src result;
          if success then Some (True, src, result, map_option (\<lambda>_. False) is_inf)
          else Some (False, src, result, is_inf) })"

definition ReadStringOrInfinity ::
  "bytes \<Rightarrow> bytes ptr \<Rightarrow> bool ptr \<Rightarrow> (bool \<times> bytes \<times> bytes ptr \<times> bool ptr) option" where
  "ReadStringOrInfinity src result is_inf = ReadStringOrInfinityInternal src result is_inf"

definition ReadTrailingString :: "bytes \<Rightarrow> bytes ptr \<Rightarrow> bool \<times> bytes \<times> bytes ptr" where
  "ReadTrailingString src result = (True, [], map_option (\<lambda>_. src) result)"

section \<open>Unsigned numbers\<close>

text \<open>\<open>be n v\<close>: the low \<open>n\<close> bytes of \<open>v\<close> in network byte order, as \<open>ghtonll\<close> stores them.\<close>

primrec be :: "nat \<Rightarrow> nat \<Rightarrow> bytes" where
  "be 0 v = []"
| "be (Suc n) v = of_nat (v div 256 ^ n) # be n v"

primrec be_nat :: "bytes \<Rightarrow> nat" where
  "be_nat [] = 0"
| "be_nat (b # bs) = unat b * 256 ^ length bs + be_nat bs"

definition store_bytes :: "bytes \<Rightarrow> nat \<Rightarrow> bytes \<Rightarrow> bytes" where
  "store_bytes buf i bs = take i buf @ bs @ drop (i + length bs) buf"

definition OrderedNumLength :: "u64 \<Rightarrow> u32 option" where
  [c_eval]: "OrderedNumLength val = do {
     lg \<leftarrow> Log2Floor64 val;
     Some (word_of_int (lg + 1 + 7) div 8) }"

text \<open>\<open>append\<close> copies nine bytes and \<open>erase\<close> drops the ones beyond \<open>n\<close>.\<close>

definition AppendUpto9 :: "bytes \<Rightarrow> bytes \<Rightarrow> int \<Rightarrow> u32 \<Rightarrow> bytes option" where
  "AppendUpto9 dst buf src n = do {
     dst \<leftarrow> AppendBytes dst buf src 9;
     let extra = 9 - n;
     Some (take (length dst - unat extra) dst) }"

definition WriteNumIncreasing :: "(nat \<Rightarrow> u8) \<Rightarrow> bytes \<Rightarrow> u64 \<Rightarrow> bytes option" where
  "WriteNumIncreasing junk dest val = do {
     let buf = store_bytes (map junk [0..<17]) 1 (be 8 (unat val));
     len \<leftarrow> OrderedNumLength val;
     let start = 9 - int (unat len) - 1;
     _ \<leftarrow> array_at buf start;
     let buf = buf[nat start := ucast len];
     AppendUpto9 dest buf start (len + 1) }"

primrec num_loop :: "u64 \<Rightarrow> bytes \<Rightarrow> u64" where
  "num_loop tmp [] = tmp"
| "num_loop tmp (b # bs) = num_loop (push_bit 8 tmp OR ucast b) bs"

definition ReadNumIncreasing :: "bytes \<Rightarrow> u64 ptr \<Rightarrow> (bool \<times> bytes \<times> u64 ptr) option" where
  "ReadNumIncreasing src result =
     (if src = [] then Some (False, src, result)
      else do {
        len_byte \<leftarrow> array_at src 0;
        let len = (scast len_byte :: u64);
        first \<leftarrow> (if len = 0 \<or> length src = 1 then Some 1 else array_at src 1);
        _ \<leftarrow> HARD_ASSERT (len = 0 \<or> length src = 1 \<or> first \<noteq> 0);
        if of_nat (length src) < len + 1 \<or> 8 < len then Some (False, src, result)
        else do {
          payload \<leftarrow> bytes_at src 1 (int (unat len));
          Some (True, drop (unat (len + 1)) src, map_option (\<lambda>_. num_loop 0 payload) result) }})"

section \<open>Signed numbers\<close>

definition kMaxSigned64Length :: nat where [c_eval]: "kMaxSigned64Length = 10"

definition kLengthToHeaderBits :: "(u8 \<times> u8) list" where
  [c_eval]: "kLengthToHeaderBits =
     [(0, 0), (0x80, 0), (0xc0, 0), (0xe0, 0), (0xf0, 0), (0xf8, 0), (0xfc, 0), (0xfe, 0),
      (0xff, 0), (0xff, 0x80), (0xff, 0xc0)]"

definition kLengthToMask :: "u64 list" where
  [c_eval]: "kLengthToMask =
     [0, 0x80, 0xc000, 0xe00000, 0xf0000000, 0xf800000000, 0xfc0000000000, 0xfe000000000000,
      0xff00000000000000, 0x8000000000000000, 0]"

definition kBitsToLength :: "int list" where
  [c_eval]: "kBitsToLength =
     [1, 1, 1, 1, 1, 1, 1, 2, 2, 2, 2, 2, 2, 2, 3, 3, 3, 3, 3, 3, 3, 4,
      4, 4, 4, 4, 4, 4, 5, 5, 5, 5, 5, 5, 5, 6, 6, 6, 6, 6, 6, 6, 7, 7,
      7, 7, 7, 7, 7, 8, 8, 8, 8, 8, 8, 8, 9, 9, 9, 9, 9, 9, 9, 10]"

definition SignedEncodingLength :: "s64 \<Rightarrow> int option" where
  "SignedEncodingLength n = do {
     lg \<leftarrow> Log2Floor64 (if n <s 0 then NOT n else n);
     array_at kBitsToLength (lg + 1) }"

definition SignedEncodingLengthPositive :: "s64 \<Rightarrow> int option" where
  "SignedEncodingLengthPositive n = do {
     lg \<leftarrow> Log2FloorNonZero64 n;
     array_at kBitsToLength (lg + 1) }"

definition WriteSignedNumIncreasing :: "bytes \<Rightarrow> s64 \<Rightarrow> bytes option" where
  "WriteSignedNumIncreasing dest val =
     (let x = (if val <s 0 then NOT val else val) in
      if x <s 64 then Some (dest @ [0x80 XOR ucast val])
      else do {
        let sign_byte = (if val <s 0 then 255 else 0);
        let buf = [sign_byte, sign_byte] @ be 8 (unat val);
        len \<leftarrow> SignedEncodingLengthPositive x;
        _ \<leftarrow> HARD_ASSERT (2 \<le> len);
        let begin = int (length buf) - len;
        (h0, h1) \<leftarrow> array_at kLengthToHeaderBits len;
        b0 \<leftarrow> array_at buf begin;
        let buf = buf[nat begin := b0 XOR h0];
        b1 \<leftarrow> array_at buf (begin + 1);
        let buf = buf[nat (begin + 1) := b1 XOR h1];
        AppendBytes dest buf begin len })"

text \<open>The length that the first bytes announce, \<open>None\<close> inside where the reader returns false.\<close>

definition signed_length :: "bytes \<Rightarrow> u64 \<Rightarrow> u8 \<Rightarrow> (int \<times> u64) option option" where
  "signed_length src xor_mask first_byte =
     (if first_byte \<noteq> 0xff then do {
        lg \<leftarrow> Log2FloorNonZero (ucast (first_byte XOR 0xff));
        let len = 7 - lg;
        if int (length src) < len then Some None
        else do {
          bs \<leftarrow> bytes_at src 0 len;
          Some (Some (len, num_loop xor_mask bs)) }}
      else if length src < 8 then Some None
      else do {
        b1 \<leftarrow> array_at src 1;
        let second_byte = (ucast (scast b1 XOR xor_mask AND 0xff) :: u8);
        len \<leftarrow> (if 0x80 \<le> second_byte
          then if second_byte < 0xc0 then Some (Some 9)
          else do {
            b2 \<leftarrow> array_at src 2;
            let third_byte = (ucast (scast b2 XOR xor_mask AND 0xff) :: u8);
            Some (if second_byte = 0xc0 \<and> third_byte < 0x80 then Some 10 else None) }
          else Some (Some 8));
        case len of
          None \<Rightarrow> Some None
        | Some len \<Rightarrow>
            if int (length src) < len then Some None
            else do {
              bs \<leftarrow> bytes_at src (len - 8) 8;
              Some (Some (len, of_nat (be_nat bs))) }})"

definition ReadSignedNumIncreasing :: "bytes \<Rightarrow> s64 ptr \<Rightarrow> (bool \<times> bytes \<times> s64 ptr) option" where
  "ReadSignedNumIncreasing src result =
     (if src = [] then Some (False, src, result)
      else do {
        b0 \<leftarrow> array_at src 0;
        let xor_mask = (if b0 AND 0x80 = 0 then - 1 else 0 :: u64);
        let first_byte = (ucast (scast b0 XOR xor_mask AND 0xff) :: u8);
        r \<leftarrow> signed_length src xor_mask first_byte;
        case r of
          None \<Rightarrow> Some (False, src, result)
        | Some (len, x) \<Rightarrow> do {
            m \<leftarrow> array_at kLengthToMask len;
            let x = x XOR m;
            l \<leftarrow> SignedEncodingLength x;
            _ \<leftarrow> HARD_ASSERT (len = l);
            Some (True, drop (nat len) src, map_option (\<lambda>_. x) result) }})"

end
