(* ===== verification/OrderedStrings.thy ===== *)
theory OrderedStrings
  imports OrderedCode "HOL-Library.List_Lexorder"
begin

text \<open>
  The string encoding of \<open>ordered_code.cc\<close>: the word-wise scan for special bytes is the
  byte-wise one, the writer appends the escaped string, the reader accepts exactly what the
  writer produces, and the encodings compare as the strings do.
\<close>

section \<open>The test for special bytes in a word\<close>

primrec ones :: "nat \<Rightarrow> int" where
  "ones 0 = 0"
| "ones (Suc n) = 1 + 256 * ones n"

definition special_test :: "bytes \<Rightarrow> int" where
  "special_test bs = (let v = int (le_nat bs); k = ones (length bs) in
     (v - k) AND NOT (v + k) AND 128 * k)"

lemma concat_bit_8: "0 \<le> a \<Longrightarrow> a < 256 \<Longrightarrow> concat_bit 8 a x = a + 256 * x"
  by (simp add: concat_bit_eq take_bit_int_eq_self push_bit_eq_mult)

lemma concat_bit_and:
  "concat_bit n a x AND concat_bit n b y = concat_bit n (a AND b) (x AND y)"
  by (rule bit_eqI) (auto simp: bit_concat_bit_iff bit_and_iff)

lemma concat_bit_not: "NOT (concat_bit n a x) = concat_bit n (NOT a) (NOT x)"
  by (rule bit_eqI) (auto simp: bit_concat_bit_iff bit_not_iff)

lemma IsSpecialByte_iff: "IsSpecialByte c \<longleftrightarrow> c = 0 \<or> c = 255"
proof -
  have "c + 1 < 2 \<longleftrightarrow> c + 1 = 0 \<or> c + 1 = 1"
    using word_unat_eq_iff [of "c + 1" 1] word_unat_eq_iff [of "c + 1" 0]
    by (auto simp add: word_less_nat_alt less_2_cases_iff simp del: add_left_cancel add_0 add_cancel_left_left)
  then show ?thesis
    by (auto simp: IsSpecialByte_def add_eq_0_iff2)
qed

lemma bit7: "0 \<le> y \<Longrightarrow> y < 256 \<Longrightarrow> bit (y :: int) 7 \<longleftrightarrow> 128 \<le> y"
proof -
  assume "0 \<le> y" "y < 256"
  then have "y div 128 = (if 128 \<le> y then 1 else 0)" by auto
  then show ?thesis by (simp add: bit_iff_odd)
qed

lemma plain_byte_test: "0 < b \<Longrightarrow> b < 255 \<Longrightarrow> (b - 1) AND NOT (b + 1) AND (128 :: int) = 0"
  using and_exp_eq_0_iff_not_bit [of "(b - 1) AND NOT (b + 1)" 7]
  by (simp add: bit_and_iff bit_not_iff bit7 and.assoc)

lemma special_test_Cons:
  assumes "b \<noteq> 0" "b \<noteq> 255"
  shows "special_test (b # bs) = 256 * special_test bs"
proof -
  let ?b = "int (unat b)" and ?v = "int (le_nat bs)" and ?k = "ones (length bs)"
  have "unat b \<noteq> 0" "unat b \<noteq> 255"
    using assms by (simp_all add: word_unat_eq_iff [of b])
  then have b: "0 < ?b" "?b < 255"
    using u8_less_256 [of b] by linarith+
  have "special_test (b # bs) = concat_bit 8 (?b - 1) (?v - ?k)
     AND NOT (concat_bit 8 (?b + 1) (?v + ?k)) AND concat_bit 8 128 (128 * ?k)"
    using b by (simp add: special_test_def Let_def concat_bit_8 algebra_simps)
  also have "\<dots> = concat_bit 8 ((?b - 1) AND NOT (?b + 1) AND 128) (special_test bs)"
    by (simp only: concat_bit_and concat_bit_not special_test_def Let_def)
  finally show ?thesis
    using b by (simp add: plain_byte_test concat_bit_8)
qed

lemma unat_255: "unat (255 :: u8) = 255"
  by simp

lemma special_test_special:
  assumes "b = 0 \<or> b = 255"
  shows "special_test (b # bs) \<noteq> 0"
proof -
  let ?v = "int (le_nat bs)" and ?k = "ones (length bs)"
  have one: "256 * ?v + (1 + 256 * ?k) = concat_bit 8 1 (?v + ?k)"
    by (subst concat_bit_8) simp_all
  have max: "255 + 256 * ?v - (1 + 256 * ?k) = concat_bit 8 254 (?v - ?k)"
    by (simp add: concat_bit_8 algebra_simps)
  have carry: "255 + 256 * ?v + (1 + 256 * ?k) = concat_bit 8 0 (?v + ?k + 1)"
    by (subst concat_bit_8) simp_all
  have top: "128 * (1 + 256 * ?k) = concat_bit 8 128 (128 * ?k)"
    by (simp add: concat_bit_8)
  have less: "256 * ?v - (1 + 256 * ?k) = concat_bit 8 255 (?v - ?k - 1)"
    by (simp add: concat_bit_8 algebra_simps)
  have "bit (special_test (b # bs)) 7"
    using assms by (elim disjE)
      (simp_all only: special_test_def Let_def le_nat.simps ones.simps list.size of_nat_add of_nat_mult
        of_nat_numeral unat_0 unat_255 of_nat_0 add_0 add_Suc_right add_0_right less one max carry top,
       simp_all add: bit_and_iff bit_not_iff bit_concat_bit_iff bit_push_bit_iff bit7)
  then show ?thesis by force
qed

lemma special_test_0: "special_test bs = 0 \<longleftrightarrow> \<not> list_ex IsSpecialByte bs"
proof (induction bs)
  case Nil
  show ?case by (simp add: special_test_def)
next
  case (Cons b bs)
  show ?case
    by (cases "b = 0 \<or> b = 255")
      (use Cons special_test_special in \<open>auto simp: IsSpecialByte_iff special_test_Cons\<close>)
qed

lemma special_test_word:
  assumes "LENGTH('l::len) = 8 * length bs"
  shows "(of_nat (le_nat bs) - of_int (ones (length bs))) AND
      NOT (of_nat (le_nat bs) + of_int (ones (length bs))) AND
      of_int (128 * ones (length bs)) = (0 :: 'l word) \<longleftrightarrow> \<not> list_ex IsSpecialByte bs"
    (is "?w = 0 \<longleftrightarrow> _")
proof -
  have k: "255 * ones n = 256 ^ n - 1" for n
    by (induction n) (simp_all add: algebra_simps)
  have "0 \<le> ones (length bs)" "128 * ones (length bs) < 256 ^ length bs"
    using k [of "length bs"] one_le_power [of "256 :: int" "length bs"] by linarith+
  then have bounds: "0 \<le> special_test bs" "special_test bs < 2 ^ LENGTH('l)"
    unfolding assms power_mult special_test_def Let_def and.assoc [symmetric]
    by (auto intro: order_le_less_trans [OF AND_upper2])
  have "?w = of_int (special_test bs)"
    by (simp add: special_test_def Let_def of_int_and_eq of_int_not_eq)
  then have "?w = 0 \<longleftrightarrow> special_test bs = 0"
    using bounds word_of_int_eq_iff [where 'a = 'l, of "special_test bs" 0]
    by (simp add: take_bit_int_eq_self)
  then show ?thesis by (simp add: special_test_0)
qed

lemma test_64: "length bs = 8 \<Longrightarrow> hasZeroOr255Byte (of_nat (le_nat bs)) \<longleftrightarrow> list_ex IsSpecialByte bs"
  using special_test_word [where 'l = 64, of bs]
  by (simp add: hasZeroOr255Byte_def eval_nat_numeral(3) numeral_eq_Suc)

lemma test_32:
  "length bs = 4 \<Longrightarrow>
   (of_nat (le_nat bs) - 0x01010101 :: u32) AND NOT (of_nat (le_nat bs) + 0x01010101) AND 0x80808080 = 0
   \<longleftrightarrow> \<not> list_ex IsSpecialByte bs"
  using special_test_word [where 'l = 32, of bs] by (simp add: numeral_eq_Suc)

section \<open>The scan\<close>

definition next_special :: "bytes \<Rightarrow> int \<Rightarrow> int \<Rightarrow> int" where
  "next_special s p limit =
     p + int (length (takeWhile (\<lambda>c. \<not> IsSpecialByte c) (take (nat (limit - p)) (drop (nat p) s))))"

lemma next_special_stop: "limit \<le> p \<Longrightarrow> next_special s p limit = p"
  by (simp add: next_special_def)

lemma next_special_step:
  assumes "0 \<le> p" "p < limit" "limit \<le> int (length s)"
  shows "next_special s p limit =
    (if IsSpecialByte (s ! nat p) then p else next_special s (p + 1) limit)"
proof -
  have "drop (nat p) s = s ! nat p # drop (nat (p + 1)) s"
    using assms by (simp add: Cons_nth_drop_Suc nat_add_distrib)
  moreover have "nat (limit - p) = Suc (nat (limit - (p + 1)))" using assms by simp
  ultimately show ?thesis by (simp add: next_special_def)
qed

lemma skip_bytes_result:
  "0 \<le> p \<Longrightarrow> limit \<le> int (length s) \<Longrightarrow> skip_bytes s p limit = Some (next_special s p limit)"
proof (induction s p limit rule: skip_bytes.induct)
  case (1 s p limit)
  then show ?case
    by (subst skip_bytes.simps) (auto simp: array_at_def next_special_stop next_special_step)
qed

text \<open>A block of bytes at the scan position, and what the scan does to it.\<close>

lemma next_special_block:
  assumes "0 \<le> p" "p + int (length bs) \<le> limit" "limit \<le> int (length s)"
    "bytes_at s p (int (length bs)) = Some bs"
  shows "next_special s p limit =
    (if list_ex IsSpecialByte bs then p + int (length (takeWhile (\<lambda>c. \<not> IsSpecialByte c) bs))
     else next_special s (p + int (length bs)) limit)"
proof -
  have bs: "take (length bs) (drop (nat p) s) = bs"
    using assms(4) by (simp add: bytes_at_def split: if_splits)
  have n: "nat (limit - p) = length bs + nat (limit - (p + int (length bs)))" using assms by simp
  have "drop (length bs + nat p) s = drop (nat (p + int (length bs))) s"
    using assms by (simp add: nat_add_distrib add.commute)
  then have "take (nat (limit - p)) (drop (nat p) s) =
      bs @ take (nat (limit - (p + int (length bs)))) (drop (nat (p + int (length bs))) s)"
    by (simp only: n take_add drop_drop bs)
  then show ?thesis
    by (auto simp: next_special_def takeWhile_append list_ex_iff)
qed

lemma le_nat_low:
  "length xs = 4 \<Longrightarrow> (of_nat (le_nat (xs @ ys)) :: u32) = of_nat (le_nat xs)"
proof -
  have "le_nat (xs @ ys) = le_nat xs + 256 ^ length xs * le_nat ys" for xs
    by (induction xs) (simp_all add: algebra_simps)
  moreover assume "length xs = 4"
  ultimately show ?thesis by (simp add: word_of_nat_eq_iff take_bit_nat_def del: of_nat_add)
qed

lemma bytes_at_obtain:
  assumes "0 \<le> p" "p + int n \<le> int (length s)"
  obtains bs where "bytes_at s p (int n) = Some bs" "length bs = n"
  using assms by (simp add: bytes_at_def)

lemma array_at_block:
  "bytes_at s p n = Some bs \<Longrightarrow> i < length bs \<Longrightarrow> array_at s (p + int i) = Some (bs ! i)"
  by (auto simp: bytes_at_def array_at_def nat_add_distrib split: if_splits)

lemma array_at_4:
  assumes "bytes_at s p n = Some bs" "4 \<le> length bs"
  shows "array_at s p = Some (bs ! 0)" "array_at s (p + 1) = Some (bs ! 1)"
    "array_at s (p + 2) = Some (bs ! 2)" "array_at s (p + 3) = Some (bs ! 3)"
proof -
  have "bs \<noteq> []" using assms(2) by auto
  then show "array_at s p = Some (bs ! 0)" "array_at s (p + 1) = Some (bs ! 1)"
    "array_at s (p + 2) = Some (bs ! 2)" "array_at s (p + 3) = Some (bs ! 3)"
    using array_at_block [OF assms(1), of 0] array_at_block [OF assms(1), of 1]
      array_at_block [OF assms(1), of 2] array_at_block [OF assms(1), of 3] assms(2) by simp_all
qed

lemma length_4: "length bs = 4 \<Longrightarrow> \<exists>a b c d. bs = [a, b, c, d]"
  by (auto simp: length_Suc_conv numeral_eq_Suc)

lemma advance_result:
  assumes "bytes_at s p 4 = Some bs" "length bs = 4"
  shows "AdvanceIfNoSpecialBytes s (of_nat (le_nat bs)) p =
    Some (if list_ex IsSpecialByte bs then 0 else 4)"
proof -
  obtain a b c d where bs: "bs = [a, b, c, d]" using length_4 [OF assms(2)] by blast
  have "UNALIGNED_LOAD32 s p = Some (of_nat (le_nat bs))"
    using assms(1) by (simp add: UNALIGNED_LOAD32_def)
  then show ?thesis
    using array_at_4 [OF assms(1)] test_32 [OF assms(2)] assms(2)
    by (simp add: AdvanceIfNoSpecialBytes_def bs del: le_nat.simps)
qed

text \<open>The four bytes after the word test, one of which is special.\<close>

definition scan_four :: "bytes \<Rightarrow> int \<Rightarrow> int option" where
  "scan_four s p = do {
     p0 \<leftarrow> array_at s p;
     if IsSpecialByte p0 then Some p else do {
     p1 \<leftarrow> array_at s (p + 1);
     if IsSpecialByte p1 then Some (p + 1) else do {
     p2 \<leftarrow> array_at s (p + 2);
     if IsSpecialByte p2 then Some (p + 2) else do {
     p3 \<leftarrow> array_at s (p + 3);
     _ \<leftarrow> HARD_ASSERT (IsSpecialByte p3);
     Some (p + 3) }}}}"

lemma scan_four_result:
  assumes "bytes_at s p 4 = Some bs" "length bs = 4" "list_ex IsSpecialByte bs"
  shows "scan_four s p = Some (p + int (length (takeWhile (\<lambda>c. \<not> IsSpecialByte c) bs)))"
  using length_4 [OF assms(2)] array_at_4 [OF assms(1)] assms(2,3)
  by (auto simp: scan_four_def HARD_ASSERT_def)

lemma skip_eq:
  "SkipToNextSpecialByte s p limit =
     (if p + 8 \<le> limit then do {
        v \<leftarrow> UNALIGNED_LOAD64 s p;
        if \<not> hasZeroOr255Byte v then SkipToNextSpecialByte s (p + 8) limit
        else do { n \<leftarrow> AdvanceIfNoSpecialBytes s (ucast v) p; scan_four s (p + n) }}
      else if p + 4 \<le> limit then do {
        v_32 \<leftarrow> UNALIGNED_LOAD32 s p;
        n \<leftarrow> AdvanceIfNoSpecialBytes s v_32 p;
        skip_bytes s (p + n) limit }
      else skip_bytes s p limit)"
  unfolding scan_four_def by (subst SkipToNextSpecialByte.simps) (rule refl)

lemma bytes_at_split:
  assumes "bytes_at s p (int n + int m) = Some bs"
  shows "bytes_at s p (int n) = Some (take n bs)" "bytes_at s (p + int n) (int m) = Some (drop n bs)"
  using assms by (auto simp: bytes_at_def nat_add_distrib take_drop ac_simps split: if_splits)

lemma skip_scan:
  assumes "bytes_at s p 8 = Some bs" "length bs = 8" "list_ex IsSpecialByte bs"
  shows "do { n \<leftarrow> AdvanceIfNoSpecialBytes s (ucast (of_nat (le_nat bs) :: u64)) p; scan_four s (p + n) }
    = Some (p + int (length (takeWhile (\<lambda>c. \<not> IsSpecialByte c) bs)))"
proof -
  let ?l = "take 4 bs" and ?h = "drop 4 bs"
  have "bytes_at s p (int 4 + int 4) = Some bs" using assms(1) by simp
  note halves = bytes_at_split [OF this, simplified]
  have "bs = ?l @ ?h" by simp
  then have v: "(ucast (of_nat (le_nat bs) :: u64) :: u32) = of_nat (le_nat ?l)"
    using le_nat_low [of ?l ?h] assms(2) by (simp add: ucast_of_nat_32)
  have len: "length ?l = 4" "length ?h = 4" using assms(2) by simp_all
  have tw: "takeWhile (\<lambda>c. \<not> IsSpecialByte c) bs =
      (if list_ex IsSpecialByte ?l then takeWhile (\<lambda>c. \<not> IsSpecialByte c) ?l
       else ?l @ takeWhile (\<lambda>c. \<not> IsSpecialByte c) ?h)"
    using takeWhile_append [of "\<lambda>c. \<not> IsSpecialByte c" ?l ?h] by (auto simp: list_ex_iff)
  have "list_ex IsSpecialByte ?l \<or> list_ex IsSpecialByte ?h"
    using assms(3) by (simp flip: list_ex_append)
  then show ?thesis
    using advance_result [OF halves(1) len(1)] scan_four_result [OF halves(1) len(1)]
      scan_four_result [OF halves(2) len(2)] len
    by (cases "list_ex IsSpecialByte ?l") (simp_all add: v tw del: length_take)
qed

lemma skip_result:
  "0 \<le> p \<Longrightarrow> limit \<le> int (length s) \<Longrightarrow>
   SkipToNextSpecialByte s p limit = Some (next_special s p limit)"
proof (induction s p limit rule: SkipToNextSpecialByte.induct)
  case (1 s p limit)
  note prems = "1.prems"
  consider "p + 8 \<le> limit" | "limit < p + 8" "p + 4 \<le> limit" | "limit < p + 4" by linarith
  then show ?case
  proof cases
    case 1
    obtain bs where bs: "bytes_at s p 8 = Some bs" "length bs = 8"
      using bytes_at_obtain [of p 8 s] prems 1 by auto
    then have v: "UNALIGNED_LOAD64 s p = Some (of_nat (le_nat bs))"
      by (simp add: UNALIGNED_LOAD64_def)
    have IH: "\<not> list_ex IsSpecialByte bs \<Longrightarrow>
        SkipToNextSpecialByte s (p + 8) limit = Some (next_special s (p + 8) limit)"
      using "1.IH" [OF 1 v] prems test_64 [OF bs(2)] by simp
    show ?thesis
      using next_special_block [of p bs limit s] prems 1 bs skip_scan [OF bs] IH
      by (subst skip_eq) (simp add: v test_64)
  next
    case 2
    obtain bs where bs: "bytes_at s p 4 = Some bs" "length bs = 4"
      using bytes_at_obtain [of p 4 s] prems 2 by auto
    then have v: "UNALIGNED_LOAD32 s p = Some (of_nat (le_nat bs))"
      by (simp add: UNALIGNED_LOAD32_def)
    show ?thesis
      using next_special_block [of p bs limit s] prems 2 bs
      by (subst skip_eq) (simp add: v advance_result [OF bs] skip_bytes_result)
  next
    case 3
    then show ?thesis using prems by (subst skip_eq) (simp add: skip_bytes_result)
  qed
qed

lemma next_special_facts:
  assumes "0 \<le> p" "p \<le> limit" "limit \<le> int (length s)"
  defines "q \<equiv> next_special s p limit"
  shows "p \<le> q" "q \<le> limit" "q < limit \<Longrightarrow> array_at s q = Some (s ! nat q) \<and> IsSpecialByte (s ! nat q)"
    "\<exists>t. bytes_at s p (q - p) = Some t \<and> drop (nat p) s = t @ drop (nat q) s \<and>
       list_all (\<lambda>c. \<not> IsSpecialByte c) t"
proof -
  let ?w = "take (nat (limit - p)) (drop (nat p) s)"
  let ?t = "takeWhile (\<lambda>c. \<not> IsSpecialByte c) ?w"
  have w: "length ?w = nat (limit - p)" using assms by simp
  have q: "q = p + int (length ?t)" by (simp add: q_def next_special_def)
  then show "p \<le> q" by simp
  have le: "length ?t \<le> nat (limit - p)" using length_takeWhile_le [of "\<lambda>c. \<not> IsSpecialByte c" ?w] by (simp only: w)
  then show "q \<le> limit" using q assms by simp
  show "q < limit \<Longrightarrow> array_at s q = Some (s ! nat q) \<and> IsSpecialByte (s ! nat q)"
  proof -
    assume "q < limit"
    then have "length ?t < nat (limit - p)" using q by linarith
    then have less: "length ?t < length ?w" by (simp only: w)
    have "?w ! length ?t = s ! nat q"
      using less q assms by (simp add: nat_add_distrib)
    with nth_length_takeWhile [OF less] show ?thesis
      using \<open>q < limit\<close> q assms by (simp add: array_at_def)
  qed
  obtain t where "t = ?t" by blast
  have "t = take (length t) ?w" unfolding \<open>t = ?t\<close> by (rule takeWhile_eq_take)
  then have t: "take (length t) (drop (nat p) s) = t"
    using le by (simp add: \<open>t = ?t\<close> [symmetric] min_absorb1)
  have n: "nat (q - p) = length t" "nat q = length t + nat p" "p + (q - p) \<le> int (length s)"
    using q \<open>q \<le> limit\<close> assms by (simp_all add: \<open>t = ?t\<close> [symmetric] nat_add_distrib)
  have "bytes_at s p (q - p) = Some t"
    using n t assms(1) \<open>p \<le> q\<close> by (simp add: bytes_at_def)
  moreover have "drop (nat p) s = t @ drop (nat q) s"
    using append_take_drop_id [of "length t" "drop (nat p) s"] n(2) t by simp
  moreover have "list_all (\<lambda>c. \<not> IsSpecialByte c) t"
    by (auto simp: \<open>t = ?t\<close> list_all_iff dest: set_takeWhileD)
  ultimately show "\<exists>t. bytes_at s p (q - p) = Some t \<and> drop (nat p) s = t @ drop (nat q) s \<and>
       list_all (\<lambda>c. \<not> IsSpecialByte c) t"
    by blast
qed

section \<open>Writing\<close>

definition escape :: "u8 \<Rightarrow> bytes" where
  "escape c = (if c = 0 then [0, 255] else if c = 255 then [255, 0] else [c])"

definition string_code :: "bytes \<Rightarrow> bytes" where
  "string_code s = concat (map escape s) @ [0, 1]"

lemma escape_plain: "list_all (\<lambda>c. \<not> IsSpecialByte c) t \<Longrightarrow> concat (map escape t) = t"
  by (induction t) (auto simp: IsSpecialByte_iff escape_def)

lemma drop_array_at: "array_at s q = Some c \<Longrightarrow> 0 \<le> q \<Longrightarrow> drop (nat q) s = c # drop (nat (q + 1)) s"
  by (auto simp: array_at_def Cons_nth_drop_Suc nat_add_distrib split: if_splits)

lemma encode_fragment_result:
  "0 \<le> p \<Longrightarrow> p \<le> int (length s) \<Longrightarrow>
   encode_fragment dest s p = Some (dest @ concat (map escape (drop (nat p) s)))"
proof (induction dest s p rule: encode_fragment.induct)
  case (1 dest s p)
  let ?q = "next_special s p (int (length s))"
  have skip: "SkipToNextSpecialByte s p (int (length s)) = Some ?q"
    using "1.prems" by (simp add: skip_result)
  note facts = next_special_facts [OF "1.prems" order_refl]
  obtain t where t: "bytes_at s p (?q - p) = Some t" "drop (nat p) s = t @ drop (nat ?q) s"
    "list_all (\<lambda>c. \<not> IsSpecialByte c) t"
    using facts(4) by blast
  show ?case
  proof (cases "?q < int (length s)")
    case False
    then have "?q = int (length s)" using facts(2) by simp
    moreover from this have "p = ?q \<Longrightarrow> t = []" using t(2) by simp
    ultimately show ?thesis
      using t facts(1)
      by (subst encode_fragment.simps) (auto simp: skip Let_def AppendBytes_def escape_plain)
  next
    case True
    let ?c = "s ! nat ?q"
    have c: "array_at s ?q = Some ?c" "?c = 0 \<or> ?c = 255"
      using facts(3) [OF True] by (simp_all add: IsSpecialByte_iff)
    have drop: "drop (nat p) s = t @ ?c # drop (nat (?q + 1)) s"
      using t(2) drop_array_at [OF c(1)] facts(1) "1.prems" by simp
    have app: "AppendBytes dest s p (?q - p) = Some (dest @ t)"
      using t(1) by (simp add: AppendBytes_def)
    have bound: "0 \<le> ?q + 1" "?q + 1 \<le> int (length s)"
      using facts(1) "1.prems" True by simp_all
    show ?thesis
    proof (cases "?c = kEscape1")
      case esc: True
      have "encode_fragment ((dest @ t) @ [kEscape1, kNullCharacter]) s (?q + 1) =
          Some (((dest @ t) @ [kEscape1, kNullCharacter]) @ concat (map escape (drop (nat (?q + 1)) s)))"
        using True facts(3) [OF True] esc bound
        by (intro "1.IH"(1) [OF refl skip _ c(1) _ _ app]) simp_all
      then show ?thesis
        using True c(2) esc
        by (subst encode_fragment.simps)
          (simp add: skip Let_def c(1) drop escape_plain [OF t(3)] app IsSpecialByte_iff escape_def
            kEscape1_def kNullCharacter_def)
    next
      case esc: False
      then have c255: "?c = kEscape2" using c(2) by (simp add: kEscape1_def kEscape2_def)
      have "encode_fragment ((dest @ t) @ [kEscape2, kFFCharacter]) s (?q + 1) =
          Some (((dest @ t) @ [kEscape2, kFFCharacter]) @ concat (map escape (drop (nat (?q + 1)) s)))"
        using True facts(3) [OF True] esc bound c255
        by (intro "1.IH"(2) [OF refl skip _ c(1) _ _ _ app]) simp_all
      then show ?thesis
        using True c255
        by (subst encode_fragment.simps)
          (simp add: skip Let_def c(1) drop escape_plain [OF t(3)] app IsSpecialByte_iff escape_def
            kEscape1_def kEscape2_def kFFCharacter_def)
    qed
  qed
qed

lemma WriteString_code: "WriteString dest s = Some (dest @ string_code s)"
  by (simp add: WriteString_def EncodeStringFragment_def encode_fragment_result string_code_def
      kEscape1_def kSeparator_def)

section \<open>Reading\<close>

fun string_decode :: "bytes \<Rightarrow> (bytes \<times> bytes) option" where
  "string_decode (c # d # s) =
     (if c = 0 then if d = 1 then Some ([], s)
        else if d = 255 then map_option (\<lambda>(x, r). (0 # x, r)) (string_decode s) else None
      else if c = 255 then
        if d = 0 then map_option (\<lambda>(x, r). (255 # x, r)) (string_decode s) else None
      else map_option (\<lambda>(x, r). (c # x, r)) (string_decode (d # s)))"
| "string_decode _ = None"

lemma string_decode_code: "string_decode (string_code s @ r) = Some (s, r)"
proof (induction s)
  case (Cons c s)
  obtain d w where "string_code s @ r = d # w"
    by (cases "string_code s @ r") (auto simp: string_code_def)
  with Cons show ?case by (auto simp: string_code_def escape_def)
qed (simp add: string_code_def)

lemma string_decode_sound: "string_decode w = Some (s, r) \<Longrightarrow> w = string_code s @ r"
proof (induction w arbitrary: s rule: string_decode.induct)
  case (1 c d w)
  then show ?case
    by (auto simp: string_code_def escape_def split: if_splits)
qed simp_all

lemma string_decode_short: "length w \<le> 1 \<Longrightarrow> string_decode w = None"
  by (cases w rule: string_decode.cases) auto

lemma string_decode_plain:
  "list_all (\<lambda>c. \<not> IsSpecialByte c) t \<Longrightarrow>
   string_decode (t @ w) = map_option (\<lambda>(x, r). (t @ x, r)) (string_decode w)"
proof (induction t)
  case Nil
  show ?case by (cases "string_decode w") auto
next
  case (Cons c t)
  then show ?case
    by (cases "t @ w") (auto simp: IsSpecialByte_iff option.map_comp comp_def case_prod_unfold)
qed

definition decode_outcome :: "bytes \<Rightarrow> bytes ptr \<Rightarrow> (bytes \<times> bytes) option \<Rightarrow>
    (bool \<times> bytes \<times> bytes ptr) option \<Rightarrow> bool" where
  "decode_outcome s result decoded out \<longleftrightarrow>
     (case decoded of
        Some (x, rest) \<Rightarrow> out = Some (True, rest, map_option (\<lambda>r. r @ x) result)
      | None \<Rightarrow> \<exists>partial. out = Some (False, s, partial))"

lemma decode_outcome_prefix:
  "decode_outcome s (map_option (\<lambda>r. r @ t) result) d out \<Longrightarrow>
   decode_outcome s result (map_option (\<lambda>(x, r). (t @ x, r)) d) out"
  by (auto simp: decode_outcome_def option.map_comp comp_def split: option.splits)

lemma append_result_eq:
  "bytes_at s p n = Some t \<Longrightarrow> append_result result s p n = Some (map_option (\<lambda>r. r @ t) result)"
  by (auto simp: append_result_def AppendBytes_def split: option.splits)

lemma push_result_eq:
  "push_result (map_option (\<lambda>r. r @ t) result) c = map_option (\<lambda>r. r @ (t @ [c])) result"
  by (simp add: push_result_def option.map_comp comp_def)

lemma read_string_loop_result:
  "0 \<le> p \<Longrightarrow> p \<le> int (length s) \<Longrightarrow>
   decode_outcome s result (string_decode (drop (nat p) s)) (read_string_loop s p result)"
proof (induction s p result rule: read_string_loop.induct)
  case (1 s p result)
  let ?limit = "int (length s) - 1"
  let ?q = "next_special s p ?limit"
  have skip: "SkipToNextSpecialByte s p ?limit = Some ?q"
    using "1.prems" by (simp add: skip_result)
  show ?case
  proof (cases "p \<le> ?limit")
    case False
    then have "?q = p" "drop (nat p) s = []"
      using "1.prems" by (simp_all add: next_special_stop)
    with False skip show ?thesis
      by (subst read_string_loop.simps) (simp add: Let_def decode_outcome_def)
  next
    case le: True
    have lim: "?limit \<le> int (length s)" by simp
    note facts = next_special_facts [OF "1.prems"(1) le lim]
    obtain t where t: "bytes_at s p (?q - p) = Some t" "drop (nat p) s = t @ drop (nat ?q) s"
      "list_all (\<lambda>c. \<not> IsSpecialByte c) t"
      using facts(4) by blast
    let ?res = "map_option (\<lambda>r. r @ t) result"
    have app: "append_result result s p (?q - p) = Some ?res"
      by (rule append_result_eq) (rule t(1))
    have decode: "string_decode (drop (nat p) s) =
        map_option (\<lambda>(x, r). (t @ x, r)) (string_decode (drop (nat ?q) s))"
      by (simp only: t(2) string_decode_plain [OF t(3)])
    show ?thesis
    proof (cases "?q < ?limit")
      case False
      then have "length (drop (nat ?q) s) \<le> 1" by simp
      then have "string_decode (drop (nat ?q) s) = None" by (rule string_decode_short)
      with False skip show ?thesis
        by (subst read_string_loop.simps) (simp add: Let_def decode_outcome_def decode)
    next
      case True
      let ?c = "s ! nat ?q" and ?d = "s ! nat (?q + 1)" and ?w = "drop (nat (?q + 2)) s"
      have c: "array_at s ?q = Some ?c" "?c = 0 \<or> ?c = 255"
        using facts(3) True by (simp_all add: IsSpecialByte_iff)
      have d: "array_at s (?q + 1) = Some ?d"
        using True facts(1) "1.prems" by (simp add: array_at_def)
      have drop: "drop (nat ?q) s = ?c # ?d # ?w"
        using drop_array_at [OF c(1)] drop_array_at [OF d] facts(1) "1.prems"
        by (simp add: add.commute)
      have bound: "0 \<le> ?q + 2" "?q + 2 \<le> int (length s)"
        using True facts(1) "1.prems" by simp_all
      have step: "read_string_loop s p result =
          (if ?c = 0 then if ?d = 1 then Some (True, ?w, ?res)
             else if ?d = 255 then read_string_loop s (?q + 2) (push_result ?res 0)
             else Some (False, s, ?res)
           else if ?d = 0 then read_string_loop s (?q + 2) (push_result ?res 255)
             else Some (False, s, ?res))"
        using True skip c d app
        by (subst read_string_loop.simps) (auto simp: Let_def c_eval IsSpecialByte_iff)
      have zero: "decode_outcome s (push_result ?res 0) (string_decode ?w)
          (read_string_loop s (?q + 2) (push_result ?res 0))" if "?c = 0" "?d = 255"
        using True facts(3) that bound
        by (intro "1.IH"(1) [OF refl skip _ c(1) _ _ app d]) (simp_all add: c_eval)
      have max: "decode_outcome s (push_result ?res 255) (string_decode ?w)
          (read_string_loop s (?q + 2) (push_result ?res 255))" if "?c = 255" "?d = 0"
        using True facts(3) that bound
        by (intro "1.IH"(2) [OF refl skip _ c(1) _ _ _ app d]) (simp_all add: c_eval)
      show ?thesis
        using c(2) zero max
        by (auto simp: step decode drop decode_outcome_def push_result_eq option.map_comp comp_def
            split: option.splits)
    qed
  qed
qed

lemma ReadString_decode: "decode_outcome s result (string_decode s) (ReadString s result)"
  using read_string_loop_result [of 0 s result]
  by (simp add: ReadString_def ReadStringInternal_def)

lemma max_u8: "(- 1 :: u8) = 255"
  by simp

lemma string_code_less:
  "string_code s @ r < string_code t @ r' \<longleftrightarrow> s < t \<or> s = t \<and> r < r'"
proof (induction s arbitrary: t)
  case Nil
  have "0 < d \<Longrightarrow> d \<noteq> 0" for d :: u8 by auto
  then show ?case by (cases t) (auto simp: string_code_def escape_def word_gt_0)
next
  case (Cons c s)
  have top: "d \<noteq> 255 \<longleftrightarrow> d < 255" for d :: u8
    using word_order.not_eq_extremum [of d] by (simp add: max_u8)
  show ?case
    using Cons.IH
    by (cases t) (auto simp: string_code_def escape_def word_gt_0 top)
qed

end
