(* ===== verification/OrderedNumbers.thy ===== *)
theory OrderedNumbers
  imports OrderedCode "HOL-Library.List_Lexorder"
begin

text \<open>
  The number encodings of \<open>ordered_code.cc\<close>: logarithms, network byte order, the unsigned
  encoding (a length byte and the significant bytes) and the signed one (header bits that give
  the sign and the length), each with its reader and its order.
\<close>

section \<open>Logarithms\<close>

lemma xor_sub:
  assumes "z \<le> 63"
  shows "63 XOR int z = 63 - int z" "z \<le> 31 \<Longrightarrow> 31 XOR int z = 31 - int z"
proof -
  have "\<forall>z \<in> set [0..<64]. 63 XOR int z = 63 - int z \<and> (z \<le> 31 \<longrightarrow> 31 XOR int z = 31 - int z)"
    by code_simp
  with assms show "63 XOR int z = 63 - int z" "z \<le> 31 \<Longrightarrow> 31 XOR int z = 31 - int z" by auto
qed

lemma floorlog_word: "floorlog 2 (unat (x :: 'l::len word)) \<le> LENGTH('l)"
  by (simp add: floorlog_le_iff)

lemma floorlog_pos: "x \<noteq> 0 \<Longrightarrow> 0 < floorlog 2 (unat x)"
  by (rule gr0I) (simp add: floorlog_eq_zero_iff unat_eq_0)

lemma Log2Floor64_result: "Log2Floor64 n = Some (int (floorlog 2 (unat n)) - 1)"
proof (cases "n = 0")
  case True
  then show ?thesis by (simp add: Log2Floor64_def floorlog_eq_zero_iff)
next
  case False
  from False have "0 < floorlog 2 (unat n)" by (rule floorlog_pos)
  moreover obtain z where z: "64 = floorlog 2 (unat n) + z"
    using le_Suc_ex [OF floorlog_word [of n]] by auto
  ultimately have z2: "64 - int (floorlog 2 (unat n)) = int z" "z \<le> 63"
    "63 - int z = int (floorlog 2 (unat n)) - 1"
    by linarith+
  have "63 XOR (64 - int (floorlog 2 (unat n))) = int (floorlog 2 (unat n)) - 1"
    unfolding z2(1) using xor_sub(1) [OF z2(2)] z2 by simp
  with False show ?thesis
    by (simp add: Log2Floor64_def builtin_clzll_def)
qed

lemma Log2FloorNonZero64_result:
  "n \<noteq> 0 \<Longrightarrow> Log2FloorNonZero64 n = Some (int (floorlog 2 (unat n)) - 1)"
  using Log2Floor64_result [of n] by (simp add: Log2FloorNonZero64_def Log2Floor64_def)

lemma Log2FloorNonZero_result:
  assumes "n \<noteq> 0"
  shows "Log2FloorNonZero n = Some (int (floorlog 2 (unat n)) - 1)"
proof -
  have "0 < floorlog 2 (unat n)"
    using assms by (rule floorlog_pos)
  moreover obtain z where z: "32 = floorlog 2 (unat n) + z"
    using le_Suc_ex [OF floorlog_word [of n]] by auto
  ultimately have z2: "32 - int (floorlog 2 (unat n)) = int z" "z \<le> 31"
    "31 - int z = int (floorlog 2 (unat n)) - 1"
    by linarith+
  have "31 XOR (32 - int (floorlog 2 (unat n))) = int (floorlog 2 (unat n)) - 1"
    unfolding z2(1) using xor_sub(2) [OF _ z2(2)] z2 by simp
  with assms show ?thesis
    by (simp add: Log2FloorNonZero_def builtin_clz_def)
qed

section \<open>Network byte order\<close>

lemma length_be [simp]: "length (be n v) = n"
  by (induction n) simp_all

lemma be_add: "be (m + n) v = be m (v div 256 ^ n) @ be n v"
  by (induction m) (simp_all add: power_add mult.commute flip: div_mult2_eq)

lemma unat_u8: "unat (of_nat n :: u8) = n mod 256"
  by (simp add: unat_of_nat)

lemma lex_pair:
  "(m :: nat) < k \<Longrightarrow> m' < k \<Longrightarrow> k * q + m < k * q' + m' \<longleftrightarrow> q < q' \<or> q = q' \<and> m < m'"
proof -
  have less: "k * a + x < k * b + y" if "a < b" "x < k" for a b x y :: nat
  proof -
    have "k * a + x < k * Suc a" using that by simp
    also have "\<dots> \<le> k * b" using that by (intro mult_le_mono2) simp
    finally show ?thesis by simp
  qed
  assume "m < k" "m' < k"
  then show ?thesis using less [of q q' m m'] less [of q' q m' m] by (cases q q' rule: linorder_cases) auto
qed

lemma eq_pair:
  "(m :: nat) < k \<Longrightarrow> m' < k \<Longrightarrow> k * q + m = k * q' + m' \<longleftrightarrow> q = q' \<and> m = m'"
  using lex_pair [of m k m' q q'] lex_pair [of m' k m q' q] by auto

lemma be_less_mod:
  "be n a @ r < be n b @ r' \<longleftrightarrow>
   a mod 256 ^ n < b mod 256 ^ n \<or> a mod 256 ^ n = b mod 256 ^ n \<and> r < r'"
proof (induction n)
  case (Suc n)
  let ?q = "\<lambda>v. v div 256 ^ n mod 256" and ?m = "\<lambda>v. v mod 256 ^ n"
  have split: "v mod 256 ^ Suc n = 256 ^ n * ?q v + ?m v" for v :: nat
    using mod_mult2_eq [of v "256 ^ n" 256] by (simp add: mult.commute)
  have less: "256 ^ n * ?q a + ?m a < 256 ^ n * ?q b + ?m b \<longleftrightarrow> ?q a < ?q b \<or> ?q a = ?q b \<and> ?m a < ?m b"
    by (rule lex_pair) simp_all
  have eq: "256 ^ n * ?q a + ?m a = 256 ^ n * ?q b + ?m b \<longleftrightarrow> ?q a = ?q b \<and> ?m a = ?m b"
    by (rule eq_pair) simp_all
  have "(of_nat (a div 256 ^ n) :: u8) < of_nat (b div 256 ^ n) \<longleftrightarrow> ?q a < ?q b"
    "(of_nat (a div 256 ^ n) :: u8) = of_nat (b div 256 ^ n) \<longleftrightarrow> ?q a = ?q b"
    by (simp_all add: word_less_nat_alt word_unat_eq_iff unat_u8)
  then show ?case
    using Suc.IH less eq by (simp only: be.simps split append_Cons Cons_less_Cons) blast
qed simp

lemma be_less:
  "a < 256 ^ n \<Longrightarrow> b < 256 ^ n \<Longrightarrow> be n a @ r < be n b @ r' \<longleftrightarrow> a < b \<or> a = b \<and> r < r'"
  by (simp add: be_less_mod)

text \<open>Numbers of different length compare by their leading bytes.\<close>

lemma be_less_prefix:
  assumes "a < 256 ^ n" "b < 256 ^ (n + d)" "(a + 1) * 256 ^ d \<le> b"
  shows "be n a @ r < be (n + d) b @ r'" "\<not> be (n + d) b @ r' < be n a @ r"
proof -
  have "a < b div 256 ^ d"
    using assms(3) by (metis Suc_eq_plus1 Suc_le_eq less_eq_div_iff_mult_less_eq zero_less_numeral zero_less_power)
  moreover have "b div 256 ^ d < 256 ^ n"
    using assms(2) by (simp add: power_add less_mult_imp_div_less)
  ultimately show "be n a @ r < be (n + d) b @ r'" "\<not> be (n + d) b @ r' < be n a @ r"
    using assms(1) by (simp_all add: be_add be_less append_assoc)
qed

lemma be_greater_prefix:
  assumes "a < 256 ^ n" "b < 256 ^ (n + d)" "b < a * 256 ^ d"
  shows "be (n + d) b @ r' < be n a @ r" "\<not> be n a @ r < be (n + d) b @ r'"
proof -
  have "b div 256 ^ d < a" using assms(3) by (simp add: less_mult_imp_div_less)
  moreover have "b div 256 ^ d < 256 ^ n"
    using assms(2) by (simp add: power_add less_mult_imp_div_less)
  ultimately show "be (n + d) b @ r' < be n a @ r" "\<not> be n a @ r < be (n + d) b @ r'"
    using assms(1) by (simp_all add: be_add be_less append_assoc)
qed

lemma be_nat_be: "be_nat (be n v) = v mod 256 ^ n"
proof (induction n)
  case (Suc n)
  then show ?case
    using mod_mult2_eq [of v "256 ^ n" 256] by (simp add: unat_u8 mult.commute)
qed simp

lemma num_loop_step: "push_bit 8 (t :: u64) OR ucast (b :: u8) = 256 * t + ucast b"
proof -
  have "push_bit 8 t + ucast b = push_bit 8 t OR ucast b"
    by (rule disjunctive_add) (auto simp: bit_push_bit_iff bit_ucast_iff dest: bit_imp_le_length)
  then show ?thesis by (simp add: push_bit_eq_mult mult.commute)
qed

lemma num_loop_eq: "num_loop t bs = 256 ^ length bs * t + of_nat (be_nat bs)"
  by (induction bs arbitrary: t) (simp_all add: num_loop_step algebra_simps)

section \<open>Unsigned numbers\<close>

definition num_len :: "nat \<Rightarrow> nat" where
  "num_len v = (floorlog 2 v + 7) div 8"

lemma num_len_le: "num_len v \<le> k \<longleftrightarrow> v < 256 ^ k"
proof -
  have "num_len v \<le> k \<longleftrightarrow> floorlog 2 v \<le> 8 * k" by (auto simp: num_len_def)
  also have "\<dots> \<longleftrightarrow> v < 256 ^ k" by (simp add: floorlog_le_iff power_mult)
  finally show ?thesis .
qed

lemma num_len_64: "num_len (unat (v :: u64)) \<le> 8"
  using u64_less [of v] by (simp add: num_len_le)

lemma num_len_less: "v < 256 ^ num_len v"
  by (simp add: num_len_le [symmetric])

definition num_code :: "u64 \<Rightarrow> bytes" where
  "num_code v = of_nat (num_len (unat v)) # be (num_len (unat v)) (unat v)"

lemma OrderedNumLength_result: "OrderedNumLength v = Some (of_nat (num_len (unat v)))"
proof -
  let ?n = "floorlog 2 (unat v) + 7"
  have "?n < 2 ^ 32" using floorlog_word [of v] by simp
  then have "(of_nat ?n :: u32) div 8 = of_nat (?n div 8)"
    by (simp add: word_unat_eq_iff unat_div_distrib unat_of_nat32 del: of_nat_add)
  moreover have "int (floorlog 2 (unat v)) - 1 + 1 + 7 = int ?n" by simp
  ultimately show ?thesis
    by (simp only: OrderedNumLength_def Log2Floor64_result Option.bind.simps of_int_of_nat_eq num_len_def)
qed

lemma list_snoc: "length xs = Suc n \<Longrightarrow> \<exists>ys y. xs = ys @ [y] \<and> length ys = n"
  by (metis length_Suc_conv_rev)

lemma bit7_u8: "bit (b :: u8) 7 \<longleftrightarrow> 128 \<le> b"
proof -
  have "uint b < 256" using unsigned_less [of b, where 'a = int] by simp
  then have "uint b div 128 = (if 128 \<le> uint b then 1 else 0)" by auto
  then have "bit (uint b) 7 \<longleftrightarrow> 128 \<le> uint b" by (simp add: bit_iff_odd)
  then show ?thesis by (simp add: word_le_def bit_unsigned_iff)
qed

lemma small_len:
  assumes "L \<le> 8"
  shows "unat (of_nat L :: u32) = L \<and> unat (of_nat L + 1 :: u32) = L + 1 \<and>
    (ucast (of_nat L :: u32) :: u8) = of_nat L \<and> unat (8 - of_nat L :: u32) = 8 - L \<and>
    scast (of_nat L :: u8) = (of_nat L :: u64)"
proof -
  have "\<forall>L \<in> set [0..<9]. unat (of_nat L :: u32) = L \<and> unat (of_nat L + 1 :: u32) = L + 1 \<and>
    (ucast (of_nat L :: u32) :: u8) = of_nat L \<and> unat (8 - of_nat L :: u32) = 8 - L \<and>
    scast (of_nat L :: u8) = (of_nat L :: u64)"
    by code_simp
  with assms show ?thesis by simp
qed

lemma store_junk:
  "length bs = 8 \<Longrightarrow> store_bytes (map junk [0..<17]) (Suc 0) bs = junk 0 # bs @ drop 9 (map junk [0..<17])"
  by (simp add: store_bytes_def take_map)

lemma WriteNumIncreasing_code: "WriteNumIncreasing junk dest v = Some (dest @ num_code v)"
proof -
  let ?L = "num_len (unat v)"
  have L: "?L \<le> 8" by (rule num_len_64)
  define tail where "tail = drop 9 (map junk [0..<17])"
  obtain Q y where Q: "junk 0 # be (8 - ?L) (unat v div 256 ^ ?L) = Q @ [y]" "length Q = 8 - ?L"
    using list_snoc [of "junk 0 # be (8 - ?L) (unat v div 256 ^ ?L)" "8 - ?L"] by auto
  have split: "be 8 (unat v) = be (8 - ?L) (unat v div 256 ^ ?L) @ be ?L (unat v)"
    using be_add [of "8 - ?L" ?L "unat v"] L by simp
  have buf: "store_bytes (map junk [0..<17]) 1 (be 8 (unat v)) = Q @ y # be ?L (unat v) @ tail"
    using Q(1) unfolding One_nat_def store_junk [OF length_be]
    by (simp add: split tail_def flip: append_Cons)
  have tail: "length tail = 8" by (simp add: tail_def)
  have small: "unat (of_nat ?L :: u32) = ?L" "unat (of_nat ?L + 1 :: u32) = ?L + 1"
    "(ucast (of_nat ?L :: u32) :: u8) = of_nat ?L" "unat (8 - of_nat ?L :: u32) = 8 - ?L"
    using small_len [OF L] by simp_all
  have start: "9 - int ?L - 1 = int (length Q)" using L Q(2) by simp
  have read: "array_at (Q @ y # be ?L (unat v) @ tail) (int (length Q)) = Some y"
    by (simp add: array_at_def nth_append)
  have copy: "bytes_at (Q @ of_nat ?L # be ?L (unat v) @ tail) (int (length Q)) 9 =
      Some (of_nat ?L # be ?L (unat v) @ take (8 - ?L) tail)"
    using L tail by (simp add: bytes_at_def)
  show ?thesis
    unfolding WriteNumIncreasing_def Let_def buf OrderedNumLength_result Option.bind.simps
      small start read nat_int list_update_append append_eq_conv_conj
    using L tail
    by (simp add: AppendUpto9_def AppendBytes_def copy num_code_def small(4) Let_def)
qed

lemma be_nat_less: "be_nat bs < 256 ^ length bs"
proof (induction bs)
  case (Cons b bs)
  have "unat b * 256 ^ length bs + be_nat bs < Suc (unat b) * 256 ^ length bs" using Cons by simp
  also have "\<dots> \<le> 256 * 256 ^ length bs" using u8_less_256 [of b] by (intro mult_le_mono1) simp
  finally show ?case by simp
qed simp

lemma be_mod: "be n (v mod 256 ^ n) = be n v"
  using be_less_mod [of n "v mod 256 ^ n" "[]" v "[]"] be_less_mod [of n v "[]" "v mod 256 ^ n" "[]"]
  by (auto simp: not_less_iff_gr_or_eq intro: order.antisym)

lemma be_be_nat: "be (length bs) (be_nat bs) = bs"
proof (induction bs)
  case (Cons b bs)
  have "be (length bs) (unat b * 256 ^ length bs + be_nat bs) = be (length bs) (be_nat bs)"
    using be_mod [of "length bs" "unat b * 256 ^ length bs + be_nat bs"] be_nat_less [of bs] by simp
  with Cons.IH show ?case using be_nat_less [of bs] by simp
qed simp

lemma num_code_less: "num_code v @ r < num_code w @ r' \<longleftrightarrow> v < w \<or> v = w \<and> r < r'"
proof -
  let ?L = "\<lambda>v. num_len (unat v)"
  have len: "(of_nat (?L v) :: u8) < of_nat (?L w) \<longleftrightarrow> ?L v < ?L w"
    "(of_nat (?L v) :: u8) = of_nat (?L w) \<longleftrightarrow> ?L v = ?L w"
    using num_len_64 [of v] num_len_64 [of w]
    by (simp_all add: word_less_nat_alt word_unat_eq_iff unat_u8)
  have mono: "?L a \<le> ?L b" if "unat a \<le> unat b" for a b :: u64
    using num_len_less [of "unat b"] that by (simp add: num_len_le)
  have vw: "v < w \<longleftrightarrow> unat v < unat w" by (rule word_less_nat_alt)
  show ?thesis
  proof (cases "?L v = ?L w")
    case True
    then show ?thesis
      using be_less [of "unat v" "?L v" "unat w" r r'] num_len_less [of "unat v"] num_len_less [of "unat w"]
      by (simp add: num_code_def word_less_nat_alt word_unat_eq_iff [of v])
  next
    case False
    then show ?thesis
      using mono [of v w] mono [of w v] vw by (auto simp: num_code_def len)
  qed
qed

section \<open>Reading unsigned numbers\<close>

lemma hd_num_code:
  assumes "num_len n = Suc k"
  shows "(of_nat (n div 256 ^ k) :: u8) \<noteq> 0"
proof -
  have "256 ^ k \<le> n" using num_len_le [of n k] assms by simp
  moreover have "n < 256 ^ Suc k" using num_len_less [of n] assms by simp
  ultimately have "0 < n div 256 ^ k" "n div 256 ^ k < 256"
    by (simp_all add: div_greater_zero_iff less_mult_imp_div_less)
  then show ?thesis by (simp add: word_unat_eq_iff unat_u8)
qed

lemma scast_len: "L \<le> 8 \<Longrightarrow> scast (of_nat L :: u8) = (of_nat L :: u64)"
  by (simp add: small_len)

lemma ReadNumIncreasing_code:
  assumes "int (length r) < 2 ^ 63"
  shows "ReadNumIncreasing (num_code v @ r) result = Some (True, r, map_option (\<lambda>_. v) result)"
proof -
  let ?L = "num_len (unat v)"
  have L: "?L \<le> 8" by (rule num_len_64)
  let ?src = "of_nat ?L # be ?L (unat v) @ r"
  have len: "array_at ?src 0 = Some (of_nat ?L)" by (simp add: array_at_def)
  have first: "?L = 0 \<or> (\<exists>b. array_at ?src 1 = Some b \<and> b \<noteq> 0)"
    using hd_num_code [of "unat v"] by (cases ?L) (auto simp: array_at_def)
  have u: "unat (of_nat ?L :: u64) = ?L" using L by simp
  have small: "(of_nat ?L :: u64) = 0 \<longleftrightarrow> ?L = 0" "unat (of_nat ?L + 1 :: u64) = ?L + 1"
    "\<not> 8 < (of_nat ?L :: u64)"
    using L u by (simp_all add: unat_eq_0 [symmetric] unat_word_ariths word_less_nat_alt)
  have enough: "\<not> (of_nat (length ?src) :: u64) < of_nat ?L + 1"
  proof -
    have "unat (of_nat (length ?src) :: u64) = length ?src"
      by (rule unat_of_nat64) (use assms L in simp)
    then show ?thesis unfolding word_less_nat_alt small(2) by simp
  qed
  have payload: "bytes_at ?src 1 (int ?L) = Some (be ?L (unat v))"
    by (simp add: bytes_at_def)
  have "num_loop 0 (be ?L (unat v)) = v"
    using num_len_less [of "unat v"] by (simp add: num_loop_eq be_nat_be)
  then show ?thesis
    using first small u enough payload
    by (auto simp: ReadNumIncreasing_def num_code_def len scast_len [OF L] Let_def simp del: of_nat_add of_nat_Suc)
qed

lemma len_byte: "scast (b :: u8) \<le> (8 :: u64) \<Longrightarrow> \<exists>L \<le> 8. b = of_nat L"
proof -
  assume b: "scast b \<le> (8 :: u64)"
  have "\<not> bit (scast b :: u64) 63"
  proof -
    have "uint (scast b :: u64) \<le> 8" "0 \<le> uint (scast b :: u64)" using b by (simp_all add: word_le_def)
    then have "uint (scast b :: u64) div 2 ^ 63 = 0" by simp
    then have "\<not> bit (uint (scast b :: u64)) 63" unfolding bit_iff_odd by simp
    then show ?thesis by (simp add: bit_unsigned_iff)
  qed
  then have "\<not> bit b 7" by (simp add: bit_simps)
  then have "scast b = (ucast b :: u64)"
    by (intro bit_word_eqI)
      (auto simp: bit_simps min_def le_less dest: bit_imp_le_length split: if_splits)
  with b have "unat b \<le> 8" by (simp add: word_le_nat_alt)
  then show ?thesis by (intro exI [of _ "unat b"]) simp
qed

lemma scast_zero: "scast (b :: u8) = (0 :: u64) \<longleftrightarrow> b = 0"
proof
  assume zero: "scast b = (0 :: u64)"
  then obtain L where L: "L \<le> 8" "b = of_nat L" using len_byte [of b] by auto
  then have "(of_nat L :: u64) = 0" using zero by (simp add: scast_len)
  moreover have "unat (of_nat L :: u64) = L" using L(1) by simp
  ultimately show "b = 0" using L(2) by simp
qed simp

lemma num_code_of_nat:
  assumes "length bs = L" "L \<le> 8" "L = 0 \<or> hd bs \<noteq> 0"
  shows "of_nat L # bs = num_code (of_nat (be_nat bs))"
proof -
  have "be_nat bs < 256 ^ L" using be_nat_less [of bs] assms(1) by simp
  also have "(256 :: nat) ^ L \<le> 256 ^ 8" using assms(2) by (intro power_increasing) simp_all
  finally have v: "unat (of_nat (be_nat bs) :: u64) = be_nat bs" by simp
  have "num_len (be_nat bs) = L"
  proof (cases bs)
    case Nil
    then show ?thesis using assms(1) num_len_le [of 0 0] by simp
  next
    case (Cons c cs)
    then have L: "L = Suc (length cs)" "0 < unat c" using assms by (simp_all add: unat_gt_0)
    have "256 ^ length cs \<le> unat c * 256 ^ length cs" using L(2) by simp
    then have "\<not> num_len (be_nat bs) \<le> length cs" unfolding num_len_le Cons be_nat.simps by linarith
    moreover have "num_len (be_nat bs) \<le> L" using be_nat_less [of bs] assms(1) by (simp add: num_len_le)
    ultimately show ?thesis using L(1) by simp
  qed
  then show ?thesis using be_be_nat [of bs] assms(1) by (simp add: num_code_def v)
qed

text \<open>The three outcomes of the reader.\<close>

definition num_outcome :: "bytes \<Rightarrow> u64 ptr \<Rightarrow> (bool \<times> bytes \<times> u64 ptr) option \<Rightarrow> bool" where
  "num_outcome src result out \<longleftrightarrow>
     (case out of
        None \<Rightarrow> 2 \<le> length src \<and> src ! 0 \<noteq> 0 \<and> src ! 1 = 0
      | Some (True, rest, res) \<Rightarrow> \<exists>v. src = num_code v @ rest \<and> res = map_option (\<lambda>_. v) result
      | Some (False, rest, res) \<Rightarrow> rest = src \<and> res = result)"

lemma ReadNumIncreasing_outcome:
  assumes "length src < 2 ^ 63"
  shows "num_outcome src result (ReadNumIncreasing src result)"
proof (cases src)
  case Nil
  then show ?thesis by (simp add: ReadNumIncreasing_def num_outcome_def)
next
  case (Cons b w)
  then have b: "array_at src 0 = Some b" by (simp add: array_at_def)
  have zero: "(scast b :: u64) = 0 \<longleftrightarrow> b = 0"
    by (rule scast_zero)
  have first: "w \<noteq> [] \<Longrightarrow> array_at src 1 = Some (hd w)" "length src = 1 \<longleftrightarrow> w = []"
    "w \<noteq> [] \<Longrightarrow> src ! 1 = hd w"
    using Cons by (cases w; simp add: array_at_def)+
  have "src \<noteq> []" using Cons by simp
  define short where "short \<longleftrightarrow> of_nat (length src) < (scast b + 1 :: u64) \<or> (8 :: u64) < scast b"
  define rest where "rest = (if short then Some (False, src, result) else do {
    payload \<leftarrow> bytes_at src 1 (int (unat (scast b :: u64)));
    Some (True, drop (unat (scast b + 1 :: u64)) src, map_option (\<lambda>_. num_loop 0 payload) result) })"
  have out: "ReadNumIncreasing src result = (if b \<noteq> 0 \<and> w \<noteq> [] \<and> hd w = 0 then None else rest)"
    using \<open>src \<noteq> []\<close> first(1,2)
    by (cases "b = 0"; cases "w = []")
      (simp_all add: ReadNumIncreasing_def b Let_def zero HARD_ASSERT_def rest_def short_def)
  show ?thesis
  proof (cases "short \<or> b \<noteq> 0 \<and> w \<noteq> [] \<and> hd w = 0")
    case True
    then show ?thesis
      unfolding out rest_def num_outcome_def using Cons by (cases w) auto
  next
    case False
    then have "scast b \<le> (8 :: u64)" by (auto simp: short_def not_less)
    then obtain L where L: "L \<le> 8" "b = of_nat L" using len_byte [of b] by blast
    then have len: "(scast b :: u64) = of_nat L" by (simp add: scast_len)
    have u: "unat (of_nat L :: u64) = L" "unat (of_nat L + 1 :: u64) = Suc L"
      using L(1) by (simp_all add: unat_word_ariths)
    have "unat (of_nat (length src) :: u64) = length src" using assms by (intro unat_of_nat64) simp
    then have enough: "L \<le> length w"
      using False Cons u(2) by (simp add: short_def len word_less_nat_alt del: of_nat_Suc)
    define bs where "bs = take L w"
    have w: "w = bs @ drop L w" "length bs = L" using enough by (simp_all add: bs_def)
    have "hd bs = hd w" "b \<noteq> 0" "w \<noteq> []" if "L \<noteq> 0"
      using that L enough by (auto simp: bs_def word_unat_eq_iff unat_u8)
    with False have "L = 0 \<or> hd bs \<noteq> 0" by auto
    note code = num_code_of_nat [OF w(2) L(1) this]
    have payload: "bytes_at src 1 (int L) = Some bs" using enough by (simp add: bytes_at_def Cons bs_def)
    have "drop (Suc L) src = drop L w" by (simp add: Cons)
    with False have "ReadNumIncreasing src result =
        Some (True, drop L w, map_option (\<lambda>_. of_nat (be_nat bs)) result)"
      unfolding out rest_def len u by (auto simp: payload num_loop_eq)
    moreover have "src = num_code (of_nat (be_nat bs)) @ drop L w"
      using w(1) Cons L(2) by (simp flip: code)
    ultimately show ?thesis by (auto simp: num_outcome_def)
  qed
qed
end
