(* ===== verification/OrderedSigned.thy ===== *)
theory OrderedSigned
  imports OrderedNumbers
begin

text \<open>
  The signed encoding of \<open>ordered_code.cc\<close>.  A number of length \<open>L\<close> is the big-endian value of
  its magnitude with \<open>L\<close> leading one bits; a negative number is the complement of the code of its
  complement.
\<close>

section \<open>Specification\<close>

definition signed_mag :: "s64 \<Rightarrow> nat" where
  "signed_mag v = unat (if v <s 0 then NOT v else v)"

definition signed_len :: "nat \<Rightarrow> nat" where
  "signed_len n = floorlog 2 n div 7 + 1"

definition header :: "nat \<Rightarrow> nat" where
  "header L = 256 ^ L - 2 ^ (7 * L)"

definition pos_code :: "nat \<Rightarrow> bytes" where
  "pos_code n = be (signed_len n) (header (signed_len n) + n)"

definition signed_code :: "s64 \<Rightarrow> bytes" where
  "signed_code v = (if v <s 0 then map NOT (pos_code (signed_mag v)) else pos_code (signed_mag v))"

section \<open>Lengths and bits\<close>

lemma signed_len_le: "1 \<le> L \<Longrightarrow> signed_len n \<le> L \<longleftrightarrow> n < 2 ^ (7 * L - 1)"
proof -
  assume "1 \<le> L"
  then have "signed_len n \<le> L \<longleftrightarrow> floorlog 2 n \<le> 7 * L - 1" unfolding signed_len_def by linarith
  then show ?thesis by (simp add: floorlog_le_iff)
qed

lemma signed_len_pos: "1 \<le> signed_len n"
  by (simp add: signed_len_def)

lemma signed_len_less: "n < 2 ^ (7 * signed_len n - 1)"
  using signed_len_le [of "signed_len n" n] signed_len_pos by simp

lemma signed_len_mono: "m \<le> n \<Longrightarrow> signed_len m \<le> signed_len n"
  using signed_len_less [of n] signed_len_le [OF signed_len_pos, of m n] by (meson le_less_trans)

lemma msb_sint: "(v :: s64) <s 0 \<longleftrightarrow> sint v < 0"
  by (simp add: word_sless_alt)

lemma signed_mag_sint: "int (signed_mag v) = (if sint v < 0 then - 1 - sint v else sint v)"
  "signed_mag v < 2 ^ 63"
proof -
  obtain i where i: "(if sint v < 0 then - 1 - sint v else sint v) = i" by blast
  then have bounds: "0 \<le> i" "i < 2 ^ 63"
    using sint_ge [of v] sint_lt [of v] by auto
  have "(if v <s 0 then NOT v else v) = of_int i"
    by (simp add: msb_sint not_eq_complement flip: i)
  also have "\<dots> = of_nat (nat i)" using bounds(1) by (simp add: of_nat_nat)
  finally have x: "(if v <s 0 then NOT v else v) = of_nat (nat i)" .
  have "nat i < 2 ^ 64" "nat i < 2 ^ 63" using bounds by simp_all
  then have "signed_mag v = nat i" unfolding signed_mag_def x by (intro unat_of_nat64)
  then show "int (signed_mag v) = (if sint v < 0 then - 1 - sint v else sint v)" "signed_mag v < 2 ^ 63"
    unfolding i using bounds(1) \<open>nat i < 2 ^ 63\<close> by simp_all
qed

lemma signed_len_10: "signed_len (signed_mag v) \<le> 10"
  using signed_mag_sint(2) [of v] by (simp add: signed_len_le)

lemma add_xor: "(q :: nat) < 2 ^ k \<Longrightarrow> 2 ^ k * h + q = (2 ^ k * h) XOR q"
proof -
  assume "q < 2 ^ k"
  then have q: "q = take_bit k q" by (simp add: take_bit_nat_eq_self)
  have "push_bit k h AND take_bit k q = 0"
    by (rule bit_eqI) (simp add: bit_and_iff bit_push_bit_iff bit_take_bit_iff)
  then have "push_bit k h + take_bit k q = push_bit k h XOR take_bit k q"
    by (rule disjunctive_add_eq_xor)
  then show ?thesis using q by (simp add: push_bit_eq_mult mult.commute)
qed

lemma header_mult: "header L = 2 ^ (7 * L) * (2 ^ L - 1)"
proof -
  have "(256 :: nat) ^ L = 2 ^ (7 * L) * 2 ^ L"
    by (simp add: power_mult flip: power_mult_distrib)
  then show ?thesis by (simp add: header_def right_diff_distrib')
qed

lemma header_add: "n < 2 ^ (7 * L - 1) \<Longrightarrow> 1 \<le> L \<Longrightarrow> header L + n = header L XOR n"
proof -
  assume "n < 2 ^ (7 * L - 1)" "1 \<le> L"
  then have "n < 2 ^ (7 * L)" by (meson diff_le_self le_less_trans one_le_numeral order_less_le_trans power_increasing)
  then show ?thesis unfolding header_mult by (rule add_xor)
qed

lemma be_xor: "be n (x XOR y) = map2 (XOR) (be n x) (be n y)"
proof (induction n)
  case (Suc n)
  have "(x XOR y) div 256 ^ n = (x div 256 ^ n) XOR (y div 256 ^ n)"
    using drop_bit_xor [of "8 * n" x y] by (simp add: drop_bit_eq_div power_mult)
  with Suc show ?case by (simp add: of_nat_xor_eq)
qed simp

lemma of_nat_not: "m < 256 \<Longrightarrow> (of_nat (255 - m) :: u8) = NOT (of_nat m)"
  by (simp add: not_eq_complement of_nat_diff)

lemma complement_split:
  assumes "q < 256" "r < k"
  shows "256 * k - 1 - (q * k + r) = (255 - q) * k + (k - 1 - r :: nat)"
proof -
  obtain p where p: "255 = q + p" using assms(1) le_Suc_ex [of q 255] by auto
  then have "256 * k = q * k + p * k + k"
    by (metis Suc_eq_plus1 add_mult_distrib mult_1 numeral_plus_one semiring_norm(2,8) Suc_numeral)
  moreover have "255 - q = p" using p by simp
  ultimately show ?thesis using assms(2) by simp
qed

lemma be_not: "m < 256 ^ n \<Longrightarrow> be n (256 ^ n - 1 - m) = map NOT (be n m)"
proof (induction n arbitrary: m)
  case (Suc n)
  let ?q = "m div 256 ^ n" and ?r = "m mod 256 ^ n"
  have q: "?q < 256" using Suc.prems by (simp add: less_mult_imp_div_less)
  have r: "?r < 256 ^ n" by simp
  have m: "m = ?q * 256 ^ n + ?r" by (rule div_mult_mod_eq [symmetric])
  have "256 ^ Suc n - 1 - m = (255 - ?q) * 256 ^ n + (256 ^ n - 1 - ?r)"
    using complement_split [OF q r] by (simp flip: m)
  moreover have "256 ^ n - 1 - ?r < 256 ^ n" by simp
  ultimately have "(256 ^ Suc n - 1 - m) div 256 ^ n = 255 - ?q"
    "(256 ^ Suc n - 1 - m) mod 256 ^ n = 256 ^ n - 1 - ?r"
    by (simp_all only: div_mult_self3 mod_mult_self3 div_less mod_less)
  then show ?case
    using Suc.IH [OF r] be_mod [of n m] be_mod [of n "256 ^ Suc n - 1 - m"] of_nat_not [OF q] by simp
qed simp

section \<open>Order\<close>

lemma header_le: "2 ^ (7 * L) \<le> (256 :: nat) ^ L"
  by (simp add: power_mult power_mono)

lemma double_exp: "1 \<le> L \<Longrightarrow> (2 :: nat) ^ (7 * L) = 2 * 2 ^ (7 * L - 1)"
  by (simp flip: power_Suc)

lemma header_bounds:
  assumes "n < 2 ^ (7 * L - 1)" "1 \<le> L"
  shows "header L + n < 256 ^ L" "header L + n + 1 \<le> 256 ^ L - 2 ^ (7 * L - 1)"
    "256 ^ L - 1 - (header L + n) < 2 ^ (7 * L)" "2 ^ (7 * L - 1) \<le> 256 ^ L - 1 - (header L + n)"
  using header_le [of L] double_exp [OF assms(2)] assms by (simp_all add: header_def)

lemma longer_exp: "1 \<le> L \<Longrightarrow> 1 \<le> d \<Longrightarrow> (2 :: nat) ^ (7 * (L + d)) \<le> 2 ^ (7 * L - 1) * 256 ^ d"
proof -
  assume "1 \<le> L" "1 \<le> d"
  then have "(2 :: nat) ^ (7 * (L + d)) \<le> 2 ^ (7 * L - 1 + 8 * d)"
    by (intro power_increasing) simp_all
  then show ?thesis by (simp add: power_add power_mult)
qed

lemma pos_code_longer:
  assumes "signed_len m < signed_len n"
  shows "pos_code m @ r < pos_code n @ r'" "\<not> pos_code n @ r' < pos_code m @ r"
    "map NOT (pos_code n) @ r' < map NOT (pos_code m) @ r"
    "\<not> map NOT (pos_code m) @ r < map NOT (pos_code n) @ r'"
proof -
  let ?L = "signed_len m" and ?N = "signed_len n"
  obtain d where d: "?N = ?L + d" "1 \<le> d"
    using less_imp_Suc_add [OF assms] by auto
  note m = header_bounds [OF signed_len_less signed_len_pos, of m]
  note n = header_bounds [OF signed_len_less signed_len_pos, of n]
  note long = longer_exp [OF signed_len_pos d(2), of m]
  have "(header ?L + m + 1) * 256 ^ d \<le> (256 ^ ?L - 2 ^ (7 * ?L - 1)) * 256 ^ d"
    using m(2) by (rule mult_le_mono1)
  also have "\<dots> = 256 ^ (?L + d) - 2 ^ (7 * ?L - 1) * 256 ^ d"
    by (simp add: diff_mult_distrib power_add)
  also have "\<dots> \<le> header (?L + d)"
    using long unfolding header_def by (rule diff_le_mono2)
  finally have "(header ?L + m + 1) * 256 ^ d \<le> header (?L + d) + n" by simp
  with m(1) n(1) show "pos_code m @ r < pos_code n @ r'" "\<not> pos_code n @ r' < pos_code m @ r"
    unfolding pos_code_def d(1) by (rule be_less_prefix)+
  have "256 ^ ?N - 1 - (header ?N + n) < 2 ^ (7 * ?N)" by (rule n(3))
  also have "\<dots> \<le> 2 ^ (7 * ?L - 1) * 256 ^ d" unfolding d(1) by (rule long)
  also have "\<dots> \<le> (256 ^ ?L - 1 - (header ?L + m)) * 256 ^ d" using m(4) by (rule mult_le_mono1)
  finally have less: "256 ^ (?L + d) - 1 - (header (?L + d) + n) < (256 ^ ?L - 1 - (header ?L + m)) * 256 ^ d"
    unfolding d(1) .
  have "256 ^ ?L - 1 - (header ?L + m) < 256 ^ ?L" "256 ^ (?L + d) - 1 - (header (?L + d) + n) < 256 ^ (?L + d)"
    by (simp_all add: less_imp_diff_less)
  note be_greater_prefix [OF this less]
  with m(1) n(1) show "map NOT (pos_code n) @ r' < map NOT (pos_code m) @ r"
    "\<not> map NOT (pos_code m) @ r < map NOT (pos_code n) @ r'"
    unfolding pos_code_def d(1) be_not [OF m(1), symmetric] be_not [OF n(1) [unfolded d(1)], symmetric]
    by simp_all
qed

lemma pos_code_same:
  assumes "signed_len m = signed_len n"
  shows "pos_code m @ r < pos_code n @ r' \<longleftrightarrow> m < n \<or> m = n \<and> r < r'"
    "map NOT (pos_code m) @ r < map NOT (pos_code n) @ r' \<longleftrightarrow> n < m \<or> m = n \<and> r < r'"
proof -
  let ?L = "signed_len n"
  have m: "header ?L + m < 256 ^ ?L"
    using header_bounds(1) [OF signed_len_less signed_len_pos, of m] by (simp add: assms)
  have n: "header ?L + n < 256 ^ ?L"
    by (rule header_bounds(1) [OF signed_len_less signed_len_pos])
  show "pos_code m @ r < pos_code n @ r' \<longleftrightarrow> m < n \<or> m = n \<and> r < r'"
    using be_less [OF m n] by (simp add: pos_code_def assms)
  have "256 ^ ?L - 1 - (header ?L + m) < 256 ^ ?L" "256 ^ ?L - 1 - (header ?L + n) < 256 ^ ?L"
    by (simp_all add: less_imp_diff_less)
  note be_less [OF this, of r r']
  moreover have "256 ^ ?L - 1 - (header ?L + m) < 256 ^ ?L - 1 - (header ?L + n) \<longleftrightarrow> n < m"
    "256 ^ ?L - 1 - (header ?L + m) = 256 ^ ?L - 1 - (header ?L + n) \<longleftrightarrow> m = n"
    using m n by (auto simp del: diff_diff_left)
  ultimately show "map NOT (pos_code m) @ r < map NOT (pos_code n) @ r' \<longleftrightarrow> n < m \<or> m = n \<and> r < r'"
    unfolding pos_code_def assms be_not [OF m, symmetric] be_not [OF n, symmetric] by simp
qed

lemma pos_code_less: "pos_code m @ r < pos_code n @ r' \<longleftrightarrow> m < n \<or> m = n \<and> r < r'"
  and neg_code_less:
    "map NOT (pos_code m) @ r < map NOT (pos_code n) @ r' \<longleftrightarrow> n < m \<or> m = n \<and> r < r'"
proof -
  consider "signed_len m < signed_len n" | "signed_len m = signed_len n" | "signed_len n < signed_len m"
    by linarith
  then have "(pos_code m @ r < pos_code n @ r' \<longleftrightarrow> m < n \<or> m = n \<and> r < r') \<and>
    (map NOT (pos_code m) @ r < map NOT (pos_code n) @ r' \<longleftrightarrow> n < m \<or> m = n \<and> r < r')"
    using signed_len_mono [of n m] signed_len_mono [of m n]
    by cases (auto simp: pos_code_longer pos_code_same)
  then show "pos_code m @ r < pos_code n @ r' \<longleftrightarrow> m < n \<or> m = n \<and> r < r'"
    "map NOT (pos_code m) @ r < map NOT (pos_code n) @ r' \<longleftrightarrow> n < m \<or> m = n \<and> r < r'"
    by blast+
qed

lemma hd_pos_code: "\<exists>b bs. pos_code n = b # bs \<and> 128 \<le> b"
proof -
  obtain k where k: "signed_len n = Suc k" using signed_len_pos [of n] by (cases "signed_len n") auto
  have "header (Suc k) + n < 256 ^ Suc k"
    using header_bounds(1) [OF signed_len_less signed_len_pos, of n] by (simp add: k)
  then have upper: "(header (Suc k) + n) div 256 ^ k < 256"
    by (simp add: less_mult_imp_div_less)
  have "(2 :: nat) ^ (7 * Suc k) = 128 * 128 ^ k" unfolding power_mult by simp
  moreover have "(128 :: nat) ^ k \<le> 256 ^ k" by (rule power_mono) simp_all
  ultimately have "128 * 256 ^ k \<le> header (Suc k) + n" by (simp add: header_def)
  then have "128 \<le> (header (Suc k) + n) div 256 ^ k" by (simp add: less_eq_div_iff_mult_less_eq)
  with upper show ?thesis
    by (simp add: pos_code_def k word_le_nat_alt unat_u8)
qed

lemma signed_code_less:
  "signed_code v @ r < signed_code w @ r' \<longleftrightarrow> sint v < sint w \<or> v = w \<and> r < r'"
proof -
  obtain a as where a: "pos_code (signed_mag v) = a # as" "128 \<le> a" using hd_pos_code by blast
  obtain b bs where b: "pos_code (signed_mag w) = b # bs" "128 \<le> b" using hd_pos_code by blast
  have low: "NOT c < 128" if "128 \<le> c" for c :: u8
  proof -
    have "\<forall>n \<in> set [128..<256]. NOT (of_nat n :: u8) < 128" by code_simp
    moreover have "unat c \<in> set [128..<256]"
      unfolding set_upt using that u8_less_256 [of c] by (simp add: word_le_nat_alt)
    ultimately have "NOT (of_nat (unat c) :: u8) < 128" by (rule bspec)
    then show ?thesis by simp
  qed
  have eq: "sint v = sint w \<longleftrightarrow> v = w" by (metis of_int_sint scast_id)
  show ?thesis
  proof (cases "sint v < 0"; cases "sint w < 0")
    assume "sint v < 0" "sint w < 0"
    then show ?thesis
      using signed_mag_sint(1) [of v] signed_mag_sint(1) [of w] eq
      by (auto simp: signed_code_def msb_sint neg_code_less)
  next
    assume "sint v < 0" "\<not> sint w < 0"
    then show ?thesis
      using low [OF a(2)] b by (auto simp: signed_code_def msb_sint a(1))
  next
    assume "\<not> sint v < 0" "sint w < 0"
    then show ?thesis
      using low [OF b(2)] a by (auto simp: signed_code_def msb_sint b(1))
  next
    assume "\<not> sint v < 0" "\<not> sint w < 0"
    then show ?thesis
      using signed_mag_sint(1) [of v] signed_mag_sint(1) [of w] eq
      by (auto simp: signed_code_def msb_sint pos_code_less)
  qed
qed

section \<open>Writing\<close>

lemma bits_to_length: "k < 64 \<Longrightarrow> array_at kBitsToLength (int k) = Some (int (k div 7 + 1))"
proof -
  have "\<forall>k \<in> set [0..<64]. array_at kBitsToLength (int k) = Some (int (k div 7 + 1))" by code_simp
  moreover assume "k < 64"
  ultimately show ?thesis by simp
qed

lemma floorlog_mag: "n < 2 ^ 63 \<Longrightarrow> floorlog 2 n < 64"
  using floorlog_le_iff [of 2 n 63] by simp

lemma SignedEncodingLengthPositive_result:
  assumes "x \<noteq> 0" "unat x < 2 ^ 63"
  shows "SignedEncodingLengthPositive x = Some (int (signed_len (unat x)))"
  using bits_to_length [OF floorlog_mag [OF assms(2)]] assms(1)
  by (simp add: SignedEncodingLengthPositive_def Log2FloorNonZero64_result signed_len_def)

lemma SignedEncodingLength_result:
  "SignedEncodingLength v = Some (int (signed_len (signed_mag v)))"
  using bits_to_length [OF floorlog_mag [OF signed_mag_sint(2)]]
  by (simp add: SignedEncodingLength_def Log2Floor64_result signed_len_def signed_mag_def)

lemma be_numeral: "be (numeral k) v = of_nat (v div 256 ^ pred_numeral k) # be (pred_numeral k) v"
  by (simp add: numeral_eq_Suc)

lemma header_bits:
  assumes "2 \<le> L" "L \<le> 10"
  shows "array_at kLengthToHeaderBits (int L) =
    Some (of_nat ((65536 - 2 ^ (16 - L)) div 256), of_nat (65536 - 2 ^ (16 - L)))"
proof -
  have "L \<in> {2, 3, 4, 5, 6, 7, 8, 9, 10}" using assms by auto
  then show ?thesis by (elim insertE emptyE) (simp_all add: array_at_def kLengthToHeaderBits_def)
qed

lemma be_zero: "be k 0 = replicate k 0"
  by (induction k) simp_all

lemma header_bytes:
  assumes "2 \<le> L" "L \<le> 10"
  obtains h0 h1 where "array_at kLengthToHeaderBits (int L) = Some (h0, h1)"
    "be L (header L) = h0 # h1 # replicate (L - 2) 0"
proof -
  obtain k where L: "L = 2 + k" using le_Suc_ex [OF assms(1)] by blast
  let ?H = "65536 - 2 ^ (16 - L) :: nat"
  have "7 * L = 8 * k + (16 - L)" using assms L by simp
  then have low: "(2 :: nat) ^ (7 * L) = 2 ^ (16 - L) * 256 ^ k"
    by (simp only: power_add power_mult) simp
  have high: "(256 :: nat) ^ L = 65536 * 256 ^ k" by (simp add: L power_add)
  have "header L = ?H * 256 ^ k"
    unfolding header_def low high by (simp add: diff_mult_distrib)
  then have "be L (header L) = be 2 ?H @ replicate k 0"
    using be_add [of 2 k "header L"] be_mod [of k "header L"] by (simp add: L be_zero)
  then show ?thesis using header_bits [OF assms] that by (simp add: L be_numeral)
qed

lemma xor_zeros: "length cs = k \<Longrightarrow> map2 (XOR) (replicate k (0 :: u8)) cs = cs"
  by (induction cs arbitrary: k) auto

lemma pos_code_header:
  assumes "be (signed_len n) n = c0 # c1 # cs"
    "be (signed_len n) (header (signed_len n)) = h0 # h1 # replicate (signed_len n - 2) 0"
  shows "pos_code n = (c0 XOR h0) # (c1 XOR h1) # cs"
proof -
  have len: "length cs = signed_len n - 2" using arg_cong [OF assms(1), of length] by simp
  have "pos_code n = map2 (XOR) (be (signed_len n) (header (signed_len n))) (be (signed_len n) n)"
    by (simp only: pos_code_def header_add [OF signed_len_less signed_len_pos] be_xor)
  then show ?thesis by (simp add: assms xor_zeros [OF len] xor.commute)
qed

text \<open>The sign-extended buffer, and the part of it that is written.\<close>

definition comp :: "s64 \<Rightarrow> u8 \<Rightarrow> u8" where
  "comp v = (if v <s 0 then NOT else (\<lambda>b. b))"

lemma comp_xor: "comp v (a XOR h) = comp v a XOR h"
  by (simp add: comp_def bit.xor_compl_left)

lemma signed_code_comp: "signed_code v = map (comp v) (pos_code (signed_mag v))"
  by (simp add: signed_code_def comp_def)

lemma mag_word: "v = (if v <s 0 then NOT (of_nat (signed_mag v)) else of_nat (signed_mag v))"
  by (simp add: signed_mag_def)

lemma sign_extended:
  "[if v <s 0 then 255 else 0, if v <s 0 then 255 else 0] @ be 8 (unat v) = map (comp v) (be 10 (signed_mag v))"
proof -
  let ?n = "signed_mag v"
  have n: "?n < 256 ^ 8" using signed_mag_sint(2) [of v] by simp
  have "be 10 ?n = be 2 (?n div 256 ^ 8) @ be 8 ?n" using be_add [of 2 8 ?n] by simp
  then have ten: "be 10 ?n = 0 # 0 # be 8 ?n" using n by (simp add: be_numeral)
  show ?thesis
  proof (cases "v <s 0")
    case True
    then have "v = NOT (of_nat ?n)" using mag_word [of v] by argo
    also have "NOT (of_nat ?n) = (of_nat (2 ^ 64 - 1 - ?n) :: u64)"
      using n by (simp add: not_eq_complement of_nat_diff)
    finally have "v = of_nat (2 ^ 64 - 1 - ?n)" .
    then have "unat v = 2 ^ 64 - 1 - ?n" by (metis unat_of_nat64 diff_less diff_le_self diff_diff_left
          le_less_trans less_imp_diff_less zero_less_one zero_less_numeral zero_less_power)
    then have "unat v = 256 ^ 8 - 1 - ?n" by simp
    with True ten be_not [OF n] show ?thesis by (simp only: comp_def) simp
  next
    case False
    then show ?thesis using ten by (simp add: comp_def signed_mag_def)
  qed
qed

lemma ucast_not_8: "(ucast (NOT w :: u64) :: u8) = NOT (ucast w)"
  by (rule bit_word_eqI) (simp add: bit_simps)

lemma short_code:
  assumes "signed_mag v < 64"
  shows "signed_code v = [0x80 XOR ucast v]"
proof -
  let ?n = "signed_mag v"
  have len: "signed_len ?n = 1"
    using signed_len_le [of 1 ?n] signed_len_pos [of ?n] assms by simp
  have "\<forall>n \<in> set [0..<64]. (of_nat (128 + n) :: u8) = 0x80 XOR of_nat n" by code_simp
  then have "(of_nat (128 + ?n) :: u8) = 0x80 XOR of_nat ?n" using assms by simp
  then have pos: "pos_code ?n = [0x80 XOR of_nat ?n]" by (simp add: pos_code_def len header_def)
  show ?thesis
  proof (cases "v <s 0")
    case True
    then have "v = NOT (of_nat ?n)" using mag_word [of v] by argo
    then have "(ucast v :: u8) = NOT (of_nat ?n)" by (metis ucast_not_8 ucast_of_nat_8)
    with True pos show ?thesis by (simp add: signed_code_def bit.xor_compl_right)
  next
    case False
    then have "v = of_nat ?n" using mag_word [of v] by argo
    then have "(ucast v :: u8) = of_nat ?n" by (metis ucast_of_nat_8)
    with False pos show ?thesis by (simp add: signed_code_def)
  qed
qed

text \<open>Patching two bytes of a buffer and copying it from there.\<close>

lemma put_header:
  "array_at (Q @ a # b # cs) (int (length Q)) = Some a"
  "(Q @ a # b # cs)[length Q := x] = Q @ x # b # cs"
  "array_at (Q @ a # b # cs) (1 + int (length Q)) = Some b"
  "(Q @ a # b # cs)[nat (1 + int (length Q)) := x] = Q @ a # x # cs"
  "bytes_at (Q @ a # b # cs) (int (length Q)) (int (length cs) + 2) = Some (a # b # cs)"
  by (simp_all add: array_at_def bytes_at_def nth_append list_update_append nat_add_distrib)

lemma WriteSignedNumIncreasing_code: "WriteSignedNumIncreasing dest v = Some (dest @ signed_code v)"
proof -
  let ?n = "signed_mag v" and ?x = "if v <s 0 then NOT v else v"
  let ?L = "signed_len ?n"
  have x: "unat ?x = ?n" by (simp add: signed_mag_def)
  then have small: "?x <s 64 \<longleftrightarrow> ?n < 64"
    using sint_small [of ?x] signed_mag_sint(2) [of v] by (simp add: word_sless_alt)
  show ?thesis
  proof (cases "?n < 64")
    case True
    then show ?thesis using small by (simp add: WriteSignedNumIncreasing_def Let_def short_code)
  next
    case False
    have L: "2 \<le> ?L" "?L \<le> 10"
      using signed_len_le [of 1 ?n] False signed_len_10 [of v] by auto
    obtain h0 h1 where h: "array_at kLengthToHeaderBits (int ?L) = Some (h0, h1)"
      "be ?L (header ?L) = h0 # h1 # replicate (?L - 2) 0"
      using header_bytes [OF L] .
    obtain k where "?L = Suc (Suc k)" using le_Suc_ex [OF L(1)] by auto
    then obtain c0 c1 cs where c: "be ?L ?n = c0 # c1 # cs" by (simp del: be.simps) (simp add: be.simps)
    have "be 10 ?n = be (10 - ?L) (?n div 256 ^ ?L) @ be ?L ?n"
      using be_add [of "10 - ?L" ?L ?n] L by simp
    then have "[if v <s 0 then 255 else 0, if v <s 0 then 255 else 0] @ be 8 (unat v) =
        map (comp v) (be (10 - ?L) (?n div 256 ^ ?L)) @ comp v c0 # comp v c1 # map (comp v) cs"
      by (simp only: sign_extended c map_append list.map)
    moreover have "signed_code v = (comp v c0 XOR h0) # (comp v c1 XOR h1) # map (comp v) cs"
      using pos_code_header [OF c h(2)] by (simp add: signed_code_comp comp_xor)
    moreover have "length (map (comp v) cs) + 2 = ?L"
      using arg_cong [OF c, of length] L(1) by simp
    ultimately obtain Q d0 d1 ds where
      buf: "[if v <s 0 then 255 else 0, if v <s 0 then 255 else 0] @ be 8 (unat v) = Q @ d0 # d1 # ds"
      and code: "signed_code v = (d0 XOR h0) # (d1 XOR h1) # ds" and ds: "length ds + 2 = ?L"
      by blast
    have nz: "?x \<noteq> 0" using False x by auto
    have "SignedEncodingLengthPositive ?x = Some (int ?L)"
      using SignedEncodingLengthPositive_result [OF nz] x signed_mag_sint(2) [of v] by simp
    then have len: "SignedEncodingLengthPositive ?x = Some (int (length ds) + 2)"
      using ds by simp
    have h2: "array_at kLengthToHeaderBits (int (length ds) + 2) = Some (h0, h1)"
      using h(1) by (simp add: add.commute flip: ds)
    have "\<not> ?x <s 64" using small False by simp
    then show ?thesis
      unfolding WriteSignedNumIncreasing_def Let_def buf len
      by (simp add: h2 put_header AppendBytes_def code)
  qed
qed

section \<open>Reading\<close>

abbreviation "mask_of v \<equiv> (if v <s 0 then - 1 else 0 :: u64)"

lemma ff: "(0xff :: u64) = mask 8" by (simp add: mask_eq_decr_exp)

lemma unmask_zero: "(ucast (scast b XOR 0 AND 0xff :: u64) :: u8) = b"
  by (rule bit_word_eqI) (simp add: bit_simps)

lemma unmask_ones: "(ucast (scast (NOT b) XOR - 1 AND 0xff :: u64) :: u8) = b"
  unfolding ff
  by (rule bit_word_eqI) (auto simp: bit_simps)

lemma unmask: "(ucast (scast (comp v b) XOR mask_of v AND 0xff) :: u8) = b"
  using unmask_zero [of b] unmask_ones [of b] by (simp add: comp_def)

lemma top_bit_byte: "(128 :: u8) \<le> b \<Longrightarrow> b AND 0x80 \<noteq> 0 \<and> NOT b AND 0x80 = 0"
proof -
  assume "128 \<le> b"
  then have "bit b 7" by (simp add: bit7_u8)
  moreover from this have "\<not> bit (NOT b) 7" unfolding bit_not_iff by simp
  ultimately show ?thesis
    using and_exp_eq_0_iff_not_bit [of b 7] and_exp_eq_0_iff_not_bit [of "NOT b" 7] by simp
qed

lemma top_bit: "128 \<le> b \<Longrightarrow> comp v b AND 0x80 = 0 \<longleftrightarrow> v <s 0"
  using top_bit_byte [of b] by (simp add: comp_def)

lemma first_byte_length:
  "1 \<le> L \<Longrightarrow> L \<le> 7 \<Longrightarrow> m < 2 ^ (7 - L) \<Longrightarrow>
   (of_nat (256 - 2 ^ (8 - L) + m) :: u8) \<noteq> 255 \<and>
   Log2FloorNonZero (ucast (of_nat (256 - 2 ^ (8 - L) + m) XOR 255 :: u8)) = Some (7 - int L)"
proof -
  have "\<forall>L \<in> set [1..<8]. \<forall>m \<in> set [0..<2 ^ (7 - L)].
    (of_nat (256 - 2 ^ (8 - L) + m) :: u8) \<noteq> 255 \<and>
    Log2FloorNonZero (ucast (of_nat (256 - 2 ^ (8 - L) + m) XOR 255 :: u8)) = Some (7 - int L)"
    by code_simp
  moreover assume "1 \<le> L" "L \<le> 7" "m < 2 ^ (7 - L)"
  ultimately show ?thesis unfolding set_upt Ball_def by auto
qed

lemma mask_header: "1 \<le> L \<Longrightarrow> L \<le> 10 \<Longrightarrow> array_at kLengthToMask (int L) = Some (of_nat (header L))"
proof -
  assume "1 \<le> L" "L \<le> 10"
  then have "L \<in> {1, 2, 3, 4, 5, 6, 7, 8, 9, 10}" unfolding insert_iff empty_iff by presburger
  then show ?thesis
    by (elim insertE emptyE) (simp_all add: array_at_def kLengthToMask_def header_def)
qed

definition comp64 :: "s64 \<Rightarrow> u64 \<Rightarrow> u64" where
  "comp64 v = (if v <s 0 then NOT else (\<lambda>b. b))"

lemma unmask_value:
  assumes "1 \<le> L" "n < 2 ^ (7 * L - 1)"
  shows "comp64 v (of_nat (header L + n)) XOR of_nat (header L) = comp64 v (of_nat n)"
  using header_add [OF assms(2,1)]
  by (simp add: comp64_def of_nat_xor_eq bit.xor_compl_left xor.commute xor.left_commute)

lemma be_nat_not: "be_nat (map NOT bs) = 256 ^ length bs - 1 - be_nat bs"
proof -
  have "map NOT bs = map NOT (be (length bs) (be_nat bs))" by (simp add: be_be_nat)
  also have "\<dots> = be (length bs) (256 ^ length bs - 1 - be_nat bs)"
    using be_not [OF be_nat_less] by simp
  finally show ?thesis by (simp add: be_nat_be less_imp_diff_less)
qed

lemma be_nat_comp:
  "256 ^ length bs * mask_of v + of_nat (be_nat (map (comp v) bs)) = comp64 v (of_nat (be_nat bs))"
  using be_nat_less [of bs]
  by (simp add: comp_def comp64_def be_nat_not not_eq_complement of_nat_diff)

text \<open>The value of the code of \<open>n\<close> as the first bytes show it.\<close>

lemma nth_be: "i < n \<Longrightarrow> be n v ! i = of_nat (v div 256 ^ (n - 1 - i))"
proof (induction n arbitrary: i)
  case (Suc n)
  then show ?case by (cases i) (simp_all add: diff_diff_left)
qed simp

lemma header_split: "k \<le> L \<Longrightarrow> 8 * k \<le> 7 * L \<Longrightarrow>
    (header L + n) div 256 ^ k = 256 ^ (L - k) - 2 ^ (7 * L - 8 * k) + n div 256 ^ k"
proof -
  assume k: "k \<le> L" "8 * k \<le> 7 * L"
  then have "(256 :: nat) ^ L = 256 ^ (L - k) * 256 ^ k" by (simp flip: power_add)
  moreover have "(256 :: nat) ^ k = 2 ^ (8 * k)" by (simp add: power_mult)
  then have "(2 :: nat) ^ (7 * L) = 2 ^ (7 * L - 8 * k) * 256 ^ k" using k by (simp flip: power_add)
  ultimately have "header L = (256 ^ (L - k) - 2 ^ (7 * L - 8 * k)) * 256 ^ k"
    unfolding header_def by (simp only: diff_mult_distrib)
  then show ?thesis by simp
qed

lemma pow256: "(256 :: nat) ^ k = 2 ^ (8 * k)"
  by (simp add: power_mult)

lemma signed_length_short:
  assumes "signed_len n \<le> 7" "signed_len n \<le> length src"
    "bytes_at src 0 (int (signed_len n)) = Some (map (comp v) (pos_code n))"
  shows "signed_length src (mask_of v) (hd (pos_code n)) =
    Some (Some (int (signed_len n), comp64 v (of_nat (header (signed_len n) + n))))"
proof -
  let ?L = "signed_len n"
  obtain k where k: "?L = Suc k" using signed_len_pos [of n] by (cases ?L) auto
  have "n < 2 ^ (7 * Suc k - 1)" using signed_len_less [of n] by (simp only: k)
  also have "7 * Suc k - 1 = 8 * k + (7 - ?L)" using assms(1) k by simp
  finally have "n < 2 ^ (7 - ?L) * 256 ^ k" unfolding pow256 by (simp add: power_add mult.commute)
  then have m: "n div 256 ^ k < 2 ^ (7 - ?L)" by (rule less_mult_imp_div_less)
  have "7 * ?L - 8 * k = 8 - ?L" "?L - k = 1" "8 * k \<le> 7 * ?L" using assms(1) k by simp_all
  then have "(header ?L + n) div 256 ^ k = 256 - 2 ^ (8 - ?L) + n div 256 ^ k"
    using header_split [of k ?L n] k by simp
  then have hd: "hd (pos_code n) = of_nat (256 - 2 ^ (8 - ?L) + n div 256 ^ k)"
    by (simp add: pos_code_def k)
  note first = first_byte_length [OF signed_len_pos assms(1) m, folded hd]
  have "num_loop (mask_of v) (map (comp v) (pos_code n)) = comp64 v (of_nat (header ?L + n))"
    using be_nat_comp [of "pos_code n" v] header_bounds(1) [OF signed_len_less signed_len_pos, of n]
    by (simp add: num_loop_eq pos_code_def be_nat_be del: of_nat_add)
  then show ?thesis
    using first assms(2,3) by (simp add: signed_length_def)
qed

text \<open>The bytes after a first byte of ones.\<close>

lemma pos_code_nth:
  "i < signed_len n \<Longrightarrow>
   pos_code n ! i = of_nat ((header (signed_len n) + n) div 256 ^ (signed_len n - 1 - i))"
  by (simp add: pos_code_def nth_be)

lemma long_first_byte:
  assumes "8 \<le> signed_len n" "signed_len n \<le> 10"
  shows "pos_code n ! 0 = 255"
proof -
  let ?L = "signed_len n"
  have "header ?L + n < 256 ^ ?L"
    by (rule header_bounds(1) [OF signed_len_less signed_len_pos])
  also have "\<dots> = 256 * 256 ^ (?L - 1)" using assms(1) by (simp flip: power_Suc)
  finally have upper: "(header ?L + n) div 256 ^ (?L - 1) < 256" by (rule less_mult_imp_div_less)
  have "(2 :: nat) ^ (7 * ?L) \<le> 256 ^ (?L - 1)"
    unfolding pow256 using assms(1) by (intro power_increasing) simp_all
  moreover have "(256 :: nat) ^ ?L = 256 * 256 ^ (?L - 1)" using assms(1) by (simp flip: power_Suc)
  ultimately have "255 * 256 ^ (?L - 1) \<le> header ?L + n" by (simp add: header_def)
  then have "255 \<le> (header ?L + n) div 256 ^ (?L - 1)" by (simp add: less_eq_div_iff_mult_less_eq)
  with upper have "(header ?L + n) div 256 ^ (?L - 1) = 255" by simp
  then show ?thesis using assms by (simp add: pos_code_nth)
qed

lemma wrap_second:
  "q < 128 \<Longrightarrow> (65280 + q) mod 256 = (q :: nat)" "q < 64 \<Longrightarrow> (65408 + q) mod 256 = 128 + (q :: nat)"
  "q < 128 \<Longrightarrow> (16760832 + q) mod 256 = (q :: nat)"
  using mod_mult_self3 [of 255 256 q] mod_mult_self3 [of 255 256 "128 + q"] mod_mult_self3 [of 65472 256 q] by simp_all

lemma second_bytes:
  "signed_len n = 8 \<Longrightarrow> pos_code n ! 1 < 0x80"
  "signed_len n = 9 \<Longrightarrow> 0x80 \<le> pos_code n ! 1 \<and> pos_code n ! 1 < 0xc0"
  "signed_len n = 10 \<Longrightarrow> n < 2 ^ 63 \<Longrightarrow> pos_code n ! 1 = 0xc0 \<and> pos_code n ! 2 < 0x80"
proof -
  assume L: "signed_len n = 8"
  have "n < 128 * 256 ^ 6" using signed_len_less [of n] by (simp add: L)
  then have "n div 256 ^ 6 < 128" by (rule less_mult_imp_div_less)
  moreover have "(header 8 + n) div 256 ^ 6 = 65280 + n div 256 ^ 6"
    using header_split [of 6 8 n] by simp
  ultimately show "pos_code n ! 1 < 0x80"
    by (simp add: pos_code_nth L word_less_nat_alt unat_u8 wrap_second del: of_nat_add)
next
  assume L: "signed_len n = 9"
  have "n < 64 * 256 ^ 7" using signed_len_less [of n] by (simp add: L)
  then have "n div 256 ^ 7 < 64" by (rule less_mult_imp_div_less)
  moreover have "(header 9 + n) div 256 ^ 7 = 65408 + n div 256 ^ 7"
    using header_split [of 7 9 n] by simp
  ultimately show "0x80 \<le> pos_code n ! 1 \<and> pos_code n ! 1 < 0xc0"
    by (simp add: pos_code_nth L word_less_nat_alt word_le_nat_alt unat_u8 wrap_second del: of_nat_add)
next
  assume L: "signed_len n = 10" "n < 2 ^ 63"
  then have "n < 128 * 256 ^ 7" by simp
  then have "n div 256 ^ 7 < 128" by (rule less_mult_imp_div_less)
  moreover have "(header 10 + n) div 256 ^ 7 = 16760832 + n div 256 ^ 7"
    using header_split [of 7 10 n] by simp
  moreover have "n div 256 ^ 8 = 0" using L(2) by simp
  then have "(header 10 + n) div 256 ^ 8 = 65472"
    using header_split [of 8 10 n] by simp
  ultimately show "pos_code n ! 1 = 0xc0 \<and> pos_code n ! 2 < 0x80"
    by (simp add: pos_code_nth L(1) word_less_nat_alt unat_u8 wrap_second del: of_nat_add)
qed

lemma last_eight:
  assumes "8 \<le> L" "src = map (comp v) (be L m) @ r"
  obtains bs where "bytes_at src (int L - 8) 8 = Some bs"
    "(of_nat (be_nat bs) :: u64) = comp64 v (of_nat m)"
proof
  obtain k where k: "L = k + 8" using assms(1) le_Suc_ex [of 8 L] by (auto simp: add.commute)
  have src: "src = map (comp v) (be k (m div 256 ^ 8)) @ map (comp v) (be 8 m) @ r"
    by (simp add: assms(2) k be_add)
  show "bytes_at src (int L - 8) 8 = Some (map (comp v) (be 8 m))"
    by (simp add: bytes_at_def src k)
  have zero: "(256 :: u64) ^ 8 = 0" by code_simp
  have "(of_nat (m mod 256 ^ 8) :: u64) = of_nat m"
    by (simp add: word_of_nat_eq_iff take_bit_nat_def)
  then show "(of_nat (be_nat (map (comp v) (be 8 m))) :: u64) = comp64 v (of_nat m)"
    using be_nat_comp [of "be 8 m" v] by (simp only: length_be zero mult_zero_left add_0 be_nat_be)
qed

lemma below_half: "c < (0x80 :: u8) \<Longrightarrow> (0x80 \<le> c) = False"
  by simp

lemma signed_length_long:
  assumes n: "8 \<le> signed_len n" "signed_len n \<le> 10" "n < 2 ^ 63"
    and src: "src = map (comp v) (pos_code n) @ r"
  shows "signed_length src (mask_of v) (hd (pos_code n)) =
    Some (Some (int (signed_len n), comp64 v (of_nat (header (signed_len n) + n))))"
proof -
  let ?L = "signed_len n"
  have "length (pos_code n) = ?L" by (simp add: pos_code_def)
  then have nth: "array_at src (int i) = Some (comp v (pos_code n ! i))" if "i < ?L" for i
    using that by (simp add: array_at_def src nth_append)
  have b: "array_at src 1 = Some (comp v (pos_code n ! 1))" "array_at src 2 = Some (comp v (pos_code n ! 2))"
    using nth [of 1] nth [of 2] n(1) by simp_all
  have "pos_code n \<noteq> []" using \<open>length (pos_code n) = ?L\<close> n(1) by auto
  then have hd: "hd (pos_code n) = 255" using long_first_byte [OF n(1,2)] by (simp add: hd_conv_nth)
  have len: "?L \<le> length src" by (simp add: src pos_code_def)
  obtain bs where bs: "bytes_at src (int ?L - 8) 8 = Some bs"
    "(of_nat (be_nat bs) :: u64) = comp64 v (of_nat (header ?L + n))"
    using last_eight [OF n(1)] src unfolding pos_code_def by blast
  note um = unmask [of v]
  have "?L = 8 \<or> ?L = 9 \<or> ?L = 10" using n(1,2) by presburger
  then show ?thesis
  proof (elim disjE)
    assume L: "?L = 8"
    then show ?thesis
      using second_bytes(1) [OF L] len bs n(1)
      by (simp add: signed_length_def below_half hd b um Let_def not_le del: of_nat_add)
  next
    assume L: "?L = 9"
    then show ?thesis
      using second_bytes(2) [OF L] len bs n(1)
      by (simp add: signed_length_def hd b um Let_def not_le del: of_nat_add)
  next
    assume L: "?L = 10"
    then show ?thesis
      using second_bytes(3) [OF L n(3)] len bs n(1)
      by (simp add: signed_length_def hd b um Let_def not_le del: of_nat_add)
  qed
qed

lemma ReadSignedNumIncreasing_code:
  "ReadSignedNumIncreasing (signed_code v @ r) result = Some (True, r, map_option (\<lambda>_. v) result)"
proof -
  let ?n = "signed_mag v"
  let ?L = "signed_len ?n" and ?src = "map (comp v) (pos_code ?n) @ r"
  have n: "?n < 2 ^ 63" by (rule signed_mag_sint)
  obtain b bs where p: "pos_code ?n = b # bs" "128 \<le> b" using hd_pos_code by blast
  have b: "array_at ?src 0 = Some (comp v b)" by (simp add: array_at_def p(1))
  have len: "length (pos_code ?n) = ?L" by (simp add: pos_code_def)
  have "signed_length ?src (mask_of v) (hd (pos_code ?n)) =
      Some (Some (int ?L, comp64 v (of_nat (header ?L + ?n))))"
  proof (cases "?L \<le> 7")
    case True
    then show ?thesis
      using len by (intro signed_length_short) (simp_all add: bytes_at_def)
  next
    case False
    then show ?thesis
      using n signed_len_10 [of v] by (intro signed_length_long [where r = r]) simp_all
  qed
  then have l: "signed_length ?src (mask_of v) b = Some (Some (int ?L, comp64 v (of_nat (header ?L + ?n))))"
    by (simp add: p(1))
  have mask: "array_at kLengthToMask (int ?L) = Some (of_nat (header ?L))"
    by (rule mask_header [OF signed_len_pos signed_len_10])
  have "comp64 v (of_nat ?n) = v"
    by (cases "v <s 0") (simp_all add: comp64_def signed_mag_def)
  then have val: "comp64 v (of_nat (header ?L + ?n)) XOR of_nat (header ?L) = v"
    using unmask_value [OF signed_len_pos signed_len_less, of v ?n] by simp
  have "?src \<noteq> []" by (simp add: p(1))
  moreover have "drop ?L ?src = r" using len by simp
  ultimately show ?thesis
    unfolding signed_code_comp ReadSignedNumIncreasing_def Let_def
    by (simp only: b top_bit [OF p(2)] unmask l mask val SignedEncodingLength_result Option.bind.simps
        HARD_ASSERT_True if_False option.case case_prod_conv simp_thms refl nat_int)
qed

end
