(* ===== verification/OrderedSpec.thy ===== *)
theory OrderedSpec
  imports OrderedStrings OrderedSigned
begin

text \<open>
  What \<open>ordered_code.h\<close> promises: a locale for an encoding whose byte order is the order of the
  encoded values whatever follows them, its instances for strings, unsigned and signed numbers,
  and the order of the encodings of whole sequences.
\<close>

section \<open>The contract\<close>

locale ordered_code =
  fixes code :: "'a \<Rightarrow> bytes" and key :: "'a \<Rightarrow> 'k::linorder"
  assumes code_less: "code a @ r < code b @ r' \<longleftrightarrow> key a < key b \<or> a = b \<and> r < r'"
    and key_inj: "key a = key b \<Longrightarrow> a = b"
begin

lemma code_order: "code a < code b \<longleftrightarrow> key a < key b"
  using code_less [of a "[]" b "[]"] by simp

lemma code_append_eq: "code a @ r = code b @ r' \<longleftrightarrow> a = b \<and> r = r'"
  using code_less [of a r b r'] code_less [of b r' a r] key_inj [of a b]
  by (metis linorder_neqE order.asym order_less_irrefl)

lemma code_step: "code a @ r < code b @ r' \<longleftrightarrow> key a < key b \<or> key a = key b \<and> r < r'"
  using code_less key_inj by metis

end

section \<open>Strings and infinity\<close>

datatype ordered_string = Finite bytes | Infinity

instantiation ordered_string :: linorder
begin

fun less_ordered_string :: "ordered_string \<Rightarrow> ordered_string \<Rightarrow> bool" where
  "Finite s < Finite t \<longleftrightarrow> s < t"
| "Finite s < Infinity \<longleftrightarrow> True"
| "Infinity < x \<longleftrightarrow> False"

definition less_eq_ordered_string :: "ordered_string \<Rightarrow> ordered_string \<Rightarrow> bool" where
  "less_eq_ordered_string x y \<longleftrightarrow> x < y \<or> x = y"

instance
proof
  fix x y z :: ordered_string
  have asym: "a < b \<Longrightarrow> \<not> b < a" for a b :: ordered_string by (cases a; cases b) auto
  have trans: "a < b \<Longrightarrow> b < c \<Longrightarrow> a < c" for a b c :: ordered_string
    by (cases a; cases b; cases c) auto
  show "x < y \<longleftrightarrow> x \<le> y \<and> \<not> y \<le> x" using asym [of x y] asym [of y x] by (auto simp: less_eq_ordered_string_def)
  show "x \<le> x" by (simp add: less_eq_ordered_string_def)
  show "x \<le> y \<Longrightarrow> y \<le> z \<Longrightarrow> x \<le> z" using trans by (auto simp: less_eq_ordered_string_def)
  show "x \<le> y \<Longrightarrow> y \<le> x \<Longrightarrow> x = y" using asym [of x y] by (auto simp: less_eq_ordered_string_def)
  show "x \<le> y \<or> y \<le> x" by (cases x; cases y) (auto simp: less_eq_ordered_string_def)
qed

end

fun text_code :: "ordered_string \<Rightarrow> bytes" where
  "text_code (Finite s) = string_code s"
| "text_code Infinity = [255, 255]"

lemma below_infinity: "string_code s @ r < 255 # 255 # r'" "\<not> 255 # 255 # r' < string_code s @ r"
proof -
  have "c \<noteq> 255 \<Longrightarrow> c < 255" for c :: u8
    using word_order.not_eq_extremum [of c] by (simp add: max_u8)
  then show "string_code s @ r < 255 # 255 # r'"
    by (cases s) (auto simp: string_code_def escape_def)
  then show "\<not> 255 # 255 # r' < string_code s @ r" by (rule order_less_not_sym)
qed

interpretation strings: ordered_code text_code "\<lambda>x. x"
proof
  fix a b :: ordered_string and r r' :: bytes
  show "text_code a @ r < text_code b @ r' \<longleftrightarrow> a < b \<or> a = b \<and> r < r'"
    by (cases a; cases b) (auto simp: string_code_less below_infinity)
qed

interpretation numbers: ordered_code num_code "\<lambda>v. v"
  by unfold_locales (auto simp: num_code_less)

interpretation signed_numbers: ordered_code signed_code sint
  by unfold_locales (auto simp: signed_code_less intro: signed_word_eqI)

section \<open>Sequences of items\<close>

datatype item = Text ordered_string | Number u64 | Signed s64

fun write_item :: "(nat \<Rightarrow> u8) \<Rightarrow> bytes \<Rightarrow> item \<Rightarrow> bytes option" where
  "write_item junk dest (Text (Finite s)) = WriteString dest s"
| "write_item junk dest (Text Infinity) = Some (WriteInfinity dest)"
| "write_item junk dest (Number v) = WriteNumIncreasing junk dest v"
| "write_item junk dest (Signed v) = WriteSignedNumIncreasing dest v"

fun write_items :: "(nat \<Rightarrow> u8) \<Rightarrow> bytes \<Rightarrow> item list \<Rightarrow> bytes option" where
  "write_items junk dest [] = Some dest"
| "write_items junk dest (x # xs) = do {
     dest \<leftarrow> write_item junk dest x;
     write_items junk dest xs }"

fun same_type :: "item \<Rightarrow> item \<Rightarrow> bool" where
  "same_type (Text _) (Text _) = True"
| "same_type (Number _) (Number _) = True"
| "same_type (Signed _) (Signed _) = True"
| "same_type _ _ = False"

fun item_less :: "item \<Rightarrow> item \<Rightarrow> bool" where
  "item_less (Text s) (Text t) = (s < t)"
| "item_less (Number v) (Number w) = (v < w)"
| "item_less (Signed v) (Signed w) = (v <s w)"
| "item_less _ _ = False"

text \<open>The items compared one by one, the first difference decides.\<close>

fun items_less :: "item list \<Rightarrow> item list \<Rightarrow> bool" where
  "items_less (x # xs) (y # ys) = (item_less x y \<or> x = y \<and> items_less xs ys)"
| "items_less _ _ = False"

fun item_code :: "item \<Rightarrow> bytes" where
  "item_code (Text s) = text_code s"
| "item_code (Number v) = num_code v"
| "item_code (Signed v) = signed_code v"

lemma write_item_code: "write_item junk dest x = Some (dest @ item_code x)"
  by (cases "(junk, dest, x)" rule: write_item.cases)
    (simp_all add: WriteString_code WriteNumIncreasing_code WriteSignedNumIncreasing_code
      WriteInfinity_def WriteInfinityInternal_def kEscape2_def kInfinity_def)

lemma write_items_code: "write_items junk dest xs = Some (dest @ concat (map item_code xs))"
  by (induction xs arbitrary: dest) (simp_all add: write_item_code)

lemma item_code_less:
  "same_type x y \<Longrightarrow>
   item_code x @ r < item_code y @ r' \<longleftrightarrow> item_less x y \<or> x = y \<and> r < r'"
  by (cases "(x, y)" rule: item_less.cases)
    (simp_all add: strings.code_less numbers.code_less signed_numbers.code_less word_sless_alt)

lemma items_code_less:
  "list_all2 same_type xs ys \<Longrightarrow>
   concat (map item_code xs) < concat (map item_code ys) \<longleftrightarrow> items_less xs ys"
  by (induction rule: list_all2_induct) (simp_all add: item_code_less)

section \<open>Portable logarithms\<close>

lemma floorlog_div: "2 ^ k \<le> n \<Longrightarrow> floorlog 2 n = floorlog 2 (n div 2 ^ k) + k"
proof (rule antisym)
  assume n: "2 ^ k \<le> n"
  have "n div 2 ^ k < 2 ^ floorlog 2 (n div 2 ^ k)"
    using floorlog_le_iff [of 2 "n div 2 ^ k" "floorlog 2 (n div 2 ^ k)"] by simp
  then have "n < 2 ^ (floorlog 2 (n div 2 ^ k) + k)"
    by (simp add: power_add div_less_iff_less_mult)
  then show "floorlog 2 n \<le> floorlog 2 (n div 2 ^ k) + k" by (simp add: floorlog_le_iff)
  have "k < floorlog 2 n" using n floorlog_le_iff [of 2 n k] by linarith
  moreover have "n < 2 ^ floorlog 2 n" using floorlog_le_iff [of 2 n "floorlog 2 n"] by simp
  ultimately have "n div 2 ^ k < 2 ^ (floorlog 2 n - k)"
    by (simp add: less_mult_imp_div_less flip: power_add)
  then show "floorlog 2 (n div 2 ^ k) + k \<le> floorlog 2 n"
    using \<open>k < floorlog 2 n\<close> floorlog_le_iff [of 2 "n div 2 ^ k" "floorlog 2 n - k"] by simp
qed

lemma unat_drop: "unat (drop_bit k v) = unat v div 2 ^ k"
  unfolding unat_drop_bit_eq by (rule drop_bit_eq_div)

lemma log2_loop_result:
  "v \<noteq> 0 \<Longrightarrow> unat v < 2 ^ (2 ^ i) \<Longrightarrow>
   log2_loop i v lg = (1, lg + int (floorlog 2 (unat v)) - 1)"
proof (induction i arbitrary: v lg)
  case 0
  then have "unat v = 1" using unat_gt_0 [of v] by simp
  then have "v = 1" by (simp add: word_unat_eq_iff)
  moreover have "floorlog 2 1 = 1" by code_simp
  ultimately show ?case by simp
next
  case (Suc i)
  let ?x = "drop_bit (2 ^ i) v"
  have x: "unat ?x = unat v div 2 ^ 2 ^ i" by (rule unat_drop)
  then have nz: "?x \<noteq> 0 \<longleftrightarrow> 2 ^ 2 ^ i \<le> unat v"
    by (simp add: word_unat_eq_iff div_eq_0_iff not_less)
  show ?case
  proof (cases "?x = 0")
    case True
    then show ?thesis using Suc.IH [OF Suc.prems(1)] nz by (simp add: Let_def)
  next
    case False
    have "unat v < 2 ^ 2 ^ i * 2 ^ 2 ^ i"
      using Suc.prems(2) by (simp add: mult_2 power_add)
    then have "unat ?x < 2 ^ 2 ^ i" unfolding x by (rule less_mult_imp_div_less)
    then have "log2_loop i ?x (lg + int (2 ^ i)) = (1, lg + int (2 ^ i) + int (floorlog 2 (unat ?x)) - 1)"
      using False by (rule Suc.IH [rotated])
    moreover have "floorlog 2 (unat v) = floorlog 2 (unat ?x) + 2 ^ i"
      unfolding x using False nz by (intro floorlog_div) simp
    ultimately show ?thesis using False by (simp add: Let_def)
  qed
qed

lemma Log2Floor_Portable_result:
  "Log2Floor_Portable n = Some (int (floorlog 2 (unat n)) - 1)"
proof (cases "n = 0")
  case True
  then show ?thesis by (simp add: Log2Floor_Portable_def floorlog_eq_zero_iff)
next
  case False
  then show ?thesis
    using log2_loop_result [of n 5 0] u32_less [of n] by (simp add: Log2Floor_Portable_def)
qed

section \<open>Properties\<close>

text \<open>
  C15: the encodings of two sequences of items with the same types compare, byte by byte, exactly
  as the sequences do item by item, infinity above every string.
\<close>

theorem items_in_order:
  assumes "list_all2 same_type xs ys"
  shows "\<exists>a b. write_items junk [] xs = Some a \<and> write_items junk' [] ys = Some b \<and>
    (a < b \<longleftrightarrow> items_less xs ys)"
  using items_code_less [OF assms] by (simp add: write_items_code)

lemma items_in_order_witness:
  "\<exists>a b. write_items (\<lambda>_. 0) [] [Text (Finite [7, 0]), Signed (- 3), Number 9] = Some a \<and>
     write_items (\<lambda>_. 1) [] [Text (Finite [7, 0]), Signed 70, Number 2] = Some b \<and> a < b"
proof -
  have types: "list_all2 same_type [Text (Finite [7, 0]), Signed (- 3), Number 9]
      [Text (Finite [7, 0]), Signed 70, Number 2]"
    by simp
  have less: "items_less [Text (Finite [7, 0]), Signed (- 3), Number 9] [Text (Finite [7, 0]), Signed 70, Number 2]"
    by (simp add: word_sless_alt)
  show ?thesis
    using items_in_order [OF types, of "\<lambda>_. 0" "\<lambda>_. 1"] by (simp only: less simp_thms)
qed

text \<open>
  C34: the string reader never reads outside its input or fails an assertion; it succeeds exactly
  on an input that starts with what the string writer appends, gives back that string and
  leaves the rest.
\<close>

theorem string_reader_exact:
  "ReadString src result \<noteq> None \<and>
   (ReadString src result = Some (True, rest, result') \<longleftrightarrow>
    (\<exists>s e. WriteString [] s = Some e \<and> src = e @ rest \<and> result' = map_option (\<lambda>r. r @ s) result))"
proof (cases "string_decode src")
  case None
  then have "src \<noteq> string_code s @ rest" for s using string_decode_code [of s rest] by auto
  with None show ?thesis
    using ReadString_decode [of src result] by (auto simp: decode_outcome_def WriteString_code)
next
  case (Some d)
  then obtain s r where d: "string_decode src = Some (s, r)" by (cases d) auto
  then have src: "src = string_code s @ r" by (rule string_decode_sound)
  have "src = string_code t @ rest \<longleftrightarrow> t = s \<and> rest = r" for t
    using string_decode_code [of t rest] d src by (metis Pair_inject option.inject)
  moreover have "ReadString src result = Some (True, r, map_option (\<lambda>q. q @ s) result)"
    using ReadString_decode [of src result] d by (simp add: decode_outcome_def)
  ultimately show ?thesis by (auto simp: WriteString_code)
qed

text \<open>
  the scan that tests eight and four bytes at a time finds the same byte as the scan that
  looks at one byte after the other.
\<close>

theorem word_scan_is_byte_scan:
  assumes "0 \<le> p" "limit \<le> int (length s)"
  shows "SkipToNextSpecialByte s p limit = skip_bytes s p limit"
  using assms by (simp add: skip_result skip_bytes_result)

lemma word_scan_is_byte_scan_witness:
  "SkipToNextSpecialByte [1, 2, 3, 4, 5, 6, 7, 8, 9, 255, 3, 4, 0] 1 13 =
   skip_bytes [1, 2, 3, 4, 5, 6, 7, 8, 9, 255, 3, 4, 0] 1 13"
  by (rule word_scan_is_byte_scan) simp_all

text \<open>
  reading a signed number that was written gives back the number and leaves the bytes that
  follow, for all 64-bit values.
\<close>

theorem signed_round_trip:
  "\<exists>e. WriteSignedNumIncreasing dest v = Some (dest @ e) \<and>
     ReadSignedNumIncreasing (e @ r) result = Some (True, r, map_option (\<lambda>_. v) result)"
  by (simp add: WriteSignedNumIncreasing_code ReadSignedNumIncreasing_code)

text \<open>
  the reader of unsigned numbers succeeds exactly on the minimal encodings the writer
  produces; on every other input it reports failure and consumes nothing, except that a
  length byte followed by a zero byte stops the process.
\<close>

theorem number_reader_outcomes:
  assumes "length src < 2 ^ 63"
  shows "case ReadNumIncreasing src result of
      None \<Rightarrow> 2 \<le> length src \<and> src ! 0 \<noteq> 0 \<and> src ! 1 = 0
    | Some (success, rest, result') \<Rightarrow>
        if success then \<exists>v e. WriteNumIncreasing junk [] v = Some e \<and> src = e @ rest \<and>
          result' = map_option (\<lambda>_. v) result
        else rest = src \<and> result' = result"
  using ReadNumIncreasing_outcome [OF assms, of result]
  by (auto simp: num_outcome_def WriteNumIncreasing_code split: option.splits bool.splits)

lemma number_reader_outcomes_witness:
  "ReadNumIncreasing [1, 0] None = None \<and>
   (case ReadNumIncreasing [1, 0] None of
      None \<Rightarrow> 2 \<le> length [1, 0 :: u8] \<and> [1, 0 :: u8] ! 0 \<noteq> 0 \<and> [1, 0 :: u8] ! 1 = 0
    | Some (success, rest, result') \<Rightarrow>
        if success then \<exists>v e. WriteNumIncreasing (\<lambda>_. 0) [] v = Some e \<and> [1, 0] = e @ rest \<and>
          result' = map_option (\<lambda>_. v) None
        else rest = [1, 0] \<and> result' = None)"
  using number_reader_outcomes [of "[1, 0]" "\<lambda>_. 0" None]
  by (simp add: ReadNumIncreasing_def array_at_def HARD_ASSERT_def)

text \<open>
  the portable binary search for the highest bit agrees with the version that uses the
  compiler's count of leading zeros, and never fails its assertion.
\<close>

theorem portable_logarithm: "Log2Floor64_Portable n = Log2Floor64 n \<and> Log2Floor64 n \<noteq> None"
proof -
  let ?top = "ucast (drop_bit 32 n) :: u32"
  have "unat n div 2 ^ 32 < 2 ^ 32"
    using u64_less [of n] by (intro less_mult_imp_div_less) simp
  then have top: "unat ?top = unat n div 2 ^ 32"
    using unat_drop [of 32 n] by (simp add: unsigned_ucast_eq take_bit_nat_eq_self del: unat_drop_bit_eq)
  show ?thesis
  proof (cases "?top = 0")
    case True
    then have "unat n div 2 ^ 32 = 0" using top by simp
    then have "unat n < 2 ^ 32" by (simp add: div_eq_0_iff)
    then have "unat (ucast n :: u32) = unat n"
      by (simp add: unsigned_ucast_eq take_bit_nat_eq_self)
    with True show ?thesis
      by (simp add: Log2Floor64_Portable_def Let_def Log2Floor_Portable_result Log2Floor64_result)
  next
    case False
    then have "0 < unat n div 2 ^ 32" using unat_gt_0 [of ?top] top by simp
    then have "2 ^ 32 \<le> unat n" by (simp add: div_greater_zero_iff)
    then have "floorlog 2 (unat n) = floorlog 2 (unat ?top) + 32"
      unfolding top by (rule floorlog_div)
    with False show ?thesis
      by (simp add: Log2Floor64_Portable_def Let_def Log2FloorNonZero_Portable_def
          Log2Floor_Portable_result Log2Floor64_result)
  qed
qed

end
