(* ===== verification/LlrbNode.thy ===== *)
theory LlrbNode
  imports Prelude
begin

text \<open>
  \<open>Firestore/core/src/immutable/llrb_node.h\<close> and \<open>llrb_node_iterator.h\<close>: the persistent
  left-leaning red-black tree behind the sorted maps of the Firestore client.

  A node is a pointer to an immutable \<open>Rep\<close>; \<open>EmptyRep\<close> is the one shared empty \<open>Rep\<close>, whose
  children are itself and whose entry is default constructed.  The mutators are only applied to
  a fresh copy (\<open>Clone\<close>), so a tree is a value and an operation gives back a new one.  The
  size is kept in 31 bits, next to the color bit, and \<open>empty()\<close> asks for size 0.  The comparator
  is a template parameter: the argument \<open>cmp\<close>.
\<close>

section \<open>Comparison\<close>

datatype ComparisonResult = Ascending | Same | Descending

text \<open>The comparison of \<open>util/comparison.h\<close> for types with \<open><\<close>.\<close>

definition Compare :: "'k::linorder \<Rightarrow> 'k \<Rightarrow> ComparisonResult" where
  "Compare a b = (if a < b then Ascending else if b < a then Descending else Same)"

lemma Compare_simps:
  "Compare a b = Ascending \<longleftrightarrow> a < b" "Compare a b = Same \<longleftrightarrow> a = b" "Compare a b = Descending \<longleftrightarrow> b < a"
  by (auto simp: Compare_def)

type_synonym 'k comparator = "'k \<Rightarrow> 'k \<Rightarrow> ComparisonResult"

section \<open>Nodes\<close>

datatype Color = Black | Red

datatype ('k, 'v) LlrbNode =
    EmptyRep
  | Rep "'k \<times> 'v" Color "31 word" "('k, 'v) LlrbNode" "('k, 'v) LlrbNode"

type_synonym size_type = u32

fun rep_size :: "('k, 'v) LlrbNode \<Rightarrow> 31 word" where
  "rep_size EmptyRep = 0"
| "rep_size (Rep e c n l r) = n"

definition node_size :: "('k, 'v) LlrbNode \<Rightarrow> size_type" where
  "node_size t = ucast (rep_size t)"

definition is_empty :: "('k, 'v) LlrbNode \<Rightarrow> bool" where
  "is_empty t \<longleftrightarrow> node_size t = 0"

fun color :: "('k, 'v) LlrbNode \<Rightarrow> Color" where
  "color EmptyRep = Black"
| "color (Rep e c n l r) = c"

definition red :: "('k, 'v) LlrbNode \<Rightarrow> bool" where
  "red t \<longleftrightarrow> color t = Red"

fun left :: "('k, 'v) LlrbNode \<Rightarrow> ('k, 'v) LlrbNode" where
  "left EmptyRep = EmptyRep"
| "left (Rep e c n l r) = l"

fun right :: "('k, 'v) LlrbNode \<Rightarrow> ('k, 'v) LlrbNode" where
  "right EmptyRep = EmptyRep"
| "right (Rep e c n l r) = r"

fun entry :: "('k::default, 'v::default) LlrbNode \<Rightarrow> 'k \<times> 'v" where
  "entry EmptyRep = (default, default)"
| "entry (Rep e c n l r) = e"

text \<open>The constructor of \<open>Rep\<close> that computes the size.\<close>

definition make_rep ::
  "'k \<times> 'v \<Rightarrow> Color \<Rightarrow> ('k, 'v) LlrbNode \<Rightarrow> ('k, 'v) LlrbNode \<Rightarrow> ('k, 'v) LlrbNode" where
  "make_rep e c l r = Rep e c (ucast (node_size l + 1 + node_size r)) l r"

fun Clone :: "('k::default, 'v::default) LlrbNode \<Rightarrow> ('k, 'v) LlrbNode" where
  "Clone EmptyRep = Rep (default, default) Black 0 EmptyRep EmptyRep"
| "Clone (Rep e c n l r) = Rep e c n l r"

text \<open>The setters write through the pointer of a cloned node.\<close>

fun set_size :: "size_type \<Rightarrow> ('k, 'v) LlrbNode \<Rightarrow> ('k, 'v) LlrbNode" where
  "set_size s (Rep e c n l r) = Rep e c (ucast s) l r"
| "set_size s EmptyRep = EmptyRep"

fun set_entry :: "'k \<times> 'v \<Rightarrow> ('k, 'v) LlrbNode \<Rightarrow> ('k, 'v) LlrbNode" where
  "set_entry e' (Rep e c n l r) = Rep e' c n l r"
| "set_entry e' EmptyRep = EmptyRep"

fun set_value :: "'v \<Rightarrow> ('k, 'v) LlrbNode \<Rightarrow> ('k, 'v) LlrbNode" where
  "set_value v (Rep e c n l r) = Rep (fst e, v) c n l r"
| "set_value v EmptyRep = EmptyRep"

fun set_color :: "Color \<Rightarrow> ('k, 'v) LlrbNode \<Rightarrow> ('k, 'v) LlrbNode" where
  "set_color c' (Rep e c n l r) = Rep e c' n l r"
| "set_color c' EmptyRep = EmptyRep"

fun set_left :: "('k, 'v) LlrbNode \<Rightarrow> ('k, 'v) LlrbNode \<Rightarrow> ('k, 'v) LlrbNode" where
  "set_left l' (Rep e c n l r) = Rep e c n l' r"
| "set_left l' EmptyRep = EmptyRep"

fun set_right :: "('k, 'v) LlrbNode \<Rightarrow> ('k, 'v) LlrbNode \<Rightarrow> ('k, 'v) LlrbNode" where
  "set_right r' (Rep e c n l r) = Rep e c n l r'"
| "set_right r' EmptyRep = EmptyRep"

definition OppositeColor :: "('k, 'v) LlrbNode \<Rightarrow> Color" where
  "OppositeColor t = (if color t = Red then Black else Red)"

primrec min_node :: "('k, 'v) LlrbNode \<Rightarrow> ('k, 'v) LlrbNode" where
  "min_node EmptyRep = EmptyRep"
| "min_node (Rep e c n l r) = (if \<not> is_empty l then min_node l else Rep e c n l r)"

primrec max_node :: "('k, 'v) LlrbNode \<Rightarrow> ('k, 'v) LlrbNode" where
  "max_node EmptyRep = EmptyRep"
| "max_node (Rep e c n l r) = (if \<not> is_empty r then max_node r else Rep e c n l r)"

section \<open>Rotations and repair\<close>

definition RotateLeft :: "('k::default, 'v::default) LlrbNode \<Rightarrow> ('k, 'v) LlrbNode" where
  "RotateLeft t =
     (let new_left = make_rep (entry t) Red (left t) (left (right t));
          t = set_entry (entry (right t)) t;
          t = set_left new_left t in
      set_right (right (right t)) t)"

definition RotateRight :: "('k::default, 'v::default) LlrbNode \<Rightarrow> ('k, 'v) LlrbNode" where
  "RotateRight t =
     (let new_right = make_rep (entry t) Red (right (left t)) (right t);
          t = set_entry (entry (left t)) t;
          t = set_left (left (left t)) t in
      set_right new_right t)"

definition FlipColor :: "('k::default, 'v::default) LlrbNode \<Rightarrow> ('k, 'v) LlrbNode" where
  "FlipColor t =
     (let new_left = set_color (OppositeColor (left t)) (Clone (left t));
          new_right = set_color (OppositeColor (right t)) (Clone (right t));
          t = set_color (OppositeColor t) t;
          t = set_left new_left t in
      set_right new_right t)"

definition FixUp :: "('k::default, 'v::default) LlrbNode \<Rightarrow> ('k, 'v) LlrbNode" where
  "FixUp t =
     (let t = set_size (node_size (left t) + 1 + node_size (right t)) t;
          t = (if red (right t) \<and> \<not> red (left t) then RotateLeft t else t);
          t = (if red (left t) \<and> red (left (left t)) then RotateRight t else t) in
      if red (left t) \<and> red (right t) then FlipColor t else t)"

definition FixRootColor :: "('k, 'v) LlrbNode \<Rightarrow> ('k, 'v) LlrbNode" where
  "FixRootColor t = (if red t then set_color Black t else t)"

definition MoveRedLeft :: "('k::default, 'v::default) LlrbNode \<Rightarrow> ('k, 'v) LlrbNode" where
  "MoveRedLeft t =
     (let t = FlipColor t in
      if red (left (right t)) then
        let new_right = RotateRight (Clone (right t));
            t = set_right new_right t;
            t = RotateLeft t in
        FlipColor t
      else t)"

definition MoveRedRight :: "('k::default, 'v::default) LlrbNode \<Rightarrow> ('k, 'v) LlrbNode" where
  "MoveRedRight t =
     (let t = FlipColor t in
      if red (left (left t)) then FlipColor (RotateRight t) else t)"

section \<open>Insertion\<close>

primrec InnerInsert ::
  "'k comparator \<Rightarrow> 'k \<Rightarrow> 'v \<Rightarrow> ('k::default, 'v::default) LlrbNode \<Rightarrow> ('k, 'v) LlrbNode" where
  "InnerInsert cmp key val EmptyRep = make_rep (key, val) Red EmptyRep EmptyRep"
| "InnerInsert cmp key val (Rep e c n l r) =
     (if is_empty (Rep e c n l r) then make_rep (key, val) Red EmptyRep EmptyRep
      else let result = Clone (Rep e c n l r) in
        case cmp (fst e) key of
          Descending \<Rightarrow> FixUp (set_left (InnerInsert cmp key val l) result)
        | Ascending \<Rightarrow> FixUp (set_right (InnerInsert cmp key val r) result)
        | Same \<Rightarrow> set_value val result)"

definition node_insert ::
  "'k comparator \<Rightarrow> 'k \<Rightarrow> 'v \<Rightarrow> ('k::default, 'v::default) LlrbNode \<Rightarrow> ('k, 'v) LlrbNode" where
  "node_insert cmp key val t = FixRootColor (InnerInsert cmp key val t)"

section \<open>Removal\<close>

primrec nodes :: "('k, 'v) LlrbNode \<Rightarrow> nat" where
  "nodes EmptyRep = 0"
| "nodes (Rep e c n l r) = Suc (nodes l + nodes r)"

lemma not_empty_Rep: "\<not> is_empty t \<Longrightarrow> \<exists>e c n l r. t = Rep e c n l r"
  by (cases t) (simp_all add: is_empty_def node_size_def)

lemma red_Rep: "red t \<Longrightarrow> \<exists>e n l r. t = Rep e Red n l r"
  by (cases t) (simp_all add: red_def)

lemma nodes_MoveRedLeft:
  assumes "t = Rep e c n l r" "\<not> is_empty l"
  shows "\<exists>e' c' n' l' r'. left (MoveRedLeft t) = Rep e' c' n' l' r' \<and> nodes (left (MoveRedLeft t)) < nodes t"
proof -
  obtain el cl nl ll lr where l: "l = Rep el cl nl ll lr" using not_empty_Rep [OF assms(2)] by blast
  show ?thesis
  proof (cases r)
    case EmptyRep
    then show ?thesis by (simp add: assms(1) l MoveRedLeft_def FlipColor_def Let_def red_def)
  next
    case (Rep er cr nr rl rr)
    then show ?thesis
      by (cases rl) (simp_all add: assms(1) l MoveRedLeft_def FlipColor_def RotateRight_def
          RotateLeft_def make_rep_def Let_def red_def)
  qed
qed

function RemoveMin :: "('k::default, 'v::default) LlrbNode \<Rightarrow> ('k, 'v) LlrbNode" where
  "RemoveMin t =
     (if is_empty (left t) then EmptyRep
      else let t = (if \<not> red (left t) \<and> \<not> red (left (left t)) then MoveRedLeft t else t);
               new_left = RemoveMin (Clone (left t)) in
        FixUp (set_left new_left t))"
  by auto
termination
proof (relation "measure nodes", goal_cases)
  case (2 t x)
  then obtain e c n l r where t: "t = Rep e c n l r"
    by (cases t) (simp_all add: is_empty_def node_size_def)
  with 2 have l: "\<not> is_empty l" by simp
  then obtain el cl nl ll lr where "l = Rep el cl nl ll lr" using not_empty_Rep by blast
  then show ?case
    using 2 t nodes_MoveRedLeft [OF t l] by (auto split: if_splits)
qed simp

declare RemoveMin.simps [simp del]

definition lean_right :: "('k::default, 'v::default) LlrbNode \<Rightarrow> ('k, 'v) LlrbNode" where
  "lean_right n =
     (let n = (if red (left n) then RotateRight n else n) in
      if \<not> is_empty (right n) \<and> \<not> red (right n) \<and> \<not> red (left (right n)) then MoveRedRight n else n)"

lemma nodes_lean_right:
  assumes "t = Rep e c n l r"
  shows "nodes (right (lean_right t)) < nodes t"
proof (cases l)
  case EmptyRep
  then show ?thesis
    using assms by (cases r)
      (auto simp: lean_right_def MoveRedRight_def FlipColor_def Let_def red_def is_empty_def node_size_def)
next
  case l: (Rep el cl nl ll lr)
  show ?thesis
  proof (cases ll)
    case EmptyRep
    with l assms show ?thesis by (cases r)
      (auto simp: lean_right_def MoveRedRight_def FlipColor_def RotateRight_def make_rep_def Let_def
        red_def is_empty_def node_size_def)
  next
    case (Rep ell cll nll lll llr)
    with l assms show ?thesis by (cases r)
      (auto simp: lean_right_def MoveRedRight_def FlipColor_def RotateRight_def make_rep_def Let_def
        red_def is_empty_def node_size_def)
  qed
qed

function InnerErase ::
  "'k comparator \<Rightarrow> 'k \<Rightarrow> ('k::default, 'v::default) LlrbNode \<Rightarrow> ('k, 'v) LlrbNode" where
  "InnerErase cmp key t =
     (if is_empty t then EmptyRep
      else let n = Clone t in
        if cmp key (fst (entry n)) = Ascending then
          let n = (if \<not> is_empty (left n) \<and> \<not> red (left n) \<and> \<not> red (left (left n))
                   then MoveRedLeft n else n) in
          FixUp (set_left (InnerErase cmp key (left n)) n)
        else
          let n = lean_right n in
          if cmp key (fst (entry n)) = Same then
            if is_empty (right n) then EmptyRep
            else
              let smallest = min_node (right n);
                  new_right = RemoveMin (Clone (right n)) in
              FixUp (set_right new_right (set_entry (entry smallest) n))
          else FixUp (set_right (InnerErase cmp key (right n)) n))"
  by auto
termination
proof (relation "measure (\<lambda>(cmp, key, t). nodes t)", goal_cases)
  case (2 cmp key t n n')
  then obtain e c s l r where t: "t = Rep e c s l r" using not_empty_Rep by blast
  then show ?case using 2 nodes_MoveRedLeft [OF t] by (auto split: if_splits)
next
  case (3 cmp key t n n')
  then obtain e c s l r where t: "t = Rep e c s l r" using not_empty_Rep by blast
  then show ?case using 3 nodes_lean_right [OF t] by auto
qed simp

declare InnerErase.simps [simp del]

definition node_erase ::
  "'k comparator \<Rightarrow> 'k \<Rightarrow> ('k::default, 'v::default) LlrbNode \<Rightarrow> ('k, 'v) LlrbNode" where
  "node_erase cmp key t = FixRootColor (InnerErase cmp key t)"

end
