(* ===== verification/TreeMap.thy ===== *)
theory TreeMap
  imports LlrbNode
begin

text \<open>
  \<open>Firestore/core/src/immutable/llrb_node_iterator.h\<close> and \<open>tree_sorted_map.h\<close>: the forward
  iterator over a tree, with its explicit stack of nodes (top first), and the sorted map whose
  only state is the root of a tree and a comparator, here the argument \<open>cmp\<close>.  An operation whose
  \<open>HARD_ASSERT\<close> fails has no result.
\<close>

section \<open>Iterators\<close>

type_synonym ('k, 'v) LlrbNodeIterator = "('k, 'v) LlrbNode list"

primrec AccumulateLeft :: "('k, 'v) LlrbNode \<Rightarrow> ('k, 'v) LlrbNodeIterator \<Rightarrow> ('k, 'v) LlrbNodeIterator" where
  "AccumulateLeft EmptyRep stack = stack"
| "AccumulateLeft (Rep e c n l r) stack =
     (if is_empty (Rep e c n l r) then stack else AccumulateLeft l (Rep e c n l r # stack))"

definition iter_begin :: "('k, 'v) LlrbNode \<Rightarrow> ('k, 'v) LlrbNodeIterator" where
  "iter_begin root = AccumulateLeft root []"

definition iter_end :: "('k, 'v) LlrbNodeIterator" where
  "iter_end = []"

primrec descend ::
  "'k comparator \<Rightarrow> 'k \<Rightarrow> ('k, 'v) LlrbNode \<Rightarrow> ('k, 'v) LlrbNodeIterator \<Rightarrow> ('k, 'v) LlrbNodeIterator" where
  "descend cmp key EmptyRep stack = stack"
| "descend cmp key (Rep e c n l r) stack =
     (if is_empty (Rep e c n l r) then stack
      else case cmp key (fst e) of
        Same \<Rightarrow> Rep e c n l r # stack
      | Ascending \<Rightarrow> descend cmp key l (Rep e c n l r # stack)
      | Descending \<Rightarrow> descend cmp key r stack)"

definition iter_LowerBound :: "'k comparator \<Rightarrow> ('k, 'v) LlrbNode \<Rightarrow> 'k \<Rightarrow> ('k, 'v) LlrbNodeIterator" where
  "iter_LowerBound cmp root key = descend cmp key root []"

definition is_end :: "('k, 'v) LlrbNodeIterator \<Rightarrow> bool" where
  "is_end it \<longleftrightarrow> it = []"

definition iter_get :: "('k::default, 'v::default) LlrbNodeIterator \<Rightarrow> ('k \<times> 'v) option" where
  "iter_get it = (if is_end it then None else Some (entry (hd it)))"

definition iter_next :: "('k, 'v) LlrbNodeIterator \<Rightarrow> ('k, 'v) LlrbNodeIterator option" where
  "iter_next it =
     (if is_end it then None
      else let node = hd it; stack = tl it in Some (AccumulateLeft (right node) stack))"

definition iter_eq ::
  "('k::default, 'v::default) LlrbNodeIterator \<Rightarrow> ('k, 'v) LlrbNodeIterator \<Rightarrow> bool" where
  "iter_eq a b =
     (if is_end a then is_end b
      else if is_end b then False
      else fst (entry (hd a)) = fst (entry (hd b)))"

section \<open>The map over a tree\<close>

type_synonym ('k, 'v) TreeSortedMap = "('k, 'v) LlrbNode"

definition npos :: size_type where
  "npos = - 1"

definition tree_Create ::
  "'k comparator \<Rightarrow> ('k \<times> 'v) list \<Rightarrow> ('k::default, 'v::default) TreeSortedMap" where
  "tree_Create cmp entries =
     fold (\<lambda>element node. node_insert cmp (fst element) (snd element) node) entries EmptyRep"

definition tree_empty :: "('k, 'v) TreeSortedMap \<Rightarrow> bool" where
  "tree_empty t = is_empty t"

definition tree_size :: "('k, 'v) TreeSortedMap \<Rightarrow> size_type" where
  "tree_size t = node_size t"

definition tree_insert ::
  "'k comparator \<Rightarrow> 'k \<Rightarrow> 'v \<Rightarrow> ('k::default, 'v::default) TreeSortedMap \<Rightarrow> ('k, 'v) TreeSortedMap" where
  "tree_insert cmp key val t = node_insert cmp key val t"

definition tree_erase ::
  "'k comparator \<Rightarrow> 'k \<Rightarrow> ('k::default, 'v::default) TreeSortedMap \<Rightarrow> ('k, 'v) TreeSortedMap" where
  "tree_erase cmp key t = node_erase cmp key t"

primrec tree_contains :: "'k comparator \<Rightarrow> 'k \<Rightarrow> ('k, 'v) TreeSortedMap \<Rightarrow> bool" where
  "tree_contains cmp key EmptyRep = False"
| "tree_contains cmp key (Rep e c n l r) =
     (if is_empty (Rep e c n l r) then False
      else case cmp key (fst e) of
        Same \<Rightarrow> True
      | Ascending \<Rightarrow> tree_contains cmp key l
      | Descending \<Rightarrow> tree_contains cmp key r)"

definition tree_lower_bound ::
  "'k comparator \<Rightarrow> 'k \<Rightarrow> ('k, 'v) TreeSortedMap \<Rightarrow> ('k, 'v) LlrbNodeIterator" where
  "tree_lower_bound cmp key t = iter_LowerBound cmp t key"

definition tree_find ::
  "'k comparator \<Rightarrow> 'k \<Rightarrow> ('k::default, 'v::default) TreeSortedMap \<Rightarrow> ('k, 'v) LlrbNodeIterator" where
  "tree_find cmp key t =
     (let found = tree_lower_bound cmp key t in
      if \<not> is_end found \<and> cmp key (fst (entry (hd found))) = Same then found else iter_end)"

primrec tree_find_index :: "'k comparator \<Rightarrow> 'k \<Rightarrow> size_type \<Rightarrow> ('k, 'v) TreeSortedMap \<Rightarrow> size_type" where
  "tree_find_index cmp key pruned_nodes EmptyRep = npos"
| "tree_find_index cmp key pruned_nodes (Rep e c n l r) =
     (if is_empty (Rep e c n l r) then npos
      else case cmp key (fst e) of
        Same \<Rightarrow> pruned_nodes + node_size l
      | Ascending \<Rightarrow> tree_find_index cmp key pruned_nodes l
      | Descending \<Rightarrow> tree_find_index cmp key (pruned_nodes + (node_size l + 1)) r)"

definition tree_begin :: "('k, 'v) TreeSortedMap \<Rightarrow> ('k, 'v) LlrbNodeIterator" where
  "tree_begin t = iter_begin t"

definition tree_end :: "('k, 'v) TreeSortedMap \<Rightarrow> ('k, 'v) LlrbNodeIterator" where
  "tree_end t = iter_end"

definition tree_min :: "('k, 'v) TreeSortedMap \<Rightarrow> ('k, 'v) LlrbNodeIterator" where
  "tree_min t = tree_begin t"

definition tree_max :: "('k, 'v) TreeSortedMap \<Rightarrow> ('k, 'v) LlrbNodeIterator" where
  "tree_max t = (if tree_empty t then tree_end t else [max_node t])"

end
