(* ===== verification/ArrayMap.thy ===== *)
theory ArrayMap
  imports TreeMap
begin

text \<open>
  \<open>Firestore/core/src/immutable/array_sorted_map.h\<close>: the array of at most \<open>kFixedSize\<close> entries
  and the sorted map over it.  An iterator is an index into the array.  The algorithms of the
  standard library are modelled by what the standard promises: \<open>std::find_if\<close> the first index,
  \<open>std::lower_bound\<close> the partition point, \<open>std::sort\<close> a sorted permutation.
\<close>

section \<open>The fixed array\<close>

instantiation prod :: (default, default) default
begin

definition default_prod :: "'a \<times> 'b" where
  "default_prod = (default, default)"

instance ..

end

definition kFixedSize :: size_type where
  "kFixedSize = 25"

record 'a FixedArray =
  contents :: "'a list"
  fa_size :: size_type

definition FixedArray_init :: "('a::default) FixedArray" where
  "FixedArray_init = \<lparr>contents = replicate (unat kFixedSize) default, fa_size = 0\<rparr>"

text \<open>The entries between \<open>begin()\<close> and \<open>end()\<close>.\<close>

definition elements :: "'a FixedArray \<Rightarrow> 'a list" where
  "elements a = take (unat (fa_size a)) (contents a)"

definition append_range :: "'a list \<Rightarrow> 'a FixedArray \<Rightarrow> 'a FixedArray option" where
  "append_range src a =
     (let appending = (of_nat (length src) :: size_type);
          new_size = fa_size a + appending;
          last = unat (fa_size a) + length src in
      if \<not> new_size \<le> kFixedSize then None
      else if length (contents a) < last then None
      else Some \<lparr>contents = take (unat (fa_size a)) (contents a) @ src @ drop last (contents a),
                 fa_size = new_size\<rparr>)"

definition append_value :: "'a \<Rightarrow> 'a FixedArray \<Rightarrow> 'a FixedArray option" where
  "append_value v a =
     (let new_size = fa_size a + 1 in
      if \<not> new_size \<le> kFixedSize then None
      else if length (contents a) \<le> unat (fa_size a) then None
      else Some \<lparr>contents = (contents a)[unat (fa_size a) := v], fa_size = new_size\<rparr>)"

definition FixedArray_range :: "('a::default) list \<Rightarrow> 'a FixedArray option" where
  "FixedArray_range src = append_range src FixedArray_init"

section \<open>The map over an array\<close>

type_synonym ('k, 'v) ArraySortedMap = "('k \<times> 'v) FixedArray"

definition array_init :: "('k::default, 'v::default) ArraySortedMap" where
  "array_init = FixedArray_init"

primrec sorted_in :: "'k comparator \<Rightarrow> 'k \<times> 'v \<Rightarrow> ('k \<times> 'v) list \<Rightarrow> ('k \<times> 'v) list" where
  "sorted_in cmp e [] = [e]"
| "sorted_in cmp e (p # ps) =
     (if cmp (fst p) (fst e) = Ascending then p # sorted_in cmp e ps else e # p # ps)"

definition SortedArray ::
  "'k comparator \<Rightarrow> ('k::default \<times> 'v::default) list \<Rightarrow> ('k, 'v) ArraySortedMap option" where
  "SortedArray cmp entries = FixedArray_range (foldr (sorted_in cmp) entries [])"

definition array_size :: "('k, 'v) ArraySortedMap \<Rightarrow> size_type" where
  "array_size a = fa_size a"

definition array_empty :: "('k, 'v) ArraySortedMap \<Rightarrow> bool" where
  "array_empty a \<longleftrightarrow> array_size a = 0"

definition array_begin :: "('k, 'v) ArraySortedMap \<Rightarrow> nat" where
  "array_begin a = 0"

definition array_end :: "('k, 'v) ArraySortedMap \<Rightarrow> nat" where
  "array_end a = array_begin a + unat (fa_size a)"

definition array_lower_bound :: "'k comparator \<Rightarrow> 'k \<Rightarrow> ('k, 'v) ArraySortedMap \<Rightarrow> nat" where
  "array_lower_bound cmp key a =
     length (takeWhile (\<lambda>el. cmp (fst el) key = Ascending) (elements a))"

definition array_find :: "'k comparator \<Rightarrow> 'k \<Rightarrow> ('k, 'v) ArraySortedMap \<Rightarrow> nat" where
  "array_find cmp key a =
     length (takeWhile (\<lambda>kv. cmp key (fst kv) \<noteq> Same) (elements a))"

definition array_contains :: "'k comparator \<Rightarrow> 'k \<Rightarrow> ('k, 'v) ArraySortedMap \<Rightarrow> bool" where
  "array_contains cmp key a \<longleftrightarrow> array_find cmp key a \<noteq> array_end a"

definition array_find_index :: "'k comparator \<Rightarrow> 'k \<Rightarrow> ('k, 'v) ArraySortedMap \<Rightarrow> size_type" where
  "array_find_index cmp key a =
     (let found = array_find cmp key a in
      if found = array_end a then npos else of_nat (found - array_begin a))"

definition array_min :: "('k, 'v) ArraySortedMap \<Rightarrow> nat" where
  "array_min a = array_begin a"

definition array_max :: "('k, 'v) ArraySortedMap \<Rightarrow> nat" where
  "array_max a = (if array_empty a then array_end a else array_end a - 1)"

definition array_insert ::
  "'k comparator \<Rightarrow> 'k \<Rightarrow> 'v \<Rightarrow> ('k::default, 'v::default) ArraySortedMap \<Rightarrow> ('k, 'v) ArraySortedMap option" where
  "array_insert cmp key val a =
     (let current_end = array_end a;
          pos = array_lower_bound cmp key a;
          here = elements a ! pos;
          replacing_entry = (pos \<noteq> current_end \<and> cmp key (fst here) = Same) in
      if replacing_entry \<and> val = snd here then Some a
      else do {
        copy \<leftarrow> FixedArray_range (take pos (elements a));
        copy \<leftarrow> append_value (key, val) copy;
        append_range (drop (if replacing_entry then pos + 1 else pos) (elements a)) copy
      })"

definition array_erase ::
  "'k comparator \<Rightarrow> 'k \<Rightarrow> ('k::default, 'v::default) ArraySortedMap \<Rightarrow> ('k, 'v) ArraySortedMap option" where
  "array_erase cmp key a =
     (let current_end = array_end a; pos = array_find cmp key a in
      if pos = current_end then Some a
      else if array_size a \<le> 1 then Some FixedArray_init
      else do {
        copy \<leftarrow> FixedArray_range (take pos (elements a));
        append_range (drop (pos + 1) (elements a)) copy
      })"

end
