(* ===== verification/ForwardIterator.thy ===== *)
theory ForwardIterator
  imports Prelude
begin

text \<open>
  Range-based loops over the forward iterators of \<open>Firestore/core/src/immutable\<close>, and the
  contract under which such a loop ends and yields the entries between its two iterators.
\<close>

text \<open>
  A range-based \<open>for\<close>: dereference and increment until the iterators compare equal.  The walk
  that would not end, or that leaves the sequence, is \<open>None\<close>.
\<close>

partial_function (option) walk ::
  "('i \<Rightarrow> 'a option) \<Rightarrow> ('i \<Rightarrow> 'i option) \<Rightarrow> ('i \<Rightarrow> 'i \<Rightarrow> bool) \<Rightarrow> 'i \<Rightarrow> 'i \<Rightarrow> 'a list option" where
  "walk get_it next_it eq_it b e =
     (if eq_it b e then Some []
      else do {
        x \<leftarrow> get_it b;
        b' \<leftarrow> next_it b;
        xs \<leftarrow> walk get_it next_it eq_it b' e;
        Some (x # xs)
      })"

locale forward_iterator =
  fixes get_it :: "'i \<Rightarrow> 'a option" and next_it :: "'i \<Rightarrow> 'i option" and eq_it :: "'i \<Rightarrow> 'i \<Rightarrow> bool"
    and remaining :: "'i \<Rightarrow> 'a list" and valid :: "'i \<Rightarrow> bool"
  assumes step: "valid it \<Longrightarrow> remaining it = x # xs \<Longrightarrow>
      get_it it = Some x \<and> (\<exists>it'. next_it it = Some it' \<and> valid it' \<and> remaining it' = xs)"
    and same: "valid a \<Longrightarrow> valid b \<Longrightarrow> eq_it a b \<longleftrightarrow> remaining a = remaining b"
begin

lemma walk_between:
  "valid b \<Longrightarrow> valid e \<Longrightarrow> remaining b = xs @ remaining e \<Longrightarrow> walk get_it next_it eq_it b e = Some xs"
proof (induction xs arbitrary: b)
  case Nil
  then show ?case by (simp add: same walk.simps)
next
  case (Cons x xs)
  have "\<not> eq_it b e" using same [OF Cons.prems(1,2)] Cons.prems(3) by simp
  moreover obtain b' where "get_it b = Some x" "next_it b = Some b'" "valid b'" "remaining b' = xs @ remaining e"
    using step [OF Cons.prems(1), of x] Cons.prems(3) by auto
  ultimately show ?case using Cons.IH [of b'] Cons.prems(2) by (simp add: walk.simps [of _ _ _ b])
qed

end

end
