(* ===== verification/SortedMap.thy ===== *)
theory SortedMap
  imports ArrayMap ForwardIterator
begin

text \<open>
  \<open>Firestore/core/src/immutable/sorted_map.h\<close>, \<open>sorted_map_iterator.h\<close>, \<open>keys_view.h\<close> and
  \<open>sorted_set.h\<close>: the value type that holds an array of up to 25 entries or a tree, with the
  switch from one to the other, its iterators and key ranges, and the sets over it.  The tagged
  unions of the code are datatypes; every member function that switches on the tag is a function by
  cases.  An iterator into an array is the array and an index.
\<close>

section \<open>The tagged unions\<close>

datatype ('k, 'v) SortedMap =
    ArrayTag "('k, 'v) ArraySortedMap"
  | TreeTag "('k, 'v) TreeSortedMap"

datatype ('k, 'v) SortedMapIterator =
    ArrayIter "('k, 'v) ArraySortedMap" nat
  | TreeIter "('k, 'v) LlrbNodeIterator"

fun smi_get :: "('k::default, 'v::default) SortedMapIterator \<Rightarrow> ('k \<times> 'v) option" where
  "smi_get (ArrayIter a i) = (if i < length (contents a) then Some (contents a ! i) else None)"
| "smi_get (TreeIter it) = iter_get it"

fun smi_next :: "('k, 'v) SortedMapIterator \<Rightarrow> ('k, 'v) SortedMapIterator option" where
  "smi_next (ArrayIter a i) = (if i < length (contents a) then Some (ArrayIter a (i + 1)) else None)"
| "smi_next (TreeIter it) = map_option TreeIter (iter_next it)"

fun smi_eq ::
  "('k::default, 'v::default) SortedMapIterator \<Rightarrow> ('k, 'v) SortedMapIterator \<Rightarrow> bool" where
  "smi_eq (ArrayIter a i) (ArrayIter b j) \<longleftrightarrow> i = j"
| "smi_eq (TreeIter x) (TreeIter y) \<longleftrightarrow> iter_eq x y"
| "smi_eq (ArrayIter a i) (TreeIter y) \<longleftrightarrow> False"
| "smi_eq (TreeIter x) (ArrayIter b j) \<longleftrightarrow> False"

section \<open>The map\<close>

definition sm_init :: "('k::default, 'v::default) SortedMap" where
  "sm_init = ArrayTag array_init"

text \<open>
  The constructor from an initializer list leaves \<open>tag_\<close> unset when it builds a tree: there is
  no value of the union then that the other member functions could read.
\<close>

definition sm_of_list ::
  "'k comparator \<Rightarrow> ('k::default \<times> 'v::default) list \<Rightarrow> ('k, 'v) SortedMap option" where
  "sm_of_list cmp entries =
     (if length entries \<le> unat kFixedSize then map_option ArrayTag (SortedArray cmp entries)
      else None)"

fun sm_empty :: "('k, 'v) SortedMap \<Rightarrow> bool" where
  "sm_empty (ArrayTag a) = array_empty a"
| "sm_empty (TreeTag t) = tree_empty t"

fun sm_size :: "('k, 'v) SortedMap \<Rightarrow> size_type" where
  "sm_size (ArrayTag a) = array_size a"
| "sm_size (TreeTag t) = tree_size t"

fun sm_insert ::
  "'k comparator \<Rightarrow> 'k \<Rightarrow> 'v \<Rightarrow> ('k::default, 'v::default) SortedMap \<Rightarrow> ('k, 'v) SortedMap option" where
  "sm_insert cmp key val (ArrayTag a) =
     (if array_size a \<ge> kFixedSize then
        let tree = tree_Create cmp (elements a) in Some (TreeTag (tree_insert cmp key val tree))
      else map_option ArrayTag (array_insert cmp key val a))"
| "sm_insert cmp key val (TreeTag t) = Some (TreeTag (tree_insert cmp key val t))"

fun sm_erase ::
  "'k comparator \<Rightarrow> 'k \<Rightarrow> ('k::default, 'v::default) SortedMap \<Rightarrow> ('k, 'v) SortedMap option" where
  "sm_erase cmp key (ArrayTag a) = map_option ArrayTag (array_erase cmp key a)"
| "sm_erase cmp key (TreeTag t) =
     (let result = tree_erase cmp key t in
      if tree_empty result then Some sm_init else Some (TreeTag result))"

fun sm_contains :: "'k comparator \<Rightarrow> 'k \<Rightarrow> ('k, 'v) SortedMap \<Rightarrow> bool" where
  "sm_contains cmp key (ArrayTag a) = array_contains cmp key a"
| "sm_contains cmp key (TreeTag t) = tree_contains cmp key t"

fun sm_find ::
  "'k comparator \<Rightarrow> 'k \<Rightarrow> ('k::default, 'v::default) SortedMap \<Rightarrow> ('k, 'v) SortedMapIterator" where
  "sm_find cmp key (ArrayTag a) = ArrayIter a (array_find cmp key a)"
| "sm_find cmp key (TreeTag t) = TreeIter (tree_find cmp key t)"

fun sm_find_index :: "'k comparator \<Rightarrow> 'k \<Rightarrow> ('k, 'v) SortedMap \<Rightarrow> size_type" where
  "sm_find_index cmp key (ArrayTag a) = array_find_index cmp key a"
| "sm_find_index cmp key (TreeTag t) = tree_find_index cmp key 0 t"

fun sm_lower_bound :: "'k comparator \<Rightarrow> 'k \<Rightarrow> ('k, 'v) SortedMap \<Rightarrow> ('k, 'v) SortedMapIterator" where
  "sm_lower_bound cmp key (ArrayTag a) = ArrayIter a (array_lower_bound cmp key a)"
| "sm_lower_bound cmp key (TreeTag t) = TreeIter (tree_lower_bound cmp key t)"

fun sm_min :: "('k, 'v) SortedMap \<Rightarrow> ('k, 'v) SortedMapIterator" where
  "sm_min (ArrayTag a) = ArrayIter a (array_min a)"
| "sm_min (TreeTag t) = TreeIter (tree_min t)"

fun sm_max :: "('k, 'v) SortedMap \<Rightarrow> ('k, 'v) SortedMapIterator" where
  "sm_max (ArrayTag a) = ArrayIter a (array_max a)"
| "sm_max (TreeTag t) = TreeIter (tree_max t)"

fun sm_begin :: "('k, 'v) SortedMap \<Rightarrow> ('k, 'v) SortedMapIterator" where
  "sm_begin (ArrayTag a) = ArrayIter a (array_begin a)"
| "sm_begin (TreeTag t) = TreeIter (tree_begin t)"

fun sm_end :: "('k, 'v) SortedMap \<Rightarrow> ('k, 'v) SortedMapIterator" where
  "sm_end (ArrayTag a) = ArrayIter a (array_end a)"
| "sm_end (TreeTag t) = TreeIter (tree_end t)"

text \<open>A found iterator is dereferenced: \<open>None\<close> is a failed read, \<open>Some None\<close> the absent value.\<close>

definition sm_get ::
  "'k comparator \<Rightarrow> 'k \<Rightarrow> ('k::default, 'v::default) SortedMap \<Rightarrow> 'v option option" where
  "sm_get cmp key m =
     (let found = sm_find cmp key m in
      if \<not> smi_eq found (sm_end m) then map_option (\<lambda>e. Some (snd e)) (smi_get found)
      else Some None)"

section \<open>Ranges of keys\<close>

type_synonym ('k, 'v) KeysRange = "('k, 'v) SortedMapIterator \<times> ('k, 'v) SortedMapIterator"

definition sm_keys :: "('k, 'v) SortedMap \<Rightarrow> ('k, 'v) KeysRange" where
  "sm_keys m = (sm_begin m, sm_end m)"

definition sm_keys_from :: "'k comparator \<Rightarrow> 'k \<Rightarrow> ('k, 'v) SortedMap \<Rightarrow> ('k, 'v) KeysRange" where
  "sm_keys_from cmp key m = (sm_lower_bound cmp key m, sm_end m)"

definition sm_keys_in :: "'k comparator \<Rightarrow> 'k \<Rightarrow> 'k \<Rightarrow> ('k, 'v) SortedMap \<Rightarrow> ('k, 'v) KeysRange" where
  "sm_keys_in cmp start_key end_key m =
     (let empty_range = (cmp start_key end_key \<noteq> Ascending) in
      if empty_range then (sm_end m, sm_end m)
      else (sm_lower_bound cmp start_key m, sm_lower_bound cmp end_key m))"

definition walk_range :: "('k::default, 'v::default) KeysRange \<Rightarrow> ('k \<times> 'v) list option" where
  "walk_range r = walk smi_get smi_next smi_eq (fst r) (snd r)"

section \<open>Sets\<close>

datatype Empty = Empty

instantiation Empty :: default
begin

definition default_Empty :: Empty where
  "default_Empty = Empty"

instance ..

end

type_synonym 'k SortedSet = "('k, Empty) SortedMap"

definition set_init :: "('k::default) SortedSet" where
  "set_init = sm_init"

definition set_insert :: "'k comparator \<Rightarrow> 'k \<Rightarrow> ('k::default) SortedSet \<Rightarrow> 'k SortedSet option" where
  "set_insert cmp key s = sm_insert cmp key Empty s"

definition set_erase :: "'k comparator \<Rightarrow> 'k \<Rightarrow> ('k::default) SortedSet \<Rightarrow> 'k SortedSet option" where
  "set_erase cmp key s = sm_erase cmp key s"

definition set_contains :: "'k comparator \<Rightarrow> 'k \<Rightarrow> 'k SortedSet \<Rightarrow> bool" where
  "set_contains cmp key s = sm_contains cmp key s"

definition set_empty :: "'k SortedSet \<Rightarrow> bool" where
  "set_empty s = sm_empty s"

definition set_size :: "'k SortedSet \<Rightarrow> size_type" where
  "set_size s = sm_size s"

definition set_find_index :: "'k comparator \<Rightarrow> 'k \<Rightarrow> 'k SortedSet \<Rightarrow> size_type" where
  "set_find_index cmp key s = sm_find_index cmp key s"

definition set_values_from :: "'k comparator \<Rightarrow> 'k \<Rightarrow> 'k SortedSet \<Rightarrow> ('k, Empty) KeysRange" where
  "set_values_from cmp key s = sm_keys_from cmp key s"

definition set_values_in :: "'k comparator \<Rightarrow> 'k \<Rightarrow> 'k \<Rightarrow> 'k SortedSet \<Rightarrow> ('k, Empty) KeysRange" where
  "set_values_in cmp start_key end_key s = sm_keys_in cmp start_key end_key s"

primrec insert_all :: "'k comparator \<Rightarrow> 'k list \<Rightarrow> ('k::default) SortedSet \<Rightarrow> 'k SortedSet option" where
  "insert_all cmp [] s = Some s"
| "insert_all cmp (k # ks) s = Option.bind (set_insert cmp k s) (insert_all cmp ks)"

definition set_of_list :: "'k comparator \<Rightarrow> ('k::default) list \<Rightarrow> 'k SortedSet option" where
  "set_of_list cmp entries = insert_all cmp entries set_init"

definition set_values :: "('k::default) SortedSet \<Rightarrow> 'k list option" where
  "set_values s = map_option (map fst) (walk_range (sm_keys s))"

definition union_with ::
  "'k comparator \<Rightarrow> ('k::default) SortedSet \<Rightarrow> 'k SortedSet \<Rightarrow> 'k SortedSet option" where
  "union_with cmp this other =
     (let (result_ptr, other_ptr) = (if set_size this < set_size other then (other, this) else (this, other)) in
      Option.bind (set_values other_ptr) (\<lambda>ks. insert_all cmp ks result_ptr))"

definition set_eq :: "('k::default) SortedSet \<Rightarrow> 'k SortedSet \<Rightarrow> bool option" where
  "set_eq lhs rhs =
     (if set_size lhs \<noteq> set_size rhs then Some False
      else do {
        xs \<leftarrow> set_values lhs;
        ys \<leftarrow> set_values rhs;
        Some (xs = ys)
      })"

end
