(* ===== verification/SortedEntries.thy ===== *)
theory SortedEntries
  imports Prelude
begin

text \<open>
  A map as the list of its entries in strictly ascending order of the keys: insertion, removal
  and the entries from a key on.  This is the abstract state that the array and the tree of
  \<open>Firestore/core/src/immutable\<close> both stand for.
\<close>

abbreviation sorted_entries :: "('k::linorder \<times> 'v) list \<Rightarrow> bool" where
  "sorted_entries ps \<equiv> sorted_wrt (<) (map fst ps)"

section \<open>Insertion and removal\<close>

definition inserted :: "'k::linorder \<Rightarrow> 'v \<Rightarrow> ('k \<times> 'v) list \<Rightarrow> ('k \<times> 'v) list" where
  "inserted x y ps = filter (\<lambda>p. fst p < x) ps @ (x, y) # filter (\<lambda>p. x < fst p) ps"

lemma sorted_split:
  "sorted_entries (ps @ e # qs) \<longleftrightarrow>
   sorted_entries ps \<and> sorted_entries qs \<and> (\<forall>p \<in> set ps. fst p < fst e) \<and> (\<forall>q \<in> set qs. fst e < fst q)"
  by (auto simp: sorted_wrt_append dest: less_trans)

lemma inserted_split:
  assumes "sorted_entries (ps @ e # qs)"
  shows "x < fst e \<Longrightarrow> inserted x y (ps @ e # qs) = inserted x y ps @ e # qs"
    "fst e < x \<Longrightarrow> inserted x y (ps @ e # qs) = ps @ e # inserted x y qs"
    "fst e = x \<Longrightarrow> inserted x y (ps @ e # qs) = ps @ (x, y) # qs"
proof -
  have ps: "\<forall>p \<in> set ps. fst p < fst e" and qs: "\<forall>q \<in> set qs. fst e < fst q"
    using assms unfolding sorted_split by simp_all
  show "inserted x y (ps @ e # qs) = inserted x y ps @ e # qs" if "x < fst e"
  proof -
    have "filter (\<lambda>p. fst p < x) qs = []" "filter (\<lambda>p. x < fst p) qs = qs"
      using qs that by (fastforce simp: filter_empty_conv, fastforce simp: filter_id_conv)
    with that show ?thesis by (simp add: inserted_def)
  qed
  show "inserted x y (ps @ e # qs) = ps @ e # inserted x y qs" if "fst e < x"
  proof -
    have "filter (\<lambda>p. fst p < x) ps = ps" "filter (\<lambda>p. x < fst p) ps = []"
      using ps that by (fastforce simp: filter_id_conv, fastforce simp: filter_empty_conv)
    with that show ?thesis by (simp add: inserted_def)
  qed
  show "inserted x y (ps @ e # qs) = ps @ (x, y) # qs" if "fst e = x"
  proof -
    have "filter (\<lambda>p. fst p < x) ps = ps" "filter (\<lambda>p. x < fst p) ps = []"
      "filter (\<lambda>p. fst p < x) qs = []" "filter (\<lambda>p. x < fst p) qs = qs"
      using ps qs that by (fastforce simp: filter_id_conv filter_empty_conv)+
    with that show ?thesis by (simp add: inserted_def)
  qed
qed

definition erased :: "'k::linorder \<Rightarrow> ('k \<times> 'v) list \<Rightarrow> ('k \<times> 'v) list" where
  "erased x ps = filter (\<lambda>p. fst p \<noteq> x) ps"

lemma erased_split:
  assumes "sorted_entries (ps @ e # qs)"
  shows "x < fst e \<Longrightarrow> erased x (ps @ e # qs) = erased x ps @ e # qs"
    "fst e < x \<Longrightarrow> erased x (ps @ e # qs) = ps @ e # erased x qs"
    "fst e = x \<Longrightarrow> erased x (ps @ e # qs) = ps @ qs"
proof -
  have ps: "\<forall>p \<in> set ps. fst p < fst e" and qs: "\<forall>q \<in> set qs. fst e < fst q"
    using assms unfolding sorted_split by simp_all
  have "erased x ps = ps" if "fst e \<le> x" using ps that by (fastforce simp: erased_def filter_id_conv)
  moreover have "erased x qs = qs" if "x \<le> fst e" using qs that by (fastforce simp: erased_def filter_id_conv)
  ultimately show "x < fst e \<Longrightarrow> erased x (ps @ e # qs) = erased x ps @ e # qs"
    "fst e < x \<Longrightarrow> erased x (ps @ e # qs) = ps @ e # erased x qs"
    "fst e = x \<Longrightarrow> erased x (ps @ e # qs) = ps @ qs"
    by (simp_all add: erased_def)
qed

lemma sorted_filter: "sorted_entries ps \<Longrightarrow> sorted_entries (filter P ps)"
  by (induction ps) auto

lemma sorted_inserted: "sorted_entries ps \<Longrightarrow> sorted_entries (inserted x y ps)"
  by (auto simp: inserted_def sorted_filter sorted_wrt_append)

lemma sorted_erased: "sorted_entries ps \<Longrightarrow> sorted_entries (erased x ps)"
  by (simp add: erased_def sorted_filter)

lemma length_inserted: "length (inserted x y ps) \<le> Suc (length ps)"
proof -
  have "length (filter (\<lambda>p. fst p < x) ps) + length (filter (\<lambda>p. x < fst p) ps) \<le> length ps"
    by (induction ps) auto
  then show ?thesis by (simp add: inserted_def)
qed

lemma length_erased: "length (erased x ps) \<le> length ps"
  by (simp add: erased_def)

section \<open>Ranges\<close>

lemma filter_all: "(\<And>p. p \<in> set ps \<Longrightarrow> P p) \<Longrightarrow> filter P ps = ps"
  by (simp add: filter_id_conv)

lemma filter_none: "(\<And>p. p \<in> set ps \<Longrightarrow> \<not> P p) \<Longrightarrow> filter P ps = []"
  by (simp add: filter_empty_conv)

lemma take_below:
  "sorted_entries ps \<Longrightarrow> takeWhile (\<lambda>p. fst p < k) ps = filter (\<lambda>p. fst p < k) ps"
  by (induction ps) (auto intro!: filter_none [symmetric])

lemma drop_below:
  "sorted_entries ps \<Longrightarrow> dropWhile (\<lambda>p. fst p < k) ps = filter (\<lambda>p. k \<le> fst p) ps"
  by (induction ps) (auto intro!: filter_all [symmetric])

lemma at_least_split:
  assumes "sorted_entries (ps @ e # qs)"
  shows "k < fst e \<Longrightarrow> filter (\<lambda>p. k \<le> fst p) (ps @ e # qs) = filter (\<lambda>p. k \<le> fst p) ps @ e # qs"
    "fst e < k \<Longrightarrow> filter (\<lambda>p. k \<le> fst p) (ps @ e # qs) = filter (\<lambda>p. k \<le> fst p) qs"
    "fst e = k \<Longrightarrow> filter (\<lambda>p. k \<le> fst p) (ps @ e # qs) = e # qs"
proof -
  have ps: "\<And>p. p \<in> set ps \<Longrightarrow> fst p < fst e" and qs: "\<And>q. q \<in> set qs \<Longrightarrow> fst e < fst q"
    using assms unfolding sorted_split by simp_all
  have "filter (\<lambda>p. k \<le> fst p) qs = qs" if "k \<le> fst e"
    using qs that by (intro filter_all) fastforce
  moreover have "filter (\<lambda>p. k \<le> fst p) ps = []" if "fst e \<le> k"
    using ps that by (intro filter_none) fastforce
  ultimately show "k < fst e \<Longrightarrow> filter (\<lambda>p. k \<le> fst p) (ps @ e # qs) = filter (\<lambda>p. k \<le> fst p) ps @ e # qs"
    "fst e < k \<Longrightarrow> filter (\<lambda>p. k \<le> fst p) (ps @ e # qs) = filter (\<lambda>p. k \<le> fst p) qs"
    "fst e = k \<Longrightarrow> filter (\<lambda>p. k \<le> fst p) (ps @ e # qs) = e # qs"
    by simp_all
qed

lemma at_least_append:
  "sorted_entries ps \<Longrightarrow> filter (\<lambda>p. fst p < k) ps @ filter (\<lambda>p. k \<le> fst p) ps = ps"
  by (simp flip: take_below drop_below)

lemma at_least_member:
  assumes "sorted_entries ps"
  shows "(\<exists>p qs. filter (\<lambda>p. k \<le> fst p) ps = p # qs \<and> fst p = k) \<longleftrightarrow> k \<in> fst ` set ps"
proof
  assume "k \<in> fst ` set ps"
  then obtain p as bs where "ps = as @ p # bs" "fst p = k" by (auto simp: in_set_conv_decomp)
  with assms at_least_split(3) [of as p bs k]
  show "\<exists>p qs. filter (\<lambda>p. k \<le> fst p) ps = p # qs \<and> fst p = k" by auto
next
  assume "\<exists>p qs. filter (\<lambda>p. k \<le> fst p) ps = p # qs \<and> fst p = k"
  then obtain p qs where "filter (\<lambda>p. k \<le> fst p) ps = p # qs" "fst p = k" by blast
  then have "p \<in> set (filter (\<lambda>p. k \<le> fst p) ps)" by simp
  with \<open>fst p = k\<close> show "k \<in> fst ` set ps" by auto
qed

lemma at_least_present:
  assumes "sorted_entries ps" "filter (\<lambda>p. k \<le> fst p) ps = p # rs" "fst p = k"
  shows "rs = filter (\<lambda>p. k < fst p) ps"
proof -
  have "sorted_entries (p # rs)" using sorted_filter [OF assms(1)] assms(2) by metis
  then have "filter (\<lambda>p. k < fst p) rs = rs" using assms(3) by (intro filter_all) auto
  moreover have "filter (\<lambda>p. k < fst p) ps = filter (\<lambda>p. k < fst p) (filter (\<lambda>p. k \<le> fst p) ps)"
    by (simp, rule filter_cong) auto
  ultimately show ?thesis using assms(2,3) by simp
qed

lemma at_least_absent:
  fixes k :: "'k::linorder"
  shows "k \<notin> fst ` set ps \<Longrightarrow> filter (\<lambda>p. k \<le> fst p) ps = filter (\<lambda>p. k < fst p) ps"
  by (rule filter_cong) (auto simp: le_less image_iff)

lemma erased_parts:
  "sorted_entries ps \<Longrightarrow> erased k ps = filter (\<lambda>p. fst p < k) ps @ filter (\<lambda>p. k < fst p) ps"
proof -
  assume "sorted_entries ps"
  then have "erased k ps = filter (\<lambda>p. fst p \<noteq> k) (filter (\<lambda>p. fst p < k) ps @ filter (\<lambda>p. k \<le> fst p) ps)"
    by (simp add: erased_def at_least_append)
  also have "\<dots> = filter (\<lambda>p. fst p < k) ps @ filter (\<lambda>p. k < fst p) ps"
    by (simp, rule arg_cong2 [where f = append]; rule filter_cong) auto
  finally show ?thesis .
qed

lemma erased_absent: "k \<notin> fst ` set ps \<Longrightarrow> erased k ps = ps"
  by (auto simp: erased_def intro!: filter_all)

section \<open>The finite map of the entries\<close>

lemma sorted_distinct: "sorted_entries ps \<Longrightarrow> distinct (map fst ps)"
  by (simp add: strict_sorted_iff)

lemma sorted_map_of: "sorted_entries ps \<Longrightarrow> map_of ps k = Some v \<longleftrightarrow> (k, v) \<in> set ps"
  by (simp add: sorted_distinct map_of_eq_Some_iff)

lemma map_of_inserted: "sorted_entries ps \<Longrightarrow> map_of (inserted k v ps) = (map_of ps)(k \<mapsto> v)"
proof
  fix x assume "sorted_entries ps"
  then have "map_of (inserted k v ps) x = Some y \<longleftrightarrow> ((map_of ps)(k \<mapsto> v)) x = Some y" for y
    by (subst sorted_map_of [OF sorted_inserted]) (auto simp: inserted_def sorted_map_of)
  then show "map_of (inserted k v ps) x = ((map_of ps)(k \<mapsto> v)) x"
    by (metis option.exhaust)
qed

lemma map_of_erased: "map_of (erased k ps) = (map_of ps)(k := None)"
  by (induction ps) (auto simp: erased_def fun_eq_iff)

end
