(* ===== verification/ArrayMapSpec.thy ===== *)
theory ArrayMapSpec
  imports ArrayMap SortedEntries
begin

text \<open>
  The map of \<open>array_sorted_map.h\<close>: within its capacity every operation succeeds, keeps the entries
  sorted and does what the list of entries says; the searches find what they promise.
\<close>

section \<open>The array\<close>

definition array_ok :: "'a FixedArray \<Rightarrow> bool" where
  "array_ok a \<longleftrightarrow> length (contents a) = 25 \<and> unat (fa_size a) \<le> 25"

lemma length_elements: "array_ok a \<Longrightarrow> length (elements a) = unat (fa_size a)"
  by (simp add: array_ok_def elements_def)

lemma array_ok_init [simp]: "array_ok FixedArray_init" "elements FixedArray_init = []"
  by (simp_all add: array_ok_def FixedArray_init_def kFixedSize_def elements_def)

lemma append_range_ok:
  assumes "array_ok a" "length (elements a) + length src \<le> 25"
  shows "\<exists>b. append_range src a = Some b \<and> array_ok b \<and> elements b = elements a @ src"
proof -
  let ?n = "unat (fa_size a)"
  have n: "length (contents a) = 25" "?n + length src \<le> 25"
    using assms length_elements [OF assms(1)] by (simp_all add: array_ok_def)
  then have "unat (of_nat (length src) :: size_type) = length src"
    by (simp add: unat_of_nat)
  then have s: "unat (fa_size a + of_nat (length src)) = ?n + length src"
    using n by (simp add: unat_word_ariths)
  then have "fa_size a + of_nat (length src) \<le> kFixedSize"
    using n by (simp add: word_le_nat_alt kFixedSize_def)
  then show ?thesis
    using n s by (simp add: append_range_def Let_def array_ok_def elements_def)
qed

lemma append_value_range:
  "append_value v a = append_range [v] a"
proof -
  have "xs[n := v] = take n xs @ v # drop (Suc n) xs" if "n < length xs" for xs :: "'a list" and n
    using that by (simp add: upd_conv_take_nth_drop)
  then show ?thesis by (auto simp: append_value_def append_range_def Let_def)
qed

lemma FixedArray_range_ok:
  "length src \<le> 25 \<Longrightarrow> \<exists>b. FixedArray_range src = Some b \<and> array_ok b \<and> elements b = src"
  using append_range_ok [of FixedArray_init src] by (simp add: FixedArray_range_def)

lemma FixedArray_range_take:
  assumes "array_ok a"
  shows "\<exists>b. FixedArray_range (take n (elements a)) = Some b \<and> array_ok b \<and> elements b = take n (elements a)"
proof (rule FixedArray_range_ok)
  have "length (take n (elements a)) \<le> length (elements a)" by simp
  then show "length (take n (elements a)) \<le> 25"
    using assms length_elements [OF assms] unfolding array_ok_def by linarith
qed

definition array_wf :: "('k::linorder, 'v) ArraySortedMap \<Rightarrow> bool" where
  "array_wf a \<longleftrightarrow> array_ok a \<and> sorted_entries (elements a)"

lemma array_lower_bound_at:
  "sorted_entries (elements a) \<Longrightarrow>
   take (array_lower_bound Compare k a) (elements a) = filter (\<lambda>p. fst p < k) (elements a)"
  "sorted_entries (elements a) \<Longrightarrow>
   drop (array_lower_bound Compare k a) (elements a) = filter (\<lambda>p. k \<le> fst p) (elements a)"
  unfolding array_lower_bound_def Compare_simps
  by (metis take_below takeWhile_eq_take, metis drop_below dropWhile_eq_drop)

lemma array_find_at:
  assumes "sorted_entries (elements a)"
  shows "drop (array_find Compare k a) (elements a) =
      (if k \<in> fst ` set (elements a) then filter (\<lambda>p. k \<le> fst p) (elements a) else [])"
    "take (array_find Compare k a) (elements a) =
      (if k \<in> fst ` set (elements a) then filter (\<lambda>p. fst p < k) (elements a) else elements a)"
proof -
  let ?ps = "elements a"
  have "dropWhile (\<lambda>p. k \<noteq> fst p) ps = (if k \<in> fst ` set ps then filter (\<lambda>p. k \<le> fst p) ps else [])"
    "takeWhile (\<lambda>p. k \<noteq> fst p) ps = (if k \<in> fst ` set ps then filter (\<lambda>p. fst p < k) ps else ps)"
    if "sorted_entries ps" for ps :: "('a \<times> 'b) list"
    using that by (induction ps) (auto intro!: filter_all [symmetric] filter_none [symmetric])
  from this [OF assms] show "drop (array_find Compare k a) ?ps =
      (if k \<in> fst ` set ?ps then filter (\<lambda>p. k \<le> fst p) ?ps else [])"
    "take (array_find Compare k a) ?ps = (if k \<in> fst ` set ?ps then filter (\<lambda>p. fst p < k) ?ps else ?ps)"
    unfolding array_find_def Compare_simps by (metis dropWhile_eq_drop, metis takeWhile_eq_take)
qed

lemma array_at_end:
  "array_ok a \<Longrightarrow> pos \<le> length (elements a) \<Longrightarrow> pos = array_end a \<longleftrightarrow> drop pos (elements a) = []"
  using length_elements [of a] by (auto simp: array_end_def array_begin_def)

lemma array_positions:
  "array_lower_bound cmp k a \<le> length (elements a)" "array_find cmp k a \<le> length (elements a)"
  by (simp_all add: array_lower_bound_def array_find_def length_takeWhile_le)

lemma array_insert_ok:
  assumes "array_wf a" "unat (fa_size a) < 25"
  shows "\<exists>b. array_insert Compare k v a = Some b \<and> array_wf b \<and> elements b = inserted k v (elements a)"
proof -
  let ?ps = "elements a" and ?pos = "array_lower_bound Compare k a"
  have a: "array_ok a" "sorted_entries ?ps" using assms(1) by (simp_all add: array_wf_def)
  have len: "length ?ps < 25" using assms(2) length_elements [OF a(1)] by simp
  have tk: "take ?pos ?ps = filter (\<lambda>p. fst p < k) ?ps" and dr: "drop ?pos ?ps = filter (\<lambda>p. k \<le> fst p) ?ps"
    using array_lower_bound_at [OF a(2)] by blast+
  define rep where "rep \<longleftrightarrow> ?pos \<noteq> array_end a \<and> k = fst (?ps ! ?pos)"
  have end_iff: "?pos \<noteq> array_end a \<longleftrightarrow> drop ?pos ?ps \<noteq> []"
    using array_at_end [OF a(1) array_positions(1)] by blast
  have hd_drop: "drop ?pos ?ps = ?ps ! ?pos # drop (Suc ?pos) ?ps" if "drop ?pos ?ps \<noteq> []"
    using that by (simp add: Cons_nth_drop_Suc)
  have rest: "drop (if rep then ?pos + 1 else ?pos) ?ps = filter (\<lambda>p. k < fst p) ?ps"
  proof (cases rep)
    case True
    then have eq: "drop ?pos ?ps = ?ps ! ?pos # drop (Suc ?pos) ?ps" "fst (?ps ! ?pos) = k"
      using hd_drop end_iff by (simp_all add: rep_def)
    show ?thesis using True at_least_present [OF a(2) eq(1) [unfolded dr] eq(2)] by simp
  next
    case False
    have "k \<notin> fst ` set ?ps"
    proof
      assume "k \<in> fst ` set ?ps"
      then obtain p qs where "drop ?pos ?ps = p # qs" "fst p = k"
        using at_least_member [OF a(2), of k] dr by auto
      with False hd_drop end_iff show False by (auto simp: rep_def)
    qed
    then show ?thesis using False dr at_least_absent by simp
  qed
  have step: "array_insert Compare k v a =
      (if rep \<and> v = snd (?ps ! ?pos) then Some a
       else Option.bind (FixedArray_range (take ?pos ?ps)) (\<lambda>copy.
         Option.bind (append_value (k, v) copy) (append_range (filter (\<lambda>p. k < fst p) ?ps))))"
    unfolding rest [symmetric] by (simp add: array_insert_def Let_def Compare_simps rep_def)
  show ?thesis
  proof (cases "rep \<and> v = snd (?ps ! ?pos)")
    case True
    then have "?ps = take ?pos ?ps @ (k, v) # filter (\<lambda>p. k < fst p) ?ps"
      using rest hd_drop end_iff by (simp add: rep_def) (metis append_take_drop_id prod.collapse)
    then have "?ps = inserted k v ?ps" using tk by (simp add: inserted_def)
    with True assms(1) step show ?thesis by simp
  next
    case False
    obtain b where b: "FixedArray_range (take ?pos ?ps) = Some b" "array_ok b" "elements b = take ?pos ?ps"
      using FixedArray_range_take [OF a(1)] by blast
    have parts: "length (take ?pos ?ps) + length (filter (\<lambda>p. k < fst p) ?ps) \<le> length ?ps"
      unfolding rest [symmetric] by (simp add: min_def)
    have "length (elements b) + length [(k, v)] \<le> 25" using parts len b(3) by simp
    from append_range_ok [OF b(2) this]
    obtain c where c: "append_value (k, v) b = Some c" "array_ok c" "elements c = take ?pos ?ps @ [(k, v)]"
      by (auto simp: append_value_range b(3))
    have "length (elements c) + length (filter (\<lambda>p. k < fst p) ?ps) \<le> 25" using parts len c(3) by simp
    from append_range_ok [OF c(2) this]
    obtain d where d: "append_range (filter (\<lambda>p. k < fst p) ?ps) c = Some d" "array_ok d"
      "elements d = inserted k v ?ps"
      by (auto simp: c(3) tk inserted_def)
    have "array_insert Compare k v a = Some d"
      using b(1) c(1) d(1) step unfolding if_not_P [OF False] by simp
    with d sorted_inserted [OF a(2)] show ?thesis by (simp add: array_wf_def)
  qed
qed

lemma array_erase_ok:
  assumes "array_wf a"
  shows "\<exists>b. array_erase Compare k a = Some b \<and> array_wf b \<and> elements b = erased k (elements a)"
proof -
  let ?ps = "elements a" and ?pos = "array_find Compare k a"
  have a: "array_ok a" "sorted_entries ?ps" using assms by (simp_all add: array_wf_def)
  have len: "length ?ps \<le> 25" using a(1) length_elements [OF a(1)] by (simp add: array_ok_def)
  note at_pos = array_find_at [OF a(2), of k]
  note end_iff = array_at_end [OF a(1) array_positions(2), of Compare k]
  show ?thesis
  proof (cases "k \<in> fst ` set ?ps")
    case False
    then have "array_erase Compare k a = Some a" using end_iff at_pos(1) by (simp add: array_erase_def)
    with False assms show ?thesis by (simp add: erased_absent)
  next
    case True
    then obtain p qs where p: "drop ?pos ?ps = p # qs" "fst p = k"
      using at_least_member [OF a(2), of k] at_pos(1) by auto
    then have rest: "drop (?pos + 1) ?ps = filter (\<lambda>p. k < fst p) ?ps"
      using at_least_present [OF a(2), of k p qs] at_pos(1) True
      by (simp add: drop_Suc drop_tl flip: drop_drop)
    have tk: "take ?pos ?ps = filter (\<lambda>p. fst p < k) ?ps" using at_pos(2) True by simp
    have goal: "erased k ?ps = take ?pos ?ps @ drop (?pos + 1) ?ps"
      unfolding rest tk by (rule erased_parts [OF a(2)])
    have no_end: "?pos \<noteq> array_end a" using p(1) end_iff by simp
    show ?thesis
    proof (cases "array_size a \<le> 1")
      case True
      then have "length ?ps \<le> 1" by (simp add: array_size_def length_elements [OF a(1)] word_le_nat_alt)
      moreover have "length (drop ?pos ?ps) = Suc (length qs)" using p(1) by simp
      ultimately have "?pos = 0" "length ?ps \<le> Suc ?pos" by simp_all
      then have "erased k ?ps = []" unfolding goal by simp
      with True no_end show ?thesis by (simp add: array_erase_def Let_def array_wf_def)
    next
      case False
      obtain b where b: "FixedArray_range (take ?pos ?ps) = Some b" "array_ok b" "elements b = take ?pos ?ps"
        using FixedArray_range_take [OF a(1)] by blast
      have "length (elements b) + length (drop (?pos + 1) ?ps) \<le> 25" using len b(3) by simp
      from append_range_ok [OF b(2) this]
      obtain c where "append_range (drop (?pos + 1) ?ps) b = Some c" "array_ok c" "elements c = erased k ?ps"
        by (auto simp: goal b(3))
      with False no_end b(1) sorted_erased [OF a(2)] show ?thesis
        by (simp add: array_erase_def Let_def array_wf_def)
    qed
  qed
qed

lemma array_lookups:
  assumes "array_wf a"
  shows "array_contains Compare k a \<longleftrightarrow> k \<in> fst ` set (elements a)"
    "array_find_index Compare k a = (if array_contains Compare k a
       then of_nat (length (filter (\<lambda>p. fst p < k) (elements a))) else npos)"
proof -
  have a: "array_ok a" "sorted_entries (elements a)" using assms by (simp_all add: array_wf_def)
  note at_pos = array_find_at [OF a(2), of k]
  have mem: "filter (\<lambda>p. k \<le> fst p) (elements a) \<noteq> []" if "k \<in> fst ` set (elements a)"
    using that by (force simp: filter_empty_conv)
  have at_end: "array_find Compare k a = array_end a \<longleftrightarrow> k \<notin> fst ` set (elements a)"
    using array_at_end [OF a(1) array_positions(2), of Compare k] at_pos(1) mem by auto
  then show has: "array_contains Compare k a \<longleftrightarrow> k \<in> fst ` set (elements a)"
    by (simp add: array_contains_def)
  have "array_find Compare k a = length (filter (\<lambda>p. fst p < k) (elements a))" if "k \<in> fst ` set (elements a)"
    using that at_pos(2) array_positions(2) [of Compare k a] by (metis length_take min.absorb2)
  then show "array_find_index Compare k a = (if array_contains Compare k a
       then of_nat (length (filter (\<lambda>p. fst p < k) (elements a))) else npos)"
    using at_end unfolding has array_find_index_def Let_def array_begin_def by auto
qed

end
