(* ===== verification/LlrbSpec.thy ===== *)
theory LlrbSpec
  imports LlrbNode SortedEntries
begin

text \<open>
  The invariant of the tree of \<open>llrb_node.h\<close> (order, left-leaning red-black balance, stored
  sizes) and what insertion and removal do to its entries.
\<close>

section \<open>Invariant\<close>

primrec inorder :: "('k, 'v) LlrbNode \<Rightarrow> ('k \<times> 'v) list" where
  "inorder EmptyRep = []"
| "inorder (Rep e c n l r) = inorder l @ e # inorder r"

primrec black_height :: "('k, 'v) LlrbNode \<Rightarrow> nat" where
  "black_height EmptyRep = 0"
| "black_height (Rep e c n l r) = black_height l + (if c = Black then 1 else 0)"

primrec sized :: "('k, 'v) LlrbNode \<Rightarrow> bool" where
  "sized EmptyRep = True"
| "sized (Rep e c n l r) \<longleftrightarrow> n = rep_size l + 1 + rep_size r \<and> sized l \<and> sized r"

text \<open>Below the root: no red right child, no red child of a red node, equal black heights.\<close>

primrec balanced :: "('k, 'v) LlrbNode \<Rightarrow> bool" where
  "balanced EmptyRep = True"
| "balanced (Rep e c n l r) \<longleftrightarrow>
     balanced l \<and> balanced r \<and> black_height l = black_height r \<and> \<not> red r \<and> (c = Red \<longrightarrow> \<not> red l)"

fun almost_balanced :: "('k, 'v) LlrbNode \<Rightarrow> bool" where
  "almost_balanced EmptyRep \<longleftrightarrow> True"
| "almost_balanced (Rep e c n l r) \<longleftrightarrow>
     balanced l \<and> balanced r \<and> black_height l = black_height r \<and> \<not> red r"

section \<open>Sizes\<close>

lemma inorder_empty [simp]: "inorder t = [] \<longleftrightarrow> t = EmptyRep" "[] = inorder t \<longleftrightarrow> t = EmptyRep"
  by (cases t; simp)+

lemma length_inorder: "length (inorder t) = nodes t"
  by (induction t) simp_all

lemma rep_size_nodes: "sized t \<Longrightarrow> rep_size t = of_nat (nodes t)"
  by (induction t) (simp_all add: algebra_simps)

lemma size_31: "(ucast (ucast (a :: 31 word) + 1 + ucast b :: u32) :: 31 word) = a + 1 + b"
proof -
  have low: "(ucast (of_nat n :: u32) :: 31 word) = of_nat n" for n
    by (rule word_unat_eq_iff [THEN iffD2])
      (simp add: unsigned_ucast_eq unat_of_nat take_bit_eq_mod mod_mod_cancel)
  have "(ucast a + 1 + ucast b :: u32) = of_nat (unat a + 1 + unat b)"
    by simp
  then show ?thesis by (simp only: low) simp
qed

lemma make_rep_eq: "make_rep e c l r = Rep e c (rep_size l + 1 + rep_size r) l r"
  by (simp add: make_rep_def node_size_def size_31)

lemma set_size_eq:
  "set_size (node_size l + 1 + node_size r) (Rep e c n l r) = make_rep e c l r"
  by (simp add: make_rep_eq node_size_def size_31)

text \<open>A tree with fewer than \<open>2^31\<close> entries looks empty only when it is.\<close>

definition small :: "('k, 'v) LlrbNode \<Rightarrow> bool" where
  "small t \<longleftrightarrow> sized t \<and> nodes t < 2 ^ 31"

lemma small_EmptyRep [simp]: "small EmptyRep"
  by (simp add: small_def)

lemma is_empty_EmptyRep [simp]: "is_empty EmptyRep"
  by (simp add: is_empty_def node_size_def)

lemma unat_31: "n < 2 ^ 31 \<Longrightarrow> unat (of_nat n :: 31 word) = n"
  by (simp add: unat_of_nat)

lemma node_size_nodes: "small t \<Longrightarrow> unat (node_size t) = nodes t"
proof -
  assume "small t"
  then have "unat (rep_size t) = nodes t" "nodes t < 2 ^ 32"
    using rep_size_nodes [of t] by (simp_all add: small_def unat_31)
  then show ?thesis by (simp add: node_size_def unsigned_ucast_eq take_bit_nat_eq_self)
qed

lemma is_empty_small: "small t \<Longrightarrow> is_empty t \<longleftrightarrow> t = EmptyRep"
  using node_size_nodes [of t] by (cases t) (auto simp: is_empty_def node_size_def)

lemma small_children: "small (Rep e c n l r) \<Longrightarrow> small l \<and> small r"
  by (simp add: small_def)

section \<open>Rotations\<close>

lemma RotateLeft_Rep:
  "RotateLeft (Rep e c n l (Rep er cr nr rl rr)) = Rep er c n (make_rep e Red l rl) rr"
  by (simp add: RotateLeft_def Let_def)

lemma RotateRight_Rep:
  "RotateRight (Rep e c n (Rep el cl nl ll lr) r) = Rep el c n ll (make_rep e Red lr r)"
  by (simp add: RotateRight_def Let_def)

primrec flip :: "Color \<Rightarrow> Color" where
  "flip Black = Red"
| "flip Red = Black"

lemma OppositeColor_flip: "OppositeColor t = flip (color t)"
  by (cases "color t") (simp_all add: OppositeColor_def)

lemma FlipColor_Rep:
  "FlipColor (Rep e c n (Rep el cl nl ll lr) (Rep er cr nr rl rr)) =
   Rep e (flip c) n (Rep el (flip cl) nl ll lr) (Rep er (flip cr) nr rl rr)"
  by (simp add: FlipColor_def OppositeColor_flip Let_def)

lemma red_simps [simp]: "\<not> red EmptyRep" "red (Rep e c n l r) \<longleftrightarrow> c = Red"
  by (simp_all add: red_def)

lemma not_Black [simp]: "c \<noteq> Black \<longleftrightarrow> c = Red"
  by (cases c) simp_all

lemma not_Red: "c \<noteq> Red \<longleftrightarrow> c = Black"
  by (cases c) simp_all

lemmas rotations = RotateLeft_Rep RotateRight_Rep FlipColor_Rep make_rep_eq

section \<open>Repair\<close>

text \<open>
  What \<open>FixUp\<close> makes of a node with repaired children: red children of any side are allowed, and
  a red left child with a red left child of its own.
\<close>

lemma FixUp_eq:
  "FixUp (Rep e c n l r) =
     (let t = make_rep e c l r;
          t = (if red (right t) \<and> \<not> red (left t) then RotateLeft t else t);
          t = (if red (left t) \<and> red (left (left t)) then RotateRight t else t) in
      if red (left t) \<and> red (right t) then FlipColor t else t)"
  by (simp only: FixUp_def left.simps right.simps set_size_eq)

definition repaired :: "('k \<times> 'v) \<Rightarrow> ('k, 'v) LlrbNode \<Rightarrow> ('k, 'v) LlrbNode \<Rightarrow> ('k, 'v) LlrbNode \<Rightarrow> bool" where
  "repaired e l r t \<longleftrightarrow> inorder t = inorder l @ e # inorder r \<and> (sized l \<and> sized r \<longrightarrow> sized t)"

lemma FixUp_inorder: "repaired e l r (FixUp (Rep e c n l r))"
  by (cases l; cases r; cases "left l"; cases "right r")
    (auto simp: repaired_def FixUp_eq Let_def rotations)

lemma FixUp_black:
  assumes "balanced l" "balanced r" "black_height l = black_height r"
  shows "balanced (FixUp (Rep e Black n l r))"
    "black_height (FixUp (Rep e Black n l r)) = Suc (black_height l)"
    "red (FixUp (Rep e Black n l r)) \<longleftrightarrow> red l \<and> red r"
  using assms by (cases l; cases r; cases "left l"; auto simp: FixUp_eq Let_def rotations)+

lemma FixUp_almost:
  assumes "almost_balanced l" "balanced r" "black_height l = black_height r" "red r \<longrightarrow> balanced l"
  shows "balanced (FixUp (Rep e Black n l r))"
    "black_height (FixUp (Rep e Black n l r)) = Suc (black_height l)"
  using assms by (cases l; cases r; cases "left l"; auto simp: FixUp_eq Let_def rotations)+

lemma FixUp_red:
  assumes "balanced l" "balanced r" "black_height l = black_height r" "\<not> (red l \<and> red r)"
  shows "almost_balanced (FixUp (Rep e Red n l r))"
    "black_height (FixUp (Rep e Red n l r)) = black_height l"
    "\<not> red l \<Longrightarrow> \<not> red r \<Longrightarrow> balanced (FixUp (Rep e Red n l r))"
  using assms by (cases l; cases r; cases "left l"; auto simp: FixUp_eq Let_def rotations)+

section \<open>Insertion\<close>

lemma InnerInsert_Rep:
  "small (Rep e c n l r) \<Longrightarrow> InnerInsert cmp key val (Rep e c n l r) =
     (case cmp (fst e) key of
        Descending \<Rightarrow> FixUp (Rep e c n (InnerInsert cmp key val l) r)
      | Ascending \<Rightarrow> FixUp (Rep e c n l (InnerInsert cmp key val r))
      | Same \<Rightarrow> Rep (fst e, val) c n l r)"
  by (simp add: is_empty_small split: ComparisonResult.split)

declare InnerInsert.simps(2) [simp del]

lemma balanced_almost: "balanced t \<Longrightarrow> almost_balanced t"
  by (cases t) simp_all

lemma InnerInsert_balanced:
  "balanced t \<Longrightarrow> small t \<Longrightarrow>
   almost_balanced (InnerInsert cmp key val t) \<and>
   black_height (InnerInsert cmp key val t) = black_height t \<and>
   (\<not> red t \<longrightarrow> balanced (InnerInsert cmp key val t))"
proof (induction t)
  case EmptyRep
  show ?case by (simp add: make_rep_eq)
next
  case (Rep e c n l r)
  let ?l = "InnerInsert cmp key val l" and ?r = "InnerInsert cmp key val r"
  have lr: "balanced l" "balanced r" "black_height l = black_height r" "\<not> red r" "c = Red \<longrightarrow> \<not> red l"
    using Rep.prems(1) by simp_all
  have "small l" "small r" using small_children [OF Rep.prems(2)] by simp_all
  then have IH: "almost_balanced ?l" "black_height ?l = black_height r" "\<not> red l \<longrightarrow> balanced ?l"
    "balanced ?r" "black_height l = black_height ?r"
    using Rep.IH lr by simp_all
  show ?case
  proof (cases "cmp (fst e) key")
    case Ascending
    then show ?thesis
      using FixUp_black [OF lr(1) IH(4,5), of e n] FixUp_red [OF lr(1) IH(4,5), of e n] lr(5)
      unfolding InnerInsert_Rep [OF Rep.prems(2)] by (cases c) (auto simp: balanced_almost)
  next
    case Same
    then show ?thesis using lr by (simp add: InnerInsert_Rep [OF Rep.prems(2)])
  next
    case Descending
    then show ?thesis
      using FixUp_almost [OF IH(1) lr(2) IH(2), of e n] FixUp_red [OF _ lr(2) IH(2), of e n] IH lr
      unfolding InnerInsert_Rep [OF Rep.prems(2)] by (cases c) (auto simp: balanced_almost)
  qed
qed

lemma InnerInsert_entries:
  "sorted_entries (inorder t) \<Longrightarrow> small t \<Longrightarrow>
   inorder (InnerInsert Compare key val t) = inserted key val (inorder t) \<and>
   sized (InnerInsert Compare key val t)"
proof (induction t)
  case EmptyRep
  show ?case by (simp add: make_rep_eq inserted_def)
next
  case (Rep e c n l r)
  note split = inserted_split [OF Rep.prems(1) [unfolded inorder.simps]]
  have sorted: "sorted_entries (inorder l)" "sorted_entries (inorder r)"
    using Rep.prems(1) unfolding inorder.simps sorted_split by simp_all
  have small: "small l" "small r" using small_children [OF Rep.prems(2)] by simp_all
  show ?case
  proof (cases key "fst e" rule: linorder_cases)
    case less
    then have "Compare (fst e) key = Descending" by (simp add: Compare_def)
    with less show ?thesis
      using FixUp_inorder [of e "InnerInsert Compare key val l" r c n] Rep.IH(1) [OF sorted(1) small(1)] small split(1)
      unfolding InnerInsert_Rep [OF Rep.prems(2)]
      by (simp add: repaired_def small_def)
  next
    case equal
    then have "Compare (fst e) key = Same" by (simp add: Compare_def)
    with equal show ?thesis
      using split(3) Rep.prems(2) unfolding InnerInsert_Rep [OF Rep.prems(2)]
      by (cases e) (simp add: small_def)
  next
    case greater
    then have "Compare (fst e) key = Ascending" by (simp add: Compare_def)
    with greater show ?thesis
      using FixUp_inorder [of e l "InnerInsert Compare key val r" c n] Rep.IH(2) [OF sorted(2) small(2)] small split(2)
      unfolding InnerInsert_Rep [OF Rep.prems(2)]
      by (simp add: repaired_def small_def)
  qed
qed

section \<open>Removing the smallest entry\<close>

text \<open>Any repaired subtree of the same height may replace the left, or the right, child.\<close>

definition left_hole ::
  "Color \<Rightarrow> ('k::default, 'v::default) LlrbNode \<Rightarrow> ('k, 'v) LlrbNode \<Rightarrow> ('k, 'v) LlrbNode \<Rightarrow> bool" where
  "left_hole c l r h \<longleftrightarrow>
     (\<forall>e n l'. balanced l' \<and> black_height l' = black_height l \<and> (red l' \<longrightarrow> red l) \<longrightarrow>
        balanced (FixUp (Rep e c n l' r)) \<and> black_height (FixUp (Rep e c n l' r)) = black_height h \<and>
        (red (FixUp (Rep e c n l' r)) \<longrightarrow> red h))"

definition right_hole ::
  "Color \<Rightarrow> ('k::default, 'v::default) LlrbNode \<Rightarrow> ('k, 'v) LlrbNode \<Rightarrow> ('k, 'v) LlrbNode \<Rightarrow> bool" where
  "right_hole c l r h \<longleftrightarrow>
     (\<forall>e n r'. balanced r' \<and> black_height r' = black_height r \<and> (red r' \<longrightarrow> red r) \<longrightarrow>
        balanced (FixUp (Rep e c n l r')) \<and> black_height (FixUp (Rep e c n l r')) = black_height h \<and>
        (red (FixUp (Rep e c n l r')) \<longrightarrow> red h))"

lemma hole_black:
  assumes "black_height l = black_height r" "black_height h = Suc (black_height l)"
    "red l \<and> red r \<longrightarrow> red h"
  shows "balanced r \<Longrightarrow> left_hole Black l r h" "balanced l \<Longrightarrow> right_hole Black l r h"
  unfolding left_hole_def right_hole_def using assms
  by (auto simp: FixUp_black)

lemma hole_red:
  assumes "black_height l = black_height r" "black_height h = black_height l"
    "\<not> red l" "\<not> red r" "red h"
  shows "balanced r \<Longrightarrow> left_hole Red l r h" "balanced l \<Longrightarrow> right_hole Red l r h"
  unfolding left_hole_def right_hole_def using assms
  by (auto simp: FixUp_red)

lemma MoveRedLeft_flip:
  "\<not> red rl \<Longrightarrow> MoveRedLeft (Rep e c n (Rep el cl nl ll lr) (Rep er cr nr rl rr)) =
   Rep e (flip c) n (Rep el (flip cl) nl ll lr) (Rep er (flip cr) nr rl rr)"
  by (simp add: MoveRedLeft_def Let_def FlipColor_Rep)

lemma flip_flip [simp]: "flip (flip c) = c"
  by (cases c) simp_all

lemma MoveRedLeft_rotate:
  "MoveRedLeft (Rep e c n (Rep el cl nl ll lr) (Rep er cr nr (Rep x Red nx a b) rr)) =
   Rep x c n (Rep e Black (nl + 1 + rep_size a) (Rep el (flip cl) nl ll lr) a)
     (Rep er Black (rep_size b + 1 + rep_size rr) b rr)"
  by (simp add: MoveRedLeft_def Let_def rotations)

lemma black_child:
  "balanced (Rep e c n l r) \<Longrightarrow> l \<noteq> EmptyRep \<Longrightarrow> \<not> red l \<Longrightarrow> r \<noteq> EmptyRep"
  by (cases l) (auto simp: not_Red)

lemma MoveRedLeft_ok:
  assumes h: "h = Rep e Red n l r" "balanced h" "sized h" "l \<noteq> EmptyRep" "\<not> red (left l)"
  shows "\<exists>e' c' n' l' r'. MoveRedLeft h = Rep e' c' n' l' r' \<and>
    inorder l' @ e' # inorder r' = inorder h \<and> sized l' \<and> sized r' \<and>
    l' \<noteq> EmptyRep \<and> balanced l' \<and> (red l' \<or> red (left l')) \<and> left_hole c' l' r' h \<and>
    (fst e' = fst e \<or> fst e \<in> fst ` set (inorder l'))"
proof -
  obtain el nl ll lr where l: "l = Rep el Black nl ll lr"
    using h by (cases l) (auto simp: not_Red)
  obtain er nr rl rr where r: "r = Rep er Black nr rl rr"
    using h black_child [of e Red n l r] by (cases r) (auto simp: not_Red)
  show ?thesis
  proof (cases "red rl")
    case False
    then show ?thesis
      using h unfolding h(1) l r MoveRedLeft_flip [OF False]
      by (auto intro!: hole_black)
  next
    case True
    then obtain x nx a b where rl: "rl = Rep x Red nx a b" by (blast dest: red_Rep)
    show ?thesis
      using h unfolding h(1) l r rl MoveRedLeft_rotate
      by (auto intro!: hole_red)
  qed
qed


definition removed :: "('k, 'v) LlrbNode \<Rightarrow> ('k, 'v) LlrbNode \<Rightarrow> bool" where
  "removed t h \<longleftrightarrow> balanced t \<and> black_height t = black_height h \<and> (red t \<longrightarrow> red h) \<and> sized t"

lemma left_step:
  assumes "left_hole c l r h" "removed l' l" "sized r"
  shows "removed (FixUp (Rep e c n l' r)) h \<and> inorder (FixUp (Rep e c n l' r)) = inorder l' @ e # inorder r"
  using assms FixUp_inorder [of e l' r c n] unfolding left_hole_def removed_def repaired_def by blast

lemma right_step:
  assumes "right_hole c l r h" "removed r' r" "sized l"
  shows "removed (FixUp (Rep e c n l r')) h \<and> inorder (FixUp (Rep e c n l r')) = inorder l @ e # inorder r'"
  using assms FixUp_inorder [of e l r' c n] unfolding right_hole_def removed_def repaired_def by blast

text \<open>A subtree removal may descend into: red itself or with a red left child.\<close>

definition ready :: "('k, 'v) LlrbNode \<Rightarrow> bool" where
  "ready t \<longleftrightarrow> t \<noteq> EmptyRep \<and> balanced t \<and> (red t \<or> red (left t))"

lemma balanced_hole:
  assumes "balanced (Rep e c n l r)"
  shows "left_hole c l r (Rep e c n l r)"
  using assms by (cases c) (auto intro!: hole_black hole_red)

lemma balanced_leaf:
  "balanced (Rep e c n EmptyRep r) \<Longrightarrow> r = EmptyRep"
  by (cases r) (auto simp: not_Red)

lemma small_part:
  assumes "small h" "inorder l @ e # inorder r = inorder h" "sized l" "sized r"
  shows "small l" "small r" "nodes l < nodes h" "nodes r < nodes h"
proof -
  have "nodes l + Suc (nodes r) = nodes h"
    unfolding length_inorder [symmetric] assms(2) [symmetric] by simp
  then show "small l" "small r" "nodes l < nodes h" "nodes r < nodes h"
    using assms by (simp_all add: small_def)
qed

lemma Clone_Rep: "t \<noteq> EmptyRep \<Longrightarrow> Clone t = t"
  by (cases t) simp_all

lemma RemoveMin_Rep:
  assumes "small (Rep e c n l r)"
  shows "RemoveMin (Rep e c n l r) =
    (if l = EmptyRep then EmptyRep
     else let t = (if \<not> red l \<and> \<not> red (left l) then MoveRedLeft (Rep e c n l r) else Rep e c n l r) in
       FixUp (set_left (RemoveMin (Clone (left t))) t))"
  using is_empty_small [of l] small_children [OF assms] RemoveMin.simps [of "Rep e c n l r"]
  by (simp add: Let_def)

lemma RemoveMin_ok:
  "small t \<Longrightarrow> ready t \<Longrightarrow> removed (RemoveMin t) t \<and> inorder (RemoveMin t) = tl (inorder t)"
proof (induction "nodes t" arbitrary: t rule: less_induct)
  case less
  obtain e c n l r where t: "t = Rep e c n l r" using less.prems(2) by (cases t) (auto simp: ready_def)
  have bal: "balanced (Rep e c n l r)" and ready: "c = Red \<or> red l"
    using less.prems(2) by (auto simp: ready_def t)
  have lr: "sized l" "sized r" "small l" "small r"
    using less.prems(1) small_children [of e c n l r] by (simp_all add: small_def t)
  have go: "removed (FixUp (Rep e' c' n' (RemoveMin l') r')) t \<and>
      inorder (FixUp (Rep e' c' n' (RemoveMin l') r')) = tl (inorder t)"
    if "inorder l' @ e' # inorder r' = inorder t" "sized l'" "sized r'" "left_hole c' l' r' t" "ready l'"
    for e' c' n' l' r'
  proof -
    note part = small_part [OF less.prems(1) that(1-3)]
    have IH: "removed (RemoveMin l') l'" "inorder (RemoveMin l') = tl (inorder l')"
      using less.hyps [OF part(3) part(1) that(5)] by simp_all
    have "inorder l' \<noteq> []" using that(5) by (cases l') (simp_all add: ready_def)
    then have "tl (inorder t) = tl (inorder l') @ e' # inorder r'"
      unfolding that(1) [symmetric] by simp
    then show ?thesis using left_step [OF that(4) IH(1) that(3), of e' n'] IH(2) by simp
  qed
  show ?case
  proof (cases "l = EmptyRep")
    case True
    then have "r = EmptyRep" "c = Red" using bal ready balanced_leaf [of e c n r] by auto
    then show ?thesis
      using True RemoveMin_Rep [OF less.prems(1) [unfolded t]] by (simp add: t removed_def)
  next
    case l: False
    show ?thesis
    proof (cases "red l \<or> red (left l)")
      case True
      have "ready l" using True bal l by (auto simp: ready_def)
      then show ?thesis
        using go [of l e r, OF _ lr(1,2) balanced_hole [OF bal, folded t]] True l
        by (auto simp: t RemoveMin_Rep [OF less.prems(1) [unfolded t]] Clone_Rep)
    next
      case False
      then have c: "c = Red" using ready by simp
      obtain e' c' n' l' r' where m: "MoveRedLeft t = Rep e' c' n' l' r'"
        "inorder l' @ e' # inorder r' = inorder t" "sized l'" "sized r'" "l' \<noteq> EmptyRep" "balanced l'"
        "red l' \<or> red (left l')" "left_hole c' l' r' t"
        using MoveRedLeft_ok [of t e n l r] less.prems(1) bal l False by (auto simp: t c small_def)
      then have "ready l'" by (simp add: ready_def)
      then show ?thesis
        using go [OF m(2-4,8)] l False m(1,5)
        by (simp add: t RemoveMin_Rep [OF less.prems(1) [unfolded t]] Clone_Rep)
    qed
  qed
qed

lemma min_node_entry: "small t \<Longrightarrow> t \<noteq> EmptyRep \<Longrightarrow> entry (min_node t) = hd (inorder t)"
proof (induction t)
  case (Rep e c n l r)
  have "is_empty l \<longleftrightarrow> l = EmptyRep" "small l" using small_children [OF Rep.prems(1)] is_empty_small by auto
  with Rep.IH(1) show ?case by (cases "l = EmptyRep") (simp_all add: hd_append)
qed simp

section \<open>Removing a key\<close>

text \<open>What \<open>MoveRedRight\<close> may leave on the right: a black node that leans right.\<close>

fun leaning :: "'k::linorder \<Rightarrow> ('k, 'v) LlrbNode \<Rightarrow> bool" where
  "leaning key EmptyRep \<longleftrightarrow> False"
| "leaning key (Rep e c n l r) \<longleftrightarrow>
     c = Black \<and> balanced l \<and> balanced r \<and> black_height l = black_height r \<and> \<not> red l \<and> red r \<and> fst e \<le> key"

definition erasable :: "'k::linorder \<Rightarrow> ('k, 'v) LlrbNode \<Rightarrow> bool" where
  "erasable key t \<longleftrightarrow> t = EmptyRep \<or> ready t \<or> leaning key t"

lemma lean_right_Rep:
  assumes "small r"
  shows "lean_right (Rep e c n l r) =
    (let t = (if red l then RotateRight (Rep e c n l r) else Rep e c n l r) in
      if \<not> is_empty (right t) \<and> \<not> red (right t) \<and> \<not> red (left (right t)) then MoveRedRight t else t)"
  by (simp add: lean_right_def Let_def)

lemma red_not_empty: "red t \<Longrightarrow> small t \<Longrightarrow> \<not> is_empty t"
  by (cases t) (auto simp: is_empty_small)

definition leaned ::
  "'k::{linorder,default} \<Rightarrow> ('k, 'v::default) LlrbNode \<Rightarrow> ('k, 'v) LlrbNode \<Rightarrow> bool" where
  "leaned key h t \<longleftrightarrow> (\<exists>e c n l r. t = Rep e c n l r \<and>
     inorder l @ e # inorder r = inorder h \<and> sized l \<and> sized r \<and> right_hole c l r h \<and> fst e \<le> key \<and>
     erasable key r \<and> (fst e = key \<longrightarrow> r \<noteq> EmptyRep \<longrightarrow> ready r) \<and>
     (r = EmptyRep \<longrightarrow> l = EmptyRep \<and> black_height h = 0))"

lemma leaned_rotate:
  assumes "small h" "h = Rep e c n l r" "balanced h" "red l" "sorted_entries (inorder h)" "fst e \<le> key"
  shows "leaned key h (lean_right h)"
proof -
  obtain el nl ll lr where l: "l = Rep el Red nl ll lr" using red_Rep [OF assms(4)] by blast
  have c: "c = Black" using assms(2-4) by (auto simp: l not_Red)
  have "fst el < fst e" using assms(5) by (auto simp: assms(2) l sorted_wrt_append)
  then have "fst el < key" using assms(6) by simp
  then show ?thesis
    using assms(1-3) unfolding leaned_def assms(2) l c
    by (auto simp: lean_right_def Let_def rotations ready_def erasable_def small_def not_Red intro!: hole_black)
qed

lemma leaned_move:
  assumes "small h" "h = Rep e Red n l r" "balanced h" "\<not> red (left r)" "r \<noteq> EmptyRep"
    "sorted_entries (inorder h)" "fst e \<le> key"
  shows "leaned key h (MoveRedRight h)"
proof -
  have black: "\<not> red l" "\<not> red r" using assms(2,3) by auto
  obtain er nr rl rr where r: "r = Rep er Black nr rl rr" using black assms(5) by (cases r) (auto simp: not_Red)
  obtain el nl ll lr where l: "l = Rep el Black nl ll lr"
    using assms(2,3) black by (cases l) (auto simp: r not_Red)
  show ?thesis
  proof (cases "red ll")
    case False
    then show ?thesis
      using assms unfolding leaned_def assms(2) l r
      by (auto simp: MoveRedRight_def Let_def rotations ready_def erasable_def small_def not_Red intro!: hole_black)
  next
    case True
    then obtain x nx a b where ll: "ll = Rep x Red nx a b" by (blast dest: red_Rep)
    have "fst el < fst e" using assms(6) by (auto simp: assms(2) l sorted_wrt_append)
    then have "fst el < key" using assms(7) by simp
    then show ?thesis
      using assms unfolding leaned_def assms(2) l r ll
      by (auto simp: MoveRedRight_def Let_def rotations ready_def erasable_def small_def not_Red intro!: hole_red)
  qed
qed

lemma leaned_ok:
  assumes "small h" "ready h \<or> leaning key h" "sorted_entries (inorder h)" "fst (entry h) \<le> key"
  shows "leaned key h (lean_right h)"
proof -
  obtain e c n l r where h: "h = Rep e c n l r" using assms(2) by (cases h) (auto simp: ready_def)
  have small: "small l" "small r" "sized l" "sized r"
    using assms(1) small_children [of e c n l r] by (simp_all add: h small_def)
  have key: "fst e \<le> key" using assms(4) by (simp add: h)
  consider (rotate) "red l" "balanced h" | (leaf) "\<not> red l" "r = EmptyRep" | (leaning) "\<not> red l" "red r" "leaning key h"
    | (ready) "\<not> red l" "\<not> red r" "red (left r)" "ready h"
    | (move) "\<not> red l" "\<not> red r" "\<not> red (left r)" "r \<noteq> EmptyRep" "ready h"
    using assms(2) by (auto simp: h ready_def)
  then show ?thesis
  proof cases
    case rotate
    then show ?thesis using leaned_rotate [OF assms(1) h _ _ assms(3) key] by blast
  next
    case leaf
    then have "c = Red" "l = EmptyRep" "balanced h"
      using assms(2) by (auto simp: h ready_def) (cases l; auto simp: not_Red)
    with leaf key show ?thesis
      using small unfolding leaned_def h by (auto simp: lean_right_def Let_def erasable_def intro!: hole_red)
  next
    case leaning
    then show ?thesis
      using small key unfolding leaned_def h
      by (cases r) (auto simp: lean_right_def Let_def erasable_def ready_def intro!: hole_black)
  next
    case ready
    then show ?thesis
      using small key unfolding leaned_def h
      by (cases r) (auto simp: lean_right_def Let_def erasable_def ready_def intro!: hole_red)
  next
    case move
    then have "h = Rep e Red n l r" "balanced h" by (auto simp: h ready_def)
    then show ?thesis
      using leaned_move [OF assms(1) _ _ move(3,4) assms(3) key] move small is_empty_small [of r]
      by (simp add: h lean_right_def Let_def)
  qed
qed

lemma InnerErase_less:
  assumes "small (Rep e c n l r)" "key < fst e"
  shows "InnerErase Compare key (Rep e c n l r) =
    (let t = (if l \<noteq> EmptyRep \<and> \<not> red l \<and> \<not> red (left l) then MoveRedLeft (Rep e c n l r) else Rep e c n l r) in
     FixUp (set_left (InnerErase Compare key (left t)) t))"
  using is_empty_small [of l] is_empty_small [OF assms(1)] small_children [OF assms(1)] assms(2)
    InnerErase.simps [of Compare key "Rep e c n l r"]
  by (simp add: Let_def Compare_def)

lemma InnerErase_not_less:
  assumes "small t" "t \<noteq> EmptyRep" "fst (entry t) \<le> key" "lean_right t = Rep e c n l r" "small r"
  shows "InnerErase Compare key t =
    (if fst e = key then
       if r = EmptyRep then EmptyRep
       else FixUp (Rep (entry (min_node r)) c n l (RemoveMin r))
     else FixUp (Rep e c n l (InnerErase Compare key r)))"
  using is_empty_small [of t] is_empty_small [of r] assms InnerErase.simps [of Compare key t]
  by (auto simp: Let_def Compare_def Clone_Rep)

lemma InnerErase_empty: "InnerErase cmp key EmptyRep = EmptyRep"
  by (simp add: InnerErase.simps)

definition erases :: "'k::{linorder,default} \<Rightarrow> ('k, 'v::default) LlrbNode \<Rightarrow> bool" where
  "erases key t \<longleftrightarrow>
     removed (InnerErase Compare key t) t \<and> inorder (InnerErase Compare key t) = erased key (inorder t)"

lemma InnerErase_left:
  fixes t :: "('k::{linorder,default}, 'v::default) LlrbNode"
  assumes "small t" "ready t" "sorted_entries (inorder t)"
    and t: "t = Rep e c n l r" "key < fst e"
    and IH: "\<And>u :: ('k, 'v) LlrbNode. nodes u < nodes t \<Longrightarrow> small u \<Longrightarrow> erasable key u \<Longrightarrow> sorted_entries (inorder u) \<Longrightarrow> erases key u"
  shows "erases key t"
proof -
  have go: "removed (FixUp (Rep e' c' n' (InnerErase Compare key l') r')) t \<and>
      inorder (FixUp (Rep e' c' n' (InnerErase Compare key l') r')) = erased key (inorder t)"
    if "inorder l' @ e' # inorder r' = inorder t" "sized l'" "sized r'" "left_hole c' l' r' t"
      "erasable key l'" "key < fst e'" for e' c' n' l' r'
  proof -
    note part = small_part [OF assms(1) that(1-3)]
    have sorted: "sorted_entries (inorder l' @ e' # inorder r')" using assms(3) that(1) by simp
    then have "sorted_entries (inorder l')" unfolding sorted_split by simp
    then have "removed (InnerErase Compare key l') l'"
      "inorder (InnerErase Compare key l') = erased key (inorder l')"
      using IH [OF part(3) part(1) that(5)] by (simp_all add: erases_def)
    then show ?thesis
      using left_step [OF that(4) _ that(3), of _ e' n'] erased_split(1) [OF sorted that(6)] that(1) by simp
  qed
  show ?thesis
  proof (cases "l \<noteq> EmptyRep \<and> \<not> red l \<and> \<not> red (left l)")
    case True
    then have c: "c = Red" "balanced t" using assms(2) by (auto simp: ready_def t)
    then have pre: "t = Rep e Red n l r" "balanced t" "sized t" "l \<noteq> EmptyRep" "\<not> red (left l)"
      using assms(1) True t(1) by (simp_all add: small_def)
    obtain e' c' n' l' r' where m: "MoveRedLeft t = Rep e' c' n' l' r'"
      "inorder l' @ e' # inorder r' = inorder t" "sized l'" "sized r'" "l' \<noteq> EmptyRep" "balanced l'"
      "red l' \<or> red (left l')" "left_hole c' l' r' t" "fst e' = fst e \<or> fst e \<in> fst ` set (inorder l')"
      using MoveRedLeft_ok [OF pre] by blast
    have "sorted_entries (inorder l' @ e' # inorder r')" using assms(3) m(2) by simp
    then have "fst e \<le> fst e'" using m(9) unfolding sorted_split by fastforce
    then have "key < fst e'" using t(2) by simp
    moreover have "erasable key l'" using m(5-7) by (simp add: erasable_def ready_def)
    ultimately show ?thesis
      using go [OF m(2-4,8)] True m(1) InnerErase_less [OF assms(1) [unfolded t(1)] t(2)]
      by (simp add: t erases_def)
  next
    case False
    have "balanced t" using assms(2) by (simp add: ready_def)
    moreover from this False have "erasable key l" by (auto simp: erasable_def ready_def t)
    moreover have "sized l" "sized r" using assms(1) by (simp_all add: t small_def)
    ultimately show ?thesis
      using go [of l e r c n] False t(2) balanced_hole [of e c n l r]
        InnerErase_less [OF assms(1) [unfolded t(1)] t(2)]
      by (auto simp: t erases_def)
  qed
qed

lemma InnerErase_right:
  fixes t :: "('k::{linorder,default}, 'v::default) LlrbNode"
  assumes "small t" "ready t \<or> leaning key t" "sorted_entries (inorder t)"
    and "t \<noteq> EmptyRep" "fst (entry t) \<le> key"
    and IH: "\<And>u :: ('k, 'v) LlrbNode. nodes u < nodes t \<Longrightarrow> small u \<Longrightarrow> erasable key u \<Longrightarrow> sorted_entries (inorder u) \<Longrightarrow> erases key u"
  shows "erases key t"
proof -
  from leaned_ok [OF assms(1) assms(2,3,5)]
  obtain e c n l r where m: "lean_right t = Rep e c n l r" "inorder l @ e # inorder r = inorder t"
    "sized l" "sized r" "right_hole c l r t" "fst e \<le> key" "erasable key r"
    "fst e = key \<longrightarrow> r \<noteq> EmptyRep \<longrightarrow> ready r" "r = EmptyRep \<longrightarrow> l = EmptyRep \<and> black_height t = 0"
    unfolding leaned_def by blast
  note part = small_part [OF assms(1) m(2-4)]
  note step = InnerErase_not_less [OF assms(1) assms(4,5) m(1) part(2)]
  have sorted: "sorted_entries (inorder l @ e # inorder r)" using assms(3) m(2) by simp
  then have sorted_r: "sorted_entries (inorder r)" unfolding sorted_split by simp
  consider (same_leaf) "fst e = key" "r = EmptyRep" | (same) "fst e = key" "r \<noteq> EmptyRep" | (greater) "fst e < key"
    using m(6) by fastforce
  then show ?thesis
  proof cases
    case same_leaf
    then show ?thesis
      using step m(9) erased_split(3) [OF sorted same_leaf(1)] by (simp add: erases_def removed_def flip: m(2))
  next
    case same
    then have "ready r" using m(8) by simp
    then have rm: "removed (RemoveMin r) r" "inorder (RemoveMin r) = tl (inorder r)"
      using RemoveMin_ok [OF part(2)] by auto
    have "inorder r = entry (min_node r) # tl (inorder r)"
      using min_node_entry [OF part(2) same(2)] same(2) by simp
    then show ?thesis
      using step same right_step [OF m(5) rm(1) m(3), of "entry (min_node r)" n] rm(2)
        erased_split(3) [OF sorted same(1)] by (simp add: erases_def m(2))
  next
    case greater
    then show ?thesis
      using step right_step [OF m(5) _ m(3), of _ e n] erased_split(2) [OF sorted greater]
        IH [OF part(4,2) m(7) sorted_r] by (auto simp: erases_def m(2))
  qed
qed

lemma InnerErase_ok:
  "small t \<Longrightarrow> erasable key t \<Longrightarrow> sorted_entries (inorder t) \<Longrightarrow> erases key t"
proof (induction "nodes t" arbitrary: t rule: less_induct)
  case less
  consider (empty) "t = EmptyRep" | (left) e c n l r where "t = Rep e c n l r" "key < fst e"
    | (right) "t \<noteq> EmptyRep" "fst (entry t) \<le> key"
    by (cases t; cases "key < fst (entry t)") (auto simp: not_less)
  then show ?case
  proof cases
    case empty
    then show ?thesis by (simp add: erases_def InnerErase_empty removed_def erased_def)
  next
    case left
    then have "ready t" using less.prems(2) by (auto simp: erasable_def)
    with left less show ?thesis by (blast intro: InnerErase_left)
  next
    case right
    then have "ready t \<or> leaning key t" using less.prems(2) by (simp add: erasable_def)
    with right less show ?thesis by (blast intro: InnerErase_right)
  qed
qed

end
