(* ===== verification/LlrbRoot.thy ===== *)
theory LlrbRoot
  imports LlrbSpec
begin

text \<open>
  The public operations of the tree of \<open>llrb_node.h\<close> at its root: \<open>insert\<close> and \<open>erase\<close> keep the
  invariant and change the sorted list of entries as a map does; the depth is logarithmic.
\<close>

definition wf_tree :: "('k::linorder, 'v) LlrbNode \<Rightarrow> bool" where
  "wf_tree t \<longleftrightarrow> balanced t \<and> \<not> red t \<and> small t \<and> sorted_entries (inorder t)"

lemma wf_EmptyRep [simp]: "wf_tree EmptyRep"
  by (simp add: wf_tree_def)

lemma FixRootColor_simps [simp]:
  "inorder (FixRootColor t) = inorder t" "\<not> red (FixRootColor t)"
  "sized (FixRootColor t) = sized t" "nodes (FixRootColor t) = nodes t"
  by (cases t; simp add: FixRootColor_def)+

lemma FixRootColor_balanced: "almost_balanced t \<Longrightarrow> balanced (FixRootColor t)"
  by (cases t) (simp_all add: FixRootColor_def)

section \<open>Insertion\<close>

lemma node_insert_wf:
  assumes "wf_tree t" "Suc (nodes t) < 2 ^ 31"
  shows "wf_tree (node_insert Compare key val t) \<and>
    inorder (node_insert Compare key val t) = inserted key val (inorder t)"
proof -
  have t: "balanced t" "small t" "sorted_entries (inorder t)" using assms(1) by (simp_all add: wf_tree_def)
  have entries: "inorder (InnerInsert Compare key val t) = inserted key val (inorder t)"
    "sized (InnerInsert Compare key val t)"
    using InnerInsert_entries [OF t(3,2)] by simp_all
  have "nodes (InnerInsert Compare key val t) \<le> Suc (nodes t)"
    unfolding length_inorder [symmetric] entries(1) by (rule length_inserted)
  then show ?thesis
    using entries InnerInsert_balanced [OF t(1,2), of Compare key val] sorted_inserted [OF t(3)] assms(2)
    by (simp add: wf_tree_def node_insert_def small_def FixRootColor_balanced)
qed

section \<open>Removal\<close>

text \<open>The color of the root is only ever flipped: a removal that starts from a red root builds the same tree.\<close>

definition alike :: "('k, 'v) LlrbNode \<Rightarrow> ('k, 'v) LlrbNode \<Rightarrow> bool" where
  "alike a b \<longleftrightarrow> (\<exists>e c d n l r. a = Rep e c n l r \<and> b = Rep e d n l r)"

lemma alike_Rep [simp]: "alike (Rep e c n l r) (Rep e' d n' l' r') \<longleftrightarrow> e = e' \<and> n = n' \<and> l = l' \<and> r = r'"
  by (auto simp: alike_def)

lemma alikeE:
  assumes "alike a b"
  obtains e c d n l r where "a = Rep e c n l r" "b = Rep e d n l r"
  using assms by (auto simp: alike_def)

lemma alike_parts:
  "alike a b \<Longrightarrow> left a = left b \<and> right a = right b \<and> entry a = entry b \<and> is_empty a = is_empty b \<and>
     Clone a = a \<and> Clone b = b"
  by (auto elim!: alikeE simp: is_empty_def node_size_def)

lemma alike_setters:
  "alike a b \<Longrightarrow> alike (set_left x a) (set_left x b)"
  "alike a b \<Longrightarrow> alike (set_right x a) (set_right x b)"
  "alike a b \<Longrightarrow> alike (set_entry y a) (set_entry y b)"
  by (auto elim!: alikeE)

lemma root_rotations:
  "RotateLeft (Rep e c n l r) = Rep (entry r) c n (make_rep e Red l (left r)) (right r)"
  "RotateRight (Rep e c n l r) = Rep (entry l) c n (left l) (make_rep e Red (right l) r)"
  "FlipColor (Rep e c n l r) =
     Rep e (flip c) n (set_color (OppositeColor l) (Clone l)) (set_color (OppositeColor r) (Clone r))"
  by (simp_all add: RotateLeft_def RotateRight_def FlipColor_def Let_def OppositeColor_flip)

lemma alike_rotations:
  assumes "alike a b"
  shows "alike (RotateLeft a) (RotateLeft b)" "alike (RotateRight a) (RotateRight b)"
    "alike (FlipColor a) (FlipColor b)"
  using assms by (auto elim!: alikeE simp: root_rotations)

lemma alike_fix_up:
  assumes "alike a b"
  shows "alike (FixUp a) (FixUp b)"
proof -
  define f1 where "f1 x = (if red (right x) \<and> \<not> red (left x) then RotateLeft x else x)" for x :: "('a, 'b) LlrbNode"
  define f2 where "f2 x = (if red (left x) \<and> red (left (left x)) then RotateRight x else x)" for x :: "('a, 'b) LlrbNode"
  define f3 where "f3 x = (if red (left x) \<and> red (right x) then FlipColor x else x)" for x :: "('a, 'b) LlrbNode"
  have steps: "alike (f1 x) (f1 y)" "alike (f2 x) (f2 y)" "alike (f3 x) (f3 y)" if "alike x y" for x y
    using alike_rotations [OF that] alike_parts [OF that] that by (simp_all add: f1_def f2_def f3_def)
  have "FixUp x = f3 (f2 (f1 (set_size (node_size (left x) + 1 + node_size (right x)) x)))" for x
    by (simp add: FixUp_def f1_def f2_def f3_def Let_def)
  moreover have "alike (set_size s a) (set_size s b)" for s using assms by (auto elim!: alikeE)
  ultimately show ?thesis using alike_parts [OF assms] by (simp add: steps)
qed

lemma alike_moves:
  assumes "alike a b"
  shows "alike (MoveRedLeft a) (MoveRedLeft b)" "alike (MoveRedRight a) (MoveRedRight b)"
  using assms by (auto elim!: alikeE simp: MoveRedLeft_def MoveRedRight_def Let_def root_rotations)

lemma alike_lean:
  assumes "alike a b"
  shows "alike (lean_right a) (lean_right b)"
proof -
  define f1 where "f1 x = (if red (left x) then RotateRight x else x)" for x :: "('a, 'b) LlrbNode"
  define f2 where "f2 x = (if \<not> is_empty (right x) \<and> \<not> red (right x) \<and> \<not> red (left (right x))
    then MoveRedRight x else x)" for x :: "('a, 'b) LlrbNode"
  have "alike (f1 x) (f1 y)" "alike (f2 x) (f2 y)" if "alike x y" for x y
    using alike_rotations [OF that] alike_moves [OF that] alike_parts [OF that] that
    by (simp_all add: f1_def f2_def)
  moreover have "lean_right x = f2 (f1 x)" for x by (simp add: lean_right_def f1_def f2_def Let_def)
  ultimately show ?thesis using assms by simp
qed

lemma alike_erase:
  assumes "alike a b"
  shows "InnerErase cmp key a = InnerErase cmp key b \<or> alike (InnerErase cmp key a) (InnerErase cmp key b)"
proof (cases "is_empty a")
  case True
  then show ?thesis using alike_parts [OF assms] by (simp add: InnerErase.simps [of cmp key])
next
  case False
  define m where "m x = (if \<not> is_empty (left x) \<and> \<not> red (left x) \<and> \<not> red (left (left x))
    then MoveRedLeft x else x)" for x :: "('a, 'b) LlrbNode"
  note parts = alike_parts [OF assms] False
  have m: "alike (m a) (m b)" using assms alike_moves(1) [OF assms] parts by (simp add: m_def)
  have r: "alike (lean_right a) (lean_right b)" by (rule alike_lean [OF assms])
  have eq: "InnerErase cmp key x =
      (if cmp key (fst (entry x)) = Ascending then FixUp (set_left (InnerErase cmp key (left (m x))) (m x))
       else let n = lean_right x in
         if cmp key (fst (entry n)) = Same then
           if is_empty (right n) then EmptyRep
           else FixUp (set_right (RemoveMin (Clone (right n))) (set_entry (entry (min_node (right n))) n))
         else FixUp (set_right (InnerErase cmp key (right n)) n))"
    if "Clone x = x" "\<not> is_empty x" for x
    using that InnerErase.simps [of cmp key x] by (simp add: m_def Let_def)
  show ?thesis
    using parts alike_parts [OF m] alike_parts [OF r] m r
    by (simp add: eq Let_def alike_fix_up alike_setters)
qed

lemma FixRootColor_alike: "alike a b \<Longrightarrow> FixRootColor a = FixRootColor b"
  by (auto elim!: alikeE simp: FixRootColor_def not_Red)

lemma erase_from_red:
  "node_erase cmp key (Rep e Black n l r) = FixRootColor (InnerErase cmp key (Rep e Red n l r))"
  using alike_erase [of "Rep e Black n l r" "Rep e Red n l r" cmp key]
  by (auto simp: node_erase_def FixRootColor_alike)

lemma node_erase_wf:
  assumes "wf_tree t"
  shows "wf_tree (node_erase Compare key t) \<and>
    inorder (node_erase Compare key t) = erased key (inorder t)"
proof -
  have root: "wf_tree (FixRootColor (InnerErase Compare key h)) \<and>
      inorder (FixRootColor (InnerErase Compare key h)) = erased key (inorder t)"
    if "small h" "erasable key h" "inorder h = inorder t" for h
  proof -
    have "erases key h" using InnerErase_ok [OF that(1,2)] assms that(3) by (simp add: wf_tree_def)
    then have h: "balanced (InnerErase Compare key h)" "sized (InnerErase Compare key h)"
      "inorder (InnerErase Compare key h) = erased key (inorder t)"
      by (simp_all add: erases_def removed_def that(3))
    then have "nodes (InnerErase Compare key h) \<le> nodes h"
      unfolding length_inorder [symmetric] that(3) h(3) by (simp add: length_erased)
    then show ?thesis
      using h that(1) assms
      by (simp add: wf_tree_def small_def FixRootColor_balanced balanced_almost sorted_erased)
  qed
  consider "t = EmptyRep \<or> red (left t)" | e n l r where "t = Rep e Black n l r" "\<not> red l"
    using assms by (cases t) (auto simp: wf_tree_def not_Red)
  then show ?thesis
  proof cases
    case 1
    then have "erasable key t" using assms by (auto simp: erasable_def ready_def wf_tree_def)
    with root [of t] assms show ?thesis unfolding node_erase_def wf_tree_def by blast
  next
    case 2
    then have "erasable key (Rep e Red n l r)" "small (Rep e Red n l r)"
      using assms by (auto simp: erasable_def ready_def wf_tree_def small_def)
    with root [of "Rep e Red n l r"] 2 show ?thesis by (simp add: erase_from_red)
  qed
qed

section \<open>Depth\<close>

primrec depth :: "('k, 'v) LlrbNode \<Rightarrow> nat" where
  "depth EmptyRep = 0"
| "depth (Rep e c n l r) = Suc (max (depth l) (depth r))"

lemma depth_black_height:
  "balanced t \<Longrightarrow> depth t \<le> 2 * black_height t + (if red t then 1 else 0)"
  by (induction t) (fastforce simp: not_Red split: if_splits)+

lemma black_height_nodes: "balanced t \<Longrightarrow> 2 ^ black_height t \<le> Suc (nodes t)"
  by (induction t) auto

lemma depth_nodes:
  assumes "wf_tree t"
  shows "2 ^ depth t \<le> (Suc (nodes t))\<^sup>2"
proof -
  have "depth t \<le> 2 * black_height t" using assms depth_black_height [of t] by (simp add: wf_tree_def)
  then have "(2::nat) ^ depth t \<le> (2 ^ black_height t)\<^sup>2"
    by (simp flip: power_mult add: mult.commute)
  also have "\<dots> \<le> (Suc (nodes t))\<^sup>2"
    using assms by (intro power_mono black_height_nodes) (simp_all add: wf_tree_def)
  finally show ?thesis .
qed

end
