(* ===== verification/TreeMapSpec.thy ===== *)
theory TreeMapSpec
  imports TreeMap LlrbRoot ForwardIterator
begin

text \<open>
  The iterators of \<open>llrb_node_iterator.h\<close> and the map of \<open>tree_sorted_map.h\<close>: what is left of an
  iteration, the searches, and the contract of a forward iterator.
\<close>

section \<open>The rest of an iteration\<close>

primrec rest :: "('k::default, 'v::default) LlrbNodeIterator \<Rightarrow> ('k \<times> 'v) list" where
  "rest [] = []"
| "rest (t # ts) = entry t # inorder (right t) @ rest ts"

definition node_ok :: "('k, 'v) LlrbNode \<Rightarrow> bool" where
  "node_ok t \<longleftrightarrow> t \<noteq> EmptyRep \<and> small t"

lemma rest_empty [simp]: "rest it = [] \<longleftrightarrow> it = []" "[] = rest it \<longleftrightarrow> it = []"
  by (cases it; simp)+

lemma small_node_ok: "small (Rep e c n l r) \<Longrightarrow> node_ok (Rep e c n l r) \<and> \<not> is_empty (Rep e c n l r) \<and> small l \<and> small r"
  using is_empty_small [of "Rep e c n l r"] small_children [of e c n l r] by (simp add: node_ok_def)

lemma AccumulateLeft_rest:
  "small t \<Longrightarrow> Ball (set st) node_ok \<Longrightarrow>
   rest (AccumulateLeft t st) = inorder t @ rest st \<and> Ball (set (AccumulateLeft t st)) node_ok"
proof (induction t arbitrary: st)
  case (Rep e c n l r)
  show ?case
    using small_node_ok [OF Rep.prems(1)] Rep.IH(1) [of "Rep e c n l r # st"] Rep.prems(2) by simp
qed simp

lemma descend_rest:
  "small t \<Longrightarrow> sorted_entries (inorder t) \<Longrightarrow> Ball (set st) node_ok \<Longrightarrow>
   rest (descend Compare k t st) = filter (\<lambda>p. k \<le> fst p) (inorder t) @ rest st \<and>
   Ball (set (descend Compare k t st)) node_ok"
proof (induction t arbitrary: st)
  case (Rep e c n l r)
  note ok = small_node_ok [OF Rep.prems(1)]
  note split = at_least_split [OF Rep.prems(2) [unfolded inorder.simps], of k]
  have sorted: "sorted_entries (inorder l)" "sorted_entries (inorder r)"
    using Rep.prems(2) unfolding inorder.simps sorted_split by simp_all
  show ?case
  proof (cases k "fst e" rule: linorder_cases)
    case less
    then have "Compare k (fst e) = Ascending" by (simp add: Compare_def)
    with less show ?thesis using Rep.IH(1) [OF _ sorted(1), of "Rep e c n l r # st"] Rep.prems(3) ok split(1) by simp
  next
    case equal
    then have "Compare k (fst e) = Same" by (simp add: Compare_def)
    with equal show ?thesis using Rep.prems(3) ok split(3) by simp
  next
    case greater
    then have "Compare k (fst e) = Descending" by (simp add: Compare_def)
    with greater show ?thesis using Rep.IH(2) [OF _ sorted(2), of st] Rep.prems(3) ok split(2) by simp
  qed
qed simp

definition in_tree :: "('k::{linorder,default}, 'v::default) LlrbNode \<Rightarrow> ('k, 'v) LlrbNodeIterator \<Rightarrow> bool" where
  "in_tree t it \<longleftrightarrow> Ball (set it) node_ok \<and> sorted_entries (inorder t) \<and> (\<exists>ps. inorder t = ps @ rest it)"

lemma same_key_same_suffix:
  assumes "sorted_entries (ps @ e # xs)" "ps @ e # xs = qs @ d # ys" "fst e = fst d"
  shows "e # xs = d # ys"
proof -
  have "filter (\<lambda>p. fst e \<le> fst p) (ps @ e # xs) = e # xs" by (rule at_least_split(3) [OF assms(1) refl])
  moreover have "filter (\<lambda>p. fst e \<le> fst p) (qs @ d # ys) = d # ys"
    by (rule at_least_split(3) [OF assms(1) [unfolded assms(2)] assms(3) [symmetric]])
  ultimately show ?thesis by (simp only: assms(2))
qed

definition tree_wf_iter :: "('k::{linorder,default}, 'v::default) LlrbNode \<Rightarrow> bool" where
  "tree_wf_iter t \<longleftrightarrow> small t \<and> sorted_entries (inorder t)"

lemma in_tree_step:
  assumes "in_tree t it" "rest it = x # xs"
  shows "iter_get it = Some x \<and> (\<exists>it'. iter_next it = Some it' \<and> in_tree t it' \<and> rest it' = xs)"
proof -
  obtain n ts where it: "it = n # ts" using assms(2) by (cases it) simp_all
  have n: "node_ok n" "Ball (set ts) node_ok" using assms(1) by (simp_all add: it in_tree_def)
  then obtain e c s l r where "n = Rep e c s l r" by (cases n) (simp_all add: node_ok_def)
  with n have small: "small (right n)" by (auto simp: node_ok_def dest: small_children)
  note acc = AccumulateLeft_rest [OF small n(2)]
  obtain ps where ps: "inorder t = ps @ x # xs" using assms by (auto simp: in_tree_def)
  have xs: "x = entry n" "xs = inorder (right n) @ rest ts" using assms(2) by (simp_all add: it)
  have "\<exists>qs. inorder t = qs @ xs" using ps by (metis append.assoc append_Cons append_Nil)
  then show ?thesis
    using acc assms(1) by (simp add: it iter_get_def iter_next_def is_end_def in_tree_def Let_def xs)
qed

lemma in_tree_eq:
  assumes "in_tree t a" "in_tree t b"
  shows "iter_eq a b \<longleftrightarrow> rest a = rest b"
proof (cases "a = [] \<or> b = []")
  case True
  then show ?thesis by (auto simp: iter_eq_def is_end_def)
next
  case False
  then obtain n ts m us where ab: "a = n # ts" "b = m # us" by (meson neq_Nil_conv)
  obtain ps qs where "inorder t = ps @ rest a" "inorder t = qs @ rest b" "sorted_entries (inorder t)"
    using assms unfolding in_tree_def by metis
  then have sorted: "sorted_entries (ps @ rest a)" and same: "ps @ rest a = qs @ rest b" by simp_all
  have "iter_eq a b \<longleftrightarrow> fst (entry n) = fst (entry m)" by (simp add: ab iter_eq_def is_end_def)
  moreover have "rest a = rest b" if "fst (entry n) = fst (entry m)"
    using same_key_same_suffix [OF sorted [unfolded ab rest.simps] same [unfolded ab rest.simps] that]
    by (simp add: ab)
  ultimately show ?thesis by (auto simp: ab)
qed

interpretation tree_iterator:
  forward_iterator iter_get iter_next iter_eq rest "in_tree t"
  for t :: "('k::{linorder,default}, 'v::default) LlrbNode"
  by unfold_locales (rule in_tree_step, assumption+, rule in_tree_eq, assumption+)

lemma tree_begin_rest: "small t \<Longrightarrow> sorted_entries (inorder t) \<Longrightarrow>
    rest (tree_begin t) = inorder t \<and> in_tree t (tree_begin t)"
  using AccumulateLeft_rest [of t "[]"] by (simp add: tree_begin_def iter_begin_def in_tree_def)

lemma tree_end_rest: "sorted_entries (inorder t) \<Longrightarrow> rest (tree_end t) = [] \<and> in_tree t (tree_end t)"
  by (simp add: tree_end_def iter_end_def in_tree_def)

lemma tree_lower_bound_rest:
  assumes "small t" "sorted_entries (inorder t)"
  shows "rest (tree_lower_bound Compare k t) = filter (\<lambda>p. k \<le> fst p) (inorder t)"
    "in_tree t (tree_lower_bound Compare k t)"
  using descend_rest [OF assms, of "[]" k] at_least_append [OF assms(2), of k] assms(2)
  by (auto simp: tree_lower_bound_def iter_LowerBound_def in_tree_def intro: sym)

lemma tree_find_rest:
  assumes "small t" "sorted_entries (inorder t)"
  shows "rest (tree_find Compare k t) =
      (if k \<in> fst ` set (inorder t) then filter (\<lambda>p. k \<le> fst p) (inorder t) else [])"
    "in_tree t (tree_find Compare k t)"
proof -
  let ?it = "tree_lower_bound Compare k t"
  note low = tree_lower_bound_rest [OF assms, of k]
  have "(\<exists>p qs. rest ?it = p # qs \<and> fst p = k) \<longleftrightarrow> k \<in> fst ` set (inorder t)"
    unfolding low(1) by (rule at_least_member [OF assms(2)])
  then have "?it \<noteq> [] \<and> k = fst (entry (hd ?it)) \<longleftrightarrow> k \<in> fst ` set (inorder t)"
    by (cases ?it) auto
  then have "tree_find Compare k t = (if k \<in> fst ` set (inorder t) then ?it else [])"
    by (simp add: tree_find_def Let_def is_end_def iter_end_def Compare_simps)
  then show "rest (tree_find Compare k t) =
      (if k \<in> fst ` set (inorder t) then filter (\<lambda>p. k \<le> fst p) (inorder t) else [])"
    "in_tree t (tree_find Compare k t)"
    using low tree_end_rest [OF assms(2)] by (simp_all add: tree_end_def iter_end_def)
qed

section \<open>Membership and rank\<close>

lemma key_cases:
  fixes k :: "'k::linorder"
  obtains "k < fst e" "Compare k (fst e) = Ascending" | "k = fst e" "Compare k (fst e) = Same"
    | "fst e < k" "Compare k (fst e) = Descending"
  by (cases k "fst e" rule: linorder_cases) (auto simp: Compare_def)

lemma tree_contains_ok:
  "small t \<Longrightarrow> sorted_entries (inorder t) \<Longrightarrow> tree_contains Compare k t \<longleftrightarrow> k \<in> fst ` set (inorder t)"
proof (induction t)
  case (Rep e c n l r)
  note ok = small_node_ok [OF Rep.prems(1)]
  have sorted: "sorted_entries (inorder l)" "sorted_entries (inorder r)"
    "\<And>p. p \<in> set (inorder l) \<Longrightarrow> fst p < fst e" "\<And>p. p \<in> set (inorder r) \<Longrightarrow> fst e < fst p"
    using Rep.prems(2) unfolding inorder.simps sorted_split by simp_all
  then have notin: "k \<notin> fst ` set (inorder r)" if "k \<le> fst e" using that by fastforce
  have notin': "k \<notin> fst ` set (inorder l)" if "fst e \<le> k" using that sorted(3) by fastforce
  have IH: "tree_contains Compare k l \<longleftrightarrow> k \<in> fst ` set (inorder l)"
    "tree_contains Compare k r \<longleftrightarrow> k \<in> fst ` set (inorder r)"
    using Rep.IH sorted(1,2) ok by blast+
  show ?case
    by (rule key_cases [of k e]) (use IH ok notin notin' in \<open>simp_all add: image_Un less_imp_not_eq less_imp_not_eq2\<close>)
qed simp

lemma rank_split:
  assumes "sorted_entries (ps @ e # qs)"
  shows "k \<le> fst e \<Longrightarrow> filter (\<lambda>p. fst p < k) (ps @ e # qs) = filter (\<lambda>p. fst p < k) ps"
    "fst e < k \<Longrightarrow> filter (\<lambda>p. fst p < k) (ps @ e # qs) = ps @ e # filter (\<lambda>p. fst p < k) qs"
proof -
  have ps: "\<And>p. p \<in> set ps \<Longrightarrow> fst p < fst e" and qs: "\<And>q. q \<in> set qs \<Longrightarrow> fst e < fst q"
    using assms unfolding sorted_split by simp_all
  have "filter (\<lambda>p. fst p < k) qs = []" if "k \<le> fst e" using qs that by (intro filter_none) fastforce
  moreover have "filter (\<lambda>p. fst p < k) ps = ps" if "fst e < k" using ps that by (intro filter_all) fastforce
  ultimately show "k \<le> fst e \<Longrightarrow> filter (\<lambda>p. fst p < k) (ps @ e # qs) = filter (\<lambda>p. fst p < k) ps"
    "fst e < k \<Longrightarrow> filter (\<lambda>p. fst p < k) (ps @ e # qs) = ps @ e # filter (\<lambda>p. fst p < k) qs"
    by auto
qed

lemma tree_find_index_ok:
  "small t \<Longrightarrow> sorted_entries (inorder t) \<Longrightarrow>
   tree_find_index Compare k p t =
     (if k \<in> fst ` set (inorder t) then p + of_nat (length (filter (\<lambda>q. fst q < k) (inorder t))) else npos)"
proof (induction t arbitrary: p)
  case (Rep e c n l r)
  note ok = small_node_ok [OF Rep.prems(1)]
  have sorted: "sorted_entries (inorder l)" "sorted_entries (inorder r)"
    "\<And>p. p \<in> set (inorder l) \<Longrightarrow> fst p < fst e" "\<And>p. p \<in> set (inorder r) \<Longrightarrow> fst e < fst p"
    using Rep.prems(2) unfolding inorder.simps sorted_split by simp_all
  have notin: "k \<notin> fst ` set (inorder r)" if "k \<le> fst e" using that sorted(4) by fastforce
  have notin': "k \<notin> fst ` set (inorder l)" if "fst e \<le> k" using that sorted(3) by fastforce
  have below: "filter (\<lambda>q. fst q < fst e) (inorder l) = inorder l"
    using sorted(3) by (intro filter_all) simp
  have size_l: "node_size l = of_nat (length (inorder l))"
  proof -
    have "node_size l = of_nat (unat (node_size l))" by simp
    then show ?thesis using node_size_nodes [of l] ok by (simp only: length_inorder)
  qed
  note rank = rank_split [OF Rep.prems(2) [unfolded inorder.simps], of k]
  note IH = Rep.IH(1) [OF _ sorted(1)] Rep.IH(2) [OF _ sorted(2)]
  show ?case
    by (rule key_cases [of k e]) (use IH ok notin notin' rank below size_l in \<open>simp_all add: image_Un algebra_simps\<close>)
qed simp

end
