(* ===== verification/SortedMapSpec.thy ===== *)
theory SortedMapSpec
  imports SortedMap ArrayMapSpec TreeMapSpec
begin

text \<open>
  The contract of a finite map, the contract of a map kept as a sorted list of entries, which
  implies it, and the three implementations that meet them: the array, the tree, and the tagged
  union of \<open>sorted_map.h\<close> that changes from one to the other.
\<close>

section \<open>Contracts\<close>

datatype ('k, 'v) map_op = Insert 'k 'v | Erase 'k

primrec abstract_op :: "('k, 'v) map_op \<Rightarrow> ('k \<rightharpoonup> 'v) \<Rightarrow> ('k \<rightharpoonup> 'v)" where
  "abstract_op (Insert k v) f = f(k \<mapsto> v)"
| "abstract_op (Erase k) f = f(k := None)"

primrec run_op ::
  "('k \<Rightarrow> 'v \<Rightarrow> 'm \<Rightarrow> 'm option) \<Rightarrow> ('k \<Rightarrow> 'm \<Rightarrow> 'm option) \<Rightarrow> ('k, 'v) map_op \<Rightarrow> 'm \<Rightarrow> 'm option" where
  "run_op ins er (Insert k v) m = ins k v m"
| "run_op ins er (Erase k) m = er k m"

primrec run_ops ::
  "('k \<Rightarrow> 'v \<Rightarrow> 'm \<Rightarrow> 'm option) \<Rightarrow> ('k \<Rightarrow> 'm \<Rightarrow> 'm option) \<Rightarrow> ('k, 'v) map_op list \<Rightarrow> 'm \<Rightarrow> 'm option" where
  "run_ops ins er [] m = Some m"
| "run_ops ins er (p # ps) m = Option.bind (run_op ins er p m) (run_ops ins er ps)"

locale finite_map =
  fixes inv :: "'m \<Rightarrow> bool" and lookup :: "'m \<Rightarrow> 'k \<rightharpoonup> 'v" and count :: "'m \<Rightarrow> nat" and capacity :: nat
    and ins :: "'k \<Rightarrow> 'v \<Rightarrow> 'm \<Rightarrow> 'm option" and er :: "'k \<Rightarrow> 'm \<Rightarrow> 'm option"
  assumes lookup_insert: "inv m \<Longrightarrow> count m < capacity \<Longrightarrow>
      \<exists>m'. ins k v m = Some m' \<and> inv m' \<and> lookup m' = (lookup m)(k \<mapsto> v) \<and> count m' \<le> Suc (count m)"
    and lookup_erase: "inv m \<Longrightarrow>
      \<exists>m'. er k m = Some m' \<and> inv m' \<and> lookup m' = (lookup m)(k := None) \<and> count m' \<le> count m"
begin

lemma step_lookup:
  assumes "inv m" "count m < capacity"
  shows "\<exists>m'. run_op ins er p m = Some m' \<and> inv m' \<and> lookup m' = abstract_op p (lookup m) \<and>
    count m' \<le> Suc (count m)"
proof (cases p)
  case (Insert k v)
  then show ?thesis using lookup_insert [OF assms, of k v] by simp
next
  case (Erase k)
  obtain m' where "er k m = Some m'" "inv m'" "lookup m' = (lookup m)(k := None)" "count m' \<le> count m"
    using lookup_erase [OF assms(1), of k] by blast
  with Erase show ?thesis by simp
qed

lemma run_lookup:
  "inv m \<Longrightarrow> count m + length ps \<le> capacity \<Longrightarrow>
   \<exists>m'. run_ops ins er ps m = Some m' \<and> inv m' \<and> lookup m' = fold abstract_op ps (lookup m)"
proof (induction ps arbitrary: m)
  case (Cons p ps)
  then obtain m' where m': "run_op ins er p m = Some m'" "inv m'"
    "lookup m' = abstract_op p (lookup m)" "count m' \<le> Suc (count m)"
    using step_lookup [of m p] by auto
  with Cons.IH [of m'] Cons.prems(2) show ?case by simp
qed simp

end

locale sorted_map =
  fixes inv :: "'m \<Rightarrow> bool" and entries :: "'m \<Rightarrow> ('k::linorder \<times> 'v) list" and capacity :: nat
    and ins :: "'k \<Rightarrow> 'v \<Rightarrow> 'm \<Rightarrow> 'm option" and er :: "'k \<Rightarrow> 'm \<Rightarrow> 'm option"
    and has :: "'k \<Rightarrow> 'm \<Rightarrow> bool" and index :: "'k \<Rightarrow> 'm \<Rightarrow> size_type"
  assumes sorted: "inv m \<Longrightarrow> sorted_entries (entries m)"
    and insert_entries: "inv m \<Longrightarrow> length (entries m) < capacity \<Longrightarrow>
      \<exists>m'. ins k v m = Some m' \<and> inv m' \<and> entries m' = inserted k v (entries m)"
    and erase_entries: "inv m \<Longrightarrow> \<exists>m'. er k m = Some m' \<and> inv m' \<and> entries m' = erased k (entries m)"
    and has_key: "inv m \<Longrightarrow> has k m \<longleftrightarrow> k \<in> fst ` set (entries m)"
    and index_key: "inv m \<Longrightarrow> index k m =
      (if has k m then of_nat (length (filter (\<lambda>p. fst p < k) (entries m))) else npos)"

sublocale sorted_map \<subseteq> finite_map inv "\<lambda>m. map_of (entries m)" "\<lambda>m. length (entries m)" capacity ins er
proof
  fix m k v
  assume m: "inv m"
  show "\<exists>m'. er k m = Some m' \<and> inv m' \<and> map_of (entries m') = (map_of (entries m))(k := None) \<and>
      length (entries m') \<le> length (entries m)"
    using erase_entries [OF m, of k] by (auto simp: map_of_erased length_erased)
  assume "length (entries m) < capacity"
  then show "\<exists>m'. ins k v m = Some m' \<and> inv m' \<and> map_of (entries m') = (map_of (entries m))(k \<mapsto> v) \<and>
      length (entries m') \<le> Suc (length (entries m))"
    using insert_entries [OF m, of k v] map_of_inserted [OF sorted [OF m]] by (auto simp: length_inserted)
qed

context sorted_map
begin

lemma has_after_insert:
  assumes "inv m" "length (entries m) < capacity" "ins k v m = Some m'"
  shows "has x m' \<longleftrightarrow> x = k \<or> has x m"
  using insert_entries [OF assms(1,2), of k v] assms(1,3) has_key
  by (auto simp: inserted_def image_Un image_iff)

lemma index_nth:
  assumes "inv m" "length (entries m) < 2 ^ 32" "has k m"
  shows "unat (index k m) < length (entries m) \<and> fst (entries m ! unat (index k m)) = k"
proof -
  let ?ps = "entries m" and ?bs = "filter (\<lambda>p. fst p < k) (entries m)"
  obtain p qs where p: "filter (\<lambda>p. k \<le> fst p) ?ps = p # qs" "fst p = k"
    using at_least_member [OF sorted [OF assms(1)], of k] has_key [OF assms(1)] assms(3) by blast
  have ps: "?ps = ?bs @ p # qs" using at_least_append [OF sorted [OF assms(1)], of k] p(1) by simp
  have "length ?bs < length ?ps" using arg_cong [OF ps, of length] by simp
  moreover from this assms(2) have "unat (index k m) = length ?bs"
    using index_key [OF assms(1), of k] assms(3) by (simp add: unat_of_nat)
  moreover have "?ps ! length ?bs = p" by (subst ps) simp
  ultimately show ?thesis using p(2) by simp
qed

end

section \<open>The array and the tree\<close>

interpretation array_map: sorted_map array_wf elements 25
  "array_insert Compare" "array_erase Compare" "array_contains Compare" "array_find_index Compare"
proof
  fix a :: "('k::{linorder,default}, 'v::default) ArraySortedMap" and k v
  assume a: "array_wf a"
  then show "sorted_entries (elements a)" by (simp add: array_wf_def)
  show "array_contains Compare k a \<longleftrightarrow> k \<in> fst ` set (elements a)" by (rule array_lookups(1) [OF a])
  show "array_find_index Compare k a = (if array_contains Compare k a
      then of_nat (length (filter (\<lambda>p. fst p < k) (elements a))) else npos)"
    by (rule array_lookups(2) [OF a])
  show "\<exists>b. array_erase Compare k a = Some b \<and> array_wf b \<and> elements b = erased k (elements a)"
    by (rule array_erase_ok [OF a])
  assume "length (elements a) < 25"
  then show "\<exists>b. array_insert Compare k v a = Some b \<and> array_wf b \<and> elements b = inserted k v (elements a)"
    using array_insert_ok [OF a] length_elements [of a] a by (simp add: array_wf_def)
qed

interpretation tree_map: sorted_map wf_tree inorder "2 ^ 31 - 1"
  "\<lambda>k v t. Some (tree_insert Compare k v t)" "\<lambda>k t. Some (tree_erase Compare k t)"
  "tree_contains Compare" "\<lambda>k. tree_find_index Compare k 0"
proof
  fix t :: "('k::{linorder,default}, 'v::default) TreeSortedMap" and k v
  assume t: "wf_tree t"
  then have parts: "small t" "sorted_entries (inorder t)" by (simp_all add: wf_tree_def)
  then show "sorted_entries (inorder t)" by simp
  show "\<exists>u. Some (tree_erase Compare k t) = Some u \<and> wf_tree u \<and> inorder u = erased k (inorder t)"
    using node_erase_wf [OF t] by (simp add: tree_erase_def)
  show "tree_contains Compare k t \<longleftrightarrow> k \<in> fst ` set (inorder t)" by (rule tree_contains_ok [OF parts])
  then show "tree_find_index Compare k 0 t = (if tree_contains Compare k t
      then of_nat (length (filter (\<lambda>p. fst p < k) (inorder t))) else npos)"
    using tree_find_index_ok [OF parts, of k 0] by simp
  assume "length (inorder t) < 2 ^ 31 - 1"
  then show "\<exists>u. Some (tree_insert Compare k v t) = Some u \<and> wf_tree u \<and> inorder u = inserted k v (inorder t)"
    using node_insert_wf [OF t] by (simp add: tree_insert_def length_inorder)
qed

section \<open>The tagged union\<close>

fun sm_entries :: "('k, 'v) SortedMap \<Rightarrow> ('k \<times> 'v) list" where
  "sm_entries (ArrayTag a) = elements a"
| "sm_entries (TreeTag t) = inorder t"

fun sm_wf :: "('k::linorder, 'v) SortedMap \<Rightarrow> bool" where
  "sm_wf (ArrayTag a) \<longleftrightarrow> array_wf a"
| "sm_wf (TreeTag t) \<longleftrightarrow> wf_tree t \<and> t \<noteq> EmptyRep"

lemma sm_init_wf [simp]: "sm_wf sm_init" "sm_entries sm_init = []"
  by (simp_all add: sm_init_def array_init_def array_wf_def)

lemma inserted_last:
  "sorted_entries (ps @ [(k, v)]) \<Longrightarrow> inserted k v ps = ps @ [(k, v)]"
  unfolding sorted_split inserted_def by (auto intro: filter_all filter_none simp: less_imp_not_less)

lemma tree_Create_fold:
  "wf_tree t \<Longrightarrow> sorted_entries (inorder t @ ps) \<Longrightarrow> length (inorder t @ ps) < 2 ^ 31 \<Longrightarrow>
   wf_tree (fold (\<lambda>p. node_insert Compare (fst p) (snd p)) ps t) \<and>
   inorder (fold (\<lambda>p. node_insert Compare (fst p) (snd p)) ps t) = inorder t @ ps"
proof (induction ps arbitrary: t)
  case (Cons p ps)
  let ?u = "node_insert Compare (fst p) (snd p) t"
  have "sorted_entries (inorder t @ [p])" using Cons.prems(2) by (simp add: sorted_wrt_append)
  then have "inserted (fst p) (snd p) (inorder t) = inorder t @ [p]"
    using inserted_last [of "inorder t" "fst p" "snd p"] by simp
  moreover have "Suc (nodes t) < 2 ^ 31" using Cons.prems(3) by (simp add: length_inorder)
  ultimately have "wf_tree ?u" "inorder ?u = inorder t @ [p]"
    using node_insert_wf [OF Cons.prems(1), of "fst p" "snd p"] by simp_all
  then show ?case using Cons.IH [of ?u] Cons.prems(2,3) by simp
qed simp

lemma tree_Create_ok:
  assumes "sorted_entries ps" "length ps < 2 ^ 31"
  shows "wf_tree (tree_Create Compare ps) \<and> inorder (tree_Create Compare ps) = ps"
  using tree_Create_fold [of EmptyRep ps] assms by (simp add: tree_Create_def)

lemma inserted_not_empty [simp]: "inserted k v ps \<noteq> []" "[] \<noteq> inserted k v ps"
  by (simp_all add: inserted_def)

lemma sm_insert_entries:
  assumes "sm_wf m" "length (sm_entries m) < 2 ^ 31 - 1"
  shows "\<exists>m'. sm_insert Compare k v m = Some m' \<and> sm_wf m' \<and> sm_entries m' = inserted k v (sm_entries m)"
proof (cases m)
  case (TreeTag t)
  then show ?thesis
    using tree_map.insert_entries [of t k v] assms inorder_empty [of "tree_insert Compare k v t"] by auto
next
  case (ArrayTag a)
  then have a: "array_wf a" "array_ok a" "sorted_entries (elements a)" using assms(1) by (simp_all add: array_wf_def)
  note len = length_elements [OF a(2)]
  show ?thesis
  proof (cases "array_size a \<ge> kFixedSize")
    case True
    let ?t = "tree_Create Compare (elements a)"
    have t: "wf_tree ?t" "inorder ?t = elements a" "length (inorder ?t) < 2 ^ 31 - 1"
      using tree_Create_ok [OF a(3)] a(2) by (simp_all add: len array_ok_def)
    have "tree_insert Compare k v ?t \<noteq> EmptyRep" "wf_tree (tree_insert Compare k v ?t)"
      "inorder (tree_insert Compare k v ?t) = inserted k v (elements a)"
      using tree_map.insert_entries [OF t(1,3), of k v] t(2) inserted_not_empty [of k v "elements a"] by auto
    with True ArrayTag show ?thesis by simp
  next
    case False
    then have "length (elements a) < 25"
      by (simp add: len array_size_def kFixedSize_def word_le_nat_alt)
    then show ?thesis
      using array_map.insert_entries [OF a(1), of k v] False ArrayTag by auto
  qed
qed

lemma sm_erase_entries:
  assumes "sm_wf m"
  shows "\<exists>m'. sm_erase Compare k m = Some m' \<and> sm_wf m' \<and> sm_entries m' = erased k (sm_entries m)"
proof (cases m)
  case (ArrayTag a)
  then show ?thesis using array_map.erase_entries [of a k] assms by auto
next
  case (TreeTag t)
  let ?u = "tree_erase Compare k t"
  have u: "wf_tree ?u" "inorder ?u = erased k (inorder t)" "tree_empty ?u \<longleftrightarrow> ?u = EmptyRep"
    using tree_map.erase_entries [of t k] assms TreeTag is_empty_small [of ?u]
    by (auto simp: tree_empty_def wf_tree_def)
  then show ?thesis
    using TreeTag inorder_empty [of ?u] by (cases "?u = EmptyRep") (auto simp: Let_def)
qed

interpretation sm: sorted_map sm_wf sm_entries "2 ^ 31 - 1"
  "sm_insert Compare" "sm_erase Compare" "sm_contains Compare" "sm_find_index Compare"
proof
  fix m :: "('k::{linorder,default}, 'v::default) SortedMap" and k v
  assume m: "sm_wf m"
  show "sorted_entries (sm_entries m)"
    using m by (cases m) (simp_all add: array_map.sorted tree_map.sorted)
  show "sm_contains Compare k m \<longleftrightarrow> k \<in> fst ` set (sm_entries m)"
    using m by (cases m) (simp_all add: array_map.has_key tree_map.has_key)
  show "sm_find_index Compare k m = (if sm_contains Compare k m
      then of_nat (length (filter (\<lambda>p. fst p < k) (sm_entries m))) else npos)"
    using m by (cases m) (simp_all add: array_map.index_key tree_map.index_key)
  show "\<exists>m'. sm_erase Compare k m = Some m' \<and> sm_wf m' \<and> sm_entries m' = erased k (sm_entries m)"
    by (rule sm_erase_entries [OF m])
  show "\<exists>m'. sm_insert Compare k v m = Some m' \<and> sm_wf m' \<and> sm_entries m' = inserted k v (sm_entries m)"
    if "length (sm_entries m) < 2 ^ 31 - 1"
    by (rule sm_insert_entries [OF m that])
qed

end
