(* ===== verification/SortedRanges.thy ===== *)
theory SortedRanges
  imports SortedMapSpec
begin

text \<open>
  Iteration over the maps of \<open>sorted_map.h\<close>: every iterator a member function gives stands at a
  place of the entries, so the ranges of \<open>keys_view.h\<close> yield exactly the keys asked for; and the
  sets of \<open>sorted_set.h\<close>, with their union and comparison.
\<close>

section \<open>Iterators of the tagged union\<close>

fun smi_rest :: "('k::default, 'v::default) SortedMapIterator \<Rightarrow> ('k \<times> 'v) list" where
  "smi_rest (ArrayIter a i) = drop i (elements a)"
| "smi_rest (TreeIter it) = rest it"

fun in_map :: "('k::{linorder,default}, 'v::default) SortedMap \<Rightarrow> ('k, 'v) SortedMapIterator \<Rightarrow> bool" where
  "in_map (ArrayTag a) (ArrayIter b i) \<longleftrightarrow> b = a \<and> array_ok a \<and> i \<le> length (elements a)"
| "in_map (TreeTag t) (TreeIter it) \<longleftrightarrow> in_tree t it"
| "in_map m it \<longleftrightarrow> False"

lemma array_ok_nth:
  "array_ok a \<Longrightarrow> i < length (elements a) \<Longrightarrow> i < length (contents a) \<and> contents a ! i = elements a ! i"
  by (auto simp: array_ok_def elements_def)

lemma in_map_step:
  assumes "in_map m it" "smi_rest it = x # xs"
  shows "smi_get it = Some x \<and> (\<exists>it'. smi_next it = Some it' \<and> in_map m it' \<and> smi_rest it' = xs)"
proof (cases it)
  case (ArrayIter a i)
  then have m: "m = ArrayTag a" "array_ok a" using assms(1) by (cases m; simp)+
  have "drop i (elements a) = x # xs" using assms(2) ArrayIter by simp
  then have "i < length (elements a)" "elements a ! i = x" "drop (Suc i) (elements a) = xs"
    by (metis drop_eq_Nil list.distinct(1) not_le, metis nth_via_drop, metis drop_Suc drop_tl list.sel(3))
  then show ?thesis using array_ok_nth [OF m(2), of i] m ArrayIter by simp
next
  case (TreeIter s)
  then obtain t where "m = TreeTag t" "in_tree t s" using assms(1) by (cases m) simp_all
  then show ?thesis using in_tree_step [of t s x xs] assms(2) TreeIter by auto
qed

lemma drop_eq_drop:
  "i \<le> length xs \<Longrightarrow> j \<le> length xs \<Longrightarrow> drop i xs = drop j xs \<longleftrightarrow> i = j"
  by (metis diff_diff_cancel length_drop)

lemma in_map_eq:
  assumes "in_map m a" "in_map m b"
  shows "smi_eq a b \<longleftrightarrow> smi_rest a = smi_rest b"
  using assms by (cases m; cases a; cases b) (simp_all add: drop_eq_drop in_tree_eq)

interpretation sm_iterator: forward_iterator smi_get smi_next smi_eq smi_rest "in_map m"
  for m :: "('k::{linorder,default}, 'v::default) SortedMap"
  by unfold_locales (rule in_map_step, assumption+, rule in_map_eq, assumption+)

lemma sm_wf_parts:
  "sm_wf (ArrayTag a) \<Longrightarrow> array_ok a \<and> sorted_entries (elements a)"
  "sm_wf (TreeTag t) \<Longrightarrow> small t \<and> sorted_entries (inorder t)"
  by (simp_all add: array_wf_def wf_tree_def)

lemma array_end_length: "array_ok a \<Longrightarrow> array_end a = length (elements a)"
  by (simp add: array_end_def array_begin_def length_elements)

lemma array_iterators:
  assumes "sm_wf (ArrayTag a)"
  shows "in_map (ArrayTag a) (sm_begin (ArrayTag a)) \<and> smi_rest (sm_begin (ArrayTag a)) = elements a"
    "in_map (ArrayTag a) (sm_end (ArrayTag a)) \<and> smi_rest (sm_end (ArrayTag a)) = []"
    "in_map (ArrayTag a) (sm_lower_bound Compare k (ArrayTag a)) \<and>
     smi_rest (sm_lower_bound Compare k (ArrayTag a)) = filter (\<lambda>p. k \<le> fst p) (elements a)"
    "in_map (ArrayTag a) (sm_find Compare k (ArrayTag a)) \<and>
     smi_rest (sm_find Compare k (ArrayTag a)) =
      (if k \<in> fst ` set (elements a) then filter (\<lambda>p. k \<le> fst p) (elements a) else [])"
  using sm_wf_parts(1) [OF assms] array_positions array_find_at(1) [of a k]
  by (simp_all add: array_begin_def array_end_length array_lower_bound_at)

lemma tree_iterators:
  assumes "sm_wf (TreeTag t)"
  shows "in_map (TreeTag t) (sm_begin (TreeTag t)) \<and> smi_rest (sm_begin (TreeTag t)) = inorder t"
    "in_map (TreeTag t) (sm_end (TreeTag t)) \<and> smi_rest (sm_end (TreeTag t)) = []"
    "in_map (TreeTag t) (sm_lower_bound Compare k (TreeTag t)) \<and>
     smi_rest (sm_lower_bound Compare k (TreeTag t)) = filter (\<lambda>p. k \<le> fst p) (inorder t)"
    "in_map (TreeTag t) (sm_find Compare k (TreeTag t)) \<and>
     smi_rest (sm_find Compare k (TreeTag t)) =
      (if k \<in> fst ` set (inorder t) then filter (\<lambda>p. k \<le> fst p) (inorder t) else [])"
  using sm_wf_parts(2) [OF assms] by (simp_all add: tree_begin_rest tree_end_rest tree_lower_bound_rest tree_find_rest)

lemma sm_iterators:
  assumes "sm_wf m"
  shows "in_map m (sm_begin m) \<and> smi_rest (sm_begin m) = sm_entries m"
    "in_map m (sm_end m) \<and> smi_rest (sm_end m) = []"
    "in_map m (sm_lower_bound Compare k m) \<and>
     smi_rest (sm_lower_bound Compare k m) = filter (\<lambda>p. k \<le> fst p) (sm_entries m)"
    "in_map m (sm_find Compare k m) \<and>
     smi_rest (sm_find Compare k m) =
      (if k \<in> fst ` set (sm_entries m) then filter (\<lambda>p. k \<le> fst p) (sm_entries m) else [])"
  using assms
  by - (cases m; hypsubst; (simp only: sm_entries.simps)?; (rule array_iterators | rule tree_iterators); assumption)+

lemmas sm_begin = sm_iterators(1) [THEN conjunct1] sm_iterators(1) [THEN conjunct2]
lemmas sm_end = sm_iterators(2) [THEN conjunct1] sm_iterators(2) [THEN conjunct2]
lemmas sm_low = sm_iterators(3) [THEN conjunct1] sm_iterators(3) [THEN conjunct2]
lemmas sm_found = sm_iterators(4) [THEN conjunct1] sm_iterators(4) [THEN conjunct2]

lemma walk_sm:
  assumes "in_map m b" "in_map m e" "smi_rest b = xs @ smi_rest e"
  shows "walk_range (b, e) = Some xs"
  using sm_iterator.walk_between [OF assms] by (simp add: walk_range_def)

lemma keys_entries:
  assumes "sm_wf m"
  shows "walk_range (sm_keys m) = Some (sm_entries m)"
    "walk_range (sm_keys_from Compare k m) = Some (filter (\<lambda>p. k \<le> fst p) (sm_entries m))"
  unfolding sm_keys_def sm_keys_from_def using sm_begin [OF assms] sm_end [OF assms] sm_low [OF assms] by (auto intro!: walk_sm)

lemma range_split:
  "sorted_entries ps \<Longrightarrow> a < b \<Longrightarrow>
   filter (\<lambda>p. a \<le> fst p) ps = filter (\<lambda>p. a \<le> fst p \<and> fst p < b) ps @ filter (\<lambda>p. b \<le> fst p) ps"
proof -
  assume "sorted_entries ps" "a < b"
  then have "filter (\<lambda>p. a \<le> fst p) ps =
      filter (\<lambda>p. a \<le> fst p) (filter (\<lambda>p. fst p < b) ps @ filter (\<lambda>p. b \<le> fst p) ps)"
    by (simp only: at_least_append)
  also have "\<dots> = filter (\<lambda>p. a \<le> fst p \<and> fst p < b) ps @ filter (\<lambda>p. b \<le> fst p) ps"
    using \<open>a < b\<close> by (simp, intro arg_cong2 [where f = append] filter_cong) auto
  finally show ?thesis .
qed

lemma keys_in_entries:
  assumes "sm_wf m"
  shows "walk_range (sm_keys_in Compare a b m) = Some (filter (\<lambda>p. a \<le> fst p \<and> fst p < b) (sm_entries m))"
proof (cases "a < b")
  case True
  then show ?thesis
    using sm_begin [OF assms] sm_end [OF assms] sm_low [OF assms] range_split [OF sm.sorted [OF assms] True]
    by (auto simp: sm_keys_in_def Let_def Compare_simps intro!: walk_sm)
next
  case False
  then have "filter (\<lambda>p. a \<le> fst p \<and> fst p < b) (sm_entries m) = []" by (intro filter_none) auto
  with False show ?thesis
    using sm_begin [OF assms] sm_end [OF assms] sm_low [OF assms] by (auto simp: sm_keys_in_def Let_def Compare_simps intro!: walk_sm)
qed

lemma sm_get_lookup:
  assumes "sm_wf m"
  shows "sm_get Compare k m = Some (map_of (sm_entries m) k)"
proof (cases "k \<in> fst ` set (sm_entries m)")
  case False
  then show ?thesis
    using sm_found [OF assms, of k] sm_end [OF assms] in_map_eq [of m "sm_find Compare k m" "sm_end m"]
    by (simp add: sm_get_def Let_def) (metis map_of_eq_None_iff)
next
  case True
  then obtain p qs where p: "filter (\<lambda>p. k \<le> fst p) (sm_entries m) = p # qs" "fst p = k"
    using at_least_member [OF sm.sorted [OF assms]] by blast
  then have "p \<in> set (sm_entries m)" by (metis filter_is_subset in_mono list.set_intros(1))
  then have "map_of (sm_entries m) k = Some (snd p)"
    using p(2) by (simp add: sorted_map_of [OF sm.sorted [OF assms]] flip: p(2))
  then show ?thesis
    using True p sm_found [OF assms, of k] sm_end [OF assms] in_map_eq [of m "sm_find Compare k m" "sm_end m"]
      in_map_step [of m "sm_find Compare k m" p qs] by (simp add: sm_get_def Let_def)
qed

lemma sm_min_max:
  assumes "sm_wf m" "sm_entries m \<noteq> []"
  shows "smi_get (sm_min m) = Some (hd (sm_entries m)) \<and> smi_get (sm_max m) = Some (last (sm_entries m))"
proof (cases m)
  case (ArrayTag a)
  have a: "array_ok a" "elements a \<noteq> []" using assms by (simp_all add: ArrayTag array_wf_def)
  then have "0 < length (elements a)" by simp
  with array_ok_nth [OF a(1), of 0] array_ok_nth [OF a(1), of "length (elements a) - 1"] a(2)
  show ?thesis
    using length_elements [OF a(1)]
    by (auto simp: ArrayTag array_min_def array_max_def array_begin_def array_end_length [OF a(1)]
        array_empty_def array_size_def hd_conv_nth last_conv_nth)
next
  case (TreeTag t)
  have t: "small t" "t \<noteq> EmptyRep" using assms by (simp_all add: TreeTag wf_tree_def)
  have "rest (tree_begin t) = inorder t" using assms(1) by (simp add: TreeTag tree_begin_rest wf_tree_def)
  then have "tree_begin t \<noteq> [] \<and> entry (hd (tree_begin t)) = hd (inorder t)"
    using t(2) by (cases "tree_begin t") (auto dest: arg_cong [where f = hd])
  moreover have "entry (max_node t) = last (inorder t)"
    using t
  proof (induction t)
    case (Rep e c n l r)
    have "is_empty r \<longleftrightarrow> r = EmptyRep" "small r" using small_children [OF Rep.prems(1)] is_empty_small by auto
    with Rep.IH(2) show ?case by (cases "r = EmptyRep") simp_all
  qed simp
  ultimately show ?thesis
    using t by (simp add: TreeTag tree_min_def tree_max_def tree_empty_def is_empty_small iter_get_def is_end_def)
qed

section \<open>Sets\<close>

definition keys_of :: "('k::{linorder,default}) SortedSet \<Rightarrow> 'k set" where
  "keys_of s = fst ` set (sm_entries s)"

lemma set_values_keys:
  assumes "sm_wf s"
  shows "set_values s = Some (sorted_list_of_set (keys_of s))"
proof -
  have "sorted (map fst (sm_entries s)) \<and> distinct (map fst (sm_entries s))"
    using sm.sorted [OF assms] by (simp add: strict_sorted_iff)
  then have "sorted_list_of_set (set (map fst (sm_entries s))) = map fst (sm_entries s)"
    by (intro sorted_list_of_set.idem_if_sorted_distinct) simp_all
  then have "sorted_list_of_set (keys_of s) = map fst (sm_entries s)"
    by (simp only: keys_of_def list.set_map)
  then show ?thesis by (simp add: set_values_def keys_entries [OF assms])
qed

lemma card_keys: "sm_wf s \<Longrightarrow> card (keys_of s) = length (sm_entries s)"
  using sorted_distinct [OF sm.sorted, of s] by (metis keys_of_def distinct_card length_map list.set_map)

lemma finite_keys [simp]: "finite (keys_of s)"
  by (simp add: keys_of_def)

lemma insert_all_keys:
  "sm_wf s \<Longrightarrow> card (keys_of s) + length ks < 2 ^ 31 \<Longrightarrow>
   \<exists>u. insert_all Compare ks s = Some u \<and> sm_wf u \<and> keys_of u = keys_of s \<union> set ks"
proof (induction ks arbitrary: s)
  case (Cons k ks)
  have len: "length (sm_entries s) < 2 ^ 31 - 1" using Cons.prems by (simp add: card_keys)
  obtain u where u: "set_insert Compare k s = Some u" "sm_wf u" "sm_entries u = inserted k Empty (sm_entries s)"
    using sm.insert_entries [OF Cons.prems(1) len, of k Empty] by (auto simp: set_insert_def)
  have keys: "keys_of u = insert k (keys_of s)"
    by (auto simp: keys_of_def u(3) inserted_def image_iff)
  then have "card (keys_of u) \<le> Suc (card (keys_of s))" by (simp add: card_insert_if)
  with Cons.IH [OF u(2)] Cons.prems(2) u(1) keys show ?case by auto
qed simp

lemma sm_size_card:
  assumes "sm_wf s" "card (keys_of s) < 2 ^ 31"
  shows "unat (sm_size s) = card (keys_of s)"
  unfolding card_keys [OF assms(1)] using assms(1)
proof (cases s)
  case (ArrayTag a)
  then show "unat (sm_size s) = length (sm_entries s)"
    using assms(1) by (simp add: array_size_def length_elements array_wf_def)
next
  case (TreeTag t)
  then show "unat (sm_size s) = length (sm_entries s)"
    using assms(1) by (simp add: tree_size_def node_size_nodes wf_tree_def length_inorder)
qed

lemma union_keys:
  assumes "sm_wf a" "sm_wf b" "card (keys_of a) + card (keys_of b) < 2 ^ 31"
  shows "\<exists>u. union_with Compare a b = Some u \<and> sm_wf u \<and> keys_of u = keys_of a \<union> keys_of b"
proof -
  have "\<exists>u. Option.bind (set_values y) (\<lambda>ks. insert_all Compare ks x) = Some u \<and> sm_wf u \<and>
      keys_of u = keys_of x \<union> keys_of y"
    if "sm_wf x" "sm_wf y" "card (keys_of x) + card (keys_of y) < 2 ^ 31" for x y :: "'a SortedSet"
    using insert_all_keys [OF that(1), of "sorted_list_of_set (keys_of y)"] that
    by (simp add: set_values_keys)
  from this [OF assms(1,2)] this [OF assms(2,1)] assms(3) show ?thesis
    by (cases "sm_size a < sm_size b") (auto simp: union_with_def set_size_def)
qed

lemma set_eq_keys:
  assumes "sm_wf a" "sm_wf b" "card (keys_of a) < 2 ^ 31" "card (keys_of b) < 2 ^ 31"
  shows "set_eq a b = Some (keys_of a = keys_of b)"
proof (cases "sm_size a = sm_size b")
  case True
  have "sorted_list_of_set (keys_of a) = sorted_list_of_set (keys_of b) \<longleftrightarrow> keys_of a = keys_of b"
    by (metis finite_keys set_sorted_list_of_set)
  with True show ?thesis by (simp add: set_eq_def set_size_def set_values_keys assms)
next
  case False
  then have "keys_of a \<noteq> keys_of b"
    using sm_size_card [OF assms(1,3)] sm_size_card [OF assms(2,4)] by (metis unsigned_word_eqI)
  with False show ?thesis by (simp add: set_eq_def set_size_def)
qed

end
