(* ===== verification/SortedMapProps.thy ===== *)
theory SortedMapProps
  imports SortedRanges
begin

text \<open>
  What the sorted containers of \<open>Firestore/core/src/immutable\<close> promise: the balance of the tree,
  the finite map a sequence of operations computes, ranks, ranges of keys, and sets.
\<close>

text \<open>A machine word, the key type of the examples below, is initialised to zero.\<close>

instantiation word :: (len) default
begin

definition default_word :: "'a word" where
  "default_word = 0"

instance ..

end

definition example_ops :: "(u32, u32) map_op list" where
  "example_ops = [Insert 5 1, Insert 3 2, Erase 5, Insert 9 4, Insert 3 7]"

definition example_tree :: "(u32, u32) LlrbNode" where
  "example_tree = Rep (5, 1) Black 2 (Rep (3, 2) Red 1 EmptyRep EmptyRep) EmptyRep"

definition example_map :: "(u32, u32) SortedMap" where
  "example_map = TreeTag example_tree"

definition example_set :: "u32 \<Rightarrow> u32 SortedSet" where
  "example_set k = TreeTag (Rep (k, Empty) Black 1 EmptyRep EmptyRep)"

lemma example_wf [simp]: "wf_tree example_tree" "sm_wf example_map" "sm_wf (example_set k)"
  by (simp_all add: example_map_def example_tree_def example_set_def wf_tree_def small_def)

lemma example_entries [simp]: "inorder example_tree = [(3, 2), (5, 1)]" "nodes example_tree = 2"
  "sm_entries example_map = [(3, 2), (5, 1)]"
  by (simp_all add: example_map_def example_tree_def)

lemma example_values [simp]: "set_values (example_set k) = Some [k]"
proof -
  have "keys_of (example_set k) = {k}" by (simp add: keys_of_def example_set_def)
  then show ?thesis using set_values_keys [of "example_set k"] by simp
qed

section \<open>The tree\<close>

text \<open>
  \<open>LlrbNode::insert\<close>, on any tree that meets the invariant (ascending keys, no red right
  child, no red child of a red node, equal black heights, true sizes, a black root) and still has
  room in its 31-bit size, gives a tree that meets it again; its entries are the old ones with the
  entry of the key replaced, or put in its place.
\<close>

theorem red_black_insert:
  "wf_tree t \<Longrightarrow> Suc (nodes t) < 2 ^ 31 \<Longrightarrow>
   wf_tree (node_insert Compare key val t) \<and>
   inorder (node_insert Compare key val t) = inserted key val (inorder t)"
  by (rule node_insert_wf)

lemma red_black_insert_witness:
  "wf_tree (node_insert Compare 4 6 example_tree) \<and>
   inorder (node_insert Compare 4 6 example_tree) = [(3, 2), (4, 6), (5, 1)]"
  using red_black_insert [of example_tree 4 6] by (simp add: inserted_def)

text \<open>
  C17: \<open>LlrbNode::erase\<close> keeps the invariant on every tree that meets it, whether the key is there
  or not, and its entries are the old ones without the key.
\<close>

theorem red_black_erase:
  "wf_tree t \<Longrightarrow>
   wf_tree (node_erase Compare key t) \<and> inorder (node_erase Compare key t) = erased key (inorder t)"
  by (rule node_erase_wf)

lemma red_black_erase_witness:
  "wf_tree (node_erase Compare 5 example_tree) \<and> inorder (node_erase Compare 5 example_tree) = [(3, 2)]"
  using red_black_erase [of example_tree 5] by (simp add: erased_def)

text \<open>
  C37: every tree that a sequence of fewer than \<open>2^31\<close> insertions and removals builds from the empty
  one is at most twice as deep as a perfectly balanced one: \<open>2^depth\<close> is at most the square of
  the number of entries plus one.
\<close>

theorem logarithmic_depth:
  "run_ops (\<lambda>k v t. Some (tree_insert Compare k v t)) (\<lambda>k t. Some (tree_erase Compare k t)) ops EmptyRep = Some t \<Longrightarrow>
   length ops < 2 ^ 31 \<Longrightarrow> 2 ^ depth t \<le> (Suc (nodes t))\<^sup>2"
  using tree_map.run_lookup [of EmptyRep ops] depth_nodes [of t] by auto

lemma logarithmic_depth_witness:
  "\<exists>t. run_ops (\<lambda>k v t. Some (tree_insert Compare k v t)) (\<lambda>k t. Some (tree_erase Compare k t)) example_ops EmptyRep
     = Some t \<and> 2 ^ depth t \<le> (Suc (nodes t))\<^sup>2"
  using tree_map.run_lookup [of EmptyRep example_ops] logarithmic_depth [of example_ops]
  by (auto simp: example_ops_def)

section \<open>The map\<close>

text \<open>
  C11: a \<open>SortedMap\<close> is a finite map: after any sequence of fewer than \<open>2^31\<close> insertions and removals
  from the empty map, through the array of 25 entries and the tree and back, every operation has
  succeeded, and \<open>get\<close> gives for every key what the same updates of a finite map give.
\<close>

theorem sorted_map_refines_map:
  "length ops < 2 ^ 31 \<Longrightarrow>
   \<exists>m. run_ops (sm_insert Compare) (sm_erase Compare) ops sm_init = Some m \<and> sm_wf m \<and>
     (\<forall>k. sm_get Compare k m = Some (fold abstract_op ops Map.empty k))"
  using sm.run_lookup [of sm_init ops] by (auto simp: sm_get_lookup)

lemma sorted_map_refines_map_witness:
  "\<exists>m. run_ops (sm_insert Compare) (sm_erase Compare) example_ops sm_init = Some m \<and> sm_wf m \<and>
     (\<forall>k. sm_get Compare k m = Some (fold abstract_op example_ops Map.empty k))"
  by (rule sorted_map_refines_map) (simp add: example_ops_def)

text \<open>
  C26: loops over the ranges of a \<open>SortedMap\<close> end and see the entries in ascending order of the
  keys: \<open>keys()\<close> all of them, \<open>keys_from(a)\<close> those from \<open>a\<close> on, \<open>keys_in(a, b)\<close> those from \<open>a\<close> on
  that are less than \<open>b\<close>, none when \<open>b\<close> is not greater than \<open>a\<close>.
\<close>

theorem key_ranges:
  "sm_wf m \<Longrightarrow> \<exists>es. walk_range (sm_keys m) = Some es \<and> sorted_entries es \<and>
     (\<forall>k. sm_get Compare k m = Some (map_of es k)) \<and>
     walk_range (sm_keys_from Compare a m) = Some (filter (\<lambda>p. a \<le> fst p) es) \<and>
     walk_range (sm_keys_in Compare a b m) = Some (filter (\<lambda>p. a \<le> fst p \<and> fst p < b) es)"
  by (simp add: keys_entries keys_in_entries sm_get_lookup sm.sorted)

lemma key_ranges_witness:
  "walk_range (sm_keys_in Compare 4 9 example_map) = Some [(5, 1)]"
  using key_ranges [of example_map 4 9] keys_entries(1) [of example_map] by simp

text \<open>
  \<open>find_index\<close> is the place of the key in the iteration of the map: for a key the map contains,
  the entry at that place has the key, and for every other it is \<open>npos\<close>.
\<close>

theorem find_index_is_place:
  "sm_wf m \<Longrightarrow> walk_range (sm_keys m) = Some es \<Longrightarrow> length es < 2 ^ 32 \<Longrightarrow>
   (if sm_contains Compare k m
    then unat (sm_find_index Compare k m) < length es \<and> fst (es ! unat (sm_find_index Compare k m)) = k
    else k \<notin> fst ` set es \<and> sm_find_index Compare k m = npos)"
  using sm.index_nth [of m k] sm.index_key [of m k] sm.has_key [of m k] by (simp add: keys_entries)

lemma find_index_is_place_witness:
  "unat (sm_find_index Compare 5 example_map) = 1"
proof -
  let ?i = "unat (sm_find_index Compare 5 example_map)"
  have "?i < 2 \<and> fst ([(3, 2 :: u32), (5, 1)] ! ?i) = (5 :: u32)"
    using find_index_is_place [of example_map "[(3, 2), (5, 1)]" 5]
      keys_entries(1) [of example_map] sm.has_key [of example_map 5] by simp
  then show ?thesis by (cases ?i) auto
qed

section \<open>Sets\<close>

text \<open>
  \<open>union_with\<close> of two sets, whichever is the larger, succeeds and iterates over the union of
  their elements in ascending order, each once; \<open>operator==\<close> on two sets compares their elements.
\<close>

theorem set_union_and_equality:
  "sm_wf a \<Longrightarrow> sm_wf b \<Longrightarrow> set_values a = Some xs \<Longrightarrow> set_values b = Some ys \<Longrightarrow>
   length xs + length ys < 2 ^ 31 \<Longrightarrow>
   (\<exists>u. union_with Compare a b = Some u \<and> sm_wf u \<and>
      set_values u = Some (sorted_list_of_set (set xs \<union> set ys))) \<and>
   set_eq a b = Some (set xs = set ys)"
  using union_keys [of a b] set_eq_keys [of a b] by (auto simp: set_values_keys)

lemma set_union_and_equality_witness:
  "(\<exists>u. union_with Compare (example_set 7) (example_set 4) = Some u \<and> sm_wf u \<and> set_values u = Some [4, 7]) \<and>
   set_eq (example_set 7) (example_set 4) = Some False"
  using set_union_and_equality [of "example_set 7" "example_set 4" "[7]" "[4]"] by simp

end
