(* ===== verification/DocumentPath.thy ===== *)
theory DocumentPath
  imports OrderedCode LlrbNode "HOL-Library.List_Lexorder"
begin

text \<open>
  The names of documents and the times that occur in the keys of the local store:
  \<open>Firestore/core/src/model/base_path.h\<close> (a path is the vector of its segments),
  \<open>model/document_key.cc\<close> (a document key is a path with an even number of segments),
  \<open>timestamp.cc\<close> and \<open>model/snapshot_version.h\<close>.  A string is the list of its bytes.  An operation whose
  \<open>HARD_ASSERT\<close> fails has no result.
\<close>

text \<open>The bytes of a string literal.\<close>

definition c_str :: "string \<Rightarrow> bytes" where
  "c_str s = map of_char s"

section \<open>Paths\<close>

type_synonym ResourcePath = "bytes list"

definition path_at :: "ResourcePath \<Rightarrow> nat \<Rightarrow> bytes option" where
  "path_at segments i = do { _ \<leftarrow> HARD_ASSERT (i < length segments); Some (segments ! i) }"

definition first_segment :: "ResourcePath \<Rightarrow> bytes option" where
  "first_segment segments = do { _ \<leftarrow> HARD_ASSERT (segments \<noteq> []); Some (segments ! 0) }"

definition last_segment :: "ResourcePath \<Rightarrow> bytes option" where
  "last_segment segments = do {
     _ \<leftarrow> HARD_ASSERT (segments \<noteq> []);
     Some (segments ! (length segments - 1)) }"

definition Append_segment :: "ResourcePath \<Rightarrow> bytes \<Rightarrow> ResourcePath" where
  "Append_segment segments segment = segments @ [segment]"

definition Append_path :: "ResourcePath \<Rightarrow> ResourcePath \<Rightarrow> ResourcePath" where
  "Append_path segments path = segments @ path"

definition PopFirst :: "ResourcePath \<Rightarrow> nat \<Rightarrow> ResourcePath option" where
  "PopFirst segments n = do { _ \<leftarrow> HARD_ASSERT (n \<le> length segments); Some (drop n segments) }"

definition PopLast :: "ResourcePath \<Rightarrow> ResourcePath option" where
  "PopLast segments = do {
     _ \<leftarrow> HARD_ASSERT (segments \<noteq> []);
     Some (take (length segments - 1) segments) }"

definition IsPrefixOf :: "ResourcePath \<Rightarrow> ResourcePath \<Rightarrow> bool" where
  "IsPrefixOf segments rhs \<longleftrightarrow> length segments \<le> length rhs \<and> segments = take (length segments) rhs"

definition IsImmediateParentOf :: "ResourcePath \<Rightarrow> ResourcePath \<Rightarrow> bool" where
  "IsImmediateParentOf segments potential_child \<longleftrightarrow>
     length segments + 1 = length potential_child \<and> segments = take (length segments) potential_child"

fun CompareContainer :: "('a::linorder) list \<Rightarrow> 'a list \<Rightarrow> ComparisonResult" where
  "CompareContainer (a # lhs) (b # rhs) =
     (let cmp = Compare a b in if cmp \<noteq> Same then cmp else CompareContainer lhs rhs)"
| "CompareContainer [] (b # rhs) = Ascending"
| "CompareContainer (a # lhs) [] = Descending"
| "CompareContainer [] [] = Same"

definition path_CompareTo :: "ResourcePath \<Rightarrow> ResourcePath \<Rightarrow> ComparisonResult" where
  "path_CompareTo segments rhs = CompareContainer segments rhs"

section \<open>Document keys\<close>

type_synonym DocumentKey = ResourcePath

definition IsDocumentKey :: "ResourcePath \<Rightarrow> bool" where
  "IsDocumentKey path \<longleftrightarrow> length path mod 2 = 0"

definition make_DocumentKey :: "ResourcePath \<Rightarrow> DocumentKey option" where
  "make_DocumentKey path = do { _ \<leftarrow> HARD_ASSERT (IsDocumentKey path); Some path }"

definition key_CompareTo :: "DocumentKey \<Rightarrow> DocumentKey \<Rightarrow> ComparisonResult" where
  "key_CompareTo key other = path_CompareTo key other"

definition key_less :: "DocumentKey \<Rightarrow> DocumentKey \<Rightarrow> bool" where
  "key_less lhs rhs \<longleftrightarrow> key_CompareTo lhs rhs = Ascending"

definition key_greater :: "DocumentKey \<Rightarrow> DocumentKey \<Rightarrow> bool" where
  "key_greater lhs rhs \<longleftrightarrow> key_CompareTo lhs rhs = Descending"

definition HasCollectionId :: "DocumentKey \<Rightarrow> bytes \<Rightarrow> bool option" where
  "HasCollectionId path collection_id =
     (let n = length path in
      if 2 \<le> n then map_option (\<lambda>segment. segment = collection_id) (path_at path (n - 2)) else Some False)"

section \<open>Timestamps\<close>

record Timestamp =
  seconds :: s64
  nanoseconds :: s32

definition kNanosPerSecond :: s32 where
  "kNanosPerSecond = 1000 * 1000 * 1000"

definition ValidateBounds :: "Timestamp \<Rightarrow> unit option" where
  "ValidateBounds t = do {
     _ \<leftarrow> HARD_ASSERT (0 \<le> sint (nanoseconds t));
     _ \<leftarrow> HARD_ASSERT (sint (nanoseconds t) < sint kNanosPerSecond);
     _ \<leftarrow> HARD_ASSERT (- 62135596800 \<le> sint (seconds t));
     HARD_ASSERT (sint (seconds t) < 253402300800) }"

definition make_Timestamp :: "s64 \<Rightarrow> s32 \<Rightarrow> Timestamp option" where
  "make_Timestamp s n = do {
     let t = \<lparr>seconds = s, nanoseconds = n\<rparr>;
     _ \<leftarrow> ValidateBounds t;
     Some t }"

definition MakeNormalizedTimestamp :: "s64 \<Rightarrow> s64 \<Rightarrow> Timestamp option" where
  "MakeNormalizedTimestamp s nanos = do {
     let (s, nanos) = (if sint nanos < 0 then (s - 1, scast kNanosPerSecond + nanos) else (s, nanos));
     _ \<leftarrow> HARD_ASSERT (sint nanos < sint kNanosPerSecond);
     make_Timestamp s (scast nanos) }"

type_synonym SnapshotVersion = Timestamp

end
