(* ===== verification/LevelDbKey.thy ===== *)
theory LevelDbKey
  imports DocumentPath
begin

text \<open>
  \<open>Firestore/core/src/local/leveldb_key.cc\<close>: the keys of the rows of the local store.  A key is a
  table name, labelled components and a terminator, written with the order-preserving codes of
  \<open>util/ordered_code.cc\<close>; a reader takes the components off again and remembers whether
  anything failed.  \<open>None\<close> is a failed \<open>HARD_ASSERT\<close>.  The debug description of a key is not
  modelled.
\<close>

section \<open>Labels and tables\<close>

definition kVersionGlobalTable :: bytes where "kVersionGlobalTable = c_str ''version''"
definition kMutationsTable :: bytes where "kMutationsTable = c_str ''mutation''"
definition kDocumentMutationsTable :: bytes where "kDocumentMutationsTable = c_str ''document_mutation''"
definition kMutationQueuesTable :: bytes where "kMutationQueuesTable = c_str ''mutation_queue''"
definition kTargetGlobalTable :: bytes where "kTargetGlobalTable = c_str ''target_global''"
definition kTargetsTable :: bytes where "kTargetsTable = c_str ''target''"
definition kQueryTargetsTable :: bytes where "kQueryTargetsTable = c_str ''query_target''"
definition kTargetDocumentsTable :: bytes where "kTargetDocumentsTable = c_str ''target_document''"
definition kDocumentTargetsTable :: bytes where "kDocumentTargetsTable = c_str ''document_target''"
definition kRemoteDocumentsTable :: bytes where "kRemoteDocumentsTable = c_str ''remote_document''"
definition kCollectionParentsTable :: bytes where "kCollectionParentsTable = c_str ''collection_parent''"
definition kRemoteDocumentReadTimeTable :: bytes where "kRemoteDocumentReadTimeTable = c_str ''remote_document_read_time''"
definition kBundlesTable :: bytes where "kBundlesTable = c_str ''bundles''"
definition kNamedQueriesTable :: bytes where "kNamedQueriesTable = c_str ''named_queries''"

datatype ComponentLabel =
    Terminator
  | TableName
  | BatchId
  | CanonicalId
  | TargetId
  | UserId
  | CollectionId
  | DocumentId
  | SnapshotVersion
  | BundleId
  | QueryName
  | PathSegment
  | Unknown

fun label_value :: "ComponentLabel \<Rightarrow> s64" where
  "label_value Terminator = 0"
| "label_value TableName = 5"
| "label_value BatchId = 10"
| "label_value CanonicalId = 11"
| "label_value TargetId = 12"
| "label_value UserId = 13"
| "label_value CollectionId = 14"
| "label_value DocumentId = 15"
| "label_value SnapshotVersion = 16"
| "label_value BundleId = 17"
| "label_value QueryName = 18"
| "label_value PathSegment = 62"
| "label_value Unknown = 63"

section \<open>The reader\<close>

record Reader =
  reader_src :: bytes
  reader_ok :: bool

type_synonym 'a reads = "Reader \<Rightarrow> ('a \<times> Reader) option"

definition make_Reader :: "bytes \<Rightarrow> Reader" where
  "make_Reader src = \<lparr>reader_src = src, reader_ok = True\<rparr>"

definition reader_empty :: "Reader \<Rightarrow> bool" where
  "reader_empty r \<longleftrightarrow> \<not> reader_ok r \<or> reader_src r = []"

definition Fail :: "Reader \<Rightarrow> Reader" where
  "Fail r = r\<lparr>reader_ok := False\<rparr>"

definition Reader_ReadSignedNumIncreasing :: "s64 reads" where
  "Reader_ReadSignedNumIncreasing r =
     (if reader_ok r then do {
        (success, tmp, result) \<leftarrow> ReadSignedNumIncreasing (reader_src r) (Some 0);
        if success then map_option (\<lambda>v. (v, r\<lparr>reader_src := tmp\<rparr>)) result else Some (0, Fail r) }
      else Some (0, Fail r))"

definition Reader_ReadString :: "bytes reads" where
  "Reader_ReadString r =
     (if reader_ok r then do {
        (success, tmp, result) \<leftarrow> ReadString (reader_src r) (Some []);
        if success then map_option (\<lambda>v. (v, r\<lparr>reader_src := tmp\<rparr>)) result else Some ([], Fail r) }
      else Some ([], Fail r))"

definition ReadComponentLabelMatching :: "ComponentLabel \<Rightarrow> bool reads" where
  "ReadComponentLabelMatching expected_label r =
     (if reader_ok r then do {
        (raw_result, r) \<leftarrow> Reader_ReadSignedNumIncreasing r;
        if reader_ok r then Some (raw_result = label_value expected_label, r) else Some (False, Fail r) }
      else Some (False, Fail r))"

definition ReadInt32 :: "s32 reads" where
  "ReadInt32 r =
     (if reader_ok r then do {
        (raw_result, r) \<leftarrow> Reader_ReadSignedNumIncreasing r;
        if reader_ok r \<and> - (2 ^ 31) \<le> sint raw_result \<and> sint raw_result \<le> 2 ^ 31 - 1
        then Some (scast raw_result, r) else Some (0, Fail r) }
      else Some (0, Fail r))"

definition ReadLabeledInt32 :: "ComponentLabel \<Rightarrow> s32 reads" where
  "ReadLabeledInt32 expected_label r = do {
     (matching, r) \<leftarrow> ReadComponentLabelMatching expected_label r;
     ReadInt32 (if \<not> matching then Fail r else r) }"

definition ReadInt64 :: "s64 reads" where
  "ReadInt64 r = Reader_ReadSignedNumIncreasing r"

definition ReadLabeledString :: "ComponentLabel \<Rightarrow> bytes reads" where
  "ReadLabeledString expected_label r = do {
     (matching, r) \<leftarrow> ReadComponentLabelMatching expected_label r;
     Reader_ReadString (if \<not> matching then Fail r else r) }"

definition ReadLabeledStringMatching :: "ComponentLabel \<Rightarrow> bytes \<Rightarrow> bool reads" where
  "ReadLabeledStringMatching expected_label expected_value r = do {
     (s, r) \<leftarrow> ReadLabeledString expected_label r;
     if reader_ok r then Some (s = expected_value, r) else Some (False, Fail r) }"

definition ReadTableNameMatching :: "bytes \<Rightarrow> Reader \<Rightarrow> Reader option" where
  "ReadTableNameMatching expected_table_name r = do {
     (matching, r) \<leftarrow> ReadLabeledStringMatching TableName expected_table_name r;
     Some (if \<not> matching then Fail r else r) }"

definition ReadBatchId :: "s32 reads" where "ReadBatchId r = ReadLabeledInt32 BatchId r"

definition ReadCanonicalId :: "bytes reads" where "ReadCanonicalId r = ReadLabeledString CanonicalId r"

definition ReadTargetId :: "s32 reads" where "ReadTargetId r = ReadLabeledInt32 TargetId r"

definition ReadUserId :: "bytes reads" where "ReadUserId r = ReadLabeledString UserId r"

definition ReadCollectionId :: "bytes reads" where "ReadCollectionId r = ReadLabeledString CollectionId r"

definition ReadDocumentId :: "bytes reads" where "ReadDocumentId r = ReadLabeledString DocumentId r"

definition ReadBundleId :: "bytes reads" where "ReadBundleId r = ReadLabeledString BundleId r"

definition ReadQueryName :: "bytes reads" where "ReadQueryName r = ReadLabeledString QueryName r"

definition ReadTerminator :: "Reader \<Rightarrow> Reader option" where
  "ReadTerminator r = do {
     (matching, r) \<leftarrow> ReadComponentLabelMatching Terminator r;
     Some (if \<not> matching then Fail r else r) }"

partial_function (option) path_loop :: "Reader \<Rightarrow> bytes list \<Rightarrow> (ResourcePath \<times> Reader) option" where
  "path_loop r path_segments =
     (if reader_empty r then Some (path_segments, r)
      else do {
        let saved_position = reader_src r;
        (matching, r) \<leftarrow> ReadComponentLabelMatching PathSegment r;
        if \<not> matching then Some (path_segments, r\<lparr>reader_src := saved_position\<rparr>)
        else do {
          (segment, r) \<leftarrow> Reader_ReadString r;
          if \<not> reader_ok r then Some (path_segments, r)
          else path_loop r (path_segments @ [segment]) } })"

definition ReadResourcePath :: "ResourcePath reads" where
  "ReadResourcePath r = path_loop r []"

definition ReadDocumentKey :: "DocumentKey reads" where
  "ReadDocumentKey r = do {
     (path, r) \<leftarrow> ReadResourcePath r;
     if reader_ok r \<and> path \<noteq> [] \<and> IsDocumentKey path
     then do { key \<leftarrow> make_DocumentKey path; Some (key, r) }
     else Some ([], Fail r) }"

definition ReadSnapshotVersion :: "SnapshotVersion reads" where
  "ReadSnapshotVersion r = do {
     (matching, r) \<leftarrow> ReadComponentLabelMatching SnapshotVersion r;
     (s, r) \<leftarrow> ReadInt64 (if \<not> matching then Fail r else r);
     (nanos, r) \<leftarrow> ReadInt32 r;
     version \<leftarrow> make_Timestamp s nanos;
     Some (version, r) }"

section \<open>The writer\<close>

record Writer =
  writer_dest :: bytes

type_synonym writes = "Writer \<Rightarrow> Writer option"

definition make_Writer :: Writer where
  "make_Writer = \<lparr>writer_dest = []\<rparr>"

definition write_signed :: "s64 \<Rightarrow> writes" where
  "write_signed v w = map_option (\<lambda>d. w\<lparr>writer_dest := d\<rparr>) (WriteSignedNumIncreasing (writer_dest w) v)"

definition write_string :: "bytes \<Rightarrow> writes" where
  "write_string s w = map_option (\<lambda>d. w\<lparr>writer_dest := d\<rparr>) (WriteString (writer_dest w) s)"

definition WriteComponentLabel :: "ComponentLabel \<Rightarrow> writes" where
  "WriteComponentLabel label w = write_signed (label_value label) w"

definition WriteLabeledInt32 :: "ComponentLabel \<Rightarrow> s32 \<Rightarrow> writes" where
  "WriteLabeledInt32 label v w = do {
     w \<leftarrow> WriteComponentLabel label w;
     write_signed (scast v) w }"

definition WriteLabeledString :: "ComponentLabel \<Rightarrow> bytes \<Rightarrow> writes" where
  "WriteLabeledString label v w = do {
     w \<leftarrow> WriteComponentLabel label w;
     write_string v w }"

definition WriteTerminator :: writes where "WriteTerminator w = write_signed (label_value Terminator) w"

definition WriteTableName :: "bytes \<Rightarrow> writes" where
  "WriteTableName table_name w = WriteLabeledString TableName table_name w"

definition WriteBatchId :: "s32 \<Rightarrow> writes" where "WriteBatchId v w = WriteLabeledInt32 BatchId v w"

definition WriteCanonicalId :: "bytes \<Rightarrow> writes" where
  "WriteCanonicalId s w = WriteLabeledString CanonicalId s w"

definition WriteTargetId :: "s32 \<Rightarrow> writes" where "WriteTargetId v w = WriteLabeledInt32 TargetId v w"

definition WriteUserId :: "bytes \<Rightarrow> writes" where "WriteUserId s w = WriteLabeledString UserId s w"

definition WriteCollectionId :: "bytes \<Rightarrow> writes" where
  "WriteCollectionId s w = WriteLabeledString CollectionId s w"

definition WriteDocumentId :: "bytes \<Rightarrow> writes" where
  "WriteDocumentId s w = WriteLabeledString DocumentId s w"

definition WriteBundleId :: "bytes \<Rightarrow> writes" where "WriteBundleId s w = WriteLabeledString BundleId s w"

definition WriteQueryName :: "bytes \<Rightarrow> writes" where "WriteQueryName s w = WriteLabeledString QueryName s w"

definition WriteSnapshotVersion :: "SnapshotVersion \<Rightarrow> writes" where
  "WriteSnapshotVersion version w = do {
     w \<leftarrow> WriteComponentLabel SnapshotVersion w;
     w \<leftarrow> write_signed (seconds version) w;
     write_signed (scast (nanoseconds version)) w }"

primrec WriteResourcePath :: "ResourcePath \<Rightarrow> writes" where
  "WriteResourcePath [] w = Some w"
| "WriteResourcePath (segment # path) w = do {
     w \<leftarrow> WriteComponentLabel PathSegment w;
     w \<leftarrow> write_string segment w;
     WriteResourcePath path w }"

section \<open>\<open>LevelDbVersionKey\<close>\<close>

definition LevelDbVersionKey_Key :: "bytes option" where
  "LevelDbVersionKey_Key = do {
     w \<leftarrow> WriteTableName kVersionGlobalTable make_Writer;
     w \<leftarrow> WriteTerminator w;
     Some (writer_dest w) }"

section \<open>\<open>LevelDbMutationKey\<close>\<close>

definition LevelDbMutationKey_KeyPrefix :: "bytes option" where
  "LevelDbMutationKey_KeyPrefix = do {
     w \<leftarrow> WriteTableName kMutationsTable make_Writer;
     Some (writer_dest w) }"

definition LevelDbMutationKey_KeyPrefix2 :: "bytes \<Rightarrow> bytes option" where
  "LevelDbMutationKey_KeyPrefix2 user_id = do {
     w \<leftarrow> WriteTableName kMutationsTable make_Writer;
     w \<leftarrow> WriteUserId user_id w;
     Some (writer_dest w) }"

definition LevelDbMutationKey_Key :: "bytes \<Rightarrow> s32 \<Rightarrow> bytes option" where
  "LevelDbMutationKey_Key user_id batch_id = do {
     w \<leftarrow> WriteTableName kMutationsTable make_Writer;
     w \<leftarrow> WriteUserId user_id w;
     w \<leftarrow> WriteBatchId batch_id w;
     w \<leftarrow> WriteTerminator w;
     Some (writer_dest w) }"

record LevelDbMutationKey =
  mutation_user_id :: bytes
  mutation_batch_id :: s32

definition LevelDbMutationKey_Decode :: "bytes \<Rightarrow> (bool \<times> LevelDbMutationKey) option" where
  "LevelDbMutationKey_Decode key = do {
     let reader = make_Reader key;
     reader \<leftarrow> ReadTableNameMatching kMutationsTable reader;
     (user_id, reader) \<leftarrow> ReadUserId reader;
     (batch_id, reader) \<leftarrow> ReadBatchId reader;
     reader \<leftarrow> ReadTerminator reader;
     Some (reader_ok reader,
       \<lparr>mutation_user_id = user_id,
         mutation_batch_id = batch_id\<rparr>) }"

section \<open>\<open>LevelDbDocumentMutationKey\<close>\<close>

definition LevelDbDocumentMutationKey_KeyPrefix :: "bytes option" where
  "LevelDbDocumentMutationKey_KeyPrefix = do {
     w \<leftarrow> WriteTableName kDocumentMutationsTable make_Writer;
     Some (writer_dest w) }"

definition LevelDbDocumentMutationKey_KeyPrefix2 :: "bytes \<Rightarrow> bytes option" where
  "LevelDbDocumentMutationKey_KeyPrefix2 user_id = do {
     w \<leftarrow> WriteTableName kDocumentMutationsTable make_Writer;
     w \<leftarrow> WriteUserId user_id w;
     Some (writer_dest w) }"

definition LevelDbDocumentMutationKey_KeyPrefix3 :: "bytes \<Rightarrow> ResourcePath \<Rightarrow> bytes option" where
  "LevelDbDocumentMutationKey_KeyPrefix3 user_id resource_path = do {
     w \<leftarrow> WriteTableName kDocumentMutationsTable make_Writer;
     w \<leftarrow> WriteUserId user_id w;
     w \<leftarrow> WriteResourcePath resource_path w;
     Some (writer_dest w) }"

definition LevelDbDocumentMutationKey_Key :: "bytes \<Rightarrow> DocumentKey \<Rightarrow> s32 \<Rightarrow> bytes option" where
  "LevelDbDocumentMutationKey_Key user_id document_key batch_id = do {
     w \<leftarrow> WriteTableName kDocumentMutationsTable make_Writer;
     w \<leftarrow> WriteUserId user_id w;
     w \<leftarrow> WriteResourcePath document_key w;
     w \<leftarrow> WriteBatchId batch_id w;
     w \<leftarrow> WriteTerminator w;
     Some (writer_dest w) }"

record LevelDbDocumentMutationKey =
  document_mutation_user_id :: bytes
  document_mutation_document_key :: DocumentKey
  document_mutation_batch_id :: s32

definition LevelDbDocumentMutationKey_Decode :: "bytes \<Rightarrow> (bool \<times> LevelDbDocumentMutationKey) option" where
  "LevelDbDocumentMutationKey_Decode key = do {
     let reader = make_Reader key;
     reader \<leftarrow> ReadTableNameMatching kDocumentMutationsTable reader;
     (user_id, reader) \<leftarrow> ReadUserId reader;
     (document_key, reader) \<leftarrow> ReadDocumentKey reader;
     (batch_id, reader) \<leftarrow> ReadBatchId reader;
     reader \<leftarrow> ReadTerminator reader;
     Some (reader_ok reader,
       \<lparr>document_mutation_user_id = user_id,
         document_mutation_document_key = document_key,
         document_mutation_batch_id = batch_id\<rparr>) }"

section \<open>\<open>LevelDbMutationQueueKey\<close>\<close>

definition LevelDbMutationQueueKey_KeyPrefix :: "bytes option" where
  "LevelDbMutationQueueKey_KeyPrefix = do {
     w \<leftarrow> WriteTableName kMutationQueuesTable make_Writer;
     Some (writer_dest w) }"

definition LevelDbMutationQueueKey_Key :: "bytes \<Rightarrow> bytes option" where
  "LevelDbMutationQueueKey_Key user_id = do {
     w \<leftarrow> WriteTableName kMutationQueuesTable make_Writer;
     w \<leftarrow> WriteUserId user_id w;
     w \<leftarrow> WriteTerminator w;
     Some (writer_dest w) }"

record LevelDbMutationQueueKey =
  mutation_queue_user_id :: bytes

definition LevelDbMutationQueueKey_Decode :: "bytes \<Rightarrow> (bool \<times> LevelDbMutationQueueKey) option" where
  "LevelDbMutationQueueKey_Decode key = do {
     let reader = make_Reader key;
     reader \<leftarrow> ReadTableNameMatching kMutationQueuesTable reader;
     (user_id, reader) \<leftarrow> ReadUserId reader;
     reader \<leftarrow> ReadTerminator reader;
     Some (reader_ok reader,
       \<lparr>mutation_queue_user_id = user_id\<rparr>) }"

section \<open>\<open>LevelDbTargetGlobalKey\<close>\<close>

definition LevelDbTargetGlobalKey_Key :: "bytes option" where
  "LevelDbTargetGlobalKey_Key = do {
     w \<leftarrow> WriteTableName kTargetGlobalTable make_Writer;
     w \<leftarrow> WriteTerminator w;
     Some (writer_dest w) }"

definition LevelDbTargetGlobalKey_Decode :: "bytes \<Rightarrow> bool option" where
  "LevelDbTargetGlobalKey_Decode key = do {
     let reader = make_Reader key;
     reader \<leftarrow> ReadTableNameMatching kTargetGlobalTable reader;
     reader \<leftarrow> ReadTerminator reader;
     Some (reader_ok reader) }"

section \<open>\<open>LevelDbTargetKey\<close>\<close>

definition LevelDbTargetKey_KeyPrefix :: "bytes option" where
  "LevelDbTargetKey_KeyPrefix = do {
     w \<leftarrow> WriteTableName kTargetsTable make_Writer;
     Some (writer_dest w) }"

definition LevelDbTargetKey_Key :: "s32 \<Rightarrow> bytes option" where
  "LevelDbTargetKey_Key target_id = do {
     w \<leftarrow> WriteTableName kTargetsTable make_Writer;
     w \<leftarrow> WriteTargetId target_id w;
     w \<leftarrow> WriteTerminator w;
     Some (writer_dest w) }"

record LevelDbTargetKey =
  target_target_id :: s32

definition LevelDbTargetKey_Decode :: "bytes \<Rightarrow> (bool \<times> LevelDbTargetKey) option" where
  "LevelDbTargetKey_Decode key = do {
     let reader = make_Reader key;
     reader \<leftarrow> ReadTableNameMatching kTargetsTable reader;
     (target_id, reader) \<leftarrow> ReadTargetId reader;
     reader \<leftarrow> ReadTerminator reader;
     Some (reader_ok reader,
       \<lparr>target_target_id = target_id\<rparr>) }"

section \<open>\<open>LevelDbQueryTargetKey\<close>\<close>

definition LevelDbQueryTargetKey_KeyPrefix :: "bytes option" where
  "LevelDbQueryTargetKey_KeyPrefix = do {
     w \<leftarrow> WriteTableName kQueryTargetsTable make_Writer;
     Some (writer_dest w) }"

definition LevelDbQueryTargetKey_KeyPrefix2 :: "bytes \<Rightarrow> bytes option" where
  "LevelDbQueryTargetKey_KeyPrefix2 canonical_id = do {
     w \<leftarrow> WriteTableName kQueryTargetsTable make_Writer;
     w \<leftarrow> WriteCanonicalId canonical_id w;
     Some (writer_dest w) }"

definition LevelDbQueryTargetKey_Key :: "bytes \<Rightarrow> s32 \<Rightarrow> bytes option" where
  "LevelDbQueryTargetKey_Key canonical_id target_id = do {
     w \<leftarrow> WriteTableName kQueryTargetsTable make_Writer;
     w \<leftarrow> WriteCanonicalId canonical_id w;
     w \<leftarrow> WriteTargetId target_id w;
     w \<leftarrow> WriteTerminator w;
     Some (writer_dest w) }"

record LevelDbQueryTargetKey =
  query_target_canonical_id :: bytes
  query_target_target_id :: s32

definition LevelDbQueryTargetKey_Decode :: "bytes \<Rightarrow> (bool \<times> LevelDbQueryTargetKey) option" where
  "LevelDbQueryTargetKey_Decode key = do {
     let reader = make_Reader key;
     reader \<leftarrow> ReadTableNameMatching kQueryTargetsTable reader;
     (canonical_id, reader) \<leftarrow> ReadCanonicalId reader;
     (target_id, reader) \<leftarrow> ReadTargetId reader;
     reader \<leftarrow> ReadTerminator reader;
     Some (reader_ok reader,
       \<lparr>query_target_canonical_id = canonical_id,
         query_target_target_id = target_id\<rparr>) }"

section \<open>\<open>LevelDbTargetDocumentKey\<close>\<close>

definition LevelDbTargetDocumentKey_KeyPrefix :: "bytes option" where
  "LevelDbTargetDocumentKey_KeyPrefix = do {
     w \<leftarrow> WriteTableName kTargetDocumentsTable make_Writer;
     Some (writer_dest w) }"

definition LevelDbTargetDocumentKey_KeyPrefix2 :: "s32 \<Rightarrow> bytes option" where
  "LevelDbTargetDocumentKey_KeyPrefix2 target_id = do {
     w \<leftarrow> WriteTableName kTargetDocumentsTable make_Writer;
     w \<leftarrow> WriteTargetId target_id w;
     Some (writer_dest w) }"

definition LevelDbTargetDocumentKey_Key :: "s32 \<Rightarrow> DocumentKey \<Rightarrow> bytes option" where
  "LevelDbTargetDocumentKey_Key target_id document_key = do {
     w \<leftarrow> WriteTableName kTargetDocumentsTable make_Writer;
     w \<leftarrow> WriteTargetId target_id w;
     w \<leftarrow> WriteResourcePath document_key w;
     w \<leftarrow> WriteTerminator w;
     Some (writer_dest w) }"

record LevelDbTargetDocumentKey =
  target_document_target_id :: s32
  target_document_document_key :: DocumentKey

definition LevelDbTargetDocumentKey_Decode :: "bytes \<Rightarrow> (bool \<times> LevelDbTargetDocumentKey) option" where
  "LevelDbTargetDocumentKey_Decode key = do {
     let reader = make_Reader key;
     reader \<leftarrow> ReadTableNameMatching kTargetDocumentsTable reader;
     (target_id, reader) \<leftarrow> ReadTargetId reader;
     (document_key, reader) \<leftarrow> ReadDocumentKey reader;
     reader \<leftarrow> ReadTerminator reader;
     Some (reader_ok reader,
       \<lparr>target_document_target_id = target_id,
         target_document_document_key = document_key\<rparr>) }"

section \<open>\<open>LevelDbDocumentTargetKey\<close>\<close>

definition LevelDbDocumentTargetKey_KeyPrefix :: "bytes option" where
  "LevelDbDocumentTargetKey_KeyPrefix = do {
     w \<leftarrow> WriteTableName kDocumentTargetsTable make_Writer;
     Some (writer_dest w) }"

definition LevelDbDocumentTargetKey_KeyPrefix2 :: "ResourcePath \<Rightarrow> bytes option" where
  "LevelDbDocumentTargetKey_KeyPrefix2 resource_path = do {
     w \<leftarrow> WriteTableName kDocumentTargetsTable make_Writer;
     w \<leftarrow> WriteResourcePath resource_path w;
     Some (writer_dest w) }"

definition LevelDbDocumentTargetKey_Key :: "DocumentKey \<Rightarrow> s32 \<Rightarrow> bytes option" where
  "LevelDbDocumentTargetKey_Key document_key target_id = do {
     w \<leftarrow> WriteTableName kDocumentTargetsTable make_Writer;
     w \<leftarrow> WriteResourcePath document_key w;
     w \<leftarrow> WriteTargetId target_id w;
     w \<leftarrow> WriteTerminator w;
     Some (writer_dest w) }"

definition LevelDbDocumentTargetKey_SentinelKey :: "DocumentKey \<Rightarrow> bytes option" where
  "LevelDbDocumentTargetKey_SentinelKey document_key = LevelDbDocumentTargetKey_Key document_key 0"

definition LevelDbDocumentTargetKey_EncodeSentinelValue :: "s64 \<Rightarrow> bytes option" where
  "LevelDbDocumentTargetKey_EncodeSentinelValue sequence_number = WriteSignedNumIncreasing [] sequence_number"

definition LevelDbDocumentTargetKey_DecodeSentinelValue :: "bytes \<Rightarrow> s64 option" where
  "LevelDbDocumentTargetKey_DecodeSentinelValue encoded = do {
     (success, encoded, decoded) \<leftarrow> ReadSignedNumIncreasing encoded (Some 0);
     _ \<leftarrow> HARD_ASSERT success;
     decoded }"

record LevelDbDocumentTargetKey =
  document_target_document_key :: DocumentKey
  document_target_target_id :: s32

definition LevelDbDocumentTargetKey_Decode :: "bytes \<Rightarrow> (bool \<times> LevelDbDocumentTargetKey) option" where
  "LevelDbDocumentTargetKey_Decode key = do {
     let reader = make_Reader key;
     reader \<leftarrow> ReadTableNameMatching kDocumentTargetsTable reader;
     (document_key, reader) \<leftarrow> ReadDocumentKey reader;
     (target_id, reader) \<leftarrow> ReadTargetId reader;
     reader \<leftarrow> ReadTerminator reader;
     Some (reader_ok reader,
       \<lparr>document_target_document_key = document_key,
         document_target_target_id = target_id\<rparr>) }"

section \<open>\<open>LevelDbRemoteDocumentKey\<close>\<close>

definition LevelDbRemoteDocumentKey_KeyPrefix :: "bytes option" where
  "LevelDbRemoteDocumentKey_KeyPrefix = do {
     w \<leftarrow> WriteTableName kRemoteDocumentsTable make_Writer;
     Some (writer_dest w) }"

definition LevelDbRemoteDocumentKey_KeyPrefix2 :: "ResourcePath \<Rightarrow> bytes option" where
  "LevelDbRemoteDocumentKey_KeyPrefix2 resource_path = do {
     w \<leftarrow> WriteTableName kRemoteDocumentsTable make_Writer;
     w \<leftarrow> WriteResourcePath resource_path w;
     Some (writer_dest w) }"

definition LevelDbRemoteDocumentKey_Key :: "DocumentKey \<Rightarrow> bytes option" where
  "LevelDbRemoteDocumentKey_Key key = do {
     w \<leftarrow> WriteTableName kRemoteDocumentsTable make_Writer;
     w \<leftarrow> WriteResourcePath key w;
     w \<leftarrow> WriteTerminator w;
     Some (writer_dest w) }"

record LevelDbRemoteDocumentKey =
  remote_document_document_key :: DocumentKey

definition LevelDbRemoteDocumentKey_Decode :: "bytes \<Rightarrow> (bool \<times> LevelDbRemoteDocumentKey) option" where
  "LevelDbRemoteDocumentKey_Decode key = do {
     let reader = make_Reader key;
     reader \<leftarrow> ReadTableNameMatching kRemoteDocumentsTable reader;
     (document_key, reader) \<leftarrow> ReadDocumentKey reader;
     reader \<leftarrow> ReadTerminator reader;
     Some (reader_ok reader,
       \<lparr>remote_document_document_key = document_key\<rparr>) }"

section \<open>\<open>LevelDbCollectionParentKey\<close>\<close>

definition LevelDbCollectionParentKey_KeyPrefix :: "bytes option" where
  "LevelDbCollectionParentKey_KeyPrefix = do {
     w \<leftarrow> WriteTableName kCollectionParentsTable make_Writer;
     Some (writer_dest w) }"

definition LevelDbCollectionParentKey_KeyPrefix2 :: "bytes \<Rightarrow> bytes option" where
  "LevelDbCollectionParentKey_KeyPrefix2 collection_id = do {
     w \<leftarrow> WriteTableName kCollectionParentsTable make_Writer;
     w \<leftarrow> WriteCollectionId collection_id w;
     Some (writer_dest w) }"

definition LevelDbCollectionParentKey_Key :: "bytes \<Rightarrow> ResourcePath \<Rightarrow> bytes option" where
  "LevelDbCollectionParentKey_Key collection_id parent = do {
     w \<leftarrow> WriteTableName kCollectionParentsTable make_Writer;
     w \<leftarrow> WriteCollectionId collection_id w;
     w \<leftarrow> WriteResourcePath parent w;
     w \<leftarrow> WriteTerminator w;
     Some (writer_dest w) }"

record LevelDbCollectionParentKey =
  collection_parent_collection_id :: bytes
  collection_parent_parent :: ResourcePath

definition LevelDbCollectionParentKey_Decode :: "bytes \<Rightarrow> (bool \<times> LevelDbCollectionParentKey) option" where
  "LevelDbCollectionParentKey_Decode key = do {
     let reader = make_Reader key;
     reader \<leftarrow> ReadTableNameMatching kCollectionParentsTable reader;
     (collection_id, reader) \<leftarrow> ReadCollectionId reader;
     (parent, reader) \<leftarrow> ReadResourcePath reader;
     reader \<leftarrow> ReadTerminator reader;
     Some (reader_ok reader,
       \<lparr>collection_parent_collection_id = collection_id,
         collection_parent_parent = parent\<rparr>) }"

section \<open>\<open>LevelDbRemoteDocumentReadTimeKey\<close>\<close>

definition LevelDbRemoteDocumentReadTimeKey_KeyPrefix :: "ResourcePath \<Rightarrow> SnapshotVersion \<Rightarrow> bytes option" where
  "LevelDbRemoteDocumentReadTimeKey_KeyPrefix collection_path read_time = do {
     w \<leftarrow> WriteTableName kRemoteDocumentReadTimeTable make_Writer;
     w \<leftarrow> WriteResourcePath collection_path w;
     w \<leftarrow> WriteSnapshotVersion read_time w;
     Some (writer_dest w) }"

definition LevelDbRemoteDocumentReadTimeKey_Key :: "ResourcePath \<Rightarrow> SnapshotVersion \<Rightarrow> bytes \<Rightarrow> bytes option" where
  "LevelDbRemoteDocumentReadTimeKey_Key collection_path read_time document_id = do {
     w \<leftarrow> WriteTableName kRemoteDocumentReadTimeTable make_Writer;
     w \<leftarrow> WriteResourcePath collection_path w;
     w \<leftarrow> WriteSnapshotVersion read_time w;
     w \<leftarrow> WriteDocumentId document_id w;
     w \<leftarrow> WriteTerminator w;
     Some (writer_dest w) }"

record LevelDbRemoteDocumentReadTimeKey =
  remote_document_read_time_collection_path :: ResourcePath
  remote_document_read_time_read_time :: SnapshotVersion
  remote_document_read_time_document_id :: bytes

definition LevelDbRemoteDocumentReadTimeKey_Decode :: "bytes \<Rightarrow> (bool \<times> LevelDbRemoteDocumentReadTimeKey) option" where
  "LevelDbRemoteDocumentReadTimeKey_Decode key = do {
     let reader = make_Reader key;
     reader \<leftarrow> ReadTableNameMatching kRemoteDocumentReadTimeTable reader;
     (collection_path, reader) \<leftarrow> ReadResourcePath reader;
     (read_time, reader) \<leftarrow> ReadSnapshotVersion reader;
     (document_id, reader) \<leftarrow> ReadDocumentId reader;
     reader \<leftarrow> ReadTerminator reader;
     Some (reader_ok reader,
       \<lparr>remote_document_read_time_collection_path = collection_path,
         remote_document_read_time_read_time = read_time,
         remote_document_read_time_document_id = document_id\<rparr>) }"

section \<open>\<open>LevelDbBundleKey\<close>\<close>

definition LevelDbBundleKey_KeyPrefix :: "bytes option" where
  "LevelDbBundleKey_KeyPrefix = do {
     w \<leftarrow> WriteTableName kBundlesTable make_Writer;
     Some (writer_dest w) }"

definition LevelDbBundleKey_Key :: "bytes \<Rightarrow> bytes option" where
  "LevelDbBundleKey_Key bundle_id = do {
     w \<leftarrow> WriteTableName kBundlesTable make_Writer;
     w \<leftarrow> WriteBundleId bundle_id w;
     w \<leftarrow> WriteTerminator w;
     Some (writer_dest w) }"

record LevelDbBundleKey =
  bundle_bundle_id :: bytes

definition LevelDbBundleKey_Decode :: "bytes \<Rightarrow> (bool \<times> LevelDbBundleKey) option" where
  "LevelDbBundleKey_Decode key = do {
     let reader = make_Reader key;
     reader \<leftarrow> ReadTableNameMatching kBundlesTable reader;
     (bundle_id, reader) \<leftarrow> ReadBundleId reader;
     reader \<leftarrow> ReadTerminator reader;
     Some (reader_ok reader,
       \<lparr>bundle_bundle_id = bundle_id\<rparr>) }"

section \<open>\<open>LevelDbNamedQueryKey\<close>\<close>

definition LevelDbNamedQueryKey_KeyPrefix :: "bytes option" where
  "LevelDbNamedQueryKey_KeyPrefix = do {
     w \<leftarrow> WriteTableName kNamedQueriesTable make_Writer;
     Some (writer_dest w) }"

definition LevelDbNamedQueryKey_Key :: "bytes \<Rightarrow> bytes option" where
  "LevelDbNamedQueryKey_Key query_name = do {
     w \<leftarrow> WriteTableName kNamedQueriesTable make_Writer;
     w \<leftarrow> WriteQueryName query_name w;
     w \<leftarrow> WriteTerminator w;
     Some (writer_dest w) }"

record LevelDbNamedQueryKey =
  named_query_name :: bytes

definition LevelDbNamedQueryKey_Decode :: "bytes \<Rightarrow> (bool \<times> LevelDbNamedQueryKey) option" where
  "LevelDbNamedQueryKey_Decode key = do {
     let reader = make_Reader key;
     reader \<leftarrow> ReadTableNameMatching kNamedQueriesTable reader;
     (name, reader) \<leftarrow> ReadQueryName reader;
     reader \<leftarrow> ReadTerminator reader;
     Some (reader_ok reader,
       \<lparr>named_query_name = name\<rparr>) }"

end
