(* ===== verification/LevelDbKeySpec.thy ===== *)
theory LevelDbKeySpec
  imports LevelDbKey OrderedSpec "HOL-Library.Sublist"
begin

text \<open>
  What the keys of the local store are for: a key decodes to its parts, keys sort as their parts
  do, and the rows under a key prefix are the rows with those parts.  The proofs rest on the
  contract of the order-preserving codes.
\<close>

section \<open>Codes\<close>

definition label_code :: "ComponentLabel \<Rightarrow> bytes" where
  "label_code l = signed_code (label_value l)"

definition str_item :: "ComponentLabel \<Rightarrow> bytes \<Rightarrow> bytes" where
  "str_item l s = label_code l @ string_code s"

definition int_item :: "ComponentLabel \<Rightarrow> s32 \<Rightarrow> bytes" where
  "int_item l n = label_code l @ signed_code (scast n)"

definition version_code :: "SnapshotVersion \<Rightarrow> bytes" where
  "version_code v = label_code SnapshotVersion @ signed_code (seconds v) @ signed_code (scast (nanoseconds v))"

primrec path_code :: "ResourcePath \<Rightarrow> bytes" where
  "path_code [] = []"
| "path_code (s # p) = str_item PathSegment s @ path_code p"

definition end_code :: bytes where
  "end_code = label_code Terminator"

named_theorems key_write \<open>what the writer appends\<close>

lemma write_signed_code [key_write]: "write_signed v w = Some (w\<lparr>writer_dest := writer_dest w @ signed_code v\<rparr>)"
  by (simp add: write_signed_def WriteSignedNumIncreasing_code)

lemma write_string_code [key_write]: "write_string s w = Some (w\<lparr>writer_dest := writer_dest w @ string_code s\<rparr>)"
  by (simp add: write_string_def WriteString_code)

lemma WriteComponentLabel_code [key_write]:
  "WriteComponentLabel l w = Some (w\<lparr>writer_dest := writer_dest w @ label_code l\<rparr>)"
  by (simp add: WriteComponentLabel_def key_write label_code_def)

lemma labeled_codes [key_write]:
  "WriteLabeledString l s w = Some (w\<lparr>writer_dest := writer_dest w @ str_item l s\<rparr>)"
  "WriteLabeledInt32 l n w = Some (w\<lparr>writer_dest := writer_dest w @ int_item l n\<rparr>)"
  "WriteTerminator w = Some (w\<lparr>writer_dest := writer_dest w @ end_code\<rparr>)"
  "WriteSnapshotVersion v w = Some (w\<lparr>writer_dest := writer_dest w @ version_code v\<rparr>)"
  by (simp_all add: WriteLabeledString_def WriteLabeledInt32_def WriteTerminator_def WriteSnapshotVersion_def
      key_write str_item_def int_item_def end_code_def version_code_def label_code_def)

lemma path_code_write [key_write]:
  "WriteResourcePath p w = Some (w\<lparr>writer_dest := writer_dest w @ path_code p\<rparr>)"
  by (induction p arbitrary: w) (simp_all add: key_write str_item_def)

lemmas component_writers [key_write] = WriteTableName_def WriteBatchId_def WriteCanonicalId_def WriteTargetId_def
  WriteUserId_def WriteCollectionId_def WriteDocumentId_def WriteBundleId_def WriteQueryName_def make_Writer_def

section \<open>Reading the codes\<close>

abbreviation reader_at :: "bytes \<Rightarrow> Reader" where
  "reader_at s \<equiv> \<lparr>reader_src = s, reader_ok = True\<rparr>"

named_theorems key_read \<open>what the reader takes off\<close>

lemma label_value_inj [simp]: "label_value a = label_value b \<longleftrightarrow> a = b"
  by (cases a; cases b) simp_all

lemma read_signed_code [key_read]:
  "Reader_ReadSignedNumIncreasing (reader_at (signed_code v @ r)) = Some (v, reader_at r)"
  by (simp add: Reader_ReadSignedNumIncreasing_def ReadSignedNumIncreasing_code)

lemma read_string_code [key_read]:
  "Reader_ReadString (reader_at (string_code s @ r)) = Some (s, reader_at r)"
  using ReadString_decode [of "string_code s @ r" "Some []"]
  by (simp add: Reader_ReadString_def string_decode_code decode_outcome_def)

lemma read_label_code [key_read]:
  "ReadComponentLabelMatching l (reader_at (label_code m @ r)) = Some (m = l, reader_at r)"
  by (simp add: ReadComponentLabelMatching_def key_read label_code_def)

lemma sint_scast_32 [simp]: "sint (scast (n :: s32) :: s64) = sint n"
  by (rule sint_up_scast) (simp add: is_up)

lemma read_int_code: "ReadInt32 (reader_at (signed_code (scast n) @ r)) = Some (n, reader_at r)"
proof -
  have "- (2 ^ 31) \<le> sint n" "sint n \<le> 2 ^ 31 - 1"
    using sint_ge [of n] sint_lt [of n] by simp_all
  moreover have "scast (scast n :: s64) = n"
    by (rule bit_word_eqI) (auto simp: bit_simps)
  ultimately show ?thesis by (simp add: ReadInt32_def key_read)
qed

lemma read_items [key_read]:
  "ReadLabeledString l (reader_at (str_item l s @ r)) = Some (s, reader_at r)"
  "ReadLabeledInt32 l (reader_at (int_item l n @ r)) = Some (n, reader_at r)"
  "ReadTerminator (reader_at end_code) = Some (reader_at [])"
  using read_label_code [of l l] read_label_code [of Terminator Terminator "[]"]
  by (simp_all add: ReadLabeledString_def ReadLabeledInt32_def ReadTerminator_def key_read read_int_code
      str_item_def int_item_def end_code_def)

lemma read_table [key_read]:
  "ReadTableNameMatching t (reader_at (str_item TableName t @ r)) = Some (reader_at r)"
  by (simp add: ReadTableNameMatching_def ReadLabeledStringMatching_def key_read)

lemma signed_code_Cons: "signed_code v \<noteq> []"
  using hd_pos_code [of "signed_mag v"] by (auto simp: signed_code_comp)

lemma label_code_not_empty [simp]: "label_code l \<noteq> []"
  by (simp add: label_code_def signed_code_Cons)

definition after_path :: "bytes \<Rightarrow> bool" where
  "after_path s \<longleftrightarrow> (\<exists>l r. s = label_code l @ r \<and> l \<noteq> PathSegment)"

lemma after_path_label: "l \<noteq> PathSegment \<Longrightarrow> after_path (label_code l @ r)"
  by (auto simp: after_path_def)

lemma after_path_items [simp]:
  "l \<noteq> PathSegment \<Longrightarrow> after_path (int_item l n @ r)" "after_path end_code" "after_path (version_code v @ r)"
  using after_path_label [of l] after_path_label [of Terminator "[]"] after_path_label [of SnapshotVersion]
  by (simp_all add: int_item_def end_code_def version_code_def)

lemma path_loop_code:
  "after_path r \<Longrightarrow> path_loop (reader_at (path_code p @ r)) acc = Some (acc @ p, reader_at r)"
proof (induction p arbitrary: acc)
  case Nil
  then obtain l s where "r = label_code l @ s" "l \<noteq> PathSegment" by (auto simp: after_path_def)
  then show ?case
    by (simp add: path_loop.simps [of "reader_at (label_code l @ s)"] reader_empty_def key_read)
next
  case (Cons s p)
  then show ?case
    by (simp add: path_loop.simps [of "reader_at (label_code PathSegment @ string_code s @ path_code p @ r)"] reader_empty_def
        str_item_def key_read)
qed

lemma read_path [key_read]:
  "after_path r \<Longrightarrow> ReadResourcePath (reader_at (path_code p @ r)) = Some (p, reader_at r)"
  by (simp add: ReadResourcePath_def path_loop_code)

lemma read_document_key [key_read]:
  "after_path r \<Longrightarrow> p \<noteq> [] \<Longrightarrow> IsDocumentKey p \<Longrightarrow>
   ReadDocumentKey (reader_at (path_code p @ r)) = Some (p, reader_at r)"
  by (simp add: ReadDocumentKey_def key_read make_DocumentKey_def HARD_ASSERT_def)

lemma read_version [key_read]:
  "ValidateBounds v = Some () \<Longrightarrow>
   ReadSnapshotVersion (reader_at (version_code v @ r)) = Some (v, reader_at r)"
  by (cases v) (simp add: ReadSnapshotVersion_def version_code_def key_read ReadInt64_def read_int_code make_Timestamp_def Let_def)

lemmas component_readers [key_read] = ReadBatchId_def ReadCanonicalId_def ReadTargetId_def ReadUserId_def
  ReadCollectionId_def ReadDocumentId_def ReadBundleId_def ReadQueryName_def make_Reader_def

lemmas key_definitions = LevelDbVersionKey_Key_def
  LevelDbMutationKey_Key_def LevelDbMutationKey_KeyPrefix_def LevelDbMutationKey_KeyPrefix2_def
  LevelDbDocumentMutationKey_Key_def LevelDbDocumentMutationKey_KeyPrefix_def
  LevelDbDocumentMutationKey_KeyPrefix2_def LevelDbDocumentMutationKey_KeyPrefix3_def
  LevelDbMutationQueueKey_Key_def LevelDbMutationQueueKey_KeyPrefix_def LevelDbTargetGlobalKey_Key_def
  LevelDbTargetKey_Key_def LevelDbTargetKey_KeyPrefix_def
  LevelDbQueryTargetKey_Key_def LevelDbQueryTargetKey_KeyPrefix_def LevelDbQueryTargetKey_KeyPrefix2_def
  LevelDbTargetDocumentKey_Key_def LevelDbTargetDocumentKey_KeyPrefix_def LevelDbTargetDocumentKey_KeyPrefix2_def
  LevelDbDocumentTargetKey_Key_def LevelDbDocumentTargetKey_KeyPrefix_def LevelDbDocumentTargetKey_KeyPrefix2_def
  LevelDbDocumentTargetKey_SentinelKey_def
  LevelDbRemoteDocumentKey_Key_def LevelDbRemoteDocumentKey_KeyPrefix_def LevelDbRemoteDocumentKey_KeyPrefix2_def
  LevelDbCollectionParentKey_Key_def LevelDbCollectionParentKey_KeyPrefix_def LevelDbCollectionParentKey_KeyPrefix2_def
  LevelDbRemoteDocumentReadTimeKey_Key_def LevelDbRemoteDocumentReadTimeKey_KeyPrefix_def
  LevelDbBundleKey_Key_def LevelDbBundleKey_KeyPrefix_def LevelDbNamedQueryKey_Key_def LevelDbNamedQueryKey_KeyPrefix_def

lemmas key_decoders = LevelDbMutationKey_Decode_def LevelDbDocumentMutationKey_Decode_def
  LevelDbMutationQueueKey_Decode_def LevelDbTargetGlobalKey_Decode_def LevelDbTargetKey_Decode_def
  LevelDbQueryTargetKey_Decode_def LevelDbTargetDocumentKey_Decode_def LevelDbDocumentTargetKey_Decode_def
  LevelDbRemoteDocumentKey_Decode_def LevelDbCollectionParentKey_Decode_def
  LevelDbRemoteDocumentReadTimeKey_Decode_def LevelDbBundleKey_Decode_def LevelDbNamedQueryKey_Decode_def

section \<open>Order and prefixes\<close>

lemma string_step: "string_code s @ r < string_code t @ r' \<longleftrightarrow> s < t \<or> s = t \<and> r < r'"
  using strings.code_less [of "Finite s" r "Finite t" r'] by simp

lemma int_step: "signed_code v @ r < signed_code w @ r' \<longleftrightarrow> v <s w \<or> v = w \<and> r < r'"
  using signed_numbers.code_less by (simp add: word_sless_alt)

lemma same_prefix_less [simp]: "(as :: bytes) @ r < as @ r' \<longleftrightarrow> r < r'"
  by (induction as) simp_all

lemma sint_32_inj [simp]: "sint (n :: s32) = sint m \<longleftrightarrow> n = m"
  by (auto intro: signed_word_eqI)

lemma item_steps:
  "str_item l s @ r < str_item l t @ r' \<longleftrightarrow> s < t \<or> s = t \<and> r < r'"
  "int_item l n @ r < int_item l m @ r' \<longleftrightarrow> n <s m \<or> n = m \<and> r < r'"
proof -
  have "(scast n :: s64) = scast m \<longleftrightarrow> n = m" by (metis sint_scast_32 sint_32_inj)
  then show "str_item l s @ r < str_item l t @ r' \<longleftrightarrow> s < t \<or> s = t \<and> r < r'"
    "int_item l n @ r < int_item l m @ r' \<longleftrightarrow> n <s m \<or> n = m \<and> r < r'"
    by (simp_all add: str_item_def int_item_def string_step int_step word_sless_alt)
qed

lemma label_less: "label_value l <s label_value m \<Longrightarrow> label_code l @ r < label_code m @ r'"
  by (simp add: label_code_def int_step)

lemma before_path: "l \<noteq> PathSegment \<Longrightarrow> l \<noteq> Unknown \<Longrightarrow> label_value l <s label_value PathSegment"
  by (cases l) (simp_all add: word_sless_alt)

lemma path_before:
  assumes "l \<noteq> PathSegment" "l \<noteq> Unknown"
  shows "label_code l @ r < str_item PathSegment s @ r'" "\<not> str_item PathSegment s @ r' < label_code l @ r"
proof -
  show "label_code l @ r < str_item PathSegment s @ r'"
    using label_less [OF before_path [OF assms]] by (simp add: str_item_def)
  then show "\<not> str_item PathSegment s @ r' < label_code l @ r" by (rule order_less_not_sym)
qed

text \<open>Paths compare as document keys do when what follows them is no path segment.\<close>

lemma path_step:
  "l \<noteq> PathSegment \<Longrightarrow> l \<noteq> Unknown \<Longrightarrow>
   path_code p @ label_code l @ r < path_code q @ label_code l @ r' \<longleftrightarrow> key_less p q \<or> p = q \<and> r < r'"
proof (induction p arbitrary: q)
  case Nil
  then show ?case
    by (cases q) (simp_all add: key_less_def key_CompareTo_def path_CompareTo_def path_before)
next
  case (Cons s p)
  show ?case
  proof (cases q)
    case Nil
    then show ?thesis
      using Cons.prems by (simp add: key_less_def key_CompareTo_def path_CompareTo_def path_before)
  next
    case (Cons t q')
    then show ?thesis
      using Cons.IH [OF Cons.prems] Cons.prems
      by (cases s t rule: linorder_cases)
        (auto simp: item_steps key_less_def key_CompareTo_def path_CompareTo_def Compare_def)
  qed
qed

lemma prefix_code:
  "prefix (str_item l s @ X) (str_item l t @ Y) \<longleftrightarrow> s = t \<and> prefix X Y"
  "prefix (int_item l n @ X) (int_item l m @ Y) \<longleftrightarrow> n = m \<and> prefix X Y"
proof -
  have scast: "(scast n :: s64) = scast m \<longleftrightarrow> n = m" by (metis sint_scast_32 sint_32_inj)
  show "prefix (str_item l s @ X) (str_item l t @ Y) \<longleftrightarrow> s = t \<and> prefix X Y"
    using strings.code_append_eq [of "Finite t" Y "Finite s"] by (auto simp: prefix_def str_item_def)
  show "prefix (int_item l n @ X) (int_item l m @ Y) \<longleftrightarrow> n = m \<and> prefix X Y"
    using signed_numbers.code_append_eq [of "scast m" Y "scast n"] scast by (auto simp: prefix_def int_item_def)
qed

lemma label_append_eq: "label_code l @ r = label_code m @ r' \<longleftrightarrow> l = m \<and> r = r'"
  using signed_numbers.code_append_eq by (simp add: label_code_def)

lemma path_prefix:
  "l \<noteq> PathSegment \<Longrightarrow> prefix (path_code p) (path_code q @ label_code l @ r) \<longleftrightarrow> IsPrefixOf p q"
proof (induction p arbitrary: q)
  case Nil
  then show ?case by (simp add: IsPrefixOf_def)
next
  case (Cons s p)
  show ?case
  proof (cases q)
    case Nil
    have "\<not> prefix (str_item PathSegment s @ path_code p) (label_code l @ r)"
      using Cons.prems label_append_eq by (auto simp: prefix_def str_item_def)
    then show ?thesis by (simp add: Nil IsPrefixOf_def)
  next
    case (Cons t q')
    then show ?thesis
      using Cons.IH [OF Cons.prems] by (auto simp: prefix_code IsPrefixOf_def)
  qed
qed

lemma path_steps:
  "path_code p @ int_item BatchId n @ r < path_code q @ int_item BatchId m @ r' \<longleftrightarrow>
     key_less p q \<or> p = q \<and> (n <s m \<or> n = m \<and> r < r')"
  "path_code p @ end_code < path_code q @ end_code \<longleftrightarrow> key_less p q"
  using path_step [of BatchId p _ q] path_step [of Terminator p "[]" q "[]"] item_steps(2) [of BatchId n r m r']
  by (simp_all add: int_item_def end_code_def)

definition version_less :: "SnapshotVersion \<Rightarrow> SnapshotVersion \<Rightarrow> bool" where
  "version_less v w \<longleftrightarrow>
     seconds v <s seconds w \<or> seconds v = seconds w \<and> nanoseconds v <s nanoseconds w"

lemma version_step:
  "path_code p @ version_code v @ r < path_code q @ version_code w @ r' \<longleftrightarrow>
     key_less p q \<or> p = q \<and> (version_less v w \<or> v = w \<and> r < r')"
proof -
  have scast: "(scast (nanoseconds v) :: s64) = scast (nanoseconds w) \<longleftrightarrow> nanoseconds v = nanoseconds w"
    by (metis sint_scast_32 sint_32_inj)
  show ?thesis
    using path_step [of SnapshotVersion p _ q] scast
    by (cases v; cases w) (auto simp: version_code_def version_less_def int_step word_sless_alt)
qed

lemma path_prefixes:
  "prefix (path_code p) (path_code q @ int_item BatchId n @ r) \<longleftrightarrow> IsPrefixOf p q"
  "prefix (path_code p) (path_code q @ int_item TargetId n @ r) \<longleftrightarrow> IsPrefixOf p q"
  "prefix (path_code p) (path_code q @ end_code) \<longleftrightarrow> IsPrefixOf p q"
  using path_prefix [of BatchId p q] path_prefix [of TargetId p q] path_prefix [of Terminator p q "[]"]
  by (simp_all add: int_item_def end_code_def)

section \<open>Properties\<close>

text \<open>
  C12: every complete key of the local store decodes to the parts it was made of, whatever bytes
  its strings and path segments hold, zero bytes included.  A document key has to be a non-empty
  path with an even number of segments, a read time one that \<open>Timestamp\<close> accepts.
\<close>

theorem keys_round_trip:
  assumes "d \<noteq> []" "IsDocumentKey d" "ValidateBounds t = Some ()"
  shows "(Option.bind (LevelDbMutationKey_Key u b) LevelDbMutationKey_Decode =
       Some (True, \<lparr>mutation_user_id = u, mutation_batch_id = b\<rparr>)) \<and>
    (Option.bind (LevelDbDocumentMutationKey_Key u d b) LevelDbDocumentMutationKey_Decode =
       Some (True, \<lparr>document_mutation_user_id = u, document_mutation_document_key = d,
         document_mutation_batch_id = b\<rparr>)) \<and>
    (Option.bind (LevelDbMutationQueueKey_Key u) LevelDbMutationQueueKey_Decode =
       Some (True, \<lparr>mutation_queue_user_id = u\<rparr>)) \<and>
    (Option.bind LevelDbTargetGlobalKey_Key LevelDbTargetGlobalKey_Decode = Some True) \<and>
    (Option.bind (LevelDbTargetKey_Key n) LevelDbTargetKey_Decode = Some (True, \<lparr>target_target_id = n\<rparr>)) \<and>
    (Option.bind (LevelDbQueryTargetKey_Key c n) LevelDbQueryTargetKey_Decode =
       Some (True, \<lparr>query_target_canonical_id = c, query_target_target_id = n\<rparr>)) \<and>
    (Option.bind (LevelDbTargetDocumentKey_Key n d) LevelDbTargetDocumentKey_Decode =
       Some (True, \<lparr>target_document_target_id = n, target_document_document_key = d\<rparr>)) \<and>
    (Option.bind (LevelDbDocumentTargetKey_Key d n) LevelDbDocumentTargetKey_Decode =
       Some (True, \<lparr>document_target_document_key = d, document_target_target_id = n\<rparr>)) \<and>
    (Option.bind (LevelDbRemoteDocumentKey_Key d) LevelDbRemoteDocumentKey_Decode =
       Some (True, \<lparr>remote_document_document_key = d\<rparr>)) \<and>
    (Option.bind (LevelDbCollectionParentKey_Key c p) LevelDbCollectionParentKey_Decode =
       Some (True, \<lparr>collection_parent_collection_id = c, collection_parent_parent = p\<rparr>)) \<and>
    (Option.bind (LevelDbRemoteDocumentReadTimeKey_Key p t i) LevelDbRemoteDocumentReadTimeKey_Decode =
       Some (True, \<lparr>remote_document_read_time_collection_path = p, remote_document_read_time_read_time = t,
         remote_document_read_time_document_id = i\<rparr>)) \<and>
    (Option.bind (LevelDbBundleKey_Key i) LevelDbBundleKey_Decode = Some (True, \<lparr>bundle_bundle_id = i\<rparr>)) \<and>
    (Option.bind (LevelDbNamedQueryKey_Key i) LevelDbNamedQueryKey_Decode = Some (True, \<lparr>named_query_name = i\<rparr>))"
  using assms by (simp add: key_definitions key_write key_decoders key_read)

lemma keys_round_trip_witness:
  "Option.bind (LevelDbDocumentMutationKey_Key [0, 255] [[97], [0]] (- 7)) LevelDbDocumentMutationKey_Decode =
     Some (True, \<lparr>document_mutation_user_id = [0, 255], document_mutation_document_key = [[97], [0]],
       document_mutation_batch_id = - 7\<rparr>)"
proof -
  have "ValidateBounds \<lparr>seconds = 5, nanoseconds = 6\<rparr> = Some ()"
    by (simp add: ValidateBounds_def HARD_ASSERT_def kNanosPerSecond_def)
  then show ?thesis
    using keys_round_trip [of "[[97], [0]]" "\<lparr>seconds = 5, nanoseconds = 6\<rparr>" "[0, 255]" "- 7"]
    by (simp add: IsDocumentKey_def)
qed

text \<open>
  C16: the keys of a table sort as their parts do: mutations by user and batch, mutations of
  documents by user, document and batch, documents as \<open>DocumentKey\<close> compares them, and read times
  by collection, seconds, nanoseconds and document.
\<close>

theorem keys_in_order:
  "(\<exists>k k'. LevelDbMutationKey_Key u b = Some k \<and> LevelDbMutationKey_Key u' b' = Some k' \<and>
     (k < k' \<longleftrightarrow> u < u' \<or> u = u' \<and> b <s b')) \<and>
   (\<exists>k k'. LevelDbDocumentMutationKey_Key u d b = Some k \<and> LevelDbDocumentMutationKey_Key u' d' b' = Some k' \<and>
     (k < k' \<longleftrightarrow> u < u' \<or> u = u' \<and> (key_less d d' \<or> d = d' \<and> b <s b'))) \<and>
   (\<exists>k k'. LevelDbRemoteDocumentKey_Key d = Some k \<and> LevelDbRemoteDocumentKey_Key d' = Some k' \<and>
     (k < k' \<longleftrightarrow> key_less d d')) \<and>
   (\<exists>k k'. LevelDbRemoteDocumentReadTimeKey_Key d t i = Some k \<and>
     LevelDbRemoteDocumentReadTimeKey_Key d' t' i' = Some k' \<and>
     (k < k' \<longleftrightarrow> key_less d d' \<or> d = d' \<and> (version_less t t' \<or> t = t' \<and> i < i')))"
  by (simp add: key_definitions key_write item_steps path_steps version_step)

text \<open>
  C27: a key starts with a key prefix exactly when it has the parts of the prefix, so a scan of a
  prefix visits the rows of that user, query or target, or of the documents under that path, and
  no others.
\<close>

theorem prefixes_select_rows:
  "(\<exists>k p. LevelDbMutationKey_Key u b = Some k \<and> LevelDbMutationKey_KeyPrefix2 u' = Some p \<and>
     (prefix p k \<longleftrightarrow> u' = u)) \<and>
   (\<exists>k p. LevelDbQueryTargetKey_Key c n = Some k \<and> LevelDbQueryTargetKey_KeyPrefix2 c' = Some p \<and>
     (prefix p k \<longleftrightarrow> c' = c)) \<and>
   (\<exists>k p. LevelDbTargetDocumentKey_Key n d = Some k \<and> LevelDbTargetDocumentKey_KeyPrefix2 n' = Some p \<and>
     (prefix p k \<longleftrightarrow> n' = n)) \<and>
   (\<exists>k p. LevelDbCollectionParentKey_Key c d = Some k \<and> LevelDbCollectionParentKey_KeyPrefix2 c' = Some p \<and>
     (prefix p k \<longleftrightarrow> c' = c)) \<and>
   (\<exists>k p. LevelDbDocumentMutationKey_Key u d b = Some k \<and>
     LevelDbDocumentMutationKey_KeyPrefix3 u' path = Some p \<and> (prefix p k \<longleftrightarrow> u' = u \<and> IsPrefixOf path d)) \<and>
   (\<exists>k p. LevelDbDocumentTargetKey_Key d n = Some k \<and> LevelDbDocumentTargetKey_KeyPrefix2 path = Some p \<and>
     (prefix p k \<longleftrightarrow> IsPrefixOf path d)) \<and>
   (\<exists>k p. LevelDbRemoteDocumentKey_Key d = Some k \<and> LevelDbRemoteDocumentKey_KeyPrefix2 path = Some p \<and>
     (prefix p k \<longleftrightarrow> IsPrefixOf path d))"
  by (simp add: key_definitions key_write prefix_code path_prefixes
      prefix_code(1) [where X = "[]", simplified] prefix_code(2) [where X = "[]", simplified])

text \<open>
  A stored read time outside the bounds of \<open>Timestamp\<close> does not make \<open>Decode\<close> return \<open>false\<close>:
  its assertion stops the process.
\<close>

lemma read_time_key_asserts:
  fixes n :: s32
  shows "reader_ok r \<Longrightarrow> reader_src r = label_code SnapshotVersion @ signed_code s @ signed_code (scast n) @ rest \<Longrightarrow>
   sint n < 0 \<Longrightarrow> ReadSnapshotVersion r = None"
  by (cases r) (simp add: ReadSnapshotVersion_def key_read ReadInt64_def read_int_code make_Timestamp_def
      ValidateBounds_def HARD_ASSERT_def)

end
