(* ===== verification/DocumentReferences.thy ===== *)
theory DocumentReferences
  imports DocumentPath SortedMap "HOL-Library.Product_Lexorder"
begin

text \<open>
  \<open>Firestore/core/src/local/document_key_reference.cc\<close> and \<open>local/reference_set.cc\<close>: the
  references that targets and mutation batches hold to documents, kept in two sorted sets, one by
  document key and one by id.  A \<open>SortedSet\<close> is a type of its elements and their comparator; so
  the elements of the two sets are references tagged with their order.
\<close>

section \<open>References\<close>

record DocumentKeyReference =
  ref_key :: DocumentKey
  ref_id :: s32

instantiation list :: (type) default
begin

definition default_list :: "'a list" where
  "default_list = []"

instance ..

end

datatype ByKey = ByKey (by_key_ref: DocumentKeyReference)

datatype ById = ById (by_id_ref: DocumentKeyReference)

definition CompareInt32 :: "s32 \<Rightarrow> s32 \<Rightarrow> ComparisonResult" where
  "CompareInt32 lhs rhs = Compare (sint lhs) (sint rhs)"

fun ByKey_Compare :: "ByKey comparator" where
  "ByKey_Compare (ByKey lhs) (ByKey rhs) =
     (let result = key_CompareTo (ref_key lhs) (ref_key rhs) in
      if result \<noteq> Same then result else CompareInt32 (ref_id lhs) (ref_id rhs))"

fun ById_Compare :: "ById comparator" where
  "ById_Compare (ById lhs) (ById rhs) =
     (let result = CompareInt32 (ref_id lhs) (ref_id rhs) in
      if result \<noteq> Same then result else key_CompareTo (ref_key lhs) (ref_key rhs))"

text \<open>The two orders of references, as the ranks the sorted sets sort by.\<close>

fun key_rank :: "ByKey \<Rightarrow> DocumentKey \<times> int" where
  "key_rank (ByKey r) = (ref_key r, sint (ref_id r))"

fun id_rank :: "ById \<Rightarrow> int \<times> DocumentKey" where
  "id_rank (ById r) = (sint (ref_id r), ref_key r)"

lemma key_rank_inj: "key_rank a = key_rank b \<longleftrightarrow> a = b"
  by (cases a; cases b) (auto intro!: DocumentKeyReference.equality signed_word_eqI)

lemma id_rank_inj: "id_rank a = id_rank b \<longleftrightarrow> a = b"
  by (cases a; cases b) (auto intro!: DocumentKeyReference.equality signed_word_eqI)

instantiation ByKey :: "{linorder, default}"
begin

definition less_eq_ByKey :: "ByKey \<Rightarrow> ByKey \<Rightarrow> bool" where
  "less_eq_ByKey a b \<longleftrightarrow> key_rank a \<le> key_rank b"

definition less_ByKey :: "ByKey \<Rightarrow> ByKey \<Rightarrow> bool" where
  "less_ByKey a b \<longleftrightarrow> key_rank a < key_rank b"

definition default_ByKey :: ByKey where
  "default_ByKey = ByKey \<lparr>ref_key = [], ref_id = 0\<rparr>"

instance
  by standard (auto simp: less_eq_ByKey_def less_ByKey_def key_rank_inj [symmetric] less_le_not_le
      intro: order_trans antisym)

end

instantiation ById :: "{linorder, default}"
begin

definition less_eq_ById :: "ById \<Rightarrow> ById \<Rightarrow> bool" where
  "less_eq_ById a b \<longleftrightarrow> id_rank a \<le> id_rank b"

definition less_ById :: "ById \<Rightarrow> ById \<Rightarrow> bool" where
  "less_ById a b \<longleftrightarrow> id_rank a < id_rank b"

definition default_ById :: ById where
  "default_ById = ById \<lparr>ref_key = [], ref_id = 0\<rparr>"

instance
  by standard (auto simp: less_eq_ById_def less_ById_def id_rank_inj [symmetric] less_le_not_le
      intro: order_trans antisym)

end

section \<open>Arithmetic\<close>

definition sadd32 :: "s32 \<Rightarrow> s32 \<Rightarrow> s32 option" where
  "sadd32 a b = (let r = sint a + sint b in if - (2 ^ 31) \<le> r \<and> r < 2 ^ 31 then Some (a + b) else None)"

definition ssub32 :: "s32 \<Rightarrow> s32 \<Rightarrow> s32 option" where
  "ssub32 a b = (let r = sint a - sint b in if - (2 ^ 31) \<le> r \<and> r < 2 ^ 31 then Some (a - b) else None)"

section \<open>The reference set\<close>

type_synonym DocumentKeySet = "DocumentKey SortedSet"

record ReferenceSet =
  by_key :: "ByKey SortedSet"
  by_id :: "ById SortedSet"

definition ReferenceSet_init :: ReferenceSet where
  "ReferenceSet_init = \<lparr>by_key = set_init, by_id = set_init\<rparr>"

definition references_empty :: "ReferenceSet \<Rightarrow> bool" where
  "references_empty rs = set_empty (by_key rs)"

definition references_size :: "ReferenceSet \<Rightarrow> size_type" where
  "references_size rs = set_size (by_key rs)"

definition AddReference :: "DocumentKey \<Rightarrow> s32 \<Rightarrow> ReferenceSet \<Rightarrow> ReferenceSet option" where
  "AddReference key i rs = do {
     let reference = \<lparr>ref_key = key, ref_id = i\<rparr>;
     k \<leftarrow> set_insert ByKey_Compare (ByKey reference) (by_key rs);
     j \<leftarrow> set_insert ById_Compare (ById reference) (by_id rs);
     Some \<lparr>by_key = k, by_id = j\<rparr> }"

definition AddReferences :: "DocumentKeySet \<Rightarrow> s32 \<Rightarrow> ReferenceSet \<Rightarrow> ReferenceSet option" where
  "AddReferences keys i rs = do {
     ks \<leftarrow> set_values keys;
     for_each (\<lambda>key. AddReference key i) ks rs }"

definition remove_reference :: "DocumentKeyReference \<Rightarrow> ReferenceSet \<Rightarrow> ReferenceSet option" where
  "remove_reference reference rs = do {
     k \<leftarrow> set_erase ByKey_Compare (ByKey reference) (by_key rs);
     j \<leftarrow> set_erase ById_Compare (ById reference) (by_id rs);
     Some \<lparr>by_key = k, by_id = j\<rparr> }"

definition RemoveReference :: "DocumentKey \<Rightarrow> s32 \<Rightarrow> ReferenceSet \<Rightarrow> ReferenceSet option" where
  "RemoveReference key i rs = remove_reference \<lparr>ref_key = key, ref_id = i\<rparr> rs"

definition RemoveReferences :: "DocumentKeySet \<Rightarrow> s32 \<Rightarrow> ReferenceSet \<Rightarrow> ReferenceSet option" where
  "RemoveReferences keys i rs = do {
     ks \<leftarrow> set_values keys;
     for_each (\<lambda>key. RemoveReference key i) ks rs }"

text \<open>The references of one id: \<open>values_in\<close> from the id with the empty key to the next id.\<close>

definition references_of_id :: "s32 \<Rightarrow> ReferenceSet \<Rightarrow> DocumentKeyReference list option" where
  "references_of_id i rs = do {
     next \<leftarrow> sadd32 i 1;
     let start = \<lparr>ref_key = [], ref_id = i\<rparr>;
     let last_ref = \<lparr>ref_key = [], ref_id = next\<rparr>;
     es \<leftarrow> walk_range (set_values_in ById_Compare (ById start) (ById last_ref) (by_id rs));
     Some (map (by_id_ref \<circ> fst) es) }"

definition RemoveReferences_of_id :: "s32 \<Rightarrow> ReferenceSet \<Rightarrow> (DocumentKeySet \<times> ReferenceSet) option" where
  "RemoveReferences_of_id i rs = do {
     refs \<leftarrow> references_of_id i rs;
     for_each (\<lambda>reference (removed, rs). do {
         rs \<leftarrow> remove_reference reference rs;
         removed \<leftarrow> set_insert key_CompareTo (ref_key reference) removed;
         Some (removed, rs) }) refs (set_init, rs) }"

definition RemoveAllReferences :: "ReferenceSet \<Rightarrow> ReferenceSet option" where
  "RemoveAllReferences rs = do {
     es \<leftarrow> set_values (by_key rs);
     for_each remove_reference (map by_key_ref es) rs }"

definition ReferencedKeys :: "s32 \<Rightarrow> ReferenceSet \<Rightarrow> DocumentKeySet option" where
  "ReferencedKeys i rs = do {
     refs \<leftarrow> references_of_id i rs;
     for_each (\<lambda>reference. set_insert key_CompareTo (ref_key reference)) refs set_init }"

text \<open>
  \<open>first_from\<close>: the first reference from a key on, by \<open>values_from(\<dots>).begin()\<close> and a comparison
  with the end.
\<close>

definition first_from :: "DocumentKey \<Rightarrow> ByKey SortedSet \<Rightarrow> DocumentKeyReference option option" where
  "first_from key s =
     (let (b, e) = set_values_from ByKey_Compare (ByKey \<lparr>ref_key = key, ref_id = 0\<rparr>) s in
      if smi_eq b e then Some None
      else do { (reference, _) \<leftarrow> smi_get b; Some (Some (by_key_ref reference)) })"

definition references_contain_key :: "DocumentKey \<Rightarrow> ByKey SortedSet \<Rightarrow> bool option" where
  "references_contain_key key s = do {
     begin \<leftarrow> first_from key s;
     Some (case begin of None \<Rightarrow> False | Some reference \<Rightarrow> ref_key reference = key) }"

definition ContainsKey :: "DocumentKey \<Rightarrow> ReferenceSet \<Rightarrow> bool option" where
  "ContainsKey key rs = references_contain_key key (by_key rs)"

end
