(* ===== verification/MutationQueue.thy ===== *)
theory MutationQueue
  imports DocumentReferences
begin

text \<open>
  \<open>Firestore/core/src/local/memory_mutation_queue.cc\<close> and \<open>local/memory_index_manager.cc\<close>, with the
  batches of \<open>model/mutation_batch.h\<close>: the writes of the user that wait for the backend, in a queue
  with an index by document.  What a mutation does to its document is the type parameter of
  mutations; the queue only asks for the key.  \<open>std::set\<close> is a set, read in ascending order.
\<close>

section \<open>Mutations and batches\<close>

record 'a Mutation =
  mutation_key :: DocumentKey
  effect :: 'a

record 'a MutationBatch =
  batch_id :: s32
  local_write_time :: Timestamp
  base_mutations :: "'a Mutation list"
  mutations :: "'a Mutation list"

definition kBatchIdUnknown :: s32 where
  "kBatchIdUnknown = - 1"

definition make_MutationBatch ::
  "s32 \<Rightarrow> Timestamp \<Rightarrow> 'a Mutation list \<Rightarrow> 'a Mutation list \<Rightarrow> 'a MutationBatch option" where
  "make_MutationBatch i write_time base ms = do {
     _ \<leftarrow> HARD_ASSERT (ms \<noteq> []);
     Some \<lparr>batch_id = i, local_write_time = write_time, base_mutations = base, mutations = ms\<rparr> }"

definition batch_keys :: "'a MutationBatch \<Rightarrow> DocumentKeySet option" where
  "batch_keys batch =
     for_each (\<lambda>mutation. set_insert key_CompareTo (mutation_key mutation)) (mutations batch) set_init"

section \<open>The index of collection parents\<close>

type_synonym CollectionParentIndex = "bytes \<Rightarrow> ResourcePath set option"

definition parent_index_Add :: "ResourcePath \<Rightarrow> CollectionParentIndex \<Rightarrow> (bool \<times> CollectionParentIndex) option" where
  "parent_index_Add collection_path index = do {
     _ \<leftarrow> HARD_ASSERT (length collection_path mod 2 = 1);
     collection_id \<leftarrow> last_segment collection_path;
     parent_path \<leftarrow> PopLast collection_path;
     let existing_parents = (case index collection_id of None \<Rightarrow> {} | Some parents \<Rightarrow> parents);
     Some (parent_path \<notin> existing_parents, index(collection_id \<mapsto> insert parent_path existing_parents)) }"

definition GetEntries :: "bytes \<Rightarrow> CollectionParentIndex \<Rightarrow> ResourcePath list" where
  "GetEntries collection_id index =
     (case index collection_id of None \<Rightarrow> [] | Some parent_paths \<Rightarrow> sorted_list_of_set parent_paths)"

definition AddToCollectionParentIndex :: "ResourcePath \<Rightarrow> CollectionParentIndex \<Rightarrow> CollectionParentIndex option" where
  "AddToCollectionParentIndex collection_path index = map_option snd (parent_index_Add collection_path index)"

definition GetCollectionParents :: "bytes \<Rightarrow> CollectionParentIndex \<Rightarrow> ResourcePath list" where
  "GetCollectionParents collection_id index = GetEntries collection_id index"

section \<open>The queue\<close>

record 'a MemoryMutationQueue =
  queue :: "'a MutationBatch list"
  next_batch_id :: s32
  last_stream_token :: bytes
  batches_by_document_key :: "ByKey SortedSet"

definition MemoryMutationQueue_init :: "'a MemoryMutationQueue" where
  "MemoryMutationQueue_init =
     \<lparr>queue = [], next_batch_id = 1, last_stream_token = [], batches_by_document_key = set_init\<rparr>"

definition queue_IsEmpty :: "'a MemoryMutationQueue \<Rightarrow> bool" where
  "queue_IsEmpty q \<longleftrightarrow> queue q = []"

definition AcknowledgeBatch ::
  "'a MutationBatch \<Rightarrow> bytes \<Rightarrow> 'a MemoryMutationQueue \<Rightarrow> 'a MemoryMutationQueue option" where
  "AcknowledgeBatch batch stream_token q = do {
     _ \<leftarrow> HARD_ASSERT (queue q \<noteq> []);
     let check = hd (queue q);
     _ \<leftarrow> HARD_ASSERT (batch_id batch = batch_id check);
     Some (q\<lparr>last_stream_token := stream_token\<rparr>) }"

definition queue_Start :: "'a MemoryMutationQueue \<Rightarrow> 'a MemoryMutationQueue" where
  "queue_Start q = (if queue_IsEmpty q then q\<lparr>next_batch_id := 1\<rparr> else q)"

definition AddMutationBatch ::
  "Timestamp \<Rightarrow> 'a Mutation list \<Rightarrow> 'a Mutation list \<Rightarrow> 'a MemoryMutationQueue \<times> CollectionParentIndex \<Rightarrow>
   ('a MutationBatch \<times> 'a MemoryMutationQueue \<times> CollectionParentIndex) option" where
  "AddMutationBatch write_time base ms = (\<lambda>(q, index). do {
     _ \<leftarrow> HARD_ASSERT (ms \<noteq> []);
     let i = next_batch_id q;
     next \<leftarrow> sadd32 i 1;
     let q = q\<lparr>next_batch_id := next\<rparr>;
     _ \<leftarrow> HARD_ASSERT (queue q \<noteq> [] \<longrightarrow> sint (batch_id (last (queue q))) < sint i);
     batch \<leftarrow> make_MutationBatch i write_time base ms;
     let q = q\<lparr>queue := queue q @ [batch]\<rparr>;
     (refs, index) \<leftarrow> for_each (\<lambda>mutation (refs, index). do {
         refs \<leftarrow> set_insert ByKey_Compare (ByKey \<lparr>ref_key = mutation_key mutation, ref_id = i\<rparr>) refs;
         collection \<leftarrow> PopLast (mutation_key mutation);
         index \<leftarrow> AddToCollectionParentIndex collection index;
         Some (refs, index) }) (mutations batch) (batches_by_document_key q, index);
     Some (batch, q\<lparr>batches_by_document_key := refs\<rparr>, index) })"

text \<open>The reference delegate of the persistence is an interface: the state it keeps is \<open>'d\<close>.\<close>

definition RemoveMutationBatch ::
  "(DocumentKey \<Rightarrow> 'd \<Rightarrow> 'd option) \<Rightarrow> 'a MutationBatch \<Rightarrow> 'a MemoryMutationQueue \<times> 'd \<Rightarrow>
   ('a MemoryMutationQueue \<times> 'd) option" where
  "RemoveMutationBatch RemoveMutationReference batch = (\<lambda>(q, delegate). do {
     _ \<leftarrow> HARD_ASSERT (queue q \<noteq> []);
     let head = hd (queue q);
     _ \<leftarrow> HARD_ASSERT (batch_id head = batch_id batch);
     let q = q\<lparr>queue := tl (queue q)\<rparr>;
     (refs, delegate) \<leftarrow> for_each (\<lambda>mutation (refs, delegate). do {
         let key = mutation_key mutation;
         delegate \<leftarrow> RemoveMutationReference key delegate;
         refs \<leftarrow> set_erase ByKey_Compare (ByKey \<lparr>ref_key = key, ref_id = batch_id batch\<rparr>) refs;
         Some (refs, delegate) }) (mutations batch) (batches_by_document_key q, delegate);
     Some (q\<lparr>batches_by_document_key := refs\<rparr>, delegate) })"

definition IndexOfBatchId :: "s32 \<Rightarrow> 'a MemoryMutationQueue \<Rightarrow> s32 option" where
  "IndexOfBatchId i q =
     (if queue q = [] then Some 0
      else do { let first_batch = hd (queue q); ssub32 i (batch_id first_batch) })"

definition LookupMutationBatch :: "s32 \<Rightarrow> 'a MemoryMutationQueue \<Rightarrow> 'a MutationBatch option option" where
  "LookupMutationBatch i q =
     (if queue q = [] then Some None
      else do {
        index \<leftarrow> IndexOfBatchId i q;
        if sint index < 0 \<or> length (queue q) \<le> nat (sint index) then Some None
        else do {
          let batch = queue q ! nat (sint index);
          _ \<leftarrow> HARD_ASSERT (batch_id batch = i);
          Some (Some batch) } })"

definition NextMutationBatchAfterBatchId :: "s32 \<Rightarrow> 'a MemoryMutationQueue \<Rightarrow> 'a MutationBatch option option" where
  "NextMutationBatchAfterBatchId i q = do {
     next \<leftarrow> sadd32 i 1;
     raw_index \<leftarrow> IndexOfBatchId next q;
     let index = (if sint raw_index < 0 then 0 else nat (sint raw_index));
     Some (if length (queue q) \<le> index then None else Some (queue q ! index)) }"

definition GetHighestUnacknowledgedBatchId :: "'a MemoryMutationQueue \<Rightarrow> s32 option" where
  "GetHighestUnacknowledgedBatchId q =
     (if queue_IsEmpty q then Some kBatchIdUnknown else ssub32 (next_batch_id q) 1)"

definition ids_in_order :: "s32 set \<Rightarrow> s32 list" where
  "ids_in_order ids = map word_of_int (sorted_list_of_set (sint ` ids))"

definition AllMutationBatchesWithIds :: "s32 set \<Rightarrow> 'a MemoryMutationQueue \<Rightarrow> 'a MutationBatch list option" where
  "AllMutationBatchesWithIds ids q =
     for_each (\<lambda>i result. do {
         batch \<leftarrow> LookupMutationBatch i q;
         Some (case batch of None \<Rightarrow> result | Some b \<Rightarrow> result @ [b]) }) (ids_in_order ids) []"

definition references_from :: "DocumentKey \<Rightarrow> 'a MemoryMutationQueue \<Rightarrow> DocumentKeyReference list option" where
  "references_from key q = do {
     let start = \<lparr>ref_key = key, ref_id = 0\<rparr>;
     es \<leftarrow> walk_range (set_values_from ByKey_Compare (ByKey start) (batches_by_document_key q));
     Some (map (by_key_ref \<circ> fst) es) }"

definition AllMutationBatchesAffectingDocumentKeys ::
  "DocumentKeySet \<Rightarrow> 'a MemoryMutationQueue \<Rightarrow> 'a MutationBatch list option" where
  "AllMutationBatchesAffectingDocumentKeys document_keys q = do {
     keys \<leftarrow> set_values document_keys;
     batch_ids \<leftarrow> for_each (\<lambda>key ids. do {
         refs \<leftarrow> references_from key q;
         Some (fold (insert \<circ> ref_id) (takeWhile (\<lambda>reference. key = ref_key reference) refs) ids) }) keys {};
     AllMutationBatchesWithIds batch_ids q }"

definition AllMutationBatchesAffectingDocumentKey ::
  "DocumentKey \<Rightarrow> 'a MemoryMutationQueue \<Rightarrow> 'a MutationBatch list option" where
  "AllMutationBatchesAffectingDocumentKey key q = do {
     refs \<leftarrow> references_from key q;
     for_each (\<lambda>reference result. do {
         batch \<leftarrow> LookupMutationBatch (ref_id reference) q;
         b \<leftarrow> batch;
         Some (result @ [b]) }) (takeWhile (\<lambda>reference. key = ref_key reference) refs) [] }"

text \<open>The parts of a query that the queue reads.\<close>

record Query =
  query_path :: ResourcePath
  collection_group :: "bytes option"

definition IsCollectionGroupQuery :: "Query \<Rightarrow> bool" where
  "IsCollectionGroupQuery query \<longleftrightarrow> collection_group query \<noteq> None"

definition AllMutationBatchesAffectingQuery ::
  "Query \<Rightarrow> 'a MemoryMutationQueue \<Rightarrow> 'a MutationBatch list option" where
  "AllMutationBatchesAffectingQuery query q = do {
     _ \<leftarrow> HARD_ASSERT (\<not> IsCollectionGroupQuery query);
     let prefix = query_path query;
     let immediate_children_path_length = length prefix + 1;
     let start_path = (if \<not> IsDocumentKey prefix then Append_segment prefix [] else prefix);
     start \<leftarrow> make_DocumentKey start_path;
     refs \<leftarrow> references_from start q;
     let rows = takeWhile (\<lambda>reference. IsPrefixOf prefix (ref_key reference)) refs;
     let children = filter (\<lambda>reference. length (ref_key reference) = immediate_children_path_length) rows;
     let unique_batch_ids = fold (insert \<circ> ref_id) children {};
     AllMutationBatchesWithIds unique_batch_ids q }"

definition PerformConsistencyCheck :: "'a MemoryMutationQueue \<Rightarrow> unit option" where
  "PerformConsistencyCheck q =
     (if queue q = [] then HARD_ASSERT (set_empty (batches_by_document_key q)) else Some ())"

definition queue_ContainsKey :: "DocumentKey \<Rightarrow> 'a MemoryMutationQueue \<Rightarrow> bool option" where
  "queue_ContainsKey key q = references_contain_key key (batches_by_document_key q)"

definition queue_CalculateByteSize :: "('a MutationBatch \<Rightarrow> s64) \<Rightarrow> 'a MemoryMutationQueue \<Rightarrow> s64 option" where
  "queue_CalculateByteSize sizer q = for_each (\<lambda>batch count. sadd64 count (sizer batch)) (queue q) 0"

definition GetLastStreamToken :: "'a MemoryMutationQueue \<Rightarrow> bytes" where
  "GetLastStreamToken q = last_stream_token q"

definition SetLastStreamToken :: "bytes \<Rightarrow> 'a MemoryMutationQueue \<Rightarrow> 'a MemoryMutationQueue" where
  "SetLastStreamToken token q = q\<lparr>last_stream_token := token\<rparr>"

end
