(* ===== verification/TargetCache.thy ===== *)
theory TargetCache
  imports MutationQueue "HOL-Library.AList"
begin

text \<open>
  What the local store keeps, under \<open>Firestore/core/src\<close>: the documents of
  \<open>model/mutable_document.cc\<close>, the data of a target of \<open>local/target_data.cc\<close> and the cache of targets
  \<open>local/memory_target_cache.cc\<close>.  An unordered map is an association list, read in the order of the
  list.  The target of a query and the fields of a document are type parameters: this layer only
  compares the one and copies the other.
\<close>

section \<open>Documents\<close>

definition Timestamp_less :: "SnapshotVersion \<Rightarrow> SnapshotVersion \<Rightarrow> bool" where
  "Timestamp_less lhs rhs \<longleftrightarrow> sint (seconds lhs) < sint (seconds rhs) \<or>
     seconds lhs = seconds rhs \<and> sint (nanoseconds lhs) < sint (nanoseconds rhs)"

definition Timestamp_less_equal :: "SnapshotVersion \<Rightarrow> SnapshotVersion \<Rightarrow> bool" where
  "Timestamp_less_equal lhs rhs \<longleftrightarrow> \<not> Timestamp_less rhs lhs"

definition SnapshotVersion_None :: SnapshotVersion where
  "SnapshotVersion_None = \<lparr>seconds = 0, nanoseconds = 0\<rparr>"

datatype DocumentType = kInvalid | kFoundDocument | kNoDocument | kUnknownDocument

datatype DocumentState = kHasLocalMutations | kHasCommittedMutations | kSynced

record 'v MutableDocument =
  document_key :: DocumentKey
  document_type :: DocumentType
  document_version :: SnapshotVersion
  document_value :: 'v
  document_state :: DocumentState

definition InvalidDocument :: "DocumentKey \<Rightarrow> ('v::default) MutableDocument" where
  "InvalidDocument key = \<lparr>document_key = key, document_type = kInvalid,
     document_version = SnapshotVersion_None, document_value = default, document_state = kSynced\<rparr>"

definition ConvertToFoundDocument :: "SnapshotVersion \<Rightarrow> 'v \<Rightarrow> 'v MutableDocument \<Rightarrow> 'v MutableDocument" where
  "ConvertToFoundDocument version v d = d\<lparr>document_version := version, document_type := kFoundDocument,
     document_value := v, document_state := kSynced\<rparr>"

definition ConvertToFoundDocument_same :: "SnapshotVersion \<Rightarrow> 'v MutableDocument \<Rightarrow> 'v MutableDocument" where
  "ConvertToFoundDocument_same version d = d\<lparr>document_version := version, document_type := kFoundDocument,
     document_state := kSynced\<rparr>"

definition ConvertToNoDocument :: "SnapshotVersion \<Rightarrow> ('v::default) MutableDocument \<Rightarrow> 'v MutableDocument" where
  "ConvertToNoDocument version d = d\<lparr>document_version := version, document_type := kNoDocument,
     document_value := default, document_state := kSynced\<rparr>"

definition ConvertToUnknownDocument :: "SnapshotVersion \<Rightarrow> ('v::default) MutableDocument \<Rightarrow> 'v MutableDocument" where
  "ConvertToUnknownDocument version d = d\<lparr>document_version := version, document_type := kUnknownDocument,
     document_value := default, document_state := kHasCommittedMutations\<rparr>"

definition FoundDocument :: "DocumentKey \<Rightarrow> SnapshotVersion \<Rightarrow> 'v \<Rightarrow> ('v::default) MutableDocument" where
  "FoundDocument key version v = ConvertToFoundDocument version v (InvalidDocument key)"

definition NoDocument :: "DocumentKey \<Rightarrow> SnapshotVersion \<Rightarrow> ('v::default) MutableDocument" where
  "NoDocument key version = ConvertToNoDocument version (InvalidDocument key)"

definition UnknownDocument :: "DocumentKey \<Rightarrow> SnapshotVersion \<Rightarrow> ('v::default) MutableDocument" where
  "UnknownDocument key version = ConvertToUnknownDocument version (InvalidDocument key)"

definition SetHasCommittedMutations :: "'v MutableDocument \<Rightarrow> 'v MutableDocument" where
  "SetHasCommittedMutations d = d\<lparr>document_state := kHasCommittedMutations\<rparr>"

definition SetHasLocalMutations :: "'v MutableDocument \<Rightarrow> 'v MutableDocument" where
  "SetHasLocalMutations d = d\<lparr>document_state := kHasLocalMutations\<rparr>"

definition is_valid_document :: "'v MutableDocument \<Rightarrow> bool" where
  "is_valid_document d \<longleftrightarrow> document_type d \<noteq> kInvalid"

definition is_found_document :: "'v MutableDocument \<Rightarrow> bool" where
  "is_found_document d \<longleftrightarrow> document_type d = kFoundDocument"

definition is_no_document :: "'v MutableDocument \<Rightarrow> bool" where
  "is_no_document d \<longleftrightarrow> document_type d = kNoDocument"

definition has_local_mutations :: "'v MutableDocument \<Rightarrow> bool" where
  "has_local_mutations d \<longleftrightarrow> document_state d = kHasLocalMutations"

definition has_committed_mutations :: "'v MutableDocument \<Rightarrow> bool" where
  "has_committed_mutations d \<longleftrightarrow> document_state d = kHasCommittedMutations"

definition has_pending_writes :: "'v MutableDocument \<Rightarrow> bool" where
  "has_pending_writes d \<longleftrightarrow> has_local_mutations d \<or> has_committed_mutations d"

section \<open>Targets\<close>

datatype QueryPurpose = Listen | ExistenceFilterMismatch | LimboResolution

record 't TargetData =
  data_target :: 't
  target_id :: s32
  sequence_number :: s64
  purpose :: QueryPurpose
  snapshot_version :: SnapshotVersion
  last_limbo_free_snapshot_version :: SnapshotVersion
  resume_token :: bytes

definition make_TargetData :: "'t \<Rightarrow> s32 \<Rightarrow> s64 \<Rightarrow> QueryPurpose \<Rightarrow> 't TargetData" where
  "make_TargetData target i n p = \<lparr>data_target = target, target_id = i, sequence_number = n, purpose = p,
     snapshot_version = SnapshotVersion_None, last_limbo_free_snapshot_version = SnapshotVersion_None,
     resume_token = []\<rparr>"

definition WithSequenceNumber :: "s64 \<Rightarrow> 't TargetData \<Rightarrow> 't TargetData" where
  "WithSequenceNumber n d = d\<lparr>sequence_number := n\<rparr>"

definition WithResumeToken :: "bytes \<Rightarrow> SnapshotVersion \<Rightarrow> 't TargetData \<Rightarrow> 't TargetData" where
  "WithResumeToken token version d = d\<lparr>resume_token := token, snapshot_version := version\<rparr>"

definition WithLastLimboFreeSnapshotVersion :: "SnapshotVersion \<Rightarrow> 't TargetData \<Rightarrow> 't TargetData" where
  "WithLastLimboFreeSnapshotVersion version d = d\<lparr>last_limbo_free_snapshot_version := version\<rparr>"

record 't MemoryTargetCache =
  highest_listen_sequence_number :: s64
  highest_target_id :: s32
  last_remote_snapshot_version :: SnapshotVersion
  targets :: "('t \<times> 't TargetData) list"
  references :: ReferenceSet

definition MemoryTargetCache_init :: "'t MemoryTargetCache" where
  "MemoryTargetCache_init = \<lparr>highest_listen_sequence_number = 0, highest_target_id = 0,
     last_remote_snapshot_version = SnapshotVersion_None, targets = [], references = ReferenceSet_init\<rparr>"

definition AddTarget :: "'t TargetData \<Rightarrow> 't MemoryTargetCache \<Rightarrow> 't MemoryTargetCache" where
  "AddTarget d c =
     (let c = c\<lparr>targets := AList.update (data_target d) d (targets c)\<rparr>;
          c = (if sint (highest_target_id c) < sint (target_id d) then c\<lparr>highest_target_id := target_id d\<rparr> else c)
      in if sint (highest_listen_sequence_number c) < sint (sequence_number d)
         then c\<lparr>highest_listen_sequence_number := sequence_number d\<rparr> else c)"

definition UpdateTarget :: "'t TargetData \<Rightarrow> 't MemoryTargetCache \<Rightarrow> 't MemoryTargetCache" where
  "UpdateTarget d c = AddTarget d c"

definition cache_RemoveTarget :: "'t TargetData \<Rightarrow> 't MemoryTargetCache \<Rightarrow> 't MemoryTargetCache option" where
  "cache_RemoveTarget d c = do {
     let c = c\<lparr>targets := AList.delete (data_target d) (targets c)\<rparr>;
     (_, rs) \<leftarrow> RemoveReferences_of_id (target_id d) (references c);
     Some (c\<lparr>references := rs\<rparr>) }"

definition GetTarget :: "'t \<Rightarrow> 't MemoryTargetCache \<Rightarrow> 't TargetData option" where
  "GetTarget target c = map_of (targets c) target"

definition EnumerateSequenceNumbers :: "(s64 \<Rightarrow> 's \<Rightarrow> 's) \<Rightarrow> 't MemoryTargetCache \<Rightarrow> 's \<Rightarrow> 's" where
  "EnumerateSequenceNumbers callback c = fold (\<lambda>(_, d). callback (sequence_number d)) (targets c)"

text \<open>Of the live targets only the ids are looked at.\<close>

definition cache_RemoveTargets ::
  "s64 \<Rightarrow> s32 set \<Rightarrow> 't MemoryTargetCache \<Rightarrow> (nat \<times> 't MemoryTargetCache) option" where
  "cache_RemoveTargets upper_bound live_targets c = do {
     (to_remove, rs) \<leftarrow> for_each (\<lambda>(target, d) (to_remove, rs).
         if sint (sequence_number d) \<le> sint upper_bound \<and> target_id d \<notin> live_targets
         then do { (_, rs) \<leftarrow> RemoveReferences_of_id (target_id d) rs; Some (to_remove @ [target], rs) }
         else Some (to_remove, rs)) (targets c) ([], references c);
     Some (length to_remove, c\<lparr>targets := fold AList.delete to_remove (targets c), references := rs\<rparr>) }"

definition GetMatchingKeys :: "s32 \<Rightarrow> 't MemoryTargetCache \<Rightarrow> DocumentKeySet option" where
  "GetMatchingKeys i c = ReferencedKeys i (references c)"

definition cache_Contains :: "DocumentKey \<Rightarrow> 't MemoryTargetCache \<Rightarrow> bool option" where
  "cache_Contains key c = ContainsKey key (references c)"

definition cache_CalculateByteSize :: "('t TargetData \<Rightarrow> s64) \<Rightarrow> 't MemoryTargetCache \<Rightarrow> s64 option" where
  "cache_CalculateByteSize sizer c = for_each (\<lambda>(_, d) count. sadd64 count (sizer d)) (targets c) 0"

definition SetLastRemoteSnapshotVersion :: "SnapshotVersion \<Rightarrow> 't MemoryTargetCache \<Rightarrow> 't MemoryTargetCache" where
  "SetLastRemoteSnapshotVersion version c = c\<lparr>last_remote_snapshot_version := version\<rparr>"

definition RemoveMatchingKeysForTarget :: "s32 \<Rightarrow> 't MemoryTargetCache \<Rightarrow> 't MemoryTargetCache option" where
  "RemoveMatchingKeysForTarget i c = do {
     (_, rs) \<leftarrow> RemoveReferences_of_id i (references c);
     Some (c\<lparr>references := rs\<rparr>) }"

end
