(* ===== verification/MemoryPersistence.thy ===== *)
theory MemoryPersistence
  imports TargetCache
begin

text \<open>
  The persistence layer that keeps everything in memory, under \<open>Firestore/core/src/local\<close>:
  \<open>memory_persistence.cc\<close>, \<open>memory_remote_document_cache.cc\<close> and the two reference delegates
  \<open>memory_eager_reference_delegate.cc\<close> and \<open>memory_lru_reference_delegate.cc\<close>.  The objects point at
  each other through the persistence, so an operation that reaches another object takes and
  returns the state of the whole.  The set of additional references belongs to the local store;
  the delegate keeps a pointer to it.
\<close>

section \<open>The state\<close>

instantiation MutableDocument_ext :: (default, default) default
begin

definition default_MutableDocument_ext :: "('a, 'b) MutableDocument_scheme" where
  "default_MutableDocument_ext = MutableDocument.extend (InvalidDocument []) default"

instance ..

end

instantiation Timestamp_ext :: (default) default
begin

definition default_Timestamp_ext :: "'a Timestamp_scheme" where
  "default_Timestamp_ext = Timestamp.extend SnapshotVersion_None default"

instance ..

end

type_synonym 'v Documents = "(DocumentKey, 'v MutableDocument \<times> SnapshotVersion) SortedMap"

record EagerDelegate =
  orphaned :: "DocumentKey set option"

record LruDelegate =
  sequence_numbers :: "(DocumentKey \<times> s64) list"
  previous_sequence_number :: s64
  current_sequence_number :: s64

datatype ReferenceDelegate =
    Eager EagerDelegate
  | Lru LruDelegate

type_synonym User = "bytes option"

record ('t, 'v, 'm) MemoryPersistence =
  target_cache :: "'t MemoryTargetCache"
  docs :: "'v Documents"
  mutation_queues :: "(User \<times> 'm MemoryMutationQueue) list"
  index_manager :: CollectionParentIndex
  reference_delegate :: ReferenceDelegate
  additional_references :: "ReferenceSet ptr"
  started :: bool

definition kListenSequenceNumberInvalid :: s64 where
  "kListenSequenceNumberInvalid = - 1"

definition EagerDelegate_init :: EagerDelegate where
  "EagerDelegate_init = \<lparr>orphaned = None\<rparr>"

definition LruDelegate_init :: "s64 \<Rightarrow> LruDelegate" where
  "LruDelegate_init highest = \<lparr>sequence_numbers = [], previous_sequence_number = highest,
     current_sequence_number = kListenSequenceNumberInvalid\<rparr>"

definition MemoryPersistence_init :: "ReferenceDelegate \<Rightarrow> ('t, 'v::default, 'm) MemoryPersistence" where
  "MemoryPersistence_init delegate = \<lparr>target_cache = MemoryTargetCache_init, docs = sm_init,
     mutation_queues = [], index_manager = Map.empty, reference_delegate = delegate,
     additional_references = None, started = True\<rparr>"

definition WithEagerGarbageCollector :: "('t, 'v::default, 'm) MemoryPersistence" where
  "WithEagerGarbageCollector = MemoryPersistence_init (Eager EagerDelegate_init)"

definition WithLruGarbageCollector :: "('t, 'v::default, 'm) MemoryPersistence" where
  "WithLruGarbageCollector =
     MemoryPersistence_init (Lru (LruDelegate_init (highest_listen_sequence_number (MemoryTargetCache_init :: 't MemoryTargetCache))))"

definition Shutdown :: "('t, 'v, 'm) MemoryPersistence \<Rightarrow> ('t, 'v, 'm) MemoryPersistence option" where
  "Shutdown p = do { _ \<leftarrow> HARD_ASSERT (started p); Some (p\<lparr>started := False\<rparr>) }"

definition GetMutationQueueForUser ::
  "User \<Rightarrow> ('t, 'v, 'm) MemoryPersistence \<Rightarrow> 'm MemoryMutationQueue \<times> ('t, 'v, 'm) MemoryPersistence" where
  "GetMutationQueueForUser user p =
     (case map_of (mutation_queues p) user of
        None \<Rightarrow> let q = MemoryMutationQueue_init in (q, p\<lparr>mutation_queues := AList.update user q (mutation_queues p)\<rparr>)
      | Some q \<Rightarrow> (q, p))"

section \<open>Notes the delegates take\<close>

text \<open>The set of orphaned documents only exists during a transaction.\<close>

definition with_orphaned :: "(DocumentKey set \<Rightarrow> DocumentKey set) \<Rightarrow> EagerDelegate \<Rightarrow> EagerDelegate option" where
  "with_orphaned f d = do { s \<leftarrow> orphaned d; Some (d\<lparr>orphaned := Some (f s)\<rparr>) }"

definition touch :: "DocumentKey \<Rightarrow> LruDelegate \<Rightarrow> LruDelegate" where
  "touch key d = d\<lparr>sequence_numbers := AList.update key (current_sequence_number d) (sequence_numbers d)\<rparr>"

fun delegate_AddReference :: "DocumentKey \<Rightarrow> ReferenceDelegate \<Rightarrow> ReferenceDelegate option" where
  "delegate_AddReference key (Eager d) = map_option Eager (with_orphaned (\<lambda>s. s - {key}) d)"
| "delegate_AddReference key (Lru d) = Some (Lru (touch key d))"

fun delegate_RemoveReference :: "DocumentKey \<Rightarrow> ReferenceDelegate \<Rightarrow> ReferenceDelegate option" where
  "delegate_RemoveReference key (Eager d) = map_option Eager (with_orphaned (insert key) d)"
| "delegate_RemoveReference key (Lru d) = Some (Lru (touch key d))"

fun delegate_RemoveMutationReference :: "DocumentKey \<Rightarrow> ReferenceDelegate \<Rightarrow> ReferenceDelegate option" where
  "delegate_RemoveMutationReference key (Eager d) = map_option Eager (with_orphaned (insert key) d)"
| "delegate_RemoveMutationReference key (Lru d) = Some (Lru (touch key d))"

fun delegate_current_sequence_number :: "ReferenceDelegate \<Rightarrow> s64 option" where
  "delegate_current_sequence_number (Eager d) = Some kListenSequenceNumberInvalid"
| "delegate_current_sequence_number (Lru d) = do {
     _ \<leftarrow> HARD_ASSERT (current_sequence_number d \<noteq> kListenSequenceNumberInvalid);
     Some (current_sequence_number d) }"

definition AddInMemoryPins :: "ReferenceSet ptr \<Rightarrow> ('t, 'v, 'm) MemoryPersistence \<Rightarrow> ('t, 'v, 'm) MemoryPersistence" where
  "AddInMemoryPins rs p = p\<lparr>additional_references := rs\<rparr>"

section \<open>The caches\<close>

definition AddMatchingKeys ::
  "DocumentKeySet \<Rightarrow> s32 \<Rightarrow> ('t, 'v, 'm) MemoryPersistence \<Rightarrow> ('t, 'v, 'm) MemoryPersistence option" where
  "AddMatchingKeys keys i p = do {
     rs \<leftarrow> AddReferences keys i (references (target_cache p));
     ks \<leftarrow> set_values keys;
     delegate \<leftarrow> for_each delegate_AddReference ks (reference_delegate p);
     Some (p\<lparr>target_cache := (target_cache p)\<lparr>references := rs\<rparr>, reference_delegate := delegate\<rparr>) }"

definition RemoveMatchingKeys ::
  "DocumentKeySet \<Rightarrow> s32 \<Rightarrow> ('t, 'v, 'm) MemoryPersistence \<Rightarrow> ('t, 'v, 'm) MemoryPersistence option" where
  "RemoveMatchingKeys keys i p = do {
     rs \<leftarrow> RemoveReferences keys i (references (target_cache p));
     ks \<leftarrow> set_values keys;
     delegate \<leftarrow> for_each delegate_RemoveReference ks (reference_delegate p);
     Some (p\<lparr>target_cache := (target_cache p)\<lparr>references := rs\<rparr>, reference_delegate := delegate\<rparr>) }"

definition documents_Add ::
  "'v MutableDocument \<Rightarrow> SnapshotVersion \<Rightarrow> ('t, 'v::default, 'm) MemoryPersistence \<Rightarrow>
   ('t, 'v, 'm) MemoryPersistence option" where
  "documents_Add document read_time p = do {
     ds \<leftarrow> sm_insert key_CompareTo (document_key document) (document, read_time) (docs p);
     collection \<leftarrow> PopLast (document_key document);
     index \<leftarrow> AddToCollectionParentIndex collection (index_manager p);
     Some (p\<lparr>docs := ds, index_manager := index\<rparr>) }"

definition documents_Remove :: "DocumentKey \<Rightarrow> ('v::default) Documents \<Rightarrow> 'v Documents option" where
  "documents_Remove key ds = sm_erase key_CompareTo key ds"

definition documents_Get :: "DocumentKey \<Rightarrow> ('v::default) Documents \<Rightarrow> 'v MutableDocument option" where
  "documents_Get key ds = do {
     found \<leftarrow> sm_get key_CompareTo key ds;
     Some (case found of Some (document, _) \<Rightarrow> document | None \<Rightarrow> InvalidDocument key) }"

type_synonym 'v MutableDocumentMap = "(DocumentKey, 'v MutableDocument) SortedMap"

definition documents_GetAll :: "DocumentKeySet \<Rightarrow> ('v::default) Documents \<Rightarrow> 'v MutableDocumentMap option" where
  "documents_GetAll keys ds = do {
     ks \<leftarrow> set_values keys;
     for_each (\<lambda>key results. do {
         document \<leftarrow> documents_Get key ds;
         sm_insert key_CompareTo key document results }) ks sm_init }"

text \<open>Whether a document matches the filters of the query is decided by the query.\<close>

definition documents_GetMatching ::
  "('v MutableDocument \<Rightarrow> bool) \<Rightarrow> Query \<Rightarrow> SnapshotVersion \<Rightarrow> ('v::default) Documents \<Rightarrow>
   'v MutableDocumentMap option" where
  "documents_GetMatching Matches query since_read_time ds = do {
     _ \<leftarrow> HARD_ASSERT (\<not> IsCollectionGroupQuery query);
     prefix \<leftarrow> make_DocumentKey (Append_segment (query_path query) []);
     es \<leftarrow> walk_range (sm_keys_from key_CompareTo prefix ds);
     let rows = takeWhile (\<lambda>(key, _). IsPrefixOf (query_path query) key) es;
     for_each (\<lambda>(key, document, read_time) results.
         if \<not> is_found_document document then Some results
         else if Timestamp_less_equal read_time since_read_time then Some results
         else if \<not> Matches document then Some results
         else sm_insert key_CompareTo key document results) rows sm_init }"

definition documents_CalculateByteSize :: "('v MutableDocument \<Rightarrow> s64) \<Rightarrow> ('v::default) Documents \<Rightarrow> s64 option" where
  "documents_CalculateByteSize sizer ds = do {
     es \<leftarrow> walk_range (sm_keys ds);
     for_each (\<lambda>(_, document, _) count. sadd64 count (sizer document)) es 0 }"

section \<open>Who refers to a document\<close>

primrec MutationQueuesContainKey :: "DocumentKey \<Rightarrow> (User \<times> 'm MemoryMutationQueue) list \<Rightarrow> bool option" where
  "MutationQueuesContainKey key [] = Some False"
| "MutationQueuesContainKey key (user_queue # queues) = do {
     contains \<leftarrow> queue_ContainsKey key (snd user_queue);
     if contains then Some True else MutationQueuesContainKey key queues }"

definition additional_contain :: "DocumentKey \<Rightarrow> ReferenceSet ptr \<Rightarrow> bool option" where
  "additional_contain key rs = (case rs of None \<Rightarrow> Some False | Some rs \<Rightarrow> ContainsKey key rs)"

definition IsReferenced :: "DocumentKey \<Rightarrow> ('t, 'v, 'm) MemoryPersistence \<Rightarrow> bool option" where
  "IsReferenced key p = do {
     in_cache \<leftarrow> cache_Contains key (target_cache p);
     if in_cache then Some True else do {
       in_queues \<leftarrow> MutationQueuesContainKey key (mutation_queues p);
       if in_queues then Some True else additional_contain key (additional_references p) } }"

definition IsPinnedAtSequenceNumber ::
  "s64 \<Rightarrow> DocumentKey \<Rightarrow> LruDelegate \<Rightarrow> ('t, 'v, 'm) MemoryPersistence \<Rightarrow> bool option" where
  "IsPinnedAtSequenceNumber upper_bound key d p = do {
     in_queues \<leftarrow> MutationQueuesContainKey key (mutation_queues p);
     if in_queues then Some True else do {
       additional \<leftarrow> additional_contain key (additional_references p);
       if additional then Some True else do {
         in_cache \<leftarrow> cache_Contains key (target_cache p);
         if in_cache then Some True else
           Some (case map_of (sequence_numbers d) key of
                   None \<Rightarrow> False | Some n \<Rightarrow> sint upper_bound < sint n) } } }"

section \<open>What the delegates do\<close>

definition delegate_RemoveTarget ::
  "'t TargetData \<Rightarrow> ('t, 'v, 'm) MemoryPersistence \<Rightarrow> ('t, 'v, 'm) MemoryPersistence option" where
  "delegate_RemoveTarget d p = (case reference_delegate p of
     Eager e \<Rightarrow> do {
       matching \<leftarrow> GetMatchingKeys (target_id d) (target_cache p);
       keys \<leftarrow> set_values matching;
       e \<leftarrow> for_each (\<lambda>doc_key. with_orphaned (insert doc_key)) keys e;
       c \<leftarrow> cache_RemoveTarget d (target_cache p);
       Some (p\<lparr>target_cache := c, reference_delegate := Eager e\<rparr>) }
   | Lru l \<Rightarrow>
       let updated = WithSequenceNumber (current_sequence_number l) d in
       Some (p\<lparr>target_cache := UpdateTarget updated (target_cache p)\<rparr>))"

definition UpdateLimboDocument ::
  "DocumentKey \<Rightarrow> ('t, 'v, 'm) MemoryPersistence \<Rightarrow> ('t, 'v, 'm) MemoryPersistence option" where
  "UpdateLimboDocument key p = (case reference_delegate p of
     Eager e \<Rightarrow> do {
       is_referenced \<leftarrow> IsReferenced key p;
       e \<leftarrow> with_orphaned (\<lambda>s. if is_referenced then s - {key} else insert key s) e;
       Some (p\<lparr>reference_delegate := Eager e\<rparr>) }
   | Lru l \<Rightarrow> Some (p\<lparr>reference_delegate := Lru (touch key l)\<rparr>))"

definition ListenSequence_Next :: "LruDelegate \<Rightarrow> (s64 \<times> LruDelegate) option" where
  "ListenSequence_Next l = do {
     n \<leftarrow> sadd64 (previous_sequence_number l) 1;
     Some (n, l\<lparr>previous_sequence_number := n\<rparr>) }"

definition OnTransactionStarted :: "('t, 'v, 'm) MemoryPersistence \<Rightarrow> ('t, 'v, 'm) MemoryPersistence option" where
  "OnTransactionStarted p = (case reference_delegate p of
     Eager e \<Rightarrow> Some (p\<lparr>reference_delegate := Eager (e\<lparr>orphaned := Some {}\<rparr>)\<rparr>)
   | Lru l \<Rightarrow> do {
       (n, l) \<leftarrow> ListenSequence_Next l;
       Some (p\<lparr>reference_delegate := Lru (l\<lparr>current_sequence_number := n\<rparr>)\<rparr>) })"

definition OnTransactionCommitted ::
  "('t, 'v::default, 'm) MemoryPersistence \<Rightarrow> ('t, 'v, 'm) MemoryPersistence option" where
  "OnTransactionCommitted p = (case reference_delegate p of
     Eager e \<Rightarrow> do {
       s \<leftarrow> orphaned e;
       p \<leftarrow> for_each (\<lambda>key p. do {
           is_referenced \<leftarrow> IsReferenced key p;
           if is_referenced then Some p
           else do { ds \<leftarrow> documents_Remove key (docs p); Some (p\<lparr>docs := ds\<rparr>) } }) (sorted_list_of_set s) p;
       Some (p\<lparr>reference_delegate := Eager (e\<lparr>orphaned := None\<rparr>)\<rparr>) }
   | Lru l \<Rightarrow> Some (p\<lparr>reference_delegate := Lru (l\<lparr>current_sequence_number := kListenSequenceNumberInvalid\<rparr>)\<rparr>))"

definition RunInternal ::
  "(('t, 'v, 'm) MemoryPersistence \<Rightarrow> ('t, 'v, 'm) MemoryPersistence option) \<Rightarrow>
   ('t, 'v::default, 'm) MemoryPersistence \<Rightarrow> ('t, 'v, 'm) MemoryPersistence option" where
  "RunInternal block p = do {
     p \<leftarrow> OnTransactionStarted p;
     p \<leftarrow> block p;
     OnTransactionCommitted p }"

section \<open>The mutation queues in the persistence\<close>

definition persistence_AddMutationBatch ::
  "User \<Rightarrow> Timestamp \<Rightarrow> 'm Mutation list \<Rightarrow> 'm Mutation list \<Rightarrow> ('t, 'v, 'm) MemoryPersistence \<Rightarrow>
   ('m MutationBatch \<times> ('t, 'v, 'm) MemoryPersistence) option" where
  "persistence_AddMutationBatch user write_time base ms p = do {
     let (q, p) = GetMutationQueueForUser user p;
     (batch, q, index) \<leftarrow> AddMutationBatch write_time base ms (q, index_manager p);
     Some (batch, p\<lparr>mutation_queues := AList.update user q (mutation_queues p), index_manager := index\<rparr>) }"

definition persistence_RemoveMutationBatch ::
  "User \<Rightarrow> 'm MutationBatch \<Rightarrow> ('t, 'v, 'm) MemoryPersistence \<Rightarrow> ('t, 'v, 'm) MemoryPersistence option" where
  "persistence_RemoveMutationBatch user batch p = do {
     let (q, p) = GetMutationQueueForUser user p;
     (q, delegate) \<leftarrow> RemoveMutationBatch delegate_RemoveMutationReference batch (q, reference_delegate p);
     Some (p\<lparr>mutation_queues := AList.update user q (mutation_queues p), reference_delegate := delegate\<rparr>) }"

end
