(* ===== verification/RemoteEvents.thy ===== *)
theory RemoteEvents
  imports TargetCache
begin

text \<open>
  \<open>Firestore/core/src/remote/remote_event.cc\<close>: the changes of the watch stream, gathered per target
  and per document until the next consistent snapshot, with the messages of \<open>remote/watch_change.h\<close>
  and the interface \<open>TargetMetadataProvider\<close>, which tells what the client holds.  The unordered
  maps are association lists.
\<close>

section \<open>Target changes\<close>

datatype ChangeType = Removed | Added | Modified | Metadata

record TargetChange =
  change_resume_token :: bytes
  change_current :: bool
  added_documents :: DocumentKeySet
  modified_documents :: DocumentKeySet
  removed_documents :: DocumentKeySet

record TargetState =
  outstanding_responses :: s32
  document_changes :: "(DocumentKey \<times> ChangeType) list"
  state_resume_token :: bytes
  state_current :: bool
  has_pending_changes :: bool

definition TargetState_init :: TargetState where
  "TargetState_init = \<lparr>outstanding_responses = 0, document_changes = [], state_resume_token = [],
     state_current = False, has_pending_changes = True\<rparr>"

definition IsPending :: "TargetState \<Rightarrow> bool" where
  "IsPending s \<longleftrightarrow> outstanding_responses s \<noteq> 0"

definition UpdateResumeToken :: "bytes \<Rightarrow> TargetState \<Rightarrow> TargetState" where
  "UpdateResumeToken token s =
     (if token \<noteq> [] then s\<lparr>has_pending_changes := True, state_resume_token := token\<rparr> else s)"

definition ToTargetChange :: "TargetState \<Rightarrow> TargetChange option" where
  "ToTargetChange s = do {
     (a, m, r) \<leftarrow> for_each (\<lambda>(key, change_type) (a, m, r). case change_type of
         Added \<Rightarrow> do { a \<leftarrow> set_insert key_CompareTo key a; Some (a, m, r) }
       | Modified \<Rightarrow> do { m \<leftarrow> set_insert key_CompareTo key m; Some (a, m, r) }
       | Removed \<Rightarrow> do { r \<leftarrow> set_insert key_CompareTo key r; Some (a, m, r) }
       | Metadata \<Rightarrow> None) (document_changes s) (set_init, set_init, set_init);
     Some \<lparr>change_resume_token = state_resume_token s, change_current = state_current s,
           added_documents = a, modified_documents = m, removed_documents = r\<rparr> }"

definition ClearPendingChanges :: "TargetState \<Rightarrow> TargetState" where
  "ClearPendingChanges s = s\<lparr>has_pending_changes := False, document_changes := []\<rparr>"

definition RecordPendingTargetRequest :: "TargetState \<Rightarrow> TargetState option" where
  "RecordPendingTargetRequest s = do {
     n \<leftarrow> sadd32 (outstanding_responses s) 1;
     Some (s\<lparr>outstanding_responses := n\<rparr>) }"

definition RecordTargetResponse :: "TargetState \<Rightarrow> TargetState option" where
  "RecordTargetResponse s = do {
     n \<leftarrow> ssub32 (outstanding_responses s) 1;
     Some (s\<lparr>outstanding_responses := n\<rparr>) }"

definition MarkCurrent :: "TargetState \<Rightarrow> TargetState" where
  "MarkCurrent s = s\<lparr>has_pending_changes := True, state_current := True\<rparr>"

definition AddDocumentChange :: "DocumentKey \<Rightarrow> ChangeType \<Rightarrow> TargetState \<Rightarrow> TargetState" where
  "AddDocumentChange key change_type s =
     s\<lparr>has_pending_changes := True, document_changes := AList.update key change_type (document_changes s)\<rparr>"

definition RemoveDocumentChange :: "DocumentKey \<Rightarrow> TargetState \<Rightarrow> TargetState" where
  "RemoveDocumentChange key s =
     s\<lparr>has_pending_changes := True, document_changes := AList.delete key (document_changes s)\<rparr>"

section \<open>Messages of the watch stream\<close>

record 'v DocumentWatchChange =
  updated_target_ids :: "s32 list"
  removed_target_ids :: "s32 list"
  changed_document_key :: DocumentKey
  new_document :: "'v MutableDocument option"

datatype WatchTargetChangeState =
    NoChange
  | TargetAdded
  | TargetRemoved
  | TargetCurrent
  | TargetReset

record WatchTargetChange =
  watch_state :: WatchTargetChangeState
  watch_target_ids :: "s32 list"
  watch_resume_token :: bytes
  cause_ok :: bool

record ExistenceFilterWatchChange =
  filter_count :: s32
  filter_target_id :: s32

text \<open>What the aggregator reads of a target.\<close>

record 'f Target =
  target_path :: ResourcePath
  target_collection_group :: "bytes option"
  target_filters :: "'f list"

definition IsDocumentQuery :: "('f, 'z) Target_scheme \<Rightarrow> bool" where
  "IsDocumentQuery t \<longleftrightarrow> IsDocumentKey (target_path t) \<and> target_collection_group t = None \<and> target_filters t = []"

record ('f, 'z) TargetMetadataProvider =
  GetRemoteKeysForTarget :: "s32 \<Rightarrow> DocumentKeySet"
  GetTargetDataForTarget :: "s32 \<Rightarrow> ('f, 'z) Target_scheme TargetData option"

section \<open>The aggregator\<close>

record 'v WatchChangeAggregator =
  target_states :: "(s32 \<times> TargetState) list"
  pending_document_updates :: "(DocumentKey \<times> 'v MutableDocument) list"
  pending_document_target_mappings :: "(DocumentKey \<times> s32 set) list"
  pending_target_resets :: "s32 set"

definition WatchChangeAggregator_init :: "'v WatchChangeAggregator" where
  "WatchChangeAggregator_init = \<lparr>target_states = [], pending_document_updates = [],
     pending_document_target_mappings = [], pending_target_resets = {}\<rparr>"

definition state_of :: "s32 \<Rightarrow> 'v WatchChangeAggregator \<Rightarrow> TargetState" where
  "state_of i a = (case map_of (target_states a) i of None \<Rightarrow> TargetState_init | Some s \<Rightarrow> s)"

text \<open>\<open>EnsureTargetState\<close> gives a reference into the map: a write through it updates the map.\<close>

definition set_state :: "s32 \<Rightarrow> TargetState \<Rightarrow> 'v WatchChangeAggregator \<Rightarrow> 'v WatchChangeAggregator" where
  "set_state i s a = a\<lparr>target_states := AList.update i s (target_states a)\<rparr>"

definition EnsureTargetState :: "s32 \<Rightarrow> 'v WatchChangeAggregator \<Rightarrow> TargetState \<times> 'v WatchChangeAggregator" where
  "EnsureTargetState i a = (state_of i a, set_state i (state_of i a) a)"

definition TargetDataForActiveTarget ::
  "('f, 'z) TargetMetadataProvider \<Rightarrow> s32 \<Rightarrow> 'v WatchChangeAggregator \<Rightarrow> ('f, 'z) Target_scheme TargetData option" where
  "TargetDataForActiveTarget provider i a =
     (case map_of (target_states a) i of
        Some s \<Rightarrow> if IsPending s then None else GetTargetDataForTarget provider i
      | None \<Rightarrow> GetTargetDataForTarget provider i)"

definition IsActiveTarget :: "('f, 'z) TargetMetadataProvider \<Rightarrow> s32 \<Rightarrow> 'v WatchChangeAggregator \<Rightarrow> bool" where
  "IsActiveTarget provider i a \<longleftrightarrow> TargetDataForActiveTarget provider i a \<noteq> None"

definition TargetContainsDocument :: "('f, 'z) TargetMetadataProvider \<Rightarrow> s32 \<Rightarrow> DocumentKey \<Rightarrow> bool" where
  "TargetContainsDocument provider i key = set_contains key_CompareTo key (GetRemoteKeysForTarget provider i)"

definition map_document :: "DocumentKey \<Rightarrow> s32 \<Rightarrow> 'v WatchChangeAggregator \<Rightarrow> 'v WatchChangeAggregator" where
  "map_document key i a =
     (let ids = (case map_of (pending_document_target_mappings a) key of None \<Rightarrow> {} | Some ids \<Rightarrow> ids) in
      a\<lparr>pending_document_target_mappings :=
          AList.update key (insert i ids) (pending_document_target_mappings a)\<rparr>)"

definition AddDocumentToTarget ::
  "('f, 'z) TargetMetadataProvider \<Rightarrow> s32 \<Rightarrow> 'v MutableDocument \<Rightarrow> 'v WatchChangeAggregator \<Rightarrow> 'v WatchChangeAggregator" where
  "AddDocumentToTarget provider i document a =
     (if \<not> IsActiveTarget provider i a then a
      else
        let key = document_key document;
            change_type = (if TargetContainsDocument provider i key then Modified else Added);
            (s, a) = EnsureTargetState i a;
            a = set_state i (AddDocumentChange key change_type s) a;
            a = a\<lparr>pending_document_updates := AList.update key document (pending_document_updates a)\<rparr>
        in map_document key i a)"

definition RemoveDocumentFromTarget ::
  "('f, 'z) TargetMetadataProvider \<Rightarrow> s32 \<Rightarrow> DocumentKey \<Rightarrow> 'v MutableDocument option \<Rightarrow>
   'v WatchChangeAggregator \<Rightarrow> 'v WatchChangeAggregator" where
  "RemoveDocumentFromTarget provider i key updated_document a =
     (if \<not> IsActiveTarget provider i a then a
      else
        let (s, a) = EnsureTargetState i a;
            s = (if TargetContainsDocument provider i key then AddDocumentChange key Removed s
                 else RemoveDocumentChange key s);
            a = map_document key i (set_state i s a)
        in case updated_document of
             None \<Rightarrow> a
           | Some d \<Rightarrow> a\<lparr>pending_document_updates := AList.update key d (pending_document_updates a)\<rparr>)"

definition aggregator_RemoveTarget :: "s32 \<Rightarrow> 'v WatchChangeAggregator \<Rightarrow> 'v WatchChangeAggregator" where
  "aggregator_RemoveTarget i a = a\<lparr>target_states := AList.delete i (target_states a)\<rparr>"

definition aggregator_RecordPendingTargetRequest :: "s32 \<Rightarrow> 'v WatchChangeAggregator \<Rightarrow> 'v WatchChangeAggregator option" where
  "aggregator_RecordPendingTargetRequest i a = do {
     let (s, a) = EnsureTargetState i a;
     s \<leftarrow> RecordPendingTargetRequest s;
     Some (set_state i s a) }"

definition ResetTarget ::
  "('f, 'z) TargetMetadataProvider \<Rightarrow> s32 \<Rightarrow> 'v WatchChangeAggregator \<Rightarrow> 'v WatchChangeAggregator option" where
  "ResetTarget provider i a = do {
     _ \<leftarrow> HARD_ASSERT (case map_of (target_states a) i of None \<Rightarrow> False | Some s \<Rightarrow> \<not> IsPending s);
     let a = set_state i TargetState_init a;
     keys \<leftarrow> set_values (GetRemoteKeysForTarget provider i);
     Some (fold (\<lambda>key. RemoveDocumentFromTarget provider i key None) keys a) }"

definition GetTargetIds ::
  "('f, 'z) TargetMetadataProvider \<Rightarrow> WatchTargetChange \<Rightarrow> 'v WatchChangeAggregator \<Rightarrow> s32 list" where
  "GetTargetIds provider change a =
     (if watch_target_ids change \<noteq> [] then watch_target_ids change
      else filter (\<lambda>i. IsActiveTarget provider i a) (map fst (target_states a)))"

definition HandleDocumentChange ::
  "('f, 'z) TargetMetadataProvider \<Rightarrow> 'v DocumentWatchChange \<Rightarrow> 'v WatchChangeAggregator \<Rightarrow> 'v WatchChangeAggregator" where
  "HandleDocumentChange provider change a =
     (let a = fold (\<lambda>i a. case new_document change of
            None \<Rightarrow> a
          | Some d \<Rightarrow>
              if is_found_document d then AddDocumentToTarget provider i d a
              else if is_no_document d
                then RemoveDocumentFromTarget provider i (changed_document_key change) (new_document change) a
              else a) (updated_target_ids change) a
      in fold (\<lambda>i. RemoveDocumentFromTarget provider i (changed_document_key change) (new_document change))
           (removed_target_ids change) a)"

definition handle_target ::
  "('f, 'z) TargetMetadataProvider \<Rightarrow> WatchTargetChange \<Rightarrow> s32 \<Rightarrow> 'v WatchChangeAggregator \<Rightarrow>
   'v WatchChangeAggregator option" where
  "handle_target provider change i a = do {
     let (s, a) = EnsureTargetState i a;
     let token = watch_resume_token change;
     case watch_state change of
       NoChange \<Rightarrow> Some (if IsActiveTarget provider i a then set_state i (UpdateResumeToken token s) a else a)
     | TargetAdded \<Rightarrow> do {
         s \<leftarrow> RecordTargetResponse s;
         let s = (if \<not> IsPending s then ClearPendingChanges s else s);
         Some (set_state i (UpdateResumeToken token s) a) }
     | TargetRemoved \<Rightarrow> do {
         s \<leftarrow> RecordTargetResponse s;
         let a = set_state i s a;
         let a = (if \<not> IsPending s then aggregator_RemoveTarget i a else a);
         _ \<leftarrow> HARD_ASSERT (cause_ok change);
         Some a }
     | TargetCurrent \<Rightarrow>
         Some (if IsActiveTarget provider i a then set_state i (UpdateResumeToken token (MarkCurrent s)) a else a)
     | TargetReset \<Rightarrow>
         if IsActiveTarget provider i a then do {
           a \<leftarrow> ResetTarget provider i a;
           Some (set_state i (UpdateResumeToken token (state_of i a)) a) }
         else Some a }"

definition HandleTargetChange ::
  "('f, 'z) TargetMetadataProvider \<Rightarrow> WatchTargetChange \<Rightarrow> 'v WatchChangeAggregator \<Rightarrow> 'v WatchChangeAggregator option" where
  "HandleTargetChange provider change a =
     for_each (handle_target provider change) (GetTargetIds provider change a) a"

definition GetCurrentDocumentCountForTarget ::
  "('f, 'z) TargetMetadataProvider \<Rightarrow> s32 \<Rightarrow> 'v WatchChangeAggregator \<Rightarrow> (s32 \<times> 'v WatchChangeAggregator) option" where
  "GetCurrentDocumentCountForTarget provider i a = do {
     let (s, a) = EnsureTargetState i a;
     change \<leftarrow> ToTargetChange s;
     Some (set_size (GetRemoteKeysForTarget provider i) + set_size (added_documents change) -
           set_size (removed_documents change), a) }"

definition HandleExistenceFilter ::
  "('f, 'z) TargetMetadataProvider \<Rightarrow> ExistenceFilterWatchChange \<Rightarrow> ('v::default) WatchChangeAggregator \<Rightarrow>
   'v WatchChangeAggregator option" where
  "HandleExistenceFilter provider existence_filter a = (
     let i = filter_target_id existence_filter; expected_count = filter_count existence_filter in
     case TargetDataForActiveTarget provider i a of
       None \<Rightarrow> Some a
     | Some target_data \<Rightarrow>
         let target = data_target target_data in
         if IsDocumentQuery target then
           if expected_count = 0 then do {
             key \<leftarrow> make_DocumentKey (target_path target);
             Some (RemoveDocumentFromTarget provider i key (Some (NoDocument key SnapshotVersion_None)) a) }
           else do { _ \<leftarrow> HARD_ASSERT (expected_count = 1); Some a }
         else do {
           (current_size, a) \<leftarrow> GetCurrentDocumentCountForTarget provider i a;
           if current_size \<noteq> expected_count then do {
             a \<leftarrow> ResetTarget provider i a;
             Some (a\<lparr>pending_target_resets := insert i (pending_target_resets a)\<rparr>) }
           else Some a })"

record 'v RemoteEvent =
  event_snapshot_version :: SnapshotVersion
  target_changes :: "(s32 \<times> TargetChange) list"
  target_mismatches :: "s32 set"
  document_updates :: "(DocumentKey \<times> 'v MutableDocument) list"
  limbo_document_changes :: DocumentKeySet

text \<open>The body of the loop over the targets in \<open>CreateRemoteEvent\<close>.\<close>

definition collect_target ::
  "('f, 'z) TargetMetadataProvider \<Rightarrow> SnapshotVersion \<Rightarrow> s32 \<Rightarrow>
   (s32 \<times> TargetChange) list \<times> ('v::default) WatchChangeAggregator \<Rightarrow>
   ((s32 \<times> TargetChange) list \<times> 'v WatchChangeAggregator) option" where
  "collect_target provider version i = (\<lambda>(changes, a).
     case TargetDataForActiveTarget provider i a of
       None \<Rightarrow> Some (changes, a)
     | Some target_data \<Rightarrow> do {
         let target = data_target target_data;
         a \<leftarrow> (if state_current (state_of i a) \<and> IsDocumentQuery target then do {
               key \<leftarrow> make_DocumentKey (target_path target);
               Some (if map_of (pending_document_updates a) key = None \<and> \<not> TargetContainsDocument provider i key
                     then RemoveDocumentFromTarget provider i key (Some (NoDocument key version)) a
                     else a) }
             else Some a);
         let s = state_of i a;
         if has_pending_changes s then do {
           change \<leftarrow> ToTargetChange s;
           Some (AList.update i change changes, set_state i (ClearPendingChanges s) a) }
         else Some (changes, a) })"

definition is_only_limbo ::
  "('f, 'z) TargetMetadataProvider \<Rightarrow> s32 set \<Rightarrow> 'v WatchChangeAggregator \<Rightarrow> bool" where
  "is_only_limbo provider ids a \<longleftrightarrow> (\<forall>i \<in> ids. case TargetDataForActiveTarget provider i a of
     None \<Rightarrow> True | Some d \<Rightarrow> purpose d = LimboResolution)"

definition CreateRemoteEvent ::
  "('f, 'z) TargetMetadataProvider \<Rightarrow> SnapshotVersion \<Rightarrow> ('v::default) WatchChangeAggregator \<Rightarrow>
   ('v RemoteEvent \<times> 'v WatchChangeAggregator) option" where
  "CreateRemoteEvent provider version a = do {
     (changes, a) \<leftarrow> for_each (collect_target provider version) (map fst (target_states a)) ([], a);
     resolved \<leftarrow> for_each (\<lambda>(key, ids) resolved.
         if is_only_limbo provider ids a then set_insert key_CompareTo key resolved else Some resolved)
       (pending_document_target_mappings a) set_init;
     Some (\<lparr>event_snapshot_version = version, target_changes = changes,
            target_mismatches = pending_target_resets a, document_updates = pending_document_updates a,
            limbo_document_changes = resolved\<rparr>,
           a\<lparr>pending_document_updates := [], pending_document_target_mappings := [],
             pending_target_resets := {}\<rparr>) }"

end
