(* ===== verification/LocalStore.thy ===== *)
theory LocalStore
  imports MemoryPersistence RemoteEvents
begin

text \<open>
  \<open>Firestore/core/src/local/local_store.cc\<close> over the persistence in memory, with the views of
  \<open>local/local_documents_view.cc\<close> by key, the batches of \<open>model/mutation_batch.cc\<close>, the target ids of
  \<open>core/target_id_generator.cc\<close> and the bundle cache \<open>local/memory_bundle_cache.cc\<close>.  The effect of a
  single mutation on a document is a parameter.  The set \<open>local_view_references_\<close> is kept
  where the persistence points to it.  Queries over collections are not modelled here.
\<close>

section \<open>Target ids\<close>

datatype TargetIdGeneratorId = TargetCacheId | SyncEngineId

fun generator_bit :: "TargetIdGeneratorId \<Rightarrow> s32" where
  "generator_bit TargetCacheId = 0"
| "generator_bit SyncEngineId = 1"

record TargetIdGenerator =
  generator_id :: TargetIdGeneratorId
  next_id :: s32

definition seek :: "s32 \<Rightarrow> TargetIdGenerator \<Rightarrow> TargetIdGenerator option" where
  "seek i g = do {
     let generator = generator_bit (generator_id g);
     _ \<leftarrow> HARD_ASSERT (i AND generator = generator);
     Some (g\<lparr>next_id := i\<rparr>) }"

definition NextId :: "TargetIdGenerator \<Rightarrow> (s32 \<times> TargetIdGenerator) option" where
  "NextId g = do {
     let i = next_id g;
     n \<leftarrow> sadd32 i 2;
     Some (i, g\<lparr>next_id := n\<rparr>) }"

definition make_TargetIdGenerator :: "TargetIdGeneratorId \<Rightarrow> s32 \<Rightarrow> TargetIdGenerator option" where
  "make_TargetIdGenerator generator seed = seek seed \<lparr>generator_id = generator, next_id = 0\<rparr>"

definition TargetCacheTargetIdGenerator :: "s32 \<Rightarrow> TargetIdGenerator option" where
  "TargetCacheTargetIdGenerator after = do {
     g \<leftarrow> make_TargetIdGenerator TargetCacheId after;
     (_, g) \<leftarrow> NextId g;
     Some g }"

definition SyncEngineTargetIdGenerator :: "TargetIdGenerator option" where
  "SyncEngineTargetIdGenerator = make_TargetIdGenerator SyncEngineId 1"

section \<open>Applying batches\<close>

record MutationResult =
  result_version :: SnapshotVersion

record ('m, 'v, 'r) MutationEffects =
  ApplyToLocalView :: "'m Mutation \<Rightarrow> 'v MutableDocument \<Rightarrow> Timestamp \<Rightarrow> 'v MutableDocument"
  ApplyToRemoteDocument :: "'m Mutation \<Rightarrow> 'v MutableDocument \<Rightarrow> 'r MutationResult_scheme \<Rightarrow> 'v MutableDocument"
  base_mutation :: "'m Mutation \<Rightarrow> 'v MutableDocument \<Rightarrow> 'm Mutation option"

record ('m, 'r) MutationBatchResult =
  result_batch :: "'m MutationBatch"
  commit_version :: SnapshotVersion
  mutation_results :: "'r MutationResult_scheme list"
  result_stream_token :: bytes
  doc_versions :: "(DocumentKey \<times> SnapshotVersion) list"

definition make_MutationBatchResult ::
  "'m MutationBatch \<Rightarrow> SnapshotVersion \<Rightarrow> 'r MutationResult_scheme list \<Rightarrow> bytes \<Rightarrow> ('m, 'r) MutationBatchResult option" where
  "make_MutationBatchResult batch version results token = do {
     _ \<leftarrow> HARD_ASSERT (length (mutations batch) = length results);
     let versions = fold (\<lambda>(m, r). AList.update (mutation_key m)
           (case Some (result_version r) of Some v \<Rightarrow> v | None \<Rightarrow> version)) (zip (mutations batch) results) [];
     Some \<lparr>result_batch = batch, commit_version = version, mutation_results = results,
           result_stream_token = token, doc_versions = versions\<rparr> }"

definition batch_ApplyToRemoteDocument ::
  "('m, 'v, 'r) MutationEffects \<Rightarrow> ('m, 'r) MutationBatchResult \<Rightarrow> 'm MutationBatch \<Rightarrow> 'v MutableDocument \<Rightarrow>
   'v MutableDocument option" where
  "batch_ApplyToRemoteDocument eff result batch document = do {
     _ \<leftarrow> HARD_ASSERT (length (mutation_results result) = length (mutations batch));
     Some (fold (\<lambda>(m, r) d. if mutation_key m = document_key d then ApplyToRemoteDocument eff m d r else d)
       (zip (mutations batch) (mutation_results result)) document) }"

definition batch_ApplyToLocalDocument ::
  "('m, 'v, 'r) MutationEffects \<Rightarrow> 'm MutationBatch \<Rightarrow> 'v MutableDocument \<Rightarrow> 'v MutableDocument" where
  "batch_ApplyToLocalDocument eff batch document =
     (let apply_all = fold (\<lambda>m d. if mutation_key m = document_key d
            then ApplyToLocalView eff m d (local_write_time batch) else d)
      in apply_all (mutations batch) (apply_all (base_mutations batch) document))"

definition batch_ApplyToLocalDocumentSet ::
  "('m, 'v, 'r) MutationEffects \<Rightarrow> 'm MutationBatch \<Rightarrow> ('v::default) MutableDocumentMap \<Rightarrow>
   'v MutableDocumentMap option" where
  "batch_ApplyToLocalDocumentSet eff batch document_map =
     for_each (\<lambda>m document_map. do {
         let key = mutation_key m;
         found \<leftarrow> sm_get key_CompareTo key document_map;
         document \<leftarrow> found;
         let document = batch_ApplyToLocalDocument eff batch document;
         let document = (if \<not> is_valid_document document
                         then ConvertToNoDocument SnapshotVersion_None document else document);
         sm_insert key_CompareTo key document document_map }) (mutations batch) document_map"

section \<open>The local view of documents\<close>

definition view_GetDocument ::
  "('m, 'v, 'r) MutationEffects \<Rightarrow> DocumentKey \<Rightarrow> ('v::default) Documents \<Rightarrow> 'm MemoryMutationQueue \<Rightarrow>
   'v MutableDocument option" where
  "view_GetDocument eff key ds q = do {
     batches \<leftarrow> AllMutationBatchesAffectingDocumentKey key q;
     document \<leftarrow> documents_Get key ds;
     Some (fold (batch_ApplyToLocalDocument eff) batches document) }"

definition ApplyLocalMutationsToDocuments ::
  "('m, 'v, 'r) MutationEffects \<Rightarrow> ('v::default) MutableDocumentMap \<Rightarrow> 'm MutationBatch list \<Rightarrow>
   'v MutableDocumentMap option" where
  "ApplyLocalMutationsToDocuments eff ds batches = do {
     es \<leftarrow> walk_range (sm_keys ds);
     for_each (\<lambda>(key, d). sm_insert key_CompareTo key (fold (batch_ApplyToLocalDocument eff) batches d))
       es sm_init }"

definition GetLocalViewOfDocuments ::
  "('m, 'v, 'r) MutationEffects \<Rightarrow> ('v::default) MutableDocumentMap \<Rightarrow> 'm MemoryMutationQueue \<Rightarrow>
   'v MutableDocumentMap option" where
  "GetLocalViewOfDocuments eff ds q = do {
     es \<leftarrow> walk_range (sm_keys ds);
     all_keys \<leftarrow> for_each (\<lambda>(key, _). set_insert key_CompareTo key) es set_init;
     batches \<leftarrow> AllMutationBatchesAffectingDocumentKeys all_keys q;
     ApplyLocalMutationsToDocuments eff ds batches }"

definition view_GetDocuments ::
  "('m, 'v, 'r) MutationEffects \<Rightarrow> DocumentKeySet \<Rightarrow> ('v::default) Documents \<Rightarrow> 'm MemoryMutationQueue \<Rightarrow>
   'v MutableDocumentMap option" where
  "view_GetDocuments eff keys ds q = do {
     ds \<leftarrow> documents_GetAll keys ds;
     GetLocalViewOfDocuments eff ds q }"

section \<open>Bundles\<close>

record BundleMetadata =
  bundle_id :: bytes
  bundle_version :: u32
  create_time :: SnapshotVersion
  total_documents :: u32
  total_bytes :: u64

text \<open>Of the query of a bundle, the local store only uses the target.\<close>

record 't NamedQuery =
  query_name :: bytes
  bundled_target :: 't
  read_time :: SnapshotVersion

record 't MemoryBundleCache =
  bundles :: "(bytes \<times> BundleMetadata) list"
  named_queries :: "(bytes \<times> 't NamedQuery) list"

definition GetBundleMetadata :: "bytes \<Rightarrow> 't MemoryBundleCache \<Rightarrow> BundleMetadata option" where
  "GetBundleMetadata i c = map_of (bundles c) i"

definition SaveBundleMetadata :: "BundleMetadata \<Rightarrow> 't MemoryBundleCache \<Rightarrow> 't MemoryBundleCache" where
  "SaveBundleMetadata metadata c = c\<lparr>bundles := AList.update (bundle_id metadata) metadata (bundles c)\<rparr>"

definition cache_GetNamedQuery :: "bytes \<Rightarrow> 't MemoryBundleCache \<Rightarrow> 't NamedQuery option" where
  "cache_GetNamedQuery name c = map_of (named_queries c) name"

definition cache_SaveNamedQuery :: "'t NamedQuery \<Rightarrow> 't MemoryBundleCache \<Rightarrow> 't MemoryBundleCache" where
  "cache_SaveNamedQuery query c = c\<lparr>named_queries := AList.update (query_name query) query (named_queries c)\<rparr>"

section \<open>The local store\<close>

record ('t, 'v, 'm) LocalStore =
  persistence :: "('t, 'v, 'm) MemoryPersistence"
  bundle_cache :: "'t MemoryBundleCache"
  mutation_user :: User
  target_id_generator :: TargetIdGenerator
  target_data_by_target :: "(s32 \<times> 't TargetData) list"
  target_id_by_target :: "('t \<times> s32) list"

type_synonym ('t, 'v, 'm) block = "('t, 'v, 'm) LocalStore \<Rightarrow> ('t, 'v, 'm) LocalStore option"

text \<open>\<open>persistence_->Run\<close> of a block of the local store with a result.\<close>

definition Run ::
  "(('t, 'v::default, 'm) LocalStore \<Rightarrow> ('r \<times> ('t, 'v, 'm) LocalStore) option) \<Rightarrow> ('t, 'v, 'm) LocalStore \<Rightarrow>
   ('r \<times> ('t, 'v, 'm) LocalStore) option" where
  "Run block s = do {
     p \<leftarrow> OnTransactionStarted (persistence s);
     (result, s) \<leftarrow> block (s\<lparr>persistence := p\<rparr>);
     p \<leftarrow> OnTransactionCommitted (persistence s);
     Some (result, s\<lparr>persistence := p\<rparr>) }"

definition with_persistence ::
  "(('t, 'v, 'm) MemoryPersistence \<Rightarrow> ('t, 'v, 'm) MemoryPersistence option) \<Rightarrow> ('t, 'v, 'm) block" where
  "with_persistence f s = do { p \<leftarrow> f (persistence s); Some (s\<lparr>persistence := p\<rparr>) }"

definition with_cache :: "('t MemoryTargetCache \<Rightarrow> 't MemoryTargetCache) \<Rightarrow> ('t, 'v, 'm) LocalStore \<Rightarrow> ('t, 'v, 'm) LocalStore" where
  "with_cache f s = s\<lparr>persistence := (persistence s)\<lparr>target_cache := f (target_cache (persistence s))\<rparr>\<rparr>"

definition mutation_queue :: "('t, 'v, 'm) LocalStore \<Rightarrow> 'm MemoryMutationQueue" where
  "mutation_queue s = fst (GetMutationQueueForUser (mutation_user s) (persistence s))"

definition with_queue ::
  "('m MemoryMutationQueue \<Rightarrow> 'm MemoryMutationQueue option) \<Rightarrow> ('t, 'v, 'm) block" where
  "with_queue f s = do {
     q \<leftarrow> f (mutation_queue s);
     Some (s\<lparr>persistence := (persistence s)\<lparr>mutation_queues :=
        AList.update (mutation_user s) q (mutation_queues (persistence s))\<rparr>\<rparr>) }"

definition make_LocalStore ::
  "('t, 'v, 'm) MemoryPersistence \<Rightarrow> 't MemoryBundleCache \<Rightarrow> User \<Rightarrow> ('t, 'v, 'm) LocalStore option" where
  "make_LocalStore p bundles_cache initial_user = do {
     let p = snd (GetMutationQueueForUser initial_user p);
     let p = AddInMemoryPins (Some ReferenceSet_init) p;
     g \<leftarrow> TargetCacheTargetIdGenerator 0;
     Some \<lparr>persistence = p, bundle_cache = bundles_cache, mutation_user = initial_user,
           target_id_generator = g, target_data_by_target = [], target_id_by_target = []\<rparr> }"

definition StartMutationQueue :: "('t, 'v::default, 'm) block" where
  "StartMutationQueue s = map_option snd (Run (\<lambda>s. do { s \<leftarrow> with_queue (\<lambda>q. Some (queue_Start q)) s; Some ((), s) }) s)"

definition LocalStore_Start :: "('t, 'v::default, 'm) block" where
  "LocalStore_Start s = do {
     s \<leftarrow> StartMutationQueue s;
     let i = highest_target_id (target_cache (persistence s));
     g \<leftarrow> TargetCacheTargetIdGenerator i;
     Some (s\<lparr>target_id_generator := g\<rparr>) }"

definition AllocateTarget :: "'t \<Rightarrow> ('t, 'v::default, 'm) LocalStore \<Rightarrow> ('t TargetData \<times> ('t, 'v, 'm) LocalStore) option" where
  "AllocateTarget target s = do {
     (target_data, s) \<leftarrow> Run (\<lambda>s. case GetTarget target (target_cache (persistence s)) of
         Some d \<Rightarrow> Some (d, s)
       | None \<Rightarrow> do {
           (i, g) \<leftarrow> NextId (target_id_generator s);
           n \<leftarrow> delegate_current_sequence_number (reference_delegate (persistence s));
           let d = make_TargetData target i n Listen;
           Some (d, with_cache (AddTarget d) (s\<lparr>target_id_generator := g\<rparr>)) }) s;
     let i = target_id target_data;
     Some (target_data,
       if map_of (target_data_by_target s) i = None
       then s\<lparr>target_data_by_target := AList.update i target_data (target_data_by_target s),
              target_id_by_target := AList.update (data_target target_data) i (target_id_by_target s)\<rparr>
       else s) }"

text \<open>The changes of \<open>local_view_references_\<close>.\<close>

definition with_view_references ::
  "(ReferenceSet \<Rightarrow> ('r \<times> ReferenceSet) option) \<Rightarrow> ('t, 'v, 'm) MemoryPersistence \<Rightarrow>
   ('r \<times> ('t, 'v, 'm) MemoryPersistence) option" where
  "with_view_references f p = do {
     rs \<leftarrow> additional_references p;
     (r, rs) \<leftarrow> f rs;
     Some (r, p\<lparr>additional_references := Some rs\<rparr>) }"

definition with_delegate ::
  "(ReferenceDelegate \<Rightarrow> ReferenceDelegate option) \<Rightarrow> ('t, 'v, 'm) MemoryPersistence \<Rightarrow>
   ('t, 'v, 'm) MemoryPersistence option" where
  "with_delegate f p = do { d \<leftarrow> f (reference_delegate p); Some (p\<lparr>reference_delegate := d\<rparr>) }"

definition release_references :: "s32 \<Rightarrow> ('t, 'v, 'm) MemoryPersistence \<Rightarrow> ('t, 'v, 'm) MemoryPersistence option" where
  "release_references i p = do {
     (removed, p) \<leftarrow> with_view_references (RemoveReferences_of_id i) p;
     keys \<leftarrow> set_values removed;
     with_delegate (for_each delegate_RemoveReference keys) p }"

definition ReleaseTarget :: "s32 \<Rightarrow> ('t, 'v::default, 'm) block" where
  "ReleaseTarget i s = map_option snd (Run (\<lambda>s. do {
     target_data \<leftarrow> map_of (target_data_by_target s) i;
     s \<leftarrow> with_persistence (release_references (target_id target_data)) s;
     s \<leftarrow> with_persistence (delegate_RemoveTarget target_data) s;
     Some ((), s\<lparr>target_data_by_target := AList.delete i (target_data_by_target s),
                 target_id_by_target := AList.delete (data_target target_data) (target_id_by_target s)\<rparr>) }) s)"

record LocalViewChanges =
  view_target_id :: s32
  is_from_cache :: bool
  added_keys :: DocumentKeySet
  removed_keys :: DocumentKeySet

definition change_references :: "LocalViewChanges \<Rightarrow> ('t, 'v, 'm) MemoryPersistence \<Rightarrow> ('t, 'v, 'm) MemoryPersistence option" where
  "change_references change p = do {
     let i = view_target_id change;
     keys \<leftarrow> set_values (removed_keys change);
     p \<leftarrow> with_delegate (for_each delegate_RemoveReference keys) p;
     (_, p) \<leftarrow> with_view_references (\<lambda>rs. do {
         rs \<leftarrow> AddReferences (added_keys change) i rs;
         rs \<leftarrow> RemoveReferences (removed_keys change) i rs;
         Some ((), rs) }) p;
     Some p }"

definition NotifyLocalViewChanges :: "LocalViewChanges list \<Rightarrow> ('t, 'v::default, 'm) block" where
  "NotifyLocalViewChanges view_changes s = map_option snd (Run (\<lambda>s. do {
     s \<leftarrow> for_each (\<lambda>change s. do {
         s \<leftarrow> with_persistence (change_references change) s;
         let i = view_target_id change;
         if \<not> is_from_cache change then do {
           target_data \<leftarrow> map_of (target_data_by_target s) i;
           let updated = WithLastLimboFreeSnapshotVersion (snapshot_version target_data) target_data;
           Some (s\<lparr>target_data_by_target := AList.update i updated (target_data_by_target s)\<rparr>) }
         else Some s }) view_changes s;
     Some ((), s) }) s)"

end
