(* ===== verification/ReferenceSetSpec.thy ===== *)
theory ReferenceSetSpec
  imports DocumentReferences SortedRanges
begin

text \<open>
  The reference set as a relation between documents and ids: both sorted sets hold the same
  references, every operation acts on the relation, and a question about a key or an id is one
  about the relation.
\<close>

section \<open>Comparators\<close>

lemma CompareContainer_Compare: "CompareContainer xs ys = Compare xs ys"
  by (induction xs ys rule: CompareContainer.induct) (auto simp: Compare_def Let_def)

lemma key_CompareTo_Compare [simp]: "key_CompareTo = Compare"
  by (intro ext) (simp add: key_CompareTo_def path_CompareTo_def CompareContainer_Compare)

lemma ByKey_Compare_Compare [simp]: "ByKey_Compare = Compare"
proof (intro ext)
  fix a b show "ByKey_Compare a b = Compare a b"
    by (cases a; cases b) (auto simp: CompareInt32_def Compare_def less_ByKey_def Let_def)
qed

lemma ById_Compare_Compare [simp]: "ById_Compare = Compare"
proof (intro ext)
  fix a b show "ById_Compare a b = Compare a b"
    by (cases a; cases b) (auto simp: CompareInt32_def Compare_def less_ById_def Let_def)
qed

section \<open>Sorted sets\<close>

lemma set_init_keys [simp]: "sm_wf set_init" "keys_of set_init = {}" "sm_entries set_init = []"
  by (simp_all add: set_init_def keys_of_def)

lemma set_insert_keys:
  assumes "sm_wf s" "card (keys_of s) < 2 ^ 31 - 1"
  shows "\<exists>u. set_insert Compare k s = Some u \<and> sm_wf u \<and> keys_of u = insert k (keys_of s)"
proof -
  have "length (sm_entries s) < 2 ^ 31 - 1" using assms card_keys [OF assms(1)] by simp
  from sm.insert_entries [OF assms(1) this, of k Empty] show ?thesis
    by (auto simp: set_insert_def keys_of_def inserted_def image_Un image_iff) (metis fst_conv neqE)+
qed

lemma set_erase_keys:
  assumes "sm_wf s"
  shows "\<exists>u. set_erase Compare k s = Some u \<and> sm_wf u \<and> keys_of u = keys_of s - {k}"
  using sm.erase_entries [OF assms, of k] by (auto simp: set_erase_def keys_of_def erased_def)

lemma sorted_filter_keys:
  assumes "sm_wf s"
  shows "map fst (filter (\<lambda>p. P (fst p)) (sm_entries s)) = sorted_list_of_set {k \<in> keys_of s. P k}"
proof -
  have s: "sorted_entries (filter (\<lambda>p. P (fst p)) (sm_entries s))"
    by (rule sorted_filter [OF sm.sorted [OF assms]])
  have "set (map fst (filter (\<lambda>p. P (fst p)) (sm_entries s))) = {k \<in> keys_of s. P k}"
    by (auto simp: keys_of_def)
  with s show ?thesis by (metis sorted_list_of_set.idem_if_sorted_distinct strict_sorted_iff)
qed

lemma set_range_keys:
  assumes "sm_wf s"
  shows "\<exists>es. walk_range (set_values_from Compare a s) = Some es \<and>
      map fst es = sorted_list_of_set {k \<in> keys_of s. a \<le> k}"
    "\<exists>es. walk_range (set_values_in Compare a b s) = Some es \<and>
      map fst es = sorted_list_of_set {k \<in> keys_of s. a \<le> k \<and> k < b}"
  using sorted_filter_keys [OF assms, of "\<lambda>k. a \<le> k"] sorted_filter_keys [OF assms, of "\<lambda>k. a \<le> k \<and> k < b"]
  by (simp_all add: set_values_from_def set_values_in_def keys_entries(2) [OF assms] keys_in_entries [OF assms])

lemma set_values_list: "sm_wf s \<Longrightarrow> set_values s = Some ks \<Longrightarrow> set ks = keys_of s \<and> distinct ks"
  by (auto simp: set_values_keys)

section \<open>Loops\<close>

text \<open>
  A loop whose body refines \<open>g\<close>, under an invariant that leaves room for one insertion less
  after each round.
\<close>

lemma for_each_fold:
  assumes "\<And>x s n. x \<in> set xs \<Longrightarrow> ok (Suc n) s \<Longrightarrow> \<exists>s'. f x s = Some s' \<and> ok n s' \<and> abst s' = g x (abst s)"
  shows "ok (n + length xs) s \<Longrightarrow> \<exists>s'. for_each f xs s = Some s' \<and> ok n s' \<and> abst s' = fold g xs (abst s)"
  using assms
proof (induction xs arbitrary: s)
  case (Cons x xs)
  obtain s' where s': "f x s = Some s'" "ok (n + length xs) s'" "abst s' = g x (abst s)"
    using Cons.prems(2) [of x "n + length xs" s] Cons.prems(1) by auto
  with Cons.IH [of s'] Cons.prems(2) show ?case by auto
qed simp

lemma fold_insert_set: "fold (\<lambda>x. insert (h x)) xs A = h ` set xs \<union> A"
  by (induction xs arbitrary: A) auto

lemma fold_remove_set: "fold (\<lambda>x A. A - {h x}) xs A = A - h ` set xs"
  by (induction xs arbitrary: A) auto

section \<open>The relation\<close>

type_synonym reference_relation = "(DocumentKey \<times> s32) set"

abbreviation reference :: "DocumentKey \<times> s32 \<Rightarrow> DocumentKeyReference" where
  "reference p \<equiv> \<lparr>ref_key = fst p, ref_id = snd p\<rparr>"

definition key_refs :: "ByKey SortedSet \<Rightarrow> reference_relation" where
  "key_refs s = {p. ByKey (reference p) \<in> keys_of s}"

definition refs :: "ReferenceSet \<Rightarrow> reference_relation" where
  "refs rs = key_refs (by_key rs)"

definition id_refs :: "ById SortedSet \<Rightarrow> reference_relation" where
  "id_refs s = {p. ById (reference p) \<in> keys_of s}"

text \<open>Well-formed, with room for \<open>n\<close> more references.\<close>

definition rs_ok :: "nat \<Rightarrow> ReferenceSet \<Rightarrow> bool" where
  "rs_ok n rs \<longleftrightarrow> sm_wf (by_key rs) \<and> sm_wf (by_id rs) \<and> id_refs (by_id rs) = refs rs \<and>
     card (refs rs) + n < 2 ^ 31"

lemma reference_eta [simp]: "\<lparr>ref_key = ref_key r, ref_id = ref_id r\<rparr> = r"
  by (cases r) simp

lemma key_refs_image: "keys_of s = (\<lambda>p. ByKey (reference p)) ` key_refs s"
proof -
  have "k \<in> (\<lambda>p. ByKey (reference p)) ` key_refs s" if "k \<in> keys_of s" for k
    using that by (cases k) (auto simp: key_refs_def intro!: image_eqI [of _ _ "(ref_key (by_key_ref k), ref_id (by_key_ref k))"])
  then show ?thesis by (auto simp: key_refs_def)
qed

lemma id_refs_image: "keys_of s = (\<lambda>p. ById (reference p)) ` id_refs s"
proof -
  have "k \<in> (\<lambda>p. ById (reference p)) ` id_refs s" if "k \<in> keys_of s" for k
    using that by (cases k) (auto simp: id_refs_def intro!: image_eqI [of _ _ "(ref_key (by_id_ref k), ref_id (by_id_ref k))"])
  then show ?thesis by (auto simp: id_refs_def)
qed

lemma reference_inj: "inj_on (\<lambda>p. ByKey (reference p)) A" "inj_on (\<lambda>p. ById (reference p)) A"
  by (auto simp: inj_on_def prod_eq_iff)

lemma card_key_refs: "card (keys_of s) = card (key_refs s)"
  using card_image [OF reference_inj(1), of "key_refs s"] by (simp flip: key_refs_image)

lemma card_id_refs: "card (keys_of s) = card (id_refs s)"
  using card_image [OF reference_inj(2), of "id_refs s"] by (simp flip: id_refs_image)

lemma finite_key_refs [simp]: "finite (key_refs s)"
  by (rule finite_imageD [OF _ reference_inj(1)]) (simp flip: key_refs_image)

lemma finite_refs [simp]: "finite (refs rs)"
  by (simp add: refs_def)


section \<open>The operations\<close>

lemma key_refs_insert: "keys_of u = insert (ByKey r) (keys_of s) \<Longrightarrow> key_refs u = insert (ref_key r, ref_id r) (key_refs s)"
  by (cases r) (auto simp: key_refs_def)

lemma id_refs_insert: "keys_of u = insert (ById r) (keys_of s) \<Longrightarrow> id_refs u = insert (ref_key r, ref_id r) (id_refs s)"
  by (cases r) (auto simp: id_refs_def)

lemma key_refs_erase: "keys_of u = keys_of s - {ByKey r} \<Longrightarrow> key_refs u = key_refs s - {(ref_key r, ref_id r)}"
  by (cases r) (simp add: key_refs_def set_eq_iff)

lemma id_refs_erase: "keys_of u = keys_of s - {ById r} \<Longrightarrow> id_refs u = id_refs s - {(ref_key r, ref_id r)}"
  by (cases r) (simp add: id_refs_def set_eq_iff)

lemma rs_ok_init: "n < 2 ^ 31 \<Longrightarrow> rs_ok n ReferenceSet_init \<and> refs ReferenceSet_init = {}"
  by (auto simp: rs_ok_def refs_def ReferenceSet_init_def key_refs_def id_refs_def)

lemma rs_ok_mono: "rs_ok n rs \<Longrightarrow> m \<le> n \<Longrightarrow> rs_ok m rs"
  by (simp add: rs_ok_def)

lemma AddReference_refs:
  assumes "rs_ok (Suc n) rs"
  shows "\<exists>rs'. AddReference key i rs = Some rs' \<and> rs_ok n rs' \<and> refs rs' = insert (key, i) (refs rs)"
proof -
  let ?r = "\<lparr>ref_key = key, ref_id = i\<rparr>"
  have wf: "sm_wf (by_key rs)" "sm_wf (by_id rs)" and refs: "id_refs (by_id rs) = refs rs"
    and len: "card (refs rs) < 2 ^ 31 - 1" using assms by (simp_all add: rs_ok_def)
  have lens: "card (keys_of (by_key rs)) < 2 ^ 31 - 1" "card (keys_of (by_id rs)) < 2 ^ 31 - 1"
    using len refs by (simp_all add: card_key_refs card_id_refs refs_def)
  obtain u where u: "set_insert Compare (ByKey ?r) (by_key rs) = Some u" "sm_wf u"
    "key_refs u = insert (key, i) (refs rs)"
    using set_insert_keys [OF wf(1) lens(1), of "ByKey ?r"] key_refs_insert [of _ ?r "by_key rs"] by (auto simp: refs_def)
  obtain v where v: "set_insert Compare (ById ?r) (by_id rs) = Some v" "sm_wf v"
    "id_refs v = insert (key, i) (refs rs)"
    using set_insert_keys [OF wf(2) lens(2), of "ById ?r"] id_refs_insert [of _ ?r "by_id rs"] refs by auto
  have "card (insert (key, i) (refs rs)) \<le> Suc (card (refs rs))" by (simp add: card_insert_if)
  then have "card (insert (key, i) (refs rs)) + n < 2 ^ 31" using assms by (simp add: rs_ok_def)
  with u v show ?thesis by (simp add: AddReference_def rs_ok_def refs_def)
qed

lemma remove_reference_refs:
  assumes "rs_ok n rs"
  shows "\<exists>rs'. remove_reference r rs = Some rs' \<and> rs_ok n rs' \<and> refs rs' = refs rs - {(ref_key r, ref_id r)}"
proof -
  have wf: "sm_wf (by_key rs)" "sm_wf (by_id rs)" and refs: "id_refs (by_id rs) = refs rs"
    using assms by (simp_all add: rs_ok_def)
  obtain u where u: "set_erase Compare (ByKey r) (by_key rs) = Some u" "sm_wf u"
    "key_refs u = refs rs - {(ref_key r, ref_id r)}"
    using set_erase_keys [OF wf(1), of "ByKey r"] key_refs_erase [of _ "by_key rs" r] by (auto simp: refs_def)
  obtain v where v: "set_erase Compare (ById r) (by_id rs) = Some v" "sm_wf v"
    "id_refs v = refs rs - {(ref_key r, ref_id r)}"
    using set_erase_keys [OF wf(2), of "ById r"] id_refs_erase [of _ "by_id rs" r] refs by auto
  have "card (refs rs - {(ref_key r, ref_id r)}) \<le> card (refs rs)" by (simp add: card_mono)
  then have "card (refs rs - {(ref_key r, ref_id r)}) + n < 2 ^ 31" using assms by (simp add: rs_ok_def)
  with u v show ?thesis by (simp add: remove_reference_def rs_ok_def refs_def)
qed

lemma AddReferences_refs:
  assumes "rs_ok (n + card (keys_of keys)) rs" "sm_wf keys"
  shows "\<exists>rs'. AddReferences keys i rs = Some rs' \<and> rs_ok n rs' \<and> refs rs' = refs rs \<union> keys_of keys \<times> {i}"
proof -
  obtain ks where ks: "set_values keys = Some ks" "set ks = keys_of keys" "length ks = card (keys_of keys)"
    using set_values_keys [OF assms(2)] by simp
  then have "rs_ok (n + length ks) rs" using assms(1) by simp
  from for_each_fold [where ok = rs_ok and abst = refs and g = "\<lambda>k. insert (k, i)", OF AddReference_refs this]
  obtain rs' where "for_each (\<lambda>key. AddReference key i) ks rs = Some rs'" "rs_ok n rs'"
    "refs rs' = (\<lambda>k. (k, i)) ` set ks \<union> refs rs"
    by (auto simp: fold_insert_set)
  with ks show ?thesis by (auto simp: AddReferences_def)
qed

lemma remove_references_refs:
  assumes "rs_ok n rs"
  shows "\<exists>rs'. for_each remove_reference rr rs = Some rs' \<and> rs_ok n rs' \<and>
    refs rs' = refs rs - (\<lambda>r. (ref_key r, ref_id r)) ` set rr"
  using assms
proof (induction rr arbitrary: rs)
  case (Cons r rr)
  from remove_reference_refs [OF Cons.prems, of r] Cons.IH show ?case by fastforce
qed simp

lemma for_each_map: "for_each f (map h xs) s = for_each (\<lambda>x. f (h x)) xs s"
  by (induction xs arbitrary: s) simp_all

lemma RemoveReferences_refs:
  assumes "rs_ok n rs" "sm_wf keys"
  shows "\<exists>rs'. RemoveReferences keys i rs = Some rs' \<and> rs_ok n rs' \<and> refs rs' = refs rs - keys_of keys \<times> {i}"
proof -
  obtain ks where ks: "set_values keys = Some ks" "set ks = keys_of keys"
    using set_values_keys [OF assms(2)] by simp
  from remove_references_refs [OF assms(1), of "map (\<lambda>k. \<lparr>ref_key = k, ref_id = i\<rparr>) ks"]
  obtain rs' where "for_each (\<lambda>k. RemoveReference k i) ks rs = Some rs'" "rs_ok n rs'"
    "refs rs' = refs rs - (\<lambda>k. (k, i)) ` set ks"
    by (auto simp: for_each_map RemoveReference_def [abs_def] image_image)
  with ks show ?thesis by (auto simp: RemoveReferences_def)
qed


section \<open>Questions about ids and keys\<close>

lemma s32_range: "- (2 ^ 31) \<le> sint (x :: s32)" "sint (x :: s32) < 2 ^ 31"
  using sint_ge [of x] sint_lt [of x] by simp_all

lemma sint_s32_add: "- (2 ^ 31) \<le> sint a + sint b \<Longrightarrow> sint a + sint b < 2 ^ 31 \<Longrightarrow> sint (a + b :: s32) = sint a + sint b"
  by (simp add: sint_word_ariths signed_take_bit_int_eq_self)

lemma sadd32_1:
  assumes "sint (i :: s32) < 2 ^ 31 - 1"
  shows "sadd32 i 1 = Some (i + 1) \<and> sint (i + 1) = sint i + 1"
  using assms s32_range [of i] sint_s32_add [of i 1] by (simp add: sadd32_def)

lemma id_range:
  assumes "sint i < 2 ^ 31 - 1"
  shows "ById \<lparr>ref_key = [], ref_id = i\<rparr> \<le> ById r \<and> ById r < ById \<lparr>ref_key = [], ref_id = i + 1\<rparr> \<longleftrightarrow> ref_id r = i"
proof -
  have "sint (i + 1) = sint i + 1" using sadd32_1 [OF assms] by simp
  then have "ById \<lparr>ref_key = [], ref_id = i\<rparr> \<le> ById r \<and> ById r < ById \<lparr>ref_key = [], ref_id = i + 1\<rparr>
    \<longleftrightarrow> sint (ref_id r) = sint i"
    by (auto simp: less_eq_ById_def less_ById_def)
  then show ?thesis by (metis signed_word_eqI)
qed

lemma by_id_ref_image: "by_id_ref ` S = {r. ById r \<in> S}"
proof (intro equalityI subsetI)
  fix r assume "r \<in> {r. ById r \<in> S}"
  then show "r \<in> by_id_ref ` S" using image_eqI [of r by_id_ref "ById r"] by simp
qed auto

lemma references_of_id_refs:
  assumes "rs_ok n rs" "sint i < 2 ^ 31 - 1"
  shows "\<exists>rr. references_of_id i rs = Some rr \<and> set rr = {r. (ref_key r, ref_id r) \<in> refs rs \<and> ref_id r = i} \<and>
    length rr \<le> card (refs rs)"
proof -
  let ?a = "ById \<lparr>ref_key = [], ref_id = i\<rparr>" and ?b = "ById \<lparr>ref_key = [], ref_id = i + 1\<rparr>"
  let ?S = "{k \<in> keys_of (by_id rs). ?a \<le> k \<and> k < ?b}"
  have wf: "sm_wf (by_id rs)" and eq: "id_refs (by_id rs) = refs rs" using assms(1) by (simp_all add: rs_ok_def)
  obtain es where es: "walk_range (set_values_in Compare ?a ?b (by_id rs)) = Some es" "map fst es = sorted_list_of_set ?S"
    using set_range_keys(2) [OF wf] by blast
  have "set (map fst es) = ?S" unfolding es(2) by simp
  then have "set (map (by_id_ref \<circ> fst) es) = by_id_ref ` ?S" by (simp flip: image_image image_comp)
  also have "\<dots> = {r. ById r \<in> keys_of (by_id rs) \<and> ref_id r = i}"
    using id_range [OF assms(2)] by (simp add: by_id_ref_image)
  also have "\<dots> = {r. (ref_key r, ref_id r) \<in> refs rs \<and> ref_id r = i}"
    by (simp add: id_refs_def flip: eq)
  finally have "set (map (by_id_ref \<circ> fst) es) = {r. (ref_key r, ref_id r) \<in> refs rs \<and> ref_id r = i}" .
  moreover have "length es \<le> card (refs rs)"
  proof -
    have "length es = card ?S" using arg_cong [OF es(2), of length] by simp
    also have "\<dots> \<le> card (keys_of (by_id rs))" by (rule card_mono) auto
    finally show ?thesis by (simp add: card_id_refs eq)
  qed
  ultimately show ?thesis using sadd32_1 [OF assms(2)] es(1) by (simp add: references_of_id_def)
qed

definition keys_with :: "s32 \<Rightarrow> reference_relation \<Rightarrow> DocumentKey set" where
  "keys_with i R = {k. (k, i) \<in> R}"

lemma keys_with_image:
  fixes rr :: "DocumentKeyReference list"
  shows "set rr = {r. (ref_key r, ref_id r) \<in> R \<and> ref_id r = i} \<Longrightarrow> ref_key ` set rr = keys_with i R"
proof (intro equalityI subsetI)
  fix k assume "set rr = {r. (ref_key r, ref_id r) \<in> R \<and> ref_id r = i}" "k \<in> keys_with i R"
  then show "k \<in> ref_key ` set rr"
    using image_eqI [of k ref_key "\<lparr>ref_key = k, ref_id = i\<rparr>" "set rr"] by (simp add: keys_with_def)
qed (auto simp: keys_with_def)

definition set_ok :: "nat \<Rightarrow> DocumentKeySet \<Rightarrow> bool" where
  "set_ok n s \<longleftrightarrow> sm_wf s \<and> card (keys_of s) + n < 2 ^ 31"

lemma set_insert_ok:
  assumes "set_ok (Suc n) s"
  shows "\<exists>u. set_insert Compare k s = Some u \<and> set_ok n u \<and> keys_of u = insert k (keys_of s)"
proof -
  have "sm_wf s" "card (keys_of s) < 2 ^ 31 - 1" using assms by (simp_all add: set_ok_def)
  from set_insert_keys [OF this, of k] obtain u where u: "set_insert Compare k s = Some u" "sm_wf u"
    "keys_of u = insert k (keys_of s)" by blast
  have "card (insert k (keys_of s)) \<le> Suc (card (keys_of s))" by (simp add: card_insert_if)
  with u assms show ?thesis by (simp add: set_ok_def)
qed

lemma ReferencedKeys_refs:
  assumes "rs_ok n rs" "sint i < 2 ^ 31 - 1"
  shows "\<exists>ks. ReferencedKeys i rs = Some ks \<and> sm_wf ks \<and> keys_of ks = keys_with i (refs rs)"
proof -
  obtain rr where rr: "references_of_id i rs = Some rr" "length rr \<le> card (refs rs)"
    "set rr = {r. (ref_key r, ref_id r) \<in> refs rs \<and> ref_id r = i}"
    using references_of_id_refs [OF assms] by blast
  have "set_ok (0 + length rr) set_init" using assms(1) rr(2) by (simp add: set_ok_def rs_ok_def)
  from for_each_fold [where ok = set_ok and abst = keys_of and g = "\<lambda>r. insert (ref_key r)", OF set_insert_ok this]
  show ?thesis
    by (auto simp: ReferencedKeys_def rr(1) fold_insert_set keys_with_image [OF rr(3)] set_ok_def)
qed

lemma RemoveReferences_of_id_refs:
  assumes "rs_ok n rs" "sint i < 2 ^ 31 - 1"
  shows "\<exists>removed rs'. RemoveReferences_of_id i rs = Some (removed, rs') \<and> sm_wf removed \<and> rs_ok n rs' \<and>
    keys_of removed = keys_with i (refs rs) \<and> refs rs' = {p \<in> refs rs. snd p \<noteq> i}"
proof -
  obtain rr where rr: "references_of_id i rs = Some rr" "length rr \<le> card (refs rs)"
    "set rr = {r. (ref_key r, ref_id r) \<in> refs rs \<and> ref_id r = i}"
    using references_of_id_refs [OF assms] by blast
  let ?f = "\<lambda>reference (removed, rs). do { rs \<leftarrow> remove_reference reference rs;
      removed \<leftarrow> set_insert key_CompareTo (ref_key reference) removed; Some (removed, rs) }"
  let ?ok = "\<lambda>m (s, rs). set_ok m s \<and> rs_ok n rs" and ?ab = "\<lambda>(s, rs). (keys_of s, refs rs)"
  let ?g = "\<lambda>r (K, R). (insert (ref_key r) K, R - {(ref_key r, ref_id r)})"
  have step: "\<exists>s'. ?f r s = Some s' \<and> ?ok m s' \<and> ?ab s' = ?g r (?ab s)" if "?ok (Suc m) s" for r m s
    using that remove_reference_refs [of n "snd s" r] set_insert_ok [of m "fst s" "ref_key r"]
    by (cases s) fastforce
  have "?ok (0 + length rr) (set_init, rs)" using assms(1) rr(2) by (simp add: set_ok_def rs_ok_def)
  from for_each_fold [where ok = ?ok and abst = ?ab and g = ?g, OF step this]
  obtain s' where s': "for_each ?f rr (set_init, rs) = Some s'" "?ok 0 s'" "?ab s' = fold ?g rr (?ab (set_init, rs))"
    by blast
  have "fold ?g xs (K, R) = (ref_key ` set xs \<union> K, R - (\<lambda>r. (ref_key r, ref_id r)) ` set xs)" for xs :: "DocumentKeyReference list" and K R
    by (induction xs arbitrary: K R) auto
  then have "?ab s' = (ref_key ` set rr, refs rs - (\<lambda>r. (ref_key r, ref_id r)) ` set rr)" using s'(3) by simp
  moreover have "refs rs - (\<lambda>r. (ref_key r, ref_id r)) ` set rr = {p \<in> refs rs. snd p \<noteq> i}"
    unfolding rr(3) by (force intro: image_eqI [where x = "\<lparr>ref_key = _, ref_id = i\<rparr>"])
  ultimately show ?thesis
    using s'(1,2) by (cases s') (auto simp: RemoveReferences_of_id_def rr(1) keys_with_image [OF rr(3)] set_ok_def)
qed


lemma RemoveAllReferences_refs:
  assumes "rs_ok n rs"
  shows "\<exists>rs'. RemoveAllReferences rs = Some rs' \<and> rs_ok n rs' \<and> refs rs' = {}"
proof -
  have "sm_wf (by_key rs)" using assms by (simp add: rs_ok_def)
  then obtain es where es: "set_values (by_key rs) = Some es" "set es = keys_of (by_key rs)"
    by (simp add: set_values_keys)
  have "refs rs - (\<lambda>r. (ref_key r, ref_id r)) ` set (map by_key_ref es) = {}"
    unfolding set_map es(2) key_refs_image refs_def by (force simp: image_image)
  with remove_references_refs [OF assms, of "map by_key_ref es"] es(1) show ?thesis
    by (auto simp: RemoveAllReferences_def)
qed

text \<open>
  The first reference from the start \<open>{key, 0}\<close>: one of the key, with the least id that is not
  negative, if there is any.
\<close>

lemma first_from_refs:
  assumes "sm_wf s"
  shows "first_from key s =
    Some (case sorted_list_of_set {k \<in> keys_of s. ByKey \<lparr>ref_key = key, ref_id = 0\<rparr> \<le> k} of
      [] \<Rightarrow> None | r # rs \<Rightarrow> Some (by_key_ref r))"
proof -
  let ?k = "ByKey \<lparr>ref_key = key, ref_id = 0\<rparr>"
  let ?b = "sm_lower_bound Compare ?k s" and ?ps = "filter (\<lambda>p. ?k \<le> fst p) (sm_entries s)"
  have ps: "map fst ?ps = sorted_list_of_set {k \<in> keys_of s. ?k \<le> k}"
    by (rule sorted_filter_keys [OF assms])
  have b: "in_map s ?b" "smi_rest ?b = ?ps" and e: "in_map s (sm_end s)" "smi_rest (sm_end s) = []"
    using sm_low [OF assms] sm_end [OF assms] by simp_all
  have "first_from key s = Some (case map fst ?ps of [] \<Rightarrow> None | r # rs \<Rightarrow> Some (by_key_ref r))"
  proof (cases ?ps)
    case Nil
    then show ?thesis
      using in_map_eq [OF b(1) e(1)] b(2) e(2)
      by (simp add: first_from_def set_values_from_def sm_keys_from_def)
  next
    case (Cons p qs)
    then have "smi_get ?b = Some p" using in_map_step [OF b(1), of p qs] b(2) by simp
    with Cons show ?thesis
      using in_map_eq [OF b(1) e(1)] b(2) e(2)
      by (cases p) (auto simp: first_from_def set_values_from_def sm_keys_from_def)
  qed
  then show ?thesis by (simp only: ps)
qed

lemma references_contain_key_refs:
  assumes "sm_wf s"
  shows "references_contain_key key s = Some (\<exists>i. (key, i) \<in> key_refs s \<and> 0 \<le> sint i)"
proof -
  let ?k = "ByKey \<lparr>ref_key = key, ref_id = 0\<rparr>"
  let ?S = "{k \<in> keys_of s. ?k \<le> k}"
  have fin: "finite ?S" by simp
  have mem: "ByKey r \<in> ?S \<longleftrightarrow> (ref_key r, ref_id r) \<in> key_refs s \<and>
      (key < ref_key r \<or> key = ref_key r \<and> 0 \<le> sint (ref_id r))" for r
    by (auto simp: key_refs_def less_eq_ByKey_def)
  show ?thesis
  proof (cases "sorted_list_of_set ?S")
    case Nil
    then have none: "?S = {}" using fin by (metis set_empty set_sorted_list_of_set)
    have "(key, i) \<notin> key_refs s \<or> \<not> 0 \<le> sint i" for i
      using mem [of "\<lparr>ref_key = key, ref_id = i\<rparr>"] none by auto
    moreover have "first_from key s = Some None" using first_from_refs [OF assms, of key] Nil by simp
    ultimately show ?thesis by (auto simp: references_contain_key_def)
  next
    case (Cons a as)
    obtain r where a: "a = ByKey r" by (cases a)
    have in_S: "ByKey r \<in> ?S" and least: "\<And>k. k \<in> ?S \<Longrightarrow> ByKey r \<le> k"
    proof -
      have S: "?S = set (ByKey r # as)" and "sorted (ByKey r # as)"
        using Cons set_sorted_list_of_set [OF fin] sorted_sorted_list_of_set [of ?S] by (simp_all add: a)
      then show "ByKey r \<in> ?S" "\<And>k. k \<in> ?S \<Longrightarrow> ByKey r \<le> k" unfolding S by auto
    qed
    have "ref_key r = key" if "(key, i) \<in> key_refs s" "0 \<le> sint i" for i
      using least [of "ByKey \<lparr>ref_key = key, ref_id = i\<rparr>"] mem [of "\<lparr>ref_key = key, ref_id = i\<rparr>"] that in_S mem [of r]
      by (auto simp: less_eq_ByKey_def)
    then show ?thesis
      using Cons in_S mem [of r] by (auto simp: references_contain_key_def first_from_refs [OF assms] a)
  qed
qed

lemma ContainsKey_refs:
  "rs_ok n rs \<Longrightarrow> ContainsKey key rs = Some (\<exists>i. (key, i) \<in> refs rs \<and> 0 \<le> sint i)"
  by (simp add: ContainsKey_def rs_ok_def references_contain_key_refs refs_def)

lemma references_size_refs: "rs_ok n rs \<Longrightarrow> unat (references_size rs) = card (refs rs)"
  by (simp add: references_size_def set_size_def rs_ok_def refs_def sm_size_card card_key_refs)


section \<open>Sequences of operations\<close>

datatype reference_op =
    Add_ref DocumentKey s32
  | Remove_ref DocumentKey s32
  | Remove_id s32
  | Remove_all

fun run_reference_op :: "reference_op \<Rightarrow> ReferenceSet \<Rightarrow> ReferenceSet option" where
  "run_reference_op (Add_ref key i) rs = AddReference key i rs"
| "run_reference_op (Remove_ref key i) rs = RemoveReference key i rs"
| "run_reference_op (Remove_id i) rs = map_option snd (RemoveReferences_of_id i rs)"
| "run_reference_op Remove_all rs = RemoveAllReferences rs"

fun relate :: "reference_op \<Rightarrow> reference_relation \<Rightarrow> reference_relation" where
  "relate (Add_ref key i) R = insert (key, i) R"
| "relate (Remove_ref key i) R = R - {(key, i)}"
| "relate (Remove_id i) R = {p \<in> R. snd p \<noteq> i}"
| "relate Remove_all R = {}"

text \<open>The id after the one to remove must be an \<open>int\<close>, too.\<close>

fun in_range :: "reference_op \<Rightarrow> bool" where
  "in_range (Remove_id i) \<longleftrightarrow> sint i < 2 ^ 31 - 1"
| "in_range p \<longleftrightarrow> True"

lemma run_reference_op_refs:
  assumes "in_range p" "rs_ok (Suc n) rs"
  shows "\<exists>rs'. run_reference_op p rs = Some rs' \<and> rs_ok n rs' \<and> refs rs' = relate p (refs rs)"
proof -
  have n: "rs_ok n rs" using assms(2) by (rule rs_ok_mono) simp
  show ?thesis
  proof (cases p)
    case (Remove_ref key i)
    with remove_reference_refs [OF n, of "\<lparr>ref_key = key, ref_id = i\<rparr>"] show ?thesis
      by (simp add: RemoveReference_def)
  next
    case (Remove_id i)
    with RemoveReferences_of_id_refs [OF n, of i] assms(1) show ?thesis by auto
  qed (use AddReference_refs [OF assms(2)] RemoveAllReferences_refs [OF n] in auto)
qed

text \<open>
  C19: A \<open>ReferenceSet\<close> is a relation between documents and ids: after any sequence of fewer than
  \<open>2^31\<close> operations from the empty set, all of which succeed, \<open>ReferencedKeys\<close> of an id yields
  exactly its documents in ascending order, and \<open>ContainsKey\<close> tells whether some id from 0 up refers
  to the document.  A reference with a negative id is not found by \<open>ContainsKey\<close>, which starts its
  search at the id 0, although its comment speaks of any reference; the ids of targets and batches
  are not negative.
\<close>

theorem reference_set_refines_relation:
  "length ops < 2 ^ 31 \<Longrightarrow> list_all in_range ops \<Longrightarrow> R = fold relate ops {} \<Longrightarrow>
   \<exists>rs. for_each run_reference_op ops ReferenceSet_init = Some rs \<and>
     (\<forall>key. ContainsKey key rs = Some (\<exists>i. (key, i) \<in> R \<and> 0 \<le> sint i)) \<and>
     (\<forall>i. sint i < 2 ^ 31 - 1 \<longrightarrow>
        Option.bind (ReferencedKeys i rs) set_values = Some (sorted_list_of_set {key. (key, i) \<in> R}))"
proof -
  assume ops: "length ops < 2 ^ 31" "list_all in_range ops" and R: "R = fold relate ops {}"
  have step: "\<exists>s'. run_reference_op p s = Some s' \<and> rs_ok n s' \<and> refs s' = relate p (refs s)"
    if "p \<in> set ops" "rs_ok (Suc n) s" for p s n
    using run_reference_op_refs [of p n s] that ops(2) by (simp add: list_all_iff)
  have "rs_ok (0 + length ops) ReferenceSet_init" using rs_ok_init [OF ops(1)] by simp
  from for_each_fold [where ok = rs_ok and abst = refs and f = run_reference_op and g = relate and xs = ops and n = 0,
      OF step this]
  obtain rs where rs: "for_each run_reference_op ops ReferenceSet_init = Some rs" "rs_ok 0 rs" "refs rs = R"
    using rs_ok_init [OF ops(1)] unfolding R by force
  have "Option.bind (ReferencedKeys i rs) set_values = Some (sorted_list_of_set {key. (key, i) \<in> R})"
    if "sint i < 2 ^ 31 - 1" for i
    using ReferencedKeys_refs [OF rs(2) that] rs(3) by (auto simp: set_values_keys keys_with_def)
  with rs ContainsKey_refs [OF rs(2)] show ?thesis by auto
qed

definition example_references :: "reference_op list" where
  "example_references = [Add_ref [[1], [2]] 4, Add_ref [[1], [1]] 4, Add_ref [[1], [1]] 6, Remove_id 6]"

definition example_relation :: reference_relation where
  "example_relation = {([[1], [2]], 4), ([[1], [1]], 4)}"

lemma reference_set_refines_relation_witness:
  "\<exists>rs. for_each run_reference_op example_references ReferenceSet_init = Some rs \<and>
     ContainsKey [[1], [1]] rs = Some True \<and> ContainsKey [[1], [3]] rs = Some False"
proof -
  have "length example_references < 2 ^ 31" "list_all in_range example_references"
    "example_relation = fold relate example_references {}"
    by (auto simp: example_references_def example_relation_def)
  from reference_set_refines_relation [OF this]
  obtain rs where "for_each run_reference_op example_references ReferenceSet_init = Some rs"
    "\<And>key. ContainsKey key rs = Some (\<exists>i. (key, i) \<in> example_relation \<and> 0 \<le> sint i)" by blast
  then show ?thesis by (intro exI [of _ rs]) (simp add: example_relation_def)
qed

end
