(* ===== verification/MutationQueueSpec.thy ===== *)
theory MutationQueueSpec
  imports MutationQueue ReferenceSetSpec "HOL-Library.Sublist"
begin

text \<open>
  The queue of mutations as the list of its batches: their ids are consecutive, the index holds
  exactly the documents of the batches, and so the lookups by id, by document and by query find
  exactly the batches in question, in the order of the queue.
\<close>

section \<open>The invariant\<close>

definition batch_docs :: "'a MutationBatch \<Rightarrow> DocumentKey set" where
  "batch_docs b = mutation_key ` set (mutations b)"

definition batch_refs :: "'a MutationBatch \<Rightarrow> reference_relation" where
  "batch_refs b = batch_docs b \<times> {batch_id b}"

definition queue_ids :: "'a MemoryMutationQueue \<Rightarrow> int list" where
  "queue_ids q = map (\<lambda>b. sint (batch_id b)) (queue q)"

text \<open>Well-formed, with room for \<open>n\<close> more references in the index.\<close>

definition queue_ok :: "nat \<Rightarrow> 'a MemoryMutationQueue \<Rightarrow> bool" where
  "queue_ok n q \<longleftrightarrow> sm_wf (batches_by_document_key q) \<and>
     (\<exists>first. 1 \<le> first \<and> first \<le> sint (next_batch_id q) \<and> queue_ids q = [first..sint (next_batch_id q) - 1]) \<and>
     key_refs (batches_by_document_key q) = (\<Union>b \<in> set (queue q). batch_refs b) \<and>
     card (key_refs (batches_by_document_key q)) + n < 2 ^ 31"

lemma queue_ok_init: "n < 2 ^ 31 \<Longrightarrow> queue_ok n MemoryMutationQueue_init"
  by (auto simp: queue_ok_def MemoryMutationQueue_init_def queue_ids_def key_refs_def)

lemma queue_ok_ids:
  assumes "queue_ok n q"
  shows "sorted_wrt (<) (queue_ids q)" "\<forall>b \<in> set (queue q). 1 \<le> sint (batch_id b) \<and> sint (batch_id b) < sint (next_batch_id q)"
proof -
  obtain first where f: "1 \<le> first" "queue_ids q = [first..sint (next_batch_id q) - 1]"
    using assms by (auto simp: queue_ok_def)
  show "sorted_wrt (<) (queue_ids q)" unfolding f(2) by (simp add: strict_sorted_iff)
  have "\<forall>x \<in> set (queue_ids q). first \<le> x \<and> x < sint (next_batch_id q)" unfolding f(2) by simp
  then show "\<forall>b \<in> set (queue q). 1 \<le> sint (batch_id b) \<and> sint (batch_id b) < sint (next_batch_id q)"
    using f(1) by (fastforce simp: queue_ids_def)
qed

lemma batch_id_inj:
  assumes "queue_ok n q" "a \<in> set (queue q)" "b \<in> set (queue q)" "batch_id a = batch_id b"
  shows "a = b"
proof -
  have "distinct (queue_ids q)" using queue_ok_ids(1) [OF assms(1)] by (simp add: strict_sorted_iff)
  then have "inj_on (\<lambda>b. sint (batch_id b)) (set (queue q))" by (simp add: queue_ids_def distinct_map)
  then show ?thesis by (rule inj_onD) (use assms(2-4) in simp_all)
qed

section \<open>Lookup\<close>

lemma sint_s32_sub: "- (2 ^ 31) \<le> sint a - sint b \<Longrightarrow> sint a - sint b < 2 ^ 31 \<Longrightarrow> sint (a - b :: s32) = sint a - sint b"
  by (simp add: sint_word_ariths signed_take_bit_int_eq_self)

lemma ssub32_Some: "0 \<le> sint a \<Longrightarrow> 0 \<le> sint b \<Longrightarrow> ssub32 a b = Some (a - b) \<and> sint (a - b) = sint a - sint b"
  using s32_range [of a] s32_range [of b] sint_s32_sub [of a b] by (auto simp: ssub32_def Let_def)

lemma queue_index:
  assumes "queue_ok n q" "queue q \<noteq> []" "0 \<le> sint i"
  shows "\<exists>x. IndexOfBatchId i q = Some x \<and> sint x = sint i - hd (queue_ids q)"
proof -
  have "hd (queue q) \<in> set (queue q)" using assms(2) by simp
  then have "0 \<le> sint (batch_id (hd (queue q)))" using queue_ok_ids(2) [OF assms(1)] by fastforce
  from ssub32_Some [OF assms(3) this] assms(2) show ?thesis
    by (simp add: IndexOfBatchId_def queue_ids_def hd_map)
qed

lemma queue_nth:
  assumes "queue_ok n q" "j < length (queue q)"
  shows "sint (batch_id (queue q ! j)) = hd (queue_ids q) + int j"
proof -
  obtain first where f: "queue_ids q = [first..sint (next_batch_id q) - 1]" "first \<le> sint (next_batch_id q)"
    using assms(1) by (auto simp: queue_ok_def)
  have len: "length (queue_ids q) = length (queue q)" by (simp add: queue_ids_def)
  then have j: "int j < sint (next_batch_id q) - first" using assms(2) f by auto
  then have "queue_ids q ! j = first + int j" unfolding f(1) by (simp add: nth_upto)
  moreover have "hd (queue_ids q) = first" using j unfolding f(1) by (simp add: upto.simps [of first])
  ultimately show ?thesis using assms(2) by (simp add: queue_ids_def)
qed

lemma Lookup_member:
  assumes "queue_ok n q" "b \<in> set (queue q)"
  shows "LookupMutationBatch (batch_id b) q = Some (Some b)"
proof -
  obtain j where j: "j < length (queue q)" "queue q ! j = b" using assms(2) by (auto simp: in_set_conv_nth)
  have ne: "queue q \<noteq> []" using assms(2) by auto
  have "0 \<le> sint (batch_id b)" using queue_ok_ids(2) [OF assms(1)] assms(2) by fastforce
  from queue_index [OF assms(1) ne this] queue_nth [OF assms(1) j(1)]
  obtain x where "IndexOfBatchId (batch_id b) q = Some x" "sint x = int j" by (auto simp: j(2))
  with ne j show ?thesis by (simp add: LookupMutationBatch_def HARD_ASSERT_def)
qed

lemma Lookup_absent:
  assumes "queue_ok n q" "0 \<le> sint i" "\<forall>b \<in> set (queue q). batch_id b \<noteq> i"
  shows "LookupMutationBatch i q = Some None"
proof (cases "queue q = []")
  case False
  obtain x where x: "IndexOfBatchId i q = Some x" "sint x = sint i - hd (queue_ids q)"
    using queue_index [OF assms(1) False assms(2)] by blast
  have "batch_id (queue q ! nat (sint x)) = i" if "0 \<le> sint x" "nat (sint x) < length (queue q)"
    using queue_nth [OF assms(1) that(2)] x(2) that(1) by (intro signed_word_eqI) simp
  then have "sint x < 0 \<or> length (queue q) \<le> nat (sint x)"
    using assms(3) by (metis not_le nth_mem)
  with x False show ?thesis by (simp add: LookupMutationBatch_def)
qed (simp add: LookupMutationBatch_def)

lemma Lookup_find:
  assumes "queue_ok n q" "0 \<le> sint i"
  shows "LookupMutationBatch i q = Some (find (\<lambda>b. batch_id b = i) (queue q))"
proof (cases "find (\<lambda>b. batch_id b = i) (queue q)")
  case None
  then have "\<forall>b \<in> set (queue q). batch_id b \<noteq> i" by (auto simp: find_None_iff)
  with Lookup_absent [OF assms] None show ?thesis by simp
next
  case (Some b)
  then have "b \<in> set (queue q)" "batch_id b = i" by (auto simp: find_Some_iff)
  with Some Lookup_member [OF assms(1)] show ?thesis by auto
qed

lemma Next_find:
  assumes "queue_ok n q" "- 1 \<le> sint i" "sint i < 2 ^ 31 - 1"
  shows "NextMutationBatchAfterBatchId i q = Some (find (\<lambda>b. sint i < sint (batch_id b)) (queue q))"
proof (cases "queue q")
  case Nil
  then show ?thesis using sadd32_1 [OF assms(3)] by (simp add: NextMutationBatchAfterBatchId_def IndexOfBatchId_def)
next
  case (Cons b bs)
  have i: "sadd32 i 1 = Some (i + 1)" "sint (i + 1) = sint i + 1" using sadd32_1 [OF assms(3)] by auto
  then obtain x where x: "IndexOfBatchId (i + 1) q = Some x" "sint x = sint i + 1 - hd (queue_ids q)"
    using queue_index [OF assms(1), of "i + 1"] Cons assms(2) by auto
  let ?j = "nat (sint x)"
  have nth: "sint i < sint (batch_id (queue q ! j)) \<longleftrightarrow> ?j \<le> j" if "j < length (queue q)" for j
    using queue_nth [OF assms(1) that] x(2) by auto
  have "find (\<lambda>b. sint i < sint (batch_id b)) (queue q) = (if ?j < length (queue q) then Some (queue q ! ?j) else None)"
  proof (cases "?j < length (queue q)")
    case True
    then show ?thesis using nth by (auto simp: find_Some_iff intro!: exI [of _ ?j])
  next
    case False
    then have "\<forall>b \<in> set (queue q). \<not> sint i < sint (batch_id b)" using nth by (auto simp: in_set_conv_nth)
    with False show ?thesis by (simp add: find_None_iff)
  qed
  then show ?thesis by (auto simp: NextMutationBatchAfterBatchId_def i x(1))
qed


section \<open>The rows of the index\<close>

lemma takeWhile_sorted:
  "sorted xs \<Longrightarrow> \<forall>x \<in> set xs. \<forall>y \<in> set xs. x \<le> y \<longrightarrow> P y \<longrightarrow> P x \<Longrightarrow> takeWhile P xs = filter P xs"
proof (induction xs)
  case (Cons x xs)
  have "\<forall>x \<in> set xs. \<forall>y \<in> set xs. x \<le> y \<longrightarrow> P y \<longrightarrow> P x" using Cons.prems(2) by (meson list.set_intros(2))
  then have "takeWhile P xs = filter P xs" using Cons.IH Cons.prems(1) by fastforce
  moreover have "\<not> P y" if "\<not> P x" "y \<in> set xs" for y
    using Cons.prems that by (meson list.set_intros sorted_simps(2))
  then have "filter P xs = []" if "\<not> P x" using that by (simp add: filter_empty_conv)
  ultimately show ?case by simp
qed simp

lemma lex_prefix:
  fixes p k l :: "'b::linorder list"
  shows "p \<le> k \<Longrightarrow> k \<le> l \<Longrightarrow> prefix p l \<Longrightarrow> prefix p k"
proof (induction p arbitrary: k l)
  case (Cons a p)
  then show ?case by (cases k; cases l) auto
qed simp

lemma prefix_le: "prefix p k \<Longrightarrow> p \<le> (k :: 'b::linorder list)"
proof (induction p arbitrary: k)
  case (Cons a p)
  then show ?case by (cases k) auto
qed simp

lemma IsPrefixOf_prefix: "IsPrefixOf p k \<longleftrightarrow> prefix p k"
  by (auto simp: IsPrefixOf_def take_is_prefix prefix_def) (metis append_take_drop_id)

text \<open>What the index holds from the start \<open>{key, 0}\<close> on, when its ids are positive.\<close>

definition rows_from :: "DocumentKey \<Rightarrow> 'a MemoryMutationQueue \<Rightarrow> DocumentKeyReference list" where
  "rows_from key q = map by_key_ref
     (sorted_list_of_set {k \<in> keys_of (batches_by_document_key q). ByKey \<lparr>ref_key = key, ref_id = 0\<rparr> \<le> k})"

lemma references_from_rows:
  assumes "queue_ok n q"
  shows "references_from key q = Some (rows_from key q)"
proof -
  have wf: "sm_wf (batches_by_document_key q)" using assms by (simp add: queue_ok_def)
  obtain es where es: "walk_range (set_values_from Compare (ByKey \<lparr>ref_key = key, ref_id = 0\<rparr>) (batches_by_document_key q)) = Some es"
    "map fst es = sorted_list_of_set {k \<in> keys_of (batches_by_document_key q). ByKey \<lparr>ref_key = key, ref_id = 0\<rparr> \<le> k}"
    using set_range_keys(1) [OF wf] by blast
  then show ?thesis by (simp add: references_from_def rows_from_def flip: es(2))
qed

lemma by_key_ref_image: "by_key_ref ` S = {r. ByKey r \<in> S}"
proof (intro equalityI subsetI)
  fix r assume "r \<in> {r. ByKey r \<in> S}"
  then show "r \<in> by_key_ref ` S" using image_eqI [of r by_key_ref "ByKey r"] by simp
qed auto

lemma index_row:
  assumes "queue_ok n q"
  shows "ByKey r \<in> keys_of (batches_by_document_key q) \<longleftrightarrow>
    (\<exists>b \<in> set (queue q). ref_key r \<in> batch_docs b \<and> ref_id r = batch_id b)"
proof -
  have "ByKey r \<in> keys_of (batches_by_document_key q) \<longleftrightarrow>
      (ref_key r, ref_id r) \<in> key_refs (batches_by_document_key q)" by (simp add: key_refs_def)
  also have "\<dots> \<longleftrightarrow> (ref_key r, ref_id r) \<in> (\<Union>b \<in> set (queue q). batch_refs b)"
    using assms unfolding queue_ok_def by metis
  finally show ?thesis by (auto simp: batch_refs_def)
qed

lemma rows_from_set:
  assumes "queue_ok n q"
  shows "r \<in> set (rows_from key q) \<longleftrightarrow>
    key \<le> ref_key r \<and> (\<exists>b \<in> set (queue q). ref_key r \<in> batch_docs b \<and> ref_id r = batch_id b)"
proof -
  have "r \<in> set (rows_from key q) \<longleftrightarrow>
      ByKey r \<in> keys_of (batches_by_document_key q) \<and> ByKey \<lparr>ref_key = key, ref_id = 0\<rparr> \<le> ByKey r"
    by (simp add: rows_from_def by_key_ref_image)
  moreover have "0 \<le> sint (ref_id r)" if "b \<in> set (queue q)" "ref_id r = batch_id b" for b
    using that queue_ok_ids(2) [OF assms] by fastforce
  ultimately show ?thesis by (auto simp: index_row [OF assms] less_eq_ByKey_def)
qed

lemma rows_take:
  assumes "queue_ok n q"
    and mono: "\<And>a b. key \<le> a \<Longrightarrow> a \<le> b \<Longrightarrow> P b \<Longrightarrow> P a"
  shows "takeWhile (\<lambda>r. P (ref_key r)) (rows_from key q) = filter (\<lambda>r. P (ref_key r)) (rows_from key q)"
proof -
  let ?S = "{k \<in> keys_of (batches_by_document_key q). ByKey \<lparr>ref_key = key, ref_id = 0\<rparr> \<le> k}"
  have le: "ref_key (by_key_ref x) \<le> ref_key (by_key_ref y)" if "x \<le> y" for x y :: ByKey
    using that by (cases x; cases y) (auto simp: less_eq_ByKey_def)
  have "takeWhile ((\<lambda>r. P (ref_key r)) \<circ> by_key_ref) (sorted_list_of_set ?S) =
      filter ((\<lambda>r. P (ref_key r)) \<circ> by_key_ref) (sorted_list_of_set ?S)"
  proof (rule takeWhile_sorted, simp, intro ballI impI)
    fix x y assume "x \<in> set (sorted_list_of_set ?S)" "x \<le> y" "((\<lambda>r. P (ref_key r)) \<circ> by_key_ref) y"
    then show "((\<lambda>r. P (ref_key r)) \<circ> by_key_ref) x"
      using mono [of "ref_key (by_key_ref x)" "ref_key (by_key_ref y)"] le [of x y] le [of "ByKey \<lparr>ref_key = key, ref_id = 0\<rparr>" x]
      by simp
  qed
  then show ?thesis by (simp add: rows_from_def takeWhile_map filter_map)
qed


section \<open>Finding batches\<close>

lemma strict_unique:
  fixes xs ys :: "s32 list"
  assumes "sorted_wrt (<) (map sint xs)" "sorted_wrt (<) (map sint ys)" "set xs = set ys"
  shows "xs = ys"
proof -
  have "map sint xs = map sint ys"
    using assms by (intro sorted_distinct_set_unique) (simp_all add: strict_sorted_iff)
  then show ?thesis by (rule map_injective) (auto intro: injI signed_word_eqI)
qed

lemma queue_filter_sorted:
  assumes "queue_ok n q"
  shows "sorted_wrt (<) (map sint (map batch_id (filter P (queue q))))"
  using queue_ok_ids(1) [OF assms] by (simp add: queue_ids_def sorted_wrt_map sorted_wrt_filter comp_def)

lemma ids_in_order_props:
  assumes "finite S"
  shows "sorted_wrt (<) (map sint (ids_in_order S))" "set (ids_in_order S) = S"
proof -
  have "map sint (ids_in_order S) = map (\<lambda>i. sint (word_of_int i :: s32)) (sorted_list_of_set (sint ` S))"
    by (simp add: ids_in_order_def comp_def)
  also have "\<dots> = map id (sorted_list_of_set (sint ` S))"
    by (rule map_cong) (use assms in auto)
  finally show "sorted_wrt (<) (map sint (ids_in_order S))" by simp
  show "set (ids_in_order S) = S" using assms by (simp add: ids_in_order_def image_image)
qed

lemma lookup_all:
  assumes "queue_ok n q"
  shows "set bs \<subseteq> set (queue q) \<Longrightarrow>
    for_each (\<lambda>i result. do { batch \<leftarrow> LookupMutationBatch i q;
        Some (case batch of None \<Rightarrow> result | Some b \<Rightarrow> result @ [b]) }) (map batch_id bs) acc = Some (acc @ bs)"
    "set bs \<subseteq> set (queue q) \<Longrightarrow>
    for_each (\<lambda>i result. do { batch \<leftarrow> LookupMutationBatch i q; b \<leftarrow> batch; Some (result @ [b]) })
      (map batch_id bs) acc = Some (acc @ bs)"
  by (induction bs arbitrary: acc) (simp_all add: Lookup_member [OF assms])

lemma batches_with_ids:
  assumes "queue_ok n q" "S = batch_id ` {b \<in> set (queue q). P b}"
  shows "AllMutationBatchesWithIds S q = Some (filter P (queue q))"
proof -
  have "ids_in_order S = map batch_id (filter P (queue q))"
    using assms ids_in_order_props [of S] queue_filter_sorted [OF assms(1), of P]
    by (intro strict_unique) auto
  then show ?thesis
    using lookup_all(1) [OF assms(1), of "filter P (queue q)" "[]"]
    by (auto simp: AllMutationBatchesWithIds_def)
qed

lemma key_rows:
  assumes "queue_ok n q"
  shows "takeWhile (\<lambda>r. key = ref_key r) (rows_from key q) = filter (\<lambda>r. key = ref_key r) (rows_from key q)"
    "set (filter (\<lambda>r. key = ref_key r) (rows_from key q)) =
     {r. ref_key r = key \<and> (\<exists>b \<in> set (queue q). key \<in> batch_docs b \<and> ref_id r = batch_id b)}"
    "map ref_id (filter (\<lambda>r. key = ref_key r) (rows_from key q)) =
     map batch_id (filter (\<lambda>b. key \<in> batch_docs b) (queue q))"
proof -
  show "takeWhile (\<lambda>r. key = ref_key r) (rows_from key q) = filter (\<lambda>r. key = ref_key r) (rows_from key q)"
    by (rule rows_take [OF assms]) auto
  show s: "set (filter (\<lambda>r. key = ref_key r) (rows_from key q)) =
     {r. ref_key r = key \<and> (\<exists>b \<in> set (queue q). key \<in> batch_docs b \<and> ref_id r = batch_id b)}"
    using rows_from_set [OF assms, of _ key] by auto
  let ?S = "{k \<in> keys_of (batches_by_document_key q). ByKey \<lparr>ref_key = key, ref_id = 0\<rparr> \<le> k}"
  have "sorted_wrt (\<lambda>a b. ref_key a = key \<and> ref_key b = key \<longrightarrow> sint (ref_id a) < sint (ref_id b)) (rows_from key q)"
    unfolding rows_from_def sorted_wrt_map
  proof (rule sorted_wrt_mono_rel [OF _ strict_sorted_list_of_set])
    fix x y :: ByKey assume "x < y"
    then show "ref_key (by_key_ref x) = key \<and> ref_key (by_key_ref y) = key \<longrightarrow>
        sint (ref_id (by_key_ref x)) < sint (ref_id (by_key_ref y))"
      by (cases x; cases y) (auto simp: less_ByKey_def)
  qed
  then have "sorted_wrt (\<lambda>a b. ref_key a = key \<and> ref_key b = key \<longrightarrow> sint (ref_id a) < sint (ref_id b))
      (filter (\<lambda>r. key = ref_key r) (rows_from key q))" by (rule sorted_wrt_filter)
  then have "sorted_wrt (\<lambda>a b. sint (ref_id a) < sint (ref_id b)) (filter (\<lambda>r. key = ref_key r) (rows_from key q))"
    by (rule sorted_wrt_mono_rel [rotated]) auto
  then have "sorted_wrt (<) (map sint (map ref_id (filter (\<lambda>r. key = ref_key r) (rows_from key q))))"
    by (simp add: sorted_wrt_map)
  moreover have "ref_id ` set (filter (\<lambda>r. key = ref_key r) (rows_from key q)) = batch_id ` {b \<in> set (queue q). key \<in> batch_docs b}"
    unfolding s
  proof (intro equalityI subsetI)
    fix i assume "i \<in> batch_id ` {b \<in> set (queue q). key \<in> batch_docs b}"
    then show "i \<in> ref_id ` {r :: DocumentKeyReference. ref_key r = key \<and> (\<exists>b \<in> set (queue q). key \<in> batch_docs b \<and> ref_id r = batch_id b)}"
      by (intro image_eqI [of _ _ "\<lparr>ref_key = key, ref_id = i\<rparr>"]) auto
  qed auto
  ultimately show "map ref_id (filter (\<lambda>r. key = ref_key r) (rows_from key q)) =
     map batch_id (filter (\<lambda>b. key \<in> batch_docs b) (queue q))"
    using queue_filter_sorted [OF assms, of "\<lambda>b. key \<in> batch_docs b"]
    by (intro strict_unique) (simp_all only: set_map set_filter)
qed

lemma batches_of_key:
  assumes "queue_ok n q"
  shows "AllMutationBatchesAffectingDocumentKey key q = Some (filter (\<lambda>b. key \<in> batch_docs b) (queue q))"
proof -
  let ?f = "\<lambda>i result. do { batch \<leftarrow> LookupMutationBatch i q; b \<leftarrow> batch; Some (result @ [b]) }"
  have "for_each (\<lambda>r. ?f (ref_id r)) (takeWhile (\<lambda>r. key = ref_key r) (rows_from key q)) [] =
      for_each ?f (map batch_id (filter (\<lambda>b. key \<in> batch_docs b) (queue q))) []"
    unfolding key_rows(1) [OF assms] by (simp only: for_each_map flip: key_rows(3) [OF assms])
  also have "\<dots> = Some (filter (\<lambda>b. key \<in> batch_docs b) (queue q))"
    using lookup_all(2) [OF assms, of "filter (\<lambda>b. key \<in> batch_docs b) (queue q)" "[]"] by auto
  finally show ?thesis
    by (simp add: AllMutationBatchesAffectingDocumentKey_def references_from_rows [OF assms])
qed


lemma fold_insert_ids: "fold (insert \<circ> ref_id) rs ids = ref_id ` set rs \<union> (ids :: s32 set)"
  by (induction rs arbitrary: ids) auto

lemma key_row_ids:
  assumes "queue_ok n q"
  shows "ref_id ` set (takeWhile (\<lambda>r. key = ref_key r) (rows_from key q)) = batch_id ` {b \<in> set (queue q). key \<in> batch_docs b}"
proof -
  have "set (map ref_id (takeWhile (\<lambda>r. key = ref_key r) (rows_from key q))) =
      set (map batch_id (filter (\<lambda>b. key \<in> batch_docs b) (queue q)))"
    by (simp only: key_rows(1,3) [OF assms])
  then show ?thesis by simp
qed

lemma ids_of_keys:
  assumes "queue_ok n q"
  shows "for_each (\<lambda>key ids. do { refs \<leftarrow> references_from key q;
      Some (fold (insert \<circ> ref_id) (takeWhile (\<lambda>reference. key = ref_key reference) refs) ids) }) keys ids =
    Some (batch_id ` {b \<in> set (queue q). batch_docs b \<inter> set keys \<noteq> {}} \<union> ids)"
proof (induction keys arbitrary: ids)
  case (Cons key keys)
  have "{b \<in> set (queue q). batch_docs b \<inter> set (key # keys) \<noteq> {}} =
      {b \<in> set (queue q). key \<in> batch_docs b} \<union> {b \<in> set (queue q). batch_docs b \<inter> set keys \<noteq> {}}" by auto
  then show ?case
    using Cons.IH by (simp add: references_from_rows [OF assms] fold_insert_ids fold_insert_ids [unfolded comp_def]
        key_row_ids [OF assms] image_Un Un_ac)
qed simp

lemma batches_of_keys:
  assumes "queue_ok n q" "sm_wf keys"
  shows "AllMutationBatchesAffectingDocumentKeys keys q =
    Some (filter (\<lambda>b. batch_docs b \<inter> keys_of keys \<noteq> {}) (queue q))"
proof -
  obtain ks where ks: "set_values keys = Some ks" "set ks = keys_of keys"
    using set_values_keys [OF assms(2)] by simp
  show ?thesis
    unfolding AllMutationBatchesAffectingDocumentKeys_def ks(1) bind.bind_lunit ids_of_keys [OF assms(1)] ks(2)
    by (rule batches_with_ids [OF assms(1)]) simp
qed

definition child_of :: "ResourcePath \<Rightarrow> DocumentKey \<Rightarrow> bool" where
  "child_of p k \<longleftrightarrow> (\<exists>s. k = p @ [s])"

lemma child_of_prefix: "child_of p k \<longleftrightarrow> prefix p k \<and> length k = length p + 1"
proof -
  have "length zs = 1 \<longleftrightarrow> (\<exists>s. zs = [s])" for zs :: "bytes list" by (cases zs) auto
  then show ?thesis by (auto simp: child_of_def prefix_def)
qed

lemma append_le: "p @ x \<le> p @ y \<longleftrightarrow> x \<le> (y :: 'b::linorder list)"
  by (induction p) simp_all

lemma query_ids:
  assumes "queue_ok n q" and start: "start = (if \<not> IsDocumentKey p then Append_segment p [] else p)"
  shows "ref_id ` set (filter (\<lambda>r. length (ref_key r) = length p + 1)
      (takeWhile (\<lambda>r. IsPrefixOf p (ref_key r)) (rows_from start q))) =
    batch_id ` {b \<in> set (queue q). \<exists>k \<in> batch_docs b. child_of p k}"
proof -
  have p_le: "p \<le> start" by (auto simp: start Append_segment_def intro: prefix_le)
  have "prefix p a" if "start \<le> a" "a \<le> b" "prefix p b" for a b
    using lex_prefix [of p a b] that p_le by auto
  then have "takeWhile (\<lambda>r. IsPrefixOf p (ref_key r)) (rows_from start q) =
      filter (\<lambda>r. IsPrefixOf p (ref_key r)) (rows_from start q)"
    unfolding IsPrefixOf_prefix by (intro rows_take [OF assms(1)])
  then have rows: "set (filter (\<lambda>r. length (ref_key r) = length p + 1)
      (takeWhile (\<lambda>r. IsPrefixOf p (ref_key r)) (rows_from start q))) =
      {r \<in> set (rows_from start q). child_of p (ref_key r)}"
    by (auto simp: IsPrefixOf_prefix child_of_prefix)
  have nil: "[] \<noteq> s \<Longrightarrow> [] < s" for s :: bytes by (cases s) auto
  have above: "start \<le> k" if "child_of p k" for k
    using that by (auto simp: child_of_def start Append_segment_def append_le intro: prefix_le nil)
  show ?thesis
    unfolding rows
  proof (intro equalityI subsetI)
    fix i assume "i \<in> batch_id ` {b \<in> set (queue q). \<exists>k \<in> batch_docs b. child_of p k}"
    then obtain b k where "b \<in> set (queue q)" "k \<in> batch_docs b" "child_of p k" "i = batch_id b" by blast
    then show "i \<in> ref_id ` {r \<in> set (rows_from start q). child_of p (ref_key r)}"
      using above [of k] by (intro image_eqI [of _ _ "\<lparr>ref_key = k, ref_id = i\<rparr>"]) (auto simp: rows_from_set [OF assms(1)])
  qed (auto simp: rows_from_set [OF assms(1)])
qed

lemma batches_of_query:
  assumes "queue_ok n q" "\<not> IsCollectionGroupQuery query"
  shows "AllMutationBatchesAffectingQuery query q =
    Some (filter (\<lambda>b. \<exists>k \<in> batch_docs b. child_of (query_path query) k) (queue q))"
proof -
  let ?p = "query_path query"
  let ?start = "if \<not> IsDocumentKey ?p then Append_segment ?p [] else ?p"
  have key: "make_DocumentKey ?start = Some ?start"
    by (auto simp: make_DocumentKey_def HARD_ASSERT_def IsDocumentKey_def Append_segment_def) presburger
  show ?thesis
    using batches_with_ids [OF assms(1) query_ids [OF assms(1) refl, of ?p]] assms(2) key
    by (simp add: AllMutationBatchesAffectingQuery_def HARD_ASSERT_def references_from_rows [OF assms(1)]
        fold_insert_ids Let_def)
qed

lemma queue_contains_key:
  assumes "queue_ok n q"
  shows "queue_ContainsKey key q = Some (\<exists>b \<in> set (queue q). key \<in> batch_docs b)"
proof -
  have wf: "sm_wf (batches_by_document_key q)"
    and refs: "key_refs (batches_by_document_key q) = (\<Union>b \<in> set (queue q). batch_refs b)"
    using assms by (auto simp: queue_ok_def)
  have "(\<exists>i. (key, i) \<in> key_refs (batches_by_document_key q) \<and> 0 \<le> sint i) \<longleftrightarrow> (\<exists>b \<in> set (queue q). key \<in> batch_docs b)"
    unfolding refs using queue_ok_ids(2) [OF assms] by (fastforce simp: batch_refs_def)
  then show ?thesis by (simp add: queue_ContainsKey_def references_contain_key_refs [OF wf])
qed


section \<open>Adding and removing batches\<close>

text \<open>The collection of a document and its parent, which go into the index of collection parents.\<close>

definition parents :: "CollectionParentIndex \<Rightarrow> (bytes \<times> ResourcePath) set" where
  "parents index = {(c, p). \<exists>ps. index c = Some ps \<and> p \<in> ps}"

definition collection_of :: "DocumentKey \<Rightarrow> bytes \<times> ResourcePath" where
  "collection_of k = (last (butlast k), butlast (butlast k))"

definition valid_document :: "DocumentKey \<Rightarrow> bool" where
  "valid_document k \<longleftrightarrow> k \<noteq> [] \<and> IsDocumentKey k"

lemma add_parent:
  assumes "valid_document k"
  shows "\<exists>index'. Option.bind (PopLast k) (\<lambda>c. AddToCollectionParentIndex c index) = Some index' \<and>
    parents index' = insert (collection_of k) (parents index)"
proof -
  have k: "k \<noteq> []" "length k mod 2 = 0" using assms by (auto simp: valid_document_def IsDocumentKey_def)
  then obtain j where j: "length k = Suc j" by (cases k) auto
  have c: "PopLast k = Some (butlast k)" using k(1) by (simp add: PopLast_def HARD_ASSERT_def butlast_conv_take)
  have odd: "length (butlast k) mod 2 = 1" using k(2) j by simp presburger
  then have ne: "butlast k \<noteq> []" by (metis list.size(3) mod_0 zero_neq_one)
  have "last_segment (butlast k) = Some (last (butlast k))" "PopLast (butlast k) = Some (butlast (butlast k))"
    using ne by (simp_all add: last_segment_def PopLast_def HARD_ASSERT_def last_conv_nth butlast_conv_take)
  then have "AddToCollectionParentIndex (butlast k) index = Some (index(last (butlast k) \<mapsto>
      insert (butlast (butlast k)) (case index (last (butlast k)) of None \<Rightarrow> {} | Some ps \<Rightarrow> ps)))"
    using odd by (simp add: AddToCollectionParentIndex_def parent_index_Add_def HARD_ASSERT_def Let_def)
  then show ?thesis using c by (auto simp: parents_def collection_of_def split: option.splits if_splits)
qed

lemma queue_ok_add:
  assumes q: "queue_ok n' q" and nxt: "sint (next_batch_id q) < 2 ^ 31 - 1"
    and b: "batch_id b = next_batch_id q" and rows: "sm_wf rows"
    "key_refs rows = batch_refs b \<union> key_refs (batches_by_document_key q)" "card (key_refs rows) + n < 2 ^ 31"
  shows "queue_ok n (q\<lparr>next_batch_id := next_batch_id q + 1, queue := queue q @ [b], batches_by_document_key := rows\<rparr>)"
proof -
  obtain first where f: "1 \<le> first" "first \<le> sint (next_batch_id q)" "queue_ids q = [first..sint (next_batch_id q) - 1]"
    using q by (auto simp: queue_ok_def)
  have "sint (next_batch_id q + 1) = sint (next_batch_id q) + 1" using sadd32_1 [OF nxt] by simp
  moreover have "queue_ids q @ [sint (next_batch_id q)] = [first..sint (next_batch_id q)]"
    using f by (simp add: upto_rec2)
  moreover have "key_refs (batches_by_document_key q) = (\<Union>b \<in> set (queue q). batch_refs b)"
    using q by (simp add: queue_ok_def)
  ultimately show ?thesis using f(1,2) rows b by (auto simp: queue_ok_def queue_ids_def)
qed

lemma insert_batch_refs:
  assumes "\<forall>m \<in> set ms. valid_document (mutation_key m)"
  shows "sm_wf rows \<and> card (key_refs rows) + (n + length ms) < 2 ^ 31 \<Longrightarrow>
   \<exists>refs' index'. for_each (\<lambda>mutation (rows, index). do {
         rows \<leftarrow> set_insert ByKey_Compare (ByKey \<lparr>ref_key = mutation_key mutation, ref_id = i\<rparr>) rows;
         collection \<leftarrow> PopLast (mutation_key mutation);
         index \<leftarrow> AddToCollectionParentIndex collection index;
         Some (rows, index) }) ms (rows, index) = Some (refs', index') \<and>
     sm_wf refs' \<and> card (key_refs refs') + n < 2 ^ 31 \<and>
     key_refs refs' = mutation_key ` set ms \<times> {i} \<union> key_refs rows \<and>
     parents index' = collection_of ` mutation_key ` set ms \<union> parents index"
  using assms
proof (induction ms arbitrary: rows index)
  case (Cons m ms)
  let ?r = "\<lparr>ref_key = mutation_key m, ref_id = i\<rparr>"
  have "sm_wf rows" "card (keys_of rows) < 2 ^ 31 - 1" using Cons.prems(1) by (simp_all add: card_key_refs)
  from set_insert_keys [OF this, of "ByKey ?r"] obtain u where
    u: "set_insert Compare (ByKey ?r) rows = Some u" "sm_wf u" "keys_of u = insert (ByKey ?r) (keys_of rows)" by blast
  have ku: "key_refs u = insert (mutation_key m, i) (key_refs rows)" using key_refs_insert [OF u(3)] by simp
  have "card (key_refs u) \<le> Suc (card (key_refs rows))" unfolding ku by (simp add: card_insert_if)
  then have room: "sm_wf u \<and> card (key_refs u) + (n + length ms) < 2 ^ 31" using Cons.prems(1) u(2) by simp
  obtain index' where ix: "Option.bind (PopLast (mutation_key m)) (\<lambda>c. AddToCollectionParentIndex c index) = Some index'"
    "parents index' = insert (collection_of (mutation_key m)) (parents index)"
    using add_parent [of "mutation_key m" index] Cons.prems(2) by auto
  from ix(1) obtain c where "PopLast (mutation_key m) = Some c" "AddToCollectionParentIndex c index = Some index'"
    by (auto simp: bind_eq_Some_conv)
  with Cons.IH [OF room, of index'] Cons.prems(2) u(1) ku ix(2) show ?case by auto
qed simp

lemma AddMutationBatch_ok:
  assumes "queue_ok (n + length ms) q" "sint (next_batch_id q) < 2 ^ 31 - 1" "ms \<noteq> []"
    and "\<forall>m \<in> set ms. valid_document (mutation_key m)"
  shows "\<exists>b q' index'. AddMutationBatch t base ms (q, index) = Some (b, q', index') \<and> queue_ok n q' \<and>
    b = \<lparr>batch_id = next_batch_id q, local_write_time = t, base_mutations = base, mutations = ms\<rparr> \<and>
    queue q' = queue q @ [b] \<and> sint (next_batch_id q') = sint (next_batch_id q) + 1 \<and>
    last_stream_token q' = last_stream_token q \<and>
    parents index' = collection_of ` mutation_key ` set ms \<union> parents index"
proof -
  let ?i = "next_batch_id q"
  let ?b = "\<lparr>batch_id = ?i, local_write_time = t, base_mutations = base, mutations = ms\<rparr>"
  have "sm_wf (batches_by_document_key q) \<and> card (key_refs (batches_by_document_key q)) + (n + length ms) < 2 ^ 31"
    using assms(1) unfolding queue_ok_def by blast
  from insert_batch_refs [OF assms(4) this, of ?i index] obtain refs index' where
    loop: "for_each (\<lambda>mutation (refs, index). do {
         refs \<leftarrow> set_insert ByKey_Compare (ByKey \<lparr>ref_key = mutation_key mutation, ref_id = ?i\<rparr>) refs;
         collection \<leftarrow> PopLast (mutation_key mutation);
         index \<leftarrow> AddToCollectionParentIndex collection index;
         Some (refs, index) }) ms (batches_by_document_key q, index) = Some (refs, index')"
    and refs: "sm_wf refs" "card (key_refs refs) + n < 2 ^ 31"
    "key_refs refs = mutation_key ` set ms \<times> {?i} \<union> key_refs (batches_by_document_key q)"
    and index': "parents index' = collection_of ` mutation_key ` set ms \<union> parents index" by blast
  have "queue q \<noteq> [] \<longrightarrow> sint (batch_id (last (queue q))) < sint ?i"
    using queue_ok_ids(2) [OF assms(1)] by simp
  then have "AddMutationBatch t base ms (q, index) = Some (?b,
      q\<lparr>next_batch_id := ?i + 1, queue := queue q @ [?b], batches_by_document_key := refs\<rparr>, index')"
    using assms(3) sadd32_1 [OF assms(2)] loop
    by (simp add: AddMutationBatch_def make_MutationBatch_def HARD_ASSERT_def Let_def)
  moreover have "queue_ok n (q\<lparr>next_batch_id := ?i + 1, queue := queue q @ [?b], batches_by_document_key := refs\<rparr>)"
    by (rule queue_ok_add [OF assms(1,2) _ refs(1) _ refs(2)]) (simp_all add: refs(3) batch_refs_def batch_docs_def)
  ultimately show ?thesis using index' sadd32_1 [OF assms(2)] by simp
qed


text \<open>
  What the queue asks of the reference delegate: it takes note of a document that a batch no
  longer changes, and can always do so while it is ready.
\<close>

locale mutation_delegate =
  fixes RemoveMutationReference :: "DocumentKey \<Rightarrow> 'd \<Rightarrow> 'd option" and ready :: "'d \<Rightarrow> bool"
    and noted :: "DocumentKey \<Rightarrow> 'd \<Rightarrow> 'd"
  assumes notify: "ready d \<Longrightarrow> RemoveMutationReference key d = Some (noted key d) \<and> ready (noted key d)"
begin

lemma erase_rows:
  "sm_wf rows \<Longrightarrow> ready d \<Longrightarrow>
   \<exists>rows'. for_each (\<lambda>mutation (refs, delegate). do {
         let key = mutation_key mutation;
         delegate \<leftarrow> RemoveMutationReference key delegate;
         refs \<leftarrow> set_erase ByKey_Compare (ByKey \<lparr>ref_key = key, ref_id = i\<rparr>) refs;
         Some (refs, delegate) }) ms (rows, d) = Some (rows', fold noted (map mutation_key ms) d) \<and>
     sm_wf rows' \<and> key_refs rows' = key_refs rows - mutation_key ` set ms \<times> {i}"
proof (induction ms arbitrary: rows d)
  case (Cons m ms)
  let ?r = "\<lparr>ref_key = mutation_key m, ref_id = i\<rparr>"
  obtain u where u: "set_erase Compare (ByKey ?r) rows = Some u" "sm_wf u" "keys_of u = keys_of rows - {ByKey ?r}"
    using set_erase_keys [OF Cons.prems(1)] by blast
  have ku: "key_refs u = key_refs rows - {(mutation_key m, i)}" using key_refs_erase [OF u(3)] by simp
  from notify [OF Cons.prems(2), of "mutation_key m"] Cons.IH [OF u(2), of "noted (mutation_key m) d"] u(1) ku
  show ?case by (auto simp: Let_def)
qed simp

lemma remove_head:
  assumes "queue_ok n q" "queue q = b # bs" "ready d"
  shows "\<exists>q'. RemoveMutationBatch RemoveMutationReference b (q, d) = Some (q', fold noted (map mutation_key (mutations b)) d) \<and>
    queue_ok n q' \<and> queue q' = bs \<and> next_batch_id q' = next_batch_id q \<and> last_stream_token q' = last_stream_token q"
proof -
  let ?R = "key_refs (batches_by_document_key q)"
  have wf: "sm_wf (batches_by_document_key q)" and R: "?R = (\<Union>b \<in> set (queue q). batch_refs b)"
    and room: "card ?R + n < 2 ^ 31" using assms(1) unfolding queue_ok_def by blast+
  obtain first where f: "1 \<le> first" "first \<le> sint (next_batch_id q)" "queue_ids q = [first..sint (next_batch_id q) - 1]"
    using assms(1) by (auto simp: queue_ok_def)
  from erase_rows [OF wf assms(3), of "batch_id b" "mutations b"] obtain rows where
    rows: "for_each (\<lambda>mutation (refs, delegate). do {
         let key = mutation_key mutation;
         delegate \<leftarrow> RemoveMutationReference key delegate;
         refs \<leftarrow> set_erase ByKey_Compare (ByKey \<lparr>ref_key = key, ref_id = batch_id b\<rparr>) refs;
         Some (refs, delegate) }) (mutations b) (batches_by_document_key q, d) =
       Some (rows, fold noted (map mutation_key (mutations b)) d)"
    "sm_wf rows" "key_refs rows = ?R - batch_refs b" by (auto simp: batch_refs_def batch_docs_def)
  have ids: "first # [first + 1..sint (next_batch_id q) - 1] = sint (batch_id b) # map (\<lambda>b. sint (batch_id b)) bs"
    using f(3) assms(2) by (metis list.simps(9) queue_ids_def list.distinct(1) upto.simps)
  have "batch_refs b \<inter> batch_refs c = {}" if "c \<in> set bs" for c
    using queue_ok_ids(1) [OF assms(1)] assms(2) that by (auto simp: queue_ids_def batch_refs_def)
  then have "?R - batch_refs b = (\<Union>b \<in> set bs. batch_refs b)" unfolding R assms(2) by auto
  moreover have "card (?R - batch_refs b) \<le> card ?R" by (rule card_mono) auto
  moreover have "first + 1 \<le> sint (next_batch_id q)"
    using f assms(2) by (cases "first = sint (next_batch_id q)") (auto simp: queue_ids_def)
  ultimately have "queue_ok n (q\<lparr>queue := bs, batches_by_document_key := rows\<rparr>)"
    using rows(2,3) room ids f(1) by (auto simp: queue_ok_def queue_ids_def intro: exI [of _ "first + 1"])
  moreover have "RemoveMutationBatch RemoveMutationReference b (q, d) =
      Some (q\<lparr>queue := bs, batches_by_document_key := rows\<rparr>, fold noted (map mutation_key (mutations b)) d)"
    using assms(2) rows(1) by (simp add: RemoveMutationBatch_def HARD_ASSERT_def Let_def)
  ultimately show ?thesis by simp
qed

end

end
