(* ===== verification/PersistenceSpec.thy ===== *)
theory PersistenceSpec
  imports LocalStore MutationQueueSpec
begin

text \<open>
  Eager collection in memory: a document is referenced when a target, a batch of mutations or a
  view of the local store refers to it; a transaction that starts without garbage ends without
  garbage, and never drops a referenced document.
\<close>

section \<open>The invariant of the persistence\<close>

definition view_refs :: "('t, 'v, 'm) MemoryPersistence \<Rightarrow> reference_relation" where
  "view_refs p = (case additional_references p of None \<Rightarrow> {} | Some rs \<Rightarrow> refs rs)"

definition holders :: "reference_relation \<Rightarrow> DocumentKey set" where
  "holders R = {key. \<exists>i. (key, i) \<in> R \<and> 0 \<le> sint i}"

definition queued :: "(User \<times> 'm MemoryMutationQueue) list \<Rightarrow> DocumentKey set" where
  "queued qs = (\<Union>(u, q) \<in> set qs. \<Union>b \<in> set (queue q). batch_docs b)"

definition referenced :: "('t, 'v, 'm) MemoryPersistence \<Rightarrow> DocumentKey set" where
  "referenced p = holders (refs (references (target_cache p))) \<union> queued (mutation_queues p) \<union> holders (view_refs p)"

definition cached :: "('v::default) Documents \<Rightarrow> DocumentKey set" where
  "cached ds = fst ` set (sm_entries ds)"

text \<open>Well-formed, with room for \<open>n\<close> more entries in every sorted map.\<close>

definition persistence_ok :: "nat \<Rightarrow> ('t, 'v::default, 'm) MemoryPersistence \<Rightarrow> bool" where
  "persistence_ok n p \<longleftrightarrow> rs_ok n (references (target_cache p)) \<and>
     sm_wf (docs p) \<and> length (sm_entries (docs p)) + n < 2 ^ 31 \<and>
     distinct (map fst (mutation_queues p)) \<and> (\<forall>(u, q) \<in> set (mutation_queues p). queue_ok n q) \<and>
     (\<forall>rs. additional_references p = Some rs \<longrightarrow> rs_ok n rs)"

definition orphans :: "('t, 'v, 'm) MemoryPersistence \<Rightarrow> DocumentKey set \<Rightarrow> bool" where
  "orphans p s \<longleftrightarrow> reference_delegate p = Eager \<lparr>orphaned = Some s\<rparr> \<and> finite s"

lemma queue_ok_mono: "queue_ok n q \<Longrightarrow> m \<le> n \<Longrightarrow> queue_ok m q"
  by (auto simp: queue_ok_def)

lemma persistence_ok_mono:
  assumes "persistence_ok n p" "m \<le> n"
  shows "persistence_ok m p"
proof -
  have "\<forall>(u, q) \<in> set (mutation_queues p). queue_ok m q"
    using assms(1) queue_ok_mono [OF _ assms(2)] unfolding persistence_ok_def by blast
  with assms rs_ok_mono [OF _ assms(2)] show ?thesis by (auto simp: persistence_ok_def)
qed

lemma queues_contain:
  "(\<forall>(u, q) \<in> set qs. queue_ok n q) \<Longrightarrow> MutationQueuesContainKey key qs = Some (key \<in> queued qs)"
  by (induction qs) (auto simp: queue_contains_key queued_def)

lemma references_contain:
  "rs_ok n rs \<Longrightarrow> ContainsKey key rs = Some (key \<in> holders (refs rs))"
  by (simp add: ContainsKey_refs holders_def)

lemma additional_contains:
  "persistence_ok n p \<Longrightarrow> additional_contain key (additional_references p) = Some (key \<in> holders (view_refs p))"
  by (cases "additional_references p")
    (auto simp: additional_contain_def view_refs_def holders_def persistence_ok_def references_contain)

lemma IsReferenced_referenced:
  assumes "persistence_ok n p"
  shows "IsReferenced key p = Some (key \<in> referenced p)"
  using assms queues_contain [of "mutation_queues p" n key] additional_contains [OF assms, of key]
  by (auto simp: IsReferenced_def cache_Contains_def references_contain persistence_ok_def referenced_def)

lemma IsPinned_referenced:
  assumes "persistence_ok n p"
  shows "IsPinnedAtSequenceNumber upper key d p =
    Some (key \<in> referenced p \<or> (\<exists>m. map_of (sequence_numbers d) key = Some m \<and> sint upper < sint m))"
  using assms queues_contain [of "mutation_queues p" n key] additional_contains [OF assms, of key]
  by (auto simp: IsPinnedAtSequenceNumber_def cache_Contains_def references_contain persistence_ok_def referenced_def
      split: option.splits)

section \<open>The notes of the delegates\<close>

fun delegate_ready :: "ReferenceDelegate \<Rightarrow> bool" where
  "delegate_ready (Eager d) \<longleftrightarrow> orphaned d \<noteq> None"
| "delegate_ready (Lru d) \<longleftrightarrow> True"

fun delegate_note :: "DocumentKey \<Rightarrow> ReferenceDelegate \<Rightarrow> ReferenceDelegate" where
  "delegate_note key (Eager d) = Eager (d\<lparr>orphaned := map_option (insert key) (orphaned d)\<rparr>)"
| "delegate_note key (Lru d) = Lru (touch key d)"

interpretation delegate: mutation_delegate delegate_RemoveMutationReference delegate_ready delegate_note
proof
  fix d key assume "delegate_ready d"
  then show "delegate_RemoveMutationReference key d = Some (delegate_note key d) \<and> delegate_ready (delegate_note key d)"
    by (cases d) (auto simp: with_orphaned_def)
qed

lemma note_all: "fold delegate_note keys (Eager \<lparr>orphaned = Some s\<rparr>) = Eager \<lparr>orphaned = Some (set keys \<union> s)\<rparr>"
  by (induction keys arbitrary: s) simp_all

lemma remove_all_references:
  "for_each delegate_RemoveReference keys (Eager \<lparr>orphaned = Some s\<rparr>) = Some (Eager \<lparr>orphaned = Some (set keys \<union> s)\<rparr>)"
  by (induction keys arbitrary: s) (simp_all add: with_orphaned_def)

lemma add_all_references:
  "for_each delegate_AddReference keys (Eager \<lparr>orphaned = Some s\<rparr>) = Some (Eager \<lparr>orphaned = Some (s - set keys)\<rparr>)"
proof (induction keys arbitrary: s)
  case (Cons k ks)
  moreover have "s - {k} - set ks = s - set (k # ks)" by auto
  ultimately show ?case by (simp add: with_orphaned_def)
qed simp

lemma orphan_all:
  "for_each (\<lambda>key. with_orphaned (insert key)) keys \<lparr>orphaned = Some s\<rparr> = Some \<lparr>orphaned = Some (set keys \<union> s)\<rparr>"
  by (induction keys arbitrary: s) (simp_all add: with_orphaned_def)

section \<open>Committing\<close>

lemma documents_Remove_cached:
  assumes "sm_wf ds"
  shows "\<exists>ds'. documents_Remove key ds = Some ds' \<and> sm_wf ds' \<and> sm_entries ds' = erased key (sm_entries ds)"
  using sm.erase_entries [OF assms, of key] by (simp add: documents_Remove_def)

lemma referenced_docs [simp]: "referenced (p\<lparr>docs := ds\<rparr>) = referenced p"
  "referenced (p\<lparr>reference_delegate := d\<rparr>) = referenced p"
  by (simp_all add: referenced_def view_refs_def)

lemma persistence_ok_docs:
  assumes "persistence_ok n p" "sm_wf ds" "length (sm_entries ds) \<le> length (sm_entries (docs p))"
  shows "persistence_ok n (p\<lparr>docs := ds\<rparr>)"
  using assms by (simp add: persistence_ok_def)

lemma collect_orphans:
  assumes "persistence_ok n p"
  shows "\<exists>ds. for_each (\<lambda>key p. do {
       is_referenced \<leftarrow> IsReferenced key p;
       if is_referenced then Some p
       else do { ds \<leftarrow> documents_Remove key (docs p); Some (p\<lparr>docs := ds\<rparr>) } }) keys p = Some (p\<lparr>docs := ds\<rparr>) \<and>
     persistence_ok n (p\<lparr>docs := ds\<rparr>) \<and>
     sm_entries ds = filter (\<lambda>e. fst e \<in> set keys \<longrightarrow> fst e \<in> referenced p) (sm_entries (docs p))"
  using assms
proof (induction keys arbitrary: p)
  case Nil
  then show ?case by (intro exI [of _ "docs p"]) simp
next
  case (Cons key keys)
  note ref = IsReferenced_referenced [OF Cons.prems, of key]
  show ?case
  proof (cases "key \<in> referenced p")
    case True
    have "(\<lambda>e. fst e \<in> set (key # keys) \<longrightarrow> fst e \<in> referenced p) =
        (\<lambda>e. fst e \<in> set keys \<longrightarrow> fst e \<in> referenced p)" using True by auto
    with Cons.IH [OF Cons.prems] ref True show ?thesis by simp
  next
    case False
    have wf: "sm_wf (docs p)" using Cons.prems by (simp add: persistence_ok_def)
    obtain ds where ds: "documents_Remove key (docs p) = Some ds" "sm_wf ds" "sm_entries ds = erased key (sm_entries (docs p))"
      using documents_Remove_cached [OF wf] by blast
    have ok: "persistence_ok n (p\<lparr>docs := ds\<rparr>)"
      using persistence_ok_docs [OF Cons.prems ds(2)] ds(3) length_erased [of key "sm_entries (docs p)"] by simp
    have "filter (\<lambda>e. fst e \<in> set keys \<longrightarrow> fst e \<in> referenced p) (erased key (sm_entries (docs p))) =
        filter (\<lambda>e. fst e \<in> set (key # keys) \<longrightarrow> fst e \<in> referenced p) (sm_entries (docs p))"
      unfolding erased_def filter_filter using False by (intro filter_cong) auto
    with Cons.IH [OF ok] ref False ds show ?thesis by simp
  qed
qed

lemma commit_eager:
  assumes "persistence_ok n p" "orphans p s"
  shows "\<exists>ds. OnTransactionCommitted p = Some (p\<lparr>docs := ds, reference_delegate := Eager \<lparr>orphaned = None\<rparr>\<rparr>) \<and>
    persistence_ok n (p\<lparr>docs := ds\<rparr>) \<and>
    sm_entries ds = filter (\<lambda>e. fst e \<in> s \<longrightarrow> fst e \<in> referenced p) (sm_entries (docs p))"
  using assms(2) collect_orphans [OF assms(1), of "sorted_list_of_set s"]
  by (auto simp: OnTransactionCommitted_def orphans_def)

end
