(* ===== verification/EagerCollection.thy ===== *)
theory EagerCollection
  imports PersistenceSpec
begin

text \<open>
  Transactions under eager collection.  Every change of the references tells the delegate which
  documents may have lost their last reference, so that each cached document is referenced or
  noted as an orphan when the transaction commits.
\<close>

section \<open>The changes a transaction is made of\<close>

datatype ('t, 'm, 'v) change =
    Match_keys DocumentKeySet s32
  | Unmatch_keys DocumentKeySet s32
  | Drop_target "'t TargetData"
  | Write_batch User Timestamp "'m Mutation list" "'m Mutation list"
  | Remove_batch User "'m MutationBatch"
  | Store_document "'v MutableDocument" SnapshotVersion
  | Forget_document DocumentKey
  | Limbo_document DocumentKey
  | Change_view LocalViewChanges
  | Release_view s32
  | Forget_matching s32

fun run_change ::
  "('t, 'm, 'v::default) change \<Rightarrow> ('t, 'v, 'm) MemoryPersistence \<Rightarrow> ('t, 'v, 'm) MemoryPersistence option" where
  "run_change (Match_keys keys i) p = AddMatchingKeys keys i p"
| "run_change (Unmatch_keys keys i) p = RemoveMatchingKeys keys i p"
| "run_change (Drop_target d) p = delegate_RemoveTarget d p"
| "run_change (Write_batch user t base ms) p = map_option snd (persistence_AddMutationBatch user t base ms p)"
| "run_change (Remove_batch user b) p = persistence_RemoveMutationBatch user b p"
| "run_change (Store_document d t) p = documents_Add d t p"
| "run_change (Forget_document key) p = map_option (\<lambda>ds. p\<lparr>docs := ds\<rparr>) (documents_Remove key (docs p))"
| "run_change (Limbo_document key) p = UpdateLimboDocument key p"
| "run_change (Change_view c) p = change_references c p"
| "run_change (Release_view i) p = release_references i p"
| "run_change (Forget_matching i) p =
     map_option (\<lambda>c. p\<lparr>target_cache := c\<rparr>) (RemoveMatchingKeysForTarget i (target_cache p))"

text \<open>How many entries a change can add to a sorted map.\<close>

fun cost :: "('t, 'm, 'v) change \<Rightarrow> nat" where
  "cost (Match_keys keys i) = card (keys_of keys)"
| "cost (Write_batch user t base ms) = length ms"
| "cost (Store_document d t) = 1"
| "cost (Change_view c) = card (keys_of (added_keys c))"
| "cost _ = 0"

definition valid_id :: "s32 \<Rightarrow> bool" where
  "valid_id i \<longleftrightarrow> 0 \<le> sint i \<and> sint i < 2 ^ 31 - 1"

definition user_queue :: "User \<Rightarrow> ('t, 'v, 'm) MemoryPersistence \<Rightarrow> 'm MemoryMutationQueue" where
  "user_queue user p = fst (GetMutationQueueForUser user p)"

definition orphan_set :: "('t, 'v, 'm) MemoryPersistence \<Rightarrow> DocumentKey set" where
  "orphan_set p = (case reference_delegate p of
     Eager e \<Rightarrow> (case orphaned e of Some s \<Rightarrow> s | None \<Rightarrow> {})
   | Lru l \<Rightarrow> {})"

text \<open>
  What the local store keeps to: well-formed sets of keys, ids of targets, batches that are not empty
  and have keys of documents, removal of the batch at the head of its queue.
\<close>

fun legal :: "('t, 'm, 'v::default) change \<Rightarrow> ('t, 'v, 'm) MemoryPersistence \<Rightarrow> bool" where
  "legal (Match_keys keys i) p \<longleftrightarrow> sm_wf keys \<and> valid_id i"
| "legal (Unmatch_keys keys i) p \<longleftrightarrow> sm_wf keys"
| "legal (Drop_target d) p \<longleftrightarrow> valid_id (target_id d)"
| "legal (Write_batch user t base ms) p \<longleftrightarrow> ms \<noteq> [] \<and> (\<forall>m \<in> set ms. valid_document (mutation_key m)) \<and>
     sint (next_batch_id (user_queue user p)) < 2 ^ 31 - 1"
| "legal (Remove_batch user b) p \<longleftrightarrow> (\<exists>bs. queue (user_queue user p) = b # bs)"
| "legal (Store_document d t) p \<longleftrightarrow> valid_document (document_key d)"
| "legal (Forget_document key) p \<longleftrightarrow> True"
| "legal (Limbo_document key) p \<longleftrightarrow> True"
| "legal (Change_view c) p \<longleftrightarrow> sm_wf (added_keys c) \<and> sm_wf (removed_keys c) \<and> valid_id (view_target_id c) \<and>
     additional_references p \<noteq> None"
| "legal (Release_view i) p \<longleftrightarrow> valid_id i \<and> additional_references p \<noteq> None"
| "legal (Forget_matching i) p \<longleftrightarrow> sint i < 2 ^ 31 - 1"

text \<open>
  The documents a change can leave unreferenced without a note to the delegate: the ones that match a
  target when \<open>RemoveMatchingKeysForTarget\<close> drops its references, and one that is stored while
  nothing refers to it.
\<close>

fun leaks :: "('t, 'm, 'v::default) change \<Rightarrow> ('t, 'v, 'm) MemoryPersistence \<Rightarrow> DocumentKey set" where
  "leaks (Forget_matching i) p = keys_with i (refs (references (target_cache p)))"
| "leaks (Store_document d t) p = {document_key d} - (referenced p \<union> orphan_set p)"
| "leaks _ p = {}"

fun leaked :: "('t, 'm, 'v::default) change list \<Rightarrow> ('t, 'v, 'm) MemoryPersistence \<Rightarrow> DocumentKey set" where
  "leaked [] p = {}"
| "leaked (ch # chs) p = leaks ch p \<union> (case run_change ch p of None \<Rightarrow> {} | Some p' \<Rightarrow> leaked chs p')"

text \<open>The state inside a transaction: what is cached is referenced, or noted, or in the leaked set \<open>G\<close>.\<close>

definition covered :: "nat \<Rightarrow> DocumentKey set \<Rightarrow> ('t, 'v::default, 'm) MemoryPersistence \<Rightarrow> bool" where
  "covered n G p \<longleftrightarrow> persistence_ok n p \<and> orphans p (orphan_set p) \<and> cached (docs p) \<subseteq> referenced p \<union> orphan_set p \<union> G"

lemma orphan_set_eq: "orphans p s \<Longrightarrow> orphan_set p = s"
  by (simp add: orphans_def orphan_set_def)

lemma covered_keep:
  assumes "covered n G p" "persistence_ok m p'" "orphans p' s'" "docs p' = docs p"
    and "referenced p \<subseteq> referenced p' \<union> s'" "orphan_set p \<subseteq> referenced p' \<union> s'"
  shows "covered m G p'"
  using assms orphan_set_eq [OF assms(3)] by (auto simp: covered_def)

lemma orphans_delegate:
  "orphans p s \<longleftrightarrow> reference_delegate p = Eager \<lparr>orphaned = Some s\<rparr> \<and> finite s"
  by (simp add: orphans_def)

lemma match_covered:
  assumes c: "covered (n + card (keys_of keys)) G p" and keys: "sm_wf keys" "valid_id i"
  shows "\<exists>p'. AddMatchingKeys keys i p = Some p' \<and> covered n G p'"
proof -
  let ?rs = "references (target_cache p)"
  have ok: "persistence_ok (n + card (keys_of keys)) p" and o: "orphans p (orphan_set p)"
    using c by (simp_all add: covered_def)
  obtain rs where rs: "AddReferences keys i ?rs = Some rs" "rs_ok n rs" "refs rs = refs ?rs \<union> keys_of keys \<times> {i}"
    using AddReferences_refs [of n keys ?rs i] ok keys(1) by (auto simp: persistence_ok_def)
  obtain ks where ks: "set_values keys = Some ks" "set ks = keys_of keys" using set_values_keys [OF keys(1)] by simp
  let ?p = "p\<lparr>target_cache := (target_cache p)\<lparr>references := rs\<rparr>, reference_delegate := Eager \<lparr>orphaned = Some (orphan_set p - keys_of keys)\<rparr>\<rparr>"
  have run: "AddMatchingKeys keys i p = Some ?p"
    using rs(1) ks o add_all_references [of ks "orphan_set p"] by (simp add: AddMatchingKeys_def orphans_def)
  have ref: "referenced ?p = referenced p \<union> keys_of keys"
    using keys(2) by (auto simp: referenced_def rs(3) holders_def view_refs_def valid_id_def)
  have "persistence_ok n p" by (rule persistence_ok_mono [OF ok]) simp
  then have "persistence_ok n ?p" using rs(2) by (simp add: persistence_ok_def)
  moreover have "orphans ?p (orphan_set p - keys_of keys)" using o by (simp add: orphans_def)
  ultimately have "covered n G ?p"
    by (rule covered_keep [OF c]) (use ref in \<open>(simp; fail) | blast\<close>)+
  with run show ?thesis by blast
qed

lemma unmatch_covered:
  assumes c: "covered n G p" and keys: "sm_wf keys"
  shows "\<exists>p'. RemoveMatchingKeys keys i p = Some p' \<and> covered n G p'"
proof -
  let ?rs = "references (target_cache p)"
  have ok: "persistence_ok n p" and o: "orphans p (orphan_set p)" using c by (simp_all add: covered_def)
  obtain rs where rs: "RemoveReferences keys i ?rs = Some rs" "rs_ok n rs" "refs rs = refs ?rs - keys_of keys \<times> {i}"
    using RemoveReferences_refs [of n ?rs keys i] ok keys by (auto simp: persistence_ok_def)
  obtain ks where ks: "set_values keys = Some ks" "set ks = keys_of keys" using set_values_keys [OF keys] by simp
  let ?p = "p\<lparr>target_cache := (target_cache p)\<lparr>references := rs\<rparr>, reference_delegate := Eager \<lparr>orphaned = Some (keys_of keys \<union> orphan_set p)\<rparr>\<rparr>"
  have run: "RemoveMatchingKeys keys i p = Some ?p"
    using rs(1) ks o remove_all_references [of ks "orphan_set p"] by (simp add: RemoveMatchingKeys_def orphans_def)
  have ref: "referenced p \<subseteq> referenced ?p \<union> keys_of keys"
    by (auto simp: referenced_def rs(3) holders_def view_refs_def)
  have "persistence_ok n ?p" using ok rs(2) by (simp add: persistence_ok_def)
  moreover have "orphans ?p (keys_of keys \<union> orphan_set p)" using o by (simp add: orphans_def)
  ultimately have "covered n G ?p"
    by (rule covered_keep [OF c]) (use ref in \<open>(simp; fail) | blast\<close>)+
  with run show ?thesis by blast
qed


lemma keep_some_refs:
  assumes "R' \<union> K \<times> UNIV \<supseteq> R"
  shows "holders R \<subseteq> holders R' \<union> K"
  using assms by (fastforce simp: holders_def)

lemma keys_with_drop: "R \<subseteq> {p \<in> R. snd p \<noteq> i} \<union> keys_with i R \<times> UNIV"
  by (auto simp: keys_with_def)

lemma referenced_parts:
  "referenced p \<subseteq> referenced p' \<union> K"
  if "holders (refs (references (target_cache p))) \<subseteq> holders (refs (references (target_cache p'))) \<union> K"
    "queued (mutation_queues p) \<subseteq> queued (mutation_queues p') \<union> K"
    "holders (view_refs p) \<subseteq> holders (view_refs p') \<union> K"
  using that by (auto simp: referenced_def)

lemma covered_note:
  assumes "covered n G p" "persistence_ok m p'" "orphans p' (K \<union> orphan_set p)" "docs p' = docs p"
    and "referenced p \<subseteq> referenced p' \<union> K"
  shows "covered m G p'"
  by (rule covered_keep [OF assms(1-4)]) (use assms(5) in blast)+

lemma drop_covered:
  assumes c: "covered n G p" and i: "valid_id (target_id d)"
  shows "\<exists>p'. delegate_RemoveTarget d p = Some p' \<and> covered n G p'"
proof -
  let ?rs = "references (target_cache p)" and ?i = "target_id d"
  have ok: "persistence_ok n p" and o: "orphans p (orphan_set p)" using c by (simp_all add: covered_def)
  have i': "sint ?i < 2 ^ 31 - 1" using i by (simp add: valid_id_def)
  have rsok: "rs_ok n ?rs" using ok by (simp add: persistence_ok_def)
  obtain ks where ks: "ReferencedKeys ?i ?rs = Some ks" "sm_wf ks" "keys_of ks = keys_with ?i (refs ?rs)"
    using ReferencedKeys_refs [OF rsok i'] by blast
  obtain keys where keys: "set_values ks = Some keys" "set keys = keys_of ks" using set_values_keys [OF ks(2)] by simp
  obtain removed rs where rs: "RemoveReferences_of_id ?i ?rs = Some (removed, rs)" "rs_ok n rs"
    "refs rs = {p \<in> refs ?rs. snd p \<noteq> ?i}" using RemoveReferences_of_id_refs [OF rsok i'] by blast
  let ?c = "(target_cache p)\<lparr>targets := AList.delete (data_target d) (targets (target_cache p)), references := rs\<rparr>"
  let ?p = "p\<lparr>target_cache := ?c, reference_delegate := Eager \<lparr>orphaned = Some (keys_of ks \<union> orphan_set p)\<rparr>\<rparr>"
  have run: "delegate_RemoveTarget d p = Some ?p"
    using o ks(1) keys rs(1) orphan_all [of keys "orphan_set p"]
    by (simp add: delegate_RemoveTarget_def orphans_def GetMatchingKeys_def cache_RemoveTarget_def Let_def)
  have "holders (refs ?rs) \<subseteq> holders (refs rs) \<union> keys_of ks"
    unfolding rs(3) ks(3) by (rule keep_some_refs, rule keys_with_drop)
  then have ref: "referenced p \<subseteq> referenced ?p \<union> keys_of ks"
    by (intro referenced_parts) (auto simp: view_refs_def)
  have "persistence_ok n ?p" using ok rs(2) by (simp add: persistence_ok_def)
  moreover have "orphans ?p (keys_of ks \<union> orphan_set p)" using o by (simp add: orphans_def)
  ultimately have "covered n G ?p" by (rule covered_note [OF c]) (use ref in simp_all)
  with run show ?thesis by blast
qed

section \<open>Changes of the queues\<close>

definition queue_docs :: "'m MemoryMutationQueue \<Rightarrow> DocumentKey set" where
  "queue_docs q = (\<Union>b \<in> set (queue q). batch_docs b)"

lemma queued_docs: "queued qs = (\<Union>(u, q) \<in> set qs. queue_docs q)"
  by (simp add: queued_def queue_docs_def)

lemma set_update:
  "distinct (map fst qs) \<Longrightarrow> set (AList.update u q qs) = insert (u, q) {(v, r) \<in> set qs. v \<noteq> u}"
  by (induction qs) (auto simp: image_iff)

lemma GetMutationQueueForUser_eq:
  "GetMutationQueueForUser user p = (user_queue user p,
     if map_of (mutation_queues p) user = None
     then p\<lparr>mutation_queues := AList.update user MemoryMutationQueue_init (mutation_queues p)\<rparr> else p)"
  by (auto simp: user_queue_def GetMutationQueueForUser_def Let_def split: option.splits)

lemma update_twice:
  "mutation_queues (if b then p\<lparr>mutation_queues := AList.update u q (mutation_queues p)\<rparr> else p) = qs \<Longrightarrow>
   AList.update u r qs = AList.update u r (mutation_queues p)"
  by (auto split: if_splits)

lemma user_queue_ok:
  assumes "persistence_ok n p"
  shows "queue_ok n (user_queue user p)"
proof (cases "map_of (mutation_queues p) user")
  case None
  then show ?thesis using assms by (simp add: user_queue_def GetMutationQueueForUser_def Let_def queue_ok_init persistence_ok_def)
next
  case (Some q)
  then have "(user, q) \<in> set (mutation_queues p)" by (rule map_of_SomeD)
  with Some assms show ?thesis
    by (auto simp: user_queue_def GetMutationQueueForUser_def persistence_ok_def)
qed

lemma queued_update:
  assumes "distinct (map fst (mutation_queues p))" "queue_docs (user_queue user p) \<subseteq> queue_docs q \<union> K"
  shows "queued (mutation_queues p) \<subseteq> queued (AList.update user q (mutation_queues p)) \<union> K"
proof -
  have "r = user_queue user p" if "(user, r) \<in> set (mutation_queues p)" for r
    using that assms(1) by (simp add: user_queue_def GetMutationQueueForUser_def)
  with assms(2) show ?thesis unfolding queued_docs set_update [OF assms(1)] by fastforce
qed

lemma persistence_ok_update:
  assumes "persistence_ok n p" "queue_ok n q"
  shows "persistence_ok n (p\<lparr>mutation_queues := AList.update user q (mutation_queues p)\<rparr>)"
proof -
  have "distinct (map fst (mutation_queues p))" using assms(1) by (simp add: persistence_ok_def)
  from set_update [OF this, of user q] distinct_update [OF this, of user q] assms show ?thesis
    by (auto simp: persistence_ok_def)
qed

lemma write_covered:
  assumes c: "covered (n + length ms) G p" and ms: "ms \<noteq> []" "\<forall>m \<in> set ms. valid_document (mutation_key m)"
    and nxt: "sint (next_batch_id (user_queue user p)) < 2 ^ 31 - 1"
  shows "\<exists>b p'. persistence_AddMutationBatch user t base ms p = Some (b, p') \<and> covered n G p'"
proof -
  let ?q = "user_queue user p"
  have ok: "persistence_ok (n + length ms) p" and o: "orphans p (orphan_set p)" using c by (simp_all add: covered_def)
  define p1 where "p1 = snd (GetMutationQueueForUser user p)"
  have p1: "GetMutationQueueForUser user p = (?q, p1)" "p1 = p\<lparr>mutation_queues := mutation_queues p1\<rparr>"
    "AList.update user q (mutation_queues p1) = AList.update user q (mutation_queues p)" for q
    by (auto simp: p1_def GetMutationQueueForUser_eq)
  obtain b q' index' where q': "AddMutationBatch t base ms (?q, index_manager p1) = Some (b, q', index')"
    "queue_ok n q'" "queue q' = queue ?q @ [b]"
    using AddMutationBatch_ok [OF user_queue_ok [OF ok, of user] nxt ms, of t base "index_manager p1"] by blast
  let ?p = "p\<lparr>mutation_queues := AList.update user q' (mutation_queues p), index_manager := index'\<rparr>"
  have run: "persistence_AddMutationBatch user t base ms p = Some (b, ?p)"
  proof -
    have "p1\<lparr>mutation_queues := AList.update user q' (mutation_queues p1), index_manager := index'\<rparr> = ?p"
      using p1(2,3) by (metis MemoryPersistence.surjective MemoryPersistence.update_convs(3))
    then show ?thesis using p1(1) q'(1) by (simp add: persistence_AddMutationBatch_def)
  qed
  have "persistence_ok n p" by (rule persistence_ok_mono [OF ok]) simp
  from persistence_ok_update [OF this q'(2), of user] have ok': "persistence_ok n ?p" by (simp add: persistence_ok_def)
  have "queue_docs ?q \<subseteq> queue_docs q' \<union> {}" by (auto simp: queue_docs_def q'(3))
  then have "queued (mutation_queues p) \<subseteq> queued (mutation_queues ?p) \<union> {}"
    using queued_update [of p user q' "{}"] ok by (simp add: persistence_ok_def)
  then have "referenced p \<subseteq> referenced ?p \<union> {}" by (intro referenced_parts) (simp_all add: view_refs_def)
  then have "covered n G ?p"
    by (intro covered_note [OF c ok', of "{}"]) (use o in \<open>simp_all add: orphans_def\<close>)
  with run show ?thesis by blast
qed

lemma remove_covered:
  assumes c: "covered n G p" and b: "queue (user_queue user p) = b # bs"
  shows "\<exists>p'. persistence_RemoveMutationBatch user b p = Some p' \<and> covered n G p'"
proof -
  let ?q = "user_queue user p"
  have ok: "persistence_ok n p" and o: "orphans p (orphan_set p)" using c by (simp_all add: covered_def)
  define p1 where "p1 = snd (GetMutationQueueForUser user p)"
  have p1: "GetMutationQueueForUser user p = (?q, p1)" "p1 = p\<lparr>mutation_queues := mutation_queues p1\<rparr>"
    "reference_delegate p1 = reference_delegate p"
    "AList.update user q (mutation_queues p1) = AList.update user q (mutation_queues p)" for q
    by (auto simp: p1_def GetMutationQueueForUser_eq)
  have d: "reference_delegate p = Eager \<lparr>orphaned = Some (orphan_set p)\<rparr>" "delegate_ready (reference_delegate p)"
    using o by (simp_all add: orphans_def)
  obtain q' where q': "RemoveMutationBatch delegate_RemoveMutationReference b (?q, reference_delegate p) =
      Some (q', Eager \<lparr>orphaned = Some (batch_docs b \<union> orphan_set p)\<rparr>)" "queue_ok n q'" "queue q' = bs"
    using delegate.remove_head [OF user_queue_ok [OF ok] b d(2)] by (auto simp: d(1) note_all batch_docs_def)
  let ?p = "p\<lparr>mutation_queues := AList.update user q' (mutation_queues p),
      reference_delegate := Eager \<lparr>orphaned = Some (batch_docs b \<union> orphan_set p)\<rparr>\<rparr>"
  have run: "persistence_RemoveMutationBatch user b p = Some ?p"
  proof -
    have "p1\<lparr>mutation_queues := AList.update user q' (mutation_queues p1),
        reference_delegate := Eager \<lparr>orphaned = Some (batch_docs b \<union> orphan_set p)\<rparr>\<rparr> = ?p"
      using p1(2,4) by (metis MemoryPersistence.surjective MemoryPersistence.update_convs(3))
    then show ?thesis using p1(1,3) q'(1) by (simp add: persistence_RemoveMutationBatch_def)
  qed
  from persistence_ok_update [OF ok q'(2), of user] have ok': "persistence_ok n ?p" by (simp add: persistence_ok_def)
  have "queue_docs ?q \<subseteq> queue_docs q' \<union> batch_docs b" by (auto simp: queue_docs_def q'(3) b)
  then have "queued (mutation_queues p) \<subseteq> queued (mutation_queues ?p) \<union> batch_docs b"
    using queued_update [of p user q' "batch_docs b"] ok by (simp add: persistence_ok_def)
  then have "referenced p \<subseteq> referenced ?p \<union> batch_docs b"
    by (intro referenced_parts) (simp_all add: view_refs_def)
  then have "covered n G ?p"
    by (intro covered_note [OF c ok', of "batch_docs b"]) (use o in \<open>simp_all add: orphans_def batch_docs_def\<close>)
  with run show ?thesis by blast
qed


section \<open>Changes of the documents and the views\<close>

lemma store_covered:
  assumes c: "covered (Suc n) G p" and d: "valid_document (document_key d)" "{document_key d} - (referenced p \<union> orphan_set p) \<subseteq> G"
  shows "\<exists>p'. documents_Add d t p = Some p' \<and> covered n G p'"
proof -
  let ?k = "document_key d"
  have ok: "persistence_ok (Suc n) p" and o: "orphans p (orphan_set p)" using c by (simp_all add: covered_def)
  have wf: "sm_wf (docs p)" "length (sm_entries (docs p)) < 2 ^ 31 - 1" and len: "length (sm_entries (docs p)) + Suc n < 2 ^ 31"
    using ok by (simp_all add: persistence_ok_def)
  obtain ds where ds: "sm_insert Compare ?k (d, t) (docs p) = Some ds" "sm_wf ds"
    "sm_entries ds = inserted ?k (d, t) (sm_entries (docs p))"
    using sm.insert_entries [OF wf, of ?k "(d, t)"] by blast
  obtain collection index' where col: "PopLast ?k = Some collection"
    "AddToCollectionParentIndex collection (index_manager p) = Some index'"
    using add_parent [OF d(1), of "index_manager p"] by (auto simp: bind_eq_Some_conv)
  let ?p = "p\<lparr>docs := ds, index_manager := index'\<rparr>"
  have run: "documents_Add d t p = Some ?p" using ds(1) col by (simp add: documents_Add_def)
  have refs: "referenced ?p = referenced p" by (simp add: referenced_def view_refs_def)
  have "persistence_ok n p" by (rule persistence_ok_mono [OF ok]) simp
  moreover have "length (sm_entries ds) \<le> Suc (length (sm_entries (docs p)))" by (simp add: ds(3) length_inserted)
  ultimately have "persistence_ok n ?p" using ds(2) len by (simp add: persistence_ok_def)
  moreover have "cached ds \<subseteq> insert ?k (cached (docs p))"
    by (auto simp: cached_def ds(3) inserted_def)
  ultimately have "covered n G ?p"
    using c d(2) o refs by (auto simp: covered_def orphans_def orphan_set_def)
  with run show ?thesis by blast
qed

lemma forget_covered:
  assumes c: "covered n G p"
  shows "\<exists>ds. documents_Remove key (docs p) = Some ds \<and> covered n G (p\<lparr>docs := ds\<rparr>)"
proof -
  have ok: "persistence_ok n p" "sm_wf (docs p)" using c by (simp_all add: covered_def persistence_ok_def)
  obtain ds where ds: "documents_Remove key (docs p) = Some ds" "sm_wf ds" "sm_entries ds = erased key (sm_entries (docs p))"
    using documents_Remove_cached [OF ok(2)] by blast
  have "persistence_ok n (p\<lparr>docs := ds\<rparr>)"
    using persistence_ok_docs [OF ok(1) ds(2)] ds(3) length_erased [of key "sm_entries (docs p)"] by simp
  moreover have "cached ds \<subseteq> cached (docs p)" by (auto simp: cached_def ds(3) erased_def)
  ultimately have "covered n G (p\<lparr>docs := ds\<rparr>)" using c by (auto simp: covered_def orphans_def orphan_set_def)
  with ds(1) show ?thesis by blast
qed

lemma limbo_covered:
  assumes c: "covered n G p"
  shows "\<exists>p'. UpdateLimboDocument key p = Some p' \<and> covered n G p'"
proof -
  have ok: "persistence_ok n p" and o: "orphans p (orphan_set p)" using c by (simp_all add: covered_def)
  let ?s = "if key \<in> referenced p then orphan_set p - {key} else insert key (orphan_set p)"
  let ?p = "p\<lparr>reference_delegate := Eager \<lparr>orphaned = Some ?s\<rparr>\<rparr>"
  have run: "UpdateLimboDocument key p = Some ?p"
    using o by (simp add: UpdateLimboDocument_def orphans_def IsReferenced_referenced [OF ok] with_orphaned_def)
  have "persistence_ok n ?p" "orphans ?p ?s" using ok o by (simp_all add: persistence_ok_def orphans_def)
  then have "covered n G ?p" by (rule covered_keep [OF c]) auto
  with run show ?thesis by blast
qed

lemma note_references:
  assumes "orphans p s" "sm_wf keys"
  shows "\<exists>ks. set_values keys = Some ks \<and>
    with_delegate (for_each delegate_RemoveReference ks) p =
      Some (p\<lparr>reference_delegate := Eager \<lparr>orphaned = Some (keys_of keys \<union> s)\<rparr>\<rparr>)"
proof -
  obtain ks where "set_values keys = Some ks" "set ks = keys_of keys" using set_values_keys [OF assms(2)] by simp
  then show ?thesis
    using assms(1) remove_all_references [of ks s] by (auto simp: with_delegate_def orphans_def)
qed

lemma view_covered:
  assumes c: "covered (n + card (keys_of (added_keys ch))) G p"
    and keys: "sm_wf (added_keys ch)" "sm_wf (removed_keys ch)" and refs: "additional_references p \<noteq> None"
  shows "\<exists>p'. change_references ch p = Some p' \<and> covered n G p'"
proof -
  let ?i = "view_target_id ch" and ?K = "keys_of (removed_keys ch)"
  have ok: "persistence_ok (n + card (keys_of (added_keys ch))) p" and o: "orphans p (orphan_set p)"
    using c by (simp_all add: covered_def)
  obtain rs0 where rs0: "additional_references p = Some rs0" using refs by blast
  then have "rs_ok (n + card (keys_of (added_keys ch))) rs0" using ok by (simp add: persistence_ok_def)
  from AddReferences_refs [OF this keys(1), of ?i] obtain rs1 where
    rs1: "AddReferences (added_keys ch) ?i rs0 = Some rs1" "rs_ok n rs1" "refs rs1 = refs rs0 \<union> keys_of (added_keys ch) \<times> {?i}" by blast
  from RemoveReferences_refs [OF rs1(2) keys(2), of ?i] obtain rs2 where
    rs2: "RemoveReferences (removed_keys ch) ?i rs1 = Some rs2" "rs_ok n rs2" "refs rs2 = refs rs1 - ?K \<times> {?i}" by blast
  let ?p = "p\<lparr>reference_delegate := Eager \<lparr>orphaned = Some (?K \<union> orphan_set p)\<rparr>, additional_references := Some rs2\<rparr>"
  have run: "change_references ch p = Some ?p"
    using note_references [OF o keys(2)] rs0 rs1(1) rs2(1)
    by (auto simp: change_references_def with_view_references_def Let_def)
  have "persistence_ok n p" by (rule persistence_ok_mono [OF ok]) simp
  then have ok': "persistence_ok n ?p" using rs2(2) by (simp add: persistence_ok_def)
  have "holders (view_refs p) \<subseteq> holders (view_refs ?p) \<union> ?K"
    by (rule keep_some_refs) (auto simp: view_refs_def rs0 rs1(3) rs2(3))
  then have "referenced p \<subseteq> referenced ?p \<union> ?K" by (intro referenced_parts) simp_all
  then have "covered n G ?p"
    by (intro covered_note [OF c ok', of ?K]) (use o in \<open>simp_all add: orphans_def\<close>)
  with run show ?thesis by blast
qed

lemma release_covered:
  assumes c: "covered n G p" and i: "valid_id i" and refs: "additional_references p \<noteq> None"
  shows "\<exists>p'. release_references i p = Some p' \<and> covered n G p'"
proof -
  have ok: "persistence_ok n p" and o: "orphans p (orphan_set p)" using c by (simp_all add: covered_def)
  obtain rs0 where rs0: "additional_references p = Some rs0" "rs_ok n rs0" using refs ok by (auto simp: persistence_ok_def)
  have "sint i < 2 ^ 31 - 1" using i by (simp add: valid_id_def)
  from RemoveReferences_of_id_refs [OF rs0(2) this] obtain removed rs where
    rs: "RemoveReferences_of_id i rs0 = Some (removed, rs)" "sm_wf removed" "rs_ok n rs"
    "keys_of removed = keys_with i (refs rs0)" "refs rs = {p \<in> refs rs0. snd p \<noteq> i}" by blast
  let ?K = "keys_of removed"
  let ?p = "p\<lparr>additional_references := Some rs, reference_delegate := Eager \<lparr>orphaned = Some (?K \<union> orphan_set p)\<rparr>\<rparr>"
  have o': "orphans (p\<lparr>additional_references := Some rs\<rparr>) (orphan_set p)" using o by (simp add: orphans_def)
  have run: "release_references i p = Some ?p"
    using note_references [OF o' rs(2)] rs0(1) rs(1) by (auto simp: release_references_def with_view_references_def)
  have ok': "persistence_ok n ?p" using ok rs(3) by (simp add: persistence_ok_def)
  have "holders (view_refs p) \<subseteq> holders (view_refs ?p) \<union> ?K"
    unfolding rs(4) using keys_with_drop [of "refs rs0" i] by (intro keep_some_refs) (simp add: view_refs_def rs0 rs(5))
  then have "referenced p \<subseteq> referenced ?p \<union> ?K" by (intro referenced_parts) simp_all
  then have "covered n G ?p"
    by (intro covered_note [OF c ok', of ?K]) (use o in \<open>simp_all add: orphans_def\<close>)
  with run show ?thesis by blast
qed

lemma forget_matching_covered:
  assumes c: "covered n G p" and i: "sint i < 2 ^ 31 - 1" and G: "keys_with i (refs (references (target_cache p))) \<subseteq> G"
  shows "\<exists>cache. RemoveMatchingKeysForTarget i (target_cache p) = Some cache \<and> covered n G (p\<lparr>target_cache := cache\<rparr>)"
proof -
  let ?rs = "references (target_cache p)"
  have ok: "persistence_ok n p" using c by (simp add: covered_def)
  then have "rs_ok n ?rs" by (simp add: persistence_ok_def)
  from RemoveReferences_of_id_refs [OF this i] obtain removed rs where
    rs: "RemoveReferences_of_id i ?rs = Some (removed, rs)" "rs_ok n rs" "refs rs = {p \<in> refs ?rs. snd p \<noteq> i}" by blast
  let ?c = "(target_cache p)\<lparr>references := rs\<rparr>" and ?K = "keys_with i (refs ?rs)"
  have "holders (refs ?rs) \<subseteq> holders (refs rs) \<union> ?K"
    unfolding rs(3) by (rule keep_some_refs, rule keys_with_drop)
  then have "referenced p \<subseteq> referenced (p\<lparr>target_cache := ?c\<rparr>) \<union> ?K"
    by (intro referenced_parts) (simp_all add: view_refs_def)
  then have "covered n G (p\<lparr>target_cache := ?c\<rparr>)"
    using c G ok rs(2) by (auto simp: covered_def persistence_ok_def orphans_def orphan_set_def)
  moreover have "RemoveMatchingKeysForTarget i (target_cache p) = Some ?c" by (simp add: RemoveMatchingKeysForTarget_def rs(1))
  ultimately show ?thesis by blast
qed

section \<open>Transactions\<close>

lemma change_covered:
  assumes "covered (n + cost ch) G p" "legal ch p" "leaks ch p \<subseteq> G"
  shows "\<exists>p'. run_change ch p = Some p' \<and> covered n G p'"
  using assms
proof (cases ch)
  case (Write_batch user t base ms)
  with assms write_covered [of n ms G p user t base] show ?thesis by auto
next
  case (Forget_document key)
  with assms forget_covered [of n G p key] show ?thesis by auto
next
  case (Forget_matching i)
  with assms forget_matching_covered [of n G p i] show ?thesis by auto
qed (auto simp: match_covered unmatch_covered drop_covered remove_covered store_covered limbo_covered view_covered release_covered)

fun legal_run :: "('t, 'm, 'v::default) change list \<Rightarrow> ('t, 'v, 'm) MemoryPersistence \<Rightarrow> bool" where
  "legal_run [] p \<longleftrightarrow> True"
| "legal_run (ch # chs) p \<longleftrightarrow> legal ch p \<and> (case run_change ch p of None \<Rightarrow> True | Some p' \<Rightarrow> legal_run chs p')"

lemma run_covered:
  assumes "covered (n + sum_list (map cost chs)) G p" "legal_run chs p" "leaked chs p \<subseteq> G"
  shows "\<exists>p'. for_each run_change chs p = Some p' \<and> covered n G p'"
  using assms
proof (induction chs arbitrary: p)
  case (Cons ch chs)
  have "covered ((n + sum_list (map cost chs)) + cost ch) G p" using Cons.prems(1) by (simp add: add.commute add.left_commute)
  from change_covered [OF this] Cons.prems(2,3) obtain p' where
    "run_change ch p = Some p'" "covered (n + sum_list (map cost chs)) G p'" by auto
  with Cons.IH [of p'] Cons.prems(2,3) show ?case by auto
qed simp

text \<open>Between transactions the set of orphans does not exist; garbage is what is cached and not referenced.\<close>

definition idle :: "nat \<Rightarrow> ('t, 'v::default, 'm) MemoryPersistence \<Rightarrow> bool" where
  "idle n p \<longleftrightarrow> persistence_ok n p \<and> reference_delegate p = Eager \<lparr>orphaned = None\<rparr>"

definition garbage :: "('t, 'v::default, 'm) MemoryPersistence \<Rightarrow> DocumentKey set" where
  "garbage p = cached (docs p) - referenced p"

lemma start_covered:
  assumes "idle n p" "garbage p \<subseteq> G"
  shows "OnTransactionStarted p = Some (p\<lparr>reference_delegate := Eager \<lparr>orphaned = Some {}\<rparr>\<rparr>)"
    "covered n G (p\<lparr>reference_delegate := Eager \<lparr>orphaned = Some {}\<rparr>\<rparr>)"
proof -
  have "referenced (p\<lparr>reference_delegate := Eager \<lparr>orphaned = Some {}\<rparr>\<rparr>) = referenced p" by (simp add: referenced_def view_refs_def)
  with assms show "OnTransactionStarted p = Some (p\<lparr>reference_delegate := Eager \<lparr>orphaned = Some {}\<rparr>\<rparr>)"
    "covered n G (p\<lparr>reference_delegate := Eager \<lparr>orphaned = Some {}\<rparr>\<rparr>)"
    by (auto simp: idle_def garbage_def OnTransactionStarted_def covered_def orphans_def orphan_set_def persistence_ok_def)
qed

lemma commit_covered:
  assumes c: "covered n G p"
  shows "\<exists>p' K. OnTransactionCommitted p = Some p' \<and> idle n p' \<and> referenced p' = referenced p \<and> K \<subseteq> G \<and>
    sm_entries (docs p') = filter (\<lambda>e. fst e \<in> referenced p \<union> K) (sm_entries (docs p))"
proof -
  obtain ds where ds: "OnTransactionCommitted p = Some (p\<lparr>docs := ds, reference_delegate := Eager \<lparr>orphaned = None\<rparr>\<rparr>)"
    "persistence_ok n (p\<lparr>docs := ds\<rparr>)"
    "sm_entries ds = filter (\<lambda>e. fst e \<in> orphan_set p \<longrightarrow> fst e \<in> referenced p) (sm_entries (docs p))"
    using c commit_eager [of n p "orphan_set p"] by (auto simp: covered_def)
  have "sm_entries ds = filter (\<lambda>e. fst e \<in> referenced p \<union> (G - orphan_set p)) (sm_entries (docs p))"
    unfolding ds(3) using c by (intro filter_cong) (auto simp: covered_def cached_def)
  moreover have "G - orphan_set p \<subseteq> G" by blast
  ultimately show ?thesis using ds(1,2) by (auto simp: idle_def persistence_ok_def intro!: exI [of _ "G - orphan_set p"])
qed

text \<open>
  C1: A transaction under eager collection never drops a live document, and the garbage it keeps is
  bounded.  From any state between transactions, a transaction of changes of references, documents,
  batches and views, in any order, succeeds; afterwards the cache holds, with their contents, exactly
  those documents of the end of the transaction that some target, queued batch or view refers to, and
  some of: the garbage there was before, the documents of targets whose references were dropped with
  \<open>RemoveMatchingKeysForTarget\<close>, and the documents stored while nothing referred to them.  When
  there are none of these, nothing cached is unreferenced.
\<close>

theorem transactions_collect_garbage:
  "idle (n + sum_list (map cost chs)) p \<Longrightarrow> OnTransactionStarted p = Some p0 \<Longrightarrow> legal_run chs p0 \<Longrightarrow>
   \<exists>p1 p' K. for_each run_change chs p0 = Some p1 \<and> RunInternal (for_each run_change chs) p = Some p' \<and>
     idle n p' \<and> referenced p' = referenced p1 \<and> K \<subseteq> garbage p \<union> leaked chs p0 \<and>
     sm_entries (docs p') = filter (\<lambda>e. fst e \<in> referenced p1 \<union> K) (sm_entries (docs p1)) \<and> garbage p' \<subseteq> K"
proof -
  let ?G = "garbage p \<union> leaked chs p0"
  assume p: "idle (n + sum_list (map cost chs)) p" "OnTransactionStarted p = Some p0" "legal_run chs p0"
  then have "covered (n + sum_list (map cost chs)) ?G p0" using start_covered [OF p(1), of ?G] by simp
  from run_covered [OF this p(3)] obtain p1 where p1: "for_each run_change chs p0 = Some p1" "covered n ?G p1" by blast
  from commit_covered [OF p1(2)] obtain p' K where p': "OnTransactionCommitted p1 = Some p'" "idle n p'"
    "referenced p' = referenced p1" "K \<subseteq> ?G"
    "sm_entries (docs p') = filter (\<lambda>e. fst e \<in> referenced p1 \<union> K) (sm_entries (docs p1))" by blast
  have "garbage p' \<subseteq> K" using p'(3,5) by (auto simp: garbage_def cached_def)
  with p p1(1) p' show ?thesis by (auto simp: RunInternal_def)
qed

definition limbo_key :: DocumentKey where
  "limbo_key = [[1], [2]]"

definition limbo_changes :: "(unit, unit, bytes) change list" where
  "limbo_changes = [Limbo_document limbo_key, Store_document (NoDocument limbo_key SnapshotVersion_None) SnapshotVersion_None]"

lemma idle_init: "n < 2 ^ 31 \<Longrightarrow> idle n (WithEagerGarbageCollector :: ('t, 'v::default, 'm) MemoryPersistence)"
  using rs_ok_init [of n]
  by (simp add: idle_def persistence_ok_def WithEagerGarbageCollector_def MemoryPersistence_init_def
      EagerDelegate_init_def MemoryTargetCache_init_def)

lemma transactions_collect_garbage_witness:
  "\<exists>p'. RunInternal (for_each run_change limbo_changes) WithEagerGarbageCollector = Some p' \<and> sm_entries (docs p') = []"
proof -
  let ?p = "WithEagerGarbageCollector :: (unit, bytes, unit) MemoryPersistence"
  let ?started = "?p\<lparr>reference_delegate := Eager \<lparr>orphaned = Some {}\<rparr>\<rparr>"
  let ?noted = "?started\<lparr>reference_delegate := Eager \<lparr>orphaned = Some {limbo_key}\<rparr>\<rparr>"
  have none: "referenced ?p = {}"
    using rs_ok_init [of 0] by (simp add: referenced_def view_refs_def holders_def queued_def WithEagerGarbageCollector_def
        MemoryPersistence_init_def MemoryTargetCache_init_def)
  have empty: "garbage ?p = {}"
    by (simp add: garbage_def cached_def WithEagerGarbageCollector_def MemoryPersistence_init_def)
  have cost: "0 + sum_list (map cost limbo_changes) < 2 ^ 31" by (simp add: limbo_changes_def)
  have p: "idle (0 + sum_list (map cost limbo_changes)) ?p" by (rule idle_init [OF cost])
  note start = start_covered [OF p, of "{}", unfolded empty, OF subset_refl]
  have ok: "persistence_ok 0 ?started" using start(2) by (auto simp: covered_def intro: persistence_ok_mono)
  have run1: "run_change (Limbo_document limbo_key) ?started = Some ?noted"
    using IsReferenced_referenced [OF ok, of limbo_key] none
    by (simp add: UpdateLimboDocument_def with_orphaned_def)
  then have legal: "legal_run limbo_changes ?started"
    by (auto simp: limbo_changes_def valid_document_def IsDocumentKey_def NoDocument_def
        ConvertToNoDocument_def InvalidDocument_def limbo_key_def split: option.split)
  have "document_key (NoDocument limbo_key SnapshotVersion_None :: bytes MutableDocument) = limbo_key"
    by (simp add: NoDocument_def ConvertToNoDocument_def InvalidDocument_def)
  then have "leaked limbo_changes ?started = {}"
    using run1 by (auto simp: limbo_changes_def orphan_set_def split: option.split)
  with transactions_collect_garbage [OF p start(1) legal] empty obtain p1 p' where
    p': "for_each run_change limbo_changes ?started = Some p1" "RunInternal (for_each run_change limbo_changes) ?p = Some p'"
    "sm_entries (docs p') = filter (\<lambda>e. fst e \<in> referenced p1) (sm_entries (docs p1))" by auto
  have "referenced p1 = {}"
    using p'(1) run1 none
    by (auto simp: limbo_changes_def documents_Add_def bind_eq_Some_conv referenced_def view_refs_def split: if_splits)
  with p'(2,3) show ?thesis by simp
qed

end
