(* ===== verification/MutationQueueProps.thy ===== *)
theory MutationQueueProps
  imports PersistenceSpec
begin

text \<open>
  The queue of mutations as a list of batches with consecutive ids: what any sequence of writes and
  acknowledgements leaves in it, and that the lookups by document, by query and by id find the
  batches in question.
\<close>

section \<open>Sequences of writes and acknowledgements\<close>

datatype 'm queue_op =
    Write Timestamp "'m Mutation list" "'m Mutation list"
  | Acknowledge bytes

fun run_queue_op ::
  "'m queue_op \<Rightarrow> 'm MemoryMutationQueue \<times> CollectionParentIndex \<times> ReferenceDelegate \<Rightarrow>
   ('m MemoryMutationQueue \<times> CollectionParentIndex \<times> ReferenceDelegate) option" where
  "run_queue_op (Write t base ms) (q, index, d) =
     map_option (\<lambda>(b, q, index). (q, index, d)) (AddMutationBatch t base ms (q, index))"
| "run_queue_op (Acknowledge token) (q, index, d) = do {
     q \<leftarrow> AcknowledgeBatch (hd (queue q)) token q;
     (q, d) \<leftarrow> RemoveMutationBatch delegate_RemoveMutationReference (hd (queue q)) (q, d);
     Some (q, index, d) }"

text \<open>The same on lists, with the id of the next batch.\<close>

fun list_op :: "'m queue_op \<Rightarrow> s32 \<times> 'm MutationBatch list \<Rightarrow> s32 \<times> 'm MutationBatch list" where
  "list_op (Write t base ms) (i, bs) =
     (i + 1, bs @ [\<lparr>batch_id = i, local_write_time = t, base_mutations = base, mutations = ms\<rparr>])"
| "list_op (Acknowledge token) (i, bs) = (i, tl bs)"

fun valid_ops :: "'m queue_op list \<Rightarrow> nat \<Rightarrow> bool" where
  "valid_ops [] pending \<longleftrightarrow> True"
| "valid_ops (Write t base ms # ops) pending \<longleftrightarrow>
     ms \<noteq> [] \<and> (\<forall>m \<in> set ms. valid_document (mutation_key m)) \<and> valid_ops ops (Suc pending)"
| "valid_ops (Acknowledge token # ops) pending \<longleftrightarrow> 0 < pending \<and> valid_ops ops (pending - 1)"

fun writes :: "'m queue_op \<Rightarrow> nat" where
  "writes (Write t base ms) = length ms"
| "writes (Acknowledge token) = 0"

lemma queue_ok_token: "queue_ok n (q\<lparr>last_stream_token := token\<rparr>) \<longleftrightarrow> queue_ok n q"
  by (simp add: queue_ok_def queue_ids_def)

lemma AcknowledgeBatch_head:
  assumes "queue_ok n q" "queue q = b # bs"
  shows "AcknowledgeBatch b token q = Some (q\<lparr>last_stream_token := token\<rparr>) \<and> queue_ok n (q\<lparr>last_stream_token := token\<rparr>)"
proof
  show "queue_ok n (q\<lparr>last_stream_token := token\<rparr>)"
    using assms(1) by (simp add: queue_ok_token)
qed (use assms(2) in \<open>simp add: AcknowledgeBatch_def HARD_ASSERT_def\<close>)

lemma run_queue_ops:
  assumes "queue_ok (n + sum_list (map writes ops)) q" "sint (next_batch_id q) + int (length ops) < 2 ^ 31"
    "valid_ops ops (length (queue q))" "delegate_ready d"
  shows "\<exists>q' index' d'. for_each run_queue_op ops (q, index, d) = Some (q', index', d') \<and> queue_ok n q' \<and>
    (next_batch_id q', queue q') = fold list_op ops (next_batch_id q, queue q)"
  using assms
proof (induction ops arbitrary: q index d)
  case (Cons p ops)
  show ?case
  proof (cases p)
    case (Write t base ms)
    have "queue_ok ((n + sum_list (map writes ops)) + length ms) q"
      using Cons.prems(1) Write by (simp add: add.commute add.left_commute)
    from AddMutationBatch_ok [OF this, of t base index] Cons.prems(2,3) Write
    obtain b q' index' where q': "AddMutationBatch t base ms (q, index) = Some (b, q', index')"
      "queue_ok (n + sum_list (map writes ops)) q'" "queue q' = queue q @ [b]"
      "b = \<lparr>batch_id = next_batch_id q, local_write_time = t, base_mutations = base, mutations = ms\<rparr>"
      "sint (next_batch_id q') = sint (next_batch_id q) + 1" by auto
    have "sint (next_batch_id q) < 2 ^ 31 - 1" using Cons.prems(2) by simp
    then have "next_batch_id q' = next_batch_id q + 1"
      using q'(5) sadd32_1 [of "next_batch_id q"] by (metis signed_word_eqI)
    with Cons.IH [OF q'(2), of d index'] Cons.prems(2-4) q' Write show ?thesis by auto
  next
    case (Acknowledge token)
    then obtain b bs where b: "queue q = b # bs" using Cons.prems(3) by (cases "queue q") auto
    have "queue_ok (n + sum_list (map writes ops)) q" using Cons.prems(1) Acknowledge by simp
    note ack = AcknowledgeBatch_head [OF this b, of token]
    have b': "queue (q\<lparr>last_stream_token := token\<rparr>) = b # bs" by (simp add: b)
    from ack have "queue_ok (n + sum_list (map writes ops)) (q\<lparr>last_stream_token := token\<rparr>)" by blast
    from delegate.remove_head [OF this b' Cons.prems(4)]
    obtain q' where q': "RemoveMutationBatch delegate_RemoveMutationReference b (q\<lparr>last_stream_token := token\<rparr>, d) =
        Some (q', fold delegate_note (map mutation_key (mutations b)) d)"
      "queue_ok (n + sum_list (map writes ops)) q'" "queue q' = bs" "next_batch_id q' = next_batch_id q" by auto
    have "delegate_ready (fold delegate_note keys d)" if "delegate_ready d" for keys d
      using that delegate.notify by (induction keys arbitrary: d) auto
    with Cons.IH [OF q'(2)] Cons.prems(2-4) q' ack b Acknowledge show ?thesis by auto
  qed
qed simp

lemma queue_from_init:
  fixes ops :: "'m queue_op list"
  assumes "length ops < 2 ^ 31 - 1" "sum_list (map writes ops) < 2 ^ 31" "valid_ops ops 0" "delegate_ready d"
  shows "\<exists>q index d'. for_each run_queue_op ops (MemoryMutationQueue_init, Map.empty, d) = Some (q, index, d') \<and>
    queue_ok 0 q \<and> queue q = snd (fold list_op ops (1, []))"
proof -
  let ?q = "MemoryMutationQueue_init :: 'm MemoryMutationQueue"
  have "queue_ok (0 + sum_list (map writes ops)) ?q" using queue_ok_init [of "sum_list (map writes ops)"] assms(2) by simp
  moreover have "sint (next_batch_id ?q) + int (length ops) < 2 ^ 31" "valid_ops ops (length (queue ?q))"
    "(next_batch_id ?q, queue ?q) = (1, [])"
    using assms(1,3) by (simp_all add: MemoryMutationQueue_init_def)
  ultimately show ?thesis using run_queue_ops [of 0 ops ?q d Map.empty] assms(4) by (metis snd_conv)
qed

section \<open>The properties\<close>

text \<open>
  C13: The queue of mutations refines a list.  After any sequence of writes and acknowledgements of
  the oldest batch, all of which succeed, the queue holds exactly the batches written and not yet
  acknowledged, numbered in the order of the writes, and the lookups by a document, by a set of
  documents and by a query over a collection find exactly the batches that change one of them, in
  the order of the queue.
\<close>

theorem queue_finds_batches_of_documents:
  "length ops < 2 ^ 31 - 1 \<Longrightarrow> sum_list (map writes ops) < 2 ^ 31 \<Longrightarrow> valid_ops ops 0 \<Longrightarrow> delegate_ready d \<Longrightarrow>
   bs = snd (fold list_op ops (1, [])) \<Longrightarrow>
   \<exists>q index d'. for_each run_queue_op ops (MemoryMutationQueue_init, Map.empty, d) = Some (q, index, d') \<and>
     queue q = bs \<and>
     (\<forall>key. AllMutationBatchesAffectingDocumentKey key q = Some (filter (\<lambda>b. key \<in> batch_docs b) bs) \<and>
        queue_ContainsKey key q = Some (\<exists>b \<in> set bs. key \<in> batch_docs b)) \<and>
     (\<forall>keys. sm_wf keys \<longrightarrow> AllMutationBatchesAffectingDocumentKeys keys q =
        Some (filter (\<lambda>b. batch_docs b \<inter> keys_of keys \<noteq> {}) bs)) \<and>
     (\<forall>query. \<not> IsCollectionGroupQuery query \<longrightarrow> AllMutationBatchesAffectingQuery query q =
        Some (filter (\<lambda>b. \<exists>key \<in> batch_docs b. child_of (query_path query) key) bs))"
proof -
  assume ops: "length ops < 2 ^ 31 - 1" "sum_list (map writes ops) < 2 ^ 31" "valid_ops ops 0" "delegate_ready d"
    and bs: "bs = snd (fold list_op ops (1, []))"
  from queue_from_init [OF ops] obtain q index d' where
    q: "for_each run_queue_op ops (MemoryMutationQueue_init, Map.empty, d) = Some (q, index, d')" "queue_ok 0 q" "queue q = bs"
    unfolding bs by blast
  with batches_of_key [OF q(2)] batches_of_keys [OF q(2)] batches_of_query [OF q(2)] queue_contains_key [OF q(2)]
  show ?thesis by (intro exI [of _ q] exI [of _ index] exI [of _ d']) simp
qed

text \<open>
  The lookups by id of the queue of mutations.  After any sequence of writes and acknowledgements,
  \<open>LookupMutationBatch\<close> finds the batch of an id that is not negative, and nothing for an id that is not in the queue;
  \<open>NextMutationBatchAfterBatchId\<close> finds the oldest batch with a greater id; and the ids of the queue
  ascend from its head.
\<close>

theorem queue_finds_batches_by_id:
  "length ops < 2 ^ 31 - 1 \<Longrightarrow> sum_list (map writes ops) < 2 ^ 31 \<Longrightarrow> valid_ops ops 0 \<Longrightarrow> delegate_ready d \<Longrightarrow>
   bs = snd (fold list_op ops (1, [])) \<Longrightarrow>
   \<exists>q index d'. for_each run_queue_op ops (MemoryMutationQueue_init, Map.empty, d) = Some (q, index, d') \<and>
     sorted_wrt (\<lambda>a b. sint (batch_id a) < sint (batch_id b)) bs \<and>
     (\<forall>i. 0 \<le> sint i \<longrightarrow> LookupMutationBatch i q = Some (find (\<lambda>b. batch_id b = i) bs)) \<and>
     (\<forall>i. - 1 \<le> sint i \<and> sint i < 2 ^ 31 - 1 \<longrightarrow>
        NextMutationBatchAfterBatchId i q = Some (find (\<lambda>b. sint i < sint (batch_id b)) bs))"
proof -
  assume ops: "length ops < 2 ^ 31 - 1" "sum_list (map writes ops) < 2 ^ 31" "valid_ops ops 0" "delegate_ready d"
    and bs: "bs = snd (fold list_op ops (1, []))"
  from queue_from_init [OF ops] obtain q index d' where
    q: "for_each run_queue_op ops (MemoryMutationQueue_init, Map.empty, d) = Some (q, index, d')" "queue_ok 0 q" "queue q = bs"
    unfolding bs by blast
  have "sorted_wrt (\<lambda>a b. sint (batch_id a) < sint (batch_id b)) bs"
    using queue_ok_ids(1) [OF q(2)] by (simp add: queue_ids_def q(3) sorted_wrt_map)
  with q(1) Lookup_find [OF q(2)] Next_find [OF q(2)] q(3) show ?thesis by auto
qed

definition example_ops :: "nat queue_op list" where
  "example_ops = [Write SnapshotVersion_None [] [\<lparr>mutation_key = [[1], [2]], effect = 7\<rparr>],
     Write SnapshotVersion_None [] [\<lparr>mutation_key = [[1], [3]], effect = 8\<rparr>, \<lparr>mutation_key = [[1], [2]], effect = 9\<rparr>],
     Acknowledge []]"

definition example_batch :: "nat MutationBatch" where
  "example_batch = \<lparr>batch_id = 2, local_write_time = SnapshotVersion_None, base_mutations = [],
     mutations = [\<lparr>mutation_key = [[1], [3]], effect = 8\<rparr>, \<lparr>mutation_key = [[1], [2]], effect = 9\<rparr>]\<rparr>"

lemma example_ops_valid:
  "length example_ops < 2 ^ 31 - 1" "sum_list (map writes example_ops) < 2 ^ 31" "valid_ops example_ops 0"
  "delegate_ready (Eager \<lparr>orphaned = Some {}\<rparr>)" "[example_batch] = snd (fold list_op example_ops (1, []))"
  by (simp_all add: example_ops_def example_batch_def valid_document_def IsDocumentKey_def)

lemma queue_finds_batches_of_documents_witness:
  "\<exists>q. map_option fst (for_each run_queue_op example_ops (MemoryMutationQueue_init, Map.empty, Eager \<lparr>orphaned = Some {}\<rparr>)) = Some q \<and>
     AllMutationBatchesAffectingDocumentKey [[1], [2]] q = Some [example_batch] \<and>
     AllMutationBatchesAffectingQuery \<lparr>query_path = [[1]], collection_group = None\<rparr> q = Some [example_batch]"
proof -
  have "\<exists>key \<in> batch_docs example_batch. child_of [[1]] key"
    by (auto simp: batch_docs_def example_batch_def child_of_def)
  with queue_finds_batches_of_documents [OF example_ops_valid] show ?thesis
    by (fastforce simp: batch_docs_def example_batch_def IsCollectionGroupQuery_def)
qed

lemma queue_finds_batches_by_id_witness:
  "\<exists>q. map_option fst (for_each run_queue_op example_ops (MemoryMutationQueue_init, Map.empty, Eager \<lparr>orphaned = Some {}\<rparr>)) = Some q \<and>
     LookupMutationBatch 1 q = Some None \<and> NextMutationBatchAfterBatchId 1 q = Some (Some example_batch)"
proof -
  from queue_finds_batches_by_id [OF example_ops_valid] obtain q index d' where
    "for_each run_queue_op example_ops (MemoryMutationQueue_init, Map.empty, Eager \<lparr>orphaned = Some {}\<rparr>) = Some (q, index, d')"
    "LookupMutationBatch 1 q = Some (find (\<lambda>b. batch_id b = 1) [example_batch])"
    "NextMutationBatchAfterBatchId 1 q = Some (find (\<lambda>b. sint (1 :: s32) < sint (batch_id b)) [example_batch])" by auto
  then show ?thesis by (intro exI [of _ q]) (simp add: example_batch_def)
qed

end
