(* ===== verification/LruCollection.thy ===== *)
theory LruCollection
  imports PersistenceSpec "HOL-Library.Log_Nat" "HOL-Library.Multiset"
begin

text \<open>
  \<open>Firestore/core/src/local/lru_garbage_collector.cc\<close> over the persistence in memory, with the part of
  \<open>memory_lru_reference_delegate.cc\<close> and \<open>memory_remote_document_cache.cc\<close> that collects: the least
  recently used targets go first, then the documents nobody refers to that are as old.  Of the log
  messages and the time they report nothing is kept.
\<close>

section \<open>The rolling buffer\<close>

text \<open>\<open>std::priority_queue\<close> as the list of its elements in ascending order; its top is the last.\<close>

record RollingSequenceNumberBuffer =
  buffer_queue :: "s64 list"
  max_elements :: u64

definition make_RollingSequenceNumberBuffer :: "u64 \<Rightarrow> RollingSequenceNumberBuffer" where
  "make_RollingSequenceNumberBuffer n = \<lparr>buffer_queue = [], max_elements = n\<rparr>"

definition AddElement :: "s64 \<Rightarrow> RollingSequenceNumberBuffer \<Rightarrow> RollingSequenceNumberBuffer option" where
  "AddElement n b =
     (if length (buffer_queue b) < unat (max_elements b) then Some (b\<lparr>buffer_queue := insort_key sint n (buffer_queue b)\<rparr>)
      else if buffer_queue b = [] then None
      else let highest_value = last (buffer_queue b) in
        Some (if sint n < sint highest_value
              then b\<lparr>buffer_queue := insort_key sint n (butlast (buffer_queue b))\<rparr> else b))"

definition max_value :: "RollingSequenceNumberBuffer \<Rightarrow> s64 option" where
  "max_value b = (if buffer_queue b = [] then None else Some (last (buffer_queue b)))"

section \<open>Parameters and results\<close>

record LruParams =
  min_bytes_threshold :: s64
  percentile_to_collect :: s32
  maximum_sequence_numbers_to_collect :: s32

definition CacheSizeUnlimited :: s64 where
  "CacheSizeUnlimited = - 1"

definition LruParams_Default :: LruParams where
  "LruParams_Default = \<lparr>min_bytes_threshold = 100 * 1024 * 1024, percentile_to_collect = 10,
     maximum_sequence_numbers_to_collect = 1000\<rparr>"

definition LruParams_Disabled :: LruParams where
  "LruParams_Disabled = \<lparr>min_bytes_threshold = CacheSizeUnlimited, percentile_to_collect = 0,
     maximum_sequence_numbers_to_collect = 0\<rparr>"

definition LruParams_WithCacheSize :: "s64 \<Rightarrow> LruParams" where
  "LruParams_WithCacheSize cache_size = LruParams_Default\<lparr>min_bytes_threshold := cache_size\<rparr>"

record LruResults =
  did_run :: bool
  sequence_numbers_collected :: s32
  targets_removed :: s32
  documents_removed :: s32

definition LruResults_DidNotRun :: LruResults where
  "LruResults_DidNotRun = \<lparr>did_run = False, sequence_numbers_collected = 0, targets_removed = 0, documents_removed = 0\<rparr>"

section \<open>What the delegate offers\<close>

definition EnumerateTargetSequenceNumbers ::
  "(s64 \<Rightarrow> 's \<Rightarrow> 's option) \<Rightarrow> ('t, 'v, 'm) MemoryPersistence \<Rightarrow> 's \<Rightarrow> 's option" where
  "EnumerateTargetSequenceNumbers callback p =
     for_each (\<lambda>(_, d). callback (sequence_number d)) (targets (target_cache p))"

definition EnumerateOrphanedDocuments ::
  "(DocumentKey \<Rightarrow> s64 \<Rightarrow> 's \<Rightarrow> 's option) \<Rightarrow> LruDelegate \<Rightarrow> ('t, 'v, 'm) MemoryPersistence \<Rightarrow> 's \<Rightarrow> 's option" where
  "EnumerateOrphanedDocuments callback l p =
     for_each (\<lambda>(key, n) s. do {
         pinned \<leftarrow> IsPinnedAtSequenceNumber n key l p;
         if pinned then Some s else callback key n s }) (sequence_numbers l)"

definition GetSequenceNumberCount :: "LruDelegate \<Rightarrow> ('t, 'v, 'm) MemoryPersistence \<Rightarrow> u64 option" where
  "GetSequenceNumberCount l p = do {
     let total_count = of_nat (length (targets (target_cache p)));
     EnumerateOrphanedDocuments (\<lambda>_ _ count. Some (count + 1)) l p total_count }"

definition lru_RemoveTargets ::
  "s64 \<Rightarrow> s32 set \<Rightarrow> ('t, 'v, 'm) MemoryPersistence \<Rightarrow> (s32 \<times> ('t, 'v, 'm) MemoryPersistence) option" where
  "lru_RemoveTargets upper_bound live_targets p = do {
     (n, c) \<leftarrow> cache_RemoveTargets upper_bound live_targets (target_cache p);
     Some (of_nat n, p\<lparr>target_cache := c\<rparr>) }"

definition documents_RemoveOrphaned ::
  "LruDelegate \<Rightarrow> s64 \<Rightarrow> ('t, 'v::default, 'm) MemoryPersistence \<Rightarrow>
   (DocumentKey list \<times> ('t, 'v, 'm) MemoryPersistence) option" where
  "documents_RemoveOrphaned l upper_bound p = do {
     es \<leftarrow> walk_range (sm_keys (docs p));
     (removed, updated_docs) \<leftarrow> for_each (\<lambda>(key, _) (removed, updated_docs). do {
         pinned \<leftarrow> IsPinnedAtSequenceNumber upper_bound key l p;
         if pinned then Some (removed, updated_docs)
         else do {
           updated_docs \<leftarrow> sm_erase key_CompareTo key updated_docs;
           Some (removed @ [key], updated_docs) } }) es ([], docs p);
     Some (removed, p\<lparr>docs := updated_docs\<rparr>) }"

definition lru_RemoveOrphanedDocuments ::
  "s64 \<Rightarrow> LruDelegate \<Rightarrow> ('t, 'v::default, 'm) MemoryPersistence \<Rightarrow>
   (s32 \<times> ('t, 'v, 'm) MemoryPersistence) option" where
  "lru_RemoveOrphanedDocuments upper_bound l p = do {
     (removed, p) \<leftarrow> documents_RemoveOrphaned l upper_bound p;
     let l = l\<lparr>sequence_numbers := fold AList.delete removed (sequence_numbers l)\<rparr>;
     Some (of_nat (length removed), p\<lparr>reference_delegate := Lru l\<rparr>) }"

text \<open>The sizes of the stored objects come from the sizer.\<close>

definition lru_CalculateByteSize ::
  "('t TargetData \<Rightarrow> s64) \<Rightarrow> ('v MutableDocument \<Rightarrow> s64) \<Rightarrow> ('m MutationBatch \<Rightarrow> s64) \<Rightarrow>
   ('t, 'v::default, 'm) MemoryPersistence \<Rightarrow> s64 option" where
  "lru_CalculateByteSize size_of_target size_of_document size_of_batch p = do {
     n \<leftarrow> cache_CalculateByteSize size_of_target (target_cache p);
     count \<leftarrow> sadd64 0 n;
     n \<leftarrow> documents_CalculateByteSize size_of_document (docs p);
     count \<leftarrow> sadd64 count n;
     for_each (\<lambda>(_, q) count. do {
         n \<leftarrow> queue_CalculateByteSize size_of_batch q;
         sadd64 count n }) (mutation_queues p) count }"

section \<open>The collector\<close>

text \<open>
  A value of \<open>float\<close> that is not negative, as a fraction: rounded to 24 bits, to the nearest and on a
  tie to the even neighbour.  The numbers met here are far from the ends of the exponent range.
\<close>

definition round_half_even :: "rat \<Rightarrow> int" where
  "round_half_even q =
     (let n = \<lfloor>q\<rfloor>; r = q - of_int n in
      if r < 1 / 2 \<or> r = 1 / 2 \<and> even n then n else n + 1)"

definition float_exponent :: "rat \<Rightarrow> int" where
  "float_exponent q =
     (let (a, b) = quotient_of q; e = bitlen a - bitlen b - 24 in
      if q < 2 powi (e + 24) then e else e + 1)"

definition to_float :: "rat \<Rightarrow> rat" where
  "to_float q = (if q = 0 then 0 else
     let e = float_exponent q in of_int (round_half_even (q / 2 powi e)) * 2 powi e)"

definition QueryCountForPercentile :: "s32 \<Rightarrow> LruDelegate \<Rightarrow> ('t, 'v, 'm) MemoryPersistence \<Rightarrow> s32 option" where
  "QueryCountForPercentile percentile l p = do {
     total_count \<leftarrow> GetSequenceNumberCount l p;
     let q = to_float (to_float (to_float (of_int \<bar>sint percentile\<bar>) / 100) * to_float (of_int (uint total_count)));
     let n = sgn (sint percentile) * \<lfloor>q\<rfloor>;
     if - (2 ^ 31) \<le> n \<and> n < 2 ^ 31 then Some (of_int n) else None }"

definition SequenceNumberForQueryCount :: "s32 \<Rightarrow> LruDelegate \<Rightarrow> ('t, 'v, 'm) MemoryPersistence \<Rightarrow> s64 option" where
  "SequenceNumberForQueryCount query_count l p =
     (if query_count = 0 then Some kListenSequenceNumberInvalid
      else do {
        let buffer = make_RollingSequenceNumberBuffer (scast query_count);
        buffer \<leftarrow> EnumerateTargetSequenceNumbers AddElement p buffer;
        buffer \<leftarrow> EnumerateOrphanedDocuments (\<lambda>_. AddElement) l p buffer;
        max_value buffer })"

definition lru_delegate :: "('t, 'v, 'm) MemoryPersistence \<Rightarrow> LruDelegate option" where
  "lru_delegate p = (case reference_delegate p of Lru l \<Rightarrow> Some l | Eager _ \<Rightarrow> None)"

definition collect_up_to ::
  "s64 \<Rightarrow> s32 set \<Rightarrow> ('t, 'v::default, 'm) MemoryPersistence \<Rightarrow>
   (s32 \<times> s32 \<times> ('t, 'v, 'm) MemoryPersistence) option" where
  "collect_up_to upper_bound live_targets p = do {
     (num_targets_removed, p) \<leftarrow> lru_RemoveTargets upper_bound live_targets p;
     l \<leftarrow> lru_delegate p;
     (num_documents_removed, p) \<leftarrow> lru_RemoveOrphanedDocuments upper_bound l p;
     Some (num_targets_removed, num_documents_removed, p) }"

definition RunGarbageCollection ::
  "LruParams \<Rightarrow> s32 set \<Rightarrow> ('t, 'v::default, 'm) MemoryPersistence \<Rightarrow>
   (LruResults \<times> ('t, 'v, 'm) MemoryPersistence) option" where
  "RunGarbageCollection params live_targets p = do {
     l \<leftarrow> lru_delegate p;
     n \<leftarrow> QueryCountForPercentile (percentile_to_collect params) l p;
     let n = (if sint (maximum_sequence_numbers_to_collect params) < sint n
              then maximum_sequence_numbers_to_collect params else n);
     upper_bound \<leftarrow> SequenceNumberForQueryCount n l p;
     (t, d, p) \<leftarrow> collect_up_to upper_bound live_targets p;
     Some (\<lparr>did_run = True, sequence_numbers_collected = n, targets_removed = t, documents_removed = d\<rparr>, p) }"

definition Collect ::
  "('t TargetData \<Rightarrow> s64) \<Rightarrow> ('v MutableDocument \<Rightarrow> s64) \<Rightarrow> ('m MutationBatch \<Rightarrow> s64) \<Rightarrow> LruParams \<Rightarrow>
   s32 set \<Rightarrow> ('t, 'v::default, 'm) MemoryPersistence \<Rightarrow> (LruResults \<times> ('t, 'v, 'm) MemoryPersistence) option" where
  "Collect size_of_target size_of_document size_of_batch params live_targets p =
     (if min_bytes_threshold params = CacheSizeUnlimited then Some (LruResults_DidNotRun, p)
      else do {
        current_size \<leftarrow> lru_CalculateByteSize size_of_target size_of_document size_of_batch p;
        if sint current_size < sint (min_bytes_threshold params) then Some (LruResults_DidNotRun, p)
        else RunGarbageCollection params live_targets p })"

text \<open>\<open>CollectGarbage\<close> of the local store: the targets in use are the live ones.\<close>

definition CollectGarbage ::
  "('t TargetData \<Rightarrow> s64) \<Rightarrow> ('v MutableDocument \<Rightarrow> s64) \<Rightarrow> ('m MutationBatch \<Rightarrow> s64) \<Rightarrow> LruParams \<Rightarrow>
   ('t, 'v::default, 'm) LocalStore \<Rightarrow> (LruResults \<times> ('t, 'v, 'm) LocalStore) option" where
  "CollectGarbage size_of_target size_of_document size_of_batch params = Run (\<lambda>s. do {
     (results, p) \<leftarrow> Collect size_of_target size_of_document size_of_batch params
        (fst ` set (target_data_by_target s)) (persistence s);
     Some (results, s\<lparr>persistence := p\<rparr>) })"

section \<open>The n-th sequence number\<close>

lemma sorted_last_key: "sorted (map f xs) \<Longrightarrow> x \<in> set xs \<Longrightarrow> f x \<le> (f (last xs) :: int)"
  by (induction xs) (auto split: if_splits)

lemma take_insort:
  fixes ys :: "s64 list"
  assumes "sorted (map sint ys)" "0 < n"
  shows "take n (insort_key sint x ys) =
    (if length ys < n then insort_key sint x ys
     else if sint x < sint (last (take n ys)) then insort_key sint x (butlast (take n ys)) else take n ys)"
  using assms
proof (induction ys arbitrary: n)
  case (Cons y ys)
  obtain m where n: "n = Suc m" using Cons.prems(2) by (cases n) auto
  have ys: "sorted (map sint ys)" "\<forall>z \<in> set ys. sint y \<le> sint z" using Cons.prems(1) by auto
  let ?L = "take n (y # ys)"
  show ?case
  proof (cases "sint x \<le> sint y")
    case True
    have "?L = x # take m (y # ys)" if "n \<le> length (y # ys)" "\<not> sint x < sint (last ?L)"
    proof -
      have "sorted (map sint ?L)" using sorted_wrt_take [OF Cons.prems(1), of n] unfolding take_map .
      then have "sint z \<le> sint (last ?L)" if "z \<in> set ?L" for z
        using that by (rule sorted_last_key) 
      moreover have "sint x \<le> sint z" if "z \<in> set ?L" for z
        using in_set_takeD [OF that] True ys(2) by (auto intro: order_trans)
      ultimately have "sint z = sint x" if "z \<in> set ?L" for z
        using that \<open>\<not> sint x < sint (last ?L)\<close> by force
      then have "z = x" if "z \<in> set ?L" for z by (rule signed_word_eqI) (rule that)
      then have L: "?L = replicate n x" using that(1) by (intro replicate_eqI) auto
      have "take m (y # ys) = take m ?L" unfolding n take_take by simp
      also have "\<dots> = replicate m x" unfolding L by (simp only: n take_replicate) simp
      finally show ?thesis unfolding L by (simp add: n)
    qed
    moreover have "insort_key sint x (butlast ?L) = x # take m (y # ys)" if "n \<le> length (y # ys)"
    proof -
      have "butlast ?L = take m (y # ys)" using butlast_take [OF that] n by (simp only: diff_Suc_1)
      then show ?thesis using True by (cases m) simp_all
    qed
    ultimately show ?thesis using True n by (auto simp: not_less)
  next
    case False
    then show ?thesis
    proof (cases "m = 0")
      case False
      then show ?thesis using Cons.IH [OF ys(1), of m] n \<open>\<not> sint x \<le> sint y\<close> by auto
    qed (use n in auto)
  qed
qed simp


lemma AddElement_take:
  assumes "buffer_queue b = take n ys" "unat (max_elements b) = n" "0 < n" "sorted (map sint ys)"
  shows "\<exists>b'. AddElement x b = Some b' \<and> buffer_queue b' = take n (insort_key sint x ys) \<and> max_elements b' = max_elements b"
proof -
  have "length ys < n \<Longrightarrow> take n ys = ys" by simp
  moreover have "n \<le> length ys \<Longrightarrow> take n ys \<noteq> []" using assms(3) by auto
  ultimately show ?thesis
    using assms take_insort [OF assms(4,3), of x] by (auto simp: AddElement_def Let_def min_def)
qed

lemma AddElements_take:
  assumes "buffer_queue b = take n ys" "unat (max_elements b) = n" "0 < n" "sorted (map sint ys)"
  shows "\<exists>b'. for_each AddElement xs b = Some b' \<and> buffer_queue b' = take n (fold (insort_key sint) xs ys)"
  using assms
proof (induction xs arbitrary: b ys)
  case (Cons x xs)
  from AddElement_take [OF Cons.prems, of x] obtain b' where
    b': "AddElement x b = Some b'" "buffer_queue b' = take n (insort_key sint x ys)" "max_elements b' = max_elements b" by blast
  have "sorted (map sint (insort_key sint x ys))" using Cons.prems(4) by (simp add: sorted_insort_key)
  from Cons.IH [OF b'(2) _ Cons.prems(3) this] b'(1,3) Cons.prems(2) show ?case by simp
qed simp

lemma fold_insort: "fold (insort_key sint) xs [] = sort_key sint (xs :: s64 list)"
proof -
  have "sort_key sint (rev xs) = sort_key sint xs"
  proof (rule map_injective)
    have "sort (map sint xs) = map sint (sort_key sint ys)" if "mset ys = mset xs" for ys
      by (rule properties_for_sort) (simp_all add: that)
    from this [of "rev xs"] this [of xs] show "map sint (sort_key sint (rev xs)) = map sint (sort_key sint xs)" by simp
    show "inj (sint :: s64 \<Rightarrow> int)" by (metis injI signed_word_eqI)
  qed
  then show ?thesis by (simp add: sort_key_def foldr_conv_fold)
qed

text \<open>The sequence numbers that count: those of the targets and of the documents nobody refers to.\<close>

definition unreferenced_numbers :: "LruDelegate \<Rightarrow> ('t, 'v, 'm) MemoryPersistence \<Rightarrow> s64 list" where
  "unreferenced_numbers l p = map snd (filter (\<lambda>(key, n). key \<notin> referenced p) (sequence_numbers l))"

definition all_numbers :: "LruDelegate \<Rightarrow> ('t, 'v, 'm) MemoryPersistence \<Rightarrow> s64 list" where
  "all_numbers l p = map (\<lambda>(t, d). sequence_number d) (targets (target_cache p)) @ unreferenced_numbers l p"

lemma EnumerateOrphanedDocuments_numbers:
  assumes "persistence_ok m p" "distinct (map fst (sequence_numbers l))"
  shows "EnumerateOrphanedDocuments (\<lambda>_. f) l p s = for_each f (unreferenced_numbers l p) s"
proof -
  have "for_each (\<lambda>(key, n) s. do {
         pinned \<leftarrow> IsPinnedAtSequenceNumber n key l p;
         if pinned then Some s else f n s }) ps s =
      for_each f (map snd (filter (\<lambda>(key, n). key \<notin> referenced p) ps)) s"
    if "\<forall>(key, n) \<in> set ps. map_of (sequence_numbers l) key = Some n" for ps s
    using that
  proof (induction ps arbitrary: s)
    case (Cons q ps)
    then show ?case by (cases q) (auto simp: IsPinned_referenced [OF assms(1)] split: bind_splits)
  qed simp
  then show ?thesis using assms(2) by (simp add: EnumerateOrphanedDocuments_def unreferenced_numbers_def case_prod_unfold)
qed

text \<open>
  C21: \<open>SequenceNumberForQueryCount\<close> finds the bound of a collection: for a positive count \<open>n\<close> it is
  the \<open>n\<close>-th smallest among the sequence numbers of all targets and of all noted documents that
  nothing refers to, and the greatest of them when there are fewer than \<open>n\<close>.
\<close>

theorem collection_bound:
  "persistence_ok m p \<Longrightarrow> distinct (map fst (sequence_numbers l)) \<Longrightarrow> 0 < sint n \<Longrightarrow> all_numbers l p \<noteq> [] \<Longrightarrow>
   SequenceNumberForQueryCount n l p =
     Some (sort_key sint (all_numbers l p) ! (min (nat (sint n)) (length (all_numbers l p)) - 1))"
proof -
  assume p: "persistence_ok m p" "distinct (map fst (sequence_numbers l))" and n: "0 < sint n" and ne: "all_numbers l p \<noteq> []"
  let ?n = "nat (sint n)" and ?xs = "all_numbers l p" and ?b = "make_RollingSequenceNumberBuffer (scast n)"
  have "unat (scast n :: u64) = ?n"
  proof -
    have "sint n < 2 ^ 31" using sint_lt [of n] by simp
    then have "uint (word_of_int (sint n) :: u64) = sint n"
      unfolding uint_word_of_int using n by (intro mod_pos_pos_trivial) simp_all
    then have "uint (scast n :: u64) = sint n" by (simp only: of_int_sint)
    then show ?thesis by (simp flip: nat_uint_eq)
  qed
  then have "buffer_queue ?b = take ?n []" "unat (max_elements ?b) = ?n" "0 < ?n"
    using n by (simp_all add: make_RollingSequenceNumberBuffer_def)
  from AddElements_take [OF this, of ?xs] obtain b where
    b: "for_each AddElement ?xs ?b = Some b" "buffer_queue b = take ?n (sort_key sint ?xs)" by (auto simp: fold_insort)
  have "EnumerateTargetSequenceNumbers AddElement p c = for_each AddElement (map (\<lambda>(t, d). sequence_number d) (targets (target_cache p))) c" for c
    by (simp add: EnumerateTargetSequenceNumbers_def for_each_map case_prod_unfold)
  with b(1) have "SequenceNumberForQueryCount n l p = max_value b"
    using n by (auto simp: SequenceNumberForQueryCount_def Let_def EnumerateOrphanedDocuments_numbers [OF p]
        all_numbers_def for_each_append bind_eq_Some_conv)
  moreover have "buffer_queue b \<noteq> []" using b(2) ne n by (metis length_0_conv length_sort take_eq_Nil nat_0_iff not_le)
  ultimately show ?thesis
    using b(2) by (simp add: max_value_def last_conv_nth min_def)
qed

section \<open>What a collection removes\<close>

definition outdated :: "s64 \<Rightarrow> s32 set \<Rightarrow> 't TargetData \<Rightarrow> bool" where
  "outdated upper live d \<longleftrightarrow> sint (sequence_number d) \<le> sint upper \<and> target_id d \<notin> live"

definition used_after :: "s64 \<Rightarrow> LruDelegate \<Rightarrow> DocumentKey \<Rightarrow> bool" where
  "used_after upper l key \<longleftrightarrow> (\<exists>n. map_of (sequence_numbers l) key = Some n \<and> sint upper < sint n)"

lemma remove_targets_refs:
  assumes "rs_ok n rs" "\<forall>(t, d) \<in> set ts. sint (target_id d) < 2 ^ 31 - 1"
  shows "\<exists>rs'. for_each (\<lambda>(target, d) (to_remove, rs).
       if sint (sequence_number d) \<le> sint upper \<and> target_id d \<notin> live
       then do { (_, rs) \<leftarrow> RemoveReferences_of_id (target_id d) rs; Some (to_remove @ [target], rs) }
       else Some (to_remove, rs)) ts (before, rs) =
     Some (before @ map fst (filter (\<lambda>(t, d). outdated upper live d) ts), rs') \<and> rs_ok n rs' \<and>
     refs rs' = {(k, i) \<in> refs rs. \<forall>(t, d) \<in> set ts. outdated upper live d \<longrightarrow> target_id d \<noteq> i}"
  using assms
proof (induction ts arbitrary: rs before)
  case (Cons p ts)
  obtain t d where p: "p = (t, d)" by (cases p)
  have ids: "sint (target_id d) < 2 ^ 31 - 1" "\<forall>(t, d) \<in> set ts. sint (target_id d) < 2 ^ 31 - 1" using Cons.prems(2) p by auto
  show ?case
  proof (cases "outdated upper live d")
    case True
    obtain removed rs1 where rs1: "RemoveReferences_of_id (target_id d) rs = Some (removed, rs1)" "rs_ok n rs1"
      "refs rs1 = {p \<in> refs rs. snd p \<noteq> target_id d}"
      using RemoveReferences_of_id_refs [OF Cons.prems(1) ids(1)] by blast
    from Cons.IH [OF rs1(2) ids(2), of "before @ [t]"] True rs1(1,3) p show ?thesis by (auto simp: outdated_def)
  next
    case False
    from Cons.IH [OF Cons.prems(1) ids(2), of before] False p show ?thesis by (auto simp: outdated_def)
  qed
qed auto

lemma fold_delete: "fold AList.delete ks ps = filter (\<lambda>(k, v). k \<notin> set ks) ps"
  by (induction ks arbitrary: ps) (auto simp: AList.delete_eq filter_filter intro!: filter_cong)

lemma key_of_row: "distinct (map fst ts) \<Longrightarrow> (t, d) \<in> set ts \<Longrightarrow> t \<in> fst ` {q \<in> set ts. P q} \<longleftrightarrow> P (t, d)"
proof
  assume ts: "distinct (map fst ts)" "(t, d) \<in> set ts" and "t \<in> fst ` {q \<in> set ts. P q}"
  then obtain e where e: "(t, e) \<in> set ts" "P (t, e)" by auto
  with eq_key_imp_eq_value [OF ts e(1)] show "P (t, d)" by simp
qed (auto intro: image_eqI [of _ _ "(t, d)"])

lemma lru_RemoveTargets_exact:
  assumes "persistence_ok n p" "\<forall>(t, d) \<in> set (targets (target_cache p)). sint (target_id d) < 2 ^ 31 - 1"
    and "distinct (map fst (targets (target_cache p)))"
  shows "\<exists>k rs. lru_RemoveTargets upper live p = Some (k, p\<lparr>target_cache := (target_cache p)\<lparr>
      targets := filter (\<lambda>(t, d). \<not> outdated upper live d) (targets (target_cache p)), references := rs\<rparr>\<rparr>) \<and> rs_ok n rs \<and>
     refs rs = {(k, i) \<in> refs (references (target_cache p)).
       \<forall>(t, d) \<in> set (targets (target_cache p)). outdated upper live d \<longrightarrow> target_id d \<noteq> i}"
proof -
  let ?ts = "targets (target_cache p)"
  have "filter (\<lambda>(t, d). t \<notin> fst ` {q \<in> set ?ts. case q of (t, d) \<Rightarrow> outdated upper live d}) ?ts = filter (\<lambda>(t, d). \<not> outdated upper live d) ?ts"
    using key_of_row [OF assms(3), where P = "\<lambda>(t, d). outdated upper live d"] by (intro filter_cong refl) (auto simp only: split_paired_all prod.case)
  moreover have "rs_ok n (references (target_cache p))" using assms(1) by (simp add: persistence_ok_def)
  ultimately show ?thesis
    using remove_targets_refs [OF _ assms(2), of n "references (target_cache p)" upper live "[]"]
    by (auto simp: lru_RemoveTargets_def cache_RemoveTargets_def fold_delete)
qed


lemma erase_orphans:
  assumes "persistence_ok n p" "sm_wf ds"
  shows "\<exists>ds' removed. for_each (\<lambda>(key, _) (removed, updated_docs). do {
         pinned \<leftarrow> IsPinnedAtSequenceNumber upper key l p;
         if pinned then Some (removed, updated_docs)
         else do {
           updated_docs \<leftarrow> sm_erase key_CompareTo key updated_docs;
           Some (removed @ [key], updated_docs) } }) es (before, ds) = Some (before @ removed, ds') \<and> sm_wf ds' \<and>
     sm_entries ds' = filter (\<lambda>e. fst e \<in> fst ` set es \<longrightarrow> fst e \<in> referenced p \<or> used_after upper l (fst e)) (sm_entries ds)"
  using assms(2)
proof (induction es arbitrary: ds before)
  case (Cons e es)
  obtain key v where e: "e = (key, v)" by (cases e)
  let ?keep = "\<lambda>key. key \<in> referenced p \<or> used_after upper l key"
  note pin = IsPinned_referenced [OF assms(1), of upper key l, folded used_after_def]
  show ?case
  proof (cases "?keep key")
    case True
    have "(\<lambda>a. fst a \<in> fst ` set (e # es) \<longrightarrow> ?keep (fst a)) = (\<lambda>a. fst a \<in> fst ` set es \<longrightarrow> ?keep (fst a))"
      using True e by auto
    with Cons.IH [OF Cons.prems, of before] pin True e show ?thesis by simp
  next
    case False
    obtain ds1 where ds1: "sm_erase Compare key ds = Some ds1" "sm_wf ds1" "sm_entries ds1 = erased key (sm_entries ds)"
      using sm.erase_entries [OF Cons.prems, of key] by blast
    have "filter (\<lambda>a. fst a \<in> fst ` set es \<longrightarrow> ?keep (fst a)) (erased key (sm_entries ds)) =
        filter (\<lambda>a. fst a \<in> fst ` set (e # es) \<longrightarrow> ?keep (fst a)) (sm_entries ds)"
      unfolding erased_def filter_filter using False e by (intro filter_cong) auto
    with Cons.IH [OF ds1(2), of "before @ [key]"] ds1(1,3) pin False e show ?thesis by auto
  qed
qed auto

text \<open>
  C18: A collection removes exactly what is old and unused.  Up to a bound, it succeeds, it removes the
  targets whose sequence number is at most the bound and that are not live, with all their
  references, and then exactly those documents that no remaining target, no queued batch and no view
  refers to and whose last recorded use is not after the bound: it is at most the bound, or, unlike
  the comment of the interface says, there is no recorded use at all.  All other documents and
  targets stay as they were.
\<close>

theorem collection_exact:
  "persistence_ok n p \<Longrightarrow> reference_delegate p = Lru l \<Longrightarrow> distinct (map fst (targets (target_cache p))) \<Longrightarrow>
   \<forall>(t, d) \<in> set (targets (target_cache p)). sint (target_id d) < 2 ^ 31 - 1 \<Longrightarrow>
   \<exists>a b p'. collect_up_to upper live p = Some (a, b, p') \<and> persistence_ok n p' \<and>
     targets (target_cache p') = filter (\<lambda>(t, d). sint upper < sint (sequence_number d) \<or> target_id d \<in> live) (targets (target_cache p)) \<and>
     refs (references (target_cache p')) = {(key, i) \<in> refs (references (target_cache p)).
       \<forall>(t, d) \<in> set (targets (target_cache p)). sint (sequence_number d) \<le> sint upper \<and> target_id d \<notin> live \<longrightarrow> target_id d \<noteq> i} \<and>
     sm_entries (docs p') = filter (\<lambda>e. fst e \<in> referenced p' \<or> used_after upper l (fst e)) (sm_entries (docs p)) \<and>
     mutation_queues p' = mutation_queues p \<and> additional_references p' = additional_references p"
proof -
  assume ok: "persistence_ok n p" and l: "reference_delegate p = Lru l" and ts: "distinct (map fst (targets (target_cache p)))"
    and ids: "\<forall>(t, d) \<in> set (targets (target_cache p)). sint (target_id d) < 2 ^ 31 - 1"
  obtain a rs where rs: "lru_RemoveTargets upper live p = Some (a, p\<lparr>target_cache := (target_cache p)\<lparr>
      targets := filter (\<lambda>(t, d). \<not> outdated upper live d) (targets (target_cache p)), references := rs\<rparr>\<rparr>)" "rs_ok n rs"
    "refs rs = {(k, i) \<in> refs (references (target_cache p)).
       \<forall>(t, d) \<in> set (targets (target_cache p)). outdated upper live d \<longrightarrow> target_id d \<noteq> i}"
    using lru_RemoveTargets_exact [OF ok ids ts, of upper live] by blast
  define q where "q = p\<lparr>target_cache := (target_cache p)\<lparr>
      targets := filter (\<lambda>(t, d). \<not> outdated upper live d) (targets (target_cache p)), references := rs\<rparr>\<rparr>"
  have q: "persistence_ok n q" using ok rs(2) by (simp add: persistence_ok_def q_def)
  have wf: "sm_wf (docs p)" using ok by (simp add: persistence_ok_def)
  obtain ds removed where ds: "for_each (\<lambda>(key, _) (removed, updated_docs). do {
         pinned \<leftarrow> IsPinnedAtSequenceNumber upper key l q;
         if pinned then Some (removed, updated_docs)
         else do {
           updated_docs \<leftarrow> sm_erase key_CompareTo key updated_docs;
           Some (removed @ [key], updated_docs) } }) (sm_entries (docs p)) ([], docs p) = Some ([] @ removed, ds)" "sm_wf ds"
    "sm_entries ds = filter (\<lambda>e. fst e \<in> fst ` set (sm_entries (docs p)) \<longrightarrow> fst e \<in> referenced q \<or> used_after upper l (fst e)) (sm_entries (docs p))"
    using erase_orphans [OF q wf, where es = "sm_entries (docs p)" and upper = upper and l = l and before = "[]"] by blast
  have entries: "sm_entries ds = filter (\<lambda>e. fst e \<in> referenced q \<or> used_after upper l (fst e)) (sm_entries (docs p))"
    unfolding ds(3) by (intro filter_cong) auto
  have walk: "walk_range (sm_keys (docs q)) = Some (sm_entries (docs p))"
    using keys_entries [OF wf] by (simp add: q_def)
  let ?p = "q\<lparr>docs := ds, reference_delegate := Lru (l\<lparr>sequence_numbers := fold AList.delete removed (sequence_numbers l)\<rparr>)\<rparr>"
  have "collect_up_to upper live p = Some (a, of_nat (length removed), ?p)"
    using rs(1) ds(1) walk l
    by (simp add: collect_up_to_def lru_delegate_def lru_RemoveOrphanedDocuments_def documents_RemoveOrphaned_def flip: q_def)
      (simp add: q_def)
  moreover have "persistence_ok n ?p"
  proof -
    have "length (sm_entries ds) \<le> length (sm_entries (docs q))" by (simp add: entries q_def)
    from persistence_ok_docs [OF q ds(2) this] show ?thesis by (simp add: persistence_ok_def)
  qed
  moreover have "referenced ?p = referenced q" by simp
  moreover have "filter (\<lambda>(t, d). \<not> outdated upper live d) ts =
      filter (\<lambda>(t, d). sint upper < sint (sequence_number d) \<or> target_id d \<in> live) ts" for ts :: "('a \<times> 'a TargetData) list"
    by (intro filter_cong) (auto simp: outdated_def)
  ultimately show ?thesis
    using entries rs(3) [unfolded outdated_def]
    by - (rule exI [of _ a], rule exI [of _ "of_nat (length removed)"], rule exI [of _ ?p], simp add: q_def)
qed

section \<open>An example\<close>

definition lru_example :: "(nat, bytes, nat) MemoryPersistence" where
  "lru_example = (WithLruGarbageCollector :: (nat, bytes, nat) MemoryPersistence)\<lparr>target_cache :=
     MemoryTargetCache_init\<lparr>targets := [(0, make_TargetData 0 2 5 Listen), (1, make_TargetData 1 4 3 Listen)]\<rparr>\<rparr>"

lemma lru_example_ok:
  "persistence_ok 0 lru_example" "reference_delegate lru_example = Lru (LruDelegate_init 0)"
  "targets (target_cache lru_example) = [(0, make_TargetData 0 2 5 Listen), (1, make_TargetData 1 4 3 Listen)]"
  using rs_ok_init [of 0]
  by (simp_all add: lru_example_def persistence_ok_def WithLruGarbageCollector_def MemoryPersistence_init_def
      MemoryTargetCache_init_def)

lemma lru_example_numbers: "all_numbers (LruDelegate_init 0) lru_example = [5, 3]"
  by (simp add: all_numbers_def lru_example_ok unreferenced_numbers_def LruDelegate_init_def make_TargetData_def)

lemma collection_bound_witness: "SequenceNumberForQueryCount 1 (LruDelegate_init 0) lru_example = Some 3"
proof -
  have "distinct (map fst (sequence_numbers (LruDelegate_init 0)))" by (simp add: LruDelegate_init_def)
  moreover have "0 < sint (1 :: s32)" "all_numbers (LruDelegate_init 0) lru_example \<noteq> []"
    by (simp_all add: lru_example_numbers)
  ultimately show ?thesis using collection_bound [OF lru_example_ok(1)] by (simp add: lru_example_numbers)
qed

lemma collection_exact_witness:
  "\<exists>a b p'. collect_up_to 3 {} lru_example = Some (a, b, p') \<and>
     targets (target_cache p') = [(0, make_TargetData 0 2 5 Listen)]"
proof -
  have "distinct (map fst (targets (target_cache lru_example)))"
    "\<forall>(t, d) \<in> set (targets (target_cache lru_example)). sint (target_id d) < 2 ^ 31 - 1"
    by (simp_all add: lru_example_ok make_TargetData_def)
  from collection_exact [OF lru_example_ok(1,2) this, of 3 "{}"]
  obtain a b p' where "collect_up_to 3 {} lru_example = Some (a, b, p')"
    "targets (target_cache p') = filter (\<lambda>(t, d). sint (3 :: s64) < sint (sequence_number d) \<or> target_id d \<in> {})
       (targets (target_cache lru_example))" by blast
  then show ?thesis
    by (intro exI [of _ a] exI [of _ b] exI [of _ p']) (simp add: lru_example_ok make_TargetData_def)
qed

text \<open>The example of the header file: of 20 queries, 40 percent are 8.\<close>

lemma to_float_example:
  "\<lfloor>to_float (to_float (to_float 40 / 100) * to_float 20)\<rfloor> = 8"
  by code_simp

end
