(* ===== verification/RemoteEventsSpec.thy ===== *)
theory RemoteEventsSpec
  imports RemoteEvents ReferenceSetSpec
begin

text \<open>
  The watch stream as a set of members: what the aggregator gathers for a target is the difference
  between the documents the client holds for it and the documents it has after the messages.
\<close>

section \<open>The members of a target\<close>

definition changes_ok :: "DocumentKey set \<Rightarrow> TargetState \<Rightarrow> bool" where
  "changes_ok K s \<longleftrightarrow> distinct (map fst (document_changes s)) \<and>
     (\<forall>k t. map_of (document_changes s) k = Some t \<longrightarrow> t = Added \<and> k \<notin> K \<or> (t = Modified \<or> t = Removed) \<and> k \<in> K)"

definition members :: "DocumentKey set \<Rightarrow> TargetState \<Rightarrow> DocumentKey set" where
  "members K s = {k. case map_of (document_changes s) k of
     Some t \<Rightarrow> t \<noteq> Removed
   | None \<Rightarrow> k \<in> K}"

lemma changes_ok_init [simp]: "changes_ok K TargetState_init" "members K TargetState_init = K" "\<not> IsPending TargetState_init"
  "document_changes TargetState_init = []"
  by (simp_all add: changes_ok_def members_def TargetState_init_def IsPending_def)

lemma add_member:
  assumes "changes_ok K s"
  shows "changes_ok K (AddDocumentChange k (if k \<in> K then Modified else Added) s)"
    "members K (AddDocumentChange k (if k \<in> K then Modified else Added) s) = insert k (members K s)"
  using assms by (auto simp: changes_ok_def members_def AddDocumentChange_def update_conv' distinct_update split: if_splits)

definition drop_change :: "DocumentKey set \<Rightarrow> DocumentKey \<Rightarrow> TargetState \<Rightarrow> TargetState" where
  "drop_change K k s = (if k \<in> K then AddDocumentChange k Removed s else RemoveDocumentChange k s)"

lemma drop_member:
  assumes "changes_ok K s"
  shows "changes_ok K (drop_change K k s)" "members K (drop_change K k s) = members K s - {k}"
  using assms by (auto simp: drop_change_def changes_ok_def members_def AddDocumentChange_def RemoveDocumentChange_def
      update_conv' delete_conv' distinct_update distinct_delete simp del: map_of_eq_Some_iff split: if_splits)

lemma pending_unchanged [simp]:
  "IsPending (AddDocumentChange k t s) = IsPending s" "IsPending (drop_change K k s) = IsPending s"
  by (simp_all add: IsPending_def AddDocumentChange_def drop_change_def RemoveDocumentChange_def)

section \<open>The state of a target in the aggregator\<close>

lemma state_of_set [simp]: "state_of i (set_state j s a) = (if i = j then s else state_of i a)"
  by (simp add: state_of_def set_state_def update_conv')

lemma state_of_updates [simp]:
  "state_of i (a\<lparr>pending_document_updates := u\<rparr>) = state_of i a"
  "state_of i (a\<lparr>pending_target_resets := r\<rparr>) = state_of i a"
  "state_of i (map_document k j a) = state_of i a"
  by (simp_all add: state_of_def map_document_def Let_def)

lemma EnsureTargetState_simps [simp]: "EnsureTargetState i a = (state_of i a, set_state i (state_of i a) a)"
  by (simp add: EnsureTargetState_def)

lemma TargetDataForActiveTarget_state:
  "TargetDataForActiveTarget provider i a =
     (if IsPending (state_of i a) then None else GetTargetDataForTarget provider i)"
  by (auto simp: TargetDataForActiveTarget_def state_of_def split: option.splits)

abbreviation remote_keys :: "('f, 'z) TargetMetadataProvider \<Rightarrow> s32 \<Rightarrow> DocumentKey set" where
  "remote_keys provider i \<equiv> keys_of (GetRemoteKeysForTarget provider i)"

lemma set_contains_keys: "sm_wf s \<Longrightarrow> set_contains Compare k s \<longleftrightarrow> k \<in> keys_of s"
  using sm.has_key [of s k] by (simp add: set_contains_def keys_of_def)

text \<open>The provider holds its keys in well-formed sets.\<close>

definition provider_ok :: "('f, 'z) TargetMetadataProvider \<Rightarrow> s32 \<Rightarrow> bool" where
  "provider_ok provider i \<longleftrightarrow> sm_wf (GetRemoteKeysForTarget provider i)"

definition active :: "('f, 'z) TargetMetadataProvider \<Rightarrow> s32 \<Rightarrow> TargetState \<Rightarrow> bool" where
  "active provider i s \<longleftrightarrow> \<not> IsPending s \<and> GetTargetDataForTarget provider i \<noteq> None"

lemma IsActiveTarget_state: "IsActiveTarget provider i a \<longleftrightarrow> active provider i (state_of i a)"
  by (simp add: IsActiveTarget_def TargetDataForActiveTarget_state active_def)

lemma AddDocumentToTarget_state:
  assumes "provider_ok provider i"
  shows "state_of i (AddDocumentToTarget provider j d a) =
    (if j = i \<and> active provider i (state_of i a)
     then AddDocumentChange (document_key d) (if document_key d \<in> remote_keys provider i then Modified else Added) (state_of i a)
     else state_of i a)"
  using assms by (auto simp: AddDocumentToTarget_def IsActiveTarget_state TargetContainsDocument_def
      set_contains_keys provider_ok_def Let_def)

lemma RemoveDocumentFromTarget_state:
  assumes "provider_ok provider i"
  shows "state_of i (RemoveDocumentFromTarget provider j k d a) =
    (if j = i \<and> active provider i (state_of i a) then drop_change (remote_keys provider i) k (state_of i a) else state_of i a)"
  using assms by (auto simp: RemoveDocumentFromTarget_def IsActiveTarget_state TargetContainsDocument_def
      set_contains_keys provider_ok_def drop_change_def Let_def split: option.split)

section \<open>Messages about documents\<close>

text \<open>What a message means for the members of a target.\<close>

definition member_change :: "s32 \<Rightarrow> 'v DocumentWatchChange \<Rightarrow> DocumentKey set \<Rightarrow> DocumentKey set" where
  "member_change i c M =
     (let M = (if i \<in> set (updated_target_ids c) then
          (case new_document c of
             None \<Rightarrow> M
           | Some d \<Rightarrow> if is_found_document d then insert (document_key d) M
                       else if is_no_document d then M - {changed_document_key c} else M) else M)
      in if i \<in> set (removed_target_ids c) then M - {changed_document_key c} else M)"

definition touched :: "'v DocumentWatchChange \<Rightarrow> DocumentKey set" where
  "touched c = insert (changed_document_key c) (document_key ` set_option (new_document c))"

text \<open>An active target whose changes lead to \<open>M\<close>, and only name documents of \<open>T\<close>.\<close>

definition follows ::
  "('f, 'z) TargetMetadataProvider \<Rightarrow> s32 \<Rightarrow> DocumentKey set \<Rightarrow> DocumentKey set \<Rightarrow> TargetState \<Rightarrow> bool" where
  "follows provider i T M s \<longleftrightarrow> active provider i s \<and> changes_ok (remote_keys provider i) s \<and>
     members (remote_keys provider i) s = M \<and> fst ` set (document_changes s) \<subseteq> T"

lemma changes_keys:
  "fst ` set (document_changes (AddDocumentChange k t s)) \<subseteq> insert k (fst ` set (document_changes s))"
  "fst ` set (document_changes (RemoveDocumentChange k s)) \<subseteq> fst ` set (document_changes s)"
  using dom_update [of k t "document_changes s"]
  by (auto simp: AddDocumentChange_def RemoveDocumentChange_def AList.delete_eq)

lemma follows_add:
  assumes "provider_ok provider i" "follows provider i T M (state_of i a)" "document_key d \<in> T"
  shows "follows provider i T (if j = i then insert (document_key d) M else M) (state_of i (AddDocumentToTarget provider j d a))"
proof (cases "j = i")
  case True
  let ?s = "state_of i a" and ?k = "document_key d" and ?K = "remote_keys provider i"
  have s: "active provider i ?s" "changes_ok ?K ?s" "members ?K ?s = M" "fst ` set (document_changes ?s) \<subseteq> T"
    using assms(2) by (simp_all add: follows_def)
  have "fst ` set (document_changes (AddDocumentChange ?k t ?s)) \<subseteq> T" for t
    using assms(3) s(4) by (intro subset_trans [OF changes_keys(1)]) simp
  moreover have "state_of i (AddDocumentToTarget provider j d a) =
      AddDocumentChange ?k (if ?k \<in> ?K then Modified else Added) ?s"
    using s(1) True by (simp only: AddDocumentToTarget_state [OF assms(1)] simp_thms if_True)
  moreover have "active provider i (AddDocumentChange ?k t ?s)" for t using s(1) by (simp add: active_def)
  ultimately show ?thesis using add_member [OF s(2), of ?k] True s(3) unfolding follows_def by (metis (no_types))
qed (use assms(2) in \<open>simp add: AddDocumentToTarget_state [OF assms(1)]\<close>)

lemma drop_keys: "fst ` set (document_changes (drop_change K k s)) \<subseteq> insert k (fst ` set (document_changes s))"
  using changes_keys(1) [of k Removed s] changes_keys(2) [of k s] by (auto simp: drop_change_def)

lemma follows_drop:
  assumes "provider_ok provider i" "follows provider i T M (state_of i a)" "k \<in> T"
  shows "follows provider i T (if j = i then M - {k} else M) (state_of i (RemoveDocumentFromTarget provider j k d a))"
proof (cases "j = i")
  case True
  let ?s = "state_of i a" and ?K = "remote_keys provider i"
  have s: "active provider i ?s" "changes_ok ?K ?s" "members ?K ?s = M" "fst ` set (document_changes ?s) \<subseteq> T"
    using assms(2) by (simp_all add: follows_def)
  have "fst ` set (document_changes (drop_change ?K k ?s)) \<subseteq> T"
    using assms(3) s(4) by (intro subset_trans [OF drop_keys]) simp
  with drop_member [OF s(2), of k] s(1,3) True show ?thesis
    by (simp add: follows_def RemoveDocumentFromTarget_state [OF assms(1)] active_def)
qed (use assms(2) in \<open>simp add: RemoveDocumentFromTarget_state [OF assms(1)]\<close>)

lemma fold_follows:
  assumes "\<And>j a M. j \<in> set ids \<Longrightarrow> follows provider i T M (state_of i a) \<Longrightarrow>
      follows provider i T (if j = i then g M else M) (state_of i (f j a))"
    and "\<And>M. g (g M) = g M" and "follows provider i T M (state_of i a)"
  shows "follows provider i T (if i \<in> set ids then g M else M) (state_of i (fold f ids a))"
  using assms(1,3)
proof (induction ids arbitrary: a M)
  case (Cons j ids)
  have "follows provider i T (if j = i then g M else M) (state_of i (f j a))" using Cons.prems by simp
  from Cons.IH [OF _ this] Cons.prems(1) show ?case by (auto simp: assms(2) split: if_splits)
qed simp

lemma HandleDocumentChange_follows:
  assumes p: "provider_ok provider i" and a: "follows provider i T M (state_of i a)" and T: "touched c \<subseteq> T"
  shows "follows provider i T (member_change i c M) (state_of i (HandleDocumentChange provider c a))"
proof -
  let ?k = "changed_document_key c"
  let ?g = "\<lambda>M. case new_document c of None \<Rightarrow> M
     | Some d \<Rightarrow> if is_found_document d then insert (document_key d) M else if is_no_document d then M - {?k} else M"
  let ?f = "\<lambda>j a. case new_document c of None \<Rightarrow> a
     | Some d \<Rightarrow> if is_found_document d then AddDocumentToTarget provider j d a
         else if is_no_document d then RemoveDocumentFromTarget provider j ?k (new_document c) a else a"
  have k: "?k \<in> T" and d: "new_document c = Some d \<Longrightarrow> document_key d \<in> T" for d using T by (auto simp: touched_def)
  have "follows provider i T (if j = i then ?g M else M) (state_of i (?f j a))" if "follows provider i T M (state_of i a)" for j a M
  proof (cases "new_document c")
    case (Some d)
    show ?thesis using that follows_add [OF p that d [OF Some], of j] follows_drop [OF p that k, of j "Some d"]
      by (cases "j = i") (simp_all add: Some)
  qed (use that in simp)
  then have "follows provider i T (if i \<in> set (updated_target_ids c) then ?g M else M) (state_of i (fold ?f (updated_target_ids c) a))"
    by (rule fold_follows) (auto split: option.split intro: a)
  note first = this
  let ?N = "if i \<in> set (updated_target_ids c) then ?g M else M"
  have "follows provider i T (if i \<in> set (removed_target_ids c) then ?N - {?k} else ?N)
      (state_of i (fold (\<lambda>j. RemoveDocumentFromTarget provider j ?k (new_document c)) (removed_target_ids c)
         (fold ?f (updated_target_ids c) a)))"
    by (rule fold_follows [where g = "\<lambda>M. M - {?k}"]) (erule follows_drop [OF p _ k], simp, rule first)
  then show ?thesis by (simp add: HandleDocumentChange_def member_change_def Let_def)
qed

lemma fold_state:
  assumes "\<And>j b. j \<in> set ids \<Longrightarrow> state_of i b = s \<Longrightarrow> state_of i (f j b) = s"
  shows "state_of i a = s \<Longrightarrow> state_of i (fold f ids a) = s"
  using assms by (induction ids arbitrary: a) simp_all

lemma HandleDocumentChange_inactive:
  assumes p: "provider_ok provider i" and s: "\<not> active provider i (state_of i a)"
  shows "state_of i (HandleDocumentChange provider c a) = state_of i a"
proof -
  let ?k = "changed_document_key c"
  let ?f = "\<lambda>j a. case new_document c of None \<Rightarrow> a
     | Some d \<Rightarrow> if is_found_document d then AddDocumentToTarget provider j d a
         else if is_no_document d then RemoveDocumentFromTarget provider j ?k (new_document c) a else a"
  have "state_of i (fold ?f (updated_target_ids c) a) = state_of i a"
    using s by (intro fold_state) (auto simp: AddDocumentToTarget_state [OF p] RemoveDocumentFromTarget_state [OF p] split: option.split)
  then have "state_of i (fold (\<lambda>j. RemoveDocumentFromTarget provider j ?k (new_document c)) (removed_target_ids c)
      (fold ?f (updated_target_ids c) a)) = state_of i a"
    by (rule fold_state [rotated]) (use s in \<open>simp add: RemoveDocumentFromTarget_state [OF p]\<close>)
  then show ?thesis by (simp add: HandleDocumentChange_def Let_def)
qed


lemma HandleDocumentChanges_follow:
  assumes "provider_ok provider i" "\<forall>c \<in> set cs. touched c \<subseteq> T"
  shows "follows provider i T M (state_of i a) \<Longrightarrow>
    follows provider i T (fold (member_change i) cs M) (state_of i (fold (HandleDocumentChange provider) cs a))"
  using assms(2) by (induction cs arbitrary: a M) (simp_all add: HandleDocumentChange_follows [OF assms(1)])

section \<open>The change of a target\<close>

lemma split_changes:
  "\<forall>(k, t) \<in> set dc. t \<noteq> Metadata \<Longrightarrow> set_ok (length dc) a \<Longrightarrow> set_ok (length dc) m \<Longrightarrow> set_ok (length dc) r \<Longrightarrow>
   \<exists>a' m' r'. for_each (\<lambda>(key, change_type) (a, m, r). case change_type of
         Added \<Rightarrow> do { a \<leftarrow> set_insert key_CompareTo key a; Some (a, m, r) }
       | Modified \<Rightarrow> do { m \<leftarrow> set_insert key_CompareTo key m; Some (a, m, r) }
       | Removed \<Rightarrow> do { r \<leftarrow> set_insert key_CompareTo key r; Some (a, m, r) }
       | Metadata \<Rightarrow> None) dc (a, m, r) = Some (a', m', r') \<and> sm_wf a' \<and> sm_wf m' \<and> sm_wf r' \<and>
     keys_of a' = {k. (k, Added) \<in> set dc} \<union> keys_of a \<and>
     keys_of m' = {k. (k, Modified) \<in> set dc} \<union> keys_of m \<and>
     keys_of r' = {k. (k, Removed) \<in> set dc} \<union> keys_of r"
proof (induction dc arbitrary: a m r)
  case (Cons p dc)
  obtain k t where p: "p = (k, t)" by (cases p)
  have ok: "set_ok (Suc (length dc)) a" "set_ok (Suc (length dc)) m" "set_ok (Suc (length dc)) r"
    using Cons.prems by simp_all
  then have ok': "set_ok (length dc) a" "set_ok (length dc) m" "set_ok (length dc) r" by (simp_all add: set_ok_def)
  have dc: "\<forall>(k, t) \<in> set dc. t \<noteq> Metadata" and t: "t \<noteq> Metadata" using Cons.prems(1) p by auto
  show ?case
  proof (cases t)
    case Added
    obtain u where u: "set_insert Compare k a = Some u" "set_ok (length dc) u" "keys_of u = insert k (keys_of a)"
      using set_insert_ok [OF ok(1)] by blast
    from Cons.IH [OF dc u(2) ok'(2,3)] u(1,3) Added p show ?thesis by auto
  next
    case Modified
    obtain u where u: "set_insert Compare k m = Some u" "set_ok (length dc) u" "keys_of u = insert k (keys_of m)"
      using set_insert_ok [OF ok(2)] by blast
    from Cons.IH [OF dc ok'(1) u(2) ok'(3)] u(1,3) Modified p show ?thesis by auto
  next
    case Removed
    obtain u where u: "set_insert Compare k r = Some u" "set_ok (length dc) u" "keys_of u = insert k (keys_of r)"
      using set_insert_ok [OF ok(3)] by blast
    from Cons.IH [OF dc ok'(1,2) u(2)] u(1,3) Removed p show ?thesis by auto
  qed (use t in simp)
qed (simp add: set_ok_def)

lemma ToTargetChange_members:
  assumes "changes_ok K s" "length (document_changes s) < 2 ^ 31"
  shows "\<exists>c. ToTargetChange s = Some c \<and> sm_wf (added_documents c) \<and> sm_wf (modified_documents c) \<and> sm_wf (removed_documents c) \<and>
    keys_of (added_documents c) = members K s - K \<and> keys_of (removed_documents c) = K - members K s \<and>
    keys_of (modified_documents c) \<subseteq> K \<inter> members K s"
proof -
  let ?dc = "document_changes s"
  have dist: "distinct (map fst ?dc)" and ok: "\<And>k t. map_of ?dc k = Some t \<Longrightarrow>
      t = Added \<and> k \<notin> K \<or> (t = Modified \<or> t = Removed) \<and> k \<in> K" using assms(1) by (auto simp: changes_ok_def)
  have dc: "\<forall>(k, t) \<in> set ?dc. t \<noteq> Metadata"
  proof clarify
    fix k assume "(k, Metadata) \<in> set ?dc"
    then have "map_of ?dc k = Some Metadata" using dist by simp
    from ok [OF this] show False by simp
  qed
  have "set_ok (length ?dc) set_init" using assms(2) by (simp add: set_ok_def)
  from split_changes [OF dc this this this] obtain a m r where
    loop: "for_each (\<lambda>(key, change_type) (a, m, r). case change_type of
         Added \<Rightarrow> do { a \<leftarrow> set_insert key_CompareTo key a; Some (a, m, r) }
       | Modified \<Rightarrow> do { m \<leftarrow> set_insert key_CompareTo key m; Some (a, m, r) }
       | Removed \<Rightarrow> do { r \<leftarrow> set_insert key_CompareTo key r; Some (a, m, r) }
       | Metadata \<Rightarrow> None) ?dc (set_init, set_init, set_init) = Some (a, m, r)"
    and wf: "sm_wf a" "sm_wf m" "sm_wf r" and sets: "keys_of a = {k. map_of ?dc k = Some Added}"
    "keys_of m = {k. map_of ?dc k = Some Modified}" "keys_of r = {k. map_of ?dc k = Some Removed}"
    using dist by auto
  have "keys_of a = members K s - K" "keys_of r = K - members K s" "keys_of m \<subseteq> K \<inter> members K s"
    unfolding sets members_def using ok by (fastforce split: option.splits)+
  with loop wf show ?thesis by (simp add: ToTargetChange_def)
qed

lemma follows_change:
  assumes "follows provider i T M s" "finite T" "card T < 2 ^ 31"
  shows "\<exists>c. ToTargetChange s = Some c \<and> sm_wf (added_documents c) \<and> sm_wf (modified_documents c) \<and> sm_wf (removed_documents c) \<and>
    keys_of (added_documents c) = M - remote_keys provider i \<and> keys_of (removed_documents c) = remote_keys provider i - M \<and>
    keys_of (modified_documents c) \<subseteq> remote_keys provider i \<inter> M"
proof -
  have s: "changes_ok (remote_keys provider i) s" "members (remote_keys provider i) s = M"
    "fst ` set (document_changes s) \<subseteq> T" using assms(1) by (simp_all add: follows_def)
  have "distinct (map fst (document_changes s))" using s(1) by (simp add: changes_ok_def)
  from distinct_card [OF this] have "length (document_changes s) = card (fst ` set (document_changes s))" by simp
  also have "\<dots> \<le> card T" using assms(2) s(3) by (rule card_mono)
  finally have "length (document_changes s) < 2 ^ 31" using assms(3) by simp
  from ToTargetChange_members [OF s(1) this] show ?thesis by (simp add: s(2))
qed

definition all_touched :: "'v DocumentWatchChange list \<Rightarrow> DocumentKey set" where
  "all_touched cs = (\<Union>c \<in> set cs. touched c)"

lemma all_touched_card: "finite (all_touched cs) \<and> card (all_touched cs) \<le> 2 * length cs"
proof (induction cs)
  case (Cons c cs)
  have "finite (touched c)" "card (touched c) \<le> 2"
    by (cases "new_document c"; auto simp: touched_def card_insert_if)+
  moreover have "all_touched (c # cs) = touched c \<union> all_touched cs" by (simp add: all_touched_def)
  ultimately show ?case using Cons card_Un_le [of "touched c" "all_touched cs"] by auto
qed (simp add: all_touched_def)

lemma state_of_init: "state_of i WatchChangeAggregator_init = TargetState_init"
  by (simp add: state_of_def WatchChangeAggregator_init_def)

lemma follows_init:
  assumes "GetTargetDataForTarget provider i \<noteq> None"
  shows "follows provider i T (remote_keys provider i) (state_of i WatchChangeAggregator_init)"
  using assms by (simp add: follows_def active_def state_of_init)

lemma HandleDocumentChanges_init:
  assumes "provider_ok provider i" "GetTargetDataForTarget provider i \<noteq> None"
  shows "follows provider i (all_touched cs) (fold (member_change i) cs (remote_keys provider i))
    (state_of i (fold (HandleDocumentChange provider) cs WatchChangeAggregator_init))"
  by (rule HandleDocumentChanges_follow [OF assms(1) _ follows_init [OF assms(2)]]) (auto simp: all_touched_def)

text \<open>
  C2: What the watch stream says of a target is gathered exactly.  Take any sequence of messages about
  documents, which add documents to targets, delete them or take them out of targets, in any order and
  with any repetition.  For a target that is listened to, the change of the next snapshot adds
  exactly the documents the messages lead to that the client does not hold, removes exactly those it
  holds that the messages have taken away, and modifies only documents that stay.
\<close>

theorem watch_stream_tracks_members:
  "provider_ok provider i \<Longrightarrow> GetTargetDataForTarget provider i \<noteq> None \<Longrightarrow> 2 * length cs < 2 ^ 31 \<Longrightarrow>
   M = fold (member_change i) cs (remote_keys provider i) \<Longrightarrow>
   \<exists>change. ToTargetChange (state_of i (fold (HandleDocumentChange provider) cs WatchChangeAggregator_init)) = Some change \<and>
     keys_of (added_documents change) = M - remote_keys provider i \<and>
     keys_of (removed_documents change) = remote_keys provider i - M \<and>
     keys_of (modified_documents change) \<subseteq> remote_keys provider i \<inter> M"
proof -
  assume p: "provider_ok provider i" "GetTargetDataForTarget provider i \<noteq> None" and len: "2 * length cs < 2 ^ 31"
    and M: "M = fold (member_change i) cs (remote_keys provider i)"
  from all_touched_card [of cs] len have "finite (all_touched cs)" "card (all_touched cs) < 2 ^ 31" by auto
  from follows_change [OF HandleDocumentChanges_init [OF p] this] show ?thesis unfolding M by blast
qed

section \<open>Existence filters\<close>

lemma RemoveDocumentFromTarget_resets [simp]:
  "pending_target_resets (RemoveDocumentFromTarget provider i k None a) = pending_target_resets a"
  by (simp add: RemoveDocumentFromTarget_def map_document_def set_state_def Let_def)

lemma remove_all_follows:
  assumes "provider_ok provider i" "set ks \<subseteq> T"
  shows "follows provider i T M (state_of i a) \<Longrightarrow>
    follows provider i T (M - set ks) (state_of i (fold (\<lambda>k. RemoveDocumentFromTarget provider i k None) ks a)) \<and>
    pending_target_resets (fold (\<lambda>k. RemoveDocumentFromTarget provider i k None) ks a) = pending_target_resets a"
  using assms(2)
proof (induction ks arbitrary: a M)
  case (Cons k ks)
  have step: "follows provider i T (M - {k}) (state_of i (RemoveDocumentFromTarget provider i k None a))"
    using follows_drop [OF assms(1) Cons.prems(1), of k i None] Cons.prems(2) by simp
  have "set ks \<subseteq> T" using Cons.prems(2) by simp
  from Cons.IH [OF step this] show ?case
    by (simp only: Diff_insert2 [symmetric] list.set fold.simps o_apply RemoveDocumentFromTarget_resets)
qed simp

lemma ResetTarget_follows:
  assumes p: "provider_ok provider i" and s: "map_of (target_states a) i = Some s" "active provider i s"
  shows "\<exists>a'. ResetTarget provider i a = Some a' \<and> follows provider i (remote_keys provider i) {} (state_of i a') \<and>
    pending_target_resets a' = pending_target_resets a"
proof -
  have "sm_wf (GetRemoteKeysForTarget provider i)" using p by (simp add: provider_ok_def)
  from set_values_keys [OF this] obtain ks where
    ks: "set_values (GetRemoteKeysForTarget provider i) = Some ks" "set ks = remote_keys provider i" by simp
  let ?a = "set_state i TargetState_init a"
  have "follows provider i (remote_keys provider i) (remote_keys provider i) (state_of i ?a)"
    using s(2) by (simp add: follows_def active_def)
  from remove_all_follows [OF p _ this, of ks] ks(2)
  have "follows provider i (remote_keys provider i) {} (state_of i (fold (\<lambda>k. RemoveDocumentFromTarget provider i k None) ks ?a))"
    "pending_target_resets (fold (\<lambda>k. RemoveDocumentFromTarget provider i k None) ks ?a) = pending_target_resets a"
    by (simp_all add: set_state_def)
  moreover have "ResetTarget provider i a = Some (fold (\<lambda>k. RemoveDocumentFromTarget provider i k None) ks ?a)"
    using s by (simp add: ResetTarget_def HARD_ASSERT_def active_def ks(1))
  ultimately show ?thesis by blast
qed

lemma set_size_keys:
  assumes "sm_wf s" "card (keys_of s) < 2 ^ 31"
  shows "set_size s = of_nat (card (keys_of s))"
  by (simp add: set_size_def flip: sm_size_card [OF assms])

lemma current_count:
  assumes p: "provider_ok provider i" and f: "follows provider i T M (state_of i a)" and T: "finite T"
    "card (remote_keys provider i) + card T < 2 ^ 31"
  shows "GetCurrentDocumentCountForTarget provider i a = Some (of_nat (card M), set_state i (state_of i a) a) \<and> card M < 2 ^ 31"
proof -
  let ?K = "remote_keys provider i"
  have "card T < 2 ^ 31" using T(2) by simp
  from follows_change [OF f T(1) this] obtain c where c: "ToTargetChange (state_of i a) = Some c"
    "sm_wf (added_documents c)" "sm_wf (removed_documents c)"
    "keys_of (added_documents c) = M - ?K" "keys_of (removed_documents c) = ?K - M" by blast
  have "M \<subseteq> ?K \<union> T"
  proof
    fix k assume "k \<in> M"
    then show "k \<in> ?K \<union> T" using f
      by (force simp: follows_def members_def split: option.splits dest: map_of_SomeD)
  qed
  then have fin: "finite M" and "card M \<le> card (?K \<union> T)" using T(1) by (auto intro: finite_subset card_mono)
  then have M: "card M < 2 ^ 31" using card_Un_le [of ?K T] T(2) by linarith
  have "card (?K - M) \<le> card ?K" "card (M - ?K) \<le> card M" using fin by (auto intro: card_mono)
  then have sizes: "set_size (GetRemoteKeysForTarget provider i) = of_nat (card ?K)"
    "set_size (added_documents c) = of_nat (card (M - ?K))" "set_size (removed_documents c) = of_nat (card (?K - M))"
    using set_size_keys [OF c(2)] set_size_keys [OF c(3)] set_size_keys [of "GetRemoteKeysForTarget provider i"] p T(2) M c(4,5)
    by (simp_all add: provider_ok_def)
  have "card ?K + card (M - ?K) = card (?K \<union> M)" "card M + card (?K - M) = card (?K \<union> M)"
    using fin card_Un_disjoint [of ?K "M - ?K"] card_Un_disjoint [of M "?K - M"] by (auto simp: Un_commute)
  then have "of_nat (card ?K) + of_nat (card (M - ?K)) = (of_nat (card M) + of_nat (card (?K - M)) :: size_type)"
    by (metis of_nat_add)
  then have "of_nat (card ?K) + of_nat (card (M - ?K)) - of_nat (card (?K - M)) = (of_nat (card M) :: size_type)" by simp
  with M show ?thesis by (simp add: GetCurrentDocumentCountForTarget_def c(1) sizes)
qed

text \<open>
  C20: An existence filter of a query resets the target exactly when the counts differ.  After any
  messages about documents, a filter with the number of documents that the messages lead to leaves the
  gathered changes as they are; a filter with any other count marks the target as reset, and the
  gathered change then removes all the documents the client holds and adds none.
\<close>

theorem existence_filter_resets_mismatch:
  "provider_ok provider i \<Longrightarrow> GetTargetDataForTarget provider i = Some d \<Longrightarrow> \<not> IsDocumentQuery (data_target d) \<Longrightarrow>
   card (remote_keys provider i) + 2 * length cs < 2 ^ 31 \<Longrightarrow>
   M = fold (member_change i) cs (remote_keys provider i) \<Longrightarrow>
   a = fold (HandleDocumentChange provider) cs WatchChangeAggregator_init \<Longrightarrow>
   \<exists>a'. HandleExistenceFilter provider \<lparr>filter_count = n, filter_target_id = i\<rparr> a = Some a' \<and>
     (if sint n = int (card M) then state_of i a' = state_of i a \<and> pending_target_resets a' = pending_target_resets a
      else pending_target_resets a' = insert i (pending_target_resets a) \<and>
        (\<exists>change. ToTargetChange (state_of i a') = Some change \<and> keys_of (added_documents change) = {} \<and>
           keys_of (removed_documents change) = remote_keys provider i))"
proof -
  assume p: "provider_ok provider i" and d: "GetTargetDataForTarget provider i = Some d" "\<not> IsDocumentQuery (data_target d)"
    and len: "card (remote_keys provider i) + 2 * length cs < 2 ^ 31"
    and M: "M = fold (member_change i) cs (remote_keys provider i)"
    and a: "a = fold (HandleDocumentChange provider) cs WatchChangeAggregator_init"
  let ?a = "set_state i (state_of i a) a"
  have f: "follows provider i (all_touched cs) M (state_of i a)"
    using HandleDocumentChanges_init [OF p, of cs] d(1) unfolding M a by simp
  have T: "finite (all_touched cs)" "card (remote_keys provider i) + card (all_touched cs) < 2 ^ 31"
    using all_touched_card [of cs] len by auto
  note count = current_count [OF p f T]
  have act: "active provider i (state_of i a)" using f by (simp add: follows_def)
  have n: "of_nat (card M) = n \<longleftrightarrow> sint n = int (card M)"
  proof -
    have "sint (of_nat (card M) :: s32) = int (card M)"
      using count by (simp add: signed_of_nat signed_take_bit_int_eq_self)
    then show ?thesis by (metis signed_word_eqI)
  qed
  show ?thesis
  proof (cases "sint n = int (card M)")
    case True
    then show ?thesis using act d count n
      by (simp add: HandleExistenceFilter_def TargetDataForActiveTarget_state active_def) (simp add: set_state_def)
  next
    case False
    have "map_of (target_states ?a) i = Some (state_of i a)" by (simp add: set_state_def update_conv')
    from ResetTarget_follows [OF p this act] obtain a' where a': "ResetTarget provider i ?a = Some a'"
      "follows provider i (remote_keys provider i) {} (state_of i a')" "pending_target_resets a' = pending_target_resets a"
      by (auto simp: set_state_def)
    from follows_change [OF a'(2)] len obtain c where "ToTargetChange (state_of i a') = Some c"
      "keys_of (added_documents c) = {}" "keys_of (removed_documents c) = remote_keys provider i" by auto
    with False act d count n a' show ?thesis
      by (simp add: HandleExistenceFilter_def TargetDataForActiveTarget_state active_def)
  qed
qed

section \<open>An example\<close>

definition example_provider :: "(unit, unit) TargetMetadataProvider" where
  "example_provider = \<lparr>GetRemoteKeysForTarget = \<lambda>_. set_init,
     GetTargetDataForTarget = \<lambda>i. Some (make_TargetData
       \<lparr>target_path = [[1]], target_collection_group = None, target_filters = []\<rparr> i 1 Listen)\<rparr>"

definition example_message :: "bytes DocumentWatchChange" where
  "example_message = \<lparr>updated_target_ids = [4], removed_target_ids = [], changed_document_key = [[1], [2]],
     new_document = Some (FoundDocument [[1], [2]] SnapshotVersion_None [])\<rparr>"

lemma example_provider_ok:
  "provider_ok example_provider 4" "remote_keys example_provider 4 = {}"
  "GetTargetDataForTarget example_provider 4 = Some (make_TargetData
     \<lparr>target_path = [[1]], target_collection_group = None, target_filters = []\<rparr> 4 1 Listen)"
  by (simp_all add: provider_ok_def example_provider_def)

lemma example_members: "{[[1], [2]]} = fold (member_change 4) [example_message] (remote_keys example_provider 4)"
  unfolding example_provider_ok(2)
  by (simp add: member_change_def example_message_def FoundDocument_def ConvertToFoundDocument_def
      InvalidDocument_def is_found_document_def)

lemma watch_stream_tracks_members_witness:
  "\<exists>change. ToTargetChange (state_of 4 (fold (HandleDocumentChange example_provider) [example_message] WatchChangeAggregator_init)) = Some change \<and>
     keys_of (added_documents change) = {[[1], [2]]}"
proof -
  have "GetTargetDataForTarget example_provider 4 \<noteq> None" "2 * length [example_message] < 2 ^ 31"
    by (simp_all add: example_provider_ok)
  from watch_stream_tracks_members [OF example_provider_ok(1) this example_members] show ?thesis
    by (auto simp: example_provider_ok(2))
qed

lemma existence_filter_resets_mismatch_witness:
  "\<exists>a'. HandleExistenceFilter example_provider \<lparr>filter_count = 3, filter_target_id = 4\<rparr>
     (fold (HandleDocumentChange example_provider) [example_message] WatchChangeAggregator_init) = Some a' \<and>
     4 \<in> pending_target_resets a'"
proof -
  have "\<not> IsDocumentQuery (data_target (make_TargetData
      \<lparr>target_path = [[1]], target_collection_group = None, target_filters = []\<rparr> 4 1 Listen))"
    "card (remote_keys example_provider 4) + 2 * length [example_message] < 2 ^ 31"
    by (simp_all add: make_TargetData_def IsDocumentQuery_def IsDocumentKey_def example_provider_ok(2))
  from existence_filter_resets_mismatch [OF example_provider_ok(1,3) this example_members refl, of 3]
  show ?thesis by auto
qed

end
