(* ===== verification/LocalStoreEvents.thy ===== *)
theory LocalStoreEvents
  imports LocalStore
begin

text \<open>
  The transactions of \<open>Firestore/core/src/local/local_store.cc\<close> that change documents: local writes,
  their acknowledgement and rejection, the events of the watch stream, and bundles.
\<close>

section \<open>Documents from the backend\<close>

definition PopulateDocumentChanges ::
  "(DocumentKey \<times> ('v::default) MutableDocument) list \<Rightarrow> (DocumentKey \<times> SnapshotVersion) list \<Rightarrow> SnapshotVersion \<Rightarrow>
   ('t, 'v, 'm) MemoryPersistence \<Rightarrow> ('v MutableDocumentMap \<times> ('t, 'v, 'm) MemoryPersistence) option" where
  "PopulateDocumentChanges documents document_versions global_version p = do {
     updated_keys \<leftarrow> for_each (\<lambda>(key, _). set_insert key_CompareTo key) documents set_init;
     existing_docs \<leftarrow> documents_GetAll updated_keys (docs p);
     for_each (\<lambda>(key, doc) (changed_docs, p). do {
         existing \<leftarrow> sm_get key_CompareTo key existing_docs;
         existing_doc \<leftarrow> existing;
         let read_time = (case map_of document_versions key of Some v \<Rightarrow> v | None \<Rightarrow> global_version);
         if is_no_document doc \<and> document_version doc = SnapshotVersion_None then do {
           ds \<leftarrow> documents_Remove key (docs p);
           changed_docs \<leftarrow> sm_insert key_CompareTo key doc changed_docs;
           Some (changed_docs, p\<lparr>docs := ds\<rparr>) }
         else if \<not> is_valid_document existing_doc
              \<or> Timestamp_less (document_version existing_doc) (document_version doc)
              \<or> document_version doc = document_version existing_doc \<and> has_pending_writes existing_doc then do {
           _ \<leftarrow> HARD_ASSERT (read_time \<noteq> SnapshotVersion_None);
           p \<leftarrow> documents_Add doc read_time p;
           changed_docs \<leftarrow> sm_insert key_CompareTo key doc changed_docs;
           Some (changed_docs, p) }
         else Some (changed_docs, p) }) documents (sm_init, p) }"

definition kResumeTokenMaxAgeSeconds :: s64 where
  "kResumeTokenMaxAgeSeconds = 5 * 60"

definition ssub64 :: "s64 \<Rightarrow> s64 \<Rightarrow> s64 option" where
  "ssub64 a b = (if in_s64 (sint a - sint b) then Some (a - b) else None)"

definition ShouldPersistTargetData :: "'t TargetData \<Rightarrow> 't TargetData \<Rightarrow> TargetChange \<Rightarrow> bool option" where
  "ShouldPersistTargetData new_target_data old_target_data change = do {
     _ \<leftarrow> HARD_ASSERT (resume_token new_target_data \<noteq> []);
     if resume_token old_target_data = [] then Some True
     else do {
       let new_seconds = seconds (snapshot_version new_target_data);
       let old_seconds = seconds (snapshot_version old_target_data);
       time_delta \<leftarrow> ssub64 new_seconds old_seconds;
       if sint kResumeTokenMaxAgeSeconds \<le> sint time_delta then Some True
       else do {
         let changes = set_size (added_documents change) + set_size (modified_documents change) +
                       set_size (removed_documents change);
         Some (0 < changes) } } }"

definition apply_target_change ::
  "SnapshotVersion \<Rightarrow> s64 \<Rightarrow> s32 \<times> TargetChange \<Rightarrow> ('t, 'v, 'm) LocalStore \<Rightarrow> ('t, 'v, 'm) LocalStore option" where
  "apply_target_change version n = (\<lambda>(i, change) s.
     case map_of (target_data_by_target s) i of
       None \<Rightarrow> Some s
     | Some old_target_data \<Rightarrow> do {
         s \<leftarrow> with_persistence (RemoveMatchingKeys (removed_documents change) i) s;
         s \<leftarrow> with_persistence (AddMatchingKeys (added_documents change) i) s;
         let token = change_resume_token change;
         if token \<noteq> [] then do {
           let new_target_data = WithSequenceNumber n (WithResumeToken token version old_target_data);
           let s = s\<lparr>target_data_by_target := AList.update i new_target_data (target_data_by_target s)\<rparr>;
           persist \<leftarrow> ShouldPersistTargetData new_target_data old_target_data change;
           Some (if persist then with_cache (UpdateTarget new_target_data) s else s) }
         else Some s })"

definition ApplyRemoteEvent ::
  "('m, 'v, 'r) MutationEffects \<Rightarrow> 'v RemoteEvent \<Rightarrow> ('t, 'v::default, 'm) LocalStore \<Rightarrow>
   ('v MutableDocumentMap \<times> ('t, 'v, 'm) LocalStore) option" where
  "ApplyRemoteEvent eff event s = (
     let last_remote_version = last_remote_snapshot_version (target_cache (persistence s)) in
     Run (\<lambda>s. do {
       n \<leftarrow> delegate_current_sequence_number (reference_delegate (persistence s));
       s \<leftarrow> for_each (apply_target_change (event_snapshot_version event) n) (target_changes event) s;
       s \<leftarrow> for_each (\<lambda>(key, _) s.
           if set_contains key_CompareTo key (limbo_document_changes event)
           then with_persistence (UpdateLimboDocument key) s else Some s) (document_updates event) s;
       (changed_docs, p) \<leftarrow> PopulateDocumentChanges (document_updates event) [] (event_snapshot_version event) (persistence s);
       let s = s\<lparr>persistence := p\<rparr>;
       let remote_version = event_snapshot_version event;
       s \<leftarrow> (if remote_version \<noteq> SnapshotVersion_None then do {
               _ \<leftarrow> HARD_ASSERT (\<not> Timestamp_less remote_version last_remote_version);
               Some (with_cache (SetLastRemoteSnapshotVersion remote_version) s) }
             else Some s);
       result \<leftarrow> GetLocalViewOfDocuments eff changed_docs (mutation_queue s);
       Some (result, s) }) s)"

section \<open>Writes\<close>

definition WriteLocally ::
  "('m, 'v, 'r) MutationEffects \<Rightarrow> Timestamp \<Rightarrow> 'm Mutation list \<Rightarrow> ('t, 'v::default, 'm) LocalStore \<Rightarrow>
   ((s32 \<times> 'v MutableDocumentMap) \<times> ('t, 'v, 'm) LocalStore) option" where
  "WriteLocally eff now ms s = do {
     keys \<leftarrow> for_each (\<lambda>m. set_insert key_CompareTo (mutation_key m)) ms set_init;
     Run (\<lambda>s. do {
       existing_documents \<leftarrow> view_GetDocuments eff keys (docs (persistence s)) (mutation_queue s);
       base \<leftarrow> for_each (\<lambda>m base. do {
           found \<leftarrow> sm_get key_CompareTo (mutation_key m) existing_documents;
           base_document \<leftarrow> found;
           Some (case base_mutation eff m base_document of None \<Rightarrow> base | Some b \<Rightarrow> base @ [b]) }) ms [];
       (batch, p) \<leftarrow> persistence_AddMutationBatch (mutation_user s) now base ms (persistence s);
       existing_documents \<leftarrow> batch_ApplyToLocalDocumentSet eff batch existing_documents;
       Some ((batch_id batch, existing_documents), s\<lparr>persistence := p\<rparr>) }) s }"

definition ApplyBatchResult ::
  "('m, 'v, 'r) MutationEffects \<Rightarrow> ('m, 'r) MutationBatchResult \<Rightarrow> ('t, 'v::default, 'm) block" where
  "ApplyBatchResult eff result s = do {
     let batch = result_batch result;
     doc_keys \<leftarrow> batch_keys batch;
     keys \<leftarrow> set_values doc_keys;
     p \<leftarrow> for_each (\<lambda>doc_key p. do {
         doc \<leftarrow> documents_Get doc_key (docs p);
         ack_version \<leftarrow> map_of (doc_versions result) doc_key;
         if Timestamp_less (document_version doc) ack_version then do {
           doc \<leftarrow> batch_ApplyToRemoteDocument eff result batch doc;
           if is_valid_document doc then documents_Add doc (commit_version result) p else Some p }
         else Some p }) keys (persistence s);
     p \<leftarrow> persistence_RemoveMutationBatch (mutation_user s) batch p;
     Some (s\<lparr>persistence := p\<rparr>) }"

definition LocalStore_AcknowledgeBatch ::
  "('m, 'v, 'r) MutationEffects \<Rightarrow> ('m, 'r) MutationBatchResult \<Rightarrow> ('t, 'v::default, 'm) LocalStore \<Rightarrow>
   ('v MutableDocumentMap \<times> ('t, 'v, 'm) LocalStore) option" where
  "LocalStore_AcknowledgeBatch eff result = Run (\<lambda>s. do {
     let batch = result_batch result;
     s \<leftarrow> with_queue (AcknowledgeBatch batch (result_stream_token result)) s;
     s \<leftarrow> ApplyBatchResult eff result s;
     _ \<leftarrow> PerformConsistencyCheck (mutation_queue s);
     keys \<leftarrow> batch_keys batch;
     ds \<leftarrow> view_GetDocuments eff keys (docs (persistence s)) (mutation_queue s);
     Some (ds, s) })"

definition RejectBatch ::
  "('m, 'v, 'r) MutationEffects \<Rightarrow> s32 \<Rightarrow> ('t, 'v::default, 'm) LocalStore \<Rightarrow>
   ('v MutableDocumentMap \<times> ('t, 'v, 'm) LocalStore) option" where
  "RejectBatch eff i = Run (\<lambda>s. do {
     found \<leftarrow> LookupMutationBatch i (mutation_queue s);
     to_reject \<leftarrow> found;
     s \<leftarrow> with_persistence (persistence_RemoveMutationBatch (mutation_user s) to_reject) s;
     _ \<leftarrow> PerformConsistencyCheck (mutation_queue s);
     keys \<leftarrow> batch_keys to_reject;
     ds \<leftarrow> view_GetDocuments eff keys (docs (persistence s)) (mutation_queue s);
     Some (ds, s) })"

definition HandleUserChange ::
  "('m, 'v, 'r) MutationEffects \<Rightarrow> User \<Rightarrow> ('t, 'v::default, 'm) LocalStore \<Rightarrow>
   ('v MutableDocumentMap \<times> ('t, 'v, 'm) LocalStore) option" where
  "HandleUserChange eff user s = do {
     (old_batches, s) \<leftarrow> Run (\<lambda>s. Some (queue (mutation_queue s), s)) s;
     let s = s\<lparr>mutation_user := user, persistence := snd (GetMutationQueueForUser user (persistence s))\<rparr>;
     s \<leftarrow> StartMutationQueue s;
     Run (\<lambda>s. do {
       let new_batches = queue (mutation_queue s);
       changed_keys \<leftarrow> for_each (\<lambda>m. set_insert key_CompareTo (mutation_key m))
         (concat (map mutations (old_batches @ new_batches))) set_init;
       ds \<leftarrow> view_GetDocuments eff changed_keys (docs (persistence s)) (mutation_queue s);
       Some (ds, s) }) s }"

definition ReadDocument ::
  "('m, 'v, 'r) MutationEffects \<Rightarrow> DocumentKey \<Rightarrow> ('t, 'v::default, 'm) LocalStore \<Rightarrow>
   ('v MutableDocument \<times> ('t, 'v, 'm) LocalStore) option" where
  "ReadDocument eff key = Run (\<lambda>s. do {
     d \<leftarrow> view_GetDocument eff key (docs (persistence s)) (mutation_queue s);
     Some (d, s) })"

definition GetNextMutationBatch ::
  "s32 \<Rightarrow> ('t, 'v::default, 'm) LocalStore \<Rightarrow> ('m MutationBatch option \<times> ('t, 'v, 'm) LocalStore) option" where
  "GetNextMutationBatch i = Run (\<lambda>s. do { b \<leftarrow> NextMutationBatchAfterBatchId i (mutation_queue s); Some (b, s) })"

definition GetRemoteDocumentKeys ::
  "s32 \<Rightarrow> ('t, 'v::default, 'm) LocalStore \<Rightarrow> (DocumentKeySet \<times> ('t, 'v, 'm) LocalStore) option" where
  "GetRemoteDocumentKeys i = Run (\<lambda>s. do { ks \<leftarrow> GetMatchingKeys i (target_cache (persistence s)); Some (ks, s) })"

section \<open>Bundles\<close>

definition HasNewerBundle ::
  "BundleMetadata \<Rightarrow> ('t, 'v::default, 'm) LocalStore \<Rightarrow> (bool \<times> ('t, 'v, 'm) LocalStore) option" where
  "HasNewerBundle metadata = Run (\<lambda>s. Some
     (case GetBundleMetadata (bundle_id metadata) (bundle_cache s) of
        None \<Rightarrow> False
      | Some cached \<Rightarrow> \<not> Timestamp_less (create_time cached) (create_time metadata), s))"

definition SaveBundle :: "BundleMetadata \<Rightarrow> ('t, 'v::default, 'm) block" where
  "SaveBundle metadata s = map_option snd
     (Run (\<lambda>s. Some ((), s\<lparr>bundle_cache := SaveBundleMetadata metadata (bundle_cache s)\<rparr>)) s)"

text \<open>
  \<open>emplace\<close> on an unordered map leaves the value of a key that is there already.
\<close>

definition emplace :: "'k \<Rightarrow> 'x \<Rightarrow> ('k \<times> 'x) list \<Rightarrow> ('k \<times> 'x) list" where
  "emplace k x ps = (case map_of ps k of None \<Rightarrow> AList.update k x ps | Some _ \<Rightarrow> ps)"

definition SaveNamedQuery :: "'t NamedQuery \<Rightarrow> DocumentKeySet \<Rightarrow> ('t, 'v::default, 'm) block" where
  "SaveNamedQuery query keys s = do {
     (existing, s) \<leftarrow> AllocateTarget (bundled_target query) s;
     let i = target_id existing;
     map_option snd (Run (\<lambda>s. do {
       s \<leftarrow> (if Timestamp_less (snapshot_version existing) (read_time query) then do {
           let new_target_data = WithResumeToken [] (read_time query) existing;
           let s = with_cache (UpdateTarget new_target_data) s;
           let s = s\<lparr>target_data_by_target := emplace i new_target_data (target_data_by_target s)\<rparr>;
           c \<leftarrow> RemoveMatchingKeysForTarget i (target_cache (persistence s));
           let s = with_cache (\<lambda>_. c) s;
           with_persistence (AddMatchingKeys keys i) s }
         else Some s);
       Some ((), s\<lparr>bundle_cache := cache_SaveNamedQuery query (bundle_cache s)\<rparr>) }) s) }"

definition LocalStore_GetNamedQuery ::
  "bytes \<Rightarrow> ('t, 'v::default, 'm) LocalStore \<Rightarrow> ('t NamedQuery option \<times> ('t, 'v, 'm) LocalStore) option" where
  "LocalStore_GetNamedQuery name = Run (\<lambda>s. Some (cache_GetNamedQuery name (bundle_cache s), s))"

text \<open>The umbrella target is made from the id of the bundle by the query classes.\<close>

definition ApplyBundledDocuments ::
  "('m, 'v, 'r) MutationEffects \<Rightarrow> 'v MutableDocumentMap \<Rightarrow> 't \<Rightarrow> ('t, 'v::default, 'm) LocalStore \<Rightarrow>
   ('v MutableDocumentMap \<times> ('t, 'v, 'm) LocalStore) option" where
  "ApplyBundledDocuments eff bundled_documents NewUmbrellaTarget s = do {
     (umbrella_target, s) \<leftarrow> AllocateTarget NewUmbrellaTarget s;
     Run (\<lambda>s. do {
       es \<leftarrow> walk_range (sm_keys bundled_documents);
       keys \<leftarrow> for_each (\<lambda>(key, doc) keys.
           if is_found_document doc then set_insert key_CompareTo key keys else Some keys) es set_init;
       let versions = fold (\<lambda>(key, doc). emplace key (document_version doc)) es [];
       let updates = fold (\<lambda>(key, doc). emplace key doc) es [];
       c \<leftarrow> RemoveMatchingKeysForTarget (target_id umbrella_target) (target_cache (persistence s));
       let s = with_cache (\<lambda>_. c) s;
       s \<leftarrow> with_persistence (AddMatchingKeys keys (target_id umbrella_target)) s;
       (changed_docs, p) \<leftarrow> PopulateDocumentChanges updates versions SnapshotVersion_None (persistence s);
       let s = s\<lparr>persistence := p\<rparr>;
       result \<leftarrow> GetLocalViewOfDocuments eff changed_docs (mutation_queue s);
       Some (result, s) }) s }"

end
