(* ===== verification/FieldPaths.thy ===== *)
theory FieldPaths
  imports DocumentPath
begin

text \<open>
  \<open>Firestore/core/src/model/field_path.cc\<close> and \<open>model/resource_path.cc\<close>: paths to the fields of a
  document and to resources as strings.  The string functions of Abseil are the record \<open>Absl\<close>; what
  the paths rely on of them is \<open>absl_ok\<close>.
\<close>

section \<open>The string functions of Abseil\<close>

record Absl =
  StrReplaceAll :: "bytes \<Rightarrow> (bytes \<times> bytes) list \<Rightarrow> bytes"
  StrSplit :: "bytes \<Rightarrow> u8 \<Rightarrow> bytes list"
  StrJoin :: "bytes list \<Rightarrow> bytes \<Rightarrow> bytes"
  StrContains :: "bytes \<Rightarrow> bytes \<Rightarrow> bool"

primrec joined :: "bytes list \<Rightarrow> bytes \<Rightarrow> bytes" where
  "joined [] sep = []"
| "joined (s # ss) sep = s @ (case ss of [] \<Rightarrow> [] | _ \<Rightarrow> sep @ joined ss sep)"

text \<open>
  Replacement goes from left to right and is not applied to its own results; splitting at a byte and
  joining with it are inverse to each other.
\<close>

definition absl_ok :: "Absl \<Rightarrow> bool" where
  "absl_ok absl \<longleftrightarrow>
     (\<forall>s a b x y. StrReplaceAll absl s [([a], x), ([b], y)] = concat (map (\<lambda>c. if c = a then x else if c = b then y else [c]) s)) \<and>
     (\<forall>ss sep. StrJoin absl ss sep = joined ss sep) \<and>
     (\<forall>s c. StrSplit absl s c \<noteq> [] \<and> joined (StrSplit absl s c) [c] = s \<and> (\<forall>p \<in> set (StrSplit absl s c). c \<notin> set p)) \<and>
     (\<forall>s p. StrContains absl s p \<longleftrightarrow> (\<exists>a b. s = a @ p @ b))"

section \<open>Field paths\<close>

datatype path_error =
    Empty_segment
  | Reserved_character
  | Trailing_escape
  | Unterminated_backtick
  | No_segments
  | Double_slash

type_synonym FieldPath = "bytes list"

abbreviation dot :: u8 where "dot \<equiv> 46"
abbreviation backtick :: u8 where "backtick \<equiv> 96"
abbreviation backslash :: u8 where "backslash \<equiv> 92"
abbreviation slash :: u8 where "slash \<equiv> 47"

definition identifier_start :: "u8 \<Rightarrow> bool" where
  "identifier_start c \<longleftrightarrow> \<not> (c \<noteq> 95 \<and> (c < 97 \<or> 122 < c) \<and> (c < 65 \<or> 90 < c))"

definition identifier_part :: "u8 \<Rightarrow> bool" where
  "identifier_part c \<longleftrightarrow> \<not> (c \<noteq> 95 \<and> (c < 97 \<or> 122 < c) \<and> (c < 65 \<or> 90 < c) \<and> (c < 48 \<or> 57 < c))"

fun IsValidIdentifier :: "bytes \<Rightarrow> bool" where
  "IsValidIdentifier [] \<longleftrightarrow> False"
| "IsValidIdentifier (first # rest) \<longleftrightarrow> identifier_start first \<and> list_all identifier_part rest"

definition escaped_segment :: "Absl \<Rightarrow> bytes \<Rightarrow> bytes" where
  "escaped_segment absl segment =
     (let escaped = StrReplaceAll absl segment [([backslash], [backslash, backslash]), ([backtick], [backslash, backtick])]
      in if \<not> IsValidIdentifier escaped then [backtick] @ escaped @ [backtick] else escaped)"

definition CanonicalString :: "Absl \<Rightarrow> FieldPath \<Rightarrow> bytes" where
  "CanonicalString absl path = StrJoin absl (map (escaped_segment absl) path) [dot]"

definition FromDotSeparatedStringView :: "Absl \<Rightarrow> bytes \<Rightarrow> path_error + FieldPath" where
  "FromDotSeparatedStringView absl path =
     (if \<exists>c \<in> set path. c \<in> {126, 42, 47, 91, 93} then Inl Reserved_character
      else let segments = StrSplit absl path dot in
        if [] \<in> set segments then Inl Empty_segment else Inr segments)"

text \<open>The loop of \<open>FromServerFormatView\<close>, over the rest of the string.\<close>

fun server_loop :: "bytes \<Rightarrow> bytes list \<Rightarrow> bytes \<Rightarrow> bool \<Rightarrow> path_error + (bytes list \<times> bytes \<times> bool)" where
  "server_loop [] segments segment inside_backticks = Inr (segments, segment, inside_backticks)"
| "server_loop (c # path) segments segment inside_backticks =
     (if c = 0 then Inr (segments, segment, inside_backticks)
      else if c = dot then
        if \<not> inside_backticks then
          if segment = [] then Inl Empty_segment
          else server_loop path (segments @ [segment]) [] inside_backticks
        else server_loop path segments (segment @ [c]) inside_backticks
      else if c = backtick then server_loop path segments segment (\<not> inside_backticks)
      else if c = backslash then
        (case path of
           [] \<Rightarrow> Inl Trailing_escape
         | d # path \<Rightarrow> server_loop path segments (segment @ [d]) inside_backticks)
      else server_loop path segments (segment @ [c]) inside_backticks)"

definition FromServerFormatView :: "bytes \<Rightarrow> path_error + FieldPath" where
  "FromServerFormatView path = (case server_loop path [] [] False of
     Inl e \<Rightarrow> Inl e
   | Inr (segments, segment, inside_backticks) \<Rightarrow>
       if segment = [] then Inl Empty_segment
       else if inside_backticks then Inl Unterminated_backtick
       else Inr (segments @ [segment]))"

definition kDocumentKeyPath :: bytes where
  "kDocumentKeyPath = [95, 95, 110, 97, 109, 101, 95, 95]"

definition FieldPath_EmptyPath :: FieldPath where
  "FieldPath_EmptyPath = []"

definition KeyFieldPath :: FieldPath where
  "KeyFieldPath = [kDocumentKeyPath]"

definition IsKeyFieldPath :: "FieldPath \<Rightarrow> bool" where
  "IsKeyFieldPath path \<longleftrightarrow> length path = 1 \<and> first_segment path = Some kDocumentKeyPath"

definition ValidateSegments :: "bytes list \<Rightarrow> path_error + unit" where
  "ValidateSegments segments =
     (if segments = [] then Inl No_segments else if [] \<in> set segments then Inl Empty_segment else Inr ())"

definition FromSegments :: "bytes list \<Rightarrow> path_error + FieldPath" where
  "FromSegments segments = (case ValidateSegments segments of Inl e \<Rightarrow> Inl e | Inr _ \<Rightarrow> Inr segments)"

section \<open>Resource paths\<close>

definition ResourcePath_FromStringView :: "Absl \<Rightarrow> bytes \<Rightarrow> path_error + ResourcePath" where
  "ResourcePath_FromStringView absl path =
     (if StrContains absl path [slash, slash] then Inl Double_slash
      else Inr (filter (\<lambda>s. s \<noteq> []) (StrSplit absl path slash)))"

definition ResourcePath_CanonicalString :: "Absl \<Rightarrow> ResourcePath \<Rightarrow> bytes" where
  "ResourcePath_CanonicalString absl path = StrJoin absl path [slash]"

definition FromPathString :: "Absl \<Rightarrow> bytes \<Rightarrow> path_error + DocumentKey option" where
  "FromPathString absl path = (case ResourcePath_FromStringView absl path of
     Inl e \<Rightarrow> Inl e
   | Inr resource_path \<Rightarrow> Inr (make_DocumentKey resource_path))"

text \<open>\<open>"projects"\<close>, \<open>"databases"\<close> and \<open>"documents"\<close> are where the name of a document has them.\<close>

definition FromName :: "Absl \<Rightarrow> bytes \<Rightarrow> path_error + DocumentKey option" where
  "FromName absl s = (case ResourcePath_FromStringView absl s of
     Inl e \<Rightarrow> Inl e
   | Inr resource_name \<Rightarrow> Inr (do {
       _ \<leftarrow> HARD_ASSERT (4 < length resource_name \<and>
              resource_name ! 0 = [112, 114, 111, 106, 101, 99, 116, 115] \<and>
              resource_name ! 2 = [100, 97, 116, 97, 98, 97, 115, 101, 115] \<and>
              resource_name ! 4 = [100, 111, 99, 117, 109, 101, 110, 116, 115]);
       key \<leftarrow> PopFirst resource_name 5;
       make_DocumentKey key }))"

section \<open>Round trips\<close>

lemma server_escaped:
  assumes "0 \<notin> set s"
  shows "server_loop (concat (map (\<lambda>c. if c = backslash then [backslash, backslash]
      else if c = backtick then [backslash, backtick] else [c]) s) @ rest) segments segment True =
    server_loop rest segments (segment @ s) True"
  using assms by (induction s arbitrary: segment) simp_all

lemma identifier_plain: "identifier_part c \<Longrightarrow> c \<noteq> 0 \<and> c \<noteq> dot \<and> c \<noteq> backtick \<and> c \<noteq> backslash"
  by (auto simp: identifier_part_def)

lemma identifier_parts: "IsValidIdentifier s \<Longrightarrow> list_all identifier_part s"
  by (cases s) (auto simp: identifier_start_def identifier_part_def)

lemma server_identifier:
  "list_all identifier_part s \<Longrightarrow> server_loop (s @ rest) segments segment False = server_loop rest segments (segment @ s) False"
  by (induction s arbitrary: segment) (auto dest: identifier_plain)

lemma plain_escape:
  "list_all identifier_part (concat (map (\<lambda>c. if c = backslash then [backslash, backslash]
      else if c = backtick then [backslash, backtick] else [c]) s)) \<Longrightarrow>
   concat (map (\<lambda>c. if c = backslash then [backslash, backslash]
      else if c = backtick then [backslash, backtick] else [c]) s) = s"
  by (induction s) (auto dest: identifier_plain split: if_splits)

lemma server_segment:
  assumes "absl_ok absl" "0 \<notin> set s"
  shows "server_loop (escaped_segment absl s @ rest) segments [] False = server_loop rest segments s False"
proof -
  let ?e = "concat (map (\<lambda>c. if c = backslash then [backslash, backslash]
      else if c = backtick then [backslash, backtick] else [c]) s)"
  have e: "escaped_segment absl s = (if \<not> IsValidIdentifier ?e then [backtick] @ ?e @ [backtick] else ?e)"
    using assms(1) unfolding absl_ok_def escaped_segment_def Let_def by simp
  show ?thesis
  proof (cases "IsValidIdentifier ?e")
    case True
    from identifier_parts [OF this] have "list_all identifier_part ?e" .
    with server_identifier [OF this, of rest segments "[]"] plain_escape [OF this] True show ?thesis unfolding e by simp
  next
    case False
    with server_escaped [OF assms(2), of "backtick # rest" segments "[]"] show ?thesis unfolding e by simp
  qed
qed

lemma server_path:
  assumes "absl_ok absl"
  shows "\<forall>s \<in> set (path @ [s']). s \<noteq> [] \<and> 0 \<notin> set s \<Longrightarrow>
    server_loop (joined (map (escaped_segment absl) (path @ [s'])) [dot]) segments [] False = Inr (segments @ path, s', False)"
proof (induction path arbitrary: segments)
  case Nil
  then show ?case using server_segment [OF assms, of s' "[]" segments] by simp
next
  case (Cons s path)
  obtain t ts where t: "path @ [s'] = t # ts" by (cases path) auto
  have s: "s \<noteq> []" "0 \<notin> set s" using Cons.prems by auto
  have "joined (map (escaped_segment absl) ((s # path) @ [s'])) [dot] =
      escaped_segment absl s @ dot # joined (map (escaped_segment absl) (path @ [s'])) [dot]"
    using t by simp
  then show ?case
    using server_segment [OF assms s(2), of "dot # joined (map (escaped_segment absl) (path @ [s'])) [dot]" segments]
      Cons.IH [of "segments @ [s]"] Cons.prems s(1) by simp
qed

text \<open>
  C30: The canonical string of a field path reads back as the path: for every path with at least one
  segment, whose segments are not empty and hold no null byte, \<open>FromServerFormat\<close> of
  \<open>CanonicalString\<close> is the path, whatever dots, backticks, backslashes and other bytes the segments
  hold.
\<close>

theorem field_path_round_trip:
  "absl_ok absl \<Longrightarrow> path \<noteq> [] \<Longrightarrow> \<forall>s \<in> set path. s \<noteq> [] \<and> 0 \<notin> set s \<Longrightarrow>
   FromServerFormatView (CanonicalString absl path) = Inr path"
proof -
  assume absl: "absl_ok absl" and path: "path \<noteq> []" "\<forall>s \<in> set path. s \<noteq> [] \<and> 0 \<notin> set s"
  obtain q s where q: "path = q @ [s]" using path(1) by (cases path rule: rev_cases) auto
  have "CanonicalString absl path = joined (map (escaped_segment absl) (q @ [s])) [dot]"
    using absl by (simp add: CanonicalString_def absl_ok_def q)
  then show ?thesis
    using server_path [OF absl, of q s "[]"] path(2) by (simp add: FromServerFormatView_def q)
qed

lemma takeWhile_joined: "c \<notin> set s \<Longrightarrow> takeWhile (\<lambda>d. d \<noteq> c) (joined (s # ss) [c]) = s"
proof -
  assume "c \<notin> set s"
  then have "takeWhile (\<lambda>d. d \<noteq> c) (s @ r) = s @ takeWhile (\<lambda>d. d \<noteq> c) r" for r
    by (intro takeWhile_append2) auto
  from this [of "[]"] this show ?thesis by (cases ss) simp_all
qed

lemma joined_parts:
  assumes "ss \<noteq> []" "ts \<noteq> []" "\<forall>s \<in> set ss. c \<notin> set s" "\<forall>t \<in> set ts. c \<notin> set t"
  shows "joined ss [c] = joined ts [c] \<Longrightarrow> ss = ts"
  using assms
proof (induction ss arbitrary: ts)
  case (Cons s ss)
  obtain t ts' where ts: "ts = t # ts'" using Cons.prems(3) by (cases ts) auto
  have plain: "c \<notin> set s" "c \<notin> set t" using Cons.prems(4,5) ts by auto
  have head: "takeWhile (\<lambda>d. d \<noteq> c) (joined (s # ss) [c]) = s" "takeWhile (\<lambda>d. d \<noteq> c) (joined ts [c]) = t"
    unfolding ts by (rule takeWhile_joined [OF plain(1)], rule takeWhile_joined [OF plain(2)])
  then have "s = t" using Cons.prems(1) by simp
  moreover have "ss = ts'"
  proof (cases "ss = [] \<or> ts' = []")
    case True
    then show ?thesis using Cons.prems(1) \<open>s = t\<close> unfolding ts by (cases ss; cases ts') auto
  next
    case False
    then have "joined ss [c] = joined ts' [c]" using Cons.prems(1) \<open>s = t\<close> unfolding ts by (cases ss; cases ts') auto
    then show ?thesis using Cons.IH [of ts'] Cons.prems(4,5) False ts by auto
  qed
  ultimately show ?case by (simp add: ts)
qed simp

lemma joined_double:
  "\<forall>s \<in> set ss. s \<noteq> [] \<and> c \<notin> set s \<Longrightarrow> joined ss [c] \<noteq> a @ [c, c] @ b"
proof (induction ss arbitrary: a)
  case (Cons s ss)
  show ?case
  proof
    assume eq: "joined (s # ss) [c] = a @ [c, c] @ b"
    have s: "s \<noteq> []" "c \<notin> set s" using Cons.prems by auto
    obtain t ts where ss: "ss = t # ts" using eq s(2) by (cases ss) (auto dest: arg_cong [where f = set])
    then obtain d t' where t: "t = d # t'" "d \<noteq> c" using Cons.prems by (cases t) auto
    have eq': "s @ c # joined ss [c] = a @ c # c # b" using eq ss by simp
    have "length s \<le> length a"
    proof (rule ccontr)
      assume "\<not> length s \<le> length a"
      then have "s ! length a = c" using arg_cong [OF eq', of "\<lambda>xs. xs ! length a"] by (simp add: nth_append)
      then show False using s(2) \<open>\<not> length s \<le> length a\<close> nth_mem [of "length a" s] by simp
    qed
    then obtain a' where a: "a = s @ a'" using eq' by (auto simp: append_eq_append_conv_if) (metis append_take_drop_id)
    with eq' have rest: "c # joined ss [c] = a' @ c # c # b" by simp
    show False
    proof (cases a')
      case Nil
      then show ?thesis using rest ss t by (cases ts) auto
    next
      case (Cons e a'')
      then have "joined ss [c] = a'' @ [c, c] @ b" using rest by auto
      then show ?thesis using Cons.IH [of a''] Cons.prems by auto
    qed
  qed
qed simp

text \<open>
  The canonical string of a resource path reads back as the path, when its segments are not empty
  and hold no slash.
\<close>

lemma resource_path_round_trip:
  assumes absl: "absl_ok absl" and path: "\<forall>s \<in> set path. s \<noteq> [] \<and> slash \<notin> set s"
  shows "ResourcePath_FromStringView absl (ResourcePath_CanonicalString absl path) = Inr path"
proof -
  let ?s = "joined path [slash]" and ?ps = "StrSplit absl (joined path [slash]) slash"
  have canon: "ResourcePath_CanonicalString absl path = ?s"
    and split: "?ps \<noteq> []" "joined ?ps [slash] = ?s" "\<forall>p \<in> set ?ps. slash \<notin> set p"
    and contains: "StrContains absl ?s [slash, slash] \<longleftrightarrow> (\<exists>a b. ?s = a @ [slash, slash] @ b)"
    using absl by (simp_all add: absl_ok_def ResourcePath_CanonicalString_def)
  have "\<not> StrContains absl ?s [slash, slash]" using contains joined_double [OF path] by blast
  moreover have "filter (\<lambda>s. s \<noteq> []) ?ps = path"
  proof (cases "path = []")
    case True
    then have "?ps = [[]]" using joined_parts [OF split(1) _ split(3), of "[[]]"] split(2) by simp
    with True show ?thesis by simp
  next
    case False
    then have "?ps = path" using joined_parts [OF split(1) False split(3) _ split(2)] path by auto
    with path show ?thesis by (simp add: filter_id_conv)
  qed
  ultimately show ?thesis by (simp add: ResourcePath_FromStringView_def canon)
qed

section \<open>An instance of the string functions\<close>

fun split_bytes :: "bytes \<Rightarrow> u8 \<Rightarrow> bytes list" where
  "split_bytes [] c = [[]]"
| "split_bytes (d # s) c = (if d = c then [] # split_bytes s c
     else (case split_bytes s c of [] \<Rightarrow> [[d]] | p # ps \<Rightarrow> (d # p) # ps))"

definition example_absl :: Absl where
  "example_absl = \<lparr>StrReplaceAll = \<lambda>s rs. concat (map (\<lambda>c. case map_of rs [c] of Some x \<Rightarrow> x | None \<Rightarrow> [c]) s),
     StrSplit = split_bytes, StrJoin = joined, StrContains = \<lambda>s p. \<exists>a b. s = a @ p @ b\<rparr>"

lemma split_bytes_ok: "split_bytes s c \<noteq> [] \<and> joined (split_bytes s c) [c] = s \<and> (\<forall>p \<in> set (split_bytes s c). c \<notin> set p)"
proof (induction s)
  case (Cons d s)
  obtain p ps where "split_bytes s c = p # ps" using Cons by (cases "split_bytes s c") auto
  with Cons show ?case by (cases ps) auto
qed simp

lemma example_absl_ok: "absl_ok example_absl"
  unfolding absl_ok_def example_absl_def using split_bytes_ok
  by (auto intro!: arg_cong [where f = concat] map_cong)

lemma field_path_round_trip_witness:
  "FromServerFormatView (CanonicalString example_absl [[97, 46, 98], [92, 96]]) = Inr [[97, 46, 98], [92, 96]]"
  by (rule field_path_round_trip [OF example_absl_ok]) simp_all

text \<open>The empty segment and the null byte do not survive.\<close>

lemma null_byte_is_lost: "FromServerFormatView (CanonicalString example_absl [[97, 0]]) = Inl Unterminated_backtick"
  by (simp add: FromServerFormatView_def CanonicalString_def escaped_segment_def example_absl_def identifier_part_def)

end
