(* ===== verification/MixedNumbers.thy ===== *)
theory MixedNumbers
  imports LlrbNode
begin

text \<open>
  \<open>Firestore/core/src/util/comparison.cc\<close>: the comparison of doubles and 64-bit integers.  A double is
  its IEEE 754 binary64 pattern; \<open>scaled d\<close> is its value times \<open>2 ^ 1074\<close>, an integer for every
  finite double, and beyond all of them for the infinities.
\<close>

section \<open>Doubles\<close>

type_synonym double = u64

definition exponent_bits :: "double \<Rightarrow> nat" where
  "exponent_bits d = unat (drop_bit 52 d) mod 2 ^ 11"

definition fraction_bits :: "double \<Rightarrow> nat" where
  "fraction_bits d = unat d mod 2 ^ 52"

definition negative_double :: "double \<Rightarrow> bool" where
  "negative_double d \<longleftrightarrow> 2 ^ 63 \<le> unat d"

definition isnan :: "double \<Rightarrow> bool" where
  "isnan d \<longleftrightarrow> exponent_bits d = 2047 \<and> fraction_bits d \<noteq> 0"

definition significand :: "double \<Rightarrow> nat" where
  "significand d = (if exponent_bits d = 0 then fraction_bits d else 2 ^ 52 + fraction_bits d)"

definition magnitude :: "double \<Rightarrow> nat" where
  "magnitude d = significand d * 2 ^ (exponent_bits d - 1)"

definition scaled :: "double \<Rightarrow> int" where
  "scaled d = (if negative_double d then - int (magnitude d) else int (magnitude d))"

definition double_less :: "double \<Rightarrow> double \<Rightarrow> bool" where
  "double_less a b \<longleftrightarrow> \<not> isnan a \<and> \<not> isnan b \<and> scaled a < scaled b"

definition double_eq :: "double \<Rightarrow> double \<Rightarrow> bool" where
  "double_eq a b \<longleftrightarrow> \<not> isnan a \<and> \<not> isnan b \<and> scaled a = scaled b"

definition double_le :: "double \<Rightarrow> double \<Rightarrow> bool" where
  "double_le a b \<longleftrightarrow> double_less a b \<or> double_eq a b"

text \<open>\<open>static_cast<int64_t>\<close> of a double drops its fraction; out of range it has no result.\<close>

definition truncated :: "double \<Rightarrow> int" where
  "truncated d = (if negative_double d then - int (magnitude d div 2 ^ 1074) else int (magnitude d div 2 ^ 1074))"

definition double_to_int64 :: "double \<Rightarrow> s64 option" where
  "double_to_int64 d = (if \<not> isnan d \<and> in_s64 (truncated d) then Some (word_of_int (truncated d)) else None)"

text \<open>\<open>static_cast<double>\<close> of an integer rounds to the nearest double, ties to the even one.\<close>

fun bit_count :: "nat \<Rightarrow> nat" where
  "bit_count n = (if n = 0 then 0 else 1 + bit_count (n div 2))"

declare bit_count.simps [simp del]

definition round_shift :: "nat \<Rightarrow> nat \<Rightarrow> nat" where
  "round_shift n s =
     (let q = n div 2 ^ s; r = n mod 2 ^ s in
      if 2 ^ s < 2 * r \<or> 2 ^ s = 2 * r \<and> odd q then q + 1 else q)"

definition nat_to_double :: "nat \<Rightarrow> nat" where
  "nat_to_double n =
     (let b = bit_count n in
      if n = 0 then 0
      else (1022 + b) * 2 ^ 52 +
        (if b \<le> 53 then n * 2 ^ (53 - b) else round_shift n (b - 53)) - 2 ^ 52)"

definition int64_to_double :: "s64 \<Rightarrow> double" where
  "int64_to_double i = of_nat (nat_to_double (nat \<bar>sint i\<bar>) + (if sint i < 0 then 2 ^ 63 else 0))"

section \<open>Comparisons\<close>

definition ReverseOrder :: "ComparisonResult \<Rightarrow> ComparisonResult" where
  "ReverseOrder result = (case result of Ascending \<Rightarrow> Descending | Same \<Rightarrow> Same | Descending \<Rightarrow> Ascending)"

definition CompareInt64 :: "s64 \<Rightarrow> s64 \<Rightarrow> ComparisonResult" where
  "CompareInt64 l r = (if sint l < sint r then Ascending else if sint r < sint l then Descending else Same)"

definition CompareDouble :: "double \<Rightarrow> double \<Rightarrow> ComparisonResult" where
  "CompareDouble l r =
     (if double_less l r then Ascending
      else if double_less r l then Descending
      else if double_eq l r then Same
      else if \<not> isnan r then Ascending
      else if \<not> isnan l then Descending
      else Same)"

definition INT64_MIN_VALUE_AS_DOUBLE :: double where
  "INT64_MIN_VALUE_AS_DOUBLE = int64_to_double (- (2 ^ 63))"

definition INT64_MAX_VALUE_AS_DOUBLE :: double where
  "INT64_MAX_VALUE_AS_DOUBLE = int64_to_double (2 ^ 63 - 1)"

definition CompareMixedNumber :: "double \<Rightarrow> s64 \<Rightarrow> ComparisonResult option" where
  "CompareMixedNumber double_val int64_val =
     (if double_less double_val INT64_MIN_VALUE_AS_DOUBLE then Some Ascending
      else if double_le INT64_MAX_VALUE_AS_DOUBLE double_val then Some Descending
      else if isnan double_val then Some Ascending
      else do {
        double_as_int64 \<leftarrow> double_to_int64 double_val;
        let cmp = CompareInt64 double_as_int64 int64_val;
        if cmp \<noteq> Same then Some cmp
        else Some (CompareDouble double_val (int64_to_double int64_val)) })"

definition kNaN :: double where
  "kNaN = 0x7FF8000000000000"

definition DoubleBits :: "double \<Rightarrow> u64" where
  "DoubleBits d = (if isnan d then kNaN else d)"

definition DoubleBitwiseEquals :: "double \<Rightarrow> double \<Rightarrow> bool" where
  "DoubleBitwiseEquals l r \<longleftrightarrow> DoubleBits l = DoubleBits r"

definition DoubleBitwiseHash :: "double \<Rightarrow> u64" where
  "DoubleBitwiseHash d = (let bits = DoubleBits d in bits XOR drop_bit 32 bits)"

section \<open>Integers that are doubles\<close>

lemma bit_count_bounds: "0 < n \<Longrightarrow> 2 ^ (bit_count n - 1) \<le> n \<and> n < 2 ^ bit_count n \<and> 0 < bit_count n"
proof (induction n rule: bit_count.induct)
  case (1 n)
  show ?case
  proof (cases "n = 1")
    case True
    then show ?thesis by (simp add: bit_count.simps)
  next
    case False
    then have "0 < n div 2" using "1.prems" by simp
    with "1.IH" "1.prems" have ih: "2 ^ (bit_count (n div 2) - 1) \<le> n div 2" "n div 2 < 2 ^ bit_count (n div 2)"
      "0 < bit_count (n div 2)" by auto
    have b: "bit_count n = Suc (bit_count (n div 2))" using "1.prems" by (subst bit_count.simps) simp
    obtain k where k: "bit_count (n div 2) = Suc k" using ih(3) by (cases "bit_count (n div 2)") auto
    show ?thesis using ih unfolding b k by simp linarith
  qed
qed

lemma bit_count_le: "n < 2 ^ k \<Longrightarrow> bit_count n \<le> k"
proof (cases "n = 0")
  case False
  assume "n < 2 ^ k"
  with bit_count_bounds [of n] False have "(2::nat) ^ (bit_count n - 1) < 2 ^ k" by linarith
  then have "bit_count n - 1 < k" by (rule power_less_imp_less_exp [rotated]) simp
  then show ?thesis by linarith
qed (simp add: bit_count.simps)

definition fits_double :: "nat \<Rightarrow> bool" where
  "fits_double n \<longleftrightarrow> bit_count n \<le> 53 \<or> 2 ^ (bit_count n - 53) dvd n"

lemma exact_double:
  assumes n: "0 < n" "n < 2 ^ 64" and fits: "fits_double n"
  obtains m where "nat_to_double n = (1022 + bit_count n) * 2 ^ 52 + m" "m < 2 ^ 52"
    "(2 ^ 52 + m) * 2 ^ (1021 + bit_count n) = n * 2 ^ 1074"
proof -
  let ?b = "bit_count n"
  have b: "2 ^ (?b - 1) \<le> n" "n < 2 ^ ?b" "0 < ?b" "?b \<le> 64" using bit_count_bounds [OF n(1)] bit_count_le [OF n(2)] by auto
  define P where "P = (2::nat) ^ 1074"
  define sig where "sig = (if ?b \<le> 53 then n * 2 ^ (53 - ?b) else n div 2 ^ (?b - 53))"
  have sig: "2 ^ 52 \<le> sig \<and> sig < 2 ^ 53 \<and> sig * 2 ^ (1021 + ?b) = n * P"
  proof (cases "?b \<le> 53")
    case True
    let ?s = "2 ^ (53 - ?b) :: nat"
    have e: "sig = n * ?s" using True by (simp add: sig_def)
    have p: "2 ^ (?b - 1) * ?s = 2 ^ 52" "2 ^ ?b * ?s = 2 ^ 53" "?s * 2 ^ (1021 + ?b) = P"
      unfolding power_add [symmetric] P_def using True b(3) by (intro arg_cong [where f = "power 2"]; linarith)+
    have "2 ^ (?b - 1) * ?s \<le> sig" "sig < 2 ^ ?b * ?s" unfolding e using b(1,2) by (intro mult_right_mono mult_strict_right_mono; simp)+
    moreover have "sig * 2 ^ (1021 + ?b) = n * P" unfolding e p(3) [symmetric] by (rule mult.assoc)
    ultimately show ?thesis unfolding p by blast
  next
    case False
    let ?s = "2 ^ (?b - 53) :: nat"
    have e: "sig * ?s = n" using False fits by (simp add: sig_def fits_double_def)
    have p: "2 ^ (?b - 1) = 2 ^ 52 * ?s" "2 ^ ?b = 2 ^ 53 * ?s" "2 ^ (1021 + ?b) = ?s * P"
      unfolding power_add [symmetric] P_def using False by (intro arg_cong [where f = "power 2"]; linarith)+
    have "2 ^ 52 * ?s \<le> sig * ?s" "sig * ?s < 2 ^ 53 * ?s" using b(1,2) unfolding e p by blast+
    then have "2 ^ 52 \<le> sig" "sig < 2 ^ 53" unfolding mult_le_cancel2 mult_less_cancel2 by simp_all
    moreover have "sig * 2 ^ (1021 + ?b) = sig * ?s * P" unfolding p(3) by (rule mult.assoc [symmetric])
    ultimately show ?thesis unfolding e by blast
  qed
  have "round_shift n (?b - 53) = n div 2 ^ (?b - 53)" if "\<not> ?b \<le> 53"
  proof -
    have "n mod 2 ^ (?b - 53) = 0" using fits that by (simp add: fits_double_def dvd_imp_mod_0)
    then show ?thesis unfolding round_shift_def Let_def by simp
  qed
  then have body: "(if ?b \<le> 53 then n * 2 ^ (53 - ?b) else round_shift n (?b - 53)) = sig" by (simp add: sig_def)
  have nz: "(n = 0) = False" using n(1) by simp
  have sub: "x + sig - 2 ^ 52 = x + (sig - 2 ^ 52)" for x using sig by linarith
  have "nat_to_double n = (1022 + ?b) * 2 ^ 52 + (sig - 2 ^ 52)"
    unfolding nat_to_double_def Let_def nz if_False body by (rule sub)
  moreover have "sig - 2 ^ 52 < 2 ^ 52" using conjunct1 [OF sig] conjunct1 [OF conjunct2 [OF sig]] by simp
  moreover have "(2 ^ 52 + (sig - 2 ^ 52)) * 2 ^ (1021 + ?b) = n * 2 ^ 1074"
    using sig unfolding P_def [symmetric] by simp
  ultimately show ?thesis by (rule that)
qed

lemma double_parts:
  assumes "e < 2048" "m < 2 ^ 52"
  shows "exponent_bits (of_nat (e * 2 ^ 52 + m + (if neg then 2 ^ 63 else 0))) = e"
    "fraction_bits (of_nat (e * 2 ^ 52 + m + (if neg then 2 ^ 63 else 0))) = m"
    "negative_double (of_nat (e * 2 ^ 52 + m + (if neg then 2 ^ 63 else 0))) = neg"
proof -
  let ?n = "e * 2 ^ 52 + m + (if neg then 2 ^ 63 else 0)"
  have lo: "e * 2 ^ 52 + m < 2 ^ 63" using assms by simp
  then have n: "?n < 2 ^ 64" by simp
  have u: "unat (of_nat ?n :: u64) = ?n" by (rule unat_of_nat64 [OF n])
  show "negative_double (of_nat ?n) = neg" using lo unfolding negative_double_def u by (cases neg) simp_all
  have split: "?n = m + (e + (if neg then 2 ^ 11 else 0)) * 2 ^ 52" by simp
  have "?n mod 2 ^ 52 = m" unfolding split mod_mult_self1 using assms(2) by (rule mod_less)
  then show "fraction_bits (of_nat ?n) = m" unfolding fraction_bits_def u .
  have "?n div 2 ^ 52 = e + (if neg then 2 ^ 11 else 0)" unfolding split using assms(2) by simp
  then show "exponent_bits (of_nat ?n) = e" using assms(1)
    unfolding exponent_bits_def unat_drop_bit_eq u drop_bit_nat_def by (cases neg) simp_all
qed

lemma int64_to_double_exact:
  assumes "fits_double (nat \<bar>sint i\<bar>)"
  shows "\<not> isnan (int64_to_double i)" "scaled (int64_to_double i) = sint i * 2 ^ 1074"
proof -
  let ?n = "nat \<bar>sint i\<bar>"
  have "\<not> isnan (int64_to_double i) \<and> scaled (int64_to_double i) = sint i * 2 ^ 1074"
  proof (cases "sint i = 0")
    case True
    have "exponent_bits 0 = 0" "fraction_bits 0 = 0" by (simp_all add: exponent_bits_def fraction_bits_def)
    with True show ?thesis
      by (simp add: int64_to_double_def nat_to_double_def isnan_def scaled_def magnitude_def significand_def)
  next
    case False
    have "\<bar>sint i\<bar> \<le> 2 ^ 63" using sint_range_size [of i] by (simp add: word_size abs_le_iff)
    then have n: "0 < ?n" "?n < 2 ^ 64" using False by auto
    obtain m where m: "nat_to_double ?n = (1022 + bit_count ?n) * 2 ^ 52 + m" "m < 2 ^ 52"
      "(2 ^ 52 + m) * 2 ^ (1021 + bit_count ?n) = ?n * 2 ^ 1074" by (rule exact_double [OF n assms])
    have pos: "0 < bit_count ?n" "bit_count ?n \<le> 64" using bit_count_bounds [OF n(1)] bit_count_le [OF n(2)] by auto
    have e: "1022 + bit_count ?n < 2048" using pos by simp
    let ?neg = "sint i < 0"
    have d: "int64_to_double i = of_nat ((1022 + bit_count ?n) * 2 ^ 52 + m + (if ?neg then 2 ^ 63 else 0))"
      unfolding int64_to_double_def m(1) ..
    note parts = double_parts [OF e m(2), of ?neg, folded d]
    have "magnitude (int64_to_double i) = ?n * 2 ^ 1074"
      unfolding magnitude_def significand_def parts(1,2) m(3) [symmetric] using pos by (simp del: power_Suc)
    then have "scaled (int64_to_double i) = (if ?neg then - int (?n * 2 ^ 1074) else int (?n * 2 ^ 1074))"
      unfolding scaled_def parts(3) by presburger
    moreover have "int (?n * 2 ^ 1074) = \<bar>sint i\<bar> * 2 ^ 1074" unfolding of_nat_mult of_nat_power by simp
    ultimately have "scaled (int64_to_double i) = sint i * 2 ^ 1074" by (simp only: abs_if split: if_split) simp
    moreover have "\<not> isnan (int64_to_double i)" unfolding isnan_def parts using pos by simp
    ultimately show ?thesis by blast
  qed
  then show "\<not> isnan (int64_to_double i)" "scaled (int64_to_double i) = sint i * 2 ^ 1074" by auto
qed

section \<open>The comparison is exact\<close>

lemma significand_less: "significand d < 2 ^ 53"
proof -
  have "fraction_bits d < 2 ^ 52" unfolding fraction_bits_def by (rule mod_less_divisor) simp
  then show ?thesis by (simp add: significand_def)
qed

lemma truncated_fits: "fits_double (magnitude d div 2 ^ 1074)"
proof -
  let ?e = "exponent_bits d - 1" and ?q = "magnitude d div 2 ^ 1074"
  show ?thesis
  proof (cases "1074 \<le> ?e")
    case True
    then have "(2::nat) ^ ?e = 2 ^ (?e - 1074) * 2 ^ 1074" unfolding power_add [symmetric]
      by (intro arg_cong [where f = "power 2"]) linarith
    then have q: "?q = significand d * 2 ^ (?e - 1074)" unfolding magnitude_def by simp
    have "?q < 2 ^ 53 * 2 ^ (?e - 1074)" unfolding q by (rule mult_strict_right_mono [OF significand_less]) simp
    then have "?q < 2 ^ (53 + (?e - 1074))" unfolding power_add .
    then have "bit_count ?q - 53 \<le> ?e - 1074" using bit_count_le [of ?q "53 + (?e - 1074)"] by linarith
    then have "2 ^ (bit_count ?q - 53) dvd ?q" unfolding q using le_imp_power_dvd dvd_mult by blast
    then show ?thesis by (simp add: fits_double_def)
  next
    case False
    have "?q \<le> significand d * 2 ^ 1074 div 2 ^ 1074"
      unfolding magnitude_def using False by (intro div_le_mono mult_le_mono2 power_increasing) simp_all
    then have "?q < 2 ^ 53" using significand_less [of d] by simp
    then show ?thesis using bit_count_le [of ?q 53] by (simp add: fits_double_def)
  qed
qed

lemma truncated_cases:
  assumes "truncated d = t"
  shows "t < i \<Longrightarrow> scaled d < i * 2 ^ 1074" "i < t \<Longrightarrow> i * 2 ^ 1074 < scaled d"
    "0 < t \<Longrightarrow> t * 2 ^ 1074 \<le> scaled d"
proof -
  define P where "P = (2::nat) ^ 1074"
  let ?m = "magnitude d"
  have P: "0 < P" by (simp add: P_def)
  have eq: "?m = ?m div P * P + ?m mod P" by (rule div_mult_mod_eq [symmetric])
  have "?m mod P < P" using P by (rule mod_less_divisor)
  then have b: "?m div P * P \<le> ?m" "?m < (?m div P + 1) * P" using eq unfolding distrib_right mult_1 by linarith+
  have below: "q * int P \<le> int ?m" if "q \<le> int (?m div P)" for q
  proof -
    have "q * int P \<le> int (?m div P) * int P" using that by (intro mult_right_mono) simp_all
    also have "\<dots> \<le> int ?m" using b(1) by (metis of_nat_le_iff of_nat_mult)
    finally show ?thesis .
  qed
  have above: "int ?m < q * int P" if "int (?m div P) < q" for q
  proof -
    have "int ?m < (int (?m div P) + 1) * int P" using b(2) by (metis of_nat_less_iff of_nat_mult of_nat_Suc Suc_eq_plus1 add.commute)
    also have "\<dots> \<le> q * int P" using that by (intro mult_right_mono) simp_all
    finally show ?thesis .
  qed
  have s: "(2::int) ^ 1074 = int P" by (simp add: P_def)
  show "scaled d < i * 2 ^ 1074" if "t < i"
  proof (cases "negative_double d")
    case True
    then have "1 - i \<le> int (?m div P)" using that assms by (simp add: truncated_def P_def)
    from below [OF this] have "- int ?m \<le> i * int P - int P" by (simp add: algebra_simps)
    then show ?thesis unfolding s scaled_def using True P by simp
  next
    case False
    then show ?thesis unfolding s scaled_def using above [of i] that assms by (simp add: truncated_def P_def)
  qed
  show "i * 2 ^ 1074 < scaled d" if "i < t"
  proof (cases "negative_double d")
    case True
    then have "int (?m div P) < - i" using that assms by (simp add: truncated_def P_def)
    from above [OF this] show ?thesis unfolding s scaled_def using True by simp
  next
    case False
    then have "i + 1 \<le> int (?m div P)" using that assms by (simp add: truncated_def P_def)
    from below [OF this] have "i * int P + int P \<le> int ?m" by (simp add: algebra_simps)
    then show ?thesis unfolding s scaled_def using False P by simp
  qed
  show "t * 2 ^ 1074 \<le> scaled d" if "0 < t"
  proof -
    have "\<not> negative_double d" using that assms by (auto simp: truncated_def)
    then show ?thesis unfolding s scaled_def using below [of t] that assms by (simp add: truncated_def P_def)
  qed
qed

lemma limits_exact:
  "\<not> isnan INT64_MIN_VALUE_AS_DOUBLE" "scaled INT64_MIN_VALUE_AS_DOUBLE = - (2 ^ 63) * 2 ^ 1074"
  "\<not> isnan INT64_MAX_VALUE_AS_DOUBLE" "scaled INT64_MAX_VALUE_AS_DOUBLE = 2 ^ 63 * 2 ^ 1074"
proof -
  have "fits_double (nat \<bar>sint (- (2 ^ 63) :: s64)\<bar>)" by (simp add: fits_double_def bit_count.simps)
  from int64_to_double_exact [OF this]
  show "\<not> isnan INT64_MIN_VALUE_AS_DOUBLE" "scaled INT64_MIN_VALUE_AS_DOUBLE = - (2 ^ 63) * 2 ^ 1074"
    unfolding INT64_MIN_VALUE_AS_DOUBLE_def by simp_all
  have max: "INT64_MAX_VALUE_AS_DOUBLE = 0x43E0000000000000"
    unfolding INT64_MAX_VALUE_AS_DOUBLE_def int64_to_double_def by (simp add: nat_to_double_def bit_count.simps round_shift_def)
  have parts: "exponent_bits INT64_MAX_VALUE_AS_DOUBLE = 1086" "fraction_bits INT64_MAX_VALUE_AS_DOUBLE = 0"
    "\<not> negative_double INT64_MAX_VALUE_AS_DOUBLE"
    by (simp_all add: max exponent_bits_def fraction_bits_def negative_double_def)
  show "\<not> isnan INT64_MAX_VALUE_AS_DOUBLE" by (simp add: isnan_def parts)
  show "scaled INT64_MAX_VALUE_AS_DOUBLE = 2 ^ 63 * 2 ^ 1074"
    by (simp add: scaled_def magnitude_def significand_def parts)
qed

lemma truncated_between:
  "t < truncated d \<Longrightarrow> t * 2 ^ 1074 < scaled d" "truncated d < t \<Longrightarrow> scaled d < t * 2 ^ 1074"
  using truncated_cases(1,2) [OF refl [of "truncated d"], of t] by auto

lemma cast_in_range:
  assumes "\<not> isnan d" "- (2 ^ 63) * 2 ^ 1074 \<le> scaled d" "scaled d < 2 ^ 63 * 2 ^ 1074"
  shows "double_to_int64 d = Some (word_of_int (truncated d))" "sint (word_of_int (truncated d) :: s64) = truncated d"
proof -
  define P where "P = (2::int) ^ 1074"
  have P: "0 < P" by (simp add: P_def)
  note between = truncated_between [where d = d, folded P_def] and bounds = assms(2,3) [folded P_def]
  have "- (2 ^ 63) \<le> truncated d" using bounds between(2) [where t = "- (2 ^ 63)"] by linarith
  moreover have "truncated d < 2 ^ 63"
  proof (rule ccontr)
    assume "\<not> truncated d < 2 ^ 63"
    then have big: "2 ^ 63 \<le> truncated d" and "0 < truncated d" by simp_all
    with truncated_cases(3) [OF refl [of "truncated d"], folded P_def] have "truncated d * P \<le> scaled d" by blast
    moreover have "2 ^ 63 * P \<le> truncated d * P" using big P by (intro mult_right_mono) simp_all
    ultimately show False using bounds by linarith
  qed
  ultimately show "double_to_int64 d = Some (word_of_int (truncated d))" "sint (word_of_int (truncated d) :: s64) = truncated d"
    using assms(1) by (simp_all add: double_to_int64_def in_s64_def sint_sbintrunc' signed_take_bit_int_eq_self)
qed

text \<open>Inside the range of the cast the truncated double decides, and on a tie the exact integer does.\<close>

lemma mixed_in_range:
  assumes nan: "\<not> isnan d" and bounds: "- (2 ^ 63) * 2 ^ 1074 \<le> scaled d" "scaled d < 2 ^ 63 * 2 ^ 1074"
  shows "CompareMixedNumber d i = Some (Compare (scaled d) (sint i * 2 ^ 1074))"
proof -
  define P where "P = (2::int) ^ 1074"
  note limits = limits_exact [folded P_def] and between = truncated_between [where d = d, folded P_def]
  have guards: "\<not> double_less d INT64_MIN_VALUE_AS_DOUBLE" "\<not> double_le INT64_MAX_VALUE_AS_DOUBLE d"
    using bounds [folded P_def] limits by (auto simp: double_le_def double_less_def double_eq_def)
  note cast = cast_in_range [OF assms]
  have "CompareMixedNumber d i = Some (Compare (scaled d) (sint i * P))"
  proof (cases "truncated d = sint i")
    case True
    have "nat \<bar>sint i\<bar> = magnitude d div 2 ^ 1074"
      unfolding True [symmetric] truncated_def by (simp only: abs_minus abs_of_nat nat_int split: if_split) simp
    then have fits: "fits_double (nat \<bar>sint i\<bar>)" using truncated_fits by simp
    note exact = int64_to_double_exact [OF fits, folded P_def]
    have "CompareDouble d (int64_to_double i) = Compare (scaled d) (sint i * P)"
      using nan exact by (auto simp: CompareDouble_def double_less_def double_eq_def Compare_def)
    then show ?thesis using guards nan cast True by (simp add: CompareMixedNumber_def CompareInt64_def)
  next
    case neq: False
    then have "CompareInt64 (word_of_int (truncated d)) i = Compare (scaled d) (sint i * P)"
      using between [where t = "sint i"] cast(2) by (auto simp: CompareInt64_def Compare_def)
    moreover have "CompareInt64 (word_of_int (truncated d)) i \<noteq> Same" using neq cast(2) by (auto simp: CompareInt64_def)
    ultimately show ?thesis using guards nan cast(1) by (simp add: CompareMixedNumber_def)
  qed
  then show ?thesis by (simp add: P_def)
qed

text \<open>
  C8: Comparing a double with a 64-bit integer is exact: the result is the comparison of the two
  numbers as integers scaled by \<open>2 ^ 1074\<close>, for every bit pattern, with no double out of the range of
  the cast; NaN comes before every integer.
\<close>

theorem mixed_comparison_exact:
  "CompareMixedNumber d i = Some (if isnan d then Ascending else Compare (scaled d) (sint i * 2 ^ 1074))"
proof (cases "isnan d")
  case True
  then show ?thesis by (simp add: CompareMixedNumber_def double_less_def double_le_def double_eq_def)
next
  case False
  define P where "P = (2::int) ^ 1074"
  have P: "0 < P" by (simp add: P_def)
  have i: "- (2 ^ 63) \<le> sint i" "sint i < 2 ^ 63" using sint_range_size [of i] by (simp_all add: word_size)
  have iP: "- (2 ^ 63) * P \<le> sint i * P" "sint i * P < 2 ^ 63 * P"
    using i P by (intro mult_right_mono mult_strict_right_mono; simp)+
  note limits = limits_exact [folded P_def]
  consider "scaled d < - (2 ^ 63) * P" | "2 ^ 63 * P \<le> scaled d"
    | "- (2 ^ 63) * P \<le> scaled d" "scaled d < 2 ^ 63 * P" by linarith
  then have "CompareMixedNumber d i = Some (Compare (scaled d) (sint i * P))"
  proof cases
    case 1
    then have "double_less d INT64_MIN_VALUE_AS_DOUBLE" using False limits by (simp add: double_less_def)
    moreover have "scaled d < sint i * P" using 1 iP by linarith
    ultimately show ?thesis using False by (simp add: CompareMixedNumber_def Compare_def)
  next
    case 2
    have "\<not> double_less d INT64_MIN_VALUE_AS_DOUBLE" using 2 iP limits by (simp add: double_less_def)
    moreover have "double_le INT64_MAX_VALUE_AS_DOUBLE d" using 2 False limits by (auto simp: double_le_def double_less_def double_eq_def)
    moreover have "sint i * P < scaled d" using 2 iP by linarith
    ultimately show ?thesis using False by (simp add: CompareMixedNumber_def Compare_def)
  next
    case 3
    with mixed_in_range [OF False, folded P_def] show ?thesis by simp
  qed
  with False show ?thesis unfolding P_def by simp
qed

end
