(* ===== verification/ModelValues.thy ===== *)
theory ModelValues
  imports FieldPaths MixedNumbers
begin

text \<open>
  \<open>Firestore/core/src/model/value_util.cc\<close> and \<open>model/server_timestamp_util.cc\<close>: the values of document
  fields, their order, equality, sorting, copies and canonical ids.  A value is the \<open>oneof\<close> of the
  protocol buffer with its tag (\<open>Unset\<close> is any tag that is none of the kinds); a byte array is a
  pointer that is null when it is empty.  A failed \<open>HARD_ASSERT\<close> or \<open>HARD_FAIL\<close> and a load
  through a null pointer have no result.
\<close>

section \<open>Values\<close>

datatype Value =
    Unset
  | null_value
  | boolean_value bool
  | integer_value s64
  | double_value double
  | timestamp_value s64 s32
  | string_value "bytes ptr"
  | bytes_value "bytes ptr"
  | reference_value "bytes ptr"
  | geo_point_value double double
  | array_value "Value list"
  | map_value "(bytes ptr \<times> Value) list"

type_synonym FieldsEntry = "bytes ptr \<times> Value"

definition MakeStringView :: "bytes ptr \<Rightarrow> bytes" where
  "MakeStringView str = (case str of None \<Rightarrow> [] | Some bs \<Rightarrow> bs)"

definition MakeBytesArray :: "bytes \<Rightarrow> bytes ptr" where
  "MakeBytesArray data = (if data = [] then None else Some data)"

fun IsMap :: "Value \<Rightarrow> bool" where
  "IsMap (map_value fs) = True"
| "IsMap _ = False"

fun IsArray :: "Value \<Rightarrow> bool" where
  "IsArray (array_value vs) = True"
| "IsArray _ = False"

fun IsInteger :: "Value \<Rightarrow> bool" where
  "IsInteger (integer_value i) = True"
| "IsInteger _ = False"

fun IsDouble :: "Value \<Rightarrow> bool" where
  "IsDouble (double_value d) = True"
| "IsDouble _ = False"

definition IsNumber :: "Value \<Rightarrow> bool" where
  "IsNumber v \<longleftrightarrow> IsInteger v \<or> IsDouble v"

definition NullValue :: Value where
  "NullValue = null_value"

definition IsNullValue :: "Value \<Rightarrow> bool" where
  "IsNullValue v \<longleftrightarrow> v = null_value"

definition NaNValue :: Value where
  "NaNValue = double_value kNaN"

fun IsNaNValue :: "Value \<Rightarrow> bool" where
  "IsNaNValue (double_value d) = isnan d"
| "IsNaNValue _ = False"

section \<open>Server timestamps\<close>

definition kTypeKey :: bytes where
  "kTypeKey = [95, 95, 116, 121, 112, 101, 95, 95]"

definition kLocalWriteTimeKey :: bytes where
  "kLocalWriteTimeKey = [95, 95, 108, 111, 99, 97, 108, 95, 119, 114, 105, 116, 101, 95, 116, 105, 109, 101, 95, 95]"

definition kPreviousValueKey :: bytes where
  "kPreviousValueKey = [95, 95, 112, 114, 101, 118, 105, 111, 117, 115, 95, 118, 97, 108, 117, 101, 95, 95]"

definition kServerTimestampSentinel :: bytes where
  "kServerTimestampSentinel = [115, 101, 114, 118, 101, 114, 95, 116, 105, 109, 101, 115, 116, 97, 109, 112]"

fun type_field :: "FieldsEntry list \<Rightarrow> bool" where
  "type_field [] = False"
| "type_field ((key, v) # fs) =
     (if MakeStringView key = kTypeKey then
        (case v of string_value s \<Rightarrow> MakeStringView s = kServerTimestampSentinel | _ \<Rightarrow> False)
      else type_field fs)"

fun IsServerTimestamp :: "Value \<Rightarrow> bool" where
  "IsServerTimestamp (map_value fs) = (if 3 < length fs then False else type_field fs)"
| "IsServerTimestamp _ = False"

fun local_write_time :: "FieldsEntry list \<Rightarrow> (s64 \<times> s32) option" where
  "local_write_time [] = None"
| "local_write_time ((key, v) # fs) =
     (case (MakeStringView key = kLocalWriteTimeKey, v) of
        (True, timestamp_value s n) \<Rightarrow> Some (s, n)
      | _ \<Rightarrow> local_write_time fs)"

fun GetLocalWriteTime :: "Value \<Rightarrow> (s64 \<times> s32) option" where
  "GetLocalWriteTime (map_value fs) = local_write_time fs"
| "GetLocalWriteTime _ = None"

fun previous_field :: "FieldsEntry list \<Rightarrow> Value option" where
  "previous_field [] = None"
| "previous_field ((key, v) # fs) = (if MakeStringView key = kPreviousValueKey then Some v else previous_field fs)"

lemma entry_size: "(key, v) \<in> set fs \<Longrightarrow> size v \<le> size_list (size_prod (\<lambda>x. 0) size) fs"
  by (rule size_list_estimation') auto

lemma previous_field_in: "previous_field fs = Some v \<Longrightarrow> \<exists>key. (key, v) \<in> set fs"
  by (induction fs rule: previous_field.induct) (auto split: if_splits)

text \<open>The previous value behind a chain of server timestamps.\<close>

function GetPreviousValue :: "Value \<Rightarrow> Value option" where
  "GetPreviousValue v =
     (case v of
        map_value fs \<Rightarrow>
          (case previous_field fs of
             None \<Rightarrow> None
           | Some p \<Rightarrow> if IsServerTimestamp p then GetPreviousValue p else Some p)
      | _ \<Rightarrow> None)"
  by auto
termination
  by (relation "measure size") (auto dest!: previous_field_in entry_size)

section \<open>Order\<close>

datatype TypeOrder =
    kNull | kBoolean | kNumber | kTimestamp | kServerTimestamp | kString | kBlob | kReference
  | kGeoPoint | kArray | kMap

primrec type_ordinal :: "TypeOrder \<Rightarrow> nat" where
  "type_ordinal kNull = 0"
| "type_ordinal kBoolean = 1"
| "type_ordinal kNumber = 2"
| "type_ordinal kTimestamp = 3"
| "type_ordinal kServerTimestamp = 4"
| "type_ordinal kString = 5"
| "type_ordinal kBlob = 6"
| "type_ordinal kReference = 7"
| "type_ordinal kGeoPoint = 8"
| "type_ordinal kArray = 9"
| "type_ordinal kMap = 10"

lemma type_ordinal_inject: "type_ordinal a = type_ordinal b \<Longrightarrow> a = b"
  by (cases a; cases b) simp_all

instantiation TypeOrder :: linorder
begin

definition less_eq_TypeOrder :: "TypeOrder \<Rightarrow> TypeOrder \<Rightarrow> bool" where
  "less_eq_TypeOrder a b \<longleftrightarrow> type_ordinal a \<le> type_ordinal b"

definition less_TypeOrder :: "TypeOrder \<Rightarrow> TypeOrder \<Rightarrow> bool" where
  "less_TypeOrder a b \<longleftrightarrow> type_ordinal a < type_ordinal b"

instance
  by standard (auto simp: less_eq_TypeOrder_def less_TypeOrder_def type_ordinal_inject)

end

fun GetTypeOrder :: "Value \<Rightarrow> TypeOrder option" where
  "GetTypeOrder Unset = None"
| "GetTypeOrder null_value = Some kNull"
| "GetTypeOrder (boolean_value b) = Some kBoolean"
| "GetTypeOrder (integer_value i) = Some kNumber"
| "GetTypeOrder (double_value d) = Some kNumber"
| "GetTypeOrder (timestamp_value s n) = Some kTimestamp"
| "GetTypeOrder (string_value s) = Some kString"
| "GetTypeOrder (bytes_value s) = Some kBlob"
| "GetTypeOrder (reference_value s) = Some kReference"
| "GetTypeOrder (geo_point_value x y) = Some kGeoPoint"
| "GetTypeOrder (array_value vs) = Some kArray"
| "GetTypeOrder (map_value fs) = Some (if IsServerTimestamp (map_value fs) then kServerTimestamp else kMap)"

fun CompareNumbers :: "Value \<Rightarrow> Value \<Rightarrow> ComparisonResult option" where
  "CompareNumbers (double_value l) (double_value r) = Some (CompareDouble l r)"
| "CompareNumbers (double_value l) (integer_value r) = CompareMixedNumber l r"
| "CompareNumbers (integer_value l) (integer_value r) = Some (CompareInt64 l r)"
| "CompareNumbers (integer_value l) (double_value r) = map_option ReverseOrder (CompareMixedNumber r l)"
| "CompareNumbers _ _ = None"

fun CompareTimestamps :: "s64 \<times> s32 \<Rightarrow> s64 \<times> s32 \<Rightarrow> ComparisonResult" where
  "CompareTimestamps (s, n) (s', n') =
     (let cmp = CompareInt64 s s' in if cmp \<noteq> Same then cmp else Compare (sint n) (sint n'))"

definition CompareStrings :: "bytes ptr \<Rightarrow> bytes ptr \<Rightarrow> ComparisonResult" where
  "CompareStrings l r = Compare (MakeStringView l) (MakeStringView r)"

text \<open>Only the sign of the result of \<open>memcmp\<close> is specified.\<close>

fun memcmp :: "bytes \<Rightarrow> bytes \<Rightarrow> nat \<Rightarrow> int" where
  "memcmp (a # as) (b # bs) (Suc n) = (if a = b then memcmp as bs n else if a < b then -1 else 1)"
| "memcmp _ _ _ = 0"

definition ComparisonResultFromInt :: "int \<Rightarrow> ComparisonResult" where
  "ComparisonResultFromInt v = (if v < 0 then Ascending else if 0 < v then Descending else Same)"

fun CompareBlobs :: "bytes ptr \<Rightarrow> bytes ptr \<Rightarrow> ComparisonResult" where
  "CompareBlobs (Some l) (Some r) =
     (let cmp = memcmp l r (min (length l) (length r)) in
      if cmp \<noteq> 0 then ComparisonResultFromInt cmp else Compare (length l) (length r))"
| "CompareBlobs l r =
     Compare (\<not> (case l of None \<Rightarrow> True | Some bs \<Rightarrow> length bs = 0)) (\<not> (case r of None \<Rightarrow> True | Some bs \<Rightarrow> length bs = 0))"

definition reference_segments :: "Absl \<Rightarrow> bytes ptr \<Rightarrow> bytes list" where
  "reference_segments absl v = filter (\<lambda>s. s \<noteq> []) (StrSplit absl (MakeStringView v) slash)"

fun compare_segments :: "bytes list \<Rightarrow> bytes list \<Rightarrow> ComparisonResult" where
  "compare_segments (l # ls) (r # rs) = (let cmp = Compare l r in if cmp \<noteq> Same then cmp else compare_segments ls rs)"
| "compare_segments _ _ = Same"

definition CompareReferences :: "Absl \<Rightarrow> bytes ptr \<Rightarrow> bytes ptr \<Rightarrow> ComparisonResult" where
  "CompareReferences absl l r =
     (let left_segments = reference_segments absl l; right_segments = reference_segments absl r;
          cmp = compare_segments left_segments right_segments in
      if cmp \<noteq> Same then cmp else Compare (length left_segments) (length right_segments))"

definition CompareGeoPoints :: "double \<times> double \<Rightarrow> double \<times> double \<Rightarrow> ComparisonResult" where
  "CompareGeoPoints l r =
     (let cmp = CompareDouble (fst l) (fst r) in if cmp \<noteq> Same then cmp else CompareDouble (snd l) (snd r))"

text \<open>The loops of \<open>CompareArrays\<close> and \<open>CompareObjects\<close> run over the common length.\<close>

fun VCompare :: "Absl \<Rightarrow> Value \<Rightarrow> Value \<Rightarrow> ComparisonResult option"
  and compare_values :: "Absl \<Rightarrow> Value list \<Rightarrow> Value list \<Rightarrow> ComparisonResult option"
  and compare_entries :: "Absl \<Rightarrow> FieldsEntry list \<Rightarrow> FieldsEntry list \<Rightarrow> ComparisonResult option" where
  "VCompare absl l r = do {
     left_type \<leftarrow> GetTypeOrder l;
     right_type \<leftarrow> GetTypeOrder r;
     if left_type \<noteq> right_type then Some (Compare left_type right_type)
     else (case (l, r) of
         (null_value, null_value) \<Rightarrow> Some Same
       | (boolean_value a, boolean_value b) \<Rightarrow> Some (Compare a b)
       | (timestamp_value s n, timestamp_value s' n') \<Rightarrow> Some (CompareTimestamps (s, n) (s', n'))
       | (string_value a, string_value b) \<Rightarrow> Some (CompareStrings a b)
       | (bytes_value a, bytes_value b) \<Rightarrow> Some (CompareBlobs a b)
       | (reference_value a, reference_value b) \<Rightarrow> Some (CompareReferences absl a b)
       | (geo_point_value x y, geo_point_value x' y') \<Rightarrow> Some (CompareGeoPoints (x, y) (x', y'))
       | (array_value vs, array_value ws) \<Rightarrow> do {
           cmp \<leftarrow> compare_values absl vs ws;
           if cmp \<noteq> Same then Some cmp else Some (Compare (length vs) (length ws)) }
       | (map_value fs, map_value gs) \<Rightarrow>
           if left_type = kServerTimestamp then do {
             a \<leftarrow> GetLocalWriteTime l;
             b \<leftarrow> GetLocalWriteTime r;
             Some (CompareTimestamps a b) }
           else do {
             cmp \<leftarrow> compare_entries absl fs gs;
             if cmp \<noteq> Same then Some cmp else Some (Compare (length fs) (length gs)) }
       | _ \<Rightarrow> CompareNumbers l r) }"
| "compare_values absl (v # vs) (w # ws) = do {
     cmp \<leftarrow> VCompare absl v w;
     if cmp \<noteq> Same then Some cmp else compare_values absl vs ws }"
| "compare_values absl [] ws = Some Same"
| "compare_values absl (v # vs) [] = Some Same"
| "compare_entries absl ((k, v) # fs) ((k', w) # gs) = (
     let key_cmp = Compare (MakeStringView k) (MakeStringView k') in
     if key_cmp \<noteq> Same then Some key_cmp
     else do {
       value_cmp \<leftarrow> VCompare absl v w;
       if value_cmp \<noteq> Same then Some value_cmp else compare_entries absl fs gs })"
| "compare_entries absl [] gs = Some Same"
| "compare_entries absl (f # fs) [] = Some Same"

section \<open>Equality\<close>

fun NumberEquals :: "Value \<Rightarrow> Value \<Rightarrow> bool" where
  "NumberEquals (integer_value l) (integer_value r) = (l = r)"
| "NumberEquals (double_value l) (double_value r) = DoubleBitwiseEquals l r"
| "NumberEquals _ _ = False"

fun Equals :: "Value \<Rightarrow> Value \<Rightarrow> bool option"
  and array_equals :: "Value list \<Rightarrow> Value list \<Rightarrow> bool option"
  and object_equals :: "FieldsEntry list \<Rightarrow> FieldsEntry list \<Rightarrow> bool option" where
  "Equals l r = do {
     left_type \<leftarrow> GetTypeOrder l;
     right_type \<leftarrow> GetTypeOrder r;
     if left_type \<noteq> right_type then Some False
     else (case (l, r) of
         (null_value, null_value) \<Rightarrow> Some True
       | (boolean_value a, boolean_value b) \<Rightarrow> Some (a = b)
       | (timestamp_value s n, timestamp_value s' n') \<Rightarrow> Some (s = s' \<and> n = n')
       | (string_value a, string_value b) \<Rightarrow> Some (MakeStringView a = MakeStringView b)
       | (bytes_value a, bytes_value b) \<Rightarrow> Some (CompareBlobs a b = Same)
       | (reference_value a, reference_value b) \<Rightarrow> Some (MakeStringView a = MakeStringView b)
       | (geo_point_value x y, geo_point_value x' y') \<Rightarrow> Some (double_eq x x' \<and> double_eq y y')
       | (array_value vs, array_value ws) \<Rightarrow>
           if length vs \<noteq> length ws then Some False else array_equals vs ws
       | (map_value fs, map_value gs) \<Rightarrow>
           if left_type = kServerTimestamp then do {
             left_ts \<leftarrow> GetLocalWriteTime l;
             right_ts \<leftarrow> GetLocalWriteTime r;
             Some (left_ts = right_ts) }
           else if length fs \<noteq> length gs then Some False else object_equals fs gs
       | _ \<Rightarrow> Some (NumberEquals l r)) }"
| "array_equals (v # vs) (w # ws) = do {
     e \<leftarrow> Equals v w;
     if \<not> e then Some False else array_equals vs ws }"
| "array_equals [] ws = Some True"
| "array_equals (v # vs) [] = Some True"
| "object_equals ((k, v) # fs) ((k', w) # gs) =
     (if MakeStringView k \<noteq> MakeStringView k' then Some False
      else do {
        e \<leftarrow> Equals v w;
        if \<not> e then Some False else object_equals fs gs })"
| "object_equals [] gs = Some True"
| "object_equals (f # fs) [] = Some True"

declare VCompare.simps [simp del] Equals.simps [simp del]

primrec Contains :: "Value list \<Rightarrow> Value \<Rightarrow> bool option" where
  "Contains [] needle = Some False"
| "Contains (v # haystack) needle = do {
     e \<leftarrow> Equals v needle;
     if e then Some True else Contains haystack needle }"

section \<open>Sorting and copying\<close>

text \<open>\<open>std::sort\<close> by key, then the values of the sorted fields.\<close>

function SortFields :: "Value \<Rightarrow> Value" where
  "SortFields v =
     (case v of
        map_value fs \<Rightarrow>
          map_value (map (\<lambda>(key, v). (key, SortFields v)) (sort_key (\<lambda>(key, v). MakeStringView key) fs))
      | array_value vs \<Rightarrow> array_value (map SortFields vs)
      | _ \<Rightarrow> v)"
  by auto
termination
  by (relation "measure size") (auto dest: entry_size size_list_estimation' [OF _ order_refl, where f = size])

declare SortFields.simps [simp del]

text \<open>\<open>MakeBytesArray(p->bytes, p->size)\<close>, which loads through \<open>p\<close>.\<close>

definition copy_bytes :: "bytes ptr \<Rightarrow> bytes ptr option" where
  "copy_bytes p = do { bs \<leftarrow> p; Some (MakeBytesArray bs) }"

fun DeepClone :: "Value \<Rightarrow> Value option"
  and clone_values :: "Value list \<Rightarrow> Value list option"
  and clone_entries :: "FieldsEntry list \<Rightarrow> FieldsEntry list option" where
  "DeepClone (string_value s) =
     (case s of Some bs \<Rightarrow> Some (string_value (MakeBytesArray bs)) | None \<Rightarrow> Some (string_value None))"
| "DeepClone (reference_value s) = map_option reference_value (copy_bytes s)"
| "DeepClone (bytes_value s) =
     (case s of Some bs \<Rightarrow> Some (bytes_value (MakeBytesArray bs)) | None \<Rightarrow> Some (bytes_value None))"
| "DeepClone (array_value vs) = map_option array_value (clone_values vs)"
| "DeepClone (map_value fs) = map_option map_value (clone_entries fs)"
| "DeepClone v = Some v"
| "clone_values [] = Some []"
| "clone_values (v # vs) = do { v' \<leftarrow> DeepClone v; vs' \<leftarrow> clone_values vs; Some (v' # vs') }"
| "clone_entries [] = Some []"
| "clone_entries ((key, v) # fs) = do {
     key' \<leftarrow> copy_bytes key;
     v' \<leftarrow> DeepClone v;
     fs' \<leftarrow> clone_entries fs;
     Some ((key', v') # fs') }"

definition EncodeServerTimestamp :: "s64 \<times> s32 \<Rightarrow> Value option \<Rightarrow> Value option" where
  "EncodeServerTimestamp local_time previous_value = do {
     let fs = [(MakeBytesArray kTypeKey, string_value (MakeBytesArray kServerTimestampSentinel)),
               (MakeBytesArray kLocalWriteTimeKey, timestamp_value (fst local_time) (snd local_time))];
     case previous_value of
       None \<Rightarrow> Some (map_value fs)
     | Some p \<Rightarrow> do {
         p' \<leftarrow> DeepClone p;
         Some (map_value (fs @ [(MakeBytesArray kPreviousValueKey, p')])) } }"

section \<open>Canonical ids\<close>

text \<open>The formatting functions of Abseil: \<open>"%.1f"\<close> and \<open>BytesToHexString\<close>.\<close>

record Absl_format =
  FormatDouble :: "double \<Rightarrow> bytes"
  BytesToHexString :: "bytes \<Rightarrow> bytes"

fun decimal_digits :: "nat \<Rightarrow> bytes" where
  "decimal_digits n = (if n < 10 then [of_nat (48 + n)] else decimal_digits (n div 10) @ [of_nat (48 + n mod 10)])"

declare decimal_digits.simps [simp del]

definition to_decimal :: "int \<Rightarrow> bytes" where
  "to_decimal i = (if i < 0 then 45 # decimal_digits (nat (- i)) else decimal_digits (nat i))"

definition CanonifyTimestamp :: "s64 \<Rightarrow> s32 \<Rightarrow> bytes" where
  "CanonifyTimestamp s n = [116, 105, 109, 101, 40] @ to_decimal (sint s) @ [44] @ to_decimal (sint n) @ [41]"

definition CanonifyBlob :: "Absl_format \<Rightarrow> bytes ptr \<Rightarrow> bytes" where
  "CanonifyBlob fmt v = BytesToHexString fmt (MakeStringView v)"

definition CanonifyReference :: "Absl \<Rightarrow> bytes ptr \<Rightarrow> bytes option" where
  "CanonifyReference absl v = do {
     let segments = reference_segments absl v;
     _ \<leftarrow> HARD_ASSERT (5 \<le> length segments);
     Some (StrJoin absl (drop 5 segments) [slash]) }"

definition CanonifyGeoPoint :: "Absl_format \<Rightarrow> double \<Rightarrow> double \<Rightarrow> bytes" where
  "CanonifyGeoPoint fmt x y = [103, 101, 111, 40] @ FormatDouble fmt x @ [44] @ FormatDouble fmt y @ [41]"

fun CanonicalId :: "Absl \<Rightarrow> Absl_format \<Rightarrow> Value \<Rightarrow> bytes option"
  and canonify_values :: "Absl \<Rightarrow> Absl_format \<Rightarrow> Value list \<Rightarrow> bytes option"
  and canonify_entries :: "Absl \<Rightarrow> Absl_format \<Rightarrow> FieldsEntry list \<Rightarrow> bytes option" where
  "CanonicalId absl fmt Unset = None"
| "CanonicalId absl fmt null_value = Some [110, 117, 108, 108]"
| "CanonicalId absl fmt (boolean_value b) = Some (if b then [116, 114, 117, 101] else [102, 97, 108, 115, 101])"
| "CanonicalId absl fmt (integer_value i) = Some (to_decimal (sint i))"
| "CanonicalId absl fmt (double_value d) = Some (FormatDouble fmt d)"
| "CanonicalId absl fmt (timestamp_value s n) = Some (CanonifyTimestamp s n)"
| "CanonicalId absl fmt (string_value s) = Some (MakeStringView s)"
| "CanonicalId absl fmt (bytes_value s) = Some (CanonifyBlob fmt s)"
| "CanonicalId absl fmt (reference_value s) = CanonifyReference absl s"
| "CanonicalId absl fmt (geo_point_value x y) = Some (CanonifyGeoPoint fmt x y)"
| "CanonicalId absl fmt (array_value vs) = map_option (\<lambda>s. [91] @ s @ [93]) (canonify_values absl fmt vs)"
| "CanonicalId absl fmt (map_value fs) = map_option (\<lambda>s. [123] @ s @ [125]) (canonify_entries absl fmt fs)"
| "canonify_values absl fmt [] = Some []"
| "canonify_values absl fmt (v # vs) = do {
     s \<leftarrow> CanonicalId absl fmt v;
     rest \<leftarrow> canonify_values absl fmt vs;
     Some (s @ (if vs \<noteq> [] then [44] else []) @ rest) }"
| "canonify_entries absl fmt [] = Some []"
| "canonify_entries absl fmt ((key, v) # fs) = do {
     s \<leftarrow> CanonicalId absl fmt v;
     rest \<leftarrow> canonify_entries absl fmt fs;
     Some (MakeStringView key @ [58] @ s @ (if fs \<noteq> [] then [44] else []) @ rest) }"

text \<open>\<open>projects/%s/databases/%s/documents/%s\<close>.\<close>

definition RefValue :: "Absl \<Rightarrow> bytes \<Rightarrow> bytes \<Rightarrow> DocumentKey \<Rightarrow> Value" where
  "RefValue absl project_id database_id document_key =
     reference_value (MakeBytesArray
       ([112, 114, 111, 106, 101, 99, 116, 115, 47] @ project_id @
        [47, 100, 97, 116, 97, 98, 97, 115, 101, 115, 47] @ database_id @
        [47, 100, 111, 99, 117, 109, 101, 110, 116, 115, 47] @ ResourcePath_CanonicalString absl document_key))"

end
