(* ===== verification/ValueOrder.thy ===== *)
theory ValueOrder
  imports ModelValues
begin

text \<open>
  The comparison of values is an order: reversing the arguments reverses the result, values that
  compare as the same behave alike, and the order is transitive.  Numbers are ordered by their exact
  value whatever their representation, containers lexicographically.
\<close>

lemma ReverseOrder_simps [simp]:
  "ReverseOrder Ascending = Descending" "ReverseOrder Same = Same" "ReverseOrder Descending = Ascending"
  "ReverseOrder r = Same \<longleftrightarrow> r = Same" "ReverseOrder r = Ascending \<longleftrightarrow> r = Descending"
  "ReverseOrder r = Descending \<longleftrightarrow> r = Ascending" "ReverseOrder (ReverseOrder r) = r"
  by (simp_all add: ReverseOrder_def split: ComparisonResult.splits)

section \<open>Comparisons\<close>

text \<open>
  The contract of a comparison on the values of a carrier: what a client that sorts or searches by
  it relies on.
\<close>

locale comparison =
  fixes carrier :: "'a \<Rightarrow> bool" and cmp :: "'a \<Rightarrow> 'a \<Rightarrow> ComparisonResult"
  assumes reverse: "carrier a \<Longrightarrow> carrier b \<Longrightarrow> cmp b a = ReverseOrder (cmp a b)"
    and same: "carrier a \<Longrightarrow> carrier b \<Longrightarrow> carrier c \<Longrightarrow> cmp a b = Same \<Longrightarrow> cmp a c = cmp b c"
    and ascending: "carrier a \<Longrightarrow> carrier b \<Longrightarrow> carrier c \<Longrightarrow> cmp a b = Ascending \<Longrightarrow> cmp b c = Ascending \<Longrightarrow> cmp a c = Ascending"
begin

lemma reflexive:
  assumes "carrier a"
  shows "cmp a a = Same"
proof -
  from reverse [OF assms assms] show ?thesis by (cases "cmp a a") (auto simp: ReverseOrder_def)
qed

lemma same_right:
  assumes "carrier a" "carrier b" "carrier c" "cmp b c = Same"
  shows "cmp a c = cmp a b"
proof -
  have "cmp b a = cmp c a" by (rule same [OF assms(2,3,1,4)])
  with reverse [OF assms(2,1)] reverse [OF assms(3,1)] show ?thesis by simp
qed

lemma not_descending_trans:
  assumes "carrier a" "carrier b" "carrier c" "cmp a b \<noteq> Descending" "cmp b c \<noteq> Descending"
  shows "cmp a c \<noteq> Descending"
proof (cases "cmp a b = Same \<or> cmp b c = Same")
  case True
  then show ?thesis using same [OF assms(1-3)] same_right [OF assms(1-3)] assms(4,5) by auto
next
  case False
  with assms(4,5) have "cmp a b = Ascending" "cmp b c = Ascending" by (meson ComparisonResult.exhaust)+
  from ascending [OF assms(1-3) this] show ?thesis by simp
qed

end

lemma Compare_reverse: "Compare b a = ReverseOrder (Compare a b)"
  by (auto simp: Compare_def)

lemma Compare_self [simp]: "Compare a a = Same"
  by (simp add: Compare_def)

text \<open>The laws at three values, for an order that is built up by recursion.\<close>

definition order_laws :: "('a \<Rightarrow> 'a \<Rightarrow> ComparisonResult) \<Rightarrow> 'a \<Rightarrow> 'a \<Rightarrow> 'a \<Rightarrow> bool" where
  "order_laws cmp a b c \<longleftrightarrow>
     (cmp a b = Same \<longrightarrow> cmp a c = cmp b c) \<and> (cmp b c = Same \<longrightarrow> cmp a c = cmp a b) \<and>
     (cmp a b = Ascending \<longrightarrow> cmp b c = Ascending \<longrightarrow> cmp a c = Ascending)"

lemma order_laws_Compare: "order_laws (\<lambda>a b. Compare (f a) (f b)) a b c"
  by (auto simp: order_laws_def Compare_def)

definition then_cmp :: "ComparisonResult \<Rightarrow> ComparisonResult \<Rightarrow> ComparisonResult" where
  "then_cmp r s = (if r \<noteq> Same then r else s)"

fun lex_cmp :: "('a \<Rightarrow> 'a \<Rightarrow> ComparisonResult) \<Rightarrow> 'a list \<Rightarrow> 'a list \<Rightarrow> ComparisonResult" where
  "lex_cmp cmp (x # xs) (y # ys) = then_cmp (cmp x y) (lex_cmp cmp xs ys)"
| "lex_cmp cmp xs ys = Compare (length xs) (length ys)"

lemma lex_cmp_Nil: "lex_cmp cmp [] ys = Compare 0 (length ys)" "lex_cmp cmp xs [] = Compare (length xs) 0"
  by (cases ys; simp) (cases xs; simp)

lemma lex_reverse:
  "(\<And>x y. x \<in> set xs \<Longrightarrow> y \<in> set ys \<Longrightarrow> cmp y x = ReverseOrder (cmp x y)) \<Longrightarrow>
   lex_cmp cmp ys xs = ReverseOrder (lex_cmp cmp xs ys)"
proof (induction cmp xs ys rule: lex_cmp.induct)
  case (1 cmp x xs y ys)
  then have "cmp y x = ReverseOrder (cmp x y)" "lex_cmp cmp ys xs = ReverseOrder (lex_cmp cmp xs ys)" by auto
  then show ?case by (auto simp: then_cmp_def)
qed (simp_all add: lex_cmp_Nil Compare_def)

lemma lex_laws:
  "(\<And>x y z. x \<in> set xs \<Longrightarrow> y \<in> set ys \<Longrightarrow> z \<in> set zs \<Longrightarrow> order_laws cmp x y z) \<Longrightarrow>
   order_laws (lex_cmp cmp) xs ys zs"
proof (induction xs arbitrary: ys zs)
  case Nil
  show ?case by (cases ys; cases zs) (simp_all add: order_laws_def Compare_def)
next
  case (Cons x xs)
  show ?case
  proof (cases "ys = [] \<or> zs = []")
    case True
    then show ?thesis by (cases ys; cases zs) (simp_all add: order_laws_def Compare_def)
  next
    case False
    then obtain y ys' z zs' where eq: "ys = y # ys'" "zs = z # zs'" by (cases ys; cases zs) auto
    have "order_laws cmp x y z" "order_laws (lex_cmp cmp) xs ys' zs'" using Cons eq by auto
    then show ?thesis unfolding eq by (cases "cmp x y"; cases "cmp y z") (simp_all add: order_laws_def then_cmp_def)
  qed
qed

section \<open>The comparisons of the kinds of values\<close>

lemma Nil_less [simp]: "[] < (xs :: 'a::order list) \<longleftrightarrow> xs \<noteq> []"
  by (cases xs) simp_all

lemma compare_segments_lex:
  "(let cmp = compare_segments xs ys in if cmp \<noteq> Same then cmp else Compare (length xs) (length ys)) = Compare xs ys"
  by (induction xs ys rule: compare_segments.induct) (auto simp: Compare_def Let_def split: if_splits)

lemma CompareReferences_Compare: "CompareReferences absl l r = Compare (reference_segments absl l) (reference_segments absl r)"
  by (simp add: CompareReferences_def compare_segments_lex [symmetric] Let_def)

lemma memcmp_lex:
  "(if memcmp l r (min (length l) (length r)) \<noteq> 0 then ComparisonResultFromInt (memcmp l r (min (length l) (length r)))
    else Compare (length l) (length r)) = Compare l r"
proof (induction l arbitrary: r)
  case Nil
  show ?case by (cases r) (simp_all add: Compare_def)
next
  case (Cons a l)
  show ?case
  proof (cases r)
    case Nil
    then show ?thesis by (simp add: Compare_def)
  next
    case r: (Cons b r')
    show ?thesis
    proof (cases "a = b")
      case True
      have "Compare (a # l) (b # r') = Compare l r'" using True by (simp add: Compare_def)
      moreover have "Compare (length (a # l)) (length (b # r')) = Compare (length l) (length r')" by (simp add: Compare_def)
      ultimately show ?thesis using Cons.IH [of r'] True unfolding r by (auto split: if_splits)
    next
      case False
      then show ?thesis unfolding r by (simp add: Compare_def ComparisonResultFromInt_def)
    qed
  qed
qed

lemma CompareBlobs_Compare: "CompareBlobs l r = Compare (MakeStringView l) (MakeStringView r)"
proof (cases l; cases r)
  fix a b
  assume "l = Some a" "r = Some b"
  then show ?thesis using memcmp_lex [of a b] by (simp add: MakeStringView_def Let_def)
qed (auto simp: MakeStringView_def Compare_def split: option.splits)

definition number_key :: "double \<Rightarrow> int list" where
  "number_key d = (if isnan d then [] else [scaled d])"

lemma CompareDouble_Compare: "CompareDouble l r = Compare (number_key l) (number_key r)"
  by (auto simp: CompareDouble_def double_less_def double_eq_def number_key_def Compare_def)

lemma CompareInt64_Compare: "CompareInt64 l r = Compare (sint l) (sint r)"
  by (simp add: CompareInt64_def Compare_def)

fun leaf_number :: "Value \<Rightarrow> int list" where
  "leaf_number (double_value d) = number_key d"
| "leaf_number (integer_value i) = [sint i * 2 ^ 1074]"
| "leaf_number v = []"

definition time_key :: "s64 \<times> s32 \<Rightarrow> int list" where
  "time_key t = [sint (fst t), sint (snd t)]"

lemma Compare_scale: "0 < (c::int) \<Longrightarrow> Compare (a * c) (b * c) = Compare a b"
  by (simp add: Compare_def)

lemma CompareNumbers_Compare:
  assumes "IsNumber l" "IsNumber r"
  shows "CompareNumbers l r = Some (Compare (leaf_number l) (leaf_number r))"
proof -
  define P where "P = (2::int) ^ 1074"
  have P: "0 < P" by (simp add: P_def)
  have single: "Compare [a] [b] = Compare a b" for a b :: int by (simp add: Compare_def)
  have nil: "Compare [] [b] = Ascending" "Compare [b] [] = Descending" for b :: int by (simp_all add: Compare_def)
  have key: "leaf_number (integer_value i) = [sint i * P]" for i by (simp add: P_def)
  note mixed = mixed_comparison_exact [folded P_def]
  show ?thesis using assms
    by (cases l; cases r)
      (simp_all add: IsNumber_def key single nil CompareInt64_Compare Compare_scale [OF P] mixed
        CompareDouble_Compare number_key_def Compare_reverse [of "scaled _"] del: leaf_number.simps(2))
qed

lemma CompareTimestamps_Compare: "CompareTimestamps s t = Compare (time_key s) (time_key t)"
  by (cases s; cases t) (auto simp: CompareInt64_Compare time_key_def Compare_def Let_def)

lemma CompareGeoPoints_Compare:
  "CompareGeoPoints l r = Compare [number_key (fst l), number_key (snd l)] [number_key (fst r), number_key (snd r)]"
  by (auto simp: CompareGeoPoints_def CompareDouble_Compare Compare_def Let_def)

section \<open>The comparison of values\<close>

text \<open>
  A value whose tags are all set and whose server timestamps hold their local write time.
\<close>

fun well_formed :: "Value \<Rightarrow> bool" where
  "well_formed Unset = False"
| "well_formed (array_value vs) = list_all well_formed vs"
| "well_formed (map_value fs) =
     (if IsServerTimestamp (map_value fs) then local_write_time fs \<noteq> None
      else list_all (\<lambda>(key, v). well_formed v) fs)"
| "well_formed v = True"

text \<open>What decides between two values of one type that hold no others.\<close>

fun text_key :: "Absl \<Rightarrow> Value \<Rightarrow> bytes list" where
  "text_key absl (string_value a) = [MakeStringView a]"
| "text_key absl (bytes_value a) = [MakeStringView a]"
| "text_key absl (reference_value a) = reference_segments absl a"
| "text_key absl v = []"

fun number_keys :: "Value \<Rightarrow> int list list" where
  "number_keys (boolean_value b) = [[of_bool b]]"
| "number_keys (timestamp_value s n) = [time_key (s, n)]"
| "number_keys (geo_point_value x y) = [number_key x, number_key y]"
| "number_keys v = [leaf_number v]"

definition leaf_cmp :: "Absl \<Rightarrow> Value \<Rightarrow> Value \<Rightarrow> ComparisonResult" where
  "leaf_cmp absl a b = then_cmp (Compare (number_keys a) (number_keys b)) (Compare (text_key absl a) (text_key absl b))"

lemma order_laws_leaf: "order_laws (leaf_cmp absl) a b c"
  by (auto simp: order_laws_def leaf_cmp_def then_cmp_def Compare_def)

lemma leaf_reverse: "leaf_cmp absl b a = ReverseOrder (leaf_cmp absl a b)"
  by (auto simp: leaf_cmp_def then_cmp_def Compare_def)

fun is_leaf :: "Value \<Rightarrow> bool" where
  "is_leaf (array_value vs) = False"
| "is_leaf (map_value fs) = False"
| "is_leaf v = True"

definition value_cmp :: "Absl \<Rightarrow> Value \<Rightarrow> Value \<Rightarrow> ComparisonResult" where
  "value_cmp absl a b = the (VCompare absl a b)"

definition entry_cmp :: "Absl \<Rightarrow> FieldsEntry \<Rightarrow> FieldsEntry \<Rightarrow> ComparisonResult" where
  "entry_cmp absl f g =
     then_cmp (Compare (MakeStringView (fst f)) (MakeStringView (fst g))) (value_cmp absl (snd f) (snd g))"

lemma leaf_type: "is_leaf a \<Longrightarrow> GetTypeOrder a = GetTypeOrder b \<Longrightarrow> is_leaf b"
  by (cases a; cases b) (auto split: if_splits)

lemma VCompare_types:
  "GetTypeOrder a = Some t \<Longrightarrow> GetTypeOrder b = Some u \<Longrightarrow> t \<noteq> u \<Longrightarrow> VCompare absl a b = Some (Compare t u)"
  by (simp add: VCompare.simps)

lemma Compare_single: "Compare [a] [b] = Compare a b"
  by (simp add: Compare_def)

lemma Compare_bool: "Compare a b = Compare (of_bool a :: int) (of_bool b)"
  by (simp add: Compare_def)

lemma VCompare_leaf:
  "is_leaf a \<Longrightarrow> GetTypeOrder a = Some t \<Longrightarrow> GetTypeOrder b = Some t \<Longrightarrow> VCompare absl a b = Some (leaf_cmp absl a b)"
  by (cases a; cases b)
    (simp_all add: VCompare.simps leaf_cmp_def then_cmp_def CompareTimestamps_Compare CompareStrings_def CompareBlobs_Compare
      CompareReferences_Compare CompareGeoPoints_Compare CompareNumbers_Compare IsNumber_def
      Compare_single Compare_bool del: CompareTimestamps.simps CompareBlobs.simps CompareNumbers.simps leaf_number.simps(2)
      of_bool_eq_iff split: if_splits)

abbreviation comparable :: "Absl \<Rightarrow> Value \<Rightarrow> Value \<Rightarrow> bool" where
  "comparable absl a b \<equiv> VCompare absl a b = Some (value_cmp absl a b)"

lemma comparableI: "VCompare absl a b = Some r \<Longrightarrow> comparable absl a b"
  by (simp add: value_cmp_def)

lemma Compare_Suc: "Compare (Suc m) (Suc n) = Compare m n"
  by (simp add: Compare_def)

lemma compare_values_lex:
  "\<forall>v \<in> set vs. \<forall>w \<in> set ws. comparable absl v w \<Longrightarrow>
   \<exists>r. compare_values absl vs ws = Some r \<and> then_cmp r (Compare (length vs) (length ws)) = lex_cmp (value_cmp absl) vs ws"
proof (induction vs arbitrary: ws)
  case Nil
  show ?case by (simp add: then_cmp_def)
next
  case (Cons v vs)
  show ?case
  proof (cases ws)
    case Nil
    then show ?thesis by (simp add: then_cmp_def)
  next
    case ws: (Cons w ws')
    then show ?thesis using Cons.IH [of ws'] Cons.prems by (auto simp: then_cmp_def Compare_Suc)
  qed
qed

lemma compare_entries_lex:
  "\<forall>f \<in> set fs. \<forall>g \<in> set gs. comparable absl (snd f) (snd g) \<Longrightarrow>
   \<exists>r. compare_entries absl fs gs = Some r \<and> then_cmp r (Compare (length fs) (length gs)) = lex_cmp (entry_cmp absl) fs gs"
proof (induction fs arbitrary: gs)
  case Nil
  show ?case by (simp add: then_cmp_def)
next
  case (Cons f fs)
  show ?case
  proof (cases gs)
    case Nil
    then show ?thesis by (cases f) (simp add: then_cmp_def)
  next
    case gs: (Cons g gs')
    then show ?thesis using Cons.IH [of gs'] Cons.prems
      by (cases f; cases g) (auto simp: then_cmp_def entry_cmp_def Compare_Suc Let_def)
  qed
qed

definition type_of :: "Value \<Rightarrow> TypeOrder" where
  "type_of v = the (GetTypeOrder v)"

lemma well_formed_type: "well_formed v \<Longrightarrow> GetTypeOrder v = Some (type_of v)"
  by (cases v) (simp_all add: type_of_def)

lemma VCompare_arrays:
  "\<forall>v \<in> set vs. \<forall>w \<in> set ws. comparable absl v w \<Longrightarrow>
   VCompare absl (array_value vs) (array_value ws) = Some (lex_cmp (value_cmp absl) vs ws)"
  using compare_values_lex [of vs ws absl] by (auto simp: VCompare.simps then_cmp_def)

lemma VCompare_maps:
  "\<forall>f \<in> set fs. \<forall>g \<in> set gs. comparable absl (snd f) (snd g) \<Longrightarrow>
   \<not> IsServerTimestamp (map_value fs) \<Longrightarrow> \<not> IsServerTimestamp (map_value gs) \<Longrightarrow>
   VCompare absl (map_value fs) (map_value gs) = Some (lex_cmp (entry_cmp absl) fs gs)"
  using compare_entries_lex [of fs gs absl] by (auto simp: VCompare.simps then_cmp_def simp del: IsServerTimestamp.simps)

lemma VCompare_server_timestamps:
  "IsServerTimestamp (map_value fs) \<Longrightarrow> IsServerTimestamp (map_value gs) \<Longrightarrow>
   local_write_time fs = Some s \<Longrightarrow> local_write_time gs = Some t \<Longrightarrow>
   VCompare absl (map_value fs) (map_value gs) = Some (Compare (time_key s) (time_key t))"
  by (simp add: VCompare.simps CompareTimestamps_Compare del: IsServerTimestamp.simps CompareTimestamps.simps)

lemma array_type: "GetTypeOrder b = Some kArray \<Longrightarrow> \<exists>ws. b = array_value ws"
  by (cases b) (auto split: if_splits)

lemma map_type:
  "GetTypeOrder b = Some (if c then kServerTimestamp else kMap) \<Longrightarrow> \<exists>gs. b = map_value gs \<and> IsServerTimestamp b = c"
  by (cases b) (auto simp del: IsServerTimestamp.simps split: if_splits)

text \<open>The kinds of two values of one type.\<close>

lemma same_type_cases:
  assumes "well_formed a" "well_formed b" "type_of a = type_of b"
  obtains (leaf) "is_leaf a" "is_leaf b"
  | (arrays) vs ws where "a = array_value vs" "b = array_value ws"
  | (maps) fs gs where "a = map_value fs" "b = map_value gs" "\<not> IsServerTimestamp a" "\<not> IsServerTimestamp b"
  | (server_timestamps) fs gs s t where "a = map_value fs" "b = map_value gs" "IsServerTimestamp a" "IsServerTimestamp b"
      "local_write_time fs = Some s" "local_write_time gs = Some t"
proof (cases "is_leaf a")
  case True
  have "GetTypeOrder a = GetTypeOrder b" using well_formed_type [OF assms(1)] well_formed_type [OF assms(2)] assms(3) by simp
  from leaf [OF True leaf_type [OF True this]] show ?thesis .
next
  case not_leaf: False
  have types: "GetTypeOrder b = GetTypeOrder a" using well_formed_type [OF assms(1)] well_formed_type [OF assms(2)] assms(3) by simp
  show ?thesis
  proof (cases a)
    case (array_value vs)
    then obtain ws where "b = array_value ws" using array_type [of b] types by auto
    with array_value show ?thesis by (rule arrays)
  next
    case (map_value fs)
    then obtain gs where b: "b = map_value gs" and st: "IsServerTimestamp b = IsServerTimestamp a"
      using map_type [of b "IsServerTimestamp a"] types by (auto simp del: IsServerTimestamp.simps)
    show ?thesis
    proof (cases "IsServerTimestamp a")
      case True
      then obtain s t where "local_write_time fs = Some s" "local_write_time gs = Some t"
        using assms(1,2) st unfolding map_value b by (auto simp del: IsServerTimestamp.simps)
      from server_timestamps [OF map_value b True _ this] True st show ?thesis by simp
    next
      case False
      with st show ?thesis using map_value b by (intro maps) simp_all
    qed
  qed (use not_leaf in simp_all)
qed

lemma well_formed_entries:
  "well_formed (map_value fs) \<Longrightarrow> \<not> IsServerTimestamp (map_value fs) \<Longrightarrow> f \<in> set fs \<Longrightarrow> well_formed (snd f)"
  by (auto simp: list_all_iff simp del: IsServerTimestamp.simps)

lemma well_formed_comparable: "well_formed a \<Longrightarrow> well_formed b \<Longrightarrow> comparable absl a b"
proof (induction a arbitrary: b rule: measure_induct_rule [of size])
  case (less a)
  show ?case
  proof (cases "type_of a = type_of b")
    case False
    with less.prems show ?thesis using comparableI VCompare_types [OF well_formed_type well_formed_type] by blast
  next
    case True
    from less.prems True show ?thesis
    proof (cases rule: same_type_cases)
      case leaf
      then show ?thesis
        using comparableI [OF VCompare_leaf [of a "type_of a" b absl]] well_formed_type [of a] well_formed_type [of b] less.prems True
        by simp
    next
      case (arrays vs ws)
      have "comparable absl v w" if "v \<in> set vs" "w \<in> set ws" for v w
        using that less arrays size_list_estimation' [OF that(1) order_refl, of size] by (auto simp: list_all_iff)
      then have "\<forall>v \<in> set vs. \<forall>w \<in> set ws. comparable absl v w" by blast
      from comparableI [OF VCompare_arrays [OF this]] show ?thesis unfolding arrays .
    next
      case (maps fs gs)
      have "comparable absl (snd f) (snd g)" if "f \<in> set fs" "g \<in> set gs" for f g
      proof (rule less.IH)
        show "size (snd f) < size a" using entry_size [of "fst f" "snd f" fs] that(1) maps(1) by simp
        show "well_formed (snd f)" "well_formed (snd g)" using well_formed_entries less.prems that maps by blast+
      qed
      then have "\<forall>f \<in> set fs. \<forall>g \<in> set gs. comparable absl (snd f) (snd g)" by blast
      from comparableI [OF VCompare_maps [OF this]] maps(3,4) show ?thesis unfolding maps(1,2) .
    next
      case (server_timestamps fs gs s t)
      from comparableI [OF VCompare_server_timestamps, of fs gs s t absl] server_timestamps show ?thesis by blast
    qed
  qed
qed

lemma value_cmp_eqs:
  "well_formed a \<Longrightarrow> well_formed b \<Longrightarrow> type_of a \<noteq> type_of b \<Longrightarrow> value_cmp absl a b = Compare (type_of a) (type_of b)"
  "well_formed a \<Longrightarrow> well_formed b \<Longrightarrow> type_of a = type_of b \<Longrightarrow> is_leaf a \<Longrightarrow> value_cmp absl a b = leaf_cmp absl a b"
  "well_formed (array_value vs) \<Longrightarrow> well_formed (array_value ws) \<Longrightarrow>
   value_cmp absl (array_value vs) (array_value ws) = lex_cmp (value_cmp absl) vs ws"
  "well_formed (map_value fs) \<Longrightarrow> well_formed (map_value gs) \<Longrightarrow>
   \<not> IsServerTimestamp (map_value fs) \<Longrightarrow> \<not> IsServerTimestamp (map_value gs) \<Longrightarrow>
   value_cmp absl (map_value fs) (map_value gs) = lex_cmp (entry_cmp absl) fs gs"
  "IsServerTimestamp (map_value fs) \<Longrightarrow> IsServerTimestamp (map_value gs) \<Longrightarrow>
   local_write_time fs = Some s \<Longrightarrow> local_write_time gs = Some t \<Longrightarrow>
   value_cmp absl (map_value fs) (map_value gs) = Compare (time_key s) (time_key t)"
proof -
  show "value_cmp absl a b = Compare (type_of a) (type_of b)" if "well_formed a" "well_formed b" "type_of a \<noteq> type_of b"
    using VCompare_types [OF well_formed_type [OF that(1)] well_formed_type [OF that(2)] that(3), of absl] by (simp add: value_cmp_def)
  show "value_cmp absl a b = leaf_cmp absl a b" if "well_formed a" "well_formed b" "type_of a = type_of b" "is_leaf a"
  proof -
    have "GetTypeOrder b = Some (type_of a)" using well_formed_type [OF that(2)] that(3) by simp
    from VCompare_leaf [OF that(4) well_formed_type [OF that(1)] this] show ?thesis by (simp add: value_cmp_def)
  qed
  show "value_cmp absl (array_value vs) (array_value ws) = lex_cmp (value_cmp absl) vs ws"
    if "well_formed (array_value vs)" "well_formed (array_value ws)"
  proof -
    have "\<forall>v \<in> set vs. \<forall>w \<in> set ws. comparable absl v w" using that well_formed_comparable by (auto simp: list_all_iff)
    from VCompare_arrays [OF this] show ?thesis by (simp add: value_cmp_def)
  qed
  show "value_cmp absl (map_value fs) (map_value gs) = lex_cmp (entry_cmp absl) fs gs"
    if "well_formed (map_value fs)" "well_formed (map_value gs)"
      "\<not> IsServerTimestamp (map_value fs)" "\<not> IsServerTimestamp (map_value gs)"
  proof -
    have "\<forall>f \<in> set fs. \<forall>g \<in> set gs. comparable absl (snd f) (snd g)"
      using that well_formed_entries well_formed_comparable by blast
    from VCompare_maps [OF this that(3,4)] show ?thesis by (simp add: value_cmp_def)
  qed
  show "IsServerTimestamp (map_value fs) \<Longrightarrow> IsServerTimestamp (map_value gs) \<Longrightarrow>
   local_write_time fs = Some s \<Longrightarrow> local_write_time gs = Some t \<Longrightarrow>
   value_cmp absl (map_value fs) (map_value gs) = Compare (time_key s) (time_key t)"
    using VCompare_server_timestamps [of fs gs s t absl] by (simp add: value_cmp_def del: IsServerTimestamp.simps)
qed

section \<open>The order of values\<close>

lemma well_formed_elements: "well_formed (array_value vs) \<Longrightarrow> v \<in> set vs \<Longrightarrow> well_formed v \<and> size v < size (array_value vs)"
  using size_list_estimation' [of v vs "size v" size] by (auto simp: list_all_iff)

lemma well_formed_fields:
  "well_formed (map_value fs) \<Longrightarrow> \<not> IsServerTimestamp (map_value fs) \<Longrightarrow> f \<in> set fs \<Longrightarrow>
   well_formed (snd f) \<and> size (snd f) < size (map_value fs)"
  using well_formed_entries [of fs f] entry_size [of "fst f" "snd f" fs] by simp

lemma value_reverse: "well_formed a \<Longrightarrow> well_formed b \<Longrightarrow> value_cmp absl b a = ReverseOrder (value_cmp absl a b)"
proof (induction a arbitrary: b rule: measure_induct_rule [of size])
  case (less a)
  show ?case
  proof (cases "type_of a = type_of b")
    case False
    then show ?thesis using value_cmp_eqs(1) less.prems Compare_reverse [of "type_of b" "type_of a"] by simp
  next
    case True
    from less.prems True show ?thesis
    proof (cases rule: same_type_cases)
      case leaf
      then show ?thesis using value_cmp_eqs(2) [of a b absl] value_cmp_eqs(2) [of b a absl] less.prems True leaf_reverse [of absl b a]
        by simp
    next
      case (arrays vs ws)
      have "value_cmp absl w v = ReverseOrder (value_cmp absl v w)" if "v \<in> set vs" "w \<in> set ws" for v w
        using less.IH [of v w] well_formed_elements less.prems that unfolding arrays by blast
      then have "lex_cmp (value_cmp absl) ws vs = ReverseOrder (lex_cmp (value_cmp absl) vs ws)" by (rule lex_reverse)
      then show ?thesis using less.prems unfolding arrays by (simp only: value_cmp_eqs(3))
    next
      case (maps fs gs)
      have "entry_cmp absl g f = ReverseOrder (entry_cmp absl f g)" if "f \<in> set fs" "g \<in> set gs" for f g
      proof -
        have "value_cmp absl (snd g) (snd f) = ReverseOrder (value_cmp absl (snd f) (snd g))"
          using less.IH [of "snd f" "snd g"] well_formed_fields less.prems maps that by blast
        then show ?thesis by (auto simp: entry_cmp_def then_cmp_def Compare_def)
      qed
      then have "lex_cmp (entry_cmp absl) gs fs = ReverseOrder (lex_cmp (entry_cmp absl) fs gs)" by (rule lex_reverse)
      moreover have "value_cmp absl a b = lex_cmp (entry_cmp absl) fs gs" "value_cmp absl b a = lex_cmp (entry_cmp absl) gs fs"
        using less.prems maps(3,4) unfolding maps(1,2) by (auto intro: value_cmp_eqs(4))
      ultimately show ?thesis by simp
    next
      case (server_timestamps fs gs s t)
      have "value_cmp absl a b = Compare (time_key s) (time_key t)" "value_cmp absl b a = Compare (time_key t) (time_key s)"
        using value_cmp_eqs(5) server_timestamps by blast+
      then show ?thesis using Compare_reverse [of "time_key t" "time_key s"] by simp
    qed
  qed
qed

lemma order_laws_types:
  assumes "well_formed a" "well_formed b" "well_formed c" "\<not> (type_of a = type_of b \<and> type_of b = type_of c)"
  shows "order_laws (value_cmp absl) a b c"
proof -
  consider "type_of a \<noteq> type_of b" "type_of b \<noteq> type_of c" | "type_of a = type_of b" "type_of b \<noteq> type_of c"
    | "type_of a \<noteq> type_of b" "type_of b = type_of c" using assms(4) by blast
  then show ?thesis
  proof cases
    case 1
    show ?thesis
    proof (cases "type_of a = type_of c")
      case True
      then show ?thesis using 1 assms(1-3) by (auto simp: order_laws_def value_cmp_eqs(1) Compare_def)
    next
      case False
      then show ?thesis using 1 assms(1-3) order_laws_Compare [of type_of a b c] by (simp add: order_laws_def value_cmp_eqs(1))
    qed
  next
    case 2
    then have "value_cmp absl a c = value_cmp absl b c" "value_cmp absl b c \<noteq> Same"
      using assms(1-3) by (simp_all add: value_cmp_eqs(1) Compare_simps)
    then show ?thesis by (simp add: order_laws_def)
  next
    case 3
    then have "value_cmp absl a c = value_cmp absl a b" "value_cmp absl a b \<noteq> Same"
      using assms(1-3) by (simp_all add: value_cmp_eqs(1) Compare_simps)
    then show ?thesis by (simp add: order_laws_def)
  qed
qed

lemma order_laws_entry:
  "order_laws (value_cmp absl) (snd f) (snd g) (snd h) \<Longrightarrow> order_laws (entry_cmp absl) f g h"
  by (auto simp: order_laws_def entry_cmp_def then_cmp_def Compare_def)

lemma value_laws: "well_formed a \<Longrightarrow> well_formed b \<Longrightarrow> well_formed c \<Longrightarrow> order_laws (value_cmp absl) a b c"
proof (induction a arbitrary: b c rule: measure_induct_rule [of size])
  case (less a)
  show ?case
  proof (cases "type_of a = type_of b \<and> type_of b = type_of c")
    case False
    then show ?thesis using order_laws_types less.prems by blast
  next
    case True
    then have ab: "type_of a = type_of b" and bc: "type_of b = type_of c" by auto
    from less.prems(1,2) ab show ?thesis
    proof (cases rule: same_type_cases)
      case leaf
      have "is_leaf c" using leaf(2) bc well_formed_type less.prems(2,3) leaf_type [of b c] by simp
      then show ?thesis using order_laws_leaf [of absl a b c] leaf less.prems ab bc
        by (simp add: order_laws_def value_cmp_eqs(2))
    next
      case (arrays vs ws)
      from less.prems(2,3) bc obtain us where c: "c = array_value us"
        by (cases rule: same_type_cases) (simp_all add: arrays)
      have "order_laws (value_cmp absl) x y z" if "x \<in> set vs" "y \<in> set ws" "z \<in> set us" for x y z
        using less.IH [of x y z] well_formed_elements less.prems that unfolding arrays c by blast
      then have "order_laws (lex_cmp (value_cmp absl)) vs ws us" by (rule lex_laws)
      then show ?thesis using less.prems unfolding arrays c by (simp only: order_laws_def value_cmp_eqs(3))
    next
      case (maps fs gs)
      from less.prems(2,3) bc have "\<exists>hs. c = map_value hs \<and> \<not> IsServerTimestamp (map_value hs)"
        by (cases rule: same_type_cases) (use maps in \<open>auto simp del: IsServerTimestamp.simps\<close>)
      then obtain hs where c: "c = map_value hs" "\<not> IsServerTimestamp (map_value hs)" by blast
      have "order_laws (entry_cmp absl) x y z" if "x \<in> set fs" "y \<in> set gs" "z \<in> set hs" for x y z
        using less.IH [of "snd x" "snd y" "snd z"] well_formed_fields less.prems maps c that order_laws_entry by blast
      then have "order_laws (lex_cmp (entry_cmp absl)) fs gs hs" by (rule lex_laws)
      then show ?thesis using less.prems maps(3,4) c(2) unfolding maps(1,2) c(1)
        by (simp only: order_laws_def value_cmp_eqs(4) not_False_eq_True)
    next
      case (server_timestamps fs gs s t)
      from less.prems(2,3) bc have "\<exists>hs u. c = map_value hs \<and> IsServerTimestamp (map_value hs) \<and> local_write_time hs = Some u"
        by (cases rule: same_type_cases) (use server_timestamps in \<open>auto simp del: IsServerTimestamp.simps\<close>)
      then obtain hs u where c: "c = map_value hs" "IsServerTimestamp (map_value hs)" "local_write_time hs = Some u" by blast
      show ?thesis using order_laws_Compare [of time_key s t u] server_timestamps c
        by (simp add: order_laws_def value_cmp_eqs(5) [OF _ _ server_timestamps(5)] value_cmp_eqs(5) [OF _ _ server_timestamps(6)]
            del: IsServerTimestamp.simps)
    qed
  qed
qed

interpretation value_order_laws: comparison well_formed "value_cmp absl" for absl
proof
  show "value_cmp absl b a = ReverseOrder (value_cmp absl a b)" if "well_formed a" "well_formed b" for a b
    using that by (rule value_reverse)
  show "value_cmp absl a c = value_cmp absl b c"
    if "well_formed a" "well_formed b" "well_formed c" "value_cmp absl a b = Same" for a b c
    using value_laws [OF that(1-3), of absl] that(4) unfolding order_laws_def by blast
  show "value_cmp absl a c = Ascending"
    if "well_formed a" "well_formed b" "well_formed c" "value_cmp absl a b = Ascending" "value_cmp absl b c = Ascending" for a b c
    using value_laws [OF that(1-3), of absl] that(4,5) unfolding order_laws_def by blast
qed

text \<open>
  C3: \<open>Compare\<close> orders the values of documents.  For any three values whose tags are set and whose
  server timestamps hold a write time, however deep their arrays and maps, the comparison gives a
  result, a value compares the same as itself, swapping the arguments reverses the result, values
  that compare the same cannot be told apart by it, and it is transitive; so sorting by it is well
  defined, for integers and doubles mixed, infinities and NaN included.
\<close>

theorem value_order:
  "well_formed a \<Longrightarrow> well_formed b \<Longrightarrow> well_formed c \<Longrightarrow>
   \<exists>ab bc ac. VCompare absl a b = Some ab \<and> VCompare absl b c = Some bc \<and> VCompare absl a c = Some ac \<and>
     VCompare absl a a = Some Same \<and> VCompare absl b a = Some (ReverseOrder ab) \<and>
     (ab = Same \<longrightarrow> ac = bc) \<and> (ab \<noteq> Descending \<and> bc \<noteq> Descending \<longrightarrow> ac \<noteq> Descending)"
proof -
  assume wf: "well_formed a" "well_formed b" "well_formed c"
  show ?thesis
    using well_formed_comparable wf value_order_laws.reflexive [OF wf(1), of absl] value_order_laws.reverse [OF wf(1,2), of absl]
      value_order_laws.same [OF wf, of absl] value_order_laws.not_descending_trans [OF wf, of absl] by simp
qed

lemma value_order_witness:
  "\<exists>ab bc ac. VCompare example_absl (integer_value 1) (double_value kNaN) = Some ab \<and>
     VCompare example_absl (double_value kNaN) (array_value [null_value]) = Some bc \<and>
     VCompare example_absl (integer_value 1) (array_value [null_value]) = Some ac \<and>
     VCompare example_absl (integer_value 1) (integer_value 1) = Some Same \<and>
     VCompare example_absl (double_value kNaN) (integer_value 1) = Some (ReverseOrder ab) \<and>
     (ab = Same \<longrightarrow> ac = bc) \<and> (ab \<noteq> Descending \<and> bc \<noteq> Descending \<longrightarrow> ac \<noteq> Descending)"
  by (rule value_order) simp_all

end
