(* ===== verification/ValueProps.thy ===== *)
theory ValueProps
  imports ValueOrder
begin

text \<open>
  Equality of values against their order, server timestamps, and reference values as the document
  keys they name.
\<close>

section \<open>Equal values compare the same\<close>

lemma isnan_kNaN [simp]: "isnan kNaN"
  by (simp add: isnan_def kNaN_def exponent_bits_def fraction_bits_def)

lemma leaf_equals:
  "is_leaf a \<Longrightarrow> well_formed a \<Longrightarrow> well_formed b \<Longrightarrow> type_of a = type_of b \<Longrightarrow> Equals a b = Some True \<Longrightarrow> leaf_cmp absl a b = Same"
  by (cases a; cases b)
    (auto simp: Equals.simps type_of_def leaf_cmp_def then_cmp_def number_key_def double_eq_def DoubleBitwiseEquals_def DoubleBits_def
      CompareBlobs_Compare Compare_simps reference_segments_def simp del: CompareBlobs.simps leaf_number.simps(2) split: if_splits)

lemma array_equals_same:
  "array_equals vs ws = Some True \<Longrightarrow> length vs = length ws \<Longrightarrow>
   (\<And>v w. v \<in> set vs \<Longrightarrow> w \<in> set ws \<Longrightarrow> Equals v w = Some True \<Longrightarrow> cmp v w = Same) \<Longrightarrow> lex_cmp cmp vs ws = Same"
proof (induction vs arbitrary: ws)
  case (Cons v vs)
  then obtain w ws' where ws: "ws = w # ws'" by (cases ws) auto
  with Cons.prems(1) have "Equals v w = Some True" "array_equals vs ws' = Some True" by (auto split: Option.bind_splits if_splits)
  then show ?case using Cons ws by (simp add: then_cmp_def)
qed simp

lemma object_equals_same:
  "object_equals fs gs = Some True \<Longrightarrow> length fs = length gs \<Longrightarrow>
   (\<And>f g. f \<in> set fs \<Longrightarrow> g \<in> set gs \<Longrightarrow> Equals (snd f) (snd g) = Some True \<Longrightarrow> value_cmp absl (snd f) (snd g) = Same) \<Longrightarrow>
   lex_cmp (entry_cmp absl) fs gs = Same"
proof (induction fs arbitrary: gs)
  case (Cons f fs)
  then obtain g gs' where gs: "gs = g # gs'" by (cases gs) auto
  obtain k v l w where p: "f = (k, v)" "g = (l, w)" by (cases f; cases g)
  with Cons.prems(1) gs have "MakeStringView k = MakeStringView l" "Equals v w = Some True" "object_equals fs gs' = Some True"
    by (auto split: Option.bind_splits if_splits)
  moreover have "value_cmp absl v w = Same" using Cons.prems(3) [of f g] gs p calculation(2) by simp
  moreover have "lex_cmp (entry_cmp absl) fs gs' = Same"
    using Cons.IH [of gs'] Cons.prems(2,3) calculation(3) gs by simp
  moreover have "entry_cmp absl f g = Same"
    using p \<open>MakeStringView k = MakeStringView l\<close> \<open>value_cmp absl v w = Same\<close> by (simp add: entry_cmp_def then_cmp_def)
  ultimately show ?case using gs by (simp add: then_cmp_def)
qed simp

lemma Equals_containers:
  "Equals (array_value vs) (array_value ws) = (if length vs \<noteq> length ws then Some False else array_equals vs ws)"
  "\<not> IsServerTimestamp (map_value fs) \<Longrightarrow> \<not> IsServerTimestamp (map_value gs) \<Longrightarrow>
   Equals (map_value fs) (map_value gs) = (if length fs \<noteq> length gs then Some False else object_equals fs gs)"
  "IsServerTimestamp (map_value fs) \<Longrightarrow> IsServerTimestamp (map_value gs) \<Longrightarrow> local_write_time fs = Some s \<Longrightarrow>
   local_write_time gs = Some t \<Longrightarrow> Equals (map_value fs) (map_value gs) = Some (s = t)"
  by (simp_all add: Equals.simps del: IsServerTimestamp.simps)

lemma Equals_Same: "well_formed a \<Longrightarrow> well_formed b \<Longrightarrow> Equals a b = Some True \<Longrightarrow> value_cmp absl a b = Same"
proof (induction a arbitrary: b rule: measure_induct_rule [of size])
  case (less a)
  have "type_of a = type_of b"
    using less.prems(3) well_formed_type [OF less.prems(1)] well_formed_type [OF less.prems(2)]
    by (subst (asm) Equals.simps) (auto split: if_splits)
  with less.prems(1,2) show ?case
  proof (cases rule: same_type_cases)
    case leaf
    have "leaf_cmp absl a b = Same" using leaf_equals leaf(1) less.prems \<open>type_of a = type_of b\<close> by blast
    then show ?thesis using value_cmp_eqs(2) [OF less.prems(1,2) \<open>type_of a = type_of b\<close> leaf(1)] by simp
  next
    case (arrays vs ws)
    have "lex_cmp (value_cmp absl) vs ws = Same"
    proof (rule array_equals_same)
      show "array_equals vs ws = Some True" "length vs = length ws"
        using less.prems(3) unfolding arrays Equals_containers by (simp_all split: if_splits)
      show "value_cmp absl v w = Same" if "v \<in> set vs" "w \<in> set ws" "Equals v w = Some True" for v w
        using less.IH [of v w] well_formed_elements less.prems(1,2) that unfolding arrays by blast
    qed
    then show ?thesis using value_cmp_eqs(3) less.prems(1,2) unfolding arrays by simp
  next
    case (maps fs gs)
    have st: "\<not> IsServerTimestamp (map_value fs)" "\<not> IsServerTimestamp (map_value gs)" using maps by blast+
    have "lex_cmp (entry_cmp absl) fs gs = Same"
    proof (rule object_equals_same)
      show "object_equals fs gs = Some True" "length fs = length gs"
        using less.prems(3) unfolding maps(1,2) Equals_containers(2) [OF st] by (simp_all split: if_splits)
      show "value_cmp absl (snd f) (snd g) = Same" if "f \<in> set fs" "g \<in> set gs" "Equals (snd f) (snd g) = Some True" for f g
        using less.IH [of "snd f" "snd g"] well_formed_fields less.prems(1,2) that maps by blast
    qed
    then show ?thesis using value_cmp_eqs(4) [OF _ _ st] less.prems(1,2) unfolding maps(1,2) by (simp del: well_formed.simps)
  next
    case (server_timestamps fs gs s t)
    have st: "IsServerTimestamp (map_value fs)" "IsServerTimestamp (map_value gs)" using server_timestamps by blast+
    have "s = t" using less.prems(3) Equals_containers(3) [OF st server_timestamps(5,6)] server_timestamps(1,2) by simp
    then show ?thesis using value_cmp_eqs(5) [OF st server_timestamps(5,6)] server_timestamps(1,2) by simp
  qed
qed

section \<open>Server timestamps\<close>

text \<open>
  Values as the code builds them: no bytes are a null pointer, and references and the keys of fields are
  not empty.  They are copied as they are.
\<close>

fun copyable :: "Value \<Rightarrow> bool" where
  "copyable (string_value s) \<longleftrightarrow> s \<noteq> Some []"
| "copyable (bytes_value s) \<longleftrightarrow> s \<noteq> Some []"
| "copyable (reference_value s) \<longleftrightarrow> s \<noteq> None \<and> s \<noteq> Some []"
| "copyable (array_value vs) \<longleftrightarrow> list_all copyable vs"
| "copyable (map_value fs) \<longleftrightarrow> list_all (\<lambda>(key, v). key \<noteq> None \<and> key \<noteq> Some [] \<and> copyable v) fs"
| "copyable v \<longleftrightarrow> True"

lemma copy_is_same:
  "copyable v \<Longrightarrow> DeepClone v = Some v"
  "list_all copyable vs \<Longrightarrow> clone_values vs = Some vs"
  "list_all (\<lambda>(key, v). key \<noteq> None \<and> key \<noteq> Some [] \<and> copyable v) fs \<Longrightarrow> clone_entries fs = Some fs"
  by (induction v and vs and fs rule: DeepClone_clone_values_clone_entries.induct)
    (auto simp: copy_bytes_def MakeBytesArray_def split: option.split if_splits)

lemmas server_timestamp_keys = MakeBytesArray_def MakeStringView_def kTypeKey_def kLocalWriteTimeKey_def
  kPreviousValueKey_def kServerTimestampSentinel_def

text \<open>One write on top of what the field holds, if anything.\<close>

lemma encode_server_timestamp:
  assumes "\<forall>p. previous = Some p \<longrightarrow> copyable p"
  shows "\<exists>v. EncodeServerTimestamp t previous = Some v \<and> copyable v \<and> IsServerTimestamp v \<and>
    GetTypeOrder v = Some kServerTimestamp \<and> GetLocalWriteTime v = Some t \<and>
    GetPreviousValue v = Option.bind previous (\<lambda>p. if IsServerTimestamp p then GetPreviousValue p else Some p)"
  using assms
  by (cases t; cases previous)
    (auto simp: EncodeServerTimestamp_def server_timestamp_keys copy_is_same Let_def GetPreviousValue.simps [of "map_value _"]
      simp del: GetPreviousValue.simps)

text \<open>Writes of the server timestamp to one field at the times \<open>ts\<close>, each on top of the one before.\<close>

definition pending_writes :: "(s64 \<times> s32) list \<Rightarrow> Value option \<Rightarrow> Value option option" where
  "pending_writes ts base = for_each (\<lambda>t previous. map_option Some (EncodeServerTimestamp t previous)) ts base"

text \<open>
  C33: Pending server timestamps read back, however many are stacked on one field: the value that
  writes at the times \<open>ts\<close> make of the field is a server timestamp, its local write time is the time of
  the last write, and its previous value is what the field held before the first, or nothing if it
  held nothing.
\<close>

theorem server_timestamp_round_trip:
  "\<forall>b. base = Some b \<longrightarrow> copyable b \<and> \<not> IsServerTimestamp b \<Longrightarrow> ts \<noteq> [] \<Longrightarrow>
   \<exists>v. pending_writes ts base = Some (Some v) \<and> GetTypeOrder v = Some kServerTimestamp \<and>
     GetLocalWriteTime v = Some (last ts) \<and> GetPreviousValue v = base"
proof -
  assume base: "\<forall>b. base = Some b \<longrightarrow> copyable b \<and> \<not> IsServerTimestamp b" and "ts \<noteq> []"
  have "\<exists>v. pending_writes ts base = Some (Some v) \<and> copyable v \<and> IsServerTimestamp v \<and> GetTypeOrder v = Some kServerTimestamp \<and>
      GetLocalWriteTime v = Some (last ts) \<and> GetPreviousValue v = base"
    using \<open>ts \<noteq> []\<close>
  proof (induction ts rule: rev_nonempty_induct)
    case (single t)
    from encode_server_timestamp [of base t] base show ?case
      by (cases base) (auto simp: pending_writes_def simp del: GetPreviousValue.simps IsServerTimestamp.simps GetTypeOrder.simps)
  next
    case (snoc t ts)
    then obtain v where v: "pending_writes ts base = Some (Some v)" "copyable v" "IsServerTimestamp v" "GetPreviousValue v = base" by blast
    from encode_server_timestamp [of "Some v" t] v show ?case
      by (auto simp: pending_writes_def for_each_append simp del: GetPreviousValue.simps IsServerTimestamp.simps GetTypeOrder.simps)
  qed
  then show ?thesis by blast
qed

lemma server_timestamp_round_trip_witness:
  "\<exists>v. pending_writes [(7, 9), (8, 1)] (Some (boolean_value True)) = Some (Some v) \<and>
     GetTypeOrder v = Some kServerTimestamp \<and> GetLocalWriteTime v = Some (8, 1) \<and>
     GetPreviousValue v = Some (boolean_value True)"
  using server_timestamp_round_trip [of "Some (boolean_value True)" "[(7, 9), (8, 1)]"]
  by (simp del: GetPreviousValue.simps GetTypeOrder.simps)

section \<open>Reference values\<close>

definition plain_segment :: "bytes \<Rightarrow> bool" where
  "plain_segment s \<longleftrightarrow> s \<noteq> [] \<and> slash \<notin> set s"

lemma split_joined:
  assumes "absl_ok absl" "ss \<noteq> []" "\<forall>s \<in> set ss. c \<notin> set s"
  shows "StrSplit absl (joined ss [c]) c = ss"
proof -
  have "StrSplit absl (joined ss [c]) c \<noteq> []" "joined (StrSplit absl (joined ss [c]) c) [c] = joined ss [c]"
    "\<forall>p \<in> set (StrSplit absl (joined ss [c]) c). c \<notin> set p" using assms(1) unfolding absl_ok_def by blast+
  then show ?thesis using joined_parts [OF _ assms(2) _ assms(3)] by blast
qed

definition database_prefix :: "bytes \<Rightarrow> bytes \<Rightarrow> bytes list" where
  "database_prefix p d = [[112, 114, 111, 106, 101, 99, 116, 115], p, [100, 97, 116, 97, 98, 97, 115, 101, 115], d,
     [100, 111, 99, 117, 109, 101, 110, 116, 115]]"

lemma RefValue_segments:
  assumes absl: "absl_ok absl" and plain: "plain_segment p" "plain_segment d" "\<forall>s \<in> set key. plain_segment s"
  obtains r where "RefValue absl p d key = reference_value r" "reference_segments absl r = database_prefix p d @ key"
proof -
  let ?parts = "database_prefix p d @ (if key = [] then [[]] else key)"
  define r where "r = MakeBytesArray (joined ?parts [slash])"
  have join: "StrJoin absl ss [slash] = joined ss [slash]" for ss using absl unfolding absl_ok_def by blast
  have "RefValue absl p d key = reference_value r"
    by (cases key) (simp_all add: RefValue_def ResourcePath_CanonicalString_def join r_def database_prefix_def)
  moreover have "MakeStringView r = joined ?parts [slash]" by (simp add: r_def MakeBytesArray_def MakeStringView_def)
  moreover have "\<forall>s \<in> set ?parts. slash \<notin> set s" using plain by (auto simp: plain_segment_def database_prefix_def)
  then have "StrSplit absl (joined ?parts [slash]) slash = ?parts" by (intro split_joined [OF absl]) (simp_all add: database_prefix_def)
  moreover have "filter (\<lambda>s. s \<noteq> []) ?parts = database_prefix p d @ key"
    using plain by (auto simp: plain_segment_def database_prefix_def filter_id_conv)
  ultimately show ?thesis using that by (simp add: reference_segments_def)
qed

lemma append_less_cancel: "xs @ ys < xs @ zs \<longleftrightarrow> ys < (zs :: 'a::linorder list)"
  by (induction xs) simp_all

lemma Compare_append: "Compare (xs @ ys) (xs @ zs :: 'a::linorder list) = Compare ys zs"
  by (simp add: Compare_def append_less_cancel)

text \<open>
  C38: A reference value stands for its document key: two references into one database compare as
  their keys do, and the canonical id of a reference is the path of its key.
\<close>

theorem reference_values_are_keys:
  "absl_ok absl \<Longrightarrow> plain_segment p \<Longrightarrow> plain_segment d \<Longrightarrow> \<forall>s \<in> set key. plain_segment s \<Longrightarrow> \<forall>s \<in> set other. plain_segment s \<Longrightarrow>
   VCompare absl (RefValue absl p d key) (RefValue absl p d other) = Some (key_CompareTo key other) \<and>
   CanonicalId absl fmt (RefValue absl p d key) = Some (ResourcePath_CanonicalString absl key)"
proof -
  assume h: "absl_ok absl" "plain_segment p" "plain_segment d" "\<forall>s \<in> set key. plain_segment s" "\<forall>s \<in> set other. plain_segment s"
  from RefValue_segments [OF h(1-4)] obtain r where r: "RefValue absl p d key = reference_value r"
    "reference_segments absl r = database_prefix p d @ key" .
  from RefValue_segments [OF h(1-3,5)] obtain q where q: "RefValue absl p d other = reference_value q"
    "reference_segments absl q = database_prefix p d @ other" .
  have "CompareContainer xs ys = Compare xs ys" for xs ys :: "bytes list"
    by (induction xs ys rule: CompareContainer.induct) (auto simp: Compare_def Let_def)
  then have "VCompare absl (reference_value r) (reference_value q) = Some (key_CompareTo key other)"
    by (simp add: VCompare.simps CompareReferences_Compare r(2) q(2) Compare_append key_CompareTo_def path_CompareTo_def)
  moreover have "CanonicalId absl fmt (reference_value r) = Some (ResourcePath_CanonicalString absl key)"
    by (simp add: CanonifyReference_def r(2) database_prefix_def HARD_ASSERT_def ResourcePath_CanonicalString_def)
  ultimately show ?thesis by (simp add: r(1) q(1))
qed

lemma reference_values_are_keys_witness:
  "VCompare example_absl (RefValue example_absl [112] [100] [[97], [98]]) (RefValue example_absl [112] [100] [[97], [99]]) =
     Some (key_CompareTo [[97], [98]] [[97], [99]]) \<and>
   CanonicalId example_absl \<lparr>FormatDouble = (\<lambda>_. []), BytesToHexString = id\<rparr> (RefValue example_absl [112] [100] [[97], [98]]) =
     Some (ResourcePath_CanonicalString example_absl [[97], [98]])"
  by (rule reference_values_are_keys [OF example_absl_ok]) (simp_all add: plain_segment_def)

end
