(* ===== verification/ObjectValues.thy ===== *)
theory ObjectValues
  imports ModelValues
begin

text \<open>
  \<open>Firestore/core/src/model/object_value.cc\<close> and \<open>model/field_mask.cc\<close>: the fields of a document as
  nested maps whose entries are kept sorted by key.  The code works in place through pointers to
  nested maps; here a pointer is the path it was found by (\<open>apply_at\<close>), and an operation gives back
  the changed value.  \<open>pb_size_t\<close> has 32 bits.
\<close>

section \<open>Entries of a map\<close>

definition entry_key :: "FieldsEntry \<Rightarrow> bytes" where
  "entry_key e = MakeStringView (fst e)"

text \<open>\<open>std::equal_range\<close> over the entries: from the first key that is not less to the first that is greater.\<close>

definition equal_range_entries :: "FieldsEntry list \<Rightarrow> bytes \<Rightarrow> FieldsEntry list" where
  "equal_range_entries fs segment = takeWhile (\<lambda>e. \<not> segment < entry_key e) (dropWhile (\<lambda>e. entry_key e < segment) fs)"

definition FindEntry :: "Value \<Rightarrow> bytes \<Rightarrow> FieldsEntry option" where
  "FindEntry v segment =
     (case v of
        map_value fs \<Rightarrow> (case equal_range_entries fs segment of [] \<Rightarrow> None | found # _ \<Rightarrow> Some found)
      | _ \<Rightarrow> None)"

definition PB_SIZE_MAX :: nat where
  "PB_SIZE_MAX = 2 ^ 32 - 1"

definition CheckedSize :: "nat \<Rightarrow> nat option" where
  "CheckedSize n = do { _ \<leftarrow> HARD_ASSERT (n \<le> PB_SIZE_MAX); Some n }"

section \<open>Changing the entries of a map\<close>

text \<open>A \<open>std::map\<close> from strings is its list of entries in order, a \<open>std::set\<close> of strings its elements in order.\<close>

type_synonym Upserts = "(bytes \<times> Value) list"
type_synonym Deletes = "bytes list"

fun string_map_insert :: "bytes \<Rightarrow> Value \<Rightarrow> Upserts \<Rightarrow> Upserts" where
  "string_map_insert k v [] = [(k, v)]"
| "string_map_insert k v ((k', v') # m) =
     (if k < k' then (k, v) # (k', v') # m else if k = k' then (k, v) # m else (k', v') # string_map_insert k v m)"

fun string_set_insert :: "bytes \<Rightarrow> Deletes \<Rightarrow> Deletes" where
  "string_set_insert k [] = [k]"
| "string_set_insert k (k' # s) = (if k < k' then k # k' # s else if k = k' then k' # s else k' # string_set_insert k s)"

definition CalculateSizeOfUnion :: "FieldsEntry list \<Rightarrow> Upserts \<Rightarrow> Deletes \<Rightarrow> nat" where
  "CalculateSizeOfUnion fs upserts deletes =
     length upserts + length (filter (\<lambda>e. entry_key e \<notin> set deletes \<and> entry_key e \<notin> fst ` set upserts) fs)"

text \<open>
  The merge loop of \<open>ApplyChanges\<close>: the rest of the source, of the deletes and of the upserts, and
  how many entries of the target are still to be written.
\<close>

function merge_changes :: "FieldsEntry list \<Rightarrow> Deletes \<Rightarrow> Upserts \<Rightarrow> nat \<Rightarrow> FieldsEntry list option" where
  "merge_changes source deletes upserts n =
     (if n = 0 then Some []
      else if source \<noteq> [] \<and> deletes \<noteq> [] \<and> hd deletes = entry_key (hd source) then
        merge_changes (tl source) (tl deletes) upserts n
      else if source \<noteq> [] \<and> upserts \<noteq> [] \<and> fst (hd upserts) = entry_key (hd source) then
        map_option ((#) (fst (hd source), SortFields (snd (hd upserts)))) (merge_changes (tl source) deletes (tl upserts) (n - 1))
      else if source \<noteq> [] \<and> (upserts = [] \<or> entry_key (hd source) < fst (hd upserts)) then
        map_option ((#) (hd source)) (merge_changes (tl source) deletes upserts (n - 1))
      else if upserts = [] then None
      else map_option ((#) (MakeBytesArray (fst (hd upserts)), SortFields (snd (hd upserts))))
        (merge_changes source deletes (tl upserts) (n - 1)))"
  by pat_completeness auto
termination
  by (relation "measure (\<lambda>(source, _, upserts, _). length source + length upserts)") (auto simp: neq_Nil_conv)

declare merge_changes.simps [simp del]

definition ApplyChanges :: "FieldsEntry list \<Rightarrow> Upserts \<Rightarrow> Deletes \<Rightarrow> FieldsEntry list option" where
  "ApplyChanges parent upserts deletes = do {
     target_count \<leftarrow> CheckedSize (CalculateSizeOfUnion parent upserts deletes);
     merge_changes parent deletes upserts target_count }"

section \<open>Object values\<close>

definition ObjectValue :: "Value \<Rightarrow> Value option" where
  "ObjectValue v = do { _ \<leftarrow> HARD_ASSERT (IsMap v); Some (SortFields v) }"

definition EmptyObjectValue :: Value where
  "EmptyObjectValue = map_value []"

fun Get :: "Value \<Rightarrow> FieldPath \<Rightarrow> Value option" where
  "Get v [] = Some v"
| "Get v (segment # path) = (case FindEntry v segment of None \<Rightarrow> None | Some e \<Rightarrow> Get (snd e) path)"

text \<open>Storing through the pointer to the entry that \<open>FindEntry\<close> found.\<close>

definition put_entry :: "FieldsEntry list \<Rightarrow> bytes \<Rightarrow> Value \<Rightarrow> FieldsEntry list" where
  "put_entry fs segment v = takeWhile (\<lambda>e. entry_key e < segment) fs @
     (case dropWhile (\<lambda>e. entry_key e < segment) fs of [] \<Rightarrow> [] | e # rest \<Rightarrow> (fst e, v) # rest)"

fun put_value :: "Value \<Rightarrow> bytes \<Rightarrow> Value \<Rightarrow> Value" where
  "put_value (map_value fs) segment v = map_value (put_entry fs segment v)"
| "put_value w segment v = w"

fun apply_at :: "Value \<Rightarrow> FieldPath \<Rightarrow> (FieldsEntry list \<Rightarrow> FieldsEntry list option) \<Rightarrow> Value option" where
  "apply_at v [] f = (case v of map_value fs \<Rightarrow> map_option map_value (f fs) | _ \<Rightarrow> None)"
| "apply_at v (segment # path) f = (case FindEntry v segment of
     None \<Rightarrow> None
   | Some e \<Rightarrow> map_option (put_value v segment) (apply_at (snd e) path f))"

fun ParentMap :: "Value \<Rightarrow> FieldPath \<Rightarrow> Value option" where
  "ParentMap parent [] = Some parent"
| "ParentMap parent (segment # path) = (case FindEntry parent segment of
     Some e \<Rightarrow>
       map_option (put_value parent segment) (ParentMap (if \<not> IsMap (snd e) then map_value [] else snd e) path)
   | None \<Rightarrow> do {
       parent \<leftarrow> apply_at parent [] (\<lambda>fs. ApplyChanges fs [(segment, map_value [])] []);
       e \<leftarrow> FindEntry parent segment;
       map_option (put_value parent segment) (ParentMap (snd e) path) })"

definition Set_field :: "Value \<Rightarrow> FieldPath \<Rightarrow> Value \<Rightarrow> Value option" where
  "Set_field obj path v = do {
     _ \<leftarrow> HARD_ASSERT (path \<noteq> []);
     parent \<leftarrow> PopLast path;
     obj \<leftarrow> ParentMap obj parent;
     name \<leftarrow> last_segment path;
     apply_at obj parent (\<lambda>fs. ApplyChanges fs [(name, v)] []) }"

text \<open>The loop of \<open>SetAll\<close> over the changes, sorted by path; no value is a deletion.\<close>

type_synonym TransformMap = "(FieldPath \<times> Value option) list"

fun set_all_loop :: "Value \<Rightarrow> FieldPath \<Rightarrow> Upserts \<Rightarrow> Deletes \<Rightarrow> TransformMap \<Rightarrow> Value option" where
  "set_all_loop obj parent upserts deletes [] = do {
     obj \<leftarrow> ParentMap obj parent;
     apply_at obj parent (\<lambda>fs. ApplyChanges fs upserts deletes) }"
| "set_all_loop obj parent upserts deletes ((path, v) # data) = do {
     (obj, parent, upserts, deletes) \<leftarrow>
       (if \<not> IsImmediateParentOf parent path then do {
          obj \<leftarrow> ParentMap obj parent;
          obj \<leftarrow> apply_at obj parent (\<lambda>fs. ApplyChanges fs upserts deletes);
          parent \<leftarrow> PopLast path;
          Some (obj, parent, [], []) }
        else Some (obj, parent, upserts, deletes));
     name \<leftarrow> last_segment path;
     (case v of
        Some v \<Rightarrow> set_all_loop obj parent (string_map_insert name v upserts) deletes data
      | None \<Rightarrow> set_all_loop obj parent upserts (string_set_insert name deletes) data) }"

definition SetAll :: "Value \<Rightarrow> TransformMap \<Rightarrow> Value option" where
  "SetAll obj data = set_all_loop obj [] [] [] data"

definition Delete_field :: "Value \<Rightarrow> FieldPath \<Rightarrow> Value option" where
  "Delete_field obj path = do {
     _ \<leftarrow> HARD_ASSERT (path \<noteq> []);
     parent \<leftarrow> PopLast path;
     name \<leftarrow> last_segment path;
     (case Get obj parent of
        None \<Rightarrow> Some obj
      | Some nested \<Rightarrow>
          if IsMap nested then apply_at obj parent (\<lambda>fs. ApplyChanges fs [] [name]) else Some obj) }"

section \<open>Field masks\<close>

definition covers :: "FieldPath set \<Rightarrow> FieldPath \<Rightarrow> bool" where
  "covers fs field_path \<longleftrightarrow> (\<exists>field_mask_path \<in> fs. IsPrefixOf field_mask_path field_path)"

function ExtractFieldMask :: "FieldsEntry list \<Rightarrow> FieldPath set" where
  "ExtractFieldMask fs = (\<Union>e \<in> set fs.
     (case snd e of
        map_value gs \<Rightarrow>
          (let nested_mask = ExtractFieldMask gs in
           if nested_mask = {} then {[entry_key e]} else (\<lambda>nested_path. Append_path [entry_key e] nested_path) ` nested_mask)
      | _ \<Rightarrow> {[entry_key e]}))"
  by auto
termination
proof (relation "measure (size_list (size_prod (\<lambda>_. 0) size))")
  fix fs gs :: "FieldsEntry list" and e
  assume "e \<in> set fs" "snd e = map_value gs"
  then have "(fst e, map_value gs) \<in> set fs" by (metis prod.collapse)
  from entry_size [OF this] show "(gs, fs) \<in> measure (size_list (size_prod (\<lambda>_. 0) size))" by simp
qed simp

declare ExtractFieldMask.simps [simp del]

definition ToFieldMask :: "Value \<Rightarrow> FieldPath set option" where
  "ToFieldMask v = (case v of map_value fs \<Rightarrow> Some (ExtractFieldMask fs) | _ \<Rightarrow> None)"

end
