(* ===== verification/Transforms.thy ===== *)
theory Transforms
  imports ObjectValues TargetCache
begin

text \<open>
  \<open>Firestore/core/src/model/transform_operation.cc\<close>: the operations that compute a field from its
  previous value: server timestamps, unions and removals of array elements, and numeric increments.
  An operation that fails an assertion has no result; \<open>Some None\<close> is the absence of a value.
\<close>

section \<open>Adding doubles\<close>

text \<open>The double nearest to \<open>n / 2 ^ 1074\<close>, ties to even, and the infinity beyond the largest.\<close>

definition round_double :: "nat \<Rightarrow> nat" where
  "round_double n =
     (let b = bit_count n; bits = (if b \<le> 53 then n else (b - 53) * 2 ^ 52 + round_shift n (b - 53)) in
      min bits (2047 * 2 ^ 52))"

definition is_infinite :: "double \<Rightarrow> bool" where
  "is_infinite d \<longleftrightarrow> exponent_bits d = 2047 \<and> fraction_bits d = 0"

definition double_add :: "double \<Rightarrow> double \<Rightarrow> double" where
  "double_add a b =
     (if isnan a \<or> isnan b then kNaN
      else if is_infinite a then (if is_infinite b \<and> negative_double a \<noteq> negative_double b then kNaN else a)
      else if is_infinite b then b
      else let z = scaled a + scaled b in
        if z = 0 then (if negative_double a \<and> negative_double b then 2 ^ 63 else 0)
        else of_nat (round_double (nat \<bar>z\<bar>) + (if z < 0 then 2 ^ 63 else 0)))"

section \<open>Transform operations\<close>

datatype TransformOperation =
    ServerTimestampTransform
  | ArrayUnion "Value list"
  | ArrayRemove "Value list"
  | NumericIncrementTransform Value

definition make_NumericIncrementTransform :: "Value \<Rightarrow> TransformOperation option" where
  "make_NumericIncrementTransform operand = do {
     _ \<leftarrow> HARD_ASSERT (IsNumber operand);
     Some (NumericIncrementTransform operand) }"

definition LONG_MAX :: s64 where "LONG_MAX = 2 ^ 63 - 1"
definition LONG_MIN :: s64 where "LONG_MIN = - (2 ^ 63)"

definition SafeIncrement :: "s64 \<Rightarrow> s64 \<Rightarrow> s64" where
  "SafeIncrement x y =
     (if 0 < sint x \<and> sint (LONG_MAX - x) < sint y then LONG_MAX
      else if sint x < 0 \<and> sint y < sint (LONG_MIN - x) then LONG_MIN
      else x + y)"

definition CoercedFieldValueArray :: "Value option \<Rightarrow> Value list option" where
  "CoercedFieldValueArray v = (case v of Some (array_value vs) \<Rightarrow> clone_values vs | _ \<Rightarrow> Some [])"

fun union_loop :: "Value list \<Rightarrow> Value list \<Rightarrow> Value list \<Rightarrow> Value list option" where
  "union_loop array new_elements [] = Some new_elements"
| "union_loop array new_elements (new_element # elems) = do {
     present \<leftarrow> Contains array new_element;
     if present then union_loop array new_elements elems
     else do {
       added \<leftarrow> Contains new_elements new_element;
       if added then union_loop array new_elements elems
       else do {
         copy \<leftarrow> DeepClone new_element;
         union_loop array (new_elements @ [copy]) elems } } }"

fun remove_loop :: "Value list \<Rightarrow> Value list \<Rightarrow> Value list option" where
  "remove_loop elems [] = Some []"
| "remove_loop elems (v # array) = do {
     removed \<leftarrow> Contains elems v;
     rest \<leftarrow> remove_loop elems array;
     Some (if removed then rest else v # rest) }"

definition array_union :: "Value list \<Rightarrow> Value option \<Rightarrow> Value option" where
  "array_union elems previous_value = do {
     array \<leftarrow> CoercedFieldValueArray previous_value;
     new_elements \<leftarrow> union_loop array [] elems;
     Some (array_value (array @ new_elements)) }"

definition array_remove :: "Value list \<Rightarrow> Value option \<Rightarrow> Value option" where
  "array_remove elems previous_value = do {
     array \<leftarrow> CoercedFieldValueArray previous_value;
     rest \<leftarrow> remove_loop elems array;
     Some (array_value rest) }"

definition OperandAsDouble :: "Value \<Rightarrow> double option" where
  "OperandAsDouble operand = (case operand of
     double_value d \<Rightarrow> Some d
   | integer_value i \<Rightarrow> Some (int64_to_double i)
   | _ \<Rightarrow> None)"

definition increment_base :: "Value option \<Rightarrow> Value option" where
  "increment_base previous_value = (case previous_value of
     Some v \<Rightarrow> if IsNumber v then DeepClone v else Some (integer_value 0)
   | None \<Rightarrow> Some (integer_value 0))"

definition increment_ApplyToLocalView :: "Value \<Rightarrow> Value option \<Rightarrow> Value option" where
  "increment_ApplyToLocalView operand previous_value = do {
     base_value \<leftarrow> increment_base previous_value;
     (case (base_value, operand) of
        (integer_value b, integer_value n) \<Rightarrow> Some (integer_value (SafeIncrement b n))
      | (integer_value b, _) \<Rightarrow> do {
          n \<leftarrow> OperandAsDouble operand;
          Some (double_value (double_add (int64_to_double b) n)) }
      | (double_value b, _) \<Rightarrow> do {
          n \<leftarrow> OperandAsDouble operand;
          Some (double_value (double_add b n)) }
      | _ \<Rightarrow> None) }"

definition transform_ApplyToLocalView :: "TransformOperation \<Rightarrow> Value option \<Rightarrow> Timestamp \<Rightarrow> Value option" where
  "transform_ApplyToLocalView transform previous_value local_time = (case transform of
     ServerTimestampTransform \<Rightarrow> EncodeServerTimestamp (seconds local_time, nanoseconds local_time) previous_value
   | ArrayUnion elems \<Rightarrow> array_union elems previous_value
   | ArrayRemove elems \<Rightarrow> array_remove elems previous_value
   | NumericIncrementTransform operand \<Rightarrow> increment_ApplyToLocalView operand previous_value)"

definition transform_ApplyToRemoteDocument :: "TransformOperation \<Rightarrow> Value option \<Rightarrow> Value \<Rightarrow> Value option" where
  "transform_ApplyToRemoteDocument transform previous_value transform_result = (case transform of
     ServerTimestampTransform \<Rightarrow> Some transform_result
   | ArrayUnion elems \<Rightarrow> array_union elems previous_value
   | ArrayRemove elems \<Rightarrow> array_remove elems previous_value
   | NumericIncrementTransform operand \<Rightarrow> Some transform_result)"

definition ComputeBaseValue :: "TransformOperation \<Rightarrow> Value option \<Rightarrow> Value option option" where
  "ComputeBaseValue transform previous_value = (case transform of
     NumericIncrementTransform operand \<Rightarrow> map_option Some (increment_base previous_value)
   | _ \<Rightarrow> Some None)"

fun transform_Equals :: "TransformOperation \<Rightarrow> TransformOperation \<Rightarrow> bool option" where
  "transform_Equals ServerTimestampTransform ServerTimestampTransform = Some True"
| "transform_Equals (ArrayUnion elems) (ArrayUnion other) =
     (if length other \<noteq> length elems then Some False else array_equals other elems)"
| "transform_Equals (ArrayRemove elems) (ArrayRemove other) =
     (if length other \<noteq> length elems then Some False else array_equals other elems)"
| "transform_Equals (NumericIncrementTransform operand) (NumericIncrementTransform other) = Equals operand other"
| "transform_Equals _ _ = Some False"

section \<open>Increments saturate\<close>

lemma sint_bounds64: "- (2 ^ 63) \<le> sint (x :: s64)" "sint (x :: s64) < 2 ^ 63"
  using sint_range_size [of x] by (simp_all add: word_size)

lemma sint_of_int64: "- (2 ^ 63) \<le> i \<Longrightarrow> i < 2 ^ 63 \<Longrightarrow> sint (word_of_int i :: s64) = i"
  by (simp add: sint_sbintrunc' signed_take_bit_int_eq_self)

lemma sint_limits: "sint LONG_MAX = 2 ^ 63 - 1" "sint LONG_MIN = - (2 ^ 63)"
  by (simp_all add: LONG_MAX_def LONG_MIN_def)

lemma sint_add64: "- (2 ^ 63) \<le> sint x + sint y \<Longrightarrow> sint x + sint y < 2 ^ 63 \<Longrightarrow> sint (x + y :: s64) = sint x + sint y"
  using sint_of_int64 [of "sint x + sint y"] by (simp add: of_int_add)

lemma sint_sub64: "- (2 ^ 63) \<le> sint x - sint y \<Longrightarrow> sint x - sint y < 2 ^ 63 \<Longrightarrow> sint (x - y :: s64) = sint x - sint y"
  using sint_of_int64 [of "sint x - sint y"] by (simp add: of_int_diff)

lemma SafeIncrement_saturates: "sint (SafeIncrement b n) = max (- (2 ^ 63)) (min (2 ^ 63 - 1) (sint b + sint n))"
proof -
  note bounds = sint_bounds64 [of b] sint_bounds64 [of n]
  consider "0 < sint b" | "sint b < 0" | "sint b = 0" by linarith
  then show ?thesis
  proof cases
    case 1
    then have "sint (LONG_MAX - b) = 2 ^ 63 - 1 - sint b" using bounds by (subst sint_sub64) (simp_all add: sint_limits)
    then show ?thesis using 1 bounds sint_add64 [of b n] sint_limits unfolding SafeIncrement_def by (auto simp: max_def min_def)
  next
    case 2
    then have "sint (LONG_MIN - b) = - (2 ^ 63) - sint b" using bounds by (subst sint_sub64) (simp_all add: sint_limits)
    then show ?thesis using 2 bounds sint_add64 [of b n] sint_limits unfolding SafeIncrement_def by (auto simp: max_def min_def)
  next
    case 3
    then show ?thesis using bounds sint_add64 [of b n] unfolding SafeIncrement_def by (auto simp: max_def min_def)
  qed
qed

text \<open>
  C39: The increment of an integer field by an integer saturates: the result is the exact sum, or the
  nearest end of the 64-bit range where the sum lies outside; neither the sum nor the two bounds it
  is tested against wrap around.  A field that is missing or not a number counts as zero.
\<close>

theorem increment_saturates:
  "transform_ApplyToLocalView (NumericIncrementTransform (integer_value n)) previous t =
   (case previous of
      Some (double_value d) \<Rightarrow> Some (double_value (double_add d (int64_to_double n)))
    | _ \<Rightarrow> Some (integer_value (word_of_int (max (- (2 ^ 63)) (min (2 ^ 63 - 1)
        ((case previous of Some (integer_value b) \<Rightarrow> sint b | _ \<Rightarrow> 0) + sint n))))))"
proof -
  have sum: "SafeIncrement b n = word_of_int (max (- (2 ^ 63)) (min (2 ^ 63 - 1) (sint b + sint n)))" for b
    unfolding SafeIncrement_saturates [symmetric] by simp
  have zero: "SafeIncrement 0 n = word_of_int (max (- (2 ^ 63)) (min (2 ^ 63 - 1) (0 + sint n)))" using sum [of 0] by simp
  show ?thesis
    by (cases previous; cases "the previous")
      (simp_all add: transform_ApplyToLocalView_def increment_ApplyToLocalView_def increment_base_def IsNumber_def
        OperandAsDouble_def sum zero)
qed

end
