(* ===== verification/ObjectSpec.thy ===== *)
theory ObjectSpec
  imports ObjectValues "HOL-Library.Multiset"
begin

text \<open>
  Object values as finite maps: the merge of \<open>ApplyChanges\<close> is the update of a map, and setting and
  deleting a field change what is found at its path and nothing apart from it.
\<close>

section \<open>Sorted entries\<close>

abbreviation entry_keys :: "FieldsEntry list \<Rightarrow> bytes list" where
  "entry_keys fs \<equiv> map entry_key fs"

definition entries_sorted :: "FieldsEntry list \<Rightarrow> bool" where
  "entries_sorted fs \<longleftrightarrow> sorted_wrt (<) (entry_keys fs)"

definition lookup_entry :: "FieldsEntry list \<Rightarrow> bytes \<Rightarrow> Value option" where
  "lookup_entry fs = map_of (map (\<lambda>e. (entry_key e, snd e)) fs)"

lemma entries_sorted_simps [simp]:
  "entries_sorted []" "entries_sorted (e # fs) \<longleftrightarrow> (\<forall>f \<in> set fs. entry_key e < entry_key f) \<and> entries_sorted fs"
  by (auto simp: entries_sorted_def)

lemma lookup_entry_simps [simp]:
  "lookup_entry [] s = None" "lookup_entry (e # fs) s = (if s = entry_key e then Some (snd e) else lookup_entry fs s)"
  by (simp_all add: lookup_entry_def)

lemma lookup_entry_None: "lookup_entry fs s = None \<longleftrightarrow> s \<notin> entry_key ` set fs"
  by (induction fs) auto

lemma entry_key_pair [simp]: "entry_key (MakeBytesArray k, v) = k"
  by (simp add: entry_key_def MakeBytesArray_def MakeStringView_def)

lemma entry_key_fst [simp]: "entry_key (fst e, v) = entry_key e"
  by (simp add: entry_key_def)

section \<open>The merge is the update of a map\<close>

definition changed_map :: "(bytes \<Rightarrow> Value option) \<Rightarrow> Upserts \<Rightarrow> Deletes \<Rightarrow> bytes \<Rightarrow> Value option" where
  "changed_map m upserts deletes s =
     (case map_of upserts s of
        Some v \<Rightarrow> Some (SortFields v)
      | None \<Rightarrow> if s \<in> set deletes then None else m s)"

lemma map_of_sorted_None: "\<forall>x \<in> set xs. k < fst x \<Longrightarrow> map_of xs (k::'k::order) = None"
  by (auto simp: map_of_eq_None_iff)

lemma size_delete:
  "entries_sorted (e # source) \<Longrightarrow> CalculateSizeOfUnion (e # source) upserts (entry_key e # deletes) = CalculateSizeOfUnion source upserts deletes"
  by (auto simp: CalculateSizeOfUnion_def intro!: arg_cong [where f = length] filter_cong)

lemma size_update:
  "entries_sorted (e # source) \<Longrightarrow>
   CalculateSizeOfUnion (e # source) ((entry_key e, v) # upserts) deletes = Suc (CalculateSizeOfUnion source upserts deletes)"
  by (auto simp: CalculateSizeOfUnion_def intro!: arg_cong [where f = length] filter_cong)

lemma size_keep:
  "entry_key e \<notin> set deletes \<Longrightarrow> entry_key e \<notin> fst ` set upserts \<Longrightarrow>
   CalculateSizeOfUnion (e # source) upserts deletes = Suc (CalculateSizeOfUnion source upserts deletes)"
  by (simp add: CalculateSizeOfUnion_def)

lemma size_insert:
  "k \<notin> entry_key ` set source \<Longrightarrow>
   CalculateSizeOfUnion source ((k, v) # upserts) deletes = Suc (CalculateSizeOfUnion source upserts deletes)"
  by (auto simp: CalculateSizeOfUnion_def intro!: arg_cong [where f = length] filter_cong)

lemma size_zero: "CalculateSizeOfUnion source upserts deletes = 0 \<Longrightarrow> upserts = [] \<and> entry_key ` set source \<subseteq> set deletes"
  by (auto simp: CalculateSizeOfUnion_def filter_empty_conv)

definition merge_result :: "FieldsEntry list \<Rightarrow> Deletes \<Rightarrow> Upserts \<Rightarrow> FieldsEntry list \<Rightarrow> bool" where
  "merge_result source deletes upserts r \<longleftrightarrow>
     entries_sorted r \<and> entry_key ` set r = (entry_key ` set source - set deletes) \<union> fst ` set upserts \<and>
     lookup_entry r = changed_map (lookup_entry source) upserts deletes"

lemma merge_result_delete:
  assumes "merge_result source deletes upserts r" "entries_sorted (e # source)"
    "sorted_wrt (<) (entry_key e # deletes)" "entry_key e \<notin> fst ` set upserts"
  shows "merge_result (e # source) (entry_key e # deletes) upserts r"
proof -
  have fresh: "entry_key e \<notin> entry_key ` set source" using assms(2) by auto
  then have "entry_key ` set (e # source) - set (entry_key e # deletes) = entry_key ` set source - set deletes" by auto
  moreover have "changed_map (lookup_entry (e # source)) upserts (entry_key e # deletes) = changed_map (lookup_entry source) upserts deletes"
    using fresh assms(4) lookup_entry_None [of source "entry_key e"] by (auto simp: changed_map_def split: option.split)
  ultimately show ?thesis using assms(1) unfolding merge_result_def by presburger
qed

lemma merge_result_update:
  assumes "merge_result source deletes upserts r" "entries_sorted (e # source)"
    "sorted_wrt (<) (map fst ((entry_key e, v) # upserts))" "entry_key e \<notin> set deletes"
  shows "merge_result (e # source) deletes ((entry_key e, v) # upserts) ((fst e, SortFields v) # r)"
proof -
  have "\<forall>f \<in> set r. entry_key e < entry_key f"
  proof
    fix f assume "f \<in> set r"
    then have "entry_key f \<in> entry_key ` set source \<union> fst ` set upserts" using assms(1) unfolding merge_result_def by blast
    then show "entry_key e < entry_key f" using assms(2,3) by auto
  qed
  moreover have "lookup_entry ((fst e, SortFields v) # r) = changed_map (lookup_entry (e # source)) ((entry_key e, v) # upserts) deletes"
    using assms(1) by (auto simp: merge_result_def changed_map_def split: option.split)
  ultimately show ?thesis using assms(1,4) by (auto simp: merge_result_def)
qed

lemma merge_result_keep:
  assumes "merge_result source deletes upserts r" "entries_sorted (e # source)"
    "\<forall>u \<in> set upserts. entry_key e < fst u" "entry_key e \<notin> set deletes"
  shows "merge_result (e # source) deletes upserts (e # r)"
proof -
  have "\<forall>f \<in> set r. entry_key e < entry_key f"
  proof
    fix f assume "f \<in> set r"
    then have "entry_key f \<in> entry_key ` set source \<union> fst ` set upserts" using assms(1) unfolding merge_result_def by blast
    then show "entry_key e < entry_key f" using assms(2,3) by auto
  qed
  moreover have "lookup_entry (e # r) = changed_map (lookup_entry (e # source)) upserts deletes"
    using assms(1,4) map_of_sorted_None [OF assms(3)] by (auto simp: merge_result_def changed_map_def split: option.split)
  ultimately show ?thesis using assms(1,4) by (auto simp: merge_result_def)
qed

lemma merge_result_insert:
  assumes "merge_result source deletes upserts r" "\<forall>f \<in> set source. k < entry_key f"
    "sorted_wrt (<) (map fst ((k, v) # upserts))"
  shows "merge_result source deletes ((k, v) # upserts) ((MakeBytesArray k, SortFields v) # r)"
proof -
  have "\<forall>f \<in> set r. k < entry_key f"
  proof
    fix f assume "f \<in> set r"
    then have "entry_key f \<in> entry_key ` set source \<union> fst ` set upserts" using assms(1) unfolding merge_result_def by blast
    then show "k < entry_key f" using assms(2,3) by auto
  qed
  moreover have "lookup_entry ((MakeBytesArray k, SortFields v) # r) = changed_map (lookup_entry source) ((k, v) # upserts) deletes"
    using assms(1) by (auto simp: merge_result_def changed_map_def split: option.split)
  ultimately show ?thesis using assms(1) by (auto simp: merge_result_def)
qed

lemma merge_steps:
  "merge_changes source deletes upserts 0 = Some []"
  "merge_changes (e # src) (entry_key e # dels) upserts (Suc n) = merge_changes src dels upserts (Suc n)"
  "dels = [] \<or> hd dels \<noteq> entry_key e \<Longrightarrow> merge_changes (e # src) dels ((entry_key e, v) # ups) (Suc n) =
     map_option ((#) (fst e, SortFields v)) (merge_changes src dels ups n)"
  "dels = [] \<or> hd dels \<noteq> entry_key e \<Longrightarrow> upserts = [] \<or> entry_key e < fst (hd upserts) \<Longrightarrow>
     merge_changes (e # src) dels upserts (Suc n) = map_option ((#) e) (merge_changes src dels upserts n)"
  "source = [] \<or> k < entry_key (hd source) \<and> (dels = [] \<or> hd dels \<noteq> entry_key (hd source)) \<Longrightarrow>
     merge_changes source dels ((k, v) # ups) (Suc n) = map_option ((#) (MakeBytesArray k, SortFields v)) (merge_changes source dels ups n)"
  by (subst merge_changes.simps, (auto; fail))+

lemma head_not_deleted:
  assumes "entries_sorted (e # src)" "sorted_wrt (<) dels" "set dels \<subseteq> entry_key ` set (e # src)" "dels = [] \<or> hd dels \<noteq> entry_key e"
  shows "entry_key e \<notin> set dels" "set dels \<subseteq> entry_key ` set src"
proof -
  show "entry_key e \<notin> set dels"
  proof (cases dels)
    case (Cons d ds)
    then have "entry_key e < d" using assms by auto
    with Cons assms(2) show ?thesis by auto
  qed simp
  then show "set dels \<subseteq> entry_key ` set src" using assms(3) by auto
qed

text \<open>The merge, when every deleted key is in the source.\<close>

definition merge_ok :: "FieldsEntry list \<Rightarrow> Deletes \<Rightarrow> Upserts \<Rightarrow> bool" where
  "merge_ok source deletes upserts \<longleftrightarrow>
     (\<exists>r. merge_changes source deletes upserts (CalculateSizeOfUnion source upserts deletes) = Some r \<and>
       merge_result source deletes upserts r)"

lemma merge_ok_steps:
  "CalculateSizeOfUnion source upserts deletes = 0 \<Longrightarrow> merge_ok source deletes upserts"
  "merge_ok src dels upserts \<Longrightarrow> entries_sorted (e # src) \<Longrightarrow> sorted_wrt (<) (entry_key e # dels) \<Longrightarrow>
   entry_key e \<notin> fst ` set upserts \<Longrightarrow> CalculateSizeOfUnion (e # src) upserts (entry_key e # dels) \<noteq> 0 \<Longrightarrow>
   merge_ok (e # src) (entry_key e # dels) upserts"
  "merge_ok src dels ups \<Longrightarrow> entries_sorted (e # src) \<Longrightarrow> sorted_wrt (<) (map fst ((entry_key e, v) # ups)) \<Longrightarrow>
   entry_key e \<notin> set dels \<Longrightarrow> merge_ok (e # src) dels ((entry_key e, v) # ups)"
  "merge_ok src dels upserts \<Longrightarrow> entries_sorted (e # src) \<Longrightarrow> \<forall>u \<in> set upserts. entry_key e < fst u \<Longrightarrow>
   entry_key e \<notin> set dels \<Longrightarrow> merge_ok (e # src) dels upserts"
  "merge_ok source dels ups \<Longrightarrow> \<forall>f \<in> set source. k < entry_key f \<Longrightarrow> sorted_wrt (<) (map fst ((k, v) # ups)) \<Longrightarrow>
   source = [] \<or> dels = [] \<or> hd dels \<noteq> entry_key (hd source) \<Longrightarrow> merge_ok source dels ((k, v) # ups)"
proof -
  show "merge_ok source deletes upserts" if z: "CalculateSizeOfUnion source upserts deletes = 0"
  proof -
    have "lookup_entry source s = None" if "s \<notin> set deletes" for s using that size_zero [OF z] by (auto simp: lookup_entry_None)
    then have "merge_result source deletes upserts []" using size_zero [OF z] by (auto simp: merge_result_def changed_map_def)
    with z show ?thesis by (simp add: merge_ok_def merge_steps(1))
  qed
  show "merge_ok (e # src) (entry_key e # dels) upserts"
    if h: "merge_ok src dels upserts" "entries_sorted (e # src)" "sorted_wrt (<) (entry_key e # dels)"
      "entry_key e \<notin> fst ` set upserts" "CalculateSizeOfUnion (e # src) upserts (entry_key e # dels) \<noteq> 0"
  proof -
    obtain m where m: "CalculateSizeOfUnion src upserts dels = Suc m"
      using h(5) size_delete [OF h(2)] by (cases "CalculateSizeOfUnion src upserts dels") auto
    with h(1) obtain r where "merge_changes src dels upserts (Suc m) = Some r" "merge_result src dels upserts r"
      by (auto simp: merge_ok_def)
    then show ?thesis using merge_result_delete [OF _ h(2,3,4)] m size_delete [OF h(2)] by (simp add: merge_ok_def merge_steps(2))
  qed
  show "merge_ok (e # src) dels ((entry_key e, v) # ups)"
    if "merge_ok src dels ups" "entries_sorted (e # src)" "sorted_wrt (<) (map fst ((entry_key e, v) # ups))" "entry_key e \<notin> set dels"
  proof -
    have "dels = [] \<or> hd dels \<noteq> entry_key e" using that(4) by (cases dels) auto
    from merge_steps(3) [OF this] size_update [OF that(2)] merge_result_update [OF _ that(2,3,4)] that(1)
    show ?thesis by (auto simp: merge_ok_def)
  qed
  show "merge_ok (e # src) dels upserts"
    if "merge_ok src dels upserts" "entries_sorted (e # src)" "\<forall>u \<in> set upserts. entry_key e < fst u" "entry_key e \<notin> set dels"
  proof -
    have d: "dels = [] \<or> hd dels \<noteq> entry_key e" using that(4) by (cases dels) auto
    have u: "upserts = [] \<or> entry_key e < fst (hd upserts)" "entry_key e \<notin> fst ` set upserts"
      using that(3) by (cases upserts; force)+
    from merge_steps(4) [OF d u(1)] size_keep [OF that(4) u(2)] merge_result_keep [OF _ that(2,3,4)] that(1)
    show ?thesis by (auto simp: merge_ok_def)
  qed
  show "merge_ok source dels ((k, v) # ups)"
    if "merge_ok source dels ups" "\<forall>f \<in> set source. k < entry_key f" "sorted_wrt (<) (map fst ((k, v) # ups))"
      "source = [] \<or> dels = [] \<or> hd dels \<noteq> entry_key (hd source)"
  proof -
    have d: "source = [] \<or> k < entry_key (hd source) \<and> (dels = [] \<or> hd dels \<noteq> entry_key (hd source))"
      using that(2,4) by (cases source) auto
    have fresh: "k \<notin> entry_key ` set source" using that(2) by auto
    from merge_steps(5) [OF d] size_insert [OF fresh] merge_result_insert [OF _ that(2,3)] that(1)
    show ?thesis by (auto simp: merge_ok_def)
  qed
qed

lemma merge_changes_correct:
  "entries_sorted source \<Longrightarrow> sorted_wrt (<) deletes \<Longrightarrow> sorted_wrt (<) (map fst upserts) \<Longrightarrow>
   set deletes \<subseteq> entry_key ` set source \<Longrightarrow> set deletes \<inter> fst ` set upserts = {} \<Longrightarrow> merge_ok source deletes upserts"
proof (induction "length source + length upserts" arbitrary: source deletes upserts rule: less_induct)
  case less
  note prems = less.prems
  show ?case
  proof (cases source)
    case Nil
    show ?thesis
    proof (cases upserts)
      case Nil
      with \<open>source = []\<close> show ?thesis by (intro merge_ok_steps(1)) (simp add: CalculateSizeOfUnion_def)
    next
      case (Cons u ups)
      then have "merge_ok source deletes ups" using less.hyps [of source ups deletes] prems Nil by auto
      then show ?thesis unfolding Cons using prems Nil Cons
        by (cases u) (auto intro!: merge_ok_steps(5))
    qed
  next
    case source: (Cons e src)
    show ?thesis
    proof (cases "deletes \<noteq> [] \<and> hd deletes = entry_key e")
      case True
      then obtain dels where deletes: "deletes = entry_key e # dels" by (cases deletes) auto
      have "set dels \<subseteq> entry_key ` set src" using prems(2,4) unfolding source deletes by auto
      then have "merge_ok src dels upserts" using less.hyps [of src upserts dels] prems unfolding source deletes by simp
      moreover have "entry_key e \<notin> fst ` set upserts" using prems(5) unfolding deletes by auto
      ultimately show ?thesis using merge_ok_steps(1) merge_ok_steps(2) prems(1,2) unfolding source deletes by blast
    next
      case False
      then have "deletes = [] \<or> hd deletes \<noteq> entry_key e" by blast
      from head_not_deleted [OF _ prems(2) _ this, of src] have del: "entry_key e \<notin> set deletes" "set deletes \<subseteq> entry_key ` set src"
        using prems(1,4) unfolding source by auto
      show ?thesis
      proof (cases upserts)
        case Nil
        have "merge_ok src deletes upserts" using less.hyps [of src upserts deletes] prems del source by auto
        then show ?thesis unfolding source by (rule merge_ok_steps(4)) (use prems source del Nil in auto)
      next
        case upserts: (Cons u ups)
        consider "fst u = entry_key e" | "entry_key e < fst u" | "fst u < entry_key e" by fastforce
        then show ?thesis
        proof cases
          case 1
          then obtain v where u: "u = (entry_key e, v)" by (cases u) auto
          have "merge_ok src deletes ups" using less.hyps [of src ups deletes] prems del unfolding source upserts by auto
          then show ?thesis unfolding source upserts u by (rule merge_ok_steps(3)) (use prems source upserts u del in auto)
        next
          case 2
          have "merge_ok src deletes upserts" using less.hyps [of src upserts deletes] prems del source by auto
          then show ?thesis unfolding source by (rule merge_ok_steps(4)) (use prems source upserts del 2 in auto)
        next
          case 3
          obtain k v where u: "u = (k, v)" by (cases u)
          have "merge_ok source deletes ups" using less.hyps [of source ups deletes] prems unfolding upserts by auto
          then show ?thesis unfolding upserts u by (rule merge_ok_steps(5)) (use prems source upserts u 3 False in auto)
        qed
      qed
    qed
  qed
qed

text \<open>
  C6: \<open>ApplyChanges\<close> is the update of a map.  When the entries are sorted and every deleted key is
  among them, the merge loop ends with exactly the entries it has counted: the result is sorted,
  holds every upsert (with its own fields sorted), none of the deleted keys, and every other entry
  as it was.
\<close>

theorem changes_update_map:
  "entries_sorted fs \<Longrightarrow> sorted_wrt (<) deletes \<Longrightarrow> sorted_wrt (<) (map fst upserts) \<Longrightarrow>
   set deletes \<subseteq> entry_key ` set fs \<Longrightarrow> set deletes \<inter> fst ` set upserts = {} \<Longrightarrow>
   length fs + length upserts \<le> PB_SIZE_MAX \<Longrightarrow>
   \<exists>gs. ApplyChanges fs upserts deletes = Some gs \<and> entries_sorted gs \<and>
     (\<forall>s. lookup_entry gs s = (case map_of upserts s of
        Some v \<Rightarrow> Some (SortFields v)
      | None \<Rightarrow> if s \<in> set deletes then None else lookup_entry fs s))"
proof -
  assume sorted: "entries_sorted fs" "sorted_wrt (<) deletes" "sorted_wrt (<) (map fst upserts)"
    "set deletes \<subseteq> entry_key ` set fs" "set deletes \<inter> fst ` set upserts = {}"
    and size: "length fs + length upserts \<le> PB_SIZE_MAX"
  have "CalculateSizeOfUnion fs upserts deletes \<le> length upserts + length fs"
    unfolding CalculateSizeOfUnion_def by simp
  then have "CheckedSize (CalculateSizeOfUnion fs upserts deletes) = Some (CalculateSizeOfUnion fs upserts deletes)"
    using size by (simp add: CheckedSize_def HARD_ASSERT_def)
  moreover have "merge_ok fs deletes upserts" using sorted by (rule merge_changes_correct)
  ultimately show ?thesis by (auto simp: ApplyChanges_def merge_ok_def merge_result_def changed_map_def)
qed

lemma changes_update_map_witness:
  "\<exists>gs. ApplyChanges [(Some [98], null_value), (Some [99], null_value)] [([97], null_value)] [[98]] = Some gs \<and> entries_sorted gs \<and>
     (\<forall>s. lookup_entry gs s = (case map_of [([97], null_value)] s of
        Some v \<Rightarrow> Some (SortFields v)
      | None \<Rightarrow> if s \<in> set [[98]] then None else lookup_entry [(Some [98], null_value), (Some [99], null_value)] s))"
  by (rule changes_update_map) (simp_all add: entry_key_def MakeStringView_def PB_SIZE_MAX_def)

lemma changes_with_absent_delete:
  assumes "a < b" "b < c"
  shows "ApplyChanges [(Some b, x), (Some c, y)] [] (string_set_insert b [a]) = Some [(Some b, x)]"
proof -
  have key: "entry_key (Some k, v) = k" for k v by (simp add: entry_key_def MakeStringView_def)
  have ne: "a \<noteq> b" "a \<noteq> c" "b \<noteq> c" "\<not> b < a" using assms by auto
  have size: "CalculateSizeOfUnion [(Some b, x), (Some c, y)] [] [a, b] = 1" using ne by (simp add: CalculateSizeOfUnion_def key)
  have "merge_changes [(Some b, x), (Some c, y)] [a, b] [] 1 = Some [(Some b, x)]"
    using ne by (simp add: merge_changes.simps key)
  then show ?thesis using ne by (simp add: ApplyChanges_def size CheckedSize_def HARD_ASSERT_def PB_SIZE_MAX_def)
qed

lemmas set_all_steps = SetAll_def IsImmediateParentOf_def last_segment_def HARD_ASSERT_def

lemma set_all_with_absent_delete:
  "a < b \<Longrightarrow> b < c \<Longrightarrow>
   SetAll (map_value [(Some b, x), (Some c, y)]) [([a], None), ([b], None)] = Some (map_value [(Some b, x)])"
  by (simp add: set_all_steps changes_with_absent_delete del: string_set_insert.simps(2))

section \<open>Deletes of absent keys\<close>

abbreviation at_delete :: "FieldsEntry list \<Rightarrow> Deletes \<Rightarrow> bool" where
  "at_delete source deletes \<equiv> source \<noteq> [] \<and> deletes \<noteq> [] \<and> hd deletes = entry_key (hd source)"

abbreviation at_update :: "FieldsEntry list \<Rightarrow> Upserts \<Rightarrow> bool" where
  "at_update source upserts \<equiv> source \<noteq> [] \<and> upserts \<noteq> [] \<and> fst (hd upserts) = entry_key (hd source)"

abbreviation at_keep :: "FieldsEntry list \<Rightarrow> Upserts \<Rightarrow> bool" where
  "at_keep source upserts \<equiv> source \<noteq> [] \<and> (upserts = [] \<or> entry_key (hd source) < fst (hd upserts))"

lemma merge_at:
  assumes "n \<noteq> 0"
  shows "at_delete source deletes \<Longrightarrow> merge_changes source deletes upserts n = merge_changes (tl source) (tl deletes) upserts n"
    "\<not> at_delete source deletes \<Longrightarrow> at_update source upserts \<Longrightarrow> merge_changes source deletes upserts n =
       map_option ((#) (fst (hd source), SortFields (snd (hd upserts)))) (merge_changes (tl source) deletes (tl upserts) (n - 1))"
    "\<not> at_delete source deletes \<Longrightarrow> \<not> at_update source upserts \<Longrightarrow> at_keep source upserts \<Longrightarrow>
       merge_changes source deletes upserts n = map_option ((#) (hd source)) (merge_changes (tl source) deletes upserts (n - 1))"
    "\<not> at_delete source deletes \<Longrightarrow> \<not> at_update source upserts \<Longrightarrow> \<not> at_keep source upserts \<Longrightarrow>
       merge_changes source deletes upserts n = (if upserts = [] then None
         else map_option ((#) (MakeBytesArray (fst (hd upserts)), SortFields (snd (hd upserts)))) (merge_changes source deletes (tl upserts) (n - 1)))"
proof -
  assume h: "at_delete source deletes"
  show "merge_changes source deletes upserts n = merge_changes (tl source) (tl deletes) upserts n"
    by (subst merge_changes.simps) (use assms h in simp)
next
  assume h: "\<not> at_delete source deletes"
  { assume "at_update source upserts"
    with assms h show "merge_changes source deletes upserts n =
        map_option ((#) (fst (hd source), SortFields (snd (hd upserts)))) (merge_changes (tl source) deletes (tl upserts) (n - 1))"
      by (subst merge_changes.simps) (simp only: if_False if_True simp_thms) }
  assume u: "\<not> at_update source upserts"
  { assume "at_keep source upserts"
    with assms h u show "merge_changes source deletes upserts n = map_option ((#) (hd source)) (merge_changes (tl source) deletes upserts (n - 1))"
      by (subst merge_changes.simps) (simp only: if_False if_True simp_thms) }
  assume "\<not> at_keep source upserts"
  with assms h u show "merge_changes source deletes upserts n = (if upserts = [] then None
      else map_option ((#) (MakeBytesArray (fst (hd upserts)), SortFields (snd (hd upserts)))) (merge_changes source deletes (tl upserts) (n - 1)))"
    by (subst merge_changes.simps) (simp only: if_False if_True simp_thms)
qed

lemma merge_blocked:
  "d \<notin> entry_key ` set source \<Longrightarrow>
   merge_changes source (present @ d # rest) upserts n = merge_changes source present upserts n"
proof (induction source present upserts n rule: merge_changes.induct)
  case (1 source present upserts n)
  have d: "at_delete source (present @ d # rest) \<longleftrightarrow> at_delete source present" "d \<notin> entry_key ` set (tl source)"
    using "1.prems" by (cases source; cases present; auto)+
  show ?case
  proof (cases "n = 0")
    case n: False
    note at = merge_at [OF n, of source "present @ d # rest" upserts, unfolded d(1)] merge_at [OF n, of source present upserts]
    consider (del) "at_delete source present" | (upd) "\<not> at_delete source present" "at_update source upserts"
      | (keep) "\<not> at_delete source present" "\<not> at_update source upserts" "at_keep source upserts"
      | (ins) "\<not> at_delete source present" "\<not> at_update source upserts" "\<not> at_keep source upserts" by blast
    then show ?thesis
    proof cases
      case del
      then have "tl (present @ d # rest) = tl present @ d # rest" by (cases present) auto
      with at(1,5) [OF del] "1.IH"(1) [OF n del d(2)] show ?thesis by simp
    next
      case upd
      from at(2,6) [OF upd] "1.IH"(2) [OF n upd d(2)] show ?thesis by simp
    next
      case keep
      from at(3,7) [OF keep] "1.IH"(3) [OF n keep d(2)] show ?thesis by simp
    next
      case ins
      from at(4,8) [OF ins] "1.IH"(4) [OF n ins _ "1.prems"] show ?thesis by simp
    qed
  qed (simp add: merge_steps(1))
qed

lemma merge_take:
  "merge_changes source deletes upserts m = Some hs \<Longrightarrow>
   length hs = m \<and> (n \<le> m \<longrightarrow> merge_changes source deletes upserts n = Some (take n hs))"
proof (induction source deletes upserts m arbitrary: n hs rule: merge_changes.induct)
  case (1 source deletes upserts m)
  show ?case
  proof (cases "m = 0")
    case m: False
    note at = merge_at [OF m, of source deletes upserts]
    consider (del) "at_delete source deletes" | (upd) "\<not> at_delete source deletes" "at_update source upserts"
      | (keep) "\<not> at_delete source deletes" "\<not> at_update source upserts" "at_keep source upserts"
      | (ins) "\<not> at_delete source deletes" "\<not> at_update source upserts" "\<not> at_keep source upserts" by blast
    then show ?thesis
    proof cases
      case del
      have "merge_changes (tl source) (tl deletes) upserts m = Some hs" using "1.prems" at(1) [OF del] by simp
      from "1.IH"(1) [OF m del this, of n] show ?thesis
        by (cases "n = 0") (simp_all add: merge_steps(1) merge_at(1) [OF _ del])
    next
      case upd
      from "1.prems" at(2) [OF upd] obtain hs' where hs': "merge_changes (tl source) deletes (tl upserts) (m - 1) = Some hs'"
        "hs = (fst (hd source), SortFields (snd (hd upserts))) # hs'" by auto
      from "1.IH"(2) [OF m upd hs'(1), of "n - 1"] hs'(2) m show ?thesis
        by (cases n) (auto simp: merge_steps(1) merge_at(2) [OF _ upd])
    next
      case keep
      from "1.prems" at(3) [OF keep] obtain hs' where hs': "merge_changes (tl source) deletes upserts (m - 1) = Some hs'"
        "hs = hd source # hs'" by auto
      from "1.IH"(3) [OF m keep hs'(1), of "n - 1"] hs'(2) m show ?thesis
        by (cases n) (auto simp: merge_steps(1) merge_at(3) [OF _ keep])
    next
      case ins
      from "1.prems" at(4) [OF ins] obtain hs' where hs': "upserts \<noteq> []" "merge_changes source deletes (tl upserts) (m - 1) = Some hs'"
        "hs = (MakeBytesArray (fst (hd upserts)), SortFields (snd (hd upserts))) # hs'" by (auto split: if_splits)
      from "1.IH"(4) [OF m ins hs'(1,2), of "n - 1"] hs'(1,3) m show ?thesis
        by (cases n) (auto simp: merge_steps(1) merge_at(4) [OF _ ins])
    qed
  qed (use "1.prems" in \<open>simp add: merge_steps(1)\<close>)
qed

lemma distinct_entry_keys: "entries_sorted fs \<Longrightarrow> distinct (entry_keys fs)"
  by (induction fs) auto

lemma size_more_deletes:
  assumes "entries_sorted fs" "distinct (ds @ rest)" "(set ds \<union> set rest) \<inter> fst ` set upserts = {}"
  shows "CalculateSizeOfUnion fs upserts (ds @ rest) + length (filter (\<lambda>d. d \<in> entry_key ` set fs) rest) =
    CalculateSizeOfUnion fs upserts ds"
proof -
  let ?keep = "\<lambda>D e. entry_key e \<notin> D \<and> entry_key e \<notin> fst ` set upserts"
  have len: "length (filter P fs) = card {e \<in> set fs. P e}" for P
    using distinct_entry_keys [OF assms(1)] by (simp add: distinct_length_filter distinct_map Int_def conj_commute)
  have inj: "inj_on entry_key (set fs)" using distinct_entry_keys [OF assms(1)] by (simp add: distinct_map)
  have "length (filter (\<lambda>d. d \<in> entry_key ` set fs) rest) = card {d \<in> set rest. d \<in> entry_key ` set fs}"
    using assms(2) by (simp add: distinct_length_filter Int_def conj_commute)
  also have "{d \<in> set rest. d \<in> entry_key ` set fs} = entry_key ` {e \<in> set fs. entry_key e \<in> set rest}" by auto
  also have "card \<dots> = card {e \<in> set fs. entry_key e \<in> set rest}"
    by (rule card_image) (use inj in \<open>auto intro: inj_on_subset\<close>)
  finally have rest: "length (filter (\<lambda>d. d \<in> entry_key ` set fs) rest) = card {e \<in> set fs. entry_key e \<in> set rest}" .
  have "{e \<in> set fs. ?keep (set ds) e} = {e \<in> set fs. ?keep (set (ds @ rest)) e} \<union> {e \<in> set fs. entry_key e \<in> set rest}"
    using assms(2,3) by auto
  then have "card {e \<in> set fs. ?keep (set ds) e} =
      card {e \<in> set fs. ?keep (set (ds @ rest)) e} + card {e \<in> set fs. entry_key e \<in> set rest}"
    by (simp only:) (rule card_Un_disjoint; auto)
  then show ?thesis unfolding CalculateSizeOfUnion_def len rest by simp
qed

text \<open>
  C7: What \<open>ApplyChanges\<close> does with deletes of keys that are absent, against the comment of
  \<open>SetAll\<close>.  The iterator over the deletes stays at the first absent key, so only the deletes before it
  are applied; and as the target was sized for all of them, the result is cut: of the entries it should
  have, as many of the last ones are lost as there are present keys to delete after that key.
\<close>

theorem absent_delete_spares_the_next:
  "entries_sorted fs \<Longrightarrow> sorted_wrt (<) deletes \<Longrightarrow> sorted_wrt (<) (map fst upserts) \<Longrightarrow>
   set deletes \<inter> fst ` set upserts = {} \<Longrightarrow> length fs + length upserts \<le> PB_SIZE_MAX \<Longrightarrow>
   present = (\<lambda>d. d \<in> entry_key ` set fs) \<Longrightarrow>
   \<exists>hs. ApplyChanges fs upserts (takeWhile present deletes) = Some hs \<and>
     ApplyChanges fs upserts deletes = Some (take (length hs - length (filter present (dropWhile present deletes))) hs)"
proof -
  assume sorted: "entries_sorted fs" "sorted_wrt (<) deletes" "sorted_wrt (<) (map fst upserts)"
    "set deletes \<inter> fst ` set upserts = {}" and size: "length fs + length upserts \<le> PB_SIZE_MAX"
    and present: "present = (\<lambda>d. d \<in> entry_key ` set fs)"
  let ?ds = "takeWhile present deletes" and ?rest = "dropWhile present deletes"
  have split: "deletes = ?ds @ ?rest" by simp
  have checked: "CheckedSize (CalculateSizeOfUnion fs upserts D) = Some (CalculateSizeOfUnion fs upserts D)" for D
  proof -
    have "CalculateSizeOfUnion fs upserts D \<le> length upserts + length fs" unfolding CalculateSizeOfUnion_def by simp
    then show ?thesis using size by (simp add: CheckedSize_def HARD_ASSERT_def)
  qed
  have ds: "set ?ds \<subseteq> set deletes" "set ?ds \<subseteq> entry_key ` set fs"
    using set_takeWhileD [of _ present deletes] by (auto simp: present)
  have "sorted_wrt (<) ?ds" using sorted(2) by (metis sorted_wrt_append split)
  then have "merge_ok fs ?ds upserts" using sorted(1,3,4) ds by (intro merge_changes_correct) auto
  then obtain hs where hs: "merge_changes fs ?ds upserts (CalculateSizeOfUnion fs upserts ?ds) = Some hs"
    by (auto simp: merge_ok_def)
  have merge: "merge_changes fs deletes upserts n = merge_changes fs ?ds upserts n" for n
  proof (cases ?rest)
    case (Cons d ds')
    then have "\<not> present d" by (simp add: dropWhile_eq_Cons_conv)
    then show ?thesis using merge_blocked [of d fs ?ds ds' upserts n] Cons split present by simp
  next
    case Nil
    then show ?thesis by (metis append_Nil2 split)
  qed
  have "distinct deletes" using sorted(2) by (simp add: strict_sorted_iff)
  then have "CalculateSizeOfUnion fs upserts deletes + length (filter present ?rest) = CalculateSizeOfUnion fs upserts ?ds"
    using size_more_deletes [of fs ?ds ?rest upserts] sorted(1,4) split present by (metis set_append)
  then have n: "CalculateSizeOfUnion fs upserts deletes = length hs - length (filter present ?rest)"
    "CalculateSizeOfUnion fs upserts deletes \<le> CalculateSizeOfUnion fs upserts ?ds"
    using merge_take [OF hs, of 0] by linarith+
  have run: "ApplyChanges fs upserts D = merge_changes fs D upserts (CalculateSizeOfUnion fs upserts D)" for D
    by (simp add: ApplyChanges_def checked)
  have "ApplyChanges fs upserts deletes = Some (take (CalculateSizeOfUnion fs upserts deletes) hs)"
    using merge_take [OF hs, of "CalculateSizeOfUnion fs upserts deletes"] n(2) by (simp only: run merge)
  with hs show ?thesis unfolding n(1) by (auto simp: run)
qed

lemma absent_delete_spares_the_next_witness:
  "ApplyChanges [(Some [98], null_value), (Some [99], null_value)] [] [[97], [98]] = Some [(Some [98], null_value)]"
proof -
  let ?fs = "[(Some [98], null_value), (Some [99], null_value)]"
  have key: "entry_key ` set ?fs = {[98], [99]}" by (simp add: entry_key_def MakeStringView_def)
  have "\<exists>hs. ApplyChanges ?fs [] (takeWhile (\<lambda>d. d \<in> entry_key ` set ?fs) [[97], [98]]) = Some hs \<and>
     ApplyChanges ?fs [] [[97], [98]] = Some (take (length hs - length (filter (\<lambda>d. d \<in> entry_key ` set ?fs)
       (dropWhile (\<lambda>d. d \<in> entry_key ` set ?fs) [[97], [98]]))) hs)"
    by (rule absent_delete_spares_the_next [OF _ _ _ _ _ refl]) (simp_all add: key entry_key_def MakeStringView_def PB_SIZE_MAX_def)
  moreover have "ApplyChanges ?fs [] [] = Some ?fs"
    by (simp add: ApplyChanges_def CalculateSizeOfUnion_def CheckedSize_def HARD_ASSERT_def PB_SIZE_MAX_def merge_changes.simps)
  ultimately show ?thesis by (simp add: entry_key_def MakeStringView_def)
qed

section \<open>Fields\<close>

lemma IsPrefixOf_iff: "IsPrefixOf p q \<longleftrightarrow> (\<exists>r. q = p @ r)"
  by (auto simp: IsPrefixOf_def) (metis append_take_drop_id)

lemma lookup_entry_mem: "entries_sorted fs \<Longrightarrow> lookup_entry fs s = Some v \<longleftrightarrow> (\<exists>e \<in> set fs. entry_key e = s \<and> snd e = v)"
  by (induction fs) auto

lemma FindEntry_find: "entries_sorted fs \<Longrightarrow> FindEntry (map_value fs) s = find (\<lambda>e. entry_key e = s) fs"
proof (induction fs)
  case Nil
  show ?case by (simp add: FindEntry_def equal_range_entries_def)
next
  case (Cons e fs)
  consider "entry_key e < s" | "entry_key e = s" | "s < entry_key e" by fastforce
  then show ?case
  proof cases
    case 3
    then have "find (\<lambda>e. entry_key e = s) fs = None" using Cons.prems by (fastforce simp: find_None_iff)
    with 3 show ?thesis by (auto simp: FindEntry_def equal_range_entries_def)
  qed (use Cons in \<open>auto simp: FindEntry_def equal_range_entries_def\<close>)
qed

lemma find_lookup: "map_option snd (find (\<lambda>e. entry_key e = s) fs) = lookup_entry fs s"
  by (induction fs) auto

lemma find_in: "find P xs = Some e \<Longrightarrow> e \<in> set xs \<and> P e"
  by (induction xs) (auto split: if_splits)

lemma FindEntry_None: "entries_sorted fs \<Longrightarrow> FindEntry (map_value fs) s = None \<longleftrightarrow> lookup_entry fs s = None"
  by (simp add: FindEntry_find find_lookup [symmetric])

lemma FindEntry_Some:
  "entries_sorted fs \<Longrightarrow> FindEntry (map_value fs) s = Some e \<Longrightarrow> e \<in> set fs \<and> entry_key e = s \<and> lookup_entry fs s = Some (snd e)"
  using find_in [of "\<lambda>e. entry_key e = s" fs e] find_lookup [of s fs] by (auto simp: FindEntry_find)

lemma FindEntry_map: "FindEntry v s = Some e \<Longrightarrow> \<exists>fs. v = map_value fs"
  by (auto simp: FindEntry_def split: Value.splits)

lemma put_entry_map:
  "entries_sorted fs \<Longrightarrow> lookup_entry fs s \<noteq> None \<Longrightarrow>
   put_entry fs s v = map (\<lambda>e. if entry_key e = s then (fst e, v) else e) fs"
proof (induction fs)
  case (Cons e fs)
  consider "entry_key e < s" | "entry_key e = s" | "s < entry_key e" by fastforce
  then show ?case
  proof cases
    case 1
    with Cons show ?thesis by (auto simp: put_entry_def)
  next
    case 2
    then have "map (\<lambda>f. if entry_key f = s then (fst f, v) else f) fs = fs" using Cons.prems by (intro map_idI) auto
    with 2 show ?thesis by (simp add: put_entry_def)
  next
    case 3
    then have "s \<notin> entry_key ` set fs" using Cons.prems by fastforce
    then show ?thesis using Cons.prems 3 lookup_entry_None [of fs s] by auto
  qed
qed simp

lemma lookup_put_map:
  "lookup_entry (map (\<lambda>e. if entry_key e = s then (fst e, v) else e) fs) t =
   (if t = s \<and> lookup_entry fs s \<noteq> None then Some v else lookup_entry fs t)"
  by (induction fs) auto

lemma put_entry_ok:
  assumes "entries_sorted fs" "lookup_entry fs s \<noteq> None"
  shows "entries_sorted (put_entry fs s v)" "lookup_entry (put_entry fs s v) = (lookup_entry fs)(s \<mapsto> v)"
    "length (put_entry fs s v) = length fs"
proof -
  have "entry_keys (put_entry fs s v) = entry_keys fs" unfolding put_entry_map [OF assms] by simp
  then show "entries_sorted (put_entry fs s v)" using assms(1) by (simp add: entries_sorted_def)
  show "lookup_entry (put_entry fs s v) = (lookup_entry fs)(s \<mapsto> v)"
    unfolding put_entry_map [OF assms] using assms(2) by (auto simp: lookup_put_map)
  show "length (put_entry fs s v) = length fs" unfolding put_entry_map [OF assms] by simp
qed

lemma Get_map:
  "entries_sorted fs \<Longrightarrow> Get (map_value fs) (s # p) = (case lookup_entry fs s of None \<Rightarrow> None | Some v \<Rightarrow> Get v p)"
  using FindEntry_None [of fs s] FindEntry_Some [of fs s] by (auto split: option.split)

lemma Get_append: "Get v (p @ r) = Option.bind (Get v p) (\<lambda>w. Get w r)"
  by (induction p arbitrary: v) (auto split: option.split)

text \<open>Maps sorted at every level, with room for one more entry.\<close>

fun object_ok :: "Value \<Rightarrow> bool" where
  "object_ok (map_value fs) \<longleftrightarrow> entries_sorted fs \<and> length fs < PB_SIZE_MAX \<and> list_all (\<lambda>(k, v). object_ok v) fs"
| "object_ok v = True"

lemma object_ok_entry: "object_ok (map_value fs) \<Longrightarrow> lookup_entry fs s = Some v \<Longrightarrow> object_ok v"
  by (auto simp: lookup_entry_mem list_all_iff)

text \<open>The maps on the way to the end of a path.\<close>

fun sorted_along :: "Value \<Rightarrow> FieldPath \<Rightarrow> bool" where
  "sorted_along v [] = True"
| "sorted_along v (s # p) = (case v of
     map_value fs \<Rightarrow> entries_sorted fs \<and> (case lookup_entry fs s of None \<Rightarrow> False | Some w \<Rightarrow> sorted_along w p)
   | _ \<Rightarrow> False)"

lemma object_ok_along: "object_ok obj \<Longrightarrow> Get obj p \<noteq> None \<Longrightarrow> sorted_along obj p"
proof (induction p arbitrary: obj)
  case (Cons s p)
  then obtain fs where obj: "obj = map_value fs" by (auto simp: FindEntry_def split: Value.splits)
  with Cons.prems have fs: "entries_sorted fs" by simp
  with Cons.prems(2) obj obtain w where w: "lookup_entry fs s = Some w" "Get w p \<noteq> None"
    by (auto simp: Get_map simp del: Get.simps split: option.splits)
  then have "sorted_along w p" using Cons.IH object_ok_entry [of fs s w] Cons.prems(1) obj by blast
  with fs w show ?case by (simp add: obj)
qed simp

lemma apply_at_ok:
  assumes "f fs = Some gs"
  shows "sorted_along obj p \<Longrightarrow> Get obj p = Some (map_value fs) \<Longrightarrow>
    \<exists>obj'. apply_at obj p f = Some obj' \<and> (\<forall>r. Get obj' (p @ r) = Get (map_value gs) r) \<and>
      (\<forall>q. \<not> IsPrefixOf p q \<and> \<not> IsPrefixOf q p \<longrightarrow> Get obj' q = Get obj q)"
proof (induction p arbitrary: obj)
  case Nil
  then show ?case using assms(1) by (simp add: IsPrefixOf_iff)
next
  case (Cons s p)
  from Cons.prems(2) obtain e where e: "FindEntry obj s = Some e" "Get (snd e) p = Some (map_value fs)"
    by (auto split: option.splits)
  then obtain hs where obj: "obj = map_value hs" using FindEntry_map by blast
  with Cons.prems(1) have sorted: "entries_sorted hs" by simp
  have hs: "lookup_entry hs s = Some (snd e)" "sorted_along (snd e) p"
    using Cons.prems(1) FindEntry_Some [OF sorted, of s e] e(1) unfolding obj by (auto split: option.splits)
  from Cons.IH [OF hs(2) e(2)] obtain w where w: "apply_at (snd e) p f = Some w"
    "\<forall>r. Get w (p @ r) = Get (map_value gs) r" "\<forall>q. \<not> IsPrefixOf p q \<and> \<not> IsPrefixOf q p \<longrightarrow> Get w q = Get (snd e) q" by blast
  let ?obj = "map_value (put_entry hs s w)"
  have put: "entries_sorted (put_entry hs s w)" "lookup_entry (put_entry hs s w) = (lookup_entry hs)(s \<mapsto> w)"
    using put_entry_ok [of hs s w] sorted hs by simp_all
  have "Get ?obj ((s # p) @ r) = Get (map_value gs) r" for r using w(2) by (simp add: Get_map [OF put(1)] put(2) del: Get.simps)
  moreover have "Get ?obj q = Get obj q" if "\<not> IsPrefixOf (s # p) q \<and> \<not> IsPrefixOf q (s # p)" for q
  proof (cases q)
    case Nil
    with that show ?thesis by (simp add: IsPrefixOf_iff)
  next
    case (Cons t q')
    then show ?thesis using that w(3) hs(1) unfolding obj
      by (auto simp: Get_map [OF put(1)] Get_map [OF sorted] put(2) IsPrefixOf_iff simp del: Get.simps)
  qed
  ultimately show ?case using e(1) w(1) unfolding obj by auto
qed

lemma upsert_ok:
  assumes "entries_sorted fs" "length fs < PB_SIZE_MAX"
  shows "\<exists>gs. ApplyChanges fs [(s, v)] [] = Some gs \<and> entries_sorted gs \<and> lookup_entry gs = (lookup_entry fs)(s \<mapsto> SortFields v)"
proof -
  have "merge_ok fs [] [(s, v)]" using assms(1) by (intro merge_changes_correct) simp_all
  moreover have "CalculateSizeOfUnion fs [(s, v)] [] \<le> Suc (length fs)" by (simp add: CalculateSizeOfUnion_def)
  ultimately show ?thesis using assms(2)
    by (auto simp: ApplyChanges_def CheckedSize_def HARD_ASSERT_def merge_ok_def merge_result_def changed_map_def fun_eq_iff split: if_splits)
qed

definition fields_at :: "Value \<Rightarrow> FieldPath \<Rightarrow> FieldsEntry list" where
  "fields_at obj p = (case Get obj p of Some (map_value fs) \<Rightarrow> fs | _ \<Rightarrow> [])"

lemma fields_at_Cons: "entries_sorted fs \<Longrightarrow>
  fields_at (map_value fs) (s # p) = (case lookup_entry fs s of None \<Rightarrow> [] | Some v \<Rightarrow> fields_at v p)"
  by (simp add: fields_at_def Get_map del: Get.simps split: option.split)

lemma not_map_Get: "\<not> IsMap v \<Longrightarrow> q \<noteq> [] \<Longrightarrow> Get v q = None"
  by (cases q; cases v) (simp_all add: FindEntry_def)

lemma empty_map_Get: "q \<noteq> [] \<Longrightarrow> Get (map_value []) q = None"
  by (cases q) (simp_all add: FindEntry_def equal_range_entries_def)

lemma SortFields_empty [simp]: "SortFields (map_value []) = map_value []"
  by (simp add: SortFields.simps)

definition parent_ok :: "Value \<Rightarrow> FieldPath \<Rightarrow> Value \<Rightarrow> bool" where
  "parent_ok obj p obj' \<longleftrightarrow> sorted_along obj' p \<and> Get obj' p = Some (map_value (fields_at obj p)) \<and>
     (\<forall>q. \<not> IsPrefixOf q p \<longrightarrow> Get obj' q = Get obj q)"

text \<open>Storing the prepared child back into a map that has an entry for it.\<close>

lemma parent_ok_put:
  assumes hs: "entries_sorted hs" "lookup_entry hs s = Some w0" and w: "parent_ok w p w'"
    and same: "\<And>q. q \<noteq> [] \<Longrightarrow> Get w q = (case lookup_entry fs s of None \<Rightarrow> None | Some v \<Rightarrow> Get v q)"
    and fields: "fields_at w p = (case lookup_entry fs s of None \<Rightarrow> [] | Some v \<Rightarrow> fields_at v p)"
    and fs: "entries_sorted fs" "\<And>t. t \<noteq> s \<Longrightarrow> lookup_entry hs t = lookup_entry fs t"
  shows "parent_ok (map_value fs) (s # p) (map_value (put_entry hs s w'))"
proof -
  have put: "entries_sorted (put_entry hs s w')" "lookup_entry (put_entry hs s w') = (lookup_entry hs)(s \<mapsto> w')"
    using put_entry_ok [of hs s w'] hs by simp_all
  have "Get (map_value (put_entry hs s w')) q = Get (map_value fs) q" if "\<not> IsPrefixOf q (s # p)" for q
  proof (cases q)
    case Nil
    with that show ?thesis by (simp add: IsPrefixOf_iff)
  next
    case (Cons t q')
    show ?thesis
    proof (cases "t = s")
      case True
      then have "\<not> IsPrefixOf q' p" using that Cons by (auto simp: IsPrefixOf_iff)
      moreover from this have "q' \<noteq> []" by (auto simp: IsPrefixOf_iff)
      ultimately have "Get w' q' = (case lookup_entry fs s of None \<Rightarrow> None | Some v \<Rightarrow> Get v q')"
        using w same [of q'] by (simp add: parent_ok_def)
      with True Cons show ?thesis by (simp add: Get_map [OF put(1)] Get_map [OF fs(1)] put(2) del: Get.simps)
    next
      case False
      with Cons fs(2) show ?thesis by (simp add: Get_map [OF put(1)] Get_map [OF fs(1)] put(2) del: Get.simps)
    qed
  qed
  moreover have "Get (map_value (put_entry hs s w')) (s # p) = Some (map_value (fields_at (map_value fs) (s # p)))"
    using w fields by (simp add: Get_map [OF put(1)] put(2) fields_at_Cons [OF fs(1)] parent_ok_def del: Get.simps)
  moreover have "sorted_along (map_value (put_entry hs s w')) (s # p)" using put w by (simp add: parent_ok_def)
  ultimately show ?thesis by (simp add: parent_ok_def)
qed

lemma ParentMap_ok:
  "object_ok obj \<Longrightarrow> IsMap obj \<Longrightarrow> \<exists>obj'. ParentMap obj p = Some obj' \<and> IsMap obj' \<and> parent_ok obj p obj'"
proof (induction p arbitrary: obj)
  case Nil
  then show ?case by (cases obj) (auto simp: parent_ok_def fields_at_def)
next
  case (Cons s p)
  from Cons.prems obtain fs where obj: "obj = map_value fs" by (cases obj) simp_all
  with Cons.prems have fs: "entries_sorted fs" "length fs < PB_SIZE_MAX" by auto
  show ?case
  proof (cases "FindEntry obj s")
    case (Some e)
    then have e: "lookup_entry fs s = Some (snd e)" "object_ok (snd e)"
      using FindEntry_Some [of fs s e] fs(1) Cons.prems object_ok_entry unfolding obj by blast+
    define w where "w = (if \<not> IsMap (snd e) then map_value [] else snd e)"
    have "object_ok w" "IsMap w" using e(2) by (simp_all add: w_def PB_SIZE_MAX_def)
    then obtain w' where w': "ParentMap w p = Some w'" "parent_ok w p w'" using Cons.IH by blast
    have "parent_ok obj (s # p) (map_value (put_entry fs s w'))" unfolding obj
    proof (rule parent_ok_put [OF fs(1) e(1) w'(2) _ _ fs(1)])
      show "Get w q = (case lookup_entry fs s of None \<Rightarrow> None | Some v \<Rightarrow> Get v q)" if "q \<noteq> []" for q
        using that not_map_Get [of "snd e" q] empty_map_Get [of q] e(1) by (simp add: w_def del: Get.simps)
      show "fields_at w p = (case lookup_entry fs s of None \<Rightarrow> [] | Some v \<Rightarrow> fields_at v p)"
        using not_map_Get [of "snd e" p] empty_map_Get [of p] e(1)
        by (cases p; cases "snd e") (simp_all add: w_def fields_at_def FindEntry_def equal_range_entries_def)
    qed simp
    with Some w'(1) show ?thesis by (auto simp: obj w_def)
  next
    case None
    then have none: "lookup_entry fs s = None" using FindEntry_None [OF fs(1)] unfolding obj by blast
    from upsert_ok [OF fs, of s "map_value []"] obtain hs where hs: "ApplyChanges fs [(s, map_value [])] [] = Some hs"
      "entries_sorted hs" "lookup_entry hs = (lookup_entry fs)(s \<mapsto> map_value [])" by auto
    then obtain e where found: "FindEntry (map_value hs) s = Some e" using FindEntry_None [OF hs(2), of s] by fastforce
    from FindEntry_Some [OF hs(2) this] hs(3) have e: "FindEntry (map_value hs) s = Some e" "snd e = map_value []"
      using found by auto
    obtain w' where w': "ParentMap (map_value []) p = Some w'" "parent_ok (map_value []) p w'"
      using Cons.IH [of "map_value []"] by (auto simp: PB_SIZE_MAX_def)
    have "parent_ok obj (s # p) (map_value (put_entry hs s w'))" unfolding obj
    proof (rule parent_ok_put [OF hs(2) _ w'(2) _ _ fs(1)])
      show "lookup_entry hs s = Some (map_value [])" using hs(3) by simp
      show "Get (map_value []) q = (case lookup_entry fs s of None \<Rightarrow> None | Some v \<Rightarrow> Get v q)" if "q \<noteq> []" for q
        using none empty_map_Get [OF that] by simp
      show "fields_at (map_value []) p = (case lookup_entry fs s of None \<Rightarrow> [] | Some v \<Rightarrow> fields_at v p)"
        using none by (cases p) (simp_all add: fields_at_def FindEntry_def equal_range_entries_def)
    qed (simp add: hs(3))
    with None w'(1) e hs(1) show ?thesis by (auto simp: obj)
  qed
qed

lemma fields_at_ok: "object_ok obj \<Longrightarrow> entries_sorted (fields_at obj p) \<and> length (fields_at obj p) < PB_SIZE_MAX"
proof (induction p arbitrary: obj)
  case Nil
  show ?case using Nil by (cases obj) (auto simp: fields_at_def PB_SIZE_MAX_def)
next
  case (Cons s p)
  show ?case
  proof (cases obj)
    case (map_value fs)
    with Cons show ?thesis using object_ok_entry [of fs s] by (auto simp: fields_at_Cons PB_SIZE_MAX_def split: option.split)
  qed (simp_all add: fields_at_def FindEntry_def PB_SIZE_MAX_def)
qed

text \<open>
  C5: Setting a field.  On an object whose maps are sorted and not full, \<open>Set\<close> at any path that is not
  empty succeeds, creating or replacing the maps on the way; the field then reads as the value with
  its own fields sorted, and every path that neither leads to the field nor goes through it reads as
  before.
\<close>

theorem set_field_reads_back:
  "object_ok obj \<Longrightarrow> IsMap obj \<Longrightarrow> path \<noteq> [] \<Longrightarrow>
   \<exists>obj'. Set_field obj path v = Some obj' \<and> Get obj' path = Some (SortFields v) \<and>
     (\<forall>q. \<not> IsPrefixOf path q \<and> \<not> IsPrefixOf q path \<longrightarrow> Get obj' q = Get obj q)"
proof -
  assume obj: "object_ok obj" "IsMap obj" and "path \<noteq> []"
  then obtain p s where path: "path = p @ [s]" by (cases path rule: rev_cases) auto
  from ParentMap_ok [OF obj] obtain o1 where o1: "ParentMap obj p = Some o1" "parent_ok obj p o1" by blast
  let ?fs = "fields_at obj p"
  have fs: "entries_sorted ?fs" "length ?fs < PB_SIZE_MAX" using fields_at_ok [OF obj(1)] by blast+
  from upsert_ok [OF fs] obtain gs where gs: "ApplyChanges ?fs [(s, v)] [] = Some gs" "entries_sorted gs"
    "lookup_entry gs = (lookup_entry ?fs)(s \<mapsto> SortFields v)" by blast
  from apply_at_ok [of "\<lambda>fs. ApplyChanges fs [(s, v)] []", OF gs(1), of o1 p] o1(2) obtain o2 where o2: "apply_at o1 p (\<lambda>fs. ApplyChanges fs [(s, v)] []) = Some o2"
    "\<forall>r. Get o2 (p @ r) = Get (map_value gs) r" "\<forall>q. \<not> IsPrefixOf p q \<and> \<not> IsPrefixOf q p \<longrightarrow> Get o2 q = Get o1 q"
    unfolding parent_ok_def by blast
  have "Set_field obj path v = Some o2"
    using o1(1) o2(1) by (simp add: Set_field_def path PopLast_def last_segment_def HARD_ASSERT_def nth_append)
  moreover have "Get o2 path = Some (SortFields v)" unfolding path using o2(2) gs(2,3) by (simp add: Get_map del: Get.simps(2))
  moreover have "Get o2 q = Get obj q" if q: "\<not> IsPrefixOf path q \<and> \<not> IsPrefixOf q path" for q
  proof -
    have np: "\<not> IsPrefixOf q p" using q by (auto simp: path IsPrefixOf_iff)
    then have same: "Get o1 q = Get obj q" using o1(2) by (simp add: parent_ok_def)
    show ?thesis
    proof (cases "IsPrefixOf p q")
      case True
      then obtain r where r: "q = p @ r" by (auto simp: IsPrefixOf_iff)
      with np obtain t r' where t: "r = t # r'" "t \<noteq> s" using q by (cases r) (auto simp: path IsPrefixOf_iff)
      have "Get o1 q = Get (map_value ?fs) r" using o1(2) by (simp add: r Get_append parent_ok_def del: Get.simps)
      then show ?thesis using o2(2) same gs(2,3) fs(1) t by (simp add: r Get_map del: Get.simps)
    next
      case False
      then show ?thesis using np o2(3) same by simp
    qed
  qed
  ultimately show ?thesis by blast
qed

lemma set_field_reads_back_witness:
  "\<exists>obj'. Set_field (map_value [(Some [97], boolean_value True)]) [[97], [98]] (integer_value 7) = Some obj' \<and>
     Get obj' [[97], [98]] = Some (SortFields (integer_value 7)) \<and>
     (\<forall>q. \<not> IsPrefixOf [[97], [98]] q \<and> \<not> IsPrefixOf q [[97], [98]] \<longrightarrow> Get obj' q = Get (map_value [(Some [97], boolean_value True)]) q)"
  by (rule set_field_reads_back) (simp_all add: PB_SIZE_MAX_def)

text \<open>Deleting one key, present or not.\<close>

lemma merge_absent: "d \<notin> entry_key ` set fs \<Longrightarrow> merge_changes fs [d] [] (length fs) = Some fs"
  by (induction fs) (auto simp: merge_steps(1,4))

lemma delete_ok:
  assumes "entries_sorted fs" "length fs < PB_SIZE_MAX"
  shows "\<exists>gs. ApplyChanges fs [] [s] = Some gs \<and> entries_sorted gs \<and> lookup_entry gs = (lookup_entry fs)(s := None)"
proof (cases "s \<in> entry_key ` set fs")
  case True
  then have "merge_ok fs [s] []" using assms(1) by (intro merge_changes_correct) simp_all
  moreover have "CalculateSizeOfUnion fs [] [s] \<le> length fs" by (simp add: CalculateSizeOfUnion_def)
  ultimately show ?thesis using assms(2)
    by (auto simp: ApplyChanges_def CheckedSize_def HARD_ASSERT_def merge_ok_def merge_result_def changed_map_def fun_eq_iff)
next
  case False
  then have "filter (\<lambda>e. entry_key e \<noteq> s) fs = fs" by (auto simp: filter_id_conv)
  then have "CalculateSizeOfUnion fs [] [s] = length fs" by (simp add: CalculateSizeOfUnion_def)
  moreover have "(lookup_entry fs)(s := None) = lookup_entry fs" using False lookup_entry_None [of fs s] by (auto simp: fun_eq_iff)
  ultimately show ?thesis using merge_absent [OF False] assms
    by (simp add: ApplyChanges_def CheckedSize_def HARD_ASSERT_def)
qed

text \<open>
  C28: Deleting a field.  On an object whose maps are sorted and not full, \<open>Delete\<close> at any path that is
  not empty succeeds, whether the field exists or not: afterwards nothing is found at the path, and
  every path that neither leads to the field nor goes through it reads as before.
\<close>

theorem delete_field_removes:
  "object_ok obj \<Longrightarrow> IsMap obj \<Longrightarrow> path \<noteq> [] \<Longrightarrow>
   \<exists>obj'. Delete_field obj path = Some obj' \<and> Get obj' path = None \<and>
     (\<forall>q. \<not> IsPrefixOf path q \<and> \<not> IsPrefixOf q path \<longrightarrow> Get obj' q = Get obj q)"
proof -
  assume obj: "object_ok obj" "IsMap obj" and "path \<noteq> []"
  then obtain p s where path: "path = p @ [s]" by (cases path rule: rev_cases) auto
  have delete: "Delete_field obj path = (case Get obj p of None \<Rightarrow> Some obj
      | Some nested \<Rightarrow> if IsMap nested then apply_at obj p (\<lambda>fs. ApplyChanges fs [] [s]) else Some obj)"
    by (simp add: Delete_field_def path PopLast_def last_segment_def HARD_ASSERT_def nth_append)
  show ?thesis
  proof (cases "\<exists>fs. Get obj p = Some (map_value fs)")
    case False
    have leaf: "\<not> IsMap v" if "Get obj p = Some v" for v using False that by (cases v) auto
    then have "Get obj path = None" unfolding path Get_append using not_map_Get [of _ "[s]"] by (cases "Get obj p") simp_all
    moreover have "Delete_field obj path = Some obj" using leaf unfolding delete by (auto split: option.split)
    ultimately show ?thesis by blast
  next
    case True
    then obtain fs where fs: "Get obj p = Some (map_value fs)" by blast
    then have "fs = fields_at obj p" by (simp add: fields_at_def)
    with fields_at_ok [OF obj(1)] have sorted: "entries_sorted fs" "length fs < PB_SIZE_MAX" by blast+
    from delete_ok [OF this] obtain gs where gs: "ApplyChanges fs [] [s] = Some gs" "entries_sorted gs"
      "lookup_entry gs = (lookup_entry fs)(s := None)" by blast
    from apply_at_ok [of "\<lambda>fs. ApplyChanges fs [] [s]", OF gs(1) object_ok_along [OF obj(1)] fs] fs
    obtain o2 where o2: "apply_at obj p (\<lambda>fs. ApplyChanges fs [] [s]) = Some o2"
      "\<forall>r. Get o2 (p @ r) = Get (map_value gs) r" "\<forall>q. \<not> IsPrefixOf p q \<and> \<not> IsPrefixOf q p \<longrightarrow> Get o2 q = Get obj q" by auto
    have "Delete_field obj path = Some o2" unfolding delete using fs o2(1) by simp
    moreover have "Get o2 path = None" unfolding path using o2(2) gs(2,3) by (simp add: Get_map del: Get.simps(2))
    moreover have "Get o2 q = Get obj q" if q: "\<not> IsPrefixOf path q \<and> \<not> IsPrefixOf q path" for q
    proof (cases "IsPrefixOf p q")
      case True
      then obtain r where r: "q = p @ r" by (auto simp: IsPrefixOf_iff)
      with q obtain t r' where t: "r = t # r'" "t \<noteq> s" by (cases r) (auto simp: path IsPrefixOf_iff)
      have "Get obj q = Get (map_value fs) r" using fs by (simp add: r Get_append del: Get.simps)
      then show ?thesis using o2(2) gs(2,3) sorted(1) t by (simp add: r Get_map del: Get.simps)
    next
      case False
      moreover have "\<not> IsPrefixOf q p" using q by (auto simp: path IsPrefixOf_iff)
      ultimately show ?thesis using o2(3) by blast
    qed
    ultimately show ?thesis by blast
  qed
qed

lemma delete_field_removes_witness:
  "\<exists>obj'. Delete_field (map_value [(Some [97], boolean_value True)]) [[97]] = Some obj' \<and> Get obj' [[97]] = None \<and>
     (\<forall>q. \<not> IsPrefixOf [[97]] q \<and> \<not> IsPrefixOf q [[97]] \<longrightarrow> Get obj' q = Get (map_value [(Some [97], boolean_value True)]) q)"
  by (rule delete_field_removes) (simp_all add: PB_SIZE_MAX_def)

section \<open>Changing many fields\<close>

text \<open>The changes at the top level of an object, in the order of their keys.\<close>

definition top_level :: "(bytes \<times> Value option) list \<Rightarrow> TransformMap" where
  "top_level changes = map (\<lambda>(k, v). ([k], v)) changes"

definition upserts_of :: "(bytes \<times> Value option) list \<Rightarrow> Upserts" where
  "upserts_of changes = List.map_filter (\<lambda>(k, v). map_option (Pair k) v) changes"

definition deletes_of :: "(bytes \<times> Value option) list \<Rightarrow> Deletes" where
  "deletes_of changes = map fst (filter (\<lambda>(k, v). v = None) changes)"

lemma changes_simps [simp]:
  "upserts_of [] = []" "upserts_of ((k, Some v) # cs) = (k, v) # upserts_of cs" "upserts_of ((k, None) # cs) = upserts_of cs"
  "deletes_of [] = []" "deletes_of ((k, Some v) # cs) = deletes_of cs" "deletes_of ((k, None) # cs) = k # deletes_of cs"
  by (simp_all add: upserts_of_def deletes_of_def List.map_filter_simps)

lemma map_insert_last: "\<forall>u \<in> set ups. fst u < k \<Longrightarrow> string_map_insert k v ups = ups @ [(k, v)]"
  by (induction k v ups rule: string_map_insert.induct) auto

lemma set_insert_last: "\<forall>d \<in> set dels. d < k \<Longrightarrow> string_set_insert k dels = dels @ [k]"
  by (induction k dels rule: string_set_insert.induct) auto

lemma set_all_top_level:
  "sorted_wrt (<) (map fst cs) \<Longrightarrow> \<forall>c \<in> set cs. (\<forall>u \<in> set ups. fst u < fst c) \<and> (\<forall>d \<in> set dels. d < fst c) \<Longrightarrow>
   set_all_loop (map_value fs) [] ups dels (top_level cs) =
     map_option map_value (ApplyChanges fs (ups @ upserts_of cs) (dels @ deletes_of cs))"
proof (induction cs arbitrary: ups dels)
  case Nil
  show ?case by (simp add: top_level_def)
next
  case (Cons c cs)
  obtain k v where c: "c = (k, v)" by (cases c)
  have step: "set_all_loop (map_value fs) [] ups dels (top_level ((k, v) # cs)) = (case v of
      Some v \<Rightarrow> set_all_loop (map_value fs) [] (string_map_insert k v ups) dels (top_level cs)
    | None \<Rightarrow> set_all_loop (map_value fs) [] ups (string_set_insert k dels) (top_level cs))"
    by (cases v) (simp_all add: top_level_def IsImmediateParentOf_def last_segment_def HARD_ASSERT_def)
  show ?case
  proof (cases v)
    case None
    have "string_set_insert k dels = dels @ [k]" using Cons.prems(2) by (intro set_insert_last) (simp add: c)
    then show ?thesis using Cons.IH [of ups "dels @ [k]"] Cons.prems step by (simp add: None c)
  next
    case (Some w)
    have "string_map_insert k w ups = ups @ [(k, w)]" using Cons.prems(2) by (intro map_insert_last) (simp add: c)
    then show ?thesis using Cons.IH [of "ups @ [(k, w)]" dels] Cons.prems step by (simp add: Some c)
  qed
qed

lemma changes_sorted:
  assumes "sorted_wrt (<) (map fst cs)"
  shows "sorted_wrt (<) (map fst (upserts_of cs))" "sorted_wrt (<) (deletes_of cs)"
    "set (deletes_of cs) \<inter> fst ` set (upserts_of cs) = {}" "length (upserts_of cs) \<le> length cs"
    "map_of cs s = (case map_of (upserts_of cs) s of Some v \<Rightarrow> Some (Some v) | None \<Rightarrow> if s \<in> set (deletes_of cs) then Some None else None)"
proof -
  have sub: "fst ` set (upserts_of cs) \<subseteq> fst ` set cs" "set (deletes_of cs) \<subseteq> fst ` set cs" for cs
    by (force simp: upserts_of_def deletes_of_def List.map_filter_def)+
  have all: "sorted_wrt (<) (map fst (upserts_of cs)) \<and> sorted_wrt (<) (deletes_of cs) \<and>
      set (deletes_of cs) \<inter> fst ` set (upserts_of cs) = {} \<and> length (upserts_of cs) \<le> length cs" using assms
  proof (induction cs)
    case (Cons c cs)
    then have ih: "sorted_wrt (<) (map fst (upserts_of cs))" "sorted_wrt (<) (deletes_of cs)"
      "set (deletes_of cs) \<inter> fst ` set (upserts_of cs) = {}" "length (upserts_of cs) \<le> length cs" by auto
    have "\<forall>x \<in> fst ` set cs. fst c < x" using Cons.prems by auto
    then have above: "\<forall>x \<in> fst ` set (upserts_of cs). fst c < x" "\<forall>x \<in> set (deletes_of cs). fst c < x"
      using sub [of cs] by blast+
    obtain k v where c: "c = (k, v)" by (cases c)
    show ?case using ih above by (cases v) (auto simp: c)
  qed simp
  then show "sorted_wrt (<) (map fst (upserts_of cs))" "sorted_wrt (<) (deletes_of cs)"
    "set (deletes_of cs) \<inter> fst ` set (upserts_of cs) = {}" "length (upserts_of cs) \<le> length cs" by blast+
  show "map_of cs s = (case map_of (upserts_of cs) s of Some v \<Rightarrow> Some (Some v) | None \<Rightarrow> if s \<in> set (deletes_of cs) then Some None else None)"
    using assms
  proof (induction cs)
    case (Cons c cs)
    obtain k v where c: "c = (k, v)" by (cases c)
    have "k \<notin> fst ` set cs" using Cons.prems by (auto simp: c)
    then have "k \<notin> fst ` set (upserts_of cs)" "k \<notin> set (deletes_of cs)" using sub [of cs] by blast+
    then have "map_of (upserts_of cs) k = None" by (simp add: map_of_eq_None_iff)
    then show ?case using Cons by (cases v) (auto simp: c)
  qed simp
qed

text \<open>
  C29: Many changes at once.  When every field to delete exists, \<open>SetAll\<close> of changes to top-level fields
  succeeds, and each field reads as its new value, as absent when it is deleted, and as before when
  it is not among the changes.
\<close>

theorem set_all_top_level_fields:
  "object_ok (map_value fs) \<Longrightarrow> sorted_wrt (<) (map fst cs) \<Longrightarrow> length fs + length cs \<le> PB_SIZE_MAX \<Longrightarrow>
   \<forall>(k, v) \<in> set cs. v = None \<longrightarrow> Get (map_value fs) [k] \<noteq> None \<Longrightarrow>
   \<exists>obj'. SetAll (map_value fs) (top_level cs) = Some obj' \<and>
     (\<forall>s. Get obj' [s] = (case map_of cs s of
        Some (Some v) \<Rightarrow> Some (SortFields v)
      | Some None \<Rightarrow> None
      | None \<Rightarrow> Get (map_value fs) [s]))"
proof -
  assume ok: "object_ok (map_value fs)" "sorted_wrt (<) (map fst cs)" "length fs + length cs \<le> PB_SIZE_MAX"
    and present: "\<forall>(k, v) \<in> set cs. v = None \<longrightarrow> Get (map_value fs) [k] \<noteq> None"
  have fs: "entries_sorted fs" using ok(1) by simp
  have get: "Get (map_value fs) [s] = lookup_entry fs s" for s using fs by (simp add: Get_map del: Get.simps(2) split: option.split)
  have "set (deletes_of cs) \<subseteq> entry_key ` set fs"
  proof
    fix d assume "d \<in> set (deletes_of cs)"
    then have "(d, None) \<in> set cs" by (auto simp: deletes_of_def)
    then have "lookup_entry fs d \<noteq> None" using present get by auto
    then show "d \<in> entry_key ` set fs" by (simp add: lookup_entry_None)
  qed
  then have merge: "merge_ok fs (deletes_of cs) (upserts_of cs)"
    using fs changes_sorted [OF ok(2)] by (intro merge_changes_correct) auto
  have "CalculateSizeOfUnion fs (upserts_of cs) (deletes_of cs) \<le> length (upserts_of cs) + length fs"
    unfolding CalculateSizeOfUnion_def by simp
  then have "CheckedSize (CalculateSizeOfUnion fs (upserts_of cs) (deletes_of cs)) = Some (CalculateSizeOfUnion fs (upserts_of cs) (deletes_of cs))"
    using ok(3) changes_sorted(4) [OF ok(2)] by (simp add: CheckedSize_def HARD_ASSERT_def)
  then obtain gs where gs: "ApplyChanges fs (upserts_of cs) (deletes_of cs) = Some gs" "merge_result fs (deletes_of cs) (upserts_of cs) gs"
    using merge by (auto simp: ApplyChanges_def merge_ok_def)
  have "SetAll (map_value fs) (top_level cs) = Some (map_value gs)"
    using set_all_top_level [OF ok(2), of "[]" "[]" fs] gs(1) by (simp add: SetAll_def)
  moreover have "Get (map_value gs) [s] = lookup_entry gs s" for s
    using gs(2) by (simp add: merge_result_def Get_map del: Get.simps(2) split: option.split)
  ultimately show ?thesis using gs(2) changes_sorted(5) [OF ok(2)]
    by (auto simp: get merge_result_def changed_map_def simp del: Get.simps split: option.split)
qed

lemma set_all_top_level_fields_witness:
  "\<exists>obj'. SetAll (map_value [(Some [98], null_value)]) (top_level [([97], Some null_value), ([98], None)]) = Some obj' \<and>
     (\<forall>s. Get obj' [s] = (case map_of [([97], Some null_value), ([98], None)] s of
        Some (Some v) \<Rightarrow> Some (SortFields v)
      | Some None \<Rightarrow> None
      | None \<Rightarrow> Get (map_value [(Some [98], null_value)]) [s]))"
  by (rule set_all_top_level_fields)
    (simp_all add: PB_SIZE_MAX_def FindEntry_def equal_range_entries_def entry_key_def MakeStringView_def)

section \<open>Sorting establishes the order\<close>

fun distinct_keys :: "Value \<Rightarrow> bool" where
  "distinct_keys (map_value fs) \<longleftrightarrow> distinct (entry_keys fs) \<and> list_all (\<lambda>(k, v). distinct_keys v) fs"
| "distinct_keys (array_value vs) \<longleftrightarrow> list_all distinct_keys vs"
| "distinct_keys v = True"

fun sorted_value :: "Value \<Rightarrow> bool" where
  "sorted_value (map_value fs) \<longleftrightarrow> entries_sorted fs \<and> list_all (\<lambda>(k, v). sorted_value v) fs"
| "sorted_value (array_value vs) \<longleftrightarrow> list_all sorted_value vs"
| "sorted_value v = True"

definition sorted_fields :: "FieldsEntry list \<Rightarrow> FieldsEntry list" where
  "sorted_fields fs = map (\<lambda>(k, v). (k, SortFields v)) (sort_key entry_key fs)"

lemma SortFields_map: "SortFields (map_value fs) = map_value (sorted_fields fs)"
proof -
  have "(\<lambda>(key, v). MakeStringView key) = entry_key" by (simp add: fun_eq_iff entry_key_def split_beta)
  then show ?thesis by (subst SortFields.simps) (simp add: sorted_fields_def)
qed

lemma keys_sorted_fields: "entry_keys (sorted_fields fs) = sort (entry_keys fs)"
proof -
  have "entry_keys (sorted_fields fs) = entry_keys (sort_key entry_key fs)"
    by (simp add: sorted_fields_def entry_key_def split_beta comp_def)
  also have "\<dots> = sort (entry_keys fs)" by (intro properties_for_sort [symmetric]) simp_all
  finally show ?thesis .
qed

lemma sorted_fields_sorted: "distinct (entry_keys fs) \<Longrightarrow> entries_sorted (sorted_fields fs)"
  by (simp add: entries_sorted_def keys_sorted_fields strict_sorted_iff)

lemma lookup_distinct:
  "distinct (entry_keys fs) \<Longrightarrow> lookup_entry fs s = Some v \<longleftrightarrow> (\<exists>e \<in> set fs. entry_key e = s \<and> snd e = v)"
  using map_of_eq_Some_iff [of "map (\<lambda>e. (entry_key e, snd e)) fs" s v] by (auto simp: lookup_entry_def comp_def)

lemma lookup_sorted_fields:
  assumes "distinct (entry_keys fs)"
  shows "lookup_entry (sorted_fields fs) s = map_option SortFields (lookup_entry fs s)"
proof (cases "lookup_entry fs s")
  case None
  then have "s \<notin> set (entry_keys (sorted_fields fs))" unfolding keys_sorted_fields by (simp add: lookup_entry_None)
  then have "lookup_entry (sorted_fields fs) s = None" by (simp add: lookup_entry_None)
  with None show ?thesis by simp
next
  case (Some v)
  then obtain e where "e \<in> set fs" "entry_key e = s" "snd e = v" using lookup_distinct [OF assms] by blast
  then have "(fst e, SortFields v) \<in> set (sorted_fields fs)" "entry_key (fst e, SortFields v) = s"
    by (force simp: sorted_fields_def split_beta)+
  then show ?thesis using Some lookup_distinct [of "sorted_fields fs" s "SortFields v"] assms
    by (force simp: keys_sorted_fields)
qed

lemma SortFields_sorted: "distinct_keys v \<Longrightarrow> sorted_value (SortFields v)"
proof (induction v rule: measure_induct_rule [of size])
  case (less v)
  show ?case
  proof (cases v)
    case (map_value fs)
    have "sorted_value (SortFields w)" if "(k, w) \<in> set fs" for k w
      using less.IH [of w] less.prems entry_size [OF that] that by (auto simp: map_value list_all_iff)
    then have "list_all (\<lambda>(k, v). sorted_value v) (sorted_fields fs)" by (auto simp: sorted_fields_def list_all_iff)
    then show ?thesis using less.prems sorted_fields_sorted by (simp add: map_value SortFields_map)
  next
    case (array_value vs)
    have "sorted_value (SortFields w)" if "w \<in> set vs" for w
      using less.IH [of w] less.prems size_list_estimation' [OF that order_refl, of size] that by (auto simp: array_value list_all_iff)
    then show ?thesis by (subst SortFields.simps) (simp add: array_value list_all_iff)
  qed (subst SortFields.simps; simp)+
qed

text \<open>
  C31: Making an object value sorts it at every level.  From a map value whose maps have distinct keys,
  the constructor of \<open>ObjectValue\<close> gives an object in which the entries of every map, also inside
  arrays, are in the order of their keys, and the fields are those of the map, each sorted in the
  same way.
\<close>

theorem object_value_is_sorted:
  "distinct_keys (map_value fs) \<Longrightarrow>
   \<exists>obj. ObjectValue (map_value fs) = Some obj \<and> sorted_value obj \<and> (\<forall>s. Get obj [s] = map_option SortFields (lookup_entry fs s))"
  using SortFields_sorted [of "map_value fs"] sorted_fields_sorted [of fs] lookup_sorted_fields [of fs]
  by (simp add: ObjectValue_def HARD_ASSERT_def SortFields_map Get_map del: Get.simps(2) split: option.split)

lemma object_value_is_sorted_witness:
  "\<exists>obj. ObjectValue (map_value [(Some [99], null_value), (Some [98], array_value [])]) = Some obj \<and> sorted_value obj \<and>
     (\<forall>s. Get obj [s] = map_option SortFields (lookup_entry [(Some [99], null_value), (Some [98], array_value [])] s))"
  by (rule object_value_is_sorted) (simp add: entry_key_def MakeStringView_def)

end
