(* ===== verification/Mutations.thy ===== *)
theory Mutations
  imports Transforms ObjectSpec LocalStore
begin

text \<open>
  Mutations of documents, under \<open>Firestore/core/src/model\<close>: \<open>mutation.cc\<close>, \<open>set_mutation.cc\<close>,
  \<open>patch_mutation.cc\<close>, \<open>delete_mutation.cc\<close>, \<open>verify_mutation.cc\<close>, \<open>precondition.cc\<close>.  They are the
  effects of the mutations that the queue and the local store keep, on documents whose value is an
  object value.
\<close>

section \<open>Preconditions\<close>

instantiation Value :: default
begin

definition default_Value :: Value where
  "default_Value = EmptyObjectValue"

instance ..

end

datatype Precondition =
    Precondition_None
  | Precondition_Exists bool
  | Precondition_UpdateTime SnapshotVersion

definition IsValidFor :: "Precondition \<Rightarrow> Value MutableDocument \<Rightarrow> bool" where
  "IsValidFor precondition document = (case precondition of
     Precondition_UpdateTime update_time \<Rightarrow> is_found_document document \<and> document_version document = update_time
   | Precondition_Exists exists \<Rightarrow> exists = is_found_document document
   | Precondition_None \<Rightarrow> True)"

section \<open>Transform results\<close>

type_synonym FieldTransform = "FieldPath \<times> TransformOperation"

text \<open>\<open>map[path] = v\<close> on a \<open>std::map\<close> from field paths.\<close>

fun path_map_insert :: "FieldPath \<Rightarrow> 'b \<Rightarrow> (FieldPath \<times> 'b) list \<Rightarrow> (FieldPath \<times> 'b) list" where
  "path_map_insert path v [] = [(path, v)]"
| "path_map_insert path v ((path', v') # m) =
     (if path_CompareTo path path' = Ascending then (path, v) # (path', v') # m
      else if path = path' then (path, v) # m
      else (path', v') # path_map_insert path v m)"

fun local_results_loop :: "Value \<Rightarrow> Timestamp \<Rightarrow> TransformMap \<Rightarrow> FieldTransform list \<Rightarrow> TransformMap option" where
  "local_results_loop previous_data local_time transform_results [] = Some transform_results"
| "local_results_loop previous_data local_time transform_results ((path, transform) # field_transforms) = do {
     transformed_value \<leftarrow> transform_ApplyToLocalView transform (Get previous_data path) local_time;
     local_results_loop previous_data local_time (path_map_insert path (Some transformed_value) transform_results)
       field_transforms }"

definition LocalTransformResults :: "FieldTransform list \<Rightarrow> Value \<Rightarrow> Timestamp \<Rightarrow> TransformMap option" where
  "LocalTransformResults field_transforms previous_data local_time =
     local_results_loop previous_data local_time [] field_transforms"

fun server_results_loop :: "Value \<Rightarrow> TransformMap \<Rightarrow> (FieldTransform \<times> Value) list \<Rightarrow> TransformMap option" where
  "server_results_loop previous_data transform_results [] = Some transform_results"
| "server_results_loop previous_data transform_results (((path, transform), r) # results) = do {
     transform_result \<leftarrow> DeepClone r;
     transformed_value \<leftarrow> transform_ApplyToRemoteDocument transform (Get previous_data path) transform_result;
     server_results_loop previous_data (path_map_insert path (Some transformed_value) transform_results) results }"

definition ServerTransformResults :: "FieldTransform list \<Rightarrow> Value \<Rightarrow> Value list \<Rightarrow> TransformMap option" where
  "ServerTransformResults field_transforms previous_data server_transform_results = do {
     _ \<leftarrow> HARD_ASSERT (length field_transforms = length server_transform_results);
     server_results_loop previous_data [] (zip field_transforms server_transform_results) }"

section \<open>Mutations\<close>

datatype MutationBody =
    SetMutation Value Precondition "FieldTransform list"
  | PatchMutation Value "FieldPath list" Precondition "FieldTransform list"
  | DeleteMutation Precondition
  | VerifyMutation Precondition

record FieldMutationResult = MutationResult +
  transform_results :: "Value list"

definition GetPostMutationVersion :: "Value MutableDocument \<Rightarrow> SnapshotVersion" where
  "GetPostMutationVersion document =
     (if is_found_document document then document_version document else SnapshotVersion_None)"

text \<open>The mask is a \<open>std::set\<close>: its paths in order.\<close>

fun patch_loop :: "Value \<Rightarrow> TransformMap \<Rightarrow> FieldPath list \<Rightarrow> TransformMap option" where
  "patch_loop patch_value result [] = Some result"
| "patch_loop patch_value result (path # mask_paths) =
     (if path \<noteq> [] then
        (case Get patch_value path of
           Some v \<Rightarrow> do {
             copy \<leftarrow> DeepClone v;
             patch_loop patch_value (path_map_insert path (Some copy) result) mask_paths }
         | None \<Rightarrow> patch_loop patch_value (path_map_insert path None result) mask_paths)
      else patch_loop patch_value result mask_paths)"

definition GetPatch :: "Value \<Rightarrow> FieldPath list \<Rightarrow> TransformMap option" where
  "GetPatch patch_value mask_paths = patch_loop patch_value [] mask_paths"

definition patched_document :: "Value \<Rightarrow> FieldPath list \<Rightarrow> TransformMap \<Rightarrow> Value MutableDocument \<Rightarrow> Value MutableDocument option" where
  "patched_document patch_value mask_paths results document = do {
     patch \<leftarrow> GetPatch patch_value mask_paths;
     data \<leftarrow> SetAll (document_value document) patch;
     data \<leftarrow> SetAll data results;
     Some (document\<lparr>document_value := data\<rparr>) }"

definition VerifyKeyMatches :: "MutationBody Mutation \<Rightarrow> Value MutableDocument \<Rightarrow> unit option" where
  "VerifyKeyMatches mutation document = HARD_ASSERT (document_key document = mutation_key mutation)"

definition set_ApplyToLocalView ::
  "Value \<Rightarrow> Precondition \<Rightarrow> FieldTransform list \<Rightarrow> Value MutableDocument \<Rightarrow> Timestamp \<Rightarrow> Value MutableDocument option" where
  "set_ApplyToLocalView stored precondition field_transforms document local_time =
     (if \<not> IsValidFor precondition document then Some document
      else do {
        results \<leftarrow> LocalTransformResults field_transforms (document_value document) local_time;
        copy \<leftarrow> DeepClone stored;
        new_data \<leftarrow> ObjectValue copy;
        new_data \<leftarrow> SetAll new_data results;
        Some (SetHasLocalMutations (ConvertToFoundDocument (GetPostMutationVersion document) new_data document)) })"

definition patch_ApplyToLocalView ::
  "Value \<Rightarrow> FieldPath list \<Rightarrow> Precondition \<Rightarrow> FieldTransform list \<Rightarrow> Value MutableDocument \<Rightarrow> Timestamp \<Rightarrow>
   Value MutableDocument option" where
  "patch_ApplyToLocalView patch_value mask_paths precondition field_transforms document local_time =
     (if \<not> IsValidFor precondition document then Some document
      else do {
        results \<leftarrow> LocalTransformResults field_transforms (document_value document) local_time;
        document \<leftarrow> patched_document patch_value mask_paths results document;
        Some (SetHasLocalMutations (ConvertToFoundDocument_same (GetPostMutationVersion document) document)) })"

definition delete_ApplyToLocalView :: "Precondition \<Rightarrow> Value MutableDocument \<Rightarrow> Value MutableDocument option" where
  "delete_ApplyToLocalView precondition document =
     Some (if IsValidFor precondition document then ConvertToNoDocument SnapshotVersion_None document else document)"

definition verify_Apply :: "Value MutableDocument option" where
  "verify_Apply = None"

definition mutation_ApplyToLocalView ::
  "MutationBody Mutation \<Rightarrow> Value MutableDocument \<Rightarrow> Timestamp \<Rightarrow> Value MutableDocument option" where
  "mutation_ApplyToLocalView mutation document local_time = (case effect mutation of
     SetMutation stored precondition field_transforms \<Rightarrow> do {
       _ \<leftarrow> VerifyKeyMatches mutation document;
       set_ApplyToLocalView stored precondition field_transforms document local_time }
   | PatchMutation patch_value mask_paths precondition field_transforms \<Rightarrow> do {
       _ \<leftarrow> VerifyKeyMatches mutation document;
       patch_ApplyToLocalView patch_value mask_paths precondition field_transforms document local_time }
   | DeleteMutation precondition \<Rightarrow> do {
       _ \<leftarrow> VerifyKeyMatches mutation document;
       delete_ApplyToLocalView precondition document }
   | VerifyMutation precondition \<Rightarrow> verify_Apply)"

definition set_ApplyToRemoteDocument ::
  "Value \<Rightarrow> FieldTransform list \<Rightarrow> Value MutableDocument \<Rightarrow> FieldMutationResult \<Rightarrow> Value MutableDocument option" where
  "set_ApplyToRemoteDocument stored field_transforms document mutation_result = do {
     results \<leftarrow> ServerTransformResults field_transforms (document_value document) (transform_results mutation_result);
     copy \<leftarrow> DeepClone stored;
     new_data \<leftarrow> ObjectValue copy;
     new_data \<leftarrow> SetAll new_data results;
     Some (SetHasCommittedMutations (ConvertToFoundDocument (result_version mutation_result) new_data document)) }"

definition patch_ApplyToRemoteDocument ::
  "Value \<Rightarrow> FieldPath list \<Rightarrow> Precondition \<Rightarrow> FieldTransform list \<Rightarrow> Value MutableDocument \<Rightarrow> FieldMutationResult \<Rightarrow>
   Value MutableDocument option" where
  "patch_ApplyToRemoteDocument patch_value mask_paths precondition field_transforms document mutation_result =
     (if \<not> IsValidFor precondition document then
        Some (ConvertToUnknownDocument (result_version mutation_result) document)
      else do {
        results \<leftarrow> ServerTransformResults field_transforms (document_value document) (transform_results mutation_result);
        document \<leftarrow> patched_document patch_value mask_paths results document;
        Some (SetHasCommittedMutations (ConvertToFoundDocument_same (result_version mutation_result) document)) })"

definition delete_ApplyToRemoteDocument :: "Value MutableDocument \<Rightarrow> FieldMutationResult \<Rightarrow> Value MutableDocument option" where
  "delete_ApplyToRemoteDocument document mutation_result = do {
     _ \<leftarrow> HARD_ASSERT (length (transform_results mutation_result) = 0);
     Some (SetHasCommittedMutations (ConvertToNoDocument (result_version mutation_result) document)) }"

definition mutation_ApplyToRemoteDocument ::
  "MutationBody Mutation \<Rightarrow> Value MutableDocument \<Rightarrow> FieldMutationResult \<Rightarrow> Value MutableDocument option" where
  "mutation_ApplyToRemoteDocument mutation document mutation_result = (case effect mutation of
     SetMutation stored precondition field_transforms \<Rightarrow> do {
       _ \<leftarrow> VerifyKeyMatches mutation document;
       set_ApplyToRemoteDocument stored field_transforms document mutation_result }
   | PatchMutation patch_value mask_paths precondition field_transforms \<Rightarrow> do {
       _ \<leftarrow> VerifyKeyMatches mutation document;
       patch_ApplyToRemoteDocument patch_value mask_paths precondition field_transforms document mutation_result }
   | DeleteMutation precondition \<Rightarrow> do {
       _ \<leftarrow> VerifyKeyMatches mutation document;
       delete_ApplyToRemoteDocument document mutation_result }
   | VerifyMutation precondition \<Rightarrow> verify_Apply)"

text \<open>The base values of the transforms that are not idempotent, as an object value of their own.\<close>

fun base_value_loop :: "Value \<Rightarrow> Value option \<Rightarrow> FieldTransform list \<Rightarrow> Value option option" where
  "base_value_loop document_data base_object [] = Some base_object"
| "base_value_loop document_data base_object ((path, transform) # field_transforms) = do {
     coerced_value \<leftarrow> ComputeBaseValue transform (Get document_data path);
     (case coerced_value of
        None \<Rightarrow> base_value_loop document_data base_object field_transforms
      | Some v \<Rightarrow> do {
          obj \<leftarrow> Set_field (case base_object of Some obj \<Rightarrow> obj | None \<Rightarrow> EmptyObjectValue) path v;
          base_value_loop document_data (Some obj) field_transforms }) }"

definition ExtractTransformBaseValue :: "FieldTransform list \<Rightarrow> Value MutableDocument \<Rightarrow> Value option option" where
  "ExtractTransformBaseValue field_transforms document = base_value_loop (document_value document) None field_transforms"

section \<open>What a mutation leaves\<close>

lemmas local_views = mutation_ApplyToLocalView_def set_ApplyToLocalView_def patch_ApplyToLocalView_def
  delete_ApplyToLocalView_def verify_Apply_def VerifyKeyMatches_def HARD_ASSERT_def

lemmas remote_documents = mutation_ApplyToRemoteDocument_def set_ApplyToRemoteDocument_def patch_ApplyToRemoteDocument_def
  delete_ApplyToRemoteDocument_def verify_Apply_def VerifyKeyMatches_def HARD_ASSERT_def

lemmas document_updates = SetHasLocalMutations_def SetHasCommittedMutations_def ConvertToFoundDocument_def
  ConvertToFoundDocument_same_def ConvertToNoDocument_def ConvertToUnknownDocument_def

lemma patched_document_fields:
  "patched_document patch_value mask_paths results document = Some d' \<Longrightarrow>
   document_key d' = document_key document \<and> document_type d' = document_type document \<and>
   document_version d' = document_version document"
  by (auto simp: patched_document_def split: Option.bind_splits)

text \<open>
  C40: An acknowledged mutation leaves its document committed.  Whatever the document was, the key
  stays, the version is the one of the acknowledgement and the state is "committed mutations"; the
  document exists after a set, is deleted after a delete, and after a patch it exists exactly if the
  precondition held for the cached document, and is unknown and empty otherwise.
\<close>

theorem acknowledged_mutation_commits:
  "mutation_ApplyToRemoteDocument mutation document r = Some d' \<Longrightarrow>
   document_key d' = document_key document \<and> document_key document = mutation_key mutation \<and>
   document_version d' = result_version r \<and> document_state d' = kHasCommittedMutations \<and>
   (case effect mutation of
      SetMutation stored precondition field_transforms \<Rightarrow> is_found_document d'
    | PatchMutation patch_value mask_paths precondition field_transforms \<Rightarrow>
        (if IsValidFor precondition document then is_found_document d'
         else document_type d' = kUnknownDocument \<and> document_value d' = EmptyObjectValue)
    | DeleteMutation precondition \<Rightarrow> is_no_document d' \<and> document_value d' = EmptyObjectValue
    | VerifyMutation precondition \<Rightarrow> False)"
  by (cases "effect mutation")
    (auto simp: remote_documents document_updates is_found_document_def is_no_document_def
      default_Value_def patched_document_fields split: Option.bind_splits if_splits)

definition example_document :: "Value MutableDocument" where
  "example_document = \<lparr>document_key = [], document_type = kNoDocument, document_version = SnapshotVersion_None,
     document_value = EmptyObjectValue, document_state = kSynced\<rparr>"

lemma acknowledged_mutation_commits_witness:
  "document_key (ConvertToUnknownDocument \<lparr>seconds = 5, nanoseconds = 0\<rparr> example_document) = document_key example_document \<and>
   document_key example_document = [] \<and>
   document_version (ConvertToUnknownDocument \<lparr>seconds = 5, nanoseconds = 0\<rparr> example_document) = \<lparr>seconds = 5, nanoseconds = 0\<rparr> \<and>
   document_state (ConvertToUnknownDocument \<lparr>seconds = 5, nanoseconds = 0\<rparr> example_document) = kHasCommittedMutations"
  using acknowledged_mutation_commits
    [of "\<lparr>mutation_key = [], effect = PatchMutation EmptyObjectValue [] (Precondition_Exists True) []\<rparr>" example_document
      "\<lparr>result_version = \<lparr>seconds = 5, nanoseconds = 0\<rparr>, transform_results = []\<rparr>"
      "ConvertToUnknownDocument \<lparr>seconds = 5, nanoseconds = 0\<rparr> example_document"]
  by (simp add: remote_documents example_document_def IsValidFor_def is_found_document_def)

text \<open>
  A local mutation whose precondition fails leaves the document alone; otherwise a set or a patch
  leaves a found document with local mutations at the version of the found document before.
\<close>

lemma local_mutation_outcome:
  "mutation_ApplyToLocalView mutation document t = Some d' \<Longrightarrow>
   (case effect mutation of
      SetMutation stored precondition field_transforms \<Rightarrow>
        if IsValidFor precondition document then
          is_found_document d' \<and> document_state d' = kHasLocalMutations \<and> document_version d' = GetPostMutationVersion document
        else d' = document
    | PatchMutation patch_value mask_paths precondition field_transforms \<Rightarrow>
        if IsValidFor precondition document then
          is_found_document d' \<and> document_state d' = kHasLocalMutations \<and> document_version d' = GetPostMutationVersion document
        else d' = document
    | DeleteMutation precondition \<Rightarrow>
        if IsValidFor precondition document then is_no_document d' \<and> document_version d' = SnapshotVersion_None
        else d' = document
    | VerifyMutation precondition \<Rightarrow> False)"
  by (cases "effect mutation")
    (auto simp: local_views document_updates is_found_document_def is_no_document_def
      GetPostMutationVersion_def patched_document_fields split: Option.bind_splits if_splits)

text \<open>
  The deletion that spares the next field, through a patch: the mask asks for \<open>a\<close> and \<open>b\<close> to be
  deleted, the document has no \<open>a\<close>, and the local view loses \<open>c\<close> instead of \<open>b\<close>.
\<close>

lemma patch_loses_another_field:
  "a < b \<Longrightarrow> b < c \<Longrightarrow>
   patched_document EmptyObjectValue [[a], [b]] [] (document\<lparr>document_value := map_value [(Some b, x), (Some c, y)]\<rparr>) =
   Some (document\<lparr>document_value := map_value [(Some b, x)]\<rparr>)"
proof -
  assume lt: "a < b" "b < c"
  have ne: "\<not> b < a" "a \<noteq> b" using lt by auto
  have patch: "GetPatch EmptyObjectValue [[a], [b]] = Some [([a], None), ([b], None)]"
    using ne by (auto simp: GetPatch_def EmptyObjectValue_def FindEntry_def equal_range_entries_def path_CompareTo_def Compare_def Let_def)
  have set_all: "SetAll (map_value [(Some b, x), (Some c, y)]) [([a], None), ([b], None)] = Some (map_value [(Some b, x)])"
    using lt by (simp add: set_all_steps changes_with_absent_delete del: string_set_insert.simps(2))
  have "ApplyChanges [(Some b, x)] [] [] = Some [(Some b, x)]"
    by (simp add: ApplyChanges_def CalculateSizeOfUnion_def CheckedSize_def HARD_ASSERT_def PB_SIZE_MAX_def merge_changes.simps)
  then have "SetAll (map_value [(Some b, x)]) [] = Some (map_value [(Some b, x)])" by (simp add: SetAll_def)
  then show ?thesis using patch set_all by (simp add: patched_document_def)
qed

end
