(* ===== verification/Queries.thy ===== *)
theory Queries
  imports Mutations RemoteEvents
begin

text \<open>
  Queries, under \<open>Firestore/core/src/core\<close>: \<open>filter.h\<close> and \<open>field_filter.cc\<close> with the classes derived
  from it, \<open>direction.cc\<close>, \<open>order_by.cc\<close>, \<open>bound.cc\<close>, \<open>query.cc\<close> and \<open>target.cc\<close>.  A class of filters
  is a constructor with the members of its \<open>Rep\<close>.  The orders and the target that a query computes
  once and keeps are computed on every use.  A failed assertion and an exception have no result.
\<close>

type_synonym Document = "Value MutableDocument"

section \<open>Filters\<close>

datatype Operator =
    LessThan | LessThanOrEqual | Equal | NotEqual | GreaterThanOrEqual | GreaterThan
  | ArrayContains | In | ArrayContainsAny | NotIn

datatype FilterType =
    kArrayContainsAnyFilter | kArrayContainsFilter | kFieldFilter | kInFilter | kNotInFilter
  | kKeyFieldFilter | kKeyFieldInFilter | kKeyFieldNotInFilter

definition IsArrayOperator :: "Operator \<Rightarrow> bool" where
  "IsArrayOperator op \<longleftrightarrow> op = ArrayContains \<or> op = ArrayContainsAny"

definition IsDisjunctiveOperator :: "Operator \<Rightarrow> bool" where
  "IsDisjunctiveOperator op \<longleftrightarrow> op = In \<or> op = ArrayContainsAny \<or> op = NotIn"

datatype FieldFilter =
    FieldFilter FieldPath Operator Value
  | ArrayContainsFilter FieldPath Value
  | ArrayContainsAnyFilter FieldPath Value
  | InFilter FieldPath Value
  | NotInFilter FieldPath Value
  | KeyFieldFilter FieldPath Operator Value DocumentKey
  | KeyFieldInFilter FieldPath Value "DocumentKey set"
  | KeyFieldNotInFilter FieldPath Value "DocumentKey set"

primrec filter_field :: "FieldFilter \<Rightarrow> FieldPath" where
  "filter_field (FieldFilter field op rhs) = field"
| "filter_field (ArrayContainsFilter field rhs) = field"
| "filter_field (ArrayContainsAnyFilter field rhs) = field"
| "filter_field (InFilter field rhs) = field"
| "filter_field (NotInFilter field rhs) = field"
| "filter_field (KeyFieldFilter field op rhs key) = field"
| "filter_field (KeyFieldInFilter field rhs keys) = field"
| "filter_field (KeyFieldNotInFilter field rhs keys) = field"

primrec filter_op :: "FieldFilter \<Rightarrow> Operator" where
  "filter_op (FieldFilter field op rhs) = op"
| "filter_op (ArrayContainsFilter field rhs) = ArrayContains"
| "filter_op (ArrayContainsAnyFilter field rhs) = ArrayContainsAny"
| "filter_op (InFilter field rhs) = In"
| "filter_op (NotInFilter field rhs) = NotIn"
| "filter_op (KeyFieldFilter field op rhs key) = op"
| "filter_op (KeyFieldInFilter field rhs keys) = In"
| "filter_op (KeyFieldNotInFilter field rhs keys) = NotIn"

primrec filter_value :: "FieldFilter \<Rightarrow> Value" where
  "filter_value (FieldFilter field op rhs) = rhs"
| "filter_value (ArrayContainsFilter field rhs) = rhs"
| "filter_value (ArrayContainsAnyFilter field rhs) = rhs"
| "filter_value (InFilter field rhs) = rhs"
| "filter_value (NotInFilter field rhs) = rhs"
| "filter_value (KeyFieldFilter field op rhs key) = rhs"
| "filter_value (KeyFieldInFilter field rhs keys) = rhs"
| "filter_value (KeyFieldNotInFilter field rhs keys) = rhs"

primrec filter_type :: "FieldFilter \<Rightarrow> FilterType" where
  "filter_type (FieldFilter field op rhs) = kFieldFilter"
| "filter_type (ArrayContainsFilter field rhs) = kArrayContainsFilter"
| "filter_type (ArrayContainsAnyFilter field rhs) = kArrayContainsAnyFilter"
| "filter_type (InFilter field rhs) = kInFilter"
| "filter_type (NotInFilter field rhs) = kNotInFilter"
| "filter_type (KeyFieldFilter field op rhs key) = kKeyFieldFilter"
| "filter_type (KeyFieldInFilter field rhs keys) = kKeyFieldInFilter"
| "filter_type (KeyFieldNotInFilter field rhs keys) = kKeyFieldInFilter"

subsection \<open>Construction\<close>

text \<open>\<open>DocumentKey::FromName(MakeString(value.reference_value))\<close>.\<close>

definition reference_key :: "Absl \<Rightarrow> bytes ptr \<Rightarrow> DocumentKey option" where
  "reference_key absl s = (case FromName absl (MakeStringView s) of Inl e \<Rightarrow> None | Inr key \<Rightarrow> key)"

definition make_KeyFieldFilter :: "Absl \<Rightarrow> FieldPath \<Rightarrow> Operator \<Rightarrow> Value \<Rightarrow> FieldFilter option" where
  "make_KeyFieldFilter absl field op v = (case v of
     reference_value s \<Rightarrow> do { key \<leftarrow> reference_key absl s; Some (KeyFieldFilter field op v key) }
   | _ \<Rightarrow> None)"

fun extract_keys :: "Absl \<Rightarrow> Value list \<Rightarrow> DocumentKey set \<Rightarrow> DocumentKey set option" where
  "extract_keys absl [] keys = Some keys"
| "extract_keys absl (v # vs) keys = (case v of
     reference_value s \<Rightarrow> do { key \<leftarrow> reference_key absl s; extract_keys absl vs (insert key keys) }
   | _ \<Rightarrow> None)"

definition ExtractDocumentKeysFromValue :: "Absl \<Rightarrow> Value \<Rightarrow> DocumentKey set option" where
  "ExtractDocumentKeysFromValue absl v = (case v of array_value vs \<Rightarrow> extract_keys absl vs {} | _ \<Rightarrow> None)"

definition filter_Create :: "Absl \<Rightarrow> FieldPath \<Rightarrow> Operator \<Rightarrow> Value \<Rightarrow> FieldFilter option" where
  "filter_Create absl path op value_rhs = (let value_rhs = SortFields value_rhs in
     if IsKeyFieldPath path then
       if op = In then map_option (KeyFieldInFilter path value_rhs) (ExtractDocumentKeysFromValue absl value_rhs)
       else if op = NotIn then map_option (KeyFieldNotInFilter path value_rhs) (ExtractDocumentKeysFromValue absl value_rhs)
       else do {
         _ \<leftarrow> HARD_ASSERT (\<not> IsArrayOperator op);
         make_KeyFieldFilter absl path op value_rhs }
     else if op = ArrayContains then Some (ArrayContainsFilter path value_rhs)
     else if op = In then do { _ \<leftarrow> HARD_ASSERT (IsArray value_rhs); Some (InFilter path value_rhs) }
     else if op = ArrayContainsAny then do { _ \<leftarrow> HARD_ASSERT (IsArray value_rhs); Some (ArrayContainsAnyFilter path value_rhs) }
     else if op = NotIn then do { _ \<leftarrow> HARD_ASSERT (IsArray value_rhs); Some (NotInFilter path value_rhs) }
     else Some (FieldFilter path op value_rhs))"

definition IsInequality :: "FieldFilter \<Rightarrow> bool" where
  "IsInequality f \<longleftrightarrow> filter_op f = LessThan \<or> filter_op f = LessThanOrEqual \<or> filter_op f = GreaterThan \<or>
     filter_op f = GreaterThanOrEqual \<or> filter_op f = NotEqual \<or> filter_op f = NotIn"

subsection \<open>Matching\<close>

fun MatchesComparison :: "Operator \<Rightarrow> ComparisonResult \<Rightarrow> bool option" where
  "MatchesComparison LessThan comparison = Some (comparison = Ascending)"
| "MatchesComparison LessThanOrEqual comparison = Some (comparison = Ascending \<or> comparison = Same)"
| "MatchesComparison Equal comparison = Some (comparison = Same)"
| "MatchesComparison GreaterThanOrEqual comparison = Some (comparison = Descending \<or> comparison = Same)"
| "MatchesComparison GreaterThan comparison = Some (comparison = Descending)"
| "MatchesComparison NotEqual comparison = Some (comparison \<noteq> Same)"
| "MatchesComparison _ comparison = None"

definition document_field :: "Document \<Rightarrow> FieldPath \<Rightarrow> Value option" where
  "document_field doc field = Get (document_value doc) field"

text \<open>The member of the union that the constructors have checked.\<close>

fun array_elements :: "Value \<Rightarrow> Value list option" where
  "array_elements (array_value vs) = Some vs"
| "array_elements _ = None"

fun contains_any :: "Value list \<Rightarrow> Value list \<Rightarrow> bool option" where
  "contains_any haystack [] = Some False"
| "contains_any haystack (v # vs) = do { c \<leftarrow> Contains haystack v; if c then Some True else contains_any haystack vs }"

definition field_Matches :: "Absl \<Rightarrow> FieldPath \<Rightarrow> Operator \<Rightarrow> Value \<Rightarrow> Document \<Rightarrow> bool option" where
  "field_Matches absl field op rhs doc = (case document_field doc field of
     None \<Rightarrow> Some False
   | Some lhs \<Rightarrow>
       if op = NotEqual then do { c \<leftarrow> VCompare absl lhs rhs; MatchesComparison op c }
       else do {
         left_type \<leftarrow> GetTypeOrder lhs;
         right_type \<leftarrow> GetTypeOrder rhs;
         if left_type = right_type then do { c \<leftarrow> VCompare absl lhs rhs; MatchesComparison op c } else Some False })"

definition array_contains_Matches :: "FieldPath \<Rightarrow> Value \<Rightarrow> Document \<Rightarrow> bool option" where
  "array_contains_Matches field rhs doc = (case document_field doc field of
     None \<Rightarrow> Some False
   | Some lhs \<Rightarrow> (case lhs of array_value vs \<Rightarrow> Contains vs rhs | _ \<Rightarrow> Some False))"

definition array_contains_any_Matches :: "FieldPath \<Rightarrow> Value \<Rightarrow> Document \<Rightarrow> bool option" where
  "array_contains_any_Matches field rhs doc = do {
     haystack \<leftarrow> array_elements rhs;
     case document_field doc field of
       None \<Rightarrow> Some False
     | Some lhs \<Rightarrow> (case lhs of array_value vs \<Rightarrow> contains_any haystack vs | _ \<Rightarrow> Some False) }"

definition in_Matches :: "FieldPath \<Rightarrow> Value \<Rightarrow> Document \<Rightarrow> bool option" where
  "in_Matches field rhs doc = do {
     haystack \<leftarrow> array_elements rhs;
     case document_field doc field of None \<Rightarrow> Some False | Some lhs \<Rightarrow> Contains haystack lhs }"

definition not_in_Matches :: "FieldPath \<Rightarrow> Value \<Rightarrow> Document \<Rightarrow> bool option" where
  "not_in_Matches field rhs doc = do {
     haystack \<leftarrow> array_elements rhs;
     has_null \<leftarrow> Contains haystack NullValue;
     if has_null then Some False
     else (case document_field doc field of None \<Rightarrow> Some False | Some lhs \<Rightarrow> map_option Not (Contains haystack lhs)) }"

primrec filter_Matches :: "Absl \<Rightarrow> FieldFilter \<Rightarrow> Document \<Rightarrow> bool option" where
  "filter_Matches absl (FieldFilter field op rhs) doc = field_Matches absl field op rhs doc"
| "filter_Matches absl (ArrayContainsFilter field rhs) doc = array_contains_Matches field rhs doc"
| "filter_Matches absl (ArrayContainsAnyFilter field rhs) doc = array_contains_any_Matches field rhs doc"
| "filter_Matches absl (InFilter field rhs) doc = in_Matches field rhs doc"
| "filter_Matches absl (NotInFilter field rhs) doc = not_in_Matches field rhs doc"
| "filter_Matches absl (KeyFieldFilter field op rhs key) doc = MatchesComparison op (key_CompareTo (document_key doc) key)"
| "filter_Matches absl (KeyFieldInFilter field rhs keys) doc = Some (document_key doc \<in> keys)"
| "filter_Matches absl (KeyFieldNotInFilter field rhs keys) doc = Some (document_key doc \<notin> keys)"

subsection \<open>Equality and canonical ids\<close>

definition filter_Equals :: "FieldFilter \<Rightarrow> FieldFilter \<Rightarrow> bool option" where
  "filter_Equals f g =
     (if filter_type f \<noteq> filter_type g then Some False
      else if filter_op f = filter_op g \<and> filter_field f = filter_field g then Equals (filter_value f) (filter_value g)
      else Some False)"

primrec CanonicalName :: "Operator \<Rightarrow> bytes" where
  "CanonicalName LessThan = c_str ''<''"
| "CanonicalName LessThanOrEqual = c_str ''<=''"
| "CanonicalName Equal = c_str ''==''"
| "CanonicalName NotEqual = c_str ''!=''"
| "CanonicalName GreaterThanOrEqual = c_str ''>=''"
| "CanonicalName GreaterThan = c_str ''>''"
| "CanonicalName ArrayContains = c_str ''array_contains''"
| "CanonicalName In = c_str ''in''"
| "CanonicalName ArrayContainsAny = c_str ''array-contains-any''"
| "CanonicalName NotIn = c_str ''not-in''"

definition filter_CanonicalId :: "Absl \<Rightarrow> Absl_format \<Rightarrow> FieldFilter \<Rightarrow> bytes option" where
  "filter_CanonicalId absl fmt f = do {
     v \<leftarrow> CanonicalId absl fmt (filter_value f);
     Some (CanonicalString absl (filter_field f) @ CanonicalName (filter_op f) @ v) }"

section \<open>Orders and bounds\<close>

datatype Direction = Direction_Ascending | Direction_Descending

definition ApplyTo :: "Direction \<Rightarrow> ComparisonResult \<Rightarrow> ComparisonResult" where
  "ApplyTo direction r = (if direction = Direction_Ascending then r else ReverseOrder r)"

definition direction_CanonicalId :: "Direction \<Rightarrow> bytes" where
  "direction_CanonicalId direction = (if direction = Direction_Ascending then c_str ''asc'' else c_str ''desc'')"

record OrderBy =
  order_field :: FieldPath
  order_direction :: Direction

definition order_Compare :: "Absl \<Rightarrow> OrderBy \<Rightarrow> Document \<Rightarrow> Document \<Rightarrow> ComparisonResult option" where
  "order_Compare absl order lhs rhs = do {
     r \<leftarrow> (if order_field order = KeyFieldPath then Some (key_CompareTo (document_key lhs) (document_key rhs))
           else do {
             v \<leftarrow> document_field lhs (order_field order);
             w \<leftarrow> document_field rhs (order_field order);
             VCompare absl v w });
     Some (ApplyTo (order_direction order) r) }"

definition order_CanonicalId :: "Absl \<Rightarrow> OrderBy \<Rightarrow> bytes" where
  "order_CanonicalId absl order =
     CanonicalString absl (order_field order) @ direction_CanonicalId (order_direction order)"

record Bound =
  bound_position :: "Value list"
  bound_before :: bool

definition FromValue :: "Value list \<Rightarrow> bool \<Rightarrow> Bound" where
  "FromValue position is_before = \<lparr>bound_position = map SortFields position, bound_before = is_before\<rparr>"

definition compare_component :: "Absl \<Rightarrow> Value \<Rightarrow> OrderBy \<Rightarrow> Document \<Rightarrow> ComparisonResult option" where
  "compare_component absl field_value ordering_component document = do {
     comparison \<leftarrow>
       (if order_field ordering_component = KeyFieldPath then
          (case field_value of
             reference_value s \<Rightarrow> do { key \<leftarrow> reference_key absl s; Some (key_CompareTo key (document_key document)) }
           | _ \<Rightarrow> None)
        else do {
          doc_value \<leftarrow> document_field document (order_field ordering_component);
          VCompare absl field_value doc_value });
     Some (ApplyTo (order_direction ordering_component) comparison) }"

fun compare_position :: "Absl \<Rightarrow> Value list \<Rightarrow> OrderBy list \<Rightarrow> Document \<Rightarrow> ComparisonResult option" where
  "compare_position absl (field_value # position) (ordering_component # order_by) document = do {
     comparison \<leftarrow> compare_component absl field_value ordering_component document;
     if comparison \<noteq> Same then Some comparison else compare_position absl position order_by document }"
| "compare_position absl _ _ document = Some Same"

definition SortsBeforeDocument :: "Absl \<Rightarrow> Bound \<Rightarrow> OrderBy list \<Rightarrow> Document \<Rightarrow> bool option" where
  "SortsBeforeDocument absl bound order_by document = do {
     _ \<leftarrow> HARD_ASSERT (length (bound_position bound) \<le> length order_by);
     result \<leftarrow> compare_position absl (bound_position bound) order_by document;
     Some (if bound_before bound then result \<noteq> Descending else result = Ascending) }"

fun concat_ids :: "('a \<Rightarrow> bytes option) \<Rightarrow> 'a list \<Rightarrow> bytes option" where
  "concat_ids f [] = Some []"
| "concat_ids f (x # xs) = do { s \<leftarrow> f x; rest \<leftarrow> concat_ids f xs; Some (s @ rest) }"

definition bound_CanonicalId :: "Absl \<Rightarrow> Absl_format \<Rightarrow> Bound \<Rightarrow> bytes option" where
  "bound_CanonicalId absl fmt bound = map_option
     ((@) (if bound_before bound then c_str ''b:'' else c_str ''a:''))
     (concat_ids (CanonicalId absl fmt) (bound_position bound))"

definition bound_Equals :: "Bound \<Rightarrow> Bound \<Rightarrow> bool option" where
  "bound_Equals lhs rhs = do {
     e \<leftarrow> Equals (array_value (bound_position lhs)) (array_value (bound_position rhs));
     Some (e \<and> bound_before lhs = bound_before rhs) }"

section \<open>Queries\<close>

definition kNoLimit :: s32 where
  "kNoLimit = 2147483647"

datatype LimitType = LimitType_None | LimitType_First | LimitType_Last

record FilteredQuery = Query +
  query_filters :: "FieldFilter list"
  explicit_order_bys :: "OrderBy list"
  query_limit :: s32
  query_limit_type :: LimitType
  query_start_at :: "Bound option"
  query_end_at :: "Bound option"

definition make_Query :: "ResourcePath \<Rightarrow> bytes option \<Rightarrow> FilteredQuery" where
  "make_Query path group_id = \<lparr>query_path = path, collection_group = group_id, query_filters = [],
     explicit_order_bys = [], query_limit = kNoLimit, query_limit_type = LimitType_None,
     query_start_at = None, query_end_at = None\<rparr>"

definition query_IsDocumentQuery :: "FilteredQuery \<Rightarrow> bool" where
  "query_IsDocumentQuery q \<longleftrightarrow> IsDocumentKey (query_path q) \<and> collection_group q = None \<and> query_filters q = []"

definition MatchesAllDocuments :: "FilteredQuery \<Rightarrow> bool" where
  "MatchesAllDocuments q \<longleftrightarrow>
     query_filters q = [] \<and> query_limit q = kNoLimit \<and> query_start_at q = None \<and> query_end_at q = None \<and>
     (case explicit_order_bys q of [] \<Rightarrow> True | [order] \<Rightarrow> IsKeyFieldPath (order_field order) | _ \<Rightarrow> False)"

definition InequalityFilterField :: "FilteredQuery \<Rightarrow> FieldPath option" where
  "InequalityFilterField q = map_option filter_field (List.find IsInequality (query_filters q))"

definition FindOperator :: "Operator list \<Rightarrow> FilteredQuery \<Rightarrow> Operator option" where
  "FindOperator ops q = map_option filter_op (List.find (\<lambda>f. filter_op f \<in> set ops) (query_filters q))"

definition FirstOrderByField :: "FilteredQuery \<Rightarrow> FieldPath option" where
  "FirstOrderByField q = (case explicit_order_bys q of [] \<Rightarrow> None | order # _ \<Rightarrow> Some (order_field order))"

definition implicit_orders :: "FieldPath \<Rightarrow> OrderBy list" where
  "implicit_orders inequality_field =
     (if IsKeyFieldPath inequality_field then [\<lparr>order_field = KeyFieldPath, order_direction = Direction_Ascending\<rparr>]
      else [\<lparr>order_field = inequality_field, order_direction = Direction_Ascending\<rparr>,
            \<lparr>order_field = KeyFieldPath, order_direction = Direction_Ascending\<rparr>])"

definition with_key_order :: "OrderBy list \<Rightarrow> OrderBy list" where
  "with_key_order orders =
     (if \<exists>order \<in> set orders. IsKeyFieldPath (order_field order) then orders
      else let last_direction = (if orders = [] then Direction_Ascending else order_direction (last orders))
           in orders @ [\<lparr>order_field = KeyFieldPath, order_direction = last_direction\<rparr>])"

definition order_bys :: "FilteredQuery \<Rightarrow> OrderBy list option" where
  "order_bys q =
     (case (InequalityFilterField q, FirstOrderByField q) of
        (Some inequality_field, None) \<Rightarrow> Some (implicit_orders inequality_field)
      | (inequality_field, first_order_by_field) \<Rightarrow> do {
          _ \<leftarrow> HARD_ASSERT (inequality_field = None \<or> inequality_field = first_order_by_field);
          Some (with_key_order (explicit_order_bys q)) })"

definition limit_of :: "FilteredQuery \<Rightarrow> s32 option" where
  "limit_of q = do { _ \<leftarrow> HARD_ASSERT (query_limit_type q \<noteq> LimitType_None); Some (query_limit q) }"

definition has_limit_to_first :: "FilteredQuery \<Rightarrow> bool" where
  "has_limit_to_first q \<longleftrightarrow> query_limit_type q = LimitType_First \<and> query_limit q \<noteq> kNoLimit"

definition has_limit_to_last :: "FilteredQuery \<Rightarrow> bool" where
  "has_limit_to_last q \<longleftrightarrow> query_limit_type q = LimitType_Last \<and> query_limit q \<noteq> kNoLimit"

subsection \<open>Building queries\<close>

definition AddingFilter :: "FieldFilter \<Rightarrow> FilteredQuery \<Rightarrow> FilteredQuery option" where
  "AddingFilter f q = do {
     _ \<leftarrow> HARD_ASSERT (\<not> query_IsDocumentQuery q);
     let new_inequality_field = (if IsInequality f then Some (filter_field f) else None);
     let query_inequality_field = InequalityFilterField q;
     _ \<leftarrow> HARD_ASSERT (query_inequality_field = None \<or> new_inequality_field = None \<or>
            query_inequality_field = new_inequality_field);
     Some (q\<lparr>query_filters := query_filters q @ [f]\<rparr>) }"

definition AddingOrderBy :: "OrderBy \<Rightarrow> FilteredQuery \<Rightarrow> FilteredQuery option" where
  "AddingOrderBy order q = do {
     _ \<leftarrow> HARD_ASSERT (\<not> query_IsDocumentQuery q);
     _ \<leftarrow> HARD_ASSERT (explicit_order_bys q = [] \<longrightarrow>
            InequalityFilterField q = None \<or> InequalityFilterField q = Some (order_field order));
     Some (q\<lparr>explicit_order_bys := explicit_order_bys q @ [order]\<rparr>) }"

definition WithLimitToFirst :: "s32 \<Rightarrow> FilteredQuery \<Rightarrow> FilteredQuery" where
  "WithLimitToFirst n q = q\<lparr>query_limit := n, query_limit_type := LimitType_First\<rparr>"

definition WithLimitToLast :: "s32 \<Rightarrow> FilteredQuery \<Rightarrow> FilteredQuery" where
  "WithLimitToLast n q = q\<lparr>query_limit := n, query_limit_type := LimitType_Last\<rparr>"

definition StartingAt :: "Bound \<Rightarrow> FilteredQuery \<Rightarrow> FilteredQuery" where
  "StartingAt bound q = q\<lparr>query_start_at := Some bound\<rparr>"

definition EndingAt :: "Bound \<Rightarrow> FilteredQuery \<Rightarrow> FilteredQuery" where
  "EndingAt bound q = q\<lparr>query_end_at := Some bound\<rparr>"

definition AsCollectionQueryAtPath :: "ResourcePath \<Rightarrow> FilteredQuery \<Rightarrow> FilteredQuery" where
  "AsCollectionQueryAtPath path q = q\<lparr>query_path := path, collection_group := None\<rparr>"

subsection \<open>Matching\<close>

definition MatchesPathAndCollectionGroup :: "FilteredQuery \<Rightarrow> Document \<Rightarrow> bool option" where
  "MatchesPathAndCollectionGroup q doc = (let doc_path = document_key doc in
     case collection_group q of
       Some group_id \<Rightarrow> do {
         has_id \<leftarrow> HasCollectionId (document_key doc) group_id;
         Some (has_id \<and> IsPrefixOf (query_path q) doc_path) }
     | None \<Rightarrow> Some (if IsDocumentKey (query_path q) then query_path q = doc_path
                else IsImmediateParentOf (query_path q) doc_path))"

fun filters_match :: "Absl \<Rightarrow> FieldFilter list \<Rightarrow> Document \<Rightarrow> bool option" where
  "filters_match absl [] doc = Some True"
| "filters_match absl (f # fs) doc = do {
     matches \<leftarrow> filter_Matches absl f doc;
     if matches then filters_match absl fs doc else Some False }"

definition MatchesFilters :: "Absl \<Rightarrow> FilteredQuery \<Rightarrow> Document \<Rightarrow> bool option" where
  "MatchesFilters absl q doc = filters_match absl (query_filters q) doc"

definition MatchesOrderBy :: "FilteredQuery \<Rightarrow> Document \<Rightarrow> bool" where
  "MatchesOrderBy q doc \<longleftrightarrow>
     (\<forall>order \<in> set (explicit_order_bys q).
        \<not> (order_field order \<noteq> KeyFieldPath \<and> document_field doc (order_field order) = None))"

definition MatchesBounds :: "Absl \<Rightarrow> FilteredQuery \<Rightarrow> Document \<Rightarrow> bool option" where
  "MatchesBounds absl q doc = do {
     orders \<leftarrow> order_bys q;
     after_start \<leftarrow> (case query_start_at q of None \<Rightarrow> Some True | Some b \<Rightarrow> SortsBeforeDocument absl b orders doc);
     if \<not> after_start then Some False
     else do {
       after_end \<leftarrow> (case query_end_at q of None \<Rightarrow> Some False | Some b \<Rightarrow> SortsBeforeDocument absl b orders doc);
       Some (\<not> after_end) } }"

definition Matches :: "Absl \<Rightarrow> FilteredQuery \<Rightarrow> Document \<Rightarrow> bool option" where
  "Matches absl q doc =
     (if \<not> is_found_document doc then Some False
      else do {
        path \<leftarrow> MatchesPathAndCollectionGroup q doc;
        if \<not> path \<or> \<not> MatchesOrderBy q doc then Some False
        else do {
          filters \<leftarrow> MatchesFilters absl q doc;
          if \<not> filters then Some False else MatchesBounds absl q doc } })"

subsection \<open>Comparing\<close>

type_synonym DocumentComparator = "Document \<Rightarrow> Document \<Rightarrow> ComparisonResult option"

fun compare_orders :: "Absl \<Rightarrow> OrderBy list \<Rightarrow> DocumentComparator" where
  "compare_orders absl [] doc1 doc2 = Some Same"
| "compare_orders absl (order # orders) doc1 doc2 = do {
     comp \<leftarrow> order_Compare absl order doc1 doc2;
     if comp \<noteq> Same then Some comp else compare_orders absl orders doc1 doc2 }"

definition Comparator :: "Absl \<Rightarrow> FilteredQuery \<Rightarrow> DocumentComparator option" where
  "Comparator absl q = do {
     orders \<leftarrow> order_bys q;
     _ \<leftarrow> HARD_ASSERT (\<exists>order \<in> set orders. order_field order = KeyFieldPath);
     Some (compare_orders absl orders) }"

section \<open>Targets\<close>

record QueryTarget = "FieldFilter Target" +
  target_order_bys :: "OrderBy list"
  target_limit :: s32
  target_start_at :: "Bound option"
  target_end_at :: "Bound option"

definition flip_order :: "OrderBy \<Rightarrow> OrderBy" where
  "flip_order order = order\<lparr>order_direction :=
     (if order_direction order = Direction_Descending then Direction_Ascending else Direction_Descending)\<rparr>"

definition flip_bound :: "Bound \<Rightarrow> Bound" where
  "flip_bound bound = FromValue (bound_position bound) (\<not> bound_before bound)"

definition ToTarget :: "FilteredQuery \<Rightarrow> QueryTarget option" where
  "ToTarget q = do {
     orders \<leftarrow> order_bys q;
     Some (if query_limit_type q = LimitType_Last then
         \<lparr>target_path = query_path q, target_collection_group = collection_group q, target_filters = query_filters q,
          target_order_bys = map flip_order orders, target_limit = query_limit q,
          target_start_at = map_option flip_bound (query_end_at q), target_end_at = map_option flip_bound (query_start_at q)\<rparr>
       else
         \<lparr>target_path = query_path q, target_collection_group = collection_group q, target_filters = query_filters q,
          target_order_bys = orders, target_limit = query_limit q,
          target_start_at = query_start_at q, target_end_at = query_end_at q\<rparr>) }"

definition target_CanonicalId :: "Absl \<Rightarrow> Absl_format \<Rightarrow> QueryTarget \<Rightarrow> bytes option" where
  "target_CanonicalId absl fmt t = do {
     filters \<leftarrow> concat_ids (filter_CanonicalId absl fmt) (target_filters t);
     lower \<leftarrow> (case target_start_at t of None \<Rightarrow> Some [] | Some b \<Rightarrow> map_option ((@) (c_str ''|lb:'')) (bound_CanonicalId absl fmt b));
     upper \<leftarrow> (case target_end_at t of None \<Rightarrow> Some [] | Some b \<Rightarrow> map_option ((@) (c_str ''|ub:'')) (bound_CanonicalId absl fmt b));
     Some (ResourcePath_CanonicalString absl (target_path t) @
       (case target_collection_group t of None \<Rightarrow> [] | Some group_id \<Rightarrow> c_str ''|cg:'' @ group_id) @
       c_str ''|f:'' @ filters @
       c_str ''|ob:'' @ concat (map (order_CanonicalId absl) (target_order_bys t)) @
       (if target_limit t \<noteq> kNoLimit then c_str ''|l:'' @ to_decimal (sint (target_limit t)) else []) @
       lower @ upper) }"

definition query_CanonicalId :: "Absl \<Rightarrow> Absl_format \<Rightarrow> FilteredQuery \<Rightarrow> bytes option" where
  "query_CanonicalId absl fmt q = do {
     t \<leftarrow> ToTarget q;
     s \<leftarrow> target_CanonicalId absl fmt t;
     Some (if query_limit_type q \<noteq> LimitType_None
           then s @ c_str ''|lt:'' @ (if query_limit_type q = LimitType_Last then c_str ''l'' else c_str ''f'') else s) }"

text \<open>\<open>absl::c_equal\<close>: lists of one length, compared up to the first difference.\<close>

fun filter_pairs_equal :: "FieldFilter list \<Rightarrow> FieldFilter list \<Rightarrow> bool option" where
  "filter_pairs_equal (f # fs) (g # gs) = do { e \<leftarrow> filter_Equals f g; if e then filter_pairs_equal fs gs else Some False }"
| "filter_pairs_equal _ _ = Some True"

definition filters_equal :: "FieldFilter list \<Rightarrow> FieldFilter list \<Rightarrow> bool option" where
  "filters_equal lhs rhs = (if length lhs = length rhs then filter_pairs_equal lhs rhs else Some False)"

fun bounds_equal :: "Bound option \<Rightarrow> Bound option \<Rightarrow> bool option" where
  "bounds_equal (Some b) (Some c) = bound_Equals b c"
| "bounds_equal None None = Some True"
| "bounds_equal _ _ = Some False"

definition target_Equals :: "QueryTarget \<Rightarrow> QueryTarget \<Rightarrow> bool option" where
  "target_Equals lhs rhs =
     (if target_path lhs \<noteq> target_path rhs \<or> target_collection_group lhs \<noteq> target_collection_group rhs then Some False
      else do {
        filters \<leftarrow> filters_equal (target_filters lhs) (target_filters rhs);
        if \<not> filters \<or> target_order_bys lhs \<noteq> target_order_bys rhs \<or> target_limit lhs \<noteq> target_limit rhs then Some False
        else do {
          lower \<leftarrow> bounds_equal (target_start_at lhs) (target_start_at rhs);
          if lower then bounds_equal (target_end_at lhs) (target_end_at rhs) else Some False } })"

definition query_Equals :: "FilteredQuery \<Rightarrow> FilteredQuery \<Rightarrow> bool option" where
  "query_Equals lhs rhs =
     (if query_limit_type lhs \<noteq> query_limit_type rhs then Some False
      else do { t \<leftarrow> ToTarget lhs; u \<leftarrow> ToTarget rhs; target_Equals t u })"

text \<open>The query of a bundle, as \<open>FirestoreClient::GetNamedQuery\<close> makes it from its target and limit type.\<close>

definition query_of_target :: "LimitType \<Rightarrow> QueryTarget \<Rightarrow> FilteredQuery" where
  "query_of_target limit_type t = \<lparr>query_path = target_path t, collection_group = target_collection_group t,
     query_filters = target_filters t, explicit_order_bys = target_order_bys t, query_limit = target_limit t,
     query_limit_type = limit_type, query_start_at = target_start_at t, query_end_at = target_end_at t\<rparr>"

end
