(* ===== verification/QuerySpec.thy ===== *)
theory QuerySpec
  imports Queries ValueOrder ReferenceSetSpec
begin

text \<open>
  What a query promises about its results: the comparator orders the documents that match, and the
  target that the backend runs for a query with a limit to the last results matches the same
  documents in the opposite order.
\<close>

section \<open>Comparisons from comparisons\<close>

lemma comparison_then:
  assumes f: "comparison carrier f" and g: "comparison carrier g"
  shows "comparison carrier (\<lambda>a b. then_cmp (f a b) (g a b))"
proof
  show "then_cmp (f b a) (g b a) = ReverseOrder (then_cmp (f a b) (g a b))" if "carrier a" "carrier b" for a b
    using comparison.reverse [OF f that] comparison.reverse [OF g that] by (simp add: then_cmp_def)
  show "then_cmp (f a c) (g a c) = then_cmp (f b c) (g b c)"
    if "carrier a" "carrier b" "carrier c" "then_cmp (f a b) (g a b) = Same" for a b c
    using comparison.same [OF f that(1-3)] comparison.same [OF g that(1-3)] that(4)
    by (simp add: then_cmp_def split: if_splits)
  show "then_cmp (f a c) (g a c) = Ascending"
    if "carrier a" "carrier b" "carrier c" "then_cmp (f a b) (g a b) = Ascending" "then_cmp (f b c) (g b c) = Ascending" for a b c
    using comparison.same [OF f that(1-3)] comparison.same_right [OF f that(1-3)] comparison.ascending [OF f that(1-3)]
      comparison.ascending [OF g that(1-3)] that(4,5)
    by (cases "f a b"; cases "f b c") (simp_all add: then_cmp_def)
qed

lemma comparison_converse:
  assumes f: "comparison carrier f"
  shows "comparison carrier (\<lambda>a b. ReverseOrder (f a b))"
proof
  show "ReverseOrder (f b a) = ReverseOrder (ReverseOrder (f a b))" if "carrier a" "carrier b" for a b
    using comparison.reverse [OF f that] by simp
  show "ReverseOrder (f a c) = ReverseOrder (f b c)"
    if "carrier a" "carrier b" "carrier c" "ReverseOrder (f a b) = Same" for a b c
    using comparison.same [OF f that(1-3)] that(4) by simp
  show "ReverseOrder (f a c) = Ascending"
    if "carrier a" "carrier b" "carrier c" "ReverseOrder (f a b) = Ascending" "ReverseOrder (f b c) = Ascending" for a b c
    using comparison.ascending [OF f that(3,2,1)] comparison.reverse [OF f that(2,1)] comparison.reverse [OF f that(3,2)]
      comparison.reverse [OF f that(3,1)] that(4,5) by simp
qed

lemma comparison_image:
  assumes f: "comparison carrier f" and "\<And>a. carrier' a \<Longrightarrow> carrier (h a)"
    and "\<And>a b. carrier' a \<Longrightarrow> carrier' b \<Longrightarrow> g a b = f (h a) (h b)"
  shows "comparison carrier' g"
  by standard (metis assms(2,3) comparison.reverse [OF f], metis assms(2,3) comparison.same [OF f],
      metis assms(2,3) comparison.ascending [OF f])

lemma comparison_Compare: "comparison carrier (\<lambda>a b. Compare (h a) (h b))"
proof
  show "Compare (h b) (h a) = ReverseOrder (Compare (h a) (h b))" for a b by (rule Compare_reverse)
  show "Compare (h a) (h c) = Compare (h b) (h c)" if "Compare (h a) (h b) = Same" for a b c
    using order_laws_Compare [of h a b c] that by (simp add: order_laws_def)
  show "Compare (h a) (h c) = Ascending" if "Compare (h a) (h b) = Ascending" "Compare (h b) (h c) = Ascending" for a b c
    using order_laws_Compare [of h a b c] that by (simp add: order_laws_def)
qed

section \<open>Fields of documents\<close>

lemma IsKeyFieldPath_iff [simp]: "IsKeyFieldPath path \<longleftrightarrow> path = KeyFieldPath"
  by (cases path) (auto simp: IsKeyFieldPath_def KeyFieldPath_def first_segment_def HARD_ASSERT_def)

text \<open>The values that a path into the data can find are all well formed.\<close>

fun sound_data :: "Value \<Rightarrow> bool" where
  "sound_data (map_value fs) \<longleftrightarrow> well_formed (map_value fs) \<and> list_all (\<lambda>(key, v). sound_data v) fs"
| "sound_data v \<longleftrightarrow> well_formed v"

lemma sound_well_formed: "sound_data v \<Longrightarrow> well_formed v"
  by (cases v) auto

lemma FindEntry_in: "FindEntry v s = Some e \<Longrightarrow> \<exists>fs. v = map_value fs \<and> e \<in> set fs"
proof -
  assume "FindEntry v s = Some e"
  then obtain fs where v: "v = map_value fs" and "e \<in> set (equal_range_entries fs s)"
    by (auto simp: FindEntry_def split: Value.splits list.splits)
  then show ?thesis by (auto simp: equal_range_entries_def dest!: set_takeWhileD dest: set_dropWhileD)
qed

lemma sound_Get: "sound_data v \<Longrightarrow> Get v path = Some w \<Longrightarrow> sound_data w"
proof (induction v path rule: Get.induct)
  case (2 v segment path)
  then obtain e where e: "FindEntry v segment = Some e" "Get (snd e) path = Some w" by (auto split: option.splits)
  obtain fs where "v = map_value fs" "e \<in> set fs" using FindEntry_in [OF e(1)] by blast
  then have "sound_data (snd e)" using 2(2) by (auto simp: list_all_iff)
  then show ?case using 2(1) [OF e(1)] e(2) by blast
qed simp

definition sortable :: "OrderBy list \<Rightarrow> Document \<Rightarrow> bool" where
  "sortable orders d \<longleftrightarrow> sound_data (document_value d) \<and>
     (\<forall>order \<in> set orders. order_field order = KeyFieldPath \<or> document_field d (order_field order) \<noteq> None)"

lemma sortable_Cons: "sortable (order # orders) d \<Longrightarrow> sortable [order] d \<and> sortable orders d"
  by (simp add: sortable_def)

section \<open>The comparator\<close>

definition order_cmp :: "Absl \<Rightarrow> OrderBy \<Rightarrow> Document \<Rightarrow> Document \<Rightarrow> ComparisonResult" where
  "order_cmp absl order a b = ApplyTo (order_direction order)
     (if order_field order = KeyFieldPath then Compare (document_key a) (document_key b)
      else value_cmp absl (the (document_field a (order_field order))) (the (document_field b (order_field order))))"

primrec orders_cmp :: "Absl \<Rightarrow> OrderBy list \<Rightarrow> Document \<Rightarrow> Document \<Rightarrow> ComparisonResult" where
  "orders_cmp absl [] a b = Same"
| "orders_cmp absl (order # orders) a b = then_cmp (order_cmp absl order a b) (orders_cmp absl orders a b)"

lemma field_well_formed:
  "sortable [order] d \<Longrightarrow> order_field order \<noteq> KeyFieldPath \<Longrightarrow>
   \<exists>v. document_field d (order_field order) = Some v \<and> well_formed v"
  by (auto simp: sortable_def document_field_def intro: sound_Get [THEN sound_well_formed])

lemma order_Compare_cmp:
  assumes "sortable [order] a" "sortable [order] b"
  shows "order_Compare absl order a b = Some (order_cmp absl order a b)"
proof (cases "order_field order = KeyFieldPath")
  case False
  then obtain v w where "document_field a (order_field order) = Some v" "well_formed v"
      "document_field b (order_field order) = Some w" "well_formed w"
    using field_well_formed assms by meson
  with False show ?thesis by (simp add: order_Compare_def order_cmp_def well_formed_comparable)
qed (simp add: order_Compare_def order_cmp_def)

lemma compare_orders_cmp:
  "sortable orders a \<Longrightarrow> sortable orders b \<Longrightarrow> compare_orders absl orders a b = Some (orders_cmp absl orders a b)"
proof (induction orders)
  case (Cons order orders)
  then have "sortable [order] a" "sortable [order] b" "sortable orders a" "sortable orders b"
    using sortable_Cons by blast+
  with Cons.IH show ?case by (simp add: order_Compare_cmp then_cmp_def)
qed simp

lemma comparison_order: "comparison (sortable [order]) (order_cmp absl order)"
proof -
  have base: "comparison (sortable [order]) (\<lambda>a b.
      if order_field order = KeyFieldPath then Compare (document_key a) (document_key b)
      else value_cmp absl (the (document_field a (order_field order))) (the (document_field b (order_field order))))"
  proof (cases "order_field order = KeyFieldPath")
    case True
    then show ?thesis by (simp add: comparison_Compare)
  next
    case False
    show ?thesis
      by (rule comparison_image [OF value_order_laws.comparison_axioms [of absl],
            where h = "\<lambda>d. the (document_field d (order_field order))"])
        (use False in \<open>auto dest: field_well_formed\<close>)
  qed
  show ?thesis
  proof (cases "order_direction order = Direction_Ascending")
    case True
    with base show ?thesis by (simp add: order_cmp_def [abs_def] ApplyTo_def)
  next
    case False
    with comparison_converse [OF base] show ?thesis by (simp add: order_cmp_def [abs_def] ApplyTo_def)
  qed
qed

lemma comparison_subset: "comparison carrier f \<Longrightarrow> (\<And>a. carrier' a \<Longrightarrow> carrier a) \<Longrightarrow> comparison carrier' f"
  by (erule comparison_image [where h = "\<lambda>a. a"]) simp_all

lemma comparison_orders: "comparison (sortable orders) (orders_cmp absl orders)"
proof (induction orders)
  case Nil
  show ?case by standard simp_all
next
  case (Cons order orders)
  have "comparison (sortable (order # orders)) (order_cmp absl order)"
    "comparison (sortable (order # orders)) (orders_cmp absl orders)"
    using comparison_subset [OF comparison_order] comparison_subset [OF Cons] sortable_Cons by blast+
  then show ?case by (simp add: comparison_then)
qed

interpretation query_order: comparison "sortable orders" "orders_cmp absl orders" for absl orders
  by (rule comparison_orders)

lemma ApplyTo_Same [simp]: "ApplyTo direction r = Same \<longleftrightarrow> r = Same"
  by (simp add: ApplyTo_def)

lemma Compare_Same: "Compare a b = Same \<longleftrightarrow> a = (b :: 'a::linorder)"
  by (auto simp: Compare_def)

lemma orders_cmp_Same:
  "orders_cmp absl orders a b = Same \<Longrightarrow> order \<in> set orders \<Longrightarrow> order_field order = KeyFieldPath \<Longrightarrow>
   document_key a = document_key b"
  by (induction orders) (auto simp: then_cmp_def order_cmp_def Compare_Same split: if_splits)

section \<open>Matching documents\<close>

definition filter_created :: "Absl \<Rightarrow> FieldFilter \<Rightarrow> bool" where
  "filter_created absl f \<longleftrightarrow> (\<exists>path op v. filter_Create absl path op v = Some f)"

lemma created_key_filter: "filter_created absl (KeyFieldFilter field op v key) \<Longrightarrow> field = KeyFieldPath"
  by (auto simp: filter_created_def filter_Create_def make_KeyFieldFilter_def Let_def
      split: if_splits Value.splits bind_splits)

lemma created_key_not_in_filter: "filter_created absl (KeyFieldNotInFilter field v keys) \<Longrightarrow> field = KeyFieldPath"
  by (auto simp: filter_created_def filter_Create_def make_KeyFieldFilter_def Let_def
      split: if_splits Value.splits bind_splits)

text \<open>An inequality only matches documents that have its field.\<close>

lemma inequality_field:
  assumes "filter_created absl f" "IsInequality f" "filter_Matches absl f d = Some True"
  shows "filter_field f = KeyFieldPath \<or> document_field d (filter_field f) \<noteq> None"
proof (cases f)
  case (FieldFilter field op v)
  with assms(3) show ?thesis by (auto simp: field_Matches_def split: option.splits)
next
  case (NotInFilter field v)
  with assms(3) show ?thesis by (auto simp: not_in_Matches_def split: option.splits if_splits bind_splits)
next
  case (KeyFieldFilter field op v key)
  with assms(1) created_key_filter show ?thesis by auto
next
  case (KeyFieldNotInFilter field v keys)
  with assms(1) created_key_not_in_filter show ?thesis by auto
qed (use assms(2) in \<open>simp_all add: IsInequality_def\<close>)

lemma filters_match_all: "filters_match absl fs d = Some True \<Longrightarrow> f \<in> set fs \<Longrightarrow> filter_Matches absl f d = Some True"
  by (induction fs) (auto split: bind_splits if_splits)

lemma matches_parts:
  assumes "Matches absl q d = Some True"
  shows "MatchesOrderBy q d" "filters_match absl (query_filters q) d = Some True" "\<exists>orders. order_bys q = Some orders"
  using assms by (auto simp: Matches_def MatchesFilters_def MatchesBounds_def split: if_splits bind_splits)

lemma with_key_order_fields: "order \<in> set (with_key_order orders) \<Longrightarrow> order \<in> set orders \<or> order_field order = KeyFieldPath"
  by (auto simp: with_key_order_def Let_def split: if_splits)

lemma order_bys_fields:
  assumes "order_bys q = Some orders" "order \<in> set orders"
  shows "order \<in> set (explicit_order_bys q) \<or> order_field order = KeyFieldPath \<or>
    InequalityFilterField q = Some (order_field order)"
  using assms with_key_order_fields [of order "explicit_order_bys q"]
  by (auto simp: order_bys_def implicit_orders_def HARD_ASSERT_def split: option.splits if_splits)

lemma order_bys_key:
  assumes "order_bys q = Some orders"
  shows "\<exists>order \<in> set orders. order_field order = KeyFieldPath"
  using assms
  by (auto simp: order_bys_def implicit_orders_def with_key_order_def HARD_ASSERT_def Let_def split: option.splits if_splits)

lemma matching_fields:
  assumes "\<forall>f \<in> set (query_filters q). filter_created absl f" "Matches absl q d = Some True"
    "order_bys q = Some orders" and order: "order \<in> set orders"
  shows "order_field order = KeyFieldPath \<or> document_field d (order_field order) \<noteq> None"
  using order_bys_fields [OF assms(3) order]
proof (elim disjE)
  assume "order \<in> set (explicit_order_bys q)"
  with matches_parts(1) [OF assms(2)] show ?thesis by (auto simp: MatchesOrderBy_def)
next
  assume "InequalityFilterField q = Some (order_field order)"
  then obtain f where "f \<in> set (query_filters q)" "IsInequality f" "filter_field f = order_field order"
    by (auto simp: InequalityFilterField_def dest: find_in)
  with inequality_field [of absl f d] filters_match_all [OF matches_parts(2) [OF assms(2)]] assms(1) show ?thesis by auto
qed simp

lemma matching_sortable:
  assumes "\<forall>f \<in> set (query_filters q). filter_created absl f" "Matches absl q d = Some True"
    "sound_data (document_value d)" "order_bys q = Some orders"
  shows "sortable orders d"
  unfolding sortable_def using matching_fields [OF assms(1,2,4)] assms(3) by blast

text \<open>
  C4: The comparator of a query orders its results.  For a query whose filters were made by
  \<open>FieldFilter::Create\<close> and any three documents that match it, the comparator never runs into a
  missing field: it gives a result on each pair, reverses it with its arguments, is transitive, and
  puts two documents at one place only if they have the same key.  So the field of an inequality
  that is ordered by without being named, and the key at the end, are always there to decide.
\<close>

theorem query_comparator:
  "\<forall>f \<in> set (query_filters q). filter_created absl f \<Longrightarrow>
   Matches absl q d1 = Some True \<Longrightarrow> Matches absl q d2 = Some True \<Longrightarrow> Matches absl q d3 = Some True \<Longrightarrow>
   sound_data (document_value d1) \<Longrightarrow> sound_data (document_value d2) \<Longrightarrow> sound_data (document_value d3) \<Longrightarrow>
   \<exists>cmp c12 c23 c13. Comparator absl q = Some cmp \<and>
     cmp d1 d2 = Some c12 \<and> cmp d2 d3 = Some c23 \<and> cmp d1 d3 = Some c13 \<and>
     cmp d2 d1 = Some (ReverseOrder c12) \<and> cmp d1 d1 = Some Same \<and>
     (c12 = Same \<longrightarrow> document_key d1 = document_key d2 \<and> c13 = c23) \<and>
     (c12 \<noteq> Descending \<and> c23 \<noteq> Descending \<longrightarrow> c13 \<noteq> Descending)"
proof -
  assume q: "\<forall>f \<in> set (query_filters q). filter_created absl f"
    and m: "Matches absl q d1 = Some True" "Matches absl q d2 = Some True" "Matches absl q d3 = Some True"
    and d: "sound_data (document_value d1)" "sound_data (document_value d2)" "sound_data (document_value d3)"
  obtain orders where orders: "order_bys q = Some orders" using matches_parts(3) [OF m(1)] by blast
  obtain order where key: "order \<in> set orders" "order_field order = KeyFieldPath" using order_bys_key [OF orders] by blast
  then have cmp: "Comparator absl q = Some (compare_orders absl orders)"
    using orders by (auto simp: Comparator_def HARD_ASSERT_def)
  note s = matching_sortable [OF q m(1) d(1) orders] matching_sortable [OF q m(2) d(2) orders]
    matching_sortable [OF q m(3) d(3) orders]
  show ?thesis
    unfolding cmp
    using compare_orders_cmp [OF s(1,2)] compare_orders_cmp [OF s(2,3)] compare_orders_cmp [OF s(1,3)]
      compare_orders_cmp [OF s(2,1)] compare_orders_cmp [OF s(1,1)] query_order.reverse [OF s(1,2), of absl]
      query_order.reflexive [OF s(1), of absl] query_order.same [OF s, of absl]
      query_order.not_descending_trans [OF s, of absl] orders_cmp_Same [OF _ key, of absl d1 d2] by auto
qed

lemma Matches_iff:
  "Matches absl q d = Some True \<longleftrightarrow> is_found_document d \<and> MatchesPathAndCollectionGroup q d = Some True \<and>
     MatchesOrderBy q d \<and> filters_match absl (query_filters q) d = Some True \<and> MatchesBounds absl q d = Some True"
  by (auto simp: Matches_def MatchesFilters_def split: bind_splits)

lemma MatchesBounds_iff:
  "order_bys q = Some orders \<Longrightarrow> MatchesBounds absl q d = Some True \<longleftrightarrow>
     (\<forall>b. query_start_at q = Some b \<longrightarrow> SortsBeforeDocument absl b orders d = Some True) \<and>
     (\<forall>b. query_end_at q = Some b \<longrightarrow> SortsBeforeDocument absl b orders d = Some False)"
  by (auto simp: MatchesBounds_def split: bind_splits option.splits)

text \<open>A collection with documents that have one number.\<close>

definition example_query :: FilteredQuery where
  "example_query = WithLimitToLast 2 (StartingAt (FromValue [integer_value 1] True)
     ((make_Query [[99]] None)\<lparr>query_filters := [FieldFilter [[97]] GreaterThan (integer_value 0)]\<rparr>))"

definition example_document :: "u8 \<Rightarrow> s64 \<Rightarrow> Document" where
  "example_document c i = \<lparr>document_key = [[99], [c]], document_type = kFoundDocument, document_version = SnapshotVersion_None,
     document_value = map_value [(Some [97], integer_value i)], document_state = kSynced\<rparr>"

lemma example_created: "\<forall>f \<in> set (query_filters example_query). filter_created absl f"
proof -
  have "filter_Create absl [[97]] GreaterThan (integer_value 0) = Some (FieldFilter [[97]] GreaterThan (integer_value 0))"
    by (simp add: filter_Create_def KeyFieldPath_def kDocumentKeyPath_def SortFields.simps)
  then show ?thesis
    by (auto simp: example_query_def WithLimitToLast_def StartingAt_def make_Query_def filter_created_def)
qed

lemma example_order_bys: "order_bys example_query = Some [\<lparr>order_field = [[97]], order_direction = Direction_Ascending\<rparr>,
    \<lparr>order_field = KeyFieldPath, order_direction = Direction_Ascending\<rparr>]"
  by (simp add: order_bys_def example_query_def WithLimitToLast_def StartingAt_def make_Query_def InequalityFilterField_def
      FirstOrderByField_def IsInequality_def implicit_orders_def KeyFieldPath_def kDocumentKeyPath_def)

lemma example_field: "document_field (example_document c i) [[97]] = Some (integer_value i)"
  by (simp add: document_field_def example_document_def FindEntry_def equal_range_entries_def entry_key_def MakeStringView_def)

lemma example_matches: "0 < sint i \<Longrightarrow> Matches absl example_query (example_document c i) = Some True"
proof -
  assume i: "0 < sint i"
  have "MatchesBounds absl example_query (example_document c i) = Some True"
    unfolding MatchesBounds_iff [OF example_order_bys] using i
    by (auto simp: example_query_def WithLimitToLast_def StartingAt_def make_Query_def FromValue_def SortsBeforeDocument_def
        HARD_ASSERT_def compare_component_def example_field KeyFieldPath_def kDocumentKeyPath_def SortFields.simps
        VCompare.simps CompareInt64_def Compare_def ApplyTo_def)
  moreover have "filters_match absl (query_filters example_query) (example_document c i) = Some True"
    using i by (simp add: example_query_def WithLimitToLast_def StartingAt_def make_Query_def field_Matches_def example_field
        VCompare.simps CompareInt64_def Compare_def)
  ultimately show ?thesis
    by (simp add: Matches_iff MatchesOrderBy_def is_found_document_def MatchesPathAndCollectionGroup_def IsDocumentKey_def
        IsImmediateParentOf_def example_query_def WithLimitToLast_def StartingAt_def make_Query_def)
      (simp add: example_document_def)
qed

lemma example_sound: "sound_data (document_value (example_document c i))"
  by (simp add: example_document_def)

lemma query_comparator_witness:
  "\<exists>cmp c12 c23 c13. Comparator example_absl example_query = Some cmp \<and>
     cmp (example_document 1 5) (example_document 2 5) = Some c12 \<and>
     cmp (example_document 2 5) (example_document 3 4) = Some c23 \<and>
     cmp (example_document 1 5) (example_document 3 4) = Some c13 \<and>
     cmp (example_document 2 5) (example_document 1 5) = Some (ReverseOrder c12) \<and>
     cmp (example_document 1 5) (example_document 1 5) = Some Same \<and>
     (c12 = Same \<longrightarrow> document_key (example_document 1 5) = document_key (example_document 2 5) \<and> c13 = c23) \<and>
     (c12 \<noteq> Descending \<and> c23 \<noteq> Descending \<longrightarrow> c13 \<noteq> Descending)"
  by (rule query_comparator) (simp_all add: example_created example_matches example_sound)

section \<open>Limits to the last results\<close>

lemma flip_order_simps [simp]:
  "order_field (flip_order order) = order_field order"
  "ApplyTo (order_direction (flip_order order)) r = ReverseOrder (ApplyTo (order_direction order) r)"
  by (cases "order_direction order"; simp add: flip_order_def ApplyTo_def)+

lemma flip_order_Compare: "order_Compare absl (flip_order order) a b = map_option ReverseOrder (order_Compare absl order a b)"
  by (simp add: order_Compare_def map_option_bind comp_def)

lemma flip_compare_orders:
  "compare_orders absl (map flip_order orders) a b = map_option ReverseOrder (compare_orders absl orders a b)"
  by (induction orders) (auto simp: flip_order_Compare split: bind_splits)

lemma SortFields_twice: "SortFields (SortFields v) = SortFields v"
proof (induction v rule: measure_induct_rule [where f = size])
  case (less v)
  show ?case
  proof (cases v)
    case (map_value fs)
    let ?k = "\<lambda>(key, v :: Value). MakeStringView key" and ?g = "\<lambda>(key, v). (key, SortFields v)"
    let ?fs = "map ?g (sort_key ?k fs)"
    have "map ?k ?fs = map ?k (sort_key ?k fs)" by auto
    then have sorted: "sort_key ?k ?fs = ?fs" by (intro sort_key_id_if_sorted) (simp only: sorted_sort_key)
    have "SortFields (SortFields w) = SortFields w" if "(key, w) \<in> set fs" for key w
      using less.IH [of w] entry_size [OF that] by (simp add: map_value)
    then have again: "map ?g ?fs = ?fs" by auto
    have once: "SortFields v = map_value ?fs" by (subst SortFields.simps) (simp add: map_value)
    have "SortFields (map_value ?fs) = map_value (map ?g (sort_key ?k ?fs))" by (subst SortFields.simps) simp
    then show ?thesis unfolding once by (simp only: sorted again)
  next
    case (array_value vs)
    have "SortFields (SortFields w) = SortFields w" if "w \<in> set vs" for w
      using less.IH [of w] size_list_estimation' [OF that order_refl, of size] by (simp add: array_value)
    moreover have "SortFields (array_value ws) = array_value (map SortFields ws)" for ws
      by (subst SortFields.simps) simp
    ultimately show ?thesis by (simp add: array_value)
  qed (subst SortFields.simps; simp add: SortFields.simps)+
qed

definition bound_made :: "Bound option \<Rightarrow> bool" where
  "bound_made b \<longleftrightarrow> b = None \<or> (\<exists>position before. b = Some (FromValue position before))"

lemma flip_bound_made [simp]: "flip_bound (FromValue position before) = FromValue position (\<not> before)"
  by (simp add: flip_bound_def FromValue_def SortFields_twice)

lemma flip_component:
  "compare_component absl v (flip_order order) d = map_option ReverseOrder (compare_component absl v order d)"
  by (simp add: compare_component_def map_option_bind comp_def)

lemma flip_position:
  "compare_position absl position (map flip_order orders) d = map_option ReverseOrder (compare_position absl position orders d)"
  by (induction absl position orders d rule: compare_position.induct) (auto simp: flip_component split: bind_splits)

text \<open>With the orders flipped, a document is beyond the flipped bound when it is not beyond the bound.\<close>

lemma flip_SortsBefore:
  "SortsBeforeDocument absl (FromValue position (\<not> before)) (map flip_order orders) d =
   map_option Not (SortsBeforeDocument absl (FromValue position before) orders d)"
  by (auto simp: SortsBeforeDocument_def flip_position FromValue_def HARD_ASSERT_def split: bind_splits)

lemma order_bys_explicit:
  assumes "order_bys q = Some orders"
  shows "set (explicit_order_bys q) \<subseteq> set orders"
  using assms by (auto simp: order_bys_def FirstOrderByField_def with_key_order_def HARD_ASSERT_def Let_def
      split: option.splits if_splits list.splits)

lemma order_bys_first:
  assumes "order_bys q = Some orders"
  shows "\<exists>order rest. orders = order # rest \<and> (InequalityFilterField q = None \<or> InequalityFilterField q = Some (order_field order))"
proof (cases "explicit_order_bys q")
  case Nil
  with assms show ?thesis
    by (auto simp: order_bys_def FirstOrderByField_def implicit_orders_def with_key_order_def HARD_ASSERT_def split: option.splits if_splits)
next
  case (Cons order rest)
  then have "InequalityFilterField q = None \<or> InequalityFilterField q = Some (order_field order)"
    "orders = with_key_order (order # rest)"
    using assms by (simp_all add: order_bys_def FirstOrderByField_def HARD_ASSERT_def split: option.splits if_splits)
  then show ?thesis by (auto simp: with_key_order_def Let_def)
qed

lemma order_bys_flipped:
  assumes "order_bys q = Some orders" "query_filters q' = query_filters q" "explicit_order_bys q' = map flip_order orders"
  shows "order_bys q' = Some (map flip_order orders)"
proof -
  obtain order rest where o: "orders = order # rest"
      "InequalityFilterField q = None \<or> InequalityFilterField q = Some (order_field order)"
    using order_bys_first [OF assms(1)] by blast
  have "InequalityFilterField q' = InequalityFilterField q" by (simp add: InequalityFilterField_def assms(2))
  moreover have "FirstOrderByField q' = Some (order_field order)" by (simp add: FirstOrderByField_def assms(3) o(1))
  moreover have "with_key_order (map flip_order orders) = map flip_order orders"
    using order_bys_key [OF assms(1)] by (auto simp: with_key_order_def)
  ultimately show ?thesis using o(2) assms(3) by (auto simp: order_bys_def HARD_ASSERT_def)
qed

text \<open>
  C14: A query for the last results runs as a target for the first results of the opposite order.
  When \<open>ToTarget\<close> turns a query with \<open>LimitToLast\<close> into its target, a query for the first
  results of that target matches exactly the documents the query matches, its comparator is the
  comparator of the query reversed, on all documents and with the same failures, and the limit is
  the same; the filters are made by \<open>FieldFilter::Create\<close> and the bounds by \<open>Bound::FromValue\<close>.
\<close>

theorem limit_to_last_target:
  "query_limit_type q = LimitType_Last \<Longrightarrow> ToTarget q = Some t \<Longrightarrow>
   \<forall>f \<in> set (query_filters q). filter_created absl f \<Longrightarrow>
   bound_made (query_start_at q) \<Longrightarrow> bound_made (query_end_at q) \<Longrightarrow>
   (\<exists>cmp cmp'. Comparator absl q = Some cmp \<and> Comparator absl (query_of_target LimitType_First t) = Some cmp' \<and>
      (\<forall>a b. cmp' a b = map_option ReverseOrder (cmp a b))) \<and>
   (\<forall>d. Matches absl (query_of_target LimitType_First t) d = Some True \<longleftrightarrow> Matches absl q d = Some True) \<and>
   query_limit (query_of_target LimitType_First t) = query_limit q"
proof -
  assume q: "query_limit_type q = LimitType_Last" "ToTarget q = Some t" "\<forall>f \<in> set (query_filters q). filter_created absl f"
    "bound_made (query_start_at q)" "bound_made (query_end_at q)"
  let ?q = "query_of_target LimitType_First t"
  obtain orders where orders: "order_bys q = Some orders" using q(2) by (auto simp: ToTarget_def split: bind_splits)
  have parts: "query_filters ?q = query_filters q" "explicit_order_bys ?q = map flip_order orders"
      "query_start_at ?q = map_option flip_bound (query_end_at q)" "query_end_at ?q = map_option flip_bound (query_start_at q)"
      "query_path ?q = query_path q" "collection_group ?q = collection_group q" "query_limit ?q = query_limit q"
    using q(1,2) orders by (auto simp: ToTarget_def query_of_target_def)
  note orders' = order_bys_flipped [OF orders parts(1,2)]
  have "Comparator absl q = Some (compare_orders absl orders)" "Comparator absl ?q = Some (compare_orders absl (map flip_order orders))"
    using order_bys_key [OF orders] orders orders' by (auto simp: Comparator_def HARD_ASSERT_def)
  then have cmp: "\<exists>cmp cmp'. Comparator absl q = Some cmp \<and> Comparator absl ?q = Some cmp' \<and>
      (\<forall>a b. cmp' a b = map_option ReverseOrder (cmp a b))"
    by (simp add: flip_compare_orders)
  have bounds: "MatchesBounds absl ?q d = Some True \<longleftrightarrow> MatchesBounds absl q d = Some True" for d
    using q(4,5) unfolding MatchesBounds_iff [OF orders] MatchesBounds_iff [OF orders'] parts
    by (auto simp: bound_made_def flip_SortsBefore)
  have "Matches absl ?q d = Some True \<longleftrightarrow> Matches absl q d = Some True" for d
  proof -
    have path: "MatchesPathAndCollectionGroup ?q d = MatchesPathAndCollectionGroup q d"
      by (simp only: MatchesPathAndCollectionGroup_def parts)
    have "MatchesOrderBy ?q d \<longrightarrow> MatchesOrderBy q d"
      using order_bys_explicit [OF orders] by (auto simp: MatchesOrderBy_def parts)
    moreover have "MatchesOrderBy ?q d" if "Matches absl q d = Some True"
      using matching_fields [OF q(3) that orders] by (auto simp: MatchesOrderBy_def parts)
    ultimately show ?thesis using bounds [of d] path by (auto simp: Matches_iff parts)
  qed
  with cmp parts(7) show ?thesis by blast
qed

lemma limit_to_last_target_witness:
  "(\<exists>cmp cmp'. Comparator example_absl example_query = Some cmp \<and>
      Comparator example_absl (query_of_target LimitType_First (the (ToTarget example_query))) = Some cmp' \<and>
      (\<forall>a b. cmp' a b = map_option ReverseOrder (cmp a b))) \<and>
   (\<forall>d. Matches example_absl (query_of_target LimitType_First (the (ToTarget example_query))) d = Some True \<longleftrightarrow>
      Matches example_absl example_query d = Some True) \<and>
   query_limit (query_of_target LimitType_First (the (ToTarget example_query))) = query_limit example_query"
proof (rule limit_to_last_target)
  show "query_limit_type example_query = LimitType_Last" by (simp add: example_query_def WithLimitToLast_def)
  show "ToTarget example_query = Some (the (ToTarget example_query))" by (simp add: ToTarget_def example_order_bys)
  show "\<forall>f \<in> set (query_filters example_query). filter_created example_absl f" by (rule example_created)
  show "bound_made (query_start_at example_query)" "bound_made (query_end_at example_query)"
    by (auto simp: bound_made_def example_query_def WithLimitToLast_def StartingAt_def make_Query_def)
qed

end
