(* ===== verification/Spec2Isabelle.thy ===== *)
theory Spec2Isabelle
  imports RecordSpec ExpressionSpec CfiRules FrameChain AllocatorSpec OrderedSpec SortedMapProps LevelDbKeySpec
    EagerCollection MutationQueueProps LruCollection RemoteEventsSpec LocalStoreEvents ValueProps QuerySpec
begin

text \<open>
  The application is a Flutter client that ships the Firebase SDK for iOS, with its sources, under
  \<open>ios/firebase-ios-sdk\<close>.  Its C and C++ code with logic of its own is the crash reporter
  (\<open>Crashlytics/Crashlytics\<close>, here \<open>CLS/\<close>) and the core of the document database
  (\<open>Firestore/core/src\<close>, here \<open>FS/\<close>).  This development models the parts of both that
  compute: what runs inside a crash handler to walk a stack, and what keeps documents, pending writes
  and the state of queries on the device.

  \<^bold>\<open>Conventions.\<close>  A definition has the name of the function, class or constant it translates, with a
  prefix where names repeat.  State is a record that operations take and return.  \<open>None\<close> in
  the option monad is an execution without a result: behaviour that C or C++ leaves undefined, a failed
  \<open>HARD_ASSERT\<close> or an exception; errors the code reports are values.  Machine integers keep their
  width.  Code that is not in the repository (the SDK headers of Apple, Abseil, \<open>malloc\<close> and \<open>mmap\<close>)
  is a parameter; what is relied on of it is a named predicate with an instance.  \<open>Prelude\<close> holds the
  machine integers, the memory a crash handler reads, checked arithmetic and shared lemmas.

  \<^bold>\<open>The stack walk of the crash reporter.\<close>  \<open>FIRCLSUnwindNextFrame\<close> tries the strategies for a frame in
  turn: the compact unwind table, the DWARF records it points to, a scan of the stack, the frame
  pointer.
    \<^item> \<open>DataParsing\<close>, \<open>Leb128\<close>, \<open>Readers\<close>, \<open>EncodedAddress\<close> (\<open>CLS/Unwind/Dwarf/FIRCLSDataParsing.c\<close>): the readers of
      unwind data, each an instance of the locale \<open>reader\<close>: it inverts the encoder of its format and
      moves the cursor forward.
    \<^item> \<open>ExpressionStack\<close>, \<open>ExpressionMachine\<close>, \<open>ExpressionSpec\<close> (\<open>FIRCLSDwarfExpressionMachine.c\<close>): the stack of
      100 values and the opcodes, against a semantics on lists.
    \<^item> \<open>DwarfRecords\<close>, \<open>RecordSpec\<close>, \<open>DwarfUnwind\<close>, \<open>CfiSpec\<close>, \<open>CfiRules\<close>, \<open>AssignSpec\<close> (\<open>FIRCLSDwarfUnwind.c\<close>): record
      parsers, call frame instructions, and the registers of the caller.
    \<^item> \<open>ThreadState\<close>, \<open>Registers\<close> (\<open>FIRCLSThreadState.c\<close>): the register file of the 64-bit CPUs, with the locale
      \<open>register_file\<close>.
    \<^item> \<open>CompactUnwind\<close>, \<open>CompactSpec\<close> (\<open>FIRCLSCompactUnwind.c\<close>): the search in the table of the linker.
    \<^item> \<open>BinaryImage\<close>, \<open>UnwindX86\<close>, \<open>X86Spec\<close>, \<open>UnwindArm\<close>, \<open>Unwind\<close>, \<open>UnwindSpec\<close>, \<open>FrameChain\<close> (\<open>FIRCLSBinaryImage.m\<close>,
      \<open>FIRCLSUnwind_x86.c\<close>, \<open>FIRCLSUnwind_arm.c\<close>, \<open>FIRCLSUnwind.c\<close>): one frame, and walks as sequences of them.
    \<^item> \<open>Allocator\<close>, \<open>AllocatorSpec\<close> (\<open>CLS/Helpers/FIRCLSAllocate.c\<close>): the allocator for crash time, with concurrent
      requests as interleaved steps.

  \<^bold>\<open>Containers and keys of the database.\<close>
    \<^item> \<open>OrderedCode\<close>, \<open>OrderedStrings\<close>, \<open>OrderedNumbers\<close>, \<open>OrderedSigned\<close>, \<open>OrderedSpec\<close> (\<open>FS/util/ordered_code.cc\<close>): encodings
      whose byte order is the order of the values (locale \<open>ordered_code\<close>).
    \<^item> \<open>DocumentPath\<close>, \<open>FieldPaths\<close> (\<open>FS/model\<close>): names of documents and fields; \<open>LevelDbKey\<close>, \<open>LevelDbKeySpec\<close>
      (\<open>FS/local/leveldb_key.cc\<close>): the keys of rows, their round trip, order and prefixes.
    \<^item> \<open>LlrbNode\<close>, \<open>LlrbSpec\<close>, \<open>LlrbRoot\<close>, \<open>TreeMap\<close>, \<open>TreeMapSpec\<close>, \<open>ArrayMap\<close>, \<open>ArrayMapSpec\<close>, \<open>ForwardIterator\<close>, \<open>SortedMap\<close>,
      \<open>SortedEntries\<close>, \<open>SortedMapSpec\<close>, \<open>SortedRanges\<close>, \<open>SortedMapProps\<close> (\<open>FS/immutable\<close>): persistent sorted maps.  The
      locale \<open>sorted_map\<close>, which gives \<open>finite_map\<close>, is met by the array, the red-black tree and the union of both.

  \<^bold>\<open>Values, documents and queries.\<close>
    \<^item> \<open>MixedNumbers\<close>, \<open>ModelValues\<close>, \<open>ValueOrder\<close>, \<open>ValueProps\<close> (\<open>FS/util/comparison.cc\<close>, \<open>FS/model/value_util.cc\<close>): the
      values of fields and their order (locale \<open>comparison\<close>).
    \<^item> \<open>ObjectValues\<close>, \<open>ObjectSpec\<close>, \<open>Transforms\<close>, \<open>Mutations\<close> (\<open>FS/model\<close>): the fields of a document as finite maps,
      and what writes do to them.
    \<^item> \<open>Queries\<close>, \<open>QuerySpec\<close> (\<open>FS/core\<close>): filters, orders, bounds, queries and targets, and the order of results.

  \<^bold>\<open>The local store.\<close>  \<open>LocalStore\<close> runs transactions over the persistence, which holds the queue of
  mutations, the targets and the documents; each tells a reference delegate what it lets go of, and the
  delegate decides what is collected.
    \<^item> \<open>DocumentReferences\<close>, \<open>ReferenceSetSpec\<close> (\<open>FS/local/reference_set.cc\<close>): a relation kept as two sorted sets.
    \<^item> \<open>MutationQueue\<close>, \<open>MutationQueueSpec\<close>, \<open>MutationQueueProps\<close> (\<open>memory_mutation_queue.cc\<close>): the queue as the list of
      pending batches; the locale \<open>mutation_delegate\<close> is what it asks of the delegate.
    \<^item> \<open>TargetCache\<close>, \<open>MemoryPersistence\<close>, \<open>PersistenceSpec\<close>, \<open>EagerCollection\<close>, \<open>LruCollection\<close> (\<open>memory_*.cc\<close>,
      \<open>lru_garbage_collector.cc\<close>): the caches and both collectors.
    \<^item> \<open>RemoteEvents\<close>, \<open>RemoteEventsSpec\<close> (\<open>FS/remote/remote_event.cc\<close>): the watch stream as changes of membership.
    \<^item> \<open>LocalStore\<close>, \<open>LocalStoreEvents\<close> (\<open>FS/local/local_store.cc\<close>): the transactions for writes, acknowledgements,
      remote events and bundles.

  \<^bold>\<open>What the lemmas show.\<close>  For the readers, keys, paths, records and permutations: decoding inverts encoding,
  and bytes compare as values.  For the expression machine, the call frame program, the maps, the queue,
  the reference set, the aggregator and the fields of documents: the code refines a simpler state
  (lists, finite maps, relations).  For the walk, the tables and the iterations: they end, and with what
  result.  For the collectors: nothing that is referenced goes, and what stays behind is bounded.  For
  values and queries: their comparisons are orders.  Where the code does less than its comments say, the
  condition under which it works is a hypothesis of the lemma.

  \<^bold>\<open>Loops and bounds.\<close>  Loops that C does not bound are \<open>partial_function (option)\<close>: the compare-and-swap
  loop of the allocator, the scan of the stack, the binary search, \<open>strlen\<close>, iteration over a range, and the reader
  of path segments; for the search and the iterations the result is shown to exist.  All other loops are total
  functions, with the bytes left to read or the size of a value as their measure; there is no fuel.  A walk ends
  because the context counts up to \<open>FIRCLSUnwindMaxFrames\<close>, the 600000 frames of macOS.  The size of a tree is kept
  in 31 bits and the capacity of the array map is 25.  Unsigned LEB128 values are read back below \<open>2^31\<close> and signed
  ones from \<open>- 2^27\<close>, because the readers shift an \<open>int\<close>.

  \<^bold>\<open>Not modelled.\<close>  The 32-bit CPUs.  Filling the table of images, crash handlers and the writing of
  reports: system calls and files.  The effect of a mutation is a parameter of \<open>LocalStore\<close>;
  \<open>Mutations\<close> models it on its own.  The match of a query is a parameter of the document cache; \<open>Queries\<close> models it on
  its own.  Running queries over collections, views and the differences between them; the sync engine,
  the remote store and the streams: callbacks over libraries outside the repository.  The caches over LevelDB
  and the conversion to protocol buffers: the libraries are not in the repository.  Threads, files and
  formatting under \<open>FS/util\<close>; hashing and debug output everywhere; the Objective-C and Swift products of the SDK;
  the Flutter application itself, which is not C.
\<close>

end
